(* ===== verification/VedPrelude.thy ===== *)
theory VedPrelude
  imports Main "HOL-Library.Word"
begin

text \<open>
  Shared vocabulary of the VedDB development: the machine integers of the Rust sources as
  words, byte strings, little-endian encoding, the result type of fallible operations and the
  generic facts on lists, words and masks that the component theories use.
  \<open>ved_simps\<close> collects the executable definitions a concrete evaluation unfolds.
\<close>

unbundle bit_operations_syntax

named_theorems ved_simps \<open>definitions unfolded when a concrete run is evaluated\<close>

section \<open>Machine integers and byte strings\<close>

type_synonym u8 = "8 word"
type_synonym u32 = "32 word"
type_synonym u64 = "64 word"
type_synonym bytes = "u8 list"

text \<open>Rust's \<open>Result\<close>: \<open>Inl\<close> is \<open>Err\<close>, \<open>Inr\<close> is \<open>Ok\<close>.\<close>

type_synonym ('e, 'a) result = "'e + 'a"

text \<open>\<open>u64::saturating_sub\<close>.\<close>

definition saturating_sub :: "u64 \<Rightarrow> u64 \<Rightarrow> u64" where
  "saturating_sub a b = (if b \<le> a then a - b else 0)"

lemma unat_saturating_sub: "unat (saturating_sub a b) = unat a - unat b"
  by (auto simp: saturating_sub_def word_le_nat_alt unat_sub_if')

section \<open>Little-endian encoding\<close>

text \<open>The \<open>n\<close> low bytes of a number, least significant first, and back.\<close>

fun le_bytes :: "nat \<Rightarrow> nat \<Rightarrow> bytes" where
  "le_bytes 0 x = []"
| "le_bytes (Suc n) x = of_nat (x mod 256) # le_bytes n (x div 256)"

fun le_val :: "bytes \<Rightarrow> nat" where
  "le_val [] = 0"
| "le_val (b # bs) = unat b + 256 * le_val bs"

lemma length_le_bytes [simp]: "length (le_bytes n x) = n"
  by (induction n arbitrary: x) auto

lemma unat_u8_of_nat: "unat (of_nat x :: u8) = x mod 256"
  by (simp add: unat_of_nat)

lemma le_val_le_bytes: "le_val (le_bytes n x) = x mod 256 ^ n"
proof (induction n arbitrary: x)
  case 0
  then show ?case by simp
next
  case (Suc n)
  then show ?case by (simp add: unat_u8_of_nat mod_mult2_eq)
qed

lemma le_bytes_le_val: "le_bytes (length bs) (le_val bs) = bs"
proof (induction bs)
  case Nil
  then show ?case by simp
next
  case (Cons b bs)
  have b: "unat b < 256" using unsigned_less [of b] by simp
  then have "(unat b + 256 * le_val bs) mod 256 = unat b"
    and "(unat b + 256 * le_val bs) div 256 = le_val bs" by simp_all
  with Cons show ?case by simp
qed

lemma le_val_bound: "le_val bs < 256 ^ length bs"
proof (induction bs)
  case Nil
  then show ?case by simp
next
  case (Cons b bs)
  have "unat b < 256" using unsigned_less [of b] by simp
  with Cons show ?case by simp
qed

text \<open>\<open>u32::to_le_bytes\<close>, \<open>u32::from_le_bytes\<close> and their 64-bit versions.\<close>

definition u32_to_le :: "u32 \<Rightarrow> bytes" where
  "u32_to_le x = le_bytes 4 (unat x)"

definition u32_from_le :: "bytes \<Rightarrow> u32" where
  "u32_from_le bs = of_nat (le_val bs)"

definition u64_to_le :: "u64 \<Rightarrow> bytes" where
  "u64_to_le x = le_bytes 8 (unat x)"

definition u64_from_le :: "bytes \<Rightarrow> u64" where
  "u64_from_le bs = of_nat (le_val bs)"

lemma length_u32_to_le [simp]: "length (u32_to_le x) = 4"
  by (simp add: u32_to_le_def)

lemma length_u64_to_le [simp]: "length (u64_to_le x) = 8"
  by (simp add: u64_to_le_def)

lemma u32_from_to_le [simp]: "u32_from_le (u32_to_le x) = x"
proof -
  have "unat x < 256 ^ 4" using unsigned_less [of x] by simp
  then show ?thesis by (simp add: u32_from_le_def u32_to_le_def le_val_le_bytes)
qed

lemma u64_from_to_le [simp]: "u64_from_le (u64_to_le x) = x"
proof -
  have "unat x < 256 ^ 8" using unsigned_less [of x] by simp
  then show ?thesis by (simp add: u64_from_le_def u64_to_le_def le_val_le_bytes)
qed

lemma u64_to_from_le: "length bs = 8 \<Longrightarrow> u64_to_le (u64_from_le bs) = bs"
proof -
  assume len: "length bs = 8"
  then have "le_val bs < 2 ^ 64" using le_val_bound [of bs] by simp
  then have "unat (of_nat (le_val bs) :: u64) = le_val bs" by (simp add: unat_of_nat)
  with le_bytes_le_val [of bs] len show ?thesis
    by (simp add: u64_to_le_def u64_from_le_def)
qed

section \<open>Power-of-two masks\<close>

text \<open>
  The ring buffers and the hash table keep \<open>mask = capacity - 1\<close> for a power-of-two capacity
  and reduce an index with \<open>index & mask\<close>: this is the remainder modulo the capacity.
\<close>

definition is_power_of_two :: "u64 \<Rightarrow> bool" where
  "is_power_of_two c \<longleftrightarrow> c \<in> set (map (\<lambda>k. 2 ^ k) [0..<64])"

lemma is_power_of_twoE:
  assumes "is_power_of_two c"
  obtains k where "k < 64" and "c = 2 ^ k"
  using assms by (auto simp: is_power_of_two_def)

lemma is_power_of_twoI: "k < 64 \<Longrightarrow> is_power_of_two (2 ^ k)"
  by (auto simp: is_power_of_two_def)

lemma unat_u64_power: "k < 64 \<Longrightarrow> unat (2 ^ k :: u64) = 2 ^ k"
proof -
  assume k: "k < 64"
  then have "(2 :: nat) ^ k < 2 ^ 64" by (rule power_strict_increasing) simp
  then have "unat (of_nat (2 ^ k) :: u64) = 2 ^ k" by (simp only: unat_of_nat) simp
  then show ?thesis by simp
qed

lemma mask_word_eq: "(2 ^ k :: u64) - 1 = mask k"
  by (simp add: mask_eq_decr_exp)

lemma unat_and_mask: "unat (i AND mask k :: u64) = unat i mod 2 ^ k"
proof -
  have "unat (take_bit k i) = take_bit k (unat i)" by (rule unsigned_take_bit_eq)
  then show ?thesis by (simp only: take_bit_eq_mask [symmetric] take_bit_eq_mod [of k "unat i"])
qed

lemma power_of_two_pos: "is_power_of_two c \<Longrightarrow> 0 < unat c"
  by (auto elim!: is_power_of_twoE simp: unat_u64_power)

lemma unat_and_capacity:
  assumes "is_power_of_two c"
  shows "unat (i AND (c - 1)) = unat i mod unat c"
proof -
  from assms obtain k where "k < 64" and c: "c = 2 ^ k" by (rule is_power_of_twoE)
  then show ?thesis by (simp add: unat_u64_power mask_word_eq unat_and_mask)
qed

text \<open>Adding one to a 64-bit counter that is not at its maximum.\<close>

lemma unat_u64_Suc: "Suc (unat x) < 2 ^ 64 \<Longrightarrow> unat (x + 1 :: u64) = Suc (unat x)"
  by (simp add: unat_word_ariths)

lemma length_filter_update:
  "k < length xs \<Longrightarrow> \<not> P e \<Longrightarrow>
   length (filter P (xs[k := e])) + (if P (xs ! k) then 1 else 0) = length (filter P xs)"
proof (induction xs arbitrary: k)
  case (Cons x xs)
  show ?case
  proof (cases k)
    case (Suc m)
    with Cons.IH [of m] Cons.prems show ?thesis by auto
  qed (use Cons.prems in simp)
qed simp

section \<open>Association lists keyed like hash maps\<close>

text \<open>Insertion and removal in a map kept as an association list with distinct keys.\<close>

fun al_put :: "'k \<Rightarrow> 'v \<Rightarrow> ('k \<times> 'v) list \<Rightarrow> ('k \<times> 'v) list" where
  "al_put k v [] = [(k, v)]"
| "al_put k v ((k', v') # xs) = (if k' = k then (k, v) # xs else (k', v') # al_put k v xs)"

definition al_del :: "'k \<Rightarrow> ('k \<times> 'v) list \<Rightarrow> ('k \<times> 'v) list" where
  "al_del k xs = filter (\<lambda>(k', _). k' \<noteq> k) xs"

lemma map_of_al_put: "map_of (al_put k v xs) = (map_of xs)(k \<mapsto> v)"
  by (induction k v xs rule: al_put.induct) auto

lemma map_of_al_del: "map_of (al_del k xs) = (map_of xs)(k := None)"
  unfolding al_del_def by (induction xs) (auto simp: fun_eq_iff)

lemma keys_al_put: "fst ` set (al_put k v xs) = insert k (fst ` set xs)"
  by (induction k v xs rule: al_put.induct) auto

lemma distinct_al_put: "distinct (map fst xs) \<Longrightarrow> distinct (map fst (al_put k v xs))"
proof (induction k v xs rule: al_put.induct)
  case (2 k v k' v' xs)
  then show ?case using keys_al_put [of k v xs] by auto
qed auto

lemma distinct_al_del: "distinct (map fst xs) \<Longrightarrow> distinct (map fst (al_del k xs))"
  unfolding al_del_def by (induction xs) auto

lemma set_al_del: "set (al_del k xs) = {p \<in> set xs. fst p \<noteq> k}"
  by (auto simp: al_del_def)

lemma keys_al_del: "fst ` set (al_del k xs) = fst ` set xs - {k}"
  by (auto simp: set_al_del)

section \<open>Strings\<close>

definition starts_with :: "string \<Rightarrow> string \<Rightarrow> bool" where
  "starts_with s pre = (take (length pre) s = pre)"

definition ends_with :: "string \<Rightarrow> string \<Rightarrow> bool" where
  "ends_with s suf \<longleftrightarrow> length suf \<le> length s \<and> drop (length s - length suf) s = suf"

section \<open>Chunks of a list\<close>

text \<open>\<open>chunks\<close> of the standard library; a chunk size of zero panics.\<close>

function chunks :: "nat \<Rightarrow> 'a list \<Rightarrow> 'a list list" where
  "chunks n xs = (if n = 0 \<or> xs = [] then [] else take n xs # chunks n (drop n xs))"
  by pat_completeness auto
termination
  by (relation "measure (length \<circ> snd)") auto

declare chunks.simps [simp del]

lemma concat_chunks: "0 < n \<Longrightarrow> concat (chunks n xs) = xs"
proof (induction n xs rule: chunks.induct)
  case (1 n xs)
  then show ?case by (subst chunks.simps) (cases "xs = []", simp_all)
qed

end
