(* ===== verification/Ring_Slot.thy ===== *)
theory Ring_Slot
  imports VedPrelude
begin

text \<open>
  The slot of the ring buffers (\<open>veddb-core/src/ring/mod.rs\<close>): up to eight bytes carried
  inline in the 64-bit field, or an arena offset with the length of the data it points to.
\<close>

record slot =
  slot_len :: u32
  data_or_offset :: u64

definition INLINE_SIZE :: nat where
  "INLINE_SIZE = 8"

definition slot_empty :: slot where
  "slot_empty = \<lparr>slot_len = 0, data_or_offset = 0\<rparr>"

definition inline_data :: "bytes \<Rightarrow> slot option" where
  "inline_data d =
     (if length d \<le> INLINE_SIZE
      then Some \<lparr>slot_len = of_nat (length d),
                 data_or_offset = u64_from_le (d @ replicate (8 - length d) 0)\<rparr>
      else None)"

definition arena_offset :: "u32 \<Rightarrow> u64 \<Rightarrow> slot" where
  "arena_offset len off = \<lparr>slot_len = len, data_or_offset = off\<rparr>"

definition slot_is_empty :: "slot \<Rightarrow> bool" where
  "slot_is_empty s \<longleftrightarrow> slot_len s = 0"

definition is_inline :: "slot \<Rightarrow> bool" where
  "is_inline s \<longleftrightarrow> slot_len s > 0 \<and> unat (slot_len s) \<le> INLINE_SIZE"

definition get_inline_data :: "slot \<Rightarrow> bytes option" where
  "get_inline_data s =
     (if is_inline s then Some (take (unat (slot_len s)) (u64_to_le (data_or_offset s))) else None)"

definition get_arena_offset :: "slot \<Rightarrow> u64 option" where
  "get_arena_offset s = (if \<not> is_inline s \<and> slot_len s > 0 then Some (data_or_offset s) else None)"

lemmas slot_defs [ved_simps] =
  INLINE_SIZE_def slot_empty_def inline_data_def arena_offset_def slot_is_empty_def
  is_inline_def get_inline_data_def get_arena_offset_def

lemma unat_u32_small: "n \<le> 8 \<Longrightarrow> unat (of_nat n :: u32) = n"
  by (simp add: unat_of_nat)

lemma slot_len_inline:
  "inline_data d = Some s \<Longrightarrow> unat (slot_len s) = length d \<and> length d \<le> 8"
  by (auto simp: inline_data_def INLINE_SIZE_def unat_u32_small split: if_splits)

lemma slot_bytes_inline:
  "inline_data d = Some s \<Longrightarrow> take (length d) (u64_to_le (data_or_offset s)) = d"
  by (auto simp: inline_data_def INLINE_SIZE_def u64_to_from_le split: if_splits)

text \<open>A slot is exactly one of: empty, inline, or an arena reference.\<close>

lemma slot_kinds:
  "slot_is_empty s \<longleftrightarrow> get_inline_data s = None \<and> get_arena_offset s = None"
  by (auto simp: slot_is_empty_def get_inline_data_def get_arena_offset_def is_inline_def word_gt_0
      split: if_splits)

section \<open>Properties\<close>

text \<open>
  Inline data survives the slot: data is accepted inline exactly when it has at most eight
  bytes, and non-empty accepted data reads back unchanged, never as an arena offset.
\<close>

theorem inline_data_roundtrip:
  assumes "d \<noteq> []" and "length d \<le> 8"
  shows "\<exists>s. inline_data d = Some s \<and> get_inline_data s = Some d \<and>
             get_arena_offset s = None \<and> \<not> slot_is_empty s"
proof -
  obtain s where s: "inline_data d = Some s"
    using assms(2) by (auto simp: inline_data_def INLINE_SIZE_def)
  note len = slot_len_inline [OF s]
  have inl: "is_inline s"
    using len assms(1) by (simp add: is_inline_def INLINE_SIZE_def word_gt_0 unat_eq_0 [symmetric])
  moreover have "get_inline_data s = Some d"
    using inl len slot_bytes_inline [OF s] by (simp add: get_inline_data_def)
  moreover have "\<not> slot_is_empty s" using inl by (simp add: slot_is_empty_def is_inline_def word_gt_0)
  ultimately show ?thesis using s by (simp add: get_arena_offset_def)
qed

theorem inline_data_roundtrip_witness:
  "\<exists>s. inline_data [104, 101, 108, 108, 111] = Some s \<and>
       get_inline_data s = Some [104, 101, 108, 108, 111] \<and> get_arena_offset s = None \<and> \<not> slot_is_empty s"
  by (rule inline_data_roundtrip) simp_all

end
