(* ===== verification/Queue_Spec_Ved.thy ===== *)
theory Queue_Spec_Ved
  imports VedPrelude
begin

text \<open>
  The contract of a bounded queue as the ring buffers promise it (\<open>try_push\<close> returns whether
  there was room, \<open>try_pop\<close> the oldest element if any), and what a client of such a queue can
  rely on: any sequence of calls behaves as on a list of bounded length.
\<close>

datatype 'a queue_op = Push 'a | Pop

datatype 'a queue_out = Pushed bool | Popped "'a option"

fun fifo_step :: "nat \<Rightarrow> 'a list \<Rightarrow> 'a queue_op \<Rightarrow> 'a list \<times> 'a queue_out" where
  "fifo_step cap xs (Push x) =
     (if length xs < cap then (xs @ [x], Pushed True) else (xs, Pushed False))"
| "fifo_step cap xs Pop =
     (case xs of [] \<Rightarrow> ([], Popped None) | y # ys \<Rightarrow> (ys, Popped (Some y)))"

fun fifo_run :: "nat \<Rightarrow> 'a list \<Rightarrow> 'a queue_op list \<Rightarrow> 'a list \<times> 'a queue_out list" where
  "fifo_run cap xs [] = (xs, [])"
| "fifo_run cap xs (c # cs) =
     (let (xs', out) = fifo_step cap xs c; (xs'', outs) = fifo_run cap xs' cs in (xs'', out # outs))"

fun queue_step ::
  "('q \<Rightarrow> 'a \<Rightarrow> 'q \<times> bool) \<Rightarrow> ('q \<Rightarrow> 'q \<times> 'a option) \<Rightarrow> 'q \<Rightarrow> 'a queue_op \<Rightarrow> 'q \<times> 'a queue_out"
where
  "queue_step push pop q (Push x) = (let (q', b) = push q x in (q', Pushed b))"
| "queue_step push pop q Pop = (let (q', r) = pop q in (q', Popped r))"

fun queue_run ::
  "('q \<Rightarrow> 'a \<Rightarrow> 'q \<times> bool) \<Rightarrow> ('q \<Rightarrow> 'q \<times> 'a option) \<Rightarrow> 'q \<Rightarrow> 'a queue_op list \<Rightarrow>
   'q \<times> 'a queue_out list"
where
  "queue_run push pop q [] = (q, [])"
| "queue_run push pop q (c # cs) =
     (let (q', out) = queue_step push pop q c; (q'', outs) = queue_run push pop q' cs
      in (q'', out # outs))"

text \<open>
  The index counters are 64-bit: \<open>invar n q\<close> says that \<open>q\<close> is well formed and that \<open>n\<close>
  more pushes cannot wrap its counter.
\<close>

locale bounded_queue =
  fixes push :: "'q \<Rightarrow> 'a \<Rightarrow> 'q \<times> bool"
    and pop :: "'q \<Rightarrow> 'q \<times> 'a option"
    and elems :: "'q \<Rightarrow> 'a list"
    and cap :: "'q \<Rightarrow> nat"
    and invar :: "nat \<Rightarrow> 'q \<Rightarrow> bool"
  assumes push_room: "invar (Suc n) q \<Longrightarrow> length (elems q) < cap q \<Longrightarrow>
      snd (push q x) \<and> elems (fst (push q x)) = elems q @ [x]"
    and push_full: "invar (Suc n) q \<Longrightarrow> \<not> length (elems q) < cap q \<Longrightarrow> push q x = (q, False)"
    and pop_some: "invar n q \<Longrightarrow> elems q = y # ys \<Longrightarrow>
      snd (pop q) = Some y \<and> elems (fst (pop q)) = ys"
    and pop_none: "invar n q \<Longrightarrow> elems q = [] \<Longrightarrow> pop q = (q, None)"
    and invar_push: "invar (Suc n) q \<Longrightarrow> invar n (fst (push q x))"
    and invar_pop: "invar n q \<Longrightarrow> invar n (fst (pop q))"
    and cap_push: "cap (fst (push q x)) = cap q"
    and cap_pop: "cap (fst (pop q)) = cap q"
    and invar_less: "invar (Suc n) q \<Longrightarrow> invar n q"
begin

lemma step_refines:
  assumes "invar (Suc n) q" and "queue_step push pop q c = (q', out)"
  shows "fifo_step (cap q) (elems q) c = (elems q', out) \<and> invar n q' \<and> cap q' = cap q"
proof (cases c)
  case (Push x)
  then show ?thesis
    using assms push_room [of n q x] push_full [of n q x] invar_push [of n q x] cap_push [of q x]
    by (cases "push q x"; cases "length (elems q) < cap q") auto
next
  case Pop
  have "invar n q" using assms(1) by (rule invar_less)
  then show ?thesis
    using Pop assms(2) pop_some [of n q] pop_none [of n q] invar_pop [of n q] cap_pop [of q]
    by (cases "elems q"; cases "pop q") auto
qed

lemma run_refines:
  assumes "invar (length cs) q" and "queue_run push pop q cs = (q', outs)"
  shows "fifo_run (cap q) (elems q) cs = (elems q', outs)"
  using assms
proof (induction cs arbitrary: q q' outs)
  case Nil
  then show ?case by simp
next
  case (Cons c cs)
  obtain q1 out where s: "queue_step push pop q c = (q1, out)" by fastforce
  obtain q2 os where r: "queue_run push pop q1 cs = (q2, os)" by fastforce
  from s step_refines [of "length cs" q c q1 out] Cons.prems(1)
  have st: "fifo_step (cap q) (elems q) c = (elems q1, out)" "invar (length cs) q1" "cap q1 = cap q"
    by auto
  from Cons.IH [OF st(2) r] st(3) have "fifo_run (cap q) (elems q1) cs = (elems q2, os)" by simp
  with st(1) s r Cons.prems(2) show ?case by auto
qed

end

end
