(* ===== verification/Spsc_Ring.thy ===== *)
theory Spsc_Ring
  imports Ring_Slot Queue_Spec_Ved
begin

text \<open>
  The single-producer single-consumer ring (\<open>veddb-core/src/ring/spsc.rs\<close>): the operations as
  functions on the shared state, their refinement to a bounded queue, and the interleaving of one
  producer and one consumer at the granularity of the individual loads, stores and slot accesses.
\<close>

section \<open>State and operations\<close>

record spsc_ring =
  producer_index :: u64
  consumer_index :: u64
  spsc_capacity :: u64
  spsc_mask :: u64
  spsc_slots :: "slot list"

text \<open>\<open>init\<close> asserts that the capacity is a power of two; a failed assertion is \<open>None\<close>.\<close>

definition spsc_init :: "u64 \<Rightarrow> spsc_ring option" where
  "spsc_init capacity =
     (if is_power_of_two capacity
      then Some \<lparr>producer_index = 0, consumer_index = 0, spsc_capacity = capacity,
                 spsc_mask = capacity - 1, spsc_slots = replicate (unat capacity) slot_empty\<rparr>
      else None)"

definition spsc_slot_idx :: "spsc_ring \<Rightarrow> u64 \<Rightarrow> nat" where
  "spsc_slot_idx r index = unat (index AND spsc_mask r)"

definition spsc_try_push :: "spsc_ring \<Rightarrow> slot \<Rightarrow> spsc_ring \<times> bool" where
  "spsc_try_push r s =
     (let producer_idx = producer_index r; consumer_idx = consumer_index r
      in if producer_idx - consumer_idx \<ge> spsc_capacity r then (r, False)
         else (r\<lparr>spsc_slots := (spsc_slots r)[spsc_slot_idx r producer_idx := s],
                 producer_index := producer_idx + 1\<rparr>, True))"

definition spsc_try_pop :: "spsc_ring \<Rightarrow> spsc_ring \<times> slot option" where
  "spsc_try_pop r =
     (let consumer_idx = consumer_index r; producer_idx = producer_index r
      in if consumer_idx \<ge> producer_idx then (r, None)
         else let i = spsc_slot_idx r consumer_idx; s = spsc_slots r ! i
              in (r\<lparr>spsc_slots := (spsc_slots r)[i := slot_empty],
                    consumer_index := consumer_idx + 1\<rparr>, Some s))"

definition spsc_len :: "spsc_ring \<Rightarrow> u64" where
  "spsc_len r = saturating_sub (producer_index r) (consumer_index r)"

definition spsc_is_empty :: "spsc_ring \<Rightarrow> bool" where
  "spsc_is_empty r \<longleftrightarrow> spsc_len r = 0"

definition spsc_is_full :: "spsc_ring \<Rightarrow> bool" where
  "spsc_is_full r \<longleftrightarrow> spsc_len r \<ge> spsc_capacity r"

lemmas spsc_defs [ved_simps] =
  spsc_init_def spsc_slot_idx_def spsc_try_push_def spsc_try_pop_def spsc_len_def
  spsc_is_empty_def spsc_is_full_def

section \<open>Well-formedness and the abstraction to a list\<close>

definition spsc_layout :: "spsc_ring \<Rightarrow> bool" where
  "spsc_layout r \<longleftrightarrow>
     is_power_of_two (spsc_capacity r) \<and> spsc_mask r = spsc_capacity r - 1 \<and>
     length (spsc_slots r) = unat (spsc_capacity r)"

definition spsc_wf :: "nat \<Rightarrow> spsc_ring \<Rightarrow> bool" where
  "spsc_wf n r \<longleftrightarrow>
     spsc_layout r \<and> unat (consumer_index r) \<le> unat (producer_index r) \<and>
     unat (producer_index r) \<le> unat (consumer_index r) + unat (spsc_capacity r) \<and>
     unat (producer_index r) + n < 2 ^ 64"

definition spsc_elems :: "spsc_ring \<Rightarrow> slot list" where
  "spsc_elems r =
     map (\<lambda>i. spsc_slots r ! (i mod unat (spsc_capacity r)))
       [unat (consumer_index r)..<unat (producer_index r)]"

lemma spsc_slot_idx_mod: "spsc_layout r \<Longrightarrow> spsc_slot_idx r i = unat i mod unat (spsc_capacity r)"
  by (simp add: spsc_layout_def spsc_slot_idx_def unat_and_capacity)

lemma spsc_capacity_pos: "spsc_layout r \<Longrightarrow> 0 < unat (spsc_capacity r)"
  by (simp add: spsc_layout_def power_of_two_pos)

lemma length_spsc_elems: "length (spsc_elems r) = unat (producer_index r) - unat (consumer_index r)"
  by (simp add: spsc_elems_def)

text \<open>Two positions less than a capacity apart never share a slot.\<close>

lemma mod_window_inj:
  assumes "i mod c = j mod c" and "i \<le> j" and "j < i + (c::nat)"
  shows "i = j"
proof -
  from assms(1,2) have "c dvd j - i" by (metis mod_eq_dvd_iff_nat)
  with assms(2,3) show ?thesis by (auto dest: dvd_imp_le)
qed

lemma mod_window_neq: "i < j \<Longrightarrow> j < i + (c::nat) \<Longrightarrow> i mod c \<noteq> j mod c"
  using mod_window_inj [of i c j] by auto

lemma full_test:
  "spsc_wf n r \<Longrightarrow>
   producer_index r - consumer_index r \<ge> spsc_capacity r \<longleftrightarrow>
   \<not> length (spsc_elems r) < unat (spsc_capacity r)"
  by (auto simp: spsc_wf_def length_spsc_elems word_le_nat_alt unat_sub_if')

lemma spsc_push_room:
  assumes wf: "spsc_wf (Suc n) r" and room: "length (spsc_elems r) < unat (spsc_capacity r)"
  shows "snd (spsc_try_push r s) \<and> spsc_elems (fst (spsc_try_push r s)) = spsc_elems r @ [s] \<and>
         spsc_wf n (fst (spsc_try_push r s))"
proof -
  let ?c = "unat (spsc_capacity r)" and ?p = "unat (producer_index r)"
  let ?k = "unat (consumer_index r)"
  have lay: "spsc_layout r" and kp: "?k \<le> ?p" and nowrap: "Suc ?p + n < 2 ^ 64"
    using wf by (auto simp: spsc_wf_def)
  have P: "unat (producer_index r + 1) = Suc ?p" using nowrap by (intro unat_u64_Suc) simp
  have lt: "?p < ?k + ?c" using room kp by (simp add: length_spsc_elems)
  have ix: "?p mod ?c < length (spsc_slots r)"
    using lay spsc_capacity_pos [OF lay] by (simp add: spsc_layout_def)
  have other: "(spsc_slots r)[?p mod ?c := s] ! (i mod ?c) = spsc_slots r ! (i mod ?c)"
    if "?k \<le> i" "i < ?p" for i
    using mod_window_neq [of i ?p ?c] that lt by (simp add: nth_list_update_neq)
  have not_full: "\<not> producer_index r - consumer_index r \<ge> spsc_capacity r"
    using full_test [OF wf] room by blast
  then have eq: "spsc_try_push r s =
      (r\<lparr>spsc_slots := (spsc_slots r)[?p mod ?c := s], producer_index := producer_index r + 1\<rparr>, True)"
    by (simp add: spsc_try_push_def Let_def spsc_slot_idx_mod [OF lay])
  show ?thesis
    using lay kp lt nowrap ix other
    by (auto simp: eq spsc_elems_def spsc_wf_def spsc_layout_def P intro!: map_cong)
qed

lemma spsc_push_full:
  "spsc_wf (Suc n) r \<Longrightarrow> \<not> length (spsc_elems r) < unat (spsc_capacity r) \<Longrightarrow>
   spsc_try_push r s = (r, False)"
  using full_test [of "Suc n" r] by (simp add: spsc_try_push_def)

lemma spsc_pop_some:
  assumes wf: "spsc_wf n r" and ne: "spsc_elems r = y # ys"
  shows "snd (spsc_try_pop r) = Some y \<and> spsc_elems (fst (spsc_try_pop r)) = ys \<and>
         spsc_wf n (fst (spsc_try_pop r))"
proof -
  let ?c = "unat (spsc_capacity r)" and ?p = "unat (producer_index r)"
  let ?k = "unat (consumer_index r)"
  have lay: "spsc_layout r" and pk: "?p \<le> ?k + ?c" and pn: "?p + n < 2 ^ 64"
    using wf by (auto simp: spsc_wf_def)
  have kp: "?k < ?p" using ne by (metis length_spsc_elems length_Cons zero_less_Suc zero_less_diff)
  have K: "unat (consumer_index r + 1) = Suc ?k" using kp pn by (intro unat_u64_Suc) simp
  have split: "[?k..<?p] = ?k # [Suc ?k..<?p]" using kp by (simp add: upt_conv_Cons)
  have y: "y = spsc_slots r ! (?k mod ?c)"
    and ys: "ys = map (\<lambda>i. spsc_slots r ! (i mod ?c)) [Suc ?k..<?p]"
    using ne by (simp_all add: spsc_elems_def split)
  have other: "(spsc_slots r)[?k mod ?c := slot_empty] ! (i mod ?c) = spsc_slots r ! (i mod ?c)"
    if "Suc ?k \<le> i" "i < ?p" for i
    using mod_window_neq [of ?k i ?c] that pk by (simp add: nth_list_update_neq)
  have "\<not> consumer_index r \<ge> producer_index r" using kp by (simp add: word_le_nat_alt)
  then have eq: "spsc_try_pop r =
      (r\<lparr>spsc_slots := (spsc_slots r)[?k mod ?c := slot_empty],
         consumer_index := consumer_index r + 1\<rparr>, Some y)"
    by (simp add: spsc_try_pop_def Let_def spsc_slot_idx_mod [OF lay] y)
  show ?thesis
    using lay kp pk pn other
    by (auto simp: eq ys spsc_elems_def spsc_wf_def spsc_layout_def K intro!: map_cong)
qed

lemma spsc_pop_none: "spsc_wf n r \<Longrightarrow> spsc_elems r = [] \<Longrightarrow> spsc_try_pop r = (r, None)"
  by (auto simp: spsc_elems_def spsc_try_pop_def word_le_nat_alt)

lemma spsc_capacity_push [simp]: "spsc_capacity (fst (spsc_try_push r s)) = spsc_capacity r"
  by (simp add: spsc_try_push_def Let_def)

lemma spsc_capacity_pop [simp]: "spsc_capacity (fst (spsc_try_pop r)) = spsc_capacity r"
  by (simp add: spsc_try_pop_def Let_def)

lemma spsc_wf_less: "spsc_wf (Suc n) r \<Longrightarrow> spsc_wf n r"
  by (simp add: spsc_wf_def)

interpretation spsc: bounded_queue spsc_try_push spsc_try_pop spsc_elems
    "\<lambda>r. unat (spsc_capacity r)" spsc_wf
proof
  show "spsc_wf n (fst (spsc_try_push q x))" if "spsc_wf (Suc n) q" for n q x
    using that spsc_push_room [of n q x] spsc_push_full [of n q x] spsc_wf_less [of n q]
    by (cases "length (spsc_elems q) < unat (spsc_capacity q)") auto
  show "spsc_wf n (fst (spsc_try_pop q))" if "spsc_wf n q" for n q
    using that spsc_pop_some [of n q] spsc_pop_none [of n q] by (cases "spsc_elems q") auto
qed (simp_all add: spsc_push_room spsc_push_full spsc_pop_some spsc_pop_none spsc_wf_less)

lemma spsc_init_wf:
  "spsc_init c = Some r \<Longrightarrow> n < 2 ^ 64 \<Longrightarrow> spsc_wf n r \<and> spsc_elems r = [] \<and> spsc_capacity r = c"
  by (auto simp: spsc_init_def spsc_wf_def spsc_layout_def spsc_elems_def split: if_splits)

section \<open>Properties\<close>

text \<open>
  On a freshly initialised SPSC ring, any sequence of fewer than \<open>2 ^ 64\<close> calls of
  \<open>try_push\<close> and \<open>try_pop\<close> gives the answers of a FIFO queue bounded by the capacity: a push is
  refused exactly when the queue is full, a pop returns the oldest slot or nothing.
\<close>

theorem spsc_runs_as_fifo:
  assumes "spsc_init c = Some r" and "length cs < 2 ^ 64"
    and "queue_run spsc_try_push spsc_try_pop r cs = (r', outs)"
  shows "fifo_run (unat c) [] cs = (spsc_elems r', outs)"
proof -
  have wf: "spsc_wf (length cs) r" and "spsc_elems r = []" "spsc_capacity r = c"
    using spsc_init_wf [OF assms(1,2)] by auto
  with spsc.run_refines [OF wf assms(3)] show ?thesis by simp
qed

theorem spsc_runs_as_fifo_witness:
  "\<exists>r r' outs. spsc_init 2 = Some r \<and>
     queue_run spsc_try_push spsc_try_pop r
       [Push (arena_offset 9 1), Push (arena_offset 9 2), Push (arena_offset 9 3), Pop] = (r', outs) \<and>
     fifo_run 2 []
       [Push (arena_offset 9 1), Push (arena_offset 9 2), Push (arena_offset 9 3), Pop] =
       (spsc_elems r', outs)"
proof -
  let ?cs = "[Push (arena_offset 9 1), Push (arena_offset 9 2), Push (arena_offset 9 3), Pop]"
  have "is_power_of_two 2" using is_power_of_twoI [of 1] by simp
  then obtain r where r: "spsc_init 2 = Some r" by (simp add: spsc_init_def)
  obtain r' outs where run: "queue_run spsc_try_push spsc_try_pop r ?cs = (r', outs)" by fastforce
  from spsc_runs_as_fifo [OF r _ run] r run show ?thesis by auto
qed

end
