(* ===== verification/Spsc_Concurrent.thy ===== *)
theory Spsc_Concurrent
  imports Spsc_Ring
begin

text \<open>
  One producer thread and one consumer thread on the same \<open>SpscRing\<close>. Each load, store and slot
  access of \<open>try_push\<close> and \<open>try_pop\<close> is a step of its own and the steps of the two threads
  interleave freely. The acquire loads and release stores of the indices order the slot accesses
  the way the steps do. \<open>pushed\<close> and \<open>popped\<close> record the slots published so far and the slots
  handed to the consumer.
\<close>

datatype prod_pc =
    PIdle
  | PLoaded slot u64
  | PChecking slot u64 u64
  | PWritten slot u64

datatype cons_pc =
    CIdle
  | CLoaded u64
  | CChecking u64 u64
  | CRead u64 slot
  | CCleared u64 slot

record spsc_sys =
  ring :: spsc_ring
  ppc :: prod_pc
  cpc :: cons_pc
  pushed :: "slot list"
  popped :: "slot list"

definition spsc_start :: "spsc_ring \<Rightarrow> spsc_sys" where
  "spsc_start r = \<lparr>ring = r, ppc = PIdle, cpc = CIdle, pushed = [], popped = []\<rparr>"

inductive spsc_step :: "spsc_sys \<Rightarrow> spsc_sys \<Rightarrow> bool" where
  p_load_producer: "ppc s = PIdle \<Longrightarrow>
     spsc_step s (s\<lparr>ppc := PLoaded x (producer_index (ring s))\<rparr>)"
| p_load_consumer: "ppc s = PLoaded x p \<Longrightarrow>
     spsc_step s (s\<lparr>ppc := PChecking x p (consumer_index (ring s))\<rparr>)"
| p_full: "ppc s = PChecking x p c \<Longrightarrow> p - c \<ge> spsc_capacity (ring s) \<Longrightarrow>
     spsc_step s (s\<lparr>ppc := PIdle\<rparr>)"
| p_write: "ppc s = PChecking x p c \<Longrightarrow> \<not> p - c \<ge> spsc_capacity (ring s) \<Longrightarrow>
     spsc_step s (s\<lparr>ring := (ring s)\<lparr>spsc_slots :=
       (spsc_slots (ring s))[spsc_slot_idx (ring s) p := x]\<rparr>, ppc := PWritten x p\<rparr>)"
| p_publish: "ppc s = PWritten x p \<Longrightarrow>
     spsc_step s (s\<lparr>ring := (ring s)\<lparr>producer_index := p + 1\<rparr>, ppc := PIdle,
       pushed := pushed s @ [x]\<rparr>)"
| c_load_consumer: "cpc s = CIdle \<Longrightarrow>
     spsc_step s (s\<lparr>cpc := CLoaded (consumer_index (ring s))\<rparr>)"
| c_load_producer: "cpc s = CLoaded c \<Longrightarrow>
     spsc_step s (s\<lparr>cpc := CChecking c (producer_index (ring s))\<rparr>)"
| c_empty: "cpc s = CChecking c p \<Longrightarrow> c \<ge> p \<Longrightarrow> spsc_step s (s\<lparr>cpc := CIdle\<rparr>)"
| c_read: "cpc s = CChecking c p \<Longrightarrow> \<not> c \<ge> p \<Longrightarrow>
     spsc_step s (s\<lparr>cpc := CRead c (spsc_slots (ring s) ! spsc_slot_idx (ring s) c)\<rparr>)"
| c_clear: "cpc s = CRead c x \<Longrightarrow>
     spsc_step s (s\<lparr>ring := (ring s)\<lparr>spsc_slots :=
       (spsc_slots (ring s))[spsc_slot_idx (ring s) c := slot_empty]\<rparr>, cpc := CCleared c x\<rparr>)"
| c_publish: "cpc s = CCleared c x \<Longrightarrow>
     spsc_step s (s\<lparr>ring := (ring s)\<lparr>consumer_index := c + 1\<rparr>, cpc := CIdle,
       popped := popped s @ [x]\<rparr>)"

inductive spsc_reach :: "spsc_ring \<Rightarrow> spsc_sys \<Rightarrow> bool" for r0 where
  start: "spsc_reach r0 (spsc_start r0)"
| step: "spsc_reach r0 s \<Longrightarrow> spsc_step s t \<Longrightarrow> spsc_reach r0 t"

section \<open>The invariant\<close>

text \<open>What each program point knows of the indices and of the slot it works on.\<close>

fun prod_ok :: "nat \<Rightarrow> nat \<Rightarrow> spsc_ring \<Rightarrow> prod_pc \<Rightarrow> bool" where
  "prod_ok np nc r PIdle \<longleftrightarrow> True"
| "prod_ok np nc r (PLoaded x p) \<longleftrightarrow> unat p = np"
| "prod_ok np nc r (PChecking x p c) \<longleftrightarrow> unat p = np \<and> unat c \<le> nc"
| "prod_ok np nc r (PWritten x p) \<longleftrightarrow>
     unat p = np \<and> np < nc + unat (spsc_capacity r) \<and>
     spsc_slots r ! (np mod unat (spsc_capacity r)) = x"

fun cons_ok :: "slot list \<Rightarrow> nat \<Rightarrow> cons_pc \<Rightarrow> bool" where
  "cons_ok ps nc CIdle \<longleftrightarrow> True"
| "cons_ok ps nc (CLoaded c) \<longleftrightarrow> unat c = nc"
| "cons_ok ps nc (CChecking c p) \<longleftrightarrow> unat c = nc \<and> unat p \<le> length ps"
| "cons_ok ps nc (CRead c x) \<longleftrightarrow> unat c = nc \<and> nc < length ps \<and> x = ps ! nc"
| "cons_ok ps nc (CCleared c x) \<longleftrightarrow> unat c = nc \<and> nc < length ps \<and> x = ps ! nc"

fun cleared :: "cons_pc \<Rightarrow> bool" where
  "cleared (CCleared c x) = True"
| "cleared _ = False"

text \<open>The positions whose slot still holds what was published there.\<close>

definition window_ok :: "spsc_ring \<Rightarrow> slot list \<Rightarrow> nat \<Rightarrow> bool" where
  "window_ok r ps lo \<longleftrightarrow>
     (\<forall>i. lo \<le> i \<longrightarrow> i < length ps \<longrightarrow>
        spsc_slots r ! (i mod unat (spsc_capacity r)) = ps ! i)"

definition spsc_inv :: "spsc_sys \<Rightarrow> bool" where
  "spsc_inv s \<longleftrightarrow>
     spsc_layout (ring s) \<and>
     unat (producer_index (ring s)) = length (pushed s) \<and>
     unat (consumer_index (ring s)) = length (popped s) \<and>
     take (length (popped s)) (pushed s) = popped s \<and>
     length (popped s) \<le> length (pushed s) \<and>
     length (pushed s) \<le> length (popped s) + unat (spsc_capacity (ring s)) \<and>
     window_ok (ring s) (pushed s) (if cleared (cpc s) then Suc (length (popped s)) else length (popped s)) \<and>
     prod_ok (length (pushed s)) (length (popped s)) (ring s) (ppc s) \<and>
     cons_ok (pushed s) (length (popped s)) (cpc s)"

lemma window_ok_write:
  assumes "window_ok r ps lo" and "length ps < lo + unat (spsc_capacity r)"
  shows "window_ok (r\<lparr>spsc_slots := (spsc_slots r)[length ps mod unat (spsc_capacity r) := x]\<rparr>) ps lo"
proof -
  have "length ps mod unat (spsc_capacity r) \<noteq> i mod unat (spsc_capacity r)"
    if "lo \<le> i" "i < length ps" for i
    using mod_window_neq [of i "length ps" "unat (spsc_capacity r)"] that assms(2) by simp
  with assms(1) show ?thesis by (simp add: window_ok_def)
qed

lemma window_ok_clear:
  assumes "window_ok r ps lo" and "length ps \<le> lo + unat (spsc_capacity r)"
  shows "window_ok (r\<lparr>spsc_slots := (spsc_slots r)[lo mod unat (spsc_capacity r) := x]\<rparr>) ps (Suc lo)"
  using assms mod_window_neq [of lo _ "unat (spsc_capacity r)"]
  by (auto simp: window_ok_def nth_list_update_neq)

lemma window_ok_snoc:
  assumes "window_ok r ps lo" and "spsc_slots r ! (length ps mod unat (spsc_capacity r)) = x"
  shows "window_ok r (ps @ [x]) lo"
  using assms by (auto simp: window_ok_def nth_append less_Suc_eq)

lemma window_ok_mono: "window_ok r ps lo \<Longrightarrow> lo \<le> lo' \<Longrightarrow> window_ok r ps lo'"
  by (simp add: window_ok_def)

lemma window_ok_index [simp]:
  "window_ok (r\<lparr>producer_index := p\<rparr>) ps lo = window_ok r ps lo"
  "window_ok (r\<lparr>consumer_index := c\<rparr>) ps lo = window_ok r ps lo"
  by (simp_all add: window_ok_def)

lemma spsc_layout_update [simp]:
  "spsc_layout (r\<lparr>producer_index := p\<rparr>) = spsc_layout r"
  "spsc_layout (r\<lparr>consumer_index := c\<rparr>) = spsc_layout r"
  "spsc_layout (r\<lparr>spsc_slots := (spsc_slots r)[i := x]\<rparr>) = spsc_layout r"
  by (simp_all add: spsc_layout_def)

text \<open>
  A producer that read a stale consumer index sees less room than there is, so a successful check
  is still right.
\<close>

lemma stale_check:
  assumes "unat p = np" "unat c \<le> nc" "nc \<le> np" and "\<not> p - c \<ge> (cap :: u64)"
  shows "np < nc + unat cap"
  using assms by (auto simp: word_le_nat_alt unat_sub_if' split: if_splits)

section \<open>Every step keeps the invariant\<close>

lemma prod_ok_frame:
  "prod_ok np nc r pc \<Longrightarrow> nc \<le> nc' \<Longrightarrow> spsc_slots r' = spsc_slots r \<Longrightarrow>
   spsc_capacity r' = spsc_capacity r \<Longrightarrow> prod_ok np nc' r' pc"
  by (cases pc) auto

lemma prod_ok_clear:
  assumes "prod_ok np nc r pc" and "nc < np"
  shows "prod_ok np nc
    (r\<lparr>spsc_slots := (spsc_slots r)[nc mod unat (spsc_capacity r) := slot_empty]\<rparr>) pc"
  using assms mod_window_neq [of nc np "unat (spsc_capacity r)"] by (cases pc) auto

lemma cons_ok_snoc: "cons_ok ps nc pc \<Longrightarrow> cons_ok (ps @ [x]) nc pc"
  by (cases pc) (auto simp: nth_append)

lemma producer_write_inv:
  assumes inv: "spsc_inv s" and pc: "ppc s = PChecking x p c"
    and room: "\<not> p - c \<ge> spsc_capacity (ring s)"
  shows "spsc_inv (s\<lparr>ring := (ring s)\<lparr>spsc_slots :=
       (spsc_slots (ring s))[spsc_slot_idx (ring s) p := x]\<rparr>, ppc := PWritten x p\<rparr>)"
proof -
  let ?r = "ring s" and ?cap = "unat (spsc_capacity (ring s))"
  have lay: "spsc_layout ?r" and p: "unat p = length (pushed s)"
    using inv pc by (auto simp: spsc_inv_def)
  have lt: "length (pushed s) < length (popped s) + ?cap"
    using inv pc room by (intro stale_check [of p _ c]) (auto simp: spsc_inv_def)
  have ix: "length (pushed s) mod ?cap < length (spsc_slots ?r)"
    using lay spsc_capacity_pos [OF lay] by (simp add: spsc_layout_def)
  let ?lo = "if cleared (cpc s) then Suc (length (popped s)) else length (popped s)"
  have "window_ok ?r (pushed s) ?lo" using inv unfolding spsc_inv_def by blast
  then have "window_ok (?r\<lparr>spsc_slots := (spsc_slots ?r)[length (pushed s) mod ?cap := x]\<rparr>)
      (pushed s) ?lo"
    by (rule window_ok_write) (use lt in auto)
  with inv lt ix p show ?thesis
    by (auto simp: spsc_inv_def spsc_slot_idx_mod [OF lay] split: if_splits)
qed

lemma producer_publish_inv:
  assumes inv: "spsc_inv s" and pc: "ppc s = PWritten x p"
    and small: "Suc (length (pushed s)) < 2 ^ 64"
  shows "spsc_inv (s\<lparr>ring := (ring s)\<lparr>producer_index := p + 1\<rparr>, ppc := PIdle,
       pushed := pushed s @ [x]\<rparr>)"
proof -
  have p: "unat p = length (pushed s)" using inv pc by (simp add: spsc_inv_def)
  then have "unat (p + 1) = Suc (length (pushed s))" using small by (simp add: unat_u64_Suc)
  moreover have "cons_ok (pushed s @ [x]) (length (popped s)) (cpc s)"
    using inv by (intro cons_ok_snoc) (simp add: spsc_inv_def)
  ultimately show ?thesis
    using inv pc by (auto simp: spsc_inv_def intro!: window_ok_snoc)
qed

lemma consumer_clear_inv:
  assumes inv: "spsc_inv s" and pc: "cpc s = CRead c x"
  shows "spsc_inv (s\<lparr>ring := (ring s)\<lparr>spsc_slots :=
       (spsc_slots (ring s))[spsc_slot_idx (ring s) c := slot_empty]\<rparr>, cpc := CCleared c x\<rparr>)"
proof -
  have lay: "spsc_layout (ring s)" and c: "unat c = length (popped s)"
    and lt: "length (popped s) < length (pushed s)"
    using inv pc by (auto simp: spsc_inv_def)
  show ?thesis
    using inv pc c lt
    by (auto simp: spsc_inv_def spsc_slot_idx_mod [OF lay] intro!: window_ok_clear prod_ok_clear)
qed

lemma consumer_publish_inv:
  assumes inv: "spsc_inv s" and pc: "cpc s = CCleared c x" and small: "length (pushed s) < 2 ^ 64"
  shows "spsc_inv (s\<lparr>ring := (ring s)\<lparr>consumer_index := c + 1\<rparr>, cpc := CIdle,
       popped := popped s @ [x]\<rparr>)"
proof -
  have c: "unat c = length (popped s)" and lt: "length (popped s) < length (pushed s)"
    and x: "x = pushed s ! length (popped s)" and pre: "take (length (popped s)) (pushed s) = popped s"
    using inv pc by (auto simp: spsc_inv_def)
  have "unat (c + 1) = Suc (length (popped s))" using c lt small by (simp add: unat_u64_Suc)
  moreover have "take (Suc (length (popped s))) (pushed s) = popped s @ [x]"
    using pre x lt by (simp add: take_Suc_conv_app_nth)
  moreover have "prod_ok (length (pushed s)) (length (popped s)) (ring s) (ppc s)"
    using inv by (simp add: spsc_inv_def)
  then have "prod_ok (length (pushed s)) (Suc (length (popped s)))
      ((ring s)\<lparr>consumer_index := c + 1\<rparr>) (ppc s)"
    by (rule prod_ok_frame) simp_all
  ultimately show ?thesis
    using inv pc lt by (auto simp: spsc_inv_def)
qed

lemma consumer_read_inv:
  assumes inv: "spsc_inv s" and pc: "cpc s = CChecking c p" and ne: "\<not> c \<ge> p"
  shows "spsc_inv (s\<lparr>cpc := CRead c (spsc_slots (ring s) ! spsc_slot_idx (ring s) c)\<rparr>)"
proof -
  have lay: "spsc_layout (ring s)" and c: "unat c = length (popped s)"
    and p: "unat p \<le> length (pushed s)"
    using inv pc by (auto simp: spsc_inv_def)
  then have "length (popped s) < length (pushed s)" using ne by (simp add: word_le_nat_alt)
  then show ?thesis
    using inv pc c by (auto simp: spsc_inv_def spsc_slot_idx_mod [OF lay] window_ok_def)
qed

lemma spsc_step_inv:
  assumes "spsc_step s t" and "spsc_inv s" and "length (pushed t) < 2 ^ 64"
  shows "spsc_inv t"
  using assms
proof (induction rule: spsc_step.induct)
  case (p_write s x p c)
  then show ?case by (intro producer_write_inv)
next
  case (p_publish s x p)
  then show ?case by (intro producer_publish_inv) auto
next
  case (c_read s c p)
  then show ?case by (intro consumer_read_inv)
next
  case (c_clear s c x)
  then show ?case by (intro consumer_clear_inv)
next
  case (c_publish s c x)
  then show ?case by (intro consumer_publish_inv) auto
qed (auto simp: spsc_inv_def)

lemma pushed_grows: "spsc_step s t \<Longrightarrow> length (pushed s) \<le> length (pushed t)"
  by (induction rule: spsc_step.induct) auto

lemma spsc_start_inv: "spsc_init c = Some r \<Longrightarrow> spsc_inv (spsc_start r)"
  by (auto simp: spsc_inv_def spsc_start_def spsc_init_def spsc_layout_def window_ok_def
      split: if_splits)

lemma spsc_reach_inv:
  assumes "spsc_reach r s" and "spsc_init c = Some r" and "length (pushed s) < 2 ^ 64"
  shows "spsc_inv s"
  using assms
proof (induction rule: spsc_reach.induct)
  case start
  then show ?case by (auto intro: spsc_start_inv)
next
  case (step s t)
  then have "length (pushed s) < 2 ^ 64" using pushed_grows [of s t] by simp
  with step show ?case by (blast intro: spsc_step_inv)
qed

lemma spsc_step_capacity: "spsc_step s t \<Longrightarrow> spsc_capacity (ring t) = spsc_capacity (ring s)"
  by (induction rule: spsc_step.induct) auto

lemma spsc_reach_capacity: "spsc_reach r s \<Longrightarrow> spsc_capacity (ring s) = spsc_capacity r"
  by (induction rule: spsc_reach.induct) (auto simp: spsc_start_def spsc_step_capacity)

section \<open>Properties\<close>

text \<open>
  C8. Under every interleaving of one producer and one consumer on a freshly initialised SPSC
  ring, the slots the consumer has received are exactly the first slots the producer has
  published, in order: nothing is lost, duplicated, reordered or overwritten, and the number in
  flight never exceeds the capacity, as long as fewer than \<open>2 ^ 64\<close> slots have been pushed.
\<close>

theorem spsc_concurrent_fifo:
  assumes "spsc_init c = Some r" and "spsc_reach r s" and "length (pushed s) < 2 ^ 64"
  shows "popped s = take (length (popped s)) (pushed s) \<and>
         length (popped s) \<le> length (pushed s) \<and>
         length (pushed s) \<le> length (popped s) + unat c"
proof -
  have inv: "spsc_inv s" using assms(2,1,3) by (rule spsc_reach_inv)
  have "spsc_capacity (ring s) = spsc_capacity r" using assms(2) by (rule spsc_reach_capacity)
  moreover have "spsc_capacity r = c" using assms(1) by (auto simp: spsc_init_def split: if_splits)
  ultimately show ?thesis using inv by (simp add: spsc_inv_def)
qed

lemma spsc_one_push:
  assumes "spsc_reach r s" and "ppc s = PIdle"
    and "\<not> producer_index (ring s) - consumer_index (ring s) \<ge> spsc_capacity (ring s)"
  shows "\<exists>s'. spsc_reach r s' \<and> pushed s' = pushed s @ [x] \<and> popped s' = popped s"
proof -
  let ?p = "producer_index (ring s)" and ?c = "consumer_index (ring s)"
  have r1: "spsc_reach r (s\<lparr>ppc := PLoaded x ?p\<rparr>)"
    using assms by (auto intro: spsc_reach.step spsc_step.p_load_producer)
  have r2: "spsc_reach r (s\<lparr>ppc := PChecking x ?p ?c\<rparr>)"
    using spsc_reach.step [OF r1 spsc_step.p_load_consumer [of _ x ?p]] by simp
  note r3 = spsc_reach.step [OF r2 spsc_step.p_write [of _ x ?p ?c]]
  note r4 = spsc_reach.step [OF r3 spsc_step.p_publish [of _ x ?p]]
  show ?thesis using r4 assms(3) by fastforce
qed

theorem spsc_concurrent_fifo_witness:
  "\<exists>r s. spsc_init 2 = Some r \<and> spsc_reach r s \<and> pushed s = [arena_offset 9 1] \<and>
     popped s = take (length (popped s)) (pushed s)"
proof -
  have "is_power_of_two 2" using is_power_of_twoI [of 1] by simp
  then obtain r where r: "spsc_init 2 = Some r" by (simp add: spsc_init_def)
  then have "\<not> producer_index r - consumer_index r \<ge> spsc_capacity r"
    by (auto simp: spsc_init_def split: if_splits)
  then obtain s where s: "spsc_reach r s" "pushed s = [arena_offset 9 1]"
    using spsc_one_push [OF spsc_reach.start, of r "arena_offset 9 1"] by (auto simp: spsc_start_def)
  from spsc_concurrent_fifo [OF r s(1)] s r show ?thesis by auto
qed

end
