(* ===== verification/Mpmc_Ring.thy ===== *)
theory Mpmc_Ring
  imports Ring_Slot Queue_Spec_Ved
begin

text \<open>
  The multi-producer multi-consumer ring (\<open>veddb-core/src/ring/mpmc.rs\<close>), one call at a time.
  A call takes a ticket (\<open>fetch_add\<close> on \<open>head\<close> or \<open>tail\<close>), looks at the sequence number of the
  ticket's slot and succeeds, gives up, or spins until another thread changes the sequence number.
  A call that would spin with no other call under way never returns: its result is \<open>None\<close>.
\<close>

section \<open>State and operations\<close>

record mpmc_slot =
  sequence :: u64
  mdata :: slot

record mpmc_ring =
  head :: u64
  tail :: u64
  mpmc_capacity :: u64
  mpmc_mask :: u64
  mpmc_slots :: "mpmc_slot list"

definition mpmc_slot_new :: "u64 \<Rightarrow> mpmc_slot" where
  "mpmc_slot_new seq = \<lparr>sequence = seq, mdata = slot_empty\<rparr>"

definition mpmc_init :: "u64 \<Rightarrow> mpmc_ring option" where
  "mpmc_init capacity =
     (if is_power_of_two capacity
      then Some \<lparr>head = 0, tail = 0, mpmc_capacity = capacity, mpmc_mask = capacity - 1,
                 mpmc_slots = map (\<lambda>i. mpmc_slot_new (of_nat i)) [0..<unat capacity]\<rparr>
      else None)"

definition mpmc_try_push :: "mpmc_ring \<Rightarrow> slot \<Rightarrow> (mpmc_ring \<times> bool) option" where
  "mpmc_try_push m d =
     (let h = head m; m1 = m\<lparr>head := h + 1\<rparr>; slot_idx = h AND mpmc_mask m;
          s = mpmc_slots m ! unat slot_idx; expected_seq = slot_idx
      in if sequence s = expected_seq
         then Some (m1\<lparr>mpmc_slots := (mpmc_slots m)[unat slot_idx :=
                      \<lparr>sequence = expected_seq + 1, mdata = d\<rparr>]\<rparr>, True)
         else if sequence s < expected_seq then None
         else Some (m1, False))"

definition mpmc_try_pop :: "mpmc_ring \<Rightarrow> (mpmc_ring \<times> slot option) option" where
  "mpmc_try_pop m =
     (let t = tail m; m1 = m\<lparr>tail := t + 1\<rparr>; slot_idx = t AND mpmc_mask m;
          s = mpmc_slots m ! unat slot_idx; expected_seq = slot_idx + 1
      in if sequence s = expected_seq
         then Some (m1\<lparr>mpmc_slots := (mpmc_slots m)[unat slot_idx :=
                      s\<lparr>sequence := expected_seq + mpmc_capacity m - 1\<rparr>]\<rparr>, Some (mdata s))
         else if sequence s < expected_seq then Some (m1, None)
         else None)"

definition mpmc_len :: "mpmc_ring \<Rightarrow> u64" where
  "mpmc_len m = saturating_sub (head m) (tail m)"

definition mpmc_is_empty :: "mpmc_ring \<Rightarrow> bool" where
  "mpmc_is_empty m \<longleftrightarrow> mpmc_len m = 0"

definition mpmc_is_full :: "mpmc_ring \<Rightarrow> bool" where
  "mpmc_is_full m \<longleftrightarrow> mpmc_len m \<ge> mpmc_capacity m"

text \<open>A sequence of calls; \<open>None\<close> when one of them never returns.\<close>

fun mpmc_run :: "mpmc_ring \<Rightarrow> slot queue_op list \<Rightarrow> (mpmc_ring \<times> slot queue_out list) option" where
  "mpmc_run m [] = Some (m, [])"
| "mpmc_run m (Push d # cs) =
     (case mpmc_try_push m d of None \<Rightarrow> None
      | Some (m', b) \<Rightarrow> (case mpmc_run m' cs of None \<Rightarrow> None
          | Some (m'', outs) \<Rightarrow> Some (m'', Pushed b # outs)))"
| "mpmc_run m (Pop # cs) =
     (case mpmc_try_pop m of None \<Rightarrow> None
      | Some (m', r) \<Rightarrow> (case mpmc_run m' cs of None \<Rightarrow> None
          | Some (m'', outs) \<Rightarrow> Some (m'', Popped r # outs)))"

lemmas mpmc_defs [ved_simps] =
  mpmc_slot_new_def mpmc_init_def mpmc_try_push_def mpmc_try_pop_def mpmc_len_def
  mpmc_is_empty_def mpmc_is_full_def

section \<open>The states of a slot\<close>

definition mpmc_layout :: "mpmc_ring \<Rightarrow> bool" where
  "mpmc_layout m \<longleftrightarrow>
     is_power_of_two (mpmc_capacity m) \<and> 2 \<le> unat (mpmc_capacity m) \<and>
     mpmc_mask m = mpmc_capacity m - 1 \<and> length (mpmc_slots m) = unat (mpmc_capacity m)"

text \<open>A slot is fresh, full or spent; with a capacity of at least two these are distinct.\<close>

definition seq_at :: "mpmc_ring \<Rightarrow> nat \<Rightarrow> nat" where
  "seq_at m i = unat (sequence (mpmc_slots m ! i))"

definition mpmc_wf :: "mpmc_ring \<Rightarrow> bool" where
  "mpmc_wf m \<longleftrightarrow> mpmc_layout m \<and>
     (\<forall>i < unat (mpmc_capacity m). seq_at m i \<in> {i, i + 1, i + unat (mpmc_capacity m)})"

definition used_slots :: "mpmc_ring \<Rightarrow> nat set" where
  "used_slots m = {i. i < unat (mpmc_capacity m) \<and> seq_at m i \<noteq> i}"

lemma capacity_half: "is_power_of_two c \<Longrightarrow> unat c \<le> 2 ^ 63"
proof -
  assume "is_power_of_two c"
  then obtain k where "k < 64" and "c = 2 ^ k" by (rule is_power_of_twoE)
  moreover from \<open>k < 64\<close> have "(2 :: nat) ^ k \<le> 2 ^ 63" by (intro power_increasing) simp_all
  ultimately show ?thesis by (simp add: unat_u64_power)
qed

lemma seq_at_word: "sequence (mpmc_slots m ! i) = w \<longleftrightarrow> seq_at m i = unat w"
  by (simp add: seq_at_def word_unat_eq_iff)

lemma push_index:
  assumes "mpmc_layout m"
  shows "unat (x AND mpmc_mask m) < unat (mpmc_capacity m)"
  using assms unat_and_capacity [of "mpmc_capacity m" x] power_of_two_pos [of "mpmc_capacity m"]
  by (simp add: mpmc_layout_def)

lemma seq_word_arith:
  assumes "mpmc_layout m" and "unat (x :: u64) < unat (mpmc_capacity m)"
  shows "unat (x + 1) = unat x + 1"
    and "unat (x + 1 + mpmc_capacity m - 1) = unat x + unat (mpmc_capacity m)"
proof -
  have half: "unat (mpmc_capacity m) \<le> 2 ^ 63"
    using assms(1) capacity_half unfolding mpmc_layout_def by blast
  then show "unat (x + 1) = unat x + 1" using assms(2) by (simp add: unat_u64_Suc)
  have "x + 1 + mpmc_capacity m - 1 = x + mpmc_capacity m" by simp
  moreover have "unat (x + mpmc_capacity m) = unat x + unat (mpmc_capacity m)"
    using assms(2) half by (simp add: unat_word_ariths)
  ultimately show "unat (x + 1 + mpmc_capacity m - 1) = unat x + unat (mpmc_capacity m)" by simp
qed

text \<open>The outcome of a push, by the state of the ticket's slot.\<close>

lemma try_push_cases:
  assumes lay: "mpmc_layout m" and i: "i = unat (head m) mod unat (mpmc_capacity m)"
  shows "mpmc_try_push m d =
     (if seq_at m i = i
      then Some (m\<lparr>head := head m + 1, mpmc_slots := (mpmc_slots m)[i :=
             \<lparr>sequence = of_nat (i + 1), mdata = d\<rparr>]\<rparr>, True)
      else if seq_at m i < i then None else Some (m\<lparr>head := head m + 1\<rparr>, False))"
proof -
  have ix: "unat (head m AND mpmc_mask m) = i"
    using lay i by (simp add: mpmc_layout_def unat_and_capacity)
  then have w: "head m AND mpmc_mask m = of_nat i" by (metis of_nat_unat ucast_id)
  show ?thesis
    by (simp add: mpmc_try_push_def Let_def ix seq_at_word word_less_nat_alt seq_at_def [symmetric] w [symmetric])
       (simp add: w add.commute)
qed

lemma try_pop_cases:
  assumes lay: "mpmc_layout m" and i: "i = unat (tail m) mod unat (mpmc_capacity m)"
  shows "mpmc_try_pop m =
     (if seq_at m i = i + 1
      then Some (m\<lparr>tail := tail m + 1, mpmc_slots := (mpmc_slots m)[i :=
             (mpmc_slots m ! i)\<lparr>sequence := of_nat (i + unat (mpmc_capacity m))\<rparr>]\<rparr>,
             Some (mdata (mpmc_slots m ! i)))
      else if seq_at m i < i + 1 then Some (m\<lparr>tail := tail m + 1\<rparr>, None) else None)"
proof -
  let ?x = "tail m AND mpmc_mask m"
  have ix: "unat ?x = i" using lay i by (simp add: mpmc_layout_def unat_and_capacity)
  have lt: "unat ?x < unat (mpmc_capacity m)" using lay by (rule push_index)
  have e1: "unat (?x + 1) = i + 1" using seq_word_arith(1) [OF lay lt] ix by simp
  have e2: "?x + 1 + mpmc_capacity m - 1 = of_nat (i + unat (mpmc_capacity m))"
    using seq_word_arith(2) [OF lay lt] ix by (metis of_nat_unat ucast_id)
  show ?thesis
    by (simp add: mpmc_try_pop_def Let_def ix seq_at_word e1 word_less_nat_alt
        seq_at_def [symmetric] e2 del: add_diff_cancel_right' add_diff_cancel)
qed

section \<open>A slot is filled at most once\<close>

lemma seq_at_update:
  "i < length (mpmc_slots m) \<Longrightarrow>
   seq_at (m\<lparr>head := h, mpmc_slots := (mpmc_slots m)[i := s]\<rparr>) j =
     (if j = i then unat (sequence s) else seq_at m j)"
  "i < length (mpmc_slots m) \<Longrightarrow>
   seq_at (m\<lparr>tail := t, mpmc_slots := (mpmc_slots m)[i := s]\<rparr>) j =
     (if j = i then unat (sequence s) else seq_at m j)"
  by (auto simp: seq_at_def nth_list_update)

lemma seq_at_index [simp]:
  "seq_at (m\<lparr>head := h\<rparr>) = seq_at m" "seq_at (m\<lparr>tail := t\<rparr>) = seq_at m"
  by (auto simp: seq_at_def fun_eq_iff)

lemma mpmc_layout_update [simp]:
  "mpmc_layout (m\<lparr>head := h\<rparr>) = mpmc_layout m"
  "mpmc_layout (m\<lparr>tail := t\<rparr>) = mpmc_layout m"
  "mpmc_layout (m\<lparr>head := h, mpmc_slots := (mpmc_slots m)[i := s]\<rparr>) = mpmc_layout m"
  "mpmc_layout (m\<lparr>tail := t, mpmc_slots := (mpmc_slots m)[i := s]\<rparr>) = mpmc_layout m"
  by (simp_all add: mpmc_layout_def)

text \<open>Sequence numbers stay below \<open>2 * capacity\<close>, far from wrapping.\<close>

lemma seq_small:
  assumes "mpmc_layout m" and "i < unat (mpmc_capacity m)"
  shows "unat (of_nat (i + 1) :: u64) = i + 1"
    and "unat (of_nat (i + unat (mpmc_capacity m)) :: u64) = i + unat (mpmc_capacity m)"
proof -
  have "unat (mpmc_capacity m) \<le> 2 ^ 63"
    using assms(1) capacity_half unfolding mpmc_layout_def by blast
  with assms(2) have "i + 1 < 2 ^ 64" and "i + unat (mpmc_capacity m) < 2 ^ 64" by simp_all
  then show "unat (of_nat (i + 1) :: u64) = i + 1"
    and "unat (of_nat (i + unat (mpmc_capacity m)) :: u64) = i + unat (mpmc_capacity m)"
    by (simp_all only: unat_of_nat) simp_all
qed

lemma ticket_slot:
  "mpmc_layout m \<Longrightarrow> x mod unat (mpmc_capacity m) < unat (mpmc_capacity m) \<and>
     x mod unat (mpmc_capacity m) < length (mpmc_slots m)"
  by (auto simp: mpmc_layout_def intro!: mod_less_divisor)

lemma finite_used_slots [simp]: "finite (used_slots m)"
  by (simp add: used_slots_def)

lemma card_used_slots_le: "card (used_slots m) \<le> unat (mpmc_capacity m)"
proof -
  have "card (used_slots m) \<le> card {..<unat (mpmc_capacity m)}"
    by (intro card_mono) (auto simp: used_slots_def)
  then show ?thesis by simp
qed

lemma mpmc_push_accepts_fresh:
  assumes wf: "mpmc_wf m" and push: "mpmc_try_push m d = Some (m', b)"
  shows "mpmc_wf m' \<and> mpmc_capacity m' = mpmc_capacity m \<and>
         card (used_slots m') = card (used_slots m) + (if b then 1 else 0)"
proof -
  let ?i = "unat (head m) mod unat (mpmc_capacity m)"
  have lay: "mpmc_layout m" using wf by (simp add: mpmc_wf_def)
  note ts = ticket_slot [OF lay, of "unat (head m)"]
  note ss = seq_small(1) [OF lay, of ?i]
  show ?thesis
  proof (cases "seq_at m ?i = ?i")
    case True
    with push lay ts have m': "b" "m' = m\<lparr>head := head m + 1, mpmc_slots := (mpmc_slots m)[?i :=
        \<lparr>sequence = of_nat (?i + 1), mdata = d\<rparr>]\<rparr>"
      by (auto simp: try_push_cases [OF lay refl] simp del: of_nat_add of_nat_Suc)
    have "used_slots m' = insert ?i (used_slots m)" and "?i \<notin> used_slots m"
      using ts ss True by (auto simp: used_slots_def m' seq_at_update simp del: of_nat_add of_nat_Suc)
    moreover have "mpmc_wf m'"
      using wf ts ss by (auto simp: mpmc_wf_def m' seq_at_update simp del: of_nat_add of_nat_Suc)
    ultimately show ?thesis using m' by simp
  next
    case False
    with push have "m' = m\<lparr>head := head m + 1\<rparr>" "\<not> b"
      by (auto simp: try_push_cases [OF lay refl] split: if_splits)
    then show ?thesis using wf by (simp add: mpmc_wf_def used_slots_def)
  qed
qed

lemma mpmc_pop_keeps_used:
  assumes wf: "mpmc_wf m" and pop: "mpmc_try_pop m = Some (m', r)"
  shows "mpmc_wf m' \<and> mpmc_capacity m' = mpmc_capacity m \<and> used_slots m' = used_slots m"
proof -
  let ?i = "unat (tail m) mod unat (mpmc_capacity m)"
  have lay: "mpmc_layout m" using wf by (simp add: mpmc_wf_def)
  note ts = ticket_slot [OF lay, of "unat (tail m)"]
  note ss = seq_small(2) [OF lay, of ?i]
  show ?thesis
  proof (cases "seq_at m ?i = ?i + 1")
    case True
    with pop have m': "m' = m\<lparr>tail := tail m + 1, mpmc_slots := (mpmc_slots m)[?i :=
             (mpmc_slots m ! ?i)\<lparr>sequence := of_nat (?i + unat (mpmc_capacity m))\<rparr>]\<rparr>"
      by (auto simp: try_pop_cases [OF lay refl] simp del: of_nat_add)
    have "used_slots m' = used_slots m"
      using ts ss True lay
      by (auto simp: used_slots_def m' seq_at_update mpmc_layout_def simp del: of_nat_add)
    moreover have "mpmc_wf m'"
      using wf ts ss by (auto simp: mpmc_wf_def m' seq_at_update simp del: of_nat_add)
    ultimately show ?thesis using m' by simp
  next
    case False
    with pop have "m' = m\<lparr>tail := tail m + 1\<rparr>"
      by (auto simp: try_pop_cases [OF lay refl] split: if_splits)
    then show ?thesis using wf by (simp add: mpmc_wf_def used_slots_def)
  qed
qed

definition accepted :: "slot queue_out list \<Rightarrow> nat" where
  "accepted outs = length (filter (\<lambda>x. x = Pushed True) outs)"

lemma mpmc_run_used:
  assumes "mpmc_wf m" and "mpmc_run m cs = Some (m', outs)"
  shows "mpmc_wf m' \<and> mpmc_capacity m' = mpmc_capacity m \<and>
         accepted outs + card (used_slots m) = card (used_slots m')"
  using assms
proof (induction m cs arbitrary: m' outs rule: mpmc_run.induct)
  case (1 m)
  then show ?case by (simp add: accepted_def)
next
  case (2 m d cs)
  from 2(3) obtain m1 b outs' where p: "mpmc_try_push m d = Some (m1, b)"
    and r: "mpmc_run m1 cs = Some (m', outs')" and o: "outs = Pushed b # outs'"
    by (auto split: option.splits prod.splits)
  from mpmc_push_accepts_fresh [OF 2(2) p]
  have m1: "mpmc_wf m1" "mpmc_capacity m1 = mpmc_capacity m"
    "card (used_slots m1) = card (used_slots m) + (if b then 1 else 0)" by auto
  from 2(1) [OF p refl m1(1) r] m1 o show ?case by (auto simp: accepted_def)
next
  case (3 m cs)
  from 3(3) obtain m1 x outs' where p: "mpmc_try_pop m = Some (m1, x)"
    and r: "mpmc_run m1 cs = Some (m', outs')" and o: "outs = Popped x # outs'"
    by (auto split: option.splits prod.splits)
  from mpmc_pop_keeps_used [OF 3(2) p]
  have m1: "mpmc_wf m1" "mpmc_capacity m1 = mpmc_capacity m" "used_slots m1 = used_slots m" by auto
  from 3(1) [OF p refl m1(1) r] m1 o show ?case by (auto simp: accepted_def)
qed

lemma mpmc_init_wf:
  assumes "mpmc_init c = Some m" and "2 \<le> unat c"
  shows "mpmc_wf m \<and> mpmc_capacity m = c \<and> used_slots m = {} \<and> head m = 0 \<and> tail m = 0"
proof -
  have p2: "is_power_of_two c" and m: "m = \<lparr>head = 0, tail = 0, mpmc_capacity = c, mpmc_mask = c - 1,
      mpmc_slots = map (\<lambda>i. mpmc_slot_new (of_nat i)) [0..<unat c]\<rparr>"
    using assms(1) by (auto simp: mpmc_init_def split: if_splits)
  have "seq_at m i = i" if "i < unat c" for i
    using that unsigned_less [of c, where 'a = nat]
    by (simp add: m seq_at_def mpmc_slot_new_def unat_of_nat)
  then show ?thesis
    using p2 assms(2) by (auto simp: mpmc_wf_def mpmc_layout_def used_slots_def m)
qed

section \<open>The first lap\<close>

text \<open>
  After \<open>xs\<close> has been pushed and its first \<open>k\<close> elements popped, all within the first lap, the
  slots below \<open>k\<close> are spent, those up to \<open>length xs\<close> are full and the rest are fresh.
\<close>

definition first_lap :: "mpmc_ring \<Rightarrow> slot list \<Rightarrow> nat \<Rightarrow> bool" where
  "first_lap m xs k \<longleftrightarrow>
     mpmc_layout m \<and> unat (head m) = length xs \<and> unat (tail m) = k \<and> k \<le> length xs \<and>
     length xs \<le> unat (mpmc_capacity m) \<and>
     (\<forall>i < unat (mpmc_capacity m). seq_at m i =
        (if i < k then i + unat (mpmc_capacity m) else if i < length xs then i + 1 else i)) \<and>
     (\<forall>i. k \<le> i \<longrightarrow> i < length xs \<longrightarrow> mdata (mpmc_slots m ! i) = xs ! i)"

lemma first_lap_half: "first_lap m xs k \<Longrightarrow> unat (mpmc_capacity m) \<le> 2 ^ 63"
  using capacity_half unfolding first_lap_def mpmc_layout_def by blast

lemma first_lap_push:
  assumes lap: "first_lap m xs k" and room: "length xs < unat (mpmc_capacity m)"
  shows "\<exists>m'. mpmc_try_push m d = Some (m', True) \<and> first_lap m' (xs @ [d]) k \<and>
              mpmc_capacity m' = mpmc_capacity m"
proof -
  let ?n = "length xs"
  have lay: "mpmc_layout m" and h: "unat (head m) = ?n" using lap by (auto simp: first_lap_def)
  have i: "?n = unat (head m) mod unat (mpmc_capacity m)" using h room by simp
  have fresh: "seq_at m ?n = ?n" using lap room by (simp add: first_lap_def)
  have len: "?n < length (mpmc_slots m)" using lay room by (simp add: mpmc_layout_def)
  have h1: "unat (head m + 1) = Suc ?n"
    using h room first_lap_half [OF lap] by (simp add: unat_u64_Suc)
  let ?m' = "m\<lparr>head := head m + 1, mpmc_slots := (mpmc_slots m)[?n :=
      \<lparr>sequence = of_nat (?n + 1), mdata = d\<rparr>]\<rparr>"
  have "mpmc_try_push m d = Some (?m', True)" by (simp add: try_push_cases [OF lay i] fresh)
  moreover have "first_lap ?m' (xs @ [d]) k"
    using lap room len h1 seq_small(1) [OF lay room]
    by (auto simp: first_lap_def seq_at_update nth_list_update nth_append simp del: of_nat_add of_nat_Suc)
  ultimately show ?thesis by auto
qed

lemma first_lap_pop:
  assumes lap: "first_lap m xs k" and ne: "k < length xs"
  shows "\<exists>m'. mpmc_try_pop m = Some (m', Some (xs ! k)) \<and> first_lap m' xs (Suc k) \<and>
              mpmc_capacity m' = mpmc_capacity m"
proof -
  have lay: "mpmc_layout m" and t: "unat (tail m) = k"
    and kc: "k < unat (mpmc_capacity m)" using lap ne by (auto simp: first_lap_def)
  have i: "k = unat (tail m) mod unat (mpmc_capacity m)" using t kc by simp
  have full: "seq_at m k = k + 1" using lap ne kc by (simp add: first_lap_def)
  have len: "k < length (mpmc_slots m)" using lay kc by (simp add: mpmc_layout_def)
  have t1: "unat (tail m + 1) = Suc k"
    using t kc first_lap_half [OF lap] by (simp add: unat_u64_Suc)
  let ?m' = "m\<lparr>tail := tail m + 1, mpmc_slots := (mpmc_slots m)[k :=
      (mpmc_slots m ! k)\<lparr>sequence := of_nat (k + unat (mpmc_capacity m))\<rparr>]\<rparr>"
  have "mpmc_try_pop m = Some (?m', Some (xs ! k))"
    using lap ne by (simp add: try_pop_cases [OF lay i] full first_lap_def)
  moreover have "first_lap ?m' xs (Suc k)"
    using lap ne len t1 seq_small(2) [OF lay kc]
    by (auto simp: first_lap_def seq_at_update nth_list_update simp del: of_nat_add)
  ultimately show ?thesis by auto
qed

lemma first_lap_pushes:
  "first_lap m xs k \<Longrightarrow> length xs + length ys \<le> unat (mpmc_capacity m) \<Longrightarrow>
   \<exists>m'. mpmc_run m (map Push ys @ cs) =
          map_option (apsnd ((@) (replicate (length ys) (Pushed True)))) (mpmc_run m' cs) \<and>
        first_lap m' (xs @ ys) k \<and> mpmc_capacity m' = mpmc_capacity m"
proof (induction ys arbitrary: m xs)
  case Nil
  then show ?case by (cases "mpmc_run m cs") (auto intro!: exI [of _ m])
next
  case (Cons y ys)
  from first_lap_push [OF Cons.prems(1), of y] Cons.prems(2) obtain m1 where
    p: "mpmc_try_push m y = Some (m1, True)" and l: "first_lap m1 (xs @ [y]) k"
    and c: "mpmc_capacity m1 = mpmc_capacity m" by auto
  from Cons.IH [OF l] Cons.prems(2) c obtain m' where
    r: "mpmc_run m1 (map Push ys @ cs) =
        map_option (apsnd ((@) (replicate (length ys) (Pushed True)))) (mpmc_run m' cs)"
    and l': "first_lap m' (xs @ y # ys) k" "mpmc_capacity m' = mpmc_capacity m1" by auto
  have "mpmc_run m (map Push (y # ys) @ cs) =
      map_option (apsnd ((@) (replicate (length (y # ys)) (Pushed True)))) (mpmc_run m' cs)"
    using p r by (cases "mpmc_run m' cs") auto
  moreover have "first_lap m' (xs @ y # ys) k" "mpmc_capacity m' = mpmc_capacity m"
    using l' c by simp_all
  ultimately show ?case by blast
qed

lemma first_lap_pops:
  "first_lap m xs k \<Longrightarrow> j + k = length xs \<Longrightarrow>
   \<exists>m'. mpmc_run m (replicate j Pop) = Some (m', map (\<lambda>x. Popped (Some x)) (drop k xs))"
proof (induction j arbitrary: m k)
  case 0
  then show ?case by simp
next
  case (Suc j)
  from first_lap_pop [OF Suc.prems(1)] Suc.prems(2) obtain m1 where
    p: "mpmc_try_pop m = Some (m1, Some (xs ! k))" and l: "first_lap m1 xs (Suc k)" by auto
  from Suc.IH [OF l] Suc.prems(2) obtain m' where
    "mpmc_run m1 (replicate j Pop) = Some (m', map (\<lambda>x. Popped (Some x)) (drop (Suc k) xs))" by auto
  moreover have "drop k xs = xs ! k # drop (Suc k) xs" using Suc.prems(2) by (simp add: Cons_nth_drop_Suc)
  ultimately show ?case using p by simp
qed

lemma mpmc_init_first_lap: "mpmc_init c = Some m \<Longrightarrow> 2 \<le> unat c \<Longrightarrow> first_lap m [] 0"
  using mpmc_init_wf [of c m] by (auto simp: first_lap_def mpmc_wf_def used_slots_def)

section \<open>Properties\<close>

text \<open>
  Within the first lap of the MPMC ring (at most as many pushes as the capacity, and no pop of
  an empty ring) every push succeeds and the pops return the pushed slots in order.
\<close>

theorem mpmc_first_lap_fifo:
  assumes "mpmc_init c = Some m" and "2 \<le> unat c" and "length xs \<le> unat c"
  shows "\<exists>m'. mpmc_run m (map Push xs @ replicate (length xs) Pop) =
           Some (m', replicate (length xs) (Pushed True) @ map (\<lambda>x. Popped (Some x)) xs)"
proof -
  have lap: "first_lap m [] 0" using assms(1,2) by (rule mpmc_init_first_lap)
  have "mpmc_capacity m = c" using mpmc_init_wf [OF assms(1,2)] by simp
  with first_lap_pushes [OF lap, of xs "replicate (length xs) Pop"] assms(3) obtain m1 where
    run: "mpmc_run m (map Push xs @ replicate (length xs) Pop) =
      map_option (apsnd ((@) (replicate (length xs) (Pushed True))))
        (mpmc_run m1 (replicate (length xs) Pop))"
    and lap1: "first_lap m1 xs 0" by auto
  from first_lap_pops [OF lap1, of "length xs"] run show ?thesis by auto
qed

theorem mpmc_first_lap_fifo_witness:
  "\<exists>m m'. mpmc_init 2 = Some m \<and>
     mpmc_run m (map Push [arena_offset 9 1] @ replicate (length [arena_offset 9 1]) Pop) =
     Some (m', replicate (length [arena_offset 9 1]) (Pushed True) @
               map (\<lambda>x. Popped (Some x)) [arena_offset 9 1])"
proof -
  have "is_power_of_two 2" using is_power_of_twoI [of 1] by simp
  then obtain m where m: "mpmc_init 2 = Some m" by (simp add: mpmc_init_def)
  from mpmc_first_lap_fifo [OF m, of "[arena_offset 9 1]"] m show ?thesis by simp
qed

text \<open>
  C28. A slot of the MPMC ring is filled at most once: whatever sequence of calls is made, at most
  \<open>capacity\<close> pushes are ever accepted, however many elements are popped in between. The sequence
  number a consumer stores (\<open>slot_idx + capacity\<close>) is never the one a producer waits for
  (\<open>slot_idx\<close>).
\<close>

theorem mpmc_accepts_at_most_capacity:
  assumes "mpmc_init c = Some m" and "2 \<le> unat c" and "mpmc_run m cs = Some (m', outs)"
  shows "accepted outs \<le> unat c"
proof -
  have m: "mpmc_wf m" "mpmc_capacity m = c" "used_slots m = {}"
    using mpmc_init_wf [OF assms(1,2)] by auto
  with mpmc_run_used [OF m(1) assms(3)] card_used_slots_le [of m'] show ?thesis by simp
qed

theorem mpmc_accepts_at_most_capacity_witness:
  "\<exists>m m' outs. mpmc_init 2 = Some m \<and>
     mpmc_run m (map Push [arena_offset 9 1, arena_offset 9 2]) = Some (m', outs) \<and> accepted outs \<le> 2"
proof -
  let ?xs = "[arena_offset 9 1, arena_offset 9 2]"
  have "is_power_of_two 2" using is_power_of_twoI [of 1] by simp
  then obtain m where m: "mpmc_init 2 = Some m" by (simp add: mpmc_init_def)
  have lap: "first_lap m [] 0" using m by (rule mpmc_init_first_lap) simp
  have "mpmc_capacity m = 2" using mpmc_init_wf [OF m] by simp
  with first_lap_pushes [OF lap, of ?xs "[]"] obtain m' outs where
    run: "mpmc_run m (map Push ?xs) = Some (m', outs)" by auto
  from mpmc_accepts_at_most_capacity [OF m _ run] m run show ?thesis by auto
qed

text \<open>
  Popping an empty ring loses the next element: on a fresh ring, after one \<open>try_pop\<close> that
  finds nothing, a push succeeds and yet the following \<open>try_pop\<close> finds nothing, because the
  failed pop has already taken the ticket of the slot the element went to.
\<close>

theorem mpmc_failed_pop_loses_element:
  assumes "mpmc_init c = Some m" and "2 \<le> unat c"
  shows "\<exists>m'. mpmc_run m [Pop, Push d, Pop] = Some (m', [Popped None, Pushed True, Popped None])"
proof -
  have wf: "mpmc_wf m" and cap: "mpmc_capacity m = c" and "used_slots m = {}" "head m = 0" "tail m = 0"
    using mpmc_init_wf [OF assms] by auto
  then have lay: "mpmc_layout m" and s0: "seq_at m 0 = 0" and s1: "seq_at m 1 = 1"
    using assms(2) by (auto simp: mpmc_wf_def used_slots_def)
  let ?m1 = "m\<lparr>tail := 1\<rparr>"
  have p1: "mpmc_try_pop m = Some (?m1, None)"
    using try_pop_cases [OF lay, of 0] s0 \<open>tail m = 0\<close> by simp
  let ?m2 = "?m1\<lparr>head := 1, mpmc_slots := (mpmc_slots m)[0 := \<lparr>sequence = 1, mdata = d\<rparr>]\<rparr>"
  have p2: "mpmc_try_push ?m1 d = Some (?m2, True)"
    using try_push_cases [of ?m1 0 d] lay s0 \<open>head m = 0\<close> by simp
  have lay2: "mpmc_layout ?m2" using lay by (simp add: mpmc_layout_def)
  have "seq_at ?m2 1 = 1" using s1 by (simp add: seq_at_def)
  moreover have "1 = unat (tail ?m2) mod unat (mpmc_capacity ?m2)" using assms(2) cap by simp
  ultimately have "\<exists>m3. mpmc_try_pop ?m2 = Some (m3, None)"
    using try_pop_cases [OF lay2, of 1] by auto
  with p1 p2 show ?thesis by auto
qed

theorem mpmc_failed_pop_loses_element_witness:
  "\<exists>m m'. mpmc_init 4 = Some m \<and> mpmc_run m [Pop, Push (arena_offset 9 1), Pop] =
     Some (m', [Popped None, Pushed True, Popped None])"
proof -
  have "is_power_of_two 4" using is_power_of_twoI [of 2] by simp
  then obtain m where m: "mpmc_init 4 = Some m" by (simp add: mpmc_init_def)
  from mpmc_failed_pop_loses_element [OF m, of "arena_offset 9 1"] m show ?thesis by auto
qed

end
