(* ===== verification/Arena.thy ===== *)
theory Arena
  imports VedPrelude
begin

text \<open>
  The arena allocator (\<open>veddb-core/src/arena.rs\<close>): bump allocation from one block of memory with
  a free list per size class, the free-list nodes stored in the freed memory itself. Offsets are
  relative to the base of the arena, 0 is the failure value. The compare-and-swap loops are run by
  one thread here; \<open>Arena_Concurrent\<close> interleaves the loop of \<open>bump_allocate\<close>.
  Alignments are positive, as in every call of the sources (1, 8 and 64).
\<close>

section \<open>State\<close>

definition SIZE_CLASSES :: "u64 list" where
  "SIZE_CLASSES = [8, 16, 32, 64, 128, 256, 512, 1024, 2048, 4096, 8192, 16384, 32768]"

record arena =
  current :: u64
  arena_size :: u64
  start_offset :: u64
  free_lists :: "u64 list"
  allocated_bytes :: u64
  allocation_count :: u64
  free_count :: u64
  mem :: "u64 \<Rightarrow> u8"

text \<open>Three counters of eight bytes, one free-list head per class, three statistics.\<close>

definition header_size :: u64 where
  "header_size = 3 * 8 + of_nat (length SIZE_CLASSES) * 8 + 3 * 8"

definition arena_init :: "(u64 \<Rightarrow> u8) \<Rightarrow> u64 \<Rightarrow> arena" where
  "arena_init memory sz =
     \<lparr>current = header_size, arena_size = sz, start_offset = header_size,
      free_lists = replicate (length SIZE_CLASSES) 0, allocated_bytes = 0,
      allocation_count = 0, free_count = 0, mem = memory\<rparr>"

text \<open>\<open>ArenaBuffer::new\<close> panics when the size cannot hold the header.\<close>

definition arena_buffer_new :: "u64 \<Rightarrow> arena option" where
  "arena_buffer_new sz = (if sz \<ge> header_size then Some (arena_init (\<lambda>_. 0) sz) else None)"

section \<open>Memory access\<close>

definition read_bytes :: "arena \<Rightarrow> u64 \<Rightarrow> nat \<Rightarrow> bytes" where
  "read_bytes a off n = map (\<lambda>i. mem a (off + of_nat i)) [0..<n]"

fun write_bytes :: "(u64 \<Rightarrow> u8) \<Rightarrow> u64 \<Rightarrow> bytes \<Rightarrow> (u64 \<Rightarrow> u8)" where
  "write_bytes m off [] = m"
| "write_bytes m off (b # bs) = write_bytes (m(off := b)) (off + 1) bs"

text \<open>The node of a free list: the offset of the next node, the block size, padding.\<close>

definition free_node_bytes :: "u64 \<Rightarrow> u64 \<Rightarrow> bytes" where
  "free_node_bytes nxt sz = u64_to_le nxt @ u32_to_le (ucast sz) @ u32_to_le 0"

definition free_node_next :: "arena \<Rightarrow> u64 \<Rightarrow> u64" where
  "free_node_next a off = u64_from_le (read_bytes a off 8)"

section \<open>Size classes\<close>

fun class_position :: "u64 list \<Rightarrow> u64 \<Rightarrow> nat option" where
  "class_position [] sz = None"
| "class_position (c # cs) sz =
     (if sz \<le> c then Some 0 else map_option Suc (class_position cs sz))"

definition size_class_for :: "u64 \<Rightarrow> nat option" where
  "size_class_for sz = class_position SIZE_CLASSES sz"

definition size_for_class :: "nat \<Rightarrow> u64" where
  "size_for_class class_idx = SIZE_CLASSES ! class_idx"

section \<open>Allocation\<close>

definition allocate_from_free_list :: "arena \<Rightarrow> u64 \<Rightarrow> u64 \<Rightarrow> (arena \<times> u64) option" where
  "allocate_from_free_list a sz align =
     (case size_class_for sz of None \<Rightarrow> None
      | Some class_idx \<Rightarrow>
          let class_size = size_for_class class_idx; head_offset = free_lists a ! class_idx
          in if sz > class_size \<or> sz < class_size div 2 then None
             else if head_offset = 0 then None
             else if head_offset mod align \<noteq> 0 then None
             else Some (a\<lparr>free_lists := (free_lists a)[class_idx := free_node_next a head_offset]\<rparr>,
                        head_offset))"

definition align_up :: "u64 \<Rightarrow> u64 \<Rightarrow> u64" where
  "align_up cur align = (cur + align - 1) AND NOT (align - 1)"

definition bump_allocate :: "arena \<Rightarrow> u64 \<Rightarrow> u64 \<Rightarrow> arena \<times> u64" where
  "bump_allocate a sz align =
     (let aligned_offset = align_up (current a) align; new_offset = aligned_offset + sz
      in if new_offset > arena_size a then (a, 0)
         else (a\<lparr>current := new_offset, allocation_count := allocation_count a + 1,
                 allocated_bytes := allocated_bytes a + sz\<rparr>, aligned_offset))"

definition allocate :: "arena \<Rightarrow> u64 \<Rightarrow> u64 \<Rightarrow> arena \<times> u64" where
  "allocate a sz align =
     (if sz = 0 then (a, 0)
      else case allocate_from_free_list a sz align of
        Some (a', offset) \<Rightarrow>
          (a'\<lparr>allocation_count := allocation_count a' + 1,
              allocated_bytes := allocated_bytes a' + sz\<rparr>, offset)
      | None \<Rightarrow> bump_allocate a sz align)"

section \<open>Freeing\<close>

definition add_to_free_list :: "arena \<Rightarrow> u64 \<Rightarrow> u64 \<Rightarrow> nat \<Rightarrow> arena" where
  "add_to_free_list a offset sz class_idx =
     (let head_offset = free_lists a ! class_idx
      in a\<lparr>mem := write_bytes (mem a) offset (free_node_bytes head_offset sz),
           free_lists := (free_lists a)[class_idx := offset]\<rparr>)"

definition free :: "arena \<Rightarrow> u64 \<Rightarrow> u64 \<Rightarrow> arena" where
  "free a offset sz =
     (if offset = 0 \<or> sz = 0 then a
      else case size_class_for sz of
        Some class_idx \<Rightarrow>
          let class_size = size_for_class class_idx
          in if sz \<ge> class_size div 2 \<and> sz \<le> class_size
             then (let a' = add_to_free_list a offset class_size class_idx
                   in a'\<lparr>free_count := free_count a' + 1\<rparr>)
             else a\<lparr>free_count := free_count a + 1\<rparr>
      | None \<Rightarrow> a\<lparr>free_count := free_count a + 1\<rparr>)"

definition is_valid_offset :: "arena \<Rightarrow> u64 \<Rightarrow> bool" where
  "is_valid_offset a offset \<longleftrightarrow> offset \<ge> start_offset a \<and> offset < arena_size a"

definition remaining_space :: "arena \<Rightarrow> u64" where
  "remaining_space a = saturating_sub (arena_size a) (current a)"

definition allocate_slice :: "arena \<Rightarrow> u64 \<Rightarrow> arena \<times> u64 option" where
  "allocate_slice a sz =
     (let (a', offset) = allocate a sz 1 in (a', if offset = 0 then None else Some offset))"

lemmas arena_defs [ved_simps] =
  SIZE_CLASSES_def header_size_def arena_init_def arena_buffer_new_def read_bytes_def
  free_node_bytes_def free_node_next_def size_class_for_def size_for_class_def
  allocate_from_free_list_def align_up_def bump_allocate_def allocate_def add_to_free_list_def
  free_def is_valid_offset_def remaining_space_def allocate_slice_def

section \<open>Size classes are the smallest that fit\<close>

lemma class_position_Some:
  "class_position cs s = Some i \<Longrightarrow> i < length cs \<and> s \<le> cs ! i \<and> (\<forall>j < i. cs ! j < s)"
proof (induction cs arbitrary: i)
  case Nil
  then show ?case by simp
next
  case (Cons c cs)
  show ?case
  proof (cases "s \<le> c")
    case True
    with Cons.prems show ?thesis by simp
  next
    case False
    with Cons.prems obtain k where k: "class_position cs s = Some k" "i = Suc k" by auto
    from Cons.IH [OF k(1)] k(2) False show ?thesis by (auto simp: less_Suc_eq_0_disj)
  qed
qed

lemma class_position_None: "class_position cs s = None \<longleftrightarrow> (\<forall>c \<in> set cs. c < s)"
  by (induction cs) (auto simp: not_le)

section \<open>Rounding up to an alignment\<close>

lemma and_not_mask_word: "(x :: u64) AND NOT (mask k) = x - (x AND mask k)"
proof -
  have "(x AND mask k) + (x AND NOT (mask k)) = (x AND mask k) OR (x AND NOT (mask k))"
    by (rule disjunctive_add_eq_or) (rule bit_eqI, simp add: bit_simps)
  also have "\<dots> = x"
    by (rule bit_eqI) (auto simp: bit_simps)
  finally show ?thesis by (metis add_diff_cancel_left')
qed

lemma unat_align_up:
  assumes k: "k < 64" and small: "unat cur + 2 ^ k \<le> 2 ^ 64"
  shows "unat (align_up cur (2 ^ k)) = (unat cur + 2 ^ k - 1) div 2 ^ k * 2 ^ k"
proof -
  let ?a = "2 ^ k :: u64" and ?y = "unat cur + 2 ^ k - 1"
  have "unat (cur + ?a - 1) = ?y"
  proof -
    have "?a \<noteq> 0" using unat_u64_power [OF k] by (metis power_eq_0_iff unat_0 zero_neq_numeral)
    then have "unat (?a - 1) = 2 ^ k - 1" using k by (simp add: unat_u64_power unat_minus_one)
    moreover have "cur + ?a - 1 = cur + (?a - 1)" by simp
    ultimately show ?thesis using small by (simp only: unat_word_ariths) simp
  qed
  moreover from this have "unat ((cur + ?a - 1) AND mask k) = ?y mod 2 ^ k"
    by (simp add: unat_and_mask)
  ultimately have "unat (cur + ?a - 1 - ((cur + ?a - 1) AND mask k)) = ?y - ?y mod 2 ^ k"
    by (simp add: unat_sub_if')
  then show ?thesis
    by (simp add: align_up_def mask_word_eq and_not_mask_word minus_mod_eq_div_mult)
qed

lemma align_up_bounds:
  assumes "is_power_of_two align" and "unat cur + unat align \<le> 2 ^ 64"
  shows "unat cur \<le> unat (align_up cur align)"
    and "unat (align_up cur align) < unat cur + unat align"
    and "unat align dvd unat (align_up cur align)"
proof -
  from assms(1) obtain k where k: "k < 64" and a: "align = 2 ^ k" by (rule is_power_of_twoE)
  then have u: "unat align = 2 ^ k" by (simp add: unat_u64_power)
  let ?y = "unat cur + 2 ^ k - 1"
  have e: "unat (align_up cur align) = ?y div 2 ^ k * 2 ^ k"
    using unat_align_up [OF k] assms(2) a u by simp
  have d: "?y = ?y div 2 ^ k * 2 ^ k + ?y mod 2 ^ k" by (rule div_mult_mod_eq [symmetric])
  have m: "?y mod 2 ^ k < (2 ^ k :: nat)" by simp
  have pos: "(0::nat) < 2 ^ k" by simp
  show "unat cur \<le> unat (align_up cur align)" using d m pos unfolding e by linarith
  show "unat (align_up cur align) < unat cur + unat align" using d pos unfolding e u by linarith
  show "unat align dvd unat (align_up cur align)" unfolding e u by simp
qed

section \<open>Bump allocation\<close>

definition arena_wf :: "arena \<Rightarrow> bool" where
  "arena_wf a \<longleftrightarrow>
     0 < unat (start_offset a) \<and> unat (start_offset a) \<le> unat (current a) \<and>
     unat (current a) \<le> unat (arena_size a) \<and> length (free_lists a) = length SIZE_CLASSES"

text \<open>
  The requests that cannot wrap the 64-bit offset arithmetic: sizes of objects in memory are below
  \<open>2 ^ 62\<close>, as is the arena itself.
\<close>

definition sane_request :: "arena \<Rightarrow> u64 \<Rightarrow> u64 \<Rightarrow> bool" where
  "sane_request a sz align \<longleftrightarrow>
     is_power_of_two align \<and> unat align \<le> 2 ^ 62 \<and> unat sz \<le> 2 ^ 62 \<and> unat (arena_size a) \<le> 2 ^ 62"

lemma bump_no_wrap:
  assumes "arena_wf a" and "sane_request a sz align"
  shows "unat (current a) + unat align \<le> 2 ^ 64"
    and "unat (align_up (current a) align + sz) = unat (align_up (current a) align) + unat sz"
proof -
  have c: "unat (current a) \<le> 2 ^ 62" using assms by (auto simp: arena_wf_def sane_request_def)
  have al: "is_power_of_two align" "unat align \<le> 2 ^ 62" "unat sz \<le> 2 ^ 62"
    using assms(2) by (auto simp: sane_request_def)
  show w: "unat (current a) + unat align \<le> 2 ^ 64" using c al by simp
  have "unat (align_up (current a) align) < unat (current a) + unat align"
    using align_up_bounds(2) [OF al(1) w] .
  then have "unat (align_up (current a) align) + unat sz < 2 ^ 64" using c al by simp
  then show "unat (align_up (current a) align + sz) = unat (align_up (current a) align) + unat sz"
    by (simp add: unat_word_ariths)
qed

lemma bump_success:
  assumes wf: "arena_wf a" and sane: "sane_request a sz align"
    and off: "bump_allocate a sz align = (a', off)" and ok: "off \<noteq> 0"
  shows "unat align dvd unat off \<and> unat (current a) \<le> unat off \<and>
         unat (current a') = unat off + unat sz \<and> unat (current a') \<le> unat (arena_size a) \<and>
         arena_wf a' \<and> arena_size a' = arena_size a \<and> mem a' = mem a \<and> free_lists a' = free_lists a"
proof -
  note nw = bump_no_wrap [OF wf sane]
  have al: "is_power_of_two align" using sane by (simp add: sane_request_def)
  note b = align_up_bounds [OF al nw(1)]
  have "\<not> align_up (current a) align + sz > arena_size a"
    using off ok by (auto simp: bump_allocate_def Let_def split: if_splits)
  moreover from this have "off = align_up (current a) align"
    and "a' = a\<lparr>current := align_up (current a) align + sz,
               allocation_count := allocation_count a + 1, allocated_bytes := allocated_bytes a + sz\<rparr>"
    using off by (auto simp: bump_allocate_def Let_def)
  ultimately show ?thesis
    using wf b nw(2) by (auto simp: arena_wf_def word_less_nat_alt not_less)
qed

text \<open>A bump allocation fails exactly when the rounded block does not fit, and changes nothing.\<close>

lemma bump_failure:
  assumes wf: "arena_wf a" and sane: "sane_request a sz align"
  shows "snd (bump_allocate a sz align) = 0 \<longleftrightarrow>
         unat (arena_size a) < unat (align_up (current a) align) + unat sz"
    and "snd (bump_allocate a sz align) = 0 \<Longrightarrow> fst (bump_allocate a sz align) = a"
proof -
  note nw = bump_no_wrap [OF wf sane]
  have al: "is_power_of_two align" using sane by (simp add: sane_request_def)
  have "0 < unat (align_up (current a) align)"
    using align_up_bounds(1) [OF al nw(1)] wf by (simp add: arena_wf_def)
  then have nz: "align_up (current a) align \<noteq> 0" by (metis less_irrefl unat_0)
  then show "snd (bump_allocate a sz align) = 0 \<longleftrightarrow>
      unat (arena_size a) < unat (align_up (current a) align) + unat sz"
    by (auto simp: bump_allocate_def Let_def word_less_nat_alt nw(2))
  from nz show "snd (bump_allocate a sz align) = 0 \<Longrightarrow> fst (bump_allocate a sz align) = a"
    by (auto simp: bump_allocate_def Let_def split: if_splits)
qed

section \<open>Freed blocks come back\<close>

lemma write_bytes_apply:
  "length bs < 2 ^ 64 \<Longrightarrow>
   write_bytes m off bs x = (if unat (x - off) < length bs then bs ! unat (x - off) else m x)"
proof (induction bs arbitrary: m off)
  case Nil
  then show ?case by simp
next
  case (Cons b bs)
  have IH: "write_bytes (m(off := b)) (off + 1) bs x =
      (if unat (x - (off + 1)) < length bs then bs ! unat (x - (off + 1)) else (m(off := b)) x)"
    using Cons by simp
  show ?case
  proof (cases "x = off")
    case True
    have "unat (- 1 :: u64) = 2 ^ 64 - 1"
      by (simp add: unsigned_minus_1_eq_mask mask_eq_exp_minus_1)
    with True IH Cons.prems show ?thesis by simp
  next
    case False
    then have "x - off \<noteq> 0" by simp
    then have u: "unat (x - (off + 1)) = unat (x - off) - 1" "0 < unat (x - off)"
      using unat_minus_one [of "x - off"] by (simp_all add: diff_diff_eq unat_gt_0)
    with IH False show ?thesis by (auto simp: nth_Cons')
  qed
qed

lemma read_written_prefix:
  assumes "n \<le> length bs" and "length bs < 2 ^ 64"
  shows "map (\<lambda>i. write_bytes m off bs (off + of_nat i)) [0..<n] = take n bs"
proof (rule nth_equalityI)
  show "length (map (\<lambda>i. write_bytes m off bs (off + of_nat i)) [0..<n]) = length (take n bs)"
    using assms by simp
  fix i assume "i < length (map (\<lambda>i. write_bytes m off bs (off + of_nat i)) [0..<n])"
  with assms have i: "i < n" "i < 2 ^ 64" "i < length bs" by simp_all
  then have "unat (of_nat i :: u64) = i" by (simp only: unat_of_nat) simp
  with i assms show "map (\<lambda>i. write_bytes m off bs (off + of_nat i)) [0..<n] ! i = take n bs ! i"
    by (simp add: write_bytes_apply)
qed

text \<open>Writing a node and reading its link back.\<close>

lemma free_node_roundtrip:
  "free_node_next (a\<lparr>mem := write_bytes m off (free_node_bytes nxt sz)\<rparr>) off = nxt"
  using read_written_prefix [of 8 "free_node_bytes nxt sz" m off]
  by (simp add: free_node_next_def read_bytes_def free_node_bytes_def)

definition list_eligible :: "u64 \<Rightarrow> nat \<Rightarrow> bool" where
  "list_eligible sz i \<longleftrightarrow> size_class_for sz = Some i \<and> size_for_class i div 2 \<le> sz"

lemma list_eligible_facts:
  assumes "list_eligible sz i"
  shows "i < length SIZE_CLASSES" and "sz \<le> size_for_class i" and "sz \<noteq> 0"
    and "\<not> sz < size_for_class i div 2"
proof -
  from assms have c: "class_position SIZE_CLASSES sz = Some i" and h: "size_for_class i div 2 \<le> sz"
    by (auto simp: list_eligible_def size_class_for_def)
  from class_position_Some [OF c] show i: "i < length SIZE_CLASSES" and "sz \<le> size_for_class i"
    by (auto simp: size_for_class_def)
  have "\<forall>c \<in> set SIZE_CLASSES. c div 2 \<noteq> 0" by (simp add: SIZE_CLASSES_def)
  with i have "size_for_class i div 2 \<noteq> 0" by (simp add: size_for_class_def)
  with h show "sz \<noteq> 0" by auto
  from h show "\<not> sz < size_for_class i div 2" by simp
qed

lemma free_then_allocate:
  assumes wf: "arena_wf a" and "off \<noteq> 0" and al: "off mod align = 0"
    and freed: "list_eligible s1 i" and wanted: "list_eligible s2 i"
  shows "snd (allocate (free a off s1) s2 align) = off \<and>
         free_lists (fst (allocate (free a off s1) s2 align)) = free_lists a"
proof -
  note f = list_eligible_facts [OF freed] and w = list_eligible_facts [OF wanted]
  have c1: "size_class_for s1 = Some i" and c2: "size_class_for s2 = Some i"
    using freed wanted by (auto simp: list_eligible_def)
  have len: "i < length (free_lists a)" using wf f(1) by (simp add: arena_wf_def)
  let ?a1 = "free a off s1"
  have a1: "?a1 = a\<lparr>mem := write_bytes (mem a) off (free_node_bytes (free_lists a ! i) (size_for_class i)),
       free_lists := (free_lists a)[i := off], free_count := free_count a + 1\<rparr>"
    using assms(2) f c1 by (simp add: free_def add_to_free_list_def Let_def not_less)
  have link: "free_node_next ?a1 off = free_lists a ! i"
    using free_node_roundtrip [where a = a and m = "mem a" and off = off
        and nxt = "free_lists a ! i" and sz = "size_for_class i"]
    by (simp add: a1 free_node_next_def read_bytes_def)
  have "allocate_from_free_list ?a1 s2 align =
      Some (?a1\<lparr>free_lists := (free_lists ?a1)[i := free_lists a ! i]\<rparr>, off)"
    using len w assms(2) al c2 link
    by (simp add: allocate_from_free_list_def Let_def a1 not_less)
  then show ?thesis using w len by (simp add: allocate_def a1)
qed

section \<open>Properties\<close>

text \<open>
  Bump allocation on a well-formed arena: on success the block is aligned, lies after
  everything allocated before, inside the arena, and the bump pointer moves exactly to its end;
  it fails exactly when the aligned block does not fit, and then changes nothing.
\<close>

theorem bump_allocate_correct:
  assumes "arena_wf a" and "sane_request a sz align"
  shows "case bump_allocate a sz align of (a', off) \<Rightarrow>
     if unat (arena_size a) < unat (align_up (current a) align) + unat sz
     then off = 0 \<and> a' = a
     else unat align dvd unat off \<and> unat (current a) \<le> unat off \<and>
          unat (current a') = unat off + unat sz \<and> unat (current a') \<le> unat (arena_size a) \<and>
          arena_wf a' \<and> mem a' = mem a \<and> free_lists a' = free_lists a"
proof -
  obtain a' off where e: "bump_allocate a sz align = (a', off)" by fastforce
  show ?thesis
    using bump_failure [OF assms] bump_success [OF assms e] e by auto
qed

lemma example_arena_wf: "arena_wf (arena_init (\<lambda>_. 0) 4096)"
  by (simp add: arena_wf_def arena_init_def header_size_def SIZE_CLASSES_def)

lemma example_request: "sane_request (arena_init (\<lambda>_. 0) 4096) 40 8"
  using is_power_of_twoI [of 3] by (simp add: sane_request_def arena_init_def)

theorem bump_allocate_correct_witness:
  "case bump_allocate (arena_init (\<lambda>_. 0) 4096) 40 8 of (a', off) \<Rightarrow>
     8 dvd unat off \<and> unat (current a') = unat off + 40"
proof -
  have "align_up 152 8 = (152 :: u64)" by (simp add: align_up_def)
  then show ?thesis
    using bump_allocate_correct [OF example_arena_wf example_request]
    by (auto simp: arena_init_def header_size_def SIZE_CLASSES_def split: prod.splits)
qed

text \<open>
  A freed block of at least half its size class is handed out again by the next allocation of
  that class, whatever the two sizes are, and the free list is left as it was before the free.
\<close>

theorem free_block_is_reused:
  assumes "arena_wf a" and "off \<noteq> 0" and "off mod align = 0"
    and "list_eligible s1 i" and "list_eligible s2 i"
  shows "snd (allocate (free a off s1) s2 align) = off \<and>
         free_lists (fst (allocate (free a off s1) s2 align)) = free_lists a"
  using assms by (rule free_then_allocate)

theorem free_block_is_reused_witness:
  "snd (allocate (free (arena_init (\<lambda>_. 0) 4096) 152 40) 40 8) = 152"
proof -
  have "list_eligible 40 3"
    by (simp add: list_eligible_def size_class_for_def size_for_class_def SIZE_CLASSES_def)
  from free_block_is_reused [OF example_arena_wf _ _ this this, of 152 8] show ?thesis by simp
qed

definition overlap_trace :: "u64 \<times> u64 \<times> u64" where
  "overlap_trace =
     (let a0 = arena_init (\<lambda>_. 0) 4096; (a1, p1) = allocate a0 40 8; (a2, p2) = allocate a1 16 8;
          a3 = free a2 p1 40; (a4, p3) = allocate a3 64 8
      in (p1, p2, p3))"

text \<open>
  The free list forgets how long a block was: a block of 40 bytes, freed, is handed out for a
  request of 64 bytes, and the new block overlaps a neighbour that is still allocated.
\<close>

theorem freed_block_overlaps_live_neighbour:
  "\<exists>p1 p2 p3. overlap_trace = (p1, p2, p3) \<and> p1 \<noteq> 0 \<and> p2 \<noteq> 0 \<and> p3 = p1 \<and>
     p3 \<le> p2 \<and> p2 < p3 + 64"
  by (simp add: overlap_trace_def ved_simps Let_def)

end
