(* ===== verification/Arena_Concurrent.thy ===== *)
theory Arena_Concurrent
  imports Arena
begin

text \<open>
  Any number of threads in the loop of \<open>Arena::bump_allocate\<close> (\<open>veddb-core/src/arena.rs\<close>): a
  thread loads \<open>current\<close>, computes the aligned block and tries to advance \<open>current\<close> with a
  compare-and-swap, which may fail (another thread was faster, or spuriously) and is then retried.
  \<open>granted\<close> records the blocks handed out.
\<close>

datatype bump_pc =
    BIdle
  | BCall u64 u64
  | BLoaded u64 u64 u64

record bump_sys =
  shared :: arena
  pcs :: "nat \<Rightarrow> bump_pc"
  granted :: "(u64 \<times> u64) list"

inductive bump_step :: "bump_sys \<Rightarrow> bump_sys \<Rightarrow> bool" where
  call: "pcs s t = BIdle \<Longrightarrow> sane_request (shared s) sz align \<Longrightarrow>
     bump_step s (s\<lparr>pcs := (pcs s)(t := BCall sz align)\<rparr>)"
| load: "pcs s t = BCall sz align \<Longrightarrow>
     bump_step s (s\<lparr>pcs := (pcs s)(t := BLoaded (current (shared s)) sz align)\<rparr>)"
| no_space: "pcs s t = BLoaded cur sz align \<Longrightarrow> align_up cur align + sz > arena_size (shared s) \<Longrightarrow>
     bump_step s (s\<lparr>pcs := (pcs s)(t := BIdle)\<rparr>)"
| cas_ok: "pcs s t = BLoaded cur sz align \<Longrightarrow> \<not> align_up cur align + sz > arena_size (shared s) \<Longrightarrow>
     current (shared s) = cur \<Longrightarrow>
     bump_step s (s\<lparr>shared := (shared s)\<lparr>current := align_up cur align + sz,
         allocation_count := allocation_count (shared s) + 1,
         allocated_bytes := allocated_bytes (shared s) + sz\<rparr>,
       pcs := (pcs s)(t := BIdle), granted := granted s @ [(align_up cur align, sz)]\<rparr>)"
| cas_retry: "pcs s t = BLoaded cur sz align \<Longrightarrow> \<not> align_up cur align + sz > arena_size (shared s) \<Longrightarrow>
     bump_step s (s\<lparr>pcs := (pcs s)(t := BCall sz align)\<rparr>)"

inductive bump_reach :: "arena \<Rightarrow> bump_sys \<Rightarrow> bool" for a0 where
  start: "bump_reach a0 \<lparr>shared = a0, pcs = (\<lambda>_. BIdle), granted = []\<rparr>"
| step: "bump_reach a0 s \<Longrightarrow> bump_step s s' \<Longrightarrow> bump_reach a0 s'"

definition block :: "u64 \<times> u64 \<Rightarrow> nat set" where
  "block b = {unat (fst b)..<unat (fst b) + unat (snd b)}"

text \<open>Later blocks start at or after the end of earlier ones, and all end at or below \<open>current\<close>.\<close>

definition blocks_ordered :: "(u64 \<times> u64) list \<Rightarrow> bool" where
  "blocks_ordered bs = sorted_wrt (\<lambda>b c. unat (fst b) + unat (snd b) \<le> unat (fst c)) bs"

fun pc_sane :: "arena \<Rightarrow> bump_pc \<Rightarrow> bool" where
  "pc_sane a BIdle = True"
| "pc_sane a (BCall sz align) = sane_request a sz align"
| "pc_sane a (BLoaded cur sz align) = sane_request a sz align"

definition bump_inv :: "arena \<Rightarrow> bump_sys \<Rightarrow> bool" where
  "bump_inv a0 s \<longleftrightarrow>
     arena_wf (shared s) \<and> arena_size (shared s) = arena_size a0 \<and>
     (\<forall>t. pc_sane a0 (pcs s t)) \<and> blocks_ordered (granted s) \<and>
     unat (current a0) \<le> unat (current (shared s)) \<and>
     (\<forall>b \<in> set (granted s). unat (current a0) \<le> unat (fst b) \<and>
        unat (fst b) + unat (snd b) \<le> unat (current (shared s)))"

lemma sane_request_size: "arena_size a = arena_size b \<Longrightarrow> sane_request a = sane_request b"
  by (simp add: sane_request_def fun_eq_iff)

lemma cas_advances:
  assumes wf: "arena_wf a" and sane: "sane_request a sz align"
    and fits: "\<not> align_up (current a) align + sz > arena_size a"
  shows "unat (current a) \<le> unat (align_up (current a) align) \<and>
     unat (align_up (current a) align + sz) = unat (align_up (current a) align) + unat sz \<and>
     unat (align_up (current a) align + sz) \<le> unat (arena_size a)"
proof -
  note nw = bump_no_wrap [OF wf sane]
  have "is_power_of_two align" using sane by (simp add: sane_request_def)
  from align_up_bounds(1) [OF this nw(1)] nw(2) fits show ?thesis
    by (simp add: word_less_nat_alt not_less)
qed

lemma bump_step_inv:
  assumes "bump_step s s'" and "bump_inv a0 s"
  shows "bump_inv a0 s'"
  using assms
proof (induction rule: bump_step.induct)
  case (call s t sz align)
  then show ?case
    using sane_request_size [of "shared s" a0] by (auto simp: bump_inv_def)
next
  case (load s t sz align)
  then have "sane_request a0 sz align" unfolding bump_inv_def by (metis pc_sane.simps(2))
  with load show ?case by (auto simp: bump_inv_def)
next
  case (no_space s t cur sz align)
  then show ?case by (auto simp: bump_inv_def)
next
  case (cas_ok s t cur sz align)
  then have "pc_sane a0 (pcs s t)" and wf: "arena_wf (shared s)" and sz: "arena_size (shared s) = arena_size a0"
    unfolding bump_inv_def by blast+
  with cas_ok(1) have "sane_request (shared s) sz align" using sane_request_size [OF sz] by simp
  from cas_advances [OF wf this] cas_ok(2,3)
  have adv: "unat cur \<le> unat (align_up cur align)"
    "unat (align_up cur align + sz) = unat (align_up cur align) + unat sz"
    "unat (align_up cur align) + unat sz \<le> unat (arena_size a0)" using sz by auto
  with cas_ok show ?case
    by (fastforce simp: bump_inv_def arena_wf_def blocks_ordered_def sorted_wrt_append)
next
  case (cas_retry s t cur sz align)
  then have "sane_request a0 sz align" unfolding bump_inv_def by (metis pc_sane.simps(3))
  with cas_retry show ?case by (auto simp: bump_inv_def)
qed

lemma bump_reach_inv:
  assumes "bump_reach a0 s" and "arena_wf a0"
  shows "bump_inv a0 s"
  using assms
proof (induction rule: bump_reach.induct)
  case start
  then show ?case by (simp add: bump_inv_def blocks_ordered_def)
next
  case (step s s')
  then show ?case by (blast intro: bump_step_inv)
qed

lemma ordered_disjoint:
  assumes "blocks_ordered bs" and "i < j" and "j < length bs"
  shows "block (bs ! i) \<inter> block (bs ! j) = {}"
proof -
  have "unat (fst (bs ! i)) + unat (snd (bs ! i)) \<le> unat (fst (bs ! j))"
    using assms by (auto simp: blocks_ordered_def sorted_wrt_iff_nth_less)
  then show ?thesis by (auto simp: block_def)
qed

section \<open>Properties\<close>

text \<open>
  C10. Whatever number of threads run \<open>bump_allocate\<close> at the same time, in every reachable state
  the blocks handed out are pairwise disjoint and lie between the initial bump pointer and the
  end of the arena.
\<close>

theorem concurrent_blocks_disjoint:
  assumes "bump_reach a0 s" and "arena_wf a0"
    and "i < length (granted s)" and "j < length (granted s)" and "i \<noteq> j"
  shows "block (granted s ! i) \<inter> block (granted s ! j) = {} \<and>
         block (granted s ! i) \<subseteq> {unat (current a0)..<unat (arena_size a0)}"
proof -
  have inv: "bump_inv a0 s" using assms(1,2) by (rule bump_reach_inv)
  then have ord: "blocks_ordered (granted s)" by (simp add: bump_inv_def)
  have "block (granted s ! i) \<inter> block (granted s ! j) = {}"
    using ordered_disjoint [OF ord, of i j] ordered_disjoint [OF ord, of j i] assms(3-5)
    by (cases "i < j") auto
  moreover have "unat (current (shared s)) \<le> unat (arena_size a0)"
    using inv by (auto simp: bump_inv_def arena_wf_def)
  moreover have "granted s ! i \<in> set (granted s)" using assms(3) by simp
  ultimately show ?thesis using inv by (fastforce simp: bump_inv_def block_def)
qed

lemma bump_one_call:
  assumes "bump_reach a0 s" and "pcs s t = BIdle" and "sane_request (shared s) sz align"
    and "\<not> align_up (current (shared s)) align + sz > arena_size (shared s)"
  shows "\<exists>s'. bump_reach a0 s' \<and> granted s' = granted s @ [(align_up (current (shared s)) align, sz)] \<and>
     pcs s' = (pcs s)(t := BIdle) \<and> current (shared s') = align_up (current (shared s)) align + sz \<and>
     arena_size (shared s') = arena_size (shared s)"
proof -
  have r1: "bump_reach a0 (s\<lparr>pcs := (pcs s)(t := BCall sz align)\<rparr>)"
    using assms by (auto intro: bump_reach.step bump_step.call)
  have r2: "bump_reach a0 (s\<lparr>pcs := (pcs s)(t := BLoaded (current (shared s)) sz align)\<rparr>)"
    using bump_reach.step [OF r1 bump_step.load [of _ t sz align]] by simp
  show ?thesis
    using bump_reach.step [OF r2 bump_step.cas_ok [of _ t "current (shared s)" sz align]] assms(4)
    by fastforce
qed

theorem concurrent_blocks_disjoint_witness:
  "\<exists>s. bump_reach (arena_init (\<lambda>_. 0) 4096) s \<and> length (granted s) = 2 \<and>
       block (granted s ! 0) \<inter> block (granted s ! 1) = {}"
proof -
  let ?a = "arena_init (\<lambda>_. 0) 4096"
  have c: "align_up 152 8 = (152 :: u64)" "align_up 192 8 = (192 :: u64)" by (simp_all add: align_up_def)
  have a: "current ?a = 152" "arena_size ?a = 4096"
    by (simp_all add: arena_init_def header_size_def SIZE_CLASSES_def)
  obtain s where s: "bump_reach ?a s" "granted s = [(152, 40)]" "pcs s 0 = BIdle"
      "current (shared s) = 192" "arena_size (shared s) = 4096"
    using bump_one_call [OF bump_reach.start [of ?a], of 0 40 8] example_request a c by auto
  have "sane_request (shared s) 40 8" using example_request sane_request_size [of ?a "shared s"] s a by simp
  with bump_one_call [OF s(1) s(3), of 40 8] s c obtain s' where
    s': "bump_reach ?a s'" "length (granted s') = 2" by auto
  from concurrent_blocks_disjoint [OF s'(1) example_arena_wf, of 0 1] s' show ?thesis by auto
qed

end
