(* ===== verification/Document.thy ===== *)
theory Document
  imports VedPrelude "HOL-Library.List_Lexorder" "HOL-Library.Char_ord"
begin

text \<open>
  Documents and values (\<open>veddb-core/src/document.rs\<close>). A \<open>BTreeMap\<close> is an association list in
  increasing key order; strings are byte strings, compared bytewise as Rust does; an \<open>f64\<close> is its
  bit pattern; a timestamp is a number of seconds and the current time an argument.
\<close>

section \<open>Ordered maps, decimal numbers, path splitting\<close>

type_synonym 'v btree_map = "(string \<times> 'v) list"

fun bt_insert :: "'k :: linorder \<Rightarrow> 'v \<Rightarrow> ('k \<times> 'v) list \<Rightarrow> ('k \<times> 'v) list" where
  "bt_insert k v [] = [(k, v)]"
| "bt_insert k v ((k', v') # xs) =
     (if k < k' then (k, v) # (k', v') # xs
      else if k = k' then (k, v) # xs
      else (k', v') # bt_insert k v xs)"

definition bt_remove :: "'k \<Rightarrow> ('k \<times> 'v) list \<Rightarrow> ('k \<times> 'v) list" where
  "bt_remove k m = al_del k m"

definition bt_sorted :: "('k :: linorder \<times> 'v) list \<Rightarrow> bool" where
  "bt_sorted m = sorted_wrt (<) (map fst m)"

lemma map_of_bt_insert: "map_of (bt_insert k v m) = (map_of m)(k \<mapsto> v)"
  by (induction k v m rule: bt_insert.induct) auto

lemma keys_bt_insert: "fst ` set (bt_insert k v m) = insert k (fst ` set m)"
  by (induction k v m rule: bt_insert.induct) auto

lemma bt_sorted_insert: "bt_sorted m \<Longrightarrow> bt_sorted (bt_insert k v m)"
proof (induction k v m rule: bt_insert.induct)
  case (1 k v)
  then show ?case by (simp add: bt_sorted_def)
next
  case (2 k v k' v' xs)
  have keys: "fst ` set (bt_insert k v xs) = insert k (fst ` set xs)" by (rule keys_bt_insert)
  show ?case
  proof (cases "k < k' \<or> k = k'")
    case True
    with 2 show ?thesis by (auto simp: bt_sorted_def dest: order.strict_trans)
  next
    case False
    then have "k' < k" by (metis linorder_neqE)
    moreover have "bt_sorted (bt_insert k v xs)" using 2 False by (auto simp: bt_sorted_def)
    moreover have "\<forall>x \<in> fst ` set xs. k' < x" using 2(2) by (auto simp: bt_sorted_def)
    ultimately show ?thesis using False keys by (auto simp: bt_sorted_def)
  qed
qed

lemma bt_insert_last: "\<forall>k' \<in> fst ` set m. k' < k \<Longrightarrow> bt_insert k v m = m @ [(k, v)]"
  by (induction k v m rule: bt_insert.induct) (auto dest: less_asym)

lemma bt_sorted_remove: "bt_sorted m \<Longrightarrow> bt_sorted (bt_remove k m)"
  unfolding bt_sorted_def bt_remove_def al_del_def by (induction m) auto

lemma map_of_bt_remove: "map_of (bt_remove k m) = (map_of m)(k := None)"
  by (simp add: bt_remove_def map_of_al_del)

text \<open>\<open>str::parse\<close> for 64-bit unsigned integers: an optional plus sign and decimal digits.\<close>

definition is_digit :: "char \<Rightarrow> bool" where
  "is_digit c \<longleftrightarrow> CHR ''0'' \<le> c \<and> c \<le> CHR ''9''"

definition digit_val :: "char \<Rightarrow> nat" where
  "digit_val c = of_char c - of_char CHR ''0''"

definition decimal :: "string \<Rightarrow> nat" where
  "decimal ds = foldl (\<lambda>n c. 10 * n + digit_val c) 0 ds"

definition parse_u64 :: "string \<Rightarrow> nat option" where
  "parse_u64 s =
     (let ds = (case s of [] \<Rightarrow> [] | c # cs \<Rightarrow> if c = CHR ''+'' then cs else s)
      in if ds = [] \<or> \<not> list_all is_digit ds then None
         else if decimal ds < 2 ^ 64 then Some (decimal ds) else None)"

text \<open>\<open>str::split\<close> on one character; the result is never empty.\<close>

fun split_on :: "char \<Rightarrow> string \<Rightarrow> string list" where
  "split_on c [] = [[]]"
| "split_on c (x # xs) =
     (if x = c then [] # split_on c xs
      else case split_on c xs of [] \<Rightarrow> [[x]] | p # ps \<Rightarrow> (x # p) # ps)"

lemma split_on_nonempty: "split_on c s \<noteq> []"
  by (induction s) (auto split: list.splits)

section \<open>Values\<close>

datatype ved_value =
    Null
  | Bool bool
  | Int32 u32
  | Int64 u64
  | Float64 u64
  | Str string
  | Binary bytes
  | Array "ved_value list"
  | Object "(string \<times> ved_value) list"
  | ObjectId bytes
  | DateTime int

fun size_bytes :: "ved_value \<Rightarrow> nat" where
  "size_bytes Null = 1"
| "size_bytes (Bool _) = 1"
| "size_bytes (Int32 _) = 4"
| "size_bytes (Int64 _) = 8"
| "size_bytes (Float64 _) = 8"
| "size_bytes (Str s) = length s"
| "size_bytes (Binary b) = length b"
| "size_bytes (Array arr) = sum_list (map size_bytes arr) + 8"
| "size_bytes (Object obj) = sum_list (map (\<lambda>(k, v). length k + size_bytes v) obj) + 8"
| "size_bytes (ObjectId _) = 12"
| "size_bytes (DateTime _) = 8"

fun nesting_depth :: "ved_value \<Rightarrow> nat" where
  "nesting_depth (Array arr) = 1 + foldr max (map nesting_depth arr) 0"
| "nesting_depth (Object obj) = 1 + foldr max (map (\<lambda>(k, v). nesting_depth v) obj) 0"
| "nesting_depth _ = 0"

definition as_object :: "ved_value \<Rightarrow> (string \<times> ved_value) list option" where
  "as_object v = (case v of Object obj \<Rightarrow> Some obj | _ \<Rightarrow> None)"

definition as_array :: "ved_value \<Rightarrow> ved_value list option" where
  "as_array v = (case v of Array arr \<Rightarrow> Some arr | _ \<Rightarrow> None)"

definition as_str :: "ved_value \<Rightarrow> string option" where
  "as_str v = (case v of Str s \<Rightarrow> Some s | _ \<Rightarrow> None)"

text \<open>\<open>Int32\<close> is sign-extended to 64 bits.\<close>

definition as_i64 :: "ved_value \<Rightarrow> u64 option" where
  "as_i64 v = (case v of Int32 i \<Rightarrow> Some (scast i) | Int64 i \<Rightarrow> Some i | _ \<Rightarrow> None)"

section \<open>Documents\<close>

text \<open>A document id is a UUID, a 128-bit number.\<close>

type_synonym document_id = "128 word"

record doc_metadata =
  version :: u64
  created_at :: int
  updated_at :: int
  meta_size_bytes :: nat

record document =
  doc_id :: document_id
  doc_fields :: "ved_value btree_map"
  metadata :: doc_metadata

definition MAX_DOCUMENT_SIZE :: nat where
  "MAX_DOCUMENT_SIZE = 16 * 1024 * 1024"

definition MAX_NESTING_DEPTH :: nat where
  "MAX_NESTING_DEPTH = 16"

datatype document_error =
    DocumentTooLarge nat nat
  | NestingTooDeep nat nat
  | InvalidPath string
  | DocSerializationError string
  | DocDeserializationError string
  | FieldNotFound string

definition metadata_default :: "int \<Rightarrow> doc_metadata" where
  "metadata_default now = \<lparr>version = 1, created_at = now, updated_at = now, meta_size_bytes = 0\<rparr>"

definition with_id :: "document_id \<Rightarrow> int \<Rightarrow> document" where
  "with_id i now = \<lparr>doc_id = i, doc_fields = [], metadata = metadata_default now\<rparr>"

definition fields_size :: "ved_value btree_map \<Rightarrow> nat" where
  "fields_size fs = sum_list (map (\<lambda>(k, v). length k + size_bytes v) fs)"

definition update_metadata :: "int \<Rightarrow> document \<Rightarrow> document" where
  "update_metadata now d =
     d\<lparr>metadata := (metadata d)\<lparr>meta_size_bytes := fields_size (doc_fields d), updated_at := now,
          version := version (metadata d) + 1\<rparr>\<rparr>"

definition doc_insert :: "int \<Rightarrow> document \<Rightarrow> string \<Rightarrow> ved_value \<Rightarrow> document \<times> ved_value option" where
  "doc_insert now d k v =
     (update_metadata now (d\<lparr>doc_fields := bt_insert k v (doc_fields d)\<rparr>), map_of (doc_fields d) k)"

definition doc_get :: "document \<Rightarrow> string \<Rightarrow> ved_value option" where
  "doc_get d k = map_of (doc_fields d) k"

definition doc_remove :: "int \<Rightarrow> document \<Rightarrow> string \<Rightarrow> document \<times> ved_value option" where
  "doc_remove now d k =
     (update_metadata now (d\<lparr>doc_fields := bt_remove k (doc_fields d)\<rparr>), map_of (doc_fields d) k)"

section \<open>Paths\<close>

fun follow_path :: "ved_value \<Rightarrow> string list \<Rightarrow> ved_value option" where
  "follow_path cur [] = Some cur"
| "follow_path cur (part # parts) =
     (case cur of
        Object obj \<Rightarrow> (case map_of obj part of None \<Rightarrow> None | Some v \<Rightarrow> follow_path v parts)
      | Array arr \<Rightarrow>
          (case parse_u64 part of None \<Rightarrow> None
           | Some i \<Rightarrow> if i < length arr then follow_path (arr ! i) parts else None)
      | _ \<Rightarrow> None)"

fun get_by_path_parts :: "document \<Rightarrow> string list \<Rightarrow> ved_value option" where
  "get_by_path_parts d [] = None"
| "get_by_path_parts d (p # ps) =
     (case map_of (doc_fields d) p of None \<Rightarrow> None | Some v \<Rightarrow> follow_path v ps)"

definition get_by_path :: "document \<Rightarrow> string \<Rightarrow> ved_value option" where
  "get_by_path d path = get_by_path_parts d (split_on CHR ''.'' path)"

text \<open>
  \<open>set_by_path_parts\<close> walks down with mutable references: an existing child is changed in place
  (\<open>al_put\<close> at a present key), a missing one is inserted as an empty object first. The walk can
  stop at a value that is not an object; the second component is the error, the first is the
  value as the walk has left it.
\<close>

fun put_path :: "ved_value \<Rightarrow> string list \<Rightarrow> ved_value \<Rightarrow> ved_value \<times> (document_error, unit) result" where
  "put_path cur [] v = (cur, Inr ())"
| "put_path cur [field_name] v =
     (case cur of
        Object obj \<Rightarrow> (Object (bt_insert field_name v obj), Inr ())
      | _ \<Rightarrow> (cur, Inl (InvalidPath ''parent is not an object'')))"
| "put_path cur (part # parts) v =
     (case cur of
        Object obj \<Rightarrow>
          (case map_of obj part of
             Some child \<Rightarrow> (let (child', r) = put_path child parts v in (Object (al_put part child' obj), r))
           | None \<Rightarrow> (let (child', r) = put_path (Object []) parts v
                      in (Object (al_put part child' (bt_insert part (Object []) obj)), r)))
      | _ \<Rightarrow> (cur, Inl (InvalidPath ''path traverses non-object'')))"

fun set_by_path_parts :: "document \<Rightarrow> string list \<Rightarrow> ved_value \<Rightarrow> document \<times> (document_error, unit) result" where
  "set_by_path_parts d [] v = (d, Inl (InvalidPath ''empty path''))"
| "set_by_path_parts d [p] v = (d\<lparr>doc_fields := bt_insert p v (doc_fields d)\<rparr>, Inr ())"
| "set_by_path_parts d (p # ps) v =
     (case map_of (doc_fields d) p of
        Some child \<Rightarrow> (let (child', r) = put_path child ps v in (d\<lparr>doc_fields := al_put p child' (doc_fields d)\<rparr>, r))
      | None \<Rightarrow> (let (child', r) = put_path (Object []) ps v
                 in (d\<lparr>doc_fields := al_put p child' (bt_insert p (Object []) (doc_fields d))\<rparr>, r)))"

definition set_by_path :: "int \<Rightarrow> document \<Rightarrow> string \<Rightarrow> ved_value \<Rightarrow> document \<times> (document_error, unit) result" where
  "set_by_path now d path v =
     (case set_by_path_parts d (split_on CHR ''.'' path) v of
        (d', Inl e) \<Rightarrow> (d', Inl e)
      | (d', Inr _) \<Rightarrow> (update_metadata now d', Inr ()))"

section \<open>Validation\<close>

definition max_field_depth :: "document \<Rightarrow> nat" where
  "max_field_depth d = foldr max (map (\<lambda>(k, v). nesting_depth v) (doc_fields d)) 0"

definition doc_size_bytes :: "document \<Rightarrow> nat" where
  "doc_size_bytes d = meta_size_bytes (metadata d)"

definition doc_validate :: "document \<Rightarrow> (document_error, unit) result" where
  "doc_validate d =
     (if doc_size_bytes d > MAX_DOCUMENT_SIZE
      then Inl (DocumentTooLarge (doc_size_bytes d) MAX_DOCUMENT_SIZE)
      else if max_field_depth d > MAX_NESTING_DEPTH
      then Inl (NestingTooDeep (max_field_depth d) MAX_NESTING_DEPTH)
      else Inr ())"

section \<open>Writing along a path\<close>

lemma al_put_same: "map_of xs k = Some v \<Longrightarrow> al_put k v xs = xs"
  by (induction xs) (auto split: if_splits)

text \<open>A fresh object never stops the walk.\<close>

lemma put_path_fresh: "snd (put_path (Object obj) ps v) = Inl e \<Longrightarrow> obj = [] \<Longrightarrow> False"
proof (induction "Object obj" ps v arbitrary: obj rule: put_path.induct)
  case (3 part p ps v)
  then show ?case by (auto split: prod.splits)
qed auto

lemma put_path_error_unchanged: "put_path cur ps v = (cur', Inl e) \<Longrightarrow> cur' = cur"
proof (induction cur ps v arbitrary: cur' e rule: put_path.induct)
  case (3 cur part p ps v)
  show ?case
  proof (cases cur)
    case (Object obj)
    show ?thesis
    proof (cases "map_of obj part")
      case None
      with 3(3) Object have "snd (put_path (Object []) (p # ps) v) = Inl e"
        by (auto split: prod.splits)
      then show ?thesis using put_path_fresh by blast
    next
      case (Some child)
      with 3(3) Object obtain child' where c: "put_path child (p # ps) v = (child', Inl e)"
        and cur': "cur' = Object (al_put part child' obj)"
        by (auto split: prod.splits)
      from 3(2) [OF Object Some c] cur' Object al_put_same [OF Some] show ?thesis by simp
    qed
  qed (use 3(3) in auto)
qed (auto split: ved_value.splits)

lemma put_path_then_follow:
  "put_path cur ps v = (cur', Inr u) \<Longrightarrow> ps \<noteq> [] \<Longrightarrow> follow_path cur' ps = Some v"
proof (induction cur ps v arbitrary: cur' u rule: put_path.induct)
  case (3 cur part p ps v)
  from 3(3) obtain obj where o: "cur = Object obj" by (auto split: ved_value.splits)
  show ?case
  proof (cases "map_of obj part")
    case None
    with 3(3) o obtain child' where c: "put_path (Object []) (p # ps) v = (child', Inr u)"
      and cur': "cur' = Object (al_put part child' (bt_insert part (Object []) obj))"
      by (auto split: prod.splits)
    from 3(1) [OF o None c] cur' show ?thesis by (simp add: map_of_al_put)
  next
    case (Some child)
    with 3(3) o obtain child' where c: "put_path child (p # ps) v = (child', Inr u)"
      and cur': "cur' = Object (al_put part child' obj)"
      by (auto split: prod.splits)
    from 3(2) [OF o Some c] cur' show ?thesis by (simp add: map_of_al_put)
  qed
qed (auto simp: map_of_bt_insert split: ved_value.splits)

lemma set_parts_then_get:
  assumes "set_by_path_parts d ps v = (d', Inr u)"
  shows "get_by_path_parts d' ps = Some v"
  using assms
  by (induction d ps v rule: set_by_path_parts.induct)
     (auto simp: map_of_bt_insert map_of_al_put simp del: follow_path.simps(2) put_path.simps(2,3)
       dest: put_path_then_follow split: option.splits prod.splits)

lemma set_parts_error_unchanged:
  assumes "set_by_path_parts d ps v = (d', Inl e)"
  shows "d' = d"
  using assms
proof (induction d ps v rule: set_by_path_parts.induct)
  case (3 d p q ps v)
  show ?case
  proof (cases "map_of (doc_fields d) p")
    case None
    with 3 have "snd (put_path (Object []) (q # ps) v) = Inl e" by (auto split: prod.splits)
    then show ?thesis using put_path_fresh by blast
  next
    case (Some child)
    with 3 obtain child' where c: "put_path child (q # ps) v = (child', Inl e)"
      and d': "d' = d\<lparr>doc_fields := al_put p child' (doc_fields d)\<rparr>" by (auto split: prod.splits)
    from put_path_error_unchanged [OF c] d' al_put_same [OF Some] show ?thesis by simp
  qed
qed auto

lemma set_parts_frame:
  assumes "set_by_path_parts d ps v = (d', r)"
  shows "doc_id d' = doc_id d \<and> metadata d' = metadata d"
  using assms by (induction d ps v rule: set_by_path_parts.induct) (auto split: option.splits prod.splits)

lemma get_parts_metadata [simp]:
  "get_by_path_parts (d\<lparr>metadata := m\<rparr>) ps = get_by_path_parts d ps"
  by (cases ps) auto

section \<open>Properties\<close>

text \<open>
  C29. Writing a field by path and reading the same path: a successful \<open>set_by_path\<close> makes
  \<open>get_by_path\<close> return the written value, keeps the document id, recomputes the recorded size
  and increments the version; a failed one leaves the whole document as it was.
\<close>

theorem set_by_path_get_by_path:
  "case set_by_path now d path v of
     (d', Inr _) \<Rightarrow> get_by_path d' path = Some v \<and> doc_id d' = doc_id d \<and>
        doc_size_bytes d' = fields_size (doc_fields d') \<and>
        version (metadata d') = version (metadata d) + 1
   | (d', Inl e) \<Rightarrow> d' = d"
proof -
  obtain d1 r where s: "set_by_path_parts d (split_on CHR ''.'' path) v = (d1, r)" by fastforce
  then have "doc_id d1 = doc_id d \<and> metadata d1 = metadata d" by (rule set_parts_frame)
  then show ?thesis
    using s set_parts_then_get [of d "split_on CHR ''.'' path" v d1]
      set_parts_error_unchanged [of d "split_on CHR ''.'' path" v d1]
    by (cases r) (auto simp: set_by_path_def get_by_path_def doc_size_bytes_def update_metadata_def)
qed

end
