(* ===== verification/Wal_Entry.thy ===== *)
theory Wal_Entry
  imports Document
begin

text \<open>
  Write-ahead log entries and their framing (\<open>veddb-core/src/wal/entry.rs\<close>,
  \<open>veddb-core/src/wal/reader.rs\<close> and \<open>serialize_entry\<close> of \<open>veddb-core/src/wal/writer.rs\<close>).
  A frame is the length of the JSON text in four bytes, the JSON text, and the checksum in four
  bytes. JSON encoding (serde_json) and CRC32 (crc32fast) are code outside the repository: they
  are the fields of the argument \<open>cdc\<close>. The schema carried by a \<open>CreateCollection\<close> operation is
  opaque to the log: it is the type variable \<open>'s\<close>.
\<close>

section \<open>Operations and entries\<close>

datatype index_type =
    Single string
  | Compound "string list"
  | Text string
  | Geospatial string

record index_definition =
  index_name :: string
  index_type_of :: index_type
  index_unique :: bool
  index_sparse :: bool

datatype 's wal_operation =
    Insert string document
  | Update string document_id "ved_value btree_map"
  | Delete string document_id
  | CreateCollection string 's
  | DropCollection string
  | CreateIndex string index_definition
  | DropIndex string string

record 's wal_entry =
  entry_seq :: u64
  entry_time :: int
  entry_op :: "'s wal_operation"
  entry_checksum :: u32

datatype wal_error =
    IoError
  | SerializationError string
  | DeserializationError string
  | ChecksumMismatch u32 u32
  | CorruptedEntry u64
  | FileNotFound string
  | InvalidFormat

record 's wal_codec =
  entry_to_vec :: "'s wal_entry \<Rightarrow> (string, bytes) result"
  entry_from_slice :: "bytes \<Rightarrow> (string, 's wal_entry) result"
  crc32 :: "bytes \<Rightarrow> u32"

definition wal_entry_new :: "u64 \<Rightarrow> int \<Rightarrow> 's wal_operation \<Rightarrow> 's wal_entry" where
  "wal_entry_new s now op = \<lparr>entry_seq = s, entry_time = now, entry_op = op, entry_checksum = 0\<rparr>"

definition compute_checksum :: "'s wal_codec \<Rightarrow> 's wal_entry \<Rightarrow> (wal_error, u32) result" where
  "compute_checksum cdc e =
     (case entry_to_vec cdc (e\<lparr>entry_checksum := 0\<rparr>) of
        Inl m \<Rightarrow> Inl (SerializationError m) | Inr bs \<Rightarrow> Inr (crc32 cdc bs))"

definition verify_checksum :: "'s wal_codec \<Rightarrow> 's wal_entry \<Rightarrow> (wal_error, bool) result" where
  "verify_checksum cdc e =
     (case compute_checksum cdc e of Inl m \<Rightarrow> Inl m | Inr c \<Rightarrow> Inr (c = entry_checksum e))"

section \<open>Frames\<close>

definition serialize_entry :: "'s wal_codec \<Rightarrow> 's wal_entry \<Rightarrow> (wal_error, bytes) result" where
  "serialize_entry cdc e =
     (case entry_to_vec cdc e of
        Inl m \<Rightarrow> Inl (SerializationError m)
      | Inr json \<Rightarrow> Inr (u32_to_le (of_nat (length json)) @ json @ u32_to_le (entry_checksum e)))"

text \<open>
  \<open>next_entry\<close> on the bytes that are left of a file: the result and the bytes left after it.
  Fewer than four bytes left is the end of the file; a frame cut short later is an I/O error.
\<close>

definition next_entry ::
  "'s wal_codec \<Rightarrow> bytes \<Rightarrow> (wal_error, 's wal_entry option) result \<times> bytes"
where
  "next_entry cdc bs =
     (if length bs < 4 then (Inr None, [])
      else let entry_len = unat (u32_from_le (take 4 bs)); r1 = drop 4 bs
           in if length r1 < entry_len then (Inl IoError, [])
              else let entry_bytes = take entry_len r1; r2 = drop entry_len r1
                   in if length r2 < 4 then (Inl IoError, [])
                      else let stored = u32_from_le (take 4 r2); rest = drop 4 r2
                           in case entry_from_slice cdc entry_bytes of
                                Inl m \<Rightarrow> (Inl (DeserializationError m), rest)
                              | Inr e0 \<Rightarrow>
                                  (let e = e0\<lparr>entry_checksum := stored\<rparr>
                                   in case verify_checksum cdc e of
                                        Inl m \<Rightarrow> (Inl m, rest)
                                      | Inr ok \<Rightarrow> if ok then (Inr (Some e), rest)
                                                 else (Inl (CorruptedEntry (entry_seq e)), rest)))"

text \<open>A reader loop ends: every entry, good or bad, takes at least eight bytes.\<close>

lemma next_entry_shorter:
  "next_entry cdc bs = (r, rest) \<Longrightarrow> r \<noteq> Inr None \<Longrightarrow> length rest < length bs"
  by (auto simp: next_entry_def Let_def split: if_splits sum.splits)

text \<open>The loop \<open>while let Some(entry) = reader.next_entry()?\<close>: the entries up to the first error.\<close>

function read_entries :: "'s wal_codec \<Rightarrow> bytes \<Rightarrow> 's wal_entry list \<times> wal_error option" where
  "read_entries cdc bs =
     (case next_entry cdc bs of
        (Inr None, rest) \<Rightarrow> ([], None)
      | (Inr (Some e), rest) \<Rightarrow> (let (es, err) = read_entries cdc rest in (e # es, err))
      | (Inl err, rest) \<Rightarrow> ([], Some err))"
  by pat_completeness auto
termination
  by (relation "measure (\<lambda>(cdc, bs). length bs)") (auto dest: next_entry_shorter [OF sym])

declare read_entries.simps [simp del]

section \<open>Round trip\<close>

text \<open>
  What the log relies on of serde_json for an operation: the entry encodes, to fewer than
  \<open>2 ^ 32\<close> bytes, and decoding the text gives an entry with the same sequence number and an
  operation that encodes the same (the document metadata is not part of the text, so the
  operation itself may differ there).
\<close>

definition same_text :: "'s wal_codec \<Rightarrow> 's wal_entry \<Rightarrow> 's wal_entry \<Rightarrow> bool" where
  "same_text cdc e e' \<longleftrightarrow> entry_seq e' = entry_seq e \<and> entry_time e' = entry_time e \<and>
     entry_to_vec cdc (e'\<lparr>entry_checksum := 0\<rparr>) = entry_to_vec cdc (e\<lparr>entry_checksum := 0\<rparr>)"

definition codec_roundtrips :: "'s wal_codec \<Rightarrow> 's wal_entry \<Rightarrow> bool" where
  "codec_roundtrips cdc e \<longleftrightarrow>
     (\<exists>json. entry_to_vec cdc (e\<lparr>entry_checksum := 0\<rparr>) = Inr json) \<and>
     (\<exists>json e'. entry_to_vec cdc e = Inr json \<and> length json < 2 ^ 32 \<and>
        entry_from_slice cdc json = Inr e' \<and> same_text cdc e e')"

definition checked :: "'s wal_codec \<Rightarrow> 's wal_entry \<Rightarrow> bool" where
  "checked cdc e \<longleftrightarrow> compute_checksum cdc e = Inr (entry_checksum e)"

lemma compute_checksum_text:
  "same_text cdc e e' \<Longrightarrow> compute_checksum cdc (e'\<lparr>entry_checksum := c\<rparr>) = compute_checksum cdc e"
  by (simp add: same_text_def compute_checksum_def)

lemma serialize_length:
  "serialize_entry cdc e = Inr bs \<Longrightarrow> 8 \<le> length bs"
  by (auto simp: serialize_entry_def split: sum.splits)

lemma next_entry_frame:
  assumes rt: "codec_roundtrips cdc e" and ck: "checked cdc e" and s: "serialize_entry cdc e = Inr bs"
  shows "\<exists>e'. next_entry cdc (bs @ rest) = (Inr (Some e'), rest) \<and> same_text cdc e e' \<and>
              entry_checksum e' = entry_checksum e"
proof -
  from rt obtain json e0 where json: "entry_to_vec cdc e = Inr json" "length json < 2 ^ 32"
    and dec: "entry_from_slice cdc json = Inr e0" and st: "same_text cdc e e0"
    by (auto simp: codec_roundtrips_def)
  let ?e = "e0\<lparr>entry_checksum := entry_checksum e\<rparr>"
  have bs: "bs = u32_to_le (of_nat (length json)) @ json @ u32_to_le (entry_checksum e)"
    using s json(1) by (simp add: serialize_entry_def)
  have len: "unat (of_nat (length json) :: u32) = length json"
    using json(2) by (simp only: unat_of_nat) simp
  have "verify_checksum cdc ?e = Inr True"
    using ck by (simp add: verify_checksum_def compute_checksum_text [OF st] checked_def)
  then have "next_entry cdc (bs @ rest) = (Inr (Some ?e), rest)"
    by (simp add: next_entry_def bs len dec Let_def)
  moreover have "same_text cdc e ?e" using st by (simp add: same_text_def)
  ultimately show ?thesis by auto
qed

text \<open>The frames of a list of entries, one after the other.\<close>

fun frames :: "'s wal_codec \<Rightarrow> 's wal_entry list \<Rightarrow> (wal_error, bytes) result" where
  "frames cdc [] = Inr []"
| "frames cdc (e # es) =
     (case serialize_entry cdc e of Inl m \<Rightarrow> Inl m
      | Inr b \<Rightarrow> (case frames cdc es of Inl m \<Rightarrow> Inl m | Inr bs \<Rightarrow> Inr (b @ bs)))"

text \<open>Reading frames, followed by any other bytes.\<close>

lemma read_entries_then:
  assumes "\<forall>e \<in> set es. codec_roundtrips cdc e \<and> checked cdc e" and "frames cdc es = Inr bs"
    and "read_entries cdc tail = ([], err)"
  shows "\<exists>es'. read_entries cdc (bs @ tail) = (es', err) \<and> list_all2 (same_text cdc) es es'"
  using assms(1,2)
proof (induction es arbitrary: bs)
  case Nil
  then show ?case using assms(3) by simp
next
  case (Cons e es)
  from Cons.prems(2) obtain b bs' where b: "serialize_entry cdc e = Inr b"
    and bs': "frames cdc es = Inr bs'" and bs: "bs = b @ bs'" by (auto split: sum.splits)
  from Cons.IH [OF _ bs'] Cons.prems(1) obtain es' where
    es': "read_entries cdc (bs' @ tail) = (es', err)" "list_all2 (same_text cdc) es es'" by auto
  from next_entry_frame [OF _ _ b, of "bs' @ tail"] Cons.prems(1) obtain e' where
    "next_entry cdc (bs @ tail) = (Inr (Some e'), bs' @ tail)" "same_text cdc e e'" by (auto simp: bs)
  with es' show ?case by (auto simp: read_entries.simps [of cdc "bs @ tail"])
qed

lemma read_entries_frames:
  assumes "\<forall>e \<in> set es. codec_roundtrips cdc e \<and> checked cdc e" and "frames cdc es = Inr bs"
  shows "\<exists>es'. read_entries cdc bs = (es', None) \<and> list_all2 (same_text cdc) es es'"
proof -
  have "read_entries cdc [] = ([], None)" by (simp add: read_entries.simps next_entry_def)
  from read_entries_then [OF assms this] show ?thesis by simp
qed

end
