(* ===== verification/Wal_Names.thy ===== *)
theory Wal_Names
  imports Document "HOL-Library.List_Lexorder"
begin

text \<open>
  Names of log files (\<open>wal_file_path\<close> of \<open>veddb-core/src/wal/writer.rs\<close>): \<open>wal-\<close>, the file
  number in decimal padded to ten digits, \<open>.log\<close>; and how a directory scan reads the number
  back. Files are replayed in the order of their names (\<open>scan_wal_files\<close> of
  \<open>veddb-core/src/wal/reader.rs\<close>), so the order of names matters: it is the order of the numbers
  as long as these have at most ten digits.
\<close>

definition digit_char :: "nat \<Rightarrow> char" where
  "digit_char d = char_of (48 + d)"

fun show_nat :: "nat \<Rightarrow> string" where
  "show_nat n = (if n < 10 then [digit_char n] else show_nat (n div 10) @ [digit_char (n mod 10)])"

declare show_nat.simps [simp del]

definition pad_zeros :: "nat \<Rightarrow> string \<Rightarrow> string" where
  "pad_zeros k s = replicate (k - length s) CHR ''0'' @ s"

definition wal_file_path :: "u64 \<Rightarrow> string" where
  "wal_file_path n = ''wal-'' @ pad_zeros 10 (show_nat (unat n)) @ ''.log''"

definition is_wal_name :: "string \<Rightarrow> bool" where
  "is_wal_name s \<longleftrightarrow> starts_with s ''wal-'' \<and> ends_with s ''.log''"

definition wal_file_number :: "string \<Rightarrow> nat option" where
  "wal_file_number s =
     (if is_wal_name s
      then let t = drop 4 s
           in if ends_with t ''.log'' then parse_u64 (take (length t - 4) t) else None
      else None)"

section \<open>Decimal text and its value\<close>

lemma of_char_digit: "d < 10 \<Longrightarrow> (of_char (digit_char d) :: nat) = 48 + d"
  by (simp add: digit_char_def)

lemma digit_val_digit: "d < 10 \<Longrightarrow> digit_val (digit_char d) = d"
  by (simp add: digit_val_def of_char_digit)

lemma is_digit_digit: "d < 10 \<Longrightarrow> is_digit (digit_char d)"
  by (simp add: is_digit_def less_eq_char_def of_char_digit)

lemma digit_char_0 [simp]: "digit_char 0 = CHR ''0''"
proof -
  have "(of_char (digit_char 0) :: nat) = of_char CHR ''0''" by (simp add: of_char_digit)
  then show ?thesis by (simp only: of_char_eq_iff)
qed

lemma decimal_snoc: "decimal (s @ [c]) = 10 * decimal s + digit_val c"
  by (simp add: decimal_def)

lemma decimal_zeros: "decimal (replicate k CHR ''0'' @ s) = decimal s"
  by (induction k) (simp_all add: decimal_def digit_val_def)

lemma decimal_show: "decimal (show_nat n) = n"
proof (induction n rule: show_nat.induct)
  case (1 n)
  then show ?case
    by (subst show_nat.simps) (auto simp: decimal_snoc digit_val_digit decimal_def)
qed

lemma digits_show: "list_all is_digit (show_nat n)"
proof (induction n rule: show_nat.induct)
  case (1 n)
  then show ?case by (subst show_nat.simps) (auto simp: is_digit_digit)
qed

lemma show_nat_nonempty: "show_nat n \<noteq> []"
  by (subst show_nat.simps) auto

lemma digits_zeros: "list_all is_digit (replicate k CHR ''0'')"
  by (induction k) (simp_all add: is_digit_def)

lemma not_digit_plus: "\<not> is_digit CHR ''+''"
  by (simp add: is_digit_def less_eq_char_def)

lemma parse_digits:
  assumes "list_all is_digit s" and "s \<noteq> []" and "decimal s < 2 ^ 64"
  shows "parse_u64 s = Some (decimal s)"
  using assms not_digit_plus by (cases s) (auto simp: parse_u64_def)

lemma ends_with_append [simp]: "ends_with (s @ t) t"
  by (simp add: ends_with_def)

lemma wal_name_parse: "wal_file_number (wal_file_path n) = Some (unat n)"
proof -
  let ?d = "pad_zeros 10 (show_nat (unat n))"
  have d: "list_all is_digit ?d" "?d \<noteq> []" "decimal ?d = unat n"
    using digits_show digits_zeros
    by (simp_all add: pad_zeros_def show_nat_nonempty decimal_zeros decimal_show)
  have "parse_u64 ?d = Some (unat n)"
    using parse_digits [OF d(1,2)] d(3) unsigned_less [of n] by simp
  moreover have "is_wal_name (wal_file_path n)"
    using ends_with_append [of "''wal-'' @ ?d" "''.log''"]
    by (simp add: is_wal_name_def wal_file_path_def starts_with_def)
  ultimately show ?thesis
    by (simp add: wal_file_number_def Let_def) (simp add: wal_file_path_def)
qed

lemma is_wal_name_path [simp]: "is_wal_name (wal_file_path n)"
  by (metis option.distinct(1) wal_file_number_def wal_name_parse)

lemma wal_file_path_inj: "wal_file_path m = wal_file_path n \<longleftrightarrow> m = n"
  by (metis option.inject wal_name_parse word_unat_eq_iff)

section \<open>Order of the names\<close>

primrec fixed_digits :: "nat \<Rightarrow> nat \<Rightarrow> string" where
  "fixed_digits 0 n = []"
| "fixed_digits (Suc k) n = fixed_digits k (n div 10) @ [digit_char (n mod 10)]"

lemma length_fixed [simp]: "length (fixed_digits k n) = k"
  by (induction k arbitrary: n) auto

lemma fixed_zero: "fixed_digits k 0 = replicate k CHR ''0''"
  by (induction k) (auto simp: replicate_append_same)

lemma pad_show_fixed: "n < 10 ^ Suc k \<Longrightarrow> pad_zeros (Suc k) (show_nat n) = fixed_digits (Suc k) n"
proof (induction k arbitrary: n)
  case 0
  then show ?case by (subst show_nat.simps) (simp add: pad_zeros_def)
next
  case (Suc k)
  show ?case
  proof (cases "n < 10")
    case True
    then show ?thesis
      by (subst show_nat.simps) (simp add: pad_zeros_def fixed_zero replicate_append_same)
  next
    case False
    have "n div 10 < 10 ^ Suc k" using Suc.prems by (simp add: less_mult_imp_div_less)
    from Suc.IH [OF this] False show ?thesis
      by (subst show_nat.simps) (simp add: pad_zeros_def)
  qed
qed

lemma fixed_less: "m < n \<Longrightarrow> n < 10 ^ k \<Longrightarrow> fixed_digits k m < fixed_digits k n"
proof (induction k arbitrary: m n)
  case 0
  then show ?case by simp
next
  case (Suc k)
  show ?case
  proof (cases "m div 10 < n div 10")
    case True
    have "n div 10 < 10 ^ k" using Suc.prems by (simp add: less_mult_imp_div_less)
    with Suc.IH [OF True] show ?thesis
      by (simp add: list_less_def) (rule lexord_sufI, simp_all)
  next
    case False
    with Suc.prems have "m div 10 = n div 10" using div_le_mono [of m n 10] by simp
    moreover from this Suc.prems have "m mod 10 < n mod 10"
      by (metis div_mult_mod_eq nat_add_left_cancel_less)
    ultimately show ?thesis
      by (simp add: list_less_def) (rule lexord_append_leftI, simp add: less_char_def of_char_digit)
  qed
qed

lemma wal_file_path_less:
  assumes "m < n" and "unat n < 10 ^ 10"
  shows "wal_file_path m < wal_file_path n"
proof -
  have lt: "unat m < unat n" using assms(1) by (simp add: word_less_nat_alt)
  have "fixed_digits 10 (unat m) < fixed_digits 10 (unat n)"
    using fixed_less [OF lt assms(2)] .
  then have "pad_zeros 10 (show_nat (unat m)) < pad_zeros 10 (show_nat (unat n))"
    using pad_show_fixed [of _ 9] lt assms(2) by simp
  moreover have "length (pad_zeros 10 (show_nat (unat n))) \<le> length (pad_zeros 10 (show_nat (unat m)))"
    using pad_show_fixed [of _ 9] lt assms(2) by simp
  ultimately show ?thesis
    by (simp add: wal_file_path_def list_less_def) (rule lexord_sufI)
qed

end
