(* ===== verification/Wal_Writer.thy ===== *)
theory Wal_Writer
  imports Wal_Entry Wal_Names
begin

text \<open>
  The log writer (\<open>veddb-core/src/wal/writer.rs\<close>) and the directory scan of
  \<open>veddb-core/src/wal/reader.rs\<close>. A log file is the bytes handed to the operating system and how
  many of them have been synced; the writer keeps the bytes that are still in its \<open>BufWriter\<close>.
  The directory is a list of named files in the order a scan meets them. Errors of the operating
  system (a failed write, open or sync) are not modelled; the clock is the argument \<open>now\<close>.
\<close>

section \<open>State\<close>

datatype fsync_policy = Always | EverySecond | Disabled

record wal_config =
  config_fsync_policy :: fsync_policy
  config_max_file_size :: u64

record wal_file =
  file_bytes :: bytes
  file_synced :: nat

type_synonym wal_dir = "(string \<times> wal_file) list"

record wal_writer =
  dir :: wal_dir
  current_file_path :: string
  file_buf :: bytes
  current_sequence :: u64
  config :: wal_config
  current_file_size :: u64
  file_number :: u64

definition wal_config_default :: wal_config where
  "wal_config_default = \<lparr>config_fsync_policy = EverySecond, config_max_file_size = 100 * 1024 * 1024\<rparr>"

section \<open>Files\<close>

text \<open>Opening for appending creates a missing file.\<close>

definition open_append :: "wal_dir \<Rightarrow> string \<Rightarrow> wal_dir" where
  "open_append d name =
     (if map_of d name = None then d @ [(name, \<lparr>file_bytes = [], file_synced = 0\<rparr>)] else d)"

definition map_file :: "(wal_file \<Rightarrow> wal_file) \<Rightarrow> string \<Rightarrow> wal_dir \<Rightarrow> wal_dir" where
  "map_file g name d = map (\<lambda>(n, f). if n = name then (n, g f) else (n, f)) d"

definition os_append :: "bytes \<Rightarrow> wal_writer \<Rightarrow> wal_writer" where
  "os_append bs w =
     w\<lparr>dir := map_file (\<lambda>f. f\<lparr>file_bytes := file_bytes f @ bs\<rparr>) (current_file_path w) (dir w)\<rparr>"

text \<open>\<open>BufWriter\<close> of the standard library, with its default capacity.\<close>

definition buf_capacity :: nat where
  "buf_capacity = 8192"

definition flush_buf :: "wal_writer \<Rightarrow> wal_writer" where
  "flush_buf w = (os_append (file_buf w) w)\<lparr>file_buf := []\<rparr>"

definition buf_write_all :: "wal_writer \<Rightarrow> bytes \<Rightarrow> wal_writer" where
  "buf_write_all w bs =
     (let spare = buf_capacity - length (file_buf w)
      in if length bs < spare then w\<lparr>file_buf := file_buf w @ bs\<rparr>
         else let w1 = (if spare < length bs then flush_buf w else w)
              in if buf_capacity \<le> length bs then os_append bs w1
                 else w1\<lparr>file_buf := file_buf w1 @ bs\<rparr>)"

definition sync_all :: "wal_writer \<Rightarrow> wal_writer" where
  "sync_all w =
     w\<lparr>dir := map_file (\<lambda>f. f\<lparr>file_synced := length (file_bytes f)\<rparr>) (current_file_path w) (dir w)\<rparr>"

section \<open>Scanning the directory\<close>

text \<open>The largest sequence number in a file; a corrupted entry counts, any other error ends the scan.\<close>

function max_sequence_loop :: "'s wal_codec \<Rightarrow> bytes \<Rightarrow> u64 \<Rightarrow> u64" where
  "max_sequence_loop cdc bs m =
     (case next_entry cdc bs of
        (Inr None, rest) \<Rightarrow> m
      | (Inr (Some e), rest) \<Rightarrow> max_sequence_loop cdc rest (max m (entry_seq e))
      | (Inl err, rest) \<Rightarrow>
          (case err of CorruptedEntry s \<Rightarrow> max_sequence_loop cdc rest (max m s) | _ \<Rightarrow> m))"
  by pat_completeness auto
termination
  by (relation "measure (\<lambda>(cdc, bs, m). length bs)") (auto dest: next_entry_shorter [OF sym])

declare max_sequence_loop.simps [simp del]

definition scan_file_for_max_sequence :: "'s wal_codec \<Rightarrow> wal_file \<Rightarrow> u64" where
  "scan_file_for_max_sequence cdc f = max_sequence_loop cdc (file_bytes f) 0"

fun scan_existing_loop :: "'s wal_codec \<Rightarrow> wal_dir \<Rightarrow> u64 \<Rightarrow> u64 \<Rightarrow> u64 \<times> u64" where
  "scan_existing_loop cdc [] num seq = (seq, num)"
| "scan_existing_loop cdc ((n, f) # fs) num seq =
     (case wal_file_number n of
        None \<Rightarrow> scan_existing_loop cdc fs num seq
      | Some k \<Rightarrow> scan_existing_loop cdc fs (max num (of_nat k)) (max seq (scan_file_for_max_sequence cdc f)))"

definition scan_existing_wals :: "'s wal_codec \<Rightarrow> wal_dir \<Rightarrow> u64 \<times> u64" where
  "scan_existing_wals cdc d =
     (let (seq, num) = scan_existing_loop cdc d 0 0
      in (if 0 < seq then seq + 1 else 0, num))"

definition wal_writer_new :: "'s wal_codec \<Rightarrow> wal_config \<Rightarrow> wal_dir \<Rightarrow> wal_writer" where
  "wal_writer_new cdc cfg d =
     (let (seq, num) = scan_existing_wals cdc d;
          path = wal_file_path num;
          d' = open_append d path
      in \<lparr>dir = d', current_file_path = path, file_buf = [], current_sequence = seq, config = cfg,
          current_file_size = (case map_of d' path of None \<Rightarrow> 0 | Some f \<Rightarrow> of_nat (length (file_bytes f))),
          file_number = num\<rparr>)"

definition scan_wal_files :: "wal_dir \<Rightarrow> string list" where
  "scan_wal_files d = sort (filter is_wal_name (map fst d))"

section \<open>Appending\<close>

definition flush :: "wal_writer \<Rightarrow> wal_writer" where
  "flush w = sync_all (flush_buf w)"

definition should_rotate :: "wal_writer \<Rightarrow> nat \<Rightarrow> bool" where
  "should_rotate w next_entry_size \<longleftrightarrow>
     config_max_file_size (config w) < current_file_size w + of_nat next_entry_size"

definition rotate_file :: "wal_writer \<Rightarrow> wal_writer" where
  "rotate_file w =
     (let w1 = flush w;
          num = file_number w1 + 1;
          path = wal_file_path num
      in w1\<lparr>file_number := num, dir := open_append (dir w1) path, file_buf := [],
            current_file_path := path, current_file_size := 0\<rparr>)"

text \<open>
  An \<open>append\<close>: the sequence number is taken first and stays taken when a later step fails. The
  second half, \<open>write_frame\<close>, rotates if needed, writes and syncs by the policy.
\<close>

definition write_frame :: "wal_writer \<Rightarrow> bytes \<Rightarrow> wal_writer" where
  "write_frame w bs =
     (let w1 = (if should_rotate w (length bs) then rotate_file w else w);
          w2 = buf_write_all w1 bs;
          w3 = (if config_fsync_policy (config w2) = Always then flush w2 else w2)
      in w3\<lparr>current_file_size := current_file_size w3 + of_nat (length bs)\<rparr>)"

definition append_entry ::
  "'s wal_codec \<Rightarrow> int \<Rightarrow> wal_writer \<Rightarrow> 's wal_operation \<Rightarrow> wal_writer \<times> (wal_error, u64) result"
where
  "append_entry cdc now w op =
     (let s = current_sequence w;
          w0 = w\<lparr>current_sequence := s + 1\<rparr>;
          e = wal_entry_new s now op
      in case compute_checksum cdc e of
           Inl m \<Rightarrow> (w0, Inl m)
         | Inr c \<Rightarrow>
             (case serialize_entry cdc (e\<lparr>entry_checksum := c\<rparr>) of
                Inl m \<Rightarrow> (w0, Inl m)
              | Inr bs \<Rightarrow> (write_frame w0 bs, Inr s)))"

section \<open>Compaction\<close>

function only_before_loop :: "'s wal_codec \<Rightarrow> bytes \<Rightarrow> u64 \<Rightarrow> (wal_error, bool) result" where
  "only_before_loop cdc bs before =
     (case next_entry cdc bs of
        (Inr None, rest) \<Rightarrow> Inr True
      | (Inr (Some e), rest) \<Rightarrow>
          (if before \<le> entry_seq e then Inr False else only_before_loop cdc rest before)
      | (Inl err, rest) \<Rightarrow>
          (case err of
             CorruptedEntry s \<Rightarrow> (if before \<le> s then Inr False else only_before_loop cdc rest before)
           | _ \<Rightarrow> Inl IoError))"
  by pat_completeness auto
termination
  by (relation "measure (\<lambda>(cdc, bs, m). length bs)") (auto dest: next_entry_shorter [OF sym])

declare only_before_loop.simps [simp del]

definition file_contains_only_entries_before ::
  "'s wal_codec \<Rightarrow> wal_file \<Rightarrow> u64 \<Rightarrow> (wal_error, bool) result"
where
  "file_contains_only_entries_before cdc f before = only_before_loop cdc (file_bytes f) before"

definition compact_removes :: "'s wal_codec \<Rightarrow> u64 \<Rightarrow> u64 \<Rightarrow> string \<times> wal_file \<Rightarrow> bool" where
  "compact_removes cdc current before p =
     (case wal_file_number (fst p) of
        None \<Rightarrow> False
      | Some k \<Rightarrow> \<not> current \<le> of_nat k \<and> file_contains_only_entries_before cdc (snd p) before = Inr True)"

definition compact :: "'s wal_codec \<Rightarrow> wal_writer \<Rightarrow> u64 \<Rightarrow> wal_writer \<times> nat" where
  "compact cdc w before =
     (let gone = compact_removes cdc (file_number w) before
      in (w\<lparr>dir := filter (\<lambda>p. \<not> gone p) (dir w)\<rparr>, length (filter gone (dir w))))"

section \<open>What the files hold\<close>

text \<open>
  The writer's files are whole frames: \<open>closed\<close> lists the entries of every rotated file,
  \<open>cur\<close> those of the current file and \<open>pend\<close> those still in the buffer.
\<close>

definition holds :: "'s wal_codec \<Rightarrow> string \<times> wal_file \<Rightarrow> 's wal_entry list \<Rightarrow> bool" where
  "holds cdc p es \<longleftrightarrow> frames cdc es = Inr (file_bytes (snd p))"

definition fully_synced :: "string \<times> wal_file \<Rightarrow> bool" where
  "fully_synced p \<longleftrightarrow> file_synced (snd p) = length (file_bytes (snd p))"

definition wal_inv ::
  "'s wal_codec \<Rightarrow> wal_writer \<Rightarrow> 's wal_entry list list \<Rightarrow> 's wal_entry list \<Rightarrow> 's wal_entry list \<Rightarrow> bool"
where
  "wal_inv cdc w closed cur pend \<longleftrightarrow>
     (\<exists>old f. dir w = old @ [(wal_file_path (file_number w), f)] \<and>
        current_file_path w = wal_file_path (file_number w) \<and>
        map fst old = map (\<lambda>i. wal_file_path (of_nat i)) [0..<unat (file_number w)] \<and>
        list_all2 (holds cdc) old closed \<and> list_all fully_synced old \<and>
        frames cdc cur = Inr (file_bytes f) \<and> frames cdc pend = Inr (file_buf w))"

text \<open>Everything written has reached the disk.\<close>

definition wal_durable :: "wal_writer \<Rightarrow> bool" where
  "wal_durable w \<longleftrightarrow> file_buf w = [] \<and> list_all fully_synced (dir w)"

lemma frames_append:
  "frames cdc xs = Inr a \<Longrightarrow> frames cdc ys = Inr b \<Longrightarrow> frames cdc (xs @ ys) = Inr (a @ b)"
  by (induction xs arbitrary: a) (auto split: sum.splits)

lemma frames_empty: "frames cdc es = Inr [] \<Longrightarrow> es = []"
  by (cases es) (auto split: sum.splits dest!: serialize_length)

lemma map_file_absent: "name \<notin> fst ` set d \<Longrightarrow> map_file g name d = d"
  unfolding map_file_def by (induction d) auto

lemma map_file_last:
  "name \<notin> fst ` set old \<Longrightarrow> map_file g name (old @ [(name, f)]) = old @ [(name, g f)]"
  using map_file_absent [of name old g] by (simp add: map_file_def)

lemma wal_path_fresh:
  assumes "map fst old = map (\<lambda>i. wal_file_path (of_nat i)) [0..<n]" and "n \<le> unat num"
  shows "wal_file_path num \<notin> fst ` set old"
proof
  assume "wal_file_path num \<in> fst ` set old"
  then have "wal_file_path num \<in> set (map (\<lambda>i. wal_file_path (of_nat i)) [0..<n])"
    using assms(1) by (metis list.set_map)
  then obtain i where "i < n" "num = of_nat i" by (auto simp: wal_file_path_inj)
  moreover have "i < 2 ^ 64" using \<open>i < n\<close> assms(2) unsigned_less [of num, where 'a = nat] by simp
  ultimately show False using assms(2) by (simp add: unat_of_nat)
qed

lemma wal_invE:
  assumes "wal_inv cdc w closed cur pend"
  obtains old f where "dir w = old @ [(wal_file_path (file_number w), f)]"
    "current_file_path w = wal_file_path (file_number w)"
    "map fst old = map (\<lambda>i. wal_file_path (of_nat i)) [0..<unat (file_number w)]"
    "list_all2 (holds cdc) old closed" "list_all fully_synced old"
    "frames cdc cur = Inr (file_bytes f)" "frames cdc pend = Inr (file_buf w)"
    "\<And>g. map_file g (current_file_path w) (dir w) = old @ [(wal_file_path (file_number w), g f)]"
proof -
  from assms obtain old f where *: "dir w = old @ [(wal_file_path (file_number w), f)]"
    "current_file_path w = wal_file_path (file_number w)"
    "map fst old = map (\<lambda>i. wal_file_path (of_nat i)) [0..<unat (file_number w)]"
    "list_all2 (holds cdc) old closed" "list_all fully_synced old"
    "frames cdc cur = Inr (file_bytes f)" "frames cdc pend = Inr (file_buf w)"
    unfolding wal_inv_def by blast
  moreover have "map_file g (current_file_path w) (dir w) = old @ [(wal_file_path (file_number w), g f)]"
    for g using wal_path_fresh [OF *(3) order_refl] by (simp add: *(1,2) map_file_last)
  ultimately show ?thesis by (rule that)
qed

lemma wal_invI:
  assumes "dir w = old @ [(wal_file_path (file_number w), f)]"
    "current_file_path w = wal_file_path (file_number w)"
    "map fst old = map (\<lambda>i. wal_file_path (of_nat i)) [0..<unat (file_number w)]"
    "list_all2 (holds cdc) old closed" "list_all fully_synced old"
    "frames cdc cur = Inr (file_bytes f)" "frames cdc pend = Inr (file_buf w)"
  shows "wal_inv cdc w closed cur pend"
  unfolding wal_inv_def using assms by blast

lemma map_file_inv:
  assumes "wal_inv cdc w closed cur pend"
    and "\<And>f. frames cdc cur = Inr (file_bytes f) \<Longrightarrow> frames cdc cur' = Inr (file_bytes (g f))"
  shows "wal_inv cdc (w\<lparr>dir := map_file g (current_file_path w) (dir w)\<rparr>) closed cur' pend"
  using assms(1)
proof (rule wal_invE)
  fix old f
  assume a: "current_file_path w = wal_file_path (file_number w)"
    "map fst old = map (\<lambda>i. wal_file_path (of_nat i)) [0..<unat (file_number w)]"
    "list_all2 (holds cdc) old closed" "list_all fully_synced old"
    "frames cdc cur = Inr (file_bytes f)" "frames cdc pend = Inr (file_buf w)"
    "\<And>g. map_file g (current_file_path w) (dir w) = old @ [(wal_file_path (file_number w), g f)]"
  show ?thesis
    by (rule wal_invI [where old = old and f = "g f"]) (use a assms(2) in simp_all)
qed

lemma os_append_inv:
  assumes "wal_inv cdc w closed cur pend" and "frames cdc es = Inr bs"
  shows "wal_inv cdc (os_append bs w) closed (cur @ es) pend"
  unfolding os_append_def
  by (rule map_file_inv [OF assms(1)]) (simp add: frames_append [OF _ assms(2)])

lemma flush_buf_inv:
  assumes "wal_inv cdc w closed cur pend"
  shows "wal_inv cdc (flush_buf w) closed (cur @ pend) []"
proof -
  have "frames cdc pend = Inr (file_buf w)" using assms by (auto simp: wal_inv_def)
  from os_append_inv [OF assms this] show ?thesis
    by (auto simp: wal_inv_def flush_buf_def)
qed

lemma sync_all_inv:
  "wal_inv cdc w closed cur pend \<Longrightarrow> wal_inv cdc (sync_all w) closed cur pend"
  unfolding sync_all_def by (rule map_file_inv) simp_all

lemma sync_all_durable:
  assumes "wal_inv cdc w closed cur pend" and "file_buf w = []"
  shows "wal_durable (sync_all w)"
  using assms(1)
  by (rule wal_invE) (simp add: wal_durable_def sync_all_def assms(2), simp add: fully_synced_def)

lemma flush_inv:
  assumes "wal_inv cdc w closed cur pend"
  shows "wal_inv cdc (flush w) closed (cur @ pend) []" and "wal_durable (flush w)"
  using sync_all_inv [OF flush_buf_inv [OF assms]] sync_all_durable [OF flush_buf_inv [OF assms]]
  by (simp_all add: flush_def flush_buf_def)

lemma buf_write_all_inv:
  assumes "wal_inv cdc w closed cur pend" and "serialize_entry cdc e = Inr bs"
  shows "\<exists>cur' pend'. wal_inv cdc (buf_write_all w bs) closed cur' pend' \<and> cur' @ pend' = cur @ pend @ [e]"
proof -
  have push: "wal_inv cdc (v\<lparr>file_buf := file_buf v @ bs\<rparr>) closed c (p @ [e])"
    if "wal_inv cdc v closed c p" for v c p
    using that frames_append [of cdc p _ "[e]" bs] assms(2) by (auto simp: wal_inv_def)
  have spare: "pend = []" if "\<not> buf_capacity - length (file_buf w) < length bs" "buf_capacity \<le> length bs"
  proof -
    have "length (file_buf w) = 0" using that unfolding buf_capacity_def by linarith
    then have "file_buf w = []" by simp
    with assms(1) show ?thesis by (auto simp: wal_inv_def dest: frames_empty)
  qed
  let ?w1 = "if buf_capacity - length (file_buf w) < length bs then flush_buf w else w"
  consider "length bs < buf_capacity - length (file_buf w)"
    | "\<not> length bs < buf_capacity - length (file_buf w)" "buf_capacity \<le> length bs"
    | "\<not> length bs < buf_capacity - length (file_buf w)" "\<not> buf_capacity \<le> length bs" by blast
  then show ?thesis
  proof cases
    case 1
    with push [OF assms(1)] show ?thesis by (auto simp: buf_write_all_def)
  next
    case 2
    have "wal_inv cdc ?w1 closed (cur @ pend) []"
      using flush_buf_inv [OF assms(1)] assms(1) spare 2 by auto
    from os_append_inv [OF this, of "[e]"] assms(2) 2 show ?thesis
      by (intro exI [of _ "cur @ pend @ [e]"] exI [of _ "[]"]) (simp add: buf_write_all_def Let_def)
  next
    case 3
    then have b: "buf_write_all w bs = ?w1\<lparr>file_buf := file_buf ?w1 @ bs\<rparr>"
      by (simp add: buf_write_all_def Let_def)
    show ?thesis
    proof (cases "buf_capacity - length (file_buf w) < length bs")
      case True
      with push [OF flush_buf_inv [OF assms(1)]] show ?thesis unfolding b
        by (intro exI [of _ "cur @ pend"] exI [of _ "[e]"]) simp
    next
      case False
      with push [OF assms(1)] show ?thesis unfolding b by auto
    qed
  qed
qed

lemma rotate_file_inv:
  assumes "wal_inv cdc w closed cur pend" and "Suc (unat (file_number w)) < 2 ^ 64"
  shows "wal_inv cdc (rotate_file w) (closed @ [cur @ pend]) [] []"
    and "unat (file_number (rotate_file w)) = Suc (unat (file_number w))"
proof -
  have num: "unat (file_number w + 1) = Suc (unat (file_number w))" by (rule unat_u64_Suc [OF assms(2)])
  have fl [simp]: "file_number (flush w) = file_number w" "config (flush w) = config w"
    by (simp_all add: flush_def sync_all_def flush_buf_def os_append_def)
  show "unat (file_number (rotate_file w)) = Suc (unat (file_number w))"
    using num by (simp add: rotate_file_def Let_def)
  from flush_inv(1) [OF assms(1)] obtain old f where
    d: "dir (flush w) = old @ [(wal_file_path (file_number w), f)]"
    and o: "map fst old = map (\<lambda>i. wal_file_path (of_nat i)) [0..<unat (file_number w)]"
    and h: "list_all2 (holds cdc) old closed" "frames cdc (cur @ pend) = Inr (file_bytes f)"
    by (auto elim: wal_invE)
  have s: "list_all fully_synced (dir (flush w))"
    using flush_inv(2) [OF assms(1)] by (simp add: wal_durable_def)
  have names: "map fst (dir (flush w)) =
      map (\<lambda>i. wal_file_path (of_nat i)) [0..<unat (file_number w + 1)]"
    by (simp add: d o num)
  have "wal_file_path (file_number w + 1) \<notin> fst ` set (dir (flush w))"
    using wal_path_fresh [OF names order_refl] .
  then have "map_of (dir (flush w)) (wal_file_path (file_number w + 1)) = None"
    by (simp add: map_of_eq_None_iff)
  then have "dir (rotate_file w) =
      dir (flush w) @ [(wal_file_path (file_number w + 1), \<lparr>file_bytes = [], file_synced = 0\<rparr>)]"
    by (simp add: rotate_file_def Let_def open_append_def)
  moreover have "list_all2 (holds cdc) (dir (flush w)) (closed @ [cur @ pend])"
    unfolding d using h by (intro list_all2_appendI) (simp_all add: holds_def)
  ultimately show "wal_inv cdc (rotate_file w) (closed @ [cur @ pend]) [] []"
    using names s
    by (intro wal_invI [where f = "\<lparr>file_bytes = [], file_synced = 0\<rparr>"]) (simp_all add: rotate_file_def Let_def)
qed

section \<open>One append\<close>

text \<open>What the log relies on of the JSON encoder for an operation: see \<open>codec_roundtrips\<close>.\<close>

definition codec_ok :: "'s wal_codec \<Rightarrow> int \<Rightarrow> 's wal_operation \<Rightarrow> bool" where
  "codec_ok cdc now op \<longleftrightarrow>
     (\<forall>s c. codec_roundtrips cdc \<lparr>entry_seq = s, entry_time = now, entry_op = op, entry_checksum = c\<rparr>)"

lemma buf_write_all_keeps:
  "file_number (buf_write_all w bs) = file_number w" "config (buf_write_all w bs) = config w"
  "current_sequence (buf_write_all w bs) = current_sequence w"
  by (simp_all add: buf_write_all_def Let_def flush_buf_def os_append_def)

lemma flush_keeps:
  "file_number (flush w) = file_number w" "config (flush w) = config w"
  "current_sequence (flush w) = current_sequence w"
  by (simp_all add: flush_def sync_all_def flush_buf_def os_append_def)

lemma rotate_keeps:
  "config (rotate_file w) = config w" "current_sequence (rotate_file w) = current_sequence w"
  by (simp_all add: rotate_file_def Let_def flush_keeps)

lemma wal_inv_cong:
  assumes "wal_inv cdc w closed cur pend" and "dir v = dir w" and "file_buf v = file_buf w"
    and "current_file_path v = current_file_path w" and "file_number v = file_number w"
  shows "wal_inv cdc v closed cur pend"
  using assms by (simp add: wal_inv_def)

text \<open>
  The invariant of the writer: the files and the buffer hold the frames of the log \<open>es\<close>, in
  order, the sequence number is the next free one, and with \<open>Always\<close> all of it is on disk.
\<close>

definition wal_log :: "'s wal_codec \<Rightarrow> wal_writer \<Rightarrow> 's wal_entry list \<Rightarrow> bool" where
  "wal_log cdc w es \<longleftrightarrow>
     (\<exists>closed cur pend. wal_inv cdc w closed cur pend \<and> es = concat closed @ cur @ pend) \<and>
     (\<forall>e \<in> set es. codec_roundtrips cdc e \<and> checked cdc e) \<and>
     map entry_seq es = map of_nat [0..<length es] \<and> current_sequence w = of_nat (length es) \<and>
     unat (file_number w) \<le> length es \<and>
     (config_fsync_policy (config w) = Always \<longrightarrow> wal_durable w)"

lemma encode_ok:
  assumes "codec_ok cdc now op"
  obtains c bs where "compute_checksum cdc (wal_entry_new s now op) = Inr c"
    "serialize_entry cdc (wal_entry_new s now op\<lparr>entry_checksum := c\<rparr>) = Inr bs"
    "codec_roundtrips cdc (wal_entry_new s now op\<lparr>entry_checksum := c\<rparr>)"
    "checked cdc (wal_entry_new s now op\<lparr>entry_checksum := c\<rparr>)"
proof -
  have rt: "codec_roundtrips cdc (wal_entry_new s now op\<lparr>entry_checksum := c\<rparr>)" for c
    using assms by (simp add: codec_ok_def wal_entry_new_def)
  from rt [of 0] obtain c where c: "compute_checksum cdc (wal_entry_new s now op) = Inr c"
    by (auto simp: codec_roundtrips_def compute_checksum_def)
  from rt [of c] obtain bs where bs: "serialize_entry cdc (wal_entry_new s now op\<lparr>entry_checksum := c\<rparr>) = Inr bs"
    by (auto simp: codec_roundtrips_def serialize_entry_def)
  have "checked cdc (wal_entry_new s now op\<lparr>entry_checksum := c\<rparr>)"
    using c by (simp add: checked_def compute_checksum_def)
  with c bs rt [of c] that show ?thesis by blast
qed

lemma maybe_rotate_inv:
  assumes "wal_inv cdc w closed cur pend" and "Suc (unat (file_number w)) < 2 ^ 64"
  obtains closed' cur' pend' where
    "wal_inv cdc (if r then rotate_file w else w) closed' cur' pend'"
    "concat closed' @ cur' @ pend' = concat closed @ cur @ pend"
    "unat (file_number (if r then rotate_file w else w)) \<le> Suc (unat (file_number w))"
proof (cases r)
  case True
  with that [of "closed @ [cur @ pend]" "[]" "[]"] rotate_file_inv [OF assms] show ?thesis by simp
next
  case False
  with that [of closed cur pend] assms(1) show ?thesis by simp
qed

lemma maybe_flush_inv:
  assumes "wal_inv cdc w closed cur pend"
  obtains cur' pend' where "wal_inv cdc (if r then flush w else w) closed cur' pend'"
    "cur' @ pend' = cur @ pend"
proof (cases r)
  case True
  with that [of "cur @ pend" "[]"] flush_inv(1) [OF assms] show ?thesis by simp
next
  case False
  with that [of cur pend] assms show ?thesis by simp
qed

lemma write_frame_keeps:
  "config (write_frame w bs) = config w" "current_sequence (write_frame w bs) = current_sequence w"
  by (simp_all add: write_frame_def Let_def buf_write_all_keeps flush_keeps rotate_keeps)

lemma write_frame_inv:
  assumes "wal_inv cdc w closed cur pend" and "Suc (unat (file_number w)) < 2 ^ 64"
    and "serialize_entry cdc e = Inr bs"
  shows "\<exists>closed' cur' pend'. wal_inv cdc (write_frame w bs) closed' cur' pend' \<and>
      concat closed' @ cur' @ pend' = concat closed @ cur @ pend @ [e]"
    and "unat (file_number (write_frame w bs)) \<le> Suc (unat (file_number w))"
    and "config_fsync_policy (config w) = Always \<Longrightarrow> wal_durable (write_frame w bs)"
proof -
  let ?w1 = "if should_rotate w (length bs) then rotate_file w else w"
  let ?w2 = "buf_write_all ?w1 bs"
  let ?w3 = "if config_fsync_policy (config ?w2) = Always then flush ?w2 else ?w2"
  have wf: "write_frame w bs = ?w3\<lparr>current_file_size := current_file_size ?w3 + of_nat (length bs)\<rparr>"
    by (simp only: write_frame_def Let_def)
  obtain closed1 cur1 pend1 where inv1: "wal_inv cdc ?w1 closed1 cur1 pend1"
    and es1: "concat closed1 @ cur1 @ pend1 = concat closed @ cur @ pend"
    and num1: "unat (file_number ?w1) \<le> Suc (unat (file_number w))"
    by (rule maybe_rotate_inv [OF assms(1,2)])
  from buf_write_all_inv [OF inv1 assms(3)] obtain cur2 pend2 where
    inv2: "wal_inv cdc ?w2 closed1 cur2 pend2" and es2: "cur2 @ pend2 = cur1 @ pend1 @ [e]" by blast
  obtain cur3 pend3 where inv3: "wal_inv cdc ?w3 closed1 cur3 pend3" and es3: "cur3 @ pend3 = cur2 @ pend2"
    by (rule maybe_flush_inv [OF inv2])
  have "wal_inv cdc (write_frame w bs) closed1 cur3 pend3"
    unfolding wf by (rule wal_inv_cong [OF inv3]) simp_all
  moreover have "concat closed1 @ cur3 @ pend3 = concat closed @ cur @ pend @ [e]"
    using es1 es2 es3 by (metis append.assoc)
  ultimately show "\<exists>closed' cur' pend'. wal_inv cdc (write_frame w bs) closed' cur' pend' \<and>
      concat closed' @ cur' @ pend' = concat closed @ cur @ pend @ [e]" by blast
  show "unat (file_number (write_frame w bs)) \<le> Suc (unat (file_number w))"
    using num1 by (simp add: wf buf_write_all_keeps flush_keeps)
  show "wal_durable (write_frame w bs)" if "config_fsync_policy (config w) = Always"
    using that flush_inv(2) [OF inv2] by (simp add: wf buf_write_all_keeps rotate_keeps wal_durable_def)
qed

lemma append_entry_log:
  assumes log: "wal_log cdc w es" and ok: "codec_ok cdc now op" and len: "Suc (length es) < 2 ^ 64"
  shows "\<exists>w' e. append_entry cdc now w op = (w', Inr (of_nat (length es))) \<and>
     wal_log cdc w' (es @ [e]) \<and> entry_op e = op \<and> entry_time e = now \<and> config w' = config w"
proof -
  let ?s = "of_nat (length es) :: u64"
  let ?w0 = "w\<lparr>current_sequence := ?s + 1\<rparr>"
  from log obtain closed cur pend where inv: "wal_inv cdc w closed cur pend"
    and es: "es = concat closed @ cur @ pend" and num: "unat (file_number w) \<le> length es"
    and seq: "current_sequence w = ?s" "map entry_seq es = map of_nat [0..<length es]"
    and good: "\<forall>e \<in> set es. codec_roundtrips cdc e \<and> checked cdc e"
    by (auto simp: wal_log_def)
  obtain c bs where c: "compute_checksum cdc (wal_entry_new ?s now op) = Inr c"
    and bs: "serialize_entry cdc (wal_entry_new ?s now op\<lparr>entry_checksum := c\<rparr>) = Inr bs"
    and ck: "codec_roundtrips cdc (wal_entry_new ?s now op\<lparr>entry_checksum := c\<rparr>)"
      "checked cdc (wal_entry_new ?s now op\<lparr>entry_checksum := c\<rparr>)"
    by (rule encode_ok [OF ok])
  let ?e = "wal_entry_new ?s now op\<lparr>entry_checksum := c\<rparr>"
  have inv0: "wal_inv cdc ?w0 closed cur pend" by (rule wal_inv_cong [OF inv]) simp_all
  have n0: "Suc (unat (file_number ?w0)) < 2 ^ 64" using num len by simp
  note wr = write_frame_inv [OF inv0 n0 bs]
  have "wal_log cdc (write_frame ?w0 bs) (es @ [?e])"
    unfolding wal_log_def
  proof (intro conjI)
    show "\<exists>closed cur pend. wal_inv cdc (write_frame ?w0 bs) closed cur pend \<and>
        es @ [?e] = concat closed @ cur @ pend" using wr(1) by (metis append.assoc es)
    show "\<forall>e \<in> set (es @ [?e]). codec_roundtrips cdc e \<and> checked cdc e" using good ck by simp
    show "map entry_seq (es @ [?e]) = map of_nat [0..<length (es @ [?e])]"
      using seq(2) by (simp add: wal_entry_new_def)
    show "current_sequence (write_frame ?w0 bs) = of_nat (length (es @ [?e]))"
      by (simp add: write_frame_keeps)
    show "unat (file_number (write_frame ?w0 bs)) \<le> length (es @ [?e])"
      using wr(2) num by simp
    show "config_fsync_policy (config (write_frame ?w0 bs)) = Always \<longrightarrow> wal_durable (write_frame ?w0 bs)"
      using wr(3) by (simp add: write_frame_keeps)
  qed
  moreover have "append_entry cdc now w op = (write_frame ?w0 bs, Inr ?s)"
    by (simp add: append_entry_def Let_def seq(1) c bs)
  ultimately show ?thesis
    by (intro exI [of _ "write_frame ?w0 bs"] exI [of _ ?e]) (simp add: wal_entry_new_def write_frame_keeps)
qed

section \<open>Runs of appends\<close>

fun append_all ::
  "'s wal_codec \<Rightarrow> wal_writer \<Rightarrow> (int \<times> 's wal_operation) list \<Rightarrow> wal_writer \<times> (wal_error, u64) result list"
where
  "append_all cdc w [] = (w, [])"
| "append_all cdc w ((now, op) # ops) =
     (let (w1, r) = append_entry cdc now w op; (w2, rs) = append_all cdc w1 ops in (w2, r # rs))"

lemma wal_writer_new_log: "wal_log cdc (wal_writer_new cdc cfg []) []"
proof -
  let ?w = "wal_writer_new cdc cfg []"
  have "dir ?w = [] @ [(wal_file_path (file_number ?w), \<lparr>file_bytes = [], file_synced = 0\<rparr>)]"
    and n: "file_number ?w = 0" "current_file_path ?w = wal_file_path 0" "file_buf ?w = []"
      "current_sequence ?w = 0"
    by (simp_all add: wal_writer_new_def scan_existing_wals_def open_append_def Let_def)
  then have "wal_inv cdc ?w [] [] []"
    by (intro wal_invI [where f = "\<lparr>file_bytes = [], file_synced = 0\<rparr>" and old = "[]"]) simp_all
  moreover have "wal_durable ?w"
    by (simp add: wal_durable_def wal_writer_new_def scan_existing_wals_def open_append_def Let_def fully_synced_def)
  ultimately show ?thesis using n by (auto simp: wal_log_def)
qed

lemma append_all_log:
  assumes "wal_log cdc w es" and "\<forall>(now, op) \<in> set ops. codec_ok cdc now op"
    and "length es + length ops < 2 ^ 64"
  shows "\<exists>w' new. append_all cdc w ops = (w', map (\<lambda>i. Inr (of_nat i)) [length es..<length es + length ops]) \<and>
     wal_log cdc w' (es @ new) \<and> config w' = config w \<and>
     map (\<lambda>e. (entry_time e, entry_op e)) new = ops"
  using assms
proof (induction ops arbitrary: w es)
  case Nil
  then show ?case by auto
next
  case (Cons p ops)
  obtain now op where p: "p = (now, op)" by fastforce
  have ok: "codec_ok cdc now op" and len: "Suc (length es) < 2 ^ 64" using Cons.prems p by auto
  from append_entry_log [OF Cons.prems(1) ok len] obtain w1 e where
    ap: "append_entry cdc now w op = (w1, Inr (of_nat (length es)))"
    and log1: "wal_log cdc w1 (es @ [e])" and e: "entry_op e = op" "entry_time e = now" "config w1 = config w"
    by blast
  have oks: "\<forall>(now, op) \<in> set ops. codec_ok cdc now op"
    and lens: "length (es @ [e]) + length ops < 2 ^ 64" using Cons.prems by auto
  from Cons.IH [OF log1 oks lens] obtain w' new where
    rest: "append_all cdc w1 ops =
        (w', map (\<lambda>i. Inr (of_nat i)) [length (es @ [e])..<length (es @ [e]) + length ops])"
      "wal_log cdc w' ((es @ [e]) @ new)" "config w' = config w1"
      "map (\<lambda>e. (entry_time e, entry_op e)) new = ops" by blast
  have upt: "[length es..<length es + length (p # ops)] =
      length es # [length (es @ [e])..<length (es @ [e]) + length ops]"
    by (simp add: upt_conv_Cons del: upt_Suc)
  have "append_all cdc w (p # ops) =
      (w', map (\<lambda>i. Inr (of_nat i)) [length es..<length es + length (p # ops)])"
    unfolding upt by (simp add: p ap rest(1))
  moreover have "wal_log cdc w' (es @ e # new)" using rest(2) by simp
  ultimately show ?case
    using rest(3,4) e p by (intro exI [of _ w'] exI [of _ "e # new"]) simp
qed

section \<open>Scans of a file\<close>

lemma max_sequence_loop_ge: "m \<le> max_sequence_loop cdc bs m"
proof (induction cdc bs m rule: max_sequence_loop.induct)
  case (1 cdc bs m)
  show ?case
    using 1 by (subst max_sequence_loop.simps)
      (auto split: prod.splits sum.splits option.splits wal_error.splits intro: order_trans [OF max.cobounded1])
qed

lemma read_entriesE:
  assumes "e \<in> set (fst (read_entries cdc bs))"
  obtains e0 rest where "next_entry cdc bs = (Inr (Some e0), rest)" "length rest < length bs"
    "e = e0 \<or> e \<in> set (fst (read_entries cdc rest))"
proof -
  obtain r rest where n: "next_entry cdc bs = (r, rest)" by fastforce
  with assms obtain e0 where "r = Inr (Some e0)" "e = e0 \<or> e \<in> set (fst (read_entries cdc rest))"
    by (auto simp: read_entries.simps [of cdc bs] split: sum.splits option.splits prod.splits)
  with n that next_entry_shorter [OF n] show ?thesis by simp
qed

lemma max_sequence_loop_entries:
  "e \<in> set (fst (read_entries cdc bs)) \<Longrightarrow> entry_seq e \<le> max_sequence_loop cdc bs m"
proof (induction bs arbitrary: m rule: measure_induct_rule [of length])
  case (less bs)
  from less.prems obtain e0 rest where n: "next_entry cdc bs = (Inr (Some e0), rest)"
    "length rest < length bs" "e = e0 \<or> e \<in> set (fst (read_entries cdc rest))" by (rule read_entriesE)
  then show ?case
    using less.IH [OF n(2)] max_sequence_loop_ge [of "max m (entry_seq e0)" cdc rest]
    by (subst max_sequence_loop.simps) auto
qed

lemma only_before_loop_entries:
  "only_before_loop cdc bs before = Inr True \<Longrightarrow> e \<in> set (fst (read_entries cdc bs)) \<Longrightarrow> entry_seq e < before"
proof (induction bs rule: measure_induct_rule [of length])
  case (less bs)
  from less.prems(2) obtain e0 rest where n: "next_entry cdc bs = (Inr (Some e0), rest)"
    "length rest < length bs" "e = e0 \<or> e \<in> set (fst (read_entries cdc rest))" by (rule read_entriesE)
  with less.prems(1) have "\<not> before \<le> entry_seq e0" "only_before_loop cdc rest before = Inr True"
    by (auto simp: only_before_loop.simps [of cdc bs] split: if_splits)
  with n less.IH [OF n(2)] show ?case by auto
qed

lemma scan_existing_loop_ge: "seq \<le> fst (scan_existing_loop cdc d num seq)"
  by (induction cdc d num seq rule: scan_existing_loop.induct)
    (auto split: option.splits intro: order_trans [OF max.cobounded1])

lemma scan_existing_loop_entries:
  assumes "(n, f) \<in> set d" and "wal_file_number n = Some k" and "e \<in> set (fst (read_entries cdc (file_bytes f)))"
  shows "entry_seq e \<le> fst (scan_existing_loop cdc d num seq)"
  using assms(1)
proof (induction d arbitrary: num seq)
  case (Cons p fs)
  show ?case
  proof (cases "p = (n, f)")
    case True
    have "entry_seq e \<le> max seq (max_sequence_loop cdc (file_bytes f) 0)"
      using max_sequence_loop_entries [OF assms(3), of 0] by (simp add: le_max_iff_disj)
    from order_trans [OF this scan_existing_loop_ge] show ?thesis
      using True assms(2) by (simp add: scan_file_for_max_sequence_def)
  next
    case False
    with Cons show ?thesis by (cases p) (auto split: option.splits)
  qed
qed simp

section \<open>Properties\<close>

text \<open>
  C30. Compaction loses nothing: a file it removes is not the current one (nor any later one),
  every entry a reader gets from it has a sequence number below the threshold, and no file is
  changed or added.
\<close>

theorem compact_keeps_needed_entries:
  assumes "p \<in> set (dir w)" and "p \<notin> set (dir (fst (compact cdc w before)))"
  shows "(\<exists>k. wal_file_number (fst p) = Some k \<and> of_nat k < file_number w) \<and>
     (\<forall>e. e \<in> set (fst (read_entries cdc (file_bytes (snd p)))) \<longrightarrow> entry_seq e < before)"
proof -
  have "compact_removes cdc (file_number w) before p"
    using assms by (auto simp: compact_def Let_def)
  then show ?thesis
    by (auto simp: compact_removes_def file_contains_only_entries_before_def not_le
        split: option.splits dest: only_before_loop_entries)
qed

text \<open>
  Restart: a new writer continues after every sequence number that a reader finds in the
  directory, provided one of them is positive and the largest is not the last 64-bit number.
\<close>

theorem restart_continues_sequence:
  assumes "(n0, f0) \<in> set d" and "wal_file_number n0 = Some k0"
    and "e0 \<in> set (fst (read_entries cdc (file_bytes f0)))" and "0 < entry_seq e0"
    and "Suc (unat (fst (scan_existing_loop cdc d 0 0))) < 2 ^ 64"
    and "(n, f) \<in> set d" and "wal_file_number n = Some k" and "e \<in> set (fst (read_entries cdc (file_bytes f)))"
  shows "entry_seq e < current_sequence (wal_writer_new cdc cfg d)"
proof -
  let ?m = "fst (scan_existing_loop cdc d 0 0)"
  have "0 < ?m" using scan_existing_loop_entries [OF assms(1-3), of 0 0] assms(4) by simp
  then have seq: "current_sequence (wal_writer_new cdc cfg d) = ?m + 1"
    by (simp add: wal_writer_new_def scan_existing_wals_def Let_def case_prod_beta)
  have "entry_seq e \<le> ?m" by (rule scan_existing_loop_entries [OF assms(6-8)])
  also have "?m < ?m + 1" using unat_u64_Suc [OF assms(5)] by (simp add: word_less_nat_alt)
  finally show ?thesis by (simp add: seq)
qed

lemma max_sequence_loop_frames:
  assumes "\<forall>e \<in> set es. codec_roundtrips cdc e \<and> checked cdc e \<and> entry_seq e \<le> m"
    and "frames cdc es = Inr bs"
  shows "max_sequence_loop cdc bs m = m"
  using assms
proof (induction es arbitrary: bs)
  case Nil
  then show ?case by (simp add: max_sequence_loop.simps next_entry_def)
next
  case (Cons e es)
  from Cons.prems(2) obtain b bs' where b: "serialize_entry cdc e = Inr b"
    and bs': "frames cdc es = Inr bs'" and bs: "bs = b @ bs'" by (auto split: sum.splits)
  from next_entry_frame [OF _ _ b, of bs'] Cons.prems(1) obtain e' where
    "next_entry cdc bs = (Inr (Some e'), bs')" "entry_seq e' = entry_seq e"
    by (auto simp: bs same_text_def)
  with Cons.IH [OF _ bs'] Cons.prems(1) show ?case
    by (subst max_sequence_loop.simps) (simp add: max_absorb1)
qed

lemma scan_existing_loop_low:
  assumes "list_all2 (holds cdc) d ess"
    and "\<forall>es \<in> set ess. \<forall>e \<in> set es. codec_roundtrips cdc e \<and> checked cdc e \<and> entry_seq e \<le> 0"
  shows "fst (scan_existing_loop cdc d num 0) = 0"
  using assms
proof (induction d ess arbitrary: num rule: list_all2_induct)
  case (Cons p d es ess)
  then have "scan_file_for_max_sequence cdc (snd p) = 0"
    using max_sequence_loop_frames [of es cdc 0] by (simp add: holds_def scan_file_for_max_sequence_def)
  with Cons show ?case by (cases p) (auto split: option.splits)
qed simp

lemma wal_log_flush:
  assumes "wal_log cdc w es"
  obtains ess where "list_all2 (holds cdc) (dir (flush w)) ess" "concat ess = es"
    "map fst (dir (flush w)) = map (\<lambda>i. wal_file_path (of_nat i)) [0..<Suc (unat (file_number w))]"
proof -
  from assms obtain closed cur pend where inv: "wal_inv cdc w closed cur pend"
    and es: "es = concat closed @ cur @ pend" by (auto simp: wal_log_def)
  from flush_inv(1) [OF inv] obtain old f where d: "dir (flush w) = old @ [(wal_file_path (file_number w), f)]"
    and h: "list_all2 (holds cdc) old closed" "frames cdc (cur @ pend) = Inr (file_bytes f)"
    and n: "map fst old = map (\<lambda>i. wal_file_path (of_nat i)) [0..<unat (file_number w)]"
    by (auto simp: wal_inv_def flush_keeps)
  have "list_all2 (holds cdc) (dir (flush w)) (closed @ [cur @ pend])"
    unfolding d using h by (intro list_all2_appendI) (simp_all add: holds_def)
  then show ?thesis by (rule that) (simp_all add: es d n)
qed

text \<open>
  Sequence numbers are not unique across a restart: after the first entry of a log (sequence
  number 0) has been written, a writer reopened on the same directory starts at 0 again.
\<close>

theorem restart_repeats_sequence_zero:
  assumes "codec_ok cdc now op"
  shows "snd (append_entry cdc now (wal_writer_new cdc cfg []) op) = Inr 0 \<and>
     current_sequence (wal_writer_new cdc cfg'
       (dir (flush (fst (append_entry cdc now (wal_writer_new cdc cfg []) op))))) = 0"
proof -
  from append_entry_log [OF wal_writer_new_log [of cdc cfg] assms] obtain w e where
    w: "append_entry cdc now (wal_writer_new cdc cfg []) op = (w, Inr 0)" and log: "wal_log cdc w [e]"
    by auto
  from wal_log_flush [OF log] obtain ess where h: "list_all2 (holds cdc) (dir (flush w)) ess"
    and "concat ess = [e]" by blast
  then have "\<forall>es \<in> set ess. \<forall>e' \<in> set es. e' = e"
    by (metis UN_I set_concat list.set(1,2) singletonD)
  with log have "\<forall>es \<in> set ess. \<forall>e \<in> set es. codec_roundtrips cdc e \<and> checked cdc e \<and> entry_seq e \<le> 0"
    by (auto simp: wal_log_def)
  from scan_existing_loop_low [OF h this, of 0]
  have "current_sequence (wal_writer_new cdc cfg' (dir (flush w))) = 0"
    by (simp add: wal_writer_new_def scan_existing_wals_def Let_def case_prod_beta)
  then show ?thesis by (simp add: w)
qed

section \<open>A codec for the concrete instances\<close>

definition example_wal_codec :: "unit wal_codec" where
  "example_wal_codec =
     \<lparr>entry_to_vec = (\<lambda>e. case entry_op e of
          Insert c d \<Rightarrow> Inr (u64_to_le (entry_seq e) @ u64_to_le (of_int (entry_time e)) @
                            u64_to_le (ucast (doc_id d)) @ map of_char c)
        | _ \<Rightarrow> Inl ''unsupported''),
      entry_from_slice = (\<lambda>bs. Inr
         \<lparr>entry_seq = u64_from_le (take 8 bs), entry_time = int (unat (u64_from_le (take 8 (drop 8 bs)))),
          entry_op = Insert (map (\<lambda>b. char_of (unat b)) (drop 24 bs)) (with_id (ucast (u64_from_le (take 8 (drop 16 bs)))) 0),
          entry_checksum = 0\<rparr>),
      crc32 = (\<lambda>bs. of_nat (sum_list (map unat bs)))\<rparr>"

lemma unat_of_char_u8: "unat (of_char c :: u8) = of_char c"
proof -
  have "(of_char c :: u8) = of_nat (of_char c)" by (simp only: of_nat_of_char)
  then show ?thesis by (simp only: unat_of_nat) simp
qed

lemma ucast_u64_u128: "(ucast (ucast (x :: u64) :: 128 word) :: u64) = x"
  by (rule bit_word_eqI) (simp add: bit_simps)

lemma example_codec_ok:
  assumes "0 \<le> now" "now < 2 ^ 64" "length c + 24 < 2 ^ 32"
  shows "codec_ok example_wal_codec now (Insert c d)"
proof -
  have "int (unat (of_int now :: u64)) = now" using assms by (simp add: uint_word_of_int)
  then show ?thesis
    using assms(3)
    by (simp add: codec_ok_def codec_roundtrips_def same_text_def example_wal_codec_def with_id_def o_def unat_of_char_u8 ucast_u64_u128)
qed

text \<open>A directory with one file that holds three entries, written by appends.\<close>

definition example_ops :: "(int \<times> unit wal_operation) list" where
  "example_ops = map (\<lambda>i. (0, Insert ''users'' (with_id i 0))) [7, 8, 9]"

definition example_config :: wal_config where
  "example_config = \<lparr>config_fsync_policy = Always, config_max_file_size = 64\<rparr>"

lemma example_ops_ok: "\<forall>(now, op) \<in> set example_ops. codec_ok example_wal_codec now op"
  by (simp add: example_ops_def example_codec_ok)

theorem restart_repeats_sequence_zero_witness:
  "current_sequence (wal_writer_new example_wal_codec example_config
     (dir (flush (fst (append_entry example_wal_codec 0 (wal_writer_new example_wal_codec example_config [])
        (Insert ''users'' (with_id 7 0))))))) = 0"
  using restart_repeats_sequence_zero [of example_wal_codec 0 "Insert ''users'' (with_id 7 0)"]
  by (simp add: example_codec_ok)

text \<open>A one-byte codec, small enough to evaluate frames written out as bytes.\<close>

definition tiny_codec :: "unit wal_codec" where
  "tiny_codec =
     \<lparr>entry_to_vec = (\<lambda>e. Inr [ucast (entry_seq e)]),
      entry_from_slice = (\<lambda>bs. case bs of
          [b] \<Rightarrow> Inr \<lparr>entry_seq = ucast b, entry_time = 0, entry_op = DropCollection ''a'', entry_checksum = 0\<rparr>
        | _ \<Rightarrow> Inl ''bad''),
      crc32 = (\<lambda>bs. 0)\<rparr>"

definition tiny_file :: "u8 \<Rightarrow> wal_file" where
  "tiny_file b = \<lparr>file_bytes = [1, 0, 0, 0, b, 0, 0, 0, 0], file_synced = 9\<rparr>"

lemma tiny_file_entries:
  "read_entries tiny_codec (file_bytes (tiny_file b)) =
     ([\<lparr>entry_seq = ucast b, entry_time = 0, entry_op = DropCollection ''a'', entry_checksum = 0\<rparr>], None)"
  by (simp add: tiny_file_def read_entries.simps next_entry_def Let_def u32_from_le_def tiny_codec_def
      verify_checksum_def compute_checksum_def)

definition tiny_dir :: wal_dir where
  "tiny_dir = [(wal_file_path 0, tiny_file 5), (wal_file_path 1, tiny_file 6)]"

definition tiny_writer :: wal_writer where
  "tiny_writer = wal_writer_new tiny_codec example_config tiny_dir"

lemma tiny_max: "max_sequence_loop tiny_codec (file_bytes (tiny_file b)) m = max m (ucast b)"
  by (simp add: tiny_file_def max_sequence_loop.simps next_entry_def Let_def u32_from_le_def tiny_codec_def
      verify_checksum_def compute_checksum_def)

lemma tiny_only_before:
  "only_before_loop tiny_codec (file_bytes (tiny_file b)) before = Inr (\<not> before \<le> ucast b)"
  by (simp add: tiny_file_def only_before_loop.simps next_entry_def Let_def u32_from_le_def tiny_codec_def
      verify_checksum_def compute_checksum_def)

lemma tiny_scan: "scan_existing_loop tiny_codec tiny_dir 0 0 = (6, 1)"
  by (simp add: tiny_dir_def wal_name_parse scan_file_for_max_sequence_def tiny_max)

lemma tiny_writer_simps: "dir tiny_writer = tiny_dir" "file_number tiny_writer = 1"
  by (simp_all add: tiny_writer_def wal_writer_new_def scan_existing_wals_def tiny_scan Let_def
      open_append_def) (simp add: tiny_dir_def wal_file_path_inj)

theorem compact_keeps_needed_entries_witness:
  "dir (fst (compact tiny_codec tiny_writer 6)) = [(wal_file_path 1, tiny_file 6)] \<and>
   list_all (\<lambda>e. entry_seq e < 6) (fst (read_entries tiny_codec (file_bytes (tiny_file 5))))"
proof -
  have d: "dir (fst (compact tiny_codec tiny_writer 6)) = [(wal_file_path 1, tiny_file 6)]"
    by (simp add: compact_def Let_def tiny_writer_simps)
      (simp add: tiny_dir_def compact_removes_def wal_name_parse file_contains_only_entries_before_def
        tiny_only_before)
  then have "(wal_file_path 0, tiny_file 5) \<notin> set (dir (fst (compact tiny_codec tiny_writer 6)))"
    by (simp add: wal_file_path_inj)
  from compact_keeps_needed_entries [OF _ this] d show ?thesis
    by (simp add: tiny_writer_simps tiny_dir_def list_all_iff)
qed

theorem restart_continues_sequence_witness:
  "(5 :: u64) < current_sequence (wal_writer_new tiny_codec example_config tiny_dir)"
proof -
  have "(wal_file_path 0, tiny_file 5) \<in> set tiny_dir" by (simp add: tiny_dir_def)
  from restart_continues_sequence [OF this wal_name_parse _ _ _ this wal_name_parse,
      of "hd (fst (read_entries tiny_codec (file_bytes (tiny_file 5))))" tiny_codec
         "hd (fst (read_entries tiny_codec (file_bytes (tiny_file 5))))" example_config]
  show ?thesis by (simp add: tiny_file_entries tiny_scan)
qed

end
