(* ===== verification/Store_Spec.thy ===== *)
theory Store_Spec
  imports Main
begin

text \<open>
  The contract of a store of values by key: what a read returns after a write or a delete, for
  the same and for other keys. The persistent layer (its documents and its metadata), the simple
  key-value store and the cache provide it.
\<close>

locale map_store =
  fixes put :: "'s \<Rightarrow> 'k \<Rightarrow> 'v \<Rightarrow> 's"
    and del :: "'s \<Rightarrow> 'k \<Rightarrow> 's"
    and get :: "'s \<Rightarrow> 'k \<Rightarrow> 'v option"
  assumes get_put_same: "get (put s k v) k = Some v"
    and get_put_other: "k' \<noteq> k \<Longrightarrow> get (put s k v) k' = get s k'"
    and get_del_same: "get (del s k) k = None"
    and get_del_other: "k' \<noteq> k \<Longrightarrow> get (del s k) k' = get s k'"
begin

lemma get_put: "get (put s k v) k' = (if k' = k then Some v else get s k')"
  by (simp add: get_put_same get_put_other)

lemma get_del: "get (del s k) k' = (if k' = k then None else get s k')"
  by (simp add: get_del_same get_del_other)

lemma last_write_wins: "get (put (put s k v) k w) = get (put s k w)"
  by (auto simp: fun_eq_iff get_put)

lemma delete_after_put: "get (del (put s k v) k) = get (del s k)"
  by (auto simp: fun_eq_iff get_put get_del)

end

end
