(* ===== verification/Persistent_Layer.thy ===== *)
theory Persistent_Layer
  imports Document Store_Spec
begin

text \<open>
  The persistent layer (\<open>veddb-core/src/storage/persistent.rs\<close>) in its build without the
  \<open>rocksdb-storage\<close> feature: two hash maps, serialized documents by key \<open>collection:id\<close> and
  metadata blobs by name. JSON encoding (serde_json) and the text form of a UUID are code outside
  the repository: they are the fields of the argument \<open>codec\<close>.
\<close>

record doc_codec =
  doc_to_vec :: "document \<Rightarrow> (string, bytes) result"
  doc_from_slice :: "bytes \<Rightarrow> (string, document) result"
  names_to_vec :: "string list \<Rightarrow> (string, bytes) result"
  show_uuid :: "document_id \<Rightarrow> string"

record persistent_layer =
  documents :: "(string \<times> bytes) list"
  pl_metadata :: "(string \<times> bytes) list"

definition pl_new :: persistent_layer where
  "pl_new = \<lparr>documents = [], pl_metadata = []\<rparr>"

definition make_document_key :: "'z doc_codec_scheme \<Rightarrow> string \<Rightarrow> document_id \<Rightarrow> string" where
  "make_document_key cdc coll i = coll @ '':'' @ show_uuid cdc i"

definition insert_document ::
  "'z doc_codec_scheme \<Rightarrow> persistent_layer \<Rightarrow> string \<Rightarrow> document_id \<Rightarrow> document \<Rightarrow>
   persistent_layer \<times> (string, unit) result"
where
  "insert_document cdc p coll i d =
     (case doc_to_vec cdc d of
        Inl e \<Rightarrow> (p, Inl ''Failed to serialize document'')
      | Inr v \<Rightarrow> (p\<lparr>documents := al_put (make_document_key cdc coll i) v (documents p)\<rparr>, Inr ()))"

definition get_document ::
  "'z doc_codec_scheme \<Rightarrow> persistent_layer \<Rightarrow> string \<Rightarrow> document_id \<Rightarrow> (string, document option) result"
where
  "get_document cdc p coll i =
     (case map_of (documents p) (make_document_key cdc coll i) of
        None \<Rightarrow> Inr None
      | Some v \<Rightarrow> (case doc_from_slice cdc v of
                     Inl e \<Rightarrow> Inl ''Failed to deserialize document'' | Inr d \<Rightarrow> Inr (Some d)))"

definition update_document ::
  "'z doc_codec_scheme \<Rightarrow> persistent_layer \<Rightarrow> string \<Rightarrow> document_id \<Rightarrow> document \<Rightarrow>
   persistent_layer \<times> (string, unit) result"
where
  "update_document cdc p coll i d = insert_document cdc p coll i d"

definition delete_document ::
  "'z doc_codec_scheme \<Rightarrow> persistent_layer \<Rightarrow> string \<Rightarrow> document_id \<Rightarrow> persistent_layer \<times> bool"
where
  "delete_document cdc p coll i =
     (let k = make_document_key cdc coll i
      in (p\<lparr>documents := al_del k (documents p)\<rparr>, map_of (documents p) k \<noteq> None))"

definition pl_exists :: "'z doc_codec_scheme \<Rightarrow> persistent_layer \<Rightarrow> string \<Rightarrow> document_id \<Rightarrow> bool" where
  "pl_exists cdc p coll i = (map_of (documents p) (make_document_key cdc coll i) \<noteq> None)"

fun deserialize_all :: "'z doc_codec_scheme \<Rightarrow> bytes list \<Rightarrow> (string, document list) result" where
  "deserialize_all cdc [] = Inr []"
| "deserialize_all cdc (v # vs) =
     (case doc_from_slice cdc v of
        Inl e \<Rightarrow> Inl ''Failed to deserialize document''
      | Inr d \<Rightarrow> (case deserialize_all cdc vs of Inl e \<Rightarrow> Inl e | Inr ds \<Rightarrow> Inr (d # ds)))"

definition scan_collection ::
  "'z doc_codec_scheme \<Rightarrow> persistent_layer \<Rightarrow> string \<Rightarrow> (string, document list) result"
where
  "scan_collection cdc p coll =
     deserialize_all cdc (map snd (filter (\<lambda>(k, v). starts_with k (coll @ '':'')) (documents p)))"

definition store_metadata :: "persistent_layer \<Rightarrow> string \<Rightarrow> bytes \<Rightarrow> persistent_layer" where
  "store_metadata p k v = p\<lparr>pl_metadata := al_put k v (pl_metadata p)\<rparr>"

definition get_metadata :: "persistent_layer \<Rightarrow> string \<Rightarrow> bytes option" where
  "get_metadata p k = map_of (pl_metadata p) k"

definition delete_metadata :: "persistent_layer \<Rightarrow> string \<Rightarrow> persistent_layer" where
  "delete_metadata p k = p\<lparr>pl_metadata := al_del k (pl_metadata p)\<rparr>"

text \<open>\<open>get_stats\<close>: the number of keys and the sum of the stored lengths.\<close>

definition get_stats :: "persistent_layer \<Rightarrow> nat \<times> nat" where
  "get_stats p = (length (documents p), sum_list (map (\<lambda>(k, v). length v) (documents p)))"

text \<open>The collection names are the parts of the document keys before their first colon.\<close>

definition before_colon :: "string \<Rightarrow> string option" where
  "before_colon k = (if CHR '':'' \<in> set k then Some (takeWhile (\<lambda>c. c \<noteq> CHR '':'') k) else None)"

definition get_collections_list :: "persistent_layer \<Rightarrow> string list" where
  "get_collections_list p = sort (remdups (List.map_filter before_colon (map fst (documents p))))"

definition save_collections_list ::
  "'z doc_codec_scheme \<Rightarrow> persistent_layer \<Rightarrow> string list \<Rightarrow> persistent_layer \<times> (string, unit) result"
where
  "save_collections_list cdc p colls =
     (case names_to_vec cdc colls of
        Inl e \<Rightarrow> (p, Inl ''Failed to serialize collections list'')
      | Inr v \<Rightarrow> (store_metadata p ''collections'' v, Inr ()))"

definition create_collection ::
  "'z doc_codec_scheme \<Rightarrow> persistent_layer \<Rightarrow> string \<Rightarrow> persistent_layer \<times> (string, unit) result"
where
  "create_collection cdc p name =
     (let colls = get_collections_list p
      in if name \<notin> set colls then save_collections_list cdc p (colls @ [name]) else (p, Inr ()))"

definition list_collections :: "persistent_layer \<Rightarrow> string list" where
  "list_collections p = get_collections_list p"

definition drop_collection ::
  "'z doc_codec_scheme \<Rightarrow> persistent_layer \<Rightarrow> string \<Rightarrow> persistent_layer \<times> (string, unit) result"
where
  "drop_collection cdc p coll =
     (let p1 = p\<lparr>documents := filter (\<lambda>(k, v). \<not> starts_with k (coll @ '':'')) (documents p)\<rparr>;
          p2 = delete_metadata p1 (''collection:'' @ coll);
          colls = get_collections_list p2;
          (p3, r) = (if coll \<in> set colls then save_collections_list cdc p2 (remove1 coll colls)
                     else (p2, Inr ()))
      in case r of Inl e \<Rightarrow> (p3, Inl e)
         | Inr _ \<Rightarrow> (delete_metadata p3 (''indexes:'' @ coll), Inr ()))"

lemmas persistent_defs =
  insert_document_def get_document_def update_document_def delete_document_def pl_exists_def
  store_metadata_def get_metadata_def delete_metadata_def

section \<open>Well-formedness\<close>

definition pl_wf :: "persistent_layer \<Rightarrow> bool" where
  "pl_wf p \<longleftrightarrow> distinct (map fst (documents p)) \<and> distinct (map fst (pl_metadata p))"

lemma insert_document_wf: "pl_wf p \<Longrightarrow> pl_wf (fst (insert_document cdc p coll i d))"
  by (auto simp: pl_wf_def insert_document_def distinct_al_put split: sum.splits)

lemma delete_document_wf: "pl_wf p \<Longrightarrow> pl_wf (fst (delete_document cdc p coll i))"
  by (auto simp: pl_wf_def delete_document_def Let_def distinct_al_del)

lemma store_metadata_wf: "pl_wf p \<Longrightarrow> pl_wf (store_metadata p k v)"
  by (simp add: pl_wf_def store_metadata_def distinct_al_put)

lemma delete_metadata_wf: "pl_wf p \<Longrightarrow> pl_wf (delete_metadata p k)"
  by (simp add: pl_wf_def delete_metadata_def distinct_al_del)

section \<open>The document store as a map\<close>

text \<open>
  Keys of different documents of a collection differ; a collection name without a colon is
  recovered from a key. The facts on the UUID text that this uses: it is injective and holds no
  colon.
\<close>

definition uuid_text_ok :: "'z doc_codec_scheme \<Rightarrow> bool" where
  "uuid_text_ok cdc \<longleftrightarrow> inj (show_uuid cdc) \<and> (\<forall>i. CHR '':'' \<notin> set (show_uuid cdc i))"

lemma colon_split_inj:
  assumes "a @ CHR '':'' # x = b @ CHR '':'' # y" and "CHR '':'' \<notin> set x" and "CHR '':'' \<notin> set y"
  shows "a = b \<and> x = y"
proof -
  have "takeWhile (\<lambda>c. c \<noteq> CHR '':'') (rev (a @ CHR '':'' # x)) = rev x"
    and "takeWhile (\<lambda>c. c \<noteq> CHR '':'') (rev (b @ CHR '':'' # y)) = rev y"
    using assms(2,3) by (auto simp: takeWhile_append)
  with assms(1) have "x = y" by simp
  with assms(1) show ?thesis by simp
qed

lemma make_document_key_inj:
  assumes "uuid_text_ok cdc" and "make_document_key cdc c i = make_document_key cdc c' i'"
  shows "c = c' \<and> i = i'"
proof -
  have "c @ CHR '':'' # show_uuid cdc i = c' @ CHR '':'' # show_uuid cdc i'"
    using assms(2) by (simp add: make_document_key_def)
  then have "c = c' \<and> show_uuid cdc i = show_uuid cdc i'"
    using assms(1) by (intro colon_split_inj) (auto simp: uuid_text_ok_def)
  then show ?thesis using assms(1) by (auto simp: uuid_text_ok_def dest: injD)
qed

definition raw_put :: "persistent_layer \<Rightarrow> string \<Rightarrow> bytes \<Rightarrow> persistent_layer" where
  "raw_put p k v = p\<lparr>documents := al_put k v (documents p)\<rparr>"

definition raw_del :: "persistent_layer \<Rightarrow> string \<Rightarrow> persistent_layer" where
  "raw_del p k = p\<lparr>documents := al_del k (documents p)\<rparr>"

definition raw_get :: "persistent_layer \<Rightarrow> string \<Rightarrow> bytes option" where
  "raw_get p k = map_of (documents p) k"

interpretation docs: map_store raw_put raw_del raw_get
  by unfold_locales (auto simp: raw_put_def raw_del_def raw_get_def map_of_al_put map_of_al_del)

interpretation metas: map_store store_metadata delete_metadata get_metadata
  by unfold_locales
    (auto simp: store_metadata_def delete_metadata_def get_metadata_def map_of_al_put map_of_al_del)

lemma insert_document_raw:
  "doc_to_vec cdc d = Inr v \<Longrightarrow>
   insert_document cdc p coll i d = (raw_put p (make_document_key cdc coll i) v, Inr ())"
  by (simp add: insert_document_def raw_put_def)

lemma delete_document_raw:
  "delete_document cdc p coll i =
   (raw_del p (make_document_key cdc coll i), raw_get p (make_document_key cdc coll i) \<noteq> None)"
  by (simp add: delete_document_def raw_del_def raw_get_def Let_def)

lemma get_document_raw:
  "get_document cdc p coll i =
     (case raw_get p (make_document_key cdc coll i) of
        None \<Rightarrow> Inr None
      | Some v \<Rightarrow> (case doc_from_slice cdc v of
                     Inl e \<Rightarrow> Inl ''Failed to deserialize document'' | Inr d \<Rightarrow> Inr (Some d)))"
  by (simp add: get_document_def raw_get_def)

section \<open>Dropping a collection\<close>

lemma raw_get_drop:
  "raw_get (fst (drop_collection cdc p coll)) k =
     (if starts_with k (coll @ '':'') then None else raw_get p k)"
proof -
  have f: "map_of (filter (\<lambda>(k, v). \<not> starts_with k (coll @ '':'')) xs) k =
      (if starts_with k (coll @ '':'') then None else map_of xs k)" for xs :: "(string \<times> bytes) list"
    by (induction xs) auto
  have "documents (fst (drop_collection cdc p coll)) =
      filter (\<lambda>(k, v). \<not> starts_with k (coll @ '':'')) (documents p)"
    by (simp add: drop_collection_def Let_def delete_metadata_def save_collections_list_def
        store_metadata_def split: prod.splits sum.splits)
  then show ?thesis by (simp add: raw_get_def f)
qed

text \<open>A key of one collection starts with the prefix of another only when the name does.\<close>

lemma starts_with_key:
  assumes "CHR '':'' \<notin> set coll'"
  shows "starts_with (make_document_key cdc coll' i) (coll @ '':'') \<longleftrightarrow> coll = coll' \<or> 
    (\<exists>u. coll = coll' @ '':'' @ u \<and> starts_with (show_uuid cdc i) (u @ '':''))"
proof
  assume "starts_with (make_document_key cdc coll' i) (coll @ '':'')"
  then obtain r where r: "coll' @ CHR '':'' # show_uuid cdc i = coll @ CHR '':'' # r"
    unfolding starts_with_def make_document_key_def
    by (metis append.assoc append_Cons append_Nil append_take_drop_id)
  then obtain us where "coll' = coll @ us \<and> us @ CHR '':'' # show_uuid cdc i = CHR '':'' # r \<or>
      coll' @ us = coll \<and> CHR '':'' # show_uuid cdc i = us @ CHR '':'' # r"
    by (auto simp: append_eq_append_conv2)
  then show "coll = coll' \<or> (\<exists>u. coll = coll' @ '':'' @ u \<and> starts_with (show_uuid cdc i) (u @ '':''))"
    using assms by (cases us) (auto simp: starts_with_def)
qed (auto simp: starts_with_def make_document_key_def)

section \<open>Properties\<close>

text \<open>
  Read your writes: after a document is stored, reading it gives the decoding of exactly the
  stored bytes, and every other document of every collection reads as before.
\<close>

theorem insert_then_get:
  assumes "uuid_text_ok cdc" and "doc_to_vec cdc d = Inr v"
  shows "get_document cdc (fst (insert_document cdc p coll i d)) c' i' =
     (if c' = coll \<and> i' = i
      then (case doc_from_slice cdc v of
              Inl e \<Rightarrow> Inl ''Failed to deserialize document'' | Inr d' \<Rightarrow> Inr (Some d'))
      else get_document cdc p c' i')"
proof (cases "c' = coll \<and> i' = i")
  case True
  then show ?thesis by (simp add: insert_document_raw [OF assms(2)] get_document_raw docs.get_put)
next
  case False
  then have "make_document_key cdc c' i' \<noteq> make_document_key cdc coll i"
    using make_document_key_inj [OF assms(1)] by blast
  with False show ?thesis by (auto simp: insert_document_raw [OF assms(2)] get_document_raw docs.get_put)
qed

definition example_doc_codec :: doc_codec where
  "example_doc_codec =
     \<lparr>doc_to_vec = (\<lambda>d. Inr (u64_to_le (ucast (doc_id d)))),
      doc_from_slice = (\<lambda>bs. Inr (with_id (ucast (u64_from_le bs)) 0)),
      names_to_vec = (\<lambda>ns. Inr (concat (map (map of_char) ns))),
      show_uuid = (\<lambda>i. replicate (unat i) CHR ''a'')\<rparr>"

lemma example_uuid_text_ok: "uuid_text_ok example_doc_codec"
proof -
  have "inj (\<lambda>i :: document_id. replicate (unat i) CHR ''a'')"
    by (rule injI) (metis length_replicate word_unat_eq_iff)
  then show ?thesis by (simp add: uuid_text_ok_def example_doc_codec_def)
qed

theorem insert_then_get_witness:
  "get_document example_doc_codec
     (fst (insert_document example_doc_codec pl_new ''users'' 7 (with_id 7 0))) ''users'' 7 =
   Inr (Some (with_id 7 0))"
proof -
  have v: "doc_to_vec example_doc_codec (with_id 7 0) = Inr (u64_to_le 7)"
    by (simp add: example_doc_codec_def with_id_def)
  show ?thesis
    by (simp add: insert_then_get [OF example_uuid_text_ok v]) (simp add: example_doc_codec_def)
qed

text \<open>
  Dropping a collection removes all its documents and, when the names contain no colon, no
  document of any other collection.
\<close>

theorem drop_collection_isolated:
  assumes "CHR '':'' \<notin> set coll" and "CHR '':'' \<notin> set c'"
  shows "get_document cdc (fst (drop_collection cdc p coll)) c' i =
     (if c' = coll then Inr None else get_document cdc p c' i)"
proof -
  have "starts_with (make_document_key cdc c' i) (coll @ '':'') \<longleftrightarrow> coll = c'"
    using starts_with_key [OF assms(2), of cdc i coll] assms(1) by auto
  then show ?thesis by (simp add: get_document_raw raw_get_drop)
qed

theorem drop_collection_isolated_witness:
  "get_document example_doc_codec
     (fst (drop_collection example_doc_codec
        (fst (insert_document example_doc_codec pl_new ''users'' 7 (with_id 7 0))) ''orders'')) ''users'' 7 =
   get_document example_doc_codec
     (fst (insert_document example_doc_codec pl_new ''users'' 7 (with_id 7 0))) ''users'' 7"
  by (simp add: drop_collection_isolated)

text \<open>
  With a colon in a collection name the separation is lost: dropping \<open>coll\<close> deletes every
  document of every collection whose name starts with \<open>coll:\<close>.
\<close>

theorem drop_collection_takes_colon_names:
  "get_document cdc (fst (drop_collection cdc p coll)) (coll @ '':'' @ rest) i = Inr None"
proof -
  have "starts_with (make_document_key cdc (coll @ '':'' @ rest) i) (coll @ '':'')"
    by (simp add: starts_with_def make_document_key_def)
  then show ?thesis by (simp add: get_document_raw raw_get_drop)
qed

text \<open>
  A collection that has been created but holds no document is not listed: creating a
  collection never changes what \<open>list_collections\<close> returns, which is computed from the keys of
  the stored documents and not from the list that \<open>create_collection\<close> saves.
\<close>

theorem created_collection_not_listed:
  "list_collections (fst (create_collection cdc p name)) = list_collections p"
  by (simp add: list_collections_def create_collection_def save_collections_list_def
      store_metadata_def get_collections_list_def Let_def split: sum.splits)

end
