(* ===== verification/Wal_Replay.thy ===== *)
theory Wal_Replay
  imports Wal_Writer Persistent_Layer
begin

text \<open>
  Replay of the log into the persistent layer (\<open>veddb-core/src/wal/replay.rs\<close>). The JSON texts of
  documents, schemas and index definitions (serde_json) are the fields of the argument \<open>rc\<close>; the
  clock read by \<open>Document::insert\<close> is the argument \<open>now\<close>. An operation that fails is counted and
  skipped; an error of the reader ends the replay, with the operations before it applied.
\<close>

section \<open>Applying operations\<close>

record 's replay_codec = doc_codec +
  schema_to_vec :: "'s \<Rightarrow> (string, bytes) result"
  index_to_vec :: "index_definition \<Rightarrow> (string, bytes) result"

record replay_stats =
  entries_replayed :: u64
  entries_skipped :: u64
  errors :: u64
  last_sequence :: u64

definition stats_default :: replay_stats where
  "stats_default = \<lparr>entries_replayed = 0, entries_skipped = 0, errors = 0, last_sequence = 0\<rparr>"

definition apply_changes :: "int \<Rightarrow> document \<Rightarrow> ved_value btree_map \<Rightarrow> document" where
  "apply_changes now d changes = foldl (\<lambda>d (k, v). fst (doc_insert now d k v)) d changes"

fun apply_operation ::
  "'s replay_codec \<Rightarrow> int \<Rightarrow> persistent_layer \<Rightarrow> 's wal_operation \<Rightarrow> persistent_layer \<times> (string, unit) result"
where
  "apply_operation rc now p (Insert coll d) = insert_document rc p coll (doc_id d) d"
| "apply_operation rc now p (Update coll i changes) =
     (case get_document rc p coll i of
        Inl e \<Rightarrow> (p, Inl e)
      | Inr None \<Rightarrow> (p, Inr ())
      | Inr (Some d) \<Rightarrow> update_document rc p coll i (apply_changes now d changes))"
| "apply_operation rc now p (Delete coll i) = (fst (delete_document rc p coll i), Inr ())"
| "apply_operation rc now p (CreateCollection name schema) =
     (case schema_to_vec rc schema of
        Inl e \<Rightarrow> (p, Inl e)
      | Inr bs \<Rightarrow> (store_metadata p (''collection:'' @ name) bs, Inr ()))"
| "apply_operation rc now p (DropCollection name) = (delete_metadata p (''collection:'' @ name), Inr ())"
| "apply_operation rc now p (CreateIndex coll idx) =
     (case index_to_vec rc idx of
        Inl e \<Rightarrow> (p, Inl e)
      | Inr bs \<Rightarrow> (store_metadata p (''index:'' @ coll @ '':'' @ index_name idx) bs, Inr ()))"
| "apply_operation rc now p (DropIndex coll name) =
     (delete_metadata p (''index:'' @ coll @ '':'' @ name), Inr ())"

section \<open>Replaying files\<close>

definition replay_entry ::
  "'s replay_codec \<Rightarrow> int \<Rightarrow> u64 \<Rightarrow> 's wal_entry \<Rightarrow> persistent_layer \<times> replay_stats \<Rightarrow>
   persistent_layer \<times> replay_stats"
where
  "replay_entry rc now from_sequence e = (\<lambda>(p, st).
     if entry_seq e < from_sequence then (p, st\<lparr>entries_skipped := entries_skipped st + 1\<rparr>)
     else case apply_operation rc now p (entry_op e) of
            (p', Inl _) \<Rightarrow> (p', st\<lparr>errors := errors st + 1\<rparr>)
          | (p', Inr _) \<Rightarrow> (p', st\<lparr>entries_replayed := entries_replayed st + 1, last_sequence := entry_seq e\<rparr>))"

function replay_loop ::
  "'s wal_codec \<Rightarrow> 's replay_codec \<Rightarrow> int \<Rightarrow> u64 \<Rightarrow> bytes \<Rightarrow> persistent_layer \<times> replay_stats \<Rightarrow>
   persistent_layer \<times> (wal_error, replay_stats) result"
where
  "replay_loop cdc rc now from_sequence bs s =
     (case next_entry cdc bs of
        (Inl err, rest) \<Rightarrow> (fst s, Inl err)
      | (Inr None, rest) \<Rightarrow> (fst s, Inr (snd s))
      | (Inr (Some e), rest) \<Rightarrow>
          replay_loop cdc rc now from_sequence rest (replay_entry rc now from_sequence e s))"
  by pat_completeness auto
termination
  by (relation "measure (\<lambda>(cdc, rc, now, from, bs, s). length bs)") (auto dest: next_entry_shorter [OF sym])

declare replay_loop.simps [simp del]

definition replay_wal ::
  "'s wal_codec \<Rightarrow> 's replay_codec \<Rightarrow> int \<Rightarrow> wal_dir \<Rightarrow> string \<Rightarrow> persistent_layer \<Rightarrow> u64 \<Rightarrow>
   persistent_layer \<times> (wal_error, replay_stats) result"
where
  "replay_wal cdc rc now d name p from_sequence =
     (case map_of d name of
        None \<Rightarrow> (p, Inl (FileNotFound name))
      | Some f \<Rightarrow> replay_loop cdc rc now from_sequence (file_bytes f) (p, stats_default))"

definition add_stats :: "replay_stats \<Rightarrow> replay_stats \<Rightarrow> replay_stats" where
  "add_stats t st = \<lparr>entries_replayed = entries_replayed t + entries_replayed st,
     entries_skipped = entries_skipped t + entries_skipped st, errors = errors t + errors st,
     last_sequence = max (last_sequence t) (last_sequence st)\<rparr>"

fun replay_files ::
  "'s wal_codec \<Rightarrow> 's replay_codec \<Rightarrow> int \<Rightarrow> wal_dir \<Rightarrow> u64 \<Rightarrow> string list \<Rightarrow> persistent_layer \<Rightarrow> replay_stats \<Rightarrow>
   persistent_layer \<times> (wal_error, replay_stats) result"
where
  "replay_files cdc rc now d from_sequence [] p acc = (p, Inr acc)"
| "replay_files cdc rc now d from_sequence (n # ns) p acc =
     (case replay_wal cdc rc now d n p from_sequence of
        (p', Inl err) \<Rightarrow> (p', Inl err)
      | (p', Inr st) \<Rightarrow> replay_files cdc rc now d from_sequence ns p' (add_stats acc st))"

definition replay_all_wals ::
  "'s wal_codec \<Rightarrow> 's replay_codec \<Rightarrow> int \<Rightarrow> wal_dir \<Rightarrow> persistent_layer \<Rightarrow> u64 \<Rightarrow>
   persistent_layer \<times> (wal_error, replay_stats) result"
where
  "replay_all_wals cdc rc now d p from_sequence =
     replay_files cdc rc now d from_sequence (scan_wal_files d) p stats_default"

text \<open>\<open>verify_wal_integrity\<close>: the loop with the number of entries read before.\<close>

function verify_loop :: "'s wal_codec \<Rightarrow> bytes \<Rightarrow> u64 \<Rightarrow> (wal_error, bool) result" where
  "verify_loop cdc bs entry_count =
     (case next_entry cdc bs of
        (Inl err, rest) \<Rightarrow> Inl err
      | (Inr None, rest) \<Rightarrow> Inr True
      | (Inr (Some e), rest) \<Rightarrow>
          (let c = entry_count + 1
           in if 1 < c \<and> entry_seq e < c - 1 then Inr False else verify_loop cdc rest c))"
  by pat_completeness auto
termination
  by (relation "measure (\<lambda>(cdc, bs, c). length bs)") (auto dest: next_entry_shorter [OF sym])

declare verify_loop.simps [simp del]

definition verify_wal_integrity :: "'s wal_codec \<Rightarrow> wal_dir \<Rightarrow> string \<Rightarrow> (wal_error, bool) result" where
  "verify_wal_integrity cdc d name =
     (case map_of d name of None \<Rightarrow> Inl (FileNotFound name) | Some f \<Rightarrow> verify_loop cdc (file_bytes f) 0)"

section \<open>Replay as a fold over the entries of the log\<close>

lemma replay_loop_read:
  assumes "read_entries cdc bs = (es, err)"
  shows "replay_loop cdc rc now from_seq bs s =
     (let s' = fold (replay_entry rc now from_seq) es s
      in (fst s', case err of None \<Rightarrow> Inr (snd s') | Some m \<Rightarrow> Inl m))"
  using assms
proof (induction bs arbitrary: es s rule: measure_induct_rule [of length])
  case (less bs)
  obtain r rest where n: "next_entry cdc bs = (r, rest)" by fastforce
  show ?case
  proof (cases r)
    case (Inl m)
    with n less.prems show ?thesis
      by (auto simp: read_entries.simps [of cdc bs] replay_loop.simps [of cdc rc now from_seq bs] Let_def)
  next
    case (Inr a)
    show ?thesis
    proof (cases a)
      case None
      with n Inr less.prems show ?thesis
        by (auto simp: read_entries.simps [of cdc bs] replay_loop.simps [of cdc rc now from_seq bs] Let_def)
    next
      case (Some e)
      obtain es' where es': "read_entries cdc rest = (es', err)" "es = e # es'"
        using n Inr Some less.prems by (auto simp: read_entries.simps [of cdc bs] split: prod.splits)
      have "length rest < length bs" using next_entry_shorter [OF n] Inr Some by simp
      from less.IH [OF this es'(1)] show ?thesis
        using n Inr Some es'(2) by (simp add: replay_loop.simps [of cdc rc now from_seq bs])
    qed
  qed
qed

lemma replay_entry_stats:
  assumes "replay_entry rc now from_seq e (p, st) = (p', st')"
  shows "entries_replayed st' + entries_skipped st' + errors st' =
     entries_replayed st + entries_skipped st + errors st + 1"
  using assms by (auto simp: replay_entry_def split: if_splits prod.splits sum.splits)

lemma replay_fold_stats:
  "fold (replay_entry rc now from_seq) es (p, st) = (p', st') \<Longrightarrow>
   entries_replayed st' + entries_skipped st' + errors st' =
     entries_replayed st + entries_skipped st + errors st + of_nat (length es)"
proof (induction es arbitrary: p st)
  case (Cons e es)
  obtain p1 st1 where s: "replay_entry rc now from_seq e (p, st) = (p1, st1)" by fastforce
  with Cons.IH [of p1 st1] Cons.prems replay_entry_stats [OF s] show ?case by (simp add: algebra_simps)
qed simp

text \<open>The state of the layer after replaying a list of entries from a sequence number on.\<close>

definition replay_state ::
  "'s replay_codec \<Rightarrow> int \<Rightarrow> u64 \<Rightarrow> 's wal_entry list \<Rightarrow> persistent_layer \<Rightarrow> persistent_layer"
where
  "replay_state rc now from_seq es p =
     fold (\<lambda>e p. fst (apply_operation rc now p (entry_op e))) (filter (\<lambda>e. \<not> entry_seq e < from_seq) es) p"

lemma replay_fold_state:
  "fst (fold (replay_entry rc now from_seq) es (p, st)) = replay_state rc now from_seq es p"
proof (induction es arbitrary: p st)
  case Nil
  show ?case by (simp add: replay_state_def)
next
  case (Cons e es)
  then show ?case
    by (auto simp: replay_state_def replay_entry_def split: prod.splits sum.splits)
qed

lemma replay_state_append:
  "replay_state rc now f (xs @ ys) p = replay_state rc now f ys (replay_state rc now f xs p)"
  by (simp add: replay_state_def)

section \<open>Crashes and recovery\<close>

text \<open>After a crash a file is cut anywhere, but not before the bytes that were synced.\<close>

definition crash_file :: "string \<times> wal_file \<Rightarrow> string \<times> wal_file \<Rightarrow> bool" where
  "crash_file p q \<longleftrightarrow> fst q = fst p \<and>
     (\<exists>k \<in> {file_synced (snd p)..length (file_bytes (snd p))}. file_bytes (snd q) = take k (file_bytes (snd p)))"

definition crash_image :: "wal_dir \<Rightarrow> wal_dir \<Rightarrow> bool" where
  "crash_image d d' \<longleftrightarrow> list_all2 crash_file d d'"

lemma crash_durable:
  assumes "list_all fully_synced d" and "crash_image d d'" and "list_all2 (holds cdc) d ess"
  shows "list_all2 (holds cdc) d' ess \<and> map fst d' = map fst d"
  using assms(2) [unfolded crash_image_def] assms(1,3)
proof (induction d d' arbitrary: ess rule: list_all2_induct)
  case (Cons p d q d')
  then show ?case by (cases ess) (auto simp: crash_file_def fully_synced_def holds_def)
qed simp

lemma wal_log_durable:
  assumes "wal_log cdc w es" and "wal_durable w"
  obtains ess where "list_all2 (holds cdc) (dir w) ess" "concat ess = es"
    "map fst (dir w) = map (\<lambda>i. wal_file_path (of_nat i)) [0..<Suc (unat (file_number w))]"
proof -
  from assms(1) obtain closed cur pend where inv: "wal_inv cdc w closed cur pend"
    and es: "es = concat closed @ cur @ pend" by (auto simp: wal_log_def)
  then have "pend = []" using assms(2) by (auto simp: wal_durable_def wal_inv_def dest: frames_empty)
  from inv obtain old f where d: "dir w = old @ [(wal_file_path (file_number w), f)]"
    and h: "list_all2 (holds cdc) old closed" "frames cdc cur = Inr (file_bytes f)"
    and n: "map fst old = map (\<lambda>i. wal_file_path (of_nat i)) [0..<unat (file_number w)]"
    by (auto simp: wal_inv_def)
  have "list_all2 (holds cdc) (dir w) (closed @ [cur])"
    unfolding d using h by (intro list_all2_appendI) (simp_all add: holds_def)
  then show ?thesis by (rule that) (simp_all add: es d n \<open>pend = []\<close>)
qed

lemma flush_log:
  assumes "wal_log cdc w es"
  shows "wal_log cdc (flush w) es" and "wal_durable (flush w)"
proof -
  from assms obtain closed cur pend where inv: "wal_inv cdc w closed cur pend"
    and es: "es = concat closed @ cur @ pend" by (auto simp: wal_log_def)
  show "wal_durable (flush w)" by (rule flush_inv(2) [OF inv])
  with flush_inv(1) [OF inv] es assms show "wal_log cdc (flush w) es"
    unfolding wal_log_def by (metis append_Nil2 flush_keeps)
qed

lemma names_sorted:
  assumes "map fst d = map (\<lambda>i. wal_file_path (of_nat i)) [0..<Suc n]" and "n < 10 ^ 10"
  shows "scan_wal_files d = map fst d" and "distinct (map fst d)"
proof -
  have u: "unat (of_nat i :: u64) = i" if "i < Suc n" for i
    using that assms(2) by (simp add: unat_of_nat)
  have "wal_file_path (of_nat i) < wal_file_path (of_nat j)" if "i < j" "j < Suc n" for i j
    using that assms(2) u by (intro wal_file_path_less) (simp_all add: word_less_nat_alt)
  then have "sorted_wrt (<) (map (\<lambda>i. wal_file_path (of_nat i)) [0..<Suc n])"
    by (auto simp: sorted_wrt_map sorted_wrt_iff_nth_less simp del: upt_Suc)
  then have s: "sorted_wrt (<) (map fst d)" by (simp only: assms(1))
  then show "distinct (map fst d)" by (simp add: strict_sorted_iff)
  have "is_wal_name n" if "n \<in> set (map fst d)" for n
    using that unfolding assms(1) by (auto simp del: upt_Suc)
  then have "filter is_wal_name (map fst d) = map fst d" by (simp add: filter_id_conv)
  with s show "scan_wal_files d = map fst d"
    by (simp add: scan_wal_files_def sorted_sort_id strict_sorted_iff)
qed

definition stats_total :: "replay_stats \<Rightarrow> u64" where
  "stats_total st = entries_replayed st + entries_skipped st + errors st"

lemma replay_wal_read:
  assumes "map_of d n = Some f" and "read_entries cdc (file_bytes f) = (es, None)"
  shows "\<exists>st. replay_wal cdc rc now d n p from_seq = (replay_state rc now from_seq es p, Inr st) \<and>
     stats_total st = of_nat (length es)"
proof -
  obtain p' st where s: "fold (replay_entry rc now from_seq) es (p, stats_default) = (p', st)" by fastforce
  have "p' = replay_state rc now from_seq es p"
    using replay_fold_state [of rc now from_seq es p stats_default] s by simp
  with replay_fold_stats [OF s] s show ?thesis
    by (simp add: replay_wal_def assms(1) replay_loop_read [OF assms(2)] Let_def stats_default_def stats_total_def)
qed

lemma replay_files_read:
  assumes "list_all2 (\<lambda>n es. \<exists>f. map_of d n = Some f \<and> read_entries cdc (file_bytes f) = (es, None)) ns ess"
  shows "\<exists>st. replay_files cdc rc now d from_seq ns p acc = (replay_state rc now from_seq (concat ess) p, Inr st) \<and>
     stats_total st = stats_total acc + of_nat (length (concat ess))"
  using assms
proof (induction ns ess arbitrary: p acc rule: list_all2_induct)
  case Nil
  show ?case by (simp add: replay_state_def)
next
  case (Cons n ns es ess)
  from Cons.hyps(1) obtain f where "map_of d n = Some f" "read_entries cdc (file_bytes f) = (es, None)" by blast
  from replay_wal_read [OF this, of rc now p from_seq] obtain st where
    st: "replay_wal cdc rc now d n p from_seq = (replay_state rc now from_seq es p, Inr st)"
      "stats_total st = of_nat (length es)" by blast
  from Cons.IH [of "replay_state rc now from_seq es p" "add_stats acc st"] st show ?case
    by (auto simp: replay_state_append stats_total_def add_stats_def algebra_simps)
qed

text \<open>Every file of a durable log is read back whole.\<close>

lemma read_named_files:
  assumes "list_all2 (\<lambda>p es. holds cdc p es \<and> map_of d (fst p) = Some (snd p)) ps ess"
    and "\<forall>e \<in> set (concat ess). codec_roundtrips cdc e \<and> checked cdc e"
  shows "\<exists>ess'. list_all2 (\<lambda>n es. \<exists>f. map_of d n = Some f \<and> read_entries cdc (file_bytes f) = (es, None))
           (map fst ps) ess' \<and> list_all2 (same_text cdc) (concat ess) (concat ess')"
  using assms
proof (induction ps ess rule: list_all2_induct)
  case Nil
  show ?case by (intro exI [of _ "[]"]) simp
next
  case (Cons p ps es ess)
  then obtain ess' where ess': "list_all2 (\<lambda>n es. \<exists>f. map_of d n = Some f \<and> read_entries cdc (file_bytes f) = (es, None))
      (map fst ps) ess'" "list_all2 (same_text cdc) (concat ess) (concat ess')" by auto
  from Cons.hyps(1) Cons.prems have "frames cdc es = Inr (file_bytes (snd p))" 
    "\<forall>e \<in> set es. codec_roundtrips cdc e \<and> checked cdc e" by (auto simp: holds_def)
  from read_entries_frames [OF this(2,1)] obtain es' where
    "read_entries cdc (file_bytes (snd p)) = (es', None)" "list_all2 (same_text cdc) es es'" by blast
  with ess' Cons.hyps(1) show ?case
    by (intro exI [of _ "es' # ess'"]) (auto intro: list_all2_appendI)
qed

lemma read_files:
  assumes "list_all2 (holds cdc) d ess" and "distinct (map fst d)"
    and "\<forall>e \<in> set (concat ess). codec_roundtrips cdc e \<and> checked cdc e"
  shows "\<exists>ess'. list_all2 (\<lambda>n es. \<exists>f. map_of d n = Some f \<and> read_entries cdc (file_bytes f) = (es, None))
           (map fst d) ess' \<and> list_all2 (same_text cdc) (concat ess) (concat ess')"
  using assms by (intro read_named_files) (simp_all add: list_all2_conv_all_nth)

lemma recover_log:
  assumes "wal_log cdc w es" and "wal_durable w" and "length es < 10 ^ 10" and "crash_image (dir w) d'"
  shows "\<exists>es' st. replay_all_wals cdc rc now d' p from_seq = (replay_state rc now from_seq es' p, Inr st) \<and>
     stats_total st = of_nat (length es) \<and> list_all2 (same_text cdc) es es'"
proof -
  from wal_log_durable [OF assms(1,2)] obtain ess where h: "list_all2 (holds cdc) (dir w) ess"
    and es: "concat ess = es" 
    and n: "map fst (dir w) = map (\<lambda>i. wal_file_path (of_nat i)) [0..<Suc (unat (file_number w))]" by blast
  have "list_all fully_synced (dir w)" using assms(2) by (simp add: wal_durable_def)
  from crash_durable [OF this assms(4) h] have h': "list_all2 (holds cdc) d' ess"
    and n': "map fst d' = map (\<lambda>i. wal_file_path (of_nat i)) [0..<Suc (unat (file_number w))]"
    using n by auto
  have "unat (file_number w) < 10 ^ 10" using assms(1,3) by (simp add: wal_log_def)
  note names = names_sorted [OF n' this]
  have "\<forall>e \<in> set (concat ess). codec_roundtrips cdc e \<and> checked cdc e"
    using assms(1) by (simp add: es wal_log_def)
  from read_files [OF h' names(2) this] obtain ess' where
    "list_all2 (\<lambda>n es. \<exists>f. map_of d' n = Some f \<and> read_entries cdc (file_bytes f) = (es, None)) (map fst d') ess'"
    and st: "list_all2 (same_text cdc) es (concat ess')" unfolding es by blast
  from replay_files_read [OF this(1), of rc now from_seq p stats_default] obtain st where
    "replay_all_wals cdc rc now d' p from_seq = (replay_state rc now from_seq (concat ess') p, Inr st)"
    "stats_total st = of_nat (length (concat ess'))"
    by (auto simp: replay_all_wals_def names(1) stats_total_def stats_default_def)
  with st show ?thesis by (intro exI [of _ "concat ess'"] exI [of _ st]) (simp add: list_all2_lengthD)
qed

section \<open>Properties\<close>

text \<open>
  C2. Recovery. Append any operations to a fresh log, with rotation, and crash; with the policy
  \<open>Always\<close> at any time after the last append has returned, with another policy after a
  \<open>flush\<close>. Replaying the directory that is left succeeds: it applies, in order, the decoding of
  every appended operation whose sequence number is at least the one asked for, and the numbers are
  the ones the appends returned. File names sort in the order of the files as long as there are
  fewer than \<open>10 ^ 10\<close> of them.
\<close>

theorem replay_recovers_log:
  assumes "\<forall>(t, op) \<in> set ops. codec_ok cdc t op" and "length ops < 10 ^ 10"
    and "append_all cdc (wal_writer_new cdc cfg []) ops = (w, rs)"
    and "crash_image (dir (if config_fsync_policy cfg = Always then w else flush w)) d'"
  shows "\<exists>es st. rs = map (\<lambda>e. Inr (entry_seq e)) es \<and> 
     map entry_seq es = map of_nat [0..<length ops] \<and>
     list_all2 (\<lambda>(t, op) e. \<exists>e0. entry_op e0 = op \<and> entry_time e0 = t \<and> same_text cdc e0 e) ops es \<and>
     replay_all_wals cdc rc now d' p from_seq = (replay_state rc now from_seq es p, Inr st) \<and>
     stats_total st = of_nat (length ops)"
proof -
  have len: "length ([] :: 'a wal_entry list) + length ops < 2 ^ 64" using assms(2) by simp
  from append_all_log [OF wal_writer_new_log assms(1) len, of cfg] assms(3) obtain es0 where
    rs: "rs = map (\<lambda>i. Inr (of_nat i)) [0..<length ops]" and log: "wal_log cdc w es0"
    and cfg: "config w = config (wal_writer_new cdc cfg [])"
    and ops: "map (\<lambda>e. (entry_time e, entry_op e)) es0 = ops" by auto
  let ?w = "if config_fsync_policy cfg = Always then w else flush w"
  have "config_fsync_policy (config w) = config_fsync_policy cfg"
    by (simp add: cfg wal_writer_new_def Let_def split: prod.splits)
  with log have "wal_log cdc ?w es0" "wal_durable ?w"
    using flush_log [OF log] by (auto simp: wal_log_def)
  moreover have l: "length es0 = length ops" using ops by auto
  ultimately obtain es st where
    r: "replay_all_wals cdc rc now d' p from_seq = (replay_state rc now from_seq es p, Inr st)"
      "stats_total st = of_nat (length ops)" and st: "list_all2 (same_text cdc) es0 es"
    using recover_log [of cdc ?w es0 d' rc now p from_seq] assms(2,4) by auto
  have seq: "map entry_seq es = map of_nat [0..<length ops]"
  proof -
    have "map entry_seq es = map entry_seq es0"
      using st by (induction es0 es rule: list_all2_induct) (auto simp: same_text_def)
    with log l show ?thesis by (simp add: wal_log_def)
  qed
  have "list_all2 (\<lambda>(t, op) e. \<exists>e0. entry_op e0 = op \<and> entry_time e0 = t \<and> same_text cdc e0 e) ops es"
    unfolding ops [symmetric] list_all2_map1 using st by (rule list_all2_mono) auto
  moreover have "rs = map (\<lambda>e. Inr (entry_seq e)) es"
  proof -
    have "map (\<lambda>e. Inr (entry_seq e) :: (wal_error, u64) result) es = map Inr (map entry_seq es)" by simp
    then show ?thesis unfolding seq by (simp add: rs comp_def)
  qed
  ultimately show ?thesis using r seq by blast
qed

text \<open>
  C34. A torn tail stops recovery. When the last frame of a file is cut after its length field
  (which a crash can do to bytes that were not synced), replaying the file applies the entries
  before it and then fails with an I/O error, and \<open>replay_all_wals\<close> passes the error on: the
  readable prefix of the log does not make a successful recovery.
\<close>

theorem torn_tail_fails_replay:
  assumes "\<forall>e \<in> set es. codec_roundtrips cdc e \<and> checked cdc e" and "frames cdc es = Inr bs"
    and "codec_roundtrips cdc e" and "serialize_entry cdc e = Inr b" and "4 \<le> k" and "k < length b"
    and "d = [(wal_file_path 0, \<lparr>file_bytes = bs @ take k b, file_synced = length bs\<rparr>)]"
  shows "\<exists>es'. list_all2 (same_text cdc) es es' \<and>
     replay_all_wals cdc rc now d p from_seq = (replay_state rc now from_seq es' p, Inl IoError)"
proof -
  from assms(3,4) obtain json where b: "b = u32_to_le (of_nat (length json)) @ json @ u32_to_le (entry_checksum e)"
    and j: "length json < 2 ^ 32" by (auto simp: codec_roundtrips_def serialize_entry_def)
  have len: "unat (of_nat (length json) :: u32) = length json" using j by (simp only: unat_of_nat) simp
  have "next_entry cdc (take k b) = (Inl IoError, [])"
    using assms(5,6) by (auto simp: next_entry_def b len Let_def)
  then have t: "read_entries cdc (take k b) = ([], Some IoError)" by (simp add: read_entries.simps)
  from read_entries_then [OF assms(1,2) t] obtain es' where
    es': "read_entries cdc (bs @ take k b) = (es', Some IoError)" "list_all2 (same_text cdc) es es'" by blast
  have "scan_wal_files d = [wal_file_path 0]" by (simp add: assms(7) scan_wal_files_def)
  then have "replay_all_wals cdc rc now d p from_seq = (replay_state rc now from_seq es' p, Inl IoError)"
    by (simp add: replay_all_wals_def replay_wal_def assms(7) replay_loop_read [OF es'(1)] Let_def replay_fold_state)
  with es'(2) show ?thesis by blast
qed

text \<open>
  Replaying one file: the entries from the given sequence number on are applied in the order
  of the file, a failing operation does not stop the replay, and the statistics account for every
  entry of the file.
\<close>

theorem replay_wal_accounts:
  assumes "map_of d name = Some f" and "read_entries cdc (file_bytes f) = (es, None)"
  shows "\<exists>st. replay_wal cdc rc now d name p from_seq =
      (fold (\<lambda>e p. fst (apply_operation rc now p (entry_op e))) (filter (\<lambda>e. from_seq \<le> entry_seq e) es) p, Inr st) \<and>
     entries_replayed st + entries_skipped st + errors st = of_nat (length es)"
  using replay_wal_read [OF assms, of rc now p from_seq]
  by (simp add: replay_state_def stats_total_def not_less)

section \<open>Instances\<close>

definition example_replay_codec :: "unit replay_codec" where
  "example_replay_codec = doc_codec.extend example_doc_codec
     \<lparr>schema_to_vec = (\<lambda>_. Inr []), index_to_vec = (\<lambda>_. Inr [])\<rparr>"

lemma crash_image_refl: "list_all fully_synced d \<Longrightarrow> crash_image d d"
  by (auto simp: crash_image_def crash_file_def fully_synced_def list_all_iff intro!: list.rel_refl_strong)

theorem replay_recovers_log_witness:
  "\<exists>es st. map entry_seq es = [0, 1, 2] \<and>
     replay_all_wals example_wal_codec example_replay_codec 0
       (dir (fst (append_all example_wal_codec (wal_writer_new example_wal_codec example_config []) example_ops)))
       pl_new 0 = (replay_state example_replay_codec 0 0 es pl_new, Inr st) \<and> stats_total st = 3"
proof -
  let ?r = "append_all example_wal_codec (wal_writer_new example_wal_codec example_config []) example_ops"
  have len: "length example_ops = 3" by (simp add: example_ops_def)
  have "length ([] :: unit wal_entry list) + length example_ops < 2 ^ 64" by (simp add: len)
  from append_all_log [OF wal_writer_new_log example_ops_ok this, of example_config]
  have "wal_durable (fst ?r)"
    by (auto simp: wal_log_def wal_writer_new_def Let_def example_config_def split: prod.splits)
  then have "crash_image (dir (fst ?r)) (dir (fst ?r))" by (simp add: wal_durable_def crash_image_refl)
  moreover have "dir (if config_fsync_policy example_config = Always then fst ?r else flush (fst ?r)) = dir (fst ?r)"
    by (simp add: example_config_def)
  ultimately obtain es st where "map entry_seq es = map of_nat [0..<3]"
    "replay_all_wals example_wal_codec example_replay_codec 0 (dir (fst ?r)) pl_new 0 =
      (replay_state example_replay_codec 0 0 es pl_new, Inr st)" "stats_total st = 3"
    using replay_recovers_log [OF example_ops_ok _ prod.collapse [symmetric],
        of example_config "dir (fst ?r)" example_replay_codec 0 pl_new 0]
    by (auto simp: len)
  then show ?thesis by (intro exI [of _ es] exI [of _ st]) (simp add: upt_rec)
qed

definition tiny_entry :: "u64 \<Rightarrow> unit wal_entry" where
  "tiny_entry s = \<lparr>entry_seq = s, entry_time = 0, entry_op = DropCollection ''a'', entry_checksum = 0\<rparr>"

lemma tiny_entry_good:
  "s < 256 \<Longrightarrow> codec_roundtrips tiny_codec (tiny_entry s) \<and> checked tiny_codec (tiny_entry s)"
proof -
  assume s: "s < 256"
  have "(ucast (ucast s :: u8) :: u64) = s"
  proof -
    have "unat s < 256" using s by (simp add: word_less_nat_alt)
    then have "unat (ucast (ucast s :: u8) :: u64) = unat s"
      by (simp add: unsigned_ucast_eq unsigned_take_bit_eq take_bit_nat_eq_self)
    then show ?thesis by (simp only: word_unat_eq_iff)
  qed
  then show ?thesis
    by (simp add: codec_roundtrips_def checked_def same_text_def tiny_codec_def tiny_entry_def compute_checksum_def)
qed

lemma u32_to_le_small: "u32_to_le 0 = [0, 0, 0, 0]" "u32_to_le 1 = [1, 0, 0, 0]"
  by code_simp+

lemma tiny_serialize: "serialize_entry tiny_codec (tiny_entry s) = Inr (file_bytes (tiny_file (ucast s)))"
  by (simp add: serialize_entry_def tiny_codec_def tiny_entry_def tiny_file_def u32_to_le_small)

theorem torn_tail_fails_replay_witness:
  "\<exists>es'. list_all2 (same_text tiny_codec) [tiny_entry 5] es' \<and>
     replay_all_wals tiny_codec example_replay_codec 0
       [(wal_file_path 0, \<lparr>file_bytes = [1, 0, 0, 0, 5, 0, 0, 0, 0, 1, 0, 0, 0, 6], file_synced = 9\<rparr>)] pl_new 0 =
     (replay_state example_replay_codec 0 0 es' pl_new, Inl IoError)"
  using torn_tail_fails_replay [of "[tiny_entry 5]" tiny_codec "file_bytes (tiny_file 5)" "tiny_entry 6"
      "file_bytes (tiny_file 6)" 5 _ example_replay_codec 0 pl_new 0]
  by (simp add: tiny_entry_good tiny_serialize) (simp add: tiny_file_def eval_nat_numeral)

theorem replay_wal_accounts_witness:
  "\<exists>st. replay_wal tiny_codec example_replay_codec 0 tiny_dir (wal_file_path 1) pl_new 6 =
      (fst (apply_operation example_replay_codec 0 pl_new (DropCollection ''a'')), Inr st) \<and>
     entries_replayed st + entries_skipped st + errors st = 1"
proof -
  have "map_of tiny_dir (wal_file_path 1) = Some (tiny_file 6)" by (simp add: tiny_dir_def wal_file_path_inj)
  from replay_wal_accounts [OF this tiny_file_entries, of example_replay_codec 0 pl_new 6]
  show ?thesis by simp
qed

end
