(* ===== verification/Kv_Table.thy ===== *)
theory Kv_Table
  imports Arena
begin

text \<open>
  The open-addressing hash table of the key-value store (\<open>veddb-core/src/kv/hash_table.rs\<close>):
  entries hold a hash (0 is an empty slot, 1 a tombstone), a version and the place of the key and
  the value in the arena. The table and the arena it points to are passed and returned. The probe
  loop of \<open>find_entry\<close> has no bound: it is a partial function, and \<open>None\<close> is a call that never
  returns; the operations that call it have the same outer option. Each operation runs under the
  lock of its shard, so a call is one step.
\<close>

section \<open>State\<close>

datatype kv_error = KeyTooLarge | ValueTooLarge | OutOfMemory | VersionMismatch | NotFound

record kv_entry =
  e_hash :: u64
  e_version :: u64
  e_key_len :: u32
  e_val_len :: u32
  e_data_offset :: u64

definition EMPTY_HASH :: u64 where
  "EMPTY_HASH = 0"

definition TOMBSTONE_HASH :: u64 where
  "TOMBSTONE_HASH = 1"

definition entry_new :: kv_entry where
  "entry_new = \<lparr>e_hash = EMPTY_HASH, e_version = 0, e_key_len = 0, e_val_len = 0, e_data_offset = 0\<rparr>"

record hash_table =
  ht_capacity :: u64
  ht_mask :: u64
  ht_size :: u64
  ht_entries :: "kv_entry list"

definition ht_init :: "u64 \<Rightarrow> hash_table option" where
  "ht_init cap =
     (if is_power_of_two cap
      then Some \<lparr>ht_capacity = cap, ht_mask = cap - 1, ht_size = 0, ht_entries = replicate (unat cap) entry_new\<rparr>
      else None)"

section \<open>Hashing and probing\<close>

text \<open>FNV-1a with 64-bit wrap-around; the two reserved values are mapped to 2.\<close>

definition fnv1a :: "bytes \<Rightarrow> u64" where
  "fnv1a key = foldl (\<lambda>h b. (h XOR ucast b) * 0x100000001b3) 0xcbf29ce484222325 key"

definition hash_key :: "bytes \<Rightarrow> u64" where
  "hash_key key = (let h = fnv1a key in if h \<le> TOMBSTONE_HASH then 2 else h)"

definition keys_equal :: "arena \<Rightarrow> kv_entry \<Rightarrow> bytes \<Rightarrow> bool" where
  "keys_equal a e key \<longleftrightarrow>
     unat (e_key_len e) = length key \<and> read_bytes a (e_data_offset e) (unat (e_key_len e)) = key"

definition entry_at :: "hash_table \<Rightarrow> u64 \<Rightarrow> kv_entry" where
  "entry_at t index = ht_entries t ! unat index"

partial_function (option) find_entry ::
  "hash_table \<Rightarrow> arena \<Rightarrow> bytes \<Rightarrow> u64 \<Rightarrow> u64 \<Rightarrow> (u64 \<times> bool) option"
where
  [code]: "find_entry t a key h index =
     (if e_hash (entry_at t index) = EMPTY_HASH then Some (index, False)
      else if e_hash (entry_at t index) = h \<and> keys_equal a (entry_at t index) key then Some (index, True)
      else find_entry t a key h ((index + 1) AND ht_mask t))"

definition lookup :: "hash_table \<Rightarrow> arena \<Rightarrow> bytes \<Rightarrow> (u64 \<times> bool) option" where
  "lookup t a key = find_entry t a key (hash_key key) (hash_key key AND ht_mask t)"

section \<open>Operations\<close>

definition set_entry :: "hash_table \<Rightarrow> u64 \<Rightarrow> kv_entry \<Rightarrow> hash_table" where
  "set_entry t index e = t\<lparr>ht_entries := (ht_entries t)[unat index := e]\<rparr>"

definition get_value :: "arena \<Rightarrow> kv_entry \<Rightarrow> bytes" where
  "get_value a e = read_bytes a (e_data_offset e + ucast (e_key_len e)) (unat (e_val_len e))"

definition put_data :: "arena \<Rightarrow> u64 \<Rightarrow> bytes \<Rightarrow> bytes \<Rightarrow> arena" where
  "put_data a off key val =
     a\<lparr>mem := write_bytes (write_bytes (mem a) off key) (off + of_nat (length key)) val\<rparr>"

definition entry_size :: "kv_entry \<Rightarrow> nat" where
  "entry_size e = unat (e_key_len e) + unat (e_val_len e)"

text \<open>
  The place for new data of an entry that exists: the old block when it is large enough, else the
  old block is freed and another one allocated. The offset 0 is the failure of the arena.
\<close>

definition replace_block :: "arena \<Rightarrow> kv_entry \<Rightarrow> nat \<Rightarrow> arena \<times> u64 option" where
  "replace_block a e new_size =
     (if entry_size e < new_size
      then let (a2, off) = allocate (free a (e_data_offset e) (of_nat (entry_size e))) (of_nat new_size) 8
           in (a2, if off = 0 then None else Some off)
      else (a, Some (e_data_offset e)))"

definition ht_insert ::
  "hash_table \<Rightarrow> arena \<Rightarrow> bytes \<Rightarrow> bytes \<Rightarrow> (hash_table \<times> arena \<times> (kv_error, bool) result) option"
where
  "ht_insert t a key val =
     (if 2 ^ 32 - 1 < length key \<or> 2 ^ 32 - 1 < length val then Some (t, a, Inl KeyTooLarge)
      else case lookup t a key of
        None \<Rightarrow> None
      | Some (index, True) \<Rightarrow>
          (case replace_block a (entry_at t index) (length key + length val) of
             (a2, None) \<Rightarrow> Some (t, a2, Inl OutOfMemory)
           | (a2, Some off) \<Rightarrow>
               Some (set_entry t index ((entry_at t index)\<lparr>e_data_offset := off,
                       e_key_len := of_nat (length key), e_val_len := of_nat (length val)\<rparr>),
                     put_data a2 off key val, Inr False))
      | Some (index, False) \<Rightarrow>
          (let (a2, off) = allocate a (of_nat (length key + length val)) 8
           in if off = 0 then Some (t, a2, Inl OutOfMemory)
              else Some ((set_entry t index \<lparr>e_hash = hash_key key, e_version = 1,
                            e_key_len = of_nat (length key), e_val_len = of_nat (length val),
                            e_data_offset = off\<rparr>)\<lparr>ht_size := ht_size t + 1\<rparr>,
                         put_data a2 off key val, Inr True)))"

definition ht_get :: "hash_table \<Rightarrow> arena \<Rightarrow> bytes \<Rightarrow> bytes option option" where
  "ht_get t a key =
     (case lookup t a key of
        None \<Rightarrow> None
      | Some (index, is_match) \<Rightarrow> Some (if is_match then Some (get_value a (entry_at t index)) else None))"

definition ht_remove :: "hash_table \<Rightarrow> arena \<Rightarrow> bytes \<Rightarrow> (hash_table \<times> arena \<times> nat option) option" where
  "ht_remove t a key =
     (case lookup t a key of
        None \<Rightarrow> None
      | Some (index, False) \<Rightarrow> Some (t, a, None)
      | Some (index, True) \<Rightarrow>
          (let e = entry_at t index; sz = unat (e_key_len e + e_val_len e)
           in if e_hash e = TOMBSTONE_HASH then Some (t, a, None)
              else Some ((set_entry t index (e\<lparr>e_hash := TOMBSTONE_HASH, e_key_len := 0, e_val_len := 0,
                            e_data_offset := 0\<rparr>))\<lparr>ht_size := ht_size t - 1\<rparr>,
                         free a (e_data_offset e) (of_nat sz), Some sz)))"

definition ht_cas ::
  "hash_table \<Rightarrow> arena \<Rightarrow> bytes \<Rightarrow> u64 \<Rightarrow> bytes \<Rightarrow> (hash_table \<times> arena \<times> (kv_error, u64) result) option"
where
  "ht_cas t a key expected_version new_value =
     (case lookup t a key of
        None \<Rightarrow> None
      | Some (index, False) \<Rightarrow> Some (t, a, Inl NotFound)
      | Some (index, True) \<Rightarrow>
          (let e = entry_at t index
           in if e_version e \<noteq> expected_version then Some (t, a, Inl VersionMismatch)
              else case replace_block a e (unat (e_key_len e) + length new_value) of
                (a2, None) \<Rightarrow> Some (t, a2, Inl OutOfMemory)
              | (a2, Some off) \<Rightarrow>
                  Some (set_entry t index (e\<lparr>e_data_offset := off, e_val_len := of_nat (length new_value),
                          e_version := e_version e + 1\<rparr>),
                        put_data a2 off key new_value, Inr (e_version e + 1))))"

section \<open>The probe sequence\<close>

definition ht_wf :: "hash_table \<Rightarrow> bool" where
  "ht_wf t \<longleftrightarrow> is_power_of_two (ht_capacity t) \<and> ht_mask t = ht_capacity t - 1 \<and>
     length (ht_entries t) = unat (ht_capacity t)"

lemma ht_wf_pos: "ht_wf t \<Longrightarrow> 0 < length (ht_entries t)"
  by (simp add: ht_wf_def power_of_two_pos)

lemma ht_wf_small: "ht_wf t \<Longrightarrow> length (ht_entries t) < 2 ^ 64"
  using unsigned_less [of "ht_capacity t", where 'a = nat] by (simp add: ht_wf_def)

lemma probe_start: "ht_wf t \<Longrightarrow> unat (h AND ht_mask t) = unat h mod length (ht_entries t)"
  by (simp add: ht_wf_def unat_and_capacity)

lemma probe_next:
  assumes "ht_wf t" and "unat i < length (ht_entries t)"
  shows "unat ((i + 1) AND ht_mask t) = Suc (unat i) mod length (ht_entries t)"
proof (cases "Suc (unat i) < 2 ^ 64")
  case True
  then show ?thesis using probe_start [OF assms(1), of "i + 1"] unat_u64_Suc [OF True] by simp
next
  case False
  then show ?thesis using assms(2) ht_wf_small [OF assms(1)] by simp
qed

text \<open>A probe for a key stops at an empty slot or at the entry of the key.\<close>

definition stops :: "hash_table \<Rightarrow> arena \<Rightarrow> bytes \<Rightarrow> u64 \<Rightarrow> nat \<Rightarrow> bool" where
  "stops t a key h j \<longleftrightarrow> e_hash (ht_entries t ! j) = EMPTY_HASH \<or>
     (e_hash (ht_entries t ! j) = h \<and> keys_equal a (ht_entries t ! j) key)"

lemma find_entry_at:
  assumes "ht_wf t" and "unat i < length (ht_entries t)"
    and "\<forall>k < d. \<not> stops t a key h ((unat i + k) mod length (ht_entries t))"
    and "stops t a key h ((unat i + d) mod length (ht_entries t))"
  shows "find_entry t a key h i = Some (of_nat ((unat i + d) mod length (ht_entries t)),
     e_hash (ht_entries t ! ((unat i + d) mod length (ht_entries t))) \<noteq> EMPTY_HASH)"
  using assms(2-4)
proof (induction d arbitrary: i)
  case 0
  then show ?case
    by (subst find_entry.simps) (auto simp: stops_def entry_at_def)
next
  case (Suc d)
  let ?n = "length (ht_entries t)" and ?i = "(i + 1) AND ht_mask t"
  have next_i: "unat ?i = Suc (unat i) mod ?n" by (rule probe_next [OF assms(1) Suc.prems(1)])
  have shift: "(unat ?i + k) mod ?n = (unat i + Suc k) mod ?n" for k
    by (simp add: next_i mod_add_left_eq)
  have "\<not> stops t a key h (unat i)" using Suc.prems(1,2) by (metis add_0_right mod_less zero_less_Suc)
  then have "find_entry t a key h i = find_entry t a key h ?i"
    by (subst find_entry.simps) (auto simp: stops_def entry_at_def)
  also have "\<dots> = Some (of_nat ((unat ?i + d) mod ?n), e_hash (ht_entries t ! ((unat ?i + d) mod ?n)) \<noteq> EMPTY_HASH)"
  proof (rule Suc.IH)
    show "unat ?i < ?n" using next_i ht_wf_pos [OF assms(1)] by simp
    show "\<forall>k < d. \<not> stops t a key h ((unat ?i + k) mod ?n)" using Suc.prems(2) shift by auto
    show "stops t a key h ((unat ?i + d) mod ?n)" using Suc.prems(3) shift by simp
  qed
  finally show ?case by (simp only: shift)
qed

lemma find_entry_stops:
  assumes "find_entry t a key h i = Some r"
  shows "ht_wf t \<longrightarrow> unat i < length (ht_entries t) \<longrightarrow> (\<exists>j < length (ht_entries t). stops t a key h j)"
proof (rule find_entry.raw_induct [OF _ assms], intro impI)
  fix f and t :: hash_table and a key h i r
  assume IH: "\<And>t a key h i y. f t a key h i = Some y \<Longrightarrow>
      ht_wf t \<longrightarrow> unat i < length (ht_entries t) \<longrightarrow> (\<exists>j < length (ht_entries t). stops t a key h j)"
    and step: "(if e_hash (entry_at t i) = EMPTY_HASH then Some (i, False)
       else if e_hash (entry_at t i) = h \<and> keys_equal a (entry_at t i) key then Some (i, True)
       else f t a key h ((i + 1) AND ht_mask t)) = Some r"
    and wf: "ht_wf t" and i: "unat i < length (ht_entries t)"
  show "\<exists>j < length (ht_entries t). stops t a key h j"
  proof (cases "stops t a key h (unat i)")
    case False
    with step have "f t a key h ((i + 1) AND ht_mask t) = Some r"
      by (auto simp: stops_def entry_at_def split: if_splits)
    moreover have "unat ((i + 1) AND ht_mask t) < length (ht_entries t)"
      using probe_next [OF wf i] ht_wf_pos [OF wf] by simp
    ultimately show ?thesis using IH wf by blast
  qed (use i in blast)
qed

text \<open>A slot that stops the probe is met within one round.\<close>

lemma first_stop:
  fixes s n j :: nat
  assumes "s < n" and "j < n" and "P j"
  obtains d where "d < n" "P ((s + d) mod n)" "\<forall>k < d. \<not> P ((s + k) mod n)"
proof -
  have "\<exists>d. d < n \<and> P ((s + d) mod n)"
  proof (cases "s \<le> j")
    case True
    then show ?thesis using assms by (intro exI [of _ "j - s"]) simp
  next
    case False
    then have "(s + (n - s + j)) mod n = j" using assms by simp
    then show ?thesis using assms False by (intro exI [of _ "n - s + j"]) simp
  qed
  then obtain d0 where d0: "d0 < n \<and> P ((s + d0) mod n)" ..
  define d where "d = (LEAST d. d < n \<and> P ((s + d) mod n))"
  have "d < n \<and> P ((s + d) mod n)" unfolding d_def by (rule LeastI [of _ d0]) (rule d0)
  moreover have "\<forall>k < d. \<not> P ((s + k) mod n)"
    using not_less_Least [of _ "\<lambda>d. d < n \<and> P ((s + d) mod n)"] \<open>d < n \<and> P ((s + d) mod n)\<close>
    by (metis d_def order_less_trans)
  ultimately show ?thesis using that by blast
qed

lemma find_entry_iff:
  assumes "ht_wf t" and "unat i < length (ht_entries t)"
  shows "(\<exists>r. find_entry t a key h i = Some r) \<longleftrightarrow> (\<exists>j < length (ht_entries t). stops t a key h j)"
proof
  assume "\<exists>j < length (ht_entries t). stops t a key h j"
  then obtain j where "j < length (ht_entries t)" "stops t a key h j" by blast
  from first_stop [OF assms(2) this(1), of "stops t a key h"] this(2)
  show "\<exists>r. find_entry t a key h i = Some r" using find_entry_at [OF assms] by metis
qed (use find_entry_stops assms in blast)

lemma lookup_iff:
  assumes "ht_wf t"
  shows "lookup t a key \<noteq> None \<longleftrightarrow> (\<exists>j < length (ht_entries t). stops t a key (hash_key key) j)"
proof -
  have "unat (hash_key key AND ht_mask t) < length (ht_entries t)"
    using probe_start [OF assms, of "hash_key key"] ht_wf_pos [OF assms] by simp
  from find_entry_iff [OF assms this, of a key "hash_key key"] show ?thesis by (auto simp: lookup_def)
qed

section \<open>The table as a map\<close>

definition live :: "kv_entry \<Rightarrow> bool" where
  "live e \<longleftrightarrow> e_hash e \<noteq> EMPTY_HASH \<and> e_hash e \<noteq> TOMBSTONE_HASH"

definition entry_key :: "arena \<Rightarrow> kv_entry \<Rightarrow> bytes" where
  "entry_key a e = read_bytes a (e_data_offset e) (unat (e_key_len e))"

definition home :: "hash_table \<Rightarrow> bytes \<Rightarrow> nat" where
  "home t key = unat (hash_key key) mod length (ht_entries t)"

text \<open>No empty slot lies between the home slot of a stored key and its entry.\<close>

definition reachable :: "hash_table \<Rightarrow> bytes \<Rightarrow> nat \<Rightarrow> bool" where
  "reachable t key j \<longleftrightarrow>
     (\<forall>d < length (ht_entries t). (home t key + d) mod length (ht_entries t) = j \<longrightarrow>
        (\<forall>k < d. e_hash (ht_entries t ! ((home t key + k) mod length (ht_entries t))) \<noteq> EMPTY_HASH))"

definition kv_inv :: "hash_table \<Rightarrow> arena \<Rightarrow> bool" where
  "kv_inv t a \<longleftrightarrow> ht_wf t \<and>
     (\<forall>j < length (ht_entries t). live (ht_entries t ! j) \<longrightarrow>
        e_hash (ht_entries t ! j) = hash_key (entry_key a (ht_entries t ! j)) \<and>
        reachable t (entry_key a (ht_entries t ! j)) j) \<and>
     (\<forall>i < length (ht_entries t). \<forall>j < length (ht_entries t).
        live (ht_entries t ! i) \<and> live (ht_entries t ! j) \<and>
        entry_key a (ht_entries t ! i) = entry_key a (ht_entries t ! j) \<longrightarrow> i = j)"

text \<open>Slot \<open>j\<close> holds the key.\<close>

definition at_slot :: "hash_table \<Rightarrow> arena \<Rightarrow> bytes \<Rightarrow> nat \<Rightarrow> bool" where
  "at_slot t a key j \<longleftrightarrow> j < length (ht_entries t) \<and> live (ht_entries t ! j) \<and> entry_key a (ht_entries t ! j) = key"

lemma length_read_bytes [simp]: "length (read_bytes a off n) = n"
  by (simp add: read_bytes_def)

lemma keys_equal_iff: "keys_equal a e key \<longleftrightarrow> entry_key a e = key"
  by (auto simp: keys_equal_def entry_key_def)

lemma hash_key_reserved: "hash_key key \<noteq> EMPTY_HASH" "hash_key key \<noteq> TOMBSTONE_HASH"
  by (auto simp: hash_key_def Let_def EMPTY_HASH_def TOMBSTONE_HASH_def)

lemma kv_inv_entry:
  assumes "kv_inv t a" and "j < length (ht_entries t)" and "live (ht_entries t ! j)"
  shows "e_hash (ht_entries t ! j) = hash_key (entry_key a (ht_entries t ! j))"
    and "reachable t (entry_key a (ht_entries t ! j)) j"
  using assms by (auto simp: kv_inv_def)

lemma stops_iff:
  assumes "kv_inv t a" and "j < length (ht_entries t)"
  shows "stops t a key (hash_key key) j \<longleftrightarrow> e_hash (ht_entries t ! j) = EMPTY_HASH \<or> at_slot t a key j"
proof (cases "live (ht_entries t ! j)")
  case True
  with kv_inv_entry(1) [OF assms True] assms(2) show ?thesis
    by (metis stops_def at_slot_def keys_equal_iff)
next
  case False
  with hash_key_reserved [of key] show ?thesis by (auto simp: stops_def at_slot_def live_def)
qed

lemma at_slot_unique: "kv_inv t a \<Longrightarrow> at_slot t a key i \<Longrightarrow> at_slot t a key j \<Longrightarrow> i = j"
  by (auto simp: kv_inv_def at_slot_def)

lemma home_less: "ht_wf t \<Longrightarrow> home t key < length (ht_entries t)"
  using ht_wf_pos by (simp add: home_def)

lemma probe_inj:
  fixes s n k d :: nat
  assumes "k < n" and "d < n" and "(s + k) mod n = (s + d) mod n"
  shows "k = d"
proof (rule ccontr)
  have no: False if "x < y" "y < n" "(s + x) mod n = (s + y) mod n" for x y
  proof -
    have "n dvd (s + y) - (s + x)" using that mod_eq_dvd_iff_nat [of "s + x" "s + y" n] by simp
    with that show False using nat_dvd_not_less [of "y - x" n] by simp
  qed
  assume "k \<noteq> d"
  then show False using no [of k d] no [of d k] assms by linarith
qed

lemma lookup_first:
  assumes "kv_inv t a" and "d < length (ht_entries t)"
    and "stops t a key (hash_key key) ((home t key + d) mod length (ht_entries t))"
    and "\<forall>k < d. \<not> stops t a key (hash_key key) ((home t key + k) mod length (ht_entries t))"
  shows "lookup t a key = Some (of_nat ((home t key + d) mod length (ht_entries t)),
     e_hash (ht_entries t ! ((home t key + d) mod length (ht_entries t))) \<noteq> EMPTY_HASH)"
proof -
  have wf: "ht_wf t" using assms(1) by (simp add: kv_inv_def)
  have h: "unat (hash_key key AND ht_mask t) = home t key" by (simp add: probe_start [OF wf] home_def)
  have "unat (hash_key key AND ht_mask t) < length (ht_entries t)"
    using ht_wf_pos [OF wf] by (simp add: h home_def)
  from find_entry_at [OF wf this, of d a key "hash_key key"] assms(3,4) show ?thesis
    by (simp add: lookup_def h)
qed

lemma lookup_found:
  assumes "kv_inv t a" and "at_slot t a key j"
  shows "lookup t a key = Some (of_nat j, True)"
proof -
  let ?n = "length (ht_entries t)"
  have j: "j < ?n" and e: "e_hash (ht_entries t ! j) \<noteq> EMPTY_HASH" and r: "reachable t key j"
    using assms by (auto simp: kv_inv_def at_slot_def live_def)
  have home: "home t key < ?n" using assms(1) by (simp add: home_less kv_inv_def)
  obtain d where d: "d < ?n" "(home t key + d) mod ?n = j"
    by (rule first_stop [OF home j, of "\<lambda>i. i = j"]) auto
  have "\<not> stops t a key (hash_key key) ((home t key + k) mod ?n)" if "k < d" for k
  proof
    assume s: "stops t a key (hash_key key) ((home t key + k) mod ?n)"
    have k: "(home t key + k) mod ?n < ?n" using j by (intro mod_less_divisor) linarith
    from s stops_iff [OF assms(1) k, of key] r d that
    have "at_slot t a key ((home t key + k) mod ?n)" by (auto simp: reachable_def)
    with at_slot_unique [OF assms] have "(home t key + k) mod ?n = (home t key + d) mod ?n" using d by simp
    moreover have "k < ?n" using that d by simp
    ultimately have "k = d" using d(1) by (metis probe_inj)
    with that show False by simp
  qed
  then show ?thesis
    using lookup_first [OF assms(1) d(1), of key] d(2) stops_iff [OF assms(1) j, of key] assms(2) e by auto
qed

lemma lookup_absent:
  assumes "kv_inv t a" and "\<forall>j. \<not> at_slot t a key j" and "lookup t a key = Some (i, m)"
  shows "\<not> m" and "unat i < length (ht_entries t)" and "e_hash (ht_entries t ! unat i) = EMPTY_HASH"
    and "reachable t key (unat i)"
proof -
  let ?n = "length (ht_entries t)" and ?stops = "stops t a key (hash_key key)"
  have wf: "ht_wf t" using assms(1) by (simp add: kv_inv_def)
  from lookup_iff [OF wf, of a key] assms(3) obtain j where j: "j < ?n" "?stops j" by auto
  obtain d where d: "d < ?n" "?stops ((home t key + d) mod ?n)"
    "\<forall>k < d. \<not> ?stops ((home t key + k) mod ?n)"
    by (rule first_stop [OF home_less [OF wf] j(1), of ?stops]) (use j in auto)
  let ?j = "(home t key + d) mod ?n"
  have jn: "?j < ?n" using ht_wf_pos [OF wf] by simp
  have i: "unat i = ?j" "m = (e_hash (ht_entries t ! ?j) \<noteq> EMPTY_HASH)"
    using lookup_first [OF assms(1) d] assms(3) jn ht_wf_small [OF wf] by (auto simp: unat_of_nat)
  have empty: "e_hash (ht_entries t ! ?j) = EMPTY_HASH" using d(2) stops_iff [OF assms(1) jn] assms(2) by auto
  show "\<not> m" "unat i < ?n" "e_hash (ht_entries t ! unat i) = EMPTY_HASH" using i empty jn by simp_all
  have "e_hash (ht_entries t ! ((home t key + k) mod ?n)) \<noteq> EMPTY_HASH" if "k < d" for k
    using that d(3) by (auto simp: stops_def)
  then show "reachable t key (unat i)"
    unfolding reachable_def i(1) using probe_inj [OF _ d(1)] by metis
qed

text \<open>What the map holds: \<open>stored t a key v\<close>.\<close>

definition stored :: "hash_table \<Rightarrow> arena \<Rightarrow> bytes \<Rightarrow> bytes \<Rightarrow> bool" where
  "stored t a key v \<longleftrightarrow> (\<exists>j. at_slot t a key j \<and> get_value a (ht_entries t ! j) = v)"

lemma unat_slot: "ht_wf t \<Longrightarrow> j < length (ht_entries t) \<Longrightarrow> unat (of_nat j :: u64) = j"
  using ht_wf_small [of t] by (simp add: unat_of_nat)

lemma get_stored:
  assumes "kv_inv t a"
  shows "ht_get t a key = Some (Some v) \<longleftrightarrow> stored t a key v"
proof (cases "\<exists>j. at_slot t a key j")
  case True
  then obtain j where j: "at_slot t a key j" by blast
  then have "unat (of_nat j :: u64) = j" using assms unat_slot by (auto simp: kv_inv_def at_slot_def)
  then show ?thesis
    using lookup_found [OF assms j] j at_slot_unique [OF assms] by (auto simp: ht_get_def entry_at_def stored_def)
next
  case False
  then have "\<not> stored t a key v" by (auto simp: stored_def)
  moreover have "ht_get t a key \<noteq> Some (Some v)"
    using lookup_absent(1) [OF assms] False by (auto simp: ht_get_def split: option.splits)
  ultimately show ?thesis by simp
qed

section \<open>Data in the arena\<close>

lemma write_bytes_append:
  "write_bytes m off (xs @ ys) = write_bytes (write_bytes m off xs) (off + of_nat (length xs)) ys"
  by (induction xs arbitrary: m off) (simp_all add: algebra_simps)

lemma read_bytes_add:
  "read_bytes a off (m + n) = read_bytes a off m @ read_bytes a (off + of_nat m) n"
  by (induction n) (simp_all add: read_bytes_def add.assoc)

definition entry_data :: "arena \<Rightarrow> kv_entry \<Rightarrow> bytes" where
  "entry_data a e = read_bytes a (e_data_offset e) (entry_size e)"

lemma entry_data_split: "entry_data a e = entry_key a e @ get_value a e"
proof -
  have "(ucast (e_key_len e) :: u64) = of_nat (unat (e_key_len e))" by simp
  then show ?thesis by (simp only: entry_data_def entry_size_def read_bytes_add entry_key_def get_value_def)
qed

lemma entry_data_eq:
  assumes "entry_data a' e = entry_data a e"
  shows "entry_key a' e = entry_key a e" and "get_value a' e = get_value a e"
  using assms by (simp_all add: entry_data_split entry_key_def)

lemma put_data_read:
  assumes "length key < 2 ^ 32" and "length val < 2 ^ 32"
    and "e_data_offset e = off" and "e_key_len e = of_nat (length key)" and "e_val_len e = of_nat (length val)"
  shows "entry_key (put_data a off key val) e = key" and "get_value (put_data a off key val) e = val"
proof -
  have len: "unat (e_key_len e) = length key" "unat (e_val_len e) = length val"
    using assms by (simp_all add: unat_of_nat)
  have "entry_data (put_data a off key val) e = take (length key + length val) (key @ val)"
    unfolding entry_data_def read_bytes_def entry_size_def len assms(3)
    using read_written_prefix [of "length key + length val" "key @ val" "mem a" off] assms(1,2)
    by (simp add: put_data_def write_bytes_append)
  then show "entry_key (put_data a off key val) e = key" "get_value (put_data a off key val) e = val"
    by (simp_all add: entry_data_split entry_key_def len)
qed

section \<open>Writing one entry\<close>

definition other_data_kept :: "hash_table \<Rightarrow> arena \<Rightarrow> arena \<Rightarrow> bytes \<Rightarrow> bool" where
  "other_data_kept t a a' key \<longleftrightarrow>
     (\<forall>e \<in> set (ht_entries t). live e \<and> entry_key a e \<noteq> key \<longrightarrow> entry_data a' e = entry_data a e)"

lemma reachable_mono:
  assumes "reachable t key j" and "length (ht_entries t') = length (ht_entries t)"
    and "\<forall>j < length (ht_entries t). e_hash (ht_entries t ! j) \<noteq> EMPTY_HASH \<longrightarrow> e_hash (ht_entries t' ! j) \<noteq> EMPTY_HASH"
  shows "reachable t' key j"
  unfolding reachable_def assms(2)
proof (intro allI impI)
  fix d k
  assume a: "d < length (ht_entries t)" "(home t' key + d) mod length (ht_entries t) = j" "k < d"
  have h: "home t' key = home t key" by (simp add: home_def assms(2))
  have "e_hash (ht_entries t ! ((home t key + k) mod length (ht_entries t))) \<noteq> EMPTY_HASH"
    using assms(1) a h by (auto simp: reachable_def)
  moreover have "(home t key + k) mod length (ht_entries t) < length (ht_entries t)"
    using a by (intro mod_less_divisor) linarith
  ultimately show "e_hash (ht_entries t' ! ((home t' key + k) mod length (ht_entries t))) \<noteq> EMPTY_HASH"
    using assms(3) h by simp
qed

lemma put_entry:
  assumes inv: "kv_inv t a" and i: "i < length (ht_entries t)"
    and t': "ht_entries t' = (ht_entries t)[i := e']" "ht_mask t' = ht_mask t" "ht_capacity t' = ht_capacity t"
    and e': "e_hash e' = hash_key key" "entry_key a' e' = key" "get_value a' e' = v"
    and place: "at_slot t a key i \<or>
      ((\<forall>j. \<not> at_slot t a key j) \<and> e_hash (ht_entries t ! i) = EMPTY_HASH \<and> reachable t key i)"
    and kept: "other_data_kept t a a' key"
  shows "kv_inv t' a'" and "stored t' a' k x \<longleftrightarrow> (if k = key then x = v else stored t a k x)"
proof -
  let ?n = "length (ht_entries t)"
  have n: "length (ht_entries t') = ?n" by (simp add: t')
  have live': "live e'" using hash_key_reserved by (simp add: live_def e')
  have no_key: "entry_key a (ht_entries t ! j) \<noteq> key" if "j < ?n" "j \<noteq> i" "live (ht_entries t ! j)" for j
    using that place at_slot_unique [OF inv, of key] by (auto simp: at_slot_def)
  have data: "entry_data a' (ht_entries t ! j) = entry_data a (ht_entries t ! j)"
    if "j < ?n" "j \<noteq> i" "live (ht_entries t ! j)" for j
    using kept no_key [OF that] that by (auto simp: other_data_kept_def)
  have r: "reachable t' k' j" if "reachable t k' j" for k' j
    by (rule reachable_mono [OF that n]) (use i live' in \<open>auto simp: t' nth_list_update live_def\<close>)
  have ri: "reachable t key i" using place kv_inv_entry(2) [OF inv] by (auto simp: at_slot_def)
  have slot: "at_slot t' a' k' j \<longleftrightarrow> (if j = i then k' = key else k' \<noteq> key \<and> at_slot t a k' j)" for k' j
    using i live' e'(2) entry_data_eq(1) [OF data] no_key by (auto simp: at_slot_def t' n)
  have entry: "e_hash (ht_entries t' ! j) = hash_key (entry_key a' (ht_entries t' ! j))"
    "reachable t' (entry_key a' (ht_entries t' ! j)) j" if "j < ?n" "live (ht_entries t' ! j)" for j
    using that i e' r [OF ri] r [OF kv_inv_entry(2) [OF inv]] kv_inv_entry(1) [OF inv] entry_data_eq(1) [OF data]
    by (cases "j = i"; simp add: t')+
  have uniq: "j = j'" if "at_slot t' a' k' j" "at_slot t' a' k' j'" for k' j j'
    using that at_slot_unique [OF inv] by (auto simp: slot split: if_splits)
  show "kv_inv t' a'"
    unfolding kv_inv_def n
  proof (intro conjI allI impI)
    show "ht_wf t'" using inv by (simp add: kv_inv_def ht_wf_def t')
    fix j j' assume "j < ?n" "j' < ?n" "live (ht_entries t' ! j) \<and> live (ht_entries t' ! j') \<and>
      entry_key a' (ht_entries t' ! j) = entry_key a' (ht_entries t' ! j')"
    then show "j = j'" using uniq [of "entry_key a' (ht_entries t' ! j)" j j'] by (simp add: at_slot_def n)
  qed (use entry in simp_all)
  have val: "get_value a' (ht_entries t ! j) = get_value a (ht_entries t ! j)"
    if "at_slot t a k j" "j \<noteq> i" for j
    using that entry_data_eq(2) [OF data, of j] by (simp add: at_slot_def)
  show "stored t' a' k x \<longleftrightarrow> (if k = key then x = v else stored t a k x)"
  proof (cases "k = key")
    case True
    then have "stored t' a' k x \<longleftrightarrow> get_value a' (ht_entries t' ! i) = x" by (auto simp: stored_def slot)
    then show ?thesis using True i e'(3) by (auto simp: t')
  next
    case False
    then have "j \<noteq> i" if "at_slot t a k j" for j
      using that place by (auto simp: at_slot_def live_def)
    with False val show ?thesis by (auto simp: stored_def slot t')
  qed
qed

lemma lookup_match:
  assumes "kv_inv t a" and "lookup t a key = Some (i, True)"
  shows "at_slot t a key (unat i)"
proof -
  obtain j where j: "at_slot t a key j" using lookup_absent(1) [OF assms(1) _ assms(2)] by auto
  then have "j < length (ht_entries t)" "ht_wf t" using assms(1) by (auto simp: at_slot_def kv_inv_def)
  with lookup_found [OF assms(1) j] assms(2) j show ?thesis by (simp add: unat_slot)
qed

lemma lookup_no_match:
  assumes "kv_inv t a" and "lookup t a key = Some (i, False)"
  shows "\<not> at_slot t a key j"
  using lookup_found [OF assms(1)] assms(2) by force

lemma set_entry_simps:
  "ht_entries (set_entry t i e) = (ht_entries t)[unat i := e]"
  "ht_mask (set_entry t i e) = ht_mask t" "ht_capacity (set_entry t i e) = ht_capacity t"
  by (simp_all add: set_entry_def)

lemma ht_insert_match:
  assumes "kv_inv t a" and "ht_insert t a key v = Some (t', a', Inr False)"
  obtains i off a2 where "lookup t a key = Some (i, True)"
    "t' = set_entry t i ((entry_at t i)\<lparr>e_data_offset := off, e_key_len := of_nat (length key), e_val_len := of_nat (length v)\<rparr>)"
    "a' = put_data a2 off key v" "length key < 2 ^ 32" "length v < 2 ^ 32"
  using assms(2)
  by (auto simp: ht_insert_def Let_def split: if_splits option.splits prod.splits bool.splits intro: that)

lemma ht_insert_new:
  assumes "kv_inv t a" and "ht_insert t a key v = Some (t', a', Inr True)"
  obtains i off a2 where "lookup t a key = Some (i, False)"
    "t' = (set_entry t i \<lparr>e_hash = hash_key key, e_version = 1, e_key_len = of_nat (length key),
        e_val_len = of_nat (length v), e_data_offset = off\<rparr>)\<lparr>ht_size := ht_size t + 1\<rparr>"
    "a' = put_data a2 off key v" "length key < 2 ^ 32" "length v < 2 ^ 32"
  using assms(2)
  by (auto simp: ht_insert_def Let_def split: if_splits option.splits prod.splits bool.splits intro: that)

lemma insert_entry:
  assumes inv: "kv_inv t a" and ins: "ht_insert t a key v = Some (t', a', Inr b)"
    and kept: "other_data_kept t a a' key"
  shows "kv_inv t' a'" and "stored t' a' k x \<longleftrightarrow> (if k = key then x = v else stored t a k x)"
    and "b \<longleftrightarrow> (\<forall>j. \<not> at_slot t a key j)"
proof -
  have "kv_inv t' a' \<and> (stored t' a' k x \<longleftrightarrow> (if k = key then x = v else stored t a k x)) \<and>
      (b \<longleftrightarrow> (\<forall>j. \<not> at_slot t a key j))"
  proof (cases b)
    case False
    with ins have ins': "ht_insert t a key v = Some (t', a', Inr False)" by simp
    from ht_insert_match [OF inv ins'] obtain i off a2 where l: "lookup t a key = Some (i, True)"
      and t': "t' = set_entry t i ((entry_at t i)\<lparr>e_data_offset := off, e_key_len := of_nat (length key), e_val_len := of_nat (length v)\<rparr>)"
      and a': "a' = put_data a2 off key v" and len: "length key < 2 ^ 32" "length v < 2 ^ 32" by blast
    have slot: "at_slot t a key (unat i)" by (rule lookup_match [OF inv l])
    then have h: "e_hash (entry_at t i) = hash_key key"
      using kv_inv_entry(1) [OF inv, of "unat i"] by (simp add: at_slot_def entry_at_def)
    have i: "unat i < length (ht_entries t)" using slot by (simp add: at_slot_def)
    note pe = put_entry [OF inv i, where t' = t' and a' = a' and key = key and v = v, unfolded t', OF set_entry_simps]
    show ?thesis
      using pe h slot kept False put_data_read [OF len, of _ off a2] unfolding t' a' by auto
  next
    case True
    with ins have ins': "ht_insert t a key v = Some (t', a', Inr True)" by simp
    from ht_insert_new [OF inv ins'] obtain i off a2 where l: "lookup t a key = Some (i, False)"
      and t': "t' = (set_entry t i \<lparr>e_hash = hash_key key, e_version = 1, e_key_len = of_nat (length key),
        e_val_len = of_nat (length v), e_data_offset = off\<rparr>)\<lparr>ht_size := ht_size t + 1\<rparr>" (is "t' = (set_entry t i ?e)\<lparr>ht_size := _\<rparr>")
      and a': "a' = put_data a2 off key v" and len: "length key < 2 ^ 32" "length v < 2 ^ 32" by blast
    have no: "\<forall>j. \<not> at_slot t a key j" using lookup_no_match [OF inv l] by blast
    note ab = lookup_absent [OF inv no l]
    have t'': "ht_entries t' = (ht_entries t)[unat i := ?e]" "ht_mask t' = ht_mask t" "ht_capacity t' = ht_capacity t"
      by (simp_all add: t' set_entry_simps)
    show ?thesis
      using put_entry [OF inv ab(2) t''(1-3), where key = key and a' = a' and v = v] no ab(3,4) kept True
        put_data_read [OF len, of ?e off a2] unfolding a' by auto
  qed
  then show "kv_inv t' a'" "stored t' a' k x \<longleftrightarrow> (if k = key then x = v else stored t a k x)"
    "b \<longleftrightarrow> (\<forall>j. \<not> at_slot t a key j)" by blast+
qed

lemma tombstone_entry:
  assumes inv: "kv_inv t a" and slot: "at_slot t a key i"
    and t': "ht_entries t' = (ht_entries t)[i := e']" "ht_mask t' = ht_mask t" "ht_capacity t' = ht_capacity t"
    and e': "e_hash e' = TOMBSTONE_HASH" and kept: "other_data_kept t a a' key"
  shows "kv_inv t' a'" and "stored t' a' k x \<longleftrightarrow> k \<noteq> key \<and> stored t a k x"
proof -
  let ?n = "length (ht_entries t)"
  have i: "i < ?n" using slot by (simp add: at_slot_def)
  have n: "length (ht_entries t') = ?n" by (simp add: t')
  have dead: "\<not> live e'" "e_hash e' \<noteq> EMPTY_HASH" using e' by (simp_all add: live_def EMPTY_HASH_def TOMBSTONE_HASH_def)
  have data: "entry_data a' (ht_entries t ! j) = entry_data a (ht_entries t ! j)"
    if "j < ?n" "j \<noteq> i" "live (ht_entries t ! j)" for j
  proof -
    have "\<not> at_slot t a key j" using that(2) at_slot_unique [OF inv slot] by blast
    then have "entry_key a (ht_entries t ! j) \<noteq> key" using that by (simp add: at_slot_def)
    with kept that show ?thesis by (auto simp: other_data_kept_def)
  qed
  have r: "reachable t' k' j" if "reachable t k' j" for k' j
    by (rule reachable_mono [OF that n]) (use dead i in \<open>auto simp: t' nth_list_update\<close>)
  have slot': "at_slot t' a' k' j \<longleftrightarrow> j \<noteq> i \<and> at_slot t a k' j" for k' j
    using i dead entry_data_eq(1) [OF data] by (cases "j = i") (auto simp: at_slot_def t' n)
  have entry: "e_hash (ht_entries t' ! j) = hash_key (entry_key a' (ht_entries t' ! j)) \<and>
    reachable t' (entry_key a' (ht_entries t' ! j)) j" if "j < ?n" "live (ht_entries t' ! j)" for j
  proof -
    have "j \<noteq> i" using that i dead by (auto simp: t')
    then have e: "ht_entries t' ! j = ht_entries t ! j" by (simp add: t')
    with that have lj: "live (ht_entries t ! j)" by simp
    show ?thesis unfolding e entry_data_eq(1) [OF data [OF that(1) \<open>j \<noteq> i\<close> lj]]
      using kv_inv_entry [OF inv that(1) lj] r by blast
  qed
  show "kv_inv t' a'"
    unfolding kv_inv_def n
  proof (intro conjI allI impI)
    show "ht_wf t'" using inv by (simp add: kv_inv_def ht_wf_def t')
    fix j j' assume "j < ?n" "j' < ?n" "live (ht_entries t' ! j) \<and> live (ht_entries t' ! j') \<and>
      entry_key a' (ht_entries t' ! j) = entry_key a' (ht_entries t' ! j')"
    then have "at_slot t' a' (entry_key a' (ht_entries t' ! j)) j" "at_slot t' a' (entry_key a' (ht_entries t' ! j)) j'"
      by (simp_all add: at_slot_def n)
    then show "j = j'" unfolding slot' using at_slot_unique [OF inv] by blast
  qed (use entry in simp_all)
  have val: "get_value a' (ht_entries t ! j) = get_value a (ht_entries t ! j)"
    if "at_slot t a k j" "j \<noteq> i" for j
    using that entry_data_eq(2) [OF data, of j] by (simp add: at_slot_def)
  have key: "k = key \<longleftrightarrow> j = i" if "at_slot t a k j" for j
    using that slot at_slot_unique [OF inv] by (auto simp: at_slot_def)
  have "stored t' a' k x \<longleftrightarrow> (\<exists>j. j \<noteq> i \<and> at_slot t a k j \<and> get_value a' (ht_entries t ! j) = x)"
    unfolding stored_def slot' t'(1) by (metis nth_list_update_neq)
  also have "\<dots> \<longleftrightarrow> k \<noteq> key \<and> stored t a k x" unfolding stored_def using val key by metis
  finally show "stored t' a' k x \<longleftrightarrow> k \<noteq> key \<and> stored t a k x" .
qed

section \<open>Slots are used up\<close>

lemma lookup_result:
  assumes "ht_wf t" and "lookup t a key = Some (i, m)"
  shows "unat i < length (ht_entries t)" and "m \<longleftrightarrow> e_hash (ht_entries t ! unat i) \<noteq> EMPTY_HASH"
    and "m \<Longrightarrow> e_hash (ht_entries t ! unat i) = hash_key key"
proof -
  let ?n = "length (ht_entries t)" and ?stops = "stops t a key (hash_key key)"
  let ?s = "hash_key key AND ht_mask t"
  have s: "unat ?s < ?n" using probe_start [OF assms(1), of "hash_key key"] ht_wf_pos [OF assms(1)] by simp
  from lookup_iff [OF assms(1), of a key] assms(2) obtain j where j: "j < ?n" "?stops j" by auto
  obtain d where d: "d < ?n" "?stops ((unat ?s + d) mod ?n)" "\<forall>k < d. \<not> ?stops ((unat ?s + k) mod ?n)"
    by (rule first_stop [OF s j(1), of ?stops]) (use j in auto)
  have jn: "(unat ?s + d) mod ?n < ?n" using ht_wf_pos [OF assms(1)] by simp
  from find_entry_at [OF assms(1) s d(3,2)] assms(2)
  have "i = of_nat ((unat ?s + d) mod ?n)" "m \<longleftrightarrow> e_hash (ht_entries t ! ((unat ?s + d) mod ?n)) \<noteq> EMPTY_HASH"
    by (auto simp: lookup_def)
  with jn unat_slot [OF assms(1) jn] d(2)
  show "unat i < ?n" "m \<longleftrightarrow> e_hash (ht_entries t ! unat i) \<noteq> EMPTY_HASH"
    "m \<Longrightarrow> e_hash (ht_entries t ! unat i) = hash_key key" by (auto simp: stops_def)
qed

definition empties :: "hash_table \<Rightarrow> nat" where
  "empties t = length (filter (\<lambda>e. e_hash e = EMPTY_HASH) (ht_entries t))"

lemma empties_set_entry:
  assumes "unat i < length (ht_entries t)" and "e_hash e \<noteq> EMPTY_HASH"
  shows "empties (set_entry t i e) + (if e_hash (ht_entries t ! unat i) = EMPTY_HASH then 1 else 0) = empties t"
proof -
  from length_filter_update [of "unat i" "ht_entries t" "\<lambda>e. e_hash e = EMPTY_HASH"] assms show ?thesis
    by (simp add: empties_def set_entry_def)
qed

text \<open>Operations on a table in sequence, and how many of them inserted a new key.\<close>

datatype kv_op = KvSet bytes bytes | KvGet bytes | KvDelete bytes | KvCas bytes u64 bytes

fun kv_step :: "hash_table \<times> arena \<Rightarrow> kv_op \<Rightarrow> ((hash_table \<times> arena) \<times> bool) option" where
  "kv_step (t, a) (KvSet k v) = map_option (\<lambda>(t', a', r). ((t', a'), r = Inr True)) (ht_insert t a k v)"
| "kv_step (t, a) (KvGet k) = map_option (\<lambda>_. ((t, a), False)) (ht_get t a k)"
| "kv_step (t, a) (KvDelete k) = map_option (\<lambda>(t', a', r). ((t', a'), False)) (ht_remove t a k)"
| "kv_step (t, a) (KvCas k ver v) = map_option (\<lambda>(t', a', r). ((t', a'), False)) (ht_cas t a k ver v)"

fun kv_run :: "hash_table \<times> arena \<Rightarrow> kv_op list \<Rightarrow> ((hash_table \<times> arena) \<times> nat) option" where
  "kv_run s [] = Some (s, 0)"
| "kv_run s (op # ops) =
     (case kv_step s op of None \<Rightarrow> None
      | Some (s1, new) \<Rightarrow>
          map_option (\<lambda>(s2, n). (s2, n + (if new then 1 else 0))) (kv_run s1 ops))"

lemma ht_wf_set_entry: "ht_wf t \<Longrightarrow> ht_wf (set_entry t i e)"
  by (simp add: ht_wf_def set_entry_def)

lemma ht_wf_size: "ht_wf (t\<lparr>ht_size := s\<rparr>) = ht_wf t" "empties (t\<lparr>ht_size := s\<rparr>) = empties t"
  by (simp_all add: ht_wf_def empties_def)

lemma empties_replace:
  assumes "ht_wf t" and "lookup t a key = Some (i, m)" and "e_hash e \<noteq> EMPTY_HASH"
  shows "empties (set_entry t i e) + (if m then 0 else 1) = empties t"
  using empties_set_entry [OF lookup_result(1) [OF assms(1,2)] assms(3)] lookup_result(2) [OF assms(1,2)] by auto

text \<open>An operation changes at most one slot, the one its lookup found, and never empties it.\<close>

definition slot_set :: "hash_table \<Rightarrow> arena \<Rightarrow> bytes \<Rightarrow> bool \<Rightarrow> u64 \<Rightarrow> hash_table \<Rightarrow> bool" where
  "slot_set t a key m h t' \<longleftrightarrow>
     (\<exists>i e s. lookup t a key = Some (i, m) \<and> e_hash e = h \<and> t' = (set_entry t i e)\<lparr>ht_size := s\<rparr>)"

lemma slot_setI:
  "lookup t a key = Some (i, m) \<Longrightarrow> e_hash e = h \<Longrightarrow> slot_set t a key m h ((set_entry t i e)\<lparr>ht_size := s\<rparr>)"
  by (auto simp: slot_set_def)

lemma slot_setI':
  "lookup t a key = Some (i, m) \<Longrightarrow> e_hash e = h \<Longrightarrow> slot_set t a key m h (set_entry t i e)"
  using slot_setI [of t a key i m e h "ht_size t"] by (simp add: set_entry_def)

lemma slot_set_empties:
  assumes "ht_wf t" and "slot_set t a key m h t'" and "h \<noteq> EMPTY_HASH"
  shows "ht_wf t' \<and> empties t' + (if m then 0 else 1) = empties t"
proof -
  from assms(2) obtain i e s where "lookup t a key = Some (i, m)" "e_hash e = h"
    "t' = (set_entry t i e)\<lparr>ht_size := s\<rparr>" by (auto simp: slot_set_def)
  with empties_replace [OF assms(1), of a key i m e] assms(1,3) show ?thesis
    by (simp add: ht_wf_size ht_wf_set_entry)
qed

lemma match_hash: "ht_wf t \<Longrightarrow> lookup t a key = Some (i, True) \<Longrightarrow> e_hash (entry_at t i) = hash_key key"
  using lookup_result(3) [of t a key i True] by (simp add: entry_at_def)

lemma ht_insert_slot:
  assumes "ht_wf t" and "ht_insert t a key v = Some (t', a', r)"
  shows "case r of Inl _ \<Rightarrow> t' = t | Inr b \<Rightarrow> slot_set t a key (\<not> b) (hash_key key) t'"
  using assms(2) match_hash [OF assms(1)]
  by (auto simp: ht_insert_def Let_def intro!: slot_setI slot_setI'
      split: if_splits option.splits prod.splits bool.splits)

lemma ht_remove_slot:
  assumes "ht_remove t a key = Some (t', a', r)"
  shows "case r of None \<Rightarrow> t' = t | Some _ \<Rightarrow> slot_set t a key True TOMBSTONE_HASH t'"
  using assms
  by (auto simp: ht_remove_def Let_def intro!: slot_setI split: if_splits option.splits prod.splits bool.splits)

lemma ht_cas_slot:
  assumes "ht_wf t" and "ht_cas t a key ver v = Some (t', a', r)"
  shows "case r of Inl _ \<Rightarrow> t' = t | Inr _ \<Rightarrow> slot_set t a key True (hash_key key) t'"
  using assms(2) match_hash [OF assms(1)]
  by (auto simp: ht_cas_def Let_def intro!: slot_setI' split: if_splits option.splits prod.splits bool.splits)

lemma tombstone_not_empty: "TOMBSTONE_HASH \<noteq> EMPTY_HASH"
  by (simp add: EMPTY_HASH_def TOMBSTONE_HASH_def)

lemma kv_step_empties:
  assumes "ht_wf t" and "kv_step (t, a) op = Some ((t', a'), new)"
  shows "ht_wf t' \<and> empties t' + (if new then 1 else 0) = empties t"
proof (cases op)
  case (KvSet k v)
  with assms(2) obtain r where r: "ht_insert t a k v = Some (t', a', r)" "new = (r = Inr True)" by auto
  show ?thesis
    using ht_insert_slot [OF assms(1) r(1)] r(2) assms(1)
      slot_set_empties [OF assms(1) _ hash_key_reserved(1), of a k "r \<noteq> Inr True" k t'] by (cases r) auto
next
  case (KvGet k)
  with assms show ?thesis by auto
next
  case (KvDelete k)
  with assms(2) obtain r where r: "ht_remove t a k = Some (t', a', r)" "\<not> new" by auto
  show ?thesis
    using ht_remove_slot [OF r(1)] r(2) assms(1)
      slot_set_empties [OF assms(1) _ tombstone_not_empty, of a k True t'] by (cases r) auto
next
  case (KvCas k ver v)
  with assms(2) obtain r where r: "ht_cas t a k ver v = Some (t', a', r)" "\<not> new" by auto
  show ?thesis
    using ht_cas_slot [OF assms(1) r(1)] r(2) assms(1)
      slot_set_empties [OF assms(1) _ hash_key_reserved(1), of a k True k t'] by (cases r) auto
qed

lemma kv_run_empties:
  "ht_wf t \<Longrightarrow> kv_run (t, a) ops = Some ((t', a'), n) \<Longrightarrow> ht_wf t' \<and> empties t' + n = empties t"
proof (induction ops arbitrary: t a n)
  case (Cons op ops)
  from Cons.prems(2) obtain t1 a1 new n1 where s: "kv_step (t, a) op = Some ((t1, a1), new)"
    and r: "kv_run (t1, a1) ops = Some ((t', a'), n1)" and n: "n = n1 + (if new then 1 else 0)"
    by (auto split: option.splits prod.splits)
  from kv_step_empties [OF Cons.prems(1) s] Cons.IH [OF _ r] n show ?case by auto
qed simp

section \<open>Properties\<close>

text \<open>
  A probe returns exactly when some slot is empty or holds the key: with neither, the loop of
  \<open>find_entry\<close> runs forever. Every operation of the table starts with such a probe.
\<close>

theorem lookup_returns_iff:
  assumes "ht_wf t"
  shows "(\<exists>r. lookup t a key = Some r) \<longleftrightarrow>
     (\<exists>j < length (ht_entries t). e_hash (ht_entries t ! j) = EMPTY_HASH \<or>
        (e_hash (ht_entries t ! j) = hash_key key \<and> keys_equal a (ht_entries t ! j) key))"
  using lookup_iff [OF assms, of a key] by (simp add: stops_def)


text \<open>
  Removal. Removing a stored key makes it absent, leaves every other key, keeps the
  invariant (lookups probe past the tombstone) and returns the size of the data.
\<close>

theorem ht_remove_get:
  assumes "kv_inv t a" and "ht_remove t a key = Some (t', a', Some sz)" and "other_data_kept t a a' key"
  shows "kv_inv t' a' \<and>
     (\<forall>k x. ht_get t' a' k = Some (Some x) \<longleftrightarrow> k \<noteq> key \<and> ht_get t a k = Some (Some x))"
proof -
  from assms(2) obtain i where l: "lookup t a key = Some (i, True)"
    and t': "t' = (set_entry t i ((entry_at t i)\<lparr>e_hash := TOMBSTONE_HASH, e_key_len := 0, e_val_len := 0,
       e_data_offset := 0\<rparr>))\<lparr>ht_size := ht_size t - 1\<rparr>"
    by (auto simp: ht_remove_def Let_def split: option.splits prod.splits bool.splits if_splits)
  have t'': "ht_entries t' = (ht_entries t)[unat i := (entry_at t i)\<lparr>e_hash := TOMBSTONE_HASH, e_key_len := 0,
      e_val_len := 0, e_data_offset := 0\<rparr>]" "ht_mask t' = ht_mask t" "ht_capacity t' = ht_capacity t"
    by (simp_all add: t' set_entry_simps)
  note te = tombstone_entry [OF assms(1) lookup_match [OF assms(1) l] t'' _ assms(3)]
  have inv': "kv_inv t' a'" by (rule te(1)) simp
  show ?thesis
    using inv' te(2) get_stored [OF assms(1)] get_stored [OF inv'] by simp
qed

text \<open>
  Compare and swap. A swap that succeeds found the expected version, returns the next one
  (modulo \<open>2 ^ 64\<close>), stores the value and leaves every other key; a second swap with the same
  expected version fails and changes nothing, so of several swaps that expect one version at most
  one succeeds.
\<close>

theorem ht_cas_once:
  assumes "kv_inv t a" and "ht_cas t a key ver v = Some (t', a', Inr ver')" and "length v < 2 ^ 32"
    and "other_data_kept t a a' key"
  shows "kv_inv t' a' \<and> ver' = ver + 1 \<and> ht_get t' a' key = Some (Some v) \<and>
     (\<forall>k x. k \<noteq> key \<longrightarrow> (ht_get t' a' k = Some (Some x) \<longleftrightarrow> ht_get t a k = Some (Some x))) \<and>
     ht_cas t' a' key ver w = Some (t', a', Inl VersionMismatch)"
proof -
  from assms(2) obtain i off a2 where l: "lookup t a key = Some (i, True)"
    and ver: "e_version (entry_at t i) = ver" "ver' = ver + 1"
    and t': "t' = set_entry t i ((entry_at t i)\<lparr>e_data_offset := off, e_val_len := of_nat (length v), e_version := ver + 1\<rparr>)"
    and a': "a' = put_data a2 off key v"
    by (auto simp: ht_cas_def Let_def split: option.splits prod.splits bool.splits if_splits)
  let ?e = "(entry_at t i)\<lparr>e_data_offset := off, e_val_len := of_nat (length v), e_version := ver + 1\<rparr>"
  have slot: "at_slot t a key (unat i)" by (rule lookup_match [OF assms(1) l])
  then have i: "unat i < length (ht_entries t)" and k: "entry_key a (entry_at t i) = key"
    and h: "e_hash (entry_at t i) = hash_key key"
    using kv_inv_entry(1) [OF assms(1), of "unat i"] by (simp_all add: at_slot_def entry_at_def)
  have kl: "unat (e_key_len (entry_at t i)) = length key" using k by (auto simp: entry_key_def)
  then have "length key < 2 ^ 32" using unsigned_less [of "e_key_len (entry_at t i)", where 'a = nat] by simp
  moreover have "e_key_len ?e = of_nat (length key)" using kl by (simp flip: kl)
  ultimately have rd: "entry_key a' ?e = key" "get_value a' ?e = v"
    using put_data_read [of key v ?e off a2] assms(3) by (simp_all add: a')
  note t'' = set_entry_simps [of t i ?e, folded t']
  have pe: "kv_inv t' a'" "stored t' a' k x \<longleftrightarrow> (if k = key then x = v else stored t a k x)" for k x
    using put_entry [OF assms(1) i t'' _ rd _ assms(4)] h slot by auto
  have "at_slot t' a' key (unat i)"
    using i rd h hash_key_reserved [of key] by (simp add: at_slot_def t'' live_def)
  from lookup_found [OF pe(1) this] have "lookup t' a' key = Some (i, True)" by simp
  moreover have "e_version (entry_at t' i) = ver + 1" using i by (simp add: entry_at_def t'')
  ultimately have "ht_cas t' a' key ver w = Some (t', a', Inl VersionMismatch)" by (simp add: ht_cas_def)
  with pe ver(2) get_stored [OF assms(1)] get_stored [OF pe(1)] show ?thesis by simp
qed

text \<open>
  C35. Tombstones are never reused: over the whole life of a table at most \<open>capacity\<close> insertions
  of new keys succeed, however many keys are deleted in between. After the last of them a lookup
  of a key that is not in the table never returns.
\<close>

theorem table_uses_up_slots:
  assumes "ht_init cap = Some t0" and "kv_run (t0, a0) ops = Some ((t, a), n)"
  shows "n \<le> unat cap \<and>
     (n = unat cap \<and> (\<forall>e \<in> set (ht_entries t). \<not> (e_hash e = hash_key key \<and> keys_equal a e key)) \<longrightarrow>
        ht_get t a key = None \<and> ht_remove t a key = None)"
proof -
  have wf: "ht_wf t0" and e0: "empties t0 = unat cap"
    using assms(1) by (auto simp: ht_init_def ht_wf_def empties_def entry_new_def split: if_splits)
  from kv_run_empties [OF wf assms(2)] e0 have wf': "ht_wf t" and e: "empties t + n = unat cap" by auto
  have "lookup t a key = None"
    if "n = unat cap" "\<forall>e \<in> set (ht_entries t). \<not> (e_hash e = hash_key key \<and> keys_equal a e key)"
  proof -
    have "\<forall>e \<in> set (ht_entries t). e_hash e \<noteq> EMPTY_HASH"
      using e that(1) by (auto simp: empties_def filter_empty_conv)
    with that(2) lookup_iff [OF wf', of a key] show ?thesis by (fastforce simp: stops_def)
  qed
  with e show ?thesis by (auto simp: ht_get_def ht_remove_def)
qed

section \<open>Instances\<close>

text \<open>A table with one slot and an arena of one kilobyte; the key 1 is stored with the value 7.\<close>

definition kv_t0 :: hash_table where
  "kv_t0 = \<lparr>ht_capacity = 1, ht_mask = 0, ht_size = 0, ht_entries = [entry_new]\<rparr>"

definition kv_a0 :: arena where
  "kv_a0 = arena_init (\<lambda>_. 0) 1024"

definition kv_t1 :: hash_table where
  "kv_t1 = \<lparr>ht_capacity = 1, ht_mask = 0, ht_size = 1,
     ht_entries = [\<lparr>e_hash = hash_key [1], e_version = 1, e_key_len = 1, e_val_len = 1, e_data_offset = 152\<rparr>]\<rparr>"

definition kv_a1 :: arena where
  "kv_a1 = put_data (fst (allocate kv_a0 2 8)) 152 [1] [7]"

lemma kv_t0_init: "ht_init 1 = Some kv_t0"
  using is_power_of_twoI [of 0] by (simp add: ht_init_def kv_t0_def)

lemma kv_t0_inv: "kv_inv kv_t0 a"
  using is_power_of_twoI [of 0]
  by (simp add: kv_inv_def ht_wf_def live_def) (simp add: kv_t0_def entry_new_def)

lemma example_allocate: "snd (allocate kv_a0 2 8) = 152"
  by (simp add: kv_a0_def arena_defs)

lemma example_insert: "ht_insert kv_t0 kv_a0 [1] [7] = Some (kv_t1, kv_a1, Inr True)"
proof -
  have "lookup kv_t0 kv_a0 [1] = Some (0, False)"
    by (simp add: lookup_def kv_t0_def find_entry.simps entry_at_def entry_new_def)
  moreover obtain a2 where "allocate kv_a0 2 8 = (a2, 152)"
    using example_allocate by (metis prod.collapse)
  ultimately show ?thesis
    by (simp add: ht_insert_def kv_a1_def kv_t1_def Let_def) (simp add: kv_t0_def set_entry_def)
qed

lemma example_kept: "other_data_kept kv_t0 kv_a0 a key"
  by (simp add: other_data_kept_def kv_t0_def live_def entry_new_def)

lemma example_key: "entry_key kv_a1 (ht_entries kv_t1 ! 0) = [1]"
  unfolding kv_a1_def by (rule put_data_read(1)) (simp_all add: kv_t1_def)

lemma kv_t1_inv: "kv_inv kv_t1 kv_a1"
  by (rule insert_entry(1) [OF kv_t0_inv example_insert example_kept])

lemma example_kept1: "other_data_kept kv_t1 kv_a1 a [1]"
  using example_key by (simp add: other_data_kept_def kv_t1_def)

lemma example_lookup: "lookup kv_t1 kv_a1 [1] = Some (0, True)"
proof -
  have "at_slot kv_t1 kv_a1 [1] 0"
    using example_key hash_key_reserved [of "[1]"] by (simp add: at_slot_def kv_t1_def live_def)
  from lookup_found [OF kv_t1_inv this] show ?thesis by simp
qed

theorem lookup_returns_iff_witness: "\<exists>r. lookup kv_t0 kv_a0 [5] = Some r"
proof -
  have "ht_wf kv_t0" using kv_t0_inv by (simp add: kv_inv_def)
  from lookup_returns_iff [OF this, of kv_a0 "[5]"] show ?thesis
    by (simp add: kv_t0_def entry_new_def)
qed


theorem ht_remove_get_witness:
  "\<exists>t a. ht_remove kv_t1 kv_a1 [1] = Some (t, a, Some 2) \<and> (\<forall>x. ht_get t a [1] \<noteq> Some (Some x))"
proof -
  have "e_hash (entry_at kv_t1 0) \<noteq> TOMBSTONE_HASH"
    using hash_key_reserved(2) [of "[1]"] by (simp add: entry_at_def kv_t1_def)
  then obtain t a where r: "ht_remove kv_t1 kv_a1 [1] = Some (t, a, Some 2)"
    by (simp add: ht_remove_def example_lookup Let_def) (simp add: entry_at_def kv_t1_def)
  from ht_remove_get [OF kv_t1_inv r example_kept1] r show ?thesis by auto
qed

theorem ht_cas_once_witness:
  "\<exists>t a. ht_cas kv_t1 kv_a1 [1] 1 [8] = Some (t, a, Inr 2) \<and>
     ht_cas t a [1] 1 [9] = Some (t, a, Inl VersionMismatch)"
proof -
  obtain t a where r: "ht_cas kv_t1 kv_a1 [1] 1 [8] = Some (t, a, Inr 2)"
    by (simp add: ht_cas_def example_lookup Let_def) (simp add: entry_at_def kv_t1_def replace_block_def entry_size_def)
  from ht_cas_once [OF kv_t1_inv r _ example_kept1, of "[9]"] r show ?thesis by auto
qed

theorem table_uses_up_slots_witness: "ht_get kv_t1 kv_a1 [2] = None"
proof -
  have run: "kv_run (kv_t0, kv_a0) [KvSet [1] [7]] = Some ((kv_t1, kv_a1), 1)"
    by (simp add: example_insert)
  have "\<not> keys_equal kv_a1 (ht_entries kv_t1 ! 0) [2]" using example_key by (simp add: keys_equal_iff)
  then have "\<forall>e \<in> set (ht_entries kv_t1). \<not> (e_hash e = hash_key [2] \<and> keys_equal kv_a1 e [2])"
    by (simp add: kv_t1_def)
  with table_uses_up_slots [OF kv_t0_init run, of "[2]"] show ?thesis by simp
qed

end
