(* ===== verification/Kv_Store.thy ===== *)
theory Kv_Store
  imports Kv_Table Store_Spec
begin

text \<open>
  The sharded key-value store (\<open>veddb-core/src/kv/shard.rs\<close>, \<open>veddb-core/src/kv/mod.rs\<close>) over the
  hash table, and the store used in its place by the server, a concurrent hash map
  (\<open>veddb-core/src/simple_kv.rs\<close>). A shard's lock makes each call one step. The outer option is
  \<open>None\<close> for a call without a defined result: the probe loop of the table never ends, or the
  address computed by \<open>shard_ptr\<close>, which assumes shards of 1024 slots, is not the shard.
\<close>

section \<open>Shards\<close>

record kv_shard =
  operation_count :: u64
  entry_count :: u64
  memory_used :: u64
  shard_table :: hash_table

definition shard_init :: "u64 \<Rightarrow> kv_shard option" where
  "shard_init cap = map_option
     (\<lambda>t. \<lparr>operation_count = 0, entry_count = 0, memory_used = 0, shard_table = t\<rparr>) (ht_init cap)"

definition count_op :: "kv_shard \<Rightarrow> kv_shard" where
  "count_op s = s\<lparr>operation_count := operation_count s + 1\<rparr>"

definition shard_set ::
  "kv_shard \<Rightarrow> arena \<Rightarrow> bytes \<Rightarrow> bytes \<Rightarrow> (kv_shard \<times> arena \<times> (kv_error, unit) result) option"
where
  "shard_set s a key val =
     (let s1 = count_op s
      in case ht_insert (shard_table s) a key val of
           None \<Rightarrow> None
         | Some (t, a', Inl e) \<Rightarrow> Some (s1\<lparr>shard_table := t\<rparr>, a', Inl e)
         | Some (t, a', Inr was_new) \<Rightarrow>
             Some (s1\<lparr>shard_table := t, entry_count := entry_count s + (if was_new then 1 else 0),
                      memory_used := memory_used s + of_nat (length key + length val)\<rparr>, a', Inr ()))"

definition shard_get :: "kv_shard \<Rightarrow> arena \<Rightarrow> bytes \<Rightarrow> (kv_shard \<times> bytes option) option" where
  "shard_get s a key = map_option (\<lambda>r. (count_op s, r)) (ht_get (shard_table s) a key)"

definition shard_delete :: "kv_shard \<Rightarrow> arena \<Rightarrow> bytes \<Rightarrow> (kv_shard \<times> arena \<times> bool) option" where
  "shard_delete s a key =
     (let s1 = count_op s
      in case ht_remove (shard_table s) a key of
           None \<Rightarrow> None
         | Some (t, a', None) \<Rightarrow> Some (s1\<lparr>shard_table := t\<rparr>, a', False)
         | Some (t, a', Some old_size) \<Rightarrow>
             Some (s1\<lparr>shard_table := t, entry_count := entry_count s - 1,
                      memory_used := memory_used s - of_nat old_size\<rparr>, a', True))"

definition shard_cas ::
  "kv_shard \<Rightarrow> arena \<Rightarrow> bytes \<Rightarrow> u64 \<Rightarrow> bytes \<Rightarrow> (kv_shard \<times> arena \<times> (kv_error, u64) result) option"
where
  "shard_cas s a key ver val = map_option
     (\<lambda>(t, a', r). ((count_op s)\<lparr>shard_table := t\<rparr>, a', r)) (ht_cas (shard_table s) a key ver val)"

section \<open>The store\<close>

record kv_store =
  num_shards :: u64
  shard_mask :: u64
  total_operations :: u64
  total_keys :: u64
  shards :: "kv_shard list"
  shard_capacity :: u64
  kv_arena :: arena

definition kv_init :: "u64 \<Rightarrow> u64 \<Rightarrow> arena \<Rightarrow> kv_store option" where
  "kv_init n cap a =
     (if is_power_of_two n
      then case shard_init cap of None \<Rightarrow> None
        | Some s \<Rightarrow> Some \<lparr>num_shards = n, shard_mask = n - 1, total_operations = 0, total_keys = 0,
                     shards = replicate (unat n) s, shard_capacity = cap, kv_arena = a\<rparr>
      else None)"

text \<open>\<open>size_for_capacity\<close>, and where the code looks for a shard.\<close>

definition shard_size :: "nat \<Rightarrow> nat" where
  "shard_size cap = 32 + (32 + cap * 32)"

definition shard_ptr :: "kv_store \<Rightarrow> nat \<Rightarrow> nat option" where
  "shard_ptr s idx =
     (if idx * shard_size 1024 = idx * shard_size (unat (shard_capacity s)) then Some idx else None)"

definition get_shard :: "kv_store \<Rightarrow> bytes \<Rightarrow> nat option" where
  "get_shard s key = shard_ptr s (unat (fnv1a key AND shard_mask s))"

definition count_total :: "kv_store \<Rightarrow> kv_store" where
  "count_total s = s\<lparr>total_operations := total_operations s + 1\<rparr>"

definition put_shard :: "kv_store \<Rightarrow> nat \<Rightarrow> kv_shard \<Rightarrow> arena \<Rightarrow> kv_store" where
  "put_shard s i sh a = s\<lparr>shards := (shards s)[i := sh], kv_arena := a\<rparr>"

definition kv_set :: "kv_store \<Rightarrow> bytes \<Rightarrow> bytes \<Rightarrow> (kv_store \<times> (kv_error, unit) result) option" where
  "kv_set s key val =
     (case get_shard s key of None \<Rightarrow> None
      | Some i \<Rightarrow>
          (case shard_set (shards s ! i) (kv_arena s) key val of
             None \<Rightarrow> None
           | Some (sh, a, r) \<Rightarrow>
               (let s1 = put_shard (count_total s) i sh a
                in Some (case r of Inl e \<Rightarrow> (s1, Inl e)
                         | Inr _ \<Rightarrow> (s1\<lparr>total_keys := total_keys s1 + 1\<rparr>, Inr ())))))"

definition kv_get :: "kv_store \<Rightarrow> bytes \<Rightarrow> (kv_store \<times> bytes option) option" where
  "kv_get s key =
     (case get_shard s key of None \<Rightarrow> None
      | Some i \<Rightarrow> map_option (\<lambda>(sh, r). (put_shard (count_total s) i sh (kv_arena s), r))
                   (shard_get (shards s ! i) (kv_arena s) key))"

definition kv_delete :: "kv_store \<Rightarrow> bytes \<Rightarrow> (kv_store \<times> bool) option" where
  "kv_delete s key =
     (case get_shard s key of None \<Rightarrow> None
      | Some i \<Rightarrow>
          (case shard_delete (shards s ! i) (kv_arena s) key of
             None \<Rightarrow> None
           | Some (sh, a, deleted) \<Rightarrow>
               (let s1 = put_shard (count_total s) i sh a
                in Some (if deleted then (s1\<lparr>total_keys := total_keys s1 - 1\<rparr>, True) else (s1, False)))))"

definition kv_cas :: "kv_store \<Rightarrow> bytes \<Rightarrow> u64 \<Rightarrow> bytes \<Rightarrow> (kv_store \<times> (kv_error, u64) result) option" where
  "kv_cas s key ver val =
     (case get_shard s key of None \<Rightarrow> None
      | Some i \<Rightarrow> map_option (\<lambda>(sh, a, r). (put_shard (count_total s) i sh a, r))
                   (shard_cas (shards s ! i) (kv_arena s) key ver val))"

text \<open>\<open>stats\<close> adds up the shards' counters.\<close>

definition kv_stats_entries :: "kv_store \<Rightarrow> u64" where
  "kv_stats_entries s = sum_list (map entry_count (shards s))"

definition kv_stats_memory :: "kv_store \<Rightarrow> u64" where
  "kv_stats_memory s = sum_list (map memory_used (shards s))"

section \<open>The simple store\<close>

type_synonym simple_kv = "(bytes \<times> bytes) list"

definition simple_set :: "simple_kv \<Rightarrow> bytes \<Rightarrow> bytes \<Rightarrow> simple_kv" where
  "simple_set m key val = al_put key val m"

definition simple_get :: "simple_kv \<Rightarrow> bytes \<Rightarrow> bytes option" where
  "simple_get m key = map_of m key"

definition simple_remove :: "simple_kv \<Rightarrow> bytes \<Rightarrow> simple_kv" where
  "simple_remove m key = al_del key m"

definition simple_delete :: "simple_kv \<Rightarrow> bytes \<Rightarrow> simple_kv \<times> bool" where
  "simple_delete m key = (simple_remove m key, simple_get m key \<noteq> None)"

definition simple_len :: "simple_kv \<Rightarrow> nat" where
  "simple_len m = length m"

definition simple_keys :: "simple_kv \<Rightarrow> bytes list" where
  "simple_keys m = map fst m"

interpretation simple: map_store simple_set simple_remove simple_get
  by unfold_locales
    (auto simp: simple_set_def simple_remove_def simple_get_def map_of_al_put map_of_al_del)

section \<open>Counting entries\<close>

definition live_count :: "hash_table \<Rightarrow> nat" where
  "live_count t = length (filter live (ht_entries t))"

lemma length_filter_replace:
  "k < length xs \<Longrightarrow>
   length (filter P (xs[k := e])) + (if P (xs ! k) then 1 else 0) = length (filter P xs) + (if P e then 1 else 0)"
proof (induction xs arbitrary: k)
  case (Cons x xs)
  show ?case
  proof (cases k)
    case (Suc m)
    with Cons.IH [of m] Cons.prems show ?thesis by auto
  qed simp
qed simp

lemma live_hash: "e_hash e = hash_key key \<Longrightarrow> live e"
  using hash_key_reserved [of key] by (simp add: live_def)

lemma lookup_live:
  assumes "ht_wf t" and "lookup t a key = Some (i, m)"
  shows "live (ht_entries t ! unat i) \<longleftrightarrow> m"
  using lookup_result(2,3) [OF assms] live_hash [of "ht_entries t ! unat i" key]
  by (cases m) (auto simp: live_def)

lemma slot_set_live:
  assumes "ht_wf t" and "slot_set t a key m h t'" and "h \<noteq> EMPTY_HASH"
  shows "live_count t' + (if m then 1 else 0) = live_count t + (if h = TOMBSTONE_HASH then 0 else 1)"
proof -
  from assms(2) obtain i e s where l: "lookup t a key = Some (i, m)" and e: "e_hash e = h"
    and t': "t' = (set_entry t i e)\<lparr>ht_size := s\<rparr>" by (auto simp: slot_set_def)
  have "live e \<longleftrightarrow> h \<noteq> TOMBSTONE_HASH" using e assms(3) by (simp add: live_def)
  with length_filter_replace [OF lookup_result(1) [OF assms(1) l], of live e] lookup_live [OF assms(1) l]
  show ?thesis by (simp add: live_count_def set_entry_def t')
qed

lemma ht_insert_live:
  assumes "ht_wf t" and "ht_insert t a key v = Some (t', a', Inr b)"
  shows "ht_wf t' \<and> live_count t' = live_count t + (if b then 1 else 0)"
  using ht_insert_slot [OF assms] slot_set_live [OF assms(1) _ hash_key_reserved(1)]
    slot_set_empties [OF assms(1) _ hash_key_reserved(1)] hash_key_reserved(2) [of key] by fastforce

lemma ht_remove_live:
  assumes "ht_wf t" and "ht_remove t a key = Some (t', a', Some n)"
  shows "ht_wf t' \<and> live_count t' + 1 = live_count t"
  using ht_remove_slot [OF assms(2)] slot_set_live [OF assms(1) _ tombstone_not_empty]
    slot_set_empties [OF assms(1) _ tombstone_not_empty] by fastforce

lemma ht_cas_live:
  assumes "ht_wf t" and "ht_cas t a key ver v = Some (t', a', Inr n)"
  shows "ht_wf t' \<and> live_count t' = live_count t"
  using ht_cas_slot [OF assms] slot_set_live [OF assms(1) _ hash_key_reserved(1)]
    slot_set_empties [OF assms(1) _ hash_key_reserved(1)] hash_key_reserved(2) [of key] by fastforce

section \<open>Runs of a shard\<close>

fun shard_step :: "kv_shard \<times> arena \<Rightarrow> kv_op \<Rightarrow> (kv_shard \<times> arena) option" where
  "shard_step (s, a) (KvSet k v) = map_option (\<lambda>(s', a', r). (s', a')) (shard_set s a k v)"
| "shard_step (s, a) (KvGet k) = map_option (\<lambda>(s', r). (s', a)) (shard_get s a k)"
| "shard_step (s, a) (KvDelete k) = map_option (\<lambda>(s', a', r). (s', a')) (shard_delete s a k)"
| "shard_step (s, a) (KvCas k ver v) = map_option (\<lambda>(s', a', r). (s', a')) (shard_cas s a k ver v)"

fun shard_run :: "kv_shard \<times> arena \<Rightarrow> kv_op list \<Rightarrow> (kv_shard \<times> arena) option" where
  "shard_run p [] = Some p"
| "shard_run p (op # ops) = (case shard_step p op of None \<Rightarrow> None | Some p' \<Rightarrow> shard_run p' ops)"

definition shard_ok :: "kv_shard \<Rightarrow> bool" where
  "shard_ok s \<longleftrightarrow> ht_wf (shard_table s) \<and> entry_count s = of_nat (live_count (shard_table s))"

lemma shard_set_ok:
  assumes "shard_ok s" and "shard_set s a key v = Some (s', a', r)"
  shows "shard_ok s'"
proof -
  have wf: "ht_wf (shard_table s)" using assms(1) by (simp add: shard_ok_def)
  from assms(2) obtain t q where i: "ht_insert (shard_table s) a key v = Some (t, a', q)"
    and s': "shard_table s' = t" "entry_count s' = entry_count s + (if q = Inr True then 1 else 0)"
    by (auto simp: shard_set_def count_op_def Let_def split: option.splits prod.splits sum.splits if_splits)
  show ?thesis
    using ht_insert_slot [OF wf i] ht_insert_live [OF wf, of a key v t a' "q = Inr True"] i s' assms(1)
    by (cases q) (auto simp: shard_ok_def)
qed

lemma shard_delete_ok:
  assumes "shard_ok s" and "shard_delete s a key = Some (s', a', r)"
  shows "shard_ok s'"
proof -
  have wf: "ht_wf (shard_table s)" using assms(1) by (simp add: shard_ok_def)
  from assms(2) obtain t q where i: "ht_remove (shard_table s) a key = Some (t, a', q)"
    and s': "shard_table s' = t" "entry_count s' = entry_count s - (if q = None then 0 else 1)"
    by (auto simp: shard_delete_def count_op_def Let_def split: option.splits prod.splits)
  show ?thesis
  proof (cases q)
    case None
    with ht_remove_slot [OF i] s' assms(1) show ?thesis by (simp add: shard_ok_def)
  next
    case (Some n)
    with ht_remove_live [OF wf, of a key t a' n] i have "ht_wf t" "live_count t + 1 = live_count (shard_table s)"
      by auto
    moreover from this(2) have "of_nat (live_count (shard_table s)) = (of_nat (live_count t) + 1 :: u64)"
      by (metis of_nat_1 of_nat_add)
    ultimately show ?thesis using s' assms(1) Some by (simp add: shard_ok_def)
  qed
qed

lemma shard_cas_ok:
  assumes "shard_ok s" and "shard_cas s a key ver v = Some (s', a', r)"
  shows "shard_ok s'"
proof -
  have wf: "ht_wf (shard_table s)" using assms(1) by (simp add: shard_ok_def)
  from assms(2) obtain t where i: "ht_cas (shard_table s) a key ver v = Some (t, a', r)"
    and s': "shard_table s' = t" "entry_count s' = entry_count s"
    by (auto simp: shard_cas_def count_op_def)
  show ?thesis
    using ht_cas_slot [OF wf i] ht_cas_live [OF wf, of a key ver v t a' "projr r"] i s' assms(1)
    by (cases r) (auto simp: shard_ok_def)
qed

lemma shard_step_ok:
  assumes "shard_ok s" and "shard_step (s, a) op = Some (s', a')"
  shows "shard_ok s'"
proof (cases op)
  case (KvGet k)
  with assms show ?thesis by (auto simp: shard_get_def count_op_def shard_ok_def)
next
  case (KvSet k v)
  with assms(2) obtain r where "shard_set s a k v = Some (s', a', r)" by auto
  then show ?thesis by (rule shard_set_ok [OF assms(1)])
next
  case (KvDelete k)
  with assms(2) obtain r where "shard_delete s a k = Some (s', a', r)" by auto
  then show ?thesis by (rule shard_delete_ok [OF assms(1)])
next
  case (KvCas k ver v)
  with assms(2) obtain r where "shard_cas s a k ver v = Some (s', a', r)" by auto
  then show ?thesis by (rule shard_cas_ok [OF assms(1)])
qed

lemma shard_run_ok: "shard_ok s \<Longrightarrow> shard_run (s, a) ops = Some (s', a') \<Longrightarrow> shard_ok s'"
proof (induction ops arbitrary: s a)
  case (Cons op ops)
  from Cons.prems(2) obtain s1 a1 where "shard_step (s, a) op = Some (s1, a1)" "shard_run (s1, a1) ops = Some (s', a')"
    by (auto split: option.splits)
  with Cons.IH shard_step_ok [OF Cons.prems(1)] show ?case by blast
qed simp

lemma sum_list_update_same:
  "i < length xs \<Longrightarrow> f y = f (xs ! i) \<Longrightarrow> sum_list (map f (xs[i := y])) = (sum_list (map f xs) :: u64)"
  by (metis list_update_id map_update)

section \<open>Properties\<close>

text \<open>
  The entry counter of a shard is exact: after any sequence of operations on a fresh shard it
  is the number of live slots of the table, overwrites, failed allocations, swaps and deletions of
  absent keys included.
\<close>

theorem shard_entry_count_exact:
  assumes "shard_init cap = Some s0" and "shard_run (s0, a0) ops = Some (s, a)"
  shows "entry_count s = of_nat (length (filter live (ht_entries (shard_table s))))"
proof -
  from assms(1) have "shard_ok s0"
    by (auto simp: shard_init_def shard_ok_def ht_init_def ht_wf_def live_count_def entry_new_def live_def
        split: if_splits)
  from shard_run_ok [OF this assms(2)] show ?thesis by (simp add: shard_ok_def live_count_def)
qed

text \<open>
  The key counter of the store is not exact: a \<open>set\<close> that overwrites the value of a stored
  key counts one key more, while the entry count that \<open>stats\<close> reports stays.
\<close>

theorem overwrite_counts_key_again:
  assumes "kv_inv (shard_table (shards s ! i)) (kv_arena s)" and "i < length (shards s)"
    and "get_shard s key = Some i"
    and "ht_get (shard_table (shards s ! i)) (kv_arena s) key = Some (Some old)"
    and "kv_set s key val = Some (s', Inr ())"
  shows "total_keys s' = total_keys s + 1 \<and> kv_stats_entries s' = kv_stats_entries s"
proof -
  from assms(4) obtain j where l: "lookup (shard_table (shards s ! i)) (kv_arena s) key = Some (j, True)"
    by (auto simp: ht_get_def split: option.splits if_splits)
  from assms(3,5) obtain sh a where sh: "shard_set (shards s ! i) (kv_arena s) key val = Some (sh, a, Inr ())"
    and s': "s' = (put_shard (count_total s) i sh a)\<lparr>total_keys := total_keys s + 1\<rparr>"
    by (auto simp: kv_set_def Let_def put_shard_def count_total_def split: option.splits prod.splits sum.splits)
  from sh l have "entry_count sh = entry_count (shards s ! i)"
    by (auto simp: shard_set_def ht_insert_def count_op_def Let_def split: if_splits option.splits prod.splits sum.splits)
  then show ?thesis
    using sum_list_update_same [OF assms(2), of entry_count sh]
    by (simp add: s' kv_stats_entries_def put_shard_def count_total_def)
qed

theorem shard_entry_count_exact_witness:
  "\<exists>s a. shard_run (the (shard_init 1), kv_a0) [KvSet [1] [7]] = Some (s, a) \<and> entry_count s = 1"
proof -
  have i: "shard_init 1 = Some (the (shard_init 1))" "shard_table (the (shard_init 1)) = kv_t0"
    by (simp_all add: shard_init_def kv_t0_init)
  then obtain s where r: "shard_run (the (shard_init 1), kv_a0) [KvSet [1] [7]] = Some (s, kv_a1)"
    and t: "shard_table s = kv_t1"
    by (simp add: shard_set_def example_insert Let_def)
  have "live (ht_entries kv_t1 ! 0)" using live_hash by (simp add: kv_t1_def)
  then have "length (filter live (ht_entries kv_t1)) = 1" by (simp add: kv_t1_def)
  with shard_entry_count_exact [OF i(1) r] r t show ?thesis by auto
qed

definition kv_s1 :: kv_store where
  "kv_s1 = \<lparr>num_shards = 1, shard_mask = 0, total_operations = 1, total_keys = 1,
     shards = [\<lparr>operation_count = 1, entry_count = 1, memory_used = 2, shard_table = kv_t1\<rparr>],
     shard_capacity = 1, kv_arena = kv_a1\<rparr>"

theorem overwrite_counts_key_again_witness:
  "\<exists>s'. kv_set kv_s1 [1] [8] = Some (s', Inr ()) \<and> total_keys s' = 2 \<and> kv_stats_entries s' = 1"
proof -
  have g: "get_shard kv_s1 [1] = Some 0" by (simp add: get_shard_def shard_ptr_def kv_s1_def)
  have get: "ht_get kv_t1 kv_a1 [1] = Some (Some (get_value kv_a1 (entry_at kv_t1 0)))"
    by (simp add: ht_get_def example_lookup)
  obtain t a where "ht_insert kv_t1 kv_a1 [1] [8] = Some (t, a, Inr False)"
    by (simp add: ht_insert_def example_lookup) (simp add: entry_at_def kv_t1_def replace_block_def entry_size_def)
  then obtain s' where s': "kv_set kv_s1 [1] [8] = Some (s', Inr ())"
    by (simp add: kv_set_def g shard_set_def Let_def) (simp add: kv_s1_def Let_def)
  have "kv_inv (shard_table (shards kv_s1 ! 0)) (kv_arena kv_s1)" "0 < length (shards kv_s1)"
    "ht_get (shard_table (shards kv_s1 ! 0)) (kv_arena kv_s1) [1] = Some (Some (get_value kv_a1 (entry_at kv_t1 0)))"
    using kv_t1_inv get by (simp_all add: kv_s1_def)
  from overwrite_counts_key_again [OF this(1,2) g this(3) s'] s' show ?thesis
    by (simp add: kv_stats_entries_def) (simp add: kv_s1_def)
qed

end
