(* ===== verification/Cache_Data.thy ===== *)
theory Cache_Data
  imports Document Store_Spec Complex_Main
begin

text \<open>
  The values of the cache (\<open>veddb-core/src/cache/data_structures.rs\<close>): strings, lists, sets, sorted
  sets and hashes, and the metadata kept with a value. Time is in nanoseconds; the clock is the
  argument \<open>now\<close>. Scores of sorted sets are real numbers: floats that are not NaN, whose order they
  have. Sizes and counts are natural numbers: they count objects in memory. A result \<open>None\<close> of
  \<open>lrange\<close> and \<open>zrange\<close> is the panic of a slice whose start is after its end.
\<close>

section \<open>Index ranges\<close>

text \<open>
  The arithmetic on 64-bit signed indices that \<open>lrange\<close> and \<open>zrange\<close> share. With the largest
  index as \<open>stop\<close> the addition of one overflows: a panic, or after wrapping around an end that is
  out of range and panics in the slice.
\<close>

definition start_index :: "int \<Rightarrow> int \<Rightarrow> int" where
  "start_index len start = (if start < 0 then max (len + start) 0 else min start len)"

definition stop_index :: "int \<Rightarrow> int \<Rightarrow> int" where
  "stop_index len stop = (if stop < 0 then max (len + stop + 1) 0 else min (stop + 1) len)"

definition index_slice :: "'a list \<Rightarrow> int \<Rightarrow> int \<Rightarrow> 'a list option" where
  "index_slice xs start stop =
     (let a = start_index (int (length xs)) start; b = stop_index (int (length xs)) stop
      in if stop = 2 ^ 63 - 1 \<or> b < a then None else Some (drop (nat a) (take (nat b) xs)))"

section \<open>Lists\<close>

type_synonym cache_list = "ved_value list"

definition lpush :: "cache_list \<Rightarrow> ved_value \<Rightarrow> cache_list" where
  "lpush l v = v # l"

definition rpush :: "cache_list \<Rightarrow> ved_value \<Rightarrow> cache_list" where
  "rpush l v = l @ [v]"

definition lpop :: "cache_list \<Rightarrow> cache_list \<times> ved_value option" where
  "lpop l = (case l of [] \<Rightarrow> ([], None) | v # vs \<Rightarrow> (vs, Some v))"

definition rpop :: "cache_list \<Rightarrow> cache_list \<times> ved_value option" where
  "rpop l = (if l = [] then ([], None) else (butlast l, Some (last l)))"

text \<open>A negative index that stays negative is a huge unsigned one, and so out of range.\<close>

definition lindex :: "cache_list \<Rightarrow> int \<Rightarrow> ved_value option" where
  "lindex l index =
     (let i = (if index < 0 then int (length l) + index else index)
      in if 0 \<le> i \<and> i < int (length l) then Some (l ! nat i) else None)"

definition llen :: "cache_list \<Rightarrow> nat" where
  "llen l = length l"

definition lrange :: "cache_list \<Rightarrow> int \<Rightarrow> int \<Rightarrow> ved_value list option" where
  "lrange l start stop = index_slice l start stop"

definition list_size_bytes :: "cache_list \<Rightarrow> nat" where
  "list_size_bytes l = sum_list (map size_bytes l) + 16"

section \<open>Sets\<close>

text \<open>A \<open>BTreeSet\<close> of strings: a map to the unit value, kept in the order of the members.\<close>

type_synonym cache_set = "unit btree_map"

definition sadd :: "cache_set \<Rightarrow> string \<Rightarrow> cache_set \<times> bool" where
  "sadd s m = (if map_of s m = None then (bt_insert m () s, True) else (s, False))"

definition srem :: "cache_set \<Rightarrow> string \<Rightarrow> cache_set \<times> bool" where
  "srem s m = (bt_remove m s, map_of s m \<noteq> None)"

definition sismember :: "cache_set \<Rightarrow> string \<Rightarrow> bool" where
  "sismember s m = (map_of s m \<noteq> None)"

definition smembers :: "cache_set \<Rightarrow> string list" where
  "smembers s = map fst s"

definition scard :: "cache_set \<Rightarrow> nat" where
  "scard s = length s"

definition set_size_bytes :: "cache_set \<Rightarrow> nat" where
  "set_size_bytes s = sum_list (map (\<lambda>(m, _). length m) s) + 16"

section \<open>Sorted sets\<close>

type_synonym cache_sorted_set = "real btree_map"

definition zadd :: "cache_sorted_set \<Rightarrow> string \<Rightarrow> real \<Rightarrow> cache_sorted_set \<times> bool" where
  "zadd z m score = (bt_insert m score z, map_of z m = None)"

definition zrem :: "cache_sorted_set \<Rightarrow> string \<Rightarrow> cache_sorted_set \<times> bool" where
  "zrem z m = (bt_remove m z, map_of z m \<noteq> None)"

definition zscore :: "cache_sorted_set \<Rightarrow> string \<Rightarrow> real option" where
  "zscore z m = map_of z m"

definition zcard :: "cache_sorted_set \<Rightarrow> nat" where
  "zcard z = length z"

definition zrange :: "cache_sorted_set \<Rightarrow> int \<Rightarrow> int \<Rightarrow> (string \<times> real) list option" where
  "zrange z start stop = index_slice (sort_key snd z) start stop"

definition zrangebyscore :: "cache_sorted_set \<Rightarrow> real \<Rightarrow> real \<Rightarrow> (string \<times> real) list" where
  "zrangebyscore z lo hi = sort_key snd (filter (\<lambda>(_, s). lo \<le> s \<and> s \<le> hi) z)"

definition zset_size_bytes :: "cache_sorted_set \<Rightarrow> nat" where
  "zset_size_bytes z = sum_list (map (\<lambda>(m, _). length m + 8) z) + 16"

section \<open>Hashes\<close>

type_synonym cache_hash = "ved_value btree_map"

definition hset :: "cache_hash \<Rightarrow> string \<Rightarrow> ved_value \<Rightarrow> cache_hash \<times> bool" where
  "hset h f v = (bt_insert f v h, map_of h f = None)"

definition hget :: "cache_hash \<Rightarrow> string \<Rightarrow> ved_value option" where
  "hget h f = map_of h f"

definition hdel :: "cache_hash \<Rightarrow> string \<Rightarrow> cache_hash \<times> bool" where
  "hdel h f = (bt_remove f h, map_of h f \<noteq> None)"

definition hexists :: "cache_hash \<Rightarrow> string \<Rightarrow> bool" where
  "hexists h f = (map_of h f \<noteq> None)"

definition hkeys :: "cache_hash \<Rightarrow> string list" where
  "hkeys h = map fst h"

definition hvals :: "cache_hash \<Rightarrow> ved_value list" where
  "hvals h = map snd h"

definition hlen :: "cache_hash \<Rightarrow> nat" where
  "hlen h = length h"

definition hash_size_bytes :: "cache_hash \<Rightarrow> nat" where
  "hash_size_bytes h = sum_list (map (\<lambda>(f, v). length f + size_bytes v) h) + 16"

section \<open>Values with metadata\<close>

datatype cache_data =
    CString ved_value
  | CList cache_list
  | CSet cache_set
  | CSortedSet cache_sorted_set
  | CHash cache_hash

definition data_size_bytes :: "cache_data \<Rightarrow> nat" where
  "data_size_bytes d =
     (case d of CString v \<Rightarrow> size_bytes v | CList l \<Rightarrow> list_size_bytes l | CSet s \<Rightarrow> set_size_bytes s
      | CSortedSet z \<Rightarrow> zset_size_bytes z | CHash h \<Rightarrow> hash_size_bytes h)"

record cached_value =
  cv_value :: cache_data
  cv_expires_at :: "int option"
  cv_last_accessed :: int
  cv_access_count :: nat
  cv_size_bytes :: nat

definition nanos :: int where
  "nanos = 1000000000"

definition cached_new :: "int \<Rightarrow> cache_data \<Rightarrow> cached_value" where
  "cached_new now d = \<lparr>cv_value = d, cv_expires_at = None, cv_last_accessed = now, cv_access_count = 0,
     cv_size_bytes = data_size_bytes d\<rparr>"

definition cached_with_ttl :: "int \<Rightarrow> cache_data \<Rightarrow> nat \<Rightarrow> cached_value" where
  "cached_with_ttl now d ttl_seconds = \<lparr>cv_value = d, cv_expires_at = Some (now + int ttl_seconds * nanos),
     cv_last_accessed = now, cv_access_count = 0, cv_size_bytes = data_size_bytes d\<rparr>"

definition is_expired :: "int \<Rightarrow> cached_value \<Rightarrow> bool" where
  "is_expired now c = (case cv_expires_at c of None \<Rightarrow> False | Some t \<Rightarrow> t < now)"

definition mark_accessed :: "int \<Rightarrow> cached_value \<Rightarrow> cached_value" where
  "mark_accessed now c = c\<lparr>cv_last_accessed := now, cv_access_count := cv_access_count c + 1\<rparr>"

definition update_ttl :: "int \<Rightarrow> cached_value \<Rightarrow> nat \<Rightarrow> cached_value" where
  "update_ttl now c ttl_seconds = c\<lparr>cv_expires_at := Some (now + int ttl_seconds * nanos)\<rparr>"

definition cv_persist :: "cached_value \<Rightarrow> cached_value" where
  "cv_persist c = c\<lparr>cv_expires_at := None\<rparr>"

section \<open>Laws\<close>

text \<open>The fields of a hash and the members of a sorted set are stores by key.\<close>

interpretation hash_fields: map_store "\<lambda>h f v. fst (hset h f v)" "\<lambda>h f. fst (hdel h f)" hget
  by unfold_locales (simp_all add: hset_def hdel_def hget_def map_of_bt_insert map_of_bt_remove)

interpretation scores: map_store "\<lambda>z m s. fst (zadd z m s)" "\<lambda>z m. fst (zrem z m)" zscore
  by unfold_locales (simp_all add: zadd_def zrem_def zscore_def map_of_bt_insert map_of_bt_remove)

section \<open>Properties\<close>

text \<open>
  Ranges of lists. A request for the elements from \<open>start\<close> to \<open>stop\<close>, both inside the
  list, returns exactly those; a \<open>start\<close> more than one after \<open>stop\<close> panics instead of returning an
  empty range.
\<close>

theorem lrange_slice_or_panic:
  assumes "0 \<le> stop" and "stop + 1 < int (length l)" and "stop < 2 ^ 63 - 1" and "0 \<le> start"
  shows "(start \<le> stop + 1 \<longrightarrow> lrange l start stop = Some (map (\<lambda>i. l ! i) [nat start..<Suc (nat stop)])) \<and>
     (stop + 1 < start \<longrightarrow> lrange l start stop = None)"
proof -
  have b: "stop_index (int (length l)) stop = stop + 1" using assms(1,2) by (simp add: stop_index_def)
  have a: "start \<le> stop + 1 \<Longrightarrow> start_index (int (length l)) start = start"
    "stop + 1 < start \<Longrightarrow> stop + 1 < start_index (int (length l)) start"
    using assms by (auto simp: start_index_def)
  have "drop (nat start) (take (nat (stop + 1)) l) = map (\<lambda>i. l ! i) [nat start..<Suc (nat stop)]"
    using assms by (intro nth_equalityI) (auto simp: nat_add_distrib simp del: upt_Suc)
  then show ?thesis
    using a b assms by (auto simp: lrange_def index_slice_def Let_def)
qed

theorem lrange_slice_or_panic_witness:
  "lrange [Null, Bool True, Bool False] 2 0 = None \<and> lrange [Null, Bool True, Bool False] 0 1 = Some [Null, Bool True]"
  using lrange_slice_or_panic [of 0 "[Null, Bool True, Bool False]" 2]
    lrange_slice_or_panic [of 1 "[Null, Bool True, Bool False]" 0] by (simp add: upt_rec)

end
