(* ===== verification/Cache_Layer.thy ===== *)
theory Cache_Layer
  imports Cache_Data Stable_Sort
begin

text \<open>
  The cache: eviction policies (\<open>veddb-core/src/cache/eviction.rs\<close>), the heap of expiry times
  (\<open>veddb-core/src/cache/ttl_manager.rs\<close>) and the cache itself
  (\<open>veddb-core/src/cache/cache_layer.rs\<close>). The concurrent map is an association list in the order in
  which it is iterated; the heap is the list of its entries. Calls run one after the other; the
  clock is read once per call. Eviction scores are whole seconds or counts, which the floats of the
  code represent exactly below \<open>2 ^ 53\<close>; the largest float, for a value without expiry, is \<open>None\<close>
  at the upper end.
\<close>

section \<open>Eviction policies\<close>

datatype eviction_policy = LRU | LFU | TTL | NoEviction

text \<open>\<open>num_seconds\<close> of a duration: truncated towards zero.\<close>

definition num_seconds :: "int \<Rightarrow> int" where
  "num_seconds d = (if d < 0 then - ((- d) div nanos) else d div nanos)"

fun calculate_score :: "eviction_policy \<Rightarrow> cached_value \<Rightarrow> int \<Rightarrow> int option" where
  "calculate_score LRU c now = Some (num_seconds (now - cv_last_accessed c))"
| "calculate_score LFU c now = Some (int (cv_access_count c))"
| "calculate_score TTL c now = map_option (\<lambda>t. num_seconds (t - now)) (cv_expires_at c)"
| "calculate_score NoEviction c now = Some 0"

fun score_le :: "int option \<Rightarrow> int option \<Rightarrow> bool" where
  "score_le _ None = True"
| "score_le None (Some _) = False"
| "score_le (Some a) (Some b) = (a \<le> b)"

definition evicts_before :: "eviction_policy \<Rightarrow> int option \<Rightarrow> int option \<Rightarrow> bool" where
  "evicts_before p a b = (if p = LRU then score_le b a else score_le a b)"

definition select_victims ::
  "eviction_policy \<Rightarrow> int \<Rightarrow> (string \<times> cached_value) list \<Rightarrow> nat \<Rightarrow> string list"
where
  "select_victims p now candidates cnt =
     (if p = NoEviction then []
      else map fst (take cnt (sort_by (\<lambda>a b. evicts_before p (snd a) (snd b))
             (map (\<lambda>(k, c). (k, calculate_score p c now)) candidates))))"

record eviction_stats =
  total_evictions :: nat
  evictions_by_policy :: nat
  evictions_by_ttl :: nat
  bytes_evicted :: nat

definition record_eviction :: "eviction_stats \<Rightarrow> nat \<Rightarrow> bool \<Rightarrow> eviction_stats" where
  "record_eviction st sz by_ttl =
     (let st1 = st\<lparr>total_evictions := total_evictions st + 1, bytes_evicted := bytes_evicted st + sz\<rparr>
      in if by_ttl then st1\<lparr>evictions_by_ttl := evictions_by_ttl st + 1\<rparr>
         else st1\<lparr>evictions_by_policy := evictions_by_policy st + 1\<rparr>)"

section \<open>The heap of expiry times\<close>

type_synonym ttl_heap = "(string \<times> int) list"

definition ttl_add :: "ttl_heap \<Rightarrow> string \<Rightarrow> int \<Rightarrow> ttl_heap" where
  "ttl_add h key t = h @ [(key, t)]"

definition ttl_remove :: "ttl_heap \<Rightarrow> string \<Rightarrow> ttl_heap" where
  "ttl_remove h key = filter (\<lambda>(k, _). k \<noteq> key) h"

definition ttl_update :: "ttl_heap \<Rightarrow> string \<Rightarrow> int \<Rightarrow> ttl_heap" where
  "ttl_update h key t = ttl_add (ttl_remove h key) key t"

text \<open>The loop pops, earliest first, until the earliest entry is in the future.\<close>

definition get_expired_keys :: "ttl_heap \<Rightarrow> int \<Rightarrow> ttl_heap \<times> string list" where
  "get_expired_keys h now =
     (filter (\<lambda>(_, t). \<not> t \<le> now) h, map fst (sort_key snd (filter (\<lambda>(_, t). t \<le> now) h)))"

definition next_expiration :: "ttl_heap \<Rightarrow> int option" where
  "next_expiration h = (if h = [] then None else Some (Min (set (map snd h))))"

definition ttl_len :: "ttl_heap \<Rightarrow> nat" where
  "ttl_len h = length h"

section \<open>The cache\<close>

record cache_config =
  max_size_bytes :: nat
  eviction_policy_of :: eviction_policy
  default_ttl :: "nat option"

record cache_stats =
  hits :: nat
  misses :: nat
  sets :: nat
  ev_stats :: eviction_stats

record cache_layer =
  cache :: "(string \<times> cached_value) list"
  ttl_manager :: ttl_heap
  cache_config_of :: cache_config
  current_size :: nat
  cstats :: cache_stats

definition cache_new :: "cache_config \<Rightarrow> cache_layer" where
  "cache_new cfg = \<lparr>cache = [], ttl_manager = [], cache_config_of = cfg, current_size = 0,
     cstats = \<lparr>hits = 0, misses = 0, sets = 0, ev_stats = \<lparr>total_evictions = 0, evictions_by_policy = 0,
       evictions_by_ttl = 0, bytes_evicted = 0\<rparr>\<rparr>\<rparr>"

text \<open>Taking a value out of the map and off the size.\<close>

definition take_out :: "cache_layer \<Rightarrow> string \<Rightarrow> cache_layer \<times> cached_value option" where
  "take_out s key =
     (case map_of (cache s) key of
        None \<Rightarrow> (s, None)
      | Some c \<Rightarrow> (s\<lparr>cache := al_del key (cache s), current_size := current_size s - cv_size_bytes c\<rparr>, Some c))"

definition note_eviction :: "cache_layer \<Rightarrow> nat \<Rightarrow> bool \<Rightarrow> cache_layer" where
  "note_eviction s sz by_ttl =
     s\<lparr>cstats := (cstats s)\<lparr>ev_stats := record_eviction (ev_stats (cstats s)) sz by_ttl\<rparr>\<rparr>"

definition cache_remove :: "cache_layer \<Rightarrow> string \<Rightarrow> cache_layer \<times> bool" where
  "cache_remove s key =
     (case take_out s key of
        (s', None) \<Rightarrow> (s', False)
      | (s', Some c) \<Rightarrow> (s'\<lparr>ttl_manager := ttl_remove (ttl_manager s') key\<rparr>, True))"

definition evict_expired_key :: "string \<Rightarrow> cache_layer \<Rightarrow> cache_layer" where
  "evict_expired_key key s =
     (case take_out s key of (s', None) \<Rightarrow> s' | (s', Some c) \<Rightarrow> note_eviction s' (cv_size_bytes c) True)"

definition evict_expired :: "int \<Rightarrow> cache_layer \<Rightarrow> cache_layer" where
  "evict_expired now s =
     (let (h, keys) = get_expired_keys (ttl_manager s) now
      in fold evict_expired_key keys (s\<lparr>ttl_manager := h\<rparr>))"

definition record_miss :: "cache_layer \<Rightarrow> cache_layer" where
  "record_miss s = s\<lparr>cstats := (cstats s)\<lparr>misses := misses (cstats s) + 1\<rparr>\<rparr>"

definition record_hit :: "cache_layer \<Rightarrow> cache_layer" where
  "record_hit s = s\<lparr>cstats := (cstats s)\<lparr>hits := hits (cstats s) + 1\<rparr>\<rparr>"

definition record_set :: "cache_layer \<Rightarrow> cache_layer" where
  "record_set s = s\<lparr>cstats := (cstats s)\<lparr>sets := sets (cstats s) + 1\<rparr>\<rparr>"

definition cache_get :: "int \<Rightarrow> cache_layer \<Rightarrow> string \<Rightarrow> cache_layer \<times> cache_data option" where
  "cache_get now s key =
     (let s1 = evict_expired now s
      in case map_of (cache s1) key of
           None \<Rightarrow> (record_miss s1, None)
         | Some c \<Rightarrow>
             (if is_expired now c then (record_miss (fst (cache_remove s1 key)), None)
              else (record_hit (s1\<lparr>cache := al_put key (mark_accessed now c) (cache s1)\<rparr>), Some (cv_value c))))"

text \<open>Evicting victims until enough bytes are free.\<close>

fun evict_loop :: "string list \<Rightarrow> nat \<Rightarrow> nat \<Rightarrow> cache_layer \<Rightarrow> cache_layer" where
  "evict_loop [] target evicted s = s"
| "evict_loop (key # keys) target evicted s =
     (if target \<le> evicted then s
      else case take_out s key of
             (s', None) \<Rightarrow> evict_loop keys target evicted s'
           | (s', Some c) \<Rightarrow>
               evict_loop keys target (evicted + cv_size_bytes c)
                 (note_eviction (s'\<lparr>ttl_manager := ttl_remove (ttl_manager s') key\<rparr>) (cv_size_bytes c) False))"

definition evict_by_policy :: "int \<Rightarrow> nat \<Rightarrow> cache_layer \<Rightarrow> cache_layer" where
  "evict_by_policy now target s =
     (if cache s = [] then s
      else evict_loop (select_victims (eviction_policy_of (cache_config_of s)) now (cache s) (length (cache s)))
             target 0 s)"

text \<open>
  \<open>(target_size as f64 * 1.2) as usize\<close>: for sizes below \<open>2 ^ 50\<close> the product, rounded to a
  float, and its truncation are the whole part of six fifths.
\<close>

definition evict_size :: "nat \<Rightarrow> nat" where
  "evict_size target = 6 * target div 5"

definition ensure_space :: "int \<Rightarrow> nat \<Rightarrow> cache_layer \<Rightarrow> (string, cache_layer) result" where
  "ensure_space now required s =
     (let max_size = max_size_bytes (cache_config_of s)
      in if current_size s + required \<le> max_size then Inr s
         else if eviction_policy_of (cache_config_of s) = NoEviction
              then Inl ''Cache is full and eviction is disabled''
              else Inr (evict_by_policy now (evict_size (current_size s + required - max_size)) s))"

definition set_with_ttl ::
  "int \<Rightarrow> cache_layer \<Rightarrow> string \<Rightarrow> cache_data \<Rightarrow> nat option \<Rightarrow> cache_layer \<times> (string, unit) result"
where
  "set_with_ttl now s key d ttl =
     (let (c, s1) = (case ttl of
            None \<Rightarrow> (cached_new now d, s)
          | Some n \<Rightarrow> (cached_with_ttl now d n,
                       s\<lparr>ttl_manager := ttl_add (ttl_manager s) key (now + int n * nanos)\<rparr>))
      in case ensure_space now (cv_size_bytes c) s1 of
           Inl m \<Rightarrow> (s1, Inl m)
         | Inr s2 \<Rightarrow>
             (let old = (case map_of (cache s2) key of None \<Rightarrow> 0 | Some prev \<Rightarrow> cv_size_bytes prev);
                  s3 = s2\<lparr>cache := al_put key c (cache s2),
                          current_size := current_size s2 - old + cv_size_bytes c\<rparr>
              in (record_set s3, Inr ())))"

definition cache_set :: "int \<Rightarrow> cache_layer \<Rightarrow> string \<Rightarrow> cache_data \<Rightarrow> cache_layer \<times> (string, unit) result" where
  "cache_set now s key d = set_with_ttl now s key d (default_ttl (cache_config_of s))"

definition cache_exists :: "int \<Rightarrow> cache_layer \<Rightarrow> string \<Rightarrow> cache_layer \<times> bool" where
  "cache_exists now s key = (let (s', r) = cache_get now s key in (s', r \<noteq> None))"

definition expire :: "int \<Rightarrow> cache_layer \<Rightarrow> string \<Rightarrow> nat \<Rightarrow> cache_layer \<times> bool" where
  "expire now s key ttl_seconds =
     (case map_of (cache s) key of
        None \<Rightarrow> (s, False)
      | Some c \<Rightarrow> (s\<lparr>cache := al_put key (update_ttl now c ttl_seconds) (cache s),
                    ttl_manager := ttl_update (ttl_manager s) key (now + int ttl_seconds * nanos)\<rparr>, True))"

definition cache_persist :: "cache_layer \<Rightarrow> string \<Rightarrow> cache_layer \<times> bool" where
  "cache_persist s key =
     (case map_of (cache s) key of
        None \<Rightarrow> (s, False)
      | Some c \<Rightarrow> (s\<lparr>cache := al_put key (cv_persist c) (cache s),
                    ttl_manager := ttl_remove (ttl_manager s) key\<rparr>, True))"

definition cache_ttl :: "int \<Rightarrow> cache_layer \<Rightarrow> string \<Rightarrow> int option" where
  "cache_ttl now s key =
     (case map_of (cache s) key of
        None \<Rightarrow> None
      | Some c \<Rightarrow> (case cv_expires_at c of None \<Rightarrow> Some (- 1) | Some t \<Rightarrow> Some (num_seconds (t - now))))"

definition cache_clear :: "cache_layer \<Rightarrow> cache_layer" where
  "cache_clear s = s\<lparr>cache := [], ttl_manager := [], current_size := 0\<rparr>"

section \<open>The size counter\<close>

definition total_size :: "(string \<times> cached_value) list \<Rightarrow> nat" where
  "total_size m = sum_list (map (\<lambda>(_, c). cv_size_bytes c) m)"

definition cache_wf :: "cache_layer \<Rightarrow> bool" where
  "cache_wf s \<longleftrightarrow> distinct (map fst (cache s)) \<and> current_size s = total_size (cache s)"

lemma total_size_del:
  "distinct (map fst m) \<Longrightarrow> map_of m k = Some c \<Longrightarrow> total_size (al_del k m) + cv_size_bytes c = total_size m"
proof (induction m)
  case (Cons p m)
  obtain k' c' where p: "p = (k', c')" by fastforce
  show ?case
  proof (cases "k' = k")
    case True
    with Cons.prems(1) p have "al_del k m = m"
      by (auto simp: al_del_def filter_id_conv rev_image_eqI)
    with True p Cons.prems(2) show ?thesis by (simp add: total_size_def al_del_def)
  next
    case False
    with Cons p show ?thesis by (simp add: total_size_def al_del_def)
  qed
qed simp

lemma total_size_put:
  "distinct (map fst m) \<Longrightarrow>
   total_size (al_put k c m) + (case map_of m k of None \<Rightarrow> 0 | Some c0 \<Rightarrow> cv_size_bytes c0) =
   total_size m + cv_size_bytes c"
  by (induction k c m rule: al_put.induct) (auto simp: total_size_def)

lemma total_size_ge: "map_of m k = Some c \<Longrightarrow> cv_size_bytes c \<le> total_size m"
  by (induction m) (auto simp: total_size_def split: if_splits)

lemma take_out_wf:
  assumes "cache_wf s" and "take_out s key = (s', r)"
  shows "cache_wf s'" and "cache s' = al_del key (cache s)" 
    and "current_size s' + (case r of None \<Rightarrow> 0 | Some c \<Rightarrow> cv_size_bytes c) = current_size s"
    and "ttl_manager s' = ttl_manager s" and "cache_config_of s' = cache_config_of s"
proof -
  have d: "distinct (map fst (cache s))" using assms(1) by (simp add: cache_wf_def)
  have none: "al_del key (cache s) = cache s" if "map_of (cache s) key = None"
    using that by (auto simp: al_del_def filter_id_conv map_of_eq_None_iff image_iff)
  show "cache_wf s'" "cache s' = al_del key (cache s)"
    "current_size s' + (case r of None \<Rightarrow> 0 | Some c \<Rightarrow> cv_size_bytes c) = current_size s"
    "ttl_manager s' = ttl_manager s" "cache_config_of s' = cache_config_of s"
    using assms none total_size_del [OF d, of key] distinct_al_del [OF d, of key]
    by (cases "map_of (cache s) key"; fastforce simp: take_out_def cache_wf_def)+
qed

lemma note_eviction_simps [simp]:
  "cache (note_eviction s n b) = cache s" "current_size (note_eviction s n b) = current_size s"
  "ttl_manager (note_eviction s n b) = ttl_manager s" "cache_config_of (note_eviction s n b) = cache_config_of s"
  by (simp_all add: note_eviction_def)

lemma cache_wf_cong: "cache s' = cache s \<Longrightarrow> current_size s' = current_size s \<Longrightarrow> cache_wf s' = cache_wf s"
  by (simp add: cache_wf_def)

lemma evict_expired_key_wf:
  assumes "cache_wf s"
  shows "cache_wf (evict_expired_key key s)" and "cache (evict_expired_key key s) = al_del key (cache s)"
    and "cache_config_of (evict_expired_key key s) = cache_config_of s"
proof -
  obtain s' r where t: "take_out s key = (s', r)" by fastforce
  from take_out_wf [OF assms t] t show "cache_wf (evict_expired_key key s)"
    "cache (evict_expired_key key s) = al_del key (cache s)"
    "cache_config_of (evict_expired_key key s) = cache_config_of s"
    by (auto simp: evict_expired_key_def cache_wf_def split: option.splits)
qed

lemma evict_expired_fold:
  assumes "cache_wf s"
  shows "cache_wf (fold evict_expired_key keys s) \<and>
     map_of (cache (fold evict_expired_key keys s)) k = (if k \<in> set keys then None else map_of (cache s) k) \<and>
     cache_config_of (fold evict_expired_key keys s) = cache_config_of s"
  using assms
proof (induction keys arbitrary: s)
  case (Cons key keys)
  from Cons.IH [OF evict_expired_key_wf(1) [OF Cons.prems]] evict_expired_key_wf [OF Cons.prems] show ?case
    by (auto simp: map_of_al_del)
qed simp

lemma evict_expired_wf:
  assumes "cache_wf s"
  shows "cache_wf (evict_expired now s)"
    and "map_of (cache (evict_expired now s)) k =
      (if \<exists>t \<le> now. (k, t) \<in> set (ttl_manager s) then None else map_of (cache s) k)"
    and "cache_config_of (evict_expired now s) = cache_config_of s"
proof -
  let ?keys = "snd (get_expired_keys (ttl_manager s) now)"
  let ?s = "s\<lparr>ttl_manager := fst (get_expired_keys (ttl_manager s) now)\<rparr>"
  have e: "evict_expired now s = fold evict_expired_key ?keys ?s"
    by (simp add: evict_expired_def Let_def case_prod_beta)
  have wf: "cache_wf ?s" using assms by (simp add: cache_wf_def)
  have keys: "k \<in> set ?keys \<longleftrightarrow> (\<exists>t \<le> now. (k, t) \<in> set (ttl_manager s))"
    by (force simp: get_expired_keys_def)
  from evict_expired_fold [OF wf, of ?keys k] keys
  show "cache_wf (evict_expired now s)" "map_of (cache (evict_expired now s)) k =
      (if \<exists>t \<le> now. (k, t) \<in> set (ttl_manager s) then None else map_of (cache s) k)"
    "cache_config_of (evict_expired now s) = cache_config_of s"
    by (auto simp: e)
qed

section \<open>Victims\<close>

lemma score_le_total: "score_le a b \<or> score_le b a"
  by (cases a; cases b) auto

lemma score_le_trans: "score_le a b \<Longrightarrow> score_le b c \<Longrightarrow> score_le a c"
  by (cases a; cases b; cases c) auto

lemma evicts_before_order:
  "evicts_before p a b \<or> evicts_before p b a" "evicts_before p a b \<Longrightarrow> evicts_before p b c \<Longrightarrow> evicts_before p a c"
  using score_le_total score_le_trans by (auto simp: evicts_before_def split: if_splits)

lemma select_victims_all:
  "p \<noteq> NoEviction \<Longrightarrow> set (select_victims p now m (length m)) = fst ` set m"
  by (auto simp: select_victims_def image_iff split: prod.splits) force+

section \<open>Eviction makes room\<close>

lemma evict_loop_wf:
  assumes "cache_wf s"
  shows "cache_wf (evict_loop keys target ev s) \<and>
     current_size (evict_loop keys target ev s) \<le> current_size s \<and>
     cache_config_of (evict_loop keys target ev s) = cache_config_of s \<and>
     set (cache (evict_loop keys target ev s)) \<subseteq> set (cache s) \<and>
     (target + current_size (evict_loop keys target ev s) \<le> ev + current_size s \<or>
      (\<forall>k \<in> set keys. map_of (cache (evict_loop keys target ev s)) k = None))"
  using assms
proof (induction keys target ev s rule: evict_loop.induct)
  case (2 key keys target ev s)
  show ?case
  proof (cases "target \<le> ev")
    case True
    with 2(3) show ?thesis by simp
  next
    case False
    obtain s' r where t: "take_out s key = (s', r)" by fastforce
    note tw = take_out_wf [OF 2(3) t]
    define s1 where "s1 = (case r of None \<Rightarrow> s'
      | Some c \<Rightarrow> note_eviction (s'\<lparr>ttl_manager := ttl_remove (ttl_manager s') key\<rparr>) (cv_size_bytes c) False)"
    define ev1 where "ev1 = ev + (case r of None \<Rightarrow> 0 | Some c \<Rightarrow> cv_size_bytes c)"
    have step: "evict_loop (key # keys) target ev s = evict_loop keys target ev1 s1"
      using False t by (simp add: s1_def ev1_def split: option.splits)
    have s1: "cache_wf s1" "cache s1 = al_del key (cache s)" "cache_config_of s1 = cache_config_of s"
      "ev1 + current_size s1 = ev + current_size s" "current_size s1 \<le> current_size s"
      using tw by (auto simp: s1_def ev1_def cache_wf_def split: option.splits)
    have ih: "cache_wf (evict_loop keys target ev1 s1) \<and>
       current_size (evict_loop keys target ev1 s1) \<le> current_size s1 \<and>
       cache_config_of (evict_loop keys target ev1 s1) = cache_config_of s1 \<and>
       set (cache (evict_loop keys target ev1 s1)) \<subseteq> set (cache s1) \<and>
       (target + current_size (evict_loop keys target ev1 s1) \<le> ev1 + current_size s1 \<or>
        (\<forall>k \<in> set keys. map_of (cache (evict_loop keys target ev1 s1)) k = None))"
      using 2(1,2) [OF False t [symmetric]] s1(1) by (cases r) (auto simp: s1_def ev1_def)
    have "map_of (cache (evict_loop keys target ev1 s1)) key = None"
      using ih s1(2) by (auto simp: map_of_eq_None_iff set_al_del)
    with ih s1 show ?thesis unfolding step by (auto simp: set_al_del)
  qed
qed simp

lemma evict_by_policy_room:
  assumes "cache_wf s" and "eviction_policy_of (cache_config_of s) \<noteq> NoEviction"
  shows "cache_wf (evict_by_policy now target s) \<and> cache_config_of (evict_by_policy now target s) = cache_config_of s \<and>
     (target + current_size (evict_by_policy now target s) \<le> current_size s \<or>
      current_size (evict_by_policy now target s) = 0)"
proof (cases "cache s = []")
  case True
  with assms(1) show ?thesis by (simp add: evict_by_policy_def cache_wf_def total_size_def)
next
  case False
  let ?s = "evict_by_policy now target s"
  let ?keys = "select_victims (eviction_policy_of (cache_config_of s)) now (cache s) (length (cache s))"
  have e: "?s = evict_loop ?keys target 0 s" using False by (simp add: evict_by_policy_def)
  note w = evict_loop_wf [OF assms(1), of ?keys target 0, folded e]
  have "cache ?s = []" if "\<forall>k \<in> set ?keys. map_of (cache ?s) k = None"
  proof (rule ccontr)
    assume "cache ?s \<noteq> []"
    then obtain p where p: "p \<in> set (cache ?s)" by (cases "cache ?s") auto
    then have "fst p \<in> set ?keys" using w select_victims_all [OF assms(2), of now "cache s"] by auto
    with that p show False by (metis map_of_eq_None_iff image_eqI)
  qed
  with w show ?thesis by (auto simp: cache_wf_def total_size_def)
qed

lemma evict_size_ge: "t \<le> evict_size t"
  by (simp add: evict_size_def)

lemma ensure_space_room:
  assumes "cache_wf s" and "ensure_space now required s = Inr s'"
  shows "cache_wf s' \<and> cache_config_of s' = cache_config_of s \<and>
     (required \<le> max_size_bytes (cache_config_of s) \<longrightarrow>
        current_size s' + required \<le> max_size_bytes (cache_config_of s))"
proof (cases "current_size s + required \<le> max_size_bytes (cache_config_of s)")
  case True
  with assms show ?thesis by (simp add: ensure_space_def Let_def)
next
  case False
  let ?t = "current_size s + required - max_size_bytes (cache_config_of s)"
  from False assms(2) have p: "eviction_policy_of (cache_config_of s) \<noteq> NoEviction"
    and s': "s' = evict_by_policy now (evict_size ?t) s"
    by (auto simp: ensure_space_def Let_def split: if_splits)
  from evict_by_policy_room [OF assms(1) p, of now "evict_size ?t"] evict_size_ge [of ?t] False
  show ?thesis unfolding s' by auto
qed

lemma set_with_ttl_cases:
  assumes "set_with_ttl now s key d ttl = (s', Inr ())"
  obtains c s1 s2 where "ensure_space now (cv_size_bytes c) s1 = Inr s2"
    "cache s1 = cache s" "current_size s1 = current_size s" "cache_config_of s1 = cache_config_of s"
    "c = (case ttl of None \<Rightarrow> cached_new now d | Some n \<Rightarrow> cached_with_ttl now d n)"
    "cache s' = al_put key c (cache s2)" "cache_config_of s' = cache_config_of s2"
    "current_size s' = current_size s2 -
       (case map_of (cache s2) key of None \<Rightarrow> 0 | Some p \<Rightarrow> cv_size_bytes p) + cv_size_bytes c"
proof -
  let ?c = "case ttl of None \<Rightarrow> cached_new now d | Some n \<Rightarrow> cached_with_ttl now d n"
  let ?s1 = "case ttl of None \<Rightarrow> s
    | Some n \<Rightarrow> s\<lparr>ttl_manager := ttl_add (ttl_manager s) key (now + int n * nanos)\<rparr>"
  have "cache ?s1 = cache s" "current_size ?s1 = current_size s" "cache_config_of ?s1 = cache_config_of s"
    by (simp_all split: option.splits)
  moreover from assms obtain s2 where "ensure_space now (cv_size_bytes ?c) ?s1 = Inr s2"
    "s' = record_set (s2\<lparr>cache := al_put key ?c (cache s2),
       current_size := current_size s2 - (case map_of (cache s2) key of None \<Rightarrow> 0 | Some p \<Rightarrow> cv_size_bytes p) + cv_size_bytes ?c\<rparr>)"
    by (cases ttl) (auto simp: set_with_ttl_def Let_def split: sum.splits)
  ultimately show ?thesis by (intro that [of ?c ?s1 s2]) (simp_all add: record_set_def)
qed

lemma set_with_ttl_wf:
  assumes "cache_wf s"
  shows "cache_wf (fst (set_with_ttl now s key d ttl)) \<and>
    cache_config_of (fst (set_with_ttl now s key d ttl)) = cache_config_of s"
proof (cases "set_with_ttl now s key d ttl")
  case (Pair s' r)
  show ?thesis
  proof (cases r)
    case (Inl m)
    with Pair assms show ?thesis
      by (auto simp: set_with_ttl_def Let_def cache_wf_def split: option.splits sum.splits)
  next
    case (Inr u)
    with Pair have "set_with_ttl now s key d ttl = (s', Inr ())" by simp
    then show ?thesis
    proof (rule set_with_ttl_cases)
      fix c s1 s2
      assume a: "ensure_space now (cv_size_bytes c) s1 = Inr s2" "cache s1 = cache s"
        "current_size s1 = current_size s" "cache_config_of s1 = cache_config_of s"
        and s': "cache s' = al_put key c (cache s2)" "cache_config_of s' = cache_config_of s2"
        "current_size s' = current_size s2 -
          (case map_of (cache s2) key of None \<Rightarrow> 0 | Some p \<Rightarrow> cv_size_bytes p) + cv_size_bytes c"
      have "cache_wf s1" using assms a by (simp add: cache_wf_def)
      from ensure_space_room [OF this a(1)] have w: "cache_wf s2" "cache_config_of s2 = cache_config_of s"
        using a by auto
      have d: "distinct (map fst (cache s2))" and sz: "current_size s2 = total_size (cache s2)"
        using w by (auto simp: cache_wf_def)
      have "(case map_of (cache s2) key of None \<Rightarrow> 0 | Some p \<Rightarrow> cv_size_bytes p) \<le> total_size (cache s2)"
        using total_size_ge by (auto split: option.splits)
      with total_size_put [OF d, of key c] s' sz distinct_al_put [OF d] w(2) Pair show ?thesis
        by (simp add: cache_wf_def)
    qed
  qed
qed

section \<open>Runs\<close>

datatype cache_op =
    OpSet string cache_data "nat option"
  | OpGet string
  | OpRemove string
  | OpExpire string nat
  | OpPersist string
  | OpClear

fun cache_step :: "cache_layer \<Rightarrow> int \<times> cache_op \<Rightarrow> cache_layer" where
  "cache_step s (now, OpSet k d ttl) = fst (set_with_ttl now s k d ttl)"
| "cache_step s (now, OpGet k) = fst (cache_get now s k)"
| "cache_step s (now, OpRemove k) = fst (cache_remove s k)"
| "cache_step s (now, OpExpire k n) = fst (expire now s k n)"
| "cache_step s (now, OpPersist k) = fst (cache_persist s k)"
| "cache_step s (now, OpClear) = cache_clear s"

lemma record_wf [simp]:
  "cache_wf (record_miss s) = cache_wf s" "cache_config_of (record_miss s) = cache_config_of s"
  "cache_wf (record_hit s) = cache_wf s" "cache_config_of (record_hit s) = cache_config_of s"
  by (simp_all add: record_miss_def record_hit_def cache_wf_def)

lemma cache_clear_wf: "cache_wf (cache_clear s) \<and> cache_config_of (cache_clear s) = cache_config_of s"
  by (simp add: cache_clear_def cache_wf_def total_size_def)

lemma replace_wf:
  assumes "cache_wf s" and "map_of (cache s) k = Some c" and "cv_size_bytes c' = cv_size_bytes c"
    and "cache s' = al_put k c' (cache s)" and "current_size s' = current_size s"
  shows "cache_wf s'"
  using assms total_size_put [of "cache s" k c'] distinct_al_put [of "cache s" k c'] by (simp add: cache_wf_def)

lemma cache_remove_wf:
  assumes "cache_wf s"
  shows "cache_wf (fst (cache_remove s k)) \<and> cache (fst (cache_remove s k)) = al_del k (cache s) \<and>
     cache_config_of (fst (cache_remove s k)) = cache_config_of s"
proof -
  obtain s' r where t: "take_out s k = (s', r)" by fastforce
  from take_out_wf [OF assms t] t show ?thesis by (auto simp: cache_remove_def cache_wf_def split: option.splits)
qed

lemma cache_get_wf:
  assumes "cache_wf s"
  shows "cache_wf (fst (cache_get now s k)) \<and> cache_config_of (fst (cache_get now s k)) = cache_config_of s"
proof -
  let ?s = "evict_expired now s"
  note e = evict_expired_wf [OF assms, of now]
  show ?thesis
  proof (cases "map_of (cache ?s) k")
    case None
    with e show ?thesis by (simp add: cache_get_def Let_def)
  next
    case (Some c)
    show ?thesis
    proof (cases "is_expired now c")
      case True
      with Some cache_remove_wf [OF e(1), of k] e show ?thesis
        by (simp add: cache_get_def Let_def)
    next
      case False
      with Some e replace_wf [OF e(1) Some, of "mark_accessed now c" "fst (cache_get now s k)"] show ?thesis
        by (simp add: cache_get_def Let_def) (simp add: record_hit_def mark_accessed_def)
    qed
  qed
qed

lemma cache_step_wf:
  assumes "cache_wf s"
  shows "cache_wf (cache_step s p) \<and> cache_config_of (cache_step s p) = cache_config_of s"
proof -
  obtain now op where p: "p = (now, op)" by fastforce
  show ?thesis
  proof (cases op)
    case (OpExpire k n)
    show ?thesis
    proof (cases "map_of (cache s) k")
      case (Some c)
      with OpExpire p replace_wf [OF assms Some, of "update_ttl now c n" "cache_step s p"] show ?thesis
        by (simp add: expire_def update_ttl_def)
    qed (use OpExpire p assms in \<open>simp add: expire_def\<close>)
  next
    case (OpPersist k)
    show ?thesis
    proof (cases "map_of (cache s) k")
      case (Some c)
      with OpPersist p replace_wf [OF assms Some, of "cv_persist c" "cache_step s p"] show ?thesis
        by (simp add: cache_persist_def cv_persist_def)
    qed (use OpPersist p assms in \<open>simp add: cache_persist_def\<close>)
  qed (use p set_with_ttl_wf [OF assms] cache_get_wf [OF assms] cache_remove_wf [OF assms] cache_clear_wf in auto)
qed

lemma cache_run_wf:
  "cache_wf s \<Longrightarrow> cache_wf (foldl cache_step s ops) \<and> cache_config_of (foldl cache_step s ops) = cache_config_of s"
  by (induction ops arbitrary: s) (auto simp: cache_step_wf)

lemma cache_new_wf: "cache_wf (cache_new cfg)"
  by (simp add: cache_wf_def cache_new_def total_size_def)

lemma select_victims_order:
  assumes "p \<noteq> NoEviction" and "distinct (map fst m)"
    and "(v, cv) \<in> set m" and "v \<in> set (select_victims p now m n)"
    and "(u, cu) \<in> set m" and "u \<notin> set (select_victims p now m n)"
  shows "evicts_before p (calculate_score p cv now) (calculate_score p cu now)"
proof -
  let ?le = "\<lambda>a b :: string \<times> int option. evicts_before p (snd a) (snd b)"
  let ?xs = "sort_by ?le (map (\<lambda>(k, c). (k, calculate_score p c now)) m)"
  have sel: "select_victims p now m n = map fst (take n ?xs)" using assms(1) by (simp add: select_victims_def)
  have srt: "sorted_wrt ?le ?xs"
    by (rule sorted_sort_by) (use evicts_before_order in blast)+
  from assms(4) obtain sv where sv: "(v, sv) \<in> set (take n ?xs)" by (auto simp: sel)
  then have "(v, sv) \<in> set ?xs" by (rule in_set_takeD)
  then obtain c where "(v, c) \<in> set m" "sv = calculate_score p c now" by auto
  with assms(2,3) have score: "sv = calculate_score p cv now" by (metis eq_key_imp_eq_value)
  have "(u, calculate_score p cu now) \<in> set ?xs" using assms(5) by force
  moreover have "(u, calculate_score p cu now) \<notin> set (take n ?xs)" using assms(6) by (force simp: sel)
  ultimately have "(u, calculate_score p cu now) \<in> set (drop n ?xs)"
    by (metis Un_iff append_take_drop_id set_append)
  moreover have "sorted_wrt ?le (take n ?xs @ drop n ?xs)" using srt by (simp only: append_take_drop_id)
  ultimately have "?le (v, sv) (u, calculate_score p cu now)"
    unfolding sorted_wrt_append using sv by blast
  with score show ?thesis by simp
qed

section \<open>Properties\<close>

text \<open>
  The size counter is exact: after any operations on a new cache it is the sum of the sizes
  of the values in the map, which has each key once.
\<close>

theorem cache_size_exact:
  "distinct (map fst (cache (foldl cache_step (cache_new cfg) ops))) \<and>
   current_size (foldl cache_step (cache_new cfg) ops) =
     sum_list (map (\<lambda>(_, c). cv_size_bytes c) (cache (foldl cache_step (cache_new cfg) ops)))"
  using cache_run_wf [OF cache_new_wf, of cfg ops] by (simp add: cache_wf_def total_size_def)

text \<open>
  C23. The limit holds: after any operations on a new cache, a successful \<open>set\<close> of a value that
  by itself fits leaves the cache within its maximal size, with the value stored.
\<close>

theorem cache_stays_within_limit:
  assumes "s = foldl cache_step (cache_new cfg) ops" and "set_with_ttl now s key d ttl = (s', Inr ())"
    and "data_size_bytes d \<le> max_size_bytes cfg"
  shows "current_size s' \<le> max_size_bytes cfg \<and>
     map_option cv_value (map_of (cache s') key) = Some d"
proof -
  have wf: "cache_wf s" and cfg: "cache_config_of s = cfg"
    using cache_run_wf [OF cache_new_wf, of cfg ops] assms(1) by (auto simp: cache_new_def)
  from assms(2) show ?thesis
  proof (rule set_with_ttl_cases)
    fix c s1 s2
    assume a: "ensure_space now (cv_size_bytes c) s1 = Inr s2" "cache s1 = cache s"
      "current_size s1 = current_size s" "cache_config_of s1 = cache_config_of s"
      and c: "c = (case ttl of None \<Rightarrow> cached_new now d | Some n \<Rightarrow> cached_with_ttl now d n)"
      and s': "cache s' = al_put key c (cache s2)"
      "current_size s' = current_size s2 -
        (case map_of (cache s2) key of None \<Rightarrow> 0 | Some p \<Rightarrow> cv_size_bytes p) + cv_size_bytes c"
    have cd: "cv_size_bytes c = data_size_bytes d" "cv_value c = d"
      by (auto simp: c cached_new_def cached_with_ttl_def split: option.splits)
    have "cache_wf s1" using wf a by (simp add: cache_wf_def)
    from ensure_space_room [OF this a(1)] have "current_size s2 + cv_size_bytes c \<le> max_size_bytes cfg"
      using a(4) cfg cd(1) assms(3) by simp
    with s' cd show ?thesis by (simp add: map_of_al_put)
  qed
qed

text \<open>
  Expired values are never returned: a hit returns the value stored under the key, and this
  value has not expired.
\<close>

theorem cache_get_not_expired:
  assumes "cache_wf s" and "cache_get now s key = (s', Some d)"
  shows "\<exists>c. map_of (cache s) key = Some c \<and> cv_value c = d \<and>
     (case cv_expires_at c of None \<Rightarrow> True | Some t \<Rightarrow> now \<le> t)"
proof -
  from assms(2) obtain c where c: "map_of (cache (evict_expired now s)) key = Some c" "\<not> is_expired now c"
    "cv_value c = d"
    by (auto simp: cache_get_def Let_def split: option.splits if_splits)
  moreover from c(1) have "map_of (cache s) key = Some c"
    unfolding evict_expired_wf(2) [OF assms(1)] by (auto split: if_splits)
  ultimately show ?thesis by (auto simp: is_expired_def not_less split: option.splits)
qed

text \<open>
  A value can be lost to the expiry of the value it replaced: a key is set with a time to
  live and then set again without one. The cache says that the key does not expire, but once the
  time of the first value is over a \<open>get\<close> finds nothing: \<open>set\<close> does not take the old entry out of
  the heap.
\<close>

theorem overwritten_ttl_removes_new_value:
  assumes "cache_wf s" and "current_size s + data_size_bytes d1 \<le> max_size_bytes (cache_config_of s)"
    and "set_with_ttl t0 s key d1 (Some n) = (s1, Inr ())"
    and "current_size s1 + data_size_bytes d2 \<le> max_size_bytes (cache_config_of s1)"
    and "set_with_ttl t1 s1 key d2 None = (s2, Inr ())" and "t0 + int n * nanos \<le> now"
  shows "cache_ttl now s2 key = Some (- 1) \<and> snd (cache_get now s2 key) = None"
proof -
  have h1: "(key, t0 + int n * nanos) \<in> set (ttl_manager s1)"
    using assms(2,3) by (auto simp: set_with_ttl_def Let_def ensure_space_def cached_with_ttl_def ttl_add_def record_set_def)
  have s2: "ttl_manager s2 = ttl_manager s1" "map_of (cache s2) key = Some (cached_new t1 d2)"
    using assms(4,5) by (auto simp: set_with_ttl_def Let_def ensure_space_def cached_new_def record_set_def map_of_al_put)
  have "cache_wf s2"
    using set_with_ttl_wf [of s1 t1 key d2 None] set_with_ttl_wf [OF assms(1), of t0 key d1 "Some n"] assms(3,5) by simp
  from evict_expired_wf(2) [OF this, of now key] h1 s2(1) assms(6)
  have "map_of (cache (evict_expired now s2)) key = None" by auto
  then show ?thesis using s2(2) by (simp add: cache_get_def Let_def cache_ttl_def cached_new_def)
qed

text \<open>
  Victims come first in the order of the policy: for every key that is selected and every
  key that is not, the least recently used policy finds the first at least as old (in whole
  seconds), the least frequently used policy finds it used at most as often, and the expiry policy
  finds it to expire no later, with values that do not expire last.
\<close>

theorem victims_are_worst:
  assumes "p \<noteq> NoEviction" and "distinct (map fst m)"
    and "(v, cv) \<in> set m" and "v \<in> set (select_victims p now m n)"
    and "(u, cu) \<in> set m" and "u \<notin> set (select_victims p now m n)"
  shows "case p of
      LRU \<Rightarrow> num_seconds (now - cv_last_accessed cu) \<le> num_seconds (now - cv_last_accessed cv)
    | LFU \<Rightarrow> cv_access_count cv \<le> cv_access_count cu
    | TTL \<Rightarrow> (case cv_expires_at cu of None \<Rightarrow> True
        | Some tu \<Rightarrow> (case cv_expires_at cv of None \<Rightarrow> False | Some tv \<Rightarrow> num_seconds (tv - now) \<le> num_seconds (tu - now)))
    | NoEviction \<Rightarrow> False"
  using select_victims_order [OF assms] assms(1)
  by (cases p) (auto simp: evicts_before_def split: option.splits)

section \<open>Instances\<close>

definition example_cache_config :: cache_config where
  "example_cache_config = \<lparr>max_size_bytes = 100, eviction_policy_of = LRU, default_ttl = None\<rparr>"

definition example_cache :: cache_layer where
  "example_cache = cache_new example_cache_config"

definition example_cache1 :: cache_layer where
  "example_cache1 = fst (set_with_ttl 0 example_cache ''k'' (CString (Bool True)) (Some 10))"

lemma example_set1: "set_with_ttl 0 example_cache ''k'' (CString (Bool True)) (Some 10) = (example_cache1, Inr ())"
  by (simp add: example_cache1_def set_with_ttl_def example_cache_def cache_new_def example_cache_config_def
      ensure_space_def cached_with_ttl_def data_size_bytes_def Let_def)

theorem cache_stays_within_limit_witness: "current_size example_cache1 \<le> 100"
  using cache_stays_within_limit [of example_cache example_cache_config "[]", OF _ example_set1]
  by (simp add: example_cache_def example_cache_config_def data_size_bytes_def)

theorem cache_get_not_expired_witness:
  "\<exists>c. map_of (cache example_cache1) ''k'' = Some c \<and> cv_value c = CString (Bool True) \<and>
     (case cv_expires_at c of None \<Rightarrow> True | Some t \<Rightarrow> 5 \<le> t)"
proof -
  have wf: "cache_wf example_cache1"
    using set_with_ttl_wf [OF cache_new_wf] unfolding example_cache1_def example_cache_def by blast
  obtain s where "cache_get 5 example_cache1 ''k'' = (s, Some (CString (Bool True)))"
    by (simp add: cache_get_def example_cache1_def set_with_ttl_def example_cache_def cache_new_def
      example_cache_config_def ensure_space_def cached_with_ttl_def data_size_bytes_def Let_def record_set_def
      evict_expired_def get_expired_keys_def ttl_add_def nanos_def is_expired_def)
  from cache_get_not_expired [OF wf this] show ?thesis .
qed

theorem overwritten_ttl_removes_new_value_witness:
  "snd (cache_get (11 * nanos) (fst (set_with_ttl 1 example_cache1 ''k'' (CString (Bool False)) None)) ''k'') = None"
proof -
  have wf: "cache_wf example_cache" unfolding example_cache_def by (rule cache_new_wf)
  have fit1: "current_size example_cache + data_size_bytes (CString (Bool True)) \<le> max_size_bytes (cache_config_of example_cache)"
    by (simp add: example_cache_def cache_new_def example_cache_config_def data_size_bytes_def)
  have fit2: "current_size example_cache1 + data_size_bytes (CString (Bool False)) \<le> max_size_bytes (cache_config_of example_cache1)"
    by (simp add: example_cache1_def set_with_ttl_def example_cache_def cache_new_def example_cache_config_def
      ensure_space_def cached_with_ttl_def data_size_bytes_def Let_def record_set_def)
  have "set_with_ttl 1 example_cache1 ''k'' (CString (Bool False)) None =
      (fst (set_with_ttl 1 example_cache1 ''k'' (CString (Bool False)) None), Inr ())"
    using fit2 by (simp add: set_with_ttl_def ensure_space_def cached_new_def Let_def)
  from overwritten_ttl_removes_new_value [OF wf fit1 example_set1 fit2 this, of "11 * nanos"] show ?thesis
    by (simp add: nanos_def)
qed

theorem victims_are_worst_witness:
  "select_victims LFU 0 [(''a'', (cached_new 0 (CString Null))\<lparr>cv_access_count := 5\<rparr>), (''b'', cached_new 0 (CString Null))] 1 = [''b''] \<and>
   cv_access_count (cached_new 0 (CString Null)) \<le> cv_access_count ((cached_new 0 (CString Null))\<lparr>cv_access_count := 5\<rparr>)"
proof -
  let ?m = "[(''a'', (cached_new 0 (CString Null))\<lparr>cv_access_count := 5\<rparr>), (''b'', cached_new 0 (CString Null))]"
  have sel: "select_victims LFU 0 ?m 1 = [''b'']"
    by (simp add: select_victims_def sort_by_def evicts_before_def cached_new_def)
  from victims_are_worst [of LFU ?m "''b''" "cached_new 0 (CString Null)" 0 1 "''a''"
      "(cached_new 0 (CString Null))\<lparr>cv_access_count := 5\<rparr>"] sel
  show ?thesis by simp
qed

end
