(* ===== verification/Float64_Ved.thy ===== *)
theory Float64_Ved
  imports Document "HOL-Library.Log_Nat"
begin

text \<open>
  What the sources use of \<open>f64\<close>: comparison, equality and the conversion of integers. A float is
  its IEEE 754 bit pattern: one sign bit, eleven exponent bits, fifty-two fraction bits.
\<close>

definition f64_mag :: "u64 \<Rightarrow> nat" where
  "f64_mag x = unat x mod 2 ^ 63"

definition f64_neg :: "u64 \<Rightarrow> bool" where
  "f64_neg x \<longleftrightarrow> 2 ^ 63 \<le> unat x"

definition f64_is_nan :: "u64 \<Rightarrow> bool" where
  "f64_is_nan x \<longleftrightarrow> 2047 * 2 ^ 52 < f64_mag x"

text \<open>The patterns of each sign are ordered as the numbers are; the two zeros are equal.\<close>

definition f64_key :: "u64 \<Rightarrow> int" where
  "f64_key x = (if f64_neg x then - int (f64_mag x) else int (f64_mag x))"

datatype cmp_ordering = Less | Equal | Greater

fun cmp_reverse :: "cmp_ordering \<Rightarrow> cmp_ordering" where
  "cmp_reverse Less = Greater"
| "cmp_reverse Equal = Equal"
| "cmp_reverse Greater = Less"

definition cmp_of :: "'a :: linorder \<Rightarrow> 'a \<Rightarrow> cmp_ordering" where
  "cmp_of a b = (if a < b then Less else if a = b then Equal else Greater)"

text \<open>\<open>partial_cmp\<close> is \<open>None\<close> when one side is not a number.\<close>

definition f64_partial_cmp :: "u64 \<Rightarrow> u64 \<Rightarrow> cmp_ordering option" where
  "f64_partial_cmp a b =
     (if f64_is_nan a \<or> f64_is_nan b then None else Some (cmp_of (f64_key a) (f64_key b)))"

definition f64_lt :: "u64 \<Rightarrow> u64 \<Rightarrow> bool" where
  "f64_lt a b \<longleftrightarrow> f64_partial_cmp a b = Some Less"

definition f64_eq :: "u64 \<Rightarrow> u64 \<Rightarrow> bool" where
  "f64_eq a b \<longleftrightarrow> f64_partial_cmp a b = Some Equal"

text \<open>
  The pattern of a natural number: the fraction is rounded to the nearest value, ties to even; a
  carry out of the fraction goes into the exponent by itself.
\<close>

definition f64_of_nat :: "nat \<Rightarrow> nat" where
  "f64_of_nat m =
     (if m = 0 then 0
      else let e = floorlog 2 m - 1;
               q = (if e \<le> 52 then m * 2 ^ (52 - e) else m div 2 ^ (e - 52));
               r = (if e \<le> 52 then 0 else m mod 2 ^ (e - 52));
               half = (if e \<le> 52 then 1 else 2 ^ (e - 53));
               up = (if half < r \<or> half = r \<and> odd q then 1 else 0)
           in (e + 1023) * 2 ^ 52 + (q - 2 ^ 52) + up)"

definition f64_of_int :: "int \<Rightarrow> u64" where
  "f64_of_int i = (if i < 0 then of_nat (2 ^ 63 + f64_of_nat (nat (- i))) else of_nat (f64_of_nat (nat i)))"

definition as_f64 :: "ved_value \<Rightarrow> u64 option" where
  "as_f64 v =
     (case v of Int32 i \<Rightarrow> Some (f64_of_int (sint i)) | Int64 i \<Rightarrow> Some (f64_of_int (sint i))
      | Float64 f \<Rightarrow> Some f | _ \<Rightarrow> None)"

text \<open>
  The derived equality of values: structural, with the equality of floats, which is not
  reflexive. Maps are compared entry by entry in key order.
\<close>

fun value_eq :: "ved_value \<Rightarrow> ved_value \<Rightarrow> bool" where
  "value_eq (Float64 a) (Float64 b) = f64_eq a b"
| "value_eq (Array xs) (Array ys) = list_all2 value_eq xs ys"
| "value_eq (Object xs) (Object ys) = list_all2 (\<lambda>(k, v) (k', v'). k = k' \<and> value_eq v v') xs ys"
| "value_eq a b = (a = b)"

section \<open>Integers as floats\<close>

lemma floorlog2_range:
  "0 < m \<Longrightarrow> 2 ^ (floorlog 2 m - 1) \<le> m \<and> m < 2 ^ (floorlog 2 m)"
  using floorlog_bounds [of m 2] by auto

lemma floorlog2_mono: "0 < m \<Longrightarrow> m \<le> n \<Longrightarrow> floorlog 2 m \<le> floorlog 2 n"
  by (rule floorlog_mono)

text \<open>Below \<open>2 ^ 53\<close> nothing is rounded.\<close>

lemma f64_of_nat_small:
  assumes "0 < m" and "m < 2 ^ 53"
  defines "e \<equiv> floorlog 2 m - 1"
  shows "f64_of_nat m = (e + 1022) * 2 ^ 52 + m * 2 ^ (52 - e)"
    and "2 ^ 52 \<le> m * 2 ^ (52 - e)" and "m * 2 ^ (52 - e) < 2 ^ 53" and "e \<le> 52"
proof -
  have r: "2 ^ e \<le> m" "m < 2 ^ (e + 1)"
    using floorlog2_range [OF assms(1)] assms(1) by (auto simp: e_def floorlog_def)
  then have "(2 :: nat) ^ e < 2 ^ 53" using assms(2) by linarith
  then have "e < 53" by (rule power_less_imp_less_exp [rotated]) simp
  then show e: "e \<le> 52" by simp
  then have p: "(2 :: nat) ^ 52 = 2 ^ e * 2 ^ (52 - e)" "(2 :: nat) ^ 53 = 2 ^ (e + 1) * 2 ^ (52 - e)"
    by (simp_all flip: power_add)
  show lo: "2 ^ 52 \<le> m * 2 ^ (52 - e)" unfolding p(1) using r(1) by simp
  show "m * 2 ^ (52 - e) < 2 ^ 53" unfolding p(2) using r(2) by simp
  show "f64_of_nat m = (e + 1022) * 2 ^ 52 + m * 2 ^ (52 - e)"
    using assms(1) e lo unfolding f64_of_nat_def Let_def e_def [symmetric] by simp
qed

lemma f64_of_nat_strict:
  assumes "m < n" and "n < 2 ^ 53"
  shows "f64_of_nat m < f64_of_nat n"
proof (cases "m = 0")
  case True
  with assms f64_of_nat_small [of n] show ?thesis by (simp add: f64_of_nat_def [of 0])
next
  case False
  define e where "e = floorlog 2 m - 1"
  define e' where "e' = floorlog 2 n - 1"
  have m: "f64_of_nat m = (e + 1022) * 2 ^ 52 + m * 2 ^ (52 - e)" "m * 2 ^ (52 - e) < 2 ^ 53"
    using f64_of_nat_small [of m] False assms unfolding e_def by simp_all
  have n: "f64_of_nat n = (e' + 1022) * 2 ^ 52 + n * 2 ^ (52 - e')" "2 ^ 52 \<le> n * 2 ^ (52 - e')"
    using f64_of_nat_small [of n] False assms unfolding e'_def by simp_all
  have "e \<le> e'" using floorlog2_mono [of m n] False assms by (simp add: e_def e'_def)
  then consider "e = e'" | "e + 1 \<le> e'" by linarith
  then show ?thesis
  proof cases
    case 1
    with m(1) n(1) assms(1) show ?thesis by simp
  next
    case 2
    have "f64_of_nat m < (e + 1022) * 2 ^ 52 + 2 ^ 53" using m by simp
    also have "\<dots> = (e + 1 + 1022) * 2 ^ 52 + 2 ^ 52" by simp
    also have "\<dots> \<le> (e' + 1022) * 2 ^ 52 + n * 2 ^ (52 - e')"
      using 2 n(2) by (intro add_mono mult_right_mono) auto
    finally show ?thesis using n(1) by simp
  qed
qed

lemma f64_of_nat_bound: "m < 2 ^ 53 \<Longrightarrow> f64_of_nat m < 2047 * 2 ^ 52"
proof (cases "m = 0")
  case False
  assume "m < 2 ^ 53"
  with f64_of_nat_small [of m] False
  have "f64_of_nat m = (floorlog 2 m - 1 + 1022) * 2 ^ 52 + m * 2 ^ (52 - (floorlog 2 m - 1))"
    "m * 2 ^ (52 - (floorlog 2 m - 1)) < 2 ^ 53" "floorlog 2 m - 1 \<le> 52" by simp_all
  then have "f64_of_nat m < (52 + 1022) * 2 ^ 52 + 2 ^ 53"
    by (metis add_less_le_mono add_le_mono1 add.commute mult_le_mono1)
  then show ?thesis by simp
qed (simp add: f64_of_nat_def)

lemma f64_key_of_int:
  assumes "\<bar>i\<bar> < 2 ^ 53"
  shows "f64_key (f64_of_int i) = sgn i * int (f64_of_nat (nat \<bar>i\<bar>))" and "\<not> f64_is_nan (f64_of_int i)"
proof -
  have b: "f64_of_nat (nat \<bar>i\<bar>) < 2047 * 2 ^ 52" using assms by (intro f64_of_nat_bound) simp
  have pos: "0 < f64_of_nat (nat \<bar>i\<bar>)" if "i \<noteq> 0"
    using that f64_of_nat_strict [of 0 "nat \<bar>i\<bar>"] assms by (simp add: f64_of_nat_def [of 0] nat_less_iff)
  have u: "unat (f64_of_int i) = (if i < 0 then 2 ^ 63 else 0) + f64_of_nat (nat \<bar>i\<bar>)"
    using b by (auto simp: f64_of_int_def unat_of_nat simp del: of_nat_add)
  have mag: "f64_mag (f64_of_int i) = f64_of_nat (nat \<bar>i\<bar>)"
    unfolding f64_mag_def u using b by auto
  have neg: "f64_neg (f64_of_int i) \<longleftrightarrow> i < 0"
    unfolding f64_neg_def u using b by auto
  show "\<not> f64_is_nan (f64_of_int i)" using b by (simp add: f64_is_nan_def mag)
  show "f64_key (f64_of_int i) = sgn i * int (f64_of_nat (nat \<bar>i\<bar>))"
    unfolding f64_key_def neg mag by (auto simp: f64_of_nat_def [of 0] sgn_if)
qed

text \<open>Integers of at most 53 bits compare as floats exactly as they compare as integers.\<close>

lemma f64_cmp_of_int:
  assumes "\<bar>i\<bar> < 2 ^ 53" and "\<bar>j\<bar> < 2 ^ 53"
  shows "f64_partial_cmp (f64_of_int i) (f64_of_int j) = Some (cmp_of i j)"
proof -
  have mono: "f64_key (f64_of_int a) < f64_key (f64_of_int b)"
    if a: "\<bar>a\<bar> < 2 ^ 53" and b: "\<bar>b\<bar> < 2 ^ 53" and lt: "a < b" for a b
  proof (cases "0 \<le> a \<or> b \<le> 0")
    case True
    then consider "0 \<le> a" | "b \<le> 0" by blast
    then show ?thesis
    proof cases
      case 1
      then have "f64_of_nat (nat a) < f64_of_nat (nat b)"
        using f64_of_nat_strict [of "nat a" "nat b"] lt b by simp
      with 1 lt show ?thesis by (simp add: f64_key_of_int [OF a] f64_key_of_int [OF b] sgn_if f64_of_nat_def [of 0])
    next
      case 2
      then have "f64_of_nat (nat (- b)) < f64_of_nat (nat (- a))"
        using f64_of_nat_strict [of "nat (- b)" "nat (- a)"] lt a by simp
      with 2 lt show ?thesis by (simp add: f64_key_of_int [OF a] f64_key_of_int [OF b] sgn_if f64_of_nat_def [of 0])
    qed
  next
    case False
    then have "0 < f64_of_nat (nat b)"
      using f64_of_nat_strict [of 0 "nat b"] b by (simp add: f64_of_nat_def [of 0] nat_less_iff)
    with False show ?thesis by (simp add: f64_key_of_int [OF a] f64_key_of_int [OF b] sgn_if)
  qed
  from mono [OF assms] mono [OF assms(2,1)] show ?thesis
    using f64_key_of_int(2) [OF assms(1)] f64_key_of_int(2) [OF assms(2)]
    by (cases i j rule: linorder_cases) (auto simp: f64_partial_cmp_def cmp_of_def)
qed

text \<open>One bit more and two integers become the same float.\<close>

lemma f64_of_int_collision: "f64_of_int (2 ^ 53 + 1) = f64_of_int (2 ^ 53)"
proof -
  have "floorlog 2 9007199254740993 = 54" "floorlog 2 9007199254740992 = 54"
    by (simp_all add: compute_floorlog)
  then show ?thesis by (simp add: f64_of_int_def f64_of_nat_def Let_def)
qed

end
