(* ===== verification/Schema_Ved.thy ===== *)
theory Schema_Ved
  imports Float64_Ved
begin

text \<open>
  Schemas (\<open>veddb-core/src/schema.rs\<close>): field types, validators, validation of a document and the
  filling in of defaults; the cache configuration of a collection, which the storage engine reads.
  The regular expressions of the crate \<open>regex\<close> are the argument \<open>rx\<close>: a pattern gives an error or a
  test on strings. The error of a type mismatch carries the type and the value where the code
  carries their debug texts.
\<close>

type_synonym regex_new = "string \<Rightarrow> (string, string \<Rightarrow> bool) result"

datatype validator =
    Min u64
  | Max u64
  | MinLength nat
  | MaxLength nat
  | Regex string
  | Enum "ved_value list"
  | Custom string

datatype field_type =
    FString "nat option"
  | FInt32
  | FInt64
  | FFloat64
  | FBoolean
  | FDate
  | FBinary
  | FObjectId
  | FArray field_type
  | FObject "(string \<times> field_definition) list"
  | FReference string
  | FAny
and field_definition =
  FieldDefinition
    (fd_type: field_type)
    (fd_required: bool)
    (fd_default: "ved_value option")
    (fd_unique: bool)
    (fd_indexed: bool)
    (fd_validators: "validator list")
    (fd_encrypted: bool)
    (fd_encryption_key_id: "string option")

datatype index_type =
    Single string
  | Compound "string list"
  | Text string
  | Geospatial string

record index_definition =
  ix_name :: string
  ix_type :: index_type
  ix_unique :: bool
  ix_sparse :: bool

datatype cache_strategy = NoCache | WriteThrough | WriteBehind nat | ReadThrough

datatype cache_warming_strategy = NoWarming | PreloadOnStartup nat | LazyLoad | ScheduledRefresh nat

record collection_cache_config =
  cc_strategy :: cache_strategy
  cc_ttl :: "nat option"
  cc_fields :: "string list option"
  cc_warming :: cache_warming_strategy

record schema =
  sch_version :: u32
  sch_fields :: "field_definition btree_map"
  sch_indexes :: "index_definition list"
  sch_cache_config :: collection_cache_config
  sch_validation :: "string option"

datatype validation_error =
    RequiredFieldMissing string
  | TypeMismatch string field_type ved_value
  | MinValueViolation string u64 u64
  | MaxValueViolation string u64 u64
  | MinLengthViolation string nat nat
  | MaxLengthViolation string nat nat
  | RegexMismatch string string string
  | InvalidRegex string string
  | EnumViolation string "ved_value list" ved_value
  | UniqueConstraintViolation string

section \<open>Construction\<close>

definition cache_config_default :: collection_cache_config where
  "cache_config_default = \<lparr>cc_strategy = NoCache, cc_ttl = None, cc_fields = None, cc_warming = NoWarming\<rparr>"

definition schema_new :: schema where
  "schema_new = \<lparr>sch_version = 1, sch_fields = [], sch_indexes = [],
     sch_cache_config = cache_config_default, sch_validation = None\<rparr>"

definition add_field :: "schema \<Rightarrow> string \<Rightarrow> field_definition \<Rightarrow> schema" where
  "add_field s n fd = s\<lparr>sch_fields := bt_insert n fd (sch_fields s)\<rparr>"

definition add_index :: "schema \<Rightarrow> index_definition \<Rightarrow> schema" where
  "add_index s ix = s\<lparr>sch_indexes := sch_indexes s @ [ix]\<rparr>"

definition field_new :: "field_type \<Rightarrow> field_definition" where
  "field_new t = FieldDefinition t False None False False [] False None"

fun fd_set_required :: "field_definition \<Rightarrow> field_definition" where
  "fd_set_required (FieldDefinition t r d u i vs e k) = FieldDefinition t True d u i vs e k"

fun default_value :: "field_definition \<Rightarrow> ved_value \<Rightarrow> field_definition" where
  "default_value (FieldDefinition t r d u i vs e k) v = FieldDefinition t r (Some v) u i vs e k"

fun fd_set_unique :: "field_definition \<Rightarrow> field_definition" where
  "fd_set_unique (FieldDefinition t r d u i vs e k) = FieldDefinition t r d True i vs e k"

fun fd_set_indexed :: "field_definition \<Rightarrow> field_definition" where
  "fd_set_indexed (FieldDefinition t r d u i vs e k) = FieldDefinition t r d u True vs e k"

fun add_validator :: "field_definition \<Rightarrow> validator \<Rightarrow> field_definition" where
  "add_validator (FieldDefinition t r d u i vs e k) v = FieldDefinition t r d u i (vs @ [v]) e k"

definition index_single :: "string \<Rightarrow> index_definition" where
  "index_single f = \<lparr>ix_name = ''idx_'' @ f, ix_type = Single f, ix_unique = False, ix_sparse = False\<rparr>"

fun join :: "string \<Rightarrow> string list \<Rightarrow> string" where
  "join sep [] = []"
| "join sep [x] = x"
| "join sep (x # xs) = x @ sep @ join sep xs"

definition index_compound :: "string list \<Rightarrow> index_definition" where
  "index_compound fs =
     \<lparr>ix_name = ''idx_'' @ join ''_'' fs, ix_type = Compound fs, ix_unique = False, ix_sparse = False\<rparr>"

definition index_set_unique :: "index_definition \<Rightarrow> index_definition" where
  "index_set_unique ix = ix\<lparr>ix_unique := True\<rparr>"

definition index_set_sparse :: "index_definition \<Rightarrow> index_definition" where
  "index_set_sparse ix = ix\<lparr>ix_sparse := True\<rparr>"

section \<open>Types\<close>

lemma size_fd_type: "size (fd_type d) < size d"
  by (cases d) simp

function is_compatible :: "field_type \<Rightarrow> ved_value \<Rightarrow> bool" where
  "is_compatible (FString _) v = (case v of Str _ \<Rightarrow> True | _ \<Rightarrow> False)"
| "is_compatible FInt32 v = (case v of Int32 _ \<Rightarrow> True | _ \<Rightarrow> False)"
| "is_compatible FInt64 v = (case v of Int64 _ \<Rightarrow> True | Int32 _ \<Rightarrow> True | _ \<Rightarrow> False)"
| "is_compatible FFloat64 v = (case v of Float64 _ \<Rightarrow> True | Int32 _ \<Rightarrow> True | Int64 _ \<Rightarrow> True | _ \<Rightarrow> False)"
| "is_compatible FBoolean v = (case v of Bool _ \<Rightarrow> True | _ \<Rightarrow> False)"
| "is_compatible FDate v = (case v of DateTime _ \<Rightarrow> True | _ \<Rightarrow> False)"
| "is_compatible FBinary v = (case v of Binary _ \<Rightarrow> True | _ \<Rightarrow> False)"
| "is_compatible FObjectId v = (case v of ObjectId _ \<Rightarrow> True | _ \<Rightarrow> False)"
| "is_compatible (FArray item_type) v =
     (case v of Array arr \<Rightarrow> list_all (\<lambda>x. is_compatible item_type x) arr | _ \<Rightarrow> False)"
| "is_compatible (FObject fs) v =
     (case v of
        Object obj \<Rightarrow>
          list_all (\<lambda>p.
            \<not> (fd_required (snd p) \<and> map_of obj (fst p) = None) \<and>
            (case map_of obj (fst p) of None \<Rightarrow> True | Some x \<Rightarrow> is_compatible (fd_type (snd p)) x)) fs
      | _ \<Rightarrow> False)"
| "is_compatible (FReference _) v = (case v of ObjectId _ \<Rightarrow> True | _ \<Rightarrow> False)"
| "is_compatible FAny v = True"
  by pat_completeness auto

lemma size_object_field:
  "p \<in> set fs \<Longrightarrow> size (fd_type (snd p)) < size (FObject fs)"
proof -
  assume "p \<in> set fs"
  then have "size (snd p) \<le> size_list (size_prod (\<lambda>x. 0) size) fs"
    by (intro size_list_estimation') (auto simp: size_prod_simp)
  with size_fd_type [of "snd p"] show ?thesis by simp
qed

termination is_compatible
  by (relation "measure (size \<circ> fst)") (auto dest: size_object_field simp del: field_type.size(22))

section \<open>Validators\<close>

definition value_length :: "ved_value \<Rightarrow> nat option" where
  "value_length v =
     (case v of Str s \<Rightarrow> Some (length s) | Array arr \<Rightarrow> Some (length arr) | Binary b \<Rightarrow> Some (length b) | _ \<Rightarrow> None)"

fun validator_validate :: "regex_new \<Rightarrow> validator \<Rightarrow> string \<Rightarrow> ved_value \<Rightarrow> (validation_error, unit) result" where
  "validator_validate rx (Min mn) f v =
     (case as_f64 v of None \<Rightarrow> Inr ()
      | Some num \<Rightarrow> if f64_lt num mn then Inl (MinValueViolation f mn num) else Inr ())"
| "validator_validate rx (Max mx) f v =
     (case as_f64 v of None \<Rightarrow> Inr ()
      | Some num \<Rightarrow> if f64_lt mx num then Inl (MaxValueViolation f mx num) else Inr ())"
| "validator_validate rx (MinLength n) f v =
     (case value_length v of None \<Rightarrow> Inr ()
      | Some len \<Rightarrow> if len < n then Inl (MinLengthViolation f n len) else Inr ())"
| "validator_validate rx (MaxLength n) f v =
     (case value_length v of None \<Rightarrow> Inr ()
      | Some len \<Rightarrow> if n < len then Inl (MaxLengthViolation f n len) else Inr ())"
| "validator_validate rx (Regex pattern) f v =
     (case v of
        Str s \<Rightarrow> (case rx pattern of Inl e \<Rightarrow> Inl (InvalidRegex pattern e)
                  | Inr m \<Rightarrow> if m s then Inr () else Inl (RegexMismatch f pattern s))
      | _ \<Rightarrow> Inr ())"
| "validator_validate rx (Enum allowed) f v =
     (if list_ex (\<lambda>a. value_eq a v) allowed then Inr () else Inl (EnumViolation f allowed v))"
| "validator_validate rx (Custom _) f v = Inr ()"

fun validators_validate ::
  "regex_new \<Rightarrow> validator list \<Rightarrow> string \<Rightarrow> ved_value \<Rightarrow> (validation_error, unit) result"
where
  "validators_validate rx [] f v = Inr ()"
| "validators_validate rx (w # ws) f v =
     (case validator_validate rx w f v of Inl e \<Rightarrow> Inl e | Inr _ \<Rightarrow> validators_validate rx ws f v)"

definition field_validate ::
  "regex_new \<Rightarrow> field_definition \<Rightarrow> string \<Rightarrow> ved_value \<Rightarrow> (validation_error, unit) result"
where
  "field_validate rx fd f v =
     (if \<not> is_compatible (fd_type fd) v then Inl (TypeMismatch f (fd_type fd) v)
      else validators_validate rx (fd_validators fd) f v)"

section \<open>Documents against a schema\<close>

text \<open>The second loop of \<open>validate\<close>, over unknown fields, has an empty body.\<close>

fun validate_fields ::
  "regex_new \<Rightarrow> (string \<times> field_definition) list \<Rightarrow> document \<Rightarrow> (validation_error, unit) result"
where
  "validate_fields rx [] d = Inr ()"
| "validate_fields rx ((n, fd) # fs) d =
     (case doc_get d n of
        None \<Rightarrow> if fd_required fd then Inl (RequiredFieldMissing n) else validate_fields rx fs d
      | Some v \<Rightarrow> (case field_validate rx fd n v of Inl e \<Rightarrow> Inl e | Inr _ \<Rightarrow> validate_fields rx fs d))"

definition schema_validate :: "regex_new \<Rightarrow> schema \<Rightarrow> document \<Rightarrow> (validation_error, unit) result" where
  "schema_validate rx s d = validate_fields rx (sch_fields s) d"

definition doc_contains_key :: "document \<Rightarrow> string \<Rightarrow> bool" where
  "doc_contains_key d k = (map_of (doc_fields d) k \<noteq> None)"

fun defaults_loop :: "int \<Rightarrow> (string \<times> field_definition) list \<Rightarrow> document \<Rightarrow> document" where
  "defaults_loop now [] d = d"
| "defaults_loop now ((n, fd) # fs) d =
     defaults_loop now fs
       (if doc_contains_key d n then d
        else case fd_default fd of None \<Rightarrow> d | Some v \<Rightarrow> fst (doc_insert now d n v))"

definition apply_defaults :: "int \<Rightarrow> schema \<Rightarrow> document \<Rightarrow> document \<times> (validation_error, unit) result" where
  "apply_defaults now s d = (defaults_loop now (sch_fields s) d, Inr ())"

section \<open>What validation promises\<close>

text \<open>A field that is present is of its type and passes every validator; a required one is present.\<close>

definition field_conforms :: "regex_new \<Rightarrow> document \<Rightarrow> string \<times> field_definition \<Rightarrow> bool" where
  "field_conforms rx d p =
     (case doc_get d (fst p) of
        None \<Rightarrow> \<not> fd_required (snd p)
      | Some v \<Rightarrow> is_compatible (fd_type (snd p)) v \<and>
          list_all (\<lambda>w. validator_validate rx w (fst p) v = Inr ()) (fd_validators (snd p)))"

lemma validators_ok_iff:
  "validators_validate rx ws f v = Inr () \<longleftrightarrow> list_all (\<lambda>w. validator_validate rx w f v = Inr ()) ws"
  by (induction ws) (auto split: sum.splits)

lemma validate_fields_ok_iff: "validate_fields rx fs d = Inr () \<longleftrightarrow> list_all (field_conforms rx d) fs"
proof (induction fs)
  case (Cons p fs)
  obtain n fd where p: "p = (n, fd)" by fastforce
  have fv: "field_validate rx fd n v = Inr () \<longleftrightarrow> is_compatible (fd_type fd) v \<and>
      list_all (\<lambda>w. validator_validate rx w n v = Inr ()) (fd_validators fd)" for v
    by (simp add: field_validate_def validators_ok_iff)
  show ?case
  proof (cases "doc_get d n")
    case (Some v)
    with fv [of v] show ?thesis
      by (cases "field_validate rx fd n v") (auto simp: p Cons field_conforms_def)
  qed (auto simp: p Cons field_conforms_def)
qed simp

lemma doc_get_insert: "doc_get (fst (doc_insert now d k v)) k' = (if k' = k then Some v else doc_get d k')"
  by (simp add: doc_get_def doc_insert_def update_metadata_def map_of_bt_insert)

lemma doc_get_defaults:
  "distinct (map fst fs) \<Longrightarrow>
   doc_get (defaults_loop now fs d) n =
     (case doc_get d n of Some v \<Rightarrow> Some v
      | None \<Rightarrow> (case map_of fs n of None \<Rightarrow> None | Some fd \<Rightarrow> fd_default fd))"
proof (induction now fs d rule: defaults_loop.induct)
  case (2 now m fd fs d)
  define d1 where "d1 = (if doc_contains_key d m then d
        else case fd_default fd of None \<Rightarrow> d | Some v \<Rightarrow> fst (doc_insert now d m v))"
  have get: "doc_get d1 n = (if n = m \<and> doc_get d m = None then fd_default fd else doc_get d n)"
    by (auto simp: d1_def doc_contains_key_def doc_get_insert doc_get_def [symmetric] split: option.splits)
  have "m \<notin> fst ` set fs" using 2(2) by simp
  then have none: "map_of fs m = None" by (simp add: map_of_eq_None_iff)
  have "doc_get (defaults_loop now fs d1) n = (case doc_get d1 n of Some v \<Rightarrow> Some v
      | None \<Rightarrow> (case map_of fs n of None \<Rightarrow> None | Some fd \<Rightarrow> fd_default fd))"
    unfolding d1_def by (rule 2(1)) (use 2(2) in simp)
  then show ?case by (auto simp: d1_def [symmetric] get none split: option.splits)
qed (simp split: option.splits)

lemma defaults_loop_id: "doc_id (defaults_loop now fs d) = doc_id d"
  by (induction now fs d rule: defaults_loop.induct)
    (auto simp: doc_insert_def update_metadata_def split: option.splits)

lemma bt_sorted_distinct: "bt_sorted m \<Longrightarrow> distinct (map fst m)"
  by (auto simp: bt_sorted_def strict_sorted_iff)

end
