(* ===== verification/Collection_Ved.thy ===== *)
theory Collection_Ved
  imports Schema_Ved Persistent_Layer
begin

text \<open>
  Collections (\<open>veddb-core/src/storage/collection.rs\<close>): a schema, two 64-bit counters and the
  documents of one name in the persistent layer. The binary encoding of the saved metadata
  (bincode) is an argument; an error carries what the code puts into its error chain.
\<close>

record collection =
  co_name :: string
  co_schema :: schema
  document_count :: u64
  total_size_bytes :: u64
  co_indexes :: "index_definition list"
  co_created_at :: int
  co_updated_at :: int
  co_persistent :: persistent_layer

record collection_metadata =
  cm_name :: string
  cm_document_count :: u64
  cm_total_size_bytes :: u64
  cm_created_at :: int
  cm_updated_at :: int
  cm_index_count :: nat

datatype collection_error =
    DefaultsFailed validation_error
  | SchemaInvalid validation_error
  | DocumentInvalid document_error
  | StorageFailed string

definition collection_new :: "int \<Rightarrow> string \<Rightarrow> schema \<Rightarrow> persistent_layer \<Rightarrow> collection" where
  "collection_new now n s p =
     \<lparr>co_name = n, co_schema = s, document_count = 0, total_size_bytes = 0, co_indexes = [],
      co_created_at = now, co_updated_at = now, co_persistent = p\<rparr>"

definition collection_get ::
  "'z doc_codec_scheme \<Rightarrow> collection \<Rightarrow> document_id \<Rightarrow> (string, document option) result"
where
  "collection_get cdc c i = get_document cdc (co_persistent c) (co_name c) i"

definition collection_insert ::
  "regex_new \<Rightarrow> 'z doc_codec_scheme \<Rightarrow> int \<Rightarrow> collection \<Rightarrow> document \<Rightarrow>
   collection \<times> (collection_error, document_id) result"
where
  "collection_insert rx cdc now c d0 =
     (case apply_defaults now (co_schema c) d0 of
        (d, Inl e) \<Rightarrow> (c, Inl (DefaultsFailed e))
      | (d, Inr _) \<Rightarrow>
          (case schema_validate rx (co_schema c) d of
             Inl e \<Rightarrow> (c, Inl (SchemaInvalid e))
           | Inr _ \<Rightarrow>
               (case doc_validate d of
                  Inl e \<Rightarrow> (c, Inl (DocumentInvalid e))
                | Inr _ \<Rightarrow>
                    (case insert_document cdc (co_persistent c) (co_name c) (doc_id d) d of
                       (p, Inl e) \<Rightarrow> (c\<lparr>co_persistent := p\<rparr>, Inl (StorageFailed e))
                     | (p, Inr _) \<Rightarrow>
                         (c\<lparr>co_persistent := p, document_count := document_count c + 1,
                            total_size_bytes := total_size_bytes c + of_nat (doc_size_bytes d)\<rparr>,
                          Inr (doc_id d))))))"

definition collection_update ::
  "regex_new \<Rightarrow> 'z doc_codec_scheme \<Rightarrow> collection \<Rightarrow> document_id \<Rightarrow> document \<Rightarrow>
   collection \<times> (collection_error, unit) result"
where
  "collection_update rx cdc c i d =
     (case collection_get cdc c i of
        Inl e \<Rightarrow> (c, Inl (StorageFailed e))
      | Inr old_doc \<Rightarrow>
          (let old_size = (case old_doc of None \<Rightarrow> 0 | Some od \<Rightarrow> doc_size_bytes od)
           in case schema_validate rx (co_schema c) d of
                Inl e \<Rightarrow> (c, Inl (SchemaInvalid e))
              | Inr _ \<Rightarrow>
                  (case doc_validate d of
                     Inl e \<Rightarrow> (c, Inl (DocumentInvalid e))
                   | Inr _ \<Rightarrow>
                       (case update_document cdc (co_persistent c) (co_name c) i d of
                          (p, Inl e) \<Rightarrow> (c\<lparr>co_persistent := p\<rparr>, Inl (StorageFailed e))
                        | (p, Inr _) \<Rightarrow>
                            (let new_size = doc_size_bytes d
                             in (c\<lparr>co_persistent := p,
                                   total_size_bytes :=
                                     (if old_size < new_size then total_size_bytes c + of_nat (new_size - old_size)
                                      else total_size_bytes c - of_nat (old_size - new_size))\<rparr>, Inr ()))))))"

definition collection_delete ::
  "'z doc_codec_scheme \<Rightarrow> collection \<Rightarrow> document_id \<Rightarrow> collection \<times> (collection_error, bool) result"
where
  "collection_delete cdc c i =
     (case collection_get cdc c i of
        Inl e \<Rightarrow> (c, Inl (StorageFailed e))
      | Inr None \<Rightarrow> (c, Inr False)
      | Inr (Some d) \<Rightarrow>
          (case delete_document cdc (co_persistent c) (co_name c) i of
             (p, deleted) \<Rightarrow>
               (if deleted
                then (c\<lparr>co_persistent := p, document_count := document_count c - 1,
                        total_size_bytes := total_size_bytes c - of_nat (doc_size_bytes d)\<rparr>, Inr True)
                else (c\<lparr>co_persistent := p\<rparr>, Inr False))))"

definition collection_exists :: "'z doc_codec_scheme \<Rightarrow> collection \<Rightarrow> document_id \<Rightarrow> bool" where
  "collection_exists cdc c i = pl_exists cdc (co_persistent c) (co_name c) i"

definition collection_scan :: "'z doc_codec_scheme \<Rightarrow> collection \<Rightarrow> (string, document list) result" where
  "collection_scan cdc c = scan_collection cdc (co_persistent c) (co_name c)"

definition collection_add_index :: "collection \<Rightarrow> index_definition \<Rightarrow> collection" where
  "collection_add_index c ix = c\<lparr>co_indexes := co_indexes c @ [ix]\<rparr>"

definition collection_metadata_of :: "collection \<Rightarrow> collection_metadata" where
  "collection_metadata_of c =
     \<lparr>cm_name = co_name c, cm_document_count = document_count c, cm_total_size_bytes = total_size_bytes c,
      cm_created_at = co_created_at c, cm_updated_at = co_updated_at c, cm_index_count = length (co_indexes c)\<rparr>"

definition save_metadata ::
  "(collection_metadata \<Rightarrow> (string, bytes) result) \<Rightarrow> collection \<Rightarrow> collection \<times> (string, unit) result"
where
  "save_metadata ser c =
     (case ser (collection_metadata_of c) of
        Inl e \<Rightarrow> (c, Inl ''Failed to serialize metadata'')
      | Inr v \<Rightarrow> (c\<lparr>co_persistent := store_metadata (co_persistent c) (''collection:'' @ co_name c) v\<rparr>, Inr ()))"

definition load_metadata ::
  "(bytes \<Rightarrow> (string, collection_metadata) result) \<Rightarrow> string \<Rightarrow> persistent_layer \<Rightarrow>
   (string, collection_metadata option) result"
where
  "load_metadata des n p =
     (case get_metadata p (''collection:'' @ n) of
        None \<Rightarrow> Inr None
      | Some v \<Rightarrow> (case des v of Inl e \<Rightarrow> Inl ''Failed to deserialize metadata'' | Inr m \<Rightarrow> Inr (Some m)))"

section \<open>Sequences of operations\<close>

datatype collection_op = CInsert int document | CUpdate document_id document | CDelete document_id

fun collection_step :: "regex_new \<Rightarrow> 'z doc_codec_scheme \<Rightarrow> collection \<Rightarrow> collection_op \<Rightarrow> collection" where
  "collection_step rx cdc c (CInsert now d) = fst (collection_insert rx cdc now c d)"
| "collection_step rx cdc c (CUpdate i d) = fst (collection_update rx cdc c i d)"
| "collection_step rx cdc c (CDelete i) = fst (collection_delete cdc c i)"

definition succeeded :: "('e, 'a) result \<Rightarrow> bool" where
  "succeeded r = (case r of Inl _ \<Rightarrow> False | Inr _ \<Rightarrow> True)"

text \<open>
  The amount by which one operation moves the counter away from the number of documents: an insert
  that overwrites counts one too many, an update that creates counts one too few.
\<close>

fun count_drift :: "regex_new \<Rightarrow> 'z doc_codec_scheme \<Rightarrow> collection \<Rightarrow> collection_op \<Rightarrow> u64" where
  "count_drift rx cdc c (CInsert now d) =
     (if succeeded (snd (collection_insert rx cdc now c d)) \<and> collection_exists cdc c (doc_id d) then 1 else 0)"
| "count_drift rx cdc c (CUpdate i d) =
     (if succeeded (snd (collection_update rx cdc c i d)) \<and> \<not> collection_exists cdc c i then - 1 else 0)"
| "count_drift rx cdc c (CDelete i) = 0"

fun drift_sum :: "regex_new \<Rightarrow> 'z doc_codec_scheme \<Rightarrow> collection \<Rightarrow> collection_op list \<Rightarrow> u64" where
  "drift_sum rx cdc c [] = 0"
| "drift_sum rx cdc c (a # as) = count_drift rx cdc c a + drift_sum rx cdc (collection_step rx cdc c a) as"

definition num_documents :: "collection \<Rightarrow> u64" where
  "num_documents c = of_nat (length (documents (co_persistent c)))"

lemma length_al_put:
  "length (al_put k v xs) = (if map_of xs k = None then Suc (length xs) else length xs)"
  by (induction k v xs rule: al_put.induct) auto

lemma length_al_del:
  "distinct (map fst xs) \<Longrightarrow> map_of xs k = Some v \<Longrightarrow> Suc (length (al_del k xs)) = length xs"
proof (induction xs)
  case (Cons p xs)
  obtain k' v' where p: "p = (k', v')" by fastforce
  show ?case
  proof (cases "k' = k")
    case True
    with Cons.prems p have "al_del k xs = xs" by (auto simp: al_del_def filter_id_conv rev_image_eqI)
    with True p show ?thesis by (simp add: al_del_def)
  next
    case False
    with Cons p show ?thesis by (simp add: al_del_def)
  qed
qed simp

text \<open>One case for each way an operation ends: nothing stored, one document put, or one deleted.\<close>

lemma collection_insert_cases:
  obtains e where "collection_insert rx cdc now c d0 = (c, Inl e)"
  | d v where "d = defaults_loop now (sch_fields (co_schema c)) d0" "schema_validate rx (co_schema c) d = Inr ()"
      "doc_validate d = Inr ()" "doc_to_vec cdc d = Inr v"
      "collection_insert rx cdc now c d0 =
         (c\<lparr>co_persistent := raw_put (co_persistent c) (make_document_key cdc (co_name c) (doc_id d)) v,
            document_count := document_count c + 1,
            total_size_bytes := total_size_bytes c + of_nat (doc_size_bytes d)\<rparr>, Inr (doc_id d))"
  by (cases "schema_validate rx (co_schema c) (defaults_loop now (sch_fields (co_schema c)) d0)";
      cases "doc_validate (defaults_loop now (sch_fields (co_schema c)) d0)";
      cases "doc_to_vec cdc (defaults_loop now (sch_fields (co_schema c)) d0)")
    (auto simp: collection_insert_def apply_defaults_def insert_document_def raw_put_def)

lemma collection_update_cases:
  obtains e where "collection_update rx cdc c i d = (c, Inl e)"
  | v sz where "schema_validate rx (co_schema c) d = Inr ()" "doc_validate d = Inr ()" "doc_to_vec cdc d = Inr v"
      "collection_update rx cdc c i d =
         (c\<lparr>co_persistent := raw_put (co_persistent c) (make_document_key cdc (co_name c) i) v,
            total_size_bytes := sz\<rparr>, Inr ())"
  by (cases "collection_get cdc c i"; cases "schema_validate rx (co_schema c) d"; cases "doc_validate d";
      cases "doc_to_vec cdc d")
    (auto simp: collection_update_def update_document_def insert_document_def raw_put_def Let_def)

lemma collection_delete_cases:
  obtains "fst (collection_delete cdc c i) = c"
  | v sz where "raw_get (co_persistent c) (make_document_key cdc (co_name c) i) = Some v"
      "fst (collection_delete cdc c i) =
         c\<lparr>co_persistent := raw_del (co_persistent c) (make_document_key cdc (co_name c) i),
           document_count := document_count c - 1, total_size_bytes := sz\<rparr>"
proof (cases "raw_get (co_persistent c) (make_document_key cdc (co_name c) i)")
  case None
  then have "fst (collection_delete cdc c i) = c"
    by (simp add: collection_delete_def collection_get_def get_document_raw)
  then show ?thesis by (rule that(1))
next
  case (Some v)
  show ?thesis
  proof (cases "doc_from_slice cdc v")
    case (Inl e)
    with Some have "fst (collection_delete cdc c i) = c"
      by (simp add: collection_delete_def collection_get_def get_document_raw)
    then show ?thesis by (rule that(1))
  next
    case (Inr d)
    with Some have "fst (collection_delete cdc c i) =
         c\<lparr>co_persistent := raw_del (co_persistent c) (make_document_key cdc (co_name c) i),
           document_count := document_count c - 1,
           total_size_bytes := total_size_bytes c - of_nat (doc_size_bytes d)\<rparr>"
      by (simp add: collection_delete_def collection_get_def get_document_raw delete_document_raw)
    with Some show ?thesis by (rule that(2))
  qed
qed

section \<open>Invariants\<close>

definition valid_document :: "regex_new \<Rightarrow> schema \<Rightarrow> document \<Rightarrow> bool" where
  "valid_document rx s d \<longleftrightarrow>
     list_all (field_conforms rx d) (sch_fields s) \<and>
     doc_size_bytes d \<le> MAX_DOCUMENT_SIZE \<and> max_field_depth d \<le> MAX_NESTING_DEPTH"

lemma valid_documentI:
  "schema_validate rx s d = Inr () \<Longrightarrow> doc_validate d = Inr () \<Longrightarrow> valid_document rx s d"
  by (auto simp: valid_document_def schema_validate_def validate_fields_ok_iff doc_validate_def split: if_splits)

definition collection_inv :: "regex_new \<Rightarrow> 'z doc_codec_scheme \<Rightarrow> schema \<Rightarrow> collection \<Rightarrow> bool" where
  "collection_inv rx cdc s c \<longleftrightarrow>
     co_schema c = s \<and> distinct (map fst (documents (co_persistent c))) \<and>
     (\<forall>k v. raw_get (co_persistent c) k = Some v \<longrightarrow> (\<exists>d. doc_to_vec cdc d = Inr v \<and> valid_document rx s d))"

lemma collection_inv_new: "collection_inv rx cdc s (collection_new t n s pl_new)"
  by (simp add: collection_inv_def collection_new_def pl_new_def raw_get_def)

lemma inv_put:
  assumes "collection_inv rx cdc s c" and "doc_to_vec cdc d = Inr v" and "valid_document rx s d"
    and "co_persistent c' = raw_put (co_persistent c) k v" and "co_schema c' = co_schema c"
  shows "collection_inv rx cdc s c'"
  using assms unfolding collection_inv_def
  by (auto simp: docs.get_put distinct_al_put raw_put_def [THEN arg_cong, of documents] split: if_splits)

lemma inv_del:
  assumes "collection_inv rx cdc s c" and "co_persistent c' = raw_del (co_persistent c) k"
    and "co_schema c' = co_schema c"
  shows "collection_inv rx cdc s c'"
  using assms unfolding collection_inv_def
  by (auto simp: docs.get_del distinct_al_del raw_del_def [THEN arg_cong, of documents] split: if_splits)

lemma collection_step_inv:
  assumes "collection_inv rx cdc s c"
  shows "collection_inv rx cdc s (collection_step rx cdc c a)"
proof -
  have sch: "co_schema c = s" using assms by (simp add: collection_inv_def)
  show ?thesis
  proof (cases a)
    case (CInsert now d0)
    show ?thesis
    proof (cases rule: collection_insert_cases [of rx cdc now c d0])
      case (2 d v)
      have "valid_document rx s d" using 2(2,3) sch by (auto intro: valid_documentI)
      from inv_put [OF assms 2(4) this, where c' = "collection_step rx cdc c a"] 2(5) CInsert show ?thesis by simp
    qed (use assms CInsert in simp)
  next
    case (CUpdate i d)
    show ?thesis
    proof (cases rule: collection_update_cases [of rx cdc c i d])
      case (2 v sz)
      have "valid_document rx s d" using 2(1,2) sch by (auto intro: valid_documentI)
      from inv_put [OF assms 2(3) this, where c' = "collection_step rx cdc c a"] 2(4) CUpdate show ?thesis by simp
    qed (use assms CUpdate in simp)
  next
    case (CDelete i)
    show ?thesis
    proof (cases rule: collection_delete_cases [of cdc c i])
      case (2 v sz)
      from inv_del [OF assms, where c' = "collection_step rx cdc c a"] 2(2) CDelete show ?thesis by simp
    qed (use assms CDelete in simp)
  qed
qed

lemma collection_run_inv:
  "collection_inv rx cdc s c \<Longrightarrow> collection_inv rx cdc s (foldl (collection_step rx cdc) c ops)"
  by (induction ops arbitrary: c) (auto intro: collection_step_inv)

lemma num_documents_put:
  "num_documents (c\<lparr>co_persistent := raw_put (co_persistent c) k v, document_count := n, total_size_bytes := z\<rparr>) =
     num_documents c + (if raw_get (co_persistent c) k = None then 1 else 0)"
  by (simp add: num_documents_def raw_put_def raw_get_def length_al_put)

lemma collection_step_count:
  assumes "collection_inv rx cdc s c"
  shows "document_count (collection_step rx cdc c a) - num_documents (collection_step rx cdc c a) =
     document_count c - num_documents c + count_drift rx cdc c a"
proof (cases a)
  case (CInsert now d0)
  show ?thesis
  proof (cases rule: collection_insert_cases [of rx cdc now c d0])
    case (2 d v)
    have "doc_id d = doc_id d0" using 2(1) by (simp add: defaults_loop_id)
    with 2(5) CInsert show ?thesis
      by (simp add: num_documents_put succeeded_def collection_exists_def pl_exists_def raw_get_def)
  qed (use CInsert in \<open>simp add: succeeded_def\<close>)
next
  case (CUpdate i d)
  show ?thesis
  proof (cases rule: collection_update_cases [of rx cdc c i d])
    case (2 v sz)
    with CUpdate show ?thesis
      using num_documents_put [where c = c and v = v and n = "document_count c" and z = sz]
      by (simp add: succeeded_def collection_exists_def pl_exists_def raw_get_def)
  qed (use CUpdate in \<open>simp add: succeeded_def\<close>)
next
  case (CDelete i)
  show ?thesis
  proof (cases rule: collection_delete_cases [of cdc c i])
    case (2 v sz)
    let ?k = "make_document_key cdc (co_name c) i"
    have "length (documents (co_persistent c)) = Suc (length (al_del ?k (documents (co_persistent c))))"
      using assms 2(1) by (intro length_al_del [symmetric]) (auto simp: collection_inv_def raw_get_def)
    then have "num_documents (collection_step rx cdc c a) + 1 = num_documents c"
      using CDelete 2(2) by (simp add: num_documents_def raw_del_def)
    then show ?thesis using CDelete 2(2) by (simp add: algebra_simps flip: diff_diff_eq2)
  qed (use CDelete in simp)
qed

lemma collection_run_count:
  "collection_inv rx cdc s c \<Longrightarrow>
   document_count (foldl (collection_step rx cdc) c ops) - num_documents (foldl (collection_step rx cdc) c ops) =
   document_count c - num_documents c + drift_sum rx cdc c ops"
proof (induction ops arbitrary: c)
  case (Cons a ops)
  from Cons.IH [OF collection_step_inv [OF Cons.prems]] collection_step_count [OF Cons.prems, of a] show ?case
    by simp
qed simp

section \<open>Properties\<close>

text \<open>
  C26. Only valid documents are stored: after any inserts, updates and deletes on a new collection,
  every stored value is the encoding of a document that has every required field, whose declared
  fields have their type and pass their validators, and that is within the size and depth limits.
\<close>

theorem collection_documents_valid:
  "list_all (\<lambda>(k, v). \<exists>d. doc_to_vec cdc d = Inr v \<and> list_all (field_conforms rx d) (sch_fields s) \<and>
       doc_size_bytes d \<le> MAX_DOCUMENT_SIZE \<and> max_field_depth d \<le> MAX_NESTING_DEPTH)
     (documents (co_persistent (foldl (collection_step rx cdc) (collection_new t n s pl_new) ops)))"
proof -
  have "collection_inv rx cdc s (foldl (collection_step rx cdc) (collection_new t n s pl_new) ops)"
    by (intro collection_run_inv collection_inv_new)
  then show ?thesis
    unfolding collection_inv_def raw_get_def valid_document_def by (auto simp: list_all_iff)
qed

text \<open>
  What the document counter counts: after any operations on a new collection it is the number
  of stored documents plus the number of inserts that overwrote a document minus the number of
  updates that created one, modulo \<open>2 ^ 64\<close>.
\<close>

theorem document_count_drift:
  "document_count (foldl (collection_step rx cdc) (collection_new t n s pl_new) ops) =
     num_documents (foldl (collection_step rx cdc) (collection_new t n s pl_new) ops) +
     drift_sum rx cdc (collection_new t n s pl_new) ops"
proof -
  have "document_count (collection_new t n s pl_new) - num_documents (collection_new t n s pl_new) = 0"
    by (simp add: collection_new_def num_documents_def pl_new_def)
  with collection_run_count [OF collection_inv_new, of rx cdc t n s ops] show ?thesis
    by (simp add: algebra_simps)
qed

end
