(* ===== verification/Hybrid_Storage.thy ===== *)
theory Hybrid_Storage
  imports Cache_Layer Collection_Ved
begin

text \<open>
  The hybrid storage engine (\<open>veddb-core/src/storage/hybrid.rs\<close>): the cache in front of the
  persistent layer, by the cache strategy of each collection, with a queue of delayed writes. The
  clock is an argument of every call; calls run one after the other, and the two background loops
  are operations, one pass each. Indexes and queries are in the theories of the query engine.
\<close>

section \<open>State\<close>

datatype write_behind_operation = Write document | Delete

record write_behind_entry =
  wb_collection :: string
  wb_doc_id :: document_id
  wb_operation :: write_behind_operation
  wb_delay_ms :: nat
  wb_queued_at :: int

record hybrid_stats =
  cache_hits :: u64
  cache_misses :: u64
  cache_writes :: u64
  cache_invalidations :: u64
  persistent_reads :: u64
  persistent_writes :: u64
  cache_warmed :: u64

record hybrid_engine =
  he_cache :: cache_layer
  he_persistent :: persistent_layer
  he_schemas :: "(string \<times> schema) list"
  he_queue :: "write_behind_entry list"
  he_stats :: hybrid_stats

definition stats_default :: hybrid_stats where
  "stats_default = \<lparr>cache_hits = 0, cache_misses = 0, cache_writes = 0, cache_invalidations = 0,
     persistent_reads = 0, persistent_writes = 0, cache_warmed = 0\<rparr>"

definition hybrid_new :: "cache_config \<Rightarrow> persistent_layer \<Rightarrow> hybrid_engine" where
  "hybrid_new cfg p = \<lparr>he_cache = cache_new cfg, he_persistent = p, he_schemas = [], he_queue = [],
     he_stats = stats_default\<rparr>"

definition register_schema :: "hybrid_engine \<Rightarrow> string \<Rightarrow> schema \<Rightarrow> hybrid_engine" where
  "register_schema e coll s = e\<lparr>he_schemas := al_put coll s (he_schemas e)\<rparr>"

definition get_schema :: "hybrid_engine \<Rightarrow> string \<Rightarrow> schema option" where
  "get_schema e coll = map_of (he_schemas e) coll"

section \<open>Statistics\<close>

definition record_cache_hit :: "hybrid_engine \<Rightarrow> hybrid_engine" where
  "record_cache_hit e = e\<lparr>he_stats := (he_stats e)\<lparr>cache_hits := cache_hits (he_stats e) + 1\<rparr>\<rparr>"

definition record_cache_miss :: "hybrid_engine \<Rightarrow> hybrid_engine" where
  "record_cache_miss e = e\<lparr>he_stats := (he_stats e)\<lparr>cache_misses := cache_misses (he_stats e) + 1\<rparr>\<rparr>"

definition record_cache_write :: "hybrid_engine \<Rightarrow> hybrid_engine" where
  "record_cache_write e = e\<lparr>he_stats := (he_stats e)\<lparr>cache_writes := cache_writes (he_stats e) + 1\<rparr>\<rparr>"

definition record_cache_invalidation :: "hybrid_engine \<Rightarrow> hybrid_engine" where
  "record_cache_invalidation e =
     e\<lparr>he_stats := (he_stats e)\<lparr>cache_invalidations := cache_invalidations (he_stats e) + 1\<rparr>\<rparr>"

definition record_persistent_read :: "hybrid_engine \<Rightarrow> hybrid_engine" where
  "record_persistent_read e = e\<lparr>he_stats := (he_stats e)\<lparr>persistent_reads := persistent_reads (he_stats e) + 1\<rparr>\<rparr>"

definition record_persistent_write :: "hybrid_engine \<Rightarrow> hybrid_engine" where
  "record_persistent_write e = e\<lparr>he_stats := (he_stats e)\<lparr>persistent_writes := persistent_writes (he_stats e) + 1\<rparr>\<rparr>"

definition total_operations :: "hybrid_stats \<Rightarrow> u64" where
  "total_operations s = cache_hits s + cache_misses s + cache_writes s + persistent_reads s + persistent_writes s"

lemmas record_stats_defs = record_cache_hit_def record_cache_miss_def record_cache_write_def
  record_cache_invalidation_def record_persistent_read_def record_persistent_write_def

lemma record_stats_simps [simp]:
  "he_cache (record_cache_hit e) = he_cache e" "he_persistent (record_cache_hit e) = he_persistent e" "he_schemas (record_cache_hit e) = he_schemas e" "he_queue (record_cache_hit e) = he_queue e"
  "he_cache (record_cache_miss e) = he_cache e" "he_persistent (record_cache_miss e) = he_persistent e" "he_schemas (record_cache_miss e) = he_schemas e" "he_queue (record_cache_miss e) = he_queue e"
  "he_cache (record_cache_write e) = he_cache e" "he_persistent (record_cache_write e) = he_persistent e" "he_schemas (record_cache_write e) = he_schemas e" "he_queue (record_cache_write e) = he_queue e"
  "he_cache (record_cache_invalidation e) = he_cache e" "he_persistent (record_cache_invalidation e) = he_persistent e" "he_schemas (record_cache_invalidation e) = he_schemas e" "he_queue (record_cache_invalidation e) = he_queue e"
  "he_cache (record_persistent_read e) = he_cache e" "he_persistent (record_persistent_read e) = he_persistent e" "he_schemas (record_persistent_read e) = he_schemas e" "he_queue (record_persistent_read e) = he_queue e"
  "he_cache (record_persistent_write e) = he_cache e" "he_persistent (record_persistent_write e) = he_persistent e" "he_schemas (record_persistent_write e) = he_schemas e" "he_queue (record_persistent_write e) = he_queue e"
  by (simp_all add: record_stats_defs)

section \<open>Documents in the cache\<close>

definition make_cache_key :: "'z doc_codec_scheme \<Rightarrow> string \<Rightarrow> document_id \<Rightarrow> string" where
  "make_cache_key cdc coll i = ''doc:'' @ coll @ '':'' @ show_uuid cdc i"

definition document_to_cache_data :: "document \<Rightarrow> schema \<Rightarrow> cache_data" where
  "document_to_cache_data d s =
     (case cc_fields (sch_cache_config s) of
        Some fs \<Rightarrow>
          CHash (fold (\<lambda>f h. case doc_get d f of None \<Rightarrow> h | Some v \<Rightarrow> fst (hset h f v)) fs [])
      | None \<Rightarrow> CHash (fold (\<lambda>(k, v) h. fst (hset h k v)) (doc_fields d) []))"

definition cache_data_to_document :: "int \<Rightarrow> cache_data \<Rightarrow> document_id \<Rightarrow> (string, document) result" where
  "cache_data_to_document now cd i =
     (case cd of CHash h \<Rightarrow> Inr ((with_id i now)\<lparr>doc_fields := h\<rparr>) | _ \<Rightarrow> Inl ''Invalid cache data format'')"

definition populate_cache ::
  "'z doc_codec_scheme \<Rightarrow> int \<Rightarrow> hybrid_engine \<Rightarrow> string \<Rightarrow> document_id \<Rightarrow> document \<Rightarrow> schema \<Rightarrow>
   hybrid_engine \<times> (string, unit) result"
where
  "populate_cache cdc now e coll i d s =
     (let (c, r) = set_with_ttl now (he_cache e) (make_cache_key cdc coll i) (document_to_cache_data d s)
                     (cc_ttl (sch_cache_config s))
      in (e\<lparr>he_cache := c\<rparr>, r))"

definition invalidate_cache_entry :: "'z doc_codec_scheme \<Rightarrow> hybrid_engine \<Rightarrow> string \<Rightarrow> document_id \<Rightarrow> hybrid_engine" where
  "invalidate_cache_entry cdc e coll i =
     record_cache_invalidation (e\<lparr>he_cache := fst (cache_remove (he_cache e) (make_cache_key cdc coll i))\<rparr>)"

definition invalidate_collection_cache :: "hybrid_engine \<Rightarrow> string \<Rightarrow> hybrid_engine" where
  "invalidate_collection_cache e coll = record_cache_invalidation (e\<lparr>he_cache := cache_clear (he_cache e)\<rparr>)"

section \<open>Writing\<close>

definition queue_write_behind :: "hybrid_engine \<Rightarrow> write_behind_entry \<Rightarrow> hybrid_engine" where
  "queue_write_behind e w = e\<lparr>he_queue := he_queue e @ [w]\<rparr>"

text \<open>The call of the persistent layer, with its state put back.\<close>

definition persist_insert ::
  "'z doc_codec_scheme \<Rightarrow> hybrid_engine \<Rightarrow> string \<Rightarrow> document_id \<Rightarrow> document \<Rightarrow> hybrid_engine \<times> (string, unit) result"
where
  "persist_insert cdc e coll i d =
     (let (p, r) = insert_document cdc (he_persistent e) coll i d in (e\<lparr>he_persistent := p\<rparr>, r))"

definition persist_update ::
  "'z doc_codec_scheme \<Rightarrow> hybrid_engine \<Rightarrow> string \<Rightarrow> document_id \<Rightarrow> document \<Rightarrow> hybrid_engine \<times> (string, unit) result"
where
  "persist_update cdc e coll i d =
     (let (p, r) = update_document cdc (he_persistent e) coll i d in (e\<lparr>he_persistent := p\<rparr>, r))"

definition persist_delete ::
  "'z doc_codec_scheme \<Rightarrow> hybrid_engine \<Rightarrow> string \<Rightarrow> document_id \<Rightarrow> hybrid_engine \<times> bool"
where
  "persist_delete cdc e coll i =
     (let (p, r) = delete_document cdc (he_persistent e) coll i in (e\<lparr>he_persistent := p\<rparr>, r))"

definition write_through ::
  "'z doc_codec_scheme \<Rightarrow> int \<Rightarrow> hybrid_engine \<Rightarrow> string \<Rightarrow> document_id \<Rightarrow> document \<Rightarrow> schema \<Rightarrow>
   hybrid_engine \<times> (string, unit) result"
where
  "write_through cdc now e coll i d s =
     (case persist_insert cdc e coll i d of
        (e1, Inl m) \<Rightarrow> (e1, Inl m)
      | (e1, Inr _) \<Rightarrow>
          (case populate_cache cdc now e1 coll i d s of
             (e2, Inl m) \<Rightarrow> (e2, Inl m)
           | (e2, Inr _) \<Rightarrow> (record_persistent_write (record_cache_write e2), Inr ())))"

definition write_behind ::
  "'z doc_codec_scheme \<Rightarrow> int \<Rightarrow> hybrid_engine \<Rightarrow> string \<Rightarrow> document_id \<Rightarrow> document \<Rightarrow> schema \<Rightarrow> nat \<Rightarrow>
   hybrid_engine \<times> (string, unit) result"
where
  "write_behind cdc now e coll i d s delay_ms =
     (case populate_cache cdc now e coll i d s of
        (e1, Inl m) \<Rightarrow> (e1, Inl m)
      | (e1, Inr _) \<Rightarrow>
          (record_cache_write (queue_write_behind e1
             \<lparr>wb_collection = coll, wb_doc_id = i, wb_operation = Write d, wb_delay_ms = delay_ms, wb_queued_at = now\<rparr>),
           Inr ()))"

definition hybrid_insert ::
  "'z doc_codec_scheme \<Rightarrow> int \<Rightarrow> hybrid_engine \<Rightarrow> string \<Rightarrow> document \<Rightarrow> hybrid_engine \<times> (string, document_id) result"
where
  "hybrid_insert cdc now e coll d =
     (let i = doc_id d;
          (e', r) = (case get_schema e coll of
             Some s \<Rightarrow>
               (case cc_strategy (sch_cache_config s) of
                  NoCache \<Rightarrow>
                    (case persist_insert cdc e coll i d of
                       (e1, Inl m) \<Rightarrow> (e1, Inl m) | (e1, Inr _) \<Rightarrow> (record_persistent_write e1, Inr ()))
                | WriteThrough \<Rightarrow> write_through cdc now e coll i d s
                | WriteBehind delay_ms \<Rightarrow> write_behind cdc now e coll i d s delay_ms
                | ReadThrough \<Rightarrow>
                    (case persist_insert cdc e coll i d of
                       (e1, Inl m) \<Rightarrow> (e1, Inl m)
                     | (e1, Inr _) \<Rightarrow> (record_persistent_write (invalidate_cache_entry cdc e1 coll i), Inr ())))
           | None \<Rightarrow>
               (case persist_insert cdc e coll i d of
                  (e1, Inl m) \<Rightarrow> (e1, Inl m) | (e1, Inr _) \<Rightarrow> (record_persistent_write e1, Inr ())))
      in (e', map_sum id (\<lambda>_. i) r))"

definition hybrid_update ::
  "'z doc_codec_scheme \<Rightarrow> int \<Rightarrow> hybrid_engine \<Rightarrow> string \<Rightarrow> document_id \<Rightarrow> document \<Rightarrow>
   hybrid_engine \<times> (string, unit) result"
where
  "hybrid_update cdc now e coll i d =
     (case get_schema e coll of
        Some s \<Rightarrow>
          (case cc_strategy (sch_cache_config s) of
             NoCache \<Rightarrow>
               (case persist_update cdc e coll i d of
                  (e1, Inl m) \<Rightarrow> (e1, Inl m) | (e1, Inr _) \<Rightarrow> (record_persistent_write e1, Inr ()))
           | WriteThrough \<Rightarrow> write_through cdc now e coll i d s
           | WriteBehind delay_ms \<Rightarrow> write_behind cdc now e coll i d s delay_ms
           | ReadThrough \<Rightarrow>
               (case persist_update cdc e coll i d of
                  (e1, Inl m) \<Rightarrow> (e1, Inl m)
                | (e1, Inr _) \<Rightarrow> (record_persistent_write (invalidate_cache_entry cdc e1 coll i), Inr ())))
      | None \<Rightarrow>
          (case persist_update cdc e coll i d of
             (e1, Inl m) \<Rightarrow> (e1, Inl m) | (e1, Inr _) \<Rightarrow> (record_persistent_write e1, Inr ())))"

definition hybrid_delete ::
  "'z doc_codec_scheme \<Rightarrow> int \<Rightarrow> hybrid_engine \<Rightarrow> string \<Rightarrow> document_id \<Rightarrow> hybrid_engine \<times> bool"
where
  "hybrid_delete cdc now e coll i =
     (case get_schema e coll of
        Some s \<Rightarrow>
          (case cc_strategy (sch_cache_config s) of
             NoCache \<Rightarrow>
               (let (e1, deleted) = persist_delete cdc e coll i in (record_persistent_write e1, deleted))
           | WriteThrough \<Rightarrow>
               (let e1 = e\<lparr>he_cache := fst (cache_remove (he_cache e) (make_cache_key cdc coll i))\<rparr>;
                    (e2, deleted) = persist_delete cdc e1 coll i
                in (record_persistent_write (record_cache_write e2), deleted))
           | WriteBehind delay_ms \<Rightarrow>
               (let e1 = e\<lparr>he_cache := fst (cache_remove (he_cache e) (make_cache_key cdc coll i))\<rparr>;
                    e2 = queue_write_behind e1
                      \<lparr>wb_collection = coll, wb_doc_id = i, wb_operation = Delete, wb_delay_ms = delay_ms,
                       wb_queued_at = now\<rparr>
                in (record_cache_write e2, True))
           | ReadThrough \<Rightarrow>
               (let (e1, deleted) = persist_delete cdc e coll i
                in (record_persistent_write (invalidate_cache_entry cdc e1 coll i), deleted)))
      | None \<Rightarrow> (let (e1, deleted) = persist_delete cdc e coll i in (record_persistent_write e1, deleted)))"

section \<open>Reading\<close>

definition read_persistent ::
  "'z doc_codec_scheme \<Rightarrow> hybrid_engine \<Rightarrow> string \<Rightarrow> document_id \<Rightarrow> hybrid_engine \<times> (string, document option) result"
where
  "read_persistent cdc e coll i =
     (case get_document cdc (he_persistent e) coll i of
        Inl m \<Rightarrow> (e, Inl m) | Inr d \<Rightarrow> (record_persistent_read e, Inr d))"

text \<open>The two branches that look into the cache first are the same code.\<close>

definition read_cached ::
  "'z doc_codec_scheme \<Rightarrow> int \<Rightarrow> hybrid_engine \<Rightarrow> string \<Rightarrow> document_id \<Rightarrow> schema \<Rightarrow>
   hybrid_engine \<times> (string, document option) result"
where
  "read_cached cdc now e coll i s =
     (case cache_get now (he_cache e) (make_cache_key cdc coll i) of
        (c, Some cd) \<Rightarrow> (record_cache_hit (e\<lparr>he_cache := c\<rparr>), map_sum id Some (cache_data_to_document now cd i))
      | (c, None) \<Rightarrow>
          (let e1 = record_cache_miss (e\<lparr>he_cache := c\<rparr>)
           in case get_document cdc (he_persistent e1) coll i of
                Inl m \<Rightarrow> (e1, Inl m)
              | Inr None \<Rightarrow> (record_persistent_read e1, Inr None)
              | Inr (Some d) \<Rightarrow>
                  (case populate_cache cdc now e1 coll i d s of
                     (e2, Inl m) \<Rightarrow> (e2, Inl m)
                   | (e2, Inr _) \<Rightarrow> (record_persistent_read e2, Inr (Some d)))))"

definition hybrid_get ::
  "'z doc_codec_scheme \<Rightarrow> int \<Rightarrow> hybrid_engine \<Rightarrow> string \<Rightarrow> document_id \<Rightarrow>
   hybrid_engine \<times> (string, document option) result"
where
  "hybrid_get cdc now e coll i =
     (case get_schema e coll of
        Some s \<Rightarrow>
          (case cc_strategy (sch_cache_config s) of
             NoCache \<Rightarrow> read_persistent cdc e coll i
           | WriteThrough \<Rightarrow> read_cached cdc now e coll i s
           | WriteBehind _ \<Rightarrow> read_cached cdc now e coll i s
           | ReadThrough \<Rightarrow> read_cached cdc now e coll i s)
      | None \<Rightarrow> read_persistent cdc e coll i)"

section \<open>The queue of delayed writes\<close>

definition process_write_behind_entry ::
  "'z doc_codec_scheme \<Rightarrow> hybrid_engine \<Rightarrow> write_behind_entry \<Rightarrow> hybrid_engine \<times> (string, unit) result"
where
  "process_write_behind_entry cdc e w =
     (case wb_operation w of
        Write d \<Rightarrow>
          (case persist_insert cdc e (wb_collection w) (wb_doc_id w) d of
             (e1, Inl m) \<Rightarrow> (e1, Inl m) | (e1, Inr _) \<Rightarrow> (record_persistent_write e1, Inr ()))
      | Delete \<Rightarrow> (record_persistent_write (fst (persist_delete cdc e (wb_collection w) (wb_doc_id w))), Inr ()))"

text \<open>\<open>duration_since\<close> is zero for a time in the future; milliseconds are whole.\<close>

definition elapsed_ms :: "int \<Rightarrow> write_behind_entry \<Rightarrow> nat" where
  "elapsed_ms now w = nat (now - wb_queued_at w) div 1000000"

definition wb_ready :: "int \<Rightarrow> write_behind_entry \<Rightarrow> bool" where
  "wb_ready now w \<longleftrightarrow> wb_delay_ms w \<le> elapsed_ms now w"

function collect_ready ::
  "int \<Rightarrow> write_behind_entry list \<Rightarrow> nat \<Rightarrow> write_behind_entry list \<Rightarrow>
   write_behind_entry list \<times> write_behind_entry list"
where
  "collect_ready now q i entries =
     (if i < length q
      then (if wb_ready now (q ! i)
            then collect_ready now (take i q @ drop (Suc i) q) i (entries @ [q ! i])
            else collect_ready now q (Suc i) entries)
      else (q, entries))"
  by pat_completeness auto
termination
  by (relation "measure (\<lambda>(now, q, i, es). length q - i)") auto

declare collect_ready.simps [simp del]

text \<open>One pass of the background loop: an entry that fails is reported and dropped.\<close>

definition process_write_behind_queue :: "'z doc_codec_scheme \<Rightarrow> int \<Rightarrow> hybrid_engine \<Rightarrow> hybrid_engine" where
  "process_write_behind_queue cdc now e =
     (let (q, entries) = collect_ready now (he_queue e) 0 []
      in fold (\<lambda>w e'. fst (process_write_behind_entry cdc e' w)) entries (e\<lparr>he_queue := q\<rparr>))"

fun process_all ::
  "'z doc_codec_scheme \<Rightarrow> hybrid_engine \<Rightarrow> write_behind_entry list \<Rightarrow> hybrid_engine \<times> (string, unit) result"
where
  "process_all cdc e [] = (e, Inr ())"
| "process_all cdc e (w # ws) =
     (case process_write_behind_entry cdc e w of
        (e1, Inl m) \<Rightarrow> (e1, Inl m) | (e1, Inr _) \<Rightarrow> process_all cdc e1 ws)"

text \<open>\<open>flush\<close> of the persistent layer does nothing in this build.\<close>

definition hybrid_flush :: "'z doc_codec_scheme \<Rightarrow> hybrid_engine \<Rightarrow> hybrid_engine \<times> (string, unit) result" where
  "hybrid_flush cdc e = process_all cdc (e\<lparr>he_queue := []\<rparr>) (he_queue e)"

section \<open>Warming and collections\<close>

fun populate_all ::
  "'z doc_codec_scheme \<Rightarrow> int \<Rightarrow> hybrid_engine \<Rightarrow> string \<Rightarrow> document list \<Rightarrow> schema \<Rightarrow>
   hybrid_engine \<times> (string, unit) result"
where
  "populate_all cdc now e coll [] s = (e, Inr ())"
| "populate_all cdc now e coll (d # ds) s =
     (case populate_cache cdc now e coll (doc_id d) d s of
        (e1, Inl m) \<Rightarrow> (e1, Inl m) | (e1, Inr _) \<Rightarrow> populate_all cdc now e1 coll ds s)"

definition preload_collection ::
  "'z doc_codec_scheme \<Rightarrow> int \<Rightarrow> hybrid_engine \<Rightarrow> string \<Rightarrow> nat \<Rightarrow> hybrid_engine \<times> (string, unit) result"
where
  "preload_collection cdc now e coll limit =
     (case get_schema e coll of
        None \<Rightarrow> (e, Inl ''Schema not found'')
      | Some s \<Rightarrow>
          (case scan_collection cdc (he_persistent e) coll of
             Inl m \<Rightarrow> (e, Inl m) | Inr ds \<Rightarrow> populate_all cdc now e coll (take limit ds) s))"

definition refresh_collection_cache ::
  "'z doc_codec_scheme \<Rightarrow> int \<Rightarrow> hybrid_engine \<Rightarrow> string \<Rightarrow> hybrid_engine \<times> (string, unit) result"
where
  "refresh_collection_cache cdc now e coll =
     (case get_schema e coll of
        None \<Rightarrow> (e, Inl ''Schema not found'')
      | Some s \<Rightarrow>
          (case scan_collection cdc (he_persistent e) coll of
             Inl m \<Rightarrow> (e, Inl m) | Inr ds \<Rightarrow> populate_all cdc now e coll ds s))"

definition warm_collection :: "'z doc_codec_scheme \<Rightarrow> int \<Rightarrow> string \<times> schema \<Rightarrow> hybrid_engine \<Rightarrow> hybrid_engine" where
  "warm_collection cdc now p e =
     (case cc_warming (sch_cache_config (snd p)) of
        NoWarming \<Rightarrow> e
      | PreloadOnStartup limit \<Rightarrow>
          (if cache_warmed (he_stats e) = 0 then fst (preload_collection cdc now e (fst p) limit) else e)
      | LazyLoad \<Rightarrow> e
      | ScheduledRefresh _ \<Rightarrow> fst (refresh_collection_cache cdc now e (fst p)))"

text \<open>One pass of the warming loop over the registered schemas; the sleeps are left out.\<close>

definition warm_caches :: "'z doc_codec_scheme \<Rightarrow> int \<Rightarrow> hybrid_engine \<Rightarrow> hybrid_engine" where
  "warm_caches cdc now e =
     (let e1 = fold (warm_collection cdc now) (he_schemas e) e
      in e1\<lparr>he_stats := (he_stats e1)\<lparr>cache_warmed := 1\<rparr>\<rparr>)"

definition hybrid_create_collection ::
  "'z doc_codec_scheme \<Rightarrow> hybrid_engine \<Rightarrow> string \<Rightarrow> hybrid_engine \<times> (string, unit) result"
where
  "hybrid_create_collection cdc e name =
     (let (p, r) = create_collection cdc (he_persistent e) name in (e\<lparr>he_persistent := p\<rparr>, r))"

definition hybrid_list_collections :: "hybrid_engine \<Rightarrow> string list" where
  "hybrid_list_collections e = list_collections (he_persistent e)"

definition hybrid_scan_collection ::
  "'z doc_codec_scheme \<Rightarrow> hybrid_engine \<Rightarrow> string \<Rightarrow> (string, document list) result"
where
  "hybrid_scan_collection cdc e coll = scan_collection cdc (he_persistent e) coll"

definition hybrid_drop_collection ::
  "'z doc_codec_scheme \<Rightarrow> hybrid_engine \<Rightarrow> string \<Rightarrow> hybrid_engine \<times> (string, unit) result"
where
  "hybrid_drop_collection cdc e coll =
     (let e1 = invalidate_collection_cache e coll;
          (p, r) = drop_collection cdc (he_persistent e1) coll
      in (e1\<lparr>he_persistent := p\<rparr>, r))"

section \<open>The queue loop\<close>

lemma collect_ready_filter:
  "i \<le> length q \<Longrightarrow>
   collect_ready now q i es =
     (take i q @ filter (\<lambda>w. \<not> wb_ready now w) (drop i q), es @ filter (wb_ready now) (drop i q))"
proof (induction now q i es rule: collect_ready.induct)
  case (1 now q i es)
  show ?case
  proof (cases "i < length q")
    case True
    then have d: "drop i q = q ! i # drop (Suc i) q" by (rule Cons_nth_drop_Suc [symmetric])
    show ?thesis
    proof (cases "wb_ready now (q ! i)")
      case True
      with 1(1) \<open>i < length q\<close> d show ?thesis
        by (subst collect_ready.simps) (simp add: min_def)
    next
      case False
      with 1(2) \<open>i < length q\<close> d show ?thesis
        by (subst collect_ready.simps) (simp add: take_Suc_conv_app_nth)
    qed
  next
    case False
    with 1(3) show ?thesis by (subst collect_ready.simps) simp
  qed
qed

lemma process_queue_eq:
  "process_write_behind_queue cdc now e =
     fold (\<lambda>w e'. fst (process_write_behind_entry cdc e' w)) (filter (wb_ready now) (he_queue e))
       (e\<lparr>he_queue := filter (\<lambda>w. \<not> wb_ready now w) (he_queue e)\<rparr>)"
  by (simp add: process_write_behind_queue_def collect_ready_filter)

section \<open>What the cache holds\<close>

definition cached :: "cache_layer \<Rightarrow> string \<Rightarrow> cache_data option" where
  "cached s k = map_option cv_value (map_of (cache s) k)"

lemma cached_evict_expired:
  "cache_wf s \<Longrightarrow> cached (evict_expired now s) k \<in> {None, cached s k}"
  by (simp add: cached_def evict_expired_wf(2))

lemma cached_remove:
  "cache_wf s \<Longrightarrow> cached (fst (cache_remove s k)) k' = (if k' = k then None else cached s k')"
  by (simp add: cached_def cache_remove_wf map_of_al_del)

lemma cached_clear [simp]: "cached (cache_clear s) k = None"
  by (simp add: cached_def cache_clear_def)

lemma cached_get:
  assumes "cache_wf s"
  shows "cached (fst (cache_get now s k)) k' \<in> {None, cached s k'}"
    and "snd (cache_get now s k) = Some d \<Longrightarrow> cached s k = Some d"
proof -
  let ?s = "evict_expired now s"
  have wf: "cache_wf ?s" by (rule evict_expired_wf(1) [OF assms])
  have r: "cached (record_miss t) = cached t" "cached (record_hit t) = cached t" for t
    by (simp_all add: cached_def record_miss_def record_hit_def fun_eq_iff)
  have acc: "cached (?s\<lparr>cache := al_put k (mark_accessed now c) (cache ?s)\<rparr>) = cached ?s"
    if "map_of (cache ?s) k = Some c" for c
    using that by (auto simp: cached_def map_of_al_put mark_accessed_def fun_eq_iff)
  show "cached (fst (cache_get now s k)) k' \<in> {None, cached s k'}"
    using cached_evict_expired [OF assms, of now k'] cached_remove [OF wf, of k k'] acc
    by (auto simp: cache_get_def Let_def r split: option.splits)
  show "cached s k = Some d" if "snd (cache_get now s k) = Some d"
  proof -
    from that have "cached ?s k = Some d"
      by (auto simp: cache_get_def Let_def cached_def split: option.splits if_splits)
    with cached_evict_expired [OF assms, of now k] show ?thesis by auto
  qed
qed

lemma distinct_subset_map_of:
  "distinct (map fst ys) \<Longrightarrow> set xs \<subseteq> set ys \<Longrightarrow> map_of xs k \<in> {None, map_of ys k}"
  by (cases "map_of xs k") (auto dest!: map_of_SomeD)

lemma ensure_space_cached:
  assumes "cache_wf s" and "ensure_space now n s = Inr s'"
  shows "cached s' k \<in> {None, cached s k}"
proof -
  have sub: "set (cache (evict_loop keys target ev s)) \<subseteq> set (cache s)" for keys target ev
    using evict_loop_wf [OF assms(1)] by blast
  have "set (cache s') \<subseteq> set (cache s)"
    using assms(2) sub by (auto simp: ensure_space_def Let_def evict_by_policy_def split: if_splits)
  with assms(1) have "map_of (cache s') k \<in> {None, map_of (cache s) k}"
    by (intro distinct_subset_map_of) (auto simp: cache_wf_def)
  then show ?thesis by (auto simp: cached_def)
qed

lemma set_with_ttl_cached:
  assumes "cache_wf s" and "set_with_ttl now s key d ttl = (s', r)"
  shows "r = Inr () \<Longrightarrow> cached s' key = Some d" and "k \<noteq> key \<Longrightarrow> cached s' k \<in> {None, cached s k}"
    and "r \<noteq> Inr () \<Longrightarrow> cached s' = cached s"
proof -
  have ok: "cached s' key = Some d \<and> (k \<noteq> key \<longrightarrow> cached s' k \<in> {None, cached s k})"
    if "r = Inr ()"
  proof -
    from assms(2) that have "set_with_ttl now s key d ttl = (s', Inr ())" by simp
    then show ?thesis
    proof (rule set_with_ttl_cases)
      fix c s1 s2
      assume a: "ensure_space now (cv_size_bytes c) s1 = Inr s2" "cache s1 = cache s"
        "current_size s1 = current_size s"
        and c: "c = (case ttl of None \<Rightarrow> cached_new now d | Some n \<Rightarrow> cached_with_ttl now d n)"
        and s': "cache s' = al_put key c (cache s2)"
      have "cv_value c = d" by (auto simp: c cached_new_def cached_with_ttl_def split: option.splits)
      moreover have "cache_wf s1" using assms(1) a by (simp add: cache_wf_def)
      then have "cached s2 k \<in> {None, cached s k}"
        using ensure_space_cached [OF _ a(1)] a(2) by (simp add: cached_def)
      ultimately show ?thesis using s' by (auto simp: cached_def map_of_al_put)
    qed
  qed
  have err: "cached s' = cached s" if "r \<noteq> Inr ()"
    using assms(2) that
    by (auto simp: set_with_ttl_def Let_def cached_def fun_eq_iff split: option.splits sum.splits)
  show "r = Inr () \<Longrightarrow> cached s' key = Some d" and "k \<noteq> key \<Longrightarrow> cached s' k \<in> {None, cached s k}"
    and "r \<noteq> Inr () \<Longrightarrow> cached s' = cached s"
    using ok err by (cases "r = Inr ()"; simp)+
qed

lemma set_with_ttl_succeeds:
  assumes "eviction_policy_of (cache_config_of s) \<noteq> NoEviction"
  shows "snd (set_with_ttl now s key d ttl) = Inr ()"
  using assms by (auto simp: set_with_ttl_def Let_def ensure_space_def split: option.splits)

lemma fold_hset_sorted:
  "sorted_wrt (<) (map fst (acc @ xs)) \<Longrightarrow> fold (\<lambda>(k, v) h. fst (hset h k v)) xs acc = acc @ xs"
proof (induction xs arbitrary: acc)
  case (Cons p xs)
  obtain k v where p: "p = (k, v)" by fastforce
  have "bt_insert k v acc = acc @ [(k, v)]"
    using Cons.prems by (intro bt_insert_last) (auto simp: p sorted_wrt_append)
  moreover have "fold (\<lambda>(k, v) h. fst (hset h k v)) xs (acc @ [(k, v)]) = (acc @ [(k, v)]) @ xs"
    by (rule Cons.IH) (use Cons.prems p in simp)
  ultimately show ?case by (simp add: p hset_def)
qed simp

lemma document_to_cache_data_all:
  "bt_sorted (doc_fields d) \<Longrightarrow> cc_fields (sch_cache_config s) = None \<Longrightarrow>
   document_to_cache_data d s = CHash (doc_fields d)"
  by (simp add: document_to_cache_data_def fold_hset_sorted bt_sorted_def)

lemma make_cache_key_inj:
  assumes "uuid_text_ok cdc"
  shows "make_cache_key cdc c i = make_cache_key cdc c' i' \<longleftrightarrow> c = c' \<and> i = i'"
  using make_document_key_inj [OF assms, of c i c' i'] by (auto simp: make_cache_key_def make_document_key_def)

section \<open>Runs\<close>

datatype hybrid_op =
    HInsert string document
  | HUpdate string document_id document
  | HDelete string document_id
  | HGet string document_id
  | HProcess
  | HFlush
  | HDrop string

fun hybrid_step :: "'z doc_codec_scheme \<Rightarrow> hybrid_engine \<Rightarrow> int \<times> hybrid_op \<Rightarrow> hybrid_engine" where
  "hybrid_step cdc e (now, HInsert coll d) = fst (hybrid_insert cdc now e coll d)"
| "hybrid_step cdc e (now, HUpdate coll i d) = fst (hybrid_update cdc now e coll i d)"
| "hybrid_step cdc e (now, HDelete coll i) = fst (hybrid_delete cdc now e coll i)"
| "hybrid_step cdc e (now, HGet coll i) = fst (hybrid_get cdc now e coll i)"
| "hybrid_step cdc e (now, HProcess) = process_write_behind_queue cdc now e"
| "hybrid_step cdc e (now, HFlush) = fst (hybrid_flush cdc e)"
| "hybrid_step cdc e (now, HDrop coll) = fst (hybrid_drop_collection cdc e coll)"

text \<open>
  The facts about the JSON codec that are used: a decoded document has its fields in key order,
  and the documents that are written decode to themselves.
\<close>

definition codec_sorted :: "'z doc_codec_scheme \<Rightarrow> bool" where
  "codec_sorted cdc \<longleftrightarrow> (\<forall>v d. doc_from_slice cdc v = Inr d \<longrightarrow> bt_sorted (doc_fields d))"

definition roundtrips :: "'z doc_codec_scheme \<Rightarrow> document \<Rightarrow> bool" where
  "roundtrips cdc d \<longleftrightarrow>
     bt_sorted (doc_fields d) \<and>
     (case doc_to_vec cdc d of Inl _ \<Rightarrow> False | Inr v \<Rightarrow> doc_from_slice cdc v = Inr d)"

fun op_roundtrips :: "'z doc_codec_scheme \<Rightarrow> hybrid_op \<Rightarrow> bool" where
  "op_roundtrips cdc (HInsert coll d) = roundtrips cdc d"
| "op_roundtrips cdc (HUpdate coll i d) = roundtrips cdc d"
| "op_roundtrips cdc _ = True"

text \<open>Schemas without delayed writes that cache whole documents.\<close>

definition plain_schema :: "schema \<Rightarrow> bool" where
  "plain_schema s \<longleftrightarrow> cc_fields (sch_cache_config s) = None \<and>
     cc_strategy (sch_cache_config s) \<in> {NoCache, WriteThrough, ReadThrough}"

definition uses_cache :: "(string \<times> schema) list \<Rightarrow> string \<Rightarrow> bool" where
  "uses_cache schemas coll =
     (case map_of schemas coll of None \<Rightarrow> False | Some s \<Rightarrow> cc_strategy (sch_cache_config s) \<noteq> NoCache)"

definition coherent ::
  "'z doc_codec_scheme \<Rightarrow> (string \<times> schema) list \<Rightarrow> cache_layer \<Rightarrow> persistent_layer \<Rightarrow> bool"
where
  "coherent cdc schemas c p \<longleftrightarrow>
     (\<forall>coll i cd. cached c (make_cache_key cdc coll i) = Some cd \<longrightarrow>
        uses_cache schemas coll \<and>
        (\<exists>d. get_document cdc p coll i = Inr (Some d) \<and> cd = CHash (doc_fields d)))"

definition engine_ok :: "'z doc_codec_scheme \<Rightarrow> (string \<times> schema) list \<Rightarrow> hybrid_engine \<Rightarrow> bool" where
  "engine_ok cdc schemas e \<longleftrightarrow>
     he_schemas e = schemas \<and> he_queue e = [] \<and> cache_wf (he_cache e) \<and>
     eviction_policy_of (cache_config_of (he_cache e)) \<noteq> NoEviction \<and>
     coherent cdc schemas (he_cache e) (he_persistent e)"

lemma engine_ok_cong:
  assumes "he_schemas e' = he_schemas e" and "he_queue e' = he_queue e" and "he_cache e' = he_cache e"
    and "he_persistent e' = he_persistent e"
  shows "engine_ok cdc schemas e' = engine_ok cdc schemas e"
  using assms by (simp add: engine_ok_def)

lemma record_engine_ok [simp]:
  "engine_ok cdc schemas (record_cache_hit e) = engine_ok cdc schemas e"
  "engine_ok cdc schemas (record_cache_miss e) = engine_ok cdc schemas e"
  "engine_ok cdc schemas (record_cache_write e) = engine_ok cdc schemas e"
  "engine_ok cdc schemas (record_cache_invalidation e) = engine_ok cdc schemas e"
  "engine_ok cdc schemas (record_persistent_read e) = engine_ok cdc schemas e"
  "engine_ok cdc schemas (record_persistent_write e) = engine_ok cdc schemas e"
  by (rule engine_ok_cong; simp)+

lemma get_document_put:
  assumes "uuid_text_ok cdc" and "doc_from_slice cdc v = Inr d"
  shows "get_document cdc (raw_put p (make_document_key cdc coll i) v) c' i' =
     (if c' = coll \<and> i' = i then Inr (Some d) else get_document cdc p c' i')"
  using make_document_key_inj [OF assms(1), of c' i' coll i] assms(2)
  by (auto simp: get_document_raw docs.get_put)

lemma get_document_del:
  assumes "uuid_text_ok cdc"
  shows "get_document cdc (raw_del p (make_document_key cdc coll i)) c' i' =
     (if c' = coll \<and> i' = i then Inr None else get_document cdc p c' i')"
  using make_document_key_inj [OF assms, of c' i' coll i]
  by (auto simp: get_document_raw docs.get_del)

text \<open>Losing cached values keeps the cache coherent; so does storing what the persistent layer holds.\<close>

lemma coherent_shrink:
  assumes "coherent cdc schemas c p" and "\<And>k. cached c' k \<in> {None, cached c k}"
  shows "coherent cdc schemas c' p"
  using assms unfolding coherent_def by (metis insertE option.distinct(1) singletonD)

lemma coherent_set:
  assumes "uuid_text_ok cdc" and "\<And>k. k \<noteq> make_cache_key cdc coll i \<Longrightarrow> cached c' k \<in> {None, cached c k}"
    and "cached c' (make_cache_key cdc coll i) \<in> {None, Some (CHash (doc_fields d))}"
    and "coherent cdc schemas c p0" and "uses_cache schemas coll"
    and "\<And>c' i'. get_document cdc p c' i' =
           (if c' = coll \<and> i' = i then Inr (Some d) else get_document cdc p0 c' i')"
  shows "coherent cdc schemas c' p"
  unfolding coherent_def
proof (intro allI impI)
  fix c1 i1 cd
  assume a: "cached c' (make_cache_key cdc c1 i1) = Some cd"
  show "uses_cache schemas c1 \<and> (\<exists>d. get_document cdc p c1 i1 = Inr (Some d) \<and> cd = CHash (doc_fields d))"
  proof (cases "c1 = coll \<and> i1 = i")
    case True
    with a assms(3,5,6) show ?thesis by auto
  next
    case False
    then have "make_cache_key cdc c1 i1 \<noteq> make_cache_key cdc coll i"
      by (simp add: make_cache_key_inj [OF assms(1)])
    from assms(2) [OF this] a have "cached c (make_cache_key cdc c1 i1) = Some cd" by auto
    with assms(4) False show ?thesis unfolding coherent_def assms(6) by auto
  qed
qed

lemma coherent_forget:
  assumes "uuid_text_ok cdc" and "coherent cdc schemas c p0"
    and "\<And>k. cached c' k \<in> {None, cached c k}" and "cached c' (make_cache_key cdc coll i) = None"
    and "\<And>c' i'. c' \<noteq> coll \<or> i' \<noteq> i \<Longrightarrow> get_document cdc p c' i' = get_document cdc p0 c' i'"
  shows "coherent cdc schemas c' p"
  unfolding coherent_def
proof (intro allI impI)
  fix c1 i1 cd
  assume a: "cached c' (make_cache_key cdc c1 i1) = Some cd"
  then have "c1 \<noteq> coll \<or> i1 \<noteq> i" using assms(4) by auto
  moreover have "cached c (make_cache_key cdc c1 i1) = Some cd"
    using a assms(3) [of "make_cache_key cdc c1 i1"] by auto
  ultimately show "uses_cache schemas c1 \<and>
      (\<exists>d. get_document cdc p c1 i1 = Inr (Some d) \<and> cd = CHash (doc_fields d))"
    using assms(2) assms(5) [of c1 i1] unfolding coherent_def by metis
qed

lemma roundtripsE:
  assumes "roundtrips cdc d"
  obtains v where "doc_to_vec cdc d = Inr v" "doc_from_slice cdc v = Inr d" "bt_sorted (doc_fields d)"
  using assms by (auto simp: roundtrips_def split: sum.splits)

lemma persist_insert_ok:
  assumes "roundtrips cdc d"
  obtains v where "persist_insert cdc e coll i d =
      (e\<lparr>he_persistent := raw_put (he_persistent e) (make_document_key cdc coll i) v\<rparr>, Inr ())"
    and "doc_from_slice cdc v = Inr d"
  using assms by (auto elim!: roundtripsE simp: persist_insert_def insert_document_raw)

lemma persist_update_insert: "persist_update cdc e coll i d = persist_insert cdc e coll i d"
  by (simp add: persist_update_def persist_insert_def update_document_def)

lemma persist_delete_eq:
  "fst (persist_delete cdc e coll i) =
     e\<lparr>he_persistent := raw_del (he_persistent e) (make_document_key cdc coll i)\<rparr>"
  by (simp add: persist_delete_def delete_document_raw)

text \<open>Putting a document into the cache with the rest of the engine as it is.\<close>

lemma populate_cache_eq:
  assumes "cache_wf (he_cache e)" and "eviction_policy_of (cache_config_of (he_cache e)) \<noteq> NoEviction"
  obtains c where "populate_cache cdc now e coll i d s = (e\<lparr>he_cache := c\<rparr>, Inr ())"
    and "cache_wf c" and "cache_config_of c = cache_config_of (he_cache e)"
    and "cached c (make_cache_key cdc coll i) = Some (document_to_cache_data d s)"
    and "\<And>k. k \<noteq> make_cache_key cdc coll i \<Longrightarrow> cached c k \<in> {None, cached (he_cache e) k}"
proof -
  obtain c r where c: "set_with_ttl now (he_cache e) (make_cache_key cdc coll i) (document_to_cache_data d s)
      (cc_ttl (sch_cache_config s)) = (c, r)" by fastforce
  with set_with_ttl_succeeds [OF assms(2)] have r: "r = Inr ()" by (metis snd_conv)
  from set_with_ttl_wf [OF assms(1), of now "make_cache_key cdc coll i" "document_to_cache_data d s"
      "cc_ttl (sch_cache_config s)"] c have wf: "cache_wf c" "cache_config_of c = cache_config_of (he_cache e)" by simp_all
  from set_with_ttl_cached [OF assms(1) c] r c wf show ?thesis
    by (intro that [of c]) (simp_all add: populate_cache_def)
qed

lemma write_through_ok:
  assumes "uuid_text_ok cdc" and "engine_ok cdc schemas e" and "roundtrips cdc d"
    and "map_of schemas coll = Some s" and "plain_schema s" and "cc_strategy (sch_cache_config s) \<noteq> NoCache"
  shows "engine_ok cdc schemas (fst (write_through cdc now e coll i d s))"
proof -
  obtain v where v: "persist_insert cdc e coll i d =
      (e\<lparr>he_persistent := raw_put (he_persistent e) (make_document_key cdc coll i) v\<rparr>, Inr ())"
    "doc_from_slice cdc v = Inr d"
    using persist_insert_ok [OF assms(3)] by blast
  let ?e1 = "e\<lparr>he_persistent := raw_put (he_persistent e) (make_document_key cdc coll i) v\<rparr>"
  have wf: "cache_wf (he_cache ?e1)" "eviction_policy_of (cache_config_of (he_cache ?e1)) \<noteq> NoEviction"
    using assms(2) by (simp_all add: engine_ok_def)
  from wf obtain c where c: "populate_cache cdc now ?e1 coll i d s = (?e1\<lparr>he_cache := c\<rparr>, Inr ())"
    "cache_wf c" "cache_config_of c = cache_config_of (he_cache ?e1)"
    "cached c (make_cache_key cdc coll i) = Some (document_to_cache_data d s)"
    "\<And>k. k \<noteq> make_cache_key cdc coll i \<Longrightarrow> cached c k \<in> {None, cached (he_cache ?e1) k}"
    by (rule populate_cache_eq [where e = ?e1 and cdc = cdc and now = now and coll = coll and i = i and d = d and s = s])
      blast
  have cd: "document_to_cache_data d s = CHash (doc_fields d)"
    using assms(3,5) by (auto elim!: roundtripsE simp: plain_schema_def document_to_cache_data_all)
  have "coherent cdc schemas c (he_persistent ?e1)"
  proof (rule coherent_set [OF assms(1)])
    show "coherent cdc schemas (he_cache e) (he_persistent e)" using assms(2) by (simp add: engine_ok_def)
    show "uses_cache schemas coll" using assms(4,6) by (simp add: uses_cache_def)
    show "get_document cdc (he_persistent ?e1) c' i' =
        (if c' = coll \<and> i' = i then Inr (Some d) else get_document cdc (he_persistent e) c' i')" for c' i'
      by (simp add: get_document_put [OF assms(1) v(2)])
    show "cached c k \<in> {None, cached (he_cache e) k}" if "k \<noteq> make_cache_key cdc coll i" for k
      using c(5) [OF that] by simp
    show "cached c (make_cache_key cdc coll i) \<in> {None, Some (CHash (doc_fields d))}"
      using c(4) cd by simp
  qed
  with c v assms(2) show ?thesis by (simp add: write_through_def engine_ok_def)
qed

lemma invalidate_after_ok:
  assumes "uuid_text_ok cdc" and "engine_ok cdc schemas e"
    and "\<And>c' i'. c' \<noteq> coll \<or> i' \<noteq> i \<Longrightarrow> get_document cdc p c' i' = get_document cdc (he_persistent e) c' i'"
    and "he_cache e' = fst (cache_remove (he_cache e) (make_cache_key cdc coll i))"
    and "he_persistent e' = p" and "he_schemas e' = he_schemas e" and "he_queue e' = he_queue e"
  shows "engine_ok cdc schemas e'"
proof -
  have wf: "cache_wf (he_cache e)" using assms(2) by (simp add: engine_ok_def)
  have "coherent cdc schemas (fst (cache_remove (he_cache e) (make_cache_key cdc coll i))) p"
    by (rule coherent_forget [OF assms(1), of schemas "he_cache e" "he_persistent e" _ coll i])
      (use assms(2,3) in \<open>auto simp: engine_ok_def cached_remove [OF wf]\<close>)
  with assms(2,4-7) cache_remove_wf [OF wf, of "make_cache_key cdc coll i"] show ?thesis
    by (simp add: engine_ok_def)
qed

text \<open>A collection that is not cached has no entries, so its documents can change freely.\<close>

lemma uncached_change_ok:
  assumes "uuid_text_ok cdc" and "engine_ok cdc schemas e" and "\<not> uses_cache schemas coll"
    and "\<And>c' i'. c' \<noteq> coll \<or> i' \<noteq> i \<Longrightarrow> get_document cdc p c' i' = get_document cdc (he_persistent e) c' i'"
  shows "engine_ok cdc schemas (e\<lparr>he_persistent := p\<rparr>)"
proof -
  have none: "cached (he_cache e) (make_cache_key cdc coll i) = None"
  proof (rule ccontr)
    assume "\<not> ?thesis"
    then obtain cd where "cached (he_cache e) (make_cache_key cdc coll i) = Some cd" by blast
    with assms(2,3) show False unfolding engine_ok_def coherent_def by blast
  qed
  have "coherent cdc schemas (he_cache e) p"
  proof (rule coherent_forget [OF assms(1) _ _ none assms(4)])
    show "coherent cdc schemas (he_cache e) (he_persistent e)" using assms(2) by (simp add: engine_ok_def)
  qed simp_all
  with assms(2) show ?thesis by (simp add: engine_ok_def)
qed

definition result_fields :: "(string, document option) result \<Rightarrow> (string, (string \<times> ved_value) list option) result" where
  "result_fields r = map_sum id (map_option doc_fields) r"

lemma read_cached_ok:
  assumes "uuid_text_ok cdc" and "codec_sorted cdc" and "engine_ok cdc schemas e"
    and "map_of schemas coll = Some s" and "plain_schema s" and "cc_strategy (sch_cache_config s) \<noteq> NoCache"
  shows "engine_ok cdc schemas (fst (read_cached cdc now e coll i s)) \<and>
    result_fields (snd (read_cached cdc now e coll i s)) = result_fields (get_document cdc (he_persistent e) coll i)"
proof -
  let ?k = "make_cache_key cdc coll i"
  have wf: "cache_wf (he_cache e)" "eviction_policy_of (cache_config_of (he_cache e)) \<noteq> NoEviction"
    and coh: "coherent cdc schemas (he_cache e) (he_persistent e)"
    using assms(3) by (simp_all add: engine_ok_def)
  obtain c r where c: "cache_get now (he_cache e) ?k = (c, r)" by fastforce
  have cw: "cache_wf c" "cache_config_of c = cache_config_of (he_cache e)"
    using cache_get_wf [OF wf(1), of now ?k] c by simp_all
  have sub: "cached c k \<in> {None, cached (he_cache e) k}" for k
    using cached_get(1) [OF wf(1), of now ?k k] c by simp
  have coh1: "coherent cdc schemas c (he_persistent e)" by (rule coherent_shrink [OF coh sub])
  have ok1: "engine_ok cdc schemas (e\<lparr>he_cache := c\<rparr>)"
    using assms(3) cw coh1 by (simp add: engine_ok_def)
  show ?thesis
  proof (cases r)
    case (Some cd)
    with c cached_get(2) [OF wf(1), of now ?k cd] have "cached (he_cache e) ?k = Some cd" by simp
    with coh obtain d where d: "get_document cdc (he_persistent e) coll i = Inr (Some d)" "cd = CHash (doc_fields d)"
      unfolding coherent_def by blast
    with Some c ok1 show ?thesis
      by (simp add: read_cached_def cache_data_to_document_def result_fields_def with_id_def)
  next
    case None
    let ?e1 = "record_cache_miss (e\<lparr>he_cache := c\<rparr>)"
    show ?thesis
    proof (cases "get_document cdc (he_persistent e) coll i")
      case (Inl m)
      with None c ok1 show ?thesis by (simp add: read_cached_def)
    next
      case (Inr x)
      show ?thesis
      proof (cases x)
        case None
        with Inr \<open>r = None\<close> c ok1 show ?thesis by (simp add: read_cached_def)
      next
        case (Some d)
        obtain c2 where c2: "populate_cache cdc now ?e1 coll i d s = (?e1\<lparr>he_cache := c2\<rparr>, Inr ())"
          "cache_wf c2" "cache_config_of c2 = cache_config_of (he_cache ?e1)"
          "cached c2 ?k = Some (document_to_cache_data d s)"
          "\<And>k. k \<noteq> ?k \<Longrightarrow> cached c2 k \<in> {None, cached (he_cache ?e1) k}"
          using populate_cache_eq [of ?e1 cdc now coll i d s] cw wf(2) by auto
        have "bt_sorted (doc_fields d)"
          using Inr Some assms(2) by (auto simp: get_document_raw codec_sorted_def split: option.splits sum.splits)
        then have cd: "document_to_cache_data d s = CHash (doc_fields d)"
          using assms(5) by (simp add: plain_schema_def document_to_cache_data_all)
        have "coherent cdc schemas c2 (he_persistent e)"
        proof (rule coherent_set [OF assms(1) _ _ coh1])
          show "uses_cache schemas coll" using assms(4,6) by (simp add: uses_cache_def)
          show "get_document cdc (he_persistent e) c' i' =
              (if c' = coll \<and> i' = i then Inr (Some d) else get_document cdc (he_persistent e) c' i')" for c' i'
            using Inr Some by simp
          show "cached c2 k \<in> {None, cached c k}" if "k \<noteq> ?k" for k using c2(5) [OF that] by simp
          show "cached c2 ?k \<in> {None, Some (CHash (doc_fields d))}" using c2(4) cd by simp
        qed
        with c c2 Inr Some \<open>r = None\<close> assms(3) cw(2) show ?thesis
          by (simp add: read_cached_def engine_ok_def)
      qed
    qed
  qed
qed

lemma hybrid_get_ok:
  assumes "uuid_text_ok cdc" and "codec_sorted cdc" and "engine_ok cdc schemas e"
    and "list_all (plain_schema \<circ> snd) schemas"
  shows "engine_ok cdc schemas (fst (hybrid_get cdc now e coll i)) \<and>
    result_fields (snd (hybrid_get cdc now e coll i)) = result_fields (get_document cdc (he_persistent e) coll i)"
proof -
  have sch: "get_schema e coll = map_of schemas coll" using assms(3) by (simp add: get_schema_def engine_ok_def)
  have direct: "engine_ok cdc schemas (fst (read_persistent cdc e coll i)) \<and>
    result_fields (snd (read_persistent cdc e coll i)) = result_fields (get_document cdc (he_persistent e) coll i)"
    using assms(3) by (auto simp: read_persistent_def split: sum.splits)
  show ?thesis
  proof (cases "map_of schemas coll")
    case None
    with sch direct show ?thesis by (simp add: hybrid_get_def)
  next
    case (Some s)
    then have s: "plain_schema s" using assms(4) by (auto simp: list_all_iff dest!: map_of_SomeD)
    note r = read_cached_ok [OF assms(1,2,3) Some s, of now i]
    from s show ?thesis unfolding hybrid_get_def sch Some
      using r direct by (cases "cc_strategy (sch_cache_config s)") (auto simp: plain_schema_def)
  qed
qed

lemma uncached_insert_ok:
  assumes "uuid_text_ok cdc" and "engine_ok cdc schemas e" and "roundtrips cdc d" and "\<not> uses_cache schemas coll"
  shows "engine_ok cdc schemas (fst (persist_insert cdc e coll i d)) \<and> snd (persist_insert cdc e coll i d) = Inr ()"
proof -
  obtain v where v: "persist_insert cdc e coll i d =
      (e\<lparr>he_persistent := raw_put (he_persistent e) (make_document_key cdc coll i) v\<rparr>, Inr ())"
    "doc_from_slice cdc v = Inr d"
    using persist_insert_ok [OF assms(3)] by blast
  have "engine_ok cdc schemas (e\<lparr>he_persistent := raw_put (he_persistent e) (make_document_key cdc coll i) v\<rparr>)"
    by (rule uncached_change_ok [OF assms(1,2,4), where i = i]) (auto simp: get_document_put [OF assms(1) v(2)])
  with v show ?thesis by simp
qed

lemma invalidating_insert_ok:
  assumes "uuid_text_ok cdc" and "engine_ok cdc schemas e" and "roundtrips cdc d"
  shows "\<exists>e1. persist_insert cdc e coll i d = (e1, Inr ()) \<and> engine_ok cdc schemas (invalidate_cache_entry cdc e1 coll i)"
proof -
  obtain v where v: "persist_insert cdc e coll i d =
      (e\<lparr>he_persistent := raw_put (he_persistent e) (make_document_key cdc coll i) v\<rparr>, Inr ())"
    "doc_from_slice cdc v = Inr d"
    using persist_insert_ok [OF assms(3)] by blast
  have "engine_ok cdc schemas (invalidate_cache_entry cdc
      (e\<lparr>he_persistent := raw_put (he_persistent e) (make_document_key cdc coll i) v\<rparr>) coll i)"
    by (rule invalidate_after_ok [OF assms(1,2), where coll = coll and i = i])
      (auto simp: invalidate_cache_entry_def get_document_put [OF assms(1) v(2)])
  with v show ?thesis by blast
qed

text \<open>Without the returned id, an insert is an update under the id of the document.\<close>

lemma hybrid_insert_update:
  "fst (hybrid_insert cdc now e coll d) = fst (hybrid_update cdc now e coll (doc_id d) d)"
  by (auto simp: hybrid_update_def hybrid_insert_def Let_def persist_update_insert
      split: option.splits cache_strategy.splits prod.splits sum.splits)

lemma hybrid_update_ok:
  assumes "uuid_text_ok cdc" and "engine_ok cdc schemas e" and "list_all (plain_schema \<circ> snd) schemas"
    and "roundtrips cdc d"
  shows "engine_ok cdc schemas (fst (hybrid_update cdc now e coll i d))"
proof -
  have sch: "get_schema e coll = map_of schemas coll" using assms(2) by (simp add: get_schema_def engine_ok_def)
  note ins = uncached_insert_ok [OF assms(1,2,4), of coll i]
  show ?thesis
  proof (cases "map_of schemas coll")
    case None
    with ins sch show ?thesis
      by (auto simp: hybrid_update_def persist_update_insert uses_cache_def split: prod.splits)
  next
    case (Some s)
    then have s: "plain_schema s" using assms(3) by (auto simp: list_all_iff dest!: map_of_SomeD)
    show ?thesis
    proof (cases "cc_strategy (sch_cache_config s)")
      case NoCache
      with ins Some sch show ?thesis
        by (auto simp: hybrid_update_def persist_update_insert uses_cache_def split: prod.splits)
    next
      case WriteThrough
      with write_through_ok [OF assms(1,2,4) Some s, of now i] Some sch show ?thesis
        by (simp add: hybrid_update_def)
    next
      case ReadThrough
      with invalidating_insert_ok [OF assms(1,2,4), of coll i] Some sch show ?thesis
        by (auto simp: hybrid_update_def persist_update_insert)
    qed (use s in \<open>simp add: plain_schema_def\<close>)
  qed
qed

lemma hybrid_delete_ok:
  assumes "uuid_text_ok cdc" and "engine_ok cdc schemas e" and "list_all (plain_schema \<circ> snd) schemas"
  shows "engine_ok cdc schemas (fst (hybrid_delete cdc now e coll i))"
proof -
  have sch: "get_schema e coll = map_of schemas coll" using assms(2) by (simp add: get_schema_def engine_ok_def)
  let ?p = "raw_del (he_persistent e) (make_document_key cdc coll i)"
  have other: "c' \<noteq> coll \<or> i' \<noteq> i \<Longrightarrow> get_document cdc ?p c' i' = get_document cdc (he_persistent e) c' i'" for c' i'
    by (auto simp: get_document_del [OF assms(1)])
  have inv: "engine_ok cdc schemas e'"
    if "he_cache e' = fst (cache_remove (he_cache e) (make_cache_key cdc coll i))" "he_persistent e' = ?p"
      "he_schemas e' = he_schemas e" "he_queue e' = he_queue e" for e'
    by (rule invalidate_after_ok [OF assms(1,2) other that])
  have unc: "engine_ok cdc schemas (e\<lparr>he_persistent := ?p\<rparr>)" if "\<not> uses_cache schemas coll"
    by (rule uncached_change_ok [OF assms(1,2) that other])
  show ?thesis
  proof (cases "map_of schemas coll")
    case None
    with unc sch show ?thesis
      by (simp add: hybrid_delete_def persist_delete_eq uses_cache_def case_prod_beta)
  next
    case (Some s)
    then have s: "plain_schema s" using assms(3) by (auto simp: list_all_iff dest!: map_of_SomeD)
    show ?thesis
    proof (cases "cc_strategy (sch_cache_config s)")
      case NoCache
      with unc Some sch show ?thesis
        by (simp add: hybrid_delete_def persist_delete_eq uses_cache_def case_prod_beta)
    next
      case WriteThrough
      with Some sch show ?thesis
        by (simp add: hybrid_delete_def persist_delete_eq case_prod_beta Let_def) (rule inv; simp)
    next
      case ReadThrough
      with Some sch show ?thesis
        by (simp add: hybrid_delete_def persist_delete_eq case_prod_beta) (rule inv; simp add: invalidate_cache_entry_def)
    qed (use s in \<open>simp add: plain_schema_def\<close>)
  qed
qed

lemma hybrid_step_ok:
  assumes "uuid_text_ok cdc" and "codec_sorted cdc" and "list_all (plain_schema \<circ> snd) schemas"
    and "engine_ok cdc schemas e" and "op_roundtrips cdc (snd q)"
  shows "engine_ok cdc schemas (hybrid_step cdc e q)"
proof (cases q)
  case (Pair now a)
  have q: "he_queue e = []" using assms(4) by (simp add: engine_ok_def)
  show ?thesis
  proof (cases a)
    case HProcess
    with Pair q assms(4) engine_ok_cong [of "e\<lparr>he_queue := []\<rparr>" e cdc schemas] show ?thesis
      by (simp add: process_queue_eq)
  next
    case HFlush
    with Pair q assms(4) engine_ok_cong [of "e\<lparr>he_queue := []\<rparr>" e cdc schemas] show ?thesis
      by (simp add: hybrid_flush_def)
  next
    case (HDrop coll)
    with Pair assms(4) cache_clear_wf [of "he_cache e"] show ?thesis
      by (simp add: hybrid_drop_collection_def invalidate_collection_cache_def engine_ok_def coherent_def
          case_prod_beta Let_def)
  qed (use Pair assms hybrid_update_ok [OF assms(1,4,3)]
      hybrid_delete_ok [OF assms(1,4,3)] hybrid_get_ok [OF assms(1,2,4,3)] in \<open>simp_all add: hybrid_insert_update\<close>)
qed

lemma hybrid_run_ok:
  assumes "uuid_text_ok cdc" and "codec_sorted cdc" and "list_all (plain_schema \<circ> snd) schemas"
  shows "engine_ok cdc schemas e \<Longrightarrow> list_all (op_roundtrips cdc \<circ> snd) ops \<Longrightarrow>
    engine_ok cdc schemas (foldl (hybrid_step cdc) e ops)"
  by (induction ops arbitrary: e) (auto intro: hybrid_step_ok [OF assms])

section \<open>Delayed writes\<close>

text \<open>
  What is going to be in the persistent layer: its present content with the queued writes applied
  in order.
\<close>

type_synonym store_view = "string \<times> document_id \<Rightarrow> (string, document option) result"

definition persistent_view :: "'z doc_codec_scheme \<Rightarrow> persistent_layer \<Rightarrow> store_view" where
  "persistent_view cdc p = (\<lambda>(coll, i). get_document cdc p coll i)"

definition entry_key :: "write_behind_entry \<Rightarrow> string \<times> document_id" where
  "entry_key w = (wb_collection w, wb_doc_id w)"

definition apply_entry :: "write_behind_entry \<Rightarrow> store_view \<Rightarrow> store_view" where
  "apply_entry w m =
     m(entry_key w := Inr (case wb_operation w of Write d \<Rightarrow> Some d | Delete \<Rightarrow> None))"

definition engine_view :: "'z doc_codec_scheme \<Rightarrow> hybrid_engine \<Rightarrow> store_view" where
  "engine_view cdc e = fold apply_entry (he_queue e) (persistent_view cdc (he_persistent e))"

definition entry_ok :: "'z doc_codec_scheme \<Rightarrow> write_behind_entry \<Rightarrow> bool" where
  "entry_ok cdc w = (case wb_operation w of Write d \<Rightarrow> roundtrips cdc d | Delete \<Rightarrow> True)"

lemma persistent_view_put:
  "uuid_text_ok cdc \<Longrightarrow> doc_from_slice cdc v = Inr d \<Longrightarrow>
   persistent_view cdc (raw_put p (make_document_key cdc coll i) v) =
   (persistent_view cdc p)((coll, i) := Inr (Some d))"
  by (auto simp: persistent_view_def fun_eq_iff get_document_put)

lemma persistent_view_del:
  "uuid_text_ok cdc \<Longrightarrow>
   persistent_view cdc (raw_del p (make_document_key cdc coll i)) = (persistent_view cdc p)((coll, i) := Inr None)"
  by (auto simp: persistent_view_def fun_eq_iff get_document_del)

lemma process_entry_view:
  assumes "uuid_text_ok cdc" and "entry_ok cdc w"
  shows "persistent_view cdc (he_persistent (fst (process_write_behind_entry cdc e w))) =
      apply_entry w (persistent_view cdc (he_persistent e))"
    and "snd (process_write_behind_entry cdc e w) = Inr ()"
    and "he_queue (fst (process_write_behind_entry cdc e w)) = he_queue e"
    and "he_cache (fst (process_write_behind_entry cdc e w)) = he_cache e"
    and "he_schemas (fst (process_write_behind_entry cdc e w)) = he_schemas e"
proof -
  have "persistent_view cdc (he_persistent (fst (process_write_behind_entry cdc e w))) =
      apply_entry w (persistent_view cdc (he_persistent e)) \<and>
    snd (process_write_behind_entry cdc e w) = Inr () \<and>
    he_queue (fst (process_write_behind_entry cdc e w)) = he_queue e \<and>
    he_cache (fst (process_write_behind_entry cdc e w)) = he_cache e \<and>
    he_schemas (fst (process_write_behind_entry cdc e w)) = he_schemas e"
  proof (cases "wb_operation w")
    case (Write d)
    with assms(2) have "roundtrips cdc d" by (simp add: entry_ok_def)
    then obtain v where v: "persist_insert cdc e (wb_collection w) (wb_doc_id w) d =
        (e\<lparr>he_persistent := raw_put (he_persistent e) (make_document_key cdc (wb_collection w) (wb_doc_id w)) v\<rparr>, Inr ())"
      "doc_from_slice cdc v = Inr d"
      by (rule persist_insert_ok)
    with Write show ?thesis
      by (simp add: process_write_behind_entry_def apply_entry_def entry_key_def persistent_view_put [OF assms(1) v(2)])
  next
    case Delete
    then show ?thesis
      by (simp add: process_write_behind_entry_def apply_entry_def entry_key_def persist_delete_eq
          persistent_view_del [OF assms(1)])
  qed
  then show "persistent_view cdc (he_persistent (fst (process_write_behind_entry cdc e w))) =
      apply_entry w (persistent_view cdc (he_persistent e))"
    and "snd (process_write_behind_entry cdc e w) = Inr ()"
    and "he_queue (fst (process_write_behind_entry cdc e w)) = he_queue e"
    and "he_cache (fst (process_write_behind_entry cdc e w)) = he_cache e"
    and "he_schemas (fst (process_write_behind_entry cdc e w)) = he_schemas e"
    by blast+
qed

lemma process_fold_view:
  assumes "uuid_text_ok cdc"
  shows "list_all (entry_ok cdc) ws \<Longrightarrow>
    persistent_view cdc (he_persistent (fold (\<lambda>w e'. fst (process_write_behind_entry cdc e' w)) ws e)) =
      fold apply_entry ws (persistent_view cdc (he_persistent e)) \<and>
    he_queue (fold (\<lambda>w e'. fst (process_write_behind_entry cdc e' w)) ws e) = he_queue e \<and>
    he_cache (fold (\<lambda>w e'. fst (process_write_behind_entry cdc e' w)) ws e) = he_cache e \<and>
    he_schemas (fold (\<lambda>w e'. fst (process_write_behind_entry cdc e' w)) ws e) = he_schemas e"
  by (induction ws arbitrary: e) (auto simp: process_entry_view [OF assms])

lemma process_all_fold:
  assumes "uuid_text_ok cdc"
  shows "list_all (entry_ok cdc) ws \<Longrightarrow>
    process_all cdc e ws = (fold (\<lambda>w e'. fst (process_write_behind_entry cdc e' w)) ws e, Inr ())"
proof (induction ws arbitrary: e)
  case (Cons w ws)
  then have "snd (process_write_behind_entry cdc e w) = Inr ()" by (simp add: process_entry_view(2) [OF assms])
  with Cons show ?case by (cases "process_write_behind_entry cdc e w") simp
qed simp

lemma flush_view:
  assumes "uuid_text_ok cdc" and "list_all (entry_ok cdc) (he_queue e)"
  shows "snd (hybrid_flush cdc e) = Inr ()" and "he_queue (fst (hybrid_flush cdc e)) = []"
    and "he_cache (fst (hybrid_flush cdc e)) = he_cache e" and "he_schemas (fst (hybrid_flush cdc e)) = he_schemas e"
    and "persistent_view cdc (he_persistent (fst (hybrid_flush cdc e))) = engine_view cdc e"
  using process_fold_view [OF assms, of "e\<lparr>he_queue := []\<rparr>"] process_all_fold [OF assms, of "e\<lparr>he_queue := []\<rparr>"]
  by (simp_all add: hybrid_flush_def engine_view_def)

text \<open>Writing the entries that are ready first is the same as writing all in order, when no entry
  overtakes an earlier one for the same document.\<close>

definition no_overtaking :: "(write_behind_entry \<Rightarrow> bool) \<Rightarrow> write_behind_entry list \<Rightarrow> bool" where
  "no_overtaking R q = sorted_wrt (\<lambda>a b. entry_key a = entry_key b \<and> R b \<longrightarrow> R a) q"

lemma apply_entry_commute:
  "entry_key a \<noteq> entry_key b \<Longrightarrow> apply_entry a (apply_entry b m) = apply_entry b (apply_entry a m)"
  by (simp add: apply_entry_def fun_upd_twist)

lemma fold_apply_commute:
  "\<forall>b \<in> set ws. entry_key b \<noteq> entry_key a \<Longrightarrow>
   fold apply_entry ws (apply_entry a m) = apply_entry a (fold apply_entry ws m)"
proof (induction ws arbitrary: m)
  case (Cons b ws)
  then show ?case using apply_entry_commute [of b a m] by simp
qed simp

lemma fold_ready_first:
  "no_overtaking R q \<Longrightarrow>
   fold apply_entry (filter (\<lambda>w. \<not> R w) q) (fold apply_entry (filter R q) m) = fold apply_entry q m"
proof (induction q arbitrary: m)
  case (Cons a q)
  then have ih: "no_overtaking R q" by (simp add: no_overtaking_def)
  show ?case
  proof (cases "R a")
    case True
    with Cons.IH [OF ih] show ?thesis by simp
  next
    case False
    then have "\<forall>b \<in> set (filter R q). entry_key b \<noteq> entry_key a"
      using Cons.prems by (auto simp: no_overtaking_def)
    from fold_apply_commute [OF this, of m] Cons.IH [OF ih, of "apply_entry a m"] False show ?thesis by simp
  qed
qed simp

lemma process_queue_view:
  assumes "uuid_text_ok cdc" and "list_all (entry_ok cdc) (he_queue e)" and "no_overtaking (wb_ready now) (he_queue e)"
  shows "engine_view cdc (process_write_behind_queue cdc now e) = engine_view cdc e"
    and "he_queue (process_write_behind_queue cdc now e) = filter (\<lambda>w. \<not> wb_ready now w) (he_queue e)"
    and "he_cache (process_write_behind_queue cdc now e) = he_cache e"
    and "he_schemas (process_write_behind_queue cdc now e) = he_schemas e"
proof -
  have "list_all (entry_ok cdc) (filter (wb_ready now) (he_queue e))" using assms(2) by (auto simp: list_all_iff)
  note f = process_fold_view [OF assms(1) this, of "e\<lparr>he_queue := filter (\<lambda>w. \<not> wb_ready now w) (he_queue e)\<rparr>"]
  from f fold_ready_first [OF assms(3)] show "engine_view cdc (process_write_behind_queue cdc now e) = engine_view cdc e"
    and "he_queue (process_write_behind_queue cdc now e) = filter (\<lambda>w. \<not> wb_ready now w) (he_queue e)"
    and "he_cache (process_write_behind_queue cdc now e) = he_cache e"
    and "he_schemas (process_write_behind_queue cdc now e) = he_schemas e"
    by (simp_all add: process_queue_eq engine_view_def)
qed

text \<open>
  The invariant of the queue: entries in the order of their times, each with the delay of its
  collection, so an entry is never ready before an earlier one of the same document.
\<close>

definition queue_entry_ok :: "'z doc_codec_scheme \<Rightarrow> (string \<times> schema) list \<Rightarrow> int \<Rightarrow> write_behind_entry \<Rightarrow> bool" where
  "queue_entry_ok cdc schemas t w \<longleftrightarrow>
     entry_ok cdc w \<and> wb_queued_at w \<le> t \<and>
     (case map_of schemas (wb_collection w) of
        None \<Rightarrow> False | Some s \<Rightarrow> cc_strategy (sch_cache_config s) = WriteBehind (wb_delay_ms w))"

definition queue_ok :: "'z doc_codec_scheme \<Rightarrow> (string \<times> schema) list \<Rightarrow> int \<Rightarrow> hybrid_engine \<Rightarrow> bool" where
  "queue_ok cdc schemas t e \<longleftrightarrow>
     he_schemas e = schemas \<and> cache_wf (he_cache e) \<and>
     eviction_policy_of (cache_config_of (he_cache e)) \<noteq> NoEviction \<and>
     list_all (queue_entry_ok cdc schemas t) (he_queue e) \<and>
     sorted_wrt (\<lambda>a b. wb_queued_at a \<le> wb_queued_at b) (he_queue e)"

lemma queue_ok_entries: "queue_ok cdc schemas t e \<Longrightarrow> list_all (entry_ok cdc) (he_queue e)"
  by (auto simp: queue_ok_def queue_entry_ok_def list_all_iff)

lemma queue_ok_no_overtaking:
  assumes "queue_ok cdc schemas t e"
  shows "no_overtaking (wb_ready now) (he_queue e)"
  unfolding no_overtaking_def
proof (rule sorted_wrt_mono_rel)
  show "sorted_wrt (\<lambda>a b. wb_queued_at a \<le> wb_queued_at b) (he_queue e)" using assms by (simp add: queue_ok_def)
next
  fix a b
  assume ab: "a \<in> set (he_queue e)" "b \<in> set (he_queue e)" and le: "wb_queued_at a \<le> wb_queued_at b"
  have "queue_entry_ok cdc schemas t a" "queue_entry_ok cdc schemas t b"
    using assms ab by (auto simp: queue_ok_def list_all_iff)
  then have "entry_key a = entry_key b \<Longrightarrow> wb_delay_ms a = wb_delay_ms b"
    by (auto simp: queue_entry_ok_def entry_key_def split: option.splits)
  moreover have "elapsed_ms now b \<le> elapsed_ms now a"
    using le by (simp add: elapsed_ms_def div_le_mono)
  ultimately show "entry_key a = entry_key b \<and> wb_ready now b \<longrightarrow> wb_ready now a"
    by (auto simp: wb_ready_def)
qed

lemma queue_entry_mono: "queue_entry_ok cdc schemas t w \<Longrightarrow> t \<le> t' \<Longrightarrow> queue_entry_ok cdc schemas t' w"
  by (auto simp: queue_entry_ok_def)

lemma queue_ok_mono: "queue_ok cdc schemas t e \<Longrightarrow> t \<le> t' \<Longrightarrow> queue_ok cdc schemas t' e"
  by (auto simp: queue_ok_def list_all_iff intro: queue_entry_mono)

lemma queue_ok_filter:
  "queue_ok cdc schemas t e \<Longrightarrow> he_schemas e' = he_schemas e \<Longrightarrow> he_cache e' = he_cache e \<Longrightarrow>
   he_queue e' = filter P (he_queue e) \<Longrightarrow> queue_ok cdc schemas t e'"
  by (auto simp: queue_ok_def list_all_iff sorted_wrt_filter)

text \<open>A change of the cache that keeps it well formed does not matter here.\<close>

lemma queue_ok_cache:
  "queue_ok cdc schemas t e \<Longrightarrow> he_schemas e' = he_schemas e \<Longrightarrow> he_queue e' = he_queue e \<Longrightarrow>
   cache_wf (he_cache e') \<Longrightarrow> cache_config_of (he_cache e') = cache_config_of (he_cache e) \<Longrightarrow>
   queue_ok cdc schemas t e'"
  by (simp add: queue_ok_def)

lemma queue_ok_push:
  assumes "queue_ok cdc schemas t e" and "queue_entry_ok cdc schemas t w" and "wb_queued_at w = t"
    and "he_schemas e' = he_schemas e" and "he_queue e' = he_queue e @ [w]"
    and "cache_wf (he_cache e')" and "cache_config_of (he_cache e') = cache_config_of (he_cache e)"
  shows "queue_ok cdc schemas t e'"
  using assms by (auto simp: queue_ok_def sorted_wrt_append list_all_iff queue_entry_ok_def)

lemma engine_view_push:
  "he_queue e' = he_queue e @ [w] \<Longrightarrow> he_persistent e' = he_persistent e \<Longrightarrow>
   engine_view cdc e' = apply_entry w (engine_view cdc e)"
  by (simp add: engine_view_def)

text \<open>A document of a collection without queued writes can be changed under the queue.\<close>

lemma fold_apply_upd:
  "\<forall>w \<in> set ws. entry_key w \<noteq> k \<Longrightarrow> fold apply_entry ws (m(k := x)) = (fold apply_entry ws m)(k := x)"
proof (induction ws arbitrary: m)
  case (Cons w ws)
  then have "apply_entry w (m(k := x)) = (apply_entry w m)(k := x)"
    by (simp add: apply_entry_def fun_upd_twist)
  moreover have "fold apply_entry ws ((apply_entry w m)(k := x)) = (fold apply_entry ws (apply_entry w m))(k := x)"
    by (rule Cons.IH) (use Cons.prems in simp)
  ultimately show ?case by (simp only: fold.simps o_apply)
qed simp

lemma engine_view_direct:
  assumes "queue_ok cdc schemas t e"
    and "case map_of schemas coll of None \<Rightarrow> True | Some s \<Rightarrow> \<forall>n. cc_strategy (sch_cache_config s) \<noteq> WriteBehind n"
    and "he_queue e' = he_queue e"
    and "persistent_view cdc (he_persistent e') = (persistent_view cdc (he_persistent e))((coll, i) := x)"
  shows "engine_view cdc e' = (engine_view cdc e)((coll, i) := x)"
proof -
  have "\<forall>w \<in> set (he_queue e). entry_key w \<noteq> (coll, i)"
    using assms(1,2) by (auto simp: queue_ok_def list_all_iff queue_entry_ok_def entry_key_def split: option.splits)
  from fold_apply_upd [OF this] assms(3,4) show ?thesis by (simp add: engine_view_def)
qed

definition delayed :: "(string \<times> schema) list \<Rightarrow> string \<Rightarrow> bool" where
  "delayed schemas coll =
     (case map_of schemas coll of
        None \<Rightarrow> False | Some s \<Rightarrow> (case cc_strategy (sch_cache_config s) of WriteBehind _ \<Rightarrow> True | _ \<Rightarrow> False))"

lemma direct_put_view:
  assumes "uuid_text_ok cdc" and "queue_ok cdc schemas t e" and "\<not> delayed schemas coll"
    and "doc_from_slice cdc v = Inr d"
    and "he_persistent e' = raw_put (he_persistent e) (make_document_key cdc coll i) v"
    and "he_schemas e' = he_schemas e" and "he_queue e' = he_queue e" and "cache_wf (he_cache e')"
    and "cache_config_of (he_cache e') = cache_config_of (he_cache e)"
  shows "queue_ok cdc schemas t e' \<and> engine_view cdc e' = (engine_view cdc e)((coll, i) := Inr (Some d))"
  using queue_ok_cache [OF assms(2,6-9)]
    engine_view_direct [OF assms(2) _ assms(7), of coll i "Inr (Some d)"] persistent_view_put [OF assms(1,4)] assms(3,5)
  by (auto simp: delayed_def split: option.splits cache_strategy.splits)

lemma direct_del_view:
  assumes "uuid_text_ok cdc" and "queue_ok cdc schemas t e" and "\<not> delayed schemas coll"
    and "he_persistent e' = raw_del (he_persistent e) (make_document_key cdc coll i)"
    and "he_schemas e' = he_schemas e" and "he_queue e' = he_queue e" and "cache_wf (he_cache e')"
    and "cache_config_of (he_cache e') = cache_config_of (he_cache e)"
  shows "queue_ok cdc schemas t e' \<and> engine_view cdc e' = (engine_view cdc e)((coll, i) := Inr None)"
  using queue_ok_cache [OF assms(2,5-8)]
    engine_view_direct [OF assms(2) _ assms(6), of coll i "Inr None"] persistent_view_del [OF assms(1)] assms(3,4)
  by (auto simp: delayed_def split: option.splits cache_strategy.splits)

lemma write_through_view:
  assumes "uuid_text_ok cdc" and "queue_ok cdc schemas t e" and "\<not> delayed schemas coll" and "roundtrips cdc d"
  shows "queue_ok cdc schemas t (fst (write_through cdc now e coll i d s)) \<and>
    engine_view cdc (fst (write_through cdc now e coll i d s)) = (engine_view cdc e)((coll, i) := Inr (Some d))"
proof -
  obtain v where v: "persist_insert cdc e coll i d =
      (e\<lparr>he_persistent := raw_put (he_persistent e) (make_document_key cdc coll i) v\<rparr>, Inr ())"
    "doc_from_slice cdc v = Inr d"
    using persist_insert_ok [OF assms(4)] by blast
  let ?e1 = "e\<lparr>he_persistent := raw_put (he_persistent e) (make_document_key cdc coll i) v\<rparr>"
  have wf: "cache_wf (he_cache ?e1)" "eviction_policy_of (cache_config_of (he_cache ?e1)) \<noteq> NoEviction"
    using assms(2) by (simp_all add: queue_ok_def)
  obtain c where "populate_cache cdc now ?e1 coll i d s = (?e1\<lparr>he_cache := c\<rparr>, Inr ())" "cache_wf c"
    "cache_config_of c = cache_config_of (he_cache ?e1)"
    using populate_cache_eq [OF wf, of cdc now coll i d s] by blast
  with v show ?thesis by (intro direct_put_view [OF assms(1-3) v(2)]) (simp_all add: write_through_def)
qed

lemma write_behind_view:
  assumes "queue_ok cdc schemas now e" and "roundtrips cdc d" and "map_of schemas coll = Some s"
    and "cc_strategy (sch_cache_config s) = WriteBehind delay"
  shows "queue_ok cdc schemas now (fst (write_behind cdc now e coll i d s delay)) \<and>
    engine_view cdc (fst (write_behind cdc now e coll i d s delay)) = (engine_view cdc e)((coll, i) := Inr (Some d))"
proof -
  let ?w = "\<lparr>wb_collection = coll, wb_doc_id = i, wb_operation = Write d, wb_delay_ms = delay, wb_queued_at = now\<rparr>"
  have wf: "cache_wf (he_cache e)" "eviction_policy_of (cache_config_of (he_cache e)) \<noteq> NoEviction"
    using assms(1) by (simp_all add: queue_ok_def)
  obtain c where c: "populate_cache cdc now e coll i d s = (e\<lparr>he_cache := c\<rparr>, Inr ())" "cache_wf c"
    "cache_config_of c = cache_config_of (he_cache e)"
    using populate_cache_eq [OF wf, of cdc now coll i d s] by blast
  have w: "queue_entry_ok cdc schemas now ?w" using assms(2-4) by (simp add: queue_entry_ok_def entry_ok_def)
  let ?e = "fst (write_behind cdc now e coll i d s delay)"
  have e: "he_queue ?e = he_queue e @ [?w]" "he_persistent ?e = he_persistent e" "he_schemas ?e = he_schemas e" "he_cache ?e = c"
    by (simp_all add: write_behind_def c queue_write_behind_def)
  from queue_ok_push [OF assms(1) w _ e(3,1)] engine_view_push [OF e(1,2), of cdc] c e(4) show ?thesis
    by (simp add: apply_entry_def entry_key_def)
qed

lemma hybrid_update_view:
  assumes "uuid_text_ok cdc" and "queue_ok cdc schemas now e" and "roundtrips cdc d"
  shows "queue_ok cdc schemas now (fst (hybrid_update cdc now e coll i d)) \<and>
    engine_view cdc (fst (hybrid_update cdc now e coll i d)) = (engine_view cdc e)((coll, i) := Inr (Some d))"
proof -
  have sch: "get_schema e coll = map_of schemas coll" and wf: "cache_wf (he_cache e)"
    using assms(2) by (simp_all add: get_schema_def queue_ok_def)
  obtain v where v: "persist_update cdc e coll i d =
      (e\<lparr>he_persistent := raw_put (he_persistent e) (make_document_key cdc coll i) v\<rparr>, Inr ())"
    "doc_from_slice cdc v = Inr d"
    using persist_insert_ok [OF assms(3)] unfolding persist_update_insert by blast
  note put = direct_put_view [OF assms(1,2) _ v(2), where i = i and coll = coll]
  show ?thesis
  proof (cases "map_of schemas coll")
    case None
    then show ?thesis using v sch wf by (intro put) (simp_all add: hybrid_update_def delayed_def)
  next
    case (Some s)
    show ?thesis
    proof (cases "cc_strategy (sch_cache_config s)")
      case NoCache
      with Some show ?thesis using v sch wf by (intro put) (simp_all add: hybrid_update_def delayed_def)
    next
      case WriteThrough
      with Some sch write_through_view [OF assms(1,2) _ assms(3), of coll now i s] show ?thesis
        by (simp add: hybrid_update_def delayed_def)
    next
      case (WriteBehind delay)
      with Some sch write_behind_view [OF assms(2,3) Some WriteBehind, of i] show ?thesis
        by (simp add: hybrid_update_def)
    next
      case ReadThrough
      with Some show ?thesis using v sch wf cache_remove_wf [OF wf, of "make_cache_key cdc coll i"]
        by (intro put) (simp_all add: hybrid_update_def delayed_def invalidate_cache_entry_def)
    qed
  qed
qed

lemma hybrid_delete_view:
  assumes "uuid_text_ok cdc" and "queue_ok cdc schemas now e"
  shows "queue_ok cdc schemas now (fst (hybrid_delete cdc now e coll i)) \<and>
    engine_view cdc (fst (hybrid_delete cdc now e coll i)) = (engine_view cdc e)((coll, i) := Inr None)"
proof -
  have sch: "get_schema e coll = map_of schemas coll" and wf: "cache_wf (he_cache e)"
    using assms(2) by (simp_all add: get_schema_def queue_ok_def)
  note rem = cache_remove_wf [OF wf, of "make_cache_key cdc coll i"]
  note del = direct_del_view [OF assms, where i = i and coll = coll]
  show ?thesis
  proof (cases "map_of schemas coll")
    case None
    then show ?thesis
      by (intro del) (simp_all add: sch wf hybrid_delete_def delayed_def persist_delete_eq case_prod_beta)
  next
    case (Some s)
    show ?thesis
    proof (cases "cc_strategy (sch_cache_config s)")
      case (WriteBehind delay)
      let ?w = "\<lparr>wb_collection = coll, wb_doc_id = i, wb_operation = Delete, wb_delay_ms = delay, wb_queued_at = now\<rparr>"
      let ?e = "fst (hybrid_delete cdc now e coll i)"
      have w: "queue_entry_ok cdc schemas now ?w" using Some WriteBehind by (simp add: queue_entry_ok_def entry_ok_def)
      have e: "he_queue ?e = he_queue e @ [?w]" "he_persistent ?e = he_persistent e" "he_schemas ?e = he_schemas e"
        "he_cache ?e = fst (cache_remove (he_cache e) (make_cache_key cdc coll i))"
        by (simp_all add: hybrid_delete_def sch Some WriteBehind Let_def queue_write_behind_def)
      from queue_ok_push [OF assms(2) w _ e(3,1)] engine_view_push [OF e(1,2), of cdc] rem e(4) show ?thesis
        by (simp add: apply_entry_def entry_key_def)
    qed (use Some in \<open>intro del; simp add: sch wf rem hybrid_delete_def delayed_def persist_delete_eq case_prod_beta
        Let_def invalidate_cache_entry_def\<close>)+
  qed
qed

lemma hybrid_get_frame:
  "he_persistent (fst (hybrid_get cdc now e coll i)) = he_persistent e \<and>
   he_queue (fst (hybrid_get cdc now e coll i)) = he_queue e \<and>
   he_schemas (fst (hybrid_get cdc now e coll i)) = he_schemas e"
  by (auto simp: hybrid_get_def read_cached_def read_persistent_def populate_cache_def Let_def
      split: option.splits cache_strategy.splits prod.splits sum.splits)

lemma hybrid_get_cache_wf:
  assumes "cache_wf (he_cache e)"
  shows "cache_wf (he_cache (fst (hybrid_get cdc now e coll i))) \<and>
    cache_config_of (he_cache (fst (hybrid_get cdc now e coll i))) = cache_config_of (he_cache e)"
proof -
  have g: "cache_wf (fst (cache_get now (he_cache e) k))"
    "cache_config_of (fst (cache_get now (he_cache e) k)) = cache_config_of (he_cache e)" for k
    using cache_get_wf [OF assms] by simp_all
  have p: "cache_wf (he_cache (fst (populate_cache cdc now e1 coll i d s))) \<and>
      cache_config_of (he_cache (fst (populate_cache cdc now e1 coll i d s))) = cache_config_of (he_cache e1)"
    if "cache_wf (he_cache e1)" for e1 d s
    using set_with_ttl_wf [OF that] by (simp add: populate_cache_def case_prod_beta)
  have "cache_wf (he_cache (fst (read_cached cdc now e coll i s))) \<and>
      cache_config_of (he_cache (fst (read_cached cdc now e coll i s))) = cache_config_of (he_cache e)" for s
  proof (cases "cache_get now (he_cache e) (make_cache_key cdc coll i)")
    case (Pair c r)
    with g [of "make_cache_key cdc coll i"] p [of "record_cache_miss (e\<lparr>he_cache := c\<rparr>)"] show ?thesis
      by (auto simp: read_cached_def Let_def split: option.splits sum.splits prod.splits) (metis fst_conv)+
  qed
  with assms show ?thesis
    by (auto simp: hybrid_get_def read_persistent_def split: option.splits cache_strategy.splits sum.splits)
qed

text \<open>What the operations mean for the stored documents, without cache, queue and clock.\<close>

fun abs_op :: "hybrid_op \<Rightarrow> store_view \<Rightarrow> store_view" where
  "abs_op (HInsert coll d) m = m((coll, doc_id d) := Inr (Some d))"
| "abs_op (HUpdate coll i d) m = m((coll, i) := Inr (Some d))"
| "abs_op (HDelete coll i) m = m((coll, i) := Inr None)"
| "abs_op _ m = m"

definition is_drop :: "hybrid_op \<Rightarrow> bool" where
  "is_drop a = (case a of HDrop _ \<Rightarrow> True | _ \<Rightarrow> False)"

lemma hybrid_step_view:
  assumes "uuid_text_ok cdc" and "queue_ok cdc schemas now e" and "op_roundtrips cdc a" and "\<not> is_drop a"
  shows "queue_ok cdc schemas now (hybrid_step cdc e (now, a)) \<and>
    engine_view cdc (hybrid_step cdc e (now, a)) = abs_op a (engine_view cdc e)"
proof (cases a)
  case (HGet coll i)
  have wf: "cache_wf (he_cache e)" using assms(2) by (simp add: queue_ok_def)
  from HGet show ?thesis
    using queue_ok_cache [OF assms(2), of "fst (hybrid_get cdc now e coll i)"] hybrid_get_frame [of cdc now e coll i]
      hybrid_get_cache_wf [OF wf, of cdc now coll i]
    by (simp add: engine_view_def)
next
  case HProcess
  note p = process_queue_view [OF assms(1) queue_ok_entries [OF assms(2)] queue_ok_no_overtaking [OF assms(2)], of now]
  from p(1) queue_ok_filter [OF assms(2) p(4,3,2)] HProcess show ?thesis by simp
next
  case HFlush
  note f = flush_view [OF assms(1) queue_ok_entries [OF assms(2)]]
  have "queue_ok cdc schemas now (fst (hybrid_flush cdc e))"
    using f assms(2) by (simp add: queue_ok_def)
  with f HFlush show ?thesis by (simp add: engine_view_def)
qed (use assms hybrid_update_view [OF assms(1,2)] hybrid_delete_view [OF assms(1,2)] in
    \<open>simp_all add: hybrid_insert_update is_drop_def\<close>)

lemma hybrid_run_view:
  assumes "uuid_text_ok cdc"
  shows "queue_ok cdc schemas t e \<Longrightarrow> list_all (op_roundtrips cdc \<circ> snd) ops \<Longrightarrow>
    list_all (\<lambda>p. \<not> is_drop (snd p)) ops \<Longrightarrow> sorted (t # map fst ops) \<Longrightarrow>
    (\<exists>t'. queue_ok cdc schemas t' (foldl (hybrid_step cdc) e ops)) \<and>
    engine_view cdc (foldl (hybrid_step cdc) e ops) = fold (abs_op \<circ> snd) ops (engine_view cdc e)"
proof (induction ops arbitrary: e t)
  case (Cons p ops)
  obtain now a where p: "p = (now, a)" by fastforce
  have "t \<le> now" using Cons.prems(4) p by simp
  from hybrid_step_view [OF assms queue_ok_mono [OF Cons.prems(1) this], of a] Cons.prems p
  have s: "queue_ok cdc schemas now (hybrid_step cdc e p)"
    "engine_view cdc (hybrid_step cdc e p) = abs_op a (engine_view cdc e)" by simp_all
  from Cons.IH [OF s(1)] Cons.prems p s(2) show ?case by simp
qed auto

section \<open>Properties\<close>



text \<open>Without expiry times a hit is a lookup.\<close>

lemma evict_expired_no_ttl: "ttl_manager c = [] \<Longrightarrow> evict_expired now c = c"
  by (simp add: evict_expired_def get_expired_keys_def)

lemma cache_get_no_ttl:
  assumes "ttl_manager c = []" and "map_of (cache c) k = Some (cached_new t d)"
  shows "snd (cache_get now c k) = Some d"
  using assms by (simp add: cache_get_def evict_expired_no_ttl is_expired_def cached_new_def)

lemma cache_get_missing:
  assumes "ttl_manager c = []" and "map_of (cache c) k = None"
  shows "cache_get now c k = (record_miss c, None)"
  using assms by (simp add: cache_get_def evict_expired_no_ttl)

text \<open>
  A deleted document comes back. In a collection with delayed writes, without a time to live
  and with room in the cache: a delete reports success, but a read before the delayed delete is
  done finds the document in the persistent layer and puts it back into the cache, and then it is
  returned even after the flush has deleted it from the persistent layer.
\<close>

theorem delayed_delete_is_undone:
  assumes "uuid_text_ok cdc" and "codec_sorted cdc" and "he_queue e = []"
    and "get_schema e coll = Some s" and "cc_strategy (sch_cache_config s) = WriteBehind delay"
    and "cc_ttl (sch_cache_config s) = None" and "cc_fields (sch_cache_config s) = None"
    and "cache_wf (he_cache e)" and "ttl_manager (he_cache e) = []"
    and "get_document cdc (he_persistent e) coll i = Inr (Some d)"
    and "current_size (he_cache e) + data_size_bytes (CHash (doc_fields d)) \<le> max_size_bytes (cache_config_of (he_cache e))"
    and "e1 = fst (hybrid_delete cdc t1 e coll i)" and "e2 = fst (hybrid_get cdc t2 e1 coll i)"
    and "e3 = fst (hybrid_flush cdc e2)"
  shows "snd (hybrid_delete cdc t1 e coll i) \<and>
    get_document cdc (he_persistent e3) coll i = Inr None \<and>
    result_fields (snd (hybrid_get cdc t3 e3 coll i)) = Inr (Some (doc_fields d))"
proof -
  let ?k = "make_cache_key cdc coll i"
  let ?c1 = "fst (cache_remove (he_cache e) ?k)"
  let ?w = "\<lparr>wb_collection = coll, wb_doc_id = i, wb_operation = Delete, wb_delay_ms = delay, wb_queued_at = t1\<rparr>"
  have e1: "he_queue e1 = [?w]" "he_persistent e1 = he_persistent e" "he_schemas e1 = he_schemas e" "he_cache e1 = ?c1"
    and del: "snd (hybrid_delete cdc t1 e coll i)"
    using assms(3-5) by (simp_all add: assms(12) hybrid_delete_def Let_def queue_write_behind_def)
  have c1: "cache_wf ?c1" "map_of (cache ?c1) ?k = None" "ttl_manager ?c1 = []" "cache_config_of ?c1 = cache_config_of (he_cache e)"
    "current_size ?c1 \<le> current_size (he_cache e)"
    using cache_remove_wf [OF assms(8), of ?k] assms(9)
    by (auto simp: map_of_al_del cache_remove_def take_out_def ttl_remove_def split: option.splits)
  have "bt_sorted (doc_fields d)"
    using assms(2,10) by (auto simp: get_document_raw codec_sorted_def split: option.splits sum.splits)
  then have cd: "document_to_cache_data d s = CHash (doc_fields d)" using assms(7) by (simp add: document_to_cache_data_all)
  have sch: "get_schema e1 coll = Some s" using assms(4) e1(3) by (simp add: get_schema_def)
  obtain c2 where c2: "he_cache e2 = c2" "map_of (cache c2) ?k = Some (cached_new t2 (CHash (doc_fields d)))" "ttl_manager c2 = []"
    and e2: "he_queue e2 = [?w]" "he_persistent e2 = he_persistent e" "he_schemas e2 = he_schemas e"
  proof
    have fit: "current_size (record_miss ?c1) + data_size_bytes (CHash (doc_fields d)) \<le>
        max_size_bytes (cache_config_of (record_miss ?c1))"
      using assms(11) c1(4,5) by (simp add: record_miss_def)
    have e2: "e2 = record_persistent_read (fst (populate_cache cdc t2 (record_cache_miss (e1\<lparr>he_cache := record_miss ?c1\<rparr>)) coll i d s))"
      using assms(5,10) fit e1 sch cache_get_missing [OF c1(3,2)]
      by (simp add: assms(13) hybrid_get_def read_cached_def populate_cache_def set_with_ttl_def
          ensure_space_def assms(6) cd cached_new_def Let_def)
    show "he_cache e2 = he_cache e2" ..
    show "map_of (cache (he_cache e2)) ?k = Some (cached_new t2 (CHash (doc_fields d)))"
      and "ttl_manager (he_cache e2) = []" and "he_queue e2 = [?w]" and "he_persistent e2 = he_persistent e"
      and "he_schemas e2 = he_schemas e"
      using fit c1(3) e1 assms(6)
      by (simp_all add: e2 populate_cache_def set_with_ttl_def ensure_space_def cd cached_new_def Let_def
          record_set_def map_of_al_put record_miss_def)
  qed
  have "list_all (entry_ok cdc) (he_queue e2)" by (simp add: e2(1) entry_ok_def)
  note f = flush_view [OF assms(1) this, folded assms(14)]
  have "get_document cdc (he_persistent e3) coll i = persistent_view cdc (he_persistent e3) (coll, i)"
    by (simp add: persistent_view_def)
  also have "\<dots> = Inr None" by (simp add: f(5) engine_view_def e2(1) apply_entry_def entry_key_def)
  finally have gone: "get_document cdc (he_persistent e3) coll i = Inr None" .
  have "he_cache e3 = c2" "get_schema e3 coll = Some s" using f(3,4) c2(1) e2(3) assms(4) by (simp_all add: get_schema_def)
  then have "result_fields (snd (hybrid_get cdc t3 e3 coll i)) = Inr (Some (doc_fields d))"
    using cache_get_no_ttl [OF c2(3,2), of t3] assms(5)
    by (auto simp: hybrid_get_def read_cached_def result_fields_def cache_data_to_document_def with_id_def split: prod.splits)
  with gone del show ?thesis by blast
qed

section \<open>Instances\<close>

definition example_schema :: "cache_strategy \<Rightarrow> schema" where
  "example_schema st = schema_new\<lparr>sch_cache_config := cache_config_default\<lparr>cc_strategy := st\<rparr>\<rparr>"

lemma example_codec_sorted: "codec_sorted example_doc_codec"
  by (simp add: codec_sorted_def example_doc_codec_def with_id_def bt_sorted_def)

lemma example_roundtrips: "roundtrips example_doc_codec (with_id 7 0)"
  by (simp add: roundtrips_def example_doc_codec_def with_id_def bt_sorted_def)



definition example_engine :: hybrid_engine where
  "example_engine = (hybrid_new example_cache_config (fst (insert_document example_doc_codec pl_new ''u'' 7 (with_id 7 0))))
     \<lparr>he_schemas := [(''u'', example_schema (WriteBehind 100))]\<rparr>"

lemma example_stored:
  "get_document example_doc_codec (he_persistent example_engine) ''u'' 7 = Inr (Some (with_id 7 0))"
  by (simp add: example_engine_def hybrid_new_def get_document_def insert_document_def pl_new_def
      example_doc_codec_def with_id_def)

theorem delayed_delete_is_undone_witness:
  "get_document example_doc_codec (he_persistent (fst (hybrid_flush example_doc_codec
      (fst (hybrid_get example_doc_codec 2 (fst (hybrid_delete example_doc_codec 1 example_engine ''u'' 7)) ''u'' 7))))) ''u'' 7 = Inr None \<and>
   result_fields (snd (hybrid_get example_doc_codec 3 (fst (hybrid_flush example_doc_codec
      (fst (hybrid_get example_doc_codec 2 (fst (hybrid_delete example_doc_codec 1 example_engine ''u'' 7)) ''u'' 7)))) ''u'' 7)) = Inr (Some [])"
proof -
  have "get_schema example_engine ''u'' = Some (example_schema (WriteBehind 100))" "he_queue example_engine = []"
    "he_cache example_engine = cache_new example_cache_config"
    by (simp_all add: example_engine_def get_schema_def hybrid_new_def)
  note e = this
  from delayed_delete_is_undone [OF example_uuid_text_ok example_codec_sorted e(2,1) _ _ _ _ _ example_stored _ refl refl refl,
      where delay = 100 and ?t1.0 = 1 and ?t2.0 = 2 and ?t3.0 = 3] show ?thesis
    by (simp add: e(3) cache_new_wf example_schema_def schema_new_def cache_config_default_def with_id_def)
      (simp add: cache_new_def example_cache_config_def data_size_bytes_def hash_size_bytes_def)
qed

end
