(* ===== verification/Json_Ved.thy ===== *)
theory Json_Ved
  imports VedPrelude
begin

text \<open>
  JSON values as the sources see them through \<open>serde_json\<close>: a number stands for what its accessors
  return, an object for its entries in the order of its map, which is the order of the keys.
\<close>

record json_number =
  num_i64 :: "u64 option"
  num_u64 :: "u64 option"
  num_f64 :: "u64 option"

datatype json =
    JNull
  | JBool bool
  | JNumber json_number
  | JString string
  | JArray "json list"
  | JObject "(string \<times> json) list"

definition json_as_u64 :: "json \<Rightarrow> u64 option" where
  "json_as_u64 j = (case j of JNumber n \<Rightarrow> num_u64 n | _ \<Rightarrow> None)"

definition json_as_str :: "json \<Rightarrow> string option" where
  "json_as_str j = (case j of JString s \<Rightarrow> Some s | _ \<Rightarrow> None)"

definition json_as_bool :: "json \<Rightarrow> bool option" where
  "json_as_bool j = (case j of JBool b \<Rightarrow> Some b | _ \<Rightarrow> None)"

text \<open>Indexing by a string gives null when the value is no object or has no such entry.\<close>

definition json_index :: "json \<Rightarrow> string \<Rightarrow> json" where
  "json_index j k = (case j of JObject es \<Rightarrow> (case map_of es k of None \<Rightarrow> JNull | Some v \<Rightarrow> v) | _ \<Rightarrow> JNull)"

end
