(* ===== verification/Encryption_Ved.thy ===== *)
theory Encryption_Ved
  imports Document Json_Ved
begin

text \<open>
  Keys and document encryption (\<open>veddb-core/src/encryption/document_encryption.rs\<close>,
  \<open>key_manager.rs\<close>, and the encryption calls of \<open>mod.rs\<close>). The cipher, the hash, the hexadecimal
  coding and the serialisers are third-party code and fields of the record \<open>crypto\<close>; random keys and
  nonces and the clock are arguments.
\<close>

section \<open>Third-party code\<close>

record encrypted_data =
  ed_nonce :: bytes
  ed_ciphertext :: bytes
  ed_algorithm :: string
  ed_version :: u8

record encryption_key =
  ek_id :: string
  ek_key :: bytes
  ek_created_at :: int
  ek_last_rotated :: int
  ek_active :: bool
  ek_version :: u32

record key_storage =
  ks_keys :: "(string \<times> encryption_key) list"
  ks_master_key_hash :: "string option"

text \<open>
  The file \<open>keys.json\<close>: absent, unreadable, or the JSON text of a key storage, which stands here
  for the storage it is read as.
\<close>

datatype key_file = NoKeys | BadKeys | KeysFile key_storage

record crypto =
  aead_seal :: "bytes \<Rightarrow> bytes \<Rightarrow> bytes \<Rightarrow> bytes option"
  aead_open :: "bytes \<Rightarrow> bytes \<Rightarrow> bytes \<Rightarrow> bytes option"
  ed_to_bytes :: "encrypted_data \<Rightarrow> bytes option"
  ed_from_bytes :: "bytes \<Rightarrow> encrypted_data option"
  sha256 :: "bytes \<Rightarrow> bytes"
  hex_encode :: "bytes \<Rightarrow> string"
  hex_decode :: "string \<Rightarrow> bytes option"
  time_to_json :: "int \<Rightarrow> json"
  time_from_json :: "json \<Rightarrow> int option"
  json_to_vec :: "json \<Rightarrow> bytes option"
  json_from_slice :: "bytes \<Rightarrow> json option"

text \<open>
  What is documented of it: decryption with the key and nonce of the encryption gives the plaintext
  back, and each decoder reads what its encoder wrote.
\<close>

definition crypto_ok :: "crypto \<Rightarrow> bool" where
  "crypto_ok cr \<longleftrightarrow>
     (\<forall>k n p c. length k = 32 \<longrightarrow> length n = 12 \<longrightarrow> aead_seal cr k n p = Some c \<longrightarrow> aead_open cr k n c = Some p) \<and>
     (\<forall>e b. ed_to_bytes cr e = Some b \<longrightarrow> ed_from_bytes cr b = Some e) \<and>
     (\<forall>b. hex_decode cr (hex_encode cr b) = Some b) \<and>
     (\<forall>t. time_from_json cr (time_to_json cr t) = Some t) \<and>
     (\<forall>j b. json_to_vec cr j = Some b \<longrightarrow> json_from_slice cr b = Some j)"

section \<open>Documents\<close>

definition encrypted_data_new :: "bytes \<Rightarrow> bytes \<Rightarrow> encrypted_data" where
  "encrypted_data_new nonce ciphertext =
     \<lparr>ed_nonce = nonce, ed_ciphertext = ciphertext, ed_algorithm = ''AES-256-GCM'', ed_version = 1\<rparr>"

datatype encryption_error =
    KeyLength
  | EncryptionFailed
  | DecryptionFailed
  | SerializeFailed
  | DeserializeFailed
  | UnsupportedAlgorithm string
  | InvalidNonce nat
  | KeyNotFound string
  | KeyInactive string
  | KeyExists string
  | MasterKeyTooShort
  | MasterKeyMismatch
  | MasterKeyMissing
  | InvalidExport string
  | NoEncryptionConfig string

definition doc_encrypt :: "crypto \<Rightarrow> bytes \<Rightarrow> bytes \<Rightarrow> bytes \<Rightarrow> (encryption_error, bytes) result" where
  "doc_encrypt cr nonce plaintext key =
     (if length key \<noteq> 32 then Inl KeyLength
      else case aead_seal cr key nonce plaintext of
             None \<Rightarrow> Inl EncryptionFailed
           | Some c \<Rightarrow> (case ed_to_bytes cr (encrypted_data_new nonce c) of
                           None \<Rightarrow> Inl SerializeFailed | Some b \<Rightarrow> Inr b))"

definition doc_decrypt :: "crypto \<Rightarrow> bytes \<Rightarrow> bytes \<Rightarrow> (encryption_error, bytes) result" where
  "doc_decrypt cr encrypted key =
     (if length key \<noteq> 32 then Inl KeyLength
      else case ed_from_bytes cr encrypted of
             None \<Rightarrow> Inl DeserializeFailed
           | Some e \<Rightarrow>
               if ed_algorithm e \<noteq> ''AES-256-GCM'' then Inl (UnsupportedAlgorithm (ed_algorithm e))
               else if length (ed_nonce e) \<noteq> 12 then Inl (InvalidNonce (length (ed_nonce e)))
               else case aead_open cr key (ed_nonce e) (ed_ciphertext e) of
                      None \<Rightarrow> Inl DecryptionFailed | Some p \<Rightarrow> Inr p)"

lemma doc_encrypt_decrypt:
  assumes "crypto_ok cr" and "length nonce = 12" and "doc_encrypt cr nonce p key = Inr b"
  shows "doc_decrypt cr b key = Inr p"
proof -
  from assms(3) obtain c where k: "length key = 32" and c: "aead_seal cr key nonce p = Some c"
    and b: "ed_to_bytes cr (encrypted_data_new nonce c) = Some b"
    by (auto simp: doc_encrypt_def split: if_splits option.splits)
  have "aead_open cr key nonce c = Some p" using assms(1,2) k c unfolding crypto_ok_def by blast
  moreover have "ed_from_bytes cr b = Some (encrypted_data_new nonce c)" using assms(1) b unfolding crypto_ok_def by blast
  ultimately show ?thesis using k assms(2) by (simp add: doc_decrypt_def encrypted_data_new_def)
qed

section \<open>Keys\<close>

definition key_new :: "bytes \<Rightarrow> int \<Rightarrow> string \<Rightarrow> encryption_key" where
  "key_new bs now i =
     \<lparr>ek_id = i, ek_key = bs, ek_created_at = now, ek_last_rotated = now, ek_active = True, ek_version = 1\<rparr>"

definition key_rotate :: "bytes \<Rightarrow> int \<Rightarrow> encryption_key \<Rightarrow> encryption_key" where
  "key_rotate bs now k = k\<lparr>ek_key := bs, ek_last_rotated := now, ek_version := ek_version k + 1\<rparr>"

text \<open>Times are milliseconds.\<close>

definition needs_rotation :: "int \<Rightarrow> nat \<Rightarrow> encryption_key \<Rightarrow> bool" where
  "needs_rotation now days k \<longleftrightarrow> now - ek_last_rotated k > int days * 86400000"

record key_manager =
  km_file :: key_file
  km_keys :: "(string \<times> encryption_key) list"
  km_master_key :: "bytes option"
  km_master_key_hash :: "string option"

definition derive_master_key :: "crypto \<Rightarrow> string \<Rightarrow> (encryption_error, bytes) result" where
  "derive_master_key cr s =
     (if length s < 16 then Inl MasterKeyTooShort
      else Inr (sha256 cr (map of_char s @ map of_char ''veddb_master_key_salt'')))"

definition hash_master_key :: "crypto \<Rightarrow> bytes \<Rightarrow> string" where
  "hash_master_key cr k = hex_encode cr (sha256 cr (k @ map of_char ''veddb_key_verification''))"

definition load_keys :: "key_manager \<Rightarrow> (encryption_error, key_manager) result" where
  "load_keys m =
     (case km_file m of
        NoKeys \<Rightarrow> Inr m
      | BadKeys \<Rightarrow> Inl DeserializeFailed
      | KeysFile s \<Rightarrow>
          if (case (ks_master_key_hash s, km_master_key_hash m) of (Some a, Some b) \<Rightarrow> a \<noteq> b | _ \<Rightarrow> False)
          then Inl MasterKeyMismatch
          else Inr (m\<lparr>km_keys := ks_keys s\<rparr>))"

definition key_manager_new :: "crypto \<Rightarrow> key_file \<Rightarrow> string option \<Rightarrow> (encryption_error, key_manager) result" where
  "key_manager_new cr file master =
     (case master of
        None \<Rightarrow> load_keys \<lparr>km_file = file, km_keys = [], km_master_key = None, km_master_key_hash = None\<rparr>
      | Some s \<Rightarrow>
          (case derive_master_key cr s of
             Inl e \<Rightarrow> Inl e
           | Inr k \<Rightarrow> load_keys
               \<lparr>km_file = file, km_keys = [], km_master_key = Some k, km_master_key_hash = Some (hash_master_key cr k)\<rparr>))"

definition save_keys :: "key_manager \<Rightarrow> key_manager" where
  "save_keys m = m\<lparr>km_file := KeysFile \<lparr>ks_keys = km_keys m, ks_master_key_hash = km_master_key_hash m\<rparr>\<rparr>"

definition get_key :: "key_manager \<Rightarrow> string \<Rightarrow> (encryption_error, bytes) result" where
  "get_key m i =
     (case map_of (km_keys m) i of
        None \<Rightarrow> Inl (KeyNotFound i)
      | Some k \<Rightarrow> if \<not> ek_active k then Inl (KeyInactive i) else Inr (ek_key k))"

definition get_key_metadata :: "key_manager \<Rightarrow> string \<Rightarrow> (encryption_error, encryption_key) result" where
  "get_key_metadata m i = (case map_of (km_keys m) i of None \<Rightarrow> Inl (KeyNotFound i) | Some k \<Rightarrow> Inr k)"

definition create_key :: "bytes \<Rightarrow> int \<Rightarrow> key_manager \<Rightarrow> string \<Rightarrow> key_manager \<times> (encryption_error, unit) result" where
  "create_key bs now m i =
     (if map_of (km_keys m) i \<noteq> None then (m, Inl (KeyExists i))
      else (save_keys (m\<lparr>km_keys := al_put i (key_new bs now i) (km_keys m)\<rparr>), Inr ()))"

definition get_or_create_key ::
  "bytes \<Rightarrow> int \<Rightarrow> key_manager \<Rightarrow> string \<Rightarrow> key_manager \<times> (encryption_error, bytes) result"
where
  "get_or_create_key bs now m i =
     (case get_key m i of
        Inr k \<Rightarrow> (m, Inr k)
      | Inl _ \<Rightarrow> (case create_key bs now m i of
                    (m', Inl e) \<Rightarrow> (m', Inl e) | (m', Inr _) \<Rightarrow> (m', get_key m' i)))"

definition rotate_key_with_backup ::
  "bytes \<Rightarrow> int \<Rightarrow> key_manager \<Rightarrow> string \<Rightarrow> key_manager \<times> (encryption_error, bytes \<times> u32) result"
where
  "rotate_key_with_backup bs now m i =
     (case map_of (km_keys m) i of
        None \<Rightarrow> (m, Inl (KeyNotFound i))
      | Some k \<Rightarrow> (save_keys (m\<lparr>km_keys := al_put i (key_rotate bs now k) (km_keys m)\<rparr>),
                    Inr (ek_key k, ek_version k)))"

definition manager_rotate_key ::
  "bytes \<Rightarrow> int \<Rightarrow> key_manager \<Rightarrow> string \<Rightarrow> key_manager \<times> (encryption_error, unit) result"
where
  "manager_rotate_key bs now m i =
     (let (m', r) = rotate_key_with_backup bs now m i in (m', map_sum id (\<lambda>_. ()) r))"

definition deactivate_key :: "key_manager \<Rightarrow> string \<Rightarrow> key_manager \<times> (encryption_error, unit) result" where
  "deactivate_key m i =
     (case map_of (km_keys m) i of
        None \<Rightarrow> (m, Inl (KeyNotFound i))
      | Some k \<Rightarrow> (save_keys (m\<lparr>km_keys := al_put i (k\<lparr>ek_active := False\<rparr>) (km_keys m)\<rparr>), Inr ()))"

definition list_keys :: "key_manager \<Rightarrow> encryption_key list" where
  "list_keys m = map snd (km_keys m)"

definition get_keys_needing_rotation :: "int \<Rightarrow> nat \<Rightarrow> key_manager \<Rightarrow> encryption_key list" where
  "get_keys_needing_rotation now days m = filter (\<lambda>k. ek_active k \<and> needs_rotation now days k) (list_keys m)"

fun rotate_all :: "(string \<Rightarrow> bytes) \<Rightarrow> int \<Rightarrow> key_manager \<Rightarrow> string list \<Rightarrow> key_manager \<times> (encryption_error, unit) result" where
  "rotate_all gen now m [] = (m, Inr ())"
| "rotate_all gen now m (i # ids) =
     (case manager_rotate_key (gen i) now m i of
        (m', Inl e) \<Rightarrow> (m', Inl e) | (m', Inr _) \<Rightarrow> rotate_all gen now m' ids)"

definition rotate_expired_keys ::
  "(string \<Rightarrow> bytes) \<Rightarrow> int \<Rightarrow> nat \<Rightarrow> key_manager \<Rightarrow> key_manager \<times> (encryption_error, string list) result"
where
  "rotate_expired_keys gen now days m =
     (let ids = map ek_id (get_keys_needing_rotation now days m);
          (m', r) = rotate_all gen now m ids
      in (m', map_sum id (\<lambda>_. ids) r))"

definition has_master_key :: "key_manager \<Rightarrow> bool" where
  "has_master_key m \<longleftrightarrow> km_master_key m \<noteq> None"

definition key_manager_count :: "key_manager \<Rightarrow> nat" where
  "key_manager_count m = length (km_keys m)"

definition active_key_count :: "key_manager \<Rightarrow> nat" where
  "active_key_count m = length (filter ek_active (list_keys m))"

section \<open>Export and import\<close>

definition json_u64 :: "u64 \<Rightarrow> json" where
  "json_u64 n = JNumber \<lparr>num_i64 = (if 0 \<le> sint n then Some n else None), num_u64 = Some n, num_f64 = None\<rparr>"

definition export_payload :: "crypto \<Rightarrow> encryption_key \<Rightarrow> json" where
  "export_payload cr k = JObject
     [(''active'', JBool (ek_active k)),
      (''created_at'', time_to_json cr (ek_created_at k)),
      (''export_version'', json_u64 1),
      (''key_bytes'', JString (hex_encode cr (ek_key k))),
      (''key_id'', JString (ek_id k)),
      (''last_rotated'', time_to_json cr (ek_last_rotated k)),
      (''version'', json_u64 (ucast (ek_version k)))]"

definition export_key :: "crypto \<Rightarrow> bytes \<Rightarrow> key_manager \<Rightarrow> string \<Rightarrow> (encryption_error, string) result" where
  "export_key cr nonce m i =
     (case km_master_key m of
        None \<Rightarrow> Inl MasterKeyMissing
      | Some mk \<Rightarrow>
          (case get_key_metadata m i of
             Inl e \<Rightarrow> Inl e
           | Inr k \<Rightarrow>
               (case json_to_vec cr (export_payload cr k) of
                  None \<Rightarrow> Inl SerializeFailed
                | Some p \<Rightarrow> map_sum id (hex_encode cr) (doc_encrypt cr nonce p mk))))"

definition import_payload :: "crypto \<Rightarrow> json \<Rightarrow> (string \<Rightarrow> bool) \<Rightarrow> (encryption_error, encryption_key) result" where
  "import_payload cr j known =
     (case json_as_str (json_index j ''key_id'') of None \<Rightarrow> Inl (InvalidExport ''key_id'') | Some i \<Rightarrow>
     (case json_as_str (json_index j ''key_bytes'') of None \<Rightarrow> Inl (InvalidExport ''key_bytes'') | Some h \<Rightarrow>
     (case hex_decode cr h of None \<Rightarrow> Inl (InvalidExport ''encoding'') | Some bs \<Rightarrow>
      if length bs \<noteq> 32 then Inl KeyLength
      else if known i then Inl (KeyExists i)
      else (case time_from_json cr (json_index j ''created_at'') of None \<Rightarrow> Inl (InvalidExport ''created_at'') | Some c \<Rightarrow>
           (case time_from_json cr (json_index j ''last_rotated'') of None \<Rightarrow> Inl (InvalidExport ''last_rotated'') | Some l \<Rightarrow>
              Inr \<lparr>ek_id = i, ek_key = bs, ek_created_at = c, ek_last_rotated = l,
                   ek_active = (case json_as_bool (json_index j ''active'') of None \<Rightarrow> True | Some b \<Rightarrow> b),
                   ek_version = (case json_as_u64 (json_index j ''version'') of None \<Rightarrow> 1 | Some v \<Rightarrow> ucast v)\<rparr>)))))"

definition import_key :: "crypto \<Rightarrow> key_manager \<Rightarrow> string \<Rightarrow> key_manager \<times> (encryption_error, string) result" where
  "import_key cr m s =
     (case km_master_key m of
        None \<Rightarrow> (m, Inl MasterKeyMissing)
      | Some mk \<Rightarrow>
          (case hex_decode cr s of
             None \<Rightarrow> (m, Inl (InvalidExport ''hex''))
           | Some b \<Rightarrow>
               (case doc_decrypt cr b mk of
                  Inl _ \<Rightarrow> (m, Inl DecryptionFailed)
                | Inr p \<Rightarrow>
                    (case json_from_slice cr p of
                       None \<Rightarrow> (m, Inl (InvalidExport ''format''))
                     | Some j \<Rightarrow>
                         (case import_payload cr j (\<lambda>i. map_of (km_keys m) i \<noteq> None) of
                            Inl e \<Rightarrow> (m, Inl e)
                          | Inr k \<Rightarrow> (save_keys (m\<lparr>km_keys := al_put (ek_id k) k (km_keys m)\<rparr>), Inr (ek_id k)))))))"

section \<open>The encryption engine\<close>

record collection_encryption =
  ce_enabled :: bool
  ce_key_id :: string
  ce_algorithm :: string

record encryption_config =
  ec_enabled :: bool
  ec_master_key :: "string option"
  ec_key_rotation_days :: u32
  ec_collections :: "(string \<times> collection_encryption) list"

record encryption_engine =
  en_config :: encryption_config
  en_keys :: key_manager

definition is_collection_encrypted :: "encryption_engine \<Rightarrow> string \<Rightarrow> bool" where
  "is_collection_encrypted en coll \<longleftrightarrow>
     ec_enabled (en_config en) \<and>
     (case map_of (ec_collections (en_config en)) coll of None \<Rightarrow> False | Some c \<Rightarrow> ce_enabled c)"

definition get_collection_key_id :: "encryption_engine \<Rightarrow> string \<Rightarrow> (encryption_error, string) result" where
  "get_collection_key_id en coll =
     (case map_of (ec_collections (en_config en)) coll of None \<Rightarrow> Inl (NoEncryptionConfig coll) | Some c \<Rightarrow> Inr (ce_key_id c))"

definition collection_key :: "encryption_engine \<Rightarrow> string \<Rightarrow> (encryption_error, bytes) result" where
  "collection_key en coll =
     (case get_collection_key_id en coll of Inl e \<Rightarrow> Inl e | Inr i \<Rightarrow> get_key (en_keys en) i)"

definition encrypt_document :: "crypto \<Rightarrow> bytes \<Rightarrow> encryption_engine \<Rightarrow> string \<Rightarrow> bytes \<Rightarrow> (encryption_error, bytes) result" where
  "encrypt_document cr nonce en coll data =
     (if \<not> is_collection_encrypted en coll then Inr data
      else case collection_key en coll of Inl e \<Rightarrow> Inl e | Inr k \<Rightarrow> doc_encrypt cr nonce data k)"

definition decrypt_document :: "crypto \<Rightarrow> encryption_engine \<Rightarrow> string \<Rightarrow> bytes \<Rightarrow> (encryption_error, bytes) result" where
  "decrypt_document cr en coll data =
     (if \<not> is_collection_encrypted en coll then Inr data
      else case collection_key en coll of Inl e \<Rightarrow> Inl e | Inr k \<Rightarrow> doc_decrypt cr data k)"

text \<open>The log and the snapshots have a key each, created when it is first needed for writing.\<close>

definition encrypt_with_own_key ::
  "string \<Rightarrow> crypto \<Rightarrow> bytes \<Rightarrow> bytes \<Rightarrow> int \<Rightarrow> encryption_engine \<Rightarrow> bytes \<Rightarrow> encryption_engine \<times> (encryption_error, bytes) result"
where
  "encrypt_with_own_key i cr bs nonce now en data =
     (if \<not> ec_enabled (en_config en) then (en, Inr data)
      else case get_or_create_key bs now (en_keys en) i of
             (m, Inl e) \<Rightarrow> (en\<lparr>en_keys := m\<rparr>, Inl e)
           | (m, Inr k) \<Rightarrow> (en\<lparr>en_keys := m\<rparr>, doc_encrypt cr nonce data k))"

definition decrypt_with_own_key :: "string \<Rightarrow> crypto \<Rightarrow> encryption_engine \<Rightarrow> bytes \<Rightarrow> (encryption_error, bytes) result" where
  "decrypt_with_own_key i cr en data =
     (if \<not> ec_enabled (en_config en) then Inr data
      else case get_key (en_keys en) i of Inl e \<Rightarrow> Inl e | Inr k \<Rightarrow> doc_decrypt cr data k)"

definition encrypt_wal_entry where "encrypt_wal_entry = encrypt_with_own_key ''wal_key''"

definition decrypt_wal_entry where "decrypt_wal_entry = decrypt_with_own_key ''wal_key''"

definition encrypt_snapshot where "encrypt_snapshot = encrypt_with_own_key ''snapshot_key''"

definition decrypt_snapshot where "decrypt_snapshot = decrypt_with_own_key ''snapshot_key''"

definition collection_key_id :: "string \<Rightarrow> string" where
  "collection_key_id coll = ''collection_'' @ coll"

definition enable_collection_encryption ::
  "bytes \<Rightarrow> int \<Rightarrow> encryption_engine \<Rightarrow> string \<Rightarrow> encryption_engine \<times> (encryption_error, unit) result"
where
  "enable_collection_encryption bs now en coll =
     (case get_or_create_key bs now (en_keys en) (collection_key_id coll) of
        (m, Inl e) \<Rightarrow> (en\<lparr>en_keys := m\<rparr>, Inl e)
      | (m, Inr _) \<Rightarrow>
          (en\<lparr>en_keys := m, en_config := (en_config en)\<lparr>ec_collections := al_put coll
             \<lparr>ce_enabled = True, ce_key_id = collection_key_id coll, ce_algorithm = ''AES-256-GCM''\<rparr>
             (ec_collections (en_config en))\<rparr>\<rparr>, Inr ()))"

definition disable_collection_encryption :: "encryption_engine \<Rightarrow> string \<Rightarrow> encryption_engine" where
  "disable_collection_encryption en coll =
     (case map_of (ec_collections (en_config en)) coll of
        None \<Rightarrow> en
      | Some c \<Rightarrow> en\<lparr>en_config := (en_config en)\<lparr>ec_collections :=
          al_put coll (c\<lparr>ce_enabled := False\<rparr>) (ec_collections (en_config en))\<rparr>\<rparr>)"

section \<open>What is read back\<close>

lemma decrypt_encrypt_document:
  assumes "crypto_ok cr" and "length nonce = 12" and "encrypt_document cr nonce en coll data = Inr b"
  shows "decrypt_document cr en coll b = Inr data"
  using assms(3) doc_encrypt_decrypt [OF assms(1,2)]
  by (auto simp: encrypt_document_def decrypt_document_def split: if_splits sum.splits)

lemma get_or_create_key_get:
  "get_or_create_key bs now m i = (m', Inr k) \<Longrightarrow> get_key m' i = Inr k"
  by (auto simp: get_or_create_key_def split: sum.splits prod.splits)

lemma decrypt_encrypt_own_key:
  assumes "crypto_ok cr" and "length nonce = 12" and "encrypt_with_own_key i cr bs nonce now en data = (en', Inr b)"
  shows "decrypt_with_own_key i cr en' b = Inr data"
  using assms(3) doc_encrypt_decrypt [OF assms(1,2)]
  by (auto simp: encrypt_with_own_key_def decrypt_with_own_key_def get_or_create_key_get
      split: if_splits sum.splits prod.splits)

text \<open>What a manager has saved is what the next one finds, if the master key is the same.\<close>

definition km_saved :: "key_manager \<Rightarrow> bool" where
  "km_saved m \<longleftrightarrow> km_file m = KeysFile \<lparr>ks_keys = km_keys m, ks_master_key_hash = km_master_key_hash m\<rparr>"

lemma km_saved_save [simp]: "km_saved (save_keys m)"
  by (simp add: km_saved_def save_keys_def)

lemma save_keys_fields [simp]:
  "km_keys (save_keys m) = km_keys m" "km_master_key (save_keys m) = km_master_key m"
  "km_master_key_hash (save_keys m) = km_master_key_hash m"
  by (simp_all add: save_keys_def)

lemma load_saved:
  assumes "km_saved m" and "km_file n = km_file m" and "km_master_key_hash n = km_master_key_hash m"
  shows "load_keys n = Inr (n\<lparr>km_keys := km_keys m\<rparr>)"
  using assms by (auto simp: load_keys_def km_saved_def split: option.split)

text \<open>
  A key exported under the master key and imported by a manager with the same master key that
  does not have it is the same key: bytes, times, activity and version.
\<close>

theorem export_import_key:
  assumes "crypto_ok cr" and "length nonce = 12" and "export_key cr nonce m i = Inr s"
    and "map_of (km_keys m) i = Some k" and "ek_id k = i" and "length (ek_key k) = 32"
    and "km_master_key m' = km_master_key m" and "map_of (km_keys m') i = None"
  shows "\<exists>m''. import_key cr m' s = (m'', Inr i) \<and> get_key_metadata m'' i = Inr k \<and>
    (\<forall>j. j \<noteq> i \<longrightarrow> get_key_metadata m'' j = get_key_metadata m' j)"
proof -
  from assms(3,4) obtain mk p b where mk: "km_master_key m = Some mk" and p: "json_to_vec cr (export_payload cr k) = Some p"
    and b: "doc_encrypt cr nonce p mk = Inr b" and s: "s = hex_encode cr b"
    by (auto simp: export_key_def get_key_metadata_def map_sum_def split: option.splits sum.splits)
  have "doc_decrypt cr b mk = Inr p" by (rule doc_encrypt_decrypt [OF assms(1,2) b])
  moreover have "hex_decode cr s = Some b" "json_from_slice cr p = Some (export_payload cr k)"
    using assms(1) p by (simp_all add: crypto_ok_def s)
  moreover have "import_payload cr (export_payload cr k) (\<lambda>i. map_of (km_keys m') i \<noteq> None) = Inr k"
    using assms(1,5,6,8) by (auto simp: import_payload_def export_payload_def json_index_def json_as_str_def json_as_bool_def
        json_as_u64_def json_u64_def crypto_ok_def ucast_down_ucast_id is_down)
  ultimately show ?thesis
    using mk assms(5,7) by (simp add: import_key_def get_key_metadata_def map_of_al_put)
qed

end
