(* ===== verification/Key_Rotation.thy ===== *)
theory Key_Rotation
  imports Encryption_Ved
begin

text \<open>
  Key rotation (\<open>veddb-core/src/encryption/rotation_state.rs\<close>, \<open>rotation_state_store.rs\<close>,
  \<open>encrypted_storage.rs\<close>, \<open>key_rotation.rs\<close>): the persistent state machine, the interface to the
  storage, rotation with re-encryption in batches, and resuming after a crash. The storage behind
  the trait object is an arbitrary type with the functions of the record \<open>enc_storage\<close>. Generated
  keys and nonces and the clock are arguments.
\<close>

section \<open>The persistent state\<close>

datatype rotation_state =
    Idle
  | ReEncrypting (rs_key_id: string) (rs_started_at: int) (rs_processed: nat) (rs_total: nat)
      (rs_checkpoint: "(string \<times> string) option")
  | RotationDone string int nat
  | RotationFailed string string int

definition is_idle :: "rotation_state \<Rightarrow> bool" where
  "is_idle st \<longleftrightarrow> (case st of Idle \<Rightarrow> True | _ \<Rightarrow> False)"

definition is_completed :: "rotation_state \<Rightarrow> bool" where
  "is_completed st \<longleftrightarrow> (case st of RotationDone _ _ _ \<Rightarrow> True | _ \<Rightarrow> False)"

definition is_in_progress :: "rotation_state \<Rightarrow> bool" where
  "is_in_progress st \<longleftrightarrow> (case st of ReEncrypting _ _ _ _ _ \<Rightarrow> True | _ \<Rightarrow> False)"

definition is_failed :: "rotation_state \<Rightarrow> bool" where
  "is_failed st \<longleftrightarrow> (case st of RotationFailed _ _ _ \<Rightarrow> True | _ \<Rightarrow> False)"

definition can_start_rotation :: "rotation_state \<Rightarrow> bool" where
  "can_start_rotation st \<longleftrightarrow> (case st of Idle \<Rightarrow> True | RotationDone _ _ _ \<Rightarrow> True | _ \<Rightarrow> False)"

definition active_key_id :: "rotation_state \<Rightarrow> string option" where
  "active_key_id st = (case st of ReEncrypting k _ _ _ _ \<Rightarrow> Some k | RotationFailed k _ _ \<Rightarrow> Some k | _ \<Rightarrow> None)"

definition rotation_progress :: "rotation_state \<Rightarrow> (nat \<times> nat) option" where
  "rotation_progress st = (case st of ReEncrypting _ _ p t _ \<Rightarrow> Some (p, t) | _ \<Rightarrow> None)"

text \<open>The file with the state: absent, unreadable, or the text of a state; it is replaced by a rename, so
  a crash leaves the old or the new one.\<close>

datatype state_file = NoState | BadState | StateFile rotation_state

datatype rotation_error =
    StateUnreadable
  | CannotStart rotation_state
  | KeyError encryption_error
  | StorageError string
  | ChunkPanic
  | PreviousFailed string string
  | NoActiveRotation string

definition load_rotation_state :: "state_file \<Rightarrow> (rotation_error, rotation_state) result" where
  "load_rotation_state f = (case f of NoState \<Rightarrow> Inr Idle | BadState \<Rightarrow> Inl StateUnreadable | StateFile st \<Rightarrow> Inr st)"

definition save_rotation_state :: "rotation_state \<Rightarrow> state_file" where
  "save_rotation_state st = StateFile st"

definition clear_rotation_state :: "state_file \<Rightarrow> state_file" where
  "clear_rotation_state f = NoState"

definition enforce_rotation_state_on_startup :: "state_file \<Rightarrow> (rotation_error, unit) result" where
  "enforce_rotation_state_on_startup f =
     (case load_rotation_state f of
        Inl e \<Rightarrow> Inl e
      | Inr st \<Rightarrow> if can_start_rotation st then Inr () else Inl (CannotStart st))"

section \<open>The storage interface\<close>

record enc_ref =
  ref_collection :: string
  ref_id :: document_id
  ref_data :: bytes

record 's enc_storage =
  es_list :: "'s \<Rightarrow> (string, string list) result"
  es_scan :: "'s \<Rightarrow> string \<Rightarrow> (string, enc_ref list) result"
  es_update :: "'s \<Rightarrow> string \<Rightarrow> document_id \<Rightarrow> bytes \<Rightarrow> 's \<times> (string, unit) result"

record reencryption_context =
  cx_key_id :: string
  cx_old_key :: bytes
  cx_old_version :: u32
  cx_new_key :: bytes
  cx_new_version :: u32

section \<open>The scheduler\<close>

record key_rotation_config =
  kr_enabled :: bool
  kr_interval_days :: nat
  kr_max_old_keys :: nat
  kr_batch_size :: nat
  kr_delay_ms :: nat

definition key_rotation_config_default :: key_rotation_config where
  "key_rotation_config_default =
     \<lparr>kr_enabled = True, kr_interval_days = 90, kr_max_old_keys = 3, kr_batch_size = 1000, kr_delay_ms = 100\<rparr>"

datatype rotation_status = Pending | InProgress | RotCompleted | RotFailed | Cancelled

record key_rotation_status =
  rt_key_id :: string
  rt_status :: rotation_status
  rt_started_at :: "int option"
  rt_completed_at :: "int option"
  rt_records_processed :: nat
  rt_total_records :: nat
  rt_error :: "string option"

text \<open>The scheduler with what its operations change: the state file, the keys and the storage.\<close>

record 's rotation =
  ro_config :: key_rotation_config
  ro_statuses :: "(string \<times> key_rotation_status) list"
  ro_last_check :: int
  ro_state :: state_file
  ro_keys :: key_manager
  ro_storage :: 's

definition set_status :: "key_rotation_status \<Rightarrow> 's rotation \<Rightarrow> 's rotation" where
  "set_status st w = w\<lparr>ro_statuses := al_put (rt_key_id st) st (ro_statuses w)\<rparr>"

definition is_collection_using_key :: "string \<Rightarrow> string \<Rightarrow> bool" where
  "is_collection_using_key coll i \<longleftrightarrow>
     (if starts_with i ''collection_'' then coll = drop (length ''collection_'') i else False)"

fun reencrypt_batch ::
  "crypto \<Rightarrow> 's enc_storage \<Rightarrow> (enc_ref \<Rightarrow> bytes) \<Rightarrow> reencryption_context \<Rightarrow> 's \<Rightarrow> enc_ref list \<Rightarrow>
   's \<times> (rotation_error, nat) result"
where
  "reencrypt_batch cr es nonce cx s [] = (s, Inr 0)"
| "reencrypt_batch cr es nonce cx s (r # rs) =
     (case doc_decrypt cr (ref_data r) (cx_old_key cx) of
        Inl _ \<Rightarrow> reencrypt_batch cr es nonce cx s rs
      | Inr p \<Rightarrow>
          (case doc_encrypt cr (nonce r) p (cx_new_key cx) of
             Inl e \<Rightarrow> (s, Inl (KeyError e))
           | Inr b \<Rightarrow>
               (case es_update es s (ref_collection r) (ref_id r) b of
                  (s', Inl e) \<Rightarrow> (s', Inl (StorageError e))
                | (s', Inr _) \<Rightarrow>
                    (case reencrypt_batch cr es nonce cx s' rs of
                       (s'', Inl e) \<Rightarrow> (s'', Inl e) | (s'', Inr n) \<Rightarrow> (s'', Inr (n + 1))))))"

text \<open>The documents of the collections that use the key, in the order of the collections.\<close>

fun scan_collections :: "'s enc_storage \<Rightarrow> 's \<Rightarrow> string \<Rightarrow> string list \<Rightarrow> (rotation_error, enc_ref list) result" where
  "scan_collections es s i [] = Inr []"
| "scan_collections es s i (c # cs) =
     (if is_collection_using_key c i then
        (case es_scan es s c of
           Inl e \<Rightarrow> Inl (StorageError e)
         | Inr rs \<Rightarrow> (case scan_collections es s i cs of Inl e \<Rightarrow> Inl e | Inr rest \<Rightarrow> Inr (rs @ rest)))
      else scan_collections es s i cs)"

definition list_documents :: "'s enc_storage \<Rightarrow> 's \<Rightarrow> string \<Rightarrow> (rotation_error, enc_ref list) result" where
  "list_documents es s i = (case es_list es s of Inl e \<Rightarrow> Inl (StorageError e) | Inr cs \<Rightarrow> scan_collections es s i cs)"

text \<open>The key is rotated and the context for the re-encryption is built.\<close>

definition rotate_context ::
  "bytes \<Rightarrow> int \<Rightarrow> 's rotation \<Rightarrow> string \<Rightarrow> 's rotation \<times> (rotation_error, reencryption_context) result"
where
  "rotate_context bs now w i =
     (case rotate_key_with_backup bs now (ro_keys w) i of
        (m, Inl e) \<Rightarrow> (w\<lparr>ro_keys := m\<rparr>, Inl (KeyError e))
      | (m, Inr (old_key, old_version)) \<Rightarrow>
          (w\<lparr>ro_keys := m\<rparr>,
           case get_key m i of
             Inl e \<Rightarrow> Inl (KeyError e)
           | Inr new_key \<Rightarrow>
               (case get_key_metadata m i of
                  Inl e \<Rightarrow> Inl (KeyError e)
                | Inr k \<Rightarrow> Inr \<lparr>cx_key_id = i, cx_old_key = old_key, cx_old_version = old_version,
                                cx_new_key = new_key, cx_new_version = ek_version k\<rparr>)))"

definition start_status :: "int \<Rightarrow> string \<Rightarrow> key_rotation_status" where
  "start_status now i = \<lparr>rt_key_id = i, rt_status = InProgress, rt_started_at = Some now, rt_completed_at = None,
     rt_records_processed = 0, rt_total_records = 0, rt_error = None\<rparr>"

text \<open>From the check of the state to the saved state of re-encryption.\<close>

definition rotate_begin ::
  "'s enc_storage \<Rightarrow> bytes \<Rightarrow> int \<Rightarrow> 's rotation \<Rightarrow> string \<Rightarrow>
   's rotation \<times> (rotation_error, reencryption_context \<times> enc_ref list) result"
where
  "rotate_begin es bs now w i =
     (case load_rotation_state (ro_state w) of
        Inl e \<Rightarrow> (w, Inl e)
      | Inr st \<Rightarrow>
          if \<not> can_start_rotation st then (w, Inl (CannotStart st))
          else (case rotate_context bs now (set_status (start_status now i) w) i of
                  (w1, Inl e) \<Rightarrow> (w1, Inl e)
                | (w1, Inr cx) \<Rightarrow>
                    (case list_documents es (ro_storage w1) i of
                       Inl e \<Rightarrow> (w1, Inl e)
                     | Inr docs \<Rightarrow>
                         (set_status ((start_status now i)\<lparr>rt_total_records := length docs\<rparr>) w1
                            \<lparr>ro_state := save_rotation_state (ReEncrypting i now 0 (length docs) None)\<rparr>,
                          Inr (cx, docs)))))"

fun rotate_batches ::
  "crypto \<Rightarrow> 's enc_storage \<Rightarrow> (enc_ref \<Rightarrow> bytes) \<Rightarrow> reencryption_context \<Rightarrow> key_rotation_status \<Rightarrow> nat \<Rightarrow>
   's rotation \<Rightarrow> enc_ref list list \<Rightarrow> 's rotation \<times> (rotation_error, nat) result"
where
  "rotate_batches cr es nonce cx st n w [] = (w, Inr n)"
| "rotate_batches cr es nonce cx st n w (b # bs) =
     (case reencrypt_batch cr es nonce cx (ro_storage w) b of
        (s, Inl e) \<Rightarrow> (w\<lparr>ro_storage := s\<rparr>, Inl e)
      | (s, Inr k) \<Rightarrow>
          rotate_batches cr es nonce cx st (n + k)
            (set_status (st\<lparr>rt_records_processed := n + k\<rparr>) (w\<lparr>ro_storage := s\<rparr>)) bs)"

definition rotate_finish :: "int \<Rightarrow> key_rotation_status \<Rightarrow> nat \<Rightarrow> 's rotation \<Rightarrow> 's rotation" where
  "rotate_finish now st n w =
     set_status (st\<lparr>rt_status := RotCompleted, rt_completed_at := Some now, rt_records_processed := n\<rparr>)
       (w\<lparr>ro_state := save_rotation_state (RotationDone (rt_key_id st) now n)\<rparr>)"

definition rotate_key ::
  "crypto \<Rightarrow> 's enc_storage \<Rightarrow> bytes \<Rightarrow> (enc_ref \<Rightarrow> bytes) \<Rightarrow> int \<Rightarrow> 's rotation \<Rightarrow> string \<Rightarrow>
   's rotation \<times> (rotation_error, unit) result"
where
  "rotate_key cr es bs nonce now w i =
     (case rotate_begin es bs now w i of
        (w1, Inl e) \<Rightarrow> (w1, Inl e)
      | (w1, Inr (cx, docs)) \<Rightarrow>
          if kr_batch_size (ro_config w) = 0 then (w1, Inl ChunkPanic)
          else (let st = (start_status now i)\<lparr>rt_total_records := length docs\<rparr>
                in case rotate_batches cr es nonce cx st 0 w1 (chunks (kr_batch_size (ro_config w)) docs) of
                     (w2, Inl e) \<Rightarrow> (w2, Inl e)
                   | (w2, Inr n) \<Rightarrow> (rotate_finish now st n w2, Inr ())))"

definition mark_rotation_failed :: "'s rotation \<Rightarrow> string \<Rightarrow> string \<Rightarrow> 's rotation" where
  "mark_rotation_failed w i msg =
     (case map_of (ro_statuses w) i of
        None \<Rightarrow> w
      | Some st \<Rightarrow> w\<lparr>ro_statuses := al_put i (st\<lparr>rt_status := RotFailed, rt_error := Some msg\<rparr>) (ro_statuses w)\<rparr>)"

text \<open>\<open>show_error\<close> is the text of an error.\<close>

fun rotate_keys ::
  "crypto \<Rightarrow> 's enc_storage \<Rightarrow> (rotation_error \<Rightarrow> string) \<Rightarrow> (string \<Rightarrow> bytes) \<Rightarrow> (enc_ref \<Rightarrow> bytes) \<Rightarrow> int \<Rightarrow>
   's rotation \<Rightarrow> string list \<Rightarrow> 's rotation"
where
  "rotate_keys cr es show_error gen nonce now w [] = w"
| "rotate_keys cr es show_error gen nonce now w (i # ids) =
     (if (case map_of (ro_statuses w) i of None \<Rightarrow> False | Some st \<Rightarrow> rt_status st = InProgress)
      then rotate_keys cr es show_error gen nonce now w ids
      else (case rotate_key cr es (gen i) nonce now w i of
              (w', Inr _) \<Rightarrow> rotate_keys cr es show_error gen nonce now w' ids
            | (w', Inl e) \<Rightarrow>
                rotate_keys cr es show_error gen nonce now (mark_rotation_failed w' i (show_error e)) ids))"

definition check_and_rotate_keys ::
  "crypto \<Rightarrow> 's enc_storage \<Rightarrow> (rotation_error \<Rightarrow> string) \<Rightarrow> (string \<Rightarrow> bytes) \<Rightarrow> (enc_ref \<Rightarrow> bytes) \<Rightarrow> int \<Rightarrow>
   's rotation \<Rightarrow> 's rotation"
where
  "check_and_rotate_keys cr es show_error gen nonce now w =
     (let w1 = w\<lparr>ro_last_check := now\<rparr>;
          ids = map ek_id (get_keys_needing_rotation now (kr_interval_days (ro_config w)) (ro_keys w))
      in rotate_keys cr es show_error gen nonce now w1 ids)"

section \<open>Resuming\<close>

text \<open>Documents before the checkpoint are skipped, the one at the checkpoint is kept.\<close>

definition after_checkpoint ::
  "(document_id \<Rightarrow> string) \<Rightarrow> (string \<times> string) option \<Rightarrow> enc_ref list \<Rightarrow> enc_ref list"
where
  "after_checkpoint show_id cp docs =
     (case cp of
        None \<Rightarrow> docs
      | Some (c, d) \<Rightarrow> dropWhile (\<lambda>r. \<not> (ref_collection r = c \<and> show_id (ref_id r) = d)) docs)"

fun resume_batches ::
  "crypto \<Rightarrow> 's enc_storage \<Rightarrow> (document_id \<Rightarrow> string) \<Rightarrow> (enc_ref \<Rightarrow> bytes) \<Rightarrow> int \<Rightarrow> reencryption_context \<Rightarrow> nat \<Rightarrow> nat \<Rightarrow>
   's rotation \<Rightarrow> enc_ref list list \<Rightarrow> 's rotation \<times> (rotation_error, nat) result"
where
  "resume_batches cr es show_id nonce now cx tot n w [] = (w, Inr n)"
| "resume_batches cr es show_id nonce now cx tot n w (b # bs) =
     (case reencrypt_batch cr es nonce cx (ro_storage w) b of
        (s, Inl e) \<Rightarrow> (w\<lparr>ro_storage := s\<rparr>, Inl e)
      | (s, Inr k) \<Rightarrow>
          resume_batches cr es show_id nonce now cx tot (n + k)
            (w\<lparr>ro_storage := s, ro_state := (if b = [] then ro_state w else
               save_rotation_state (ReEncrypting (cx_key_id cx) now (n + k) tot
                 (Some (ref_collection (last b), show_id (ref_id (last b))))))\<rparr>) bs)"

definition resume_from_checkpoint ::
  "crypto \<Rightarrow> 's enc_storage \<Rightarrow> (document_id \<Rightarrow> string) \<Rightarrow> bytes \<Rightarrow> (enc_ref \<Rightarrow> bytes) \<Rightarrow> int \<Rightarrow> 's rotation \<Rightarrow>
   string \<Rightarrow> (string \<times> string) option \<Rightarrow> nat \<Rightarrow> nat \<Rightarrow> 's rotation \<times> (rotation_error, unit) result"
where
  "resume_from_checkpoint cr es show_id bs nonce now w i cp already tot =
     (case rotate_context bs now w i of
        (w1, Inl e) \<Rightarrow> (w1, Inl e)
      | (w1, Inr cx) \<Rightarrow>
          (case list_documents es (ro_storage w1) i of
             Inl e \<Rightarrow> (w1, Inl e)
           | Inr docs \<Rightarrow>
               if kr_batch_size (ro_config w) = 0 then (w1, Inl ChunkPanic)
               else (case resume_batches cr es show_id nonce now cx tot already w1
                            (chunks (kr_batch_size (ro_config w)) (after_checkpoint show_id cp docs)) of
                       (w2, Inl e) \<Rightarrow> (w2, Inl e)
                     | (w2, Inr n) \<Rightarrow> (w2\<lparr>ro_state := save_rotation_state (RotationDone i now n)\<rparr>, Inr ()))))"

definition resume_rotation ::
  "crypto \<Rightarrow> 's enc_storage \<Rightarrow> (document_id \<Rightarrow> string) \<Rightarrow> bytes \<Rightarrow> (enc_ref \<Rightarrow> bytes) \<Rightarrow> int \<Rightarrow> 's rotation \<Rightarrow>
   's rotation \<times> (rotation_error, unit) result"
where
  "resume_rotation cr es show_id bs nonce now w =
     (case load_rotation_state (ro_state w) of
        Inl e \<Rightarrow> (w, Inl e)
      | Inr (ReEncrypting i _ p t cp) \<Rightarrow> resume_from_checkpoint cr es show_id bs nonce now w i cp p t
      | Inr (RotationFailed i reason _) \<Rightarrow> (w, Inl (PreviousFailed i reason))
      | Inr _ \<Rightarrow> (w, Inr ()))"

section \<open>Statuses\<close>

definition scheduler_new :: "key_rotation_config \<Rightarrow> int \<Rightarrow> state_file \<Rightarrow> key_manager \<Rightarrow> 's \<Rightarrow> 's rotation" where
  "scheduler_new cfg now f m s =
     \<lparr>ro_config = cfg, ro_statuses = [], ro_last_check = now, ro_state = f, ro_keys = m, ro_storage = s\<rparr>"

definition cancel_rotation :: "'s rotation \<Rightarrow> string \<Rightarrow> 's rotation \<times> (rotation_error, unit) result" where
  "cancel_rotation w i =
     (case map_of (ro_statuses w) i of
        None \<Rightarrow> (w, Inl (NoActiveRotation i))
      | Some st \<Rightarrow>
          if rt_status st = InProgress
          then (w\<lparr>ro_statuses := al_put i (st\<lparr>rt_status := Cancelled\<rparr>) (ro_statuses w)\<rparr>, Inr ())
          else (w, Inl (NoActiveRotation i)))"

definition get_rotation_status :: "'s rotation \<Rightarrow> string \<Rightarrow> key_rotation_status option" where
  "get_rotation_status w i = map_of (ro_statuses w) i"

definition cleanup_old_statuses :: "int \<Rightarrow> nat \<Rightarrow> 's rotation \<Rightarrow> 's rotation" where
  "cleanup_old_statuses now days w =
     w\<lparr>ro_statuses := filter (\<lambda>(_, st). case rt_completed_at st of
          Some t \<Rightarrow> now - int days * 86400000 < t | None \<Rightarrow> True) (ro_statuses w)\<rparr>"

record rotation_statistics =
  st_total_rotations :: nat
  st_pending :: nat
  st_in_progress :: nat
  st_completed :: nat
  st_failed :: nat
  st_cancelled :: nat
  st_records :: nat

definition get_rotation_statistics :: "'s rotation \<Rightarrow> rotation_statistics" where
  "get_rotation_statistics w =
     (let sts = map snd (ro_statuses w); n = (\<lambda>s. length (filter (\<lambda>st. rt_status st = s) sts))
      in \<lparr>st_total_rotations = length sts, st_pending = n Pending, st_in_progress = n InProgress,
          st_completed = n RotCompleted, st_failed = n RotFailed, st_cancelled = n Cancelled,
          st_records = sum_list (map rt_records_processed sts)\<rparr>)"

end
