(* ===== verification/Rotation_Proofs.thy ===== *)
theory Rotation_Proofs
  imports Key_Rotation
begin

text \<open>
  What key rotation does to the stored documents, for every storage that keeps the contract of the
  trait \<open>EncryptedStorage\<close>: the locale \<open>encrypted_storage\<close> states it, its lemmas describe batches
  and whole rotations.
\<close>

section \<open>The contract of the storage\<close>

definition put_ref :: "document_id \<Rightarrow> bytes \<Rightarrow> enc_ref \<Rightarrow> enc_ref" where
  "put_ref i b r = (if ref_id r = i then r\<lparr>ref_data := b\<rparr> else r)"

locale encrypted_storage =
  fixes es :: "'s enc_storage"
    and good :: "'s \<Rightarrow> bool"
    and storable :: "string \<Rightarrow> document_id \<Rightarrow> bytes \<Rightarrow> bool"
  assumes scan_refs: "good s \<Longrightarrow> es_scan es s c = Inr rs \<Longrightarrow>
      distinct (map ref_id rs) \<and> list_all (\<lambda>r. ref_collection r = c) rs"
    and update_scan: "good s \<Longrightarrow> es_scan es s c = Inr rs \<Longrightarrow> i \<in> ref_id ` set rs \<Longrightarrow> storable c i b \<Longrightarrow>
      \<exists>s'. es_update es s c i b = (s', Inr ()) \<and> good s' \<and> es_list es s' = es_list es s \<and>
        es_scan es s' c = Inr (map (put_ref i b) rs) \<and> (\<forall>c'. c' \<noteq> c \<longrightarrow> es_scan es s' c' = es_scan es s c')"

text \<open>What re-encryption makes of one reference: a document that the old key does not open stays.\<close>

definition renew :: "crypto \<Rightarrow> (enc_ref \<Rightarrow> bytes) \<Rightarrow> bytes \<Rightarrow> bytes \<Rightarrow> enc_ref \<Rightarrow> enc_ref" where
  "renew cr nonce old new r =
     (case doc_decrypt cr (ref_data r) old of
        Inl _ \<Rightarrow> r
      | Inr p \<Rightarrow> (case doc_encrypt cr (nonce r) p new of Inl _ \<Rightarrow> r | Inr b \<Rightarrow> r\<lparr>ref_data := b\<rparr>))"

definition opens :: "crypto \<Rightarrow> bytes \<Rightarrow> enc_ref \<Rightarrow> bool" where
  "opens cr key r \<longleftrightarrow> \<not> isl (doc_decrypt cr (ref_data r) key)"

text \<open>No reference makes a batch fail: what can be opened can be encrypted again and stored.\<close>

definition reencryptable ::
  "crypto \<Rightarrow> (enc_ref \<Rightarrow> bytes) \<Rightarrow> bytes \<Rightarrow> bytes \<Rightarrow> (string \<Rightarrow> document_id \<Rightarrow> bytes \<Rightarrow> bool) \<Rightarrow> enc_ref \<Rightarrow> bool"
where
  "reencryptable cr nonce old new storable r \<longleftrightarrow>
     (case doc_decrypt cr (ref_data r) old of
        Inl _ \<Rightarrow> True
      | Inr p \<Rightarrow> (case doc_encrypt cr (nonce r) p new of
                    Inl _ \<Rightarrow> False | Inr b \<Rightarrow> storable (ref_collection r) (ref_id r) b))"

lemma renew_fields [simp]: "ref_id (renew cr nonce old new r) = ref_id r" "ref_collection (renew cr nonce old new r) = ref_collection r"
  by (simp_all add: renew_def split: sum.split)

section \<open>Batches one after the other\<close>

lemma batch_append:
  "reencrypt_batch cr es nonce cx s (xs @ ys) =
     (case reencrypt_batch cr es nonce cx s xs of
        (s', Inl e) \<Rightarrow> (s', Inl e)
      | (s', Inr n) \<Rightarrow> (case reencrypt_batch cr es nonce cx s' ys of
                         (s'', Inl e) \<Rightarrow> (s'', Inl e) | (s'', Inr m) \<Rightarrow> (s'', Inr (n + m))))"
  by (induction xs arbitrary: s) (auto split: sum.split prod.split)

lemma rotate_batches_concat:
  assumes "reencrypt_batch cr es nonce cx (ro_storage w) (concat css) = (s', Inr k)"
  shows "\<exists>w'. rotate_batches cr es nonce cx st n w css = (w', Inr (n + k)) \<and> ro_storage w' = s' \<and>
    ro_keys w' = ro_keys w \<and> ro_state w' = ro_state w \<and> ro_config w' = ro_config w"
  using assms
proof (induction css arbitrary: w n k)
  case (Cons b css)
  then obtain s1 j k' where b: "reencrypt_batch cr es nonce cx (ro_storage w) b = (s1, Inr j)"
    and rest: "reencrypt_batch cr es nonce cx s1 (concat css) = (s', Inr k')" "k = j + k'"
    by (auto simp: batch_append split: sum.splits prod.splits)
  let ?w = "set_status (st\<lparr>rt_records_processed := n + j\<rparr>) (w\<lparr>ro_storage := s1\<rparr>)"
  from Cons.IH [of ?w k' "n + j"] rest b show ?case by (auto simp: set_status_def add.assoc)
qed simp

lemma resume_batches_concat:
  assumes "reencrypt_batch cr es nonce cx (ro_storage w) (concat css) = (s', Inr k)"
  shows "\<exists>w'. resume_batches cr es show_id nonce now cx tot n w css = (w', Inr (n + k)) \<and> ro_storage w' = s' \<and>
    ro_keys w' = ro_keys w \<and> ro_config w' = ro_config w"
  using assms
proof (induction css arbitrary: w n k)
  case (Cons b css)
  then obtain s1 j k' where b: "reencrypt_batch cr es nonce cx (ro_storage w) b = (s1, Inr j)"
    and rest: "reencrypt_batch cr es nonce cx s1 (concat css) = (s', Inr k')" "k = j + k'"
    by (auto simp: batch_append split: sum.splits prod.splits)
  let ?w = "w\<lparr>ro_storage := s1, ro_state := (if b = [] then ro_state w else
      save_rotation_state (ReEncrypting (cx_key_id cx) now (n + j) tot
        (Some (ref_collection (last b), show_id (ref_id (last b))))))\<rparr>"
  from Cons.IH [of ?w k' "n + j"] rest b show ?case by (auto simp: add.assoc)
qed simp

lemma using_key_iff [simp]: "is_collection_using_key c' (collection_key_id c) \<longleftrightarrow> c' = c"
  by (simp add: is_collection_using_key_def collection_key_id_def starts_with_def)

lemma scan_collections_other: "c \<notin> set cs \<Longrightarrow> scan_collections es s (collection_key_id c) cs = Inr []"
  by (induction cs) auto

lemma list_documents_one:
  assumes "es_list es s = Inr cs" and "distinct cs" and "c \<in> set cs" and "es_scan es s c = Inr rs"
  shows "list_documents es s (collection_key_id c) = Inr rs"
proof -
  have "scan_collections es s (collection_key_id c) cs = Inr rs"
    using assms(2-4) by (induction cs) (auto simp: scan_collections_other)
  with assms(1) show ?thesis by (simp add: list_documents_def)
qed

lemma rotate_context_ok:
  assumes "map_of (km_keys (ro_keys w)) i = Some k" and "ek_active k"
  shows "\<exists>m cx. rotate_context bs now w i = (w\<lparr>ro_keys := m\<rparr>, Inr cx) \<and> km_saved m \<and>
    map_of (km_keys m) i = Some (key_rotate bs now k) \<and>
    cx_old_key cx = ek_key k \<and> cx_new_key cx = bs \<and> cx_key_id cx = i"
  using assms
  by (intro exI [of _ "save_keys (ro_keys w\<lparr>km_keys := al_put i (key_rotate bs now k) (km_keys (ro_keys w))\<rparr>)"])
    (simp add: rotate_context_def rotate_key_with_backup_def get_key_def get_key_metadata_def
      map_of_al_put key_rotate_def)

lemma rotate_begin_ok:
  assumes "load_rotation_state (ro_state w) = Inr st" and "can_start_rotation st"
    and "map_of (km_keys (ro_keys w)) (collection_key_id c) = Some k" and "ek_active k"
    and "es_list es (ro_storage w) = Inr cs" and "distinct cs" and "c \<in> set cs" and "es_scan es (ro_storage w) c = Inr rs"
  shows "\<exists>w1 cx. rotate_begin es bs now w (collection_key_id c) = (w1, Inr (cx, rs)) \<and>
    ro_storage w1 = ro_storage w \<and> ro_config w1 = ro_config w \<and> km_saved (ro_keys w1) \<and>
    ro_state w1 = StateFile (ReEncrypting (collection_key_id c) now 0 (length rs) None) \<and>
    map_of (km_keys (ro_keys w1)) (collection_key_id c) = Some (key_rotate bs now k) \<and>
    cx_old_key cx = ek_key k \<and> cx_new_key cx = bs"
proof -
  let ?w = "set_status (start_status now (collection_key_id c)) w"
  have keys: "map_of (km_keys (ro_keys ?w)) (collection_key_id c) = Some k" using assms(3) by (simp add: set_status_def)
  from rotate_context_ok [OF keys assms(4), of bs now] obtain m cx where
    cx: "rotate_context bs now ?w (collection_key_id c) = (?w\<lparr>ro_keys := m\<rparr>, Inr cx)" "km_saved m"
      "map_of (km_keys m) (collection_key_id c) = Some (key_rotate bs now k)" "cx_old_key cx = ek_key k" "cx_new_key cx = bs"
    by blast
  have "list_documents es (ro_storage (?w\<lparr>ro_keys := m\<rparr>)) (collection_key_id c) = Inr rs"
    using list_documents_one [OF assms(5-8)] by (simp add: set_status_def)
  with assms(1,2) cx show ?thesis
    by (auto simp: rotate_begin_def set_status_def save_rotation_state_def start_status_def)
qed

section \<open>Storages that keep the contract\<close>

context encrypted_storage
begin

lemma update_renew:
  assumes "good s" and "es_scan es s c = Inr rs" and "r \<in> set rs" and "storable c (ref_id r) b"
  obtains s' where "es_update es s c (ref_id r) b = (s', Inr ())" "good s'" "es_list es s' = es_list es s"
    "es_scan es s' c = Inr (map (\<lambda>x. if x = r then r\<lparr>ref_data := b\<rparr> else x) rs)"
    "\<forall>c'. c' \<noteq> c \<longrightarrow> es_scan es s' c' = es_scan es s c'"
proof -
  have "distinct (map ref_id rs)" using scan_refs [OF assms(1,2)] by simp
  then have "x = r" if "x \<in> set rs" "ref_id x = ref_id r" for x
    using that assms(3) by (auto simp: distinct_map dest: inj_onD)
  then have "map (put_ref (ref_id r) b) rs = map (\<lambda>x. if x = r then r\<lparr>ref_data := b\<rparr> else x) rs"
    by (auto simp: put_ref_def)
  with update_scan [OF assms(1,2) _ assms(4)] assms(3) that show ?thesis by auto
qed

text \<open>A batch renews exactly its references and counts those that could be opened.\<close>

lemma batch_renews:
  assumes "good s" and "es_scan es s c = Inr rs" and "set bs \<subseteq> set rs" and "distinct bs"
    and "list_all (reencryptable cr nonce old new storable) bs" and "cx_old_key cx = old" and "cx_new_key cx = new"
  shows "\<exists>s'. reencrypt_batch cr es nonce cx s bs = (s', Inr (length (filter (opens cr old) bs))) \<and>
    good s' \<and> es_list es s' = es_list es s \<and>
    es_scan es s' c = Inr (map (\<lambda>r. if r \<in> set bs then renew cr nonce old new r else r) rs) \<and>
    (\<forall>c'. c' \<noteq> c \<longrightarrow> es_scan es s' c' = es_scan es s c')"
  using assms
proof (induction bs arbitrary: s rs)
  case (Cons r bs)
  have r: "r \<in> set rs" "ref_collection r = c" using Cons.prems scan_refs [of s c rs] by (auto simp: list_all_iff)
  show ?case
  proof (cases "doc_decrypt cr (ref_data r) old")
    case (Inl e)
    then have r': "renew cr nonce old new r = r" "\<not> opens cr old r" by (simp_all add: renew_def opens_def)
    then have f: "(\<lambda>x. if x \<in> set (r # bs) then renew cr nonce old new x else x) =
        (\<lambda>x. if x \<in> set bs then renew cr nonce old new x else x)" by auto
    show ?thesis unfolding f using Cons.IH [OF Cons.prems(1,2)] Cons.prems r'(2) Inl by simp
  next
    case (Inr p)
    with Cons.prems(5) obtain b where b: "doc_encrypt cr (nonce r) p new = Inr b" "storable c (ref_id r) b"
      using r(2) by (auto simp: reencryptable_def split: sum.splits)
    obtain s1 where s1: "es_update es s c (ref_id r) b = (s1, Inr ())" "good s1" "es_list es s1 = es_list es s"
      "es_scan es s1 c = Inr (map (\<lambda>x. if x = r then r\<lparr>ref_data := b\<rparr> else x) rs)"
      "\<forall>c'. c' \<noteq> c \<longrightarrow> es_scan es s1 c' = es_scan es s c'"
      by (rule update_renew [OF Cons.prems(1,2) r(1) b(2)])
    let ?rs = "map (\<lambda>x. if x = r then r\<lparr>ref_data := b\<rparr> else x) rs"
    have ren: "renew cr nonce old new r = r\<lparr>ref_data := b\<rparr>" "opens cr old r"
      using Inr b by (simp_all add: renew_def opens_def)
    have sub: "set bs \<subseteq> set ?rs" using Cons.prems(3,4) by force
    have dist: "distinct (map ref_id rs)" using scan_refs [OF Cons.prems(1,2)] by simp
    have "r\<lparr>ref_data := b\<rparr> \<notin> set bs"
    proof
      assume a: "r\<lparr>ref_data := b\<rparr> \<in> set bs"
      with Cons.prems(3) have "r\<lparr>ref_data := b\<rparr> \<in> set rs" by auto
      with dist r(1) have "r\<lparr>ref_data := b\<rparr> = r" by (intro inj_onD [of ref_id "set rs"]) (simp_all add: distinct_map)
      with a Cons.prems(4) show False by simp
    qed
    then have comp: "map (\<lambda>x. if x \<in> set bs then renew cr nonce old new x else x) ?rs =
        map (\<lambda>x. if x = r \<or> x \<in> set bs then renew cr nonce old new x else x) rs"
      using Cons.prems(4) by (auto simp: ren)
    from Cons.IH [OF s1(2,4) sub] Cons.prems(4,5,6,7) obtain s2 where
      s2: "reencrypt_batch cr es nonce cx s1 bs = (s2, Inr (length (filter (opens cr old) bs)))"
        "good s2" "es_list es s2 = es_list es s1"
        "es_scan es s2 c = Inr (map (\<lambda>x. if x \<in> set bs then renew cr nonce old new x else x) ?rs)"
        "\<forall>c'. c' \<noteq> c \<longrightarrow> es_scan es s2 c' = es_scan es s1 c'" by auto
    with Inr b(1) s1 r(2) ren(2) Cons.prems(6,7) show ?thesis by (simp add: comp del: map_map)
  qed
qed simp

end

section \<open>Rotations\<close>

lemma renew_decrypts:
  assumes "crypto_ok cr" and "length (nonce r) = 12" and "reencryptable cr nonce old new storable r"
    and "doc_decrypt cr (ref_data r) old = Inr p"
  shows "doc_decrypt cr (ref_data (renew cr nonce old new r)) new = Inr p"
  using assms(3,4) doc_encrypt_decrypt [OF assms(1,2), of p new]
  by (auto simp: reencryptable_def renew_def split: sum.splits)


text \<open>What a crash after some of the batches leaves behind.\<close>

definition renewed :: "crypto \<Rightarrow> (enc_ref \<Rightarrow> bytes) \<Rightarrow> bytes \<Rightarrow> bytes \<Rightarrow> enc_ref list \<Rightarrow> enc_ref list \<Rightarrow> enc_ref list" where
  "renewed cr nonce old new bs rs = map (\<lambda>r. if r \<in> set bs then renew cr nonce old new r else r) rs"

lemma crash_leaves:
  assumes "encrypted_storage es good storable" and "good (ro_storage w)"
    and "load_rotation_state (ro_state w) = Inr st" and "can_start_rotation st" and "0 < n"
    and "map_of (km_keys (ro_keys w)) (collection_key_id c) = Some k" and "ek_active k"
    and "es_list es (ro_storage w) = Inr cs" and "distinct cs" and "c \<in> set cs" and "es_scan es (ro_storage w) c = Inr rs"
    and "list_all (reencryptable cr nonce (ek_key k) key1 storable) rs"
    and "rotate_begin es key1 now w (collection_key_id c) = (w1, Inr (cx, docs))"
    and "rotate_batches cr es nonce cx status 0 w1 (take j (chunks n docs)) = (w2, Inr m)"
  shows "docs = rs \<and> good (ro_storage w2) \<and> es_list es (ro_storage w2) = Inr cs \<and> km_saved (ro_keys w2) \<and>
    es_scan es (ro_storage w2) c = Inr (renewed cr nonce (ek_key k) key1 (concat (take j (chunks n rs))) rs) \<and>
    ro_state w2 = StateFile (ReEncrypting (collection_key_id c) now 0 (length rs) None) \<and>
    map_of (km_keys (ro_keys w2)) (collection_key_id c) = Some (key_rotate key1 now k)"
proof -
  note store = assms(1)
  have b: "docs = rs" "ro_storage w1 = ro_storage w" "km_saved (ro_keys w1)"
    "ro_state w1 = StateFile (ReEncrypting (collection_key_id c) now 0 (length rs) None)"
    "map_of (km_keys (ro_keys w1)) (collection_key_id c) = Some (key_rotate key1 now k)"
    "cx_old_key cx = ek_key k" "cx_new_key cx = key1"
    using rotate_begin_ok [where bs = key1 and now = now, OF assms(3,4,6-11)] assms(13) by auto
  have d: "distinct rs" using encrypted_storage.scan_refs [OF store assms(2,11)] by (simp add: distinct_map)
  define past where "past = concat (take j (chunks n rs))"
  have all: "rs = past @ concat (drop j (chunks n rs))"
    unfolding past_def concat_append [symmetric] append_take_drop_id by (rule concat_chunks [OF assms(5), symmetric])
  have sub: "set past \<subseteq> set rs" using all by (metis set_append Un_upper1)
  have dd: "distinct past" using d all by (metis distinct_append)
  have "list_all (reencryptable cr nonce (ek_key k) key1 storable) past"
    using assms(12) sub by (auto simp: list_all_iff)
  from encrypted_storage.batch_renews [OF store assms(2,11) sub dd this b(6,7)] obtain s2 q where
    s2: "reencrypt_batch cr es nonce cx (ro_storage w) past = (s2, Inr q)" "good s2" "es_list es s2 = Inr cs"
      "es_scan es s2 c = Inr (map (\<lambda>r. if r \<in> set past then renew cr nonce (ek_key k) key1 r else r) rs)"
    using assms(8) by auto
  have w2: "ro_storage w2 = s2" "ro_keys w2 = ro_keys w1" "ro_state w2 = ro_state w1"
    using rotate_batches_concat [of cr es nonce cx w1 "take j (chunks n rs)" s2 q status 0] s2(1) assms(14) b(1,2)
    by (auto simp: past_def)
  from w2 s2 b show ?thesis by (simp add: renewed_def past_def)
qed

text \<open>A resumed rotation whose state has no checkpoint treats every document of the collection.\<close>

lemma resume_run:
  assumes "encrypted_storage es good storable" and "good (ro_storage w)"
    and "load_rotation_state (ro_state w) = Inr (ReEncrypting (collection_key_id c) t 0 tot None)"
    and "0 < kr_batch_size (ro_config w)"
    and "map_of (km_keys (ro_keys w)) (collection_key_id c) = Some k" and "ek_active k"
    and "es_list es (ro_storage w) = Inr cs" and "distinct cs" and "c \<in> set cs" and "es_scan es (ro_storage w) c = Inr rs"
    and "list_all (reencryptable cr nonce (ek_key k) key2 storable) rs"
  shows "\<exists>w' p. resume_rotation cr es show_id key2 nonce now w = (w', Inr ()) \<and>
    ro_state w' = StateFile (RotationDone (collection_key_id c) now p) \<and>
    get_key (ro_keys w') (collection_key_id c) = Inr key2 \<and>
    es_scan es (ro_storage w') c = Inr (map (renew cr nonce (ek_key k) key2) rs)"
proof -
  from rotate_context_ok [OF assms(5,6), of key2 now] obtain m cx where
    cx: "rotate_context key2 now w (collection_key_id c) = (w\<lparr>ro_keys := m\<rparr>, Inr cx)"
      "map_of (km_keys m) (collection_key_id c) = Some (key_rotate key2 now k)"
      "cx_old_key cx = ek_key k" "cx_new_key cx = key2" by blast
  have docs: "list_documents es (ro_storage w) (collection_key_id c) = Inr rs" by (rule list_documents_one [OF assms(7-10)])
  have d: "distinct rs" using encrypted_storage.scan_refs [OF assms(1,2,10)] by (simp add: distinct_map)
  from encrypted_storage.batch_renews [OF assms(1,2,10) subset_refl d assms(11) cx(3,4)] obtain s q where
    s: "reencrypt_batch cr es nonce cx (ro_storage w) rs = (s, Inr q)"
      "es_scan es s c = Inr (map (\<lambda>r. if r \<in> set rs then renew cr nonce (ek_key k) key2 r else r) rs)" by blast
  have ren: "map (\<lambda>r. if r \<in> set rs then renew cr nonce (ek_key k) key2 r else r) rs = map (renew cr nonce (ek_key k) key2) rs"
    by simp
  let ?cs = "chunks (kr_batch_size (ro_config w)) rs"
  have "concat ?cs = rs" by (rule concat_chunks [OF assms(4)])
  with resume_batches_concat [of cr es nonce cx "w\<lparr>ro_keys := m\<rparr>" ?cs s q show_id now tot 0] s(1)
  obtain w4 where w4: "resume_batches cr es show_id nonce now cx tot 0 (w\<lparr>ro_keys := m\<rparr>) ?cs = (w4, Inr q)"
    "ro_storage w4 = s" "ro_keys w4 = m" by auto
  let ?w = "w4\<lparr>ro_state := StateFile (RotationDone (collection_key_id c) now q)\<rparr>"
  have "resume_rotation cr es show_id key2 nonce now w = (?w, Inr ())"
    using assms(3,4) cx(1) docs w4(1)
    by (simp add: resume_rotation_def resume_from_checkpoint_def after_checkpoint_def save_rotation_state_def)
  moreover have "get_key m (collection_key_id c) = Inr key2" using cx(2) assms(6) by (simp add: get_key_def key_rotate_def)
  ultimately show ?thesis using w4 s(2) ren by (intro exI [of _ ?w] exI [of _ q]) simp
qed

text \<open>
  A crash during re-encryption followed by a restart and a resumed rotation: resuming rotates
  the key once more and takes the key of the interrupted rotation for the old one. It succeeds and
  reports completion, but every document that had not been re-encrypted before the crash is still
  under the key of before, which is gone, and the current key does not open it.
\<close>

theorem resume_loses_documents:
  assumes "encrypted_storage es good storable" and "good (ro_storage w)"
    and "load_rotation_state (ro_state w) = Inr st" and "can_start_rotation st" and "0 < n"
    and "map_of (km_keys (ro_keys w)) (collection_key_id c) = Some k" and "ek_active k"
    and "es_list es (ro_storage w) = Inr cs" and "distinct cs" and "c \<in> set cs" and "es_scan es (ro_storage w) c = Inr rs"
    and "list_all (reencryptable cr nonce (ek_key k) key1 storable) rs"
    and "rotate_begin es key1 now w (collection_key_id c) = (w1, Inr (cx, docs))"
    and "rotate_batches cr es nonce cx status 0 w1 (take j (chunks n docs)) = (w2, Inr m)"
    and "key_manager_new cr (km_file (ro_keys w2)) master = Inr km"
    and "w3 = scheduler_new cfg now2 (ro_state w2) km (ro_storage w2)" and "kr_batch_size cfg = n"
    and "list_all (\<lambda>r. \<not> opens cr key1 r \<and> \<not> opens cr key2 r) rs"
    and "list_all (\<lambda>r. reencryptable cr nonce2 key1 key2 storable (renew cr nonce (ek_key k) key1 r)) rs"
    and "r \<in> set (concat (drop j (chunks n rs)))"
  shows "\<exists>w4 p rs4. resume_rotation cr es show_id key2 nonce2 now2 w3 = (w4, Inr ()) \<and>
    ro_state w4 = StateFile (RotationDone (collection_key_id c) now2 p) \<and>
    get_key (ro_keys w4) (collection_key_id c) = Inr key2 \<and>
    es_scan es (ro_storage w4) c = Inr rs4 \<and> r \<in> set rs4 \<and> \<not> opens cr key2 r"
proof -
  let ?rs2 = "renewed cr nonce (ek_key k) key1 (concat (take j (chunks n rs))) rs"
  note crash = crash_leaves [OF assms(1-14)]
  have km: "km_keys km = km_keys (ro_keys w2)"
    using assms(15) crash
    by (auto simp: key_manager_new_def load_keys_def km_saved_def split: option.splits sum.splits if_splits)
  have w3: "good (ro_storage w3)" "es_list es (ro_storage w3) = Inr cs" "es_scan es (ro_storage w3) c = Inr ?rs2"
    "load_rotation_state (ro_state w3) = Inr (ReEncrypting (collection_key_id c) now 0 (length rs) None)"
    "map_of (km_keys (ro_keys w3)) (collection_key_id c) = Some (key_rotate key1 now k)" "0 < kr_batch_size (ro_config w3)"
    using assms(5,16,17) crash km by (simp_all add: scheduler_new_def load_rotation_state_def)
  have k1: "ek_active (key_rotate key1 now k)" "ek_key (key_rotate key1 now k) = key1"
    using assms(7) by (simp_all add: key_rotate_def)
  have "reencryptable cr nonce2 key1 key2 storable (renew cr nonce (ek_key k) key1 x)"
    "reencryptable cr nonce2 key1 key2 storable x" if "x \<in> set rs" for x
    using that assms(18,19) by (auto simp: list_all_iff opens_def reencryptable_def split: sum.split)
  then have re2: "list_all (reencryptable cr nonce2 (ek_key (key_rotate key1 now k)) key2 storable) ?rs2"
    unfolding renewed_def k1(2) list.pred_map by (simp add: list_all_iff)
  from resume_run [OF assms(1) w3(1,4,6,5) k1(1) w3(2) assms(9,10) w3(3) re2, of show_id now2]
  obtain w4 p where w4: "resume_rotation cr es show_id key2 nonce2 now2 w3 = (w4, Inr ())"
    "ro_state w4 = StateFile (RotationDone (collection_key_id c) now2 p)"
    "get_key (ro_keys w4) (collection_key_id c) = Inr key2"
    "es_scan es (ro_storage w4) c = Inr (map (renew cr nonce2 key1 key2) ?rs2)" by (auto simp: k1(2))
  have r: "r \<in> set ?rs2" "\<not> opens cr key1 r" "\<not> opens cr key2 r"
  proof -
    have all: "concat (take j (chunks n rs)) @ concat (drop j (chunks n rs)) = rs"
      unfolding concat_append [symmetric] append_take_drop_id by (rule concat_chunks [OF assms(5)])
    have "distinct rs" using encrypted_storage.scan_refs [OF assms(1,2,11)] by (simp add: distinct_map)
    then have "r \<notin> set (concat (take j (chunks n rs)))" using assms(20) all by (metis IntI distinct_append empty_iff)
    moreover have "r \<in> set rs" using assms(20) all by (metis in_set_conv_decomp append.assoc)
    ultimately show "r \<in> set ?rs2" "\<not> opens cr key1 r" "\<not> opens cr key2 r"
      using assms(18) by (force simp: renewed_def, auto simp: list_all_iff)
  qed
  then have "renew cr nonce2 key1 key2 r = r" by (auto simp: opens_def renew_def split: sum.split)
  with r(1) have "r \<in> set (map (renew cr nonce2 key1 key2) ?rs2)" by (metis image_eqI set_map)
  with w4 r(3) show ?thesis by blast
qed

section \<open>Rotations that fail\<close>

lemma rotate_batches_state:
  "rotate_batches cr es nonce cx st n w css = (w', r) \<Longrightarrow> ro_state w' = ro_state w"
proof (induction css arbitrary: n w)
  case (Cons b css)
  then show ?case
    by (auto simp: set_status_def split: prod.splits sum.splits)
qed simp

text \<open>
  A rotation that fails while it re-encrypts leaves the persistent state in re-encryption: the
  failure is only noted in memory, no later rotation of any key can start, and a restarted server
  refuses to start.
\<close>

theorem failed_rotation_blocks:
  assumes "rotate_begin es bs now w i = (w1, Inr (cx, docs))" and "rotate_key cr es bs nonce now w i = (w2, Inl e)"
  shows "rotate_key cr es' bs' nonce' now' w2 i' = (w2, Inl (CannotStart (ReEncrypting i now 0 (length docs) None))) \<and>
    enforce_rotation_state_on_startup (ro_state w2) = Inl (CannotStart (ReEncrypting i now 0 (length docs) None)) \<and>
    ro_state (mark_rotation_failed w2 i msg) = ro_state w2"
proof -
  have w1: "ro_state w1 = StateFile (ReEncrypting i now 0 (length docs) None)"
    using assms(1) by (auto simp: rotate_begin_def save_rotation_state_def split: sum.splits if_splits prod.splits)
  have "ro_state w2 = StateFile (ReEncrypting i now 0 (length docs) None)"
    using assms w1 by (auto simp: rotate_key_def Let_def split: if_splits prod.splits sum.splits dest: rotate_batches_state)
  then show ?thesis
    by (simp add: rotate_key_def rotate_begin_def load_rotation_state_def can_start_rotation_def
        enforce_rotation_state_on_startup_def mark_rotation_failed_def split: option.split)
qed

section \<open>Instances\<close>

text \<open>A storage of references by collection, and a cipher that writes the key before the text.\<close>

type_synonym ref_store = "(string \<times> enc_ref list) list"

definition ref_storage :: "ref_store enc_storage" where
  "ref_storage = \<lparr>es_list = (\<lambda>s. Inr (map fst s)),
     es_scan = (\<lambda>s c. Inr (case map_of s c of None \<Rightarrow> [] | Some rs \<Rightarrow> rs)),
     es_update = (\<lambda>s c i b. (case map_of s c of None \<Rightarrow> (s, Inl ''no collection'')
        | Some rs \<Rightarrow> (al_put c (map (put_ref i b) rs) s, Inr ())))\<rparr>"

definition ref_store_ok :: "ref_store \<Rightarrow> bool" where
  "ref_store_ok s = list_all (\<lambda>(c, rs). distinct (map ref_id rs) \<and> list_all (\<lambda>r. ref_collection r = c) rs) s"

lemma keys_al_put_same: "map_of s c = Some x \<Longrightarrow> map fst (al_put c v s) = map fst s"
  by (induction c v s rule: al_put.induct) (auto split: if_splits)

lemma set_al_put: "p \<in> set (al_put k v xs) \<Longrightarrow> p = (k, v) \<or> p \<in> set xs"
  by (induction k v xs rule: al_put.induct) (auto split: if_splits)

lemma put_ref_fields [simp]: "ref_id (put_ref i b r) = ref_id r" "ref_collection (put_ref i b r) = ref_collection r"
  by (simp_all add: put_ref_def)

interpretation refs: encrypted_storage ref_storage ref_store_ok "\<lambda>_ _ _. True"
proof
  fix s c rs
  assume "ref_store_ok s" "es_scan ref_storage s c = Inr rs"
  then show "distinct (map ref_id rs) \<and> list_all (\<lambda>r. ref_collection r = c) rs"
    by (auto simp: ref_store_ok_def ref_storage_def list_all_iff split: option.splits dest!: map_of_SomeD)
next
  fix s c rs i b
  assume a: "ref_store_ok s" "es_scan ref_storage s c = Inr rs" "i \<in> ref_id ` set rs"
  then have m: "map_of s c = Some rs" by (auto simp: ref_storage_def split: option.splits)
  then have rs: "distinct (map ref_id rs)" "list_all (\<lambda>r. ref_collection r = c) rs"
    using a(1) by (auto simp: ref_store_ok_def list_all_iff dest!: map_of_SomeD)
  have "ref_store_ok (al_put c (map (put_ref i b) rs) s)"
    using a(1) rs unfolding ref_store_ok_def list_all_iff by (auto dest!: set_al_put simp: o_def)
  with m show "\<exists>s'. es_update ref_storage s c i b = (s', Inr ()) \<and> ref_store_ok s' \<and>
      es_list ref_storage s' = es_list ref_storage s \<and> es_scan ref_storage s' c = Inr (map (put_ref i b) rs) \<and>
      (\<forall>c'. c' \<noteq> c \<longrightarrow> es_scan ref_storage s' c' = es_scan ref_storage s c')"
    by (simp add: ref_storage_def keys_al_put_same map_of_al_put)
qed

definition time_json :: "int \<Rightarrow> json" where
  "time_json t = JArray (replicate (nat \<bar>t\<bar>) (JBool (t < 0)))"

definition json_time :: "json \<Rightarrow> int option" where
  "json_time j = (case j of JArray xs \<Rightarrow>
     Some (if xs \<noteq> [] \<and> hd xs = JBool True then - int (length xs) else int (length xs)) | _ \<Rightarrow> None)"

definition example_crypto :: "json \<Rightarrow> crypto" where
  "example_crypto j =
     \<lparr>aead_seal = (\<lambda>k n p. Some (k @ p)),
      aead_open = (\<lambda>k n c. if take (length k) c = k then Some (drop (length k) c) else None),
      ed_to_bytes = (\<lambda>e. if e = encrypted_data_new (ed_nonce e) (ed_ciphertext e) \<and> length (ed_nonce e) = 12
         then Some (ed_nonce e @ ed_ciphertext e) else None),
      ed_from_bytes = (\<lambda>b. if 12 \<le> length b then Some (encrypted_data_new (take 12 b) (drop 12 b)) else None),
      sha256 = (\<lambda>_. replicate 32 9), hex_encode = map (\<lambda>x. char_of (unat x)), hex_decode = (\<lambda>s. Some (map of_char s)),
      time_to_json = time_json, time_from_json = json_time,
      json_to_vec = (\<lambda>k. if k = j then Some [1] else None), json_from_slice = (\<lambda>b. if b = [1] then Some j else None)\<rparr>"

lemma of_char_char_of: "of_char (char_of (unat (x :: u8))) = x"
proof -
  have "unat x < 2 ^ LENGTH(8)" by (rule unsigned_less)
  then have "of_char (char_of (unat x)) = unat x" by simp
  then have "(of_nat (of_char (char_of (unat x))) :: u8) = of_nat (unat x)" by (simp only:)
  then show ?thesis by (simp add: of_nat_of_char del: of_char_of)
qed

lemma json_time_json: "json_time (time_json t) = Some t"
  by (cases "t < 0") (auto simp: json_time_def time_json_def)

lemma example_crypto_ok: "crypto_ok (example_crypto j)"
  unfolding crypto_ok_def example_crypto_def
  by (auto simp: encrypted_data_new_def json_time_json o_def of_char_char_of split: if_splits)


definition example_ref :: "bytes \<Rightarrow> document_id \<Rightarrow> u8 \<Rightarrow> enc_ref" where
  "example_ref key i x = \<lparr>ref_collection = ''c'', ref_id = i, ref_data = replicate 12 0 @ key @ [x]\<rparr>"

definition example_rotation :: "ref_store rotation" where
  "example_rotation = scheduler_new \<lparr>kr_enabled = True, kr_interval_days = 90, kr_max_old_keys = 3, kr_batch_size = 1, kr_delay_ms = 0\<rparr>
     0 NoState \<lparr>km_file = NoKeys, km_keys = [(collection_key_id ''c'', key_new (replicate 32 0) 0 (collection_key_id ''c''))],
       km_master_key = None, km_master_key_hash = None\<rparr>
     [(''c'', [example_ref (replicate 32 0) 1 7, example_ref (replicate 32 0) 2 8])]"

lemmas example_rotation_defs = example_rotation_def example_ref_def scheduler_new_def key_new_def ref_storage_def ref_store_ok_def
  opens_def reencryptable_def doc_decrypt_def doc_encrypt_def example_crypto_def encrypted_data_new_def
  load_rotation_state_def can_start_rotation_def


text \<open>The crash after the first of two batches of one document.\<close>

definition example_begin :: "ref_store rotation" where
  "example_begin = fst (rotate_begin ref_storage (replicate 32 1) 5 example_rotation (collection_key_id ''c''))"

definition example_context :: reencryption_context where
  "example_context = \<lparr>cx_key_id = collection_key_id ''c'', cx_old_key = replicate 32 0, cx_old_version = 1,
     cx_new_key = replicate 32 1, cx_new_version = 2\<rparr>"

definition example_crash :: "ref_store rotation" where
  "example_crash = fst (rotate_batches (example_crypto JNull) ref_storage (\<lambda>_. replicate 12 0) example_context
     (start_status 5 (collection_key_id ''c'')) 0 example_begin [[example_ref (replicate 32 0) 1 7]])"

definition example_restart :: "ref_store rotation" where
  "example_restart = scheduler_new (ro_config example_rotation) 6 (ro_state example_crash)
     \<lparr>km_file = km_file (ro_keys example_crash), km_keys = km_keys (ro_keys example_crash), km_master_key = None,
      km_master_key_hash = None\<rparr> (ro_storage example_crash)"

lemma example_begin_run:
  "rotate_begin ref_storage (replicate 32 1) 5 example_rotation (collection_key_id ''c'') =
     (example_begin, Inr (example_context, [example_ref (replicate 32 0) 1 7, example_ref (replicate 32 0) 2 8]))"
  by (simp add: example_begin_def rotate_begin_def rotate_context_def rotate_key_with_backup_def list_documents_def
      example_rotation_defs set_status_def get_key_def get_key_metadata_def key_rotate_def example_context_def)

lemma example_crash_run:
  "rotate_batches (example_crypto JNull) ref_storage (\<lambda>_. replicate 12 0) example_context
     (start_status 5 (collection_key_id ''c'')) 0 example_begin [[example_ref (replicate 32 0) 1 7]] = (example_crash, Inr 1)"
proof -
  have "ro_storage example_begin = ro_storage example_rotation"
    by (simp add: example_begin_def rotate_begin_def rotate_context_def rotate_key_with_backup_def list_documents_def
        example_rotation_defs set_status_def get_key_def get_key_metadata_def key_rotate_def)
  then show ?thesis
    by (simp add: example_crash_def example_context_def example_rotation_defs)
qed

lemma example_chunks: "chunks (Suc 0) [a, b] = [[a], [b]]"
  by (simp add: chunks.simps)

theorem resume_loses_documents_witness:
  "\<exists>w4 p rs4. resume_rotation (example_crypto JNull) ref_storage (\<lambda>_. []) (replicate 32 2) (\<lambda>_. replicate 12 1) 6 example_restart
      = (w4, Inr ()) \<and> ro_state w4 = StateFile (RotationDone (collection_key_id ''c'') 6 p) \<and>
    get_key (ro_keys w4) (collection_key_id ''c'') = Inr (replicate 32 2) \<and>
    es_scan ref_storage (ro_storage w4) ''c'' = Inr rs4 \<and> example_ref (replicate 32 0) 2 8 \<in> set rs4 \<and>
    \<not> opens (example_crypto JNull) (replicate 32 2) (example_ref (replicate 32 0) 2 8)"
proof -
  let ?w = example_rotation and ?cr = "example_crypto JNull" and ?k = "key_new (replicate 32 0) 0 (collection_key_id ''c'')"
  let ?rs = "[example_ref (replicate 32 0) 1 7, example_ref (replicate 32 0) 2 8]" and ?n1 = "\<lambda>_. replicate 12 0"
  have h: "ref_store_ok (ro_storage ?w)" "load_rotation_state (ro_state ?w) = Inr Idle" "can_start_rotation Idle"
    "map_of (km_keys (ro_keys ?w)) (collection_key_id ''c'') = Some ?k" "ek_active ?k"
    "es_list ref_storage (ro_storage ?w) = Inr [''c'']" "es_scan ref_storage (ro_storage ?w) ''c'' = Inr ?rs"
    by (simp_all add: example_rotation_defs)
  have l: "list_all (reencryptable ?cr ?n1 (ek_key ?k) (replicate 32 1) (\<lambda>_ _ _. True)) ?rs"
    "list_all (\<lambda>r. \<not> opens ?cr (replicate 32 1) r \<and> \<not> opens ?cr (replicate 32 2) r) ?rs"
    "list_all (\<lambda>r. reencryptable ?cr (\<lambda>_. replicate 12 1) (replicate 32 1) (replicate 32 2) (\<lambda>_ _ _. True)
       (renew ?cr ?n1 (ek_key ?k) (replicate 32 1) r)) ?rs"
    by (simp_all add: example_rotation_defs renew_def)
  have "km_saved (ro_keys example_crash)" "km_master_key_hash (ro_keys example_crash) = None"
    by (simp_all add: example_crash_def example_begin_def rotate_begin_def rotate_context_def rotate_key_with_backup_def
        list_documents_def set_status_def get_key_def get_key_metadata_def key_rotate_def example_context_def
        example_rotation_defs)
  then have km: "key_manager_new ?cr (km_file (ro_keys example_crash)) None =
      Inr \<lparr>km_file = km_file (ro_keys example_crash), km_keys = km_keys (ro_keys example_crash), km_master_key = None,
        km_master_key_hash = None\<rparr>"
    by (simp add: key_manager_new_def load_keys_def km_saved_def)
  have batch: "rotate_batches ?cr ref_storage ?n1 example_context (start_status 5 (collection_key_id ''c'')) 0 example_begin
      (take 1 (chunks 1 ?rs)) = (example_crash, Inr 1)"
    using example_crash_run by (simp add: example_chunks)
  have "example_ref (replicate 32 0) 2 8 \<in> set (concat (drop 1 (chunks 1 ?rs)))" by (simp add: example_chunks)
  from resume_loses_documents [OF refs.encrypted_storage_axioms h(1-3) zero_less_one h(4-6) _ _ h(7) l(1) example_begin_run batch km
      example_restart_def _ l(2,3) this, of "\<lambda>_. []"]
  show ?thesis by (simp add: example_rotation_def scheduler_new_def)
qed


text \<open>A storage that refuses the update.\<close>

definition refusing_storage :: "ref_store enc_storage" where
  "refusing_storage = ref_storage\<lparr>es_update := (\<lambda>s c i b. (s, Inl ''disk full''))\<rparr>"

theorem failed_rotation_blocks_witness:
  "\<exists>w2 e. rotate_key (example_crypto JNull) refusing_storage (replicate 32 1) (\<lambda>_. replicate 12 0) 5 example_rotation
      (collection_key_id ''c'') = (w2, Inl e) \<and>
    rotate_key (example_crypto JNull) ref_storage (replicate 32 2) (\<lambda>_. replicate 12 0) 9 w2 ''wal_key'' =
      (w2, Inl (CannotStart (ReEncrypting (collection_key_id ''c'') 5 0 2 None)))"
proof -
  let ?docs = "[example_ref (replicate 32 0) 1 7, example_ref (replicate 32 0) 2 8]"
  have b: "rotate_begin refusing_storage (replicate 32 1) 5 example_rotation (collection_key_id ''c'') =
      (example_begin, Inr (example_context, ?docs))"
    by (simp add: example_begin_def rotate_begin_def rotate_context_def rotate_key_with_backup_def list_documents_def refusing_storage_def
        example_rotation_defs set_status_def get_key_def get_key_metadata_def key_rotate_def example_context_def)
  obtain w2 e where "rotate_key (example_crypto JNull) refusing_storage (replicate 32 1) (\<lambda>_. replicate 12 0) 5 example_rotation
      (collection_key_id ''c'') = (w2, Inl e)"
  proof -
    have "kr_batch_size (ro_config example_rotation) = Suc 0" by (simp add: example_rotation_defs)
    then show ?thesis using that b
      by (simp add: rotate_key_def example_chunks Let_def example_context_def example_rotation_defs refusing_storage_def)
  qed
  with failed_rotation_blocks [OF b this, of ref_storage "replicate 32 2" "\<lambda>_. replicate 12 0" 9 "''wal_key''"]
  show ?thesis by simp
qed

theorem export_import_key_witness:
  "\<exists>s m''. export_key (example_crypto (export_payload (example_crypto JNull) (key_new (replicate 32 0) 4 ''k''))) (replicate 12 0)
      \<lparr>km_file = NoKeys, km_keys = [(''k'', key_new (replicate 32 0) 4 ''k'')], km_master_key = Some (replicate 32 9), km_master_key_hash = None\<rparr>
      ''k'' = Inr s \<and>
    import_key (example_crypto (export_payload (example_crypto JNull) (key_new (replicate 32 0) 4 ''k'')))
      \<lparr>km_file = NoKeys, km_keys = [], km_master_key = Some (replicate 32 9), km_master_key_hash = None\<rparr> s = (m'', Inr ''k'') \<and>
    get_key_metadata m'' ''k'' = Inr (key_new (replicate 32 0) 4 ''k'')"
proof -
  let ?k = "key_new (replicate 32 0) 4 ''k''"
  let ?cr = "example_crypto (export_payload (example_crypto JNull) ?k)"
  let ?m = "\<lparr>km_file = NoKeys, km_keys = [(''k'', ?k)], km_master_key = Some (replicate 32 9), km_master_key_hash = None\<rparr>"
  let ?m' = "\<lparr>km_file = NoKeys, km_keys = [], km_master_key = Some (replicate 32 9), km_master_key_hash = None\<rparr>"
  have p: "export_payload ?cr ?k = export_payload (example_crypto JNull) ?k"
    by (simp add: export_payload_def example_crypto_def)
  obtain s where s: "export_key ?cr (replicate 12 0) ?m ''k'' = Inr s"
    by (simp add: export_key_def get_key_metadata_def p) (simp add: example_crypto_def doc_encrypt_def encrypted_data_new_def)
  from export_import_key [OF example_crypto_ok _ s, of ?k ?m'] s show ?thesis by (simp add: key_new_def) blast
qed

end
