(* ===== verification/Hybrid_Encrypted.thy ===== *)
theory Hybrid_Encrypted
  imports Hybrid_Storage Rotation_Proofs
begin

text \<open>
  The implementation of the trait \<open>EncryptedStorage\<close> by the hybrid engine
  (\<open>veddb-core/src/storage/hybrid.rs\<close>). It keeps the contract for data that is the JSON text of a
  document with the right id; the encrypted containers of a rotation are not such data.
\<close>

definition hybrid_scan_encrypted ::
  "'z doc_codec_scheme \<Rightarrow> hybrid_engine \<Rightarrow> string \<Rightarrow> (string, enc_ref list) result"
where
  "hybrid_scan_encrypted cdc e coll =
     map_sum id (map (\<lambda>d. \<lparr>ref_collection = coll, ref_id = doc_id d,
       ref_data = (case doc_to_vec cdc d of Inl _ \<Rightarrow> [] | Inr v \<Rightarrow> v)\<rparr>)) (hybrid_scan_collection cdc e coll)"

definition hybrid_list_encrypted :: "hybrid_engine \<Rightarrow> (string, string list) result" where
  "hybrid_list_encrypted e = Inr (list_collections (he_persistent e))"

definition hybrid_update_encrypted ::
  "'z doc_codec_scheme \<Rightarrow> hybrid_engine \<Rightarrow> string \<Rightarrow> document_id \<Rightarrow> bytes \<Rightarrow> hybrid_engine \<times> (string, unit) result"
where
  "hybrid_update_encrypted cdc e coll i b =
     (case doc_from_slice cdc b of
        Inl err \<Rightarrow> (e, Inl err)
      | Inr d \<Rightarrow> (case update_document cdc (he_persistent e) coll i d of
                    (p, Inl err) \<Rightarrow> (e\<lparr>he_persistent := p\<rparr>, Inl err) | (p, Inr _) \<Rightarrow> (e\<lparr>he_persistent := p\<rparr>, Inr ())))"

definition hybrid_enc_storage :: "'z doc_codec_scheme \<Rightarrow> hybrid_engine enc_storage" where
  "hybrid_enc_storage cdc =
     \<lparr>es_list = hybrid_list_encrypted, es_scan = hybrid_scan_encrypted cdc, es_update = hybrid_update_encrypted cdc\<rparr>"

section \<open>The contract\<close>

text \<open>Every stored entry is the text of a document under the key of its own id, in a collection without colons.\<close>

definition own_entry :: "'z doc_codec_scheme \<Rightarrow> string \<times> bytes \<Rightarrow> bool" where
  "own_entry cdc q \<longleftrightarrow> (\<exists>c d. CHR '':'' \<notin> set c \<and> fst q = make_document_key cdc c (doc_id d) \<and>
     doc_from_slice cdc (snd q) = Inr d \<and> doc_to_vec cdc d = Inr (snd q))"

definition own_ids :: "'z doc_codec_scheme \<Rightarrow> hybrid_engine \<Rightarrow> bool" where
  "own_ids cdc e \<longleftrightarrow> distinct (map fst (documents (he_persistent e))) \<and> list_all (own_entry cdc) (documents (he_persistent e))"

definition document_text :: "'z doc_codec_scheme \<Rightarrow> string \<Rightarrow> document_id \<Rightarrow> bytes \<Rightarrow> bool" where
  "document_text cdc coll i b \<longleftrightarrow> (\<exists>d. doc_from_slice cdc b = Inr d \<and> doc_to_vec cdc d = Inr b \<and> doc_id d = i)"

definition entry_ref :: "'z doc_codec_scheme \<Rightarrow> string \<Rightarrow> string \<times> bytes \<Rightarrow> enc_ref" where
  "entry_ref cdc coll q = \<lparr>ref_collection = coll,
     ref_id = (case doc_from_slice cdc (snd q) of Inl _ \<Rightarrow> 0 | Inr d \<Rightarrow> doc_id d), ref_data = snd q\<rparr>"

definition in_collection :: "string \<Rightarrow> string \<times> bytes \<Rightarrow> bool" where
  "in_collection coll q = starts_with (fst q) (coll @ '':'')"

lemma scan_own:
  "list_all (own_entry cdc) qs \<Longrightarrow>
   map_sum id (map (\<lambda>d. \<lparr>ref_collection = coll, ref_id = doc_id d, ref_data = (case doc_to_vec cdc d of Inl _ \<Rightarrow> [] | Inr v \<Rightarrow> v)\<rparr>))
     (deserialize_all cdc (map snd qs)) = Inr (map (entry_ref cdc coll) qs)"
proof (induction qs)
  case (Cons q qs)
  then obtain d where "doc_from_slice cdc (snd q) = Inr d" "doc_to_vec cdc d = Inr (snd q)" by (auto simp: own_entry_def)
  with Cons show ?case by (cases "deserialize_all cdc (map snd qs)") (auto simp: entry_ref_def)
qed simp

lemma hybrid_scan_own:
  assumes "own_ids cdc e"
  shows "hybrid_scan_encrypted cdc e coll =
    Inr (map (entry_ref cdc coll) (filter (in_collection coll) (documents (he_persistent e))))"
proof -
  have f: "(\<lambda>(k, v :: bytes). starts_with k (coll @ '':'')) = in_collection coll" by (auto simp: in_collection_def)
  have "list_all (own_entry cdc) (filter (in_collection coll) (documents (he_persistent e)))"
    using assms by (simp add: own_ids_def list_all_iff)
  from scan_own [OF this] show ?thesis
    by (simp add: hybrid_scan_encrypted_def hybrid_scan_collection_def scan_collection_def f)
qed

lemma own_in_collection:
  assumes "uuid_text_ok cdc" and "own_entry cdc q" and "in_collection coll q"
  shows "CHR '':'' \<notin> set coll \<and> fst q = make_document_key cdc coll (ref_id (entry_ref cdc coll q))"
proof -
  from assms(2) obtain c d where c: "CHR '':'' \<notin> set c" "fst q = make_document_key cdc c (doc_id d)"
    "doc_from_slice cdc (snd q) = Inr d" by (auto simp: own_entry_def)
  have no: "\<not> starts_with (show_uuid cdc (doc_id d)) (u @ '':'')" for u
  proof
    assume "starts_with (show_uuid cdc (doc_id d)) (u @ '':'')"
    then have "take (length u + 1) (show_uuid cdc (doc_id d)) = u @ '':''" by (simp add: starts_with_def)
    then have "CHR '':'' \<in> set (show_uuid cdc (doc_id d))" by (metis in_set_conv_decomp in_set_takeD)
    with assms(1) show False by (simp add: uuid_text_ok_def)
  qed
  from assms(3) c(2) have "starts_with (make_document_key cdc c (doc_id d)) (coll @ '':'')" by (simp add: in_collection_def)
  with starts_with_key [OF c(1)] no have "coll = c" by blast
  with c show ?thesis by (simp add: entry_ref_def)
qed

lemma al_put_map:
  "distinct (map fst xs) \<Longrightarrow> k \<in> fst ` set xs \<Longrightarrow> al_put k v xs = map (\<lambda>q. if fst q = k then (k, v) else q) xs"
proof (induction k v xs rule: al_put.induct)
  case (2 k v k' v' xs)
  show ?case
  proof (cases "k' = k")
    case True
    have "map (\<lambda>q. if fst q = k then (k, v) else q) xs = xs"
      using 2(2) True by (intro map_idI) (auto simp: image_iff)
    with True show ?thesis by simp
  next
    case False
    with 2 show ?thesis by auto
  qed
qed simp

text \<open>The laws of the codec that the contract needs.\<close>

locale hybrid_codec =
  fixes cdc :: "'z doc_codec_scheme"
  assumes uuid_ok: "uuid_text_ok cdc"

sublocale hybrid_codec \<subseteq> hyb: encrypted_storage "hybrid_enc_storage cdc" "own_ids cdc" "document_text cdc"
proof
  fix e coll rs
  assume e: "own_ids cdc e" and scan: "es_scan (hybrid_enc_storage cdc) e coll = Inr rs"
  let ?qs = "filter (in_collection coll) (documents (he_persistent e))"
  have rs: "rs = map (entry_ref cdc coll) ?qs" using scan by (simp add: hybrid_enc_storage_def hybrid_scan_own [OF e])
  have key: "fst q = make_document_key cdc coll (ref_id (entry_ref cdc coll q))" if "q \<in> set ?qs" for q
    using own_in_collection [OF uuid_ok, of q coll] e that by (auto simp: own_ids_def list_all_iff)
  have "distinct (map fst ?qs)" using e by (simp add: own_ids_def distinct_map_filter)
  then have "distinct (map (\<lambda>q. ref_id (entry_ref cdc coll q)) ?qs)"
    using key by (auto simp: distinct_map inj_on_def)
  then show "distinct (map ref_id rs) \<and> list_all (\<lambda>r. ref_collection r = coll) rs"
    by (simp add: rs o_def list_all_iff entry_ref_def)
next
  fix e coll rs i b
  assume e: "own_ids cdc e" and scan: "es_scan (hybrid_enc_storage cdc) e coll = Inr rs"
    and i: "i \<in> ref_id ` set rs" and b: "document_text cdc coll i b"
  let ?docs = "documents (he_persistent e)" and ?k = "make_document_key cdc coll i"
  have rs: "rs = map (entry_ref cdc coll) (filter (in_collection coll) ?docs)"
    using scan by (simp add: hybrid_enc_storage_def hybrid_scan_own [OF e])
  obtain q where q: "q \<in> set ?docs" "in_collection coll q" "ref_id (entry_ref cdc coll q) = i" using i rs by auto
  have own: "own_entry cdc x" if "x \<in> set ?docs" for x using e that by (simp add: own_ids_def list_all_iff)
  have k: "CHR '':'' \<notin> set coll" "fst q = ?k" using own_in_collection [OF uuid_ok own [OF q(1)] q(2)] q(3) by auto
  have put: "al_put ?k b ?docs = map (\<lambda>x. if fst x = ?k then (?k, b) else x) ?docs"
    using e q(1) k(2) by (intro al_put_map) (auto simp: own_ids_def image_iff intro!: bexI [of _ q])
  obtain d where d: "doc_from_slice cdc b = Inr d" "doc_to_vec cdc d = Inr b" "doc_id d = i"
    using b by (auto simp: document_text_def)
  let ?e = "e\<lparr>he_persistent := (he_persistent e)\<lparr>documents := al_put ?k b ?docs\<rparr>\<rparr>"
  have upd: "hybrid_update_encrypted cdc e coll i b = (?e, Inr ())"
    using d by (simp add: hybrid_update_encrypted_def update_document_def insert_document_def)
  have "own_entry cdc (?k, b)" using d k(1) by (auto simp: own_entry_def)
  then have good: "own_ids cdc ?e"
    using e own by (auto simp: own_ids_def distinct_al_put list_all_iff dest!: set_al_put)
  have names: "map fst (al_put ?k b ?docs) = map fst ?docs" by (simp add: put) 
  have inc: "in_collection c' (?k, b) = in_collection c' x" if "fst x = ?k" for c' x using that by (simp add: in_collection_def)
  have flt: "filter (in_collection c') (al_put ?k b ?docs) =
      map (\<lambda>x. if fst x = ?k then (?k, b) else x) (filter (in_collection c') ?docs)" for c'
    unfolding put filter_map by (rule arg_cong [where f = "map _"], rule filter_cong) (auto simp: in_collection_def)
  have ref: "entry_ref cdc coll (if fst x = ?k then (?k, b) else x) = put_ref i b (entry_ref cdc coll x)"
    if "x \<in> set ?docs" "in_collection coll x" for x
  proof -
    have "fst x = make_document_key cdc coll (ref_id (entry_ref cdc coll x))"
      using own_in_collection [OF uuid_ok own [OF that(1)] that(2)] by simp
    then have "fst x = ?k \<longleftrightarrow> ref_id (entry_ref cdc coll x) = i" using make_document_key_inj [OF uuid_ok] by metis
    then show ?thesis using d by (auto simp: put_ref_def entry_ref_def)
  qed
  have same: "hybrid_scan_encrypted cdc ?e coll = Inr (map (put_ref i b) rs)"
    using ref by (simp add: hybrid_scan_own [OF good] flt rs o_def)
  have other: "hybrid_scan_encrypted cdc ?e c' = hybrid_scan_encrypted cdc e c'" if "c' \<noteq> coll" for c'
  proof -
    have "fst x \<noteq> ?k" if "x \<in> set ?docs" "in_collection c' x" for x
      using own_in_collection [OF uuid_ok own [OF that(1)] that(2)] make_document_key_inj [OF uuid_ok] \<open>c' \<noteq> coll\<close> by metis
    then show ?thesis by (simp add: hybrid_scan_own [OF good] hybrid_scan_own [OF e] flt)
  qed
  show "\<exists>s'. es_update (hybrid_enc_storage cdc) e coll i b = (s', Inr ()) \<and> own_ids cdc s' \<and>
      es_list (hybrid_enc_storage cdc) s' = es_list (hybrid_enc_storage cdc) e \<and>
      es_scan (hybrid_enc_storage cdc) s' coll = Inr (map (put_ref i b) rs) \<and>
      (\<forall>c'. c' \<noteq> coll \<longrightarrow> es_scan (hybrid_enc_storage cdc) s' c' = es_scan (hybrid_enc_storage cdc) e c')"
    using upd good same other names
    by (intro exI [of _ ?e]) (simp add: hybrid_enc_storage_def hybrid_list_encrypted_def list_collections_def get_collections_list_def)
qed

interpretation example_hyb: hybrid_codec example_doc_codec
  by unfold_locales (rule example_uuid_text_ok)

section \<open>Rotation on the hybrid engine\<close>

lemma batch_skips_all:
  "list_all (\<lambda>r. \<not> opens cr (cx_old_key cx) r) bs \<Longrightarrow> reencrypt_batch cr es nonce cx s bs = (s, Inr 0)"
  by (induction bs) (auto simp: opens_def isl_def)

lemma scan_collections_unreadable:
  assumes "\<forall>d b. doc_to_vec cdc d = Inr b \<longrightarrow> ed_from_bytes cr b = None" and "ed_from_bytes cr [] = None"
    and "scan_collections (hybrid_enc_storage cdc) e i cs = Inr docs"
  shows "list_all (\<lambda>r. \<not> opens cr k r) docs"
  using assms(3)
proof (induction cs arbitrary: docs)
  case (Cons c cs)
  have "list_all (\<lambda>r. \<not> opens cr k r) rs" if "es_scan (hybrid_enc_storage cdc) e c = Inr rs" for rs
    using that assms(1,2)
    by (cases "hybrid_scan_collection cdc e c")
      (auto simp: hybrid_enc_storage_def hybrid_scan_encrypted_def list_all_iff opens_def doc_decrypt_def split: sum.split)
  with Cons show ?case by (auto split: if_splits sum.splits)
qed simp

text \<open>
  On the hybrid engine a rotation re-encrypts nothing: what it scans is the JSON text of plain
  documents, which is not an encrypted container, so every document is skipped; the rotation
  succeeds and reports completion with 0 documents, and only the key changes. That no container is
  read from the text of a document is the hypothesis on the decoder.
\<close>

theorem hybrid_rotation_changes_nothing:
  assumes "\<forall>d b. doc_to_vec cdc d = Inr b \<longrightarrow> ed_from_bytes cr b = None" and "ed_from_bytes cr [] = None"
    and "load_rotation_state (ro_state w) = Inr st" and "can_start_rotation st" and "0 < kr_batch_size (ro_config w)"
    and "map_of (km_keys (ro_keys w)) i = Some k" and "ek_active k"
    and "list_documents (hybrid_enc_storage cdc) (ro_storage w) i = Inr docs"
  shows "\<exists>w'. rotate_key cr (hybrid_enc_storage cdc) bs nonce now w i = (w', Inr ()) \<and>
    ro_state w' = StateFile (RotationDone i now 0) \<and> ro_storage w' = ro_storage w \<and> get_key (ro_keys w') i = Inr bs"
proof -
  let ?es = "hybrid_enc_storage cdc" and ?w = "set_status (start_status now i) w"
  have keys: "map_of (km_keys (ro_keys ?w)) i = Some k" using assms(6) by (simp add: set_status_def)
  from rotate_context_ok [OF keys assms(7), of bs now] obtain m cx where
    cx: "rotate_context bs now ?w i = (?w\<lparr>ro_keys := m\<rparr>, Inr cx)" "map_of (km_keys m) i = Some (key_rotate bs now k)" by blast
  have no: "list_all (\<lambda>r. \<not> opens cr (cx_old_key cx) r) docs"
    using assms(8) scan_collections_unreadable [OF assms(1,2)]
    by (auto simp: list_documents_def split: sum.splits)
  let ?st = "(start_status now i)\<lparr>rt_total_records := length docs\<rparr>"
  let ?w1 = "set_status ?st (?w\<lparr>ro_keys := m\<rparr>)\<lparr>ro_state := save_rotation_state (ReEncrypting i now 0 (length docs) None)\<rparr>"
  have b: "rotate_begin ?es bs now w i = (?w1, Inr (cx, docs))"
    using assms(3,4,8) cx(1) by (simp add: rotate_begin_def set_status_def)
  have "concat (chunks (kr_batch_size (ro_config w)) docs) = docs" by (rule concat_chunks [OF assms(5)])
  with rotate_batches_concat [of cr ?es nonce cx ?w1 "chunks (kr_batch_size (ro_config w)) docs" "ro_storage w" 0 ?st 0]
    batch_skips_all [OF no, of ?es nonce "ro_storage w"]
  obtain w2 where w2: "rotate_batches cr ?es nonce cx ?st 0 ?w1 (chunks (kr_batch_size (ro_config w)) docs) = (w2, Inr 0)"
    "ro_storage w2 = ro_storage w" "ro_keys w2 = m" by (auto simp: set_status_def)
  let ?w' = "rotate_finish now ?st 0 w2"
  have "rotate_key cr ?es bs nonce now w i = (?w', Inr ())" using b w2(1) assms(5) by (simp add: rotate_key_def Let_def)
  moreover have "ro_state ?w' = StateFile (RotationDone i now 0)" "ro_storage ?w' = ro_storage w" "ro_keys ?w' = m"
    by (simp_all add: rotate_finish_def set_status_def save_rotation_state_def start_status_def w2)
  moreover have "get_key m i = Inr bs" using cx(2) assms(7) by (simp add: get_key_def key_rotate_def)
  ultimately show ?thesis by (intro exI [of _ ?w']) simp
qed

theorem hybrid_rotation_changes_nothing_witness:
  "\<exists>w'. rotate_key (example_crypto JNull) (hybrid_enc_storage example_doc_codec) (replicate 32 1) (\<lambda>_. replicate 12 0) 5
      (scheduler_new key_rotation_config_default 0 NoState
        \<lparr>km_file = NoKeys, km_keys = [(collection_key_id ''u'', key_new (replicate 32 0) 0 (collection_key_id ''u''))],
         km_master_key = None, km_master_key_hash = None\<rparr> example_engine) (collection_key_id ''u'') = (w', Inr ()) \<and>
    ro_state w' = StateFile (RotationDone (collection_key_id ''u'') 5 0) \<and> ro_storage w' = example_engine"
proof -
  let ?i = "collection_key_id ''u''" and ?k = "key_new (replicate 32 0) 0 (collection_key_id ''u'')" and ?cr = "example_crypto JNull"
  let ?w = "scheduler_new key_rotation_config_default 0 NoState \<lparr>km_file = NoKeys, km_keys = [(?i, ?k)],
      km_master_key = None, km_master_key_hash = None\<rparr> example_engine"
  have c: "\<forall>d b. doc_to_vec example_doc_codec d = Inr b \<longrightarrow> ed_from_bytes ?cr b = None"
    by (auto simp: example_doc_codec_def example_crypto_def)
  have n: "ed_from_bytes ?cr [] = None" by (simp add: example_crypto_def)
  have h: "load_rotation_state (ro_state ?w) = Inr Idle" "can_start_rotation Idle" "0 < kr_batch_size (ro_config ?w)"
    "map_of (km_keys (ro_keys ?w)) ?i = Some ?k" "ek_active ?k"
    by (simp_all add: scheduler_new_def load_rotation_state_def can_start_rotation_def key_rotation_config_default_def key_new_def)
  obtain docs where d: "list_documents (hybrid_enc_storage example_doc_codec) (ro_storage ?w) ?i = Inr docs"
    by (auto simp: list_documents_def hybrid_enc_storage_def hybrid_list_encrypted_def scheduler_new_def example_engine_def
        hybrid_new_def list_collections_def get_collections_list_def insert_document_def pl_new_def example_doc_codec_def
        make_document_key_def before_colon_def List.map_filter_def hybrid_scan_encrypted_def hybrid_scan_collection_def
        scan_collection_def starts_with_def)
  show ?thesis
    using hybrid_rotation_changes_nothing [where cdc = example_doc_codec and cr = ?cr and bs = "replicate 32 1"
        and nonce = "\<lambda>_. replicate 12 0" and now = 5, OF c n h d] by (auto simp: scheduler_new_def)
qed

end
