(* ===== verification/Index_Btree.thy ===== *)
theory Index_Btree
  imports Schema_Ved "HOL-Library.Product_Lexorder" "HOL-Library.Multiset"
begin

text \<open>
  Indexes (\<open>veddb-core/src/index/btree.rs\<close>, \<open>statistics.rs\<close>): keys, the ordered map from keys to
  document ids, insertion with the uniqueness check, removal, exact and range lookup, and the
  statistics. A float in a key is its rank in the order of floats, so both zeros are one key; for
  a float that is not a number the code's order is not an order and the map is not specified.
\<close>

section \<open>Keys\<close>

datatype index_value =
    INull
  | IBool bool
  | IInt u64
  | IFloat int
  | IString string
  | IBinary bytes
  | IObjectId bytes
  | IDateTime int

type_synonym index_key = "index_value list"

text \<open>The derived order: by variant first, then by content.\<close>

fun index_rank :: "index_value \<Rightarrow> nat \<times> int list" where
  "index_rank INull = (0, [])"
| "index_rank (IBool b) = (1, [if b then 1 else 0])"
| "index_rank (IInt i) = (2, [sint i])"
| "index_rank (IFloat f) = (3, [f])"
| "index_rank (IString s) = (4, map of_char s)"
| "index_rank (IBinary b) = (5, map uint b)"
| "index_rank (IObjectId b) = (6, map uint b)"
| "index_rank (IDateTime t) = (7, [t])"

lemma of_char_int_inj: "inj (of_char :: char \<Rightarrow> int)"
  by (rule injI) simp

lemma uint_inj: "inj (uint :: u8 \<Rightarrow> int)"
  by (rule injI) (metis word_of_int_uint)

lemma sint_eq_iff: "sint a = sint b \<longleftrightarrow> a = (b :: u64)"
  by (auto intro: signed_word_eqI)

lemma index_rank_inj: "index_rank a = index_rank b \<longleftrightarrow> a = b"
  by (cases a; cases b) (auto simp: sint_eq_iff inj_map_eq_map [OF of_char_int_inj] inj_map_eq_map [OF uint_inj])

instantiation index_value :: linorder
begin

definition less_eq_index_value :: "index_value \<Rightarrow> index_value \<Rightarrow> bool" where
  "less_eq_index_value a b \<longleftrightarrow> index_rank a \<le> index_rank b"

definition less_index_value :: "index_value \<Rightarrow> index_value \<Rightarrow> bool" where
  "less_index_value a b \<longleftrightarrow> index_rank a < index_rank b"

instance
  by standard (auto simp: less_eq_index_value_def less_index_value_def index_rank_inj [symmetric])

end

datatype index_error =
    UniqueConstraintViolated string index_key
  | MissingField string
  | UnsupportedValueType ved_value
  | OperationFailed string

definition index_value_from :: "ved_value \<Rightarrow> (index_error, index_value) result" where
  "index_value_from v =
     (case v of
        Null \<Rightarrow> Inr INull
      | Bool b \<Rightarrow> Inr (IBool b)
      | Int32 i \<Rightarrow> Inr (IInt (scast i))
      | Int64 i \<Rightarrow> Inr (IInt i)
      | Float64 f \<Rightarrow> Inr (IFloat (f64_key f))
      | Str s \<Rightarrow> Inr (IString s)
      | Binary b \<Rightarrow> Inr (IBinary b)
      | ObjectId oid \<Rightarrow> Inr (IObjectId oid)
      | DateTime t \<Rightarrow> Inr (IDateTime t)
      | Array _ \<Rightarrow> Inl (UnsupportedValueType v)
      | Object _ \<Rightarrow> Inl (UnsupportedValueType v))"

section \<open>Entries\<close>

type_synonym index_entry = "ved_value btree_map"

definition entry_add_field :: "index_entry \<Rightarrow> string \<Rightarrow> ved_value \<Rightarrow> index_entry" where
  "entry_add_field e n v = bt_insert n v e"

definition entry_get_field :: "index_entry \<Rightarrow> string \<Rightarrow> ved_value option" where
  "entry_get_field e n = map_of e n"

definition size_estimate :: "index_entry \<Rightarrow> nat" where
  "size_estimate e = sum_list (map (\<lambda>(k, v). length k + size_bytes v) e)"

fun key_from_entry :: "index_entry \<Rightarrow> string list \<Rightarrow> (index_error, index_key) result" where
  "key_from_entry e [] = Inr []"
| "key_from_entry e (f # fs) =
     (case entry_get_field e f of
        None \<Rightarrow> Inl (MissingField f)
      | Some v \<Rightarrow>
          (case index_value_from v of
             Inl err \<Rightarrow> Inl err
           | Inr iv \<Rightarrow> (case key_from_entry e fs of Inl err \<Rightarrow> Inl err | Inr ivs \<Rightarrow> Inr (iv # ivs))))"

fun key_from_values :: "ved_value list \<Rightarrow> (index_error, index_key) result" where
  "key_from_values [] = Inr []"
| "key_from_values (v # vs) =
     (case index_value_from v of
        Inl err \<Rightarrow> Inl err
      | Inr iv \<Rightarrow> (case key_from_values vs of Inl err \<Rightarrow> Inl err | Inr ivs \<Rightarrow> Inr (iv # ivs)))"

definition has_null :: "index_key \<Rightarrow> bool" where
  "has_null k = list_ex (\<lambda>v. v = INull) k"

section \<open>The index\<close>

record index_stats =
  total_entries :: u64
  is_total_size_bytes :: u64
  is_lookup_count :: u64
  is_insert_count :: u64
  is_delete_count :: u64

definition index_stats_default :: index_stats where
  "index_stats_default = \<lparr>total_entries = 0, is_total_size_bytes = 0, is_lookup_count = 0, is_insert_count = 0,
     is_delete_count = 0\<rparr>"

record btree_index =
  bi_name :: string
  bi_fields :: "string list"
  bi_is_unique :: bool
  bi_sparse :: bool
  bi_tree :: "(index_key \<times> document_id list) list"
  bi_stats :: index_stats

definition btree_new :: "string \<Rightarrow> string list \<Rightarrow> bool \<Rightarrow> bool \<Rightarrow> btree_index" where
  "btree_new n fs u s = \<lparr>bi_name = n, bi_fields = fs, bi_is_unique = u, bi_sparse = s, bi_tree = [],
     bi_stats = index_stats_default\<rparr>"

definition stats_inserted :: "index_entry \<Rightarrow> index_stats \<Rightarrow> index_stats" where
  "stats_inserted e st = st\<lparr>total_entries := total_entries st + 1,
     is_total_size_bytes := is_total_size_bytes st + of_nat (size_estimate e)\<rparr>"

definition stats_removed :: "index_entry \<Rightarrow> index_stats \<Rightarrow> index_stats" where
  "stats_removed e st = st\<lparr>total_entries := total_entries st - 1,
     is_total_size_bytes := is_total_size_bytes st - of_nat (size_estimate e)\<rparr>"

definition btree_insert :: "btree_index \<Rightarrow> document_id \<Rightarrow> index_entry \<Rightarrow> btree_index \<times> (index_error, unit) result" where
  "btree_insert ix i e =
     (case key_from_entry e (bi_fields ix) of
        Inl err \<Rightarrow> (ix, Inl err)
      | Inr key \<Rightarrow>
          (if bi_sparse ix \<and> has_null key then (ix, Inr ())
           else if bi_is_unique ix
           then (case map_of (bi_tree ix) key of
                   Some existing \<Rightarrow>
                     (if existing \<noteq> [] \<and> i \<notin> set existing
                      then (ix, Inl (UniqueConstraintViolated (bi_name ix) key))
                      else (ix\<lparr>bi_tree := bt_insert key [i] (bi_tree ix), bi_stats := stats_inserted e (bi_stats ix)\<rparr>, Inr ()))
                 | None \<Rightarrow>
                     (ix\<lparr>bi_tree := bt_insert key [i] (bi_tree ix), bi_stats := stats_inserted e (bi_stats ix)\<rparr>, Inr ()))
           else (let ids = (case map_of (bi_tree ix) key of None \<Rightarrow> [] | Some l \<Rightarrow> l)
                 in (ix\<lparr>bi_tree := bt_insert key (ids @ [i]) (bi_tree ix), bi_stats := stats_inserted e (bi_stats ix)\<rparr>,
                     Inr ()))))"

text \<open>\<open>remove1\<close> is the removal at the first position; an emptied list is taken out of the tree.\<close>

definition btree_remove :: "btree_index \<Rightarrow> document_id \<Rightarrow> index_entry \<Rightarrow> btree_index \<times> (index_error, bool) result" where
  "btree_remove ix i e =
     (case key_from_entry e (bi_fields ix) of
        Inl err \<Rightarrow> (ix, Inl err)
      | Inr key \<Rightarrow>
          (if bi_sparse ix \<and> has_null key then (ix, Inr False)
           else case map_of (bi_tree ix) key of
                  None \<Rightarrow> (ix, Inr False)
                | Some ids \<Rightarrow>
                    (if i \<in> set ids
                     then (let ids' = remove1 i ids
                           in (ix\<lparr>bi_tree := (if ids' = [] then bt_remove key (bi_tree ix)
                                              else bt_insert key ids' (bi_tree ix)),
                                  bi_stats := stats_removed e (bi_stats ix)\<rparr>, Inr True))
                     else (ix, Inr False))))"

definition find_exact :: "btree_index \<Rightarrow> index_key \<Rightarrow> document_id list" where
  "find_exact ix key = (case map_of (bi_tree ix) key of None \<Rightarrow> [] | Some ids \<Rightarrow> ids)"

definition in_range :: "index_key option \<Rightarrow> index_key option \<Rightarrow> bool \<Rightarrow> bool \<Rightarrow> index_key \<Rightarrow> bool" where
  "in_range start stop incl_start incl_end key \<longleftrightarrow>
     (case start of None \<Rightarrow> True | Some s \<Rightarrow> if incl_start then \<not> key < s else \<not> key \<le> s) \<and>
     (case stop of None \<Rightarrow> True | Some e \<Rightarrow> if incl_end then \<not> e < key else \<not> e \<le> key)"

definition find_range ::
  "btree_index \<Rightarrow> index_key option \<Rightarrow> index_key option \<Rightarrow> bool \<Rightarrow> bool \<Rightarrow> document_id list"
where
  "find_range ix start stop incl_start incl_end =
     concat (map snd (filter (\<lambda>p. in_range start stop incl_start incl_end (fst p)) (bi_tree ix)))"

definition key_count :: "btree_index \<Rightarrow> nat" where
  "key_count ix = length (bi_tree ix)"

definition btree_is_empty :: "btree_index \<Rightarrow> bool" where
  "btree_is_empty ix = (bi_tree ix = [])"

definition btree_clear :: "btree_index \<Rightarrow> btree_index" where
  "btree_clear ix = ix\<lparr>bi_tree := [], bi_stats := index_stats_default\<rparr>"

section \<open>Statistics\<close>

record index_stat =
  st_lookup_count :: u64
  st_hit_count :: u64
  st_miss_count :: u64
  st_total_results :: u64
  st_total_lookup_time :: nat
  st_max_lookup_time :: nat
  st_min_lookup_time :: nat

record global_stats =
  gs_total_indexes :: u64
  gs_total_inserts :: u64
  gs_total_updates :: u64
  gs_total_deletes :: u64
  gs_total_lookups :: u64

record index_statistics =
  ist_stats :: "(string \<times> index_stat) list"
  ist_global :: global_stats

definition index_stat_default :: index_stat where
  "index_stat_default = \<lparr>st_lookup_count = 0, st_hit_count = 0, st_miss_count = 0, st_total_results = 0,
     st_total_lookup_time = 0, st_max_lookup_time = 0, st_min_lookup_time = 0\<rparr>"

definition global_stats_default :: global_stats where
  "global_stats_default = \<lparr>gs_total_indexes = 0, gs_total_inserts = 0, gs_total_updates = 0, gs_total_deletes = 0,
     gs_total_lookups = 0\<rparr>"

definition statistics_new :: index_statistics where
  "statistics_new = \<lparr>ist_stats = [], ist_global = global_stats_default\<rparr>"

definition statistics_add_index :: "index_statistics \<Rightarrow> string \<Rightarrow> index_statistics" where
  "statistics_add_index s n =
     s\<lparr>ist_stats := al_put n index_stat_default (ist_stats s),
       ist_global := (ist_global s)\<lparr>gs_total_indexes := gs_total_indexes (ist_global s) + 1\<rparr>\<rparr>"

definition statistics_remove_index :: "index_statistics \<Rightarrow> string \<Rightarrow> index_statistics" where
  "statistics_remove_index s n =
     (if map_of (ist_stats s) n \<noteq> None
      then s\<lparr>ist_stats := al_del n (ist_stats s),
             ist_global := (ist_global s)\<lparr>gs_total_indexes := gs_total_indexes (ist_global s) - 1\<rparr>\<rparr>
      else s)"

definition record_insert :: "index_statistics \<Rightarrow> index_statistics" where
  "record_insert s = s\<lparr>ist_global := (ist_global s)\<lparr>gs_total_inserts := gs_total_inserts (ist_global s) + 1\<rparr>\<rparr>"

definition record_update :: "index_statistics \<Rightarrow> index_statistics" where
  "record_update s = s\<lparr>ist_global := (ist_global s)\<lparr>gs_total_updates := gs_total_updates (ist_global s) + 1\<rparr>\<rparr>"

definition record_delete :: "index_statistics \<Rightarrow> index_statistics" where
  "record_delete s = s\<lparr>ist_global := (ist_global s)\<lparr>gs_total_deletes := gs_total_deletes (ist_global s) + 1\<rparr>\<rparr>"

definition record_lookup :: "index_statistics \<Rightarrow> string \<Rightarrow> nat \<Rightarrow> index_statistics" where
  "record_lookup s n cnt =
     (let s1 = (case map_of (ist_stats s) n of
            None \<Rightarrow> s
          | Some st \<Rightarrow>
              s\<lparr>ist_stats := al_put n
                 (st\<lparr>st_lookup_count := st_lookup_count st + 1, st_total_results := st_total_results st + of_nat cnt,
                     st_hit_count := (if 0 < cnt then st_hit_count st + 1 else st_hit_count st),
                     st_miss_count := (if 0 < cnt then st_miss_count st else st_miss_count st + 1)\<rparr>) (ist_stats s)\<rparr>)
      in s1\<lparr>ist_global := (ist_global s1)\<lparr>gs_total_lookups := gs_total_lookups (ist_global s1) + 1\<rparr>\<rparr>)"

definition record_lookup_time :: "index_statistics \<Rightarrow> string \<Rightarrow> nat \<Rightarrow> index_statistics" where
  "record_lookup_time s n dur =
     (case map_of (ist_stats s) n of
        None \<Rightarrow> s
      | Some st \<Rightarrow>
          s\<lparr>ist_stats := al_put n
             (st\<lparr>st_total_lookup_time := st_total_lookup_time st + dur,
                 st_max_lookup_time := (if st_max_lookup_time st < dur then dur else st_max_lookup_time st),
                 st_min_lookup_time :=
                   (if st_min_lookup_time st = 0 \<or> dur < st_min_lookup_time st then dur else st_min_lookup_time st)\<rparr>)
             (ist_stats s)\<rparr>)"

text \<open>The division of a duration truncates; the count is cut to 32 bits, and division by zero panics.\<close>

definition average_lookup_time :: "index_statistics \<Rightarrow> string \<Rightarrow> nat option" where
  "average_lookup_time s n =
     (case map_of (ist_stats s) n of
        None \<Rightarrow> Some 0
      | Some st \<Rightarrow>
          (if 0 < st_lookup_count st
           then (let c = unat (ucast (st_lookup_count st) :: u32)
                 in if c = 0 then None else Some (st_total_lookup_time st div c))
           else Some 0))"

definition statistics_reset :: "index_statistics \<Rightarrow> index_statistics" where
  "statistics_reset s = \<lparr>ist_stats = [], ist_global = global_stats_default\<rparr>"

section \<open>Laws of one index\<close>

text \<open>The key under which an entry is kept, if it is kept at all.\<close>

definition kept_key :: "btree_index \<Rightarrow> index_entry \<Rightarrow> index_key option" where
  "kept_key ix e =
     (case key_from_entry e (bi_fields ix) of
        Inl _ \<Rightarrow> None | Inr k \<Rightarrow> if bi_sparse ix \<and> has_null k then None else Some k)"

definition same_config :: "btree_index \<Rightarrow> btree_index \<Rightarrow> bool" where
  "same_config a b \<longleftrightarrow> bi_name a = bi_name b \<and> bi_fields a = bi_fields b \<and> bi_is_unique a = bi_is_unique b \<and>
     bi_sparse a = bi_sparse b"

lemma kept_key_config: "same_config a b \<Longrightarrow> kept_key a = kept_key b"
  by (auto simp: same_config_def kept_key_def fun_eq_iff split: sum.splits)

lemma same_config_refl [simp]: "same_config a a"
  by (simp add: same_config_def)

lemma same_config_trans: "same_config a b \<Longrightarrow> same_config b c \<Longrightarrow> same_config a c"
  by (simp add: same_config_def)

lemma btree_insert_config [simp]: "same_config (fst (btree_insert ix i e)) ix"
  by (auto simp: btree_insert_def same_config_def Let_def split: sum.splits option.splits)

lemma btree_remove_config [simp]: "same_config (fst (btree_remove ix i e)) ix"
  by (auto simp: btree_remove_def same_config_def Let_def split: sum.splits option.splits)

lemma btree_insert_sorted: "bt_sorted (bi_tree ix) \<Longrightarrow> bt_sorted (bi_tree (fst (btree_insert ix i e)))"
  by (auto simp: btree_insert_def Let_def bt_sorted_insert split: sum.splits option.splits)

lemma btree_remove_sorted: "bt_sorted (bi_tree ix) \<Longrightarrow> bt_sorted (bi_tree (fst (btree_remove ix i e)))"
  by (auto simp: btree_remove_def Let_def bt_sorted_insert bt_sorted_remove split: sum.splits option.splits)

lemma find_exact_insert:
  assumes "snd (btree_insert ix i e) = Inr ()"
  shows "find_exact (fst (btree_insert ix i e)) k =
    (if kept_key ix e = Some k then (if bi_is_unique ix then [i] else find_exact ix k @ [i]) else find_exact ix k)"
  using assms
  by (auto simp: btree_insert_def kept_key_def find_exact_def Let_def map_of_bt_insert
      split: sum.splits option.splits if_splits)

lemma btree_insert_error: "snd (btree_insert ix i e) \<noteq> Inr () \<Longrightarrow> fst (btree_insert ix i e) = ix"
  by (auto simp: btree_insert_def Let_def split: sum.splits option.splits if_splits)

lemma btree_insert_unique_free:
  assumes "snd (btree_insert ix i e) = Inr ()" and "bi_is_unique ix" and "kept_key ix e = Some k"
  shows "find_exact ix k = [] \<or> i \<in> set (find_exact ix k)"
  using assms
  by (auto simp: btree_insert_def kept_key_def find_exact_def split: sum.splits option.splits if_splits)

lemma find_exact_remove:
  "find_exact (fst (btree_remove ix i e)) k =
    (if kept_key ix e = Some k then remove1 i (find_exact ix k) else find_exact ix k)"
  by (auto simp: btree_remove_def kept_key_def find_exact_def Let_def map_of_bt_insert map_of_bt_remove remove1_idem
      split: sum.splits option.splits if_splits)

lemma btree_remove_ok: "key_from_entry e (bi_fields ix) = Inr k \<Longrightarrow> \<exists>b. snd (btree_remove ix i e) = Inr b"
  by (auto simp: btree_remove_def Let_def split: option.splits)

lemma find_exact_clear [simp]: "find_exact (btree_clear ix) k = []"
  by (simp add: find_exact_def btree_clear_def)

text \<open>A range lookup collects the exact lookups of the keys in the range.\<close>

lemma set_find_range:
  assumes "bt_sorted (bi_tree ix)"
  shows "i \<in> set (find_range ix start stop a b) \<longleftrightarrow> (\<exists>k. in_range start stop a b k \<and> i \<in> set (find_exact ix k))"
proof -
  have d: "distinct (map fst (bi_tree ix))" by (rule bt_sorted_distinct [OF assms])
  have fe: "i \<in> set (find_exact ix k) \<longleftrightarrow> (\<exists>ids. (k, ids) \<in> set (bi_tree ix) \<and> i \<in> set ids)" for k
    using d by (auto simp: find_exact_def map_of_eq_Some_iff split: option.splits)
  show ?thesis by (fastforce simp: find_range_def fe)
qed

end
