(* ===== verification/Index_Manager.thy ===== *)
theory Index_Manager
  imports Index_Btree
begin

text \<open>
  The index manager of a collection and the index builder (\<open>veddb-core/src/index/manager.rs\<close>,
  \<open>builder.rs\<close>). The hash map of indexes is an association list in the order in which it is
  iterated; every call runs to its end before the next.
\<close>

section \<open>State and operations\<close>

record index_manager =
  im_collection :: string
  im_indexes :: "(string \<times> btree_index) list"
  im_statistics :: index_statistics

definition manager_new :: "string \<Rightarrow> index_manager" where
  "manager_new n = \<lparr>im_collection = n, im_indexes = [], im_statistics = statistics_new\<rparr>"

definition definition_fields :: "index_definition \<Rightarrow> string list" where
  "definition_fields def =
     (case ix_type def of Single f \<Rightarrow> [f] | Compound fs \<Rightarrow> fs | Text f \<Rightarrow> [f] | Geospatial f \<Rightarrow> [f])"

definition manager_create_index :: "index_manager \<Rightarrow> index_definition \<Rightarrow> index_manager" where
  "manager_create_index m def =
     m\<lparr>im_indexes := al_put (ix_name def)
         (btree_new (ix_name def) (definition_fields def) (ix_unique def) (ix_sparse def)) (im_indexes m),
       im_statistics := statistics_add_index (im_statistics m) (ix_name def)\<rparr>"

definition manager_drop_index :: "index_manager \<Rightarrow> string \<Rightarrow> index_manager \<times> bool" where
  "manager_drop_index m n =
     (let removed = map_of (im_indexes m) n \<noteq> None;
          m1 = m\<lparr>im_indexes := al_del n (im_indexes m)\<rparr>
      in (if removed then m1\<lparr>im_statistics := statistics_remove_index (im_statistics m1) n\<rparr> else m1, removed))"

definition create_index_entry :: "document \<Rightarrow> string list \<Rightarrow> index_entry" where
  "create_index_entry d fs =
     fold (\<lambda>f e. entry_add_field e f (case get_by_path d f of Some v \<Rightarrow> v | None \<Rightarrow> Null)) fs []"

text \<open>Replacing one index of the map.\<close>

definition put_index :: "index_manager \<Rightarrow> string \<Rightarrow> btree_index \<Rightarrow> index_manager" where
  "put_index m n ix = m\<lparr>im_indexes := al_put n ix (im_indexes m)\<rparr>"

text \<open>\<open>rollback_insertions\<close>: the indexes before the failed one, in the same order.\<close>

fun rollback_loop ::
  "(string \<times> btree_index) list \<Rightarrow> document_id \<Rightarrow> document \<Rightarrow> string \<Rightarrow>
   (string \<times> btree_index) list \<times> (index_error, unit) result"
where
  "rollback_loop [] i d failed = ([], Inr ())"
| "rollback_loop ((n, ix) # ixs) i d failed =
     (if n = failed then ((n, ix) # ixs, Inr ())
      else case btree_remove ix i (create_index_entry d (bi_fields ix)) of
             (ix', Inl e) \<Rightarrow> ((n, ix') # ixs, Inl e)
           | (ix', Inr _) \<Rightarrow> (let (rest, r) = rollback_loop ixs i d failed in ((n, ix') # rest, r)))"

text \<open>The loop of \<open>insert_document\<close>: the indexes as far as they are changed, and the name of the
  index that failed with its error.\<close>

fun insert_loop ::
  "(string \<times> btree_index) list \<Rightarrow> document_id \<Rightarrow> document \<Rightarrow>
   (string \<times> btree_index) list \<times> (string \<times> index_error) option"
where
  "insert_loop [] i d = ([], None)"
| "insert_loop ((n, ix) # ixs) i d =
     (case btree_insert ix i (create_index_entry d (bi_fields ix)) of
        (ix', Inl e) \<Rightarrow> ((n, ix') # ixs, Some (n, e))
      | (ix', Inr _) \<Rightarrow> (let (rest, r) = insert_loop ixs i d in ((n, ix') # rest, r)))"

definition manager_insert :: "index_manager \<Rightarrow> document_id \<Rightarrow> document \<Rightarrow> index_manager \<times> (index_error, unit) result" where
  "manager_insert m i d =
     (case insert_loop (im_indexes m) i d of
        (ixs, None) \<Rightarrow> (m\<lparr>im_indexes := ixs, im_statistics := record_insert (im_statistics m)\<rparr>, Inr ())
      | (ixs, Some (n, e)) \<Rightarrow>
          (case rollback_loop ixs i d n of
             (ixs', Inl e') \<Rightarrow> (m\<lparr>im_indexes := ixs'\<rparr>, Inl e')
           | (ixs', Inr _) \<Rightarrow> (m\<lparr>im_indexes := ixs'\<rparr>, Inl e)))"

fun remove_loop ::
  "(string \<times> btree_index) list \<Rightarrow> document_id \<Rightarrow> document \<Rightarrow>
   (string \<times> btree_index) list \<times> (index_error, unit) result"
where
  "remove_loop [] i d = ([], Inr ())"
| "remove_loop ((n, ix) # ixs) i d =
     (case btree_remove ix i (create_index_entry d (bi_fields ix)) of
        (ix', Inl e) \<Rightarrow> ((n, ix') # ixs, Inl e)
      | (ix', Inr _) \<Rightarrow> (let (rest, r) = remove_loop ixs i d in ((n, ix') # rest, r)))"

definition manager_remove :: "index_manager \<Rightarrow> document_id \<Rightarrow> document \<Rightarrow> index_manager \<times> (index_error, unit) result" where
  "manager_remove m i d =
     (case remove_loop (im_indexes m) i d of
        (ixs, Inl e) \<Rightarrow> (m\<lparr>im_indexes := ixs\<rparr>, Inl e)
      | (ixs, Inr _) \<Rightarrow> (m\<lparr>im_indexes := ixs, im_statistics := record_delete (im_statistics m)\<rparr>, Inr ()))"

definition manager_update ::
  "index_manager \<Rightarrow> document_id \<Rightarrow> document \<Rightarrow> document \<Rightarrow> index_manager \<times> (index_error, unit) result"
where
  "manager_update m i old new =
     (case manager_remove m i old of
        (m1, Inl e) \<Rightarrow> (m1, Inl e)
      | (m1, Inr _) \<Rightarrow>
          (case manager_insert m1 i new of
             (m2, Inl e) \<Rightarrow> (m2, Inl e)
           | (m2, Inr _) \<Rightarrow> (m2\<lparr>im_statistics := record_update (im_statistics m2)\<rparr>, Inr ())))"

definition find_with_index ::
  "index_manager \<Rightarrow> string \<Rightarrow> index_key \<Rightarrow> index_manager \<times> (index_error, document_id list) result"
where
  "find_with_index m n k =
     (case map_of (im_indexes m) n of
        None \<Rightarrow> (m, Inl (OperationFailed (''Index '' @ n @ '' not found'')))
      | Some ix \<Rightarrow>
          (let r = find_exact ix k
           in (m\<lparr>im_statistics := record_lookup (im_statistics m) n (length r)\<rparr>, Inr r)))"

definition find_range_with_index ::
  "index_manager \<Rightarrow> string \<Rightarrow> index_key option \<Rightarrow> index_key option \<Rightarrow> bool \<Rightarrow> bool \<Rightarrow>
   index_manager \<times> (index_error, document_id list) result"
where
  "find_range_with_index m n start stop a b =
     (case map_of (im_indexes m) n of
        None \<Rightarrow> (m, Inl (OperationFailed (''Index '' @ n @ '' not found'')))
      | Some ix \<Rightarrow>
          (let r = find_range ix start stop a b
           in (m\<lparr>im_statistics := record_lookup (im_statistics m) n (length r)\<rparr>, Inr r)))"

definition get_index :: "index_manager \<Rightarrow> string \<Rightarrow> btree_index option" where
  "get_index m n = map_of (im_indexes m) n"

definition manager_list_indexes :: "index_manager \<Rightarrow> string list" where
  "manager_list_indexes m = map fst (im_indexes m)"

definition has_index :: "index_manager \<Rightarrow> string \<Rightarrow> bool" where
  "has_index m n = (map_of (im_indexes m) n \<noteq> None)"

definition index_count :: "index_manager \<Rightarrow> nat" where
  "index_count m = length (im_indexes m)"

definition optimize_indexes :: "index_manager \<Rightarrow> index_manager" where
  "optimize_indexes m = m\<lparr>im_indexes := map (\<lambda>(n, ix). (n, btree_clear ix)) (im_indexes m)\<rparr>"

definition clear_all_indexes :: "index_manager \<Rightarrow> index_manager" where
  "clear_all_indexes m =
     m\<lparr>im_indexes := map (\<lambda>(n, ix). (n, btree_clear ix)) (im_indexes m), im_statistics := statistics_new\<rparr>"

section \<open>The builder\<close>

record index_builder =
  batch_size :: nat
  batch_delay_ms :: nat

definition builder_new :: index_builder where
  "builder_new = \<lparr>batch_size = 1000, batch_delay_ms = 10\<rparr>"

fun build_batch :: "btree_index \<Rightarrow> document list \<Rightarrow> btree_index \<times> (index_error, unit) result" where
  "build_batch ix [] = (ix, Inr ())"
| "build_batch ix (d # ds) =
     (case btree_insert ix (doc_id d) (create_index_entry d (bi_fields ix)) of
        (ix', Inl e) \<Rightarrow> (ix', Inl e) | (ix', Inr _) \<Rightarrow> build_batch ix' ds)"

fun build_batches :: "btree_index \<Rightarrow> document list list \<Rightarrow> btree_index \<times> (index_error, unit) result" where
  "build_batches ix [] = (ix, Inr ())"
| "build_batches ix (b # bs) =
     (case build_batch ix b of (ix', Inl e) \<Rightarrow> (ix', Inl e) | (ix', Inr _) \<Rightarrow> build_batches ix' bs)"

definition build_index ::
  "index_builder \<Rightarrow> btree_index \<Rightarrow> document list \<Rightarrow> (btree_index \<times> (index_error, unit) result) option"
where
  "build_index b ix ds = (if batch_size b = 0 then None else Some (build_batches ix (chunks (batch_size b) ds)))"

definition rebuild_index ::
  "index_builder \<Rightarrow> btree_index \<Rightarrow> document list \<Rightarrow> (btree_index \<times> (index_error, unit) result) option"
where
  "rebuild_index b ix ds = build_index b (btree_clear ix) ds"

text \<open>In milliseconds; the division by a batch size of zero panics.\<close>

definition estimate_build_time :: "index_builder \<Rightarrow> nat \<Rightarrow> nat option" where
  "estimate_build_time b n =
     (if batch_size b = 0 then None
      else Some (n + (n + batch_size b - 1) div batch_size b * batch_delay_ms b))"

definition build_index_background ::
  "index_builder \<Rightarrow> index_manager \<Rightarrow> string \<Rightarrow> document list \<Rightarrow> (index_manager \<times> (index_error, unit) result) option"
where
  "build_index_background b m n ds =
     (case map_of (im_indexes m) n of
        None \<Rightarrow> Some (m, Inl (OperationFailed (''Index '' @ n @ '' not found'')))
      | Some ix \<Rightarrow>
          (case build_index b ix ds of None \<Rightarrow> None | Some (ix', r) \<Rightarrow> Some (put_index m n ix', r)))"

section \<open>What an index should hold\<close>

text \<open>The key of a document in an index, and the ids that a lookup should return for a set of documents.\<close>

definition doc_key :: "btree_index \<Rightarrow> document \<Rightarrow> index_key option" where
  "doc_key ix d = kept_key ix (create_index_entry d (bi_fields ix))"

definition keyable :: "btree_index \<Rightarrow> document \<Rightarrow> bool" where
  "keyable ix d = (case key_from_entry (create_index_entry d (bi_fields ix)) (bi_fields ix) of Inl _ \<Rightarrow> False | Inr _ \<Rightarrow> True)"

definition expected_ids :: "btree_index \<Rightarrow> (document_id \<times> document) list \<Rightarrow> index_key \<Rightarrow> document_id list" where
  "expected_ids ix ds k = map fst (filter (\<lambda>p. doc_key ix (snd p) = Some k) ds)"

definition index_exact :: "btree_index \<Rightarrow> (document_id \<times> document) list \<Rightarrow> bool" where
  "index_exact ix ds \<longleftrightarrow>
     bt_sorted (bi_tree ix) \<and> (\<forall>d \<in> snd ` set ds. keyable ix d) \<and>
     (\<forall>k. mset (find_exact ix k) = mset (expected_ids ix ds k) \<and> (bi_is_unique ix \<longrightarrow> length (find_exact ix k) \<le> 1))"

lemma doc_key_config: "same_config a b \<Longrightarrow> doc_key a = doc_key b"
  using kept_key_config [of a b] by (simp add: doc_key_def same_config_def fun_eq_iff)

lemma keyable_config: "same_config a b \<Longrightarrow> keyable a = keyable b"
  by (simp add: keyable_def same_config_def fun_eq_iff)

lemma expected_config: "same_config a b \<Longrightarrow> expected_ids a = expected_ids b"
  using doc_key_config [of a b] by (simp add: expected_ids_def fun_eq_iff)

lemma expected_ids_subset: "set (expected_ids ix ds k) \<subseteq> fst ` set ds"
  by (auto simp: expected_ids_def)

lemma index_exact_insert:
  assumes "index_exact ix ds" and "i \<notin> fst ` set ds"
    and "btree_insert ix i (create_index_entry d (bi_fields ix)) = (ix', Inr u)"
  shows "index_exact ix' (ds @ [(i, d)])" and "same_config ix' ix"
proof -
  let ?e = "create_index_entry d (bi_fields ix)"
  from assms(3) show cfg: "same_config ix' ix" using btree_insert_config [of ix i ?e] by simp
  have ok: "snd (btree_insert ix i ?e) = Inr ()" and fst': "fst (btree_insert ix i ?e) = ix'" using assms(3) by simp_all
  note exp = expected_config [OF cfg]
  have ex: "mset (find_exact ix k) = mset (expected_ids ix ds k)" for k using assms(1) by (simp add: index_exact_def)
  then have notin: "i \<notin> set (find_exact ix k)" for k
    using assms(2) expected_ids_subset [of ix ds k] mset_eq_setD [OF ex [of k]] by auto
  have "mset (find_exact ix' k) = mset (expected_ids ix (ds @ [(i, d)]) k) \<and>
      (bi_is_unique ix \<longrightarrow> length (find_exact ix' k) \<le> 1)" for k
  proof (cases "doc_key ix d = Some k")
    case True
    then have "bi_is_unique ix \<longrightarrow> find_exact ix k = []"
      using btree_insert_unique_free [OF ok, of k] notin [of k] by (auto simp: doc_key_def)
    with True ex [of k] show ?thesis
      using find_exact_insert [OF ok, of k] by (auto simp: fst' doc_key_def expected_ids_def)
  next
    case False
    with ex [of k] assms(1) show ?thesis
      using find_exact_insert [OF ok, of k] by (auto simp: fst' doc_key_def expected_ids_def index_exact_def)
  qed
  moreover have "keyable ix d"
    using assms(3) by (auto simp: keyable_def btree_insert_def split: sum.splits)
  ultimately show "index_exact ix' (ds @ [(i, d)])"
    using assms(1) cfg btree_insert_sorted [of ix i ?e] fst'
    by (auto simp: index_exact_def exp keyable_config [OF cfg] same_config_def)
qed

lemma expected_ids_del:
  "distinct (map fst ds) \<Longrightarrow> map_of ds i = Some d \<Longrightarrow>
   mset (expected_ids ix (al_del i ds) k) =
     mset (expected_ids ix ds k) - (if doc_key ix d = Some k then {#i#} else {#})"
proof (induction ds)
  case (Cons p ds)
  obtain j e where p: "p = (j, e)" by fastforce
  show ?case
  proof (cases "j = i")
    case True
    with Cons.prems p have "al_del i ds = ds" by (auto simp: al_del_def filter_id_conv rev_image_eqI)
    with True p Cons.prems show ?thesis by (auto simp: expected_ids_def al_del_def)
  next
    case False
    with Cons p have ih: "mset (expected_ids ix (al_del i ds) k) =
        mset (expected_ids ix ds k) - (if doc_key ix d = Some k then {#i#} else {#})" by simp
    have "i \<in># mset (expected_ids ix ds k)" if "doc_key ix d = Some k"
      using that Cons.prems False p by (auto simp: expected_ids_def image_iff dest!: map_of_SomeD intro!: bexI)
    with ih False p show ?thesis by (auto simp: expected_ids_def al_del_def)
  qed
qed simp

lemma index_exact_remove:
  assumes "index_exact ix ds" and "distinct (map fst ds)" and "map_of ds i = Some d"
  shows "\<exists>ix' b. btree_remove ix i (create_index_entry d (bi_fields ix)) = (ix', Inr b) \<and>
    index_exact ix' (al_del i ds) \<and> same_config ix' ix"
proof -
  let ?e = "create_index_entry d (bi_fields ix)"
  let ?ix = "fst (btree_remove ix i ?e)"
  have cfg: "same_config ?ix ix" by simp
  have "keyable ix d" using assms(1,3) by (force simp: index_exact_def dest: map_of_SomeD)
  then obtain b where b: "snd (btree_remove ix i ?e) = Inr b"
    using btree_remove_ok [of ?e ix _ i] by (auto simp: keyable_def split: sum.splits)
  have "mset (find_exact ?ix k) = mset (expected_ids ix (al_del i ds) k) \<and>
      (bi_is_unique ix \<longrightarrow> length (find_exact ?ix k) \<le> 1)" for k
  proof -
    have "length (remove1 i l) \<le> length l" for l :: "document_id list" by (simp add: length_remove1)
    then have "length (find_exact ?ix k) \<le> length (find_exact ix k)" by (simp add: find_exact_remove)
    moreover have "mset (find_exact ?ix k) = mset (expected_ids ix (al_del i ds) k)"
      using assms(1) by (simp add: find_exact_remove expected_ids_del [OF assms(2,3)] doc_key_def index_exact_def)
    ultimately show ?thesis using assms(1) by (auto simp: index_exact_def intro: order_trans)
  qed
  then have "index_exact ?ix (al_del i ds)"
    using assms(1) btree_remove_sorted [of ix i ?e] cfg
    by (auto simp: index_exact_def expected_config [OF cfg] keyable_config [OF cfg] same_config_def al_del_def)
  with b cfg show ?thesis by (metis prod.collapse)
qed

section \<open>All indexes of a collection\<close>

definition all_exact :: "(string \<times> btree_index) list \<Rightarrow> (document_id \<times> document) list \<Rightarrow> bool" where
  "all_exact ixs ds \<longleftrightarrow> (\<forall>p \<in> set ixs. index_exact (snd p) ds)"

lemma insert_loop_ok:
  "all_exact ixs ds \<Longrightarrow> i \<notin> fst ` set ds \<Longrightarrow> insert_loop ixs i d = (ixs', None) \<Longrightarrow>
   all_exact ixs' (ds @ [(i, d)]) \<and> map fst ixs' = map fst ixs"
proof (induction ixs arbitrary: ixs')
  case (Cons p ixs)
  obtain n ix where p: "p = (n, ix)" by fastforce
  from Cons.prems(3) p obtain ix' u rest where r:
    "btree_insert ix i (create_index_entry d (bi_fields ix)) = (ix', Inr u)" "insert_loop ixs i d = (rest, None)"
    "ixs' = (n, ix') # rest"
    by (auto split: prod.splits sum.splits)
  have "index_exact ix ds" using Cons.prems(1) p by (simp add: all_exact_def)
  from index_exact_insert(1) [OF this Cons.prems(2) r(1)] Cons.IH [OF _ Cons.prems(2) r(2)] Cons.prems(1) p r(3)
  show ?case by (simp add: all_exact_def)
qed (simp add: all_exact_def)

text \<open>A failed insertion is undone.\<close>

lemma insert_loop_rollback:
  "all_exact ixs ds \<Longrightarrow> distinct (map fst ds) \<Longrightarrow> i \<notin> fst ` set ds \<Longrightarrow> distinct (map fst ixs) \<Longrightarrow>
   insert_loop ixs i d = (ixs', Some (n, e)) \<Longrightarrow>
   n \<in> fst ` set ixs \<and>
   (\<exists>ixs''. rollback_loop ixs' i d n = (ixs'', Inr ()) \<and> all_exact ixs'' ds \<and> map fst ixs'' = map fst ixs)"
proof (induction ixs arbitrary: ixs')
  case (Cons p ixs)
  obtain m ix where p: "p = (m, ix)" by fastforce
  have ex: "index_exact ix ds" "all_exact ixs ds" using Cons.prems(1) p by (simp_all add: all_exact_def)
  obtain ix' r where r: "btree_insert ix i (create_index_entry d (bi_fields ix)) = (ix', r)" by fastforce
  show ?case
  proof (cases r)
    case (Inl err)
    then have "ix' = ix" using btree_insert_error [of ix i "create_index_entry d (bi_fields ix)"] r by simp
    with Inl r Cons.prems(5) p have "n = m" "ixs' = (m, ix) # ixs" by auto
    with Cons.prems(1) p show ?thesis by (simp add: all_exact_def)
  next
    case (Inr u)
    with r Cons.prems(5) p obtain rest where rest: "insert_loop ixs i d = (rest, Some (n, e))" "ixs' = (m, ix') # rest"
      by (auto split: prod.splits)
    from Cons.IH [OF ex(2) Cons.prems(2,3) _ rest(1)] Cons.prems(4) p
    obtain ixs'' where ih: "n \<in> fst ` set ixs" "rollback_loop rest i d n = (ixs'', Inr ())" "all_exact ixs'' ds"
      "map fst ixs'' = map fst ixs" by auto
    have nm: "m \<noteq> n" using Cons.prems(4) p ih(1) by auto
    note ins = index_exact_insert [OF ex(1) Cons.prems(3) r [unfolded Inr]]
    have flds: "bi_fields ix' = bi_fields ix" using ins(2) by (simp add: same_config_def)
    have "al_del i (ds @ [(i, d)]) = ds" using Cons.prems(3) by (auto simp: al_del_def filter_id_conv image_iff)
    moreover have "map_of (ds @ [(i, d)]) i = Some d"
      using Cons.prems(3) by (simp add: map_add_Some_iff map_of_eq_None_iff)
    ultimately obtain ix2 b where "btree_remove ix' i (create_index_entry d (bi_fields ix')) = (ix2, Inr b)" "index_exact ix2 ds"
      using index_exact_remove [OF ins(1), of i d] Cons.prems(2,3) by auto
    with ih nm rest(2) p show ?thesis by (auto simp: all_exact_def)
  qed
qed simp

lemma remove_loop_ok:
  "all_exact ixs ds \<Longrightarrow> distinct (map fst ds) \<Longrightarrow> map_of ds i = Some d \<Longrightarrow>
   \<exists>ixs'. remove_loop ixs i d = (ixs', Inr ()) \<and> all_exact ixs' (al_del i ds) \<and> map fst ixs' = map fst ixs"
proof (induction ixs)
  case (Cons p ixs)
  obtain n ix where p: "p = (n, ix)" by fastforce
  then have "index_exact ix ds" using Cons.prems(1) by (simp add: all_exact_def)
  from index_exact_remove [OF this Cons.prems(2,3)] Cons.IH [OF _ Cons.prems(2,3)] Cons.prems(1) p show ?case
    by (auto simp: all_exact_def)
qed (simp add: all_exact_def)

text \<open>A client that keeps the documents: inserts new ids, removes and updates with the stored
  document. The second component is what the indexes are then supposed to cover: a document
  whose update failed is no longer there.\<close>

datatype index_op = IxInsert document_id document | IxRemove document_id | IxUpdate document_id document

fun index_step ::
  "index_manager \<times> (document_id \<times> document) list \<Rightarrow> index_op \<Rightarrow> index_manager \<times> (document_id \<times> document) list"
where
  "index_step (m, ds) (IxInsert i d) =
     (if i \<in> fst ` set ds then (m, ds)
      else case manager_insert m i d of (m', Inl _) \<Rightarrow> (m', ds) | (m', Inr _) \<Rightarrow> (m', ds @ [(i, d)]))"
| "index_step (m, ds) (IxRemove i) =
     (case map_of ds i of
        None \<Rightarrow> (m, ds)
      | Some d \<Rightarrow> (case manager_remove m i d of (m', Inl _) \<Rightarrow> (m', ds) | (m', Inr _) \<Rightarrow> (m', al_del i ds)))"
| "index_step (m, ds) (IxUpdate i d') =
     (case map_of ds i of
        None \<Rightarrow> (m, ds)
      | Some d \<Rightarrow>
          (case manager_update m i d d' of
             (m', Inl _) \<Rightarrow> (m', al_del i ds) | (m', Inr _) \<Rightarrow> (m', al_del i ds @ [(i, d')])))"

definition manager_ok :: "index_manager \<times> (document_id \<times> document) list \<Rightarrow> bool" where
  "manager_ok s \<longleftrightarrow> all_exact (im_indexes (fst s)) (snd s) \<and> distinct (map fst (snd s)) \<and>
     distinct (map fst (im_indexes (fst s)))"

lemma manager_insert_ok:
  assumes "manager_ok (m, ds)" and "i \<notin> fst ` set ds" and "manager_insert m i d = (m', r)"
  shows "manager_ok (m', case r of Inl _ \<Rightarrow> ds | Inr _ \<Rightarrow> ds @ [(i, d)])"
proof -
  have a: "all_exact (im_indexes m) ds" "distinct (map fst ds)" "distinct (map fst (im_indexes m))"
    using assms(1) by (simp_all add: manager_ok_def)
  obtain ixs x where l: "insert_loop (im_indexes m) i d = (ixs, x)" by fastforce
  show ?thesis
  proof (cases x)
    case None
    with l insert_loop_ok [OF a(1) assms(2)] assms a show ?thesis by (auto simp: manager_insert_def manager_ok_def)
  next
    case (Some q)
    then obtain n e where "x = Some (n, e)" by fastforce
    with l insert_loop_rollback [OF a(1,2) assms(2) a(3)] assms a show ?thesis
      by (fastforce simp: manager_insert_def manager_ok_def)
  qed
qed

lemma manager_remove_ok:
  assumes "manager_ok (m, ds)" and "map_of ds i = Some d"
  shows "\<exists>m'. manager_remove m i d = (m', Inr ()) \<and> manager_ok (m', al_del i ds)"
proof -
  have a: "all_exact (im_indexes m) ds" "distinct (map fst ds)" "distinct (map fst (im_indexes m))"
    using assms(1) by (simp_all add: manager_ok_def)
  from remove_loop_ok [OF a(1,2) assms(2)] a(3) distinct_al_del [OF a(2), of i] show ?thesis
    by (auto simp: manager_remove_def manager_ok_def)
qed

lemma index_step_ok:
  assumes "manager_ok s"
  shows "manager_ok (index_step s a)"
proof -
  obtain m ds where s: "s = (m, ds)" by fastforce
  note ok = assms [unfolded s]
  show ?thesis
  proof (cases a)
    case (IxInsert i d)
    show ?thesis
    proof (cases "i \<in> fst ` set ds")
      case False
      obtain m' r where "manager_insert m i d = (m', r)" by fastforce
      with manager_insert_ok [OF ok False this] IxInsert s False show ?thesis by (auto split: sum.splits)
    qed (use IxInsert s ok in simp)
  next
    case (IxRemove i)
    with s ok manager_remove_ok [OF ok, of i] show ?thesis by (cases "map_of ds i") auto
  next
    case (IxUpdate i d')
    show ?thesis
    proof (cases "map_of ds i")
      case (Some d)
      from manager_remove_ok [OF ok Some] obtain m1 where m1: "manager_remove m i d = (m1, Inr ())" "manager_ok (m1, al_del i ds)"
        by blast
      obtain m2 r where m2: "manager_insert m1 i d' = (m2, r)" by fastforce
      have "i \<notin> fst ` set (al_del i ds)" by (simp add: keys_al_del)
      from manager_insert_ok [OF m1(2) this m2] IxUpdate s Some m1(1) m2 show ?thesis
        by (auto simp: manager_update_def manager_ok_def split: sum.splits)
    qed (use IxUpdate s ok in simp)
  qed
qed

lemma index_run_ok: "manager_ok s \<Longrightarrow> manager_ok (foldl index_step s ops)"
  by (induction ops arbitrary: s) (simp_all add: index_step_ok)

lemma manager_create_ok:
  assumes "manager_ok (m, [])"
  shows "manager_ok (manager_create_index m def, [])"
proof -
  have new: "index_exact (btree_new n fs u sp) []" for n fs u sp
    by (simp add: index_exact_def btree_new_def bt_sorted_def find_exact_def expected_ids_def)
  have "all_exact (al_put n ix ixs) []" if "all_exact ixs []" "index_exact ix []" for n ix and ixs :: "(string \<times> btree_index) list"
    using that by (induction n ix ixs rule: al_put.induct) (auto simp: all_exact_def)
  with assms new show ?thesis by (simp add: manager_ok_def manager_create_index_def distinct_al_put)
qed

lemma manager_defs_ok: "manager_ok (foldl manager_create_index (manager_new c) defs, [])"
proof (induction defs rule: rev_induct)
  case Nil
  then show ?case by (simp add: manager_ok_def manager_new_def all_exact_def)
next
  case (snoc def defs)
  then show ?case by (simp add: manager_create_ok)
qed

lemma manager_ok_index:
  assumes "manager_ok (m, ds)" and "get_index m n = Some ix"
  shows "index_exact ix ds"
proof -
  have "(n, ix) \<in> set (im_indexes m)" using assms(2) unfolding get_index_def by (rule map_of_SomeD)
  with assms(1) show ?thesis by (fastforce simp: manager_ok_def all_exact_def)
qed

section \<open>Properties\<close>


text \<open>
  An update that fails takes the document out of every index: the old entries are removed
  before the new ones are tried, and only the new ones are rolled back.
\<close>

theorem failed_update_unindexes:
  assumes "foldl index_step (foldl manager_create_index (manager_new c) defs, []) ops = (m, ds)"
    and "map_of ds i = Some d" and "manager_update m i d d' = (m', Inl e)" and "get_index m' n = Some ix"
  shows "i \<notin> set (find_exact ix k)"
proof -
  have ok: "manager_ok (m, ds)" using index_run_ok [OF manager_defs_ok, of c defs ops] assms(1) by simp
  have "manager_ok (m', al_del i ds)" using index_step_ok [OF ok, of "IxUpdate i d'"] assms(2,3) by simp
  from manager_ok_index [OF this assms(4)]
  have "mset (find_exact ix k) = mset (expected_ids ix (al_del i ds) k)" by (simp add: index_exact_def)
  then have "set (find_exact ix k) = set (expected_ids ix (al_del i ds) k)" by (rule mset_eq_setD)
  with expected_ids_subset [of ix "al_del i ds" k] show ?thesis by (auto simp: keys_al_del)
qed

section \<open>Instances\<close>

definition example_ix_doc :: "document_id \<Rightarrow> string \<Rightarrow> document" where
  "example_ix_doc i s = (with_id i 0)\<lparr>doc_fields := [(''n'', Str s)]\<rparr>"

definition example_ix_run :: "index_manager \<times> (document_id \<times> document) list" where
  "example_ix_run = foldl index_step
     (foldl manager_create_index (manager_new ''c'') [index_set_unique (index_single ''n'')], [])
     [IxInsert 1 (example_ix_doc 1 ''a''), IxInsert 2 (example_ix_doc 2 ''a''), IxInsert 3 (example_ix_doc 3 ''b'')]"

lemmas example_ix_defs = manager_create_index_def manager_new_def index_single_def index_set_unique_def
  definition_fields_def btree_new_def manager_insert_def create_index_entry_def entry_add_field_def
  btree_insert_def entry_get_field_def index_value_from_def has_null_def Let_def with_id_def
  get_by_path_def example_ix_doc_def get_index_def find_exact_def

lemma example_ix_index:
  "map_option (\<lambda>ix. bi_tree ix) (get_index (fst example_ix_run) ''idx_n'') = Some [([IString ''a''], [1]), ([IString ''b''], [3])]"
  by (simp add: example_ix_run_def example_ix_defs) (simp add: less_eq_index_value_def less_index_value_def)


theorem failed_update_unindexes_witness:
  "\<exists>m' e ix. manager_update (fst example_ix_run) 3 (example_ix_doc 3 ''b'') (example_ix_doc 3 ''a'') = (m', Inl e) \<and>
     get_index m' ''idx_n'' = Some ix \<and> 3 \<notin> set (find_exact ix [IString ''b''])"
proof -
  have run: "foldl index_step
     (foldl manager_create_index (manager_new ''c'') [index_set_unique (index_single ''n'')], [])
     [IxInsert 1 (example_ix_doc 1 ''a''), IxInsert 2 (example_ix_doc 2 ''a''), IxInsert 3 (example_ix_doc 3 ''b'')] =
     (fst example_ix_run, snd example_ix_run)" by (simp only: example_ix_run_def prod.collapse)
  have old: "map_of (snd example_ix_run) 3 = Some (example_ix_doc 3 ''b'')"
    by (simp add: example_ix_run_def example_ix_defs)
  obtain m' e ix where u: "manager_update (fst example_ix_run) 3 (example_ix_doc 3 ''b'') (example_ix_doc 3 ''a'') = (m', Inl e)"
    "get_index m' ''idx_n'' = Some ix"
    by (simp add: example_ix_run_def example_ix_defs manager_update_def manager_remove_def btree_remove_def bt_remove_def al_del_def)
  from failed_update_unindexes [OF run old u] u show ?thesis by blast
qed

end
