(* ===== verification/Query_Engine.thy ===== *)
theory Query_Engine
  imports Index_Manager Stable_Sort
begin

text \<open>
  Queries (\<open>veddb-core/src/query/ast.rs\<close>, \<open>executor.rs\<close>, \<open>planner.rs\<close>, \<open>index_selector.rs\<close>):
  filters, projections, sorting, the evaluation of a filter on a document, the plan, the collection
  scan, the index scan and the steps after it. Regular expressions are the argument \<open>rx\<close>. Scores
  of index candidates are whole numbers; the cost of a plan is kept exact, without the rounding of
  floats. A hash map that is iterated has its order as an argument.
\<close>

section \<open>Syntax\<close>

datatype query_filter =
    QEmpty
  | QEq string ved_value
  | QNe string ved_value
  | QGt string ved_value
  | QGte string ved_value
  | QLt string ved_value
  | QLte string ved_value
  | QIn string "ved_value list"
  | QNin string "ved_value list"
  | QExists string bool
  | QRegex string string "string option"
  | QAnd "query_filter list"
  | QOr "query_filter list"
  | QNot query_filter

datatype projection_type = Include | Exclude

type_synonym projection = "projection_type btree_map"

datatype sort_order = Ascending | Descending

type_synonym sort_spec = "(string \<times> sort_order) list"

record query =
  q_filter :: query_filter
  q_projection :: "projection option"
  q_sort :: "sort_spec option"
  q_skip :: "nat option"
  q_limit :: "nat option"

definition query_new :: query where
  "query_new = \<lparr>q_filter = QEmpty, q_projection = None, q_sort = None, q_skip = None, q_limit = None\<rparr>"

definition query_with_filter :: "query_filter \<Rightarrow> query" where
  "query_with_filter f = \<lparr>q_filter = f, q_projection = None, q_sort = None, q_skip = None, q_limit = None\<rparr>"

definition is_simple_key_lookup :: "query \<Rightarrow> bool" where
  "is_simple_key_lookup q \<longleftrightarrow>
     (case q_filter q of QEq _ _ \<Rightarrow> True | _ \<Rightarrow> False) \<and> q_projection q = None \<and> q_sort q = None \<and>
     q_skip q = None \<and> q_limit q = Some 1"

definition get_lookup_field :: "query \<Rightarrow> string option" where
  "get_lookup_field q = (case q_filter q of QEq f _ \<Rightarrow> Some f | _ \<Rightarrow> None)"

fun collect_fields :: "query_filter \<Rightarrow> string list" where
  "collect_fields QEmpty = []"
| "collect_fields (QEq f _) = [f]"
| "collect_fields (QNe f _) = [f]"
| "collect_fields (QGt f _) = [f]"
| "collect_fields (QGte f _) = [f]"
| "collect_fields (QLt f _) = [f]"
| "collect_fields (QLte f _) = [f]"
| "collect_fields (QIn f _) = [f]"
| "collect_fields (QNin f _) = [f]"
| "collect_fields (QExists f _) = [f]"
| "collect_fields (QRegex f _ _) = [f]"
| "collect_fields (QAnd fs) = concat (map collect_fields fs)"
| "collect_fields (QOr fs) = concat (map collect_fields fs)"
| "collect_fields (QNot f) = collect_fields f"

text \<open>\<open>sort\<close> and \<open>dedup\<close>: after sorting, equal names are neighbours.\<close>

definition get_fields :: "query_filter \<Rightarrow> string list" where
  "get_fields f = remdups_adj (sort (collect_fields f))"

fun can_use_index :: "query_filter \<Rightarrow> string \<Rightarrow> bool" where
  "can_use_index QEmpty x = False"
| "can_use_index (QEq f _) x = (f = x)"
| "can_use_index (QNe f _) x = (f = x)"
| "can_use_index (QGt f _) x = (f = x)"
| "can_use_index (QGte f _) x = (f = x)"
| "can_use_index (QLt f _) x = (f = x)"
| "can_use_index (QLte f _) x = (f = x)"
| "can_use_index (QIn f _) x = (f = x)"
| "can_use_index (QNin f _) x = (f = x)"
| "can_use_index (QExists f _) x = (f = x)"
| "can_use_index (QRegex f _ _) x = (f = x)"
| "can_use_index (QAnd fs) x = list_ex (\<lambda>f. can_use_index f x) fs"
| "can_use_index (QOr fs) x = list_all (\<lambda>f. can_use_index f x) fs"
| "can_use_index (QNot f) x = can_use_index f x"

definition projection_include :: "projection \<Rightarrow> string \<Rightarrow> projection" where
  "projection_include p f = bt_insert f Include p"

definition projection_exclude :: "projection \<Rightarrow> string \<Rightarrow> projection" where
  "projection_exclude p f = bt_insert f Exclude p"

definition is_inclusion :: "projection \<Rightarrow> bool" where
  "is_inclusion p = list_ex (\<lambda>(_, t). t = Include) p"

definition is_exclusion :: "projection \<Rightarrow> bool" where
  "is_exclusion p = list_ex (\<lambda>(_, t). t = Exclude) p"

definition should_include :: "projection \<Rightarrow> string \<Rightarrow> bool" where
  "should_include p f =
     (if is_inclusion p then f = ''_id'' \<or> map_of p f = Some Include else map_of p f \<noteq> Some Exclude)"

definition sort_add :: "sort_spec \<Rightarrow> string \<Rightarrow> sort_order \<Rightarrow> sort_spec" where
  "sort_add s f ord = s @ [(f, ord)]"

definition sort_first_field :: "sort_spec \<Rightarrow> string option" where
  "sort_first_field s = (case s of [] \<Rightarrow> None | (f, _) # _ \<Rightarrow> Some f)"

section \<open>Values and filters\<close>

fun cmp_or_equal :: "cmp_ordering option \<Rightarrow> cmp_ordering" where
  "cmp_or_equal None = Equal"
| "cmp_or_equal (Some c) = c"

definition i32_as_f64 :: "u32 \<Rightarrow> u64" where
  "i32_as_f64 i = f64_of_int (sint i)"

definition i64_as_f64 :: "u64 \<Rightarrow> u64" where
  "i64_as_f64 i = f64_of_int (sint i)"

definition compare_values :: "ved_value \<Rightarrow> ved_value \<Rightarrow> cmp_ordering" where
  "compare_values a b =
     (case a of
        Null \<Rightarrow> (case b of Null \<Rightarrow> Equal | _ \<Rightarrow> Less)
      | _ \<Rightarrow>
        (case b of
           Null \<Rightarrow> Greater
         | _ \<Rightarrow>
           (case a of
              Bool x \<Rightarrow> (case b of Bool y \<Rightarrow> cmp_of x y | _ \<Rightarrow> Equal)
            | Int32 x \<Rightarrow>
                (case b of Int32 y \<Rightarrow> cmp_of (sint x) (sint y)
                 | Int64 y \<Rightarrow> cmp_of (sint x) (sint y)
                 | Float64 y \<Rightarrow> cmp_or_equal (f64_partial_cmp (i32_as_f64 x) y) | _ \<Rightarrow> Equal)
            | Int64 x \<Rightarrow>
                (case b of Int64 y \<Rightarrow> cmp_of (sint x) (sint y)
                 | Int32 y \<Rightarrow> cmp_of (sint x) (sint y)
                 | Float64 y \<Rightarrow> cmp_or_equal (f64_partial_cmp (i64_as_f64 x) y) | _ \<Rightarrow> Equal)
            | Float64 x \<Rightarrow>
                (case b of Float64 y \<Rightarrow> cmp_or_equal (f64_partial_cmp x y)
                 | Int32 y \<Rightarrow> cmp_or_equal (f64_partial_cmp x (i32_as_f64 y))
                 | Int64 y \<Rightarrow> cmp_or_equal (f64_partial_cmp x (i64_as_f64 y)) | _ \<Rightarrow> Equal)
            | Str x \<Rightarrow> (case b of Str y \<Rightarrow> cmp_of x y | _ \<Rightarrow> Equal)
            | DateTime x \<Rightarrow> (case b of DateTime y \<Rightarrow> cmp_of x y | _ \<Rightarrow> Equal)
            | ObjectId x \<Rightarrow> (case b of ObjectId y \<Rightarrow> cmp_of (map uint x) (map uint y) | _ \<Rightarrow> Equal)
            | _ \<Rightarrow> Equal)))"

datatype query_execution_error =
    QInvalidRegex string
  | PlanningError string
  | ExecutionError string

definition option_value_eq :: "ved_value option \<Rightarrow> ved_value \<Rightarrow> bool" where
  "option_value_eq a v = (case a of None \<Rightarrow> False | Some x \<Rightarrow> value_eq x v)"

definition regex_pattern :: "string \<Rightarrow> string option \<Rightarrow> string" where
  "regex_pattern pattern options =
     (case options of
        Some opts \<Rightarrow> if CHR ''i'' \<in> set opts then ''(?i)'' @ pattern else pattern | None \<Rightarrow> pattern)"

fun matches_filter :: "regex_new \<Rightarrow> document \<Rightarrow> query_filter \<Rightarrow> (query_execution_error, bool) result"
and matches_all :: "regex_new \<Rightarrow> document \<Rightarrow> query_filter list \<Rightarrow> (query_execution_error, bool) result"
and matches_any :: "regex_new \<Rightarrow> document \<Rightarrow> query_filter list \<Rightarrow> (query_execution_error, bool) result"
where
  "matches_filter rx d QEmpty = Inr True"
| "matches_filter rx d (QEq f v) = Inr (option_value_eq (get_by_path d f) v)"
| "matches_filter rx d (QNe f v) = Inr (\<not> option_value_eq (get_by_path d f) v)"
| "matches_filter rx d (QGt f v) =
     Inr (case get_by_path d f of None \<Rightarrow> False | Some x \<Rightarrow> compare_values x v = Greater)"
| "matches_filter rx d (QGte f v) =
     Inr (case get_by_path d f of None \<Rightarrow> False
          | Some x \<Rightarrow> compare_values x v = Greater \<or> compare_values x v = Equal)"
| "matches_filter rx d (QLt f v) =
     Inr (case get_by_path d f of None \<Rightarrow> False | Some x \<Rightarrow> compare_values x v = Less)"
| "matches_filter rx d (QLte f v) =
     Inr (case get_by_path d f of None \<Rightarrow> False
          | Some x \<Rightarrow> compare_values x v = Less \<or> compare_values x v = Equal)"
| "matches_filter rx d (QIn f vs) =
     Inr (case get_by_path d f of None \<Rightarrow> False | Some x \<Rightarrow> list_ex (\<lambda>v. value_eq v x) vs)"
| "matches_filter rx d (QNin f vs) =
     Inr (case get_by_path d f of None \<Rightarrow> True | Some x \<Rightarrow> \<not> list_ex (\<lambda>v. value_eq v x) vs)"
| "matches_filter rx d (QExists f ex) = Inr ((get_by_path d f \<noteq> None) = ex)"
| "matches_filter rx d (QRegex f pattern options) =
     (case get_by_path d f of
        Some (Str s) \<Rightarrow>
          (case rx (regex_pattern pattern options) of Inl e \<Rightarrow> Inl (QInvalidRegex e) | Inr m \<Rightarrow> Inr (m s))
      | _ \<Rightarrow> Inr False)"
| "matches_filter rx d (QAnd fs) = matches_all rx d fs"
| "matches_filter rx d (QOr fs) = matches_any rx d fs"
| "matches_filter rx d (QNot f) = (case matches_filter rx d f of Inl e \<Rightarrow> Inl e | Inr b \<Rightarrow> Inr (\<not> b))"
| "matches_all rx d [] = Inr True"
| "matches_all rx d (f # fs) =
     (case matches_filter rx d f of Inl e \<Rightarrow> Inl e | Inr b \<Rightarrow> if \<not> b then Inr False else matches_all rx d fs)"
| "matches_any rx d [] = Inr False"
| "matches_any rx d (f # fs) =
     (case matches_filter rx d f of Inl e \<Rightarrow> Inl e | Inr b \<Rightarrow> if b then Inr True else matches_any rx d fs)"

section \<open>Scans and the steps after them\<close>

fun execute_collection_scan ::
  "regex_new \<Rightarrow> document list \<Rightarrow> query_filter \<Rightarrow> (query_execution_error, document list) result"
where
  "execute_collection_scan rx [] f = Inr []"
| "execute_collection_scan rx (d # ds) f =
     (case matches_filter rx d f of
        Inl e \<Rightarrow> Inl e
      | Inr b \<Rightarrow> (case execute_collection_scan rx ds f of
                    Inl e \<Rightarrow> Inl e | Inr rest \<Rightarrow> Inr (if b then d # rest else rest)))"

definition order_cmp :: "sort_order \<Rightarrow> cmp_ordering \<Rightarrow> cmp_ordering" where
  "order_cmp ord c = (case ord of Ascending \<Rightarrow> c | Descending \<Rightarrow> cmp_reverse c)"

definition option_cmp :: "ved_value option \<Rightarrow> ved_value option \<Rightarrow> cmp_ordering" where
  "option_cmp a b =
     (case a of
        Some x \<Rightarrow> (case b of Some y \<Rightarrow> compare_values x y | None \<Rightarrow> Greater)
      | None \<Rightarrow> (case b of Some _ \<Rightarrow> Less | None \<Rightarrow> Equal))"

fun compare_docs :: "sort_spec \<Rightarrow> document \<Rightarrow> document \<Rightarrow> cmp_ordering" where
  "compare_docs [] a b = Equal"
| "compare_docs ((f, ord) # fs) a b =
     (let c = order_cmp ord (option_cmp (get_by_path a f) (get_by_path b f))
      in if c \<noteq> Equal then c else compare_docs fs a b)"

definition apply_sort :: "document list \<Rightarrow> sort_spec \<Rightarrow> document list" where
  "apply_sort ds s = sort_by (\<lambda>a b. compare_docs s a b \<noteq> Greater) ds"

definition project_document :: "int \<Rightarrow> projection \<Rightarrow> document \<Rightarrow> document" where
  "project_document now p d =
     fold (\<lambda>(f, v) nd. if should_include p f then fst (doc_insert now nd f v) else nd) (doc_fields d)
       (with_id (doc_id d) now)"

definition apply_projection :: "int \<Rightarrow> document list \<Rightarrow> projection \<Rightarrow> document list" where
  "apply_projection now ds p = map (project_document now p) ds"

definition apply_post_processing :: "int \<Rightarrow> document list \<Rightarrow> query \<Rightarrow> document list" where
  "apply_post_processing now ds q =
     (let ds1 = (case q_sort q of None \<Rightarrow> ds | Some s \<Rightarrow> apply_sort ds s);
          ds2 = (case q_skip q of None \<Rightarrow> ds1 | Some n \<Rightarrow> if 0 < n then drop n ds1 else ds1);
          ds3 = (case q_limit q of None \<Rightarrow> ds2 | Some n \<Rightarrow> take n ds2)
      in (case q_projection q of None \<Rightarrow> ds3 | Some p \<Rightarrow> apply_projection now ds3 p))"

section \<open>Index selection\<close>

datatype selector_index_type = SelSingle string | SelCompound "string list" | SelText string

record index_candidate =
  cand_name :: string
  cand_type :: selector_index_type
  cand_unique :: bool
  cand_sparse :: bool
  cand_score :: int

definition candidate_from_definition :: "index_definition \<Rightarrow> index_candidate" where
  "candidate_from_definition def =
     \<lparr>cand_name = ix_name def,
      cand_type = (case ix_type def of Single f \<Rightarrow> SelSingle f | Compound fs \<Rightarrow> SelCompound fs
                   | Text f \<Rightarrow> SelText f | Geospatial f \<Rightarrow> SelSingle f),
      cand_unique = ix_unique def, cand_sparse = ix_sparse def, cand_score = 0\<rparr>"

definition can_use_for_field :: "index_candidate \<Rightarrow> string \<Rightarrow> bool" where
  "can_use_for_field c f =
     (case cand_type c of SelSingle g \<Rightarrow> g = f | SelCompound gs \<Rightarrow> f \<in> set gs | SelText g \<Rightarrow> g = f)"

type_synonym index_selector = "index_candidate list"

definition selector_new :: index_selector where
  "selector_new = []"

definition selector_with_indexes :: "index_definition list \<Rightarrow> index_selector" where
  "selector_with_indexes defs = map candidate_from_definition defs"

text \<open>A candidate is added unless one of its name is there.\<close>

definition push_candidate :: "index_candidate \<Rightarrow> index_candidate list \<Rightarrow> index_candidate list" where
  "push_candidate c cs = (if list_ex (\<lambda>x. cand_name x = cand_name c) cs then cs else cs @ [c])"

definition find_indexes_for_field :: "index_selector \<Rightarrow> string \<Rightarrow> index_candidate list \<Rightarrow> index_candidate list" where
  "find_indexes_for_field sel f cs = fold (\<lambda>c acc. if can_use_for_field c f then push_candidate c acc else acc) sel cs"

definition find_text_indexes_for_field :: "index_selector \<Rightarrow> string \<Rightarrow> index_candidate list \<Rightarrow> index_candidate list" where
  "find_text_indexes_for_field sel f cs =
     fold (\<lambda>c acc. if (case cand_type c of SelText _ \<Rightarrow> True | _ \<Rightarrow> False) \<and> can_use_for_field c f
                   then push_candidate (c\<lparr>cand_score := cand_score c + 5\<rparr>) acc else acc) sel cs"

definition get_filter_field :: "query_filter \<Rightarrow> string option" where
  "get_filter_field q =
     (case q of
        QEq f _ \<Rightarrow> Some f | QNe f _ \<Rightarrow> Some f | QGt f _ \<Rightarrow> Some f | QGte f _ \<Rightarrow> Some f | QLt f _ \<Rightarrow> Some f
      | QLte f _ \<Rightarrow> Some f | QIn f _ \<Rightarrow> Some f | QNin f _ \<Rightarrow> Some f | QExists f _ \<Rightarrow> Some f
      | QRegex f _ _ \<Rightarrow> Some f | _ \<Rightarrow> None)"

definition find_compound_indexes :: "index_selector \<Rightarrow> query_filter list \<Rightarrow> index_candidate list \<Rightarrow> index_candidate list" where
  "find_compound_indexes sel fs cs =
     (let fields = List.map_filter get_filter_field fs
      in fold (\<lambda>c acc.
           case cand_type c of
             SelCompound gs \<Rightarrow>
               (let covered = length (filter (\<lambda>f. f \<in> set gs) fields)
                in if 1 < covered then push_candidate (c\<lparr>cand_score := cand_score c + int covered * 2\<rparr>) acc else acc)
           | _ \<Rightarrow> acc) sel cs)"

fun analyze_filter :: "index_selector \<Rightarrow> query_filter \<Rightarrow> index_candidate list \<Rightarrow> index_candidate list"
and analyze_filters :: "index_selector \<Rightarrow> query_filter list \<Rightarrow> index_candidate list \<Rightarrow> index_candidate list"
where
  "analyze_filter sel QEmpty cs = cs"
| "analyze_filter sel (QEq f _) cs = find_indexes_for_field sel f cs"
| "analyze_filter sel (QNe f _) cs = find_indexes_for_field sel f cs"
| "analyze_filter sel (QGt f _) cs = find_indexes_for_field sel f cs"
| "analyze_filter sel (QGte f _) cs = find_indexes_for_field sel f cs"
| "analyze_filter sel (QLt f _) cs = find_indexes_for_field sel f cs"
| "analyze_filter sel (QLte f _) cs = find_indexes_for_field sel f cs"
| "analyze_filter sel (QIn f _) cs = find_indexes_for_field sel f cs"
| "analyze_filter sel (QNin f _) cs = find_indexes_for_field sel f cs"
| "analyze_filter sel (QExists f _) cs = find_indexes_for_field sel f cs"
| "analyze_filter sel (QRegex f _ _) cs = find_indexes_for_field sel f (find_text_indexes_for_field sel f cs)"
| "analyze_filter sel (QAnd fs) cs = find_compound_indexes sel fs (analyze_filters sel fs cs)"
| "analyze_filter sel (QOr fs) cs = analyze_filters sel fs cs"
| "analyze_filter sel (QNot f) cs = analyze_filter sel f cs"
| "analyze_filters sel [] cs = cs"
| "analyze_filters sel (f # fs) cs = analyze_filters sel fs (analyze_filter sel f cs)"

fun has_equality_filter :: "query_filter \<Rightarrow> bool" where
  "has_equality_filter (QEq _ _) = True"
| "has_equality_filter (QAnd fs) = list_ex has_equality_filter fs"
| "has_equality_filter (QOr fs) = list_ex has_equality_filter fs"
| "has_equality_filter (QNot f) = has_equality_filter f"
| "has_equality_filter _ = False"

fun has_exists_filter :: "query_filter \<Rightarrow> bool" where
  "has_exists_filter (QExists _ _) = True"
| "has_exists_filter (QAnd fs) = list_ex has_exists_filter fs"
| "has_exists_filter (QOr fs) = list_ex has_exists_filter fs"
| "has_exists_filter (QNot f) = has_exists_filter f"
| "has_exists_filter _ = False"

definition can_help_with_sort :: "index_candidate \<Rightarrow> sort_spec \<Rightarrow> bool" where
  "can_help_with_sort c s =
     (case sort_first_field s of
        None \<Rightarrow> False
      | Some f \<Rightarrow> (case cand_type c of SelSingle g \<Rightarrow> g = f
                   | SelCompound gs \<Rightarrow> (case gs of [] \<Rightarrow> False | g # _ \<Rightarrow> g = f) | SelText _ \<Rightarrow> False))"

definition selector_score :: "index_candidate \<Rightarrow> query \<Rightarrow> int" where
  "selector_score c q =
     cand_score c
     + (if cand_unique c \<and> has_equality_filter (q_filter q) then 10 else 0)
     + (case q_sort q of None \<Rightarrow> 0 | Some s \<Rightarrow> if can_help_with_sort c s then 5 else 0)
     - (if cand_sparse c \<and> \<not> has_exists_filter (q_filter q) then 2 else 0)"

definition select_index :: "index_selector \<Rightarrow> query \<Rightarrow> string option" where
  "select_index sel q =
     (if sel = [] then None
      else (let cs = map (\<lambda>c. c\<lparr>cand_score := selector_score c q\<rparr>) (analyze_filter sel (q_filter q) [])
            in case sort_by (\<lambda>a b. cand_score b \<le> cand_score a) cs of [] \<Rightarrow> None | c # _ \<Rightarrow> Some (cand_name c)))"

section \<open>Plans\<close>

datatype execution_strategy = CollectionScan | IndexScan

record query_plan =
  use_index :: "string option"
  plan_strategy :: execution_strategy
  estimated_cost :: rat
  needs_sort :: bool
  needs_projection :: bool
  has_skip :: bool
  has_limit :: bool

definition first_index :: "index_selector \<Rightarrow> string \<Rightarrow> string option" where
  "first_index sel f = (case find_indexes_for_field sel f [] of [] \<Rightarrow> None | c # _ \<Rightarrow> Some (cand_name c))"

text \<open>The fields of a conjunction are the keys of a hash map, iterated in the order \<open>ord\<close> gives them.\<close>

definition analyze_filter_for_index ::
  "(string list \<Rightarrow> string list) \<Rightarrow> index_selector \<Rightarrow> query_filter \<Rightarrow> string option"
where
  "analyze_filter_for_index ord sel q =
     (case q of
        QEq f _ \<Rightarrow> first_index sel f | QGt f _ \<Rightarrow> first_index sel f | QGte f _ \<Rightarrow> first_index sel f
      | QLt f _ \<Rightarrow> first_index sel f | QLte f _ \<Rightarrow> first_index sel f | QIn f _ \<Rightarrow> first_index sel f
      | QAnd fs \<Rightarrow>
          (case List.map_filter (first_index sel) (ord (remdups (List.map_filter get_filter_field fs))) of
             [] \<Rightarrow> None | n # _ \<Rightarrow> Some n)
      | _ \<Rightarrow> None)"

fun estimate_filter_cost :: "query_filter \<Rightarrow> rat" where
  "estimate_filter_cost QEmpty = 0"
| "estimate_filter_cost (QEq _ _) = 1"
| "estimate_filter_cost (QNe _ _) = 3 / 2"
| "estimate_filter_cost (QGt _ _) = 2"
| "estimate_filter_cost (QGte _ _) = 2"
| "estimate_filter_cost (QLt _ _) = 2"
| "estimate_filter_cost (QLte _ _) = 2"
| "estimate_filter_cost (QIn _ vs) = of_nat (length vs) / 2"
| "estimate_filter_cost (QNin _ vs) = of_nat (length vs) * 7 / 10"
| "estimate_filter_cost (QExists _ _) = 1"
| "estimate_filter_cost (QRegex _ _ _) = 10"
| "estimate_filter_cost (QAnd fs) = sum_list (map estimate_filter_cost fs)"
| "estimate_filter_cost (QOr fs) = sum_list (map estimate_filter_cost fs) * 3 / 2"
| "estimate_filter_cost (QNot f) = estimate_filter_cost f * 6 / 5"

definition estimate_cost :: "query \<Rightarrow> string option \<Rightarrow> rat" where
  "estimate_cost q idx =
     (if idx \<noteq> None then 100 else 1000) + estimate_filter_cost (q_filter q) * 10
     + (if q_sort q \<noteq> None then (if idx \<noteq> None then 50 else 500) else 0)
     + (if q_projection q \<noteq> None then 10 else 0)"

definition create_plan :: "(string list \<Rightarrow> string list) \<Rightarrow> index_selector \<Rightarrow> query \<Rightarrow> query_plan" where
  "create_plan ord sel q =
     (let idx = analyze_filter_for_index ord sel (q_filter q)
      in \<lparr>use_index = idx, plan_strategy = (if idx \<noteq> None then IndexScan else CollectionScan),
          estimated_cost = estimate_cost q idx, needs_sort = (q_sort q \<noteq> None),
          needs_projection = (q_projection q \<noteq> None),
          has_skip = (case q_skip q of None \<Rightarrow> False | Some n \<Rightarrow> 0 < n), has_limit = (q_limit q \<noteq> None)\<rparr>)"

section \<open>The index scan and the executor\<close>

definition index_call :: "(index_error, 'a) result \<Rightarrow> (query_execution_error, 'a) result" where
  "index_call r = (case r of Inl _ \<Rightarrow> Inl (ExecutionError ''Index error'') | Inr x \<Rightarrow> Inr x)"

text \<open>The index keeps counters of lookups; the scan returns the manager with them.\<close>

definition key_lookup ::
  "index_manager \<Rightarrow> ved_value \<Rightarrow> (index_key \<Rightarrow> index_manager \<times> (index_error, document_id list) result) \<Rightarrow>
   index_manager \<times> (query_execution_error, document_id list) result"
where
  "key_lookup m v look =
     (case index_call (key_from_values [v]) of
        Inl e \<Rightarrow> (m, Inl e) | Inr k \<Rightarrow> (let (m', r) = look k in (m', index_call r)))"

definition is_indexable :: "query_filter \<Rightarrow> bool" where
  "is_indexable q =
     (case q of QEq _ _ \<Rightarrow> True | QGt _ _ \<Rightarrow> True | QGte _ _ \<Rightarrow> True | QLt _ _ \<Rightarrow> True | QLte _ _ \<Rightarrow> True | _ \<Rightarrow> False)"

fun simple_doc_ids ::
  "index_manager \<Rightarrow> string \<Rightarrow> query_filter \<Rightarrow> index_manager \<times> (query_execution_error, document_id list) result"
where
  "simple_doc_ids m n (QEq _ v) = key_lookup m v (\<lambda>k. find_with_index m n k)"
| "simple_doc_ids m n (QGt _ v) = key_lookup m v (\<lambda>k. find_range_with_index m n (Some k) None False False)"
| "simple_doc_ids m n (QGte _ v) = key_lookup m v (\<lambda>k. find_range_with_index m n (Some k) None True False)"
| "simple_doc_ids m n (QLt _ v) = key_lookup m v (\<lambda>k. find_range_with_index m n None (Some k) False False)"
| "simple_doc_ids m n (QLte _ v) = key_lookup m v (\<lambda>k. find_range_with_index m n None (Some k) False True)"
| "simple_doc_ids m n _ = (m, Inr [])"

text \<open>In a conjunction the first comparison is looked up, whatever field the index is on.\<close>

definition get_doc_ids_from_index ::
  "index_manager \<Rightarrow> string \<Rightarrow> query_filter \<Rightarrow> index_manager \<times> (query_execution_error, document_id list) result"
where
  "get_doc_ids_from_index m n q =
     (case q of
        QAnd fs \<Rightarrow> (case filter is_indexable fs of [] \<Rightarrow> (m, Inr []) | f # _ \<Rightarrow> simple_doc_ids m n f)
      | _ \<Rightarrow> simple_doc_ids m n q)"

definition doc_map_get :: "document list \<Rightarrow> document_id \<Rightarrow> document option" where
  "doc_map_get ds i = map_of (rev (map (\<lambda>d. (doc_id d, d)) ds)) i"

definition matches_or_false :: "regex_new \<Rightarrow> query_filter \<Rightarrow> document \<Rightarrow> bool" where
  "matches_or_false rx q d = (case matches_filter rx d q of Inl _ \<Rightarrow> False | Inr b \<Rightarrow> b)"

record query_executor =
  qe_selector :: index_selector
  qe_index_manager :: "index_manager option"

definition executor_new :: query_executor where
  "executor_new = \<lparr>qe_selector = selector_new, qe_index_manager = None\<rparr>"

definition set_index_manager :: "query_executor \<Rightarrow> index_manager \<Rightarrow> query_executor" where
  "set_index_manager ex m = ex\<lparr>qe_index_manager := Some m\<rparr>"

definition execute_index_scan ::
  "regex_new \<Rightarrow> (string list \<Rightarrow> string list) \<Rightarrow> query_executor \<Rightarrow> document list \<Rightarrow> query \<Rightarrow>
   query_executor \<times> (query_execution_error, document list) result"
where
  "execute_index_scan rx ord ex ds q =
     (case qe_index_manager ex of
        None \<Rightarrow> (ex, execute_collection_scan rx ds (q_filter q))
      | Some m \<Rightarrow>
          (case use_index (create_plan ord (qe_selector ex) q) of
             None \<Rightarrow> (ex, execute_collection_scan rx ds (q_filter q))
           | Some n \<Rightarrow>
               (case get_doc_ids_from_index m n (q_filter q) of
                  (m', Inl e) \<Rightarrow> (ex\<lparr>qe_index_manager := Some m'\<rparr>, Inl e)
                | (m', Inr ids) \<Rightarrow>
                    (ex\<lparr>qe_index_manager := Some m'\<rparr>,
                     Inr (filter (matches_or_false rx (q_filter q)) (List.map_filter (doc_map_get ds) ids))))))"

definition execute ::
  "regex_new \<Rightarrow> (string list \<Rightarrow> string list) \<Rightarrow> int \<Rightarrow> query_executor \<Rightarrow> document list \<Rightarrow> query \<Rightarrow>
   query_executor \<times> (query_execution_error, document list) result"
where
  "execute rx ord now ex ds q =
     (let (ex', r) = (if use_index (create_plan ord (qe_selector ex) q) \<noteq> None
                      then execute_index_scan rx ord ex ds q
                      else (ex, execute_collection_scan rx ds (q_filter q)))
      in (ex', map_sum id (\<lambda>rs. apply_post_processing now rs q) r))"

section \<open>The order of keys and the order of values\<close>

text \<open>
  Two values are ordered by an index as a filter orders them when one of them is null or both have
  the same index variant, other than binary data, and no float is a NaN.
\<close>

definition not_nan :: "ved_value \<Rightarrow> bool" where
  "not_nan v = (case v of Float64 f \<Rightarrow> \<not> f64_is_nan f | _ \<Rightarrow> True)"

definition is_binary :: "index_value \<Rightarrow> bool" where
  "is_binary a = (case a of IBinary _ \<Rightarrow> True | _ \<Rightarrow> False)"

definition order_agrees :: "ved_value \<Rightarrow> ved_value \<Rightarrow> bool" where
  "order_agrees x y =
     (case index_value_from x of
        Inl _ \<Rightarrow> False
      | Inr a \<Rightarrow>
          (case index_value_from y of
             Inl _ \<Rightarrow> False
           | Inr b \<Rightarrow> not_nan x \<and> not_nan y \<and>
               (a = INull \<or> b = INull \<or> fst (index_rank a) = fst (index_rank b) \<and> \<not> is_binary a)))"

lemma map_of_char_less: "map (of_char :: char \<Rightarrow> int) s < map of_char t \<longleftrightarrow> s < t"
proof (induction s arbitrary: t)
  case Nil
  then show ?case by (cases t) auto
next
  case (Cons a s)
  have i: "(of_char x :: int) = int (of_char x)" for x by (simp only: of_nat_of_char)
  have c: "(of_char a :: int) < of_char b \<longleftrightarrow> a < b" for b
    unfolding i less_char_def by (simp only: of_nat_less_iff)
  show ?case by (cases t) (auto simp: Cons c)
qed

lemma map_of_char_eq: "map (of_char :: char \<Rightarrow> int) s = map of_char t \<longleftrightarrow> s = t"
  by (simp add: inj_map_eq_map [OF of_char_int_inj])

lemma sint_scast_u32: "sint (scast (i :: u32) :: u64) = sint i"
  by (rule sint_up_scast) (simp add: is_up)

lemma cmp_of_map_char: "cmp_of (map (of_char :: char \<Rightarrow> int) s) (map of_char t) = cmp_of s t"
  by (simp add: cmp_of_def map_of_char_less map_of_char_eq)

lemma cmp_of_consts [simp]:
  "cmp_of a a = Equal" "cmp_of (0 :: int) 1 = Less" "cmp_of (1 :: int) 0 = Greater"
  "cmp_of False True = Less" "cmp_of True False = Greater"
  by (simp_all add: cmp_of_def)

lemma cmp_of_single: "cmp_of [a] [b] = cmp_of a (b :: int)"
  by (simp add: cmp_of_def)

lemma cmp_of_index:
  "cmp_of a b = (if fst (index_rank a) = fst (index_rank b) then cmp_of (snd (index_rank a)) (snd (index_rank b))
     else cmp_of (fst (index_rank a)) (fst (index_rank b)))"
  using index_rank_inj [of a b]
  by (auto simp: cmp_of_def less_index_value_def less_prod_def' prod_eq_iff)

lemma compare_values_key:
  assumes "order_agrees x y" and "index_value_from x = Inr a" and "index_value_from y = Inr b"
  shows "compare_values x y = cmp_of a b"
  using assms unfolding cmp_of_index
  by (cases x; cases y)
    (auto simp: order_agrees_def compare_values_def index_value_from_def cmp_of_map_char cmp_of_single
      sint_scast_u32 f64_partial_cmp_def not_nan_def is_binary_def cmp_of_def [of "_ :: nat"])

lemma value_eq_key:
  assumes "value_eq x y" and "index_value_from y = Inr b"
  shows "index_value_from x = Inr b"
  using assms
  by (cases x; cases y)
    (auto simp: index_value_from_def f64_eq_def f64_partial_cmp_def cmp_of_def split: if_splits)

end
