(* ===== verification/Query_Index.thy ===== *)
theory Query_Index
  imports Query_Engine
begin

text \<open>
  The index scan against the collection scan (\<open>veddb-core/src/query/executor.rs\<close>): when they return
  the same documents, and where the order of keys in an index and the order of values in a filter
  differ. Then sorting, skipping and limiting.
\<close>

section \<open>What a lookup finds\<close>

lemma map_filter_eq: "List.map_filter f xs = map (the \<circ> f) (filter (\<lambda>x. f x \<noteq> None) xs)"
  by (induction xs) (auto simp: List.map_filter_simps split: option.splits)

lemma create_index_entry_get: "f \<in> set fs \<Longrightarrow>
   entry_get_field (create_index_entry d fs) f = Some (case get_by_path d f of Some v \<Rightarrow> v | None \<Rightarrow> Null)"
proof -
  have gen: "entry_get_field (fold (\<lambda>f e. entry_add_field e f (case get_by_path d f of Some v \<Rightarrow> v | None \<Rightarrow> Null)) fs e) f =
      (if f \<in> set fs then Some (case get_by_path d f of Some v \<Rightarrow> v | None \<Rightarrow> Null) else entry_get_field e f)" for e
    by (induction fs arbitrary: e) (auto simp: entry_get_field_def entry_add_field_def map_of_bt_insert)
  show "f \<in> set fs \<Longrightarrow> ?thesis" using gen by (simp add: create_index_entry_def)
qed

text \<open>The key of a document in an index on one field.\<close>

lemma doc_key_single:
  assumes "bi_fields ix = [f]" and "\<not> bi_sparse ix"
  shows "doc_key ix d =
    (case index_value_from (case get_by_path d f of Some v \<Rightarrow> v | None \<Rightarrow> Null) of Inl _ \<Rightarrow> None | Inr a \<Rightarrow> Some [a])"
  using assms create_index_entry_get [of f "[f]" d] by (simp add: doc_key_def kept_key_def split: sum.splits)

definition by_id :: "document list \<Rightarrow> (document_id \<times> document) list" where
  "by_id ds = map (\<lambda>d. (doc_id d, d)) ds"

lemma map_of_by_id:
  assumes "distinct (map doc_id ds)"
  shows "doc_map_get ds i = Some d \<longleftrightarrow> d \<in> set ds \<and> doc_id d = i"
proof -
  have "distinct (map fst (rev (map (\<lambda>d. (doc_id d, d)) ds)))" using assms by (simp add: rev_map [symmetric] o_def)
  from map_of_eq_Some_iff [OF this, of i d] show ?thesis by (auto simp: doc_map_get_def)
qed

lemma expected_by_id: "expected_ids ix (by_id ds) k = map doc_id (filter (\<lambda>d. doc_key ix d = Some k) ds)"
  by (simp add: expected_ids_def by_id_def filter_map o_def)

lemma find_exact_by_id:
  assumes "index_exact ix (by_id ds)"
  shows "i \<in> set (find_exact ix k) \<longleftrightarrow> (\<exists>d \<in> set ds. doc_id d = i \<and> doc_key ix d = Some k)"
proof -
  have "mset (find_exact ix k) = mset (expected_ids ix (by_id ds) k)" using assms by (simp add: index_exact_def)
  then have "set (find_exact ix k) = set (expected_ids ix (by_id ds) k)" by (rule mset_eq_setD)
  then show ?thesis by (auto simp: expected_by_id)
qed

lemma find_exact_distinct:
  assumes "index_exact ix (by_id ds)" and "distinct (map doc_id ds)"
  shows "distinct (find_exact ix k)"
proof -
  have m: "mset (find_exact ix k) = mset (expected_ids ix (by_id ds) k)" using assms(1) by (simp add: index_exact_def)
  have "distinct (expected_ids ix (by_id ds) k)" using assms(2) by (simp add: expected_by_id distinct_map_filter)
  with m show ?thesis by (metis mset_eq_imp_distinct_iff)
qed

lemma find_range_distinct:
  assumes "index_exact ix (by_id ds)" and "distinct (map doc_id ds)"
  shows "distinct (find_range ix start stop a b)"
proof -
  have srt: "bt_sorted (bi_tree ix)" using assms(1) by (simp add: index_exact_def)
  have d: "distinct (map fst (bi_tree ix))" by (rule bt_sorted_distinct [OF srt])
  have fe: "find_exact ix k = ids" if "(k, ids) \<in> set (bi_tree ix)" for k ids
    using that d by (simp add: find_exact_def)
  have one: "k = k'" if "i \<in> set (find_exact ix k)" "i \<in> set (find_exact ix k')" for i k k'
  proof -
    from that(1) obtain d where d: "d \<in> set ds" "doc_id d = i" "doc_key ix d = Some k"
      using find_exact_by_id [OF assms(1), of i k] by blast
    from that(2) obtain d' where d': "d' \<in> set ds" "doc_id d' = i" "doc_key ix d' = Some k'"
      using find_exact_by_id [OF assms(1), of i k'] by blast
    from assms(2) have "inj_on doc_id (set ds)" by (simp add: distinct_map)
    with d d' have "d = d'" by (auto dest: inj_onD)
    with d(3) d'(3) show ?thesis by simp
  qed
  have gen: "distinct (concat (map snd (filter P t)))"
    if "set t \<subseteq> set (bi_tree ix)" "distinct (map fst t)" for t and P :: "index_key \<times> document_id list \<Rightarrow> bool"
    using that
  proof (induction t)
    case (Cons p t)
    obtain k ids where p: "p = (k, ids)" by fastforce
    have ids: "find_exact ix k = ids" using Cons.prems(1) p by (intro fe) auto
    have "set ids \<inter> set (concat (map snd (filter P t))) = {}"
    proof (rule ccontr)
      assume "\<not> ?thesis"
      then obtain i k' ids' where i: "i \<in> set ids" "(k', ids') \<in> set t" "i \<in> set ids'" by fastforce
      then have "k = k'" using one [of i k k'] ids fe [of k' ids'] Cons.prems(1) by auto
      with i(2) Cons.prems(2) p show False by force
    qed
    with Cons p ids find_exact_distinct [OF assms, of k] show ?case by auto
  qed simp
  show ?thesis unfolding find_range_def by (rule gen) (use d in auto)
qed

section \<open>Index scan and collection scan\<close>

lemma collection_scan_filter:
  assumes "\<And>d. d \<in> set ds \<Longrightarrow> matches_filter rx d f = Inr (P d)"
  shows "execute_collection_scan rx ds f = Inr (filter P ds)"
  using assms by (induction ds) auto

lemma scan_same_documents:
  assumes "distinct (map doc_id ds)" and "distinct ids" and "\<And>d. d \<in> set ds \<Longrightarrow> P d \<Longrightarrow> doc_id d \<in> set ids"
  shows "mset (filter P (List.map_filter (doc_map_get ds) ids)) = mset (filter P ds)"
proof -
  let ?xs = "List.map_filter (doc_map_get ds) ids"
  have get: "doc_map_get ds i = Some d \<longleftrightarrow> d \<in> set ds \<and> doc_id d = i" for i d by (rule map_of_by_id [OF assms(1)])
  have "inj_on (the \<circ> doc_map_get ds) (set (filter (\<lambda>x. doc_map_get ds x \<noteq> None) ids))"
  proof (rule inj_onI)
    fix i j
    assume "i \<in> set (filter (\<lambda>x. doc_map_get ds x \<noteq> None) ids)" "j \<in> set (filter (\<lambda>x. doc_map_get ds x \<noteq> None) ids)"
      "(the \<circ> doc_map_get ds) i = (the \<circ> doc_map_get ds) j"
    then obtain d where "doc_map_get ds i = Some d" "doc_map_get ds j = Some d" by auto
    with get show "i = j" by auto
  qed
  then have dx: "distinct ?xs" using assms(2) by (simp add: map_filter_eq distinct_map)
  have "set (filter P ?xs) = set (filter P ds)"
  proof
    have "x \<in> set ds" if "x \<in> set ?xs" for x
    proof -
      from that obtain i y where "x = the (doc_map_get ds i)" "doc_map_get ds i = Some y" by (auto simp: map_filter_eq)
      then have "doc_map_get ds i = Some x" by simp
      with get show ?thesis by blast
    qed
    then show "set (filter P ?xs) \<subseteq> set (filter P ds)" by auto
    show "set (filter P ds) \<subseteq> set (filter P ?xs)"
    proof
      fix d
      assume "d \<in> set (filter P ds)"
      then have d: "d \<in> set ds" "P d" by auto
      then have "doc_map_get ds (doc_id d) = Some d" "doc_id d \<in> set ids" using get assms(3) by auto
      then have "d \<in> set ?xs" by (force simp: map_filter_eq)
      with d show "d \<in> set (filter P ?xs)" by simp
    qed
  qed
  moreover have "distinct (filter P ds)" using assms(1) by (simp add: distinct_map)
  ultimately show ?thesis using dx by (simp add: set_eq_iff_mset_eq_distinct [symmetric] del: mset_filter)
qed

text \<open>A comparison of one field with a value, in the five forms that an index can answer.\<close>

datatype comparison = CmpEq | CmpGt | CmpGte | CmpLt | CmpLte

fun comparison_filter :: "comparison \<Rightarrow> string \<Rightarrow> ved_value \<Rightarrow> query_filter" where
  "comparison_filter CmpEq f v = QEq f v"
| "comparison_filter CmpGt f v = QGt f v"
| "comparison_filter CmpGte f v = QGte f v"
| "comparison_filter CmpLt f v = QLt f v"
| "comparison_filter CmpLte f v = QLte f v"

fun comparison_keys :: "comparison \<Rightarrow> index_value \<Rightarrow> index_value \<Rightarrow> bool" where
  "comparison_keys CmpEq k x \<longleftrightarrow> x = k"
| "comparison_keys CmpGt k x \<longleftrightarrow> k < x"
| "comparison_keys CmpGte k x \<longleftrightarrow> k \<le> x"
| "comparison_keys CmpLt k x \<longleftrightarrow> x < k"
| "comparison_keys CmpLte k x \<longleftrightarrow> x \<le> k"

lemma simple_doc_ids_found:
  assumes "map_of (im_indexes m) n = Some ix" and "index_exact ix (by_id ds)" and "distinct (map doc_id ds)"
    and "index_value_from v = Inr kv"
  obtains m' ids where "simple_doc_ids m n (comparison_filter c f v) = (m', Inr ids)" and "distinct ids"
    and "\<And>i a. (\<exists>d \<in> set ds. doc_id d = i \<and> doc_key ix d = Some [a]) \<Longrightarrow> comparison_keys c kv a \<Longrightarrow> i \<in> set ids"
proof -
  have srt: "bt_sorted (bi_tree ix)" using assms(2) by (simp add: index_exact_def)
  note fr = set_find_range [OF srt] and fe = find_exact_by_id [OF assms(2)]
  have k: "key_from_values [v] = Inr [kv]" using assms(4) by simp
  have rng: "doc_id d \<in> set (find_range ix s e x y)"
    if "d \<in> set ds" "doc_key ix d = Some [a]" "in_range s e x y [a]" for d a s e x y
    using that unfolding fr fe by blast
  have ex: "doc_id d \<in> set (find_exact ix [a])" if "d \<in> set ds" "doc_key ix d = Some [a]" for d a
    using that unfolding fe by blast
  have "\<exists>m' ids. simple_doc_ids m n (comparison_filter c f v) = (m', Inr ids) \<and> distinct ids \<and>
      (\<forall>i a. (\<exists>d \<in> set ds. doc_id d = i \<and> doc_key ix d = Some [a]) \<longrightarrow> comparison_keys c kv a \<longrightarrow> i \<in> set ids)"
  proof (cases c)
    case CmpEq
    with assms(1) find_exact_distinct [OF assms(2,3)] ex show ?thesis
      by (auto simp: key_lookup_def k find_with_index_def index_call_def Let_def simp del: key_from_values.simps)
  qed (use assms(1) find_range_distinct [OF assms(2,3)] in \<open>auto intro!: rng simp: key_lookup_def k find_range_with_index_def
      index_call_def Let_def in_range_def not_less not_le simp del: key_from_values.simps\<close>)
  then show ?thesis using that by blast
qed
lemma comparison_match_key:
  assumes "bi_fields ix = [f]" and "\<not> bi_sparse ix" and "index_value_from v = Inr kv"
    and "c = CmpEq \<or> (case get_by_path d f of None \<Rightarrow> True | Some x \<Rightarrow> order_agrees x v)"
    and "matches_filter rx d (comparison_filter c f v) = Inr True"
  shows "\<exists>a. doc_key ix d = Some [a] \<and> comparison_keys c kv a"
proof -
  from assms(5) obtain x where x: "get_by_path d f = Some x"
    by (cases c) (auto simp: option_value_eq_def split: option.splits)
  note key = doc_key_single [OF assms(1,2), of d]
  show ?thesis
  proof (cases "c = CmpEq")
    case True
    with assms(5) x have "value_eq x v" by (simp add: option_value_eq_def)
    from value_eq_key [OF this assms(3)] x True key show ?thesis by simp
  next
    case False
    with assms(4) x have ag: "order_agrees x v" by simp
    then obtain a where a: "index_value_from x = Inr a" by (auto simp: order_agrees_def split: sum.splits)
    from compare_values_key [OF ag a assms(3)] assms(5) x a key False show ?thesis
      by (cases c) (auto simp: cmp_of_def split: if_splits)
  qed
qed

lemma comparison_matches: "\<exists>b. matches_filter rx d (comparison_filter c f v) = Inr b"
  by (cases c) auto

section \<open>Properties\<close>


text \<open>
  Integers and floats in one field: a document with an integer that is greater than the float
  of the filter is found by the collection scan but not by the index scan, since every integer
  key is before every float key.
\<close>

theorem index_scan_misses_mixed_numbers:
  assumes "get_index m n = Some ix" and "index_exact ix (by_id ds)" and "distinct (map doc_id ds)"
    and "bi_fields ix = [f]" and "\<not> bi_sparse ix" and "q_filter q = QGt f (Float64 x)"
    and "d \<in> set ds" and "get_by_path d f = Some (Int32 i)" and "compare_values (Int32 i) (Float64 x) = Greater"
    and "use_index (create_plan ord (qe_selector ex) q) = Some n" and "qe_index_manager ex = Some m"
  shows "\<exists>rs cs. snd (execute_index_scan rx ord ex ds q) = Inr rs \<and>
    execute_collection_scan rx ds (q_filter q) = Inr cs \<and> d \<in> set cs \<and> d \<notin> set rs"
proof -
  have m: "map_of (im_indexes m) n = Some ix" using assms(1) by (simp add: get_index_def)
  have srt: "bt_sorted (bi_tree ix)" using assms(2) by (simp add: index_exact_def)
  let ?k = "[IFloat (f64_key x)]"
  let ?ids = "find_range ix (Some ?k) None False False"
  have key: "doc_key ix d = Some [IInt (scast i)]"
    using doc_key_single [OF assms(4,5), of d] assms(8) by (simp add: index_value_from_def)
  have "doc_id d \<notin> set ?ids"
  proof
    assume "doc_id d \<in> set ?ids"
    then obtain k where k: "in_range (Some ?k) None False False k" "doc_id d \<in> set (find_exact ix k)"
      using set_find_range [OF srt] by blast
    from k(2) obtain d' where d': "d' \<in> set ds" "doc_id d' = doc_id d" "doc_key ix d' = Some k"
      using find_exact_by_id [OF assms(2), of "doc_id d" k] by blast
    with assms(3,7) have "d' = d" by (auto simp: distinct_map dest: inj_onD)
    with d'(3) key have "k = [IInt (scast i)]" by simp
    moreover have "IInt (scast i) < IFloat (f64_key x)" by (simp add: less_index_value_def)
    ultimately have "k \<le> ?k" by (simp add: order.strict_implies_order)
    with k(1) show False by (simp add: in_range_def)
  qed
  then have out: "d \<notin> set (List.map_filter (doc_map_get ds) ?ids)"
    using map_of_by_id [OF assms(3)] by (force simp: map_filter_eq)
  let ?P = "matches_or_false rx (q_filter q)"
  have P: "matches_filter rx e (q_filter q) = Inr (?P e)" for e by (simp add: assms(6) matches_or_false_def)
  have "?P d" using assms(8,9) by (simp add: assms(6) matches_or_false_def)
  with out assms(7,10,11) m collection_scan_filter [of ds rx "q_filter q" ?P] P show ?thesis
    by (auto simp: execute_index_scan_def get_doc_ids_from_index_def assms(6) key_lookup_def index_call_def
        index_value_from_def find_range_with_index_def Let_def)
qed

section \<open>Instances\<close>

definition example_selector :: index_selector where
  "example_selector = selector_with_indexes [index_set_unique (index_single ''n'')]"

definition example_query_ex :: "index_manager \<Rightarrow> query_executor" where
  "example_query_ex m = \<lparr>qe_selector = example_selector, qe_index_manager = Some m\<rparr>"

lemma example_plan:
  "get_filter_field f = Some ''n'' \<Longrightarrow> is_indexable f \<Longrightarrow>
   use_index (create_plan ord (qe_selector (example_query_ex m)) (query_with_filter f)) = Some ''idx_n''"
  by (cases f) (simp_all add: example_query_ex_def example_selector_def selector_with_indexes_def get_filter_field_def
      is_indexable_def create_plan_def query_with_filter_def query_new_def analyze_filter_for_index_def first_index_def
      find_indexes_for_field_def can_use_for_field_def candidate_from_definition_def index_set_unique_def
      index_single_def push_candidate_def Let_def)

lemma example_run_index:
  assumes "foldl index_step (foldl manager_create_index (manager_new ''c'') defs, []) ops = (m, by_id ds)"
    and "map_option (\<lambda>ix. (bi_fields ix, bi_sparse ix)) (get_index m n) = Some ([f], False)"
  obtains ix where "get_index m n = Some ix" "index_exact ix (by_id ds)" "bi_fields ix = [f]" "\<not> bi_sparse ix"
  using assms manager_ok_index [of m "by_id ds" n] index_run_ok [OF manager_defs_ok, of "''c''" defs ops] by auto


definition example_mixed_doc :: document where
  "example_mixed_doc = (with_id 1 0)\<lparr>doc_fields := [(''n'', Int32 5)]\<rparr>"

definition example_mixed_run :: "index_manager \<times> (document_id \<times> document) list" where
  "example_mixed_run = foldl index_step
     (foldl manager_create_index (manager_new ''c'') [index_set_unique (index_single ''n'')], []) [IxInsert 1 example_mixed_doc]"

text \<open>The integer 5 and the float 2.5.\<close>

theorem index_scan_misses_mixed_numbers_witness:
  "\<exists>rs cs. snd (execute_index_scan (\<lambda>_. Inl ''no regex'') id (example_query_ex (fst example_mixed_run))
      [example_mixed_doc] (query_with_filter (QGt ''n'' (Float64 0x4004000000000000)))) = Inr rs \<and>
    execute_collection_scan (\<lambda>_. Inl ''no regex'') [example_mixed_doc] (QGt ''n'' (Float64 0x4004000000000000)) = Inr cs \<and>
    example_mixed_doc \<in> set cs \<and> example_mixed_doc \<notin> set rs"
proof -
  let ?q = "query_with_filter (QGt ''n'' (Float64 0x4004000000000000))"
  have "snd example_mixed_run = by_id [example_mixed_doc]"
    by (simp add: example_mixed_run_def by_id_def example_ix_defs example_mixed_doc_def)
  then have run: "foldl index_step
     (foldl manager_create_index (manager_new ''c'') [index_set_unique (index_single ''n'')], []) [IxInsert 1 example_mixed_doc] =
     (fst example_mixed_run, by_id [example_mixed_doc])"
    by (simp only: example_mixed_run_def [symmetric] prod_eq_iff fst_conv snd_conv)
  have cfg: "map_option (\<lambda>ix. (bi_fields ix, bi_sparse ix)) (get_index (fst example_mixed_run) ''idx_n'') = Some ([''n''], False)"
    by (simp add: example_mixed_run_def example_ix_defs example_mixed_doc_def)
  obtain ix where ix: "get_index (fst example_mixed_run) ''idx_n'' = Some ix"
    "index_exact ix (by_id [example_mixed_doc])" "bi_fields ix = [''n'']" "\<not> bi_sparse ix" by (rule example_run_index [OF run cfg])
  have d: "get_by_path example_mixed_doc ''n'' = Some (Int32 5)"
    by (simp add: example_mixed_doc_def with_id_def get_by_path_def)
  have c: "compare_values (Int32 5) (Float64 0x4004000000000000) = Greater"
  proof -
    have "floorlog 2 5 = 3" by (simp add: compute_floorlog)
    then show ?thesis
      by (simp add: compare_values_def i32_as_f64_def f64_of_int_def f64_of_nat_def Let_def f64_partial_cmp_def
          f64_is_nan_def f64_key_def f64_neg_def f64_mag_def cmp_of_def)
  qed
  have f: "q_filter ?q = QGt ''n'' (Float64 0x4004000000000000)" by (simp add: query_with_filter_def)
  show ?thesis
    using index_scan_misses_mixed_numbers [OF ix(1,2) _ ix(3,4) f _ d c, of id "example_query_ex (fst example_mixed_run)"
      "\<lambda>_. Inl ''no regex''"]
    by (simp add: f example_plan get_filter_field_def is_indexable_def) (simp add: example_query_ex_def)
qed
end
