(* ===== verification/Query_Results.thy ===== *)
theory Query_Results
  imports Query_Index "HOL-Library.Option_ord"
begin

text \<open>
  What a query returns: the executor of a fresh planner, and the order and the page of the result.
\<close>

section \<open>The executor as it is built\<close>

lemma first_index_new [simp]: "first_index selector_new f = None"
  by (simp add: first_index_def find_indexes_for_field_def selector_new_def)

lemma fresh_plan [simp]: "use_index (create_plan ord selector_new q) = None"
  by (cases "q_filter q")
    (simp_all add: create_plan_def analyze_filter_for_index_def Let_def List.map_filter_def)

text \<open>
  The executor plans with the selector of a fresh planner, which knows no index, and attaching
  an index manager does not change that: every query is a collection scan followed by sorting,
  paging and projection, and the indexes are not consulted.
\<close>

theorem query_ignores_indexes:
  "execute rx ord now (set_index_manager executor_new m) ds q =
     (set_index_manager executor_new m,
      map_sum id (\<lambda>rs. apply_post_processing now rs q) (execute_collection_scan rx ds (q_filter q)))"
  by (simp add: execute_def set_index_manager_def executor_new_def)

section \<open>Sorting\<close>

text \<open>The reference order of documents: lexicographic on the index keys of the sort fields, a missing field first.\<close>

definition field_key :: "string \<Rightarrow> document \<Rightarrow> index_value option" where
  "field_key f d = (case get_by_path d f of
      None \<Rightarrow> None | Some v \<Rightarrow> (case index_value_from v of Inl _ \<Rightarrow> None | Inr a \<Rightarrow> Some a))"

fun key_le :: "sort_spec \<Rightarrow> document \<Rightarrow> document \<Rightarrow> bool" where
  "key_le [] a b = True"
| "key_le ((f, ord) # fs) a b =
     (field_key f a = field_key f b \<and> key_le fs a b \<or>
      (case ord of Ascending \<Rightarrow> field_key f a < field_key f b | Descending \<Rightarrow> field_key f b < field_key f a))"

lemma key_le_total: "key_le s a b \<or> key_le s b a"
  by (induction s a b rule: key_le.induct) (auto split: sort_order.splits)

lemma key_le_trans: "key_le s a b \<Longrightarrow> key_le s b c \<Longrightarrow> key_le s a c"
  by (induction s a b arbitrary: c rule: key_le.induct) (force split: sort_order.splits)+

definition sortable :: "sort_spec \<Rightarrow> document list \<Rightarrow> bool" where
  "sortable s ds = list_all (\<lambda>(f, _). list_all (\<lambda>a. list_all (\<lambda>b.
     case (get_by_path a f, get_by_path b f) of (Some x, Some y) \<Rightarrow> order_agrees x y | _ \<Rightarrow> True) ds) ds) s"

lemma option_cmp_key:
  assumes "case (get_by_path a f, get_by_path b f) of (Some x, Some y) \<Rightarrow> order_agrees x y | _ \<Rightarrow> True"
    and "case (get_by_path a f, get_by_path a f) of (Some x, Some y) \<Rightarrow> order_agrees x y | _ \<Rightarrow> True"
    and "case (get_by_path b f, get_by_path b f) of (Some x, Some y) \<Rightarrow> order_agrees x y | _ \<Rightarrow> True"
  shows "option_cmp (get_by_path a f) (get_by_path b f) = cmp_of (field_key f a) (field_key f b)"
proof (cases "get_by_path a f")
  case None
  then show ?thesis using assms(3)
    by (cases "get_by_path b f") (auto simp: option_cmp_def field_key_def cmp_of_def order_agrees_def split: sum.splits)
next
  case (Some x)
  then obtain k where k: "index_value_from x = Inr k" using assms(2) by (auto simp: order_agrees_def split: sum.splits)
  show ?thesis
  proof (cases "get_by_path b f")
    case None
    with Some k show ?thesis by (auto simp: option_cmp_def field_key_def cmp_of_def)
  next
    case (Some y)
    then obtain l where l: "index_value_from y = Inr l" using assms(3) by (auto simp: order_agrees_def split: sum.splits)
    have "order_agrees x y" using assms(1) Some \<open>get_by_path a f = Some x\<close> by simp
    from compare_values_key [OF this k l] Some \<open>get_by_path a f = Some x\<close> k l show ?thesis
      by (simp add: option_cmp_def field_key_def cmp_of_def)
  qed
qed

lemma compare_docs_key:
  assumes "sortable s ds" and "a \<in> set ds" and "b \<in> set ds"
  shows "compare_docs s a b \<noteq> Greater \<longleftrightarrow> key_le s a b"
  using assms(1)
proof (induction s)
  case (Cons p s)
  obtain f ord where p: "p = (f, ord)" by fastforce
  have "option_cmp (get_by_path a f) (get_by_path b f) = cmp_of (field_key f a) (field_key f b)"
    using Cons.prems assms(2,3) by (intro option_cmp_key) (auto simp: sortable_def list_all_iff p)
  moreover have "compare_docs s a b \<noteq> Greater \<longleftrightarrow> key_le s a b"
    using Cons by (simp add: sortable_def)
  ultimately show ?case
    by (cases ord) (auto simp: p order_cmp_def cmp_of_def Let_def)
qed simp

lemma insort_by_cong:
  "(\<And>y. y \<in> set xs \<Longrightarrow> le x y = le' x y) \<Longrightarrow> insort_by le x xs = insort_by le' x xs"
  by (induction xs) auto

lemma sort_by_cong:
  "(\<And>x y. x \<in> set xs \<Longrightarrow> y \<in> set xs \<Longrightarrow> le x y = le' x y) \<Longrightarrow> sort_by le xs = sort_by le' xs"
proof (induction xs)
  case (Cons x xs)
  then have "sort_by le xs = sort_by le' xs" by simp
  moreover have "insort_by le x (sort_by le' xs) = insort_by le' x (sort_by le' xs)"
    using Cons.prems by (intro insort_by_cong) simp
  ultimately show ?case by (simp add: sort_by_def)
qed (simp add: sort_by_def)

lemma apply_sort_key: "sortable s ds \<Longrightarrow> apply_sort ds s = sort_by (key_le s) ds"
  unfolding apply_sort_def by (rule sort_by_cong) (rule compare_docs_key)

lemma sortable_filter: "sortable s ds \<Longrightarrow> sortable s (filter P ds)"
  by (auto simp: sortable_def list_all_iff)

definition query_page :: "query \<Rightarrow> 'a list \<Rightarrow> 'a list" where
  "query_page q xs =
     (case q_limit q of None \<Rightarrow> id | Some n \<Rightarrow> take n) ((case q_skip q of None \<Rightarrow> id | Some n \<Rightarrow> drop n) xs)"


text \<open>Two documents in descending order of a field, the first one skipped.\<close>

definition example_page_query :: query where
  "example_page_query = \<lparr>q_filter = QExists ''n'' True, q_projection = None, q_sort = Some [(''n'', Descending)],
     q_skip = Some 1, q_limit = Some 5\<rparr>"

lemmas example_page_defs = example_page_query_def example_ix_doc_def with_id_def get_by_path_def
  order_agrees_def index_value_from_def not_nan_def is_binary_def sortable_def field_key_def


end
