(* ===== verification/Query_Parser.thy ===== *)
theory Query_Parser
  imports Query_Engine Json_Ved
begin

text \<open>
  The parser of queries (\<open>veddb-core/src/query/parser.rs\<close>). The JSON text is read by \<open>serde_json\<close>,
  the argument \<open>from_str\<close>.
\<close>

section \<open>The parser\<close>

datatype query_parse_error =
    InvalidJson string
  | InvalidFormat string
  | UnsupportedOperator string
  | ValidationError string

text \<open>\<open>collect\<close> of a sequence of results: the first error or all values.\<close>

fun collect_results :: "('e, 'a) result list \<Rightarrow> ('e, 'a list) result" where
  "collect_results [] = Inr []"
| "collect_results (r # rs) =
     (case r of Inl e \<Rightarrow> Inl e | Inr x \<Rightarrow> (case collect_results rs of Inl e \<Rightarrow> Inl e | Inr xs \<Rightarrow> Inr (x # xs)))"

definition number_to_value :: "json_number \<Rightarrow> (query_parse_error, ved_value) result" where
  "number_to_value n =
     (case num_i64 n of
        Some i \<Rightarrow> if - (2 ^ 31) \<le> sint i \<and> sint i \<le> 2 ^ 31 - 1 then Inr (Int32 (ucast i)) else Inr (Int64 i)
      | None \<Rightarrow> (case num_f64 n of Some f \<Rightarrow> Inr (Float64 f) | None \<Rightarrow> Inl (InvalidFormat ''Invalid number format'')))"

fun json_to_value :: "json \<Rightarrow> (query_parse_error, ved_value) result"
and json_to_values :: "json list \<Rightarrow> (query_parse_error, ved_value list) result"
and json_to_entries :: "(string \<times> json) list \<Rightarrow> ved_value btree_map \<Rightarrow> (query_parse_error, ved_value btree_map) result"
where
  "json_to_value JNull = Inr Null"
| "json_to_value (JBool b) = Inr (Bool b)"
| "json_to_value (JNumber n) = number_to_value n"
| "json_to_value (JString s) = Inr (Str s)"
| "json_to_value (JArray js) = map_sum id Array (json_to_values js)"
| "json_to_value (JObject es) = map_sum id Object (json_to_entries es [])"
| "json_to_values [] = Inr []"
| "json_to_values (j # js) =
     (case json_to_value j of
        Inl e \<Rightarrow> Inl e | Inr v \<Rightarrow> (case json_to_values js of Inl e \<Rightarrow> Inl e | Inr vs \<Rightarrow> Inr (v # vs)))"
| "json_to_entries [] m = Inr m"
| "json_to_entries ((k, j) # es) m =
     (case json_to_value j of Inl e \<Rightarrow> Inl e | Inr v \<Rightarrow> json_to_entries es (bt_insert k v m))"

definition with_value :: "(ved_value \<Rightarrow> query_filter) \<Rightarrow> json \<Rightarrow> (query_parse_error, query_filter) result" where
  "with_value c j = map_sum id c (json_to_value j)"

definition with_values :: "(ved_value list \<Rightarrow> query_filter) \<Rightarrow> string \<Rightarrow> json \<Rightarrow> (query_parse_error, query_filter) result" where
  "with_values c op j =
     (case j of JArray js \<Rightarrow> map_sum id c (json_to_values js) | _ \<Rightarrow> Inl (InvalidFormat (op @ '' must be an array'')))"

text \<open>One operator of a field condition; \<open>es\<close> are all entries of the condition.\<close>

definition parse_operator ::
  "string \<Rightarrow> (string \<times> json) list \<Rightarrow> string \<Rightarrow> json \<Rightarrow> (query_parse_error, query_filter) result"
where
  "parse_operator field es op j =
     (if op = ''$eq'' then with_value (QEq field) j
      else if op = ''$ne'' then with_value (QNe field) j
      else if op = ''$gt'' then with_value (QGt field) j
      else if op = ''$gte'' then with_value (QGte field) j
      else if op = ''$lt'' then with_value (QLt field) j
      else if op = ''$lte'' then with_value (QLte field) j
      else if op = ''$in'' then with_values (QIn field) op j
      else if op = ''$nin'' then with_values (QNin field) op j
      else if op = ''$exists'' then
        (case j of JBool b \<Rightarrow> Inr (QExists field b) | _ \<Rightarrow> Inl (InvalidFormat ''$exists must be a boolean''))
      else if op = ''$regex'' then
        (case j of
           JString p \<Rightarrow> Inr (QRegex field p (case map_of es ''$options'' of None \<Rightarrow> None | Some v \<Rightarrow> json_as_str v))
         | _ \<Rightarrow> Inl (InvalidFormat ''$regex must be a string''))
      else Inl (UnsupportedOperator op))"

definition one_or_and :: "query_filter list \<Rightarrow> query_filter" where
  "one_or_and fs = (case fs of [f] \<Rightarrow> f | _ \<Rightarrow> QAnd fs)"

definition parse_field_condition :: "string \<Rightarrow> json \<Rightarrow> (query_parse_error, query_filter) result" where
  "parse_field_condition field j =
     (case j of
        JObject es \<Rightarrow>
          if es = [] then with_value (QEq field) j
          else map_sum id one_or_and (collect_results (map (\<lambda>(op, v). parse_operator field es op v) es))
      | _ \<Rightarrow> with_value (QEq field) j)"

text \<open>
  A logical operator ends the loop over the entries: the conditions collected before it and the
  entries after it are not part of the filter.
\<close>

fun parse_filter :: "json \<Rightarrow> (query_parse_error, query_filter) result"
and parse_filters :: "json list \<Rightarrow> (query_parse_error, query_filter list) result"
and parse_entries :: "(string \<times> json) list \<Rightarrow> query_filter list \<Rightarrow> (query_parse_error, query_filter) result"
where
  "parse_filter (JObject es) = (if es = [] then Inr QEmpty else parse_entries es [])"
| "parse_filter _ = Inl (InvalidFormat ''Filter must be an object'')"
| "parse_filters [] = Inr []"
| "parse_filters (j # js) =
     (case parse_filter j of
        Inl e \<Rightarrow> Inl e | Inr f \<Rightarrow> (case parse_filters js of Inl e \<Rightarrow> Inl e | Inr fs \<Rightarrow> Inr (f # fs)))"
| "parse_entries [] fs = Inr (one_or_and fs)"
| "parse_entries ((k, j) # es) fs =
     (if take 1 k = ''$'' then
        if k = ''$and'' then
          (case j of JArray js \<Rightarrow> map_sum id QAnd (parse_filters js) | _ \<Rightarrow> Inl (InvalidFormat ''$and must be an array''))
        else if k = ''$or'' then
          (case j of JArray js \<Rightarrow> map_sum id QOr (parse_filters js) | _ \<Rightarrow> Inl (InvalidFormat ''$or must be an array''))
        else if k = ''$not'' then map_sum id QNot (parse_filter j)
        else Inl (UnsupportedOperator k)
      else (case parse_field_condition k j of Inl e \<Rightarrow> Inl e | Inr f \<Rightarrow> parse_entries es (fs @ [f])))"

definition projection_flag :: "json \<Rightarrow> (query_parse_error, bool) result" where
  "projection_flag j =
     (case j of
        JNumber n \<Rightarrow>
          (case num_i64 n of
             Some i \<Rightarrow> if i = 0 then Inr False else if i = 1 then Inr True
                       else Inl (InvalidFormat ''Projection value must be 0 or 1'')
           | None \<Rightarrow> Inl (InvalidFormat ''Projection value must be 0 or 1''))
      | JBool b \<Rightarrow> Inr b
      | _ \<Rightarrow> Inl (InvalidFormat ''Projection value must be 0, 1, true, or false''))"

fun projection_entries :: "(string \<times> json) list \<Rightarrow> projection \<Rightarrow> (query_parse_error, projection) result" where
  "projection_entries [] p = Inr p"
| "projection_entries ((f, j) # es) p =
     (case projection_flag j of
        Inl e \<Rightarrow> Inl e | Inr b \<Rightarrow> projection_entries es (if b then projection_include p f else projection_exclude p f))"

definition parse_projection :: "json \<Rightarrow> (query_parse_error, projection) result" where
  "parse_projection j =
     (case j of JObject es \<Rightarrow> projection_entries es [] | _ \<Rightarrow> Inl (InvalidFormat ''Projection must be an object''))"

definition parse_order :: "json \<Rightarrow> (query_parse_error, sort_order) result" where
  "parse_order j =
     (case j of
        JNumber n \<Rightarrow>
          (case num_i64 n of
             Some i \<Rightarrow> if i = 1 then Inr Ascending else if i = - 1 then Inr Descending
                       else Inl (InvalidFormat ''Sort value must be 1 or -1'')
           | None \<Rightarrow> Inl (InvalidFormat ''Sort value must be 1 or -1''))
      | JString s \<Rightarrow>
          if s = ''asc'' \<or> s = ''ascending'' then Inr Ascending
          else if s = ''desc'' \<or> s = ''descending'' then Inr Descending
          else Inl (InvalidFormat ''Sort value must be asc or desc'')
      | _ \<Rightarrow> Inl (InvalidFormat ''Sort value must be 1, -1, asc, or desc''))"

fun sort_entries :: "(string \<times> json) list \<Rightarrow> sort_spec \<Rightarrow> (query_parse_error, sort_spec) result" where
  "sort_entries [] s = Inr s"
| "sort_entries ((f, j) # es) s =
     (case parse_order j of Inl e \<Rightarrow> Inl e | Inr ord \<Rightarrow> sort_entries es (sort_add s f ord))"

definition parse_sort :: "json \<Rightarrow> (query_parse_error, sort_spec) result" where
  "parse_sort j = (case j of JObject es \<Rightarrow> sort_entries es [] | _ \<Rightarrow> Inl (InvalidFormat ''Sort must be an object''))"

text \<open>An optional part of a query: an error of its parser ends the parse.\<close>

definition optional_part ::
  "(string \<times> json) list \<Rightarrow> string \<Rightarrow> (json \<Rightarrow> (query_parse_error, 'a) result) \<Rightarrow> (query_parse_error, 'a option) result"
where
  "optional_part es k p = (case map_of es k of None \<Rightarrow> Inr None | Some j \<Rightarrow> map_sum id Some (p j))"

definition parse_count :: "string \<Rightarrow> json \<Rightarrow> (query_parse_error, nat) result" where
  "parse_count k j = (case json_as_u64 j of None \<Rightarrow> Inl (InvalidFormat (k @ '' must be a number'')) | Some n \<Rightarrow> Inr (unat n))"

definition parse_from_value :: "json \<Rightarrow> (query_parse_error, query) result" where
  "parse_from_value j =
     (case j of
        JObject es \<Rightarrow>
          (case optional_part es ''filter'' parse_filter of Inl e \<Rightarrow> Inl e | Inr f \<Rightarrow>
          (case optional_part es ''projection'' parse_projection of Inl e \<Rightarrow> Inl e | Inr p \<Rightarrow>
          (case optional_part es ''sort'' parse_sort of Inl e \<Rightarrow> Inl e | Inr s \<Rightarrow>
          (case optional_part es ''skip'' (parse_count ''skip'') of Inl e \<Rightarrow> Inl e | Inr sk \<Rightarrow>
          (case optional_part es ''limit'' (parse_count ''limit'') of Inl e \<Rightarrow> Inl e | Inr l \<Rightarrow>
             Inr (query_new\<lparr>q_filter := (case f of None \<Rightarrow> QEmpty | Some g \<Rightarrow> g), q_projection := p, q_sort := s,
                    q_skip := sk, q_limit := l\<rparr>))))))
      | _ \<Rightarrow> Inl (InvalidFormat ''Query must be an object''))"

definition parse_query :: "(string \<Rightarrow> (string, json) result) \<Rightarrow> string \<Rightarrow> (query_parse_error, query) result" where
  "parse_query from_str s = (case from_str s of Inl e \<Rightarrow> Inl (InvalidJson e) | Inr j \<Rightarrow> parse_from_value j)"

definition validate_query :: "query \<Rightarrow> (query_parse_error, unit) result" where
  "validate_query q =
     (if (case q_skip q of None \<Rightarrow> False | Some n \<Rightarrow> 1000000 < n)
      then Inl (ValidationError ''Skip value too large (max: 1,000,000)'')
      else if (case q_limit q of None \<Rightarrow> False | Some n \<Rightarrow> 100000 < n)
      then Inl (ValidationError ''Limit value too large (max: 100,000)'')
      else case q_projection q of
             None \<Rightarrow> Inr ()
           | Some p \<Rightarrow>
               if is_inclusion p \<and> is_exclusion p \<and> list_ex (\<lambda>(k, t). k \<noteq> ''_id'' \<and> t = Include) p \<and>
                  list_ex (\<lambda>(_, t). t = Exclude) p
               then Inl (ValidationError ''Cannot mix inclusion and exclusion in projection (except _id)'')
               else Inr ())"

section \<open>What can be written as a query\<close>

text \<open>The JSON form of a value: integers as numbers, nothing for binary data, times and object ids.\<close>

fun jsonable :: "ved_value \<Rightarrow> bool" where
  "jsonable Null = True"
| "jsonable (Bool b) = True"
| "jsonable (Int32 i) = True"
| "jsonable (Int64 i) = (\<not> (- (2 ^ 31) \<le> sint i \<and> sint i \<le> 2 ^ 31 - 1))"
| "jsonable (Float64 f) = True"
| "jsonable (Str s) = True"
| "jsonable (Array vs) = list_all jsonable vs"
| "jsonable (Object es) = (bt_sorted es \<and> list_all (\<lambda>(_, v). jsonable v) es)"
| "jsonable _ = False"

fun value_json :: "ved_value \<Rightarrow> json" where
  "value_json (Bool b) = JBool b"
| "value_json (Int32 i) = JNumber \<lparr>num_i64 = Some (scast i), num_u64 = None, num_f64 = None\<rparr>"
| "value_json (Int64 i) = JNumber \<lparr>num_i64 = Some i, num_u64 = None, num_f64 = None\<rparr>"
| "value_json (Float64 f) = JNumber \<lparr>num_i64 = None, num_u64 = None, num_f64 = Some f\<rparr>"
| "value_json (Str s) = JString s"
| "value_json (Array vs) = JArray (map value_json vs)"
| "value_json (Object es) = JObject (map (\<lambda>(k, v). (k, value_json v)) es)"
| "value_json _ = JNull"

lemma json_to_values_map:
  "(\<And>v. v \<in> set vs \<Longrightarrow> json_to_value (value_json v) = Inr v) \<Longrightarrow> json_to_values (map value_json vs) = Inr vs"
  by (induction vs) auto

lemma json_to_entries_map:
  assumes "\<And>k v. (k, v) \<in> set es \<Longrightarrow> json_to_value (value_json v) = Inr v" and "bt_sorted (m @ es)"
  shows "json_to_entries (map (\<lambda>(k, v). (k, value_json v)) es) m = Inr (m @ es)"
  using assms
proof (induction es arbitrary: m)
  case (Cons e es)
  obtain k v where e: "e = (k, v)" by fastforce
  have "bt_insert k v m = m @ [(k, v)]"
    using Cons.prems(2) by (intro bt_insert_last) (auto simp: bt_sorted_def sorted_wrt_append e)
  moreover have "json_to_entries (map (\<lambda>(k, v). (k, value_json v)) es) (m @ [(k, v)]) = Inr ((m @ [(k, v)]) @ es)"
    using Cons.prems by (intro Cons.IH) (auto simp: e)
  ultimately show ?case using Cons.prems(1) [of k v] by (simp add: e)
qed simp

lemma value_json_roundtrip: "jsonable v \<Longrightarrow> json_to_value (value_json v) = Inr v"
proof (induction v rule: jsonable.induct)
  case (3 i)
  have "sint (scast i :: u64) = sint i" by (rule sint_scast_u32)
  moreover have "- (2 ^ 31) \<le> sint i" "sint i < 2 ^ 31" using sint_ge [of i] sint_lt [of i] by simp_all
  moreover have "ucast (scast i :: u64) = i" by (rule bit_word_eqI) (simp add: bit_ucast_iff bit_signed_iff)
  ultimately show ?case by (simp add: number_to_value_def)
next
  case (4 i)
  then show ?case by (auto simp: number_to_value_def)
next
  case (5 f)
  then show ?case by (simp add: number_to_value_def)
next
  case (7 vs)
  then show ?case by (simp add: json_to_values_map list_all_iff)
next
  case (8 es)
  then have "json_to_entries (map (\<lambda>(k, v). (k, value_json v)) es) [] = Inr ([] @ es)"
    by (intro json_to_entries_map) (auto simp: list_all_iff)
  then show ?case by simp
qed simp_all

definition plain_field :: "string \<Rightarrow> bool" where
  "plain_field f \<longleftrightarrow> take 1 f \<noteq> ''$''"

fun filter_jsonable :: "query_filter \<Rightarrow> bool" where
  "filter_jsonable QEmpty = True"
| "filter_jsonable (QEq f v) = (plain_field f \<and> jsonable v)"
| "filter_jsonable (QNe f v) = (plain_field f \<and> jsonable v)"
| "filter_jsonable (QGt f v) = (plain_field f \<and> jsonable v)"
| "filter_jsonable (QGte f v) = (plain_field f \<and> jsonable v)"
| "filter_jsonable (QLt f v) = (plain_field f \<and> jsonable v)"
| "filter_jsonable (QLte f v) = (plain_field f \<and> jsonable v)"
| "filter_jsonable (QIn f vs) = (plain_field f \<and> list_all jsonable vs)"
| "filter_jsonable (QNin f vs) = (plain_field f \<and> list_all jsonable vs)"
| "filter_jsonable (QExists f b) = plain_field f"
| "filter_jsonable (QRegex f p opts) = (plain_field f \<and> opts = None)"
| "filter_jsonable (QAnd fs) = list_all filter_jsonable fs"
| "filter_jsonable (QOr fs) = list_all filter_jsonable fs"
| "filter_jsonable (QNot f) = filter_jsonable f"

fun filter_json :: "query_filter \<Rightarrow> json" where
  "filter_json QEmpty = JObject []"
| "filter_json (QEq f v) = JObject [(f, JObject [(''$eq'', value_json v)])]"
| "filter_json (QNe f v) = JObject [(f, JObject [(''$ne'', value_json v)])]"
| "filter_json (QGt f v) = JObject [(f, JObject [(''$gt'', value_json v)])]"
| "filter_json (QGte f v) = JObject [(f, JObject [(''$gte'', value_json v)])]"
| "filter_json (QLt f v) = JObject [(f, JObject [(''$lt'', value_json v)])]"
| "filter_json (QLte f v) = JObject [(f, JObject [(''$lte'', value_json v)])]"
| "filter_json (QIn f vs) = JObject [(f, JObject [(''$in'', JArray (map value_json vs))])]"
| "filter_json (QNin f vs) = JObject [(f, JObject [(''$nin'', JArray (map value_json vs))])]"
| "filter_json (QExists f b) = JObject [(f, JObject [(''$exists'', JBool b)])]"
| "filter_json (QRegex f p opts) = JObject [(f, JObject [(''$regex'', JString p)])]"
| "filter_json (QAnd fs) = JObject [(''$and'', JArray (map filter_json fs))]"
| "filter_json (QOr fs) = JObject [(''$or'', JArray (map filter_json fs))]"
| "filter_json (QNot f) = JObject [(''$not'', filter_json f)]"

lemma parse_filters_map:
  "(\<And>f. f \<in> set fs \<Longrightarrow> parse_filter (filter_json f) = Inr f) \<Longrightarrow> parse_filters (map filter_json fs) = Inr fs"
  by (induction fs) auto

lemma values_json_roundtrip: "list_all jsonable vs \<Longrightarrow> json_to_values (map value_json vs) = Inr vs"
  by (rule json_to_values_map) (simp add: value_json_roundtrip list_all_iff)

lemmas parse_condition_defs = plain_field_def parse_field_condition_def parse_operator_def with_value_def
  with_values_def one_or_and_def value_json_roundtrip values_json_roundtrip



section \<open>What the parser drops and rejects\<close>

text \<open>
  Conditions beside a logical operator are dropped: what follows the operator in the map is
  never looked at, and the conditions before it are discarded, so \<open>{"$or": [...], "owner": "me"}\<close> selects
  documents of every owner.
\<close>

theorem logical_operator_drops_conditions:
  assumes "k \<in> {''$and'', ''$or'', ''$not''}"
    and "list_all (\<lambda>(f, j). plain_field f \<and> (\<exists>g. parse_field_condition f j = Inr g)) before"
  shows "parse_filter (JObject (before @ (k, j) # after)) = parse_filter (JObject [(k, j)])"
proof -
  have k: "parse_entries ((k, j) # es) fs = parse_entries [(k, j)] []" for es fs
    using assms(1) by auto
  have "parse_entries (before @ (k, j) # after) fs = parse_entries [(k, j)] []" for fs
    using assms(2)
  proof (induction before arbitrary: fs)
    case Nil
    then show ?case using k by simp
  next
    case (Cons p before)
    then show ?case by (cases p) (auto simp: plain_field_def)
  qed
  then show ?thesis by simp
qed

theorem logical_operator_drops_conditions_witness:
  "parse_filter (JObject [(''$or'', JArray [JObject [(''a'', JNull)]]), (''owner'', JString ''me'')]) =
     Inr (QOr [QEq ''a'' Null])"
  using logical_operator_drops_conditions [of "''$or''" "[]" "JArray [JObject [(''a'', JNull)]]" "[(''owner'', JString ''me'')]"]
  by (simp add: parse_condition_defs)

lemma collect_results_error: "Inl e \<in> set rs \<Longrightarrow> \<exists>e. collect_results rs = Inl e"
  by (induction rs) (auto split: sum.splits)

text \<open>
  A regular expression with options is rejected: \<open>$options\<close> is read beside \<open>$regex\<close>, but the loop
  over the operators has no case for it.
\<close>

theorem regex_options_rejected:
  assumes "(''$options'', v) \<in> set es"
  shows "\<exists>e. parse_field_condition f (JObject es) = Inl e"
proof -
  have "parse_operator f es ''$options'' v = Inl (UnsupportedOperator ''$options'')" by (simp add: parse_operator_def)
  with assms have "Inl (UnsupportedOperator ''$options'') \<in> set (map (\<lambda>(op, v). parse_operator f es op v) es)"
    by force
  from collect_results_error [OF this] assms show ?thesis by (auto simp: parse_field_condition_def)
qed

theorem regex_options_rejected_witness:
  "\<exists>e. parse_field_condition ''name'' (JObject [(''$options'', JString ''i''), (''$regex'', JString ''^a'')]) = Inl e"
  by (rule regex_options_rejected [of "JString ''i''"]) simp

end
