(* ===== verification/Auth_Rbac.thy ===== *)
theory Auth_Rbac
  imports VedPrelude
begin

text \<open>
  Roles, operations, resources, permissions and users (\<open>veddb-core/src/auth/rbac.rs\<close>, \<open>user.rs\<close>). Users are
  those of the build without \<open>rocksdb\<close>, a map by name. \<open>bcrypt\<close> is the pair of arguments \<open>bhash\<close>
  and \<open>bverify\<close>. Hash maps and sets are lists; what is read from them does not depend on the order.
\<close>

section \<open>Roles and operations\<close>

datatype role = Admin | ReadWrite | ReadOnly

definition role_as_str :: "role \<Rightarrow> string" where
  "role_as_str r = (case r of Admin \<Rightarrow> ''admin'' | ReadWrite \<Rightarrow> ''read_write'' | ReadOnly \<Rightarrow> ''read_only'')"

definition role_from_str :: "string \<Rightarrow> role option" where
  "role_from_str s =
     (if s = ''admin'' then Some Admin else if s = ''read_write'' then Some ReadWrite
      else if s = ''read_only'' then Some ReadOnly else None)"

datatype operation =
    OpRead | OpWrite | OpDelete
  | CreateCollection | DropCollection | ListCollections
  | CreateIndex | DropIndex | ListIndexes
  | CreateUser | UpdateUser | DeleteUser | ListUsers | ChangePassword
  | OpBackup | OpRestore | ViewMetrics | ViewLogs | ConfigureServer
  | OpSubscribe | OpPublish
  | FlushCache | ViewCacheStats
  | ConfigureReplication | ViewReplicationStatus

definition operation_names :: "(operation \<times> string) list" where
  "operation_names =
     [(OpRead, ''read''), (OpWrite, ''write''), (OpDelete, ''delete''), (CreateCollection, ''create_collection''),
      (DropCollection, ''drop_collection''), (ListCollections, ''list_collections''), (CreateIndex, ''create_index''),
      (DropIndex, ''drop_index''), (ListIndexes, ''list_indexes''), (CreateUser, ''create_user''),
      (UpdateUser, ''update_user''), (DeleteUser, ''delete_user''), (ListUsers, ''list_users''),
      (ChangePassword, ''change_password''), (OpBackup, ''backup''), (OpRestore, ''restore''),
      (ViewMetrics, ''view_metrics''), (ViewLogs, ''view_logs''), (ConfigureServer, ''configure_server''),
      (OpSubscribe, ''subscribe''), (OpPublish, ''publish''), (FlushCache, ''flush_cache''),
      (ViewCacheStats, ''view_cache_stats''), (ConfigureReplication, ''configure_replication''),
      (ViewReplicationStatus, ''view_replication_status'')]"

definition operation_as_str :: "operation \<Rightarrow> string" where
  "operation_as_str op = the (map_of operation_names op)"

definition operation_from_str :: "string \<Rightarrow> operation option" where
  "operation_from_str s = map_of (map (\<lambda>(op, n). (n, op)) operation_names) s"

lemma role_str_roundtrip: "role_from_str (role_as_str r) = Some r"
  by (cases r) (simp_all add: role_from_str_def role_as_str_def)

lemma operation_str_roundtrip: "operation_from_str (operation_as_str op) = Some op"
  by (cases op) (simp_all add: operation_from_str_def operation_as_str_def operation_names_def)

section \<open>Resources and access lists\<close>

datatype resource_type = RCollection | RIndex | RUser | RDatabase | RChannel

record resource =
  resource_type :: resource_type
  resource_id :: string

definition resource_collection :: "string \<Rightarrow> resource" where
  "resource_collection n = \<lparr>resource_type = RCollection, resource_id = n\<rparr>"

definition resource_index :: "string \<Rightarrow> string \<Rightarrow> resource" where
  "resource_index c n = \<lparr>resource_type = RIndex, resource_id = c @ '':'' @ n\<rparr>"

definition resource_user :: "string \<Rightarrow> resource" where
  "resource_user n = \<lparr>resource_type = RUser, resource_id = n\<rparr>"

definition resource_database :: "string \<Rightarrow> resource" where
  "resource_database n = \<lparr>resource_type = RDatabase, resource_id = n\<rparr>"

definition resource_channel :: "string \<Rightarrow> resource" where
  "resource_channel n = \<lparr>resource_type = RChannel, resource_id = n\<rparr>"

record permission =
  perm_operation :: operation
  perm_resource :: "resource option"
  perm_conditions :: "string list"

record acl_entry =
  acl_principal :: string
  acl_permissions :: "permission list"
  acl_deny :: bool

record rbac_system =
  role_permissions :: "(role \<times> operation list) list"
  resource_acls :: "(resource \<times> acl_entry list) list"

definition admin_permissions :: "operation list" where
  "admin_permissions = map fst operation_names"

definition readwrite_permissions :: "operation list" where
  "readwrite_permissions =
     [OpRead, OpWrite, OpDelete, ListCollections, ListIndexes, ChangePassword, OpSubscribe, OpPublish,
      ViewCacheStats, ViewReplicationStatus]"

definition readonly_permissions :: "operation list" where
  "readonly_permissions =
     [OpRead, ListCollections, ListIndexes, ChangePassword, OpSubscribe, ViewCacheStats, ViewReplicationStatus]"

definition rbac_new :: rbac_system where
  "rbac_new = \<lparr>role_permissions = [(Admin, admin_permissions), (ReadWrite, readwrite_permissions), (ReadOnly, readonly_permissions)],
     resource_acls = []\<rparr>"

datatype auth_error =
    UnknownRole role
  | PermissionDenied role operation
  | AclDenied string
  | AclNoPermission string
  | UserExists string
  | UserMissing string
  | UserDisabled string
  | InvalidPassword string
  | LastAdmin
  | HashError
  | TokenError
  | TokenExpired
  | TokenRevokedError
  | InvalidRole string
  | InvalidTimestamp

definition check_permission :: "rbac_system \<Rightarrow> role \<Rightarrow> operation \<Rightarrow> (auth_error, unit) result" where
  "check_permission s r op =
     (case map_of (role_permissions s) r of
        None \<Rightarrow> Inl (UnknownRole r)
      | Some ops \<Rightarrow> if op \<in> set ops then Inr () else Inl (PermissionDenied r op))"

text \<open>The three flags of the loop over the entries of an access list: allowed, denied, matched.\<close>

fun acl_loop :: "string \<Rightarrow> role \<Rightarrow> operation \<Rightarrow> acl_entry list \<Rightarrow> bool \<times> bool \<times> bool \<Rightarrow> bool \<times> bool \<times> bool" where
  "acl_loop u r op [] fl = fl"
| "acl_loop u r op (e # es) (allowed, denied, matched) =
     (if acl_principal e = u \<or> acl_principal e = role_as_str r then
        (let hit = list_ex (\<lambda>p. perm_operation p = op) (acl_permissions e)
         in acl_loop u r op es (allowed \<or> hit \<and> \<not> acl_deny e, denied \<or> hit \<and> acl_deny e, True))
      else acl_loop u r op es (allowed, denied, matched))"

definition check_resource_permission ::
  "rbac_system \<Rightarrow> string \<Rightarrow> role \<Rightarrow> operation \<Rightarrow> resource \<Rightarrow> (auth_error, unit) result"
where
  "check_resource_permission s u r op res =
     (case check_permission s r op of
        Inl e \<Rightarrow> Inl e
      | Inr _ \<Rightarrow>
          (case map_of (resource_acls s) res of
             None \<Rightarrow> Inr ()
           | Some es \<Rightarrow>
               (let (allowed, denied, matched) = acl_loop u r op es (False, False, False)
                in if denied then Inl (AclDenied u)
                   else if matched \<and> \<not> allowed then Inl (AclNoPermission u)
                   else Inr ())))"

definition add_role_permission :: "rbac_system \<Rightarrow> role \<Rightarrow> operation \<Rightarrow> rbac_system" where
  "add_role_permission s r op =
     s\<lparr>role_permissions := al_put r (List.insert op (case map_of (role_permissions s) r of None \<Rightarrow> [] | Some ops \<Rightarrow> ops))
        (role_permissions s)\<rparr>"

definition remove_role_permission :: "rbac_system \<Rightarrow> role \<Rightarrow> operation \<Rightarrow> rbac_system" where
  "remove_role_permission s r op =
     (case map_of (role_permissions s) r of
        None \<Rightarrow> s | Some ops \<Rightarrow> s\<lparr>role_permissions := al_put r (removeAll op ops) (role_permissions s)\<rparr>)"

definition add_acl_entry :: "rbac_system \<Rightarrow> resource \<Rightarrow> acl_entry \<Rightarrow> rbac_system" where
  "add_acl_entry s res e =
     s\<lparr>resource_acls := al_put res ((case map_of (resource_acls s) res of None \<Rightarrow> [] | Some es \<Rightarrow> es) @ [e]) (resource_acls s)\<rparr>"

definition remove_acl_entries :: "rbac_system \<Rightarrow> resource \<Rightarrow> rbac_system" where
  "remove_acl_entries s res = s\<lparr>resource_acls := al_del res (resource_acls s)\<rparr>"

definition rbac_authorize ::
  "rbac_system \<Rightarrow> string \<Rightarrow> role \<Rightarrow> operation \<Rightarrow> resource option \<Rightarrow> (auth_error, unit) result"
where
  "rbac_authorize s u r op res =
     (case res of Some x \<Rightarrow> check_resource_permission s u r op x | None \<Rightarrow> check_permission s r op)"

definition get_allowed_operations :: "rbac_system \<Rightarrow> role \<Rightarrow> operation list" where
  "get_allowed_operations s r = (case map_of (role_permissions s) r of None \<Rightarrow> [] | Some ops \<Rightarrow> ops)"

definition is_admin_operation :: "operation \<Rightarrow> bool" where
  "is_admin_operation op \<longleftrightarrow>
     op \<in> {CreateUser, UpdateUser, DeleteUser, ListUsers, OpBackup, OpRestore, ViewLogs, ConfigureServer, FlushCache,
           ConfigureReplication}"

section \<open>Decisions\<close>

definition acl_applies :: "string \<Rightarrow> role \<Rightarrow> acl_entry \<Rightarrow> bool" where
  "acl_applies u r e \<longleftrightarrow> acl_principal e = u \<or> acl_principal e = role_as_str r"

definition acl_names :: "operation \<Rightarrow> acl_entry \<Rightarrow> bool" where
  "acl_names op e \<longleftrightarrow> list_ex (\<lambda>p. perm_operation p = op) (acl_permissions e)"

lemma acl_loop_flags:
  "acl_loop u r op es (a, d, m) =
     (a \<or> list_ex (\<lambda>e. acl_applies u r e \<and> acl_names op e \<and> \<not> acl_deny e) es,
      d \<or> list_ex (\<lambda>e. acl_applies u r e \<and> acl_names op e \<and> acl_deny e) es,
      m \<or> list_ex (acl_applies u r) es)"
  by (induction es arbitrary: a d m) (auto simp: acl_applies_def acl_names_def Let_def)

text \<open>
  C36. The decision on a resource: the role must have the operation; then no applicable entry of the
  access list may deny it, and if any entry applies to the user or the role, one of them must allow
  it. Denials win whatever the order of the entries.
\<close>

theorem resource_decision:
  "check_resource_permission s u r op res = Inr () \<longleftrightarrow>
     check_permission s r op = Inr () \<and>
     (case map_of (resource_acls s) res of
        None \<Rightarrow> True
      | Some es \<Rightarrow>
          \<not> list_ex (\<lambda>e. acl_applies u r e \<and> acl_names op e \<and> acl_deny e) es \<and>
          (list_ex (acl_applies u r) es = list_ex (\<lambda>e. acl_applies u r e \<and> acl_names op e \<and> \<not> acl_deny e) es))"
  (is "?L = ?R")
proof (cases "map_of (resource_acls s) res")
  case (Some es)
  have "list_ex (acl_applies u r) es" if "list_ex (\<lambda>e. acl_applies u r e \<and> acl_names op e \<and> \<not> acl_deny e) es"
    using that by (auto simp: list_ex_iff)
  with Some show ?thesis
    by (cases "check_permission s r op") (auto simp: check_resource_permission_def acl_loop_flags Let_def)
qed (auto simp: check_resource_permission_def split: sum.split)

section \<open>Users\<close>

record user_metadata =
  full_name :: "string option"
  email :: "string option"
  um_description :: "string option"
  created_by :: "string option"

definition user_metadata_default :: user_metadata where
  "user_metadata_default = \<lparr>full_name = None, email = None, um_description = None, created_by = None\<rparr>"

record user =
  username :: string
  password_hash :: string
  user_role :: role
  user_created_at :: int
  last_login :: "int option"
  user_enabled :: bool
  user_meta :: user_metadata

type_synonym user_manager = "(string \<times> user) list"

definition user_manager_new :: user_manager where
  "user_manager_new = []"

definition create_user :: "user_manager \<Rightarrow> user \<Rightarrow> user_manager \<times> (auth_error, unit) result" where
  "create_user m u =
     (if map_of m (username u) \<noteq> None then (m, Inl (UserExists (username u)))
      else (al_put (username u) u m, Inr ()))"

definition default_admin :: "int \<Rightarrow> string \<Rightarrow> user" where
  "default_admin now h =
     \<lparr>username = ''admin'', password_hash = h, user_role = Admin, user_created_at = now, last_login = None, user_enabled = True,
      user_meta = user_metadata_default\<lparr>full_name := Some ''Default Administrator'',
        um_description := Some ''Default admin user created on first startup'', created_by := Some ''system''\<rparr>\<rparr>"

definition create_default_admin ::
  "(string \<Rightarrow> string option) \<Rightarrow> int \<Rightarrow> user_manager \<Rightarrow> user_manager \<times> (auth_error, unit) result"
where
  "create_default_admin bhash now m =
     (if m = [] then (case bhash ''admin123'' of None \<Rightarrow> (m, Inl HashError) | Some h \<Rightarrow> create_user m (default_admin now h))
      else (m, Inr ()))"

definition get_user :: "user_manager \<Rightarrow> string \<Rightarrow> user option" where
  "get_user m n = map_of m n"

definition update_user :: "user_manager \<Rightarrow> user \<Rightarrow> user_manager \<times> (auth_error, unit) result" where
  "update_user m u =
     (if map_of m (username u) = None then (m, Inl (UserMissing (username u))) else (al_put (username u) u m, Inr ()))"

definition list_users :: "user_manager \<Rightarrow> user list" where
  "list_users m = map snd m"

definition count_users_by_role :: "user_manager \<Rightarrow> role \<Rightarrow> nat" where
  "count_users_by_role m r = length (filter (\<lambda>u. user_role u = r) (list_users m))"

definition delete_user :: "user_manager \<Rightarrow> string \<Rightarrow> user_manager \<times> (auth_error, unit) result" where
  "delete_user m n =
     (case map_of m n of
        None \<Rightarrow> (m, Inl (UserMissing n))
      | Some u \<Rightarrow>
          if user_role u = Admin \<and> count_users_by_role m Admin \<le> 1 then (m, Inl LastAdmin)
          else (al_del n m, Inr ()))"

definition verify_password ::
  "(string \<Rightarrow> string \<Rightarrow> bool option) \<Rightarrow> int \<Rightarrow> user_manager \<Rightarrow> string \<Rightarrow> string \<Rightarrow> user_manager \<times> (auth_error, user) result"
where
  "verify_password bverify now m n pw =
     (case get_user m n of
        None \<Rightarrow> (m, Inl (UserMissing n))
      | Some u \<Rightarrow>
          if \<not> user_enabled u then (m, Inl (UserDisabled n))
          else case bverify pw (password_hash u) of
                 None \<Rightarrow> (m, Inl HashError)
               | Some False \<Rightarrow> (m, Inl (InvalidPassword n))
               | Some True \<Rightarrow>
                   (let u' = u\<lparr>last_login := Some now\<rparr>
                    in case update_user m u' of (m', Inl e) \<Rightarrow> (m', Inl e) | (m', Inr _) \<Rightarrow> (m', Inr u')))"

definition change_password ::
  "(string \<Rightarrow> string option) \<Rightarrow> user_manager \<Rightarrow> string \<Rightarrow> string \<Rightarrow> user_manager \<times> (auth_error, unit) result"
where
  "change_password bhash m n pw =
     (case get_user m n of
        None \<Rightarrow> (m, Inl (UserMissing n))
      | Some u \<Rightarrow> (case bhash pw of None \<Rightarrow> (m, Inl HashError) | Some h \<Rightarrow> update_user m (u\<lparr>password_hash := h\<rparr>)))"

definition set_user_enabled :: "user_manager \<Rightarrow> string \<Rightarrow> bool \<Rightarrow> user_manager \<times> (auth_error, unit) result" where
  "set_user_enabled m n b =
     (case get_user m n of None \<Rightarrow> (m, Inl (UserMissing n)) | Some u \<Rightarrow> update_user m (u\<lparr>user_enabled := b\<rparr>))"

section \<open>The last administrator\<close>

datatype user_op =
    UCreate user
  | UUpdate user
  | UDelete string
  | UVerify int string string
  | UPassword string string
  | UEnable string bool

fun user_step :: "(string \<Rightarrow> string option) \<Rightarrow> (string \<Rightarrow> string \<Rightarrow> bool option) \<Rightarrow> user_manager \<Rightarrow> user_op \<Rightarrow> user_manager" where
  "user_step bhash bverify m (UCreate u) = fst (create_user m u)"
| "user_step bhash bverify m (UUpdate u) = fst (update_user m u)"
| "user_step bhash bverify m (UDelete n) = fst (delete_user m n)"
| "user_step bhash bverify m (UVerify now n pw) = fst (verify_password bverify now m n pw)"
| "user_step bhash bverify m (UPassword n pw) = fst (change_password bhash m n pw)"
| "user_step bhash bverify m (UEnable n b) = fst (set_user_enabled m n b)"

text \<open>No update in the sequence gives an administrator another role.\<close>

fun no_demotion :: "(string \<Rightarrow> string option) \<Rightarrow> (string \<Rightarrow> string \<Rightarrow> bool option) \<Rightarrow> user_manager \<Rightarrow> user_op list \<Rightarrow> bool" where
  "no_demotion bhash bverify m [] = True"
| "no_demotion bhash bverify m (op # ops) =
     ((case op of
         UUpdate u \<Rightarrow> (case get_user m (username u) of Some v \<Rightarrow> user_role v = Admin \<longrightarrow> user_role u = Admin | None \<Rightarrow> True)
       | _ \<Rightarrow> True) \<and>
      no_demotion bhash bverify (user_step bhash bverify m op) ops)"

definition users_wf :: "user_manager \<Rightarrow> bool" where
  "users_wf m \<longleftrightarrow> distinct (map fst m) \<and> (\<forall>n u. map_of m n = Some u \<longrightarrow> username u = n)"

definition has_admin :: "user_manager \<Rightarrow> bool" where
  "has_admin m \<longleftrightarrow> (\<exists>n u. map_of m n = Some u \<and> user_role u = Admin)"

lemma users_put: "users_wf m \<Longrightarrow> users_wf (al_put (username u) u m)"
  by (auto simp: users_wf_def distinct_al_put map_of_al_put)

lemma has_admin_put:
  assumes "has_admin m" and "\<And>v. map_of m (username u) = Some v \<Longrightarrow> user_role v = Admin \<Longrightarrow> user_role u = Admin"
  shows "has_admin (al_put (username u) u m)"
proof -
  obtain n v where "map_of m n = Some v" "user_role v = Admin" using assms(1) by (auto simp: has_admin_def)
  with assms(2) show ?thesis unfolding has_admin_def map_of_al_put by (cases "n = username u") (auto intro!: exI [of _ n])
qed

lemma two_admins:
  assumes "users_wf m" and "map_of m n = Some u" and "\<not> count_users_by_role m Admin \<le> 1"
  shows "\<exists>n' v. n' \<noteq> n \<and> map_of m n' = Some v \<and> user_role v = Admin"
proof (rule ccontr)
  assume none: "\<not> ?thesis"
  have d: "distinct (map fst m)" using assms(1) by (simp add: users_wf_def)
  let ?f = "filter (\<lambda>p. user_role (snd p) = Admin) m"
  have "fst p = n" if "p \<in> set ?f" for p
    using none that map_of_is_SomeI [OF d, of "fst p" "snd p"] by auto
  then have "set (map fst ?f) \<subseteq> {n}" by auto
  moreover have "distinct (map fst ?f)" using d by (rule distinct_map_filter)
  ultimately have "length (map fst ?f) \<le> 1" by (metis card_mono card.empty card_insert_disjoint distinct_card empty_iff finite.intros One_nat_def)
  moreover have "count_users_by_role m Admin = length (map fst ?f)"
    by (simp add: count_users_by_role_def list_users_def filter_map o_def)
  ultimately show False using assms(3) by simp
qed

lemma change_user_admin:
  assumes "users_wf m \<and> has_admin m" and "map_of m n = Some u" and "username u' = n" and "user_role u' = user_role u"
  shows "users_wf (fst (update_user m u')) \<and> has_admin (fst (update_user m u'))"
  using assms users_put [of m u'] has_admin_put [of m u'] by (auto simp: update_user_def)

lemma user_step_admin:
  assumes "users_wf m \<and> has_admin m" and "no_demotion bhash bverify m [op]"
  shows "users_wf (user_step bhash bverify m op) \<and> has_admin (user_step bhash bverify m op)"
proof -
  have name: "username u = n" if "map_of m n = Some u" for n u using assms(1) that by (simp add: users_wf_def)
  show ?thesis
  proof (cases op)
    case (UCreate u)
    then show ?thesis using assms(1) users_put [of m u] has_admin_put [of m u] by (auto simp: create_user_def)
  next
    case (UUpdate u)
    then show ?thesis using assms users_put [of m u] has_admin_put [of m u] by (auto simp: update_user_def get_user_def)
  next
    case (UDelete n)
    show ?thesis
    proof (cases "snd (delete_user m n)")
      case (Inl e)
      with UDelete assms(1) show ?thesis by (auto simp: delete_user_def split: option.splits if_splits)
    next
      case (Inr x)
      then obtain u where u: "map_of m n = Some u" "user_role u = Admin \<longrightarrow> \<not> count_users_by_role m Admin \<le> 1"
        and del: "fst (delete_user m n) = al_del n m"
        by (auto simp: delete_user_def split: option.splits if_splits)
      have "has_admin (al_del n m)"
      proof (cases "user_role u = Admin")
        case True
        with u two_admins [of m n u] assms(1) show ?thesis by (fastforce simp: has_admin_def map_of_al_del)
      next
        case False
        with u(1) assms(1) show ?thesis unfolding has_admin_def map_of_al_del by (metis fun_upd_other option.inject)
      qed
      moreover have "users_wf (al_del n m)" using assms(1) by (auto simp: users_wf_def distinct_al_del map_of_al_del)
      ultimately show ?thesis using UDelete del by simp
    qed
  next
    case (UVerify now n pw)
    then show ?thesis using assms(1) name change_user_admin [OF assms(1), of n _ "_\<lparr>last_login := Some now\<rparr>"]
      by (auto simp: verify_password_def get_user_def Let_def split: option.splits bool.splits prod.splits sum.splits)
        (metis fst_conv user.select_convs(1,3) user.simps(14))+
  next
    case (UPassword n pw)
    then show ?thesis using assms(1) name change_user_admin [OF assms(1), of n]
      by (auto simp: change_password_def get_user_def split: option.splits)
  next
    case (UEnable n b)
    then show ?thesis using assms(1) name change_user_admin [OF assms(1), of n]
      by (auto simp: set_user_enabled_def get_user_def split: option.splits)
  qed
qed

lemma users_run_admin:
  "users_wf m \<and> has_admin m \<Longrightarrow> no_demotion bhash bverify m ops \<Longrightarrow>
   users_wf (foldl (user_step bhash bverify) m ops) \<and> has_admin (foldl (user_step bhash bverify) m ops)"
proof (induction ops arbitrary: m)
  case (Cons op ops)
  have "no_demotion bhash bverify m [op]" using Cons.prems(2) by simp
  from user_step_admin [OF Cons.prems(1) this] Cons show ?case by simp
qed simp

text \<open>
  C37. After the default administrator has been created, whatever users are created, updated,
  deleted, logged in, enabled or disabled, as long as no update gives an administrator another
  role there is an administrator account, under its own name.
\<close>

theorem admin_account_remains:
  assumes "create_default_admin bhash now [] = (m, Inr ())" and "no_demotion bhash bverify m ops"
  shows "\<exists>u. u \<in> set (list_users (foldl (user_step bhash bverify) m ops)) \<and> user_role u = Admin \<and>
    get_user (foldl (user_step bhash bverify) m ops) (username u) = Some u"
proof -
  from assms(1) obtain h where "m = [(''admin'', default_admin now h)]"
    by (auto simp: create_default_admin_def create_user_def default_admin_def split: option.splits)
  then have "users_wf m \<and> has_admin m"
    by (auto simp: users_wf_def has_admin_def default_admin_def)
  from users_run_admin [OF this assms(2)] obtain n u where "users_wf (foldl (user_step bhash bverify) m ops)"
    "map_of (foldl (user_step bhash bverify) m ops) n = Some u" "user_role u = Admin" by (auto simp: has_admin_def)
  then show ?thesis
    by (intro exI [of _ u]) (auto simp: users_wf_def get_user_def list_users_def image_iff dest!: map_of_SomeD intro!: bexI [of _ "(n, u)"])
qed

theorem admin_account_remains_witness:
  "\<exists>u. u \<in> set (list_users (foldl (user_step Some (\<lambda>_ _. Some True)) [(''admin'', default_admin 0 ''admin123'')]
      [UDelete ''admin'', UEnable ''admin'' False])) \<and> user_role u = Admin"
proof -
  have h: "create_default_admin Some 0 [] = ([(''admin'', default_admin 0 ''admin123'')], Inr ())"
    "no_demotion Some (\<lambda>_ _. Some True) [(''admin'', default_admin 0 ''admin123'')] [UDelete ''admin'', UEnable ''admin'' False]"
    by (simp_all add: create_default_admin_def create_user_def default_admin_def)
  from admin_account_remains [OF h] show ?thesis by blast
qed

end
