(* ===== verification/Audit_Log.thy ===== *)
theory Audit_Log
  imports Auth_Rbac Json_Ved Stable_Sort
begin

text \<open>
  The audit log (\<open>veddb-core/src/auth/audit.rs\<close>) of the build without \<open>rocksdb\<close>: entries in the order
  they are logged, and the queries. The id and the time of an entry are arguments.
\<close>

datatype audit_event_type =
    AuthenticationSuccess | AuthenticationFailure | AuthorizationFailure
  | UserCreated | UserUpdated | UserDeleted | UserEnabled | UserDisabledEvent | PasswordChanged
  | ConfigurationChanged | BackupCreated | RestorePerformed
  | DataAccessed | DataModified | DataDeleted
  | ServerStarted | ServerStopped | DatabaseCreated | DatabaseDropped
  | TokenRevoked | SuspiciousActivity | RateLimitExceeded

record audit_entry =
  ae_id :: string
  ae_timestamp :: int
  ae_event_type :: audit_event_type
  ae_username :: "string option"
  ae_client_ip :: "string option"
  ae_operation :: "operation option"
  ae_resource :: "resource option"
  ae_success :: bool
  ae_error_message :: "string option"
  ae_details :: json
  ae_session_id :: "string option"
  ae_user_agent :: "string option"

type_synonym audit_stamp = "string \<times> int"

definition audit_entry_new :: "audit_stamp \<Rightarrow> audit_event_type \<Rightarrow> audit_entry" where
  "audit_entry_new st t =
     \<lparr>ae_id = fst st, ae_timestamp = snd st, ae_event_type = t, ae_username = None, ae_client_ip = None, ae_operation = None,
      ae_resource = None, ae_success = True, ae_error_message = None, ae_details = JNull, ae_session_id = None,
      ae_user_agent = None\<rparr>"

definition with_username :: "string \<Rightarrow> audit_entry \<Rightarrow> audit_entry" where
  "with_username u e = e\<lparr>ae_username := Some u\<rparr>"

definition with_client_ip :: "string \<Rightarrow> audit_entry \<Rightarrow> audit_entry" where
  "with_client_ip ip e = e\<lparr>ae_client_ip := Some ip\<rparr>"

definition with_operation :: "operation \<Rightarrow> audit_entry \<Rightarrow> audit_entry" where
  "with_operation op e = e\<lparr>ae_operation := Some op\<rparr>"

definition with_resource :: "resource \<Rightarrow> audit_entry \<Rightarrow> audit_entry" where
  "with_resource r e = e\<lparr>ae_resource := Some r\<rparr>"

definition with_success :: "bool \<Rightarrow> audit_entry \<Rightarrow> audit_entry" where
  "with_success b e = e\<lparr>ae_success := b\<rparr>"

definition with_error :: "string \<Rightarrow> audit_entry \<Rightarrow> audit_entry" where
  "with_error msg e = e\<lparr>ae_error_message := Some msg, ae_success := False\<rparr>"

definition with_details :: "json \<Rightarrow> audit_entry \<Rightarrow> audit_entry" where
  "with_details j e = e\<lparr>ae_details := j\<rparr>"

definition with_session_id :: "string \<Rightarrow> audit_entry \<Rightarrow> audit_entry" where
  "with_session_id i e = e\<lparr>ae_session_id := Some i\<rparr>"

definition with_user_agent :: "string \<Rightarrow> audit_entry \<Rightarrow> audit_entry" where
  "with_user_agent a e = e\<lparr>ae_user_agent := Some a\<rparr>"

type_synonym audit_logger = "audit_entry list"

definition log_entry :: "audit_logger \<Rightarrow> audit_entry \<Rightarrow> audit_logger" where
  "log_entry l e = l @ [e]"

definition opt_apply :: "('a \<Rightarrow> 'b \<Rightarrow> 'b) \<Rightarrow> 'a option \<Rightarrow> 'b \<Rightarrow> 'b" where
  "opt_apply f x e = (case x of None \<Rightarrow> e | Some a \<Rightarrow> f a e)"

definition log_auth_success :: "audit_stamp \<Rightarrow> audit_logger \<Rightarrow> string \<Rightarrow> string option \<Rightarrow> audit_logger" where
  "log_auth_success st l u ip =
     log_entry l (opt_apply with_client_ip ip
       (with_success True (with_username u (audit_entry_new st AuthenticationSuccess))))"

definition log_auth_failure :: "audit_stamp \<Rightarrow> audit_logger \<Rightarrow> string \<Rightarrow> string option \<Rightarrow> string \<Rightarrow> audit_logger" where
  "log_auth_failure st l u ip err =
     log_entry l (opt_apply with_client_ip ip
       (with_error err (with_username u (audit_entry_new st AuthenticationFailure))))"

definition log_authorization_failure ::
  "audit_stamp \<Rightarrow> audit_logger \<Rightarrow> string \<Rightarrow> operation \<Rightarrow> string option \<Rightarrow> audit_logger"
where
  "log_authorization_failure st l u op res =
     log_entry l (opt_apply (\<lambda>r. with_details (JObject [(''resource'', JString r)])) res
       (with_error ''Access denied'' (with_operation op (with_username u (audit_entry_new st AuthorizationFailure)))))"

definition log_user_created :: "audit_stamp \<Rightarrow> audit_logger \<Rightarrow> string \<Rightarrow> string \<Rightarrow> string \<Rightarrow> audit_logger" where
  "log_user_created st l created creator r =
     log_entry l (with_details (JObject [(''created_user'', JString created), (''role'', JString r)])
       (with_username creator (audit_entry_new st UserCreated)))"

definition log_user_updated :: "audit_stamp \<Rightarrow> audit_logger \<Rightarrow> string \<Rightarrow> string \<Rightarrow> json \<Rightarrow> audit_logger" where
  "log_user_updated st l updated updater changes =
     log_entry l (with_details (JObject [(''changes'', changes), (''updated_user'', JString updated)])
       (with_username updater (audit_entry_new st UserUpdated)))"

definition log_user_deleted :: "audit_stamp \<Rightarrow> audit_logger \<Rightarrow> string \<Rightarrow> string \<Rightarrow> audit_logger" where
  "log_user_deleted st l deleted deleter =
     log_entry l (with_details (JObject [(''deleted_user'', JString deleted)])
       (with_username deleter (audit_entry_new st UserDeleted)))"

definition log_password_changed :: "audit_stamp \<Rightarrow> audit_logger \<Rightarrow> string \<Rightarrow> string \<Rightarrow> audit_logger" where
  "log_password_changed st l target changer =
     log_entry l (with_details (JObject [(''target_user'', JString target)])
       (with_username changer (audit_entry_new st PasswordChanged)))"

definition log_config_change ::
  "audit_stamp \<Rightarrow> audit_logger \<Rightarrow> string \<Rightarrow> string \<Rightarrow> string option \<Rightarrow> string \<Rightarrow> audit_logger"
where
  "log_config_change st l u key old new =
     log_entry l (with_details (JObject [(''config_key'', JString key), (''new_value'', JString new),
         (''old_value'', case old of None \<Rightarrow> JNull | Some v \<Rightarrow> JString v)])
       (with_username u (audit_entry_new st ConfigurationChanged)))"

definition log_backup_created :: "audit_stamp \<Rightarrow> audit_logger \<Rightarrow> string \<Rightarrow> string \<Rightarrow> audit_logger" where
  "log_backup_created st l u path =
     log_entry l (with_details (JObject [(''backup_path'', JString path)]) (with_username u (audit_entry_new st BackupCreated)))"

definition log_restore_performed :: "audit_stamp \<Rightarrow> audit_logger \<Rightarrow> string \<Rightarrow> string \<Rightarrow> audit_logger" where
  "log_restore_performed st l u path =
     log_entry l (with_details (JObject [(''restore_path'', JString path)]) (with_username u (audit_entry_new st RestorePerformed)))"

definition log_server_started :: "audit_stamp \<Rightarrow> audit_logger \<Rightarrow> string \<Rightarrow> audit_logger" where
  "log_server_started st l v = log_entry l (with_details (JObject [(''version'', JString v)]) (audit_entry_new st ServerStarted))"

definition log_server_stopped :: "audit_stamp \<Rightarrow> audit_logger \<Rightarrow> audit_logger" where
  "log_server_stopped st l = log_entry l (audit_entry_new st ServerStopped)"

definition log_suspicious_activity ::
  "audit_stamp \<Rightarrow> audit_logger \<Rightarrow> string option \<Rightarrow> string option \<Rightarrow> string \<Rightarrow> audit_logger"
where
  "log_suspicious_activity st l u ip d =
     log_entry l (opt_apply with_client_ip ip (opt_apply with_username u
       (with_details (JObject [(''description'', JString d)]) (audit_entry_new st SuspiciousActivity))))"

section \<open>Queries\<close>

definition newest_first :: "audit_entry list \<Rightarrow> audit_entry list" where
  "newest_first = sort_by (\<lambda>a b. ae_timestamp b \<le> ae_timestamp a)"

definition truncate :: "nat option \<Rightarrow> 'a list \<Rightarrow> 'a list" where
  "truncate n xs = (case n of None \<Rightarrow> xs | Some k \<Rightarrow> take k xs)"

definition query_by_username :: "audit_logger \<Rightarrow> string \<Rightarrow> nat option \<Rightarrow> audit_entry list" where
  "query_by_username l u n = truncate n (newest_first (filter (\<lambda>e. ae_username e = Some u) l))"

definition query_by_operation :: "audit_logger \<Rightarrow> operation \<Rightarrow> nat option \<Rightarrow> audit_entry list" where
  "query_by_operation l op n = truncate n (newest_first (filter (\<lambda>e. ae_operation e = Some op) l))"

definition query_recent :: "audit_logger \<Rightarrow> nat \<Rightarrow> audit_entry list" where
  "query_recent l n = take n (newest_first l)"

text \<open>
  A query for a user returns entries of that user only, the newest first, at most as many as
  asked for, and no entry of the user that is left out is newer than one that is returned.
\<close>

theorem audit_query_newest:
  assumes "es = query_by_username l u n"
  shows "set es \<subseteq> {e \<in> set l. ae_username e = Some u} \<and>
    sorted_wrt (\<lambda>a b. ae_timestamp b \<le> ae_timestamp a) es \<and>
    (case n of None \<Rightarrow> mset es = mset (filter (\<lambda>e. ae_username e = Some u) l) | Some k \<Rightarrow> length es \<le> k) \<and>
    (\<forall>a \<in> set es. \<forall>b \<in># mset (filter (\<lambda>e. ae_username e = Some u) l) - mset es. ae_timestamp b \<le> ae_timestamp a)"
proof -
  let ?f = "filter (\<lambda>e. ae_username e = Some u) l" and ?le = "\<lambda>a b :: audit_entry. ae_timestamp b \<le> ae_timestamp a"
  have srt: "sorted_wrt ?le (newest_first ?f)"
    unfolding newest_first_def by (rule sorted_sort_by) linarith+
  have ms: "mset (newest_first ?f) = mset ?f" by (simp add: newest_first_def)
  show ?thesis
  proof (cases n)
    case None
    with assms srt ms show ?thesis by (auto simp: query_by_username_def truncate_def newest_first_def)
  next
    case (Some k)
    let ?a = "take k (newest_first ?f)" and ?b = "drop k (newest_first ?f)"
    have es: "es = ?a" using assms Some by (simp add: query_by_username_def truncate_def)
    have "mset ?f = mset ?a + mset ?b" using ms by (metis append_take_drop_id mset_append)
    then have rest: "mset ?f - mset ?a = mset ?b" by simp
    have "sorted_wrt ?le (?a @ ?b)" using srt by simp
    then have "sorted_wrt ?le ?a" "\<forall>x \<in> set ?a. \<forall>y \<in> set ?b. ?le x y" unfolding sorted_wrt_append by blast+
    moreover have "set ?a \<subseteq> set ?f" using ms by (metis set_mset_mset set_take_subset)
    ultimately show ?thesis unfolding es rest using Some by (auto simp del: mset_filter)
  qed
qed

theorem audit_query_newest_witness:
  "query_by_username [audit_entry_new (''1'', 5) ServerStopped, with_username ''u'' (audit_entry_new (''2'', 7) DataAccessed),
      with_username ''u'' (audit_entry_new (''3'', 9) DataDeleted)] ''u'' (Some 1) =
     [with_username ''u'' (audit_entry_new (''3'', 9) DataDeleted)] \<and>
   length (query_by_username [audit_entry_new (''1'', 5) ServerStopped] ''u'' (Some 1)) \<le> 1"
  using audit_query_newest [OF refl, of "[audit_entry_new (''1'', 5) ServerStopped]" "''u''" "Some 1"]
  by (simp add: query_by_username_def truncate_def newest_first_def sort_by_def audit_entry_new_def with_username_def)

end
