(* ===== verification/Auth_System.thy ===== *)
theory Auth_System
  imports Audit_Log
begin

text \<open>
  Tokens, sessions and the authentication system (\<open>veddb-core/src/auth/jwt.rs\<close>, \<open>mod.rs\<close>). Signing
  and checking tokens is the third-party library behind \<open>jwt_lib\<close>; times are milliseconds.
\<close>

section \<open>Tokens\<close>

record claims =
  cl_sub :: string
  cl_role :: string
  cl_iat :: int
  cl_exp :: int
  cl_jti :: string
  cl_iss :: string
  cl_aud :: string

record jwt_lib =
  jwt_encode :: "claims \<Rightarrow> string option"
  jwt_decode :: "int \<Rightarrow> string \<Rightarrow> claims option"
  from_timestamp :: "int \<Rightarrow> int option"

text \<open>
  What is documented of it: a token it made is decoded to its claims while it has not expired and
  never to other claims, and a timestamp in the range of times is turned into a time of that many seconds.
\<close>

definition jwt_ok :: "jwt_lib \<Rightarrow> bool" where
  "jwt_ok lib \<longleftrightarrow>
     (\<forall>c t now. jwt_encode lib c = Some t \<longrightarrow> cl_iss c = ''veddb-server'' \<longrightarrow> cl_aud c = ''veddb-client'' \<longrightarrow>
        now div 1000 \<le> cl_exp c \<longrightarrow> jwt_decode lib now t = Some c) \<and>
     (\<forall>c t now. jwt_encode lib c = Some t \<longrightarrow> jwt_decode lib now t \<in> {None, Some c}) \<and>
     (\<forall>s t. from_timestamp lib s = Some t \<longrightarrow> t = s * 1000)"

record user_claims =
  uc_username :: string
  uc_role :: role
  uc_issued_at :: int
  uc_expires_at :: int
  uc_token_id :: string

record jwt_service =
  js_lib :: jwt_lib
  js_timeout_hours :: nat

definition generate_token :: "jwt_service \<Rightarrow> int \<Rightarrow> string \<Rightarrow> user \<Rightarrow> (auth_error, string) result" where
  "generate_token js now jti u =
     (case jwt_encode (js_lib js)
        \<lparr>cl_sub = username u, cl_role = role_as_str (user_role u), cl_iat = now div 1000,
         cl_exp = (now + int (js_timeout_hours js) * 3600000) div 1000, cl_jti = jti, cl_iss = ''veddb-server'', cl_aud = ''veddb-client''\<rparr>
      of None \<Rightarrow> Inl TokenError | Some t \<Rightarrow> Inr t)"

definition verify_token :: "jwt_service \<Rightarrow> int \<Rightarrow> string \<Rightarrow> (auth_error, user_claims) result" where
  "verify_token js now t =
     (case jwt_decode (js_lib js) now t of
        None \<Rightarrow> Inl TokenError
      | Some c \<Rightarrow>
          if cl_exp c < now div 1000 then Inl TokenExpired
          else case role_from_str (cl_role c) of
                 None \<Rightarrow> Inl (InvalidRole (cl_role c))
               | Some r \<Rightarrow>
                   (case from_timestamp (js_lib js) (cl_iat c) of
                      None \<Rightarrow> Inl InvalidTimestamp
                    | Some i \<Rightarrow>
                        (case from_timestamp (js_lib js) (cl_exp c) of
                           None \<Rightarrow> Inl InvalidTimestamp
                         | Some e \<Rightarrow> Inr \<lparr>uc_username = cl_sub c, uc_role = r, uc_issued_at = i, uc_expires_at = e,
                                         uc_token_id = cl_jti c\<rparr>)))"

definition is_token_expired :: "jwt_service \<Rightarrow> int \<Rightarrow> string \<Rightarrow> bool" where
  "is_token_expired js now t = isl (verify_token js now t)"

definition get_token_expiration :: "jwt_service \<Rightarrow> int \<Rightarrow> string \<Rightarrow> (auth_error, int) result" where
  "get_token_expiration js now t = map_sum id uc_expires_at (verify_token js now t)"

text \<open>\<open>num_seconds\<close> cuts off towards zero.\<close>

definition num_seconds :: "int \<Rightarrow> int" where
  "num_seconds d = (if 0 \<le> d then d div 1000 else - ((- d) div 1000))"

definition get_token_remaining_seconds :: "jwt_service \<Rightarrow> int \<Rightarrow> string \<Rightarrow> (auth_error, int) result" where
  "get_token_remaining_seconds js now t = map_sum id (\<lambda>c. num_seconds (uc_expires_at c - now)) (verify_token js now t)"

section \<open>Sessions\<close>

record session_manager =
  sm_jwt :: jwt_service
  sm_revoked :: "string list"

definition session_manager_new :: "jwt_service \<Rightarrow> session_manager" where
  "session_manager_new js = \<lparr>sm_jwt = js, sm_revoked = []\<rparr>"

definition create_session :: "session_manager \<Rightarrow> int \<Rightarrow> string \<Rightarrow> user \<Rightarrow> (auth_error, string) result" where
  "create_session sm now jti u = generate_token (sm_jwt sm) now jti u"

definition revoke_token :: "string \<Rightarrow> string list \<Rightarrow> string list" where
  "revoke_token i b = List.insert i b"

definition is_token_revoked :: "string list \<Rightarrow> string \<Rightarrow> bool" where
  "is_token_revoked b i \<longleftrightarrow> i \<in> set b"

definition validate_session :: "session_manager \<Rightarrow> int \<Rightarrow> string \<Rightarrow> (auth_error, user_claims) result" where
  "validate_session sm now t =
     (case verify_token (sm_jwt sm) now t of
        Inl e \<Rightarrow> Inl e
      | Inr c \<Rightarrow> if is_token_revoked (sm_revoked sm) (uc_token_id c) then Inl TokenRevokedError else Inr c)"

definition revoke_session :: "session_manager \<Rightarrow> int \<Rightarrow> string \<Rightarrow> session_manager \<times> (auth_error, unit) result" where
  "revoke_session sm now t =
     (case verify_token (sm_jwt sm) now t of
        Inl e \<Rightarrow> (sm, Inl e)
      | Inr c \<Rightarrow> (sm\<lparr>sm_revoked := revoke_token (uc_token_id c) (sm_revoked sm)\<rparr>, Inr ()))"

definition is_session_valid :: "session_manager \<Rightarrow> int \<Rightarrow> string \<Rightarrow> bool" where
  "is_session_valid sm now t \<longleftrightarrow> \<not> isl (validate_session sm now t)"

record session_info =
  si_username :: string
  si_role :: role
  si_issued_at :: int
  si_expires_at :: int
  si_remaining :: int
  si_token_id :: string

definition get_session_info :: "session_manager \<Rightarrow> int \<Rightarrow> string \<Rightarrow> (auth_error, session_info) result" where
  "get_session_info sm now t =
     (case validate_session sm now t of
        Inl e \<Rightarrow> Inl e
      | Inr c \<Rightarrow>
          (case get_token_remaining_seconds (sm_jwt sm) now t of
             Inl e \<Rightarrow> Inl e
           | Inr n \<Rightarrow> Inr \<lparr>si_username = uc_username c, si_role = uc_role c, si_issued_at = uc_issued_at c,
                           si_expires_at = uc_expires_at c, si_remaining = n, si_token_id = uc_token_id c\<rparr>))"

section \<open>The authentication system\<close>

record auth_system =
  au_users :: user_manager
  au_jwt :: jwt_service
  au_rbac :: rbac_system
  au_audit :: audit_logger

definition auth_new :: "jwt_service \<Rightarrow> auth_system" where
  "auth_new js = \<lparr>au_users = user_manager_new, au_jwt = js, au_rbac = rbac_new, au_audit = []\<rparr>"

definition auth_initialize :: "(string \<Rightarrow> string option) \<Rightarrow> int \<Rightarrow> auth_system \<Rightarrow> auth_system \<times> (auth_error, unit) result" where
  "auth_initialize bhash now s = (let (m, r) = create_default_admin bhash now (au_users s) in (s\<lparr>au_users := m\<rparr>, r))"

text \<open>\<open>show_error\<close> is the text of an error, \<open>st\<close> the id and time of the audit entry, \<open>jti\<close> the id of the token.\<close>

definition authenticate ::
  "(string \<Rightarrow> string \<Rightarrow> bool option) \<Rightarrow> (auth_error \<Rightarrow> string) \<Rightarrow> int \<Rightarrow> string \<Rightarrow> audit_stamp \<Rightarrow> auth_system \<Rightarrow> string \<Rightarrow> string \<Rightarrow>
   string option \<Rightarrow> auth_system \<times> (auth_error, string) result"
where
  "authenticate bverify show_error now jti st s n pw ip =
     (case verify_password bverify now (au_users s) n pw of
        (m, Inr u) \<Rightarrow>
          (case generate_token (au_jwt s) now jti u of
             Inl e \<Rightarrow> (s\<lparr>au_users := m\<rparr>, Inl e)
           | Inr t \<Rightarrow> (s\<lparr>au_users := m, au_audit := log_auth_success st (au_audit s) n ip\<rparr>, Inr t))
      | (m, Inl e) \<Rightarrow> (s\<lparr>au_users := m, au_audit := log_auth_failure st (au_audit s) n ip (show_error e)\<rparr>, Inl e))"

definition auth_authorize ::
  "int \<Rightarrow> audit_stamp \<Rightarrow> auth_system \<Rightarrow> string \<Rightarrow> operation \<Rightarrow> string option \<Rightarrow> auth_system \<times> (auth_error, unit) result"
where
  "auth_authorize now st s t op res =
     (case verify_token (au_jwt s) now t of
        Inl e \<Rightarrow> (s, Inl e)
      | Inr c \<Rightarrow>
          (case check_permission (au_rbac s) (uc_role c) op of
             Inr _ \<Rightarrow> (s, Inr ())
           | Inl e \<Rightarrow> (s\<lparr>au_audit := log_authorization_failure st (au_audit s) (uc_username c) op res\<rparr>, Inl e)))"

section \<open>Properties\<close>

lemma generated_token_verifies:
  assumes "jwt_ok (js_lib js)" and "generate_token js now jti u = Inr t"
    and "from_timestamp (js_lib js) (now div 1000) \<noteq> None"
    and "from_timestamp (js_lib js) ((now + int (js_timeout_hours js) * 3600000) div 1000) \<noteq> None"
    and "later \<le> now + int (js_timeout_hours js) * 3600000"
  shows "\<exists>c. verify_token js later t = Inr c \<and> uc_username c = username u \<and> uc_role c = user_role u \<and> uc_token_id c = jti"
proof -
  let ?exp = "(now + int (js_timeout_hours js) * 3600000) div 1000"
  let ?c = "\<lparr>cl_sub = username u, cl_role = role_as_str (user_role u), cl_iat = now div 1000,
     cl_exp = ?exp, cl_jti = jti, cl_iss = ''veddb-server'', cl_aud = ''veddb-client''\<rparr>"
  have t: "jwt_encode (js_lib js) ?c = Some t" using assms(2) by (auto simp: generate_token_def split: option.splits)
  have le: "later div 1000 \<le> ?exp" using assms(5) by (simp add: zdiv_mono1)
  have enc: "jwt_encode lib c = Some t \<longrightarrow> cl_iss c = ''veddb-server'' \<longrightarrow> cl_aud c = ''veddb-client'' \<longrightarrow>
        now div 1000 \<le> cl_exp c \<longrightarrow> jwt_decode lib now t = Some c" if "jwt_ok lib" for lib c t now
    using that by (simp add: jwt_ok_def)
  have "jwt_decode (js_lib js) later t = Some ?c" using enc [OF assms(1), of ?c t later] t le by simp
  with assms(3,4) le show ?thesis by (auto simp: verify_token_def role_str_roundtrip)
qed

lemma verified_token_id:
  assumes "jwt_ok (js_lib js)" and "generate_token js now jti u = Inr t" and "verify_token js later t = Inr d"
  shows "uc_token_id d = jti"
proof -
  obtain c where c: "jwt_encode (js_lib js) c = Some t" "cl_jti c = jti"
    using assms(2) by (auto simp: generate_token_def split: option.splits)
  have "jwt_decode (js_lib js) later t \<in> {None, Some c}" using assms(1) c(1) unfolding jwt_ok_def by blast
  with assms(3) c(2) show ?thesis by (auto simp: verify_token_def split: option.splits if_splits)
qed

text \<open>
  C38. Authorisation looks only at the token: a token issued to an administrator authorises every
  operation until it expires, whatever happens to the account in the meantime (deletion, disabling,
  another role), and the access lists of the resource are not consulted.
\<close>

theorem token_outlives_account:
  assumes "jwt_ok (js_lib (au_jwt s))" and "authenticate bverify show_error now jti st s n pw ip = (s', Inr t)"
    and "get_user (au_users s) n = Some u" and "user_role u = Admin"
    and "from_timestamp (js_lib (au_jwt s)) (now div 1000) \<noteq> None"
    and "from_timestamp (js_lib (au_jwt s)) ((now + int (js_timeout_hours (au_jwt s)) * 3600000) div 1000) \<noteq> None"
    and "later \<le> now + int (js_timeout_hours (au_jwt s)) * 3600000"
    and "au_rbac s = rbac_new\<lparr>resource_acls := acls\<rparr>"
  shows "auth_authorize later st' (s'\<lparr>au_users := users\<rparr>) t op res = (s'\<lparr>au_users := users\<rparr>, Inr ())"
proof -
  from assms(2,3) obtain u' where u': "generate_token (au_jwt s) now jti u' = Inr t" "user_role u' = user_role u"
    and s': "au_jwt s' = au_jwt s" "au_rbac s' = au_rbac s"
    by (auto simp: authenticate_def verify_password_def Let_def split: option.splits bool.splits sum.splits prod.splits if_splits)
  from generated_token_verifies [OF assms(1) u'(1) assms(5,6,7)] obtain c where
    c: "verify_token (au_jwt s) later t = Inr c" "uc_role c = Admin" using u'(2) assms(4) by auto
  have "check_permission (au_rbac s') Admin op = Inr ()"
    using assms(8) s' by (cases op) (simp_all add: check_permission_def rbac_new_def admin_permissions_def operation_names_def)
  with c s'(1) show ?thesis by (simp add: auth_authorize_def)
qed

definition example_admin :: user where
  "example_admin = default_admin 0 ''admin123''"

definition example_claims :: claims where
  "example_claims = \<lparr>cl_sub = ''admin'', cl_role = ''admin'', cl_iat = 5, cl_exp = 3605, cl_jti = ''j'', cl_iss = ''veddb-server'', cl_aud = ''veddb-client''\<rparr>"

definition example_jwt :: jwt_service where
  "example_jwt = \<lparr>js_lib = \<lparr>jwt_encode = \<lambda>c. if c = example_claims then Some ''tok'' else None,
      jwt_decode = \<lambda>now t. if t = ''tok'' then Some example_claims else None, from_timestamp = \<lambda>s. Some (s * 1000)\<rparr>, js_timeout_hours = 1\<rparr>"

definition example_auth :: auth_system where
  "example_auth = \<lparr>au_users = [(''admin'', example_admin)], au_jwt = example_jwt, au_rbac = rbac_new, au_audit = []\<rparr>"

lemma example_jwt_ok: "jwt_ok (js_lib example_jwt)"
  by (auto simp: jwt_ok_def example_jwt_def split: if_splits)

theorem token_outlives_account_witness:
  "\<exists>s' t. authenticate (\<lambda>p h. Some (p = h)) (\<lambda>_. ''e'') 5000 ''j'' (''x'', 5) example_auth ''admin'' ''admin123'' None = (s', Inr t) \<and>
     auth_authorize 3605000 (''y'', 9) (s'\<lparr>au_users := []\<rparr>) t DropCollection (Some ''c'') = (s'\<lparr>au_users := []\<rparr>, Inr ())"
proof -
  let ?u = "example_admin\<lparr>last_login := Some 5000\<rparr>"
  have v: "verify_password (\<lambda>p h. Some (p = h)) 5000 (au_users example_auth) ''admin'' ''admin123'' = ([(''admin'', ?u)], Inr ?u)"
    by (simp add: verify_password_def get_user_def update_user_def example_auth_def example_admin_def default_admin_def Let_def)
  have g: "generate_token (au_jwt example_auth) 5000 ''j'' ?u = Inr ''tok''"
    by (simp add: generate_token_def example_auth_def example_jwt_def example_claims_def example_admin_def default_admin_def role_as_str_def)
  have "\<exists>s'. authenticate (\<lambda>p h. Some (p = h)) (\<lambda>_. ''e'') 5000 ''j'' (''x'', 5) example_auth ''admin'' ''admin123'' None = (s', Inr ''tok'')"
    by (simp add: authenticate_def v g)
  then obtain s' where a:
    "authenticate (\<lambda>p h. Some (p = h)) (\<lambda>_. ''e'') 5000 ''j'' (''x'', 5) example_auth ''admin'' ''admin123'' None = (s', Inr ''tok'')" by blast
  have ok: "jwt_ok (js_lib (au_jwt example_auth))" using example_jwt_ok by (simp add: example_auth_def)
  have u: "get_user (au_users example_auth) ''admin'' = Some example_admin" "user_role example_admin = Admin"
    by (simp_all add: example_auth_def example_admin_def default_admin_def get_user_def)
  have "auth_authorize 3605000 (''y'', 9) (s'\<lparr>au_users := []\<rparr>) ''tok'' DropCollection (Some ''c'') = (s'\<lparr>au_users := []\<rparr>, Inr ())"
    by (rule token_outlives_account [OF ok a u, where acls = "[]"]) (simp_all add: example_auth_def example_jwt_def rbac_new_def)
  with a show ?thesis by blast
qed

text \<open>
  A session that has been revoked before its token expires is invalid at every time, and the
  sessions with other token ids are judged as before.
\<close>

theorem revoked_session_invalid:
  assumes "jwt_ok (js_lib (sm_jwt sm))" and "create_session sm now jti u = Inr t" and "create_session sm now' jti' u' = Inr t'" and "jti' \<noteq> jti"
    and "from_timestamp (js_lib (sm_jwt sm)) (now div 1000) \<noteq> None"
    and "from_timestamp (js_lib (sm_jwt sm)) ((now + int (js_timeout_hours (sm_jwt sm)) * 3600000) div 1000) \<noteq> None"
    and "rt \<le> now + int (js_timeout_hours (sm_jwt sm)) * 3600000"
  shows "\<exists>sm'. revoke_session sm rt t = (sm', Inr ()) \<and> (\<forall>later. \<not> is_session_valid sm' later t \<and>
    validate_session sm' later t' = validate_session sm later t')"
proof -
  have g: "generate_token (sm_jwt sm) now jti u = Inr t" "generate_token (sm_jwt sm) now' jti' u' = Inr t'"
    using assms(2,3) by (simp_all add: create_session_def)
  from generated_token_verifies [OF assms(1) g(1) assms(5,6,7)] obtain c where
    c: "verify_token (sm_jwt sm) rt t = Inr c" "uc_token_id c = jti" by blast
  have "uc_token_id d = jti" if "verify_token (sm_jwt sm) later t = Inr d" for later d
    by (rule verified_token_id [OF assms(1) g(1) that])
  moreover have "uc_token_id d = jti'" if "verify_token (sm_jwt sm) later t' = Inr d" for later d
    by (rule verified_token_id [OF assms(1) g(2) that])
  ultimately show ?thesis using c assms(4)
    by (auto simp: revoke_session_def is_session_valid_def validate_session_def is_token_revoked_def revoke_token_def split: sum.splits)
qed

definition two_token_jwt :: jwt_service where
  "two_token_jwt = \<lparr>js_lib = \<lparr>jwt_encode = \<lambda>c. if c = example_claims then Some ''t1'' else if c = example_claims\<lparr>cl_jti := ''k''\<rparr> then Some ''t2'' else None,
      jwt_decode = \<lambda>now t. if t = ''t1'' then Some example_claims else if t = ''t2'' then Some (example_claims\<lparr>cl_jti := ''k''\<rparr>) else None,
      from_timestamp = \<lambda>s. Some (s * 1000)\<rparr>, js_timeout_hours = 1\<rparr>"

theorem revoked_session_invalid_witness:
  "\<exists>sm'. revoke_session (session_manager_new two_token_jwt) 3605000 ''t1'' = (sm', Inr ()) \<and> \<not> is_session_valid sm' 5000 ''t1'' \<and>
     validate_session sm' 5000 ''t2'' = validate_session (session_manager_new two_token_jwt) 5000 ''t2''"
proof -
  let ?sm = "session_manager_new two_token_jwt"
  have ok: "jwt_ok (js_lib (sm_jwt ?sm))"
    by (auto simp: jwt_ok_def two_token_jwt_def session_manager_new_def example_claims_def split: if_splits)
  have c: "create_session ?sm 5000 ''j'' example_admin = Inr ''t1''" "create_session ?sm 5000 ''k'' example_admin = Inr ''t2''"
    by (simp_all add: create_session_def session_manager_new_def generate_token_def two_token_jwt_def example_claims_def example_admin_def default_admin_def role_as_str_def)
  from revoked_session_invalid [OF ok c, of 3605000] show ?thesis
    by (auto simp: session_manager_new_def two_token_jwt_def)
qed

end
