(* ===== verification/Pub_Sub.thy ===== *)
theory Pub_Sub
  imports VedPrelude "HOL-Library.Multiset"
begin

text \<open>
  Publish and subscribe (\<open>veddb-core/src/pubsub/mod.rs\<close>). Subscribers are shared between the table of
  subscribers and the channels (\<open>Arc\<close>), so they live in a heap, a list indexed by address, and the
  tables hold addresses. The regular expressions behind patterns and the sending half of the
  unbounded channel a subscriber may carry are third-party code and arguments of the definitions.
  The tables are lists in their iteration order; each call is one step.
\<close>

section \<open>Messages and subscribers\<close>

record message =
  msg_channel :: string
  msg_payload :: bytes
  msg_timestamp :: u64
  msg_id :: u64

text \<open>The counter of message ids is one static variable of the program.\<close>

definition message_new :: "u64 \<Rightarrow> u64 \<Rightarrow> string \<Rightarrow> bytes \<Rightarrow> u64 \<times> message" where
  "message_new counter now ch p =
     (counter + 1, \<lparr>msg_channel = ch, msg_payload = p, msg_timestamp = now, msg_id = counter\<rparr>)"

record 'c subscriber =
  sub_id :: u64
  sub_queue :: "message list"
  max_queue_size :: nat
  sub_sender :: "'c option"
  messages_received :: u64
  messages_dropped :: u64

definition subscriber_new :: "u64 \<Rightarrow> nat \<Rightarrow> 'c subscriber" where
  "subscriber_new i n = \<lparr>sub_id = i, sub_queue = [], max_queue_size = n, sub_sender = None,
     messages_received = 0, messages_dropped = 0\<rparr>"

definition subscriber_with_sender :: "u64 \<Rightarrow> nat \<Rightarrow> 'c \<Rightarrow> 'c subscriber" where
  "subscriber_with_sender i n c = \<lparr>sub_id = i, sub_queue = [], max_queue_size = n, sub_sender = Some c,
     messages_received = 0, messages_dropped = 0\<rparr>"

text \<open>\<open>sd\<close> is the sender: its new state and whether the message was taken.\<close>

type_synonym 'c send = "'c \<Rightarrow> message \<Rightarrow> 'c \<times> bool"

definition enqueue :: "'c subscriber \<Rightarrow> message \<Rightarrow> 'c subscriber" where
  "enqueue s m =
     (let s1 = (if length (sub_queue s) \<ge> max_queue_size s
                then s\<lparr>sub_queue := tl (sub_queue s), messages_dropped := messages_dropped s + 1\<rparr> else s)
      in s1\<lparr>sub_queue := sub_queue s1 @ [m], messages_received := messages_received s1 + 1\<rparr>)"

definition deliver_message :: "'c send \<Rightarrow> 'c subscriber \<Rightarrow> message \<Rightarrow> 'c subscriber" where
  "deliver_message sd s m =
     (case sub_sender s of
        None \<Rightarrow> enqueue s m
      | Some c \<Rightarrow>
          (case sd c m of
             (c', True) \<Rightarrow> s\<lparr>sub_sender := Some c', messages_received := messages_received s + 1\<rparr>
           | (c', False) \<Rightarrow> enqueue (s\<lparr>sub_sender := Some c'\<rparr>) m))"

definition get_next_message :: "'c subscriber \<Rightarrow> 'c subscriber \<times> message option" where
  "get_next_message s =
     (case sub_queue s of [] \<Rightarrow> (s, None) | m # ms \<Rightarrow> (s\<lparr>sub_queue := ms\<rparr>, Some m))"

definition queue_len :: "'c subscriber \<Rightarrow> nat" where
  "queue_len s = length (sub_queue s)"

record subscriber_stats =
  sst_id :: u64
  sst_received :: u64
  sst_dropped :: u64

definition subscriber_get_stats :: "'c subscriber \<Rightarrow> subscriber_stats" where
  "subscriber_get_stats s = \<lparr>sst_id = sub_id s, sst_received = messages_received s, sst_dropped = messages_dropped s\<rparr>"

section \<open>Channels\<close>

record channel =
  ch_name :: string
  ch_subscribers :: "(u64 \<times> nat) list"
  ch_message_count :: u64
  ch_subscriber_count :: u64

definition channel_new :: "string \<Rightarrow> channel" where
  "channel_new n = \<lparr>ch_name = n, ch_subscribers = [], ch_message_count = 0, ch_subscriber_count = 0\<rparr>"

definition channel_add_subscriber :: "u64 \<Rightarrow> nat \<Rightarrow> channel \<Rightarrow> channel" where
  "channel_add_subscriber i a ch =
     (let ch1 = ch\<lparr>ch_subscribers := al_put i a (ch_subscribers ch)\<rparr>
      in if map_of (ch_subscribers ch) i = None then ch1\<lparr>ch_subscriber_count := ch_subscriber_count ch + 1\<rparr> else ch1)"

definition channel_remove_subscriber :: "u64 \<Rightarrow> channel \<Rightarrow> channel \<times> bool" where
  "channel_remove_subscriber i ch =
     (if map_of (ch_subscribers ch) i = None then (ch, False)
      else (ch\<lparr>ch_subscribers := al_del i (ch_subscribers ch), ch_subscriber_count := ch_subscriber_count ch - 1\<rparr>, True))"

definition deliver_at :: "'c send \<Rightarrow> message \<Rightarrow> nat \<Rightarrow> 'c subscriber list \<Rightarrow> 'c subscriber list" where
  "deliver_at sd m a h = h[a := deliver_message sd (h ! a) m]"

text \<open>Delivery never fails, so every subscriber of the channel counts.\<close>

definition channel_publish ::
  "'c send \<Rightarrow> u64 \<Rightarrow> u64 \<Rightarrow> 'c subscriber list \<Rightarrow> channel \<Rightarrow> bytes \<Rightarrow> u64 \<times> 'c subscriber list \<times> channel \<times> nat"
where
  "channel_publish sd counter now h ch p =
     (let (counter', m) = message_new counter now (ch_name ch) p
      in (counter', fold (deliver_at sd m) (map snd (ch_subscribers ch)) h,
          ch\<lparr>ch_message_count := ch_message_count ch + 1\<rparr>, length (ch_subscribers ch)))"

record channel_stats =
  cst_name :: string
  cst_subscriber_count :: u64
  cst_message_count :: u64

definition channel_get_stats :: "channel \<Rightarrow> channel_stats" where
  "channel_get_stats ch =
     \<lparr>cst_name = ch_name ch, cst_subscriber_count = ch_subscriber_count ch, cst_message_count = ch_message_count ch\<rparr>"

section \<open>Patterns\<close>

record pattern_subscription =
  pt_subscriber :: u64
  pt_matcher :: "string \<Rightarrow> bool"
  pt_str :: string

datatype pubsub_error =
    ChannelNotFound | SubscriberNotFound | MessageTooLarge | InvalidPattern | QueueFull | SystemError string

definition glob_to_regex :: "string \<Rightarrow> string" where
  "glob_to_regex p =
     (let p1 = concat (map (\<lambda>c. if c = CHR ''*'' then ''.*'' else [c]) p)
      in concat (map (\<lambda>c. if c = CHR ''?'' then ''.'' else [c]) p1))"

definition pattern_new ::
  "(string \<Rightarrow> (string \<Rightarrow> bool) option) \<Rightarrow> u64 \<Rightarrow> string \<Rightarrow> (pubsub_error, pattern_subscription) result"
where
  "pattern_new rx i p =
     (case rx (''^'' @ glob_to_regex p @ ''$'') of
        None \<Rightarrow> Inl InvalidPattern
      | Some f \<Rightarrow> Inr \<lparr>pt_subscriber = i, pt_matcher = f, pt_str = p\<rparr>)"

definition pattern_matches :: "pattern_subscription \<Rightarrow> string \<Rightarrow> bool" where
  "pattern_matches pt ch = pt_matcher pt ch"

section \<open>The system\<close>

record pubsub_config =
  max_message_size :: nat
  default_buffer_size :: nat
  max_channels :: nat
  max_subscribers :: nat

definition pubsub_config_default :: pubsub_config where
  "pubsub_config_default =
     \<lparr>max_message_size = 1048576, default_buffer_size = 1000, max_channels = 10000, max_subscribers = 100000\<rparr>"

record 'c pubsub =
  ps_heap :: "'c subscriber list"
  ps_channels :: "(string \<times> channel) list"
  ps_subscribers :: "(u64 \<times> nat) list"
  ps_patterns :: "pattern_subscription list"
  ps_config :: pubsub_config
  total_messages_published :: u64
  total_messages_delivered :: u64
  ps_counter :: u64

definition pubsub_new :: "pubsub_config \<Rightarrow> u64 \<Rightarrow> 'c pubsub" where
  "pubsub_new cfg counter = \<lparr>ps_heap = [], ps_channels = [], ps_subscribers = [], ps_patterns = [], ps_config = cfg,
     total_messages_published = 0, total_messages_delivered = 0, ps_counter = counter\<rparr>"

definition get_or_create_channel :: "'c pubsub \<Rightarrow> string \<Rightarrow> 'c pubsub \<times> channel" where
  "get_or_create_channel s n =
     (case map_of (ps_channels s) n of
        Some ch \<Rightarrow> (s, ch)
      | None \<Rightarrow> (s\<lparr>ps_channels := al_put n (channel_new n) (ps_channels s)\<rparr>, channel_new n))"

definition get_or_create_subscriber :: "'c pubsub \<Rightarrow> u64 \<Rightarrow> 'c pubsub \<times> nat" where
  "get_or_create_subscriber s i =
     (case map_of (ps_subscribers s) i of
        Some a \<Rightarrow> (s, a)
      | None \<Rightarrow>
          (s\<lparr>ps_heap := ps_heap s @ [subscriber_new i (default_buffer_size (ps_config s))],
             ps_subscribers := al_put i (length (ps_heap s)) (ps_subscribers s)\<rparr>, length (ps_heap s)))"

definition subscribe :: "'c pubsub \<Rightarrow> u64 \<Rightarrow> string \<Rightarrow> 'c pubsub" where
  "subscribe s i n =
     (let (s1, a) = get_or_create_subscriber s i;
          (s2, ch) = get_or_create_channel s1 n
      in s2\<lparr>ps_channels := al_put n (channel_add_subscriber i a ch) (ps_channels s2)\<rparr>)"

definition unsubscribe :: "'c pubsub \<Rightarrow> u64 \<Rightarrow> string \<Rightarrow> 'c pubsub \<times> bool" where
  "unsubscribe s i n =
     (case map_of (ps_channels s) n of
        None \<Rightarrow> (s, False)
      | Some ch \<Rightarrow>
          (let (ch', b) = channel_remove_subscriber i ch in (s\<lparr>ps_channels := al_put n ch' (ps_channels s)\<rparr>, b)))"

definition psubscribe ::
  "(string \<Rightarrow> (string \<Rightarrow> bool) option) \<Rightarrow> 'c pubsub \<Rightarrow> u64 \<Rightarrow> string \<Rightarrow> 'c pubsub \<times> (pubsub_error, unit) result"
where
  "psubscribe rx s i p =
     (let (s1, _) = get_or_create_subscriber s i
      in case pattern_new rx i p of
           Inl e \<Rightarrow> (s1, Inl e)
         | Inr pt \<Rightarrow> (s1\<lparr>ps_patterns := ps_patterns s1 @ [pt]\<rparr>, Inr ()))"

definition punsubscribe :: "'c pubsub \<Rightarrow> u64 \<Rightarrow> string \<Rightarrow> 'c pubsub \<times> bool" where
  "punsubscribe s i p =
     (let ps = filter (\<lambda>pt. \<not> (pt_subscriber pt = i \<and> pt_str pt = p)) (ps_patterns s)
      in (s\<lparr>ps_patterns := ps\<rparr>, length ps < length (ps_patterns s)))"

fun deliver_patterns ::
  "'c send \<Rightarrow> (u64 \<times> nat) list \<Rightarrow> string \<Rightarrow> message \<Rightarrow> pattern_subscription list \<Rightarrow> 'c subscriber list \<times> nat \<Rightarrow>
   'c subscriber list \<times> nat"
where
  "deliver_patterns sd subs n m [] (h, t) = (h, t)"
| "deliver_patterns sd subs n m (pt # pts) (h, t) =
     deliver_patterns sd subs n m pts
       (if pattern_matches pt n then
          case map_of subs (pt_subscriber pt) of None \<Rightarrow> (h, t) | Some a \<Rightarrow> (deliver_at sd m a h, t + 1)
        else (h, t))"

definition publish ::
  "'c send \<Rightarrow> u64 \<Rightarrow> 'c pubsub \<Rightarrow> string \<Rightarrow> bytes \<Rightarrow> 'c pubsub \<times> (pubsub_error, nat) result"
where
  "publish sd now s n p =
     (if length p > max_message_size (ps_config s) then (s, Inl MessageTooLarge)
      else
        let (s1, t1) = (case map_of (ps_channels s) n of
               None \<Rightarrow> (s, 0)
             | Some ch \<Rightarrow>
                 (case channel_publish sd (ps_counter s) now (ps_heap s) ch p of
                    (c, h, ch', t) \<Rightarrow> (s\<lparr>ps_counter := c, ps_heap := h, ps_channels := al_put n ch' (ps_channels s)\<rparr>, t)));
            (c, m) = message_new (ps_counter s1) now n p;
            (h, t) = deliver_patterns sd (ps_subscribers s1) n m (ps_patterns s1) (ps_heap s1, t1)
        in (s1\<lparr>ps_counter := c, ps_heap := h, total_messages_published := total_messages_published s1 + 1,
              total_messages_delivered := total_messages_delivered s1 + of_nat t\<rparr>, Inr t))"

definition get_subscriber :: "'c pubsub \<Rightarrow> u64 \<Rightarrow> 'c subscriber option" where
  "get_subscriber s i = map_option ((!) (ps_heap s)) (map_of (ps_subscribers s) i)"

text \<open>A client reads its messages through the shared subscriber.\<close>

definition read_message :: "'c pubsub \<Rightarrow> u64 \<Rightarrow> 'c pubsub \<times> message option" where
  "read_message s i =
     (case map_of (ps_subscribers s) i of
        None \<Rightarrow> (s, None)
      | Some a \<Rightarrow> (let (b, m) = get_next_message (ps_heap s ! a) in (s\<lparr>ps_heap := (ps_heap s)[a := b]\<rparr>, m)))"

definition remove_subscriber :: "'c pubsub \<Rightarrow> u64 \<Rightarrow> 'c pubsub" where
  "remove_subscriber s i =
     s\<lparr>ps_channels := map (\<lambda>(n, ch). (n, fst (channel_remove_subscriber i ch))) (ps_channels s),
       ps_patterns := filter (\<lambda>pt. pt_subscriber pt \<noteq> i) (ps_patterns s),
       ps_subscribers := al_del i (ps_subscribers s)\<rparr>"

record pubsub_stats_snapshot =
  pss_channels :: u64
  pss_subscribers :: u64
  pss_published :: u64
  pss_delivered :: u64
  pss_dropped :: u64

definition calculate_total_dropped :: "'c pubsub \<Rightarrow> u64" where
  "calculate_total_dropped s = sum_list (map (\<lambda>(i, a). messages_dropped (ps_heap s ! a)) (ps_subscribers s))"

definition pubsub_get_stats :: "'c pubsub \<Rightarrow> pubsub_stats_snapshot" where
  "pubsub_get_stats s = \<lparr>pss_channels = of_nat (length (ps_channels s)), pss_subscribers = of_nat (length (ps_subscribers s)),
     pss_published = total_messages_published s, pss_delivered = total_messages_delivered s,
     pss_dropped = calculate_total_dropped s\<rparr>"

definition list_channels :: "'c pubsub \<Rightarrow> string list" where
  "list_channels s = map fst (ps_channels s)"

definition get_channel_stats :: "'c pubsub \<Rightarrow> string \<Rightarrow> channel_stats option" where
  "get_channel_stats s n = map_option channel_get_stats (map_of (ps_channels s) n)"

end
