(* ===== verification/Pub_Sub_Proofs.thy ===== *)
theory Pub_Sub_Proofs
  imports Pub_Sub "HOL-Library.Sublist"
begin

text \<open>
  Properties of publish and subscribe: the queue of a subscriber, the invariant of the shared
  tables, delivery to exactly the subscriptions of an abstract registry, and glob patterns.
\<close>

section \<open>The queue of a subscriber\<close>

datatype queue_op = QDeliver message | QNext

fun queue_run :: "'c send \<Rightarrow> queue_op list \<Rightarrow> 'c subscriber \<times> message list \<Rightarrow> 'c subscriber \<times> message list" where
  "queue_run sd [] st = st"
| "queue_run sd (QDeliver m # ops) (s, out) = queue_run sd ops (deliver_message sd s m, out)"
| "queue_run sd (QNext # ops) (s, out) =
     (case get_next_message s of (s', None) \<Rightarrow> queue_run sd ops (s', out) | (s', Some m) \<Rightarrow> queue_run sd ops (s', out @ [m]))"

fun delivered :: "queue_op list \<Rightarrow> message list" where
  "delivered [] = []"
| "delivered (QDeliver m # ops) = m # delivered ops"
| "delivered (QNext # ops) = delivered ops"

definition queue_inv :: "nat \<Rightarrow> message list \<Rightarrow> 'c subscriber \<times> message list \<Rightarrow> bool" where
  "queue_inv n ms st \<longleftrightarrow> (case st of (s, out) \<Rightarrow>
     sub_sender s = None \<and> max_queue_size s = n \<and> queue_len s \<le> n \<and> subseq (out @ sub_queue s) ms \<and>
     messages_received s = of_nat (length ms) \<and>
     messages_dropped s + of_nat (length out + queue_len s) = of_nat (length ms))"

lemma subseq_drop_tl:
  assumes "subseq (out @ q) ms" shows "subseq (out @ tl q) ms"
proof -
  have "subseq (tl q) q" by (cases q) auto
  then have "subseq (out @ tl q) (out @ q)" by (intro list_emb_append_mono) auto
  then show ?thesis using assms by (rule subseq_order.trans)
qed

lemma queue_inv_deliver:
  assumes "0 < n" and "queue_inv n ms (s, out)" shows "queue_inv n (ms @ [m]) (deliver_message sd s m, out)"
proof -
  have "subseq (out @ sub_queue s @ [m]) (ms @ [m])"
    using assms(2) by (simp add: queue_inv_def flip: append_assoc)
  moreover have "subseq (out @ tl (sub_queue s) @ [m]) (ms @ [m])"
    using assms(2) subseq_drop_tl by (simp add: queue_inv_def flip: append_assoc) blast
  ultimately show ?thesis using assms
    by (cases "sub_queue s") (auto simp: queue_inv_def deliver_message_def enqueue_def queue_len_def Let_def algebra_simps)
qed

lemma queue_inv_next:
  assumes "queue_inv n ms (s, out)" and "get_next_message s = (s', r)"
  shows "queue_inv n ms (s', case r of None \<Rightarrow> out | Some m \<Rightarrow> out @ [m])"
  using assms by (auto simp: queue_inv_def get_next_message_def queue_len_def algebra_simps split: list.splits)

lemma queue_inv_run:
  assumes "0 < n" shows "queue_inv n ms st \<Longrightarrow> queue_inv n (ms @ delivered ops) (queue_run sd ops st)"
proof (induction ops arbitrary: ms st)
  case (Cons op ops)
  obtain s out where st: "st = (s, out)" by (cases st)
  show ?case
  proof (cases op)
    case (QDeliver m)
    from Cons.IH [OF queue_inv_deliver [OF assms Cons.prems [unfolded st]]] show ?thesis by (simp add: QDeliver st)
  next
    case QNext
    obtain s' r where r: "get_next_message s = (s', r)" by (cases "get_next_message s")
    from Cons.IH [OF queue_inv_next [OF Cons.prems [unfolded st] r]] show ?thesis
      by (cases r) (simp_all add: QNext st r)
  qed
qed simp

text \<open>
  A subscriber with a queue of n messages, whatever is delivered and read in whatever order:
  what has been read followed by what is waiting is a subsequence of the delivered messages in
  their order, the queue never holds more than n, and the messages that are missing are exactly as
  many as the counter of dropped messages says.
\<close>

theorem queue_fifo_with_losses:
  assumes "0 < n" and "queue_run sd ops (subscriber_new i n, []) = (s, out)"
  shows "subseq (out @ sub_queue s) (delivered ops) \<and> queue_len s \<le> n \<and>
    messages_received s = of_nat (length (delivered ops)) \<and>
    messages_dropped s = of_nat (length (delivered ops)) - of_nat (length out + queue_len s)"
proof -
  have "queue_inv n [] (subscriber_new i n, [])" by (simp add: queue_inv_def subscriber_new_def queue_len_def)
  from queue_inv_run [OF assms(1) this, of ops sd] assms(2) show ?thesis by (simp add: queue_inv_def eq_diff_eq)
qed

definition example_message :: "u64 \<Rightarrow> message" where
  "example_message i = \<lparr>msg_channel = ''c'', msg_payload = [1], msg_timestamp = 0, msg_id = i\<rparr>"

theorem queue_fifo_with_losses_witness:
  "\<exists>s :: unit subscriber. queue_run (\<lambda>c m. (c, True)) [QDeliver (example_message 1), QDeliver (example_message 2), QDeliver (example_message 3), QNext]
     (subscriber_new 7 2, []) = (s, [example_message 2]) \<and> sub_queue s = [example_message 3] \<and>
     subseq [example_message 2, example_message 3] [example_message 1, example_message 2, example_message 3] \<and> messages_dropped s = 1"
proof -
  have "\<exists>s :: unit subscriber. queue_run (\<lambda>c m. (c, True)) [QDeliver (example_message 1), QDeliver (example_message 2), QDeliver (example_message 3), QNext]
     (subscriber_new 7 2, []) = (s, [example_message 2]) \<and> sub_queue s = [example_message 3]"
    by (simp add: subscriber_new_def deliver_message_def enqueue_def get_next_message_def)
  then obtain s :: "unit subscriber" where s: "queue_run (\<lambda>c m. (c, True)) [QDeliver (example_message 1), QDeliver (example_message 2), QDeliver (example_message 3), QNext]
     (subscriber_new 7 2, []) = (s, [example_message 2])" "sub_queue s = [example_message 3]" by blast
  from queue_fifo_with_losses [OF _ s(1)] s show ?thesis by (intro exI [of _ s]) (simp add: queue_len_def)
qed

section \<open>The system and its registry\<close>

datatype pubsub_op =
    OpSubscribe u64 string
  | OpUnsubscribe u64 string
  | OpPsubscribe u64 string
  | OpPunsubscribe u64 string
  | OpPublish u64 string bytes
  | OpRead u64
  | OpRemove u64

type_synonym regex = "string \<Rightarrow> (string \<Rightarrow> bool) option"

fun pubsub_step :: "regex \<Rightarrow> 'c send \<Rightarrow> 'c pubsub \<Rightarrow> pubsub_op \<Rightarrow> 'c pubsub" where
  "pubsub_step rx sd s (OpSubscribe i n) = subscribe s i n"
| "pubsub_step rx sd s (OpUnsubscribe i n) = fst (unsubscribe s i n)"
| "pubsub_step rx sd s (OpPsubscribe i p) = fst (psubscribe rx s i p)"
| "pubsub_step rx sd s (OpPunsubscribe i p) = fst (punsubscribe s i p)"
| "pubsub_step rx sd s (OpPublish now n p) = fst (publish sd now s n p)"
| "pubsub_step rx sd s (OpRead i) = fst (read_message s i)"
| "pubsub_step rx sd s (OpRemove i) = remove_subscriber s i"

text \<open>The registry a client has in mind: who is subscribed to which channel and to which patterns.\<close>

record registry =
  reg_channels :: "(u64 \<times> string) set"
  reg_patterns :: "(u64 \<times> string) list"

definition glob_matcher :: "regex \<Rightarrow> string \<Rightarrow> (string \<Rightarrow> bool) option" where
  "glob_matcher rx p = rx (''^'' @ glob_to_regex p @ ''$'')"

fun registry_step :: "regex \<Rightarrow> registry \<Rightarrow> pubsub_op \<Rightarrow> registry" where
  "registry_step rx r (OpSubscribe i n) = r\<lparr>reg_channels := insert (i, n) (reg_channels r)\<rparr>"
| "registry_step rx r (OpUnsubscribe i n) = r\<lparr>reg_channels := reg_channels r - {(i, n)}\<rparr>"
| "registry_step rx r (OpPsubscribe i p) =
     (if glob_matcher rx p = None then r else r\<lparr>reg_patterns := reg_patterns r @ [(i, p)]\<rparr>)"
| "registry_step rx r (OpPunsubscribe i p) = r\<lparr>reg_patterns := filter (\<lambda>x. x \<noteq> (i, p)) (reg_patterns r)\<rparr>"
| "registry_step rx r (OpRemove i) =
     r\<lparr>reg_channels := {x \<in> reg_channels r. fst x \<noteq> i}, reg_patterns := filter (\<lambda>x. fst x \<noteq> i) (reg_patterns r)\<rparr>"
| "registry_step rx r _ = r"

definition reg_matches :: "regex \<Rightarrow> string \<Rightarrow> u64 \<times> string \<Rightarrow> bool" where
  "reg_matches rx n x \<longleftrightarrow> (case glob_matcher rx (snd x) of None \<Rightarrow> False | Some f \<Rightarrow> f n)"

text \<open>
  The invariant ties the tables to the registry: channel tables hold the addresses of the table of
  subscribers, an address belongs to the subscriber whose id it was made for, and the counter of a
  channel is the number of its subscribers.
\<close>

definition heap_ok :: "'c subscriber list \<Rightarrow> (u64 \<times> nat) list \<Rightarrow> bool" where
  "heap_ok h subs \<longleftrightarrow> distinct (map fst subs) \<and> (\<forall>s \<in> set h. sub_sender s = None) \<and>
     (\<forall>i a. map_of subs i = Some a \<longrightarrow> a < length h \<and> sub_id (h ! a) = i)"

definition channel_ok :: "(u64 \<times> nat) list \<Rightarrow> (u64 \<times> string) set \<Rightarrow> string \<Rightarrow> channel \<Rightarrow> bool" where
  "channel_ok subs reg n ch \<longleftrightarrow> ch_name ch = n \<and> distinct (map fst (ch_subscribers ch)) \<and>
     map_of (ch_subscribers ch) \<subseteq>\<^sub>m map_of subs \<and> ch_subscriber_count ch = of_nat (length (ch_subscribers ch)) \<and>
     (\<forall>i. (i, n) \<in> reg \<longleftrightarrow> i \<in> fst ` set (ch_subscribers ch))"

definition pattern_ok :: "regex \<Rightarrow> (u64 \<times> nat) list \<Rightarrow> pattern_subscription \<Rightarrow> bool" where
  "pattern_ok rx subs pt \<longleftrightarrow> map_of subs (pt_subscriber pt) \<noteq> None \<and> glob_matcher rx (pt_str pt) = Some (pt_matcher pt)"

definition pubsub_ok :: "regex \<Rightarrow> 'c pubsub \<Rightarrow> registry \<Rightarrow> bool" where
  "pubsub_ok rx s r \<longleftrightarrow> heap_ok (ps_heap s) (ps_subscribers s) \<and>
     (\<forall>n ch. map_of (ps_channels s) n = Some ch \<longrightarrow> channel_ok (ps_subscribers s) (reg_channels r) n ch) \<and>
     (\<forall>i n. (i, n) \<in> reg_channels r \<longrightarrow> map_of (ps_channels s) n \<noteq> None) \<and>
     (\<forall>pt \<in> set (ps_patterns s). pattern_ok rx (ps_subscribers s) pt) \<and>
     map (\<lambda>pt. (pt_subscriber pt, pt_str pt)) (ps_patterns s) = reg_patterns r"

definition registry_new :: registry where
  "registry_new = \<lparr>reg_channels = {}, reg_patterns = []\<rparr>"

lemma pubsub_ok_new: "pubsub_ok rx (pubsub_new cfg c) registry_new"
  by (simp add: pubsub_ok_def pubsub_new_def registry_new_def heap_ok_def)

subsection \<open>Delivery\<close>

definition deliver_all :: "'c send \<Rightarrow> (message \<times> nat) list \<Rightarrow> 'c subscriber list \<Rightarrow> 'c subscriber list" where
  "deliver_all sd mas h = fold (\<lambda>(m, a). deliver_at sd m a) mas h"

lemma deliver_all_nth:
  "a < length h \<Longrightarrow> length (deliver_all sd mas h) = length h \<and>
   deliver_all sd mas h ! a = foldl (deliver_message sd) (h ! a) (map fst (filter (\<lambda>x. snd x = a) mas))"
proof (induction mas arbitrary: h)
  case (Cons x mas)
  have "a < length (deliver_at sd (fst x) (snd x) h)" using Cons.prems by (simp add: deliver_at_def)
  from Cons.IH [OF this] Cons.prems show ?case
    by (cases x) (auto simp: deliver_all_def deliver_at_def nth_list_update)
qed (simp add: deliver_all_def)

lemma channel_publish_all:
  "channel_publish sd c now h ch p =
     (c + 1, deliver_all sd (map (\<lambda>x. (snd (message_new c now (ch_name ch) p), snd x)) (ch_subscribers ch)) h,
      ch\<lparr>ch_message_count := ch_message_count ch + 1\<rparr>, length (ch_subscribers ch))"
  by (simp add: channel_publish_def deliver_all_def message_new_def fold_map comp_def case_prod_beta)

lemma deliver_patterns_all:
  "\<forall>pt \<in> set pts. map_of subs (pt_subscriber pt) \<noteq> None \<Longrightarrow>
   deliver_patterns sd subs n m pts (h, t) =
     (deliver_all sd (map (\<lambda>pt. (m, the (map_of subs (pt_subscriber pt)))) (filter (\<lambda>pt. pattern_matches pt n) pts)) h,
      t + length (filter (\<lambda>pt. pattern_matches pt n) pts))"
  by (induction pts arbitrary: h t) (auto simp: deliver_all_def)

lemma foldl_deliver:
  "sub_sender b = None \<Longrightarrow>
   sub_sender (foldl (deliver_message sd) b ms) = None \<and> sub_id (foldl (deliver_message sd) b ms) = sub_id b \<and>
   messages_received (foldl (deliver_message sd) b ms) = messages_received b + of_nat (length ms) \<and>
   (ms \<noteq> [] \<longrightarrow> sub_queue (foldl (deliver_message sd) b ms) \<noteq> [] \<and> last (sub_queue (foldl (deliver_message sd) b ms)) = last ms)"
proof (induction ms arbitrary: b)
  case (Cons m ms)
  have d: "sub_sender (deliver_message sd b m) = None" "sub_id (deliver_message sd b m) = sub_id b"
    "messages_received (deliver_message sd b m) = messages_received b + 1" "last (sub_queue (deliver_message sd b m)) = m"
    "sub_queue (deliver_message sd b m) \<noteq> []"
    using Cons.prems by (simp_all add: deliver_message_def enqueue_def Let_def)
  show ?case using Cons.IH [OF d(1)] d by (cases "ms = []") (auto simp: algebra_simps)
qed simp

lemma heap_ok_update:
  assumes "heap_ok h subs" and "a < length h" and "sub_sender b = None" and "sub_id b = sub_id (h ! a)"
  shows "heap_ok (h[a := b]) subs"
  using assms set_update_subset_insert [of h a b] by (auto simp: heap_ok_def nth_list_update subset_iff)

lemma heap_ok_deliver_all: "heap_ok h subs \<Longrightarrow> heap_ok (deliver_all sd mas h) subs"
proof (induction mas arbitrary: h)
  case (Cons x mas)
  have "heap_ok (deliver_at sd (fst x) (snd x) h) subs"
  proof (cases "snd x < length h")
    case True
    then have "sub_sender (h ! snd x) = None" using Cons.prems by (auto simp: heap_ok_def)
    from heap_ok_update [OF Cons.prems True] foldl_deliver [OF this, of sd "[fst x]"] show ?thesis by (simp add: deliver_at_def)
  qed (use Cons.prems in \<open>simp add: deliver_at_def list_update_beyond not_less\<close>)
  from Cons.IH [OF this] show ?case by (simp add: deliver_all_def case_prod_beta)
qed (simp add: deliver_all_def)

definition deliveries :: "u64 \<Rightarrow> 'c pubsub \<Rightarrow> string \<Rightarrow> bytes \<Rightarrow> (message \<times> nat) list" where
  "deliveries now s n p =
     (let chs = (case map_of (ps_channels s) n of None \<Rightarrow> [] | Some ch \<Rightarrow> ch_subscribers ch);
          c = (case map_of (ps_channels s) n of None \<Rightarrow> ps_counter s | Some ch \<Rightarrow> ps_counter s + 1)
      in map (\<lambda>x. (snd (message_new (ps_counter s) now n p), snd x)) chs @
         map (\<lambda>pt. (snd (message_new c now n p), the (map_of (ps_subscribers s) (pt_subscriber pt))))
           (filter (\<lambda>pt. pattern_matches pt n) (ps_patterns s)))"

lemma publish_as_delivery:
  assumes ok: "pubsub_ok rx s r" and len: "length p \<le> max_message_size (ps_config s)"
  shows "\<exists>s'. publish sd now s n p = (s', Inr (length (deliveries now s n p))) \<and>
    ps_heap s' = deliver_all sd (deliveries now s n p) (ps_heap s) \<and> ps_subscribers s' = ps_subscribers s \<and>
    ps_patterns s' = ps_patterns s \<and>
    map_of (ps_channels s') = (case map_of (ps_channels s) n of None \<Rightarrow> map_of (ps_channels s)
      | Some ch \<Rightarrow> (map_of (ps_channels s))(n \<mapsto> ch\<lparr>ch_message_count := ch_message_count ch + 1\<rparr>))"
proof -
  have pts: "\<forall>pt \<in> set (ps_patterns s). map_of (ps_subscribers s) (pt_subscriber pt) \<noteq> None"
    using ok by (auto simp: pubsub_ok_def pattern_ok_def)
  have name: "ch_name ch = n" if "map_of (ps_channels s) n = Some ch" for ch
    using ok that by (auto simp: pubsub_ok_def channel_ok_def)
  show ?thesis
    using len name
    by (cases "map_of (ps_channels s) n")
      (simp_all add: publish_def channel_publish_all deliver_patterns_all [OF pts] deliveries_def message_new_def deliver_all_def map_of_al_put not_less)
qed

lemma pubsub_ok_publish:
  assumes "pubsub_ok rx s r" shows "pubsub_ok rx (fst (publish sd now s n p)) r"
proof (cases "length p \<le> max_message_size (ps_config s)")
  case True
  from publish_as_delivery [OF assms True] obtain s' where s': "publish sd now s n p = (s', Inr (length (deliveries now s n p)))"
    "ps_heap s' = deliver_all sd (deliveries now s n p) (ps_heap s)" "ps_subscribers s' = ps_subscribers s"
    "ps_patterns s' = ps_patterns s"
    "map_of (ps_channels s') = (case map_of (ps_channels s) n of None \<Rightarrow> map_of (ps_channels s)
      | Some ch \<Rightarrow> (map_of (ps_channels s))(n \<mapsto> ch\<lparr>ch_message_count := ch_message_count ch + 1\<rparr>))" by blast
  with assms show ?thesis
    by (auto simp: pubsub_ok_def heap_ok_deliver_all channel_ok_def split: option.splits)
qed (use assms in \<open>simp add: publish_def\<close>)

subsection \<open>The other operations\<close>

lemma heap_ok_new_subscriber:
  assumes "heap_ok h subs" and "map_of subs i = None"
  shows "heap_ok (h @ [subscriber_new i n]) (al_put i (length h) subs)"
  using assms by (auto simp: heap_ok_def subscriber_new_def distinct_al_put map_of_al_put nth_append split: if_splits)
    (metis less_irrefl less_trans_Suc less_Suc_eq)+

lemma pubsub_ok_get_or_create:
  assumes "pubsub_ok rx s r" and "get_or_create_subscriber s i = (s', a)"
  shows "pubsub_ok rx s' r \<and> map_of (ps_subscribers s') i = Some a \<and> ps_channels s' = ps_channels s"
proof (cases "map_of (ps_subscribers s) i")
  case None
  have "map_of (ps_subscribers s) \<subseteq>\<^sub>m map_of (al_put i b (ps_subscribers s))" for b
    using None by (auto simp: map_le_def map_of_al_put)
  then have "channel_ok (al_put i b (ps_subscribers s)) reg n ch" if "channel_ok (ps_subscribers s) reg n ch" for reg n ch b
    using that map_le_trans by (auto simp: channel_ok_def)
  with assms None heap_ok_new_subscriber [of "ps_heap s"] show ?thesis
    by (auto simp: get_or_create_subscriber_def pubsub_ok_def pattern_ok_def map_of_al_put)
qed (use assms in \<open>simp add: get_or_create_subscriber_def\<close>)

lemma channel_ok_add:
  assumes "channel_ok subs reg n ch" and "map_of subs i = Some a"
  shows "channel_ok subs (insert (i, n) reg) n (channel_add_subscriber i a ch)"
proof -
  have "length (al_put i a xs) = length xs + (if map_of xs i = None then 1 else 0)" for xs :: "(u64 \<times> nat) list"
    by (induction xs) auto
  with assms show ?thesis
    by (auto simp: channel_ok_def channel_add_subscriber_def Let_def distinct_al_put map_of_al_put keys_al_put map_le_def)
qed

lemma channel_ok_remove:
  assumes "channel_ok subs reg n ch" shows "channel_ok subs (reg - {(i, n)}) n (fst (channel_remove_subscriber i ch))"
proof (cases "map_of (ch_subscribers ch) i")
  case None
  then show ?thesis using assms by (auto simp: channel_ok_def channel_remove_subscriber_def map_of_eq_None_iff)
next
  case (Some a)
  have "length (al_del i xs) + 1 = length xs" if "distinct (map fst xs)" "map_of xs i = Some a" for xs :: "(u64 \<times> nat) list"
    using that
  proof (induction xs)
    case (Cons x xs)
    show ?case
    proof (cases "fst x = i")
      case True
      then have "al_del i xs = xs" using Cons.prems by (auto simp: al_del_def image_iff intro!: filter_True)
      with True show ?thesis by (cases x) (simp add: al_del_def)
    qed (use Cons in \<open>auto simp: al_del_def split: if_splits\<close>)
  qed simp
  from this [OF _ Some] assms have "of_nat (length (al_del i (ch_subscribers ch))) + (1 :: u64) = of_nat (length (ch_subscribers ch))"
    by (metis channel_ok_def of_nat_1 of_nat_add)
  then have "of_nat (length (ch_subscribers ch)) - (1 :: u64) = of_nat (length (al_del i (ch_subscribers ch)))" by (simp add: diff_eq_eq)
  with assms Some show ?thesis
    by (auto simp: channel_ok_def channel_remove_subscriber_def distinct_al_del map_of_al_del keys_al_del map_le_def split: if_splits)
qed

lemma channel_ok_other: "channel_ok subs reg m ch \<Longrightarrow> (\<And>i. (i, m) \<in> reg' \<longleftrightarrow> (i, m) \<in> reg) \<Longrightarrow> channel_ok subs reg' m ch"
  by (simp add: channel_ok_def)

lemma pubsub_ok_subscribe:
  assumes "pubsub_ok rx s r" shows "pubsub_ok rx (subscribe s i n) (r\<lparr>reg_channels := insert (i, n) (reg_channels r)\<rparr>)"
proof -
  obtain s1 a where s1: "get_or_create_subscriber s i = (s1, a)" by (cases "get_or_create_subscriber s i")
  from pubsub_ok_get_or_create [OF assms s1] have ok: "pubsub_ok rx s1 r" and a: "map_of (ps_subscribers s1) i = Some a" by simp_all
  define ch where "ch = (case map_of (ps_channels s1) n of None \<Rightarrow> channel_new n | Some ch \<Rightarrow> ch)"
  have none: "(j, n) \<notin> reg_channels r" if "map_of (ps_channels s1) n = None" for j
    using ok that unfolding pubsub_ok_def by force
  then have "channel_ok (ps_subscribers s1) (reg_channels r) n ch"
    using ok by (auto simp: ch_def pubsub_ok_def channel_new_def channel_ok_def split: option.splits)
  from channel_ok_add [OF this a]
  have new: "channel_ok (ps_subscribers s1) (insert (i, n) (reg_channels r)) n (channel_add_subscriber i a ch)" .
  have old: "channel_ok (ps_subscribers s1) (insert (i, n) (reg_channels r)) m c"
    if "map_of (ps_channels s1) m = Some c" "m \<noteq> n" for m c
    using ok that by (auto simp: pubsub_ok_def intro: channel_ok_other)
  have "map_of (ps_channels (subscribe s i n)) = (map_of (ps_channels s1))(n \<mapsto> channel_add_subscriber i a ch)"
    "ps_heap (subscribe s i n) = ps_heap s1" "ps_subscribers (subscribe s i n) = ps_subscribers s1"
    "ps_patterns (subscribe s i n) = ps_patterns s1"
    by (auto simp: subscribe_def s1 get_or_create_channel_def ch_def map_of_al_put split: option.splits)
  with ok new old show ?thesis by (auto simp: pubsub_ok_def)
qed

lemma pubsub_ok_unsubscribe:
  assumes "pubsub_ok rx s r" shows "pubsub_ok rx (fst (unsubscribe s i n)) (r\<lparr>reg_channels := reg_channels r - {(i, n)}\<rparr>)"
proof (cases "map_of (ps_channels s) n")
  case None
  then have "(i, n) \<notin> reg_channels r" using assms unfolding pubsub_ok_def by force
  then show ?thesis using assms None by (simp add: unsubscribe_def)
next
  case (Some ch)
  then have "channel_ok (ps_subscribers s) (reg_channels r) n ch" using assms by (simp add: pubsub_ok_def)
  note new = channel_ok_remove [OF this, of i]
  have old: "channel_ok (ps_subscribers s) (reg_channels r - {(i, n)}) m c" if "map_of (ps_channels s) m = Some c" "m \<noteq> n" for m c
    using assms that by (auto simp: pubsub_ok_def intro: channel_ok_other)
  from new old assms Some show ?thesis
    by (auto simp: pubsub_ok_def unsubscribe_def map_of_al_put case_prod_beta)
qed

lemma pubsub_ok_psubscribe:
  assumes "pubsub_ok rx s r" shows "pubsub_ok rx (fst (psubscribe rx s i p)) (registry_step rx r (OpPsubscribe i p))"
proof -
  obtain s1 a where s1: "get_or_create_subscriber s i = (s1, a)" by (cases "get_or_create_subscriber s i")
  from pubsub_ok_get_or_create [OF assms s1] have ok: "pubsub_ok rx s1 r" and a: "map_of (ps_subscribers s1) i = Some a" by simp_all
  with s1 show ?thesis
    by (auto simp: psubscribe_def pattern_new_def glob_matcher_def pubsub_ok_def pattern_ok_def split: option.splits)
qed

lemma reg_patterns_filter:
  assumes "pubsub_ok rx s r"
  shows "filter P (reg_patterns r) = map (\<lambda>pt. (pt_subscriber pt, pt_str pt)) (filter (\<lambda>pt. P (pt_subscriber pt, pt_str pt)) (ps_patterns s))"
proof -
  have "reg_patterns r = map (\<lambda>pt. (pt_subscriber pt, pt_str pt)) (ps_patterns s)" using assms by (simp add: pubsub_ok_def)
  then show ?thesis by (simp add: filter_map comp_def)
qed

lemma pubsub_ok_punsubscribe:
  assumes "pubsub_ok rx s r" shows "pubsub_ok rx (fst (punsubscribe s i p)) (registry_step rx r (OpPunsubscribe i p))"
  using assms reg_patterns_filter [OF assms, of "\<lambda>x. x \<noteq> (i, p)"] by (simp add: pubsub_ok_def punsubscribe_def Let_def)

lemma pubsub_ok_read:
  assumes "pubsub_ok rx s r" shows "pubsub_ok rx (fst (read_message s i)) r"
proof (cases "map_of (ps_subscribers s) i")
  case (Some a)
  then have a: "a < length (ps_heap s)" "sub_sender (ps_heap s ! a) = None" "heap_ok (ps_heap s) (ps_subscribers s)"
    using assms by (auto simp: pubsub_ok_def heap_ok_def)
  have "sub_sender (fst (get_next_message b)) = sub_sender b \<and> sub_id (fst (get_next_message b)) = sub_id b" for b :: "'a subscriber"
    by (simp add: get_next_message_def split: list.split)
  with heap_ok_update [OF a(3,1)] a(2) assms Some show ?thesis
    by (auto simp: read_message_def pubsub_ok_def case_prod_beta)
qed (use assms in \<open>simp add: read_message_def\<close>)

lemma pubsub_ok_remove:
  assumes "pubsub_ok rx s r" shows "pubsub_ok rx (remove_subscriber s i) (registry_step rx r (OpRemove i))"
proof -
  let ?subs = "al_del i (ps_subscribers s)" and ?reg = "{x \<in> reg_channels r. fst x \<noteq> i}"
  have ch: "channel_ok ?subs ?reg n (fst (channel_remove_subscriber i ch))" if "map_of (ps_channels s) n = Some ch" for n ch
  proof -
    have "channel_ok (ps_subscribers s) (reg_channels r - {(i, n)}) n (fst (channel_remove_subscriber i ch))"
      using assms that by (intro channel_ok_remove) (simp add: pubsub_ok_def)
    moreover have "map_of (ch_subscribers (fst (channel_remove_subscriber i ch))) i = None"
      by (simp add: channel_remove_subscriber_def map_of_al_del)
    ultimately show ?thesis by (auto simp: channel_ok_def map_le_def map_of_al_del)
  qed
  have "map_of (ps_channels (remove_subscriber s i)) n = map_option (\<lambda>c. fst (channel_remove_subscriber i c)) (map_of (ps_channels s) n)" for n
    by (simp add: remove_subscriber_def map_of_map)
  moreover have "filter (\<lambda>x. fst x \<noteq> i) (reg_patterns r) =
    map (\<lambda>pt. (pt_subscriber pt, pt_str pt)) (filter (\<lambda>pt. pt_subscriber pt \<noteq> i) (ps_patterns s))"
    using reg_patterns_filter [OF assms, of "\<lambda>x. fst x \<noteq> i"] by simp
  ultimately show ?thesis using ch assms
    by (auto simp: pubsub_ok_def remove_subscriber_def heap_ok_def distinct_al_del map_of_al_del pattern_ok_def split: if_splits)
qed

lemmas pubsub_ok_ops = pubsub_ok_subscribe pubsub_ok_unsubscribe pubsub_ok_psubscribe pubsub_ok_punsubscribe pubsub_ok_publish
  pubsub_ok_read pubsub_ok_remove

lemma pubsub_ok_step: "pubsub_ok rx s r \<Longrightarrow> pubsub_ok rx (pubsub_step rx sd s op) (registry_step rx r op)"
  by (cases op) (simp_all only: pubsub_step.simps registry_step.simps(1,2,6,7) pubsub_ok_ops)

lemma pubsub_ok_run: "pubsub_ok rx s r \<Longrightarrow> pubsub_ok rx (foldl (pubsub_step rx sd) s ops) (foldl (registry_step rx) r ops)"
  by (induction ops arbitrary: s r) (simp_all add: pubsub_ok_step)

subsection \<open>Publishing\<close>

lemma distinct_key_count:
  "distinct (map fst xs) \<Longrightarrow> length (filter (\<lambda>x. fst x = i) xs) = (if i \<in> fst ` set xs then 1 else 0)"
  by (induction xs) (auto simp: image_iff)

text \<open>How often a publication on a channel reaches a subscriber of the registry.\<close>

definition reach_count :: "regex \<Rightarrow> registry \<Rightarrow> string \<Rightarrow> u64 \<Rightarrow> nat" where
  "reach_count rx r n i = (if (i, n) \<in> reg_channels r then 1 else 0) +
     length (filter (\<lambda>x. fst x = i \<and> reg_matches rx n x) (reg_patterns r))"

lemma pattern_reg_matches: "pattern_ok rx subs pt \<Longrightarrow> reg_matches rx n (pt_subscriber pt, pt_str pt) = pattern_matches pt n"
  by (simp add: pattern_ok_def reg_matches_def pattern_matches_def)

lemma length_pattern_filter:
  assumes "pubsub_ok rx s r"
  shows "length (filter (\<lambda>pt. P (pt_subscriber pt) \<and> pattern_matches pt n) (ps_patterns s)) =
    length (filter (\<lambda>x. P (fst x) \<and> reg_matches rx n x) (reg_patterns r))"
proof -
  have "filter (\<lambda>pt. P (pt_subscriber pt) \<and> pattern_matches pt n) (ps_patterns s) =
    filter (\<lambda>pt. P (pt_subscriber pt) \<and> reg_matches rx n (pt_subscriber pt, pt_str pt)) (ps_patterns s)"
    using assms by (intro filter_cong) (auto simp: pubsub_ok_def pattern_reg_matches)
  then show ?thesis using reg_patterns_filter [OF assms, of "\<lambda>x. P (fst x) \<and> reg_matches rx n x"] by simp
qed

lemma heap_ok_inj: "heap_ok h subs \<Longrightarrow> map_of subs i = Some a \<Longrightarrow> map_of subs j = Some a \<Longrightarrow> i = j"
  unfolding heap_ok_def by blast

lemma deliveries_to:
  assumes ok: "pubsub_ok rx s r" and a: "map_of (ps_subscribers s) i = Some a"
  shows "length (filter (\<lambda>x. snd x = a) (deliveries now s n p)) = reach_count rx r n i"
proof -
  have h: "heap_ok (ps_heap s) (ps_subscribers s)" using ok by (simp add: pubsub_ok_def)
  have the: "the (map_of (ps_subscribers s) (pt_subscriber pt)) = a \<longleftrightarrow> pt_subscriber pt = i" if pt: "pt \<in> set (ps_patterns s)" for pt
  proof -
    obtain b where "map_of (ps_subscribers s) (pt_subscriber pt) = Some b" using ok pt by (auto simp: pubsub_ok_def pattern_ok_def)
    then show ?thesis using a heap_ok_inj [OF h a, of "pt_subscriber pt"] by auto
  qed
  have "filter (\<lambda>pt. pattern_matches pt n \<and> the (map_of (ps_subscribers s) (pt_subscriber pt)) = a) (ps_patterns s) =
    filter (\<lambda>pt. pt_subscriber pt = i \<and> pattern_matches pt n) (ps_patterns s)"
    by (rule filter_cong) (auto simp: the)
  then have pats: "length (filter (\<lambda>pt. pattern_matches pt n \<and> the (map_of (ps_subscribers s) (pt_subscriber pt)) = a) (ps_patterns s)) =
    length (filter (\<lambda>x. fst x = i \<and> reg_matches rx n x) (reg_patterns r))"
    using length_pattern_filter [OF ok, of "\<lambda>j. j = i"] by simp
  show ?thesis
  proof (cases "map_of (ps_channels s) n")
    case None
    then have "(i, n) \<notin> reg_channels r" using ok unfolding pubsub_ok_def by force
    with None pats show ?thesis by (simp add: deliveries_def reach_count_def filter_map comp_def)
  next
    case (Some ch)
    then have c: "channel_ok (ps_subscribers s) (reg_channels r) n ch" using ok by (simp add: pubsub_ok_def)
    have "map_of (ps_subscribers s) j = Some b" if "(j, b) \<in> set (ch_subscribers ch)" for j b
      using c that by (auto simp: channel_ok_def map_le_def dom_def)
    then have key: "snd x = a \<longleftrightarrow> fst x = i" if "x \<in> set (ch_subscribers ch)" for x
      using that heap_ok_inj [OF h a, of "fst x"] a by (cases x) fastforce
    have "filter (\<lambda>x. snd x = a) (ch_subscribers ch) = filter (\<lambda>x. fst x = i) (ch_subscribers ch)"
      by (rule filter_cong) (simp_all add: key)
    with Some pats c show ?thesis
      by (simp add: deliveries_def reach_count_def filter_map comp_def distinct_key_count channel_ok_def)
  qed
qed

lemma deliveries_content: "x \<in> set (deliveries now s n p) \<Longrightarrow> msg_payload (fst x) = p \<and> msg_channel (fst x) = n"
  by (auto simp: deliveries_def message_new_def Let_def)

lemma length_deliveries:
  assumes "pubsub_ok rx s r"
  shows "length (deliveries now s n p) = card {i. (i, n) \<in> reg_channels r} + length (filter (reg_matches rx n) (reg_patterns r))"
proof -
  have pats: "length (filter (\<lambda>pt. pattern_matches pt n) (ps_patterns s)) = length (filter (reg_matches rx n) (reg_patterns r))"
    using length_pattern_filter [OF assms, of "\<lambda>_. True"] by simp
  show ?thesis
  proof (cases "map_of (ps_channels s) n")
    case None
    then have "{i. (i, n) \<in> reg_channels r} = {}" using assms unfolding pubsub_ok_def by force
    with None pats show ?thesis by (simp add: deliveries_def)
  next
    case (Some ch)
    then have c: "channel_ok (ps_subscribers s) (reg_channels r) n ch" using assms by (simp add: pubsub_ok_def)
    then have "{i. (i, n) \<in> reg_channels r} = set (map fst (ch_subscribers ch))" by (auto simp: channel_ok_def)
    then have "card {i. (i, n) \<in> reg_channels r} = length (ch_subscribers ch)"
      using c distinct_card [of "map fst (ch_subscribers ch)"] by (simp add: channel_ok_def)
    with Some pats show ?thesis by (simp add: deliveries_def)
  qed
qed

text \<open>
  C13. After any operations on a new system, publishing on a channel answers with the number of
  subscribers of the channel plus the number of matching pattern subscriptions of the registry;
  each subscriber receives the message exactly as often as the registry says, and the newest
  message in the queue of everyone reached is the published one.
\<close>

theorem publish_reaches_registry:
  assumes "s = foldl (pubsub_step rx sd) (pubsub_new cfg c) ops" and "r = foldl (registry_step rx) registry_new ops"
    and "length p \<le> max_message_size (ps_config s)"
  shows "\<exists>s'. publish sd now s n p =
      (s', Inr (card {i. (i, n) \<in> reg_channels r} + length (filter (reg_matches rx n) (reg_patterns r)))) \<and>
    (\<forall>i b. get_subscriber s i = Some b \<longrightarrow> (\<exists>b'. get_subscriber s' i = Some b' \<and>
       messages_received b' = messages_received b + of_nat (reach_count rx r n i) \<and>
       (if reach_count rx r n i = 0 then b' = b
        else msg_payload (last (sub_queue b')) = p \<and> msg_channel (last (sub_queue b')) = n)))"
proof -
  have ok: "pubsub_ok rx s r" unfolding assms(1,2) by (rule pubsub_ok_run [OF pubsub_ok_new])
  let ?d = "deliveries now s n p"
  from publish_as_delivery [OF ok assms(3)] obtain s' where s': "publish sd now s n p = (s', Inr (length ?d))"
    "ps_heap s' = deliver_all sd ?d (ps_heap s)" "ps_subscribers s' = ps_subscribers s" by blast
  have "\<exists>b'. get_subscriber s' i = Some b' \<and> messages_received b' = messages_received b + of_nat (reach_count rx r n i) \<and>
      (if reach_count rx r n i = 0 then b' = b else msg_payload (last (sub_queue b')) = p \<and> msg_channel (last (sub_queue b')) = n)"
    if b: "get_subscriber s i = Some b" for i b
  proof -
    from b obtain a where a: "map_of (ps_subscribers s) i = Some a" "b = ps_heap s ! a" by (auto simp: get_subscriber_def)
    then have len: "a < length (ps_heap s)" and none: "sub_sender b = None" using ok by (auto simp: pubsub_ok_def heap_ok_def)
    define ms where "ms = map fst (filter (\<lambda>x. snd x = a) ?d)"
    have b': "get_subscriber s' i = Some (foldl (deliver_message sd) b ms)"
      using a s' deliver_all_nth [OF len] by (simp add: get_subscriber_def ms_def)
    have k: "length ms = reach_count rx r n i" using deliveries_to [OF ok a(1)] by (simp add: ms_def)
    have "msg_payload m = p \<and> msg_channel m = n" if "m \<in> set ms" for m
      using that by (auto simp: ms_def dest!: deliveries_content)
    then have "msg_payload (last ms) = p \<and> msg_channel (last ms) = n" if "ms \<noteq> []"
      using last_in_set [OF that] by blast
    with foldl_deliver [OF none, of sd ms] k b' show ?thesis by (cases "ms = []") auto
  qed
  with s'(1) length_deliveries [OF ok] show ?thesis by (intro exI [of _ s']) simp
qed

theorem publish_reaches_registry_witness:
  "\<exists>s' :: unit pubsub. publish (\<lambda>c m. (c, True)) 9
     (foldl (pubsub_step (\<lambda>_. Some (\<lambda>_. True)) (\<lambda>c m. (c, True))) (pubsub_new pubsub_config_default 1)
        [OpSubscribe 1 ''c'', OpPsubscribe 2 ''*'', OpSubscribe 2 ''d'']) ''c'' [7] = (s', Inr 2)"
proof -
  let ?ops = "[OpSubscribe 1 ''c'', OpPsubscribe 2 ''*'', OpSubscribe 2 ''d'']"
  let ?rx = "\<lambda>_ :: string. Some (\<lambda>_ :: string. True)" and ?sd = "\<lambda>(c :: unit) (m :: message). (c, True)"
  have size: "length [7 :: u8] \<le> max_message_size (ps_config (foldl (pubsub_step ?rx ?sd) (pubsub_new pubsub_config_default 1) ?ops))"
    by (simp add: subscribe_def psubscribe_def pattern_new_def get_or_create_subscriber_def get_or_create_channel_def
        pubsub_new_def pubsub_config_default_def)
  have "{i :: u64. i = 2 \<and> ''c'' = ''d'' \<or> i = 1} = {1}" by auto
  with publish_reaches_registry [OF refl refl size, of 9 "''c''"] show ?thesis
    by (auto simp: registry_new_def glob_matcher_def reg_matches_def)
qed

section \<open>Patterns\<close>

datatype glob_item = GLit char | GAny | GStar

fun glob_match :: "glob_item list \<Rightarrow> string \<Rightarrow> bool" where
  "glob_match [] s \<longleftrightarrow> s = []"
| "glob_match (GLit c # g) [] \<longleftrightarrow> False"
| "glob_match (GLit c # g) (x # s) \<longleftrightarrow> x = c \<and> glob_match g s"
| "glob_match (GAny # g) [] \<longleftrightarrow> False"
| "glob_match (GAny # g) (x # s) \<longleftrightarrow> glob_match g s"
| "glob_match (GStar # g) [] \<longleftrightarrow> glob_match g []"
| "glob_match (GStar # g) (x # s) \<longleftrightarrow> glob_match g (x # s) \<or> glob_match (GStar # g) s"

fun item_text :: "glob_item \<Rightarrow> string" where
  "item_text (GLit c) = [c]"
| "item_text GAny = ''.''"
| "item_text GStar = ''.*''"

definition plain_char :: "char \<Rightarrow> bool" where
  "plain_char c \<longleftrightarrow> c \<notin> set ''.*?+()[]{}^$|'' \<and> c \<noteq> CHR 92 \<and> c \<noteq> CHR 10"

text \<open>
  What is documented of the regular expressions: an anchored sequence of plain characters, dots and
  dot-stars compiles, a plain character matches itself, a dot any character but a line break, and a
  dot-star any number of them.
\<close>

definition regex_ok :: "regex \<Rightarrow> bool" where
  "regex_ok rx \<longleftrightarrow> (\<forall>is. (\<forall>c. GLit c \<in> set is \<longrightarrow> plain_char c) \<longrightarrow>
     (\<exists>f. rx (''^'' @ concat (map item_text is) @ ''$'') = Some f \<and> (\<forall>s. CHR 10 \<notin> set s \<longrightarrow> f s = glob_match is s)))"

text \<open>The items a pattern is read as: a dot, like a question mark, is any one character.\<close>

definition pattern_item :: "char \<Rightarrow> glob_item" where
  "pattern_item c = (if c = CHR ''*'' then GStar else if c = CHR ''?'' \<or> c = CHR ''.'' then GAny else GLit c)"

lemma glob_to_regex_items: "glob_to_regex p = concat (map item_text (map pattern_item p))"
  by (induction p) (auto simp: glob_to_regex_def pattern_item_def Let_def)

text \<open>
  A pattern of plain characters, stars, question marks and dots is accepted and matches a
  channel name exactly when the name fits the pattern as a glob, in which a star stands for any
  text and a question mark for one character; but a dot also stands for any one character, because
  it is not escaped in the regular expression.
\<close>

theorem pattern_matches_glob:
  assumes "regex_ok rx" and "\<forall>c \<in> set p. plain_char c \<or> c \<in> set ''*?.''" and "CHR 10 \<notin> set n"
  shows "\<exists>pt. pattern_new rx i p = Inr pt \<and> pattern_matches pt n = glob_match (map pattern_item p) n"
proof -
  have "\<forall>c. GLit c \<in> set (map pattern_item p) \<longrightarrow> plain_char c"
    using assms(2) by (auto simp: pattern_item_def split: if_splits)
  then obtain f where "rx (''^'' @ glob_to_regex p @ ''$'') = Some f" "\<forall>s. CHR 10 \<notin> set s \<longrightarrow> f s = glob_match (map pattern_item p) s"
    using assms(1) unfolding regex_ok_def glob_to_regex_items by blast
  with assms(3) show ?thesis by (simp add: pattern_new_def pattern_matches_def)
qed

fun parse_items :: "string \<Rightarrow> glob_item list" where
  "parse_items [] = []"
| "parse_items (c # s) =
     (if c \<noteq> CHR ''.'' then GLit c # parse_items s
      else case s of [] \<Rightarrow> [GAny] | d # t \<Rightarrow> if d = CHR ''*'' then GStar # parse_items t else GAny # parse_items s)"

definition example_regex :: regex where
  "example_regex s = Some (glob_match (parse_items (butlast (tl s))))"

lemma parse_items_text: "\<forall>c. GLit c \<in> set is \<longrightarrow> plain_char c \<Longrightarrow> parse_items (concat (map item_text is)) = is"
proof (induction "is")
  case (Cons x xs)
  have IH: "parse_items (concat (map item_text xs)) = xs" using Cons by simp
  show ?case
  proof (cases x)
    case (GLit c)
    then have "plain_char c" using Cons.prems by simp
    with GLit IH show ?thesis by (simp add: plain_char_def)
  next
    case GAny
    have "xs = [] \<or> (\<exists>d t. concat (map item_text xs) = d # t \<and> d \<noteq> CHR ''*'')"
    proof (cases xs)
      case (Cons y ys)
      then show ?thesis using Cons.prems \<open>\<forall>c. GLit c \<in> set (x # xs) \<longrightarrow> plain_char c\<close> by (cases y) (auto simp: plain_char_def)
    qed simp
    moreover have "parse_items (concat (map item_text (x # xs))) = (case concat (map item_text xs) of [] \<Rightarrow> [GAny]
      | d # t \<Rightarrow> if d = CHR ''*'' then GStar # parse_items t else GAny # parse_items (concat (map item_text xs)))"
      using GAny by simp
    ultimately show ?thesis using GAny IH by (elim disjE exE conjE) simp_all
  qed (use IH in simp)
qed simp

lemma example_regex_ok: "regex_ok example_regex"
proof -
  have "example_regex (''^'' @ concat (map item_text is) @ ''$'') = Some (glob_match is)" if "\<forall>c. GLit c \<in> set is \<longrightarrow> plain_char c" for "is"
    using parse_items_text [OF that] by (simp add: example_regex_def)
  then show ?thesis unfolding regex_ok_def by blast
qed

theorem pattern_matches_glob_witness:
  "\<exists>pt. pattern_new example_regex 1 ''a.b*'' = Inr pt \<and> pattern_matches pt ''axbc''"
proof -
  have "\<forall>c \<in> set ''a.b*''. plain_char c \<or> c \<in> set ''*?.''" "CHR 10 \<notin> set ''axbc''" by (simp_all add: plain_char_def)
  from pattern_matches_glob [OF example_regex_ok this, of 1] show ?thesis by (auto simp: pattern_item_def)
qed

end
