(* ===== verification/Float64_Arith.thy ===== *)
theory Float64_Arith
  imports Float64_Ved
begin

text \<open>
  What the sources use of \<open>f64\<close> arithmetic: addition, division, minimum and maximum on bit patterns.
  A finite float is an integer multiple of the smallest positive one, 2 to the power -1074;
  results are exact rationals rounded to the nearest float, ties to even, with overflow to
  infinity. The standard leaves the bits of a result that is not a number open; here it is the
  quiet pattern.
\<close>

definition f64_inf :: nat where
  "f64_inf = 2047 * 2 ^ 52"

definition f64_pattern :: "bool \<Rightarrow> nat \<Rightarrow> u64" where
  "f64_pattern neg m = of_nat ((if neg then 2 ^ 63 else 0) + m)"

definition f64_nan :: u64 where
  "f64_nan = f64_pattern False (f64_inf + 2 ^ 51)"

text \<open>The units of a finite magnitude: subnormal numbers are their fraction, others have a hidden bit.\<close>

definition f64_units :: "nat \<Rightarrow> nat" where
  "f64_units m = (let e = m div 2 ^ 52; f = m mod 2 ^ 52 in if e = 0 then f else (2 ^ 52 + f) * 2 ^ (e - 1))"

definition f64_signed :: "u64 \<Rightarrow> int" where
  "f64_signed x = (if f64_neg x then - int (f64_units (f64_mag x)) else int (f64_units (f64_mag x)))"

definition f64_is_inf :: "u64 \<Rightarrow> bool" where
  "f64_is_inf x \<longleftrightarrow> f64_mag x = f64_inf"

text \<open>The magnitude nearest to \<open>p / q\<close> units.\<close>

definition f64_round :: "nat \<Rightarrow> nat \<Rightarrow> nat" where
  "f64_round p q =
     (let k = floorlog 2 (p div q) - 53; d = q * 2 ^ k; m = p div d; r = p mod d;
          up = (if d < 2 * r \<or> d = 2 * r \<and> odd m then 1 else 0)
      in min f64_inf (k * 2 ^ 52 + m + up))"

definition f64_add :: "u64 \<Rightarrow> u64 \<Rightarrow> u64" where
  "f64_add a b =
     (if f64_is_nan a \<or> f64_is_nan b then f64_nan
      else if f64_is_inf a \<and> f64_is_inf b then if f64_neg a = f64_neg b then a else f64_nan
      else if f64_is_inf a then a else if f64_is_inf b then b
      else let s = f64_signed a + f64_signed b
        in if s = 0 then f64_pattern (f64_neg a \<and> f64_neg b) 0
           else f64_pattern (s < 0) (f64_round (nat \<bar>s\<bar>) 1))"

definition f64_div :: "u64 \<Rightarrow> u64 \<Rightarrow> u64" where
  "f64_div a b =
     (let neg = (f64_neg a \<noteq> f64_neg b) in
      if f64_is_nan a \<or> f64_is_nan b then f64_nan
      else if f64_is_inf a then if f64_is_inf b then f64_nan else f64_pattern neg f64_inf
      else if f64_is_inf b then f64_pattern neg 0
      else if f64_mag b = 0 then if f64_mag a = 0 then f64_nan else f64_pattern neg f64_inf
      else f64_pattern neg (f64_round (f64_units (f64_mag a) * 2 ^ 1074) (f64_units (f64_mag b))))"

text \<open>The other argument when one is not a number.\<close>

definition f64_min :: "u64 \<Rightarrow> u64 \<Rightarrow> u64" where
  "f64_min a b = (if f64_is_nan a then b else if f64_is_nan b then a else if f64_lt b a then b else a)"

definition f64_max :: "u64 \<Rightarrow> u64 \<Rightarrow> u64" where
  "f64_max a b = (if f64_is_nan a then b else if f64_is_nan b then a else if f64_lt a b then b else a)"

section \<open>Exact sums of integers\<close>

lemma f64_of_nat_units:
  assumes "m < 2 ^ 53" shows "f64_units (f64_of_nat m) = m * 2 ^ 1074" "f64_of_nat m < f64_inf"
proof -
  show "f64_units (f64_of_nat m) = m * 2 ^ 1074"
  proof (cases "m = 0")
    case False
    define e where "e = floorlog 2 m - 1"
    have f: "f64_of_nat m = (e + 1022) * 2 ^ 52 + m * 2 ^ (52 - e)" "2 ^ 52 \<le> m * 2 ^ (52 - e)" "m * 2 ^ (52 - e) < 2 ^ 53" "e \<le> 52"
      using f64_of_nat_small [of m] False assms by (simp_all add: e_def)
    define g where "g = m * 2 ^ (52 - e) - 2 ^ 52"
    have g: "f64_of_nat m = (e + 1023) * 2 ^ 52 + g" "g < 2 ^ 52" "2 ^ 52 + g = m * 2 ^ (52 - e)"
      using f(1-3) by (simp_all add: g_def)
    then have "f64_of_nat m div 2 ^ 52 = e + 1023" "f64_of_nat m mod 2 ^ 52 = g"
      by (simp_all only: g(1) div_mult_self3 [OF power_not_zero [OF zero_neq_numeral [symmetric]]] mod_mult_self3 div_less [OF g(2)] mod_less [OF g(2)] add_0_right)
    then have "f64_units (f64_of_nat m) = m * 2 ^ (52 - e) * 2 ^ (e + 1022)"
      using g(3) by (simp add: f64_units_def)
    also have "\<dots> = m * 2 ^ ((52 - e) + (e + 1022))" by (simp only: power_add mult.assoc)
    also have "(52 - e) + (e + 1022) = 1074" using f(4) by simp
    finally show ?thesis .
  qed (simp add: f64_of_nat_def f64_units_def)
  show "f64_of_nat m < f64_inf"
  proof (cases "m = 0")
    case False
    with f64_of_nat_small [of m] assms show ?thesis by (simp add: f64_inf_def)
  qed (simp add: f64_of_nat_def f64_inf_def)
qed
lemma f64_round_nat:
  assumes "0 < m" and "m < 2 ^ 53" shows "f64_round (m * 2 ^ 1074) 1 = f64_of_nat m"
proof -
  define e where "e = floorlog 2 m - 1"
  have f: "f64_of_nat m = (e + 1022) * 2 ^ 52 + m * 2 ^ (52 - e)" "e \<le> 52"
    using f64_of_nat_small [OF assms] by (simp_all add: e_def)
  have fl: "floorlog 2 (m * 2 ^ 1074) = e + 1075"
  proof -
    have "0 < floorlog 2 m" using assms(1) by (simp add: floorlog_def)
    then have "floorlog 2 m + 1074 = e + 1075" by (simp add: e_def)
    moreover have "(1 :: nat) < 2" by simp
    ultimately show ?thesis by (simp only: floorlog_power [of m 2 1074, OF assms(1)])
  qed
  have split: "m * 2 ^ 1074 = m * 2 ^ (52 - e) * 2 ^ (e + 1022)"
    using f(2) by (simp only: mult.assoc flip: power_add) simp
  have k: "floorlog 2 (m * 2 ^ 1074 div 1) - 53 = e + 1022" using fl by simp
  have "m * 2 ^ 1074 div (1 * 2 ^ (e + 1022)) = m * 2 ^ (52 - e)" "m * 2 ^ 1074 mod (1 * 2 ^ (e + 1022)) = 0"
    unfolding split by simp_all
  then show ?thesis
    using f64_of_nat_units(2) [OF assms(2)] unfolding f64_round_def Let_def k by (simp add: f(1))
qed

lemma f64_pattern_parts:
  assumes "m < 2 ^ 63" shows "f64_mag (f64_pattern neg m) = m" "f64_neg (f64_pattern neg m) = neg"
proof -
  have u: "unat (f64_pattern neg m) = (if neg then 2 ^ 63 else 0) + m"
    unfolding f64_pattern_def unat_of_nat using assms by (intro mod_less) auto
  show "f64_mag (f64_pattern neg m) = m" using assms by (simp add: f64_mag_def u)
  show "f64_neg (f64_pattern neg m) = neg" using assms by (simp add: f64_neg_def u)
qed

lemma f64_of_int_pattern: "f64_of_int i = f64_pattern (i < 0) (f64_of_nat (nat \<bar>i\<bar>))"
  by (simp add: f64_of_int_def f64_pattern_def)

lemma f64_of_int_finite:
  assumes "\<bar>i\<bar> < 2 ^ 53"
  shows "\<not> f64_is_nan (f64_of_int i)" "\<not> f64_is_inf (f64_of_int i)" "f64_signed (f64_of_int i) = i * 2 ^ 1074"
    "f64_neg (f64_of_int i) = (i < 0)"
proof -
  have m: "nat \<bar>i\<bar> < 2 ^ 53" using assms by (simp add: nat_less_iff)
  have u: "f64_units (f64_of_nat (nat \<bar>i\<bar>)) = nat \<bar>i\<bar> * 2 ^ 1074" and lt: "f64_of_nat (nat \<bar>i\<bar>) < f64_inf"
    using f64_of_nat_units [OF m] by blast+
  have "f64_of_nat (nat \<bar>i\<bar>) < 2 ^ 63" using lt by (simp add: f64_inf_def)
  note p = f64_pattern_parts [OF this]
  show "\<not> f64_is_nan (f64_of_int i)" "\<not> f64_is_inf (f64_of_int i)" "f64_neg (f64_of_int i) = (i < 0)"
    using lt by (simp_all add: f64_of_int_pattern f64_is_nan_def f64_is_inf_def f64_inf_def p)
  have "int (nat \<bar>i\<bar> * 2 ^ 1074) = \<bar>i\<bar> * 2 ^ 1074" by (simp only: of_nat_mult of_nat_power of_nat_numeral int_nat_eq) simp
  then show "f64_signed (f64_of_int i) = i * 2 ^ 1074"
    unfolding f64_signed_def f64_of_int_pattern p u by (cases "i < 0") simp_all
qed

text \<open>Sums of integers that stay below 2 to the 53 are exact.\<close>

lemma f64_add_int:
  assumes "\<bar>a\<bar> < 2 ^ 53" and "\<bar>b\<bar> < 2 ^ 53" and "\<bar>a + b\<bar> < 2 ^ 53"
  shows "f64_add (f64_of_int a) (f64_of_int b) = f64_of_int (a + b)"
proof -
  let ?u = "2 ^ 1074 :: int"
  have pos: "0 < ?u" by simp
  have s: "f64_signed (f64_of_int a) + f64_signed (f64_of_int b) = (a + b) * ?u"
    unfolding f64_of_int_finite(3) [OF assms(1)] f64_of_int_finite(3) [OF assms(2)] by (simp only: distrib_right)
  show ?thesis
  proof (cases "a + b = 0")
    case True
    then have "f64_pattern (a < 0 \<and> b < 0) 0 = f64_pattern False 0" by (intro arg_cong [where f = "\<lambda>x. f64_pattern x 0"]) auto
    moreover have "f64_signed (f64_of_int a) + f64_signed (f64_of_int b) = 0" using s True by simp
    ultimately show ?thesis
      using True f64_of_int_finite(1,2,4) [OF assms(1)] f64_of_int_finite(1,2,4) [OF assms(2)]
      by (simp add: f64_add_def f64_of_int_pattern [of 0] f64_of_nat_def del: not_less)
  next
    case False
    have n: "nat \<bar>(a + b) * ?u\<bar> = nat \<bar>a + b\<bar> * 2 ^ 1074"
      by (simp only: abs_mult abs_of_pos [OF pos] nat_mult_distrib [OF abs_ge_zero] nat_power_eq [OF zero_le_numeral] nat_numeral)
    have "f64_round (nat \<bar>(a + b) * ?u\<bar>) 1 = f64_of_nat (nat \<bar>a + b\<bar>)"
      unfolding n using False assms(3) by (intro f64_round_nat) (simp_all add: nat_less_iff)
    moreover have "((a + b) * ?u = 0) = False" "((a + b) * ?u < 0) = (a + b < 0)"
      using False pos by (simp_all only: mult_eq_0_iff mult_less_0_iff) auto
    ultimately show ?thesis
      unfolding f64_add_def s Let_def f64_of_int_pattern [of "a + b"]
      by (simp only: f64_of_int_finite(1,2) [OF assms(1)] f64_of_int_finite(1,2) [OF assms(2)] if_False simp_thms)
  qed
qed

end
