(* ===== verification/Aggregation_Ved.thy ===== *)
theory Aggregation_Ved
  imports Float64_Arith Json_Ved Stable_Sort
begin

text \<open>
  The aggregation pipeline (\<open>veddb-core/src/aggregation.rs\<close>). Iterators are lists; hash maps of fields
  are lists in their iteration order, and \<open>ord\<close> is the order in which the map of groups is
  iterated. \<open>dbg\<close> and \<open>jdbg\<close> are the debug texts of values and JSON, \<open>ids\<close> the fresh ids of new
  documents per stage, \<open>now\<close> the time.
\<close>

datatype aggregate_op = AggSum json | AggCount | AggAvg string | AggMin string | AggMax string

datatype pipeline_stage =
    StMatch json
  | StProject "(string \<times> int) list"
  | StSort "(string \<times> int) list"
  | StLimit nat
  | StSkip nat
  | StGroup json "(string \<times> aggregate_op) list"

datatype aggregation_error = InvalidStage string | InvalidOperation string | ExecutionError string

section \<open>Values\<close>

fun json_to_doc_value :: "json \<Rightarrow> ved_value" where
  "json_to_doc_value JNull = Null"
| "json_to_doc_value (JBool b) = Bool b"
| "json_to_doc_value (JNumber n) =
     (case num_i64 n of Some i \<Rightarrow> Int64 i | None \<Rightarrow> (case num_f64 n of Some f \<Rightarrow> Float64 f | None \<Rightarrow> Int64 0))"
| "json_to_doc_value (JString s) = Str s"
| "json_to_doc_value (JArray js) = Array (map json_to_doc_value js)"
| "json_to_doc_value (JObject es) = Object (fold (\<lambda>(k, v) m. bt_insert k v m) (map (\<lambda>(k, j). (k, json_to_doc_value j)) es) [])"

definition agg_compare_values :: "ved_value option \<Rightarrow> ved_value option \<Rightarrow> cmp_ordering" where
  "agg_compare_values a b =
     (case (a, b) of
        (None, None) \<Rightarrow> Equal
      | (None, Some _) \<Rightarrow> Less
      | (Some _, None) \<Rightarrow> Greater
      | (Some (Int32 x), Some (Int32 y)) \<Rightarrow> cmp_of (sint x) (sint y)
      | (Some (Int64 x), Some (Int64 y)) \<Rightarrow> cmp_of (sint x) (sint y)
      | (Some (Float64 x), Some (Float64 y)) \<Rightarrow> (case f64_partial_cmp x y of None \<Rightarrow> Equal | Some c \<Rightarrow> c)
      | (Some (Str x), Some (Str y)) \<Rightarrow> cmp_of x y
      | (Some (Bool x), Some (Bool y)) \<Rightarrow> cmp_of x y
      | _ \<Rightarrow> Equal)"

text \<open>The first known operator of the object decides; without one the values are compared.\<close>

fun operator_loop :: "ved_value \<Rightarrow> (string \<times> ved_value) list \<Rightarrow> bool option" where
  "operator_loop a [] = None"
| "operator_loop a ((k, v) # es) =
     (let c = agg_compare_values (Some a) (Some v) in
      if k = ''$eq'' then Some (value_eq a v)
      else if k = ''$ne'' then Some (\<not> value_eq a v)
      else if k = ''$gt'' then Some (c = Greater)
      else if k = ''$gte'' then Some (c = Greater \<or> c = Equal)
      else if k = ''$lt'' then Some (c = Less)
      else if k = ''$lte'' then Some (c = Less \<or> c = Equal)
      else if k = ''$in'' then Some (case as_array v of Some xs \<Rightarrow> list_ex (\<lambda>x. value_eq x a) xs | None \<Rightarrow> False)
      else operator_loop a es)"

definition value_matches :: "ved_value option \<Rightarrow> ved_value \<Rightarrow> bool" where
  "value_matches actual e =
     (case actual of
        None \<Rightarrow> False
      | Some a \<Rightarrow>
          (case as_object e of
             None \<Rightarrow> value_eq a e
           | Some es \<Rightarrow> (case operator_loop a es of Some b \<Rightarrow> b | None \<Rightarrow> value_eq a e)))"

definition agg_matches_filter :: "document \<Rightarrow> ved_value \<Rightarrow> bool" where
  "agg_matches_filter d f =
     (case as_object f of
        None \<Rightarrow> False | Some es \<Rightarrow> list_all (\<lambda>(k, e). value_matches (doc_get d k) e) es)"

section \<open>Stages\<close>

definition apply_match :: "document list \<Rightarrow> json \<Rightarrow> document list" where
  "apply_match ds f = filter (\<lambda>d. agg_matches_filter d (json_to_doc_value f)) ds"

definition project_one :: "document_id \<Rightarrow> int \<Rightarrow> (string \<times> int) list \<Rightarrow> document \<Rightarrow> document" where
  "project_one i now fs d =
     (if fs = [] then d
      else let p0 = with_id i now;
               p1 = (if map_of fs ''_id'' \<noteq> Some 0
                     then (case doc_get d ''_id'' of Some v \<Rightarrow> fst (doc_insert now p0 ''_id'' v) | None \<Rightarrow> p0) else p0)
           in fold (\<lambda>(f, inc) p. if inc \<noteq> 0 \<and> f \<noteq> ''_id''
                then (case doc_get d f of Some v \<Rightarrow> fst (doc_insert now p f v) | None \<Rightarrow> p) else p) fs p1)"

definition apply_project :: "(nat \<Rightarrow> document_id) \<Rightarrow> int \<Rightarrow> document list \<Rightarrow> (string \<times> int) list \<Rightarrow> document list" where
  "apply_project ids now ds fs = map2 (\<lambda>n d. project_one (ids n) now fs d) [0..<length ds] ds"

fun agg_compare_docs :: "(string \<times> int) list \<Rightarrow> document \<Rightarrow> document \<Rightarrow> cmp_ordering" where
  "agg_compare_docs [] a b = Equal"
| "agg_compare_docs ((f, dir) # fs) a b =
     (let c = agg_compare_values (doc_get a f) (doc_get b f); c' = (if dir < 0 then cmp_reverse c else c)
      in if c' \<noteq> Equal then c' else agg_compare_docs fs a b)"

definition MAX_SORT_DOCS :: nat where
  "MAX_SORT_DOCS = 1000000"

definition agg_apply_sort :: "document list \<Rightarrow> (string \<times> int) list \<Rightarrow> document list" where
  "agg_apply_sort ds fs = sort_by (\<lambda>a b. agg_compare_docs fs a b \<noteq> Greater) (take MAX_SORT_DOCS ds)"

section \<open>Groups\<close>

record accumulator_state =
  as_op :: aggregate_op
  as_sum :: u64
  as_count :: nat
  as_min :: "u64 option"
  as_max :: "u64 option"

definition accumulator_new :: "aggregate_op \<Rightarrow> accumulator_state" where
  "accumulator_new op = \<lparr>as_op = op, as_sum = 0, as_count = 0, as_min = None, as_max = None\<rparr>"

definition to_number :: "ved_value \<Rightarrow> u64" where
  "to_number v = (case v of Int32 i \<Rightarrow> f64_of_int (sint i) | Int64 i \<Rightarrow> f64_of_int (sint i) | Float64 f \<Rightarrow> f | _ \<Rightarrow> 0)"

definition strip_dollar :: "string \<Rightarrow> string option" where
  "strip_dollar s = (if s \<noteq> [] \<and> hd s = CHR ''$'' then Some (tl s) else None)"

definition accumulator_add :: "accumulator_state \<Rightarrow> document \<Rightarrow> accumulator_state" where
  "accumulator_add st d =
     (case as_op st of
        AggSum r \<Rightarrow>
          (case Option.bind (json_as_str r) strip_dollar of
             None \<Rightarrow> st
           | Some f \<Rightarrow> (case doc_get d f of None \<Rightarrow> st | Some v \<Rightarrow> st\<lparr>as_sum := f64_add (as_sum st) (to_number v)\<rparr>))
      | AggCount \<Rightarrow> st\<lparr>as_count := as_count st + 1\<rparr>
      | AggAvg f \<Rightarrow>
          (case doc_get d f of
             None \<Rightarrow> st | Some v \<Rightarrow> st\<lparr>as_sum := f64_add (as_sum st) (to_number v), as_count := as_count st + 1\<rparr>)
      | AggMin f \<Rightarrow>
          (case doc_get d f of
             None \<Rightarrow> st
           | Some v \<Rightarrow> st\<lparr>as_min := Some (case as_min st of None \<Rightarrow> to_number v | Some m \<Rightarrow> f64_min m (to_number v))\<rparr>)
      | AggMax f \<Rightarrow>
          (case doc_get d f of
             None \<Rightarrow> st
           | Some v \<Rightarrow> st\<lparr>as_max := Some (case as_max st of None \<Rightarrow> to_number v | Some m \<Rightarrow> f64_max m (to_number v))\<rparr>))"

definition accumulator_value :: "accumulator_state \<Rightarrow> ved_value" where
  "accumulator_value st =
     (case as_op st of
        AggSum _ \<Rightarrow> Float64 (as_sum st)
      | AggCount \<Rightarrow> Int64 (of_nat (as_count st))
      | AggAvg _ \<Rightarrow> if as_count st > 0 then Float64 (f64_div (as_sum st) (f64_of_int (int (as_count st)))) else Float64 0
      | AggMin _ \<Rightarrow> Float64 (case as_min st of None \<Rightarrow> 0 | Some m \<Rightarrow> m)
      | AggMax _ \<Rightarrow> Float64 (case as_max st of None \<Rightarrow> 0 | Some m \<Rightarrow> m))"

record group_accumulator =
  ga_key :: string
  ga_fields :: "(string \<times> accumulator_state) list"

definition group_new :: "string \<Rightarrow> group_accumulator" where
  "group_new k = \<lparr>ga_key = k, ga_fields = []\<rparr>"

definition accumulate :: "string \<Rightarrow> aggregate_op \<Rightarrow> document \<Rightarrow> group_accumulator \<Rightarrow> group_accumulator" where
  "accumulate f op d g =
     (let st = (case map_of (ga_fields g) f of None \<Rightarrow> accumulator_new op | Some st \<Rightarrow> st)
      in g\<lparr>ga_fields := al_put f (accumulator_add st d) (ga_fields g)\<rparr>)"

definition group_to_document :: "document_id \<Rightarrow> int \<Rightarrow> group_accumulator \<Rightarrow> document" where
  "group_to_document i now g =
     fold (\<lambda>(f, st) d. fst (doc_insert now d f (accumulator_value st))) (ga_fields g)
       (fst (doc_insert now (with_id i now) ''_id'' (Str (ga_key g))))"

definition extract_group_key :: "(ved_value \<Rightarrow> string) \<Rightarrow> (json \<Rightarrow> string) \<Rightarrow> document \<Rightarrow> json \<Rightarrow> string" where
  "extract_group_key dbg jdbg d gb =
     (case json_as_str gb of
        None \<Rightarrow> jdbg gb
      | Some s \<Rightarrow>
          (case strip_dollar s of
             None \<Rightarrow> s | Some f \<Rightarrow> (case doc_get d f of None \<Rightarrow> s | Some v \<Rightarrow> dbg v)))"

definition MAX_GROUP_SIZE :: nat where
  "MAX_GROUP_SIZE = 100000"

fun group_loop ::
  "(document \<Rightarrow> string) \<Rightarrow> (string \<times> aggregate_op) list \<Rightarrow> document list \<Rightarrow> (string \<times> group_accumulator) list \<Rightarrow>
   (aggregation_error, (string \<times> group_accumulator) list) result"
where
  "group_loop key accs [] gs = Inr gs"
| "group_loop key accs (d # ds) gs =
     (let k = key d in
      if map_of gs k = None \<and> MAX_GROUP_SIZE \<le> length gs then Inl (ExecutionError ''Group size limit exceeded'')
      else let g = (case map_of gs k of None \<Rightarrow> group_new k | Some g \<Rightarrow> g)
        in group_loop key accs ds (al_put k (fold (\<lambda>(f, op). accumulate f op d) accs g) gs))"

definition apply_group ::
  "(ved_value \<Rightarrow> string) \<Rightarrow> (json \<Rightarrow> string) \<Rightarrow> ((string \<times> group_accumulator) list \<Rightarrow> (string \<times> group_accumulator) list) \<Rightarrow>
   (nat \<Rightarrow> document_id) \<Rightarrow> int \<Rightarrow> document list \<Rightarrow> json \<Rightarrow> (string \<times> aggregate_op) list \<Rightarrow> (aggregation_error, document list) result"
where
  "apply_group dbg jdbg ord ids now ds gb accs =
     map_sum id (\<lambda>gs. map2 (\<lambda>n (k, g). group_to_document (ids n) now g) [0..<length gs] (ord gs))
       (group_loop (\<lambda>d. extract_group_key dbg jdbg d gb) accs ds [])"

section \<open>The pipeline\<close>

fun run_stages ::
  "(ved_value \<Rightarrow> string) \<Rightarrow> (json \<Rightarrow> string) \<Rightarrow> ((string \<times> group_accumulator) list \<Rightarrow> (string \<times> group_accumulator) list) \<Rightarrow>
   (nat \<Rightarrow> nat \<Rightarrow> document_id) \<Rightarrow> int \<Rightarrow> nat \<Rightarrow> pipeline_stage list \<Rightarrow> document list \<Rightarrow> (aggregation_error, document list) result"
where
  "run_stages dbg jdbg ord ids now n [] ds = Inr ds"
| "run_stages dbg jdbg ord ids now n (st # sts) ds =
     (case (case st of
              StMatch f \<Rightarrow> Inr (apply_match ds f)
            | StProject fs \<Rightarrow> Inr (apply_project (ids n) now ds fs)
            | StSort fs \<Rightarrow> Inr (agg_apply_sort ds fs)
            | StLimit c \<Rightarrow> Inr (take c ds)
            | StSkip c \<Rightarrow> Inr (drop c ds)
            | StGroup gb accs \<Rightarrow> apply_group dbg jdbg ord (ids n) now ds gb accs) of
        Inl e \<Rightarrow> Inl e | Inr ds' \<Rightarrow> run_stages dbg jdbg ord ids now (Suc n) sts ds')"

definition MAX_RESULT_DOCS :: nat where
  "MAX_RESULT_DOCS = 100000"

definition pipeline_execute ::
  "(ved_value \<Rightarrow> string) \<Rightarrow> (json \<Rightarrow> string) \<Rightarrow> ((string \<times> group_accumulator) list \<Rightarrow> (string \<times> group_accumulator) list) \<Rightarrow>
   (nat \<Rightarrow> nat \<Rightarrow> document_id) \<Rightarrow> int \<Rightarrow> pipeline_stage list \<Rightarrow> document list \<Rightarrow> (aggregation_error, document list) result"
where
  "pipeline_execute dbg jdbg ord ids now sts ds = map_sum id (take MAX_RESULT_DOCS) (run_stages dbg jdbg ord ids now 0 sts ds)"

section \<open>Properties\<close>

subsection \<open>Grouping\<close>

text \<open>The reference: each accumulator runs over the documents of its group, in order.\<close>

definition accumulate_all :: "aggregate_op \<Rightarrow> document list \<Rightarrow> accumulator_state" where
  "accumulate_all op ds = fold (\<lambda>d st. accumulator_add st d) ds (accumulator_new op)"

definition group_ref :: "(string \<times> aggregate_op) list \<Rightarrow> string \<Rightarrow> document list \<Rightarrow> group_accumulator" where
  "group_ref accs k ds = \<lparr>ga_key = k, ga_fields = map (\<lambda>(f, op). (f, accumulate_all op ds)) accs\<rparr>"

lemma al_put_append: "k \<notin> fst ` set pre \<Longrightarrow> al_put k v (pre @ xs) = pre @ al_put k v xs"
  by (induction pre) auto

lemma accumulate_new:
  "distinct (map fst pre @ map fst accs) \<Longrightarrow>
   fold (\<lambda>(f, op). accumulate f op d) accs \<lparr>ga_key = k, ga_fields = pre\<rparr> =
     \<lparr>ga_key = k, ga_fields = pre @ map (\<lambda>(f, op). (f, accumulate_all op [d])) accs\<rparr>"
proof (induction accs arbitrary: pre)
  case (Cons a accs)
  obtain f op where a: "a = (f, op)" by (cases a)
  have "f \<notin> fst ` set pre" using Cons.prems a by auto
  then have "accumulate f op d \<lparr>ga_key = k, ga_fields = pre\<rparr> = \<lparr>ga_key = k, ga_fields = pre @ [(f, accumulate_all op [d])]\<rparr>"
    using al_put_append [of f pre _ "[]"] by (simp add: accumulate_def accumulate_all_def map_of_eq_None_iff [THEN iffD2])
  with Cons.IH [of "pre @ [(f, accumulate_all op [d])]"] Cons.prems show ?case by (simp add: a)
qed simp

lemma accumulate_more:
  "distinct (map fst pre @ map fst accs) \<Longrightarrow>
   fold (\<lambda>(f, op). accumulate f op d) accs \<lparr>ga_key = k, ga_fields = pre @ map (\<lambda>(f, op). (f, accumulate_all op ds)) accs\<rparr> =
     \<lparr>ga_key = k, ga_fields = pre @ map (\<lambda>(f, op). (f, accumulate_all op (ds @ [d]))) accs\<rparr>"
proof (induction accs arbitrary: pre)
  case (Cons a accs)
  obtain f op where a: "a = (f, op)" by (cases a)
  have "f \<notin> fst ` set pre" using Cons.prems a by auto
  moreover from this have "map_of pre f = None" by (simp add: map_of_eq_None_iff)
  ultimately have "accumulate f op d \<lparr>ga_key = k, ga_fields = pre @ map (\<lambda>(f, op). (f, accumulate_all op ds)) (a # accs)\<rparr> =
    \<lparr>ga_key = k, ga_fields = (pre @ [(f, accumulate_all op (ds @ [d]))]) @ map (\<lambda>(f, op). (f, accumulate_all op ds)) accs\<rparr>"
    by (simp add: a accumulate_def accumulate_all_def al_put_append map_add_def)
  with Cons.IH [of "pre @ [(f, accumulate_all op (ds @ [d]))]"] Cons.prems show ?case by (simp add: a)
qed simp

definition groups_ok :: "(document \<Rightarrow> string) \<Rightarrow> (string \<times> aggregate_op) list \<Rightarrow> document list \<Rightarrow> (string \<times> group_accumulator) list \<Rightarrow> bool" where
  "groups_ok key accs ps gs \<longleftrightarrow> distinct (map fst gs) \<and> fst ` set gs = key ` set ps \<and>
     (\<forall>k. k \<in> key ` set ps \<longrightarrow> map_of gs k = Some (group_ref accs k (filter (\<lambda>d. key d = k) ps)))"

lemma groups_ok_step:
  fixes d
  assumes ok: "groups_ok key accs ps gs" and accs: "distinct (map fst accs)"
  defines "k \<equiv> key d"
  defines "g \<equiv> (case map_of gs k of None \<Rightarrow> group_new k | Some g \<Rightarrow> g)"
  shows "groups_ok key accs (ps @ [d]) (al_put k (fold (\<lambda>(f, op). accumulate f op d) accs g) gs)"
proof -
  have new: "fold (\<lambda>(f, op). accumulate f op d) accs g = group_ref accs k (filter (\<lambda>d. key d = k) (ps @ [d]))"
  proof (cases "map_of gs k")
    case None
    then have "k \<notin> key ` set ps" using ok by (auto simp: groups_ok_def)
    then have "filter (\<lambda>d. key d = k) ps = []" by (auto simp: filter_empty_conv)
    with None accumulate_new [of "[]" accs d k] accs show ?thesis by (simp add: g_def group_new_def group_ref_def k_def)
  next
    case (Some h)
    then have "k \<in> fst ` set gs" by (metis map_of_eq_None_iff option.distinct(1))
    then have "map_of gs k = Some (group_ref accs k (filter (\<lambda>d. key d = k) ps))"
      using ok unfolding groups_ok_def by blast
    then have "h = group_ref accs k (filter (\<lambda>d. key d = k) ps)" using Some by simp
    with Some accumulate_more [of "[]" accs d k] accs show ?thesis by (simp add: g_def group_ref_def k_def)
  qed
  have "filter (\<lambda>d. key d = j) (ps @ [d]) = filter (\<lambda>d. key d = j) ps" if "j \<noteq> k" for j using that by (simp add: k_def)
  with ok new show ?thesis
    by (auto simp: groups_ok_def distinct_al_put keys_al_put map_of_al_put k_def)
qed

lemma groups_ok_length: "groups_ok key accs ps gs \<Longrightarrow> length gs = card (key ` set ps)"
  using distinct_card [of "map fst gs"] by (auto simp: groups_ok_def)

lemma group_loop_ok:
  assumes "distinct (map fst accs)"
  shows "groups_ok key accs ps gs \<Longrightarrow> card (key ` set (ps @ ds)) \<le> MAX_GROUP_SIZE \<Longrightarrow>
    \<exists>gs'. group_loop key accs ds gs = Inr gs' \<and> groups_ok key accs (ps @ ds) gs'"
proof (induction ds arbitrary: ps gs)
  case (Cons d ds)
  have "\<not> (map_of gs (key d) = None \<and> MAX_GROUP_SIZE \<le> length gs)"
  proof
    assume a: "map_of gs (key d) = None \<and> MAX_GROUP_SIZE \<le> length gs"
    then have "key d \<notin> key ` set ps" using Cons.prems(1) by (auto simp: groups_ok_def)
    then have "card (key ` set (ps @ [d])) = Suc (length gs)" using groups_ok_length [OF Cons.prems(1)] by simp
    moreover have "card (key ` set (ps @ [d])) \<le> card (key ` set (ps @ d # ds))" by (intro card_mono) auto
    ultimately show False using a Cons.prems(2) by simp
  qed
  with Cons.IH [OF groups_ok_step [OF Cons.prems(1) assms], of d] Cons.prems(2) show ?case by (simp add: Let_def)
qed simp

lemma agg_get_insert: "doc_get (fst (doc_insert now d k v)) j = (if j = k then Some v else doc_get d j)"
  by (simp add: doc_get_def doc_insert_def update_metadata_def map_of_bt_insert)

lemma doc_get_fold_insert:
  "distinct (map fst fs) \<Longrightarrow>
   doc_get (fold (\<lambda>(f, st) d. fst (doc_insert now d f (val st))) fs d) j =
     (case map_of fs j of Some st \<Rightarrow> Some (val st) | None \<Rightarrow> doc_get d j)"
proof (induction fs arbitrary: d)
  case (Cons a fs)
  obtain f st where a: "a = (f, st)" by (cases a)
  have "map_of fs f = None" using Cons.prems by (simp add: a map_of_eq_None_iff)
  with Cons show ?case by (simp add: a agg_get_insert split: option.split)
qed simp

lemma doc_get_with_id: "doc_get (with_id i now) j = None"
  by (simp add: doc_get_def with_id_def)

lemma doc_get_group:
  "distinct (map fst (ga_fields g)) \<Longrightarrow>
   doc_get (group_to_document i now g) j = (case map_of (ga_fields g) j of Some st \<Rightarrow> Some (accumulator_value st)
     | None \<Rightarrow> if j = ''_id'' then Some (Str (ga_key g)) else None)"
  unfolding group_to_document_def
  by (simp add: doc_get_fold_insert agg_get_insert doc_get_with_id split: option.split)

text \<open>
  C24. Grouping: when there are no more groups than the limit, the stage succeeds with one document
  per group key, and in the document of a group every accumulator has the value it gets from
  running over the documents with that key in their order; the limit counts groups, not documents.
\<close>

theorem group_stage_correct:
  fixes dbg jdbg gb ds
  defines "key \<equiv> (\<lambda>d. extract_group_key dbg jdbg d gb)"
  assumes "card (key ` set ds) \<le> MAX_GROUP_SIZE" and "distinct (map fst accs)" and "''_id'' \<notin> fst ` set accs"
    and "\<forall>gs. mset (ord gs) = mset gs"
  shows "\<exists>rs. apply_group dbg jdbg ord ids now ds gb accs = Inr rs \<and> length rs = card (key ` set ds) \<and>
    (\<forall>k. k \<in> key ` set ds \<longrightarrow> (\<exists>r. r \<in> set rs \<and> doc_get r ''_id'' = Some (Str k) \<and>
       (\<forall>f op. (f, op) \<in> set accs \<longrightarrow> doc_get r f = Some (accumulator_value (accumulate_all op (filter (\<lambda>d. key d = k) ds))))))"
proof -
  have "groups_ok key accs [] []" by (simp add: groups_ok_def)
  from group_loop_ok [OF assms(3) this, of ds] assms(2) obtain gs where
    gs: "group_loop key accs ds [] = Inr gs" "groups_ok key accs ds gs" by auto
  define rs where "rs = map2 (\<lambda>n (k, g). group_to_document (ids n) now g) [0..<length gs] (ord gs)"
  have len: "length (ord gs) = length gs" using assms(5) by (metis size_mset)
  have "\<exists>r. r \<in> set rs \<and> doc_get r ''_id'' = Some (Str k) \<and>
      (\<forall>f op. (f, op) \<in> set accs \<longrightarrow> doc_get r f = Some (accumulator_value (accumulate_all op (filter (\<lambda>d. key d = k) ds))))"
    if k: "k \<in> key ` set ds" for k
  proof -
    let ?g = "group_ref accs k (filter (\<lambda>d. key d = k) ds)"
    have "map_of gs k = Some ?g" using gs(2) k by (simp add: groups_ok_def)
    then have "(k, ?g) \<in> set (ord gs)" using assms(5) by (metis map_of_SomeD mset_eq_setD)
    then obtain n where n: "n < length gs" "ord gs ! n = (k, ?g)" using len by (auto simp: in_set_conv_nth)
    then have "rs ! n = group_to_document (ids n) now ?g" "n < length rs" using len by (simp_all add: rs_def)
    then have r: "group_to_document (ids n) now ?g \<in> set rs" by (metis nth_mem)
    have keys: "map fst (ga_fields ?g) = map fst accs" by (simp add: group_ref_def comp_def case_prod_beta)
    have get: "doc_get (group_to_document (ids n) now ?g) j = (case map_of (ga_fields ?g) j of Some st \<Rightarrow> Some (accumulator_value st)
        | None \<Rightarrow> if j = ''_id'' then Some (Str (ga_key ?g)) else None)" for j
      using keys assms(3) by (intro doc_get_group) simp
    have "map_of (ga_fields ?g) ''_id'' = None" using assms(4) keys by (metis map_of_eq_None_iff list.set_map)
    moreover have "map_of (ga_fields ?g) f = Some (accumulate_all op (filter (\<lambda>d. key d = k) ds))" if "(f, op) \<in> set accs" for f op
    proof (rule map_of_is_SomeI)
      show "distinct (map fst (ga_fields ?g))" using keys assms(3) by simp
      show "(f, accumulate_all op (filter (\<lambda>d. key d = k) ds)) \<in> set (ga_fields ?g)"
        using that by (force simp: group_ref_def)
    qed
    moreover have "ga_key ?g = k" by (simp add: group_ref_def)
    ultimately show ?thesis using r by (intro exI [of _ "group_to_document (ids n) now ?g"]) (simp add: get)
  qed
  moreover have "apply_group dbg jdbg ord ids now ds gb accs = Inr rs" using gs(1) by (simp add: apply_group_def key_def rs_def)
  moreover have "length rs = card (key ` set ds)" using len groups_ok_length [OF gs(2)] by (simp add: rs_def)
  ultimately show ?thesis by blast
qed

definition example_agg_doc :: "u64 \<Rightarrow> string \<Rightarrow> u64 \<Rightarrow> document" where
  "example_agg_doc i c n = \<lparr>doc_id = ucast i, doc_fields = [(''c'', Str c), (''n'', Int64 n)], metadata = metadata_default 0\<rparr>"

definition example_dbg :: "ved_value \<Rightarrow> string" where
  "example_dbg v = (case v of Str s \<Rightarrow> s | _ \<Rightarrow> [])"

theorem group_stage_correct_witness:
  "\<exists>rs r. apply_group example_dbg (\<lambda>_. []) id (\<lambda>_. 0) 0 [example_agg_doc 1 ''x'' 5, example_agg_doc 2 ''y'' 6, example_agg_doc 3 ''x'' 7]
      (JString ''$c'') [(''k'', AggCount)] = Inr rs \<and> length rs = 2 \<and> r \<in> set rs \<and>
    doc_get r ''_id'' = Some (Str ''x'') \<and> doc_get r ''k'' = Some (Int64 2)"
proof -
  let ?ds = "[example_agg_doc 1 ''x'' 5, example_agg_doc 2 ''y'' 6, example_agg_doc 3 ''x'' 7]"
  let ?key = "\<lambda>d. extract_group_key example_dbg (\<lambda>_. []) d (JString ''$c'')"
  have key: "?key (example_agg_doc i c n) = c" for i c n
    by (simp add: extract_group_key_def json_as_str_def strip_dollar_def doc_get_def example_agg_doc_def example_dbg_def)
  have img: "?key ` set ?ds = {''x'', ''y''}" by (auto simp: key)
  have f: "filter (\<lambda>d. ?key d = ''x'') ?ds = [example_agg_doc 1 ''x'' 5, example_agg_doc 3 ''x'' 7]" by (simp add: key)
  have v: "accumulator_value (accumulate_all AggCount [a, b]) = Int64 2" for a b
    by (simp add: accumulate_all_def accumulator_new_def accumulator_add_def accumulator_value_def)
  have le: "card (?key ` set ?ds) \<le> MAX_GROUP_SIZE" unfolding img by (simp add: MAX_GROUP_SIZE_def)
  have "\<exists>rs. apply_group example_dbg (\<lambda>_. []) id (\<lambda>_. 0) 0 ?ds (JString ''$c'') [(''k'', AggCount)] = Inr rs \<and> length rs = card (?key ` set ?ds) \<and>
    (\<forall>k. k \<in> ?key ` set ?ds \<longrightarrow> (\<exists>r. r \<in> set rs \<and> doc_get r ''_id'' = Some (Str k) \<and>
       (\<forall>f op. (f, op) \<in> set [(''k'', AggCount)] \<longrightarrow> doc_get r f = Some (accumulator_value (accumulate_all op (filter (\<lambda>d. ?key d = k) ?ds))))))"
    by (rule group_stage_correct [OF le]) simp_all
  then show ?thesis unfolding img using f v by (auto dest!: spec [of _ "''x''"])
qed

subsection \<open>Sums\<close>

definition int_field :: "document \<Rightarrow> string \<Rightarrow> int" where
  "int_field d f = (case doc_get d f of Some (Int32 i) \<Rightarrow> sint i | Some (Int64 i) \<Rightarrow> sint i | _ \<Rightarrow> 0)"

lemma f64_of_int_zero: "f64_of_int 0 = 0"
  by (simp add: f64_of_int_def f64_of_nat_def)

lemma to_number_int_field: "doc_get d f = Some v \<Longrightarrow> \<forall>x. v \<noteq> Float64 x \<Longrightarrow> to_number v = f64_of_int (int_field d f)"
  by (cases v) (simp_all add: to_number_def int_field_def f64_of_int_zero)

lemma sum_fold_exact:
  fixes f
  defines "op \<equiv> AggSum (JString (CHR ''$'' # f))"
  shows "\<forall>d \<in> set ds. \<forall>x. doc_get d f \<noteq> Some (Float64 x) \<Longrightarrow> \<bar>a\<bar> + sum_list (map (\<lambda>d. \<bar>int_field d f\<bar>) ds) < 2 ^ 53 \<Longrightarrow>
    as_op st = op \<Longrightarrow> as_sum st = f64_of_int a \<Longrightarrow>
    as_op (fold (\<lambda>d st. accumulator_add st d) ds st) = op \<and>
    as_sum (fold (\<lambda>d st. accumulator_add st d) ds st) = f64_of_int (a + sum_list (map (\<lambda>d. int_field d f) ds))"
proof (induction ds arbitrary: a st)
  case (Cons d ds)
  let ?rest = "sum_list (map (\<lambda>d. \<bar>int_field d f\<bar>) ds)"
  have rest: "0 \<le> ?rest" by (rule sum_list_nonneg) auto
  have bound: "\<bar>a\<bar> + \<bar>int_field d f\<bar> + ?rest < 2 ^ 53" using Cons.prems(2) by simp
  then have b: "\<bar>a\<bar> < 2 ^ 53" "\<bar>int_field d f\<bar> < 2 ^ 53" "\<bar>a + int_field d f\<bar> < 2 ^ 53" "\<bar>a + int_field d f\<bar> + ?rest < 2 ^ 53"
    using rest by linarith+
  have step: "as_op (accumulator_add st d) = op" "as_sum (accumulator_add st d) = f64_of_int (a + int_field d f)"
  proof -
    show "as_op (accumulator_add st d) = op" using Cons.prems(3)
      by (auto simp: accumulator_add_def op_def split: option.split)
    show "as_sum (accumulator_add st d) = f64_of_int (a + int_field d f)"
    proof (cases "doc_get d f")
      case None
      then show ?thesis using Cons.prems(3,4) by (simp add: accumulator_add_def op_def json_as_str_def strip_dollar_def int_field_def)
    next
      case (Some v)
      then have "\<forall>x. v \<noteq> Float64 x" using Cons.prems(1) by auto
      from to_number_int_field [OF Some this] f64_add_int [OF b(1,2,3)] Cons.prems(3,4) Some show ?thesis
        by (simp add: accumulator_add_def op_def json_as_str_def strip_dollar_def)
    qed
  qed
  from Cons.IH [OF _ b(4) step] Cons.prems(1) show ?case by (simp add: add.assoc)
qed simp

text \<open>
  The sum of a field over documents whose field is an integer, missing or not a number is exact
  as long as the absolute values add up to less than 2 to the 53, though it is computed in floats.
\<close>

theorem group_sum_exact:
  assumes "\<forall>d \<in> set ds. \<forall>x. doc_get d f \<noteq> Some (Float64 x)" and "sum_list (map (\<lambda>d. \<bar>int_field d f\<bar>) ds) < 2 ^ 53"
  shows "accumulator_value (accumulate_all (AggSum (JString (CHR ''$'' # f))) ds) =
    Float64 (f64_of_int (sum_list (map (\<lambda>d. int_field d f) ds)))"
  using sum_fold_exact [of ds f 0 "accumulator_new (AggSum (JString (CHR ''$'' # f)))"] assms
  by (simp add: accumulator_value_def accumulate_all_def accumulator_new_def f64_of_int_zero)

theorem group_sum_exact_witness:
  "accumulator_value (accumulate_all (AggSum (JString ''$n'')) [example_agg_doc 1 ''x'' 5, example_agg_doc 2 ''y'' 6]) =
   Float64 (f64_of_int 11)"
proof -
  let ?ds = "[example_agg_doc 1 ''x'' 5, example_agg_doc 2 ''y'' 6]"
  have "\<forall>d \<in> set ?ds. \<forall>x. doc_get d ''n'' \<noteq> Some (Float64 x)" "sum_list (map (\<lambda>d. \<bar>int_field d ''n''\<bar>) ?ds) < 2 ^ 53"
    by (simp_all add: doc_get_def example_agg_doc_def int_field_def)
  from group_sum_exact [OF this] show ?thesis by (simp add: int_field_def doc_get_def example_agg_doc_def)
qed

subsection \<open>Matching integers\<close>

definition jint :: "u64 \<Rightarrow> json" where
  "jint i = JNumber \<lparr>num_i64 = Some i, num_u64 = None, num_f64 = Some (f64_of_int (sint i))\<rparr>"

text \<open>
  Integers of a filter become 64-bit values and values of different types compare as equal: a
  32-bit field never equals an integer of the filter, is never greater or less than one, and is
  always at least and at most any.
\<close>

theorem match_int32_field:
  assumes "doc_get d f = Some (Int32 x)"
  shows "apply_match [d] (JObject [(f, jint i)]) = [] \<and>
    apply_match [d] (JObject [(f, JObject [(''$eq'', jint i)])]) = [] \<and>
    apply_match [d] (JObject [(f, JObject [(''$gt'', jint i)])]) = [] \<and> apply_match [d] (JObject [(f, JObject [(''$lt'', jint i)])]) = [] \<and>
    apply_match [d] (JObject [(f, JObject [(''$gte'', jint i)])]) = [d] \<and> apply_match [d] (JObject [(f, JObject [(''$lte'', jint i)])]) = [d]"
  using assms by (simp add: apply_match_def agg_matches_filter_def value_matches_def as_object_def agg_compare_values_def jint_def Let_def)

theorem match_int32_field_witness:
  "apply_match [(example_agg_doc 1 ''x'' 5)\<lparr>doc_fields := [(''n'', Int32 5)]\<rparr>] (JObject [(''n'', jint 5)]) = [] \<and>
   apply_match [(example_agg_doc 1 ''x'' 5)\<lparr>doc_fields := [(''n'', Int32 5)]\<rparr>] (JObject [(''n'', JObject [(''$gte'', jint 9)])]) =
     [(example_agg_doc 1 ''x'' 5)\<lparr>doc_fields := [(''n'', Int32 5)]\<rparr>]"
proof -
  let ?d = "(example_agg_doc 1 ''x'' 5)\<lparr>doc_fields := [(''n'', Int32 5)]\<rparr>"
  have "doc_get ?d ''n'' = Some (Int32 5)" by (simp add: doc_get_def)
  from match_int32_field [OF this, of 5] match_int32_field [OF this, of 9] show ?thesis by simp
qed

end
