(* ===== verification/Wire_Protocol.thy ===== *)
theory Wire_Protocol
  imports VedPrelude
begin

text \<open>
  The binary protocol (\<open>veddb-core/src/protocol.rs\<close>): operation and status codes, the packed
  little-endian headers, commands and responses as bytes. The headers are read and written as raw
  memory, so their layout is the order of their fields. Slices out of range panic.
\<close>

section \<open>Codes\<close>

type_synonym u16 = "16 word"

definition PROTOCOL_V1 :: u8 where
  "PROTOCOL_V1 = 1"

definition PROTOCOL_V2 :: u8 where
  "PROTOCOL_V2 = 2"

datatype (plugins only: ) opcode =
    OcPing | OcSet | OcGet | OcDel | OcCas | OcSubscribe | OcUnsubscribe | OcPublish | OcFetch | OcInfo | OcAuth |
    OcAuthResponse | OcQuery | OcInsertDoc | OcUpdateDoc | OcDeleteDoc | OcCreateCollection | OcDropCollection |
    OcListCollections | OcCreateIndex | OcDropIndex | OcListIndexes | OcLPush | OcRPush | OcLPop | OcRPop | OcLRange |
    OcLLen | OcSAdd | OcSRem | OcSMembers | OcSIsMember | OcSCard | OcSUnion | OcSInter | OcSDiff | OcZAdd | OcZRem |
    OcZRange | OcZRangeByScore | OcZCard | OcZScore | OcHSet | OcHGet | OcHDel | OcHGetAll | OcHKeys | OcHVals |
    OcHLen | OcListUsers | OcCreateUser | OcDeleteUser | OcUpdateUserRole | OcAggregate | OcCreateBackup |
    OcListBackups | OcRestoreBackup | OcDeleteBackup | OcPointInTimeRecover | OcGetReplicationStatus | OcAddSlave |
    OcRemoveSlave | OcListSlaves | OcForceSync | OcCreateKey | OcListKeys | OcRotateKey | OcExportKey | OcImportKey |
    OcGetKeyMetadata | OcGetKeysExpiring

primrec opcode_as_u8 :: "opcode \<Rightarrow> u8" where
  "opcode_as_u8 OcPing = 0x01"
| "opcode_as_u8 OcSet = 0x02"
| "opcode_as_u8 OcGet = 0x03"
| "opcode_as_u8 OcDel = 0x04"
| "opcode_as_u8 OcCas = 0x05"
| "opcode_as_u8 OcSubscribe = 0x06"
| "opcode_as_u8 OcUnsubscribe = 0x07"
| "opcode_as_u8 OcPublish = 0x08"
| "opcode_as_u8 OcFetch = 0x09"
| "opcode_as_u8 OcInfo = 0x0A"
| "opcode_as_u8 OcAuth = 0x10"
| "opcode_as_u8 OcAuthResponse = 0x11"
| "opcode_as_u8 OcQuery = 0x12"
| "opcode_as_u8 OcInsertDoc = 0x13"
| "opcode_as_u8 OcUpdateDoc = 0x14"
| "opcode_as_u8 OcDeleteDoc = 0x15"
| "opcode_as_u8 OcCreateCollection = 0x16"
| "opcode_as_u8 OcDropCollection = 0x17"
| "opcode_as_u8 OcListCollections = 0x18"
| "opcode_as_u8 OcCreateIndex = 0x19"
| "opcode_as_u8 OcDropIndex = 0x1A"
| "opcode_as_u8 OcListIndexes = 0x1B"
| "opcode_as_u8 OcLPush = 0x20"
| "opcode_as_u8 OcRPush = 0x21"
| "opcode_as_u8 OcLPop = 0x22"
| "opcode_as_u8 OcRPop = 0x23"
| "opcode_as_u8 OcLRange = 0x24"
| "opcode_as_u8 OcLLen = 0x25"
| "opcode_as_u8 OcSAdd = 0x26"
| "opcode_as_u8 OcSRem = 0x27"
| "opcode_as_u8 OcSMembers = 0x28"
| "opcode_as_u8 OcSIsMember = 0x29"
| "opcode_as_u8 OcSCard = 0x2A"
| "opcode_as_u8 OcSUnion = 0x2B"
| "opcode_as_u8 OcSInter = 0x2C"
| "opcode_as_u8 OcSDiff = 0x2D"
| "opcode_as_u8 OcZAdd = 0x2E"
| "opcode_as_u8 OcZRem = 0x2F"
| "opcode_as_u8 OcZRange = 0x30"
| "opcode_as_u8 OcZRangeByScore = 0x31"
| "opcode_as_u8 OcZCard = 0x32"
| "opcode_as_u8 OcZScore = 0x33"
| "opcode_as_u8 OcHSet = 0x34"
| "opcode_as_u8 OcHGet = 0x35"
| "opcode_as_u8 OcHDel = 0x36"
| "opcode_as_u8 OcHGetAll = 0x37"
| "opcode_as_u8 OcHKeys = 0x38"
| "opcode_as_u8 OcHVals = 0x39"
| "opcode_as_u8 OcHLen = 0x3A"
| "opcode_as_u8 OcListUsers = 0x3B"
| "opcode_as_u8 OcCreateUser = 0x3C"
| "opcode_as_u8 OcDeleteUser = 0x3D"
| "opcode_as_u8 OcUpdateUserRole = 0x3E"
| "opcode_as_u8 OcAggregate = 0x3F"
| "opcode_as_u8 OcCreateBackup = 0x40"
| "opcode_as_u8 OcListBackups = 0x41"
| "opcode_as_u8 OcRestoreBackup = 0x42"
| "opcode_as_u8 OcDeleteBackup = 0x43"
| "opcode_as_u8 OcPointInTimeRecover = 0x44"
| "opcode_as_u8 OcGetReplicationStatus = 0x50"
| "opcode_as_u8 OcAddSlave = 0x51"
| "opcode_as_u8 OcRemoveSlave = 0x52"
| "opcode_as_u8 OcListSlaves = 0x53"
| "opcode_as_u8 OcForceSync = 0x54"
| "opcode_as_u8 OcCreateKey = 0x60"
| "opcode_as_u8 OcListKeys = 0x61"
| "opcode_as_u8 OcRotateKey = 0x62"
| "opcode_as_u8 OcExportKey = 0x63"
| "opcode_as_u8 OcImportKey = 0x64"
| "opcode_as_u8 OcGetKeyMetadata = 0x65"
| "opcode_as_u8 OcGetKeysExpiring = 0x66"

definition opcode_bytes :: "(u8 \<times> opcode) list" where
  "opcode_bytes =
     [(0x01, OcPing), (0x02, OcSet), (0x03, OcGet), (0x04, OcDel), (0x05, OcCas), (0x06, OcSubscribe),
     (0x07, OcUnsubscribe), (0x08, OcPublish), (0x09, OcFetch), (0x0A, OcInfo), (0x10, OcAuth), (0x11, OcAuthResponse),
     (0x12, OcQuery), (0x13, OcInsertDoc), (0x14, OcUpdateDoc), (0x15, OcDeleteDoc), (0x16, OcCreateCollection),
     (0x17, OcDropCollection), (0x18, OcListCollections), (0x19, OcCreateIndex), (0x1A, OcDropIndex),
     (0x1B, OcListIndexes), (0x20, OcLPush), (0x21, OcRPush), (0x22, OcLPop), (0x23, OcRPop), (0x24, OcLRange),
     (0x25, OcLLen), (0x26, OcSAdd), (0x27, OcSRem), (0x28, OcSMembers), (0x29, OcSIsMember), (0x2A, OcSCard),
     (0x2B, OcSUnion), (0x2C, OcSInter), (0x2D, OcSDiff), (0x2E, OcZAdd), (0x2F, OcZRem), (0x30, OcZRange),
     (0x31, OcZRangeByScore), (0x32, OcZCard), (0x33, OcZScore), (0x34, OcHSet), (0x35, OcHGet), (0x36, OcHDel),
     (0x37, OcHGetAll), (0x38, OcHKeys), (0x39, OcHVals), (0x3A, OcHLen), (0x3B, OcListUsers), (0x3C, OcCreateUser),
     (0x3D, OcDeleteUser), (0x3E, OcUpdateUserRole), (0x40, OcCreateBackup), (0x41, OcListBackups),
     (0x42, OcRestoreBackup), (0x43, OcDeleteBackup), (0x44, OcPointInTimeRecover), (0x50, OcGetReplicationStatus),
     (0x51, OcAddSlave), (0x52, OcRemoveSlave), (0x53, OcListSlaves), (0x54, OcForceSync), (0x60, OcCreateKey),
     (0x61, OcListKeys), (0x62, OcRotateKey), (0x63, OcExportKey), (0x64, OcImportKey), (0x65, OcGetKeyMetadata),
     (0x66, OcGetKeysExpiring), (0x3F, OcAggregate)]"

definition opcode_try_from :: "u8 \<Rightarrow> opcode option" where
  "opcode_try_from b = map_of opcode_bytes b"

definition opcode_from_u8 :: "u8 \<Rightarrow> opcode" where
  "opcode_from_u8 b = (case opcode_try_from b of None \<Rightarrow> OcPing | Some c \<Rightarrow> c)"

definition NO_COPY :: u8 where
  "NO_COPY = 1"

definition URGENT :: u8 where
  "URGENT = 2"

definition TTL_FLAG :: u8 where
  "TTL_FLAG = 4"

definition CAS_VERSION :: u8 where
  "CAS_VERSION = 8"

datatype status =
    StOk | StError | StNotFound | StFull | StTimeout | StVersionMismatch | StAuthRequired
  | StAuthFailed | StPermissionDenied | StInvalidQuery | StCollectionExists | StCollectionNotFound | StIndexExists | StIndexNotFound

primrec status_as_u8 :: "status \<Rightarrow> u8" where
  "status_as_u8 StOk = 0x00"
| "status_as_u8 StError = 0x01"
| "status_as_u8 StNotFound = 0x02"
| "status_as_u8 StFull = 0x03"
| "status_as_u8 StTimeout = 0x04"
| "status_as_u8 StVersionMismatch = 0x05"
| "status_as_u8 StAuthRequired = 0x06"
| "status_as_u8 StAuthFailed = 0x07"
| "status_as_u8 StPermissionDenied = 0x08"
| "status_as_u8 StInvalidQuery = 0x09"
| "status_as_u8 StCollectionExists = 0x0A"
| "status_as_u8 StCollectionNotFound = 0x0B"
| "status_as_u8 StIndexExists = 0x0C"
| "status_as_u8 StIndexNotFound = 0x0D"

definition status_try_from :: "u8 \<Rightarrow> status option" where
  "status_try_from b = map_of [
     (0x00, StOk), (0x01, StError), (0x02, StNotFound), (0x03, StFull), (0x04, StTimeout), (0x05, StVersionMismatch), (0x06, StAuthRequired),
     (0x07, StAuthFailed), (0x08, StPermissionDenied), (0x09, StInvalidQuery), (0x0A, StCollectionExists), (0x0B, StCollectionNotFound), (0x0C, StIndexExists), (0x0D, StIndexNotFound)] b"

section \<open>Headers\<close>

record cmd_header =
  ch_op :: u8
  ch_flags :: u8
  ch_version :: u8
  ch_reserved :: u8
  ch_seq :: u32
  ch_key_len :: u32
  ch_val_len :: u32
  ch_extra :: u64

definition CMD_HEADER_SIZE :: nat where
  "CMD_HEADER_SIZE = 24"

definition cmd_header_new :: "opcode \<Rightarrow> u32 \<Rightarrow> cmd_header" where
  "cmd_header_new c s = \<lparr>ch_op = opcode_as_u8 c, ch_flags = 0, ch_version = PROTOCOL_V2, ch_reserved = 0, ch_seq = s,
     ch_key_len = 0, ch_val_len = 0, ch_extra = 0\<rparr>"

definition cmd_header_new_v1 :: "opcode \<Rightarrow> u32 \<Rightarrow> cmd_header" where
  "cmd_header_new_v1 c s = \<lparr>ch_op = opcode_as_u8 c, ch_flags = 0, ch_version = PROTOCOL_V1, ch_reserved = 0, ch_seq = s,
     ch_key_len = 0, ch_val_len = 0, ch_extra = 0\<rparr>"

definition with_key_val :: "u32 \<Rightarrow> u32 \<Rightarrow> cmd_header \<Rightarrow> cmd_header" where
  "with_key_val k v h = h\<lparr>ch_key_len := k, ch_val_len := v\<rparr>"

definition with_flags :: "u8 \<Rightarrow> cmd_header \<Rightarrow> cmd_header" where
  "with_flags f h = h\<lparr>ch_flags := f\<rparr>"

definition header_opcode :: "cmd_header \<Rightarrow> opcode option" where
  "header_opcode h = opcode_try_from (ch_op h)"

text \<open>The sum is taken in 32 bits, where it wraps, before it is widened.\<close>

definition total_payload_len :: "cmd_header \<Rightarrow> nat" where
  "total_payload_len h = unat (ch_key_len h + ch_val_len h)"

definition has_flag :: "cmd_header \<Rightarrow> u8 \<Rightarrow> bool" where
  "has_flag h f \<longleftrightarrow> ch_flags h AND f \<noteq> 0"

definition cmd_header_bytes :: "cmd_header \<Rightarrow> bytes" where
  "cmd_header_bytes h = [ch_op h, ch_flags h, ch_version h, ch_reserved h] @ u32_to_le (ch_seq h) @
     u32_to_le (ch_key_len h) @ u32_to_le (ch_val_len h) @ u64_to_le (ch_extra h)"

definition cmd_header_read :: "bytes \<Rightarrow> cmd_header" where
  "cmd_header_read b = \<lparr>ch_op = b ! 0, ch_flags = b ! 1, ch_version = b ! 2, ch_reserved = b ! 3,
     ch_seq = u32_from_le (take 4 (drop 4 b)), ch_key_len = u32_from_le (take 4 (drop 8 b)),
     ch_val_len = u32_from_le (take 4 (drop 12 b)), ch_extra = u64_from_le (take 8 (drop 16 b))\<rparr>"

record resp_header =
  rh_status :: u8
  rh_flags :: u8
  rh_reserved :: u16
  rh_seq :: u32
  rh_payload_len :: u32
  rh_padding :: u32

definition RESP_HEADER_SIZE :: nat where
  "RESP_HEADER_SIZE = 16"

definition resp_header_new :: "status \<Rightarrow> u32 \<Rightarrow> resp_header" where
  "resp_header_new t s = \<lparr>rh_status = status_as_u8 t, rh_flags = 0, rh_reserved = 0, rh_seq = s, rh_payload_len = 0, rh_padding = 0\<rparr>"

definition with_payload :: "u32 \<Rightarrow> resp_header \<Rightarrow> resp_header" where
  "with_payload n h = h\<lparr>rh_payload_len := n\<rparr>"

definition header_status :: "resp_header \<Rightarrow> status option" where
  "header_status h = status_try_from (rh_status h)"

definition u16_to_le :: "u16 \<Rightarrow> bytes" where
  "u16_to_le x = le_bytes 2 (unat x)"

definition u16_from_le :: "bytes \<Rightarrow> u16" where
  "u16_from_le b = of_nat (le_val b)"

definition resp_header_bytes :: "resp_header \<Rightarrow> bytes" where
  "resp_header_bytes h = [rh_status h, rh_flags h] @ u16_to_le (rh_reserved h) @ u32_to_le (rh_seq h) @
     u32_to_le (rh_payload_len h) @ u32_to_le (rh_padding h)"

definition resp_header_read :: "bytes \<Rightarrow> resp_header" where
  "resp_header_read b = \<lparr>rh_status = b ! 0, rh_flags = b ! 1, rh_reserved = u16_from_le (take 2 (drop 2 b)),
     rh_seq = u32_from_le (take 4 (drop 4 b)), rh_payload_len = u32_from_le (take 4 (drop 8 b)),
     rh_padding = u32_from_le (take 4 (drop 12 b))\<rparr>"

section \<open>Commands and responses\<close>

record command =
  cmd_header :: cmd_header
  cmd_key :: bytes
  cmd_value :: bytes

definition command_new :: "opcode \<Rightarrow> u32 \<Rightarrow> bytes \<Rightarrow> bytes \<Rightarrow> command" where
  "command_new c s k v =
     \<lparr>cmd_header = with_key_val (of_nat (length k)) (of_nat (length v)) (cmd_header_new c s), cmd_key = k, cmd_value = v\<rparr>"

definition command_ping :: "u32 \<Rightarrow> command" where
  "command_ping s = command_new OcPing s [] []"

definition command_get :: "u32 \<Rightarrow> bytes \<Rightarrow> command" where
  "command_get s k = command_new OcGet s k []"

definition command_set :: "u32 \<Rightarrow> bytes \<Rightarrow> bytes \<Rightarrow> command" where
  "command_set s k v = command_new OcSet s k v"

definition command_del :: "u32 \<Rightarrow> bytes \<Rightarrow> command" where
  "command_del s k = command_new OcDel s k []"

text \<open>The expected version is an argument that is not used.\<close>

definition command_cas :: "u32 \<Rightarrow> bytes \<Rightarrow> bytes \<Rightarrow> u64 \<Rightarrow> command" where
  "command_cas s k v expected =
     (let c = command_new OcCas s k v
      in c\<lparr>cmd_header := (cmd_header c)\<lparr>ch_flags := ch_flags (cmd_header c) OR CAS_VERSION\<rparr>\<rparr>)"

definition command_to_bytes :: "command \<Rightarrow> bytes" where
  "command_to_bytes c = cmd_header_bytes (cmd_header c) @ cmd_key c @ cmd_value c"

datatype frame_error = HeaderTooSmall | PayloadTooSmall | SlicePanic

definition byte_slice :: "nat \<Rightarrow> nat \<Rightarrow> bytes \<Rightarrow> bytes option" where
  "byte_slice i j b = (if i \<le> j \<and> j \<le> length b then Some (take (j - i) (drop i b)) else None)"

definition command_from_bytes :: "bytes \<Rightarrow> (frame_error, command) result" where
  "command_from_bytes b =
     (if length b < CMD_HEADER_SIZE then Inl HeaderTooSmall
      else let h = cmd_header_read b in
        if length b < CMD_HEADER_SIZE + total_payload_len h then Inl PayloadTooSmall
        else let key_end = CMD_HEADER_SIZE + unat (ch_key_len h); val_end = key_end + unat (ch_val_len h)
          in case byte_slice CMD_HEADER_SIZE key_end b of
               None \<Rightarrow> Inl SlicePanic
             | Some k \<Rightarrow>
                 (case byte_slice key_end val_end b of
                    None \<Rightarrow> Inl SlicePanic
                  | Some v \<Rightarrow> Inr \<lparr>cmd_header = h, cmd_key = k, cmd_value = v\<rparr>))"

record response =
  resp_header :: resp_header
  resp_payload :: bytes

definition response_new :: "status \<Rightarrow> u32 \<Rightarrow> bytes \<Rightarrow> response" where
  "response_new t s p = \<lparr>resp_header = with_payload (of_nat (length p)) (resp_header_new t s), resp_payload = p\<rparr>"

definition response_ok :: "u32 \<Rightarrow> bytes \<Rightarrow> response" where
  "response_ok s p = response_new StOk s p"

definition response_error :: "u32 \<Rightarrow> response" where
  "response_error s = response_new StError s []"

definition response_not_found :: "u32 \<Rightarrow> response" where
  "response_not_found s = response_new StNotFound s []"

definition response_to_bytes :: "response \<Rightarrow> bytes" where
  "response_to_bytes r = resp_header_bytes (resp_header r) @ resp_payload r"

definition response_from_bytes :: "bytes \<Rightarrow> (frame_error, response) result" where
  "response_from_bytes b =
     (if length b < RESP_HEADER_SIZE then Inl HeaderTooSmall
      else let h = resp_header_read b in
        if length b < RESP_HEADER_SIZE + unat (rh_payload_len h) then Inl PayloadTooSmall
        else case byte_slice RESP_HEADER_SIZE (RESP_HEADER_SIZE + unat (rh_payload_len h)) b of
               None \<Rightarrow> Inl SlicePanic | Some p \<Rightarrow> Inr \<lparr>resp_header = h, resp_payload = p\<rparr>)"

section \<open>Properties\<close>

lemma opcode_roundtrip: "opcode_try_from (opcode_as_u8 c) = Some c"
  by (cases c) (simp_all add: opcode_try_from_def opcode_bytes_def)

lemma opcode_bytes_as_u8: "list_all (\<lambda>(b, c). opcode_as_u8 c = b) opcode_bytes"
  by (simp add: opcode_bytes_def)

lemma status_roundtrip: "status_try_from (status_as_u8 t) = Some t"
  by (cases t) (simp_all add: status_try_from_def)

text \<open>
  C39. The codes of operations and statuses are exact: a byte is read as an operation or status
  precisely when it is the byte of it, so every operation survives the way over the wire and no two
  bytes name the same one.
\<close>

theorem codes_exact:
  "(opcode_try_from b = Some c) = (b = opcode_as_u8 c) \<and> (status_try_from d = Some t) = (d = status_as_u8 t)"
proof -
  have "b = opcode_as_u8 c" if "opcode_try_from b = Some c"
    using that opcode_bytes_as_u8 by (auto simp: opcode_try_from_def list_all_iff dest!: map_of_SomeD)
  moreover have "d = status_as_u8 t" if "status_try_from d = Some t"
    using that by (auto simp: status_try_from_def split: if_splits)
  ultimately show ?thesis using opcode_roundtrip status_roundtrip by blast
qed

lemma u16_from_to_le [simp]: "u16_from_le (u16_to_le x) = x"
proof -
  have "unat x < 256 ^ 2" using unsigned_less [of x] by simp
  then show ?thesis by (simp add: u16_from_le_def u16_to_le_def le_val_le_bytes)
qed

lemma length_u16_to_le [simp]: "length (u16_to_le x) = 2"
  by (simp add: u16_to_le_def)

lemma length_cmd_header_bytes [simp]: "length (cmd_header_bytes h) = CMD_HEADER_SIZE"
  by (simp add: cmd_header_bytes_def CMD_HEADER_SIZE_def)

lemma length_resp_header_bytes [simp]: "length (resp_header_bytes h) = RESP_HEADER_SIZE"
  by (simp add: resp_header_bytes_def RESP_HEADER_SIZE_def)

lemma drop_u32_to_le [simp]: "4 \<le> n \<Longrightarrow> drop n (u32_to_le x @ xs) = drop (n - 4) xs"
  by simp

lemma cmd_header_read_bytes: "cmd_header_read (cmd_header_bytes h @ b) = h"
  by (simp add: cmd_header_read_def cmd_header_bytes_def)

lemma resp_header_read_bytes: "resp_header_read (resp_header_bytes h @ b) = h"
  by (simp add: resp_header_read_def resp_header_bytes_def)

lemma u32_to_from_le: "length b = 4 \<Longrightarrow> u32_to_le (u32_from_le b) = b"
  using le_val_bound [of b] le_bytes_le_val [of b] by (simp add: u32_to_le_def u32_from_le_def unat_of_nat take_bit_nat_eq_self)

lemma list_split4: "4 \<le> length b \<Longrightarrow> [b ! 0, b ! 1, b ! 2, b ! 3] = take 4 b"
  by (cases b; cases "tl b"; cases "tl (tl b)"; cases "tl (tl (tl b))") auto

lemma cmd_header_bytes_read:
  assumes "CMD_HEADER_SIZE \<le> length b" shows "cmd_header_bytes (cmd_header_read b) = take CMD_HEADER_SIZE b"
proof -
  have "take 24 b = take 4 b @ take 4 (drop 4 b) @ take 4 (drop 8 b) @ take 4 (drop 12 b) @ take 8 (drop 16 b)"
    using take_add [of 4 20 b] take_add [of 4 16 "drop 4 b"] take_add [of 4 12 "drop 8 b"] take_add [of 4 8 "drop 12 b"] by simp
  with assms show ?thesis
    by (simp add: CMD_HEADER_SIZE_def cmd_header_bytes_def cmd_header_read_def u32_to_from_le u64_to_from_le flip: list_split4)
qed

lemma byte_slice_append: "byte_slice (length a) (length a + length b) (a @ b @ c) = Some b"
  by (simp add: byte_slice_def)

lemma total_payload_len_sum:
  assumes "unat (ch_key_len h) + unat (ch_val_len h) < 2 ^ 32"
  shows "total_payload_len h = unat (ch_key_len h) + unat (ch_val_len h)"
  using assms by (simp add: total_payload_len_def unat_word_ariths)

lemma command_read_back:
  assumes "unat (ch_key_len (cmd_header c)) = length (cmd_key c)" and "unat (ch_val_len (cmd_header c)) = length (cmd_value c)"
    and "length (cmd_key c) + length (cmd_value c) < 2 ^ 32"
  shows "command_from_bytes (command_to_bytes c @ rest) = Inr c"
  using assms total_payload_len_sum [of "cmd_header c"]
    byte_slice_append [of "cmd_header_bytes (cmd_header c)" "cmd_key c" "cmd_value c @ rest"]
    byte_slice_append [of "cmd_header_bytes (cmd_header c) @ cmd_key c" "cmd_value c" rest]
  by (simp add: command_from_bytes_def command_to_bytes_def cmd_header_read_bytes Let_def add.assoc)

lemma wrapped_panic:
  assumes "CMD_HEADER_SIZE \<le> length b" and "h = cmd_header_read b" and "2 ^ 32 \<le> unat (ch_key_len h) + unat (ch_val_len h)"
    and "CMD_HEADER_SIZE + total_payload_len h \<le> length b" and "length b < 2 ^ 32"
  shows "command_from_bytes b = Inl SlicePanic"
  using assms by (simp add: command_from_bytes_def byte_slice_def Let_def)

text \<open>
  C25. Commands are framed exactly: a command whose header has the lengths of its key and value, with
  a sum below 2 to the 32, is read back from its bytes whatever follows them in the stream, and
  every command that is read is made of exactly the bytes it was read from.
\<close>

theorem command_framing:
  assumes "unat (ch_key_len (cmd_header c)) = length (cmd_key c)" and "unat (ch_val_len (cmd_header c)) = length (cmd_value c)"
    and "length (cmd_key c) + length (cmd_value c) < 2 ^ 32"
  shows "command_from_bytes (command_to_bytes c @ rest) = Inr c \<and>
    (\<forall>b d. command_from_bytes b = Inr d \<longrightarrow> cmd_header_bytes (cmd_header d) = take CMD_HEADER_SIZE b \<and>
       b = command_to_bytes d @ drop (length (command_to_bytes d)) b)"
proof -
  have "command_from_bytes (command_to_bytes c @ rest) = Inr c" using assms by (rule command_read_back)
  moreover have "cmd_header_bytes (cmd_header d) = take CMD_HEADER_SIZE b \<and> b = command_to_bytes d @ drop (length (command_to_bytes d)) b"
    if "command_from_bytes b = Inr d" for b d
  proof -
    let ?h = "cmd_header_read b" and ?n = CMD_HEADER_SIZE
    let ?k = "unat (ch_key_len ?h)" and ?v = "unat (ch_val_len ?h)"
    have len: "?n \<le> length b" and h: "cmd_header d = ?h" and k: "cmd_key d = take ?k (drop ?n b)"
      and v: "cmd_value d = take ?v (drop (?n + ?k) b)" and room: "?n + ?k + ?v \<le> length b"
      using that by (auto simp: command_from_bytes_def byte_slice_def Let_def split: if_splits)
    have hb: "cmd_header_bytes ?h = take ?n b" by (rule cmd_header_bytes_read [OF len])
    have "command_to_bytes d = take (?n + ?k + ?v) b"
      unfolding command_to_bytes_def h k v hb take_add by simp
    moreover from this room have "length (command_to_bytes d) = ?n + ?k + ?v" by simp
    ultimately show ?thesis using hb h by (metis append_take_drop_id)
  qed
  ultimately show ?thesis by blast
qed

theorem command_framing_witness:
  "command_from_bytes (command_to_bytes (command_set 7 [1, 2] [3]) @ [9, 9]) = Inr (command_set 7 [1, 2] [3])"
  using command_framing [of "command_set 7 [1, 2] [3]" "[9, 9]"]
  by (simp add: command_set_def command_new_def with_key_val_def cmd_header_new_def)

lemma resp_framing:
  assumes "unat (rh_payload_len (resp_header r)) = length (resp_payload r)"
  shows "response_from_bytes (response_to_bytes r @ rest) = Inr r"
  using assms byte_slice_append [of "resp_header_bytes (resp_header r)" "resp_payload r" rest]
  by (simp add: response_from_bytes_def response_to_bytes_def resp_header_read_bytes Let_def)

lemma response_new_framing:
  assumes "length p < 2 ^ 32" shows "response_from_bytes (response_to_bytes (response_new t s p) @ rest) = Inr (response_new t s p)"
  using assms by (intro resp_framing) (simp add: response_new_def with_payload_def unat_of_nat take_bit_nat_eq_self)

text \<open>
  The sum of the two lengths of a header is taken in 32 bits: when it wraps, a buffer that
  has as many bytes as the wrapped sum asks for passes the length check, and cutting out the key
  or the value leaves the buffer and panics.
\<close>

theorem wrapped_lengths_panic:
  assumes "CMD_HEADER_SIZE \<le> length b" and "h = cmd_header_read b" and "2 ^ 32 \<le> unat (ch_key_len h) + unat (ch_val_len h)"
    and "CMD_HEADER_SIZE + total_payload_len h \<le> length b" and "length b < 2 ^ 32"
  shows "command_from_bytes b = Inl SlicePanic"
  using assms by (rule wrapped_panic)

theorem wrapped_lengths_panic_witness:
  "command_from_bytes (cmd_header_bytes (with_key_val 0xFFFFFFFF 1 (cmd_header_new OcPing 0))) = Inl SlicePanic"
proof -
  let ?h = "with_key_val 0xFFFFFFFF 1 (cmd_header_new OcPing 0)" let ?b = "cmd_header_bytes ?h"
  have r: "cmd_header_read ?b = ?h" using cmd_header_read_bytes [of ?h "[]"] by simp
  have "2 ^ 32 \<le> unat (ch_key_len ?h) + unat (ch_val_len ?h)" "CMD_HEADER_SIZE + total_payload_len ?h \<le> length ?b"
    by (simp_all add: with_key_val_def cmd_header_new_def total_payload_len_def)
  then show ?thesis by (intro wrapped_lengths_panic [of ?b ?h]) (simp_all add: r CMD_HEADER_SIZE_def)
qed

end
