(* ===== verification/Protocol_Requests.thy ===== *)
theory Protocol_Requests
  imports Wire_Protocol Document Json_Ved
begin

text \<open>
  The requests and answers that travel as JSON in the payload of a command (second half of
  \<open>veddb-core/src/protocol.rs\<close>) and the commands built from them. The JSON text itself is written and
  read by \<open>serde_json\<close>: one field of \<open>wire_codec\<close> per type, with the text of its error.
\<close>

datatype auth_method = MUsernamePassword | MJwtToken

datatype auth_credentials = UsernamePassword string string | JwtToken string

record auth_request =
  ar_method :: auth_method
  ar_credentials :: auth_credentials

record auth_response =
  arsp_success :: bool
  arsp_token :: "string option"
  arsp_expires_at :: "u64 option"
  arsp_error :: "string option"

record query_request =
  qr_collection :: string
  qr_filter :: "ved_value option"
  qr_projection :: "ved_value option"
  qr_sort :: "ved_value option"
  qr_skip :: "u64 option"
  qr_limit :: "u64 option"

record insert_doc_request =
  idr_collection :: string
  idr_document :: document

record update_doc_request =
  udr_collection :: string
  udr_filter :: ved_value
  udr_update :: ved_value
  udr_upsert :: bool

record delete_doc_request =
  ddr_collection :: string
  ddr_filter :: ved_value

record create_collection_request =
  ccr_name :: string
  ccr_schema :: "ved_value option"

record index_field =
  if_field :: string
  if_direction :: int

record create_index_request =
  cir_collection :: string
  cir_name :: string
  cir_fields :: "index_field list"
  cir_unique :: bool

record drop_index_request =
  dir_collection :: string
  dir_name :: string

datatype list_operation = ListPush "ved_value list" bool | ListPop bool | ListRange u64 u64 | ListLen

datatype set_operation =
    SetAdd "ved_value list" | SetRemove "ved_value list" | SetMembers | SetIsMember ved_value | SetCard
  | SetUnion "string list" | SetInter "string list" | SetDiff "string list"

datatype sorted_set_operation =
    ZsAdd "(u64 \<times> ved_value) list" | ZsRemove "ved_value list" | ZsRange u64 u64 | ZsRangeByScore u64 u64 | ZsCard | ZsScore ved_value

datatype hash_operation =
    HsSet string ved_value | HsGet string | HsDel "string list" | HsGetAll | HsKeys | HsVals | HsLen

record create_user_request =
  cur_username :: string
  cur_password :: string
  cur_role :: string

record update_user_role_request =
  uur_username :: string
  uur_role :: string

record operation_response =
  or_success :: bool
  or_data :: "ved_value option"
  or_error :: "string option"
  or_affected_count :: "u64 option"

definition operation_success :: "ved_value option \<Rightarrow> operation_response" where
  "operation_success d = \<lparr>or_success = True, or_data = d, or_error = None, or_affected_count = None\<rparr>"

definition operation_error :: "string \<Rightarrow> operation_response" where
  "operation_error m = \<lparr>or_success = False, or_data = None, or_error = Some m, or_affected_count = None\<rparr>"

record wire_codec =
  auth_to_vec :: "auth_request \<Rightarrow> (string, bytes) result"
  query_to_vec :: "query_request \<Rightarrow> (string, bytes) result"
  insert_to_vec :: "insert_doc_request \<Rightarrow> (string, bytes) result"
  update_to_vec :: "update_doc_request \<Rightarrow> (string, bytes) result"
  delete_to_vec :: "delete_doc_request \<Rightarrow> (string, bytes) result"
  create_collection_to_vec :: "create_collection_request \<Rightarrow> (string, bytes) result"
  create_index_to_vec :: "create_index_request \<Rightarrow> (string, bytes) result"
  list_op_to_vec :: "string \<times> list_operation \<Rightarrow> (string, bytes) result"
  set_op_to_vec :: "string \<times> set_operation \<Rightarrow> (string, bytes) result"
  sorted_set_op_to_vec :: "string \<times> sorted_set_operation \<Rightarrow> (string, bytes) result"
  hash_op_to_vec :: "string \<times> hash_operation \<Rightarrow> (string, bytes) result"
  op_response_to_vec :: "operation_response \<Rightarrow> (string, bytes) result"
  op_response_from_slice :: "bytes \<Rightarrow> (string, operation_response) result"
  pairs_to_vec :: "(string \<times> bytes) list \<Rightarrow> (string, bytes) result"

section \<open>Commands with a JSON payload\<close>

definition payload_command :: "opcode \<Rightarrow> u32 \<Rightarrow> (string, bytes) result \<Rightarrow> (string, command) result" where
  "payload_command c s p = map_sum (\<lambda>e. ''Serialization error: '' @ e) (command_new c s []) p"

definition command_auth :: "'z wire_codec_scheme \<Rightarrow> u32 \<Rightarrow> auth_request \<Rightarrow> (string, command) result" where
  "command_auth wc s r = payload_command OcAuth s (auth_to_vec wc r)"

definition command_query :: "'z wire_codec_scheme \<Rightarrow> u32 \<Rightarrow> query_request \<Rightarrow> (string, command) result" where
  "command_query wc s r = payload_command OcQuery s (query_to_vec wc r)"

definition command_insert_doc :: "'z wire_codec_scheme \<Rightarrow> u32 \<Rightarrow> insert_doc_request \<Rightarrow> (string, command) result" where
  "command_insert_doc wc s r = payload_command OcInsertDoc s (insert_to_vec wc r)"

definition command_update_doc :: "'z wire_codec_scheme \<Rightarrow> u32 \<Rightarrow> update_doc_request \<Rightarrow> (string, command) result" where
  "command_update_doc wc s r = payload_command OcUpdateDoc s (update_to_vec wc r)"

definition command_delete_doc :: "'z wire_codec_scheme \<Rightarrow> u32 \<Rightarrow> delete_doc_request \<Rightarrow> (string, command) result" where
  "command_delete_doc wc s r = payload_command OcDeleteDoc s (delete_to_vec wc r)"

definition command_create_collection :: "'z wire_codec_scheme \<Rightarrow> u32 \<Rightarrow> create_collection_request \<Rightarrow> (string, command) result" where
  "command_create_collection wc s r = payload_command OcCreateCollection s (create_collection_to_vec wc r)"

definition command_create_index :: "'z wire_codec_scheme \<Rightarrow> u32 \<Rightarrow> create_index_request \<Rightarrow> (string, command) result" where
  "command_create_index wc s r = payload_command OcCreateIndex s (create_index_to_vec wc r)"

definition command_list_op :: "'z wire_codec_scheme \<Rightarrow> u32 \<Rightarrow> string \<times> list_operation \<Rightarrow> (string, command) result" where
  "command_list_op wc s r =
     payload_command (case snd r of ListPush _ l \<Rightarrow> if l then OcLPush else OcRPush | ListPop l \<Rightarrow> if l then OcLPop else OcRPop
       | ListRange _ _ \<Rightarrow> OcLRange | ListLen \<Rightarrow> OcLLen) s (list_op_to_vec wc r)"

definition command_set_op :: "'z wire_codec_scheme \<Rightarrow> u32 \<Rightarrow> string \<times> set_operation \<Rightarrow> (string, command) result" where
  "command_set_op wc s r =
     payload_command (case snd r of SetAdd _ \<Rightarrow> OcSAdd | SetRemove _ \<Rightarrow> OcSRem | SetMembers \<Rightarrow> OcSMembers
       | SetIsMember _ \<Rightarrow> OcSIsMember | SetCard \<Rightarrow> OcSCard | SetUnion _ \<Rightarrow> OcSUnion | SetInter _ \<Rightarrow> OcSInter | SetDiff _ \<Rightarrow> OcSDiff)
       s (set_op_to_vec wc r)"

definition command_sorted_set_op :: "'z wire_codec_scheme \<Rightarrow> u32 \<Rightarrow> string \<times> sorted_set_operation \<Rightarrow> (string, command) result" where
  "command_sorted_set_op wc s r =
     payload_command (case snd r of ZsAdd _ \<Rightarrow> OcZAdd | ZsRemove _ \<Rightarrow> OcZRem | ZsRange _ _ \<Rightarrow> OcZRange
       | ZsRangeByScore _ _ \<Rightarrow> OcZRangeByScore | ZsCard \<Rightarrow> OcZCard | ZsScore _ \<Rightarrow> OcZScore) s (sorted_set_op_to_vec wc r)"

definition command_hash_op :: "'z wire_codec_scheme \<Rightarrow> u32 \<Rightarrow> string \<times> hash_operation \<Rightarrow> (string, command) result" where
  "command_hash_op wc s r =
     payload_command (case snd r of HsSet _ _ \<Rightarrow> OcHSet | HsGet _ \<Rightarrow> OcHGet | HsDel _ \<Rightarrow> OcHDel | HsGetAll \<Rightarrow> OcHGetAll
       | HsKeys \<Rightarrow> OcHKeys | HsVals \<Rightarrow> OcHVals | HsLen \<Rightarrow> OcHLen) s (hash_op_to_vec wc r)"

section \<open>UTF-8\<close>

text \<open>
  Text is the list of its UTF-8 bytes as characters. \<open>String::from_utf8\<close> of the standard library
  accepts the well-formed byte sequences: no overlong forms, no surrogates, nothing above U+10FFFF.
\<close>

definition cont_byte :: "u8 \<Rightarrow> bool" where
  "cont_byte b \<longleftrightarrow> 0x80 \<le> b \<and> b \<le> 0xBF"

fun utf8_valid :: "bytes \<Rightarrow> bool" where
  "utf8_valid [] \<longleftrightarrow> True"
| "utf8_valid (a # s) \<longleftrightarrow>
     (if a < 0x80 then utf8_valid s
      else case s of
        [] \<Rightarrow> False
      | b # s2 \<Rightarrow>
          if 0xC2 \<le> a \<and> a \<le> 0xDF then cont_byte b \<and> utf8_valid s2
          else case s2 of
            [] \<Rightarrow> False
          | c # s3 \<Rightarrow>
              if 0xE0 \<le> a \<and> a \<le> 0xEF then
                cont_byte b \<and> (a = 0xE0 \<longrightarrow> 0xA0 \<le> b) \<and> (a = 0xED \<longrightarrow> b \<le> 0x9F) \<and> cont_byte c \<and> utf8_valid s3
              else case s3 of
                [] \<Rightarrow> False
              | d # s4 \<Rightarrow>
                  0xF0 \<le> a \<and> a \<le> 0xF4 \<and> cont_byte b \<and> (a = 0xF0 \<longrightarrow> 0x90 \<le> b) \<and> (a = 0xF4 \<longrightarrow> b \<le> 0x8F) \<and>
                  cont_byte c \<and> cont_byte d \<and> utf8_valid s4)"

definition text_of :: "bytes \<Rightarrow> string" where
  "text_of b = map (\<lambda>x. char_of (unat x)) b"

definition bytes_of :: "string \<Rightarrow> bytes" where
  "bytes_of s = map (\<lambda>c. of_nat (of_char c)) s"

definition from_utf8 :: "bytes \<Rightarrow> string option" where
  "from_utf8 b = (if utf8_valid b then Some (text_of b) else None)"

lemma bytes_of_text_of: "bytes_of (text_of b) = b"
proof -
  have "(of_nat (of_char (char_of (unat x) :: char)) :: u8) = x" for x :: u8
  proof -
    have "unat x < 256" using unsigned_less [of x] by simp
    then show ?thesis by (simp add: of_char_of)
  qed
  then show ?thesis by (simp add: bytes_of_def text_of_def comp_def map_idI)
qed

end
