(* ===== verification/Protocol_Compat.thy ===== *)
theory Protocol_Compat
  imports Protocol_Requests
begin

text \<open>
  The compatibility layer for the older protocol (\<open>veddb-core/src/protocol/compatibility.rs\<close>): commands
  of version 1 become document commands on a collection of their own, and answers are turned back.
  The id and the times of a new document are arguments.
\<close>

definition LEGACY_KV_COLLECTION :: string where
  "LEGACY_KV_COLLECTION = ''_legacy_kv''"

definition repack :: "command \<Rightarrow> opcode \<Rightarrow> (string, bytes) result \<Rightarrow> (string, command) result" where
  "repack cmd c p =
     map_sum (\<lambda>e. ''Serialization error: '' @ e)
       (\<lambda>b. \<lparr>cmd_header = (with_key_val 0 (of_nat (length b)) (cmd_header cmd))\<lparr>ch_op := opcode_as_u8 c\<rparr>, cmd_key = [], cmd_value = b\<rparr>) p"

definition legacy_document :: "document_id \<Rightarrow> int \<Rightarrow> string \<Rightarrow> bytes \<Rightarrow> document" where
  "legacy_document i now k v =
     \<lparr>doc_id = i, doc_fields = [(''key'', Str k), (''value'', Binary v)],
      metadata = \<lparr>version = 1, created_at = now, updated_at = now, meta_size_bytes = 0\<rparr>\<rparr>"

definition translate_set_to_insert_doc ::
  "'z wire_codec_scheme \<Rightarrow> document_id \<Rightarrow> int \<Rightarrow> command \<Rightarrow> (string, command) result"
where
  "translate_set_to_insert_doc wc i now cmd =
     (case from_utf8 (cmd_key cmd) of
        None \<Rightarrow> Inl ''Invalid UTF-8 in key''
      | Some k \<Rightarrow>
          repack cmd OcInsertDoc
            (insert_to_vec wc \<lparr>idr_collection = LEGACY_KV_COLLECTION, idr_document = legacy_document i now k (cmd_value cmd)\<rparr>))"

definition translate_get_to_query :: "'z wire_codec_scheme \<Rightarrow> command \<Rightarrow> (string, command) result" where
  "translate_get_to_query wc cmd =
     (case from_utf8 (cmd_key cmd) of
        None \<Rightarrow> Inl ''Invalid UTF-8 in key''
      | Some k \<Rightarrow>
          repack cmd OcQuery
            (query_to_vec wc \<lparr>qr_collection = LEGACY_KV_COLLECTION, qr_filter = Some (Object [(''key'', Str k)]),
               qr_projection = None, qr_sort = None, qr_skip = None, qr_limit = Some 1\<rparr>))"

definition translate_del_to_delete_doc :: "'z wire_codec_scheme \<Rightarrow> command \<Rightarrow> (string, command) result" where
  "translate_del_to_delete_doc wc cmd =
     (case from_utf8 (cmd_key cmd) of
        None \<Rightarrow> Inl ''Invalid UTF-8 in key''
      | Some k \<Rightarrow>
          repack cmd OcDeleteDoc (delete_to_vec wc \<lparr>ddr_collection = LEGACY_KV_COLLECTION, ddr_filter = Object [(''key'', Str k)]\<rparr>))"

definition cas_expected :: "bytes \<Rightarrow> u64" where
  "cas_expected v = (if 8 \<le> length v then u64_from_le (take 8 v) else 0)"

definition translate_cas_to_update_doc :: "'z wire_codec_scheme \<Rightarrow> command \<Rightarrow> (string, command) result" where
  "translate_cas_to_update_doc wc cmd =
     (case from_utf8 (cmd_key cmd) of
        None \<Rightarrow> Inl ''Invalid UTF-8 in key''
      | Some k \<Rightarrow>
          repack cmd OcUpdateDoc
            (update_to_vec wc \<lparr>udr_collection = LEGACY_KV_COLLECTION,
               udr_filter = Object [(''key'', Str k), (''version'', Int64 (cas_expected (cmd_value cmd)))],
               udr_update = Object [(''$inc'', Object [(''version'', Int64 1)]), (''$set'', Object [(''value'', Binary (cmd_value cmd))])],
               udr_upsert = False\<rparr>))"

definition translate_fetch_to_query :: "'z wire_codec_scheme \<Rightarrow> command \<Rightarrow> (string, command) result" where
  "translate_fetch_to_query wc cmd =
     repack cmd OcQuery
       (query_to_vec wc \<lparr>qr_collection = LEGACY_KV_COLLECTION, qr_filter = None, qr_projection = None, qr_sort = None,
          qr_skip = None, qr_limit = Some 1000\<rparr>)"

definition translate_command :: "'z wire_codec_scheme \<Rightarrow> document_id \<Rightarrow> int \<Rightarrow> command \<Rightarrow> (string, command) result" where
  "translate_command wc i now cmd =
     (if ch_version (cmd_header cmd) \<noteq> PROTOCOL_V1 then Inr cmd
      else let cmd = cmd\<lparr>cmd_header := (cmd_header cmd)\<lparr>ch_version := PROTOCOL_V2\<rparr>\<rparr>
        in case header_opcode (cmd_header cmd) of
             None \<Rightarrow> Inl ''Invalid opcode''
           | Some c \<Rightarrow>
               if c = OcPing then Inr cmd
               else if c = OcSet then translate_set_to_insert_doc wc i now cmd
               else if c = OcGet then translate_get_to_query wc cmd
               else if c = OcDel then translate_del_to_delete_doc wc cmd
               else if c = OcCas then translate_cas_to_update_doc wc cmd
               else if c = OcSubscribe \<or> c = OcUnsubscribe \<or> c = OcPublish then Inr cmd
               else if c = OcFetch then translate_fetch_to_query wc cmd
               else if c = OcInfo then Inr cmd
               else Inl ''Unsupported v0.1.x command'')"

definition translate_query_response_to_get :: "'z wire_codec_scheme \<Rightarrow> response \<Rightarrow> (string, response) result" where
  "translate_query_response_to_get wc r =
     (case header_status (resp_header r) of
        None \<Rightarrow> Inl ''Invalid status''
      | Some st \<Rightarrow>
          if st \<noteq> StOk then Inr r
          else case op_response_from_slice wc (resp_payload r) of
                 Inl e \<Rightarrow> Inl (''Failed to parse response: '' @ e)
               | Inr res \<Rightarrow>
                   if \<not> or_success res then Inr (response_error (rh_seq (resp_header r)))
                   else Inr (case or_data res of
                          Some (Array (Object fs # _)) \<Rightarrow>
                            (case map_of fs ''value'' of
                               Some (Binary v) \<Rightarrow> response_ok (rh_seq (resp_header r)) v
                             | _ \<Rightarrow> response_not_found (rh_seq (resp_header r)))
                        | _ \<Rightarrow> response_not_found (rh_seq (resp_header r))))"

fun kv_pairs :: "ved_value list \<Rightarrow> (string \<times> bytes) list" where
  "kv_pairs [] = []"
| "kv_pairs (v # vs) =
     (case v of
        Object fs \<Rightarrow>
          (case (map_of fs ''key'', map_of fs ''value'') of (Some (Str k), Some (Binary b)) \<Rightarrow> (k, b) # kv_pairs vs | _ \<Rightarrow> kv_pairs vs)
      | _ \<Rightarrow> kv_pairs vs)"

definition translate_query_response_to_fetch :: "'z wire_codec_scheme \<Rightarrow> response \<Rightarrow> (string, response) result" where
  "translate_query_response_to_fetch wc r =
     (case header_status (resp_header r) of
        None \<Rightarrow> Inl ''Invalid status''
      | Some st \<Rightarrow>
          if st \<noteq> StOk then Inr r
          else case op_response_from_slice wc (resp_payload r) of
                 Inl e \<Rightarrow> Inl (''Failed to parse response: '' @ e)
               | Inr res \<Rightarrow>
                   if \<not> or_success res then Inr (response_error (rh_seq (resp_header r)))
                   else map_sum (\<lambda>e. ''Serialization error: '' @ e) (response_ok (rh_seq (resp_header r)))
                          (pairs_to_vec wc (case or_data res of Some (Array vs) \<Rightarrow> kv_pairs vs | _ \<Rightarrow> [])))"

definition translate_response :: "'z wire_codec_scheme \<Rightarrow> response \<Rightarrow> opcode \<Rightarrow> (string, response) result" where
  "translate_response wc r c =
     (if c = OcGet then translate_query_response_to_get wc r
      else if c = OcSet \<or> c = OcDel \<or> c = OcCas then Inr r
      else if c = OcFetch then translate_query_response_to_fetch wc r
      else Inr r)"

end
