(* ===== verification/Index_Metadata.thy ===== *)
theory Index_Metadata
  imports Hybrid_Storage Protocol_Requests Json_Ved
begin

text \<open>
  The index definitions that \<open>storage/persistent.rs\<close> keeps in the metadata of a collection and
  that the server lists, creates and drops through \<open>storage/hybrid.rs\<close>. The text of a list of JSON
  values, written and read by \<open>serde_json\<close>, is a parameter.
\<close>

record index_codec =
  jsons_to_vec :: "json list \<Rightarrow> (string, bytes) result"
  jsons_from_slice :: "bytes \<Rightarrow> (string, json list) result"

definition indexes_key :: "string \<Rightarrow> string" where
  "indexes_key coll = ''indexes:'' @ coll"

definition get_indexes_list :: "index_codec \<Rightarrow> persistent_layer \<Rightarrow> string \<Rightarrow> (string, json list) result" where
  "get_indexes_list ic p coll =
     (case get_metadata p (indexes_key coll) of
        None \<Rightarrow> Inr []
      | Some v \<Rightarrow> (case jsons_from_slice ic v of Inl e \<Rightarrow> Inl ''Failed to parse indexes list'' | Inr js \<Rightarrow> Inr js))"

definition save_indexes_list ::
  "index_codec \<Rightarrow> persistent_layer \<Rightarrow> string \<Rightarrow> json list \<Rightarrow> persistent_layer \<times> (string, unit) result"
where
  "save_indexes_list ic p coll js =
     (case jsons_to_vec ic js of
        Inl e \<Rightarrow> (p, Inl ''Failed to serialize indexes list'')
      | Inr v \<Rightarrow> (store_metadata p (indexes_key coll) v, Inr ()))"

text \<open>\<open>idx.get("name").and_then(as_str)\<close>.\<close>

definition index_name :: "json \<Rightarrow> string option" where
  "index_name j = (case j of JObject es \<Rightarrow> Option.bind (map_of es ''name'') json_as_str | _ \<Rightarrow> None)"

definition json_i32 :: "int \<Rightarrow> json" where
  "json_i32 n = JNumber \<lparr>num_i64 = Some (of_int n), num_u64 = (if 0 \<le> n then Some (of_int n) else None), num_f64 = Some (f64_of_int n)\<rparr>"

text \<open>A JSON object keeps its entries in the order of the keys.\<close>

definition index_def :: "string \<Rightarrow> index_field list \<Rightarrow> bool \<Rightarrow> json" where
  "index_def name flds unique = JObject
     [(''fields'', JArray (map (\<lambda>f. JObject [(''direction'', json_i32 (if_direction f)), (''field'', JString (if_field f))]) flds)),
      (''name'', JString name), (''unique'', JBool unique)]"

definition pl_create_index ::
  "index_codec \<Rightarrow> persistent_layer \<Rightarrow> string \<Rightarrow> string \<Rightarrow> index_field list \<Rightarrow> bool \<Rightarrow> persistent_layer \<times> (string, unit) result"
where
  "pl_create_index ic p coll name flds unique =
     (case get_indexes_list ic p coll of
        Inl e \<Rightarrow> (p, Inl e)
      | Inr js \<Rightarrow>
          if list_ex (\<lambda>j. index_name j = Some name) js then (p, Inr ())
          else save_indexes_list ic p coll (js @ [index_def name flds unique]))"

definition pl_list_indexes :: "index_codec \<Rightarrow> persistent_layer \<Rightarrow> string \<Rightarrow> (string, json list) result" where
  "pl_list_indexes ic p coll = get_indexes_list ic p coll"

text \<open>The first entry with the name is removed.\<close>

fun remove_named :: "string \<Rightarrow> json list \<Rightarrow> json list" where
  "remove_named name [] = []"
| "remove_named name (j # js) = (if index_name j = Some name then js else j # remove_named name js)"

definition pl_drop_index ::
  "index_codec \<Rightarrow> persistent_layer \<Rightarrow> string \<Rightarrow> string \<Rightarrow> persistent_layer \<times> (string, unit) result"
where
  "pl_drop_index ic p coll name =
     (case get_indexes_list ic p coll of
        Inl e \<Rightarrow> (p, Inl e)
      | Inr js \<Rightarrow>
          if list_ex (\<lambda>j. index_name j = Some name) js then save_indexes_list ic p coll (remove_named name js)
          else (p, Inr ()))"

definition hybrid_create_index ::
  "index_codec \<Rightarrow> hybrid_engine \<Rightarrow> string \<Rightarrow> string \<Rightarrow> index_field list \<Rightarrow> bool \<Rightarrow> hybrid_engine \<times> (string, unit) result"
where
  "hybrid_create_index ic e coll name flds unique =
     (let (p, r) = pl_create_index ic (he_persistent e) coll name flds unique in (e\<lparr>he_persistent := p\<rparr>, r))"

definition hybrid_list_indexes :: "index_codec \<Rightarrow> hybrid_engine \<Rightarrow> string \<Rightarrow> (string, json list) result" where
  "hybrid_list_indexes ic e coll = pl_list_indexes ic (he_persistent e) coll"

definition hybrid_drop_index ::
  "index_codec \<Rightarrow> hybrid_engine \<Rightarrow> string \<Rightarrow> string \<Rightarrow> hybrid_engine \<times> (string, unit) result"
where
  "hybrid_drop_index ic e coll name =
     (let (p, r) = pl_drop_index ic (he_persistent e) coll name in (e\<lparr>he_persistent := p\<rparr>, r))"

section \<open>The list as a set of named definitions\<close>

datatype index_meta_op = ICreate string string "index_field list" bool | IDrop string string

fun index_meta_step :: "index_codec \<Rightarrow> persistent_layer \<Rightarrow> index_meta_op \<Rightarrow> persistent_layer" where
  "index_meta_step ic p (ICreate coll name flds unique) = fst (pl_create_index ic p coll name flds unique)"
| "index_meta_step ic p (IDrop coll name) = fst (pl_drop_index ic p coll name)"

text \<open>The abstract state: per collection the definitions by name; the first definition of a name stays.\<close>

type_synonym index_registry = "string \<Rightarrow> string \<Rightarrow> json option"

fun registry_step :: "index_registry \<Rightarrow> index_meta_op \<Rightarrow> index_registry" where
  "registry_step g (ICreate coll name flds unique) =
     (case g coll name of Some _ \<Rightarrow> g | None \<Rightarrow> g(coll := (g coll)(name \<mapsto> index_def name flds unique)))"
| "registry_step g (IDrop coll name) = g(coll := (g coll)(name := None))"

definition named_entries :: "json list \<Rightarrow> (string \<times> json) list" where
  "named_entries js = List.map_filter (\<lambda>j. map_option (\<lambda>n. (n, j)) (index_name j)) js"

definition indexes_refine :: "index_codec \<Rightarrow> persistent_layer \<Rightarrow> index_registry \<Rightarrow> bool" where
  "indexes_refine ic p g \<longleftrightarrow> (\<forall>coll. \<exists>js. get_indexes_list ic p coll = Inr js \<and>
     list_all (\<lambda>j. index_name j \<noteq> None) js \<and> distinct (map fst (named_entries js)) \<and> map_of (named_entries js) = g coll)"

definition index_codec_ok :: "index_codec \<Rightarrow> bool" where
  "index_codec_ok ic \<longleftrightarrow> (\<forall>js. \<exists>v. jsons_to_vec ic js = Inr v \<and> jsons_from_slice ic v = Inr js)"

lemma index_name_index_def [simp]: "index_name (index_def name flds unique) = Some name"
  by (simp add: index_name_def index_def_def json_as_str_def)

lemma named_entries_simps [simp]:
  "named_entries [] = []"
  "named_entries (j # js) = (case index_name j of None \<Rightarrow> named_entries js | Some n \<Rightarrow> (n, j) # named_entries js)"
  "named_entries (xs @ ys) = named_entries xs @ named_entries ys"
  by (simp_all add: named_entries_def List.map_filter_simps map_filter_def split: option.split)

lemma named_in: "list_ex (\<lambda>j. index_name j = Some name) js \<longleftrightarrow> name \<in> fst ` set (named_entries js)"
  by (induction js) (auto split: option.split)

lemma saved_list:
  assumes "index_codec_ok ic"
  shows "get_indexes_list ic (fst (save_indexes_list ic p coll js)) c = (if c = coll then Inr js else get_indexes_list ic p c)"
proof -
  obtain v where "jsons_to_vec ic js = Inr v" "jsons_from_slice ic v = Inr js" using assms by (auto simp: index_codec_ok_def)
  then show ?thesis
    by (simp add: save_indexes_list_def get_indexes_list_def store_metadata_def get_metadata_def indexes_key_def map_of_al_put)
qed

lemma map_of_remove_named:
  "distinct (map fst (named_entries js)) \<Longrightarrow> map_of (named_entries (remove_named name js)) = (map_of (named_entries js))(name := None)"
proof (induction js)
  case (Cons j js)
  show ?case
  proof (cases "index_name j = Some name")
    case True
    with Cons.prems have "map_of (named_entries js) name = None" by (simp add: map_of_eq_None_iff)
    with True show ?thesis by auto
  next
    case False
    with Cons show ?thesis by (auto split: option.splits)
  qed
qed simp

lemma remove_named_sub: "set (remove_named name js) \<subseteq> set js"
  by (induction js) auto

lemma remove_named_keys: "fst ` set (named_entries (remove_named name js)) \<subseteq> fst ` set (named_entries js)"
  by (induction js) (auto split: option.splits)

lemma distinct_remove_named:
  "distinct (map fst (named_entries js)) \<Longrightarrow> distinct (map fst (named_entries (remove_named name js)))"
  using remove_named_keys by (induction js) (auto split: option.splits)

lemma refineE:
  assumes "indexes_refine ic p g"
  obtains js where "get_indexes_list ic p coll = Inr js" "list_all (\<lambda>j. index_name j \<noteq> None) js"
    "distinct (map fst (named_entries js))" "map_of (named_entries js) = g coll"
  using assms that unfolding indexes_refine_def by blast

lemma refine_saved:
  assumes "index_codec_ok ic" and "indexes_refine ic p g" and "list_all (\<lambda>j. index_name j \<noteq> None) js"
    and "distinct (map fst (named_entries js))"
  shows "indexes_refine ic (fst (save_indexes_list ic p coll js)) (g(coll := map_of (named_entries js)))"
  using assms unfolding indexes_refine_def by (simp add: saved_list)

lemma index_step_refines:
  assumes "index_codec_ok ic" and "indexes_refine ic p g"
  shows "indexes_refine ic (index_meta_step ic p op) (registry_step g op)"
proof (cases op)
  case (ICreate coll name flds unique)
  obtain js where js: "get_indexes_list ic p coll = Inr js" "list_all (\<lambda>j. index_name j \<noteq> None) js"
    "distinct (map fst (named_entries js))" "map_of (named_entries js) = g coll" using refineE [OF assms(2)] by blast
  show ?thesis
  proof (cases "g coll name")
    case None
    then have new: "name \<notin> fst ` set (named_entries js)" using js(4) by (metis map_of_eq_None_iff)
    have g: "map_of (named_entries (js @ [index_def name flds unique])) = (g coll)(name \<mapsto> index_def name flds unique)"
      using new js(4) None by (auto simp: fun_eq_iff map_add_def split: option.split)
    have "indexes_refine ic (fst (save_indexes_list ic p coll (js @ [index_def name flds unique])))
        (g(coll := map_of (named_entries (js @ [index_def name flds unique]))))"
      using assms js new by (intro refine_saved) auto
    then show ?thesis using None new js(1) unfolding g by (simp add: ICreate pl_create_index_def named_in)
  next
    case (Some j)
    then have "name \<in> fst ` set (named_entries js)" using js(4) by (metis map_of_eq_None_iff option.simps(3))
    with Some js(1) assms(2) show ?thesis by (simp add: ICreate pl_create_index_def named_in)
  qed
next
  case (IDrop coll name)
  obtain js where js: "get_indexes_list ic p coll = Inr js" "list_all (\<lambda>j. index_name j \<noteq> None) js"
    "distinct (map fst (named_entries js))" "map_of (named_entries js) = g coll" using refineE [OF assms(2)] by blast
  show ?thesis
  proof (cases "name \<in> fst ` set (named_entries js)")
    case True
    have "indexes_refine ic (fst (save_indexes_list ic p coll (remove_named name js))) (g(coll := map_of (named_entries (remove_named name js))))"
      using assms js remove_named_sub [of name js]
      by (intro refine_saved) (auto simp: list_all_iff distinct_remove_named)
    with True js show ?thesis by (simp add: IDrop pl_drop_index_def named_in map_of_remove_named)
  next
    case False
    then have "(g coll)(name := None) = g coll" using js(4) by (metis fun_upd_idem map_of_eq_None_iff)
    with False js assms(2) show ?thesis by (simp add: IDrop pl_drop_index_def named_in)
  qed
qed

lemma index_run_refines:
  "index_codec_ok ic \<Longrightarrow> indexes_refine ic p g \<Longrightarrow> indexes_refine ic (foldl (index_meta_step ic) p ops) (foldl registry_step g ops)"
  by (induction ops arbitrary: p g) (simp_all add: index_step_refines)

text \<open>
  The stored list of index definitions is a registry by name: after any creations and removals
  on an empty layer the list of a collection can be read, has every definition the registry has and
  no other, and no name twice. Creating an index of an existing name changes nothing.
\<close>

theorem index_definitions_by_name:
  assumes "index_codec_ok ic"
  shows "\<exists>js. pl_list_indexes ic (foldl (index_meta_step ic) pl_new ops) coll = Inr js \<and>
     distinct (map index_name js) \<and>
     (\<forall>j. j \<in> set js \<longleftrightarrow> (\<exists>name. foldl registry_step (\<lambda>_ _. None) ops coll name = Some j))"
proof -
  have "indexes_refine ic pl_new (\<lambda>_ _. None)"
    by (simp add: indexes_refine_def get_indexes_list_def pl_new_def get_metadata_def fun_eq_iff)
  from refineE [OF index_run_refines [OF assms this]] obtain js where
    js: "get_indexes_list ic (foldl (index_meta_step ic) pl_new ops) coll = Inr js" "list_all (\<lambda>j. index_name j \<noteq> None) js"
    "distinct (map fst (named_entries js))" "map_of (named_entries js) = foldl registry_step (\<lambda>_ _. None) ops coll" by blast
  from js(2) have names: "map index_name js = map Some (map fst (named_entries js))" and
    vals: "set js = snd ` set (named_entries js)" by (induction js) auto
  have "j \<in> set js \<longleftrightarrow> (\<exists>name. map_of (named_entries js) name = Some j)" for j
    using js(3) by (force simp: vals)
  moreover have "distinct (map index_name js)"
    unfolding names using js(3) by (simp add: distinct_map del: map_map)
  ultimately show ?thesis using js(1,4) by (auto simp: pl_list_indexes_def)
qed

end
