(* ===== verification/Server_State.thy ===== *)
theory Server_State
  imports Protocol_Compat Index_Metadata Hybrid_Encrypted Auth_System Query_Parser Aggregation_Ved
begin

text \<open>
  Connections and sessions of the server (\<open>veddb-core/src/protocol/connection.rs\<close>): the state of the
  connection manager, reading commands from a stream, authentication, expiry and statistics.
  The manager is the one the server builds without backups and without replication; one command is
  processed at a time, and what it takes from outside (clocks, random values, memory in use) is an
  argument. Text formats and third-party libraries are parameters, collected in one record.
\<close>

section \<open>State\<close>

definition MAX_CONNECTIONS :: nat where
  "MAX_CONNECTIONS = 10000"

text \<open>Durations and points in time of the monotonic clock are in nanoseconds.\<close>

definition DEFAULT_SESSION_TIMEOUT :: int where
  "DEFAULT_SESSION_TIMEOUT = 24 * 60 * 60 * 1000000000"

record session =
  ss_id :: document_id
  ss_user :: user
  ss_created_at :: int
  ss_last_activity :: int
  ss_remote_addr :: string
  ss_protocol_version :: u8

definition session_new :: "document_id \<Rightarrow> int \<Rightarrow> user \<Rightarrow> string \<Rightarrow> u8 \<Rightarrow> session" where
  "session_new i now u a v =
     \<lparr>ss_id = i, ss_user = u, ss_created_at = now, ss_last_activity = now, ss_remote_addr = a, ss_protocol_version = v\<rparr>"

definition session_expired :: "int \<Rightarrow> session \<Rightarrow> int \<Rightarrow> bool" where
  "session_expired now s timeout \<longleftrightarrow> now - ss_last_activity s > timeout"

datatype connection_state = Unauthenticated | Authenticated session | Closed

record connection =
  cn_remote_addr :: string
  cn_state :: connection_state
  cn_created_at :: int

definition connection_new :: "int \<Rightarrow> string \<Rightarrow> connection" where
  "connection_new now a = \<lparr>cn_remote_addr = a, cn_state = Unauthenticated, cn_created_at = now\<rparr>"

datatype connection_error =
    IoError string | ReadTimeout | WriteTimeout | ProtocolError string | PayloadTooLarge | TlsError string
  | AuthError string | ConnectionNotFound

definition connection_error_text :: "connection_error \<Rightarrow> string" where
  "connection_error_text e =
     (case e of
        IoError m \<Rightarrow> ''IO error: '' @ m | ReadTimeout \<Rightarrow> ''Read timeout'' | WriteTimeout \<Rightarrow> ''Write timeout''
      | ProtocolError m \<Rightarrow> ''Protocol error: '' @ m | PayloadTooLarge \<Rightarrow> ''Payload too large'' | TlsError m \<Rightarrow> ''TLS error: '' @ m
      | AuthError m \<Rightarrow> ''Authentication error: '' @ m | ConnectionNotFound \<Rightarrow> ''Connection not found'')"

record conn_manager =
  cm_connections :: "(document_id \<times> connection) list"
  cm_sessions :: "(document_id \<times> session) list"
  cm_permits :: nat
  cm_auth :: auth_system
  cm_jwt :: jwt_service
  cm_storage :: hybrid_engine
  cm_session_timeout :: int
  cm_start_time :: int
  cm_total_ops :: u64
  cm_ops_snapshot :: "u64 \<times> int"
  cm_encryption :: "encryption_engine option"

definition conn_manager_new :: "int \<Rightarrow> auth_system \<Rightarrow> jwt_service \<Rightarrow> hybrid_engine \<Rightarrow> conn_manager" where
  "conn_manager_new now au js st =
     \<lparr>cm_connections = [], cm_sessions = [], cm_permits = MAX_CONNECTIONS, cm_auth = au, cm_jwt = js, cm_storage = st,
      cm_session_timeout = DEFAULT_SESSION_TIMEOUT, cm_start_time = now, cm_total_ops = 0, cm_ops_snapshot = (0, now),
      cm_encryption = None\<rparr>"

definition with_encryption_engine :: "encryption_engine \<Rightarrow> conn_manager \<Rightarrow> conn_manager" where
  "with_encryption_engine en cm = cm\<lparr>cm_encryption := Some en\<rparr>"

section \<open>Reading commands\<close>

text \<open>
  \<open>ending\<close> is what a read reports when the bytes of the stream do not suffice: a timeout, or the
  error of a closed socket. Slicing with wrapped lengths panics in the task of the connection.
\<close>

datatype read_outcome = ReadCommand command bytes | ReadFailed connection_error | ReadPanic

definition MAX_PAYLOAD :: nat where
  "MAX_PAYLOAD = 16 * 1024 * 1024"

definition frame_error_text :: "frame_error \<Rightarrow> string" where
  "frame_error_text e =
     (case e of HeaderTooSmall \<Rightarrow> ''Buffer too small for header'' | PayloadTooSmall \<Rightarrow> ''Buffer too small for payload''
      | SlicePanic \<Rightarrow> ''panic'')"

definition read_command :: "connection_error \<Rightarrow> bytes \<Rightarrow> read_outcome" where
  "read_command ending s =
     (if length s < 24 then ReadFailed ending
      else let payload_size = total_payload_len (cmd_header_read (take 24 s))
        in if payload_size > MAX_PAYLOAD then ReadFailed PayloadTooLarge
           else if length (drop 24 s) < payload_size then ReadFailed ending
           else case command_from_bytes (take 24 s @ take payload_size (drop 24 s)) of
                  Inl e \<Rightarrow> if e = SlicePanic then ReadPanic else ReadFailed (ProtocolError (frame_error_text e))
                | Inr c \<Rightarrow> ReadCommand c (drop payload_size (drop 24 s)))"

definition conn_update_activity :: "int \<Rightarrow> connection \<Rightarrow> connection" where
  "conn_update_activity now cn =
     (case cn_state cn of Authenticated s \<Rightarrow> cn\<lparr>cn_state := Authenticated (s\<lparr>ss_last_activity := now\<rparr>)\<rparr> | _ \<Rightarrow> cn)"

section \<open>Libraries and environment\<close>

record key_metadata_response =
  km_r_key_id :: string
  km_r_version :: u32
  km_r_algorithm :: string
  km_r_created_at :: int
  km_r_last_rotated :: int
  km_r_expires_at :: "int option"
  km_r_active :: bool
  km_r_is_active :: bool

record expiring_key_info =
  ek_r_key_id :: string
  ek_r_days_remaining :: int
  ek_r_last_rotated :: int
  ek_r_created_at :: int

record server_codec = wire_codec +
  auth_from_slice :: "bytes \<Rightarrow> (string, auth_request) result"
  auth_response_to_vec :: "auth_response \<Rightarrow> (string, bytes) result"
  create_collection_from_slice :: "bytes \<Rightarrow> (string, create_collection_request) result"
  drop_collection_from_slice :: "bytes \<Rightarrow> (string, string) result"
  list_indexes_from_slice :: "bytes \<Rightarrow> (string, string) result"
  create_index_from_slice :: "bytes \<Rightarrow> (string, create_index_request) result"
  drop_index_from_slice :: "bytes \<Rightarrow> (string, drop_index_request) result"
  query_from_slice :: "bytes \<Rightarrow> (string, query_request) result"
  insert_from_slice :: "bytes \<Rightarrow> (string, insert_doc_request) result"
  update_from_slice :: "bytes \<Rightarrow> (string, update_doc_request) result"
  delete_from_slice :: "bytes \<Rightarrow> (string, delete_doc_request) result"
  aggregate_from_slice :: "bytes \<Rightarrow> (string, string \<times> pipeline_stage list) result"
  create_user_from_slice :: "bytes \<Rightarrow> (string, create_user_request) result"
  delete_user_from_slice :: "bytes \<Rightarrow> (string, string) result"
  update_role_from_slice :: "bytes \<Rightarrow> (string, update_user_role_request) result"
  key_id_from_slice :: "bytes \<Rightarrow> (string, string) result"
  import_key_from_slice :: "bytes \<Rightarrow> (string, string) result"
  rotation_days_from_slice :: "bytes \<Rightarrow> (string, u32) result"
  key_list_to_vec :: "key_metadata_response list \<Rightarrow> (string, bytes) result"
  key_metadata_to_vec :: "key_metadata_response \<Rightarrow> (string, bytes) result"
  export_to_vec :: "string \<times> string \<Rightarrow> (string, bytes) result"
  expiring_to_vec :: "expiring_key_info list \<Rightarrow> (string, bytes) result"

record server_lib =
  sl_codec :: server_codec
  sl_docs :: doc_codec
  sl_indexes :: index_codec
  sl_regex :: regex_new
  sl_crypto :: crypto
  sl_bhash :: "string \<Rightarrow> string option"
  sl_bverify :: "string \<Rightarrow> string \<Rightarrow> bool option"
  sl_rfc3339 :: "int \<Rightarrow> string"
  sl_dbg :: "ved_value \<Rightarrow> string"
  sl_json_dbg :: "json \<Rightarrow> string"
  sl_group_order :: "(string \<times> group_accumulator) list \<Rightarrow> (string \<times> group_accumulator) list"
  sl_auth_text :: "auth_error \<Rightarrow> string"
  sl_key_text :: "encryption_error \<Rightarrow> string"
  sl_parse_text :: "query_parse_error \<Rightarrow> string"
  sl_query_text :: "query_execution_error \<Rightarrow> string"
  sl_agg_text :: "aggregation_error \<Rightarrow> string"

text \<open>What one command takes from outside: clocks, fresh ids and random bytes, the memory in use.\<close>

record server_env =
  ev_instant :: int
  ev_time :: int
  ev_utc :: int
  ev_doc_id :: document_id
  ev_session_id :: document_id
  ev_jti :: string
  ev_jti2 :: string
  ev_stamp :: audit_stamp
  ev_ids :: "nat \<Rightarrow> nat \<Rightarrow> document_id"
  ev_key_bytes :: bytes
  ev_nonce :: bytes
  ev_memory :: u64

type_synonym handler = "conn_manager \<times> (connection_error, response) result"
section \<open>Authentication\<close>

definition is_authenticated :: "conn_manager \<Rightarrow> document_id \<Rightarrow> bool" where
  "is_authenticated cm cid =
     (case map_of (cm_connections cm) cid of
        None \<Rightarrow> False | Some cn \<Rightarrow> (case cn_state cn of Authenticated _ \<Rightarrow> True | _ \<Rightarrow> False))"

definition lookup_account :: "auth_system \<Rightarrow> string \<Rightarrow> (connection_error, user) result" where
  "lookup_account au n = (case get_user (au_users au) n of Some u \<Rightarrow> Inr u | None \<Rightarrow> Inl (AuthError ''User not found''))"

definition check_credentials ::
  "server_lib \<Rightarrow> server_env \<Rightarrow> conn_manager \<Rightarrow> auth_credentials \<Rightarrow> conn_manager \<times> (connection_error, user) result"
where
  "check_credentials sl ev cm cr =
     (case cr of
        UsernamePassword n pw \<Rightarrow>
          (case authenticate (sl_bverify sl) (sl_auth_text sl) (ev_utc ev) (ev_jti ev) (ev_stamp ev) (cm_auth cm) n pw None of
             (au, Inl e) \<Rightarrow> (cm\<lparr>cm_auth := au\<rparr>, Inl (AuthError (''Authentication failed: '' @ sl_auth_text sl e)))
           | (au, Inr token) \<Rightarrow> (cm\<lparr>cm_auth := au\<rparr>, lookup_account au n))
      | JwtToken token \<Rightarrow>
          (case verify_token (cm_jwt cm) (ev_utc ev) token of
             Inl _ \<Rightarrow> (cm, Inl (AuthError ''Invalid token''))
           | Inr claims \<Rightarrow> (cm, lookup_account (cm_auth cm) (uc_username claims))))"

text \<open>\<open>elapsed\<close> of a point in time that is still to come is zero.\<close>

definition elapsed_secs :: "int \<Rightarrow> int \<Rightarrow> u64" where
  "elapsed_secs now t = of_nat (nat (now - t) div 1000000000)"

definition open_session :: "server_env \<Rightarrow> conn_manager \<Rightarrow> document_id \<Rightarrow> connection \<Rightarrow> user \<Rightarrow> u8 \<Rightarrow> conn_manager" where
  "open_session ev cm cid cn u v =
     (let s = session_new (ev_session_id ev) (ev_instant ev) u (cn_remote_addr cn) v
      in cm\<lparr>cm_connections := al_put cid (cn\<lparr>cn_state := Authenticated s\<rparr>) (cm_connections cm),
            cm_sessions := al_put (ss_id s) s (cm_sessions cm)\<rparr>)"

definition handle_auth :: "server_lib \<Rightarrow> server_env \<Rightarrow> conn_manager \<Rightarrow> document_id \<Rightarrow> command \<Rightarrow> handler" where
  "handle_auth sl ev cm cid cmd =
     (case auth_from_slice (sl_codec sl) (cmd_value cmd) of
        Inl e \<Rightarrow> (cm, Inl (ProtocolError (''Invalid auth request: '' @ e)))
      | Inr req \<Rightarrow>
          (case check_credentials sl ev cm (ar_credentials req) of
             (cm1, Inr u) \<Rightarrow>
               (case map_of (cm_connections cm1) cid of
                  None \<Rightarrow> (cm1, Inl ConnectionNotFound)
                | Some cn \<Rightarrow>
                    (let cm2 = open_session ev cm1 cid cn u (ch_version (cmd_header cmd))
                     in case generate_token (cm_jwt cm2) (ev_utc ev) (ev_jti2 ev) u of
                          Inl e \<Rightarrow> (cm2, Inl (AuthError (''Token generation failed: '' @ sl_auth_text sl e)))
                        | Inr token \<Rightarrow>
                            (case auth_response_to_vec (sl_codec sl)
                                    \<lparr>arsp_success = True, arsp_token = Some token,
                                     arsp_expires_at = Some (elapsed_secs (ev_instant ev) (ev_instant ev + cm_session_timeout cm2)),
                                     arsp_error = None\<rparr> of
                               Inl e \<Rightarrow> (cm2, Inl (ProtocolError (''Response serialization failed: '' @ e)))
                             | Inr payload \<Rightarrow> (cm2, Inr (response_ok (ch_seq (cmd_header cmd)) payload)))))
           | (cm1, Inl e) \<Rightarrow>
               (cm1, case auth_response_to_vec (sl_codec sl)
                       \<lparr>arsp_success = False, arsp_token = None, arsp_expires_at = None,
                        arsp_error = Some (''Authentication failed: '' @ connection_error_text e)\<rparr> of
                  Inl m \<Rightarrow> Inl (ProtocolError (''Response serialization failed: '' @ m))
                | Inr payload \<Rightarrow> Inr (response_new StAuthFailed (ch_seq (cmd_header cmd)) payload))))"

definition get_connection_addr :: "conn_manager \<Rightarrow> document_id \<Rightarrow> string option" where
  "get_connection_addr cm cid = map_option cn_remote_addr (map_of (cm_connections cm) cid)"

section \<open>Expiry and statistics\<close>

text \<open>For every expired session all connections are removed, whoever they belong to.\<close>

fun expire_sessions :: "document_id list \<Rightarrow> conn_manager \<Rightarrow> conn_manager" where
  "expire_sessions [] cm = cm"
| "expire_sessions (i # is) cm =
     (if map_of (cm_sessions cm) i = None then expire_sessions is cm
      else expire_sessions is (cm\<lparr>cm_sessions := al_del i (cm_sessions cm),
             cm_connections := foldl (\<lambda>cs c. al_del c cs) (cm_connections cm) (map fst (cm_connections cm))\<rparr>))"

definition cleanup_expired_sessions :: "int \<Rightarrow> conn_manager \<Rightarrow> conn_manager" where
  "cleanup_expired_sessions now cm =
     expire_sessions (map fst (filter (\<lambda>(i, s). session_expired now s (cm_session_timeout cm)) (cm_sessions cm))) cm"

record connection_stats =
  cst_total_connections :: nat
  cst_authenticated_connections :: nat
  cst_max_connections :: nat
  cst_available_slots :: nat
  cst_uptime_seconds :: u64
  cst_ops_per_second :: u64
  cst_total_ops :: u64

text \<open>\<open>Duration::as_secs_f64\<close>.\<close>

definition secs_f64 :: "int \<Rightarrow> u64" where
  "secs_f64 d = f64_add (f64_of_int (d div 1000000000)) (f64_div (f64_of_int (d mod 1000000000)) (f64_of_int 1000000000))"

definition manager_get_stats :: "int \<Rightarrow> conn_manager \<Rightarrow> conn_manager \<times> connection_stats" where
  "manager_get_stats now cm =
     (let (last_ops, last_time) = cm_ops_snapshot cm;
          elapsed = secs_f64 (max 0 (now - last_time));
          rate = (if f64_lt (f64_of_int 0) elapsed then f64_div (f64_of_int (uint (cm_total_ops cm - last_ops))) elapsed
                  else f64_of_int 0);
          cm1 = (if f64_lt elapsed (f64_of_int 5) then cm else cm\<lparr>cm_ops_snapshot := (cm_total_ops cm, now)\<rparr>)
      in (cm1, \<lparr>cst_total_connections = length (cm_connections cm), cst_authenticated_connections = length (cm_sessions cm),
                cst_max_connections = MAX_CONNECTIONS, cst_available_slots = cm_permits cm,
                cst_uptime_seconds = elapsed_secs now (cm_start_time cm), cst_ops_per_second = rate,
                cst_total_ops = cm_total_ops cm\<rparr>))"

definition manager_record_operation :: "conn_manager \<Rightarrow> conn_manager" where
  "manager_record_operation cm = cm\<lparr>cm_total_ops := cm_total_ops cm + 1\<rparr>"

end
