(* ===== verification/Server_Handlers.thy ===== *)
theory Server_Handlers
  imports Server_State
begin

text \<open>
  The command handlers of the server (\<open>process_command\<close> and the loop of a connection in
  \<open>veddb-core/src/protocol/connection.rs\<close>). A handler returns the new state of the manager and either the
  response or the error that the loop turns into one.
\<close>

section \<open>Replies and requests\<close>

definition reply :: "server_lib \<Rightarrow> command \<Rightarrow> operation_response \<Rightarrow> (connection_error, response) result" where
  "reply sl cmd r = map_sum ProtocolError (response_ok (ch_seq (cmd_header cmd))) (op_response_to_vec (sl_codec sl) r)"

definition reply_vec :: "command \<Rightarrow> (string, bytes) result \<Rightarrow> (connection_error, response) result" where
  "reply_vec cmd r = map_sum ProtocolError (response_ok (ch_seq (cmd_header cmd))) r"

definition reply_status :: "command \<Rightarrow> string \<Rightarrow> (connection_error, response) result" where
  "reply_status cmd m = Inr (response_new StError (ch_seq (cmd_header cmd)) (bytes_of m))"

definition with_request :: "conn_manager \<Rightarrow> string \<Rightarrow> (string, 'r) result \<Rightarrow> ('r \<Rightarrow> handler) \<Rightarrow> handler" where
  "with_request cm prefix q k = (case q of Inl e \<Rightarrow> (cm, Inl (ProtocolError (prefix @ e))) | Inr r \<Rightarrow> k r)"

text \<open>A storage call whose error ends the command and whose success is answered without data.\<close>

definition storage_reply :: "server_lib \<Rightarrow> conn_manager \<Rightarrow> command \<Rightarrow> hybrid_engine \<times> (string, 'a) result \<Rightarrow> handler" where
  "storage_reply sl cm cmd er =
     (cm\<lparr>cm_storage := fst er\<rparr>,
      case snd er of Inl e \<Rightarrow> Inl (ProtocolError e) | Inr _ \<Rightarrow> reply sl cmd (operation_success None))"

section \<open>Values\<close>

definition plain_int :: "u64 \<Rightarrow> json" where
  "plain_int i = JNumber \<lparr>num_i64 = Some i, num_u64 = (if 0 \<le> sint i then Some i else None), num_f64 = Some (f64_of_int (sint i))\<rparr>"

fun value_to_plain_json :: "ved_value \<Rightarrow> json" where
  "value_to_plain_json Null = JNull"
| "value_to_plain_json (Bool b) = JBool b"
| "value_to_plain_json (Int32 i) = plain_int (scast i)"
| "value_to_plain_json (Int64 i) = plain_int i"
| "value_to_plain_json (Float64 f) =
     (if f64_is_nan f \<or> f64_is_inf f then JNull else JNumber \<lparr>num_i64 = None, num_u64 = None, num_f64 = Some f\<rparr>)"
| "value_to_plain_json (Str s) = JString s"
| "value_to_plain_json (Array vs) = JArray (map value_to_plain_json vs)"
| "value_to_plain_json (Object es) = JObject (map (\<lambda>(k, v). (k, value_to_plain_json v)) es)"
| "value_to_plain_json (Binary _) = JNull"
| "value_to_plain_json (ObjectId _) = JNull"
| "value_to_plain_json (DateTime _) = JNull"

text \<open>The helper of \<open>ListIndexes\<close> converts as the aggregation does.\<close>

definition index_json_to_value :: "json \<Rightarrow> ved_value" where
  "index_json_to_value j = json_to_doc_value j"

section \<open>Collections and indexes\<close>

definition h_list_collections :: "server_lib \<Rightarrow> conn_manager \<Rightarrow> command \<Rightarrow> handler" where
  "h_list_collections sl cm cmd =
     (cm, reply sl cmd (operation_success (Some (Array (map Str (hybrid_list_collections (cm_storage cm)))))))"

definition h_create_collection :: "server_lib \<Rightarrow> conn_manager \<Rightarrow> command \<Rightarrow> handler" where
  "h_create_collection sl cm cmd =
     with_request cm [] (create_collection_from_slice (sl_codec sl) (cmd_value cmd)) (\<lambda>req.
       storage_reply sl cm cmd (hybrid_create_collection (sl_docs sl) (cm_storage cm) (ccr_name req)))"

definition h_drop_collection :: "server_lib \<Rightarrow> conn_manager \<Rightarrow> command \<Rightarrow> handler" where
  "h_drop_collection sl cm cmd =
     with_request cm [] (drop_collection_from_slice (sl_codec sl) (cmd_value cmd)) (\<lambda>name.
       storage_reply sl cm cmd (hybrid_drop_collection (sl_docs sl) (cm_storage cm) name))"

definition h_list_indexes :: "server_lib \<Rightarrow> conn_manager \<Rightarrow> command \<Rightarrow> handler" where
  "h_list_indexes sl cm cmd =
     with_request cm [] (list_indexes_from_slice (sl_codec sl) (cmd_value cmd)) (\<lambda>coll.
       (cm, case hybrid_list_indexes (sl_indexes sl) (cm_storage cm) coll of
              Inl e \<Rightarrow> Inl (ProtocolError e)
            | Inr js \<Rightarrow> reply sl cmd (operation_success (Some (Array (map index_json_to_value js))))))"

definition h_create_index :: "server_lib \<Rightarrow> conn_manager \<Rightarrow> command \<Rightarrow> handler" where
  "h_create_index sl cm cmd =
     with_request cm [] (create_index_from_slice (sl_codec sl) (cmd_value cmd)) (\<lambda>req.
       storage_reply sl cm cmd (hybrid_create_index (sl_indexes sl) (cm_storage cm) (cir_collection req) (cir_name req) (cir_fields req) (cir_unique req)))"

definition h_drop_index :: "server_lib \<Rightarrow> conn_manager \<Rightarrow> command \<Rightarrow> handler" where
  "h_drop_index sl cm cmd =
     with_request cm [] (drop_index_from_slice (sl_codec sl) (cmd_value cmd)) (\<lambda>req.
       storage_reply sl cm cmd (hybrid_drop_index (sl_indexes sl) (cm_storage cm) (dir_collection req) (dir_name req)))"

section \<open>Documents\<close>

fun matching_documents :: "server_lib \<Rightarrow> string \<Rightarrow> query_filter \<Rightarrow> document list \<Rightarrow> (connection_error, document list) result" where
  "matching_documents sl prefix f [] = Inr []"
| "matching_documents sl prefix f (d # ds) =
     (case matches_filter (sl_regex sl) d f of
        Inl e \<Rightarrow> Inl (ProtocolError (prefix @ sl_query_text sl e))
      | Inr b \<Rightarrow> (case matching_documents sl prefix f ds of Inl e \<Rightarrow> Inl e | Inr ms \<Rightarrow> Inr (if b then d # ms else ms)))"

definition query_documents :: "server_lib \<Rightarrow> hybrid_engine \<Rightarrow> query_request \<Rightarrow> (connection_error, document list) result" where
  "query_documents sl st req =
     (case (case qr_filter req of Some f \<Rightarrow> value_to_plain_json f | None \<Rightarrow> JObject []) of
        JObject es \<Rightarrow>
          (if es = [] then map_sum ProtocolError id (hybrid_scan_collection (sl_docs sl) st (qr_collection req))
           else case parse_filter (JObject es) of
                  Inl e \<Rightarrow> Inl (ProtocolError (''Invalid filter: '' @ sl_parse_text sl e))
                | Inr f \<Rightarrow>
                    (case hybrid_scan_collection (sl_docs sl) st (qr_collection req) of
                       Inl e \<Rightarrow> Inl (ProtocolError e)
                     | Inr ds \<Rightarrow> matching_documents sl [] f ds))
      | _ \<Rightarrow> Inr [])"

definition document_value :: "server_lib \<Rightarrow> document \<Rightarrow> ved_value" where
  "document_value sl d = Object (bt_insert ''_id'' (Str (show_uuid (sl_docs sl) (doc_id d))) (doc_fields d))"

definition h_query :: "server_lib \<Rightarrow> conn_manager \<Rightarrow> command \<Rightarrow> handler" where
  "h_query sl cm cmd =
     with_request cm [] (query_from_slice (sl_codec sl) (cmd_value cmd)) (\<lambda>req.
       (cm, case query_documents sl (cm_storage cm) req of
              Inl e \<Rightarrow> Inl e
            | Inr ds \<Rightarrow> reply sl cmd (operation_success (Some (Array (map (document_value sl) ds))))))"

definition h_insert_doc :: "server_lib \<Rightarrow> server_env \<Rightarrow> conn_manager \<Rightarrow> command \<Rightarrow> handler" where
  "h_insert_doc sl ev cm cmd =
     with_request cm [] (insert_from_slice (sl_codec sl) (cmd_value cmd)) (\<lambda>req.
       storage_reply sl cm cmd (hybrid_insert (sl_docs sl) (ev_time ev) (cm_storage cm) (idr_collection req) (idr_document req)))"

text \<open>The loops stop at the first document the filter cannot judge; what was done before stays.\<close>

fun update_loop ::
  "server_lib \<Rightarrow> server_env \<Rightarrow> update_doc_request \<Rightarrow> query_filter \<Rightarrow> document list \<Rightarrow> u64 \<Rightarrow> hybrid_engine \<Rightarrow>
   hybrid_engine \<times> (connection_error, u64) result"
where
  "update_loop sl ev req f [] n st = (st, Inr n)"
| "update_loop sl ev req f (d # ds) n st =
     (case matches_filter (sl_regex sl) d f of
        Inl e \<Rightarrow> (st, Inl (ProtocolError (''Filter matching error: '' @ sl_query_text sl e)))
      | Inr b \<Rightarrow>
          (case (b, udr_update req) of
             (True, Object fs) \<Rightarrow>
               (case hybrid_update (sl_docs sl) (ev_time ev) st (udr_collection req) (doc_id d)
                       ((with_id (doc_id d) (ev_time ev))\<lparr>doc_fields := fs\<rparr>) of
                  (st1, Inr _) \<Rightarrow> update_loop sl ev req f ds (n + 1) st1
                | (st1, Inl _) \<Rightarrow> update_loop sl ev req f ds n st1)
           | _ \<Rightarrow> update_loop sl ev req f ds n st))"

definition counted_reply :: "server_lib \<Rightarrow> conn_manager \<Rightarrow> command \<Rightarrow> hybrid_engine \<times> (connection_error, u64) result \<Rightarrow> handler" where
  "counted_reply sl cm cmd er =
     (cm\<lparr>cm_storage := fst er\<rparr>,
      case snd er of
        Inl e \<Rightarrow> Inl e | Inr n \<Rightarrow> reply sl cmd ((operation_success None)\<lparr>or_affected_count := Some n\<rparr>))"

definition h_update_doc :: "server_lib \<Rightarrow> server_env \<Rightarrow> conn_manager \<Rightarrow> command \<Rightarrow> handler" where
  "h_update_doc sl ev cm cmd =
     with_request cm [] (update_from_slice (sl_codec sl) (cmd_value cmd)) (\<lambda>req.
       case parse_filter (value_to_plain_json (udr_filter req)) of
         Inl e \<Rightarrow> (cm, Inl (ProtocolError (''Invalid filter: '' @ sl_parse_text sl e)))
       | Inr f \<Rightarrow>
           (case hybrid_scan_collection (sl_docs sl) (cm_storage cm) (udr_collection req) of
              Inl e \<Rightarrow> (cm, Inl (ProtocolError e))
            | Inr ds \<Rightarrow> counted_reply sl cm cmd (update_loop sl ev req f ds 0 (cm_storage cm))))"

fun delete_loop ::
  "server_lib \<Rightarrow> server_env \<Rightarrow> string \<Rightarrow> query_filter \<Rightarrow> document list \<Rightarrow> u64 \<Rightarrow> hybrid_engine \<Rightarrow>
   hybrid_engine \<times> (connection_error, u64) result"
where
  "delete_loop sl ev coll f [] n st = (st, Inr n)"
| "delete_loop sl ev coll f (d # ds) n st =
     (case matches_filter (sl_regex sl) d f of
        Inl e \<Rightarrow> (st, Inl (ProtocolError (''Filter matching error: '' @ sl_query_text sl e)))
      | Inr b \<Rightarrow>
          if b then let (st1, found) = hybrid_delete (sl_docs sl) (ev_time ev) st coll (doc_id d)
                 in delete_loop sl ev coll f ds (if found then n + 1 else n) st1
          else delete_loop sl ev coll f ds n st)"

definition h_delete_doc :: "server_lib \<Rightarrow> server_env \<Rightarrow> conn_manager \<Rightarrow> command \<Rightarrow> handler" where
  "h_delete_doc sl ev cm cmd =
     with_request cm [] (delete_from_slice (sl_codec sl) (cmd_value cmd)) (\<lambda>req.
       case parse_filter (value_to_plain_json (ddr_filter req)) of
         Inl e \<Rightarrow> (cm, Inl (ProtocolError (''Invalid filter: '' @ sl_parse_text sl e)))
       | Inr f \<Rightarrow>
           (case hybrid_scan_collection (sl_docs sl) (cm_storage cm) (ddr_collection req) of
              Inl e \<Rightarrow> (cm, Inl (ProtocolError e))
            | Inr ds \<Rightarrow> counted_reply sl cm cmd (delete_loop sl ev (ddr_collection req) f ds 0 (cm_storage cm))))"

definition h_aggregate :: "server_lib \<Rightarrow> server_env \<Rightarrow> conn_manager \<Rightarrow> command \<Rightarrow> handler" where
  "h_aggregate sl ev cm cmd =
     with_request cm ''Invalid aggregation request: '' (aggregate_from_slice (sl_codec sl) (cmd_value cmd)) (\<lambda>(coll, stages).
       (cm, case hybrid_scan_collection (sl_docs sl) (cm_storage cm) coll of
              Inl e \<Rightarrow> Inl (ProtocolError (''Failed to scan collection: '' @ e))
            | Inr ds \<Rightarrow>
                (case pipeline_execute (sl_dbg sl) (sl_json_dbg sl) (sl_group_order sl) (ev_ids ev) (ev_time ev) stages ds of
                   Inr rs \<Rightarrow> reply sl cmd (operation_success (Some (Array (map (\<lambda>d. Object (doc_fields d)) rs))))
                 | Inl e \<Rightarrow> reply sl cmd (operation_error (''Aggregation failed: '' @ sl_agg_text sl e)))))"

section \<open>Server information\<close>

definition cache_hit_rate :: "hybrid_stats \<Rightarrow> u64" where
  "cache_hit_rate s =
     (let total_reads = cache_hits s + cache_misses s
      in if total_reads = 0 then f64_of_int 0 else f64_div (f64_of_int (uint (cache_hits s))) (f64_of_int (uint total_reads)))"

definition h_info :: "server_lib \<Rightarrow> server_env \<Rightarrow> conn_manager \<Rightarrow> command \<Rightarrow> handler" where
  "h_info sl ev cm cmd =
     (let (cm1, stats) = manager_get_stats (ev_instant ev) cm;
          info = [(''cache_hit_rate'', Float64 (cache_hit_rate (he_stats (cm_storage cm1)))),
                  (''connection_count'', Int32 (of_nat (cst_total_connections stats))),
                  (''memory_usage_bytes'', Int64 (ev_memory ev)),
                  (''ops_per_second'', Float64 (cst_ops_per_second stats)),
                  (''total_collections'', Int64 (of_nat (length (hybrid_list_collections (cm_storage cm1))))),
                  (''total_ops'', Int64 (cst_total_ops stats)),
                  (''uptime_seconds'', Int64 (cst_uptime_seconds stats)),
                  (''version'', Str ''0.2.0'')]
      in (cm1, reply sl cmd (operation_success (Some (Object info)))))"

section \<open>Users\<close>

definition user_value :: "server_lib \<Rightarrow> user \<Rightarrow> ved_value" where
  "user_value sl u = Object
     [(''created_at'', Str (sl_rfc3339 sl (user_created_at u))), (''enabled'', Bool (user_enabled u)),
      (''last_login'', case last_login u of Some t \<Rightarrow> Str (sl_rfc3339 sl t) | None \<Rightarrow> Null),
      (''role'', Str (role_as_str (user_role u))), (''username'', Str (username u))]"

definition h_list_users :: "server_lib \<Rightarrow> conn_manager \<Rightarrow> command \<Rightarrow> handler" where
  "h_list_users sl cm cmd =
     (cm, reply sl cmd (operation_success (Some (Array (map (user_value sl) (list_users (au_users (cm_auth cm))))))))"

definition set_users :: "user_manager \<Rightarrow> conn_manager \<Rightarrow> conn_manager" where
  "set_users m cm = cm\<lparr>cm_auth := (cm_auth cm)\<lparr>au_users := m\<rparr>\<rparr>"

definition user_reply :: "server_lib \<Rightarrow> conn_manager \<Rightarrow> command \<Rightarrow> string \<Rightarrow> user_manager \<times> (auth_error, unit) result \<Rightarrow> handler" where
  "user_reply sl cm cmd what mr =
     (set_users (fst mr) cm,
      case snd mr of
        Inr _ \<Rightarrow> reply sl cmd (operation_success None)
      | Inl e \<Rightarrow> reply sl cmd (operation_error (''Failed to '' @ what @ '': '' @ sl_auth_text sl e)))"

definition role_or_read_only :: "string \<Rightarrow> role" where
  "role_or_read_only s = (case role_from_str s of Some r \<Rightarrow> r | None \<Rightarrow> ReadOnly)"

definition h_create_user :: "server_lib \<Rightarrow> server_env \<Rightarrow> conn_manager \<Rightarrow> command \<Rightarrow> handler" where
  "h_create_user sl ev cm cmd =
     with_request cm [] (create_user_from_slice (sl_codec sl) (cmd_value cmd)) (\<lambda>req.
       case sl_bhash sl (cur_password req) of
         None \<Rightarrow> (cm, Inl (ProtocolError ''Failed to hash password''))
       | Some h \<Rightarrow>
           user_reply sl cm cmd ''create user'' (create_user (au_users (cm_auth cm))
             \<lparr>username = cur_username req, password_hash = h, user_role = role_or_read_only (cur_role req),
              user_created_at = ev_utc ev, last_login = None, user_enabled = True, user_meta = user_metadata_default\<rparr>))"

definition h_delete_user :: "server_lib \<Rightarrow> conn_manager \<Rightarrow> command \<Rightarrow> handler" where
  "h_delete_user sl cm cmd =
     with_request cm [] (delete_user_from_slice (sl_codec sl) (cmd_value cmd)) (\<lambda>n.
       user_reply sl cm cmd ''delete user'' (delete_user (au_users (cm_auth cm)) n))"

definition h_update_user_role :: "server_lib \<Rightarrow> conn_manager \<Rightarrow> command \<Rightarrow> handler" where
  "h_update_user_role sl cm cmd =
     with_request cm [] (update_role_from_slice (sl_codec sl) (cmd_value cmd)) (\<lambda>req.
       case get_user (au_users (cm_auth cm)) (uur_username req) of
         None \<Rightarrow> (cm, reply sl cmd (operation_error ''User not found''))
       | Some u \<Rightarrow>
           user_reply sl cm cmd ''update user''
             (update_user (au_users (cm_auth cm)) (u\<lparr>user_role := role_or_read_only (uur_role req)\<rparr>)))"

section \<open>Keys\<close>

definition with_engine :: "conn_manager \<Rightarrow> (encryption_engine \<Rightarrow> handler) \<Rightarrow> handler" where
  "with_engine cm k =
     (case cm_encryption cm of None \<Rightarrow> (cm, Inl (ProtocolError ''Encryption feature not enabled'')) | Some en \<Rightarrow> k en)"

definition set_keys :: "encryption_engine \<Rightarrow> key_manager \<Rightarrow> conn_manager \<Rightarrow> conn_manager" where
  "set_keys en m cm = cm\<lparr>cm_encryption := Some (en\<lparr>en_keys := m\<rparr>)\<rparr>"

definition h_create_key :: "server_lib \<Rightarrow> server_env \<Rightarrow> conn_manager \<Rightarrow> command \<Rightarrow> handler" where
  "h_create_key sl ev cm cmd =
     with_engine cm (\<lambda>en. with_request cm ''Invalid request: '' (key_id_from_slice (sl_codec sl) (cmd_value cmd)) (\<lambda>i.
       case create_key (ev_key_bytes ev) (ev_utc ev) (en_keys en) i of
         (m, Inr _) \<Rightarrow> (set_keys en m cm, reply sl cmd (operation_success None))
       | (m, Inl e) \<Rightarrow> (set_keys en m cm, reply_status cmd (''Create key failed: '' @ sl_key_text sl e))))"

definition key_response :: "encryption_key \<Rightarrow> key_metadata_response" where
  "key_response k =
     \<lparr>km_r_key_id = ek_id k, km_r_version = ek_version k, km_r_algorithm = ''AES-256-GCM'', km_r_created_at = ek_created_at k,
      km_r_last_rotated = ek_last_rotated k, km_r_expires_at = None, km_r_active = ek_active k, km_r_is_active = ek_active k\<rparr>"

definition h_list_keys :: "server_lib \<Rightarrow> conn_manager \<Rightarrow> command \<Rightarrow> handler" where
  "h_list_keys sl cm cmd =
     with_engine cm (\<lambda>en. (cm, reply_vec cmd (key_list_to_vec (sl_codec sl) (map key_response (list_keys (en_keys en))))))"

definition h_export_key :: "server_lib \<Rightarrow> server_env \<Rightarrow> conn_manager \<Rightarrow> command \<Rightarrow> handler" where
  "h_export_key sl ev cm cmd =
     with_engine cm (\<lambda>en. with_request cm ''Invalid request: '' (key_id_from_slice (sl_codec sl) (cmd_value cmd)) (\<lambda>i.
       (cm, case export_key (sl_crypto sl) (ev_nonce ev) (en_keys en) i of
              Inr data \<Rightarrow> reply_vec cmd (export_to_vec (sl_codec sl) (i, data))
            | Inl e \<Rightarrow> reply_status cmd (''Export key failed: '' @ sl_key_text sl e))))"

definition h_import_key :: "server_lib \<Rightarrow> conn_manager \<Rightarrow> command \<Rightarrow> handler" where
  "h_import_key sl cm cmd =
     with_engine cm (\<lambda>en. with_request cm ''Invalid request: '' (import_key_from_slice (sl_codec sl) (cmd_value cmd)) (\<lambda>data.
       case import_key (sl_crypto sl) (en_keys en) data of
         (m, Inr i) \<Rightarrow> (set_keys en m cm, reply sl cmd (operation_success (Some (Str i))))
       | (m, Inl e) \<Rightarrow> (set_keys en m cm, reply_status cmd (''Import key failed: '' @ sl_key_text sl e))))"

text \<open>Rounding to the 24 significant bits of \<open>f32\<close>, ties to even; the factor 0.80 is 13421773 units of 2 to the -24.\<close>

definition f32_round :: "nat \<Rightarrow> nat" where
  "f32_round n =
     (let d = 2 ^ (floorlog 2 n - 24); m = n div d; r = n mod d
      in (if d < 2 * r \<or> d = 2 * r \<and> odd m then m + 1 else m) * d)"

definition warn_days :: "u32 \<Rightarrow> int" where
  "warn_days rotation_days = int (f32_round (f32_round (unat rotation_days) * 13421773) div 2 ^ 24)"

definition num_days :: "int \<Rightarrow> int" where
  "num_days d = (if 0 \<le> d then d div 86400000 else - ((- d) div 86400000))"

definition get_keys_with_expiry_warnings :: "int \<Rightarrow> u32 \<Rightarrow> key_manager \<Rightarrow> (encryption_key \<times> int) list" where
  "get_keys_with_expiry_warnings now rotation_days m =
     List.map_filter (\<lambda>k. let age = num_days (now - ek_last_rotated k)
         in if warn_days rotation_days \<le> age \<and> age < int (unat rotation_days)
            then Some (k, int (unat rotation_days) - age) else None)
       (filter ek_active (list_keys m))"

definition h_get_keys_expiring :: "server_lib \<Rightarrow> server_env \<Rightarrow> conn_manager \<Rightarrow> command \<Rightarrow> handler" where
  "h_get_keys_expiring sl ev cm cmd =
     with_engine cm (\<lambda>en. with_request cm ''Invalid request: '' (rotation_days_from_slice (sl_codec sl) (cmd_value cmd)) (\<lambda>days.
       (cm, reply_vec cmd (expiring_to_vec (sl_codec sl)
          (map (\<lambda>(k, n). \<lparr>ek_r_key_id = ek_id k, ek_r_days_remaining = n, ek_r_last_rotated = ek_last_rotated k, ek_r_created_at = ek_created_at k\<rparr>)
             (get_keys_with_expiry_warnings (ev_utc ev) days (en_keys en)))))))"

text \<open>
  The server never enables the rotation scheduler of its engine: in a release build a rotation only
  generates a new key.
\<close>

definition engine_rotate_key :: "bytes \<Rightarrow> int \<Rightarrow> encryption_engine \<Rightarrow> string \<Rightarrow> encryption_engine \<times> (encryption_error, unit) result" where
  "engine_rotate_key bs now en i = (let (m, r) = manager_rotate_key bs now (en_keys en) i in (en\<lparr>en_keys := m\<rparr>, r))"

definition h_rotate_key :: "server_lib \<Rightarrow> server_env \<Rightarrow> conn_manager \<Rightarrow> command \<Rightarrow> handler" where
  "h_rotate_key sl ev cm cmd =
     with_engine cm (\<lambda>en. with_request cm ''Invalid request: '' (key_id_from_slice (sl_codec sl) (cmd_value cmd)) (\<lambda>i.
       case engine_rotate_key (ev_key_bytes ev) (ev_utc ev) en i of
         (en1, Inr _) \<Rightarrow> (cm\<lparr>cm_encryption := Some en1\<rparr>, reply sl cmd (operation_success None))
       | (en1, Inl _) \<Rightarrow> (cm\<lparr>cm_encryption := Some en1\<rparr>, Inr (response_error (ch_seq (cmd_header cmd))))))"

definition h_get_key_metadata :: "server_lib \<Rightarrow> conn_manager \<Rightarrow> command \<Rightarrow> handler" where
  "h_get_key_metadata sl cm cmd =
     with_engine cm (\<lambda>en. with_request cm ''Invalid request: '' (key_id_from_slice (sl_codec sl) (cmd_value cmd)) (\<lambda>i.
       (cm, case get_key_metadata (en_keys en) i of
              Inr k \<Rightarrow> reply_vec cmd (key_metadata_to_vec (sl_codec sl) (key_response k))
            | Inl e \<Rightarrow> reply_status cmd (''Get key metadata failed: '' @ sl_key_text sl e))))"

end
