(* ===== verification/Server_Loop.thy ===== *)
theory Server_Loop
  imports Server_Handlers
begin

text \<open>
  Dispatch of a command, one round of the loop of a connection, and the server as a transition
  system: connections are accepted as long as there are permits, clients send bytes, the task of a
  connection takes a round, expired sessions are cleaned up. A round is one step; the rounds of
  different connections interleave in any order.
\<close>

section \<open>Dispatch\<close>

definition feature_missing :: "conn_manager \<Rightarrow> string \<Rightarrow> handler" where
  "feature_missing cm what = (cm, Inl (ProtocolError (what @ '' feature not enabled'')))"

definition dispatch :: "server_lib \<Rightarrow> server_env \<Rightarrow> conn_manager \<Rightarrow> document_id \<Rightarrow> command \<Rightarrow> opcode \<Rightarrow> handler" where
  "dispatch sl ev cm cid cmd c =
     (if c = OcAuth then handle_auth sl ev cm cid cmd
      else if c = OcPing then (cm, Inr (response_ok (ch_seq (cmd_header cmd)) (bytes_of ''pong'')))
      else if c = OcListCollections then h_list_collections sl cm cmd
      else if c = OcCreateCollection then h_create_collection sl cm cmd
      else if c = OcDropCollection then h_drop_collection sl cm cmd
      else if c = OcListIndexes then h_list_indexes sl cm cmd
      else if c = OcCreateIndex then h_create_index sl cm cmd
      else if c = OcDropIndex then h_drop_index sl cm cmd
      else if c = OcQuery then h_query sl cm cmd
      else if c = OcInsertDoc then h_insert_doc sl ev cm cmd
      else if c = OcUpdateDoc then h_update_doc sl ev cm cmd
      else if c = OcDeleteDoc then h_delete_doc sl ev cm cmd
      else if c = OcInfo then h_info sl ev cm cmd
      else if c = OcListUsers then h_list_users sl cm cmd
      else if c = OcCreateUser then h_create_user sl ev cm cmd
      else if c = OcDeleteUser then h_delete_user sl cm cmd
      else if c = OcUpdateUserRole then h_update_user_role sl cm cmd
      else if c \<in> {OcCreateBackup, OcListBackups, OcRestoreBackup, OcDeleteBackup, OcPointInTimeRecover} then feature_missing cm ''Backup''
      else if c \<in> {OcGetReplicationStatus, OcAddSlave, OcRemoveSlave, OcListSlaves, OcForceSync} then feature_missing cm ''Replication''
      else if c = OcCreateKey then h_create_key sl ev cm cmd
      else if c = OcListKeys then h_list_keys sl cm cmd
      else if c = OcExportKey then h_export_key sl ev cm cmd
      else if c = OcImportKey then h_import_key sl cm cmd
      else if c = OcGetKeysExpiring then h_get_keys_expiring sl ev cm cmd
      else if c = OcRotateKey then h_rotate_key sl ev cm cmd
      else if c = OcGetKeyMetadata then h_get_key_metadata sl cm cmd
      else if c = OcAggregate then h_aggregate sl ev cm cmd
      else (cm, Inr (response_new StError (ch_seq (cmd_header cmd)) (bytes_of ''Not implemented''))))"

definition process_command :: "server_lib \<Rightarrow> server_env \<Rightarrow> conn_manager \<Rightarrow> document_id \<Rightarrow> command \<Rightarrow> handler" where
  "process_command sl ev cm cid cmd0 =
     (case translate_command (sl_codec sl) (ev_doc_id ev) (ev_time ev) cmd0 of
        Inl e \<Rightarrow> (cm, Inl (ProtocolError e))
      | Inr cmd \<Rightarrow>
          (case header_opcode (cmd_header cmd) of
             None \<Rightarrow> (cm, Inl (ProtocolError ''Invalid opcode''))
           | Some c \<Rightarrow>
               if c \<noteq> OcAuth \<and> \<not> is_authenticated cm cid
               then (cm, Inr (response_new StAuthRequired (ch_seq (cmd_header cmd)) []))
               else dispatch sl ev cm cid cmd c))"

section \<open>One round of a connection\<close>

text \<open>\<open>wr\<close> is the outcome of writing the response.\<close>

datatype round_outcome = Answered response bytes | Ended connection_error | Panicked

definition serve_command :: "server_lib \<Rightarrow> server_env \<Rightarrow> conn_manager \<Rightarrow> document_id \<Rightarrow> connection \<Rightarrow> command \<Rightarrow> conn_manager \<times> response" where
  "serve_command sl ev cm cid cn cmd =
     (let cm1 = cm\<lparr>cm_connections := al_put cid (conn_update_activity (ev_instant ev) cn) (cm_connections cm)\<rparr>
      in case process_command sl ev cm1 cid cmd of
           (cm2, Inr r) \<Rightarrow> (cm2, r)
         | (cm2, Inl e) \<Rightarrow> (cm2, response_new StError (ch_seq (cmd_header cmd)) (bytes_of (connection_error_text e))))"

definition connection_round ::
  "server_lib \<Rightarrow> server_env \<Rightarrow> connection_error \<Rightarrow> connection_error option \<Rightarrow> conn_manager \<Rightarrow> document_id \<Rightarrow> bytes \<Rightarrow>
   conn_manager \<times> round_outcome"
where
  "connection_round sl ev ending wr cm cid s =
     (case map_of (cm_connections cm) cid of
        None \<Rightarrow> (cm, Ended ConnectionNotFound)
      | Some cn \<Rightarrow>
          (case read_command ending s of
             ReadFailed e \<Rightarrow> (cm, Ended e)
           | ReadPanic \<Rightarrow> (cm, Panicked)
           | ReadCommand cmd rest \<Rightarrow>
               (case serve_command sl ev cm cid cn cmd of
                  (cm1, r) \<Rightarrow> (case wr of Some e \<Rightarrow> (cm1, Ended e) | None \<Rightarrow> (cm1, Answered r rest)))))"

section \<open>The server\<close>

text \<open>
  The tasks with the bytes their clients have sent and that are not read yet, and the responses
  that were written. \<open>handle_connection\<close> takes the connection out of the pool when the loop ends;
  after a panic it does not come to that, while the permit is released in any case.
\<close>

record server_state =
  sv_manager :: conn_manager
  sv_tasks :: "(document_id \<times> bytes) list"
  sv_log :: "(document_id \<times> response) list"

datatype server_label =
    LAccept int document_id string
  | LSend document_id bytes
  | LRound server_env connection_error "connection_error option" document_id
  | LCleanup int

definition end_task :: "document_id \<Rightarrow> server_state \<Rightarrow> server_state" where
  "end_task cid sv =
     sv\<lparr>sv_tasks := al_del cid (sv_tasks sv), sv_manager := (sv_manager sv)\<lparr>cm_permits := cm_permits (sv_manager sv) + 1\<rparr>\<rparr>"

definition leave_pool :: "document_id \<Rightarrow> server_state \<Rightarrow> server_state" where
  "leave_pool cid sv =
     sv\<lparr>sv_manager := (sv_manager sv)\<lparr>cm_connections := al_del cid (cm_connections (sv_manager sv))\<rparr>\<rparr>"

definition after_round :: "document_id \<Rightarrow> round_outcome \<Rightarrow> server_state \<Rightarrow> server_state" where
  "after_round cid x sv =
     (case x of
        Answered r rest \<Rightarrow> sv\<lparr>sv_tasks := al_put cid rest (sv_tasks sv), sv_log := sv_log sv @ [(cid, r)]\<rparr>
      | Ended e \<Rightarrow> end_task cid (leave_pool cid sv)
      | Panicked \<Rightarrow> end_task cid sv)"

definition accept_task :: "int \<Rightarrow> document_id \<Rightarrow> string \<Rightarrow> server_state \<Rightarrow> server_state" where
  "accept_task now cid a sv =
     sv\<lparr>sv_tasks := al_put cid [] (sv_tasks sv),
        sv_manager := (sv_manager sv)\<lparr>cm_permits := cm_permits (sv_manager sv) - 1,
          cm_connections := al_put cid (connection_new now a) (cm_connections (sv_manager sv))\<rparr>\<rparr>"

inductive server_step :: "server_lib \<Rightarrow> server_state \<Rightarrow> server_label \<Rightarrow> server_state \<Rightarrow> bool" for sl where
  accept: "0 < cm_permits (sv_manager sv) \<Longrightarrow> map_of (sv_tasks sv) cid = None \<Longrightarrow>
     map_of (cm_connections (sv_manager sv)) cid = None \<Longrightarrow>
     server_step sl sv (LAccept now cid a) (accept_task now cid a sv)"
| refuse: "cm_permits (sv_manager sv) = 0 \<Longrightarrow> server_step sl sv (LAccept now cid a) sv"
| send: "map_of (sv_tasks sv) cid = Some s \<Longrightarrow>
     server_step sl sv (LSend cid b) (sv\<lparr>sv_tasks := al_put cid (s @ b) (sv_tasks sv)\<rparr>)"
| round: "map_of (sv_tasks sv) cid = Some s \<Longrightarrow>
     connection_round sl ev ending wr (sv_manager sv) cid s = (cm, x) \<Longrightarrow>
     server_step sl sv (LRound ev ending wr cid) (after_round cid x (sv\<lparr>sv_manager := cm\<rparr>))"
| cleanup: "server_step sl sv (LCleanup now) (sv\<lparr>sv_manager := cleanup_expired_sessions now (sv_manager sv)\<rparr>)"

inductive_cases server_stepE: "server_step sl sv l sv'"

inductive server_run :: "server_lib \<Rightarrow> server_state \<Rightarrow> server_label list \<Rightarrow> server_state \<Rightarrow> bool" for sl sv0 where
  start: "server_run sl sv0 [] sv0"
| more: "server_run sl sv0 ls sv \<Longrightarrow> server_step sl sv l sv' \<Longrightarrow> server_run sl sv0 (ls @ [l]) sv'"

definition server_start :: "conn_manager \<Rightarrow> server_state" where
  "server_start cm = \<lparr>sv_manager = cm, sv_tasks = [], sv_log = []\<rparr>"

end
