(* ===== verification/Server_Proofs.thy ===== *)
theory Server_Proofs
  imports Server_Loop
begin

text \<open>
  What the server guarantees and what it does not: who is served, what a role is good for, that
  commands are answered in order, how many connections there are, and when sessions end.
\<close>

section \<open>Handlers and the pool\<close>

text \<open>
  Handlers other than authentication do not look at the pool, apart from its size: on another pool
  of the same size they do the same and leave that pool as it is.
\<close>

definition with_pool ::
  "(document_id \<times> connection) list \<Rightarrow> (document_id \<times> session) list \<Rightarrow> nat \<Rightarrow> int \<Rightarrow> conn_manager \<Rightarrow> conn_manager"
where
  "with_pool cs ss n t cm = cm\<lparr>cm_connections := cs, cm_sessions := ss, cm_permits := n, cm_session_timeout := t\<rparr>"

lemma with_pool_own: "with_pool (cm_connections cm) (cm_sessions cm) (cm_permits cm) (cm_session_timeout cm) cm = cm"
  by (simp add: with_pool_def)

lemma with_pool_fields [simp]:
  "cm_connections (with_pool cs ss n t cm) = cs" "cm_sessions (with_pool cs ss n t cm) = ss"
  "cm_permits (with_pool cs ss n t cm) = n" "cm_session_timeout (with_pool cs ss n t cm) = t"
  "cm_storage (with_pool cs ss n t cm) = cm_storage cm" "cm_auth (with_pool cs ss n t cm) = cm_auth cm"
  "cm_encryption (with_pool cs ss n t cm) = cm_encryption cm" "cm_jwt (with_pool cs ss n t cm) = cm_jwt cm"
  by (simp_all add: with_pool_def)

named_theorems pool_free "handlers that do not look at the pool"

lemma with_request_pool:
  assumes "\<And>r. k' r = apfst (with_pool cs ss n t) (k r)"
  shows "with_request (with_pool cs ss n t cm) p q k' = apfst (with_pool cs ss n t) (with_request cm p q k)"
  using assms by (simp add: with_request_def split: sum.split)

lemma with_engine_pool:
  assumes "\<And>en. k' en = apfst (with_pool cs ss n t) (k en)"
  shows "with_engine (with_pool cs ss n t cm) k' = apfst (with_pool cs ss n t) (with_engine cm k)"
  using assms by (simp add: with_engine_def split: option.split)

lemma storage_reply_pool [pool_free]:
  "storage_reply sl (with_pool cs ss n t cm) cmd er = apfst (with_pool cs ss n t) (storage_reply sl cm cmd er)"
  by (simp add: storage_reply_def with_pool_def)

lemma counted_reply_pool [pool_free]:
  "counted_reply sl (with_pool cs ss n t cm) cmd er = apfst (with_pool cs ss n t) (counted_reply sl cm cmd er)"
  by (simp add: counted_reply_def with_pool_def)

lemma user_reply_pool [pool_free]:
  "user_reply sl (with_pool cs ss n t cm) cmd w mr = apfst (with_pool cs ss n t) (user_reply sl cm cmd w mr)"
  by (simp add: user_reply_def set_users_def with_pool_def)

lemma set_keys_pool [pool_free]: "set_keys en m (with_pool cs ss n t cm) = with_pool cs ss n t (set_keys en m cm)"
  by (simp add: set_keys_def with_pool_def)

lemma set_encryption_pool [pool_free]: "with_pool cs ss n t cm\<lparr>cm_encryption := e\<rparr> = with_pool cs ss n t (cm\<lparr>cm_encryption := e\<rparr>)"
  by (simp add: with_pool_def)

lemmas request_handlers =
  h_list_collections_def h_create_collection_def h_drop_collection_def h_list_indexes_def h_create_index_def h_drop_index_def
  h_query_def h_insert_doc_def h_update_doc_def h_delete_doc_def h_aggregate_def h_list_users_def h_create_user_def
  h_delete_user_def h_update_user_role_def h_create_key_def h_list_keys_def h_export_key_def h_import_key_def
  h_get_keys_expiring_def h_rotate_key_def h_get_key_metadata_def feature_missing_def

lemma h_info_pool [pool_free]:
  assumes "length cs = length (cm_connections cm)"
  shows "h_info sl ev (with_pool cs ss n t cm) cmd = apfst (with_pool cs ss n t) (h_info sl ev cm cmd)"
  using assms by (simp add: h_info_def manager_get_stats_def with_pool_def Let_def case_prod_unfold)

lemma handlers_pool [pool_free]:
  fixes cs ss n t defines "P \<equiv> with_pool cs ss n t"
  shows
  "h_list_collections sl (P cm) cmd = apfst P (h_list_collections sl cm cmd)"
  "h_create_collection sl (P cm) cmd = apfst P (h_create_collection sl cm cmd)"
  "h_drop_collection sl (P cm) cmd = apfst P (h_drop_collection sl cm cmd)"
  "h_list_indexes sl (P cm) cmd = apfst P (h_list_indexes sl cm cmd)"
  "h_create_index sl (P cm) cmd = apfst P (h_create_index sl cm cmd)"
  "h_drop_index sl (P cm) cmd = apfst P (h_drop_index sl cm cmd)"
  "h_query sl (P cm) cmd = apfst P (h_query sl cm cmd)"
  "h_insert_doc sl ev (P cm) cmd = apfst P (h_insert_doc sl ev cm cmd)"
  "h_update_doc sl ev (P cm) cmd = apfst P (h_update_doc sl ev cm cmd)"
  "h_delete_doc sl ev (P cm) cmd = apfst P (h_delete_doc sl ev cm cmd)"
  "h_aggregate sl ev (P cm) cmd = apfst P (h_aggregate sl ev cm cmd)"
  "h_list_users sl (P cm) cmd = apfst P (h_list_users sl cm cmd)"
  "h_create_user sl ev (P cm) cmd = apfst P (h_create_user sl ev cm cmd)"
  "h_delete_user sl (P cm) cmd = apfst P (h_delete_user sl cm cmd)"
  "h_update_user_role sl (P cm) cmd = apfst P (h_update_user_role sl cm cmd)"
  "h_create_key sl ev (P cm) cmd = apfst P (h_create_key sl ev cm cmd)"
  "h_list_keys sl (P cm) cmd = apfst P (h_list_keys sl cm cmd)"
  "h_export_key sl ev (P cm) cmd = apfst P (h_export_key sl ev cm cmd)"
  "h_import_key sl (P cm) cmd = apfst P (h_import_key sl cm cmd)"
  "h_get_keys_expiring sl ev (P cm) cmd = apfst P (h_get_keys_expiring sl ev cm cmd)"
  "h_rotate_key sl ev (P cm) cmd = apfst P (h_rotate_key sl ev cm cmd)"
  "h_get_key_metadata sl (P cm) cmd = apfst P (h_get_key_metadata sl cm cmd)"
  "feature_missing (P cm) w = apfst P (feature_missing cm w)"
  unfolding request_handlers P_def
  by (auto simp: pool_free intro!: with_request_pool with_engine_pool split: sum.split option.split prod.split)

lemma dispatch_pool:
  assumes "c \<noteq> OcAuth" and "length cs = length (cm_connections cm)"
  shows "dispatch sl ev (with_pool cs ss n t cm) cid cmd c = apfst (with_pool cs ss n t) (dispatch sl ev cm cid cmd c)"
  using assms unfolding dispatch_def by (simp add: handlers_pool h_info_pool)

lemma dispatch_pool_kept:
  assumes "c \<noteq> OcAuth"
  shows "cm_connections (fst (dispatch sl ev cm cid cmd c)) = cm_connections cm"
    "cm_sessions (fst (dispatch sl ev cm cid cmd c)) = cm_sessions cm"
    "cm_permits (fst (dispatch sl ev cm cid cmd c)) = cm_permits cm"
    "cm_session_timeout (fst (dispatch sl ev cm cid cmd c)) = cm_session_timeout cm"
  using dispatch_pool [OF assms, of "cm_connections cm" cm sl ev "cm_sessions cm" "cm_permits cm" "cm_session_timeout cm" cid cmd]
  unfolding with_pool_own by (metis fst_apfst with_pool_fields)+

section \<open>Translation\<close>

text \<open>A command of the first version keeps its sequence number and never becomes an authentication.\<close>

lemma repack_facts:
  assumes "repack cmd c p = Inr cmd'"
  shows "ch_seq (cmd_header cmd') = ch_seq (cmd_header cmd)" "header_opcode (cmd_header cmd') = Some c"
    "ch_version (cmd_header cmd') = ch_version (cmd_header cmd)"
  using assms by (cases p; auto simp: repack_def with_key_val_def header_opcode_def opcode_roundtrip)+

lemma translations_repack:
  "translate_set_to_insert_doc wc i now cmd = Inr cmd' \<Longrightarrow> \<exists>p. repack cmd OcInsertDoc p = Inr cmd'"
  "translate_get_to_query wc cmd = Inr cmd' \<Longrightarrow> \<exists>p. repack cmd OcQuery p = Inr cmd'"
  "translate_del_to_delete_doc wc cmd = Inr cmd' \<Longrightarrow> \<exists>p. repack cmd OcDeleteDoc p = Inr cmd'"
  "translate_cas_to_update_doc wc cmd = Inr cmd' \<Longrightarrow> \<exists>p. repack cmd OcUpdateDoc p = Inr cmd'"
  "translate_fetch_to_query wc cmd = Inr cmd' \<Longrightarrow> \<exists>p. repack cmd OcQuery p = Inr cmd'"
  by (auto simp: translate_set_to_insert_doc_def translate_get_to_query_def translate_del_to_delete_doc_def
      translate_cas_to_update_doc_def translate_fetch_to_query_def split: option.splits)

lemma translate_command_cases:
  assumes "translate_command wc i now cmd = Inr cmd'"
  obtains "ch_version (cmd_header cmd) \<noteq> PROTOCOL_V1" "cmd' = cmd"
    | "ch_version (cmd_header cmd) = PROTOCOL_V1" "header_opcode (cmd_header cmd') \<noteq> Some OcAuth"
      "ch_seq (cmd_header cmd') = ch_seq (cmd_header cmd)"
proof (cases "ch_version (cmd_header cmd) = PROTOCOL_V1")
  case True
  let ?cmd = "cmd\<lparr>cmd_header := (cmd_header cmd)\<lparr>ch_version := PROTOCOL_V2\<rparr>\<rparr>"
  obtain c where c: "header_opcode (cmd_header ?cmd) = Some c"
    using assms True by (auto simp: translate_command_def Let_def split: option.splits)
  have "cmd' = ?cmd \<and> c \<in> {OcPing, OcSubscribe, OcUnsubscribe, OcPublish, OcInfo} \<or>
      (\<exists>d p. repack ?cmd d p = Inr cmd' \<and> d \<in> {OcInsertDoc, OcQuery, OcDeleteDoc, OcUpdateDoc})"
    using assms True c unfolding translate_command_def Let_def
    by (simp split: if_splits) (blast dest: translations_repack)+
  then show ?thesis
  proof (elim disjE conjE exE)
    fix d p assume d: "repack ?cmd d p = Inr cmd'" "d \<in> {OcInsertDoc, OcQuery, OcDeleteDoc, OcUpdateDoc}"
    from d(2) have "d \<noteq> OcAuth" by auto
    with repack_facts(1,2) [OF d(1)] that(2) [OF True] show ?thesis by simp
  next
    assume "cmd' = ?cmd" and "c \<in> {OcPing, OcSubscribe, OcUnsubscribe, OcPublish, OcInfo}"
    moreover from this(2) have "c \<noteq> OcAuth" by auto
    ultimately show ?thesis using that(2) [OF True] c by simp
  qed
next
  case False
  then have "cmd' = cmd" using assms by (simp add: translate_command_def)
  then show ?thesis by (rule that(1) [OF False])
qed

lemma translate_seq: "translate_command wc i now cmd = Inr cmd' \<Longrightarrow> ch_seq (cmd_header cmd') = ch_seq (cmd_header cmd)"
  by (elim translate_command_cases) simp_all

section \<open>Roles\<close>

definition session_role :: "role \<Rightarrow> session \<Rightarrow> session" where
  "session_role r s = s\<lparr>ss_user := (ss_user s)\<lparr>user_role := r\<rparr>\<rparr>"

definition connection_role :: "role \<Rightarrow> connection \<Rightarrow> connection" where
  "connection_role r cn =
     cn\<lparr>cn_state := (case cn_state cn of Authenticated s \<Rightarrow> Authenticated (session_role r s) | x \<Rightarrow> x)\<rparr>"

definition all_roles :: "role \<Rightarrow> conn_manager \<Rightarrow> conn_manager" where
  "all_roles r cm =
     cm\<lparr>cm_connections := map (apsnd (connection_role r)) (cm_connections cm),
        cm_sessions := map (apsnd (session_role r)) (cm_sessions cm)\<rparr>"

lemma all_roles_pool:
  "all_roles r cm = with_pool (map (apsnd (connection_role r)) (cm_connections cm)) (map (apsnd (session_role r)) (cm_sessions cm))
     (cm_permits cm) (cm_session_timeout cm) cm"
  by (simp add: all_roles_def with_pool_def)

lemma map_of_apsnd: "map_of (map (apsnd f) xs) k = map_option f (map_of xs k)"
  by (induction xs) auto

lemma is_authenticated_roles: "is_authenticated (all_roles r cm) cid = is_authenticated cm cid"
  by (simp add: is_authenticated_def all_roles_def map_of_apsnd connection_role_def split: option.split connection_state.split)

text \<open>
  C27. The role of a user is never consulted: if the sessions of all users had any other role, the
  server would do the same on every command that is not an authentication, answer it in the same way
  and reach the same state. Every authenticated user may do everything, drop collections, change
  users and export keys.
\<close>

theorem role_never_consulted:
  assumes "header_opcode (cmd_header cmd) \<noteq> Some OcAuth"
  shows "process_command sl ev (all_roles r cm) cid cmd = apfst (all_roles r) (process_command sl ev cm cid cmd)"
proof (cases "translate_command (sl_codec sl) (ev_doc_id ev) (ev_time ev) cmd")
  case (Inr cmd')
  have noauth: "header_opcode (cmd_header cmd') \<noteq> Some OcAuth" using Inr assms by (elim translate_command_cases) auto
  have roles: "dispatch sl ev (all_roles r cm) cid cmd' c = apfst (all_roles r) (dispatch sl ev cm cid cmd' c)" if "c \<noteq> OcAuth" for c
  proof -
    let ?D = "dispatch sl ev cm cid cmd' c"
    let ?P = "with_pool (map (apsnd (connection_role r)) (cm_connections cm)) (map (apsnd (session_role r)) (cm_sessions cm))
      (cm_permits cm) (cm_session_timeout cm)"
    have "dispatch sl ev (all_roles r cm) cid cmd' c = apfst ?P ?D" unfolding all_roles_pool by (rule dispatch_pool) (simp_all add: that)
    moreover have "?P (fst ?D) = all_roles r (fst ?D)"
      by (rule conn_manager.equality) (simp_all add: all_roles_def with_pool_def dispatch_pool_kept [OF that])
    ultimately show ?thesis by (simp add: prod_eq_iff)
  qed
  show ?thesis
  proof (cases "header_opcode (cmd_header cmd')")
    case None
    then show ?thesis by (simp add: process_command_def Inr)
  next
    case (Some c)
    with noauth have c: "c \<noteq> OcAuth" by simp
    show ?thesis using roles [OF c] by (simp add: process_command_def Inr Some c is_authenticated_roles)
  qed
qed (simp add: process_command_def)

section \<open>Answers\<close>

text \<open>Every response carries the sequence number of its command.\<close>

definition answers :: "command \<Rightarrow> handler \<Rightarrow> bool" where
  "answers cmd h \<longleftrightarrow> (\<forall>r. snd h = Inr r \<longrightarrow> rh_seq (resp_header r) = ch_seq (cmd_header cmd))"

lemma response_seq [simp]:
  "rh_seq (resp_header (response_new st s p)) = s" "rh_seq (resp_header (response_ok s p)) = s" "rh_seq (resp_header (response_error s)) = s"
  by (simp_all add: response_new_def response_ok_def response_error_def resp_header_new_def with_payload_def)

lemma reply_seq:
  "reply sl cmd x = Inr r \<Longrightarrow> rh_seq (resp_header r) = ch_seq (cmd_header cmd)"
  "reply_vec cmd y = Inr r \<Longrightarrow> rh_seq (resp_header r) = ch_seq (cmd_header cmd)"
  "reply_status cmd m = Inr r \<Longrightarrow> rh_seq (resp_header r) = ch_seq (cmd_header cmd)"
  by (auto simp: reply_def reply_vec_def reply_status_def map_sum_def split: sum.splits)

lemma answers_intros:
  "(\<And>r. answers cmd (k r)) \<Longrightarrow> answers cmd (with_request cm p q k)"
  "(\<And>en. answers cmd (k' en)) \<Longrightarrow> answers cmd (with_engine cm k')"
  "answers cmd (storage_reply sl cm cmd er)" "answers cmd (counted_reply sl cm cmd cr)" "answers cmd (user_reply sl cm cmd w mr)"
  "answers cmd (cm, reply sl cmd x)" "answers cmd (cm, reply_vec cmd y)" "answers cmd (cm, reply_status cmd m)"
  "answers cmd (cm, Inl e)" "answers cmd (cm, Inr (response_new st (ch_seq (cmd_header cmd)) b))"
  "answers cmd (cm, Inr (response_ok (ch_seq (cmd_header cmd)) b))" "answers cmd (cm, Inr (response_error (ch_seq (cmd_header cmd))))"
  by (auto simp: answers_def with_request_def with_engine_def storage_reply_def counted_reply_def user_reply_def dest: reply_seq split: sum.splits option.splits)

lemma handle_auth_answers: "answers cmd (handle_auth sl ev cm cid cmd)"
  unfolding handle_auth_def Let_def by (auto intro!: answers_intros split: sum.split option.split prod.split)

lemma handlers_answer:
  "answers cmd (h_list_collections sl cm cmd)" "answers cmd (h_create_collection sl cm cmd)" "answers cmd (h_drop_collection sl cm cmd)"
  "answers cmd (h_list_indexes sl cm cmd)" "answers cmd (h_create_index sl cm cmd)" "answers cmd (h_drop_index sl cm cmd)"
  "answers cmd (h_query sl cm cmd)" "answers cmd (h_insert_doc sl ev cm cmd)" "answers cmd (h_update_doc sl ev cm cmd)"
  "answers cmd (h_delete_doc sl ev cm cmd)" "answers cmd (h_aggregate sl ev cm cmd)" "answers cmd (h_list_users sl cm cmd)"
  "answers cmd (h_create_user sl ev cm cmd)" "answers cmd (h_delete_user sl cm cmd)" "answers cmd (h_update_user_role sl cm cmd)"
  "answers cmd (h_create_key sl ev cm cmd)" "answers cmd (h_list_keys sl cm cmd)" "answers cmd (h_export_key sl ev cm cmd)"
  "answers cmd (h_import_key sl cm cmd)" "answers cmd (h_get_keys_expiring sl ev cm cmd)" "answers cmd (h_rotate_key sl ev cm cmd)"
  "answers cmd (h_get_key_metadata sl cm cmd)" "answers cmd (feature_missing cm w)"
  unfolding request_handlers by (auto intro!: answers_intros split: sum.split option.split prod.split)

lemma h_info_answers: "answers cmd (h_info sl ev cm cmd)"
  by (simp add: h_info_def Let_def case_prod_unfold answers_intros)

lemma dispatch_answers: "answers cmd (dispatch sl ev cm cid cmd c)"
  unfolding dispatch_def by (simp add: handlers_answer h_info_answers handle_auth_answers answers_intros)

lemma process_command_answers: "answers cmd (process_command sl ev cm cid cmd)"
proof (cases "translate_command (sl_codec sl) (ev_doc_id ev) (ev_time ev) cmd")
  case (Inr cmd')
  have "answers cmd' (process_command sl ev cm cid cmd)"
    by (auto simp: process_command_def Inr intro!: answers_intros dispatch_answers split: option.split)
  with translate_seq [OF Inr] show ?thesis by (simp add: answers_def)
qed (simp add: process_command_def answers_intros)

lemma serve_command_seq: "rh_seq (resp_header (snd (serve_command sl ev cm cid cn cmd))) = ch_seq (cmd_header cmd)"
proof -
  let ?cm = "cm\<lparr>cm_connections := al_put cid (conn_update_activity (ev_instant ev) cn) (cm_connections cm)\<rparr>"
  obtain cm2 x where x: "process_command sl ev ?cm cid cmd = (cm2, x)" by fastforce
  with process_command_answers [of cmd sl ev ?cm cid] show ?thesis
    by (cases x) (simp_all add: serve_command_def answers_def)
qed

text \<open>The pool keeps its members.\<close>

definition pool_ids :: "conn_manager \<Rightarrow> document_id set" where
  "pool_ids cm = fst ` set (cm_connections cm)"

lemma check_credentials_pool:
  "cm_connections (fst (check_credentials sl ev cm cr)) = cm_connections cm"
  "cm_sessions (fst (check_credentials sl ev cm cr)) = cm_sessions cm"
  "cm_permits (fst (check_credentials sl ev cm cr)) = cm_permits cm"
  "cm_session_timeout (fst (check_credentials sl ev cm cr)) = cm_session_timeout cm"
  by (auto simp: check_credentials_def split: auth_credentials.split prod.split sum.split)

lemma handle_auth_cases:
  obtains (refused) "cm_connections (fst (handle_auth sl ev cm cid cmd)) = cm_connections cm"
      "cm_sessions (fst (handle_auth sl ev cm cid cmd)) = cm_sessions cm"
      "cm_permits (fst (handle_auth sl ev cm cid cmd)) = cm_permits cm"
      "cm_session_timeout (fst (handle_auth sl ev cm cid cmd)) = cm_session_timeout cm"
    | (opened) req cm1 u cn where "auth_from_slice (sl_codec sl) (cmd_value cmd) = Inr req"
      "check_credentials sl ev cm (ar_credentials req) = (cm1, Inr u)" "map_of (cm_connections cm) cid = Some cn"
      "fst (handle_auth sl ev cm cid cmd) = open_session ev cm1 cid cn u (ch_version (cmd_header cmd))"
proof (cases "auth_from_slice (sl_codec sl) (cmd_value cmd)")
  case (Inr req)
  obtain cm1 x where x: "check_credentials sl ev cm (ar_credentials req) = (cm1, x)" by fastforce
  then have pool: "cm_connections cm1 = cm_connections cm" "cm_sessions cm1 = cm_sessions cm"
    "cm_permits cm1 = cm_permits cm" "cm_session_timeout cm1 = cm_session_timeout cm"
    using check_credentials_pool [of sl ev cm "ar_credentials req"] by simp_all
  show ?thesis
  proof (cases x)
    case (Inr u)
    show ?thesis
    proof (cases "map_of (cm_connections cm) cid")
      case None
      with x Inr pool \<open>_ = Inr req\<close> show ?thesis by (intro refused) (simp_all add: handle_auth_def)
    next
      case (Some cn)
      have "fst (handle_auth sl ev cm cid cmd) = open_session ev cm1 cid cn u (ch_version (cmd_header cmd))"
        using x Inr pool Some \<open>_ = Inr req\<close> by (simp add: handle_auth_def Let_def split: sum.split)
      with x Inr Some \<open>_ = Inr req\<close> show ?thesis by (intro opened) simp_all
    qed
  qed (use x pool Inr in \<open>auto simp: handle_auth_def intro: refused\<close>)
qed (auto simp: handle_auth_def intro: refused)

lemma process_command_cases:
  obtains (idle) "fst (process_command sl ev cm cid cmd) = cm"
    | (auth) cmd' where "header_opcode (cmd_header cmd) = Some OcAuth" "cmd' = cmd"
      "process_command sl ev cm cid cmd = handle_auth sl ev cm cid cmd'"
    | (served) cmd' c where "c \<noteq> OcAuth" "is_authenticated cm cid"
      "process_command sl ev cm cid cmd = dispatch sl ev cm cid cmd' c"
proof (cases "translate_command (sl_codec sl) (ev_doc_id ev) (ev_time ev) cmd")
  case (Inr cmd')
  show ?thesis
  proof (cases "header_opcode (cmd_header cmd')")
    case None
    then show ?thesis by (intro idle) (simp add: process_command_def Inr)
  next
    case (Some c)
    show ?thesis
    proof (cases "c = OcAuth")
      case True
      with Inr Some have "cmd' = cmd" by (elim translate_command_cases) simp_all
      with True Inr Some show ?thesis by (intro auth [of cmd]) (simp_all add: process_command_def dispatch_def)
    next
      case False
      show ?thesis
      proof (cases "is_authenticated cm cid")
        case True
        show ?thesis by (rule served [OF False True, of cmd']) (simp add: process_command_def Inr Some True)
      qed (intro idle, simp add: process_command_def Inr Some False)
    qed
  qed
qed (intro idle, simp add: process_command_def)

lemma open_session_fields [simp]:
  "pool_ids (open_session ev cm cid cn u v) = insert cid (pool_ids cm)"
  "cm_permits (open_session ev cm cid cn u v) = cm_permits cm"
  "cm_session_timeout (open_session ev cm cid cn u v) = cm_session_timeout cm"
  by (simp_all add: open_session_def Let_def pool_ids_def keys_al_put)

lemma handle_auth_frame:
  "pool_ids (fst (handle_auth sl ev cm cid cmd)) = pool_ids cm"
  "cm_permits (fst (handle_auth sl ev cm cid cmd)) = cm_permits cm"
  "cm_session_timeout (fst (handle_auth sl ev cm cid cmd)) = cm_session_timeout cm"
proof -
  show "pool_ids (fst (handle_auth sl ev cm cid cmd)) = pool_ids cm"
  proof (cases rule: handle_auth_cases [of sl ev cm cid cmd])
    case (opened req cm1 u cn)
    have "pool_ids cm1 = pool_ids cm"
      using check_credentials_pool(1) [of sl ev cm "ar_credentials req"] opened(2) by (simp add: pool_ids_def)
    moreover have "cid \<in> pool_ids cm" using opened(3) unfolding pool_ids_def by (metis map_of_eq_None_iff option.simps(3))
    ultimately show ?thesis using opened(4) by (simp add: insert_absorb)
  qed (simp add: pool_ids_def)
  show "cm_permits (fst (handle_auth sl ev cm cid cmd)) = cm_permits cm"
    "cm_session_timeout (fst (handle_auth sl ev cm cid cmd)) = cm_session_timeout cm"
    by (cases rule: handle_auth_cases [of sl ev cm cid cmd];
        use check_credentials_pool(3,4) [of sl ev cm] in \<open>simp, (metis fst_conv)?\<close>)+
qed

lemma process_command_frame:
  "pool_ids (fst (process_command sl ev cm cid cmd)) = pool_ids cm"
  "cm_permits (fst (process_command sl ev cm cid cmd)) = cm_permits cm"
  "cm_session_timeout (fst (process_command sl ev cm cid cmd)) = cm_session_timeout cm"
  by (cases rule: process_command_cases [of sl ev cm cid cmd];
      simp add: handle_auth_frame pool_ids_def dispatch_pool_kept handle_auth_frame [unfolded pool_ids_def])+

lemma serve_command_frame:
  "pool_ids (fst (serve_command sl ev cm cid cn cmd)) = insert cid (pool_ids cm)"
  "cm_permits (fst (serve_command sl ev cm cid cn cmd)) = cm_permits cm"
  "cm_session_timeout (fst (serve_command sl ev cm cid cn cmd)) = cm_session_timeout cm"
proof -
  let ?cm = "cm\<lparr>cm_connections := al_put cid (conn_update_activity (ev_instant ev) cn) (cm_connections cm)\<rparr>"
  have "fst (serve_command sl ev cm cid cn cmd) = fst (process_command sl ev ?cm cid cmd)"
    by (simp add: serve_command_def split: prod.split sum.split)
  then show "pool_ids (fst (serve_command sl ev cm cid cn cmd)) = insert cid (pool_ids cm)"
    "cm_permits (fst (serve_command sl ev cm cid cn cmd)) = cm_permits cm"
    "cm_session_timeout (fst (serve_command sl ev cm cid cn cmd)) = cm_session_timeout cm"
    by (simp_all add: process_command_frame) (simp add: pool_ids_def keys_al_put)
qed

section \<open>Commands in a row\<close>

definition well_framed :: "command \<Rightarrow> bool" where
  "well_framed c \<longleftrightarrow> unat (ch_key_len (cmd_header c)) = length (cmd_key c) \<and>
     unat (ch_val_len (cmd_header c)) = length (cmd_value c) \<and> length (cmd_key c) + length (cmd_value c) \<le> MAX_PAYLOAD"

lemma read_well_framed:
  assumes "well_framed c" shows "read_command ending (command_to_bytes c @ rest) = ReadCommand c rest"
proof -
  let ?h = "cmd_header_bytes (cmd_header c)" and ?p = "cmd_key c @ cmd_value c"
  have len: "length ?h = 24" by (simp add: CMD_HEADER_SIZE_def)
  have small: "length (cmd_key c) + length (cmd_value c) < 2 ^ 32" using assms by (simp add: well_framed_def MAX_PAYLOAD_def)
  have hd: "cmd_header_read ?h = cmd_header c" using cmd_header_read_bytes [of "cmd_header c" "[]"] by simp
  have n: "total_payload_len (cmd_header c) = length ?p"
    using assms small by (simp add: well_framed_def total_payload_len_sum)
  have b: "command_to_bytes c @ rest = ?h @ ?p @ rest" by (simp add: command_to_bytes_def)
  have "command_from_bytes (?h @ ?p) = Inr c"
    using assms small command_read_back [of c "[]"] by (simp add: well_framed_def command_to_bytes_def)
  then show ?thesis using assms len
    by (simp add: read_command_def b hd n well_framed_def Let_def del: append_assoc append_eq_conv_conj)
qed

lemma server_run_Cons: "server_step sl sv l sv1 \<Longrightarrow> server_run sl sv1 ls sv2 \<Longrightarrow> server_run sl sv (l # ls) sv2"
proof (rotate_tac, induction rule: server_run.induct)
  case start
  then show ?case using server_run.more [OF server_run.start] by fastforce
next
  case (more ls sv2 l' sv3)
  then show ?case using server_run.more [of sl sv "l # ls" sv2 l' sv3] by simp
qed

lemma round_answers:
  assumes "well_framed c" and "map_of (sv_tasks sv) cid = Some (command_to_bytes c @ s)" and "cid \<in> pool_ids (sv_manager sv)"
  obtains r sv' where "server_step sl sv (LRound ev ending None cid) sv'" "rh_seq (resp_header r) = ch_seq (cmd_header c)"
    "sv_log sv' = sv_log sv @ [(cid, r)]" "map_of (sv_tasks sv') cid = Some s" "pool_ids (sv_manager sv') = pool_ids (sv_manager sv)"
proof -
  obtain cn where cn: "map_of (cm_connections (sv_manager sv)) cid = Some cn"
    using assms(3) unfolding pool_ids_def by (metis map_of_eq_None_iff not_None_eq)
  obtain cm r where r: "serve_command sl ev (sv_manager sv) cid cn c = (cm, r)" by fastforce
  have "connection_round sl ev ending None (sv_manager sv) cid (command_to_bytes c @ s) = (cm, Answered r s)"
    by (simp add: connection_round_def cn read_well_framed [OF assms(1)] r)
  from server_step.round [OF assms(2) this]
  have step: "server_step sl sv (LRound ev ending None cid) (after_round cid (Answered r s) (sv\<lparr>sv_manager := cm\<rparr>))" .
  moreover have "rh_seq (resp_header r) = ch_seq (cmd_header c)"
    using serve_command_seq [of sl ev "sv_manager sv" cid cn c] r by simp
  moreover have "pool_ids cm = pool_ids (sv_manager sv)"
    using serve_command_frame(1) [of sl ev "sv_manager sv" cid cn c] r assms(3) by (simp add: insert_absorb)
  ultimately show ?thesis using that by (fastforce simp: after_round_def map_of_al_put)
qed

text \<open>
  C7. Every well-framed command is answered, in order: a connection whose client has sent commands
  one after the other, of at most 16 megabytes each and whatever they ask for, answers them one per
  round in the order they were sent, each answer with the sequence number of its command; the bytes
  that follow stay unread and the connection stays open.
\<close>

theorem commands_answered_in_order:
  assumes "list_all well_framed cmds" and "length evs = length cmds"
    and "map_of (sv_tasks sv) cid = Some (concat (map command_to_bytes cmds) @ rest)" and "cid \<in> pool_ids (sv_manager sv)"
  shows "\<exists>sv' rs. server_run sl sv (map (\<lambda>ev. LRound ev ending None cid) evs) sv' \<and>
     sv_log sv' = sv_log sv @ map (Pair cid) rs \<and>
     map (\<lambda>r. rh_seq (resp_header r)) rs = map (\<lambda>c. ch_seq (cmd_header c)) cmds \<and>
     map_of (sv_tasks sv') cid = Some rest \<and> cid \<in> pool_ids (sv_manager sv')"
  using assms
proof (induction cmds arbitrary: evs sv)
  case Nil
  then show ?case using server_run.start [of sl sv] by (intro exI [of _ sv] exI [of _ "[]"]) simp
next
  case (Cons c cmds)
  from Cons.prems(2) obtain ev evs' where evs: "evs = ev # evs'" "length evs' = length cmds" by (cases evs) simp_all
  have "well_framed c" and "map_of (sv_tasks sv) cid = Some (command_to_bytes c @ concat (map command_to_bytes cmds) @ rest)"
    using Cons.prems(1,3) by simp_all
  from round_answers [OF this Cons.prems(4), of sl ev ending] obtain r sv1 where
    r: "server_step sl sv (LRound ev ending None cid) sv1" "rh_seq (resp_header r) = ch_seq (cmd_header c)"
      "sv_log sv1 = sv_log sv @ [(cid, r)]" "map_of (sv_tasks sv1) cid = Some (concat (map command_to_bytes cmds) @ rest)"
      "pool_ids (sv_manager sv1) = pool_ids (sv_manager sv)" by blast
  from Cons.IH [of evs' sv1] Cons.prems evs r(4,5) obtain sv' rs where
    "server_run sl sv1 (map (\<lambda>ev. LRound ev ending None cid) evs') sv'" "sv_log sv' = sv_log sv1 @ map (Pair cid) rs"
    "map (\<lambda>r. rh_seq (resp_header r)) rs = map (\<lambda>c. ch_seq (cmd_header c)) cmds"
    "map_of (sv_tasks sv') cid = Some rest" "cid \<in> pool_ids (sv_manager sv')" by auto
  with r(2,3) server_run_Cons [OF r(1)] evs(1) show ?case by (intro exI [of _ sv'] exI [of _ "r # rs"]) simp
qed

section \<open>Sessions\<close>

lemma process_command_sessions:
  "set (cm_sessions (fst (process_command sl ev cm cid cmd))) \<subseteq>
   set (cm_sessions cm) \<union> range (\<lambda>(u, a, v). (ev_session_id ev, session_new (ev_session_id ev) (ev_instant ev) u a v))"
proof (cases rule: process_command_cases [of sl ev cm cid cmd])
  case (auth cmd')
  show ?thesis
  proof (cases rule: handle_auth_cases [of sl ev cm cid cmd'])
    case (opened req cm1 u cn)
    have "cm_sessions cm1 = cm_sessions cm" using check_credentials_pool(2) [of sl ev cm "ar_credentials req"] opened(2) by simp
    then have ss: "cm_sessions (fst (process_command sl ev cm cid cmd)) =
        al_put (ev_session_id ev) (session_new (ev_session_id ev) (ev_instant ev) u (cn_remote_addr cn) (ch_version (cmd_header cmd'))) (cm_sessions cm)"
      using opened(4) auth(3) by (simp add: open_session_def session_new_def Let_def)
    show ?thesis
    proof
      fix p assume "p \<in> set (cm_sessions (fst (process_command sl ev cm cid cmd)))"
      from set_al_put [OF this [unfolded ss]]
      show "p \<in> set (cm_sessions cm) \<union> range (\<lambda>(u, a, v). (ev_session_id ev, session_new (ev_session_id ev) (ev_instant ev) u a v))"
        by (elim disjE) (auto simp: image_iff)
    qed
  qed (simp add: auth)
qed (simp_all add: dispatch_pool_kept)

lemma connection_round_manager:
  obtains "fst (connection_round sl ev ending wr cm cid s) = cm"
    | cn cmd where "fst (connection_round sl ev ending wr cm cid s) =
        fst (process_command sl ev (cm\<lparr>cm_connections := al_put cid (conn_update_activity (ev_instant ev) cn) (cm_connections cm)\<rparr>) cid cmd)"
      "map_of (cm_connections cm) cid = Some cn"
proof (cases "map_of (cm_connections cm) cid")
  case (Some cn)
  show ?thesis
  proof (cases "read_command ending s")
    case (ReadCommand cmd rest)
    have "fst (connection_round sl ev ending wr cm cid s) =
        fst (process_command sl ev (cm\<lparr>cm_connections := al_put cid (conn_update_activity (ev_instant ev) cn) (cm_connections cm)\<rparr>) cid cmd)"
      by (simp add: connection_round_def Some ReadCommand serve_command_def split: prod.split sum.split option.split)
    then show ?thesis using Some by (rule that(2))
  qed (rule that(1), simp add: connection_round_def Some)+
qed (rule that(1), simp add: connection_round_def)

lemma connection_round_frame:
  assumes "connection_round sl ev ending wr cm cid s = (cm', x)"
  shows "cm_permits cm' = cm_permits cm" "cm_session_timeout cm' = cm_session_timeout cm"
    "set (cm_sessions cm') \<subseteq> set (cm_sessions cm) \<union> range (\<lambda>(u, a, v). (ev_session_id ev, session_new (ev_session_id ev) (ev_instant ev) u a v))"
proof -
  have cm': "cm' = fst (connection_round sl ev ending wr cm cid s)" using assms by simp
  show "cm_permits cm' = cm_permits cm" "cm_session_timeout cm' = cm_session_timeout cm"
    unfolding cm' by (cases rule: connection_round_manager [of sl ev ending wr cm cid s]; simp add: process_command_frame)+
  show "set (cm_sessions cm') \<subseteq> set (cm_sessions cm) \<union> range (\<lambda>(u, a, v). (ev_session_id ev, session_new (ev_session_id ev) (ev_instant ev) u a v))"
    unfolding cm'
  proof (cases rule: connection_round_manager [of sl ev ending wr cm cid s])
    case (2 cn cmd)
    then show "set (cm_sessions (fst (connection_round sl ev ending wr cm cid s))) \<subseteq>
        set (cm_sessions cm) \<union> range (\<lambda>(u, a, v). (ev_session_id ev, session_new (ev_session_id ev) (ev_instant ev) u a v))"
      using process_command_sessions [of sl ev "cm\<lparr>cm_connections := al_put cid (conn_update_activity (ev_instant ev) cn) (cm_connections cm)\<rparr>" cid cmd]
      by simp
  qed simp
qed

text \<open>What the rounds, and the end of a task, do to the pieces of the state.\<close>

lemma after_round_fields [simp]:
  "cm_sessions (sv_manager (after_round cid x sv)) = cm_sessions (sv_manager sv)"
  "cm_session_timeout (sv_manager (after_round cid x sv)) = cm_session_timeout (sv_manager sv)"
  "cm_storage (sv_manager (after_round cid x sv)) = cm_storage (sv_manager sv)"
  "cm_auth (sv_manager (after_round cid x sv)) = cm_auth (sv_manager sv)"
  "cm_encryption (sv_manager (after_round cid x sv)) = cm_encryption (sv_manager sv)"
  by (simp_all add: after_round_def end_task_def leave_pool_def split: round_outcome.split)

lemma expire_sessions_fields:
  "set (cm_sessions (expire_sessions is cm)) \<subseteq> set (cm_sessions cm)"
  "cm_session_timeout (expire_sessions is cm) = cm_session_timeout cm" "cm_permits (expire_sessions is cm) = cm_permits cm"
  "cm_storage (expire_sessions is cm) = cm_storage cm" "cm_auth (expire_sessions is cm) = cm_auth cm"
  "cm_encryption (expire_sessions is cm) = cm_encryption cm"
proof -
  show "set (cm_sessions (expire_sessions is cm)) \<subseteq> set (cm_sessions cm)"
  proof (induction "is" cm rule: expire_sessions.induct)
    case (2 i "is" cm)
    then show ?case by (auto simp: set_al_del)
  qed simp
qed (induction "is" cm rule: expire_sessions.induct; simp)+

lemma step_idle_sessions:
  assumes "server_step sl sv l sv'" and "list_all (\<lambda>(i, s). ss_last_activity s = ss_created_at s) (cm_sessions (sv_manager sv))"
  shows "list_all (\<lambda>(i, s). ss_last_activity s = ss_created_at s) (cm_sessions (sv_manager sv'))"
  using assms
proof cases
  case (round cid s ev ending wr cm x)
  then show ?thesis using connection_round_frame(3) [OF round(4)] assms(2)
    by (fastforce simp: list_all_iff session_new_def)
next
  case (cleanup now)
  then have "set (cm_sessions (sv_manager sv')) \<subseteq> set (cm_sessions (sv_manager sv))"
    by (simp add: cleanup_expired_sessions_def expire_sessions_fields)
  with assms(2) show ?thesis unfolding list_all_iff by blast
qed (use assms(2) in \<open>simp_all add: accept_task_def\<close>)

lemma run_idle_sessions:
  "server_run sl sv0 ls sv \<Longrightarrow> cm_sessions (sv_manager sv0) = [] \<Longrightarrow>
   list_all (\<lambda>(i, s). ss_last_activity s = ss_created_at s) (cm_sessions (sv_manager sv))"
  by (induction rule: server_run.induct) (simp, blast intro: step_idle_sessions)

lemma step_timeout: "server_step sl sv l sv' \<Longrightarrow> cm_session_timeout (sv_manager sv') = cm_session_timeout (sv_manager sv)"
  by (induction rule: server_step.induct)
    (auto simp: accept_task_def cleanup_expired_sessions_def expire_sessions_fields dest: connection_round_frame(2))

lemma run_timeout: "server_run sl sv0 ls sv \<Longrightarrow> cm_session_timeout (sv_manager sv) = cm_session_timeout (sv_manager sv0)"
  by (induction rule: server_run.induct) (simp_all add: step_timeout)

lemma del_all_keys: "set ks \<supseteq> fst ` set xs \<Longrightarrow> foldl (\<lambda>cs c. al_del c cs) xs ks = []"
proof (induction ks arbitrary: xs)
  case (Cons k ks)
  then have "fst ` set (al_del k xs) \<subseteq> set ks" by (auto simp: keys_al_del)
  then show ?case by (simp add: Cons.IH)
qed auto

lemma expire_closes_all:
  assumes "i \<in> set is" and "map_of (cm_sessions cm) i \<noteq> None"
  shows "cm_connections (expire_sessions is cm) = []"
proof -
  have closed: "cm_connections (expire_sessions is cm) = []" if "cm_connections cm = []" for "is" cm
    using that by (induction "is" cm rule: expire_sessions.induct) simp_all
  show ?thesis using assms
    by (induction "is" cm rule: expire_sessions.induct) (auto simp: closed del_all_keys map_of_al_del)
qed

text \<open>
  Activity does not keep a session alive, and its expiry ends everybody's connection: only the
  copy of the session in its connection is refreshed, the table of sessions never is. Once the time
  since the login is over, the cleanup removes every connection of the server, also those that just
  authenticated.
\<close>

theorem expiry_closes_every_connection:
  assumes "server_run sl (server_start (conn_manager_new t0 au js st)) ls sv" and "map_of (cm_sessions (sv_manager sv)) i = Some s"
    and "ss_created_at s + DEFAULT_SESSION_TIMEOUT < now"
  shows "cm_connections (cleanup_expired_sessions now (sv_manager sv)) = []"
proof -
  have "cm_session_timeout (sv_manager sv) = DEFAULT_SESSION_TIMEOUT"
    using run_timeout [OF assms(1)] by (simp add: server_start_def conn_manager_new_def)
  moreover have "(i, s) \<in> set (cm_sessions (sv_manager sv))" using assms(2) by (rule map_of_SomeD)
  moreover from this have "ss_last_activity s = ss_created_at s"
    using run_idle_sessions [OF assms(1)] by (auto simp: server_start_def conn_manager_new_def list_all_iff)
  ultimately show ?thesis unfolding cleanup_expired_sessions_def
    using assms(2,3) by (intro expire_closes_all [of i]) (force simp: session_expired_def)+
qed

section \<open>The number of connections\<close>

definition tasks_counted :: "server_state \<Rightarrow> bool" where
  "tasks_counted sv \<longleftrightarrow> cm_permits (sv_manager sv) + length (sv_tasks sv) = MAX_CONNECTIONS \<and> distinct (map fst (sv_tasks sv))"

lemma step_tasks_counted:
  assumes "server_step sl sv l sv'" and "tasks_counted sv" shows "tasks_counted sv'"
  using assms(1)
proof cases
  case (accept cid now a)
  then show ?thesis using assms(2) by (simp add: tasks_counted_def accept_task_def length_al_put distinct_al_put)
next
  case (send cid s b)
  then show ?thesis using assms(2) by (simp add: tasks_counted_def length_al_put distinct_al_put)
next
  case (round cid s ev ending wr cm x)
  then show ?thesis using assms(2) connection_round_frame(1) [OF round(4)] length_al_del [of "sv_tasks sv" cid s]
    by (auto simp: tasks_counted_def after_round_def end_task_def leave_pool_def length_al_put distinct_al_put distinct_al_del
        split: round_outcome.split)
next
  case (cleanup now)
  then show ?thesis using assms(2) by (simp add: tasks_counted_def cleanup_expired_sessions_def expire_sessions_fields)
qed (use assms(2) in simp)

lemma run_tasks_counted:
  "server_run sl sv0 ls sv \<Longrightarrow> tasks_counted sv0 \<Longrightarrow> tasks_counted sv"
  by (induction rule: server_run.induct) (simp, blast intro: step_tasks_counted)

lemma conn_manager_new_counted: "tasks_counted (server_start (conn_manager_new t0 au js st))"
  by (simp add: tasks_counted_def server_start_def conn_manager_new_def)

text \<open>
  The server serves at most 10000 connections at a time: in every run the tasks and the free
  permits add up to the limit, so a client is refused exactly when that many tasks are running, and
  every ended task gives its permit back, also one that panicked.
\<close>

theorem connection_limit:
  assumes "server_run sl (server_start (conn_manager_new t0 au js st)) ls sv"
  shows "length (sv_tasks sv) \<le> MAX_CONNECTIONS \<and> (cm_permits (sv_manager sv) = 0 \<longleftrightarrow> length (sv_tasks sv) = MAX_CONNECTIONS)"
  using run_tasks_counted [OF assms conn_manager_new_counted] by (auto simp: tasks_counted_def)

section \<open>Panics\<close>

text \<open>The header of a command whose lengths wrap around, and the labels of a client that sends it.\<close>

definition poison :: bytes where
  "poison = cmd_header_bytes (with_key_val 0xFFFFFFFF 1 (cmd_header_new OcPing 0))"

definition poison_round :: "server_env \<Rightarrow> connection_error \<Rightarrow> string \<Rightarrow> nat \<Rightarrow> server_label list" where
  "poison_round ev ending a k = [LAccept 0 (of_nat k) a, LSend (of_nat k) poison, LRound ev ending None (of_nat k)]"

lemma read_poison: "read_command ending poison = ReadPanic"
proof -
  let ?h = "with_key_val 0xFFFFFFFF 1 (cmd_header_new OcPing 0)"
  have r: "cmd_header_read poison = ?h" using cmd_header_read_bytes [of ?h "[]"] by (simp add: poison_def)
  have len: "length poison = 24" by (simp add: poison_def CMD_HEADER_SIZE_def)
  have h: "2 ^ 32 \<le> unat (ch_key_len ?h) + unat (ch_val_len ?h)" "total_payload_len ?h = 0"
    by (simp_all add: with_key_val_def cmd_header_new_def total_payload_len_def)
  have "command_from_bytes poison = Inl SlicePanic"
    using h by (intro wrapped_panic [of poison ?h]) (simp_all add: r len CMD_HEADER_SIZE_def)
  then show ?thesis by (simp add: read_command_def len r h(2))
qed

lemma server_run_append: "server_run sl sv1 ls' sv2 \<Longrightarrow> server_run sl sv0 ls sv1 \<Longrightarrow> server_run sl sv0 (ls @ ls') sv2"
proof (induction rule: server_run.induct)
  case (more ls' sv2 l sv3)
  then show ?case using server_run.more [of sl sv0 "ls @ ls'" sv2 l sv3] by simp
qed simp

lemma poison_round_leaks:
  assumes "0 < cm_permits (sv_manager sv)" and "sv_tasks sv = []" and "of_nat k \<notin> pool_ids (sv_manager sv)"
  obtains sv' where "server_run sl sv (poison_round ev ending a k) sv'" "sv_tasks sv' = []" "sv_log sv' = sv_log sv"
    "cm_permits (sv_manager sv') = cm_permits (sv_manager sv)"
    "cm_connections (sv_manager sv') = al_put (of_nat k) (connection_new 0 a) (cm_connections (sv_manager sv))"
proof -
  let ?i = "of_nat k :: document_id"
  let ?sv1 = "accept_task 0 ?i a sv" let ?sv2 = "?sv1\<lparr>sv_tasks := al_put ?i ([] @ poison) (sv_tasks ?sv1)\<rparr>"
  let ?sv3 = "after_round ?i Panicked (?sv2\<lparr>sv_manager := sv_manager ?sv2\<rparr>)"
  have s1: "server_step sl sv (LAccept 0 ?i a) ?sv1"
    using assms by (intro server_step.accept) (auto simp: pool_ids_def map_of_eq_None_iff)
  have s2: "server_step sl ?sv1 (LSend ?i poison) ?sv2"
    by (rule server_step.send) (simp add: accept_task_def assms(2))
  have s3: "server_step sl ?sv2 (LRound ev ending None ?i) ?sv3"
    by (rule server_step.round [of _ _ poison])
      (simp_all add: accept_task_def assms(2) connection_round_def map_of_al_put read_poison)
  have "server_run sl sv (poison_round ev ending a k) ?sv3"
    unfolding poison_round_def by (rule server_run_Cons [OF s1 server_run_Cons [OF s2 server_run_Cons [OF s3 server_run.start]]])
  then show ?thesis using that assms(1,2) by (simp add: after_round_def end_task_def accept_task_def al_del_def)
qed

text \<open>
  C40. Connections pile up without bound: a client that sends 24 bytes whose two lengths wrap around
  makes the task of its connection panic, before any authentication. The permit is released but the
  connection stays in the pool: after n such clients there is no task and the pool has n members.
\<close>

theorem panicked_connections_pile_up:
  assumes "n \<le> 2 ^ 128"
  shows "\<exists>sv. server_run sl (server_start (conn_manager_new t0 au js st)) (concat (map (poison_round ev ending a) [0..<n])) sv \<and>
     sv_tasks sv = [] \<and> sv_log sv = [] \<and> length (cm_connections (sv_manager sv)) = n"
proof -
  have "\<exists>sv. server_run sl (server_start (conn_manager_new t0 au js st)) (concat (map (poison_round ev ending a) [0..<m])) sv \<and>
     sv_tasks sv = [] \<and> sv_log sv = [] \<and> length (cm_connections (sv_manager sv)) = m \<and>
     cm_permits (sv_manager sv) = MAX_CONNECTIONS \<and> pool_ids (sv_manager sv) = of_nat ` {..<m}" if "m \<le> n" for m
    using that
  proof (induction m)
    case 0
    show ?case by (intro exI [of _ "server_start (conn_manager_new t0 au js st)"])
        (simp add: server_run.start, simp add: server_start_def conn_manager_new_def pool_ids_def)
  next
    case (Suc m)
    then obtain sv where sv: "server_run sl (server_start (conn_manager_new t0 au js st)) (concat (map (poison_round ev ending a) [0..<m])) sv"
      "sv_tasks sv = []" "sv_log sv = []" "length (cm_connections (sv_manager sv)) = m"
      "cm_permits (sv_manager sv) = MAX_CONNECTIONS" "pool_ids (sv_manager sv) = of_nat ` {..<m}" by auto
    have fresh: "(of_nat m :: document_id) \<notin> pool_ids (sv_manager sv)"
      using Suc.prems assms unfolding sv(6) by (auto simp: word_of_nat_eq_iff take_bit_nat_eq_self)
    from poison_round_leaks [OF _ sv(2) this, of sl ev ending a] sv(5) obtain sv' where
      sv': "server_run sl sv (poison_round ev ending a m) sv'" "sv_tasks sv' = []" "sv_log sv' = sv_log sv"
      "cm_permits (sv_manager sv') = cm_permits (sv_manager sv)"
      "cm_connections (sv_manager sv') = al_put (of_nat m) (connection_new 0 a) (cm_connections (sv_manager sv))"
      by (auto simp: MAX_CONNECTIONS_def)
    have "length (cm_connections (sv_manager sv')) = Suc m" "pool_ids (sv_manager sv') = of_nat ` {..<Suc m}"
      using fresh sv(4,6) by (simp_all add: sv'(5) length_al_put pool_ids_def map_of_eq_None_iff keys_al_put lessThan_Suc)
    with sv' sv server_run_append [OF sv'(1) sv(1)] show ?case by (intro exI [of _ sv']) simp
  qed
  from this [of n] show ?thesis by auto
qed

section \<open>Clients without credentials\<close>

text \<open>A label under which credentials are accepted.\<close>

definition accepts_credentials :: "server_lib \<Rightarrow> server_state \<Rightarrow> server_label \<Rightarrow> bool" where
  "accepts_credentials sl sv l =
     (case l of
        LRound ev ending wr cid \<Rightarrow>
          (case map_of (sv_tasks sv) cid of
             None \<Rightarrow> False
           | Some s \<Rightarrow>
               (case read_command ending s of
                  ReadCommand cmd rest \<Rightarrow>
                    (case auth_from_slice (sl_codec sl) (cmd_value cmd) of
                       Inl _ \<Rightarrow> False
                     | Inr req \<Rightarrow> header_opcode (cmd_header cmd) = Some OcAuth \<and>
                         \<not> isl (snd (check_credentials sl ev (sv_manager sv) (ar_credentials req))))
                | _ \<Rightarrow> False))
      | _ \<Rightarrow> False)"

inductive outsider_run :: "server_lib \<Rightarrow> server_state \<Rightarrow> server_state \<Rightarrow> bool" for sl sv0 where
  outsider_start: "outsider_run sl sv0 sv0"
| outsider_more: "outsider_run sl sv0 sv \<Longrightarrow> server_step sl sv l sv' \<Longrightarrow> \<not> accepts_credentials sl sv l \<Longrightarrow> outsider_run sl sv0 sv'"

text \<open>The accounts apart from the time of the last login.\<close>

definition accounts :: "conn_manager \<Rightarrow> user_manager" where
  "accounts cm = map (apsnd (\<lambda>u. u\<lparr>last_login := None\<rparr>)) (au_users (cm_auth cm))"

definition sealed :: "conn_manager \<Rightarrow> server_state \<Rightarrow> bool" where
  "sealed cm sv \<longleftrightarrow>
     cm_storage (sv_manager sv) = cm_storage cm \<and> cm_encryption (sv_manager sv) = cm_encryption cm \<and>
     accounts (sv_manager sv) = accounts cm \<and> users_wf (au_users (cm_auth (sv_manager sv))) \<and> cm_sessions (sv_manager sv) = [] \<and>
     list_all (\<lambda>(i, cn). cn_state cn = Unauthenticated) (cm_connections (sv_manager sv)) \<and>
     list_all (\<lambda>(i, r). header_status (resp_header r) \<in> {Some StAuthRequired, Some StAuthFailed, Some StError}) (sv_log sv)"

lemma view_al_put:
  "map_of m n = Some u \<Longrightarrow> map (apsnd (\<lambda>u. u\<lparr>last_login := None\<rparr>)) (al_put n (u\<lparr>last_login := x\<rparr>) m) =
     map (apsnd (\<lambda>u. u\<lparr>last_login := None\<rparr>)) m"
  by (induction m) (auto split: if_splits)

lemma users_wf_put: "users_wf m \<Longrightarrow> map_of m n = Some u \<Longrightarrow> users_wf (al_put n (u\<lparr>last_login := x\<rparr>) m)"
  by (auto simp: users_wf_def distinct_al_put map_of_al_put split: if_splits)

lemma verify_password_accounts:
  assumes "users_wf m" and "verify_password bv now m n pw = (m', x)"
  shows "map (apsnd (\<lambda>u. u\<lparr>last_login := None\<rparr>)) m' = map (apsnd (\<lambda>u. u\<lparr>last_login := None\<rparr>)) m" and "users_wf m'"
proof -
  have "m' = m \<or> (\<exists>u. map_of m n = Some u \<and> m' = al_put n (u\<lparr>last_login := Some now\<rparr>) m)"
    using assms by (auto simp: verify_password_def get_user_def update_user_def users_wf_def Let_def split: option.splits if_splits bool.splits)
  then show "map (apsnd (\<lambda>u. u\<lparr>last_login := None\<rparr>)) m' = map (apsnd (\<lambda>u. u\<lparr>last_login := None\<rparr>)) m" and "users_wf m'"
    using assms(1) by (auto simp: view_al_put users_wf_put)
qed

lemma check_credentials_frame:
  assumes "users_wf (au_users (cm_auth cm))" and "check_credentials sl ev cm cr = (cm', x)"
  shows "cm_storage cm' = cm_storage cm" "cm_encryption cm' = cm_encryption cm" "accounts cm' = accounts cm"
    "users_wf (au_users (cm_auth cm'))"
proof -
  have "\<exists>au. cm' = cm\<lparr>cm_auth := au\<rparr> \<and>
      (au = cm_auth cm \<or> (\<exists>n pw. au_users au = fst (verify_password (sl_bverify sl) (ev_utc ev) (au_users (cm_auth cm)) n pw)))"
  proof (cases cr)
    case (UsernamePassword n pw)
    let ?r = "authenticate (sl_bverify sl) (sl_auth_text sl) (ev_utc ev) (ev_jti ev) (ev_stamp ev) (cm_auth cm) n pw None"
    have "au_users (fst ?r) = fst (verify_password (sl_bverify sl) (ev_utc ev) (au_users (cm_auth cm)) n pw)"
      by (simp add: authenticate_def split: prod.split sum.split)
    moreover have "cm' = cm\<lparr>cm_auth := fst ?r\<rparr>"
      using assms(2) by (simp add: check_credentials_def UsernamePassword split: prod.splits sum.splits)
    ultimately show ?thesis by blast
  next
    case (JwtToken t)
    then have "cm' = cm\<lparr>cm_auth := cm_auth cm\<rparr>" using assms(2) by (simp add: check_credentials_def split: sum.splits)
    then show ?thesis by blast
  qed
  then obtain au where cm': "cm' = cm\<lparr>cm_auth := au\<rparr>" and
    au: "au = cm_auth cm \<or> (\<exists>n pw. au_users au = fst (verify_password (sl_bverify sl) (ev_utc ev) (au_users (cm_auth cm)) n pw))" by blast
  have "accounts cm' = accounts cm" "users_wf (au_users (cm_auth cm'))"
    using au verify_password_accounts [OF assms(1) prod.collapse [symmetric]] assms(1) by (auto simp: accounts_def cm')
  then show "cm_storage cm' = cm_storage cm" "cm_encryption cm' = cm_encryption cm" "accounts cm' = accounts cm"
    "users_wf (au_users (cm_auth cm'))" by (simp_all add: cm')
qed

lemma status_of_response [simp]: "header_status (resp_header (response_new st s p)) = Some st"
  by (simp add: response_new_def header_status_def with_payload_def resp_header_new_def status_roundtrip)

lemma unauthenticated_refused:
  assumes "header_opcode (cmd_header cmd) \<noteq> Some OcAuth" and "\<not> is_authenticated cm cid"
  obtains e where "process_command sl ev cm cid cmd = (cm, Inl e)"
    | s where "process_command sl ev cm cid cmd = (cm, Inr (response_new StAuthRequired s []))"
proof (cases "translate_command (sl_codec sl) (ev_doc_id ev) (ev_time ev) cmd")
  case (Inr cmd')
  have "header_opcode (cmd_header cmd') \<noteq> Some OcAuth" using Inr assms(1) by (elim translate_command_cases) auto
  then show ?thesis using that assms(2) by (cases "header_opcode (cmd_header cmd')") (auto simp: process_command_def Inr)
qed (use that in \<open>auto simp: process_command_def\<close>)

lemma failed_authentication:
  assumes "auth_from_slice (sl_codec sl) (cmd_value cmd) = Inr req" and "check_credentials sl ev cm (ar_credentials req) = (cm', Inl e)"
  obtains m where "handle_auth sl ev cm cid cmd = (cm', Inl m)"
    | s p where "handle_auth sl ev cm cid cmd = (cm', Inr (response_new StAuthFailed s p))"
  using that by (cases "auth_response_to_vec (sl_codec sl) \<lparr>arsp_success = False, arsp_token = None, arsp_expires_at = None,
      arsp_error = Some (''Authentication failed: '' @ connection_error_text e)\<rparr>") (auto simp: handle_auth_def assms)

lemma auth_command_cases:
  assumes "header_opcode (cmd_header cmd) = Some OcAuth"
  obtains "process_command sl ev cm cid cmd = (cm, Inl (ProtocolError ''Unsupported v0.1.x command''))"
    | "process_command sl ev cm cid cmd = handle_auth sl ev cm cid cmd"
proof (cases "ch_version (cmd_header cmd) = PROTOCOL_V1")
  case True
  have "header_opcode ((cmd_header cmd)\<lparr>ch_version := PROTOCOL_V2\<rparr>) = Some OcAuth" using assms by (simp add: header_opcode_def)
  then have "translate_command (sl_codec sl) (ev_doc_id ev) (ev_time ev) cmd = Inl ''Unsupported v0.1.x command''"
    by (simp add: translate_command_def True Let_def)
  then show ?thesis by (intro that(1)) (simp add: process_command_def)
next
  case False
  then have "translate_command (sl_codec sl) (ev_doc_id ev) (ev_time ev) cmd = Inr cmd" by (simp add: translate_command_def)
  then show ?thesis by (intro that(2)) (simp add: process_command_def assms dispatch_def)
qed

lemma sealed_process:
  assumes "users_wf (au_users (cm_auth cm))" and "\<not> is_authenticated cm cid"
    and "\<forall>req. auth_from_slice (sl_codec sl) (cmd_value cmd) = Inr req \<longrightarrow> header_opcode (cmd_header cmd) = Some OcAuth \<longrightarrow>
       isl (snd (check_credentials sl ev cm (ar_credentials req)))"
    and "process_command sl ev cm cid cmd = (cm', x)"
  shows "cm_storage cm' = cm_storage cm \<and> cm_encryption cm' = cm_encryption cm \<and> accounts cm' = accounts cm \<and>
     users_wf (au_users (cm_auth cm')) \<and> cm_sessions cm' = cm_sessions cm \<and> cm_connections cm' = cm_connections cm \<and>
     (\<forall>r. x = Inr r \<longrightarrow> header_status (resp_header r) \<in> {Some StAuthRequired, Some StAuthFailed})"
proof (cases "header_opcode (cmd_header cmd) = Some OcAuth")
  case False
  from unauthenticated_refused [OF False assms(2), of sl ev] assms(1,4) show ?thesis by (metis (no_types, lifting)
      Inr_inject insertCI old.sum.distinct(1) prod.inject status_of_response)
next
  case True
  consider "process_command sl ev cm cid cmd = (cm, Inl (ProtocolError ''Unsupported v0.1.x command''))"
    | "process_command sl ev cm cid cmd = handle_auth sl ev cm cid cmd" by (rule auth_command_cases [OF True])
  then show ?thesis
  proof cases
    case 1
    then show ?thesis using assms(1,4) by simp
  next
    case 2
    show ?thesis
    proof (cases "auth_from_slice (sl_codec sl) (cmd_value cmd)")
      case (Inl e)
      then show ?thesis using 2 assms(1,4) by (simp add: handle_auth_def)
    next
      case (Inr req)
      then obtain cm1 e where c: "check_credentials sl ev cm (ar_credentials req) = (cm1, Inl e)"
        using assms(3) True by (metis isl_def prod.collapse)
      have "cm' = cm1 \<and> (\<forall>r. x = Inr r \<longrightarrow> header_status (resp_header r) = Some StAuthFailed)"
        using failed_authentication [OF Inr c, of cid] 2 assms(4) by (metis Inr_inject old.sum.distinct(1) prod.inject status_of_response)
      moreover have "cm_connections cm1 = cm_connections cm" "cm_sessions cm1 = cm_sessions cm"
        using check_credentials_pool(1,2) [of sl ev cm "ar_credentials req"] c by simp_all
      ultimately show ?thesis using check_credentials_frame [OF assms(1) c] by auto
    qed
  qed
qed

lemma unauthenticated_activity: "cn_state cn = Unauthenticated \<Longrightarrow> conn_update_activity now cn = cn"
  by (simp add: conn_update_activity_def)

lemma al_put_id: "map_of xs k = Some v \<Longrightarrow> al_put k v xs = xs"
  by (induction xs) (auto split: if_splits)

lemma sealed_round:
  assumes "sealed cm0 sv" and "map_of (sv_tasks sv) cid = Some s" and "\<not> accepts_credentials sl sv (LRound ev ending wr cid)"
    and "connection_round sl ev ending wr (sv_manager sv) cid s = (cm, x)"
  shows "sealed cm0 (after_round cid x (sv\<lparr>sv_manager := cm\<rparr>))"
proof (cases "\<exists>cn cmd rest. map_of (cm_connections (sv_manager sv)) cid = Some cn \<and> read_command ending s = ReadCommand cmd rest")
  case False
  then have "cm = sv_manager sv \<and> (\<forall>r rest. x \<noteq> Answered r rest)"
    using assms(4) by (auto simp: connection_round_def split: option.splits read_outcome.splits)
  then show ?thesis using assms(1)
    by (cases x) (auto simp: sealed_def after_round_def end_task_def leave_pool_def list_all_iff set_al_del accounts_def)
next
  case True
  then obtain cn cmd rest where cn: "map_of (cm_connections (sv_manager sv)) cid = Some cn" and
    rd: "read_command ending s = ReadCommand cmd rest" by blast
  have un: "cn_state cn = Unauthenticated"
    using assms(1) map_of_SomeD [OF cn] by (auto simp: sealed_def list_all_iff)
  obtain cm' y where pc: "process_command sl ev (sv_manager sv) cid cmd = (cm', y)" by fastforce
  have rej: "\<forall>req. auth_from_slice (sl_codec sl) (cmd_value cmd) = Inr req \<longrightarrow> header_opcode (cmd_header cmd) = Some OcAuth \<longrightarrow>
      isl (snd (check_credentials sl ev (sv_manager sv) (ar_credentials req)))"
    using assms(3) by (auto simp: accepts_credentials_def assms(2) rd)
  have na: "\<not> is_authenticated (sv_manager sv) cid" by (simp add: is_authenticated_def cn un)
  have kept: "cm_storage cm' = cm_storage (sv_manager sv) \<and> cm_encryption cm' = cm_encryption (sv_manager sv) \<and>
     accounts cm' = accounts (sv_manager sv) \<and> users_wf (au_users (cm_auth cm')) \<and> cm_sessions cm' = cm_sessions (sv_manager sv) \<and>
     cm_connections cm' = cm_connections (sv_manager sv) \<and>
     (\<forall>r. y = Inr r \<longrightarrow> header_status (resp_header r) \<in> {Some StAuthRequired, Some StAuthFailed})"
    using assms(1) by (intro sealed_process [OF _ na rej pc]) (simp add: sealed_def)
  have sc: "serve_command sl ev (sv_manager sv) cid cn cmd = (cm', case y of Inr r \<Rightarrow> r
      | Inl e \<Rightarrow> response_new StError (ch_seq (cmd_header cmd)) (bytes_of (connection_error_text e)))"
    by (simp add: serve_command_def unauthenticated_activity [OF un] al_put_id [OF cn] pc split: sum.split)
  have "cm = cm'" using assms(4) by (simp add: connection_round_def cn rd sc split: option.splits)
  moreover have "\<forall>r rest. x = Answered r rest \<longrightarrow> header_status (resp_header r) \<in> {Some StAuthRequired, Some StAuthFailed, Some StError}"
    using assms(4) kept by (auto simp: connection_round_def cn rd sc split: option.splits sum.splits)
  ultimately show ?thesis using assms(1) kept
    by (cases x) (auto simp: sealed_def after_round_def end_task_def leave_pool_def list_all_iff set_al_del accounts_def)
qed

lemma sealed_step:
  assumes "server_step sl sv l sv'" and "\<not> accepts_credentials sl sv l" and "sealed cm0 sv"
  shows "sealed cm0 sv'"
  using assms(1)
proof cases
  case (accept cid now a)
  then show ?thesis using assms(3)
    by (auto simp: sealed_def accept_task_def accounts_def connection_new_def list_all_iff dest!: set_al_put)
next
  case (round cid s ev ending wr cm x)
  then show ?thesis using sealed_round [OF assms(3) round(3) _ round(4)] assms(2) by simp
next
  case (cleanup now)
  moreover have "cleanup_expired_sessions now (sv_manager sv) = sv_manager sv"
    using assms(3) by (simp add: cleanup_expired_sessions_def sealed_def)
  ultimately show ?thesis using assms(3) by simp
qed (use assms(3) in \<open>simp_all add: sealed_def accounts_def\<close>)

text \<open>
  C1. Without accepted credentials nothing is served: whatever bytes clients send, in whatever order
  the server takes its steps, as long as no authentication is accepted the stored data, the keys and
  the accounts stay as they are (the times of the last login apart), no session is opened, and every
  answer is a refusal or an error.
\<close>

theorem outsiders_change_nothing:
  assumes "cm_connections cm = []" and "cm_sessions cm = []" and "users_wf (au_users (cm_auth cm))" and "outsider_run sl (server_start cm) sv"
  shows "cm_storage (sv_manager sv) = cm_storage cm \<and> cm_encryption (sv_manager sv) = cm_encryption cm \<and>
     accounts (sv_manager sv) = accounts cm \<and> cm_sessions (sv_manager sv) = [] \<and>
     (\<forall>i r. (i, r) \<in> set (sv_log sv) \<longrightarrow> header_status (resp_header r) \<in> {Some StAuthRequired, Some StAuthFailed, Some StError})"
proof -
  have "sealed cm (server_start cm)" using assms(1-3) by (simp add: sealed_def server_start_def)
  with assms(4) have "sealed cm sv" by (induction rule: outsider_run.induct) (simp, blast intro: sealed_step)
  then show ?thesis by (auto simp: sealed_def list_all_iff)
qed

end
