(* ===== verification/Server_Documents.thy ===== *)
theory Server_Documents
  imports Server_Loop
begin

text \<open>
  What clients see of their documents: the composition of the wire format, the handlers, the filter
  language and the storage, and the commands of the older protocol.
\<close>

definition v2_command :: "command \<Rightarrow> opcode \<Rightarrow> bool" where
  "v2_command cmd c \<longleftrightarrow> ch_version (cmd_header cmd) \<noteq> PROTOCOL_V1 \<and> header_opcode (cmd_header cmd) = Some c"

lemma process_v2:
  assumes "is_authenticated cm cid" and "v2_command cmd c"
  shows "process_command sl ev cm cid cmd = dispatch sl ev cm cid cmd c"
  using assms by (simp add: process_command_def v2_command_def translate_command_def)

section \<open>Insert and query\<close>

lemma deserialize_all_append:
  "deserialize_all cdc (xs @ ys) =
     (case deserialize_all cdc xs of Inl e \<Rightarrow> Inl e
      | Inr ds \<Rightarrow> (case deserialize_all cdc ys of Inl e \<Rightarrow> Inl e | Inr es \<Rightarrow> Inr (ds @ es)))"
  by (induction xs) (auto split: sum.splits)

lemma starts_with_own: "starts_with (make_document_key cdc coll i) (coll @ '':'')"
  by (simp add: starts_with_def make_document_key_def)

lemma al_put_fresh: "map_of xs k = None \<Longrightarrow> al_put k v xs = xs @ [(k, v)]"
  by (induction xs) (auto split: if_splits)

lemma insert_no_schema:
  assumes "get_schema e coll = None" and "doc_to_vec cdc d = Inr v"
  shows "hybrid_insert cdc now e coll d =
    (record_persistent_write (e\<lparr>he_persistent := (he_persistent e)\<lparr>documents :=
       al_put (make_document_key cdc coll (doc_id d)) v (documents (he_persistent e))\<rparr>\<rparr>), Inr (doc_id d))"
  using assms by (simp add: hybrid_insert_def persist_insert_def insert_document_def Let_def)

lemma scan_after_insert:
  assumes "map_of (documents p) (make_document_key cdc coll (doc_id d)) = None" and "doc_from_slice cdc v = Inr d"
    and "scan_collection cdc p coll = Inr ds"
  shows "scan_collection cdc (p\<lparr>documents := al_put (make_document_key cdc coll (doc_id d)) v (documents p)\<rparr>) coll = Inr (ds @ [d])"
  using assms by (simp add: scan_collection_def al_put_fresh starts_with_own deserialize_all_append)

lemma matching_documents_filter:
  assumes "list_all (\<lambda>d. \<not> isl (matches_filter (sl_regex sl) d f)) ds"
  shows "matching_documents sl pre f ds = Inr (filter (\<lambda>d. matches_filter (sl_regex sl) d f = Inr True) ds)"
  using assms by (induction ds) (auto simp: isl_def split: sum.split)


section \<open>Compare and swap of the older protocol\<close>

lemma cas_filter:
  "\<exists>v w. parse_filter (value_to_plain_json (Object [(''key'', Str k), (''version'', Int64 n)])) = Inr (QAnd [QEq ''key'' v, QEq ''version'' w])"
  by (simp add: plain_int_def parse_field_condition_def with_value_def number_to_value_def one_or_and_def)

lemma no_version_no_match:
  assumes "map_of (doc_fields d) ''version'' = None"
  shows "matches_filter rx d (QAnd [QEq ''key'' v, QEq ''version'' w]) = Inr False"
proof -
  have "get_by_path d ''version'' = None" using assms
    by (simp add: get_by_path_def doc_get_def)
  then show ?thesis by (simp add: option_value_eq_def)
qed

lemma update_loop_none:
  assumes "list_all (\<lambda>d. matches_filter (sl_regex sl) d f = Inr False) ds"
  shows "update_loop sl ev req f ds n st = (st, Inr n)"
  using assms by (induction ds) auto

text \<open>
  A compare-and-swap of the older protocol never changes anything: it becomes an update of the
  documents whose field \<open>version\<close> has the expected value, and the documents that SET writes have no
  such field. Whatever version the client expects, the server answers that the operation succeeded
  with no document affected.
\<close>

theorem legacy_cas_changes_nothing:
  assumes "is_authenticated cm cid" and "ch_version (cmd_header cmd) = PROTOCOL_V1" and "header_opcode (cmd_header cmd) = Some OcCas"
    and "translate_command (sl_codec sl) (ev_doc_id ev) (ev_time ev) cmd = Inr cmd'"
    and "\<forall>req p. update_to_vec (sl_codec sl) req = Inr p \<longrightarrow> update_from_slice (sl_codec sl) p = Inr req"
    and "hybrid_scan_collection (sl_docs sl) (cm_storage cm) LEGACY_KV_COLLECTION = Inr ds"
    and "list_all (\<lambda>d. \<exists>i t k b. d = legacy_document i t k b) ds"
  shows "process_command sl ev cm cid cmd = (cm, reply sl cmd' ((operation_success None)\<lparr>or_affected_count := Some 0\<rparr>))"
proof -
  let ?cmd = "cmd\<lparr>cmd_header := (cmd_header cmd)\<lparr>ch_version := PROTOCOL_V2\<rparr>\<rparr>"
  have h: "header_opcode (cmd_header ?cmd) = Some OcCas" using assms(3) by (simp add: header_opcode_def)
  have "translate_cas_to_update_doc (sl_codec sl) ?cmd = Inr cmd'"
    using assms(4) h by (simp add: translate_command_def assms(2))
  then obtain k where rp: "repack ?cmd OcUpdateDoc (update_to_vec (sl_codec sl)
      \<lparr>udr_collection = LEGACY_KV_COLLECTION, udr_filter = Object [(''key'', Str k), (''version'', Int64 (cas_expected (cmd_value cmd)))],
       udr_update = Object [(''$inc'', Object [(''version'', Int64 1)]), (''$set'', Object [(''value'', Binary (cmd_value cmd))])],
       udr_upsert = False\<rparr>) = Inr cmd'" (is "repack _ _ (update_to_vec _ ?req) = _")
    by (auto simp: translate_cas_to_update_doc_def split: option.splits)
  then obtain p where p: "update_to_vec (sl_codec sl) ?req = Inr p" by (cases "update_to_vec (sl_codec sl) ?req") (simp_all add: repack_def)
  have cmd': "cmd_value cmd' = p" "header_opcode (cmd_header cmd') = Some OcUpdateDoc"
    using rp p opcode_roundtrip [of OcUpdateDoc] by (auto simp: repack_def with_key_val_def header_opcode_def)
  have req: "update_from_slice (sl_codec sl) p = Inr ?req" using assms(5) p by blast
  obtain v w where f: "parse_filter (value_to_plain_json (udr_filter ?req)) = Inr (QAnd [QEq ''key'' v, QEq ''version'' w])"
    using cas_filter [of k "cas_expected (cmd_value cmd)"] by auto
  have "list_all (\<lambda>d. matches_filter (sl_regex sl) d (QAnd [QEq ''key'' v, QEq ''version'' w]) = Inr False) ds"
    using assms(7) by (auto simp: list_all_iff legacy_document_def intro!: no_version_no_match simp del: matches_filter.simps)
  then have "dispatch sl ev cm cid cmd' OcUpdateDoc = (cm, reply sl cmd' ((operation_success None)\<lparr>or_affected_count := Some 0\<rparr>))"
    using req f assms(6) cmd'(1) by (simp add: dispatch_def h_update_doc_def with_request_def update_loop_none counted_reply_def del: value_to_plain_json.simps)
  then show ?thesis using assms(1,4) cmd'(2) by (simp add: process_command_def)
qed

end
