(* ===== verification/Server_Examples.thy ===== *)
theory Server_Examples
  imports Server_Proofs Server_Documents
begin

text \<open>A small server, on which the properties of the connections are applied.\<close>

definition example_document :: document where
  "example_document = (with_id 7 0)\<lparr>doc_fields := [(''a'', Int32 1)]\<rparr>"

definition example_cas :: update_doc_request where
  "example_cas = \<lparr>udr_collection = LEGACY_KV_COLLECTION, udr_filter = Object [(''key'', Str ''k''), (''version'', Int64 1)],
     udr_update = Object [(''$inc'', Object [(''version'', Int64 1)]), (''$set'', Object [(''value'', Binary [1, 0, 0, 0, 0, 0, 0, 0])])],
     udr_upsert = False\<rparr>"

definition example_query :: query_request where
  "example_query = \<lparr>qr_collection = ''c'', qr_filter = Some (Object [(''a'', Int32 1)]), qr_projection = None, qr_sort = None,
     qr_skip = None, qr_limit = Some 0\<rparr>"

definition example_server_codec :: server_codec where
  "example_server_codec =
     \<lparr>auth_to_vec = \<lambda>_. Inr [], query_to_vec = \<lambda>_. Inr [], insert_to_vec = \<lambda>_. Inr [],
      update_to_vec = \<lambda>r. if r = example_cas then Inr [1] else Inl '''', delete_to_vec = \<lambda>_. Inr [],
      create_collection_to_vec = \<lambda>_. Inr [], create_index_to_vec = \<lambda>_. Inr [], list_op_to_vec = \<lambda>_. Inr [],
      set_op_to_vec = \<lambda>_. Inr [], sorted_set_op_to_vec = \<lambda>_. Inr [], hash_op_to_vec = \<lambda>_. Inr [],
      op_response_to_vec = \<lambda>_. Inr [], op_response_from_slice = \<lambda>_. Inl '''', pairs_to_vec = \<lambda>_. Inr [],
      auth_from_slice = \<lambda>_. Inr \<lparr>ar_method = MUsernamePassword, ar_credentials = UsernamePassword ''admin'' ''admin123''\<rparr>,
      auth_response_to_vec = \<lambda>_. Inr [], create_collection_from_slice = \<lambda>_. Inl '''', drop_collection_from_slice = \<lambda>_. Inr ''c'',
      list_indexes_from_slice = \<lambda>_. Inl '''', create_index_from_slice = \<lambda>_. Inl '''', drop_index_from_slice = \<lambda>_. Inl '''',
      query_from_slice = \<lambda>_. Inr example_query, insert_from_slice = \<lambda>_. Inr \<lparr>idr_collection = ''c'', idr_document = example_document\<rparr>,
      update_from_slice = \<lambda>_. Inr example_cas, delete_from_slice = \<lambda>_. Inl '''', aggregate_from_slice = \<lambda>_. Inl '''',
      create_user_from_slice = \<lambda>_. Inr \<lparr>cur_username = ''eve'', cur_password = ''pw'', cur_role = ''admin''\<rparr>,
      delete_user_from_slice = \<lambda>_. Inl '''', update_role_from_slice = \<lambda>_. Inl '''', key_id_from_slice = \<lambda>_. Inl '''',
      import_key_from_slice = \<lambda>_. Inl '''', rotation_days_from_slice = \<lambda>_. Inl '''', key_list_to_vec = \<lambda>_. Inr [],
      key_metadata_to_vec = \<lambda>_. Inr [], export_to_vec = \<lambda>_. Inr [], expiring_to_vec = \<lambda>_. Inr []\<rparr>"

definition example_lib :: "bool \<Rightarrow> document \<Rightarrow> server_lib" where
  "example_lib ok d =
     \<lparr>sl_codec = example_server_codec,
      sl_docs = \<lparr>doc_to_vec = \<lambda>_. Inr [1], doc_from_slice = \<lambda>_. Inr d, names_to_vec = \<lambda>_. Inr [], show_uuid = \<lambda>_. ''u''\<rparr>,
      sl_indexes = \<lparr>jsons_to_vec = \<lambda>_. Inr [], jsons_from_slice = \<lambda>_. Inr []\<rparr>, sl_regex = \<lambda>_. Inl '''',
      sl_crypto = example_crypto JNull, sl_bhash = Some, sl_bverify = \<lambda>p h. Some ok, sl_rfc3339 = \<lambda>_. '''', sl_dbg = \<lambda>_. '''',
      sl_json_dbg = \<lambda>_. '''', sl_group_order = id, sl_auth_text = \<lambda>_. '''', sl_key_text = \<lambda>_. '''', sl_parse_text = \<lambda>_. '''',
      sl_query_text = \<lambda>_. '''', sl_agg_text = \<lambda>_. ''''\<rparr>"

definition example_env :: server_env where
  "example_env = \<lparr>ev_instant = 10, ev_time = 0, ev_utc = 5000, ev_doc_id = 9, ev_session_id = 3, ev_jti = ''j'', ev_jti2 = ''j'',
     ev_stamp = (''x'', 5), ev_ids = \<lambda>_ _. 0, ev_key_bytes = [], ev_nonce = [], ev_memory = 0\<rparr>"

definition example_storage :: "(string \<times> bytes) list \<Rightarrow> hybrid_engine" where
  "example_storage ds = hybrid_new example_cache_config (pl_new\<lparr>documents := ds\<rparr>)"

definition example_manager :: "(string \<times> bytes) list \<Rightarrow> conn_manager" where
  "example_manager ds = conn_manager_new 0 example_auth example_jwt (example_storage ds)"

definition example_logged_in :: "(string \<times> bytes) list \<Rightarrow> conn_manager" where
  "example_logged_in ds = (example_manager ds)\<lparr>cm_connections :=
     [(1, (connection_new 0 ''h'')\<lparr>cn_state := Authenticated (session_new 3 10 example_admin ''h'' PROTOCOL_V2)\<rparr>)]\<rparr>"

lemmas example_lib_defs = example_lib_def example_server_codec_def example_env_def

lemma opcode_of_new [simp]: "header_opcode (cmd_header (command_new c s k v)) = Some c"
  by (simp add: command_new_def with_key_val_def cmd_header_new_def header_opcode_def opcode_roundtrip)

lemma version_of_new [simp]: "ch_version (cmd_header (command_new c s k v)) = PROTOCOL_V2" "PROTOCOL_V2 \<noteq> PROTOCOL_V1"
  by (simp_all add: command_new_def with_key_val_def cmd_header_new_def PROTOCOL_V2_def PROTOCOL_V1_def)

lemma v2_new: "v2_command (command_new c s k v) c"
  by (simp add: v2_command_def)

lemma logged_in: "is_authenticated (example_logged_in ds) 1"
  by (simp add: is_authenticated_def example_logged_in_def)

section \<open>Roles\<close>

theorem role_never_consulted_witness:
  "user_role (the (map_of (au_users (cm_auth (fst (process_command (example_lib True example_document) example_env
     (all_roles ReadOnly (example_logged_in [])) 1 (command_new OcCreateUser 1 [] []))))) ''eve'')) = Admin"
proof -
  let ?p = "process_command (example_lib True example_document) example_env (example_logged_in []) 1 (command_new OcCreateUser 1 [] [])"
  have "process_command (example_lib True example_document) example_env (all_roles ReadOnly (example_logged_in [])) 1
      (command_new OcCreateUser 1 [] []) = apfst (all_roles ReadOnly) ?p"
    by (rule role_never_consulted) simp
  moreover have "user_role (the (map_of (au_users (cm_auth (fst ?p))) ''eve'')) = Admin"
    unfolding process_v2 [OF logged_in v2_new]
    by (simp add: dispatch_def h_create_user_def with_request_def user_reply_def set_users_def example_lib_defs create_user_def
        example_logged_in_def example_manager_def conn_manager_new_def example_auth_def map_of_al_put role_or_read_only_def role_from_str_def)
  ultimately show ?thesis by (simp add: all_roles_def)
qed

section \<open>Documents\<close>


definition example_cas_command :: command where
  "example_cas_command = \<lparr>cmd_header = with_key_val 1 8 (cmd_header_new_v1 OcCas 4), cmd_key = [107], cmd_value = [1, 0, 0, 0, 0, 0, 0, 0]\<rparr>"

theorem legacy_cas_changes_nothing_witness:
  "fst (process_command (example_lib True (legacy_document 8 0 ''k'' [5])) example_env
     (example_logged_in [(''_legacy_kv:u'', [1])]) 1 example_cas_command) = example_logged_in [(''_legacy_kv:u'', [1])]"
proof -
  let ?sl = "example_lib True (legacy_document 8 0 ''k'' [5])" and ?cm = "example_logged_in [(''_legacy_kv:u'', [1])]"
  let ?c = "\<lparr>cmd_header = (with_key_val 0 1 ((with_key_val 1 8 (cmd_header_new_v1 OcCas 4))\<lparr>ch_version := PROTOCOL_V2\<rparr>))\<lparr>ch_op := opcode_as_u8 OcUpdateDoc\<rparr>,
    cmd_key = [], cmd_value = [1]\<rparr>"
  have h: "header_opcode (cmd_header example_cas_command) = Some OcCas"
    using opcode_roundtrip [of OcCas] by (simp add: example_cas_command_def header_opcode_def with_key_val_def cmd_header_new_v1_def)
  have v: "ch_version (cmd_header example_cas_command) = PROTOCOL_V1"
    by (simp add: example_cas_command_def with_key_val_def cmd_header_new_v1_def)
  have k: "from_utf8 (cmd_key example_cas_command) = Some ''k''"
  proof -
    have "from_utf8 [107] = Some ''k''" by code_simp
    then show ?thesis by (simp add: example_cas_command_def)
  qed
  have e: "cas_expected (cmd_value example_cas_command) = 1"
    by (simp add: example_cas_command_def cas_expected_def u64_from_le_def)
  have t: "translate_command (sl_codec ?sl) (ev_doc_id example_env) (ev_time example_env) example_cas_command = Inr ?c"
    using h k e v by (simp add: translate_command_def translate_cas_to_update_doc_def header_opcode_def repack_def example_lib_defs example_cas_def)
      (simp add: example_cas_command_def with_key_val_def)
  have "process_command ?sl example_env ?cm 1 example_cas_command = (?cm, reply ?sl ?c ((operation_success None)\<lparr>or_affected_count := Some 0\<rparr>))"
    by (rule legacy_cas_changes_nothing [OF logged_in v h t, where ds = "[legacy_document 8 0 ''k'' [5]]"])
      (auto simp: example_lib_defs example_logged_in_def example_manager_def conn_manager_new_def example_storage_def hybrid_new_def pl_new_def
        hybrid_scan_collection_def scan_collection_def LEGACY_KV_COLLECTION_def starts_with_def split: if_splits)
  then show ?thesis by simp
qed

section \<open>Runs\<close>

lemma new_well_framed: "length k + length v \<le> MAX_PAYLOAD \<Longrightarrow> well_framed (command_new c s k v)"
  by (simp add: well_framed_def command_new_def with_key_val_def MAX_PAYLOAD_def unat_of_nat take_bit_nat_eq_self)

theorem commands_answered_in_order_witness:
  "\<exists>sv' rs. server_run (example_lib True example_document)
      \<lparr>sv_manager = example_logged_in [], sv_tasks = [(1, command_to_bytes (command_ping 4) @ command_to_bytes (command_new OcLPush 5 [1] [2]) @ [0])], sv_log = []\<rparr>
      [LRound example_env ReadTimeout None 1, LRound example_env ReadTimeout None 1] sv' \<and>
     sv_log sv' = map (Pair 1) rs \<and> map (\<lambda>r. rh_seq (resp_header r)) rs = [4, 5] \<and> map_of (sv_tasks sv') 1 = Some [0]"
proof -
  let ?cs = "[command_ping 4, command_new OcLPush 5 [1] [2]]"
  let ?sv = "\<lparr>sv_manager = example_logged_in [], sv_tasks = [(1, concat (map command_to_bytes ?cs) @ [0])], sv_log = []\<rparr>"
  have w: "list_all well_framed ?cs" by (simp add: command_ping_def new_well_framed MAX_PAYLOAD_def)
  have l: "length [example_env, example_env] = length ?cs" by simp
  have t: "map_of (sv_tasks ?sv) 1 = Some (concat (map command_to_bytes ?cs) @ [0])" by simp
  have p: "1 \<in> pool_ids (sv_manager ?sv)" by (simp add: pool_ids_def example_logged_in_def)
  from commands_answered_in_order [OF w l t p, of "example_lib True example_document" ReadTimeout]
  obtain sv' rs where "server_run (example_lib True example_document) ?sv (map (\<lambda>ev. LRound ev ReadTimeout None 1) [example_env, example_env]) sv'"
    "sv_log sv' = sv_log ?sv @ map (Pair 1) rs" "map_of (sv_tasks sv') 1 = Some [0]"
    "map (\<lambda>r. rh_seq (resp_header r)) rs = map (\<lambda>c. ch_seq (cmd_header c)) ?cs" by blast
  moreover have "map (\<lambda>c. ch_seq (cmd_header c)) ?cs = [4, 5]"
    by (simp add: command_ping_def command_new_def with_key_val_def cmd_header_new_def)
  ultimately show ?thesis by (intro exI [of _ sv'] exI [of _ rs]) simp
qed

definition example_start :: server_state where
  "example_start = server_start (example_manager [])"

definition example_accepted :: "command \<Rightarrow> server_state" where
  "example_accepted c =
     \<lparr>sv_manager = (example_manager [])\<lparr>cm_connections := [(1, connection_new 0 ''h'')], cm_permits := MAX_CONNECTIONS - 1\<rparr>,
      sv_tasks = [(1, command_to_bytes c)], sv_log = []\<rparr>"

lemma accept_then_round:
  assumes "well_framed c" and "serve_command sl ev (sv_manager (example_accepted c)) 1 (connection_new 0 ''h'') c = (cm, r)"
  shows "server_run sl example_start [LAccept 0 1 ''h'', LSend 1 (command_to_bytes c)] (example_accepted c)"
    and "server_step sl (example_accepted c) (LRound ev ReadTimeout None 1) \<lparr>sv_manager = cm, sv_tasks = [(1, [])], sv_log = [(1, r)]\<rparr>"
proof -
  let ?a = "accept_task 0 1 ''h'' example_start"
  have "server_step sl example_start (LAccept 0 1 ''h'') ?a"
    by (intro server_step.accept) (simp_all add: example_start_def server_start_def example_manager_def conn_manager_new_def MAX_CONNECTIONS_def)
  moreover have "server_step sl ?a (LSend 1 (command_to_bytes c)) (?a\<lparr>sv_tasks := al_put 1 ([] @ command_to_bytes c) (sv_tasks ?a)\<rparr>)"
    by (rule server_step.send) (simp add: accept_task_def example_start_def server_start_def)
  ultimately have "server_run sl example_start [LAccept 0 1 ''h'', LSend 1 (command_to_bytes c)]
      (?a\<lparr>sv_tasks := al_put 1 ([] @ command_to_bytes c) (sv_tasks ?a)\<rparr>)"
    by (rule server_run_Cons [OF _ server_run_Cons [OF _ server_run.start]])
  then show "server_run sl example_start [LAccept 0 1 ''h'', LSend 1 (command_to_bytes c)] (example_accepted c)"
    by (simp add: example_accepted_def accept_task_def example_start_def server_start_def example_manager_def conn_manager_new_def)
  have "connection_round sl ev ReadTimeout None (sv_manager (example_accepted c)) 1 (command_to_bytes c) = (cm, Answered r [])"
    using read_well_framed [OF assms(1), of ReadTimeout "[]"] assms(2) by (simp add: connection_round_def) (simp add: example_accepted_def)
  from server_step.round [OF _ this]
  show "server_step sl (example_accepted c) (LRound ev ReadTimeout None 1) \<lparr>sv_manager = cm, sv_tasks = [(1, [])], sv_log = [(1, r)]\<rparr>"
    by (simp add: after_round_def example_accepted_def)
qed

theorem connection_limit_witness:
  "server_run (example_lib True example_document) example_start [LAccept 0 1 ''h'', LSend 1 (command_to_bytes (command_ping 4))]
     (example_accepted (command_ping 4)) \<and> length (sv_tasks (example_accepted (command_ping 4))) \<le> MAX_CONNECTIONS"
proof -
  have w: "well_framed (command_ping 4)" by (simp add: command_ping_def new_well_framed)
  obtain cm r where "serve_command (example_lib True example_document) example_env (sv_manager (example_accepted (command_ping 4))) 1
      (connection_new 0 ''h'') (command_ping 4) = (cm, r)" by fastforce
  from accept_then_round(1) [OF w this] show ?thesis
    using connection_limit [of "example_lib True example_document" 0 example_auth example_jwt "example_storage []"]
    unfolding example_start_def example_manager_def by blast
qed

theorem panicked_connections_pile_up_witness:
  "\<exists>sv. server_run (example_lib True example_document) example_start (concat (map (poison_round example_env ReadTimeout ''h'') [0..<20000])) sv \<and>
     sv_tasks sv = [] \<and> length (cm_connections (sv_manager sv)) = 20000"
  using panicked_connections_pile_up [of 20000 "example_lib True example_document" 0 example_auth example_jwt "example_storage []" example_env ReadTimeout "''h''"]
  unfolding example_start_def example_manager_def by auto

lemma served_new:
  "serve_command sl ev (sv_manager (example_accepted c)) 1 (connection_new 0 ''h'') c =
     (case process_command sl ev (sv_manager (example_accepted c)) 1 c of
        (cm, Inr r) \<Rightarrow> (cm, r)
      | (cm, Inl e) \<Rightarrow> (cm, response_new StError (ch_seq (cmd_header c)) (bytes_of (connection_error_text e))))"
proof -
  have m: "map_of (cm_connections (sv_manager (example_accepted c))) 1 = Some (connection_new 0 ''h'')"
    by (simp add: example_accepted_def)
  have a: "conn_update_activity (ev_instant ev) (connection_new 0 ''h'') = connection_new 0 ''h''"
    by (rule unauthenticated_activity) (simp add: connection_new_def)
  show ?thesis by (simp add: serve_command_def a al_put_id [OF m] split: prod.split sum.split)
qed

definition example_login :: command where
  "example_login = command_new OcAuth 1 [] []"

lemma login_processed: "process_command sl ev cm cid example_login = handle_auth sl ev cm cid example_login"
  by (simp add: process_command_def example_login_def translate_command_def dispatch_def)

lemma login_framed: "well_framed example_login"
  by (simp add: example_login_def new_well_framed)

theorem expiry_closes_every_connection_witness:
  "\<exists>sv. server_run (example_lib True example_document) example_start
      [LAccept 0 1 ''h'', LSend 1 (command_to_bytes example_login), LRound example_env ReadTimeout None 1] sv \<and>
     length (cm_connections (sv_manager sv)) = 1 \<and>
     cm_connections (cleanup_expired_sessions (11 + DEFAULT_SESSION_TIMEOUT) (sv_manager sv)) = []"
proof -
  let ?sl = "example_lib True example_document"
  obtain cm r where c: "serve_command ?sl example_env (sv_manager (example_accepted example_login)) 1 (connection_new 0 ''h'') example_login = (cm, r)"
    by fastforce
  let ?sv = "\<lparr>sv_manager = cm, sv_tasks = [(1, [])], sv_log = [(1, r)]\<rparr>"
  have run: "server_run ?sl example_start [LAccept 0 1 ''h'', LSend 1 (command_to_bytes example_login), LRound example_env ReadTimeout None 1] ?sv"
    using server_run.more [OF accept_then_round [OF login_framed c]] by simp
  have cm: "cm_sessions cm = [(3, session_new 3 10 (example_admin\<lparr>last_login := Some 5000\<rparr>) ''h'' PROTOCOL_V2)] \<and> length (cm_connections cm) = 1"
    using c unfolding served_new login_processed
    by (auto simp: handle_auth_def example_lib_defs check_credentials_def authenticate_def verify_password_def example_accepted_def example_manager_def
        conn_manager_new_def example_auth_def get_user_def example_admin_def default_admin_def update_user_def generate_token_def example_jwt_def
        example_claims_def role_as_str_def lookup_account_def open_session_def connection_new_def session_new_def Let_def example_login_def)
  then have s: "map_of (cm_sessions (sv_manager ?sv)) 3 = Some (session_new 3 10 (example_admin\<lparr>last_login := Some 5000\<rparr>) ''h'' PROTOCOL_V2)" by simp
  have "cm_connections (cleanup_expired_sessions (11 + DEFAULT_SESSION_TIMEOUT) (sv_manager ?sv)) = []"
    by (rule expiry_closes_every_connection [OF run [unfolded example_start_def example_manager_def] s]) (simp add: session_new_def)
  with run cm show ?thesis by (intro exI [of _ ?sv]) simp
qed

theorem outsiders_change_nothing_witness:
  "\<exists>sv. outsider_run (example_lib False example_document) example_start sv \<and> length (sv_log sv) = 1 \<and>
     cm_storage (sv_manager sv) = example_storage [] \<and> cm_sessions (sv_manager sv) = []"
proof -
  let ?sl = "example_lib False example_document"
  obtain cm r where c: "serve_command ?sl example_env (sv_manager (example_accepted example_login)) 1 (connection_new 0 ''h'') example_login = (cm, r)"
    by fastforce
  let ?sv = "\<lparr>sv_manager = cm, sv_tasks = [(1, [])], sv_log = [(1, r)]\<rparr>"
  have steps: "outsider_run sl sv0 sv" if "server_run sl sv0 ls sv" and "list_all (\<lambda>l. \<forall>ev e w i. l \<noteq> LRound ev e w i) ls" for sl sv0 ls sv
    using that by (induction rule: server_run.induct)
      (auto intro: outsider_run.intros simp: accepts_credentials_def split: server_label.splits)
  have "outsider_run ?sl example_start (example_accepted example_login)"
    by (rule steps [OF accept_then_round(1) [OF login_framed c]]) simp
  moreover have "\<not> accepts_credentials ?sl (example_accepted example_login) (LRound example_env ReadTimeout None 1)"
    using read_well_framed [OF login_framed, of ReadTimeout "[]"]
    by (simp add: accepts_credentials_def example_accepted_def example_lib_defs check_credentials_def authenticate_def verify_password_def
        example_manager_def conn_manager_new_def example_auth_def get_user_def example_admin_def default_admin_def)
  ultimately have run: "outsider_run ?sl example_start ?sv"
    using accept_then_round(2) [OF login_framed c] by (blast intro: outsider_run.outsider_more)
  have "cm_storage (sv_manager ?sv) = cm_storage (example_manager []) \<and> cm_sessions (sv_manager ?sv) = []"
    using outsiders_change_nothing [of "example_manager []" ?sl ?sv] run
    by (simp add: example_start_def example_manager_def conn_manager_new_def example_auth_def example_admin_def default_admin_def users_wf_def)
  with run show ?thesis by (intro exI [of _ ?sv]) (simp add: example_manager_def conn_manager_new_def)
qed

end
