(* ===== verification/Protocol_Handler.thy ===== *)
theory Protocol_Handler
  imports Protocol_Requests Server_Documents
begin

text \<open>
  The handler for key-value requests at the end of \<open>veddb-core/src/protocol.rs\<close>. Version 5 ids of the
  uuid crate and the JSON text of a value are parameters; the id and the time of a new document are arguments.
\<close>

text \<open>\<open>String::from_utf8_lossy\<close>: a broken sequence, as long as it can be the start of one, becomes U+FFFD.\<close>

definition utf8_chunk :: "bytes \<Rightarrow> bool \<times> nat" where
  "utf8_chunk s =
     (let byte = (\<lambda>i. if i < length s then s ! i else 0); a = byte 0; b = byte 1; c = byte 2; d = byte 3
      in if a < 0x80 then (True, 1)
         else if 0xC2 \<le> a \<and> a \<le> 0xDF then (if cont_byte b then (True, 2) else (False, 1))
         else if 0xE0 \<le> a \<and> a \<le> 0xEF then
           (if \<not> (cont_byte b \<and> (a = 0xE0 \<longrightarrow> 0xA0 \<le> b) \<and> (a = 0xED \<longrightarrow> b \<le> 0x9F)) then (False, 1)
            else if cont_byte c then (True, 3) else (False, 2))
         else if 0xF0 \<le> a \<and> a \<le> 0xF4 then
           (if \<not> (cont_byte b \<and> (a = 0xF0 \<longrightarrow> 0x90 \<le> b) \<and> (a = 0xF4 \<longrightarrow> b \<le> 0x8F)) then (False, 1)
            else if \<not> cont_byte c then (False, 2)
            else if cont_byte d then (True, 4) else (False, 3))
         else (False, 1))"

lemma utf8_chunk_pos: "0 < snd (utf8_chunk s)"
  by (simp add: utf8_chunk_def Let_def)

function utf8_lossy :: "bytes \<Rightarrow> bytes" where
  "utf8_lossy s =
     (if s = [] then []
      else let (ok, n) = utf8_chunk s in (if ok then take n s else [0xEF, 0xBF, 0xBD]) @ utf8_lossy (drop n s))"
  by auto
termination
proof (relation "measure length")
  fix s :: bytes and p ok n
  assume "s \<noteq> []" "p = utf8_chunk s" "(ok, n) = p"
  then have "0 < n" using utf8_chunk_pos [of s] by (metis snd_conv)
  with \<open>s \<noteq> []\<close> show "(drop n s, s) \<in> measure length" by simp
qed simp

declare utf8_lossy.simps [simp del]

definition from_utf8_lossy :: "bytes \<Rightarrow> string" where
  "from_utf8_lossy b = text_of (utf8_lossy b)"

record protocol_request =
  pr_opcode :: opcode
  pr_flags :: u8
  pr_seq :: u32
  pr_key :: bytes
  pr_value :: bytes

datatype protocol_status = PsOk | PsError | PsNotFound

record protocol_response =
  ps_status :: protocol_status
  ps_flags :: u8
  ps_payload :: bytes

definition protocol_reply :: "protocol_status \<Rightarrow> bytes \<Rightarrow> protocol_response" where
  "protocol_reply st p = \<lparr>ps_status = st, ps_flags = 0, ps_payload = p\<rparr>"

definition error_reply :: "string \<Rightarrow> protocol_response" where
  "error_reply m = protocol_reply PsError (bytes_of (''error: '' @ m))"

text \<open>\<open>uuid5\<close> is the version 5 id of a name in the namespace of object ids.\<close>

definition set_document :: "'z doc_codec_scheme \<Rightarrow> (string \<Rightarrow> document_id) \<Rightarrow> document_id \<Rightarrow> int \<Rightarrow> string \<Rightarrow> string \<Rightarrow> document" where
  "set_document cdc uuid5 i now k v =
     (let d0 = with_id i now;
          d1 = fst (doc_insert now d0 ''_key'' (Str k));
          d2 = fst (doc_insert now d1 ''value'' (Str v))
      in fst (doc_insert now d2 ''_id'' (Str (show_uuid cdc (uuid5 k)))))"

definition handle_set ::
  "'z doc_codec_scheme \<Rightarrow> (string \<Rightarrow> document_id) \<Rightarrow> document_id \<Rightarrow> int \<Rightarrow> hybrid_engine \<Rightarrow> protocol_request \<Rightarrow> hybrid_engine \<times> protocol_response"
where
  "handle_set cdc uuid5 i now e r =
     (case hybrid_insert cdc now e ''default'' (set_document cdc uuid5 i now (from_utf8_lossy (pr_key r)) (from_utf8_lossy (pr_value r))) of
        (e1, Inr _) \<Rightarrow> (e1, protocol_reply PsOk [])
      | (e1, Inl m) \<Rightarrow> (e1, error_reply m))"

definition handle_get ::
  "'z doc_codec_scheme \<Rightarrow> (ved_value \<Rightarrow> bytes) \<Rightarrow> (string \<Rightarrow> document_id) \<Rightarrow> int \<Rightarrow> hybrid_engine \<Rightarrow> protocol_request \<Rightarrow> hybrid_engine \<times> protocol_response"
where
  "handle_get cdc value_text uuid5 now e r =
     (case hybrid_get cdc now e ''default'' (uuid5 (from_utf8_lossy (pr_key r))) of
        (e1, Inl m) \<Rightarrow> (e1, error_reply m)
      | (e1, Inr None) \<Rightarrow> (e1, protocol_reply PsNotFound [])
      | (e1, Inr (Some d)) \<Rightarrow>
          (e1, case doc_get d ''value'' of
                 None \<Rightarrow> protocol_reply PsNotFound []
               | Some v \<Rightarrow> protocol_reply PsOk (case v of Str s \<Rightarrow> bytes_of s | _ \<Rightarrow> value_text v)))"

definition handle_delete ::
  "'z doc_codec_scheme \<Rightarrow> (string \<Rightarrow> document_id) \<Rightarrow> int \<Rightarrow> hybrid_engine \<Rightarrow> protocol_request \<Rightarrow> hybrid_engine \<times> protocol_response"
where
  "handle_delete cdc uuid5 now e r =
     (case hybrid_delete cdc now e ''default'' (uuid5 (from_utf8_lossy (pr_key r))) of
        (e1, found) \<Rightarrow> (e1, protocol_reply (if found then PsOk else PsNotFound) []))"

definition handle_request ::
  "'z doc_codec_scheme \<Rightarrow> (ved_value \<Rightarrow> bytes) \<Rightarrow> (string \<Rightarrow> document_id) \<Rightarrow> document_id \<Rightarrow> int \<Rightarrow> hybrid_engine \<Rightarrow> protocol_request \<Rightarrow>
   hybrid_engine \<times> protocol_response"
where
  "handle_request cdc value_text uuid5 i now e r =
     (if pr_opcode r = OcPing then (e, protocol_reply PsOk (bytes_of ''pong''))
      else if pr_opcode r = OcSet then handle_set cdc uuid5 i now e r
      else if pr_opcode r = OcGet then handle_get cdc value_text uuid5 now e r
      else if pr_opcode r = OcDel then handle_delete cdc uuid5 now e r
      else (e, protocol_reply PsError (bytes_of ''unsupported operation'')))"

section \<open>Properties\<close>

text \<open>Valid text is not changed.\<close>

lemma valid_chunk:
  assumes "utf8_valid (a # s)"
  shows "\<exists>n. utf8_chunk (a # s) = (True, Suc n) \<and> utf8_valid (drop n s)"
proof (cases "a < 0x80")
  case True
  with assms show ?thesis by (simp add: utf8_chunk_def Let_def)
next
  case a: False
  then obtain b s2 where s: "s = b # s2" using assms by (cases s) simp_all
  show ?thesis
  proof (cases "0xC2 \<le> a \<and> a \<le> 0xDF")
    case True
    with assms a show ?thesis by (simp add: utf8_chunk_def Let_def s)
  next
    case two: False
    then obtain c s3 where s2: "s2 = c # s3" using assms a s by (cases s2) (auto split: if_splits)
    show ?thesis
    proof (cases "0xE0 \<le> a \<and> a \<le> 0xEF")
      case True
      with assms a two have "utf8_chunk (a # s) = (True, 3)" "utf8_valid s3" by (simp_all add: utf8_chunk_def Let_def s s2)
      then show ?thesis by (intro exI [of _ 2]) (simp add: s s2 eval_nat_numeral)
    next
      case three: False
      then obtain d s4 where s3: "s3 = d # s4" using assms a two s s2 by (cases s3) (auto split: if_splits)
      with assms a two three have "utf8_chunk (a # s) = (True, 4)" "utf8_valid s4"
        by (simp_all add: utf8_chunk_def Let_def s s2 eval_nat_numeral)
      then show ?thesis by (intro exI [of _ 3]) (simp add: s s2 s3 eval_nat_numeral)
    qed
  qed
qed

lemma utf8_lossy_valid: "utf8_valid b \<Longrightarrow> utf8_lossy b = b"
proof (induction "length b" arbitrary: b rule: less_induct)
  case less
  show ?case
  proof (cases b)
    case (Cons a s)
    with less.prems obtain n where "utf8_chunk (a # s) = (True, Suc n)" "utf8_valid (drop n s)" using valid_chunk by blast
    with less.hyps [of "drop n s"] show ?thesis by (simp add: Cons utf8_lossy.simps [of "a # s"])
  qed (simp add: utf8_lossy.simps)
qed

lemma set_document_id: "doc_id (set_document cdc uuid5 i now k v) = i"
  by (simp add: set_document_def doc_insert_def update_metadata_def with_id_def Let_def)

text \<open>
  A value that was set is not found again: it is stored under the random id of a new document, and
  looked for under the id that is computed from the key.
\<close>

lemma set_value_not_found:
  assumes "uuid_text_ok cdc" and "get_schema e ''default'' = None" and "pr_opcode r = OcSet" and "pr_opcode r' = OcGet"
    and "pr_key r' = pr_key r" and "i \<noteq> uuid5 (from_utf8_lossy (pr_key r))"
    and "doc_to_vec cdc (set_document cdc uuid5 i now (from_utf8_lossy (pr_key r)) (from_utf8_lossy (pr_value r))) = Inr v"
    and "map_of (documents (he_persistent e)) (make_document_key cdc ''default'' (uuid5 (from_utf8_lossy (pr_key r)))) = None"
  shows "snd (handle_request cdc vt uuid5 i now e r) = protocol_reply PsOk []"
    and "snd (handle_request cdc vt uuid5 j now' (fst (handle_request cdc vt uuid5 i now e r)) r') = protocol_reply PsNotFound []"
proof -
  note ins = insert_no_schema [OF assms(2,7), of now]
  show "snd (handle_request cdc vt uuid5 i now e r) = protocol_reply PsOk []"
    using assms(3) by (simp add: handle_request_def handle_set_def ins)
  have "make_document_key cdc ''default'' i \<noteq> make_document_key cdc ''default'' (uuid5 (from_utf8_lossy (pr_key r)))"
    using assms(1,6) by (auto simp: make_document_key_def uuid_text_ok_def dest: injD)
  then show "snd (handle_request cdc vt uuid5 j now' (fst (handle_request cdc vt uuid5 i now e r)) r') = protocol_reply PsNotFound []"
    using assms(2-5,8)
    by (simp add: handle_request_def handle_set_def handle_get_def ins set_document_id hybrid_get_def get_schema_def
        record_persistent_write_def read_persistent_def get_document_def map_of_al_put)
qed

end
