(* ===== verification/Snapshot_Ved.thy ===== *)
theory Snapshot_Ved
  imports Persistent_Layer Wal_Entry Wal_Names
begin

text \<open>
  Snapshots of the persistent layer (\<open>veddb-core/src/snapshot/format.rs\<close>,
  \<open>veddb-core/src/snapshot/writer.rs\<close>, \<open>veddb-core/src/snapshot/reader.rs\<close>). A snapshot is a header
  padded to 256 bytes, sections of JSON text with a length prefix, and a footer of 64 bytes with
  the SHA-256 of everything before it. JSON (serde_json) and SHA-256 (sha2) are code outside the
  repository: they are the fields of the argument \<open>cdc\<close>. A hasher is the bytes it was fed. A panic is
  the outcome \<open>None\<close>.
\<close>

section \<open>The format\<close>

definition SNAPSHOT_MAGIC :: bytes where
  "SNAPSHOT_MAGIC = map of_char ''VEDDB'' @ [0, 0, 0]"

definition SNAPSHOT_VERSION :: u32 where
  "SNAPSHOT_VERSION = 1"

definition SNAPSHOT_END_MARKER :: bytes where
  "SNAPSHOT_END_MARKER = map of_char ''VEDDB_END'' @ [0]"

datatype checksum_algo = SHA256

definition checksum_algo_default :: checksum_algo where
  "checksum_algo_default = SHA256"

text \<open>A \<open>DateTime<Utc>\<close>: seconds since the epoch and nanoseconds within the second.\<close>

record utc_time =
  utc_secs :: int
  utc_nanos :: nat

record snapshot_header =
  hdr_magic :: bytes
  hdr_version :: u32
  hdr_timestamp :: utc_time
  hdr_sequence :: u64
  hdr_checksum_algo :: checksum_algo
  hdr_checksum :: bytes

record snapshot_metadata =
  collections_count :: u32
  users_count :: u32
  snap_config :: string

record collection_header =
  col_name :: string
  col_schema_json :: string
  col_document_count :: u64
  col_index_count :: u32

record snapshot_footer =
  end_marker :: bytes
  total_checksum :: bytes

datatype snapshot_error =
    SnapIoError string
  | SnapSerializationError string
  | SnapDeserializationError string
  | InvalidMagic
  | InvalidVersion u32
  | SnapChecksumMismatch
  | InvalidEndMarker
  | SnapNotFound string
  | Corrupted

record snapshot_codec = doc_codec +
  header_to_vec :: "snapshot_header \<Rightarrow> (string, bytes) result"
  header_from_slice :: "bytes \<Rightarrow> (string, snapshot_header) result"
  smeta_to_vec :: "snapshot_metadata \<Rightarrow> (string, bytes) result"
  smeta_from_slice :: "bytes \<Rightarrow> (string, snapshot_metadata) result"
  colhdr_to_vec :: "collection_header \<Rightarrow> (string, bytes) result"
  colhdr_from_slice :: "bytes \<Rightarrow> (string, collection_header) result"
  sindex_to_vec :: "index_definition \<Rightarrow> (string, bytes) result"
  sindex_from_slice :: "bytes \<Rightarrow> (string, index_definition) result"
  sha256 :: "bytes \<Rightarrow> bytes"

definition snapshot_header_new :: "utc_time \<Rightarrow> u64 \<Rightarrow> snapshot_header" where
  "snapshot_header_new now s =
     \<lparr>hdr_magic = SNAPSHOT_MAGIC, hdr_version = SNAPSHOT_VERSION, hdr_timestamp = now, hdr_sequence = s,
      hdr_checksum_algo = checksum_algo_default, hdr_checksum = replicate 32 0\<rparr>"

definition verify_magic :: "snapshot_header \<Rightarrow> bool" where
  "verify_magic h \<longleftrightarrow> hdr_magic h = SNAPSHOT_MAGIC"

definition header_compute_checksum :: "snapshot_codec \<Rightarrow> snapshot_header \<Rightarrow> bytes" where
  "header_compute_checksum cdc h =
     sha256 cdc (hdr_magic h @ u32_to_le (hdr_version h) @
       u64_to_le (of_int (utc_secs (hdr_timestamp h))) @ u64_to_le (hdr_sequence h))"

definition header_verify_checksum :: "snapshot_codec \<Rightarrow> snapshot_header \<Rightarrow> bool" where
  "header_verify_checksum cdc h \<longleftrightarrow> header_compute_checksum cdc h = hdr_checksum h"

definition snapshot_metadata_default :: snapshot_metadata where
  "snapshot_metadata_default = \<lparr>collections_count = 0, users_count = 0, snap_config = ''{}''\<rparr>"

definition snapshot_footer_new :: "bytes \<Rightarrow> snapshot_footer" where
  "snapshot_footer_new c = \<lparr>end_marker = SNAPSHOT_END_MARKER, total_checksum = c\<rparr>"

definition verify_end_marker :: "snapshot_footer \<Rightarrow> bool" where
  "verify_end_marker f \<longleftrightarrow> end_marker f = SNAPSHOT_END_MARKER"

section \<open>The writer\<close>

record snapshot_writer =
  sw_path :: string
  sw_file :: bytes
  sw_hasher :: bytes
  bytes_written :: u64

definition writer_create :: "string \<Rightarrow> snapshot_writer" where
  "writer_create path = \<lparr>sw_path = path, sw_file = [], sw_hasher = [], bytes_written = 0\<rparr>"

definition snap_write_bytes :: "snapshot_writer \<Rightarrow> bytes \<Rightarrow> snapshot_writer" where
  "snap_write_bytes w bs = w\<lparr>sw_file := sw_file w @ bs, sw_hasher := sw_hasher w @ bs,
     bytes_written := bytes_written w + of_nat (length bs)\<rparr>"

text \<open>The text of the header is copied into the first bytes of a buffer of 256: a longer one panics.\<close>

definition write_header ::
  "snapshot_codec \<Rightarrow> snapshot_writer \<Rightarrow> snapshot_header \<Rightarrow>
   snapshot_writer \<times> (snapshot_error, unit) result option"
where
  "write_header cdc w h0 =
     (let h = h0\<lparr>hdr_checksum := header_compute_checksum cdc h0\<rparr>
      in case header_to_vec cdc h of
           Inl e \<Rightarrow> (w, Some (Inl (SnapSerializationError e)))
         | Inr json \<Rightarrow>
             if 256 < length json then (w, None)
             else (snap_write_bytes w (json @ replicate (256 - length json) 0), Some (Inr ())))"

text \<open>A section: the length of its text as a \<open>u32\<close>, then the text.\<close>

definition write_section ::
  "snapshot_writer \<Rightarrow> (string, bytes) result \<Rightarrow> snapshot_writer \<times> (snapshot_error, unit) result"
where
  "write_section w r =
     (case r of Inl e \<Rightarrow> (w, Inl (SnapSerializationError e))
      | Inr json \<Rightarrow> (snap_write_bytes (snap_write_bytes w (u32_to_le (of_nat (length json)))) json, Inr ()))"

definition write_metadata ::
  "snapshot_codec \<Rightarrow> snapshot_writer \<Rightarrow> snapshot_metadata \<Rightarrow> snapshot_writer \<times> (snapshot_error, unit) result"
where
  "write_metadata cdc w m = write_section w (smeta_to_vec cdc m)"

definition write_collection_header ::
  "snapshot_codec \<Rightarrow> snapshot_writer \<Rightarrow> collection_header \<Rightarrow> snapshot_writer \<times> (snapshot_error, unit) result"
where
  "write_collection_header cdc w h = write_section w (colhdr_to_vec cdc h)"

definition write_document ::
  "snapshot_codec \<Rightarrow> snapshot_writer \<Rightarrow> document \<Rightarrow> snapshot_writer \<times> (snapshot_error, unit) result"
where
  "write_document cdc w d = write_section w (doc_to_vec cdc d)"

definition write_index ::
  "snapshot_codec \<Rightarrow> snapshot_writer \<Rightarrow> index_definition \<Rightarrow> snapshot_writer \<times> (snapshot_error, unit) result"
where
  "write_index cdc w i = write_section w (sindex_to_vec cdc i)"

text \<open>The footer is written without feeding the hasher.\<close>

definition finalize_snapshot :: "snapshot_codec \<Rightarrow> snapshot_writer \<Rightarrow> snapshot_writer" where
  "finalize_snapshot cdc w =
     (let footer = snapshot_footer_new (sha256 cdc (sw_hasher w))
      in w\<lparr>sw_file := sw_file w @ end_marker footer @ total_checksum footer @ replicate 22 0\<rparr>)"

fun write_documents ::
  "snapshot_codec \<Rightarrow> snapshot_writer \<Rightarrow> document list \<Rightarrow> snapshot_writer \<times> (snapshot_error, unit) result"
where
  "write_documents cdc w [] = (w, Inr ())"
| "write_documents cdc w (d # ds) =
     (case write_document cdc w d of
        (w1, Inl e) \<Rightarrow> (w1, Inl e) | (w1, Inr _) \<Rightarrow> write_documents cdc w1 ds)"

definition scan_or_default :: "snapshot_codec \<Rightarrow> persistent_layer \<Rightarrow> string \<Rightarrow> document list" where
  "scan_or_default cdc p name = (case scan_collection cdc p name of Inl _ \<Rightarrow> [] | Inr ds \<Rightarrow> ds)"

definition header_of_collection :: "snapshot_codec \<Rightarrow> persistent_layer \<Rightarrow> string \<Rightarrow> collection_header" where
  "header_of_collection cdc p name =
     \<lparr>col_name = name, col_schema_json = ''{}'',
      col_document_count = of_nat (length (scan_or_default cdc p name)), col_index_count = 0\<rparr>"

fun write_collections ::
  "snapshot_codec \<Rightarrow> persistent_layer \<Rightarrow> snapshot_writer \<Rightarrow> string list \<Rightarrow>
   snapshot_writer \<times> (snapshot_error, unit) result"
where
  "write_collections cdc p w [] = (w, Inr ())"
| "write_collections cdc p w (name # names) =
     (case write_collection_header cdc w (header_of_collection cdc p name) of
        (w1, Inl e) \<Rightarrow> (w1, Inl e)
      | (w1, Inr _) \<Rightarrow>
          (case write_documents cdc w1 (scan_or_default cdc p name) of
             (w2, Inl e) \<Rightarrow> (w2, Inl e)
           | (w2, Inr _) \<Rightarrow> write_collections cdc p w2 names))"

definition metadata_of_layer :: "persistent_layer \<Rightarrow> snapshot_metadata" where
  "metadata_of_layer p =
     \<lparr>collections_count = of_nat (length (list_collections p)), users_count = 0, snap_config = ''{}''\<rparr>"

text \<open>\<open>create_snapshot\<close>: what the file holds afterwards, and the outcome.\<close>

definition create_snapshot ::
  "snapshot_codec \<Rightarrow> utc_time \<Rightarrow> persistent_layer \<Rightarrow> string \<Rightarrow> u64 \<Rightarrow>
   bytes \<times> (snapshot_error, unit) result option"
where
  "create_snapshot cdc now p output_path wal_sequence =
     (case write_header cdc (writer_create output_path) (snapshot_header_new now wal_sequence) of
        (w1, None) \<Rightarrow> (sw_file w1, None)
      | (w1, Some (Inl e)) \<Rightarrow> (sw_file w1, Some (Inl e))
      | (w1, Some (Inr _)) \<Rightarrow>
          (case write_metadata cdc w1 (metadata_of_layer p) of
             (w2, Inl e) \<Rightarrow> (sw_file w2, Some (Inl e))
           | (w2, Inr _) \<Rightarrow>
               (case write_collections cdc p w2 (list_collections p) of
                  (w3, Inl e) \<Rightarrow> (sw_file w3, Some (Inl e))
                | (w3, Inr _) \<Rightarrow> (sw_file (finalize_snapshot cdc w3), Some (Inr ())))))"

section \<open>The reader\<close>

record snapshot_reader =
  sr_rest :: bytes
  sr_hasher :: bytes
  sr_header :: "snapshot_header option"

text \<open>The files of the machine, by path.\<close>

type_synonym snap_files = "(string \<times> bytes) list"

definition reader_on :: "bytes \<Rightarrow> snapshot_reader" where
  "reader_on bs = \<lparr>sr_rest = bs, sr_hasher = [], sr_header = None\<rparr>"

definition reader_open :: "snap_files \<Rightarrow> string \<Rightarrow> (snapshot_error, snapshot_reader) result" where
  "reader_open files path =
     (case map_of files path of None \<Rightarrow> Inl (SnapNotFound path) | Some bs \<Rightarrow> Inr (reader_on bs))"

definition snap_read_bytes ::
  "nat \<Rightarrow> snapshot_reader \<Rightarrow> (snapshot_error, bytes) result \<times> snapshot_reader"
where
  "snap_read_bytes n r =
     (if length (sr_rest r) < n
      then (Inl (SnapIoError ''failed to fill whole buffer''), r\<lparr>sr_rest := []\<rparr>)
      else (Inr (take n (sr_rest r)),
            r\<lparr>sr_rest := drop n (sr_rest r), sr_hasher := sr_hasher r @ take n (sr_rest r)\<rparr>))"

definition read_header ::
  "snapshot_codec \<Rightarrow> snapshot_reader \<Rightarrow> (snapshot_error, snapshot_header) result \<times> snapshot_reader"
where
  "read_header cdc r =
     (case snap_read_bytes 256 r of
        (Inl e, r1) \<Rightarrow> (Inl e, r1)
      | (Inr header_bytes, r1) \<Rightarrow>
          (case header_from_slice cdc (takeWhile (\<lambda>b. b \<noteq> 0) header_bytes) of
             Inl e \<Rightarrow> (Inl (SnapDeserializationError e), r1)
           | Inr h \<Rightarrow>
               if \<not> verify_magic h then (Inl InvalidMagic, r1)
               else if hdr_version h \<noteq> SNAPSHOT_VERSION then (Inl (InvalidVersion (hdr_version h)), r1)
               else if \<not> header_verify_checksum cdc h then (Inl SnapChecksumMismatch, r1)
               else (Inr h, r1\<lparr>sr_header := Some h\<rparr>)))"

definition read_section ::
  "(bytes \<Rightarrow> (string, 'a) result) \<Rightarrow> snapshot_reader \<Rightarrow> (snapshot_error, 'a) result \<times> snapshot_reader"
where
  "read_section dec r =
     (case snap_read_bytes 4 r of
        (Inl e, r1) \<Rightarrow> (Inl e, r1)
      | (Inr len_bytes, r1) \<Rightarrow>
          (case snap_read_bytes (unat (u32_from_le len_bytes)) r1 of
             (Inl e, r2) \<Rightarrow> (Inl e, r2)
           | (Inr bs, r2) \<Rightarrow>
               (case dec bs of Inl e \<Rightarrow> (Inl (SnapDeserializationError e), r2) | Inr x \<Rightarrow> (Inr x, r2))))"

definition read_metadata ::
  "snapshot_codec \<Rightarrow> snapshot_reader \<Rightarrow> (snapshot_error, snapshot_metadata) result \<times> snapshot_reader"
where
  "read_metadata cdc r = read_section (smeta_from_slice cdc) r"

definition read_collection_header ::
  "snapshot_codec \<Rightarrow> snapshot_reader \<Rightarrow> (snapshot_error, collection_header) result \<times> snapshot_reader"
where
  "read_collection_header cdc r = read_section (colhdr_from_slice cdc) r"

definition read_document ::
  "snapshot_codec \<Rightarrow> snapshot_reader \<Rightarrow> (snapshot_error, document) result \<times> snapshot_reader"
where
  "read_document cdc r = read_section (doc_from_slice cdc) r"

definition read_index ::
  "snapshot_codec \<Rightarrow> snapshot_reader \<Rightarrow> (snapshot_error, index_definition) result \<times> snapshot_reader"
where
  "read_index cdc r = read_section (sindex_from_slice cdc) r"

definition read_footer ::
  "snapshot_codec \<Rightarrow> snapshot_reader \<Rightarrow> (snapshot_error, snapshot_footer) result \<times> snapshot_reader"
where
  "read_footer cdc r =
     (if length (sr_rest r) < 64
      then (Inl (SnapIoError ''failed to fill whole buffer''), r\<lparr>sr_rest := []\<rparr>)
      else let footer_bytes = take 64 (sr_rest r); r1 = r\<lparr>sr_rest := drop 64 (sr_rest r)\<rparr>;
               footer = \<lparr>end_marker = take 10 footer_bytes, total_checksum = take 32 (drop 10 footer_bytes)\<rparr>
           in if \<not> verify_end_marker footer then (Inl InvalidEndMarker, r1)
              else if sha256 cdc (sr_hasher r) \<noteq> total_checksum footer then (Inl SnapChecksumMismatch, r1)
              else (Inr footer, r1))"

section \<open>Loading\<close>

text \<open>The loops of \<open>load_snapshot\<close>; each returns with the error of the first step that fails.\<close>

primrec load_documents ::
  "nat \<Rightarrow> snapshot_codec \<Rightarrow> string \<Rightarrow> snapshot_reader \<Rightarrow> persistent_layer \<Rightarrow>
   (snapshot_error, unit) result \<times> snapshot_reader \<times> persistent_layer"
where
  "load_documents 0 cdc name r p = (Inr (), r, p)"
| "load_documents (Suc n) cdc name r p =
     (case read_document cdc r of
        (Inl e, r1) \<Rightarrow> (Inl e, r1, p)
      | (Inr d, r1) \<Rightarrow>
          (case insert_document cdc p name (doc_id d) d of
             (p1, Inl e) \<Rightarrow> (Inl (SnapIoError e), r1, p1)
           | (p1, Inr _) \<Rightarrow> load_documents n cdc name r1 p1))"

primrec skip_indexes ::
  "nat \<Rightarrow> snapshot_codec \<Rightarrow> snapshot_reader \<Rightarrow> (snapshot_error, unit) result \<times> snapshot_reader"
where
  "skip_indexes 0 cdc r = (Inr (), r)"
| "skip_indexes (Suc n) cdc r =
     (case read_index cdc r of (Inl e, r1) \<Rightarrow> (Inl e, r1) | (Inr _, r1) \<Rightarrow> skip_indexes n cdc r1)"

primrec load_collections ::
  "nat \<Rightarrow> snapshot_codec \<Rightarrow> snapshot_reader \<Rightarrow> persistent_layer \<Rightarrow>
   (snapshot_error, unit) result \<times> snapshot_reader \<times> persistent_layer"
where
  "load_collections 0 cdc r p = (Inr (), r, p)"
| "load_collections (Suc n) cdc r p =
     (case read_collection_header cdc r of
        (Inl e, r1) \<Rightarrow> (Inl e, r1, p)
      | (Inr h, r1) \<Rightarrow>
          (case load_documents (unat (col_document_count h)) cdc (col_name h) r1 p of
             (Inl e, r2, p2) \<Rightarrow> (Inl e, r2, p2)
           | (Inr _, r2, p2) \<Rightarrow>
               (case skip_indexes (unat (col_index_count h)) cdc r2 of
                  (Inl e, r3) \<Rightarrow> (Inl e, r3, p2)
                | (Inr _, r3) \<Rightarrow> load_collections n cdc r3 p2)))"

text \<open>Everything of \<open>load_snapshot\<close> before the footer is read.\<close>

definition load_body ::
  "snapshot_codec \<Rightarrow> snapshot_reader \<Rightarrow> persistent_layer \<Rightarrow>
   (snapshot_error, u64) result \<times> snapshot_reader \<times> persistent_layer"
where
  "load_body cdc r p =
     (case read_header cdc r of
        (Inl e, r1) \<Rightarrow> (Inl e, r1, p)
      | (Inr h, r1) \<Rightarrow>
          (case read_metadata cdc r1 of
             (Inl e, r2) \<Rightarrow> (Inl e, r2, p)
           | (Inr m, r2) \<Rightarrow>
               (case load_collections (unat (collections_count m)) cdc r2 p of
                  (Inl e, r3, p3) \<Rightarrow> (Inl e, r3, p3)
                | (Inr _, r3, p3) \<Rightarrow> (Inr (hdr_sequence h), r3, p3))))"

definition load_from ::
  "snapshot_codec \<Rightarrow> snapshot_reader \<Rightarrow> persistent_layer \<Rightarrow>
   (snapshot_error, u64) result \<times> snapshot_reader \<times> persistent_layer"
where
  "load_from cdc r p =
     (case load_body cdc r p of
        (Inl e, r1, p1) \<Rightarrow> (Inl e, r1, p1)
      | (Inr s, r1, p1) \<Rightarrow>
          (case read_footer cdc r1 of
             (Inl e, r2) \<Rightarrow> (Inl e, r2, p1) | (Inr _, r2) \<Rightarrow> (Inr s, r2, p1)))"

definition load_snapshot ::
  "snapshot_codec \<Rightarrow> snap_files \<Rightarrow> string \<Rightarrow> persistent_layer \<Rightarrow>
   persistent_layer \<times> (snapshot_error, u64) result"
where
  "load_snapshot cdc files path p =
     (case reader_open files path of
        Inl e \<Rightarrow> (p, Inl e)
      | Inr r \<Rightarrow> (case load_from cdc r p of (res, _, p1) \<Rightarrow> (p1, res)))"

end
