(* ===== verification/Backup_Ved.thy ===== *)
theory Backup_Ved
  imports Snapshot_Ved Wal_Replay Stable_Sort
begin

text \<open>
  Backup and restore (\<open>veddb-core/src/backup.rs\<close>): backups as snapshot files with a metadata file
  beside each, retention of the five newest, restore, recovery to a point in time by the
  write-ahead log, and export and import of a collection. The disk is a list of directories and an
  association list of files; a directory is listed in the order of that list. Writing and removing
  a file succeed; the text forms of times, metadata and document lists (chrono, serde_json) are the
  fields of the argument \<open>bc\<close>. Each reading of the clock is an argument.
\<close>

section \<open>Paths\<close>

definition join_path :: "string \<Rightarrow> string \<Rightarrow> string" where
  "join_path d n = d @ ''/'' @ n"

text \<open>The part of a text after the last occurrence of a character, and the part before it.\<close>

definition after_last :: "char \<Rightarrow> string \<Rightarrow> string" where
  "after_last c s = rev (takeWhile (\<lambda>x. x \<noteq> c) (rev s))"

definition before_last :: "char \<Rightarrow> string \<Rightarrow> string" where
  "before_last c s = rev (tl (dropWhile (\<lambda>x. x \<noteq> c) (rev s)))"

definition file_name :: "string \<Rightarrow> string" where
  "file_name path = after_last CHR ''/'' path"

text \<open>A name that starts with its only dot has no extension.\<close>

definition has_extension :: "string \<Rightarrow> bool" where
  "has_extension name \<longleftrightarrow> name \<noteq> ''..'' \<and> CHR ''.'' \<in> set name \<and> before_last CHR ''.'' name \<noteq> []"

definition path_extension :: "string \<Rightarrow> string option" where
  "path_extension path =
     (let n = file_name path in if has_extension n then Some (after_last CHR ''.'' n) else None)"

definition file_stem :: "string \<Rightarrow> string" where
  "file_stem path = (let n = file_name path in if has_extension n then before_last CHR ''.'' n else n)"

definition with_extension :: "string \<Rightarrow> string \<Rightarrow> string" where
  "with_extension path ext =
     (if CHR ''/'' \<in> set path then join_path (before_last CHR ''/'' path) (file_stem path @ ''.'' @ ext)
      else file_stem path @ ''.'' @ ext)"

fun str_contains :: "string \<Rightarrow> string \<Rightarrow> bool" where
  "str_contains [] n = (n = [])"
| "str_contains (c # cs) n = (starts_with (c # cs) n \<or> str_contains cs n)"

section \<open>Disk\<close>

record disk_file =
  df_bytes :: bytes
  df_created :: utc_time

record disk =
  disk_dirs :: "string list"
  disk_files :: "(string \<times> disk_file) list"

definition file_exists :: "disk \<Rightarrow> string \<Rightarrow> bool" where
  "file_exists d path \<longleftrightarrow> map_of (disk_files d) path \<noteq> None"

definition file_content :: "disk \<Rightarrow> string \<Rightarrow> bytes option" where
  "file_content d path = map_option df_bytes (map_of (disk_files d) path)"

text \<open>Writing over a file keeps its time of creation.\<close>

definition disk_write :: "utc_time \<Rightarrow> disk \<Rightarrow> string \<Rightarrow> bytes \<Rightarrow> disk" where
  "disk_write now d path bs =
     d\<lparr>disk_files := al_put path
        \<lparr>df_bytes = bs, df_created = (case map_of (disk_files d) path of None \<Rightarrow> now | Some f \<Rightarrow> df_created f)\<rparr>
        (disk_files d)\<rparr>"

definition disk_remove :: "disk \<Rightarrow> string \<Rightarrow> disk" where
  "disk_remove d path = d\<lparr>disk_files := al_del path (disk_files d)\<rparr>"

definition disk_rename :: "disk \<Rightarrow> string \<Rightarrow> string \<Rightarrow> disk" where
  "disk_rename d a b =
     (case map_of (disk_files d) a of
        None \<Rightarrow> d | Some f \<Rightarrow> d\<lparr>disk_files := al_put b f (al_del a (disk_files d))\<rparr>)"

definition create_dir :: "disk \<Rightarrow> string \<Rightarrow> disk" where
  "create_dir d path = (if path \<in> set (disk_dirs d) then d else d\<lparr>disk_dirs := disk_dirs d @ [path]\<rparr>)"

definition read_dir :: "disk \<Rightarrow> string \<Rightarrow> string list" where
  "read_dir d path = filter (\<lambda>f. f = join_path path (file_name f)) (map fst (disk_files d))"

section \<open>Backups\<close>

record backup_config =
  include_wal :: bool
  compress :: bool
  backup_dir :: string

definition backup_config_default :: backup_config where
  "backup_config_default = \<lparr>include_wal = True, compress = True, backup_dir = ''./backups''\<rparr>"

record backup_info =
  backup_id :: string
  info_created_at :: utc_time
  info_wal_sequence :: u64
  file_path :: string
  info_size_bytes :: nat
  includes_wal :: bool
  compressed :: bool

record backup_codec =
  time_stamp :: "utc_time \<Rightarrow> string"
  info_to_string :: "backup_info \<Rightarrow> (string, bytes) result"
  info_from_str :: "bytes \<Rightarrow> (string, backup_info) result"
  docs_to_string :: "bool \<Rightarrow> document list \<Rightarrow> (string, bytes) result"
  docs_from_str :: "bytes \<Rightarrow> (string, document list) result"

text \<open>Times are ordered by seconds and then nanoseconds.\<close>

definition utc_le :: "utc_time \<Rightarrow> utc_time \<Rightarrow> bool" where
  "utc_le a b \<longleftrightarrow> utc_secs a < utc_secs b \<or> (utc_secs a = utc_secs b \<and> utc_nanos a \<le> utc_nanos b)"

definition load_backup_metadata :: "backup_codec \<Rightarrow> disk \<Rightarrow> string \<Rightarrow> (string, backup_info) result" where
  "load_backup_metadata bc d path =
     (case file_content d (with_extension path ''meta'') of
        None \<Rightarrow> Inl ''No such file or directory'' | Some bs \<Rightarrow> info_from_str bc bs)"

definition save_backup_metadata ::
  "backup_codec \<Rightarrow> utc_time \<Rightarrow> disk \<Rightarrow> backup_info \<Rightarrow> disk \<times> (string, unit) result"
where
  "save_backup_metadata bc now d info =
     (case info_to_string bc info of
        Inl e \<Rightarrow> (d, Inl e)
      | Inr bs \<Rightarrow> (disk_write now d (with_extension (file_path info) ''meta'') bs, Inr ()))"

definition is_backup_name :: "string \<Rightarrow> bool" where
  "is_backup_name path \<longleftrightarrow> path_extension path = Some ''veddb'' \<or> path_extension path = Some ''gz''"

text \<open>The entry of the list for a file: its metadata, or what the file itself says.\<close>

definition backup_entry :: "backup_codec \<Rightarrow> disk \<Rightarrow> string \<Rightarrow> backup_info" where
  "backup_entry bc d path =
     (case load_backup_metadata bc d path of
        Inr info \<Rightarrow> info
      | Inl _ \<Rightarrow>
          \<lparr>backup_id = file_stem path,
           info_created_at = (case map_of (disk_files d) path of
              None \<Rightarrow> \<lparr>utc_secs = 0, utc_nanos = 0\<rparr> | Some f \<Rightarrow> df_created f),
           info_wal_sequence = 0, file_path = path,
           info_size_bytes = (case file_content d path of None \<Rightarrow> 0 | Some bs \<Rightarrow> length bs),
           includes_wal = False, compressed = False\<rparr>)"

definition list_backups :: "backup_config \<Rightarrow> backup_codec \<Rightarrow> disk \<Rightarrow> backup_info list" where
  "list_backups cfg bc d =
     (if backup_dir cfg \<notin> set (disk_dirs d) then []
      else sort_by (\<lambda>a b. utc_le (info_created_at b) (info_created_at a))
             (map (backup_entry bc d) (filter is_backup_name (read_dir d (backup_dir cfg)))))"

definition MAX_BACKUPS :: nat where
  "MAX_BACKUPS = 5"

definition delete_backup :: "disk \<Rightarrow> backup_info \<Rightarrow> disk" where
  "delete_backup d b = disk_remove (disk_remove d (file_path b)) (with_extension (file_path b) ''meta'')"

definition cleanup_old_backups :: "backup_config \<Rightarrow> backup_codec \<Rightarrow> disk \<Rightarrow> disk \<times> nat" where
  "cleanup_old_backups cfg bc d =
     (let backups = filter (\<lambda>b. \<not> str_contains (file_path b) ''.tmp'') (list_backups cfg bc d)
      in if length backups \<le> MAX_BACKUPS then (d, 0)
         else let sorted_backups = sort_by (\<lambda>a b. utc_le (info_created_at a) (info_created_at b)) backups;
                  to_delete = length backups - MAX_BACKUPS
              in (foldl delete_backup d (take to_delete sorted_backups), to_delete))"

definition backup_filename :: "backup_config \<Rightarrow> string \<Rightarrow> string" where
  "backup_filename cfg bid = bid @ (if compress cfg then ''.veddb.gz'' else ''.veddb'')"

text \<open>
  \<open>create_backup\<close>, with the three readings of the clock: for the id, for the header of the snapshot
  and for the metadata. \<open>None\<close> is a panic of the snapshot writer.
\<close>

definition create_backup ::
  "backup_config \<Rightarrow> snapshot_codec \<Rightarrow> backup_codec \<Rightarrow> utc_time \<Rightarrow> utc_time \<Rightarrow> utc_time \<Rightarrow>
   disk \<Rightarrow> persistent_layer \<Rightarrow> u64 \<Rightarrow> disk \<times> (string, backup_info) result option"
where
  "create_backup cfg cdc bc now1 now2 now3 d0 p wal_sequence =
     (let bid = ''backup_'' @ time_stamp bc now1;
          d1 = create_dir d0 (backup_dir cfg);
          filename = backup_filename cfg bid;
          temp_path = join_path (backup_dir cfg) (filename @ ''.tmp'');
          final_path = join_path (backup_dir cfg) filename;
          (file, outcome) = create_snapshot cdc now2 p temp_path wal_sequence;
          d2 = disk_write now2 d1 temp_path file
      in case outcome of
           None \<Rightarrow> (d2, None)
         | Some (Inl e) \<Rightarrow> (d2, Some (Inl ''Failed to create snapshot''))
         | Some (Inr _) \<Rightarrow>
             (let info = \<lparr>backup_id = bid, info_created_at = now3, info_wal_sequence = wal_sequence,
                    file_path = final_path, info_size_bytes = length file,
                    includes_wal = include_wal cfg, compressed = compress cfg\<rparr>;
                  temp_meta = with_extension temp_path ''meta.tmp'';
                  final_meta = with_extension final_path ''meta''
              in case info_to_string bc info of
                   Inl e \<Rightarrow> (d2, Some (Inl e))
                 | Inr meta \<Rightarrow>
                     (let d3 = disk_write now3 d2 temp_meta meta;
                          d4 = disk_rename d3 temp_path final_path;
                          d5 = disk_rename d4 temp_meta final_meta
                      in (fst (cleanup_old_backups cfg bc d5), Some (Inr info)))))"

definition disk_snap_files :: "disk \<Rightarrow> snap_files" where
  "disk_snap_files d = map (\<lambda>(n, f). (n, df_bytes f)) (disk_files d)"

definition restore_backup ::
  "snapshot_codec \<Rightarrow> disk \<Rightarrow> string \<Rightarrow> persistent_layer \<Rightarrow> persistent_layer \<times> (string, u64) result"
where
  "restore_backup cdc d path p =
     (if \<not> file_exists d path then (p, Inl ''Backup file not found'')
      else case load_snapshot cdc (disk_snap_files d) path p of
             (p1, Inl e) \<Rightarrow> (p1, Inl ''Failed to load snapshot'') | (p1, Inr s) \<Rightarrow> (p1, Inr s))"

text \<open>Only the header is read.\<close>

definition verify_backup :: "snapshot_codec \<Rightarrow> disk \<Rightarrow> string \<Rightarrow> (string, bool) result" where
  "verify_backup cdc d path =
     (case reader_open (disk_snap_files d) path of
        Inl e \<Rightarrow> Inl ''Cannot open backup file''
      | Inr r \<Rightarrow>
          (case fst (read_header cdc r) of
             Inr _ \<Rightarrow> Inr True
           | Inl SnapChecksumMismatch \<Rightarrow> Inr False
           | Inl InvalidMagic \<Rightarrow> Inr False
           | Inl e \<Rightarrow> Inl ''Backup verification failed''))"

section \<open>Recovery to a point in time\<close>

definition wal_sequence_of :: "string \<Rightarrow> nat option" where
  "wal_sequence_of name =
     (if path_extension name = Some ''wal'' \<and> starts_with (file_stem name) ''wal-''
      then parse_u64 (drop 4 (file_stem name)) else None)"

definition find_wal_files_after :: "wal_dir \<Rightarrow> u64 \<Rightarrow> string list" where
  "find_wal_files_after d s =
     sort (filter (\<lambda>n. case wal_sequence_of n of None \<Rightarrow> False | Some k \<Rightarrow> unat s < k) (map fst d))"

text \<open>
  What one log file does to the replay: it returns, with an error or because the target time is
  passed, or it goes on with the last time and sequence number seen.
\<close>

datatype pitr_flow = PitrReturn "(string, unit) result" | PitrGo "int option" u64

function pitr_file ::
  "'s wal_codec \<Rightarrow> 's replay_codec \<Rightarrow> int \<Rightarrow> int \<Rightarrow> bytes \<Rightarrow> int option \<Rightarrow> u64 \<Rightarrow> persistent_layer \<Rightarrow>
   persistent_layer \<times> pitr_flow"
where
  "pitr_file cdc rc now target bs last_ts last_seq p =
     (case next_entry cdc bs of
        (Inl err, rest) \<Rightarrow> (p, PitrReturn (Inl ''Failed to read WAL entry''))
      | (Inr None, rest) \<Rightarrow> (p, PitrGo last_ts last_seq)
      | (Inr (Some e), rest) \<Rightarrow>
          if target < entry_time e then (p, PitrReturn (Inr ()))
          else if (case last_ts of None \<Rightarrow> False | Some t \<Rightarrow> entry_time e < t)
               then (p, PitrReturn (Inl ''TIMESTAMP AMBIGUITY DETECTED''))
          else if entry_seq e \<le> last_seq then (p, PitrReturn (Inl ''NON-MONOTONIC WAL SEQUENCE DETECTED''))
          else case apply_operation rc now p (entry_op e) of
                 (p1, Inl m) \<Rightarrow> (p1, PitrReturn (Inl ''Failed to apply WAL operation''))
               | (p1, Inr _) \<Rightarrow> pitr_file cdc rc now target rest (Some (entry_time e)) (entry_seq e) p1)"
  by pat_completeness auto
termination
  by (relation "measure (\<lambda>(cdc, rc, now, target, bs, ts, s, p). length bs)")
    (auto dest: next_entry_shorter [OF sym])

declare pitr_file.simps [simp del]

fun pitr_files ::
  "'s wal_codec \<Rightarrow> 's replay_codec \<Rightarrow> int \<Rightarrow> int \<Rightarrow> wal_dir \<Rightarrow> string list \<Rightarrow> int option \<Rightarrow> u64 \<Rightarrow>
   persistent_layer \<Rightarrow> persistent_layer \<times> (string, unit) result"
where
  "pitr_files cdc rc now target d [] last_ts last_seq p = (p, Inr ())"
| "pitr_files cdc rc now target d (n # ns) last_ts last_seq p =
     (case map_of d n of
        None \<Rightarrow> (p, Inl ''Failed to open WAL file'')
      | Some f \<Rightarrow>
          (case pitr_file cdc rc now target (file_bytes f) last_ts last_seq p of
             (p1, PitrReturn r) \<Rightarrow> (p1, r)
           | (p1, PitrGo ts s) \<Rightarrow> pitr_files cdc rc now target d ns ts s p1))"

definition replay_wal_to_time ::
  "'s wal_codec \<Rightarrow> 's replay_codec \<Rightarrow> int \<Rightarrow> wal_dir \<Rightarrow> u64 \<Rightarrow> int \<Rightarrow> persistent_layer \<Rightarrow>
   persistent_layer \<times> (string, unit) result"
where
  "replay_wal_to_time cdc rc now d from_sequence target p =
     pitr_files cdc rc now target d (find_wal_files_after d from_sequence) None from_sequence p"

definition point_in_time_recovery ::
  "snapshot_codec \<Rightarrow> 's wal_codec \<Rightarrow> 's replay_codec \<Rightarrow> int \<Rightarrow> disk \<Rightarrow> string \<Rightarrow> int \<Rightarrow> wal_dir \<Rightarrow>
   persistent_layer \<Rightarrow> persistent_layer \<times> (string, unit) result"
where
  "point_in_time_recovery scdc cdc rc now d path target wd p =
     (case restore_backup scdc d path p of
        (p1, Inl e) \<Rightarrow> (p1, Inl e)
      | (p1, Inr s) \<Rightarrow> replay_wal_to_time cdc rc now wd s target p1)"

section \<open>Export and import\<close>

definition export_collection ::
  "snapshot_codec \<Rightarrow> backup_codec \<Rightarrow> utc_time \<Rightarrow> disk \<Rightarrow> persistent_layer \<Rightarrow> string \<Rightarrow> string \<Rightarrow> bool \<Rightarrow>
   disk \<times> (string, u64) result"
where
  "export_collection cdc bc now d p coll path pretty =
     (case scan_collection cdc p coll of
        Inl e \<Rightarrow> (d, Inl ''Failed to scan collection'')
      | Inr ds \<Rightarrow>
          (case docs_to_string bc pretty ds of
             Inl e \<Rightarrow> (d, Inl e)
           | Inr json \<Rightarrow> (disk_write now d path json, Inr (of_nat (length ds)))))"

fun import_loop ::
  "snapshot_codec \<Rightarrow> string \<Rightarrow> document list \<Rightarrow> u64 \<Rightarrow> persistent_layer \<Rightarrow> persistent_layer \<times> (string, u64) result"
where
  "import_loop cdc coll [] n p = (p, Inr n)"
| "import_loop cdc coll (d # ds) n p =
     (case insert_document cdc p coll (doc_id d) d of
        (p1, Inl e) \<Rightarrow> (p1, Inl ''Failed to insert document'')
      | (p1, Inr _) \<Rightarrow> import_loop cdc coll ds (n + 1) p1)"

definition import_collection ::
  "snapshot_codec \<Rightarrow> backup_codec \<Rightarrow> disk \<Rightarrow> persistent_layer \<Rightarrow> string \<Rightarrow> string \<Rightarrow> bool \<Rightarrow>
   persistent_layer \<times> (string, u64) result"
where
  "import_collection cdc bc d p coll path replace =
     (case file_content d path of
        None \<Rightarrow> (p, Inl ''No such file or directory'')
      | Some json \<Rightarrow>
          (case docs_from_str bc json of
             Inl e \<Rightarrow> (p, Inl e)
           | Inr ds \<Rightarrow>
               if replace
               then (case drop_collection cdc p coll of
                       (p1, Inl e) \<Rightarrow> (p1, Inl ''Failed to drop collection'')
                     | (p1, Inr _) \<Rightarrow> import_loop cdc coll ds 0 p1)
               else import_loop cdc coll ds 0 p))"

end
