(* ===== verification/Replication_Ved.thy ===== *)
theory Replication_Ved
  imports Backup_Ved Index_Metadata
begin

text \<open>
  Messages, connections and synchronization of the replication system
  (\<open>veddb-core/src/replication/message.rs\<close>, \<open>veddb-core/src/replication/connection.rs\<close>,
  \<open>veddb-core/src/replication/sync.rs\<close>, \<open>veddb-core/src/replication/mod.rs\<close>). JSON (serde_json) and
  zstd are code outside the repository: they are the fields of the argument \<open>rp\<close>.

  A connection is the bytes that the peer sends in time, whether the peer closes the stream after
  them, and the bytes sent to it. A read that wants more bytes than there are fails: with an I/O
  error on a closed stream, with the timeout of thirty seconds on an open one. Sending succeeds.
\<close>

section \<open>Messages\<close>

datatype ack_status = AckSuccess | AckFailed | AckPartial

datatype error_code =
    InvalidMessage | AuthenticationFailed | SequenceError | SnapshotCorrupted | WalCorrupted
  | InternalError | SlaveLimitCode | TimeoutCode

datatype 's replication_message =
    SyncRequest u64 string
  | FullSync snapshot_header bytes
  | IncrementalSync "'s wal_entry list"
  | Heartbeat utc_time u64
  | Ack u64 ack_status
  | ErrorMessage error_code string
  | PromoteToMaster string
  | MasterShutdown string

datatype replication_error =
    ReplIoError
  | ReplSerializationError string
  | ReplDeserializationError string
  | ReplConnectionError string
  | ProtocolError string
  | ReplTimeout
  | InvalidMessageType string
  | SlaveLimit nat
  | NotMaster
  | NotSlave
  | NotConfigured
  | ReplSnapshotError snapshot_error
  | ReplWalError string
  | ReplStorageError string

record 's repl_codec =
  message_to_vec :: "'s replication_message \<Rightarrow> (string, bytes) result"
  message_from_slice :: "bytes \<Rightarrow> (string, 's replication_message) result"
  zstd_compress :: "bytes \<Rightarrow> (string, bytes) result"
  zstd_decompress :: "nat \<Rightarrow> bytes \<Rightarrow> (string, bytes) result"

fun message_type :: "'s replication_message \<Rightarrow> string" where
  "message_type (SyncRequest _ _) = ''SyncRequest''"
| "message_type (FullSync _ _) = ''FullSync''"
| "message_type (IncrementalSync _) = ''IncrementalSync''"
| "message_type (Heartbeat _ _) = ''Heartbeat''"
| "message_type (Ack _ _) = ''Ack''"
| "message_type (ErrorMessage _ _) = ''Error''"
| "message_type (PromoteToMaster _) = ''PromoteToMaster''"
| "message_type (MasterShutdown _) = ''MasterShutdown''"

fun is_control_message :: "'s replication_message \<Rightarrow> bool" where
  "is_control_message (SyncRequest _ _) = False"
| "is_control_message (FullSync _ _) = False"
| "is_control_message (IncrementalSync _) = False"
| "is_control_message _ = True"

fun error_description :: "error_code \<Rightarrow> string" where
  "error_description InvalidMessage = ''Invalid message format''"
| "error_description AuthenticationFailed = ''Authentication failed''"
| "error_description SequenceError = ''Sequence number out of order''"
| "error_description SnapshotCorrupted = ''Snapshot data is corrupted''"
| "error_description WalCorrupted = ''WAL entry is corrupted''"
| "error_description InternalError = ''Internal server error''"
| "error_description SlaveLimitCode = ''Maximum number of slaves exceeded''"
| "error_description TimeoutCode = ''Operation timed out''"

definition to_bytes :: "'s repl_codec \<Rightarrow> 's replication_message \<Rightarrow> (replication_error, bytes) result" where
  "to_bytes rp m = map_sum ReplSerializationError id (message_to_vec rp m)"

definition from_bytes :: "'s repl_codec \<Rightarrow> bytes \<Rightarrow> (replication_error, 's replication_message) result" where
  "from_bytes rp bs = map_sum ReplDeserializationError id (message_from_slice rp bs)"

definition heartbeat :: "utc_time \<Rightarrow> u64 \<Rightarrow> 's replication_message" where
  "heartbeat now s = Heartbeat now s"

definition ack_success :: "u64 \<Rightarrow> 's replication_message" where
  "ack_success s = Ack s AckSuccess"

definition ack_failed :: "u64 \<Rightarrow> 's replication_message" where
  "ack_failed s = Ack s AckFailed"

definition error_message :: "error_code \<Rightarrow> string \<Rightarrow> 's replication_message" where
  "error_message code m = ErrorMessage code m"

section \<open>Connections\<close>

record repl_connection =
  conn_in :: bytes
  conn_closed :: bool
  conn_out :: bytes
  repl_peer_addr :: string
  repl_connection_id :: string

definition send_message ::
  "'s repl_codec \<Rightarrow> repl_connection \<Rightarrow> 's replication_message \<Rightarrow> repl_connection \<times> (replication_error, unit) result"
where
  "send_message rp c m =
     (case to_bytes rp m of
        Inl e \<Rightarrow> (c, Inl e)
      | Inr bs \<Rightarrow> (c\<lparr>conn_out := conn_out c @ u32_to_le (of_nat (length bs)) @ bs\<rparr>, Inr ()))"

definition MAX_MESSAGE :: nat where
  "MAX_MESSAGE = 100 * 1024 * 1024"

definition short_read :: "repl_connection \<Rightarrow> replication_error" where
  "short_read c = (if conn_closed c then ReplIoError else ReplTimeout)"

definition receive_message ::
  "'s repl_codec \<Rightarrow> repl_connection \<Rightarrow> repl_connection \<times> (replication_error, 's replication_message) result"
where
  "receive_message rp c =
     (if length (conn_in c) < 4 then (c\<lparr>conn_in := []\<rparr>, Inl (short_read c))
      else let len = unat (u32_from_le (take 4 (conn_in c))); rest = drop 4 (conn_in c)
           in if MAX_MESSAGE < len then (c\<lparr>conn_in := rest\<rparr>, Inl ReplIoError)
              else if length rest < len then (c\<lparr>conn_in := []\<rparr>, Inl (short_read c))
              else (c\<lparr>conn_in := drop len rest\<rparr>, from_bytes rp (take len rest)))"

definition is_alive :: "'s repl_codec \<Rightarrow> utc_time \<Rightarrow> repl_connection \<Rightarrow> repl_connection \<times> bool" where
  "is_alive rp now c = (case send_message rp c (heartbeat now 0) of (c1, Inl _) \<Rightarrow> (c1, False) | (c1, Inr _) \<Rightarrow> (c1, True))"

section \<open>Slaves of a master\<close>

text \<open>
  The handle of a slave: what was put into its channel, in order, and whether its task has ended; a
  send to an ended task fails.
\<close>

record 's slave_handle =
  sh_connection_id :: string
  sh_peer_addr :: string
  sh_sent :: "'s replication_message list"
  sh_finished :: bool

record 's slave_manager =
  sm_connections :: "'s slave_handle list"
  sm_max_slaves :: nat

record slave_info =
  si_connection_id :: string
  si_peer_addr :: string
  si_connected :: bool

definition slave_manager_new :: "nat \<Rightarrow> 's slave_manager" where
  "slave_manager_new n = \<lparr>sm_connections = [], sm_max_slaves = n\<rparr>"

definition add_slave ::
  "'s slave_manager \<Rightarrow> repl_connection \<Rightarrow> 's slave_manager \<times> (replication_error, unit) result"
where
  "add_slave m c =
     (if sm_max_slaves m \<le> length (sm_connections m) then (m, Inl (SlaveLimit (sm_max_slaves m)))
      else (m\<lparr>sm_connections := sm_connections m @
              [\<lparr>sh_connection_id = repl_connection_id c, sh_peer_addr = repl_peer_addr c, sh_sent = [], sh_finished = False\<rparr>]\<rparr>,
            Inr ()))"

definition send_to_slave :: "'s replication_message \<Rightarrow> 's slave_handle \<Rightarrow> 's slave_handle \<times> bool" where
  "send_to_slave m h = (if sh_finished h then (h, False) else (h\<lparr>sh_sent := sh_sent h @ [m]\<rparr>, True))"

definition broadcast_message :: "'s slave_manager \<Rightarrow> 's replication_message \<Rightarrow> 's slave_manager \<times> nat" where
  "broadcast_message m msg =
     (m\<lparr>sm_connections := map (fst \<circ> send_to_slave msg) (sm_connections m)\<rparr>,
      length (filter (snd \<circ> send_to_slave msg) (sm_connections m)))"

definition cleanup_disconnected :: "'s slave_manager \<Rightarrow> 's slave_manager" where
  "cleanup_disconnected m = m\<lparr>sm_connections := filter (\<lambda>h. \<not> sh_finished h) (sm_connections m)\<rparr>"

definition slave_count :: "'s slave_manager \<Rightarrow> nat" where
  "slave_count m = length (sm_connections m)"

definition get_slave_info :: "'s slave_manager \<Rightarrow> slave_info list" where
  "get_slave_info m = map (\<lambda>h. \<lparr>si_connection_id = sh_connection_id h, si_peer_addr = sh_peer_addr h,
     si_connected = \<not> sh_finished h\<rparr>) (sm_connections m)"

definition can_accept_more_slaves :: "'s slave_manager \<Rightarrow> bool" where
  "can_accept_more_slaves m \<longleftrightarrow> length (sm_connections m) < sm_max_slaves m"

definition healthy_slave_count :: "'s slave_manager \<Rightarrow> nat" where
  "healthy_slave_count m = length (filter (\<lambda>h. \<not> sh_finished h) (sm_connections m))"

fun remove_first :: "('a \<Rightarrow> bool) \<Rightarrow> 'a list \<Rightarrow> 'a list" where
  "remove_first P [] = []"
| "remove_first P (x # xs) = (if P x then xs else x # remove_first P xs)"

definition disconnect_slave :: "'s slave_manager \<Rightarrow> string \<Rightarrow> 's slave_manager \<times> bool" where
  "disconnect_slave m cid =
     (if list_ex (\<lambda>h. sh_connection_id h = cid) (sm_connections m)
      then (m\<lparr>sm_connections := remove_first (\<lambda>h. sh_connection_id h = cid) (sm_connections m)\<rparr>, True)
      else (m, False))"

text \<open>\<open>force_sync\<close> sends a heartbeat with the sequence number 0.\<close>

definition slaves_force_sync :: "utc_time \<Rightarrow> 's slave_manager \<Rightarrow> 's slave_manager \<times> nat" where
  "slaves_force_sync now m = broadcast_message m (heartbeat now 0)"

section \<open>The sync manager\<close>

record sync_manager =
  sync_sequence :: u64
  sync_lag :: u64
  sync_storage :: "hybrid_engine option"

definition sync_manager_new :: sync_manager where
  "sync_manager_new = \<lparr>sync_sequence = 0, sync_lag = 0, sync_storage = None\<rparr>"

definition sync_with_storage :: "hybrid_engine \<Rightarrow> sync_manager" where
  "sync_with_storage e = \<lparr>sync_sequence = 0, sync_lag = 0, sync_storage = Some e\<rparr>"

definition update_sequence :: "sync_manager \<Rightarrow> u64 \<Rightarrow> sync_manager" where
  "update_sequence m s = m\<lparr>sync_sequence := s\<rparr>"

definition update_replication_lag :: "sync_manager \<Rightarrow> u64 \<Rightarrow> sync_manager" where
  "update_replication_lag m l = m\<lparr>sync_lag := l\<rparr>"

text \<open>Every file with the extension of the log, whatever the sequence number.\<close>

definition sync_wal_files :: "wal_dir \<Rightarrow> string list" where
  "sync_wal_files d = sort (filter (\<lambda>n. path_extension n = Some ''log'') (map fst d))"

fun entries_of_files :: "'s wal_codec \<Rightarrow> wal_dir \<Rightarrow> string list \<Rightarrow> (replication_error, 's wal_entry list) result" where
  "entries_of_files cdc d [] = Inr []"
| "entries_of_files cdc d (n # ns) =
     (case map_of d n of
        None \<Rightarrow> Inl (ReplWalError ''file not found'')
      | Some f \<Rightarrow>
          (case read_entries cdc (file_bytes f) of
             (es, Some e) \<Rightarrow> Inl (ReplWalError ''entry error'')
           | (es, None) \<Rightarrow>
               (case entries_of_files cdc d ns of Inl e \<Rightarrow> Inl e | Inr rest \<Rightarrow> Inr (es @ rest))))"

definition get_wal_entries_since ::
  "'s wal_codec \<Rightarrow> wal_dir \<Rightarrow> u64 \<Rightarrow> (replication_error, 's wal_entry list) result"
where
  "get_wal_entries_since cdc d from_sequence =
     (case entries_of_files cdc d (sync_wal_files d) of
        Inl e \<Rightarrow> Inl e
      | Inr es \<Rightarrow> Inr (sort_by (\<lambda>a b. entry_seq a \<le> entry_seq b) (filter (\<lambda>e. from_sequence < entry_seq e) es)))"

definition get_available_wal_range ::
  "'s wal_codec \<Rightarrow> wal_dir \<Rightarrow> sync_manager \<Rightarrow> (replication_error, u64 \<times> u64) result"
where
  "get_available_wal_range cdc d m =
     (case sync_wal_files d of
        [] \<Rightarrow> Inr (0, 0)
      | n # _ \<Rightarrow>
          (case map_of d n of
             None \<Rightarrow> Inl (ReplWalError ''file not found'')
           | Some f \<Rightarrow>
               (case fst (next_entry cdc (file_bytes f)) of
                  Inl e \<Rightarrow> Inl (ReplWalError ''entry error'')
                | Inr None \<Rightarrow> Inr (0, sync_sequence m)
                | Inr (Some e) \<Rightarrow> Inr (entry_seq e, sync_sequence m))))"

text \<open>The sum wraps around, as in a release build.\<close>

definition needs_full_sync :: "'s wal_codec \<Rightarrow> wal_dir \<Rightarrow> sync_manager \<Rightarrow> u64 \<Rightarrow> (replication_error, bool) result" where
  "needs_full_sync cdc d m slave_sequence =
     (if slave_sequence + 10000 < sync_sequence m then Inr True
      else case get_available_wal_range cdc d m of
             Inl e \<Rightarrow> Inl e | Inr (lo, hi) \<Rightarrow> Inr (slave_sequence < lo))"

text \<open>The snapshot for a slave: the file and its header; a panic of the writer is \<open>None\<close>.\<close>

definition create_temp_snapshot ::
  "snapshot_codec \<Rightarrow> utc_time \<Rightarrow> sync_manager \<Rightarrow> sync_manager \<times> (replication_error, bytes) result option"
where
  "create_temp_snapshot scdc now m =
     (case sync_storage m of
        Some e \<Rightarrow>
          (let e1 = fst (hybrid_flush scdc e); m1 = m\<lparr>sync_storage := Some e1\<rparr>
           in case create_snapshot scdc now (he_persistent e1) ''temp_repl.veddb'' (sync_sequence m) of
                (file, None) \<Rightarrow> (m1, None)
              | (file, Some (Inl er)) \<Rightarrow> (m1, Some (Inl (ReplSnapshotError er)))
              | (file, Some (Inr _)) \<Rightarrow> (m1, Some (Inr file)))
      | None \<Rightarrow>
          (case write_header scdc (writer_create ''temp_repl.veddb'') (snapshot_header_new now (sync_sequence m)) of
             (w1, None) \<Rightarrow> (m, None)
           | (w1, Some (Inl er)) \<Rightarrow> (m, Some (Inl (ReplSnapshotError er)))
           | (w1, Some (Inr _)) \<Rightarrow>
               (case write_metadata scdc w1 snapshot_metadata_default of
                  (w2, Inl er) \<Rightarrow> (m, Some (Inl (ReplSnapshotError er)))
                | (w2, Inr _) \<Rightarrow> (m, Some (Inr (sw_file (finalize_snapshot scdc w2)))))))"

text \<open>What the master waits for after it has sent data.\<close>

definition expect_ack ::
  "'s repl_codec \<Rightarrow> repl_connection \<Rightarrow> string \<Rightarrow> repl_connection \<times> (replication_error, unit) result"
where
  "expect_ack rp c failure =
     (case receive_message rp c of
        (c1, Inl e) \<Rightarrow> (c1, Inl e)
      | (c1, Inr (Ack s st)) \<Rightarrow> (c1, if st = AckSuccess then Inr () else Inl (ProtocolError failure))
      | (c1, Inr _) \<Rightarrow> (c1, Inl (ProtocolError ''Expected ACK message'')))"

definition perform_full_sync ::
  "snapshot_codec \<Rightarrow> 's repl_codec \<Rightarrow> utc_time \<Rightarrow> sync_manager \<Rightarrow> repl_connection \<Rightarrow>
   sync_manager \<times> repl_connection \<times> (replication_error, unit) result option"
where
  "perform_full_sync scdc rp now m c =
     (case create_temp_snapshot scdc now m of
        (m1, None) \<Rightarrow> (m1, c, None)
      | (m1, Some (Inl e)) \<Rightarrow> (m1, c, Some (Inl e))
      | (m1, Some (Inr file)) \<Rightarrow>
          (case fst (read_header scdc (reader_on file)) of
             Inl e \<Rightarrow> (m1, c, Some (Inl (ReplSnapshotError e)))
           | Inr header \<Rightarrow>
               (case zstd_compress rp file of
                  Inl e \<Rightarrow> (m1, c, Some (Inl (ReplSerializationError e)))
                | Inr snapshot_data \<Rightarrow>
                    (case send_message rp c (FullSync header snapshot_data) of
                       (c1, Inl e) \<Rightarrow> (m1, c1, Some (Inl e))
                     | (c1, Inr _) \<Rightarrow>
                         (case expect_ack rp c1 ''Full sync failed on slave'' of (c2, r) \<Rightarrow> (m1, c2, Some r))))))"

definition perform_incremental_sync ::
  "'s wal_codec \<Rightarrow> 's repl_codec \<Rightarrow> wal_dir \<Rightarrow> repl_connection \<Rightarrow> u64 \<Rightarrow>
   repl_connection \<times> (replication_error, unit) result"
where
  "perform_incremental_sync cdc rp d c from_sequence =
     (case get_wal_entries_since cdc d from_sequence of
        Inl e \<Rightarrow> (c, Inl e)
      | Inr entries \<Rightarrow>
          if entries = [] then (c, Inr ())
          else case send_message rp c (IncrementalSync entries) of
                 (c1, Inl e) \<Rightarrow> (c1, Inl e)
               | (c1, Inr _) \<Rightarrow> expect_ack rp c1 ''Incremental sync failed on slave'')"

section \<open>Applying on a slave\<close>

text \<open>The fields of an index that can be replicated; the other kinds are skipped.\<close>

definition replicated_fields :: "Wal_Entry.index_definition \<Rightarrow> index_field list option" where
  "replicated_fields i =
     (case Wal_Entry.index_type_of i of
        Wal_Entry.Single f \<Rightarrow> Some [\<lparr>if_field = f, if_direction = 1\<rparr>]
      | Wal_Entry.Compound fs \<Rightarrow> Some (map (\<lambda>f. \<lparr>if_field = f, if_direction = 1\<rparr>) fs)
      | _ \<Rightarrow> None)"

definition replicate_index ::
  "index_codec \<Rightarrow> hybrid_engine \<Rightarrow> string \<Rightarrow> Wal_Entry.index_definition \<Rightarrow>
   hybrid_engine \<times> (replication_error, unit) result"
where
  "replicate_index ic e coll i =
     (case replicated_fields i of
        None \<Rightarrow> (e, Inr ())
      | Some flds \<Rightarrow>
          (case hybrid_create_index ic e coll (Wal_Entry.index_name i) flds (Wal_Entry.index_unique i) of
             (e1, Inl m) \<Rightarrow> (e1, Inl (ReplStorageError m)) | (e1, Inr _) \<Rightarrow> (e1, Inr ())))"

primrec restore_documents ::
  "nat \<Rightarrow> snapshot_codec \<Rightarrow> int \<Rightarrow> string \<Rightarrow> snapshot_reader \<Rightarrow> hybrid_engine \<Rightarrow>
   (replication_error, unit) result \<times> snapshot_reader \<times> hybrid_engine"
where
  "restore_documents 0 scdc now name r e = (Inr (), r, e)"
| "restore_documents (Suc n) scdc now name r e =
     (case read_document scdc r of
        (Inl er, r1) \<Rightarrow> (Inl (ReplSnapshotError er), r1, e)
      | (Inr d, r1) \<Rightarrow>
          (case hybrid_insert scdc now e name d of
             (e1, Inl m) \<Rightarrow> (Inl (ReplStorageError m), r1, e1)
           | (e1, Inr _) \<Rightarrow> restore_documents n scdc now name r1 e1))"

primrec restore_indexes ::
  "nat \<Rightarrow> snapshot_codec \<Rightarrow> index_codec \<Rightarrow> string \<Rightarrow> snapshot_reader \<Rightarrow> hybrid_engine \<Rightarrow>
   (replication_error, unit) result \<times> snapshot_reader \<times> hybrid_engine"
where
  "restore_indexes 0 scdc ic name r e = (Inr (), r, e)"
| "restore_indexes (Suc n) scdc ic name r e =
     (case read_index scdc r of
        (Inl er, r1) \<Rightarrow> (Inl (ReplSnapshotError er), r1, e)
      | (Inr i, r1) \<Rightarrow>
          (case replicate_index ic e name i of
             (e1, Inl er) \<Rightarrow> (Inl er, r1, e1) | (e1, Inr _) \<Rightarrow> restore_indexes n scdc ic name r1 e1))"

primrec restore_collections ::
  "nat \<Rightarrow> snapshot_codec \<Rightarrow> index_codec \<Rightarrow> int \<Rightarrow> snapshot_reader \<Rightarrow> hybrid_engine \<Rightarrow>
   (replication_error, unit) result \<times> snapshot_reader \<times> hybrid_engine"
where
  "restore_collections 0 scdc ic now r e = (Inr (), r, e)"
| "restore_collections (Suc n) scdc ic now r e =
     (case read_collection_header scdc r of
        (Inl er, r1) \<Rightarrow> (Inl (ReplSnapshotError er), r1, e)
      | (Inr h, r1) \<Rightarrow>
          (let e1 = fst (hybrid_create_collection scdc e (col_name h))
           in case restore_documents (unat (col_document_count h)) scdc now (col_name h) r1 e1 of
                (Inl er, r2, e2) \<Rightarrow> (Inl er, r2, e2)
              | (Inr _, r2, e2) \<Rightarrow>
                  (case restore_indexes (unat (col_index_count h)) scdc ic (col_name h) r2 e2 of
                     (Inl er, r3, e3) \<Rightarrow> (Inl er, r3, e3)
                   | (Inr _, r3, e3) \<Rightarrow> restore_collections n scdc ic now r3 e3)))"

definition apply_snapshot ::
  "snapshot_codec \<Rightarrow> index_codec \<Rightarrow> int \<Rightarrow> snapshot_reader \<Rightarrow> sync_manager \<Rightarrow>
   sync_manager \<times> (replication_error, unit) result"
where
  "apply_snapshot scdc ic now r m =
     (case sync_storage m of
        None \<Rightarrow> (m, Inr ())
      | Some e \<Rightarrow>
          (case read_header scdc r of
             (Inl er, _) \<Rightarrow> (m, Inl (ReplSnapshotError er))
           | (Inr h, r1) \<Rightarrow>
               (case read_metadata scdc r1 of
                  (Inl er, _) \<Rightarrow> (m, Inl (ReplSnapshotError er))
                | (Inr md, r2) \<Rightarrow>
                    (case restore_collections (unat (collections_count md)) scdc ic now r2 e of
                       (Inl er, _, e1) \<Rightarrow> (m\<lparr>sync_storage := Some e1\<rparr>, Inl er)
                     | (Inr _, r3, e1) \<Rightarrow>
                         (case fst (read_footer scdc r3) of
                            Inl er \<Rightarrow> (m\<lparr>sync_storage := Some e1\<rparr>, Inl (ReplSnapshotError er))
                          | Inr _ \<Rightarrow> (m\<lparr>sync_storage := Some (fst (hybrid_flush scdc e1))\<rparr>, Inr ()))))))"

definition apply_full_sync ::
  "snapshot_codec \<Rightarrow> index_codec \<Rightarrow> 's repl_codec \<Rightarrow> int \<Rightarrow> sync_manager \<Rightarrow> snapshot_header \<Rightarrow> bytes \<Rightarrow>
   sync_manager \<times> (replication_error, unit) result"
where
  "apply_full_sync scdc ic rp now m header snapshot_data =
     (case zstd_decompress rp (1024 * 1024 * 1024) snapshot_data of
        Inl e \<Rightarrow> (m, Inl (ReplDeserializationError e))
      | Inr file \<Rightarrow>
          (case apply_snapshot scdc ic now (reader_on file) m of
             (m1, Inl e) \<Rightarrow> (m1, Inl e)
           | (m1, Inr _) \<Rightarrow> (update_sequence m1 (hdr_sequence header), Inr ())))"

definition storage_result :: "hybrid_engine \<times> (string, 'a) result \<Rightarrow> hybrid_engine \<times> (replication_error, unit) result" where
  "storage_result r = (fst r, map_sum ReplStorageError (\<lambda>_. ()) (snd r))"

fun apply_wal_operation ::
  "snapshot_codec \<Rightarrow> index_codec \<Rightarrow> int \<Rightarrow> hybrid_engine \<Rightarrow> 's wal_operation \<Rightarrow>
   hybrid_engine \<times> (replication_error, unit) result"
where
  "apply_wal_operation scdc ic now e (Insert coll d) = storage_result (hybrid_insert scdc now e coll d)"
| "apply_wal_operation scdc ic now e (Update coll i changes) =
     (case hybrid_get scdc now e coll i of
        (e1, Inl m) \<Rightarrow> (e1, Inl (ReplStorageError m))
      | (e1, Inr None) \<Rightarrow> (e1, Inr ())
      | (e1, Inr (Some d)) \<Rightarrow> storage_result (hybrid_update scdc now e1 coll i (apply_changes now d changes)))"
| "apply_wal_operation scdc ic now e (wal_operation.Delete coll i) = (fst (hybrid_delete scdc now e coll i), Inr ())"
| "apply_wal_operation scdc ic now e (CreateCollection name schema) = storage_result (hybrid_create_collection scdc e name)"
| "apply_wal_operation scdc ic now e (DropCollection name) = storage_result (hybrid_drop_collection scdc e name)"
| "apply_wal_operation scdc ic now e (CreateIndex coll i) = replicate_index ic e coll i"
| "apply_wal_operation scdc ic now e (DropIndex coll name) = storage_result (hybrid_drop_index ic e coll name)"

definition apply_wal_entry ::
  "snapshot_codec \<Rightarrow> index_codec \<Rightarrow> int \<Rightarrow> sync_manager \<Rightarrow> 's wal_entry \<Rightarrow>
   sync_manager \<times> (replication_error, unit) result"
where
  "apply_wal_entry scdc ic now m e =
     (case sync_storage m of
        None \<Rightarrow> (m, Inr ())
      | Some st \<Rightarrow>
          (case apply_wal_operation scdc ic now st (entry_op e) of (st1, r) \<Rightarrow> (m\<lparr>sync_storage := Some st1\<rparr>, r)))"

text \<open>The loop of \<open>apply_incremental_sync\<close>: the last sequence number and time that it has seen.\<close>

fun apply_entries ::
  "'s wal_codec \<Rightarrow> snapshot_codec \<Rightarrow> index_codec \<Rightarrow> int \<Rightarrow> 's wal_entry list \<Rightarrow> sync_manager \<Rightarrow> u64 \<Rightarrow> int option \<Rightarrow>
   sync_manager \<times> (replication_error, u64 \<times> int option) result"
where
  "apply_entries cdc scdc ic now [] m last_seq last_ts = (m, Inr (last_seq, last_ts))"
| "apply_entries cdc scdc ic now (e # es) m last_seq last_ts =
     (case verify_checksum cdc e of
        Inl er \<Rightarrow> (m, Inl (ReplWalError ''checksum error''))
      | Inr False \<Rightarrow> (m, Inl (ReplWalError ''Checksum verification failed''))
      | Inr True \<Rightarrow>
          (case apply_wal_entry scdc ic now m e of
             (m1, Inl er) \<Rightarrow> (m1, Inl er)
           | (m1, Inr _) \<Rightarrow> apply_entries cdc scdc ic now es m1 (entry_seq e) (Some (entry_time e))))"

text \<open>The lag in milliseconds, from times in whole seconds.\<close>

definition apply_incremental_sync ::
  "'s wal_codec \<Rightarrow> snapshot_codec \<Rightarrow> index_codec \<Rightarrow> int \<Rightarrow> sync_manager \<Rightarrow> 's wal_entry list \<Rightarrow>
   sync_manager \<times> (replication_error, u64) result"
where
  "apply_incremental_sync cdc scdc ic now m entries =
     (case apply_entries cdc scdc ic now entries m 0 None of
        (m1, Inl e) \<Rightarrow> (m1, Inl e)
      | (m1, Inr (last_seq, last_ts)) \<Rightarrow>
          (let m2 = (if 0 < last_seq then update_sequence m1 last_seq else m1);
               m3 = (case last_ts of None \<Rightarrow> m2
                     | Some ts \<Rightarrow> update_replication_lag m2 (of_int (max 0 (1000 * (now - ts)))))
           in (m3, Inr last_seq)))"

end
