(* ===== verification/Replication_Manager.thy ===== *)
theory Replication_Manager
  imports Replication_Ved
begin

text \<open>
  The replication manager (\<open>veddb-core/src/replication/manager.rs\<close>,
  \<open>veddb-core/src/replication/manager_extensions.rs\<close>, the configuration of
  \<open>veddb-core/src/replication/mod.rs\<close> and the backoff of \<open>veddb-core/src/replication/connection.rs\<close>):
  a node is a master with connected slaves, or a slave with a task that follows a master. Spawned
  tasks are operations on the state; each iteration of a task gets the connection it works on. A
  call that has not returned yet has the result \<open>Running\<close>.
\<close>

section \<open>Configuration and state\<close>

datatype node_role = Master | Slave string

text \<open>Durations in nanoseconds; the multiplier is exact.\<close>

record backoff_config =
  bo_initial :: nat
  bo_max :: nat
  bo_multiplier :: rat

record exponential_backoff =
  bo_current :: nat
  bo_config :: backoff_config
  bo_attempts :: u32

definition backoff_config_default :: backoff_config where
  "backoff_config_default = \<lparr>bo_initial = 1000000000, bo_max = 60000000000, bo_multiplier = 2\<rparr>"

definition backoff_new :: "backoff_config \<Rightarrow> exponential_backoff" where
  "backoff_new cfg = \<lparr>bo_current = bo_initial cfg, bo_config = cfg, bo_attempts = 0\<rparr>"

definition backoff_next :: "exponential_backoff \<Rightarrow> exponential_backoff \<times> nat" where
  "backoff_next b =
     (b\<lparr>bo_attempts := bo_attempts b + 1,
        bo_current := min (nat (round (of_nat (bo_current b) * bo_multiplier (bo_config b)))) (bo_max (bo_config b))\<rparr>,
      bo_current b)"

definition backoff_reset :: "exponential_backoff \<Rightarrow> exponential_backoff" where
  "backoff_reset b = b\<lparr>bo_current := bo_initial (bo_config b), bo_attempts := 0\<rparr>"

record replication_config =
  rcfg_role :: node_role
  rcfg_max_slaves :: nat
  rcfg_bind_address :: string
  rcfg_slave_id_prefix :: string
  rcfg_timeout :: nat
  rcfg_heartbeat_interval :: nat
  rcfg_backoff_config :: backoff_config

definition replication_config_default :: replication_config where
  "replication_config_default =
     \<lparr>rcfg_role = Master, rcfg_max_slaves = 10, rcfg_bind_address = ''0.0.0.0:50052'', rcfg_slave_id_prefix = ''slave'',
      rcfg_timeout = 30000000000, rcfg_heartbeat_interval = 10000000000, rcfg_backoff_config = backoff_config_default\<rparr>"

record replication_stats =
  connected_slaves :: nat
  replication_lag_ms :: u64
  messages_sent :: u64
  messages_received :: u64
  reconnection_attempts :: u64
  last_sync :: "utc_time option"

definition replication_stats_default :: replication_stats where
  "replication_stats_default = \<lparr>connected_slaves = 0, replication_lag_ms = 0, messages_sent = 0,
     messages_received = 0, reconnection_attempts = 0, last_sync = None\<rparr>"

record 's repl_manager =
  rm_config :: replication_config
  rm_role :: node_role
  rm_sync :: sync_manager
  rm_stats :: replication_stats
  rm_slaves :: "'s slave_manager option"
  rm_master_connection :: "repl_connection option"
  rm_lag :: u64

definition repl_manager_new :: "replication_config \<Rightarrow> sync_manager \<Rightarrow> 's repl_manager" where
  "repl_manager_new cfg sync =
     \<lparr>rm_config = cfg, rm_role = rcfg_role cfg, rm_sync = sync, rm_stats = replication_stats_default,
      rm_slaves = None, rm_master_connection = None, rm_lag = 0\<rparr>"

text \<open>The codecs and the log directory of a node.\<close>

record 's repl_env =
  env_wal :: "'s wal_codec"
  env_snap :: snapshot_codec
  env_index :: index_codec
  env_repl :: "'s repl_codec"
  env_wal_dir :: wal_dir

section \<open>A master\<close>

definition start_master :: "'s repl_manager \<Rightarrow> 's repl_manager" where
  "start_master m = m\<lparr>rm_slaves := Some (slave_manager_new (rcfg_max_slaves (rm_config m)))\<rparr>"

text \<open>
  \<open>handle_new_slave\<close>: the request, the full or the incremental sync, the registration. The lookup
  of the new handle by the id of the slave only feeds a log message. \<open>None\<close> is a panic.
\<close>

definition sync_new_slave ::
  "'s repl_env \<Rightarrow> utc_time \<Rightarrow> sync_manager \<Rightarrow> repl_connection \<Rightarrow> u64 \<Rightarrow>
   sync_manager \<times> repl_connection \<times> (replication_error, unit) result option"
where
  "sync_new_slave env now sync c last_seq =
     (case needs_full_sync (env_wal env) (env_wal_dir env) sync last_seq of
        Inl e \<Rightarrow> (sync, c, Some (Inl e))
      | Inr full \<Rightarrow>
          if full then perform_full_sync (env_snap env) (env_repl env) now sync c
          else (case perform_incremental_sync (env_wal env) (env_repl env) (env_wal_dir env) c last_seq of
                  (c1, r) \<Rightarrow> (sync, c1, Some r)))"

definition handle_new_slave ::
  "'s repl_env \<Rightarrow> utc_time \<Rightarrow> 's slave_manager \<Rightarrow> 's repl_manager \<Rightarrow> repl_connection \<Rightarrow>
   's repl_manager \<times> repl_connection \<times> (replication_error, unit) result option"
where
  "handle_new_slave env now sm m c =
     (case receive_message (env_repl env) c of
        (c1, Inl e) \<Rightarrow> (m, c1, Some (Inl (ReplConnectionError ''receive'')))
      | (c1, Inr (SyncRequest last_seq slave_id)) \<Rightarrow>
          (case sync_new_slave env now (rm_sync m) c1 last_seq of
             (sync, c2, None) \<Rightarrow> (m\<lparr>rm_sync := sync\<rparr>, c2, None)
           | (sync, c2, Some (Inl e)) \<Rightarrow> (m\<lparr>rm_sync := sync\<rparr>, c2, Some (Inl e))
           | (sync, c2, Some (Inr _)) \<Rightarrow>
               (case add_slave sm c2 of
                  (sm1, Inl e) \<Rightarrow> (m\<lparr>rm_sync := sync, rm_slaves := Some sm1\<rparr>, c2, Some (Inl e))
                | (sm1, Inr _) \<Rightarrow>
                    (m\<lparr>rm_sync := sync, rm_slaves := Some sm1,
                       rm_stats := (rm_stats m)\<lparr>connected_slaves := slave_count sm1, last_sync := Some now\<rparr>\<rparr>,
                     c2, Some (Inr ()))))
      | (c1, Inr _) \<Rightarrow>
          (case send_message (env_repl env) c1 (error_message InvalidMessage ''Expected SyncRequest'') of
             (c2, Inl e) \<Rightarrow> (m, c2, Some (Inl e))
           | (c2, Inr _) \<Rightarrow> (m, c2, Some (Inl (ProtocolError ''Expected SyncRequest'')))))"

text \<open>One round of the accept loop of a master.\<close>

definition accept_slave ::
  "'s repl_env \<Rightarrow> utc_time \<Rightarrow> 's repl_manager \<Rightarrow> repl_connection \<Rightarrow> 's repl_manager \<times> repl_connection"
where
  "accept_slave env now m c =
     (case rm_slaves m of
        None \<Rightarrow> (m, c)
      | Some sm \<Rightarrow> (case handle_new_slave env now sm m c of (m1, c1, r) \<Rightarrow> (m1, c1)))"

definition cleanup_slaves :: "'s repl_manager \<Rightarrow> 's repl_manager" where
  "cleanup_slaves m = m\<lparr>rm_slaves := map_option cleanup_disconnected (rm_slaves m)\<rparr>"

definition broadcast_wal_entry ::
  "'s repl_manager \<Rightarrow> 's wal_entry \<Rightarrow> 's repl_manager \<times> (replication_error, unit) result"
where
  "broadcast_wal_entry m e =
     (if rm_role m \<noteq> Master then (m, Inl NotMaster)
      else case rm_slaves m of
             None \<Rightarrow> (m, Inr ())
           | Some sm \<Rightarrow>
               (case broadcast_message sm (IncrementalSync [e]) of
                  (sm1, n) \<Rightarrow>
                    (m\<lparr>rm_slaves := Some sm1, rm_stats := (rm_stats m)\<lparr>messages_sent := messages_sent (rm_stats m) + of_nat n\<rparr>\<rparr>,
                     Inr ())))"

section \<open>A slave\<close>

datatype 'a call_result = Running | Returned "(replication_error, 'a) result"

text \<open>
  What wakes the loop of a slave: a message of the master has come (with the time it takes to
  apply, in milliseconds), or the heartbeat is due. When the heartbeat is due in the middle of a
  message, the bytes of it that were already read are lost, since the read is dropped.
\<close>

datatype stream_event = MessageReady u64 | HeartbeatDue nat

definition stream_message ::
  "'s repl_env \<Rightarrow> int \<Rightarrow> utc_time \<Rightarrow> u64 \<Rightarrow> 's repl_manager \<Rightarrow> repl_connection \<Rightarrow>
   's repl_manager \<times> repl_connection \<times> replication_error option"
where
  "stream_message env now t elapsed m c =
     (case receive_message (env_repl env) c of
        (c1, Inl e) \<Rightarrow> (m, c1, Some e)
      | (c1, Inr (IncrementalSync entries)) \<Rightarrow>
          (case apply_incremental_sync (env_wal env) (env_snap env) (env_index env) now (rm_sync m) entries of
             (sync, Inl e) \<Rightarrow> (m\<lparr>rm_sync := sync\<rparr>, c1, Some e)
           | (sync, Inr last_seq) \<Rightarrow>
               (let m1 = m\<lparr>rm_sync := sync, rm_lag := elapsed\<rparr>
                in case send_message (env_repl env) c1 (ack_success last_seq) of
                     (c2, Inl e) \<Rightarrow> (m1, c2, Some e)
                   | (c2, Inr _) \<Rightarrow>
                       (m1\<lparr>rm_stats := (rm_stats m1)\<lparr>messages_received := messages_received (rm_stats m1) + 1,
                           replication_lag_ms := elapsed, last_sync := Some t\<rparr>\<rparr>, c2, None)))
      | (c1, Inr (Heartbeat ts s)) \<Rightarrow>
          (m\<lparr>rm_stats := (rm_stats m)\<lparr>messages_received := messages_received (rm_stats m) + 1\<rparr>\<rparr>, c1, None)
      | (c1, Inr (MasterShutdown reason)) \<Rightarrow> (m, c1, Some (ReplConnectionError ''Master shutdown''))
      | (c1, Inr _) \<Rightarrow> (m, c1, None))"

definition stream_heartbeat ::
  "'s repl_env \<Rightarrow> utc_time \<Rightarrow> nat \<Rightarrow> 's repl_manager \<Rightarrow> repl_connection \<Rightarrow>
   's repl_manager \<times> repl_connection \<times> replication_error option"
where
  "stream_heartbeat env t lost m c =
     (case send_message (env_repl env) (c\<lparr>conn_in := drop lost (conn_in c)\<rparr>) (heartbeat t (sync_sequence (rm_sync m))) of
        (c1, Inl e) \<Rightarrow> (m, c1, Some e)
      | (c1, Inr _) \<Rightarrow> (m\<lparr>rm_stats := (rm_stats m)\<lparr>messages_sent := messages_sent (rm_stats m) + 1\<rparr>\<rparr>, c1, None))"

fun handle_replication_stream ::
  "'s repl_env \<Rightarrow> int \<Rightarrow> utc_time \<Rightarrow> stream_event list \<Rightarrow> 's repl_manager \<Rightarrow> repl_connection \<Rightarrow>
   's repl_manager \<times> repl_connection \<times> repl_connection call_result"
where
  "handle_replication_stream env now t [] m c = (m, c, Running)"
| "handle_replication_stream env now t (MessageReady elapsed # evs) m c =
     (case stream_message env now t elapsed m c of
        (m1, c1, Some e) \<Rightarrow> (m1, c1, Returned (Inl e))
      | (m1, c1, None) \<Rightarrow> handle_replication_stream env now t evs m1 c1)"
| "handle_replication_stream env now t (HeartbeatDue lost # evs) m c =
     (case stream_heartbeat env t lost m c of
        (m1, c1, Some e) \<Rightarrow> (m1, c1, Returned (Inl e))
      | (m1, c1, None) \<Rightarrow> handle_replication_stream env now t evs m1 c1)"

text \<open>The answer of the master to the request for a sync, applied and acknowledged.\<close>

definition apply_sync_response ::
  "'s repl_env \<Rightarrow> int \<Rightarrow> sync_manager \<Rightarrow> 's replication_message \<Rightarrow> sync_manager \<times> (replication_error, u64) result"
where
  "apply_sync_response env now sync msg =
     (case msg of
        FullSync header snapshot_data \<Rightarrow>
          (case apply_full_sync (env_snap env) (env_index env) (env_repl env) now sync header snapshot_data of
             (sync1, Inl e) \<Rightarrow> (sync1, Inl e) | (sync1, Inr _) \<Rightarrow> (sync1, Inr (hdr_sequence header)))
      | IncrementalSync entries \<Rightarrow>
          apply_incremental_sync (env_wal env) (env_snap env) (env_index env) now sync entries
      | ErrorMessage code text \<Rightarrow> (sync, Inl (ProtocolError ''Master error''))
      | _ \<Rightarrow> (sync, Inl (ProtocolError ''Unexpected sync response'')))"

definition connect_to_master ::
  "'s repl_env \<Rightarrow> int \<Rightarrow> utc_time \<Rightarrow> string \<Rightarrow> stream_event list \<Rightarrow> 's repl_manager \<Rightarrow> repl_connection option \<Rightarrow>
   's repl_manager \<times> repl_connection option \<times> repl_connection call_result"
where
  "connect_to_master env now t slave_id evs m stream =
     (case stream of
        None \<Rightarrow> (m, None, Returned (Inl ReplIoError))
      | Some c \<Rightarrow>
          (case send_message (env_repl env) c (SyncRequest (sync_sequence (rm_sync m)) slave_id) of
             (c1, Inl e) \<Rightarrow> (m, Some c1, Returned (Inl e))
           | (c1, Inr _) \<Rightarrow>
               (case receive_message (env_repl env) c1 of
                  (c2, Inl e) \<Rightarrow> (m, Some c2, Returned (Inl e))
                | (c2, Inr msg) \<Rightarrow>
                    (case apply_sync_response env now (rm_sync m) msg of
                       (sync, Inl e) \<Rightarrow> (m\<lparr>rm_sync := sync\<rparr>, Some c2, Returned (Inl e))
                     | (sync, Inr s) \<Rightarrow>
                         (let m1 = m\<lparr>rm_sync := sync\<rparr>
                          in case send_message (env_repl env) c2 (ack_success s) of
                               (c3, Inl e) \<Rightarrow> (m1, Some c3, Returned (Inl e))
                             | (c3, Inr _) \<Rightarrow>
                                 (case handle_replication_stream env now t evs m1 c3 of
                                    (m2, c4, r) \<Rightarrow> (m2, Some c4, r)))))))"

text \<open>One iteration of the task of a slave, with its backoff.\<close>

definition slave_iteration ::
  "'s repl_env \<Rightarrow> int \<Rightarrow> utc_time \<Rightarrow> string \<Rightarrow> stream_event list \<Rightarrow> repl_connection option \<Rightarrow>
   's repl_manager \<times> exponential_backoff \<Rightarrow> 's repl_manager \<times> exponential_backoff"
where
  "slave_iteration env now t slave_id evs stream = (\<lambda>(m, b).
     case connect_to_master env now t slave_id evs m stream of
       (m1, c, Returned (Inr conn)) \<Rightarrow> (m1\<lparr>rm_master_connection := Some conn\<rparr>, backoff_reset b)
     | (m1, c, Returned (Inl e)) \<Rightarrow> (m1, fst (backoff_next b))
     | (m1, c, Running) \<Rightarrow> (m1, b))"

section \<open>Roles\<close>

text \<open>Closing and binding sockets succeed.\<close>

definition promote_to_master :: "'s repl_manager \<Rightarrow> 's repl_manager" where
  "promote_to_master m =
     (if rm_role m = Master then m
      else m\<lparr>rm_master_connection := None, rm_role := Master,
             rm_slaves := Some (slave_manager_new (rcfg_max_slaves (rm_config m)))\<rparr>)"

definition can_read :: "'s repl_manager \<Rightarrow> bool" where
  "can_read m = True"

definition can_write :: "'s repl_manager \<Rightarrow> bool" where
  "can_write m \<longleftrightarrow> rm_role m = Master"

definition handle_write_operation ::
  "'s repl_manager \<Rightarrow> (replication_error, 'a) result \<Rightarrow> (replication_error, 'a) result"
where
  "handle_write_operation m res = (if \<not> can_write m then Inl NotMaster else res)"

definition force_reconnect :: "'s repl_manager \<Rightarrow> 's repl_manager \<times> (replication_error, unit) result" where
  "force_reconnect m =
     (case rm_role m of
        Slave a \<Rightarrow> (m\<lparr>rm_master_connection := None\<rparr>, Inr ()) | Master \<Rightarrow> (m, Inl NotSlave))"

definition repl_get_stats :: "'s repl_manager \<Rightarrow> replication_stats" where
  "repl_get_stats m =
     (let s = (rm_stats m)\<lparr>replication_lag_ms := rm_lag m\<rparr>
      in case rm_slaves m of None \<Rightarrow> s | Some sm \<Rightarrow> s\<lparr>connected_slaves := slave_count sm\<rparr>)"

record cluster_health =
  ch_role :: node_role
  ch_is_healthy :: bool
  ch_total_slaves :: nat
  ch_healthy_slaves :: nat
  ch_replication_lag_ms :: u64
  ch_can_read :: bool
  ch_can_write :: bool

definition get_cluster_health :: "'s repl_manager \<Rightarrow> cluster_health" where
  "get_cluster_health m =
     (case rm_role m of
        Master \<Rightarrow>
          \<lparr>ch_role = Master, ch_is_healthy = True,
           ch_total_slaves = (case rm_slaves m of None \<Rightarrow> 0 | Some sm \<Rightarrow> slave_count sm),
           ch_healthy_slaves = (case rm_slaves m of None \<Rightarrow> 0 | Some sm \<Rightarrow> healthy_slave_count sm),
           ch_replication_lag_ms = 0, ch_can_read = True, ch_can_write = True\<rparr>
      | Slave a \<Rightarrow>
          \<lparr>ch_role = Slave a, ch_is_healthy = (rm_master_connection m \<noteq> None), ch_total_slaves = 0,
           ch_healthy_slaves = 0, ch_replication_lag_ms = replication_lag_ms (repl_get_stats m),
           ch_can_read = True, ch_can_write = False\<rparr>)"

definition repl_remove_slave :: "'s repl_manager \<Rightarrow> string \<Rightarrow> 's repl_manager \<times> (replication_error, unit) result" where
  "repl_remove_slave m slave_id =
     (case rm_slaves m of
        None \<Rightarrow> (m, Inl NotMaster)
      | Some sm \<Rightarrow>
          (case disconnect_slave sm slave_id of
             (sm1, True) \<Rightarrow> (m\<lparr>rm_slaves := Some sm1\<rparr>, Inr ())
           | (sm1, False) \<Rightarrow> (m, Inl (ReplConnectionError (''Slave not found: '' @ slave_id)))))"

definition list_slaves :: "'s repl_manager \<Rightarrow> slave_info list" where
  "list_slaves m = (case rm_slaves m of None \<Rightarrow> [] | Some sm \<Rightarrow> get_slave_info sm)"

definition force_sync :: "utc_time \<Rightarrow> 's repl_manager \<Rightarrow> 's repl_manager \<times> (replication_error, nat) result" where
  "force_sync now m =
     (case rm_slaves m of
        None \<Rightarrow> (m, Inl NotMaster)
      | Some sm \<Rightarrow> (case slaves_force_sync now sm of (sm1, n) \<Rightarrow> (m\<lparr>rm_slaves := Some sm1\<rparr>, Inr n)))"

end
