(* ===== verification/Snapshot_Proofs.thy ===== *)
theory Snapshot_Proofs
  imports Snapshot_Ved
begin

text \<open>
  What a snapshot promises: loading the file that \<open>create_snapshot\<close> wrote gives back every document
  byte for byte, and no shorter file loads. The readers are prefix readers (the locale
  \<open>prefix_reader\<close>): a read that succeeds takes some bytes and does not depend on those that follow.
\<close>

section \<open>Prefix readers\<close>

definition more_bytes :: "bytes \<Rightarrow> snapshot_reader \<Rightarrow> snapshot_reader" where
  "more_bytes z r = r\<lparr>sr_rest := sr_rest r @ z\<rparr>"

locale prefix_reader =
  fixes rd :: "snapshot_reader \<Rightarrow> (snapshot_error, 'a) result \<times> snapshot_reader"
  assumes extend: "rd r = (Inr x, r') \<Longrightarrow> rd (more_bytes z r) = (Inr x, more_bytes z r')"
begin

text \<open>A file that is read to its end is not read from any proper prefix.\<close>

lemma truncated:
  assumes "rd (reader_on file) = (Inr x, r')" and "sr_rest r' = []" and "n < length file"
  shows "\<exists>e. fst (rd (reader_on (take n file))) = Inl e"
proof (rule ccontr)
  assume no_error: "\<nexists>e. fst (rd (reader_on (take n file))) = Inl e"
  obtain res r1 where res: "rd (reader_on (take n file)) = (res, r1)" by fastforce
  with no_error obtain y where "res = Inr y" by (cases res) auto
  with res have "rd (more_bytes (drop n file) (reader_on (take n file))) =
      (Inr y, more_bytes (drop n file) r1)" by (simp add: extend)
  moreover have "more_bytes (drop n file) (reader_on (take n file)) = reader_on file"
    by (simp add: more_bytes_def reader_on_def)
  ultimately have "r' = more_bytes (drop n file) r1" using assms(1) by simp
  then show False using assms(2,3) by (simp add: more_bytes_def)
qed

end

interpretation rbytes: prefix_reader "snap_read_bytes n" for n
  by unfold_locales (auto simp: snap_read_bytes_def more_bytes_def split: if_splits)

lemma read_section_extend:
  assumes "read_section dec r = (Inr x, r')"
  shows "read_section dec (more_bytes z r) = (Inr x, more_bytes z r')"
proof -
  from assms obtain lb r1 bs where "snap_read_bytes 4 r = (Inr lb, r1)"
    and "snap_read_bytes (unat (u32_from_le lb)) r1 = (Inr bs, r')" and "dec bs = Inr x"
    by (auto simp: read_section_def split: prod.splits sum.splits)
  then show ?thesis by (simp add: read_section_def rbytes.extend)
qed

interpretation sect: prefix_reader "read_section dec" for dec
  by unfold_locales (rule read_section_extend)

lemma read_header_extend:
  assumes "read_header cdc r = (Inr h, r')"
  shows "read_header cdc (more_bytes z r) = (Inr h, more_bytes z r')"
proof -
  from assms obtain bs r1 where "snap_read_bytes 256 r = (Inr bs, r1)"
    and "header_from_slice cdc (takeWhile (\<lambda>b. b \<noteq> 0) bs) = Inr h"
    and "verify_magic h" "hdr_version h = SNAPSHOT_VERSION" "header_verify_checksum cdc h"
    and "r' = r1\<lparr>sr_header := Some h\<rparr>"
    by (auto simp: read_header_def split: prod.splits sum.splits if_splits)
  then show ?thesis by (simp add: read_header_def rbytes.extend) (simp add: more_bytes_def)
qed

interpretation header: prefix_reader "read_header cdc" for cdc
  by unfold_locales (rule read_header_extend)

interpretation footer: prefix_reader "read_footer cdc" for cdc
  by unfold_locales (auto simp: read_footer_def more_bytes_def Let_def split: if_splits)

lemmas section_readers =
  read_metadata_def read_collection_header_def read_document_def read_index_def

lemma skip_indexes_extend:
  "skip_indexes n cdc r = (Inr (), r') \<Longrightarrow>
   skip_indexes n cdc (more_bytes z r) = (Inr (), more_bytes z r')"
  by (induction n arbitrary: r)
    (auto simp: section_readers sect.extend split: prod.splits sum.splits)

lemma load_documents_extend:
  "load_documents n cdc name r p = (Inr (), r', p') \<Longrightarrow>
   load_documents n cdc name (more_bytes z r) p = (Inr (), more_bytes z r', p')"
  by (induction n arbitrary: r p)
    (auto simp: section_readers sect.extend split: prod.splits sum.splits)

lemma load_collections_extend:
  "load_collections n cdc r p = (Inr (), r', p') \<Longrightarrow>
   load_collections n cdc (more_bytes z r) p = (Inr (), more_bytes z r', p')"
proof (induction n arbitrary: r p)
  case (Suc n)
  then obtain h r1 r2 p2 r3 where "read_collection_header cdc r = (Inr h, r1)"
    and "load_documents (unat (col_document_count h)) cdc (col_name h) r1 p = (Inr (), r2, p2)"
    and "skip_indexes (unat (col_index_count h)) cdc r2 = (Inr (), r3)"
    and "load_collections n cdc r3 p2 = (Inr (), r', p')"
    by (auto split: prod.splits sum.splits)
  with Suc.IH show ?case
    by (simp add: section_readers sect.extend load_documents_extend skip_indexes_extend)
qed simp

text \<open>The load as one read: the result holds the layer it leaves.\<close>

definition load_read ::
  "snapshot_codec \<Rightarrow> persistent_layer \<Rightarrow> snapshot_reader \<Rightarrow>
   (snapshot_error, u64 \<times> persistent_layer) result \<times> snapshot_reader"
where
  "load_read cdc p r =
     (case load_from cdc r p of (Inl e, r1, p1) \<Rightarrow> (Inl e, r1) | (Inr s, r1, p1) \<Rightarrow> (Inr (s, p1), r1))"

lemma load_body_extend:
  assumes "load_body cdc r p = (Inr s, r', p')"
  shows "load_body cdc (more_bytes z r) p = (Inr s, more_bytes z r', p')"
proof -
  from assms obtain h r1 m r2 where "read_header cdc r = (Inr h, r1)"
    and "read_metadata cdc r1 = (Inr m, r2)"
    and "load_collections (unat (collections_count m)) cdc r2 p = (Inr (), r', p')"
    and "s = hdr_sequence h"
    by (auto simp: load_body_def split: prod.splits sum.splits)
  then show ?thesis
    by (simp add: load_body_def header.extend section_readers sect.extend load_collections_extend)
qed

lemma load_read_extend:
  assumes "load_read cdc p r = (Inr x, r')"
  shows "load_read cdc p (more_bytes z r) = (Inr x, more_bytes z r')"
proof -
  from assms obtain s r1 p1 f where "load_body cdc r p = (Inr s, r1, p1)"
    and "read_footer cdc r1 = (Inr f, r')" and "x = (s, p1)"
    by (auto simp: load_read_def load_from_def split: prod.splits sum.splits)
  then show ?thesis by (simp add: load_read_def load_from_def load_body_extend footer.extend)
qed

interpretation whole: prefix_reader "load_read cdc p" for cdc p
  by unfold_locales (rule load_read_extend)

section \<open>What the writer appends\<close>

definition sect_bytes :: "bytes \<Rightarrow> bytes" where
  "sect_bytes json = u32_to_le (of_nat (length json)) @ json"

definition appends :: "snapshot_writer \<Rightarrow> bytes \<Rightarrow> snapshot_writer \<Rightarrow> bool" where
  "appends w bs w' \<longleftrightarrow> sw_file w' = sw_file w @ bs \<and> sw_hasher w' = sw_hasher w @ bs"

lemma appends_refl [simp]: "appends w [] w"
  by (simp add: appends_def)

lemma appends_trans: "appends w a w1 \<Longrightarrow> appends w1 b w2 \<Longrightarrow> appends w (a @ b) w2"
  by (simp add: appends_def)

lemma write_section_appends:
  "write_section w (Inr json) = (w', r) \<Longrightarrow> r = Inr () \<and> appends w (sect_bytes json) w'"
  by (auto simp: write_section_def snap_write_bytes_def appends_def sect_bytes_def)

lemma write_documents_appends:
  assumes "list_all2 (\<lambda>d v. doc_to_vec cdc d = Inr v) ds vs" and "write_documents cdc w ds = (w', r)"
  shows "r = Inr () \<and> appends w (concat (map sect_bytes vs)) w'"
  using assms
proof (induction ds vs arbitrary: w rule: list_all2_induct)
  case (Cons d ds v vs)
  obtain w1 r1 where w1: "write_section w (Inr v) = (w1, r1)" by fastforce
  from write_section_appends [OF w1] Cons.IH [of w1] Cons.prems Cons.hyps(1) w1 show ?case
    by (auto simp: write_document_def intro: appends_trans)
qed auto

text \<open>
  The stored documents of a collection, and the layers a snapshot keeps whole: every key is the
  key of the stored document in a collection without a colon in its name, and every stored text
  is the text of the document it decodes to.
\<close>

definition stored_in :: "persistent_layer \<Rightarrow> string \<Rightarrow> (string \<times> bytes) list" where
  "stored_in p name = filter (\<lambda>(k, v). starts_with k (name @ '':'')) (documents p)"

definition doc_text_of :: "snapshot_codec \<Rightarrow> string \<Rightarrow> string \<times> bytes \<Rightarrow> bool" where
  "doc_text_of cdc name kv \<longleftrightarrow>
     (case doc_from_slice cdc (snd kv) of
        Inl _ \<Rightarrow> False
      | Inr d \<Rightarrow> doc_to_vec cdc d = Inr (snd kv) \<and> fst kv = make_document_key cdc name (doc_id d) \<and>
                 length (snd kv) < 2 ^ 32)"

definition pl_canonical :: "snapshot_codec \<Rightarrow> persistent_layer \<Rightarrow> bool" where
  "pl_canonical cdc p \<longleftrightarrow> pl_wf p \<and>
     list_all (\<lambda>kv. case before_colon (fst kv) of None \<Rightarrow> False | Some c \<Rightarrow> doc_text_of cdc c kv) (documents p)"

lemma takeWhile_sep: "c \<notin> set a \<Longrightarrow> takeWhile (\<lambda>x. x \<noteq> c) (a @ c # b) = a"
  by (induction a) auto

lemma dropWhile_sep: "c \<notin> set a \<Longrightarrow> dropWhile (\<lambda>x. x \<noteq> c) (a @ c # b) = c # b"
  by (induction a) auto

lemma before_colon_SomeD:
  assumes "before_colon k = Some c"
  shows "CHR '':'' \<notin> set c \<and> (\<exists>r. k = c @ CHR '':'' # r)"
proof -
  from assms have c: "c = takeWhile (\<lambda>x. x \<noteq> CHR '':'') k" and "CHR '':'' \<in> set k"
    by (auto simp: before_colon_def split: if_splits)
  then have "dropWhile (\<lambda>x. x \<noteq> CHR '':'') k \<noteq> []" by (auto simp: dropWhile_eq_Nil_conv)
  then obtain y ys where ys: "dropWhile (\<lambda>x. x \<noteq> CHR '':'') k = y # ys" by (meson neq_Nil_conv)
  then have "y = CHR '':''" using hd_dropWhile [of "\<lambda>x. x \<noteq> CHR '':''" k] by simp
  with ys have "k = c @ CHR '':'' # ys" unfolding c by (metis takeWhile_dropWhile_id)
  moreover have "CHR '':'' \<notin> set c" unfolding c by (auto dest: set_takeWhileD)
  ultimately show ?thesis by blast
qed

text \<open>The first colon of a key is where its collection ends.\<close>

lemma starts_with_before_colon:
  assumes "before_colon k = Some c" and "CHR '':'' \<notin> set name"
  shows "starts_with k (name @ '':'') \<longleftrightarrow> name = c"
proof
  from before_colon_SomeD [OF assms(1)] obtain r where
    c: "CHR '':'' \<notin> set c" and k: "k = c @ CHR '':'' # r" by blast
  show "name = c" if "starts_with k (name @ '':'')"
  proof -
    from that obtain t where "k = (name @ '':'') @ t"
      unfolding starts_with_def by (metis append_take_drop_id)
    with k have eq: "c @ CHR '':'' # r = name @ CHR '':'' # t" by simp
    from takeWhile_sep [OF c, of r] takeWhile_sep [OF assms(2), of t] show ?thesis by (simp add: eq)
  qed
  show "starts_with k (name @ '':'')" if "name = c" using that k by (simp add: starts_with_def)
qed

lemma listed_names:
  "name \<in> set (list_collections p) \<longleftrightarrow> (\<exists>kv \<in> set (documents p). before_colon (fst kv) = Some name)"
  by (force simp: list_collections_def get_collections_list_def List.map_filter_def)

lemma stored_in_text:
  assumes "pl_canonical cdc p" and "name \<in> set (list_collections p)" and "kv \<in> set (stored_in p name)"
  shows "doc_text_of cdc name kv"
proof -
  from assms(2) have "CHR '':'' \<notin> set name" by (auto simp: listed_names dest: before_colon_SomeD)
  moreover from assms(1,3) obtain c where "before_colon (fst kv) = Some c" "doc_text_of cdc c kv"
    by (fastforce simp: pl_canonical_def list_all_iff stored_in_def split: option.splits)
  moreover have "starts_with (fst kv) (name @ '':'')" using assms(3) by (auto simp: stored_in_def)
  ultimately show ?thesis using starts_with_before_colon by metis
qed

lemma stored_everywhere:
  assumes "pl_canonical cdc p"
  shows "(\<Union>name \<in> set (list_collections p). set (stored_in p name)) = set (documents p)"
proof
  show "set (documents p) \<subseteq> (\<Union>name \<in> set (list_collections p). set (stored_in p name))"
  proof
    fix kv assume kv: "kv \<in> set (documents p)"
    with assms obtain c where c: "before_colon (fst kv) = Some c"
      by (fastforce simp: pl_canonical_def list_all_iff split: option.splits)
    with kv have "c \<in> set (list_collections p)" by (auto simp: listed_names)
    moreover from c before_colon_SomeD [OF c] kv have "kv \<in> set (stored_in p c)"
      by (auto simp: stored_in_def starts_with_def)
    ultimately show "kv \<in> (\<Union>name \<in> set (list_collections p). set (stored_in p name))" by blast
  qed
qed (auto simp: stored_in_def)

lemma scan_texts:
  assumes "\<forall>kv \<in> set kvs. doc_text_of cdc name kv"
  shows "\<exists>ds. deserialize_all cdc (map snd kvs) = Inr ds \<and>
     list_all2 (\<lambda>d v. doc_to_vec cdc d = Inr v) ds (map snd kvs)"
  using assms
proof (induction kvs)
  case (Cons kv kvs)
  then obtain ds where "deserialize_all cdc (map snd kvs) = Inr ds"
    "list_all2 (\<lambda>d v. doc_to_vec cdc d = Inr v) ds (map snd kvs)" by auto
  with Cons.prems show ?case by (auto simp: doc_text_of_def split: sum.splits)
qed simp

section \<open>What the reader takes\<close>

lemma read_section_bytes:
  assumes "dec json = Inr x" and "length json < 2 ^ 32"
  shows "read_section dec \<lparr>sr_rest = sect_bytes json @ z, sr_hasher = h, sr_header = ho\<rparr> =
     (Inr x, \<lparr>sr_rest = z, sr_hasher = h @ sect_bytes json, sr_header = ho\<rparr>)"
proof -
  have "unat (of_nat (length json) :: u32) = length json" using assms(2) by (simp only: unat_of_nat) simp
  then show ?thesis using assms(1) by (simp add: read_section_def snap_read_bytes_def sect_bytes_def)
qed

text \<open>Storing keyed texts one after the other, and what it does to the map.\<close>

definition put_all :: "(string \<times> bytes) list \<Rightarrow> persistent_layer \<Rightarrow> persistent_layer" where
  "put_all kvs p = fold (\<lambda>(k, v) p. raw_put p k v) kvs p"

lemma put_all_metadata: "pl_metadata (put_all kvs p) = pl_metadata p"
  unfolding put_all_def by (induction kvs arbitrary: p) (auto simp: raw_put_def)

lemma raw_get_put_all: "raw_get (put_all kvs p) = raw_get p ++ map_of (rev kvs)"
  unfolding put_all_def
  by (induction kvs arbitrary: p) (auto simp: raw_get_def raw_put_def map_of_al_put fun_eq_iff map_add_def split: option.splits)

lemma load_documents_texts:
  assumes "\<forall>kv \<in> set kvs. doc_text_of cdc name kv"
  shows "load_documents (length kvs) cdc name
       \<lparr>sr_rest = concat (map (sect_bytes \<circ> snd) kvs) @ z, sr_hasher = h, sr_header = ho\<rparr> p =
     (Inr (), \<lparr>sr_rest = z, sr_hasher = h @ concat (map (sect_bytes \<circ> snd) kvs), sr_header = ho\<rparr>,
      put_all kvs p)"
  using assms
proof (induction kvs arbitrary: h p)
  case Nil
  then show ?case by (simp add: put_all_def)
next
  case (Cons kv kvs)
  from Cons.prems obtain d where d: "doc_from_slice cdc (snd kv) = Inr d" "doc_to_vec cdc d = Inr (snd kv)"
    "fst kv = make_document_key cdc name (doc_id d)" "length (snd kv) < 2 ^ 32"
    by (auto simp: doc_text_of_def split: sum.splits)
  have i: "insert_document cdc p name (doc_id d) d = (raw_put p (fst kv) (snd kv), Inr ())"
    using insert_document_raw [OF d(2)] d(3) by simp
  from Cons.IH Cons.prems show ?case
    by (simp add: read_document_def read_section_bytes [of "doc_from_slice cdc", OF d(1,4)] i
        put_all_def case_prod_beta)
qed

section \<open>Whole snapshots\<close>

text \<open>
  What the round trip needs of serde_json and sha2: a collection header and the metadata decode to
  what was encoded, from less than four gigabytes; the header of the file too, and its text holds no
  zero byte; a digest has 32 bytes.
\<close>

definition text_roundtrip :: "('a \<Rightarrow> (string, bytes) result) \<Rightarrow> (bytes \<Rightarrow> (string, 'a) result) \<Rightarrow> 'a \<Rightarrow> bool" where
  "text_roundtrip enc dec x \<longleftrightarrow>
     (case enc x of Inl _ \<Rightarrow> False | Inr json \<Rightarrow> length json < 2 ^ 32 \<and> dec json = Inr x)"

lemma text_roundtripD:
  "text_roundtrip enc dec x \<Longrightarrow>
   enc x = Inr (projr (enc x)) \<and> dec (projr (enc x)) = Inr x \<and> length (projr (enc x)) < 2 ^ 32"
  by (auto simp: text_roundtrip_def split: sum.splits)

definition sealed_header :: "snapshot_codec \<Rightarrow> utc_time \<Rightarrow> u64 \<Rightarrow> snapshot_header" where
  "sealed_header cdc now s =
     (let h = snapshot_header_new now s in h\<lparr>hdr_checksum := header_compute_checksum cdc h\<rparr>)"

definition snapshot_codec_ok :: "snapshot_codec \<Rightarrow> utc_time \<Rightarrow> u64 \<Rightarrow> persistent_layer \<Rightarrow> bool" where
  "snapshot_codec_ok cdc now s p \<longleftrightarrow>
     text_roundtrip (header_to_vec cdc) (header_from_slice cdc) (sealed_header cdc now s) \<and>
     (case header_to_vec cdc (sealed_header cdc now s) of Inl _ \<Rightarrow> False | Inr json \<Rightarrow> 0 \<notin> set json) \<and>
     text_roundtrip (smeta_to_vec cdc) (smeta_from_slice cdc) (metadata_of_layer p) \<and>
     list_all (\<lambda>name. text_roundtrip (colhdr_to_vec cdc) (colhdr_from_slice cdc) (header_of_collection cdc p name))
       (list_collections p) \<and>
     (\<forall>bs. length (sha256 cdc bs) = 32)"

text \<open>The layer is small enough for the counts of the format.\<close>

definition layer_fits :: "persistent_layer \<Rightarrow> bool" where
  "layer_fits p \<longleftrightarrow> length (list_collections p) < 2 ^ 32 \<and> length (documents p) < 2 ^ 64"

lemma scan_stored:
  assumes "pl_canonical cdc p" and "name \<in> set (list_collections p)"
  shows "list_all2 (\<lambda>d v. doc_to_vec cdc d = Inr v) (scan_or_default cdc p name) (map snd (stored_in p name))"
  using scan_texts [of "stored_in p name" cdc name] stored_in_text [OF assms]
  by (auto simp: scan_or_default_def scan_collection_def stored_in_def)

definition coll_bytes :: "persistent_layer \<Rightarrow> string \<times> bytes \<Rightarrow> bytes" where
  "coll_bytes p nj = sect_bytes (snd nj) @ concat (map (sect_bytes \<circ> snd) (stored_in p (fst nj)))"

lemma write_collections_appends:
  assumes "pl_canonical cdc p" and "fst ` set njs \<subseteq> set (list_collections p)"
    and "\<forall>nj \<in> set njs. colhdr_to_vec cdc (header_of_collection cdc p (fst nj)) = Inr (snd nj)"
    and "write_collections cdc p w (map fst njs) = (w', r)"
  shows "r = Inr () \<and> appends w (concat (map (coll_bytes p) njs)) w'"
  using assms(2-)
proof (induction njs arbitrary: w)
  case (Cons nj njs)
  obtain w1 r1 where w1: "write_collection_header cdc w (header_of_collection cdc p (fst nj)) = (w1, r1)" by fastforce
  then have r1: "r1 = Inr ()" "appends w (sect_bytes (snd nj)) w1"
    using write_section_appends [of w "snd nj"] Cons.prems(2) by (auto simp: write_collection_header_def)
  obtain w2 r2 where w2: "write_documents cdc w1 (scan_or_default cdc p (fst nj)) = (w2, r2)" by fastforce
  have "fst nj \<in> set (list_collections p)" using Cons.prems(1) by simp
  from write_documents_appends [OF scan_stored [OF assms(1) this] w2] have
    r2: "r2 = Inr ()" "appends w1 (concat (map sect_bytes (map snd (stored_in p (fst nj))))) w2" by auto
  have "r = Inr () \<and> appends w2 (concat (map (coll_bytes p) njs)) w'"
    using Cons.prems w1 w2 r1(1) r2(1) by (intro Cons.IH) auto
  then show ?case
    using appends_trans [OF appends_trans [OF r1(2) r2(2)]] by (auto simp: coll_bytes_def [of p nj])
qed auto

lemma count_collections:
  assumes "layer_fits p"
  shows "unat (collections_count (metadata_of_layer p)) = length (list_collections p)"
proof -
  have "unat (of_nat (length (list_collections p)) :: u32) = length (list_collections p)"
    using assms by (simp only: unat_of_nat layer_fits_def) simp
  then show ?thesis by (simp add: metadata_of_layer_def)
qed

lemma count_stored:
  assumes "pl_canonical cdc p" and "layer_fits p" and "name \<in> set (list_collections p)"
  shows "unat (col_document_count (header_of_collection cdc p name)) = length (stored_in p name)"
proof -
  have "length (scan_or_default cdc p name) = length (stored_in p name)"
    using scan_stored [OF assms(1,3)] by (auto dest: list_all2_lengthD)
  moreover have "length (stored_in p name) < 2 ^ 64"
    using assms(2) length_filter_le [of _ "documents p"] unfolding stored_in_def layer_fits_def
    by (meson le_less_trans)
  then have "unat (of_nat (length (stored_in p name)) :: u64) = length (stored_in p name)" by (simp only: unat_of_nat) simp
  ultimately show ?thesis by (simp add: header_of_collection_def)
qed

lemma load_collections_bytes:
  assumes "pl_canonical cdc p" and "layer_fits p" and "fst ` set njs \<subseteq> set (list_collections p)"
    and "\<forall>nj \<in> set njs. colhdr_from_slice cdc (snd nj) = Inr (header_of_collection cdc p (fst nj)) \<and>
           length (snd nj) < 2 ^ 32"
  shows "load_collections (length njs) cdc
       \<lparr>sr_rest = concat (map (coll_bytes p) njs) @ z, sr_hasher = h, sr_header = ho\<rparr> p0 =
     (Inr (), \<lparr>sr_rest = z, sr_hasher = h @ concat (map (coll_bytes p) njs), sr_header = ho\<rparr>,
      put_all (concat (map (stored_in p \<circ> fst) njs)) p0)"
  using assms(3,4)
proof (induction njs arbitrary: h p0)
  case Nil
  then show ?case by (simp add: put_all_def)
next
  case (Cons nj njs)
  let ?kvs = "stored_in p (fst nj)"
  have name: "fst nj \<in> set (list_collections p)" using Cons.prems(1) by simp
  note n = count_stored [OF assms(1,2) name]
  have "\<forall>kv \<in> set ?kvs. doc_text_of cdc (fst nj) kv" using stored_in_text [OF assms(1) name] by blast
  note docs = load_documents_texts [OF this]
  from Cons.prems(2) have "read_section (colhdr_from_slice cdc)
      \<lparr>sr_rest = sect_bytes (snd nj) @ y, sr_hasher = h, sr_header = ho\<rparr> =
      (Inr (header_of_collection cdc p (fst nj)), \<lparr>sr_rest = y, sr_hasher = h @ sect_bytes (snd nj), sr_header = ho\<rparr>)" for y
    by (intro read_section_bytes) auto
  moreover have "col_name (header_of_collection cdc p (fst nj)) = fst nj"
    "col_index_count (header_of_collection cdc p (fst nj)) = 0" by (simp_all add: header_of_collection_def)
  ultimately show ?case using Cons.IH Cons.prems
    by (simp add: coll_bytes_def [of p nj] read_collection_header_def n docs put_all_def)
qed

text \<open>The parts of a file that \<open>create_snapshot\<close> wrote.\<close>

definition header_bytes :: "bytes \<Rightarrow> bytes" where
  "header_bytes hj = hj @ replicate (256 - length hj) 0"

definition footer_bytes :: "snapshot_codec \<Rightarrow> bytes \<Rightarrow> bytes" where
  "footer_bytes cdc body = SNAPSHOT_END_MARKER @ sha256 cdc body @ replicate 22 0"

lemma collection_texts:
  assumes "snapshot_codec_ok cdc now s p"
  obtains njs where "map fst njs = list_collections p"
    and "\<forall>nj \<in> set njs. colhdr_to_vec cdc (header_of_collection cdc p (fst nj)) = Inr (snd nj) \<and>
      colhdr_from_slice cdc (snd nj) = Inr (header_of_collection cdc p (fst nj)) \<and> length (snd nj) < 2 ^ 32"
proof -
  let ?f = "\<lambda>name. (name, projr (colhdr_to_vec cdc (header_of_collection cdc p name)))"
  have "map fst (map ?f (list_collections p)) = list_collections p" by (simp add: comp_def)
  moreover have "\<forall>nj \<in> set (map ?f (list_collections p)).
      colhdr_to_vec cdc (header_of_collection cdc p (fst nj)) = Inr (snd nj) \<and>
      colhdr_from_slice cdc (snd nj) = Inr (header_of_collection cdc p (fst nj)) \<and> length (snd nj) < 2 ^ 32"
    using text_roundtripD assms by (fastforce simp: snapshot_codec_ok_def list_all_iff)
  ultimately show ?thesis by (rule that)
qed

lemma create_snapshot_bytes:
  assumes "snapshot_codec_ok cdc now s p" and "pl_canonical cdc p"
    and "create_snapshot cdc now p path s = (file, Some (Inr ()))"
    and njs: "map fst njs = list_collections p"
      "\<forall>nj \<in> set njs. colhdr_to_vec cdc (header_of_collection cdc p (fst nj)) = Inr (snd nj)"
  obtains hj mj where "header_to_vec cdc (sealed_header cdc now s) = Inr hj" and "length hj \<le> 256"
    and "smeta_to_vec cdc (metadata_of_layer p) = Inr mj"
    and "file = header_bytes hj @ sect_bytes mj @ concat (map (coll_bytes p) njs) @
       footer_bytes cdc (header_bytes hj @ sect_bytes mj @ concat (map (coll_bytes p) njs))"
proof -
  from assms(1) obtain hj mj where hj: "header_to_vec cdc (sealed_header cdc now s) = Inr hj"
    and mj: "smeta_to_vec cdc (metadata_of_layer p) = Inr mj"
    by (auto simp: snapshot_codec_ok_def text_roundtrip_def split: sum.splits)
  have fits: "length hj \<le> 256"
    using assms(3) hj
    by (auto simp: create_snapshot_def write_header_def sealed_header_def Let_def split: if_splits)
  obtain w1 where w1: "write_header cdc (writer_create path) (snapshot_header_new now s) = (w1, Some (Inr ()))"
    and a1: "appends (writer_create path) (header_bytes hj) w1"
    using hj fits by (auto simp: write_header_def sealed_header_def Let_def snap_write_bytes_def appends_def header_bytes_def)
  obtain w2 where w2: "write_metadata cdc w1 (metadata_of_layer p) = (w2, Inr ())"
    and a2: "appends w1 (sect_bytes mj) w2"
    using write_section_appends [of w1 mj] by (metis mj write_metadata_def surj_pair)
  have "fst ` set njs \<subseteq> set (list_collections p)" using njs(1) by (metis list.set_map subset_refl)
  from write_collections_appends [OF assms(2) this njs(2)] obtain w3 where
    w3: "write_collections cdc p w2 (list_collections p) = (w3, Inr ())"
    and a3: "appends w2 (concat (map (coll_bytes p) njs)) w3"
    using njs(1) by (metis surj_pair)
  have "file = sw_file (finalize_snapshot cdc w3)"
    using assms(3) w1 w2 w3 by (simp add: create_snapshot_def)
  moreover have "sw_file w3 = header_bytes hj @ sect_bytes mj @ concat (map (coll_bytes p) njs)"
    "sw_hasher w3 = header_bytes hj @ sect_bytes mj @ concat (map (coll_bytes p) njs)"
    using appends_trans [OF appends_trans [OF a1 a2] a3] by (simp_all add: appends_def writer_create_def)
  ultimately show ?thesis
    by (intro that [OF hj fits mj])
      (simp add: finalize_snapshot_def footer_bytes_def snapshot_footer_new_def Let_def)
qed

lemma read_header_bytes:
  assumes "snapshot_codec_ok cdc now s p" and "header_to_vec cdc (sealed_header cdc now s) = Inr hj"
    and "length hj \<le> 256"
  shows "read_header cdc (reader_on (header_bytes hj @ z)) =
     (Inr (sealed_header cdc now s),
      \<lparr>sr_rest = z, sr_hasher = header_bytes hj, sr_header = Some (sealed_header cdc now s)\<rparr>)"
proof -
  let ?h = "sealed_header cdc now s"
  from assms(1,2) have dec: "header_from_slice cdc hj = Inr ?h" and z: "0 \<notin> set hj"
    by (auto simp: snapshot_codec_ok_def text_roundtrip_def)
  have "takeWhile (\<lambda>b. b \<noteq> 0) (header_bytes hj) = hj"
    using z by (auto simp: header_bytes_def takeWhile_append takeWhile_replicate)
  moreover have "length (header_bytes hj) = 256" using assms(3) by (simp add: header_bytes_def)
  moreover have "verify_magic ?h" "hdr_version ?h = SNAPSHOT_VERSION" "header_verify_checksum cdc ?h"
    by (simp_all add: sealed_header_def snapshot_header_new_def verify_magic_def Let_def
        header_verify_checksum_def header_compute_checksum_def)
  ultimately show ?thesis using dec by (simp add: read_header_def snap_read_bytes_def reader_on_def)
qed

text \<open>Loading the body of a snapshot, whatever follows it.\<close>

lemma load_body_bytes:
  assumes "snapshot_codec_ok cdc now s p" and "pl_canonical cdc p" and "layer_fits p"
    and "header_to_vec cdc (sealed_header cdc now s) = Inr hj" and "length hj \<le> 256"
    and "smeta_to_vec cdc (metadata_of_layer p) = Inr mj" and njs: "map fst njs = list_collections p"
    and "\<forall>nj \<in> set njs. colhdr_from_slice cdc (snd nj) = Inr (header_of_collection cdc p (fst nj)) \<and>
           length (snd nj) < 2 ^ 32"
    and body: "body = header_bytes hj @ sect_bytes mj @ concat (map (coll_bytes p) njs)"
  shows "load_body cdc (reader_on (body @ z)) p0 =
     (Inr s, \<lparr>sr_rest = z, sr_hasher = body, sr_header = Some (sealed_header cdc now s)\<rparr>,
      put_all (concat (map (stored_in p \<circ> fst) njs)) p0)"
proof -
  from assms(1,6) have mj: "smeta_from_slice cdc mj = Inr (metadata_of_layer p)" "length mj < 2 ^ 32"
    by (auto simp: snapshot_codec_ok_def text_roundtrip_def)
  have n: "unat (collections_count (metadata_of_layer p)) = length njs"
    using count_collections [OF assms(3)] njs by (metis length_map)
  have sub: "fst ` set njs \<subseteq> set (list_collections p)" using njs by (metis list.set_map subset_refl)
  show ?thesis
    by (simp add: load_body_def body read_header_bytes [OF assms(1,4,5)] read_metadata_def
        read_section_bytes [of "smeta_from_slice cdc", OF mj] n load_collections_bytes [OF assms(2,3) sub assms(8)])
      (simp add: sealed_header_def snapshot_header_new_def Let_def)
qed

lemma read_footer_bytes:
  assumes "length (sha256 cdc body) = 32"
  shows "read_footer cdc \<lparr>sr_rest = footer_bytes cdc body, sr_hasher = body, sr_header = ho\<rparr> =
     (Inr (snapshot_footer_new (sha256 cdc body)), \<lparr>sr_rest = [], sr_hasher = body, sr_header = ho\<rparr>)"
  using assms
  by (simp add: read_footer_def footer_bytes_def snapshot_footer_new_def SNAPSHOT_END_MARKER_def
      verify_end_marker_def Let_def)

lemma map_of_same_set:
  assumes "set kvs = set xs" and "distinct (map fst xs)"
  shows "map_of kvs = map_of xs"
proof
  fix k
  show "map_of kvs k = map_of xs k"
  proof (cases "map_of kvs k")
    case None
    then show ?thesis by (metis assms(1) map_of_eq_None_iff)
  next
    case (Some v)
    then have "(k, v) \<in> set xs" using assms(1) by (metis map_of_SomeD)
    then show ?thesis using Some assms(2) by (metis map_of_eq_Some_iff)
  qed
qed

lemma restored_map:
  assumes "pl_canonical cdc p" and "map fst njs = list_collections p"
  shows "map_of (rev (concat (map (stored_in p \<circ> fst) njs))) = raw_get p"
proof -
  have "set (rev (concat (map (stored_in p \<circ> fst) njs))) = (\<Union>name \<in> set (list_collections p). set (stored_in p name))"
    unfolding assms(2) [symmetric] by auto
  then have "map_of (rev (concat (map (stored_in p \<circ> fst) njs))) = map_of (documents p)"
    using assms(1) stored_everywhere [OF assms(1)]
    by (intro map_of_same_set) (simp_all add: pl_canonical_def pl_wf_def)
  then show ?thesis by (auto simp: raw_get_def)
qed

text \<open>
  Everything about the file of a snapshot at once: its body, and what loading it does whatever the
  footer is.
\<close>

lemma snapshot_file:
  assumes "snapshot_codec_ok cdc now s p" and "pl_canonical cdc p" and "layer_fits p"
    and "create_snapshot cdc now p path s = (file, Some (Inr ()))"
  obtains body kvs ho where "file = body @ footer_bytes cdc body" and "map_of (rev kvs) = raw_get p"
    and "\<And>z p0. load_body cdc (reader_on (body @ z)) p0 =
      (Inr s, \<lparr>sr_rest = z, sr_hasher = body, sr_header = ho\<rparr>, put_all kvs p0)"
proof -
  obtain njs where njs: "map fst njs = list_collections p"
    "\<forall>nj \<in> set njs. colhdr_to_vec cdc (header_of_collection cdc p (fst nj)) = Inr (snd nj) \<and>
      colhdr_from_slice cdc (snd nj) = Inr (header_of_collection cdc p (fst nj)) \<and> length (snd nj) < 2 ^ 32"
    using collection_texts [OF assms(1)] by blast
  obtain hj mj where hj: "header_to_vec cdc (sealed_header cdc now s) = Inr hj" "length hj \<le> 256"
    and mj: "smeta_to_vec cdc (metadata_of_layer p) = Inr mj"
    and fl: "file = header_bytes hj @ sect_bytes mj @ concat (map (coll_bytes p) njs) @
       footer_bytes cdc (header_bytes hj @ sect_bytes mj @ concat (map (coll_bytes p) njs))"
    using create_snapshot_bytes [OF assms(1,2,4) njs(1)] njs(2) by blast
  let ?body = "header_bytes hj @ sect_bytes mj @ concat (map (coll_bytes p) njs)"
  show ?thesis
  proof (rule that [of ?body])
    show "file = ?body @ footer_bytes cdc ?body" using fl by simp
    show "map_of (rev (concat (map (stored_in p \<circ> fst) njs))) = raw_get p"
      by (rule restored_map [OF assms(2) njs(1)])
    show "load_body cdc (reader_on (?body @ z)) p0 = (Inr s,
        \<lparr>sr_rest = z, sr_hasher = ?body, sr_header = Some (sealed_header cdc now s)\<rparr>,
        put_all (concat (map (stored_in p \<circ> fst) njs)) p0)" for z p0
      using njs(2) by (intro load_body_bytes [OF assms(1-3) hj mj njs(1) _ refl]) blast
  qed
qed

lemma truncated_load:
  assumes "snapshot_codec_ok cdc now s p" and "pl_canonical cdc p" and "layer_fits p"
    and "create_snapshot cdc now p path s = (file, Some (Inr ()))" and "n < length file"
  shows "\<exists>e. snd (load_snapshot cdc [(path, take n file)] path p0) = Inl e"
proof -
  obtain body kvs ho where fl: "file = body @ footer_bytes cdc body"
    and load: "\<And>z p0. load_body cdc (reader_on (body @ z)) p0 =
      (Inr s, \<lparr>sr_rest = z, sr_hasher = body, sr_header = ho\<rparr>, put_all kvs p0)"
    using snapshot_file [OF assms(1-4)] by blast
  have "length (sha256 cdc body) = 32" using assms(1) by (simp add: snapshot_codec_ok_def)
  then have "load_read cdc p0 (reader_on file) =
      (Inr (s, put_all kvs p0), \<lparr>sr_rest = [], sr_hasher = body, sr_header = ho\<rparr>)"
    by (simp add: load_read_def load_from_def fl load read_footer_bytes)
  from whole.truncated [OF this _ assms(5)] obtain e where
    "fst (load_read cdc p0 (reader_on (take n file))) = Inl e" by auto
  then show ?thesis
    by (auto simp: load_read_def load_snapshot_def reader_open_def split: prod.splits sum.splits)
qed

lemma load_created:
  assumes "snapshot_codec_ok cdc now s p" and "pl_canonical cdc p" and "layer_fits p"
    and "create_snapshot cdc now p path s = (file, Some (Inr ()))"
    and "map_of files path' = Some file"
  shows "\<exists>p'. load_snapshot cdc files path' p0 = (p', Inr s) \<and>
     raw_get p' = raw_get p0 ++ raw_get p \<and> pl_metadata p' = pl_metadata p0"
proof -
  obtain body kvs ho where fl: "file = body @ footer_bytes cdc body" and m: "map_of (rev kvs) = raw_get p"
    and load: "\<And>z p0. load_body cdc (reader_on (body @ z)) p0 =
      (Inr s, \<lparr>sr_rest = z, sr_hasher = body, sr_header = ho\<rparr>, put_all kvs p0)"
    using snapshot_file [OF assms(1-4)] by blast
  have "length (sha256 cdc body) = 32" using assms(1) by (simp add: snapshot_codec_ok_def)
  then have "load_snapshot cdc files path' p0 = (put_all kvs p0, Inr s)"
    by (simp add: load_snapshot_def reader_open_def load_from_def assms(5) fl load read_footer_bytes)
  then show ?thesis by (simp add: raw_get_put_all m put_all_metadata)
qed

section \<open>Properties\<close>

text \<open>
  A snapshot loads: the file that \<open>create_snapshot\<close> wrote loads without an error, returns the
  sequence number it was taken at, and leaves every document of the snapshot byte for byte under
  its key; documents of the target that the snapshot does not have stay, and so does the metadata
  of the target, which a snapshot does not carry.
\<close>

theorem snapshot_round_trip:
  assumes "snapshot_codec_ok cdc now s p" and "pl_canonical cdc p" and "layer_fits p"
    and "create_snapshot cdc now p path s = (file, Some (Inr ()))"
  shows "\<exists>p'. load_snapshot cdc [(path, file)] path p0 = (p', Inr s) \<and>
     raw_get p' = raw_get p0 ++ raw_get p \<and> pl_metadata p' = pl_metadata p0"
  by (rule load_created [OF assms]) simp

text \<open>
  C16. A snapshot that was cut short is never taken for a whole one: loading any proper prefix of a
  written file returns an error.
\<close>

theorem truncated_snapshot_refused:
  assumes "snapshot_codec_ok cdc now s p" and "pl_canonical cdc p" and "layer_fits p"
    and "create_snapshot cdc now p path s = (file, Some (Inr ()))" and "n < length file"
  shows "\<exists>e. snd (load_snapshot cdc [(path, take n file)] path p0) = Inl e"
  by (rule truncated_load [OF assms])

text \<open>
  A load that fails on the checksum has changed everything: when the footer of a snapshot is
  damaged, \<open>load_snapshot\<close> reports the end marker as invalid after it has stored every document of
  the file in the layer.
\<close>

theorem refused_snapshot_is_loaded:
  assumes "snapshot_codec_ok cdc now s p" and "pl_canonical cdc p" and "layer_fits p"
    and "create_snapshot cdc now p path s = (file, Some (Inr ()))"
    and "bad = take (length file - 64) file @ replicate 64 0"
  shows "snd (load_snapshot cdc [(path, bad)] path p0) = Inl InvalidEndMarker \<and>
     raw_get (fst (load_snapshot cdc [(path, bad)] path p0)) = raw_get p0 ++ raw_get p"
proof -
  obtain body kvs ho where fl: "file = body @ footer_bytes cdc body" and m: "map_of (rev kvs) = raw_get p"
    and load: "\<And>z p0. load_body cdc (reader_on (body @ z)) p0 =
      (Inr s, \<lparr>sr_rest = z, sr_hasher = body, sr_header = ho\<rparr>, put_all kvs p0)"
    using snapshot_file [OF assms(1-4)] by blast
  have "length (sha256 cdc body) = 32" using assms(1) by (simp add: snapshot_codec_ok_def)
  then have "length (footer_bytes cdc body) = 64" by (simp add: footer_bytes_def SNAPSHOT_END_MARKER_def)
  then have "bad = body @ replicate 64 0" by (simp add: assms(5) fl)
  moreover have "hd (replicate 10 0) \<noteq> hd SNAPSHOT_END_MARKER" by (simp add: SNAPSHOT_END_MARKER_def)
  then have "replicate 10 0 \<noteq> SNAPSHOT_END_MARKER" by metis
  ultimately have "load_snapshot cdc [(path, bad)] path p0 = (put_all kvs p0, Inl InvalidEndMarker)"
    by (simp add: load_snapshot_def reader_open_def load_from_def load read_footer_def verify_end_marker_def Let_def)
  then show ?thesis by (simp add: raw_get_put_all m)
qed

text \<open>
  The compact JSON text of a header, as the derived serializer writes it: fields in their order,
  byte arrays as arrays of decimal numbers, the time in the quoted form that \<open>rfc3339\<close> gives.
\<close>

fun comma_list :: "nat list \<Rightarrow> string" where
  "comma_list [] = []"
| "comma_list [n] = show_nat n"
| "comma_list (n # ns) = show_nat n @ '','' @ comma_list ns"

definition header_json :: "(utc_time \<Rightarrow> string) \<Rightarrow> snapshot_header \<Rightarrow> string" where
  \<open>header_json rfc3339 h =
     ''{"magic":['' @ comma_list (map unat (hdr_magic h)) @ ''],"version":'' @ show_nat (unat (hdr_version h)) @
     '',"timestamp":"'' @ rfc3339 (hdr_timestamp h) @ ''","sequence":'' @ show_nat (unat (hdr_sequence h)) @
     '',"checksum_algo":"SHA256","checksum":['' @ comma_list (map unat (hdr_checksum h)) @ '']}''\<close>

definition digit_count :: "nat \<Rightarrow> nat" where
  "digit_count n = length (show_nat n)"

lemma length_comma_list: "ns \<noteq> [] \<Longrightarrow> Suc (length (comma_list ns)) = sum_list (map digit_count ns) + length ns"
  by (induction ns rule: comma_list.induct) (auto simp: digit_count_def)

lemma length_header_json:
  assumes "length (hdr_checksum h) = 32" and "hdr_magic h = SNAPSHOT_MAGIC" and "hdr_version h = 1"
  shows "length (header_json rfc3339 h) =
     141 + length (rfc3339 (hdr_timestamp h)) + digit_count (unat (hdr_sequence h)) +
     sum_list (map (digit_count \<circ> unat) (hdr_checksum h))"
proof -
  have "map unat (hdr_checksum h) \<noteq> []" using assms(1) by auto
  from length_comma_list [OF this] assms(1)
  have "length (comma_list (map unat (hdr_checksum h))) = sum_list (map (digit_count \<circ> unat) (hdr_checksum h)) + 31"
    by simp
  moreover have "length (comma_list (map unat SNAPSHOT_MAGIC)) = 20"
    by (simp add: SNAPSHOT_MAGIC_def show_nat.simps)
  moreover have "length (show_nat (unat (1 :: u32))) = 1" by (simp add: show_nat.simps)
  ultimately show ?thesis using assms(2,3) by (simp add: header_json_def digit_count_def)
qed

text \<open>
  C31. A snapshot panics by its own digest: the text of the header goes into 256 bytes, and with the
  text that the derived serializer writes it fits exactly when the time, the sequence number and
  the 32 bytes of the digest of the header take no more than 115 decimal digits and characters
  together. With a time of 30 characters (nanoseconds) and a sequence number of three digits that
  leaves 82 digits for the digest, whose 32 bytes have up to 96.
\<close>

theorem snapshot_panics_iff:
  assumes "h = sealed_header cdc now s" and "header_to_vec cdc h = Inr (map of_char (header_json rfc3339 h))"
    and "length (hdr_checksum h) = 32"
  shows "snd (create_snapshot cdc now p path s) = None \<longleftrightarrow>
     115 < length (rfc3339 now) + digit_count (unat s) + sum_list (map (digit_count \<circ> unat) (hdr_checksum h))"
proof -
  have h: "hdr_magic h = SNAPSHOT_MAGIC" "hdr_version h = 1" "hdr_timestamp h = now" "hdr_sequence h = s"
    by (simp_all add: assms(1) sealed_header_def snapshot_header_new_def SNAPSHOT_VERSION_def Let_def)
  have "snd (create_snapshot cdc now p path s) = None \<longleftrightarrow> 256 < length (header_json rfc3339 h)"
    using assms(2) unfolding assms(1)
    by (auto simp: create_snapshot_def write_header_def sealed_header_def Let_def split: prod.splits sum.splits)
  then show ?thesis by (simp add: length_header_json [OF assms(3) h(1,2)] h(3,4) add.assoc)
qed

section \<open>A concrete codec\<close>

definition example_time :: utc_time where
  "example_time = \<lparr>utc_secs = 1700000000, utc_nanos = 0\<rparr>"

definition example_header :: snapshot_header where
  "example_header = (snapshot_header_new example_time 100)\<lparr>hdr_checksum := replicate 32 200\<rparr>"

definition example_snapshot_codec :: snapshot_codec where
  "example_snapshot_codec = doc_codec.extend example_doc_codec
     \<lparr>header_to_vec = (\<lambda>h. Inr [1]), header_from_slice = (\<lambda>bs. Inr example_header),
      smeta_to_vec = (\<lambda>m. Inr []),
      smeta_from_slice = (\<lambda>bs. Inr \<lparr>collections_count = 1, users_count = 0, snap_config = ''{}''\<rparr>),
      colhdr_to_vec = (\<lambda>h. Inr []),
      colhdr_from_slice = (\<lambda>bs. Inr \<lparr>col_name = ''users'', col_schema_json = ''{}'', col_document_count = 1, col_index_count = 0\<rparr>),
      sindex_to_vec = (\<lambda>i. Inl ''''), sindex_from_slice = (\<lambda>bs. Inl ''''), sha256 = (\<lambda>bs. replicate 32 200)\<rparr>"

definition example_layer :: persistent_layer where
  "example_layer = \<lparr>documents = [(''users:aaaaaaa'', u64_to_le 7)], pl_metadata = []\<rparr>"

lemma example_codec_simps:
  "doc_to_vec example_snapshot_codec d = Inr (u64_to_le (ucast (doc_id d)))"
  "doc_from_slice example_snapshot_codec bs = Inr (with_id (ucast (u64_from_le bs)) 0)"
  "show_uuid example_snapshot_codec i = replicate (unat i) CHR ''a''"
  "header_to_vec example_snapshot_codec h = Inr [1]"
  "header_from_slice example_snapshot_codec bs = Inr example_header"
  "smeta_to_vec example_snapshot_codec m = Inr []"
  "smeta_from_slice example_snapshot_codec bs = Inr \<lparr>collections_count = 1, users_count = 0, snap_config = ''{}''\<rparr>"
  "colhdr_to_vec example_snapshot_codec ch = Inr []"
  "colhdr_from_slice example_snapshot_codec bs =
     Inr \<lparr>col_name = ''users'', col_schema_json = ''{}'', col_document_count = 1, col_index_count = 0\<rparr>"
  "sha256 example_snapshot_codec bs = replicate 32 200"
  by (simp_all add: example_snapshot_codec_def doc_codec.extend_def example_doc_codec_def)

lemma example_listed: "list_collections example_layer = [''users'']"
  by (simp add: list_collections_def get_collections_list_def example_layer_def before_colon_def List.map_filter_def)

lemma example_scan: "scan_or_default example_snapshot_codec example_layer ''users'' = [with_id 7 0]"
  by (simp add: scan_or_default_def scan_collection_def example_layer_def starts_with_def example_codec_simps)

lemma example_sealed: "sealed_header example_snapshot_codec example_time 100 = example_header"
  by (simp add: sealed_header_def example_header_def header_compute_checksum_def example_codec_simps)

lemma example_canonical: "pl_canonical example_snapshot_codec example_layer"
proof -
  have "replicate 7 CHR ''a'' = ''aaaaaaa''" by (simp add: numeral_eq_Suc)
  then show ?thesis
    by (simp add: pl_canonical_def pl_wf_def example_layer_def before_colon_def doc_text_of_def
        make_document_key_def example_codec_simps with_id_def)
qed

lemma example_snapshot_codec_ok: "snapshot_codec_ok example_snapshot_codec example_time 100 example_layer"
  by (simp add: snapshot_codec_ok_def text_roundtrip_def example_sealed example_listed metadata_of_layer_def
      header_of_collection_def example_scan example_codec_simps)

lemma example_fits: "layer_fits example_layer"
  by (simp add: layer_fits_def example_listed) (simp add: example_layer_def)

lemma example_created:
  "create_snapshot example_snapshot_codec example_time example_layer path 100 =
   (fst (create_snapshot example_snapshot_codec example_time example_layer path 100), Some (Inr ()))"
  by (simp add: create_snapshot_def write_header_def write_metadata_def write_section_def example_listed
      write_collection_header_def example_scan write_document_def Let_def example_codec_simps)

lemmas example_snapshot_facts = example_snapshot_codec_ok example_canonical example_fits example_created


theorem snapshot_round_trip_witness:
  "\<exists>p'. load_snapshot example_snapshot_codec
       [(''s'', fst (create_snapshot example_snapshot_codec example_time example_layer ''s'' 100))] ''s'' pl_new =
     (p', Inr 100) \<and> raw_get p' = raw_get pl_new ++ raw_get example_layer \<and> pl_metadata p' = pl_metadata pl_new"
  by (rule snapshot_round_trip [OF example_snapshot_facts])

theorem truncated_snapshot_refused_witness:
  "\<exists>e. snd (load_snapshot example_snapshot_codec
       [(''s'', take 0 (fst (create_snapshot example_snapshot_codec example_time example_layer ''s'' 100)))] ''s'' pl_new) = Inl e"
proof (rule truncated_snapshot_refused [OF example_snapshot_facts])
  show "0 < length (fst (create_snapshot example_snapshot_codec example_time example_layer ''s'' 100))"
    by (simp add: create_snapshot_def write_header_def write_metadata_def write_section_def example_listed
        write_collection_header_def example_scan write_document_def Let_def example_codec_simps
        finalize_snapshot_def snapshot_footer_new_def)
qed

theorem refused_snapshot_is_loaded_witness:
  "\<exists>bad. snd (load_snapshot example_snapshot_codec [(''s'', bad)] ''s'' pl_new) = Inl InvalidEndMarker \<and>
     raw_get (fst (load_snapshot example_snapshot_codec [(''s'', bad)] ''s'' pl_new)) =
       raw_get pl_new ++ raw_get example_layer"
  using refused_snapshot_is_loaded [OF example_snapshot_facts refl] by blast

definition json_snapshot_codec :: snapshot_codec where
  "json_snapshot_codec = example_snapshot_codec
     \<lparr>header_to_vec := \<lambda>h. Inr (map of_char (header_json (\<lambda>t. replicate 30 CHR ''0'') h))\<rparr>"

theorem snapshot_panics_iff_witness:
  "snd (create_snapshot json_snapshot_codec example_time pl_new ''s'' 100) = None"
proof -
  let ?h = "sealed_header json_snapshot_codec example_time 100"
  have c: "hdr_checksum ?h = replicate 32 200"
    by (simp add: sealed_header_def header_compute_checksum_def json_snapshot_codec_def example_codec_simps Let_def)
  have "header_to_vec json_snapshot_codec ?h = Inr (map of_char (header_json (\<lambda>t. replicate 30 CHR ''0'') ?h))"
    by (simp add: json_snapshot_codec_def)
  from snapshot_panics_iff [OF refl this] c show ?thesis
    by (simp add: sum_list_replicate digit_count_def show_nat.simps)
qed

end
