(* ===== verification/Backup_Proofs.thy ===== *)
theory Backup_Proofs
  imports Backup_Ved Snapshot_Proofs
begin

text \<open>
  Properties of backups: what restore gives back, what retention deletes, what verification misses,
  and what recovery to a point in time does with a log.
\<close>

section \<open>Paths\<close>

lemma after_last_absent: "c \<notin> set s \<Longrightarrow> after_last c s = s"
proof -
  assume "c \<notin> set s"
  then have "takeWhile (\<lambda>x. x \<noteq> c) (rev s) = rev s" by (auto simp: takeWhile_eq_all_conv)
  then show ?thesis by (simp only: after_last_def rev_rev_ident)
qed

lemma after_last_sep [simp]: "c \<notin> set y \<Longrightarrow> after_last c (x @ c # y) = y"
  by (simp add: after_last_def takeWhile_sep)

lemma before_last_sep [simp]: "c \<notin> set y \<Longrightarrow> before_last c (x @ c # y) = x"
  by (simp add: before_last_def dropWhile_sep)

lemma file_name_join: "CHR ''/'' \<notin> set n \<Longrightarrow> file_name (join_path d n) = n"
  by (simp add: file_name_def join_path_def)

lemma with_extension_join:
  assumes "CHR ''/'' \<notin> set (x @ y)" and "CHR ''.'' \<notin> set y" and "x \<noteq> []" and "y \<noteq> []"
  shows "with_extension (join_path d (x @ CHR ''.'' # y)) e = join_path d (x @ ''.'' @ e)"
proof -
  have n: "CHR ''/'' \<notin> set (x @ CHR ''.'' # y)" using assms(1) by simp
  have "x @ CHR ''.'' # y \<noteq> ''..''" using assms(3,4) by (cases x) (auto simp: append_eq_Cons_conv)
  then have "has_extension (x @ CHR ''.'' # y)" using assms(2,3) by (simp add: has_extension_def)
  moreover have "file_name (join_path d (x @ CHR ''.'' # y)) = x @ CHR ''.'' # y"
    by (rule file_name_join [OF n])
  ultimately have stem: "file_stem (join_path d (x @ CHR ''.'' # y)) = x"
    using assms(2) by (simp add: file_stem_def Let_def)
  have "before_last CHR ''/'' (join_path d (x @ CHR ''.'' # y)) = d"
    using n by (simp add: join_path_def)
  then show ?thesis by (simp add: with_extension_def stem) (simp add: join_path_def)
qed

section \<open>Recovery to a point in time\<close>

text \<open>No file that the log writer makes has the extension that the search looks for.\<close>

lemma digits_no_mark: "\<not> is_digit CHR ''/''" "\<not> is_digit CHR ''.''"
  by (simp_all add: is_digit_def less_eq_char_def)

lemma wal_sequence_of_log: "wal_sequence_of (wal_file_path n) = None"
proof -
  let ?d = "pad_zeros 10 (show_nat (unat n))"
  have "list_all is_digit ?d" using digits_show digits_zeros by (simp add: pad_zeros_def)
  then have d: "CHR ''/'' \<notin> set ?d" using digits_no_mark by (auto simp: list_all_iff)
  have split: "wal_file_path n = (''wal-'' @ ?d) @ CHR ''.'' # ''log''" by (simp add: wal_file_path_def)
  have "file_name (wal_file_path n) = wal_file_path n"
    unfolding file_name_def by (rule after_last_absent) (simp add: split d)
  moreover have "after_last CHR ''.'' (wal_file_path n) = ''log''" unfolding split by (rule after_last_sep) simp
  ultimately have "path_extension (wal_file_path n) \<noteq> Some ''wal''"
    by (auto simp: path_extension_def Let_def)
  then show ?thesis by (simp add: wal_sequence_of_def)
qed

lemma wal_log_names: "wal_log cdc w es \<Longrightarrow> n \<in> fst ` set (dir w) \<Longrightarrow> n \<in> range wal_file_path"
proof -
  assume "wal_log cdc w es" and n: "n \<in> fst ` set (dir w)"
  then obtain old f where d: "dir w = old @ [(wal_file_path (file_number w), f)]"
    and o: "map fst old = map (\<lambda>i. wal_file_path (of_nat i)) [0..<unat (file_number w)]"
    by (auto simp: wal_log_def wal_inv_def)
  from o have "fst ` set old \<subseteq> range wal_file_path" by (metis image_set image_subsetI rangeI list.set_map)
  with n d show ?thesis by auto
qed

lemma no_wal_found: "wal_log cdc w es \<Longrightarrow> find_wal_files_after (dir w) s = []"
proof -
  assume log: "wal_log cdc w es"
  have "wal_sequence_of n = None" if "n \<in> fst ` set (dir w)" for n
    using wal_log_names [OF log that] wal_sequence_of_log by auto
  then show ?thesis by (auto simp: find_wal_files_after_def filter_empty_conv)
qed

text \<open>
  C32. Recovery to a point in time never recovers anything from the log: for every directory that
  the log writer leaves, whatever it holds and whatever the target time, the recovery is the restore
  of the backup alone, and it succeeds.
\<close>

theorem pitr_ignores_the_log:
  assumes "wal_log cdc w es" and "restore_backup scdc d path p = (p1, Inr s)"
  shows "point_in_time_recovery scdc cdc rc now d path target (dir w) p = (p1, Inr ())"
  by (simp add: point_in_time_recovery_def assms(2) replay_wal_to_time_def no_wal_found [OF assms(1)])

text \<open>The entries of a log in which times do not decrease and sequence numbers increase.\<close>

fun monotone_from :: "int option \<Rightarrow> u64 \<Rightarrow> 's wal_entry list \<Rightarrow> bool" where
  "monotone_from ts s [] = True"
| "monotone_from ts s (e # es) =
     ((case ts of None \<Rightarrow> True | Some t \<Rightarrow> t \<le> entry_time e) \<and> s < entry_seq e \<and>
      monotone_from (Some (entry_time e)) (entry_seq e) es)"

fun apply_all ::
  "'s replay_codec \<Rightarrow> int \<Rightarrow> 's wal_entry list \<Rightarrow> persistent_layer \<Rightarrow> persistent_layer option"
where
  "apply_all rc now [] p = Some p"
| "apply_all rc now (e # es) p =
     (case apply_operation rc now p (entry_op e) of
        (p1, Inl _) \<Rightarrow> None | (p1, Inr _) \<Rightarrow> apply_all rc now es p1)"

definition up_to :: "int \<Rightarrow> 's wal_entry list \<Rightarrow> 's wal_entry list" where
  "up_to target es = takeWhile (\<lambda>e. entry_time e \<le> target) es"

definition mark :: "int option \<times> u64 \<Rightarrow> 's wal_entry \<Rightarrow> int option \<times> u64" where
  "mark m e = (Some (entry_time e), entry_seq e)"

lemma pitr_file_entries:
  assumes "read_entries cdc bs = (es, None)" and "monotone_from ts s es"
    and "apply_all rc now (up_to target es) p = Some p'"
  shows "pitr_file cdc rc now target bs ts s p =
     (p', if up_to target es = es
          then PitrGo (fst (foldl mark (ts, s) es)) (snd (foldl mark (ts, s) es))
          else PitrReturn (Inr ()))"
  using assms
proof (induction bs arbitrary: es ts s p rule: measure_induct_rule [of length])
  case (less bs)
  obtain r rest where n: "next_entry cdc bs = (r, rest)" by fastforce
  show ?case
  proof (cases es)
    case Nil
    then have "r = Inr None" using less.prems(1) n
      by (auto simp: read_entries.simps [of cdc bs] split: sum.splits option.splits prod.splits)
    with Nil less.prems(3) n show ?thesis
      by (subst pitr_file.simps) (simp add: up_to_def)
  next
    case (Cons e es')
    then have r: "r = Inr (Some e)" and rest: "read_entries cdc rest = (es', None)" using less.prems(1) n
      by (auto simp: read_entries.simps [of cdc bs] split: sum.splits option.splits prod.splits)
    show ?thesis
    proof (cases "entry_time e \<le> target")
      case False
      then have "up_to target es = []" using Cons by (simp add: up_to_def)
      with False Cons n r less.prems(3) show ?thesis by (subst pitr_file.simps) simp
    next
      case True
      then have u: "up_to target es = e # up_to target es'" using Cons by (simp add: up_to_def)
      with less.prems(3) obtain p1 where p1: "apply_operation rc now p (entry_op e) = (p1, Inr ())"
        and all: "apply_all rc now (up_to target es') p1 = Some p'"
        by (auto split: prod.splits sum.splits)
      from less.prems(2) Cons have m: "monotone_from (Some (entry_time e)) (entry_seq e) es'"
        and g: "\<not> (case ts of None \<Rightarrow> False | Some t \<Rightarrow> entry_time e < t)" "\<not> entry_seq e \<le> s"
        by (auto split: option.splits)
      have "length rest < length bs" using next_entry_shorter [OF n] r by simp
      from less.IH [OF this rest m all] show ?thesis
        using True n r p1 g u Cons by (subst pitr_file.simps) (auto simp: mark_def)
    qed
  qed
qed

lemma monotone_from_append:
  "monotone_from ts s (xs @ ys) \<longleftrightarrow>
   monotone_from ts s xs \<and> monotone_from (fst (foldl mark (ts, s) xs)) (snd (foldl mark (ts, s) xs)) ys"
  by (induction xs arbitrary: ts s) (auto simp: mark_def)

lemma up_to_append: "up_to target (xs @ ys) = (if up_to target xs = xs then xs @ up_to target ys else up_to target xs)"
  by (auto simp: up_to_def takeWhile_append takeWhile_eq_all_conv)

lemma apply_all_append:
  "apply_all rc now (xs @ ys) p = (case apply_all rc now xs p of None \<Rightarrow> None | Some p1 \<Rightarrow> apply_all rc now ys p1)"
  by (induction xs arbitrary: p) (auto split: prod.splits sum.splits)

lemma pitr_files_entries:
  assumes "list_all2 (\<lambda>n es. \<exists>f. map_of d n = Some f \<and> read_entries cdc (file_bytes f) = (es, None)) ns ess"
    and "monotone_from ts s (concat ess)" and "apply_all rc now (up_to target (concat ess)) p = Some p'"
  shows "pitr_files cdc rc now target d ns ts s p = (p', Inr ())"
  using assms
proof (induction ns ess arbitrary: ts s p rule: list_all2_induct)
  case (Cons n ns es ess)
  from Cons.hyps(1) obtain f where f: "map_of d n = Some f" "read_entries cdc (file_bytes f) = (es, None)" by blast
  from Cons.prems(1) have m: "monotone_from ts s es"
    "monotone_from (fst (foldl mark (ts, s) es)) (snd (foldl mark (ts, s) es)) (concat ess)"
    by (simp_all add: monotone_from_append)
  obtain p1 where p1: "apply_all rc now (up_to target es) p = Some p1"
    and go: "up_to target es = es \<Longrightarrow> apply_all rc now (up_to target (concat ess)) p1 = Some p'"
    and stop: "up_to target es \<noteq> es \<Longrightarrow> p1 = p'"
    using Cons.prems(2) by (auto simp: up_to_append apply_all_append split: if_splits option.splits)
  show ?case
    using pitr_file_entries [OF f(2) m(1) p1] Cons.IH [OF m(2) go] f(1) stop by auto
qed (simp add: up_to_def)

text \<open>
  Where log files are found, the recovery applies exactly the entries up to the target time:
  when the files named by the search are readable, their times do not decrease and their sequence
  numbers grow beyond that of the backup, the layer afterwards is the layer with the operations of
  the longest prefix of entries no later than the target time applied in order.
\<close>

theorem pitr_applies_prefix:
  assumes "list_all2 (\<lambda>n es. \<exists>f. map_of d n = Some f \<and> read_entries cdc (file_bytes f) = (es, None))
       (find_wal_files_after d s) ess"
    and "monotone_from None s (concat ess)" and "apply_all rc now (up_to target (concat ess)) p = Some p'"
  shows "replay_wal_to_time cdc rc now d s target p = (p', Inr ())"
  by (simp add: replay_wal_to_time_def pitr_files_entries [OF assms])

section \<open>Verification\<close>

lemma snap_files_content: "map_of (disk_snap_files d) path = file_content d path"
  by (simp add: disk_snap_files_def file_content_def map_of_map)

text \<open>
  A backup that verifies need not load: verification reads the header only, so that the first 256
  bytes of a written snapshot alone pass it, although nothing shorter than the whole file loads.
\<close>

theorem verified_backup_need_not_load:
  assumes "snapshot_codec_ok cdc now s p" and "pl_canonical cdc p" and "layer_fits p"
    and "create_snapshot cdc now p path s = (file, Some (Inr ()))"
    and "file_content d path = Some (take 256 file)"
  shows "verify_backup cdc d path = Inr True \<and>
     snd (restore_backup cdc d path p0) = Inl ''Failed to load snapshot''"
proof -
  obtain njs where njs: "map fst njs = list_collections p"
    "\<forall>nj \<in> set njs. colhdr_to_vec cdc (header_of_collection cdc p (fst nj)) = Inr (snd nj)"
    using collection_texts [OF assms(1)] by metis
  obtain hj mj rest where hj: "header_to_vec cdc (sealed_header cdc now s) = Inr hj" "length hj \<le> 256"
    and fl: "file = header_bytes hj @ rest" and rest: "rest \<noteq> []"
    using create_snapshot_bytes [OF assms(1,2,4) njs]
    by (metis append_is_Nil_conv footer_bytes_def replicate_empty zero_neq_numeral)
  have len: "length (header_bytes hj) = 256" using hj(2) by (simp add: header_bytes_def)
  then have bs: "take 256 file = header_bytes hj" by (simp add: fl)
  have open_r: "reader_open (disk_snap_files d) path = Inr (reader_on (header_bytes hj))"
    using assms(5) by (simp add: reader_open_def snap_files_content bs)
  have "verify_backup cdc d path = Inr True"
    using read_header_bytes [OF assms(1) hj, of "[]"] by (simp add: verify_backup_def open_r)
  moreover have "256 < length file" using rest len by (simp add: fl)
  from truncated_load [OF assms(1-4) this, of p0] obtain e where
    e: "snd (load_snapshot cdc [(path, take 256 file)] path p0) = Inl e" by blast
  have "load_snapshot cdc (disk_snap_files d) path p0 = load_snapshot cdc [(path, take 256 file)] path p0"
    by (simp add: load_snapshot_def open_r) (simp add: reader_open_def bs)
  then have "snd (restore_backup cdc d path p0) = Inl ''Failed to load snapshot''"
    using e assms(5) by (auto simp: restore_backup_def file_exists_def file_content_def split: prod.splits)
  ultimately show ?thesis ..
qed

section \<open>Retention\<close>

lemma utc_le_total: "utc_le a b \<or> utc_le b a"
  by (auto simp: utc_le_def)

lemma utc_le_trans: "utc_le a b \<Longrightarrow> utc_le b c \<Longrightarrow> utc_le a c"
  by (auto simp: utc_le_def)

definition backup_paths :: "backup_info \<Rightarrow> string set" where
  "backup_paths b = {file_path b, with_extension (file_path b) ''meta''}"

lemma delete_backup_content: "file_content (delete_backup d b) q = (if q \<in> backup_paths b then None else file_content d q)"
  by (auto simp: delete_backup_def file_content_def disk_remove_def map_of_al_del backup_paths_def)

lemma delete_backups_content:
  "file_content (foldl delete_backup d bs) q =
   (if q \<in> (\<Union>b \<in> set bs. backup_paths b) then None else file_content d q)"
  by (induction bs arbitrary: d) (auto simp: delete_backup_content)


section \<open>Creating and restoring\<close>

lemma cleanup_content:
  "cleanup_old_backups cfg bc d = (d', n) \<Longrightarrow> file_content d' q \<noteq> None \<Longrightarrow> file_content d' q = file_content d q"
  by (auto simp: cleanup_old_backups_def Let_def delete_backups_content split: if_splits)

lemma file_content_write: "file_content (disk_write now d a bs) q = (if q = a then Some bs else file_content d q)"
  by (simp add: file_content_def disk_write_def map_of_al_put)

lemma file_content_rename:
  "file_content (disk_rename d a b) q =
     (if file_content d a = None then file_content d q
      else if q = b then file_content d a else if q = a then None else file_content d q)"
  by (auto simp: file_content_def disk_rename_def map_of_al_put map_of_al_del split: option.splits)

text \<open>The two files are written under temporary names and renamed.\<close>

lemma committed_content:
  assumes "tm \<noteq> tmp" and "tm \<noteq> fin" and "tmp \<noteq> fin" and "fm \<noteq> fin"
  shows "file_content (disk_rename (disk_rename (disk_write t3 (disk_write t2 d tmp fbs) tm mbs) tmp fin) tm fm) fin = Some fbs"
  using assms by (simp add: file_content_write file_content_rename)

lemma create_backup_file:
  assumes "create_backup cfg cdc bc now1 now2 now3 d p s = (d', Some (Inr info))"
    and "CHR ''/'' \<notin> set (time_stamp bc now1)" and "file_exists d' (file_path info)"
  obtains fbs tmp where "create_snapshot cdc now2 p tmp s = (fbs, Some (Inr ()))"
    and "file_content d' (file_path info) = Some fbs"
proof -
  let ?fn = "backup_filename cfg (''backup_'' @ time_stamp bc now1)"
  let ?tmp = "join_path (backup_dir cfg) (?fn @ ''.tmp'')" and ?fin = "join_path (backup_dir cfg) ?fn"
  let ?tm = "with_extension ?tmp ''meta.tmp''" and ?fm = "with_extension ?fin ''meta''"
  from assms(1) obtain fbs mbs where fl: "create_snapshot cdc now2 p ?tmp s = (fbs, Some (Inr ()))"
    and d'0: "d' = fst (cleanup_old_backups cfg bc (disk_rename (disk_rename (disk_write now3
        (disk_write now2 (create_dir d (backup_dir cfg)) ?tmp fbs) ?tm mbs) ?tmp ?fin) ?tm ?fm))"
    and info: "file_path info = ?fin"
    by (auto simp: create_backup_def Let_def split: prod.splits option.splits sum.splits)
  define d5 where "d5 = disk_rename (disk_rename (disk_write now3
        (disk_write now2 (create_dir d (backup_dir cfg)) ?tmp fbs) ?tm mbs) ?tmp ?fin) ?tm ?fm"
  have fn: "CHR ''/'' \<notin> set ?fn" "?fn \<noteq> []" using assms(2) by (auto simp: backup_filename_def)
  have "?tm = join_path (backup_dir cfg) (?fn @ ''.meta.tmp'')"
    using with_extension_join [of ?fn "''tmp''"] fn by simp
  then have ne1: "?tm \<noteq> ?tmp" "?tm \<noteq> ?fin" "?tmp \<noteq> ?fin" by (simp_all add: join_path_def)
  have "\<exists>x. ?fm = x @ ''.meta''" by (auto simp: with_extension_def join_path_def)
  moreover have "last ?fin \<noteq> CHR ''a''" by (simp add: join_path_def backup_filename_def)
  ultimately have ne2: "?fm \<noteq> ?fin" by auto
  have d5: "file_content d5 ?fin = Some fbs"
    unfolding d5_def by (rule committed_content) (use ne1 ne2 in auto)
  have "cleanup_old_backups cfg bc d5 = (d', snd (cleanup_old_backups cfg bc d5))"
    using d'0 by (simp add: d5_def)
  from cleanup_content [OF this, of ?fin] d5 assms(3) have "file_content d' ?fin = Some fbs"
    by (simp add: file_exists_def file_content_def info)
  with fl info show ?thesis by (intro that) auto
qed

text \<open>
  C5. A backup restores: when \<open>create_backup\<close> succeeds and retention leaves its file, restoring from
  that file returns the sequence number of the backup and puts back every document as it was;
  documents that the layer has got since stay.
\<close>

theorem backup_restores:
  assumes "create_backup cfg cdc bc now1 now2 now3 d p s = (d', Some (Inr info))"
    and "CHR ''/'' \<notin> set (time_stamp bc now1)" and "file_exists d' (file_path info)"
    and "snapshot_codec_ok cdc now2 s p" and "pl_canonical cdc p" and "layer_fits p"
  shows "\<exists>p'. restore_backup cdc d' (file_path info) p0 = (p', Inr s) \<and> raw_get p' = raw_get p0 ++ raw_get p"
proof -
  obtain fbs tmp where c: "create_snapshot cdc now2 p tmp s = (fbs, Some (Inr ()))"
    and f: "file_content d' (file_path info) = Some fbs"
    using create_backup_file [OF assms(1-3)] by blast
  then have "map_of (disk_snap_files d') (file_path info) = Some fbs" by (simp add: snap_files_content)
  from load_created [OF assms(4-6) c this, of p0] obtain p' where
    "load_snapshot cdc (disk_snap_files d') (file_path info) p0 = (p', Inr s)" "raw_get p' = raw_get p0 ++ raw_get p"
    by blast
  then show ?thesis using assms(3) by (simp add: restore_backup_def)
qed

section \<open>Export and import\<close>

lemma import_loop_texts:
  assumes "\<forall>kv \<in> set kvs. doc_text_of cdc coll kv" and "deserialize_all cdc (map snd kvs) = Inr ds"
  shows "import_loop cdc coll ds n p = (put_all kvs p, Inr (n + of_nat (length ds)))"
  using assms
proof (induction kvs arbitrary: ds n p)
  case Nil
  then show ?case by (simp add: put_all_def)
next
  case (Cons kv kvs)
  from Cons.prems obtain d ds' where ds: "ds = d # ds'" and d: "doc_from_slice cdc (snd kv) = Inr d"
    and ds': "deserialize_all cdc (map snd kvs) = Inr ds'"
    by (auto split: sum.splits)
  from Cons.prems(1) d have t: "doc_to_vec cdc d = Inr (snd kv)" "fst kv = make_document_key cdc coll (doc_id d)"
    by (auto simp: doc_text_of_def)
  have "import_loop cdc coll ds' (n + 1) (raw_put p (fst kv) (snd kv)) =
      (put_all kvs (raw_put p (fst kv) (snd kv)), Inr (n + 1 + of_nat (length ds')))"
    using Cons.prems(1) by (intro Cons.IH [OF _ ds']) auto
  then show ?case
    by (simp add: ds insert_document_raw [OF t(1)] t(2) [symmetric] put_all_def case_prod_beta add.commute add.left_commute)
qed

lemma starts_with_names:
  assumes "CHR '':'' \<notin> set coll"
  shows "before_colon k = Some coll \<longleftrightarrow> starts_with k (coll @ '':'')"
proof
  assume "starts_with k (coll @ '':'')"
  then obtain r where "k = coll @ CHR '':'' # r"
    unfolding starts_with_def by (metis append.assoc append_Cons append_Nil append_take_drop_id)
  then show "before_colon k = Some coll" using takeWhile_sep [OF assms] by (simp add: before_colon_def)
qed (auto dest!: before_colon_SomeD simp: starts_with_def)

lemma drop_collection_ok:
  assumes "CHR '':'' \<notin> set coll"
  shows "snd (drop_collection cdc p coll) = Inr ()"
proof -
  let ?p = "delete_metadata (p\<lparr>documents := filter (\<lambda>(k, v). \<not> starts_with k (coll @ '':'')) (documents p)\<rparr>) (''collection:'' @ coll)"
  have "coll \<notin> set (get_collections_list ?p)"
    using starts_with_names [OF assms] listed_names [of coll ?p]
    by (auto simp: list_collections_def delete_metadata_def)
  then show ?thesis by (simp add: drop_collection_def Let_def)
qed

lemma stored_restored:
  assumes "pl_wf p"
  shows "(\<lambda>k. if starts_with k (coll @ '':'') then None else raw_get p k) ++ map_of (rev (stored_in p coll)) = raw_get p"
proof -
  have "distinct (map fst (stored_in p coll))"
    using assms by (simp add: pl_wf_def stored_in_def distinct_map_filter)
  then have "map_of (rev (stored_in p coll)) = map_of (stored_in p coll)" by (intro map_of_same_set) auto
  moreover have "map_of (filter (\<lambda>(k, v). starts_with k (coll @ '':'')) xs) k =
      (if starts_with k (coll @ '':'') then map_of xs k else None)" for k and xs :: "(string \<times> bytes) list"
    by (induction xs) auto
  ultimately show ?thesis
    by (auto simp: map_add_def raw_get_def stored_in_def fun_eq_iff split: option.splits)
qed

text \<open>
  Exporting a collection and importing it back in place of itself changes no document, and both
  report the same number of documents.
\<close>

theorem export_import_identity:
  assumes "pl_canonical cdc p" and "coll \<in> set (list_collections p)"
    and "export_collection cdc bc now d p coll path pretty = (d1, Inr n)"
    and "text_roundtrip (docs_to_string bc pretty) (docs_from_str bc) (scan_or_default cdc p coll)"
  shows "\<exists>p'. import_collection cdc bc d1 p coll path True = (p', Inr n) \<and> raw_get p' = raw_get p"
proof -
  have colon: "CHR '':'' \<notin> set coll" using assms(2) by (auto simp: listed_names dest: before_colon_SomeD)
  have texts: "\<forall>kv \<in> set (stored_in p coll). doc_text_of cdc coll kv"
    using stored_in_text [OF assms(1,2)] by blast
  then obtain ds where ds: "deserialize_all cdc (map snd (stored_in p coll)) = Inr ds"
    using scan_texts by blast
  then have scan: "scan_collection cdc p coll = Inr ds" "scan_or_default cdc p coll = ds"
    by (simp_all add: scan_or_default_def scan_collection_def stored_in_def)
  from assms(3,4) scan obtain json where j: "docs_from_str bc json = Inr ds" "n = of_nat (length ds)"
    and d1: "d1 = disk_write now d path json"
    by (auto simp: export_collection_def text_roundtrip_def split: sum.splits)
  obtain pd where pd: "drop_collection cdc p coll = (pd, Inr ())"
    using drop_collection_ok [OF colon] by (metis prod.collapse)
  have "import_collection cdc bc d1 p coll path True = (put_all (stored_in p coll) pd, Inr n)"
    using import_loop_texts [OF texts ds, of 0 pd] j pd
    by (simp add: import_collection_def d1 file_content_write)
  moreover have "raw_get pd = (\<lambda>k. if starts_with k (coll @ '':'') then None else raw_get p k)"
    using raw_get_drop [of cdc p coll] pd by auto
  then have "raw_get (put_all (stored_in p coll) pd) = raw_get p"
    using assms(1) by (simp add: raw_get_put_all stored_restored pl_canonical_def)
  ultimately show ?thesis by blast
qed

section \<open>Instances\<close>

definition example_disk :: "bytes \<Rightarrow> disk" where
  "example_disk bs = \<lparr>disk_dirs = [], disk_files = [(''s'', \<lparr>df_bytes = bs, df_created = example_time\<rparr>)]\<rparr>"

definition example_snapshot_bytes :: bytes where
  "example_snapshot_bytes = fst (create_snapshot example_snapshot_codec example_time example_layer ''s'' 100)"

theorem pitr_ignores_the_log_witness:
  "\<exists>p1. raw_get p1 = raw_get pl_new ++ raw_get example_layer \<and>
     point_in_time_recovery example_snapshot_codec example_wal_codec example_replay_codec 0
       (example_disk example_snapshot_bytes) ''s'' 5
       (dir (fst (append_all example_wal_codec (wal_writer_new example_wal_codec example_config []) example_ops)))
       pl_new = (p1, Inr ())"
proof -
  have "length ([] :: unit wal_entry list) + length example_ops < 2 ^ 64" by (simp add: example_ops_def)
  from append_all_log [OF wal_writer_new_log example_ops_ok this, of example_config] obtain es where
    log: "wal_log example_wal_codec
      (fst (append_all example_wal_codec (wal_writer_new example_wal_codec example_config []) example_ops)) es"
    by auto
  have "map_of (disk_snap_files (example_disk example_snapshot_bytes)) ''s'' =
      Some (fst (create_snapshot example_snapshot_codec example_time example_layer ''s'' 100))"
    by (simp add: disk_snap_files_def example_disk_def example_snapshot_bytes_def)
  from load_created [OF example_snapshot_facts(1-3) example_snapshot_facts(4) this, of pl_new] obtain p1 where
    l: "load_snapshot example_snapshot_codec (disk_snap_files (example_disk example_snapshot_bytes)) ''s'' pl_new =
      (p1, Inr 100)" and m: "raw_get p1 = raw_get pl_new ++ raw_get example_layer" by blast
  have "restore_backup example_snapshot_codec (example_disk example_snapshot_bytes) ''s'' pl_new = (p1, Inr 100)"
    using l by (simp add: restore_backup_def file_exists_def example_disk_def)
  from pitr_ignores_the_log [OF log this] m show ?thesis by blast
qed

theorem verified_backup_need_not_load_witness:
  "verify_backup example_snapshot_codec (example_disk (take 256 example_snapshot_bytes)) ''s'' = Inr True"
  using verified_backup_need_not_load [OF example_snapshot_facts(1-3) example_snapshot_facts(4),
      of "example_disk (take 256 example_snapshot_bytes)" "''s''" pl_new]
  by (simp add: file_content_def example_disk_def example_snapshot_bytes_def)

definition pitr_dir :: wal_dir where
  "pitr_dir = [(''wal-00009.wal'', tiny_file 6)]"

lemma pitr_dir_found: "find_wal_files_after pitr_dir 5 = [''wal-00009.wal'']"
  by (simp add: find_wal_files_after_def pitr_dir_def wal_sequence_of_def path_extension_def file_stem_def
      file_name_def after_last_def before_last_def has_extension_def Let_def starts_with_def parse_u64_def
      is_digit_def decimal_def digit_val_def)

theorem pitr_applies_prefix_witness:
  "\<exists>p'. replay_wal_to_time tiny_codec example_replay_codec 0 pitr_dir 5 0 pl_new = (p', Inr ())"
proof -
  have m: "map_of pitr_dir ''wal-00009.wal'' = Some (tiny_file 6)" by (simp add: pitr_dir_def)
  have "list_all2 (\<lambda>n es. \<exists>f. map_of pitr_dir n = Some f \<and> read_entries tiny_codec (file_bytes f) = (es, None))
      (find_wal_files_after pitr_dir 5) [[tiny_entry 6]]"
    using m tiny_file_entries [of 6] by (simp add: pitr_dir_found tiny_entry_def)
  from pitr_applies_prefix [OF this, of example_replay_codec 0 0 pl_new] show ?thesis
    by (simp add: tiny_entry_def up_to_def)
qed

definition retention_disk :: disk where
  "retention_disk = \<lparr>disk_dirs = [''b''], disk_files =
     map (\<lambda>c. (''b/'' @ [c] @ ''.veddb'', \<lparr>df_bytes = [], df_created = example_time\<rparr>)) ''123456''\<rparr>"

definition example_backup_codec :: backup_codec where
  "example_backup_codec = \<lparr>time_stamp = (\<lambda>t. ''t''), info_to_string = (\<lambda>i. Inr []), info_from_str = (\<lambda>bs. Inl ''''),
     docs_to_string = (\<lambda>pretty ds. Inr []), docs_from_str = (\<lambda>bs. Inr [with_id 7 0])\<rparr>"


lemma few_backups: "length (disk_files d) \<le> 5 \<Longrightarrow> cleanup_old_backups cfg bc d = (d, 0)"
proof -
  assume few: "length (disk_files d) \<le> 5"
  have "length (filter P (read_dir d x)) \<le> length (disk_files d)" for P x
    unfolding read_dir_def by (metis length_filter_le length_map order_trans)
  with few have "length (list_backups cfg bc d) \<le> 5"
    by (auto simp: list_backups_def intro: order_trans)
  then have "length (filter P (list_backups cfg bc d)) \<le> 5" for P
    by (meson length_filter_le order_trans)
  then show ?thesis by (simp add: cleanup_old_backups_def MAX_BACKUPS_def Let_def)
qed

definition example_backup_config :: backup_config where
  "example_backup_config = \<lparr>include_wal = False, compress = False, backup_dir = ''b''\<rparr>"

definition example_backup :: "disk \<times> (string, backup_info) result option" where
  "example_backup = create_backup example_backup_config example_snapshot_codec example_backup_codec
     example_time example_time example_time \<lparr>disk_dirs = [], disk_files = []\<rparr> example_layer 100"

lemma example_backup_made:
  "\<exists>info. example_backup = (fst example_backup, Some (Inr info)) \<and> file_exists (fst example_backup) (file_path info) \<and>
     file_path info = ''b/backup_t.veddb''"
proof -
  obtain fbs where c: "create_snapshot example_snapshot_codec example_time example_layer ''b/backup_t.veddb.tmp'' 100 =
      (fbs, Some (Inr ()))" using example_created by metis
  have paths: "with_extension ''b/backup_t.veddb.tmp'' ''meta.tmp'' = ''b/backup_t.veddb.meta.tmp''"
    "with_extension ''b/backup_t.veddb'' ''meta'' = ''b/backup_t.meta''"
    by code_simp+
  show ?thesis
    by (simp add: example_backup_def create_backup_def example_backup_config_def example_backup_codec_def Let_def
        backup_filename_def join_path_def c paths create_dir_def disk_write_def disk_rename_def al_del_def
        few_backups file_exists_def)
qed

theorem backup_restores_witness:
  "\<exists>p'. restore_backup example_snapshot_codec (fst example_backup) ''b/backup_t.veddb'' pl_new = (p', Inr 100) \<and>
     raw_get p' = raw_get pl_new ++ raw_get example_layer"
proof -
  obtain info where "example_backup = (fst example_backup, Some (Inr info))"
    and f: "file_exists (fst example_backup) (file_path info)" "file_path info = ''b/backup_t.veddb''"
    using example_backup_made by blast
  then have "create_backup example_backup_config example_snapshot_codec example_backup_codec
     example_time example_time example_time \<lparr>disk_dirs = [], disk_files = []\<rparr> example_layer 100 =
     (fst example_backup, Some (Inr info))" by (simp add: example_backup_def)
  from backup_restores [OF this _ f(1) example_snapshot_facts(1-3), of pl_new] show ?thesis
    by (simp add: f(2) example_backup_codec_def)
qed

end
