(* ===== verification/Replication_Proofs.thy ===== *)
theory Replication_Proofs
  imports Replication_Manager Backup_Proofs
begin

text \<open>
  Properties of replication: which entries of the log a slave is sent, what the handshake does when
  there are none, what a full sync leaves on a slave, and what the task of a slave can and cannot
  reach.
\<close>

section \<open>The entries of the log\<close>

lemma log_extension: "path_extension (wal_file_path n) = Some ''log''"
proof -
  let ?d = "pad_zeros 10 (show_nat (unat n))"
  have "list_all is_digit ?d" using digits_show digits_zeros by (simp add: pad_zeros_def)
  then have d: "CHR ''/'' \<notin> set ?d" "CHR ''.'' \<notin> set ?d" using digits_no_mark by (auto simp: list_all_iff)
  have split: "wal_file_path n = (''wal-'' @ ?d) @ CHR ''.'' # ''log''" by (simp add: wal_file_path_def)
  have "file_name (wal_file_path n) = wal_file_path n"
    unfolding file_name_def by (rule after_last_absent) (simp add: split d)
  moreover have "after_last CHR ''.'' (wal_file_path n) = ''log''" unfolding split by (rule after_last_sep) simp
  moreover have "before_last CHR ''.'' (wal_file_path n) = ''wal-'' @ ?d" unfolding split by (rule before_last_sep) simp
  ultimately show ?thesis by (simp add: path_extension_def has_extension_def Let_def) (simp add: wal_file_path_def)
qed

lemma entries_of_files_read:
  assumes "list_all2 (\<lambda>n es. \<exists>f. map_of d n = Some f \<and> read_entries cdc (file_bytes f) = (es, None)) ns ess"
  shows "entries_of_files cdc d ns = Inr (concat ess)"
  using assms by (induction ns ess rule: list_all2_induct) auto

lemma insort_by_least: "\<forall>y \<in> set xs. le x y \<Longrightarrow> insort_by le x xs = x # xs"
  by (cases xs) auto

lemma sort_by_sorted: "sorted_wrt le xs \<Longrightarrow> sort_by le xs = xs"
  by (induction xs) (auto simp: sort_by_def insort_by_least)

text \<open>The files of a durable log as the sync manager sees them.\<close>

lemma sync_log:
  assumes "wal_log cdc w es" and "wal_durable w" and "length es < 10 ^ 10"
  obtains es' ess' where "list_all2 (same_text cdc) es es'" and "concat ess' = es'" and "ess' \<noteq> []"
    and "sync_wal_files (dir w) = map fst (dir w)"
    and "list_all2 (\<lambda>n es. \<exists>f. map_of (dir w) n = Some f \<and> read_entries cdc (file_bytes f) = (es, None))
       (map fst (dir w)) ess'"
proof -
  from wal_log_durable [OF assms(1,2)] obtain ess where h: "list_all2 (holds cdc) (dir w) ess"
    and es: "concat ess = es"
    and n: "map fst (dir w) = map (\<lambda>i. wal_file_path (of_nat i)) [0..<Suc (unat (file_number w))]" by blast
  have "unat (file_number w) < 10 ^ 10" using assms(1,3) by (simp add: wal_log_def)
  note names = names_sorted [OF n this]
  have "\<forall>e \<in> set (concat ess). codec_roundtrips cdc e \<and> checked cdc e"
    using assms(1) by (simp add: es wal_log_def)
  from read_files [OF h names(2) this] obtain ess' where
    r: "list_all2 (\<lambda>n es. \<exists>f. map_of (dir w) n = Some f \<and> read_entries cdc (file_bytes f) = (es, None)) (map fst (dir w)) ess'"
    and st: "list_all2 (same_text cdc) es (concat ess')" unfolding es by blast
  have ext: "path_extension x = Some ''log'' \<and> is_wal_name x" if "x \<in> set (map fst (dir w))" for x
    using that unfolding n by (auto simp: log_extension simp del: upt_Suc)
  then have "filter (\<lambda>x. path_extension x = Some ''log'') (map fst (dir w)) = filter is_wal_name (map fst (dir w))"
    by (intro filter_cong) auto
  then have "sync_wal_files (dir w) = scan_wal_files (dir w)" by (simp add: sync_wal_files_def scan_wal_files_def)
  then have s: "sync_wal_files (dir w) = map fst (dir w)" by (simp add: names(1))
  have "ess' \<noteq> []" using list_all2_lengthD [OF r] n by auto
  from that [OF st refl this s r] show ?thesis .
qed

lemma log_sequences:
  assumes "wal_log cdc w es" and "list_all2 (same_text cdc) es es'" and "length es < 10 ^ 10"
  shows "sorted_wrt (\<lambda>a b. entry_seq a \<le> entry_seq b) es'" and "map entry_seq es' = map of_nat [0..<length es]"
proof -
  have "map entry_seq es' = map entry_seq es"
    using assms(2) by (induction es es' rule: list_all2_induct) (auto simp: same_text_def)
  with assms(1) show m: "map entry_seq es' = map of_nat [0..<length es]" by (simp add: wal_log_def)
  have "sorted_wrt (\<le>) (map (of_nat :: nat \<Rightarrow> u64) [0..<length es])"
    using assms(3) by (auto simp: sorted_wrt_map sorted_wrt_iff_nth_less word_le_nat_alt unat_of_nat)
  then show "sorted_wrt (\<lambda>a b. entry_seq a \<le> entry_seq b) es'"
    unfolding m [symmetric] by (simp add: sorted_wrt_map)
qed

lemma entries_since:
  assumes "wal_log cdc w es" and "wal_durable w" and "length es < 10 ^ 10"
  obtains es' where "list_all2 (same_text cdc) es es'"
    and "get_wal_entries_since cdc (dir w) from_seq = Inr (filter (\<lambda>e. from_seq < entry_seq e) es')"
proof -
  obtain es' ess' where st: "list_all2 (same_text cdc) es es'" and c: "concat ess' = es'"
    and s: "sync_wal_files (dir w) = map fst (dir w)"
    and r: "list_all2 (\<lambda>n es. \<exists>f. map_of (dir w) n = Some f \<and> read_entries cdc (file_bytes f) = (es, None))
       (map fst (dir w)) ess'" using sync_log [OF assms] by blast
  have "sorted_wrt (\<lambda>a b. entry_seq a \<le> entry_seq b) (filter (\<lambda>e. from_seq < entry_seq e) es')"
    by (rule sorted_wrt_filter [OF log_sequences(1) [OF assms(1) st assms(3)]])
  then have "get_wal_entries_since cdc (dir w) from_seq = Inr (filter (\<lambda>e. from_seq < entry_seq e) es')"
    by (simp add: get_wal_entries_since_def s entries_of_files_read [OF r] c sort_by_sorted)
  with st show ?thesis by (rule that)
qed

lemma first_sequence:
  assumes "wal_log cdc w es" and "wal_durable w" and "length es < 10 ^ 10"
  shows "get_available_wal_range cdc (dir w) m = Inr (0, sync_sequence m)"
proof -
  obtain es' ess' where st: "list_all2 (same_text cdc) es es'" and c: "concat ess' = es'" and ne: "ess' \<noteq> []"
    and s: "sync_wal_files (dir w) = map fst (dir w)"
    and r: "list_all2 (\<lambda>n es. \<exists>f. map_of (dir w) n = Some f \<and> read_entries cdc (file_bytes f) = (es, None))
       (map fst (dir w)) ess'" using sync_log [OF assms] by blast
  from ne r obtain xs xss n ns where ess': "ess' = xs # xss" and ns: "map fst (dir w) = n # ns"
    by (cases ess'; cases "map fst (dir w)") auto
  with r obtain f where f: "map_of (dir w) n = Some f" "read_entries cdc (file_bytes f) = (xs, None)" by auto
  obtain res rest where nx: "next_entry cdc (file_bytes f) = (res, rest)" by fastforce
  have seq0: "entry_seq (hd es') = 0" if "es' \<noteq> []"
  proof -
    have "hd (map entry_seq es') = (of_nat 0 :: u64)"
      unfolding log_sequences(2) [OF assms(1) st assms(3)] using that st by (auto simp: upt_rec list_all2_lengthD)
    then show ?thesis using that by (simp add: hd_map)
  qed
  consider "res = Inr None" | e where "res = Inr (Some e)" "xs \<noteq> []" "hd xs = e"
    using f(2) nx by (auto simp: read_entries.simps [of cdc "file_bytes f"] split: sum.splits option.splits prod.splits)
  then show ?thesis
  proof cases
    case 1
    then show ?thesis by (simp add: get_available_wal_range_def s ns f(1) nx)
  next
    case (2 e)
    then have "es' \<noteq> []" "hd es' = e" using c ess' by auto
    with seq0 2(1) show ?thesis by (simp add: get_available_wal_range_def s ns f(1) nx)
  qed
qed
section \<open>Frames of messages\<close>

definition message_ok :: "'s repl_codec \<Rightarrow> 's replication_message \<Rightarrow> bool" where
  "message_ok rp m \<longleftrightarrow>
     (case message_to_vec rp m of
        Inl _ \<Rightarrow> False | Inr bs \<Rightarrow> length bs \<le> MAX_MESSAGE \<and> message_from_slice rp bs = Inr m)"

definition message_frame :: "'s repl_codec \<Rightarrow> 's replication_message \<Rightarrow> bytes" where
  "message_frame rp m =
     (case message_to_vec rp m of Inl _ \<Rightarrow> [] | Inr bs \<Rightarrow> u32_to_le (of_nat (length bs)) @ bs)"

lemma send_frame:
  "message_ok rp m \<Longrightarrow> send_message rp c m = (c\<lparr>conn_out := conn_out c @ message_frame rp m\<rparr>, Inr ())"
  by (auto simp: message_ok_def message_frame_def send_message_def to_bytes_def split: sum.splits)

lemma receive_frame:
  assumes "message_ok rp m"
  shows "receive_message rp \<lparr>conn_in = message_frame rp m @ z, conn_closed = b, conn_out = out, repl_peer_addr = a, repl_connection_id = i\<rparr> =
     (\<lparr>conn_in = z, conn_closed = b, conn_out = out, repl_peer_addr = a, repl_connection_id = i\<rparr>, Inr m)"
proof -
  from assms obtain bs where bs: "message_to_vec rp m = Inr bs" "length bs \<le> MAX_MESSAGE" "message_from_slice rp bs = Inr m"
    by (auto simp: message_ok_def split: sum.splits)
  have "length bs < 2 ^ 32" using bs(2) by (simp add: MAX_MESSAGE_def)
  then have "unat (of_nat (length bs) :: u32) = length bs" by (simp only: unat_of_nat) simp
  with bs show ?thesis by (simp add: receive_message_def message_frame_def from_bytes_def Let_def)
qed

lemma receive_nothing:
  "receive_message rp \<lparr>conn_in = [], conn_closed = b, conn_out = out, repl_peer_addr = a, repl_connection_id = i\<rparr> =
     (\<lparr>conn_in = [], conn_closed = b, conn_out = out, repl_peer_addr = a, repl_connection_id = i\<rparr>,
      Inl (if b then ReplIoError else ReplTimeout))"
  by (simp add: receive_message_def short_read_def)

section \<open>The task of a slave\<close>

lemma stream_returns_error:
  "handle_replication_stream env now t evs m c = (m', c', Returned r) \<Longrightarrow> \<exists>e. r = Inl e"
  by (induction env now t evs m c rule: handle_replication_stream.induct)
    (auto split: prod.splits option.splits)

lemma connect_returns_error:
  "connect_to_master env now t sid evs m stream = (m', c', Returned r) \<Longrightarrow> \<exists>e. r = Inl e"
  by (auto simp: connect_to_master_def Let_def split: option.splits prod.splits sum.splits
      dest: stream_returns_error)

lemma stream_frame:
  "handle_replication_stream env now t evs m c = (m', c', r) \<Longrightarrow>
   rm_master_connection m' = rm_master_connection m \<and> rm_role m' = rm_role m \<and> rm_slaves m' = rm_slaves m"
  by (induction env now t evs m c rule: handle_replication_stream.induct)
    (auto simp: stream_message_def stream_heartbeat_def Let_def
      split: prod.splits option.splits sum.splits replication_message.splits)

lemma connect_frame:
  "connect_to_master env now t sid evs m stream = (m', c', r) \<Longrightarrow>
   rm_master_connection m' = rm_master_connection m \<and> rm_role m' = rm_role m \<and> rm_slaves m' = rm_slaves m"
  by (auto simp: connect_to_master_def Let_def split: option.splits prod.splits sum.splits dest: stream_frame)

text \<open>The iterations of the task, each with what it meets, from the start of a node.\<close>

type_synonym iteration = "int \<times> utc_time \<times> string \<times> stream_event list \<times> repl_connection option"

definition slave_run ::
  "'s repl_env \<Rightarrow> 's repl_manager \<times> exponential_backoff \<Rightarrow> iteration list \<Rightarrow> 's repl_manager \<times> exponential_backoff"
where
  "slave_run env s its = foldl (\<lambda>s (now, t, sid, evs, stream). slave_iteration env now t sid evs stream s) s its"

lemma slave_iteration_frame:
  assumes "slave_iteration env now t sid evs stream (m, b) = (m', b')"
  shows "rm_master_connection m' = rm_master_connection m \<and> rm_role m' = rm_role m \<and>
     (b' = b \<or> b' = fst (backoff_next b))"
proof -
  obtain m1 c r where c: "connect_to_master env now t sid evs m stream = (m1, c, r)" by (metis prod_cases3)
  with assms connect_frame [OF c] show ?thesis
    by (cases r) (auto simp: slave_iteration_def split: sum.splits dest: connect_returns_error)
qed

lemma slave_run_frame:
  "slave_run env (m, b) its = (m', b') \<Longrightarrow>
   rm_master_connection m' = rm_master_connection m \<and> rm_role m' = rm_role m \<and>
   (\<exists>k \<le> length its. b' = ((\<lambda>a. fst (backoff_next a)) ^^ k) b)"
proof (induction its arbitrary: m b)
  case Nil
  then show ?case by (simp add: slave_run_def)
next
  case (Cons it its)
  obtain now t sid evs stream where it: "it = (now, t, sid, evs, stream)" by (metis prod_cases5)
  obtain m1 b1 where s: "slave_iteration env now t sid evs stream (m, b) = (m1, b1)" by fastforce
  then have "slave_run env (m1, b1) its = (m', b')" using Cons.prems by (simp add: slave_run_def it)
  from Cons.IH [OF this] obtain k where k: "k \<le> length its" "b' = ((\<lambda>a. fst (backoff_next a)) ^^ k) b1"
    and f: "rm_master_connection m' = rm_master_connection m1" "rm_role m' = rm_role m1" by auto
  from slave_iteration_frame [OF s] k(2) have "b' = ((\<lambda>a. fst (backoff_next a)) ^^ k) b \<or> b' = ((\<lambda>a. fst (backoff_next a)) ^^ Suc k) b"
    by (auto simp del: funpow.simps simp: funpow_Suc_right)
  with slave_iteration_frame [OF s] f k(1) show ?case
    by (metis Suc_le_mono le_SucI length_Cons)
qed

text \<open>
  A slave is never healthy and its backoff never resets: \<open>connect_to_master\<close> returns only with an
  error, because the loop that follows the master has no other exit. So in every run of the task of
  a slave, whatever its master sends, the connection is never recorded, the health report says
  unhealthy, and the waiting time only grows to its maximum, also after sessions that worked.
\<close>

theorem slave_never_healthy:
  assumes "rcfg_role cfg = Slave addr"
    and "slave_run env (repl_manager_new cfg sync, backoff_new (rcfg_backoff_config cfg)) its = (m, b)"
  shows "\<not> ch_is_healthy (get_cluster_health m) \<and> rm_master_connection m = None \<and>
     (\<exists>k \<le> length its. b = ((\<lambda>a. fst (backoff_next a)) ^^ k) (backoff_new (rcfg_backoff_config cfg)))"
proof -
  from slave_run_frame [OF assms(2)] assms(1) show ?thesis
    by (auto simp: get_cluster_health_def repl_manager_new_def)
qed

lemma stream_promoted:
  assumes "rm_sync m2 = rm_sync m1" and "rm_stats m2 = rm_stats m1"
    and "handle_replication_stream env now t evs m1 c = (m1', c1, r)"
  shows "\<exists>m2'. handle_replication_stream env now t evs m2 c = (m2', c1, r) \<and> rm_sync m2' = rm_sync m1'"
  using assms
proof (induction env now t evs m1 c arbitrary: m2 rule: handle_replication_stream.induct)
  case (2 env now t elapsed evs m c)
  obtain ma ca o1 where s: "stream_message env now t elapsed m c = (ma, ca, o1)" by (metis prod_cases3)
  then obtain mb where "stream_message env now t elapsed m2 c = (mb, ca, o1)" "rm_sync mb = rm_sync ma" "rm_stats mb = rm_stats ma"
    using 2(2,3) by (auto simp: stream_message_def Let_def split: prod.splits sum.splits replication_message.splits)
  with s 2 show ?case by (auto split: option.splits)
next
  case (3 env now t lost evs m c)
  obtain ma ca o1 where s: "stream_heartbeat env t lost m c = (ma, ca, o1)" by (metis prod_cases3)
  then obtain mb where "stream_heartbeat env t lost m2 c = (mb, ca, o1)" "rm_sync mb = rm_sync ma" "rm_stats mb = rm_stats ma"
    using 3(2,3) by (auto simp: stream_heartbeat_def split: prod.splits sum.splits)
  with s 3 show ?case by (auto split: option.splits)
qed auto

lemma connect_promoted:
  assumes "rm_sync m2 = rm_sync m1" and "rm_stats m2 = rm_stats m1"
    and "connect_to_master env now t sid evs m1 stream = (m1', c1, r)"
  shows "\<exists>m2'. connect_to_master env now t sid evs m2 stream = (m2', c1, r) \<and> rm_sync m2' = rm_sync m1'"
proof -
  have step: "\<exists>m2'. handle_replication_stream env now t evs (m2\<lparr>rm_sync := s\<rparr>) c = (m2', ca, ra) \<and> rm_sync m2' = rm_sync m1a"
    if "handle_replication_stream env now t evs (m1\<lparr>rm_sync := s\<rparr>) c = (m1a, ca, ra)" for s c m1a ca ra
    by (rule stream_promoted [OF _ _ that]) (simp_all add: assms(2))
  show ?thesis using assms(1,3)
    by (auto simp: connect_to_master_def Let_def split: option.splits prod.splits sum.splits dest!: step)
qed

text \<open>
  A promoted node keeps following its old master: promotion does not stop the task of the slave,
  and an iteration of it applies to the promoted node what it would have applied before.
\<close>

theorem promoted_node_follows_old_master:
  "rm_sync (fst (slave_iteration env now t sid evs stream (promote_to_master m, b))) =
   rm_sync (fst (slave_iteration env now t sid evs stream (m, b)))"
proof -
  obtain m1 c r where c: "connect_to_master env now t sid evs m stream = (m1, c, r)" by (metis prod_cases3)
  have "rm_sync (promote_to_master m) = rm_sync m" "rm_stats (promote_to_master m) = rm_stats m"
    by (simp_all add: promote_to_master_def)
  from connect_promoted [OF this c] c show ?thesis
    by (auto simp: slave_iteration_def split: call_result.splits sum.splits)
qed

section \<open>The slaves of a master\<close>

text \<open>
  The steps of a master node, in any order: a connection is accepted, the task of a slave ends, the
  cleanup runs, an entry is broadcast, a slave is removed, a sync is forced, the node is promoted.
\<close>

inductive master_step :: "'s repl_env \<Rightarrow> 's repl_manager \<Rightarrow> 's repl_manager \<Rightarrow> bool" for env where
  step_accept: "master_step env m (fst (accept_slave env now m c))"
| step_task_ends: "rm_slaves m = Some sm \<Longrightarrow> k < length (sm_connections sm) \<Longrightarrow>
    master_step env m (m\<lparr>rm_slaves := Some (sm\<lparr>sm_connections :=
      (sm_connections sm)[k := (sm_connections sm ! k)\<lparr>sh_finished := True\<rparr>]\<rparr>)\<rparr>)"
| step_cleanup: "master_step env m (cleanup_slaves m)"
| step_broadcast: "master_step env m (fst (broadcast_wal_entry m e))"
| step_remove: "master_step env m (fst (repl_remove_slave m sid))"
| step_force: "master_step env m (fst (force_sync now m))"
| step_promote: "master_step env m (promote_to_master m)"

inductive master_run :: "'s repl_env \<Rightarrow> 's repl_manager \<Rightarrow> 's repl_manager \<Rightarrow> bool" for env where
  run_start: "master_run env m m"
| run_step: "master_run env m m1 \<Longrightarrow> master_step env m1 m2 \<Longrightarrow> master_run env m m2"

inductive_simps master_step_simps: "master_step env m m'"

definition slaves_ok :: "'s repl_manager \<Rightarrow> bool" where
  "slaves_ok m \<longleftrightarrow>
     (case rm_slaves m of
        None \<Rightarrow> True
      | Some sm \<Rightarrow> sm_max_slaves sm = rcfg_max_slaves (rm_config m) \<and> length (sm_connections sm) \<le> sm_max_slaves sm)"

lemma add_slave_ok:
  "add_slave sm c = (sm', r) \<Longrightarrow> length (sm_connections sm) \<le> sm_max_slaves sm \<Longrightarrow>
   sm_max_slaves sm' = sm_max_slaves sm \<and> length (sm_connections sm') \<le> sm_max_slaves sm'"
  by (auto simp: add_slave_def split: if_splits)

lemma accept_slave_ok: "slaves_ok m \<Longrightarrow> slaves_ok (fst (accept_slave env now m c)) \<and>
    rm_config (fst (accept_slave env now m c)) = rm_config m"
  by (auto simp: slaves_ok_def accept_slave_def handle_new_slave_def
      split: option.splits prod.splits sum.splits replication_message.splits dest!: add_slave_ok)

lemma length_remove_first: "length (remove_first P xs) \<le> length xs"
  by (induction xs) auto

lemma master_step_ok: "master_step env m m' \<Longrightarrow> slaves_ok m \<Longrightarrow> slaves_ok m' \<and> rm_config m' = rm_config m"
proof (induction rule: master_step.induct)
  case (step_accept now c m)
  then show ?case by (rule accept_slave_ok)
next
  case (step_cleanup m)
  then show ?case
    by (auto simp: slaves_ok_def cleanup_slaves_def cleanup_disconnected_def split: option.splits
        intro: order_trans [OF length_filter_le])
next
  case (step_broadcast m e)
  then show ?case
    by (auto simp: slaves_ok_def broadcast_wal_entry_def broadcast_message_def split: option.splits)
next
  case (step_remove m sid)
  then show ?case
    by (auto simp: slaves_ok_def repl_remove_slave_def disconnect_slave_def split: option.splits
        intro: order_trans [OF length_remove_first])
next
  case (step_force now m)
  then show ?case
    by (auto simp: slaves_ok_def force_sync_def slaves_force_sync_def broadcast_message_def split: option.splits)
next
  case (step_promote m)
  then show ?case by (auto simp: slaves_ok_def promote_to_master_def slave_manager_new_def)
qed (auto simp: slaves_ok_def)

lemma master_run_ok: "master_run env m0 m \<Longrightarrow> slaves_ok m0 \<Longrightarrow> slaves_ok m \<and> rm_config m = rm_config m0"
  by (induction rule: master_run.induct) (auto dest: master_step_ok)

text \<open>
  C18. A master never has more slaves than its configuration allows, whatever connects, ends and is
  removed in whatever order.
\<close>

theorem slave_limit_kept:
  assumes "master_run env (start_master (repl_manager_new cfg sync)) m"
  shows "length (list_slaves m) \<le> rcfg_max_slaves cfg"
proof -
  have "slaves_ok (start_master (repl_manager_new cfg sync))"
    by (simp add: slaves_ok_def start_master_def repl_manager_new_def slave_manager_new_def)
  from master_run_ok [OF assms this] have "slaves_ok m \<and> rm_config m = cfg"
    by (simp add: start_master_def repl_manager_new_def)
  then show ?thesis
    by (auto simp: slaves_ok_def list_slaves_def get_slave_info_def split: option.splits)
qed

section \<open>The handshake\<close>

definition link :: "bytes \<Rightarrow> bytes \<Rightarrow> repl_connection" where
  "link inp out = \<lparr>conn_in = inp, conn_closed = False, conn_out = out, repl_peer_addr = '''', repl_connection_id = ''''\<rparr>"

lemmas link_simps = receive_frame [of _ _ _ False _ "''''" "''''", folded link_def]
  receive_nothing [of _ False _ "''''" "''''", folded link_def, simplified]

lemma link_out [simp]: "(link i x)\<lparr>conn_out := y\<rparr> = link i y" "conn_out (link i x) = x" "conn_in (link i x) = i"
  by (simp_all add: link_def)

lemma no_full_sync:
  assumes "wal_log cdc w es" and "wal_durable w" and "length es < 10 ^ 10" and "\<not> s + 10000 < sync_sequence sync"
  shows "needs_full_sync cdc (dir w) sync s = Inr False"
  using assms(4) by (simp add: needs_full_sync_def first_sequence [OF assms(1-3)])

text \<open>
  A slave that is up to date cannot connect: when the log has no entry after the sequence number
  of the slave, the master sends nothing and registers the slave, while the slave waits for an
  answer to its request until the timeout ends the connection.
\<close>

theorem up_to_date_slave_times_out:
  assumes "wal_log (env_wal env) w es" and "wal_durable w" and "length es < 10 ^ 10" and "env_wal_dir env = dir w"
    and "\<forall>e \<in> set es. entry_seq e \<le> s" and "\<not> s + 10000 < sync_sequence (rm_sync master)"
    and "rm_slaves master = Some sm" and "can_accept_more_slaves sm"
    and "sync_sequence (rm_sync slave) = s" and "message_ok (env_repl env) (SyncRequest s sid)"
  shows "\<exists>master'. accept_slave env t master (link (message_frame (env_repl env) (SyncRequest s sid)) []) =
      (master', link [] []) \<and> length (list_slaves master') = Suc (length (list_slaves master)) \<and>
     connect_to_master env now t sid evs slave (Some (link [] [])) =
      (slave, Some (link [] (message_frame (env_repl env) (SyncRequest s sid))), Returned (Inl ReplTimeout))"
proof -
  obtain es' where st: "list_all2 (same_text (env_wal env)) es es'"
    and since: "get_wal_entries_since (env_wal env) (dir w) s = Inr (filter (\<lambda>e. s < entry_seq e) es')"
    using entries_since [OF assms(1-3)] by blast
  have "\<forall>e \<in> set es'. entry_seq e \<le> s"
    using st assms(5) by (induction es es' rule: list_all2_induct) (auto simp: same_text_def)
  then have none: "filter (\<lambda>e. s < entry_seq e) es' = []" by (auto simp: filter_empty_conv not_less)
  let ?req = "message_frame (env_repl env) (SyncRequest s sid)"
  have recv: "receive_message (env_repl env) (link ?req []) = (link [] [], Inr (SyncRequest s sid))"
    using link_simps(1) [OF assms(10), of "[]" "[]"] by simp
  have sync: "sync_new_slave env t (rm_sync master) (link [] []) s = (rm_sync master, link [] [], Some (Inr ()))"
    by (simp add: sync_new_slave_def assms(4) no_full_sync [OF assms(1-3,6)] perform_incremental_sync_def since none)
  have "\<exists>sm1. add_slave sm (link [] []) = (sm1, Inr ()) \<and> length (sm_connections sm1) = Suc (length (sm_connections sm))"
    using assms(8) by (simp add: add_slave_def can_accept_more_slaves_def)
  then obtain sm1 where sm1: "add_slave sm (link [] []) = (sm1, Inr ())"
    "length (sm_connections sm1) = Suc (length (sm_connections sm))" by blast
  have "accept_slave env t master (link ?req []) =
      (master\<lparr>rm_sync := rm_sync master, rm_slaves := Some sm1,
         rm_stats := (rm_stats master)\<lparr>connected_slaves := slave_count sm1, last_sync := Some t\<rparr>\<rparr>, link [] [])"
    by (simp add: accept_slave_def assms(7) handle_new_slave_def recv sync sm1(1))
  moreover have "connect_to_master env now t sid evs slave (Some (link [] [])) =
      (slave, Some (link [] ?req), Returned (Inl ReplTimeout))"
    by (simp add: connect_to_master_def assms(9) send_frame [OF assms(10)] link_simps(2))
  ultimately show ?thesis by (simp add: list_slaves_def get_slave_info_def sm1(2) assms(7))
qed

lemma sequences_above_zero:
  assumes "map entry_seq es' = map (of_nat :: nat \<Rightarrow> u64) [0..<length es']" and "length es' < 10 ^ 10"
  shows "filter (\<lambda>e. 0 < entry_seq e) es' = tl es'"
proof (cases es')
  case (Cons e rest)
  have "entry_seq (es' ! i) = of_nat i" if "i < length es'" for i
    using that assms(1) by (metis add_0 nth_map nth_upt length_map length_upt minus_nat.diff_0)
  then have seq: "unat (entry_seq (es' ! i)) = i" if "i < length es'" for i
    using that assms(2) by (simp add: unat_of_nat)
  have "0 < entry_seq x" if "x \<in> set rest" for x
  proof -
    from that obtain i where "i < length rest" "rest ! i = x" by (meson in_set_conv_nth)
    with seq [of "Suc i"] Cons show ?thesis by (simp add: word_less_nat_alt)
  qed
  moreover have "entry_seq e = 0" using seq [of 0] Cons by (simp add: unsigned_eq_0_iff)
  ultimately show ?thesis using Cons by simp
qed simp


section \<open>Full synchronization\<close>

text \<open>A collection without a registered schema is written straight to the persistent layer.\<close>

lemma hybrid_insert_plain:
  assumes "he_schemas e = []" and "doc_to_vec cdc d = Inr v"
  shows "\<exists>e'. hybrid_insert cdc now e coll d = (e', Inr (doc_id d)) \<and> he_schemas e' = [] \<and> he_queue e' = he_queue e \<and>
     he_persistent e' = raw_put (he_persistent e) (make_document_key cdc coll (doc_id d)) v"
  using assms by (simp add: hybrid_insert_def get_schema_def persist_insert_def insert_document_raw Let_def)

definition plain_engine :: "hybrid_engine \<Rightarrow> bool" where
  "plain_engine e \<longleftrightarrow> he_schemas e = [] \<and> he_queue e = []"

lemma restore_documents_texts:
  assumes "\<forall>kv \<in> set kvs. doc_text_of cdc name kv" and "plain_engine e"
  shows "\<exists>e'. restore_documents (length kvs) cdc now name
       \<lparr>sr_rest = concat (map (sect_bytes \<circ> snd) kvs) @ z, sr_hasher = h, sr_header = ho\<rparr> e =
     (Inr (), \<lparr>sr_rest = z, sr_hasher = h @ concat (map (sect_bytes \<circ> snd) kvs), sr_header = ho\<rparr>, e') \<and>
     plain_engine e' \<and> he_persistent e' = put_all kvs (he_persistent e)"
  using assms
proof (induction kvs arbitrary: h e)
  case Nil
  then show ?case by (simp add: put_all_def)
next
  case (Cons kv kvs)
  from Cons.prems obtain d where d: "doc_from_slice cdc (snd kv) = Inr d" "doc_to_vec cdc d = Inr (snd kv)"
    "fst kv = make_document_key cdc name (doc_id d)" "length (snd kv) < 2 ^ 32"
    by (auto simp: doc_text_of_def split: sum.splits)
  obtain e1 where e1: "hybrid_insert cdc now e name d = (e1, Inr (doc_id d))" "plain_engine e1"
    "he_persistent e1 = raw_put (he_persistent e) (fst kv) (snd kv)"
    using hybrid_insert_plain [OF _ d(2), of e now name] Cons.prems(2) d(3) by (auto simp: plain_engine_def)
  from Cons.IH [OF _ e1(2), of "h @ sect_bytes (snd kv)"] Cons.prems(1) show ?case
    by (auto simp: read_document_def read_section_bytes [of "doc_from_slice cdc", OF d(1,4)] e1(1,3)
        put_all_def case_prod_beta)
qed

lemma create_collection_plain:
  "plain_engine e \<Longrightarrow> plain_engine (fst (hybrid_create_collection cdc e name)) \<and>
   raw_get (he_persistent (fst (hybrid_create_collection cdc e name))) = raw_get (he_persistent e)"
  by (auto simp: plain_engine_def hybrid_create_collection_def create_collection_def save_collections_list_def
      store_metadata_def raw_get_def Let_def split: sum.splits prod.splits)

lemma restore_collections_bytes:
  assumes "pl_canonical cdc p" and "layer_fits p" and "fst ` set njs \<subseteq> set (list_collections p)"
    and "\<forall>nj \<in> set njs. colhdr_from_slice cdc (snd nj) = Inr (header_of_collection cdc p (fst nj)) \<and>
           length (snd nj) < 2 ^ 32"
    and "plain_engine e"
  shows "\<exists>e'. restore_collections (length njs) cdc ic now
       \<lparr>sr_rest = concat (map (coll_bytes p) njs) @ z, sr_hasher = h, sr_header = ho\<rparr> e =
     (Inr (), \<lparr>sr_rest = z, sr_hasher = h @ concat (map (coll_bytes p) njs), sr_header = ho\<rparr>, e') \<and>
     plain_engine e' \<and>
     raw_get (he_persistent e') = raw_get (he_persistent e) ++ map_of (rev (concat (map (stored_in p \<circ> fst) njs)))"
  using assms(3-5)
proof (induction njs arbitrary: h e)
  case (Cons nj njs)
  let ?kvs = "stored_in p (fst nj)"
  have name: "fst nj \<in> set (list_collections p)" using Cons.prems(1) by simp
  note n = count_stored [OF assms(1,2) name]
  have texts: "\<forall>kv \<in> set ?kvs. doc_text_of cdc (fst nj) kv" using stored_in_text [OF assms(1) name] by blast
  define e1 where "e1 = fst (hybrid_create_collection cdc e (fst nj))"
  have e1: "plain_engine e1" "raw_get (he_persistent e1) = raw_get (he_persistent e)"
    using create_collection_plain [OF Cons.prems(3)] by (auto simp: e1_def)
  obtain e2 where e2: "restore_documents (length ?kvs) cdc now (fst nj)
       \<lparr>sr_rest = concat (map (sect_bytes \<circ> snd) ?kvs) @ concat (map (coll_bytes p) njs) @ z, sr_hasher = h @ sect_bytes (snd nj), sr_header = ho\<rparr> e1 =
     (Inr (), \<lparr>sr_rest = concat (map (coll_bytes p) njs) @ z, sr_hasher = (h @ sect_bytes (snd nj)) @ concat (map (sect_bytes \<circ> snd) ?kvs), sr_header = ho\<rparr>, e2)"
    and p2: "plain_engine e2" "he_persistent e2 = put_all ?kvs (he_persistent e1)"
    using restore_documents_texts [OF texts e1(1)] by blast
  have hdr: "read_section (colhdr_from_slice cdc)
      \<lparr>sr_rest = sect_bytes (snd nj) @ y, sr_hasher = h, sr_header = ho\<rparr> =
      (Inr (header_of_collection cdc p (fst nj)), \<lparr>sr_rest = y, sr_hasher = h @ sect_bytes (snd nj), sr_header = ho\<rparr>)" for y
    using Cons.prems(2) by (intro read_section_bytes) auto
  have f: "col_name (header_of_collection cdc p (fst nj)) = fst nj"
    "col_index_count (header_of_collection cdc p (fst nj)) = 0" by (simp_all add: header_of_collection_def)
  from Cons.IH [OF _ _ p2(1), of "(h @ sect_bytes (snd nj)) @ concat (map (sect_bytes \<circ> snd) ?kvs)"] Cons.prems
  obtain e' where "restore_collections (length njs) cdc ic now
       \<lparr>sr_rest = concat (map (coll_bytes p) njs) @ z, sr_hasher = (h @ sect_bytes (snd nj)) @ concat (map (sect_bytes \<circ> snd) ?kvs), sr_header = ho\<rparr> e2 =
     (Inr (), \<lparr>sr_rest = z, sr_hasher = ((h @ sect_bytes (snd nj)) @ concat (map (sect_bytes \<circ> snd) ?kvs)) @ concat (map (coll_bytes p) njs), sr_header = ho\<rparr>, e')"
    "plain_engine e'"
    "raw_get (he_persistent e') = raw_get (he_persistent e2) ++ map_of (rev (concat (map (stored_in p \<circ> fst) njs)))"
    by (auto simp: comp_def)
  with e2 show ?case
    by (auto simp: coll_bytes_def [of p nj] read_collection_header_def hdr f n e1_def [symmetric] p2(2) raw_get_put_all e1(2) comp_def)
qed (simp add: put_all_def)

text \<open>
  C6. A full sync copies the documents of the master: on a slave without caching, applying the
  snapshot that the master made leaves every document of the master as it is there, sets the
  sequence number of the header, and keeps the documents that only the slave has, also those that
  the master has deleted.
\<close>

theorem full_sync_copies_documents:
  assumes "sync_storage master = Some em" and "pm = he_persistent (fst (hybrid_flush scdc em))"
    and "create_temp_snapshot scdc t master = (master', Some (Inr file))"
    and "snapshot_codec_ok scdc t (sync_sequence master) pm" and "pl_canonical scdc pm" and "layer_fits pm"
    and "zstd_decompress rp (1024 * 1024 * 1024) data = Inr file"
    and "sync_storage slave = Some e" and "plain_engine e"
  shows "\<exists>e'. apply_full_sync scdc ic rp now slave header data =
      (slave\<lparr>sync_storage := Some e', sync_sequence := hdr_sequence header\<rparr>, Inr ()) \<and>
     raw_get (he_persistent e') = raw_get (he_persistent e) ++ raw_get pm"
proof -
  from assms(1-3) have cs: "create_snapshot scdc t pm ''temp_repl.veddb'' (sync_sequence master) = (file, Some (Inr ()))"
    by (auto simp: create_temp_snapshot_def Let_def split: prod.splits option.splits sum.splits)
  obtain njs where njs: "map fst njs = list_collections pm"
    "\<forall>nj \<in> set njs. colhdr_to_vec scdc (header_of_collection scdc pm (fst nj)) = Inr (snd nj) \<and>
      colhdr_from_slice scdc (snd nj) = Inr (header_of_collection scdc pm (fst nj)) \<and> length (snd nj) < 2 ^ 32"
    using collection_texts [OF assms(4)] by blast
  obtain hj mj where hj: "header_to_vec scdc (sealed_header scdc t (sync_sequence master)) = Inr hj" "length hj \<le> 256"
    and mj: "smeta_to_vec scdc (metadata_of_layer pm) = Inr mj"
    and fl: "file = header_bytes hj @ sect_bytes mj @ concat (map (coll_bytes pm) njs) @
       footer_bytes scdc (header_bytes hj @ sect_bytes mj @ concat (map (coll_bytes pm) njs))"
    using create_snapshot_bytes [OF assms(4,5) cs njs(1)] njs(2) by blast
  define body where "body = header_bytes hj @ sect_bytes mj @ concat (map (coll_bytes pm) njs)"
  define ho where "ho = Some (sealed_header scdc t (sync_sequence master))"
  from assms(4) mj have md: "smeta_from_slice scdc mj = Inr (metadata_of_layer pm)" "length mj < 2 ^ 32"
    by (auto simp: snapshot_codec_ok_def text_roundtrip_def)
  have n: "unat (collections_count (metadata_of_layer pm)) = length njs"
    using count_collections [OF assms(6)] njs(1) by (metis length_map)
  have sub: "fst ` set njs \<subseteq> set (list_collections pm)" using njs(1) by (metis list.set_map subset_refl)
  obtain e1 where e1: "restore_collections (length njs) scdc ic now
       \<lparr>sr_rest = concat (map (coll_bytes pm) njs) @ footer_bytes scdc body, sr_hasher = header_bytes hj @ sect_bytes mj, sr_header = ho\<rparr> e =
     (Inr (), \<lparr>sr_rest = footer_bytes scdc body, sr_hasher = body, sr_header = ho\<rparr>, e1)" and p1: "plain_engine e1"
    and m1: "raw_get (he_persistent e1) = raw_get (he_persistent e) ++ map_of (rev (concat (map (stored_in pm \<circ> fst) njs)))"
    using restore_collections_bytes [OF assms(5,6) sub _ assms(9), of ic now "footer_bytes scdc body" "header_bytes hj @ sect_bytes mj" ho] njs(2)
    by (auto simp: body_def)
  have "length (sha256 scdc body) = 32" using assms(4) by (simp add: snapshot_codec_ok_def)
  note foot = read_footer_bytes [OF this]
  have "hybrid_flush scdc e1 = (e1, Inr ())" using p1 by (simp add: plain_engine_def hybrid_flush_def)
  then have "apply_snapshot scdc ic now (reader_on file) slave = (slave\<lparr>sync_storage := Some e1\<rparr>, Inr ())"
    using e1
    by (simp add: apply_snapshot_def assms(8) fl read_header_bytes [OF assms(4) hj] read_metadata_def
        read_section_bytes [of "smeta_from_slice scdc", OF md] n foot ho_def [symmetric] body_def [symmetric])
  then show ?thesis using assms(7)
    by (intro exI [of _ e1]) (simp add: apply_full_sync_def update_sequence_def m1 restored_map [OF assms(5) njs(1)])
qed

end
