(* ===== verification/Replication_Examples.thy ===== *)
theory Replication_Examples
  imports Replication_Proofs
begin

text \<open>
  Concrete runs of the replication model: a log with three entries, a codec for the messages of one
  handshake, a master and a slave.
\<close>

section \<open>The log of the master\<close>

definition example_w :: wal_writer where
  "example_w = fst (append_all example_wal_codec (wal_writer_new example_wal_codec example_config []) example_ops)"

definition example_sent :: "unit wal_entry list" where
  "example_sent = projr (get_wal_entries_since example_wal_codec (dir example_w) 0)"

lemma example_log:
  obtains es where "wal_log example_wal_codec example_w es" and "wal_durable example_w" and "length es = 3"
proof -
  have "length ([] :: unit wal_entry list) + length example_ops < 2 ^ 64" by (simp add: example_ops_def)
  from append_all_log [OF wal_writer_new_log example_ops_ok this, of example_config] obtain es where
    log: "wal_log example_wal_codec example_w es" and c: "config example_w = config (wal_writer_new example_wal_codec example_config [])"
    and l: "map (\<lambda>e. (entry_time e, entry_op e)) es = example_ops"
    by (auto simp: example_w_def)
  have "length es = 3" using arg_cong [OF l, of length] by (simp add: example_ops_def)
  moreover have "wal_durable example_w"
    using log c by (auto simp: wal_log_def wal_writer_new_def Let_def example_config_def split: prod.splits)
  ultimately show ?thesis using log by (intro that)
qed

lemma read_entries_verified:
  "e \<in> set (fst (read_entries cdc bs)) \<Longrightarrow> verify_checksum cdc e = Inr True"
proof (induction bs rule: measure_induct_rule [of length])
  case (less bs)
  obtain r rest where n: "next_entry cdc bs = (r, rest)" by fastforce
  with less.prems obtain x where r: "r = Inr (Some x)" and e: "e = x \<or> e \<in> set (fst (read_entries cdc rest))"
    by (auto simp: read_entries.simps [of cdc bs] split: sum.splits option.splits prod.splits)
  have "verify_checksum cdc x = Inr True"
    using n r by (auto simp: next_entry_def Let_def split: if_splits sum.splits)
  moreover have "length rest < length bs" using next_entry_shorter [OF n] r by simp
  ultimately show ?case using e less.IH by blast
qed

lemma entries_of_files_verified:
  "entries_of_files cdc d ns = Inr es \<Longrightarrow> e \<in> set es \<Longrightarrow> verify_checksum cdc e = Inr True"
proof (induction ns arbitrary: es)
  case (Cons n ns)
  from Cons.prems(1) obtain f where m: "map_of d n = Some f" by (auto split: option.splits)
  obtain xs err where x: "read_entries cdc (file_bytes f) = (xs, err)" by fastforce
  with Cons.prems(1) m have f: "read_entries cdc (file_bytes f) = (xs, None)" by (auto split: option.splits)
  with Cons.prems(1) m obtain ys where ys: "entries_of_files cdc d ns = Inr ys" by (auto split: sum.splits)
  with Cons.prems(1) m f have es: "es = xs @ ys" by simp
  from Cons.prems(2) es consider "e \<in> set xs" | "e \<in> set ys" by auto
  then show ?case
    using read_entries_verified [of e cdc "file_bytes f"] Cons.IH [OF ys] f by cases auto
qed simp

lemma example_sent_facts:
  "get_wal_entries_since example_wal_codec (dir example_w) 0 = Inr example_sent"
  "map entry_seq example_sent = [1, 2]"
  "\<forall>e \<in> set example_sent. verify_checksum example_wal_codec e = Inr True"
proof -
  obtain es where log: "wal_log example_wal_codec example_w es" "wal_durable example_w" and l: "length es = 3"
    by (rule example_log)
  obtain es' where st: "list_all2 (same_text example_wal_codec) es es'"
    and since: "get_wal_entries_since example_wal_codec (dir example_w) 0 = Inr (filter (\<lambda>e. 0 < entry_seq e) es')"
    using entries_since [OF log] l by auto
  have len: "length es' = 3" using st l by (simp add: list_all2_lengthD)
  have seqs: "map entry_seq es' = map of_nat [0..<3]" using log_sequences(2) [OF log(1) st] l by simp
  have "filter (\<lambda>e. 0 < entry_seq e) es' = tl es'" using seqs len by (intro sequences_above_zero) simp_all
  then have s: "example_sent = tl es'" using since by (simp add: example_sent_def)
  show g: "get_wal_entries_since example_wal_codec (dir example_w) 0 = Inr example_sent"
    using since by (simp add: example_sent_def)
  show "map entry_seq example_sent = [1, 2]" using seqs by (simp add: s map_tl upt_rec)
  from g obtain all where a: "entries_of_files example_wal_codec (dir example_w) (sync_wal_files (dir example_w)) = Inr all"
    and "example_sent = sort_by (\<lambda>a b. entry_seq a \<le> entry_seq b) (filter (\<lambda>e. 0 < entry_seq e) all)"
    by (auto simp: get_wal_entries_since_def split: sum.splits)
  then have "set example_sent \<subseteq> set all" by (metis filter_is_subset set_sort_by)
  then show "\<forall>e \<in> set example_sent. verify_checksum example_wal_codec e = Inr True"
    using entries_of_files_verified [OF a] by blast
qed

section \<open>The nodes\<close>

definition example_repl_codec :: "unit repl_codec" where
  "example_repl_codec =
     \<lparr>message_to_vec = (\<lambda>m. case m of SyncRequest s i \<Rightarrow> Inr (if s = 0 then [0] else [1])
        | IncrementalSync es \<Rightarrow> Inr [2] | Ack s st \<Rightarrow> Inr [3] | _ \<Rightarrow> Inl ''''),
      message_from_slice = (\<lambda>bs. if bs = [0] then Inr (SyncRequest 0 ''x'') else if bs = [1] then Inr (SyncRequest 2 ''x'')
        else if bs = [2] then Inr (IncrementalSync example_sent) else if bs = [3] then Inr (Ack 2 AckSuccess) else Inl ''''),
      zstd_compress = Inr, zstd_decompress = (\<lambda>n. Inr)\<rparr>"

definition example_env :: "unit repl_env" where
  "example_env = \<lparr>env_wal = example_wal_codec, env_snap = example_snapshot_codec,
     env_index = \<lparr>jsons_to_vec = (\<lambda>js. Inr []), jsons_from_slice = (\<lambda>bs. Inr [])\<rparr>,
     env_repl = example_repl_codec, env_wal_dir = dir example_w\<rparr>"

definition example_master :: "unit repl_manager" where
  "example_master = start_master (repl_manager_new replication_config_default sync_manager_new)"

definition example_slave :: "u64 \<Rightarrow> unit repl_manager" where
  "example_slave s = repl_manager_new (replication_config_default\<lparr>rcfg_role := Slave ''m''\<rparr>)
     (update_sequence sync_manager_new s)"

lemma example_messages:
  "message_ok example_repl_codec (SyncRequest 0 ''x'')" "message_ok example_repl_codec (SyncRequest 2 ''x'')"
  "message_ok example_repl_codec (IncrementalSync example_sent)" "message_ok example_repl_codec (Ack 2 AckSuccess)"
  by (simp_all add: message_ok_def example_repl_codec_def MAX_MESSAGE_def)

lemma example_env_simps [simp]:
  "env_wal example_env = example_wal_codec" "env_repl example_env = example_repl_codec" "env_wal_dir example_env = dir example_w"
  by (simp_all add: example_env_def)

lemma example_master_simps:
  "rm_sync example_master = sync_manager_new" "rm_slaves example_master = Some (slave_manager_new 10)"
  by (simp_all add: example_master_def start_master_def repl_manager_new_def replication_config_default_def)

theorem slave_never_healthy_witness:
  "\<not> ch_is_healthy (get_cluster_health
     (fst (slave_run example_env (example_slave 0, backoff_new backoff_config_default) [(0, example_time, ''x'', [], None)])))"
  using slave_never_healthy [of "replication_config_default\<lparr>rcfg_role := Slave ''m''\<rparr>" "''m''" example_env
      "update_sequence sync_manager_new 0" "[(0, example_time, ''x'', [], None)]", OF _ prod.collapse [symmetric]]
  by (simp add: example_slave_def replication_config_default_def)

theorem slave_limit_kept_witness:
  "length (list_slaves (fst (accept_slave example_env example_time example_master (link [] [])))) \<le> 10"
proof -
  have "master_run example_env example_master (fst (accept_slave example_env example_time example_master (link [] [])))"
    by (rule run_step [OF run_start step_accept])
  from slave_limit_kept [OF this [unfolded example_master_def]] show ?thesis
    by (simp add: example_master_def replication_config_default_def)
qed

theorem up_to_date_slave_times_out_witness:
  "\<exists>master'. accept_slave example_env example_time example_master
       (link (message_frame example_repl_codec (SyncRequest 2 ''x'')) []) = (master', link [] []) \<and>
     length (list_slaves master') = Suc (length (list_slaves example_master)) \<and>
     connect_to_master example_env 0 example_time ''x'' [] (example_slave 2) (Some (link [] [])) =
      (example_slave 2, Some (link [] (message_frame example_repl_codec (SyncRequest 2 ''x''))), Returned (Inl ReplTimeout))"
proof -
  obtain es where log: "wal_log example_wal_codec example_w es" "wal_durable example_w" and l: "length es = 3"
    by (rule example_log)
  have "map entry_seq es = [0, 1, 2]" using log(1) l by (simp add: wal_log_def upt_rec)
  then have "entry_seq ` set es \<subseteq> {0, 1, 2}" by (metis list.set_map list.simps(15) set_empty2 subset_refl list.set(1))
  then have "\<forall>e \<in> set es. entry_seq e \<le> 2" by auto
  then show ?thesis
    using up_to_date_slave_times_out [of example_env example_w es 2 example_master "slave_manager_new 10" "example_slave 2" "''x''" example_time 0 "[]"]
      log l example_messages(2)
    by (simp add: example_master_simps sync_manager_new_def can_accept_more_slaves_def slave_manager_new_def
        example_slave_def repl_manager_new_def update_sequence_def)
qed

lemma apply_entries_no_storage:
  assumes "\<forall>e \<in> set es. verify_checksum cdc e = Inr True" and "sync_storage m = None"
  shows "apply_entries cdc scdc ic now es m s ts =
     (m, Inr (if es = [] then (s, ts) else (entry_seq (last es), Some (entry_time (last es)))))"
  using assms by (induction es arbitrary: s ts) (auto simp: apply_wal_entry_def)


section \<open>A full sync\<close>

definition plain_storage :: "persistent_layer \<Rightarrow> hybrid_engine" where
  "plain_storage p = \<lparr>he_cache = he_cache example_engine, he_persistent = p, he_schemas = [], he_queue = [],
     he_stats = Hybrid_Storage.stats_default\<rparr>"

theorem full_sync_copies_documents_witness:
  "\<exists>file e'. apply_full_sync example_snapshot_codec (env_index example_env) example_repl_codec 0
      (sync_with_storage (plain_storage pl_new)) example_header file =
      ((sync_with_storage (plain_storage pl_new))\<lparr>sync_storage := Some e', sync_sequence := 100\<rparr>, Inr ()) \<and>
     raw_get (he_persistent e') = raw_get pl_new ++ raw_get example_layer"
proof -
  let ?master = "update_sequence (sync_with_storage (plain_storage example_layer)) 100"
  have flush: "hybrid_flush example_snapshot_codec (plain_storage p) = (plain_storage p, Inr ())" for p
    by (simp add: hybrid_flush_def plain_storage_def)
  obtain fbs where "create_snapshot example_snapshot_codec example_time example_layer ''temp_repl.veddb'' 100 = (fbs, Some (Inr ()))"
    using example_created by metis
  then have "create_temp_snapshot example_snapshot_codec example_time ?master = (?master, Some (Inr fbs))"
    by (simp add: create_temp_snapshot_def update_sequence_def sync_with_storage_def flush Let_def)
      (simp add: plain_storage_def)
  from full_sync_copies_documents [OF _ refl this, of "plain_storage example_layer" example_repl_codec fbs
      "sync_with_storage (plain_storage pl_new)" "plain_storage pl_new" "env_index example_env" 0 example_header]
  have "\<exists>e'. apply_full_sync example_snapshot_codec (env_index example_env) example_repl_codec 0
      (sync_with_storage (plain_storage pl_new)) example_header fbs =
      ((sync_with_storage (plain_storage pl_new))\<lparr>sync_storage := Some e', sync_sequence := hdr_sequence example_header\<rparr>, Inr ()) \<and>
     raw_get (he_persistent e') = raw_get (he_persistent (plain_storage pl_new)) ++ raw_get (he_persistent (plain_storage example_layer))"
    using example_snapshot_facts(1-3)
    by (simp add: flush update_sequence_def sync_with_storage_def example_repl_codec_def)
      (simp add: plain_storage_def plain_engine_def)
  then show ?thesis
    by (auto simp: plain_storage_def example_header_def snapshot_header_new_def)
qed

end
