(* ===== verification/Session_Ved.thy ===== *)
theory Session_Ved
  imports Spsc_Ring Arena Wire_Protocol
begin

text \<open>
  The sessions of local clients (\<open>veddb-core/src/session.rs\<close>): the registry of session descriptors,
  the two rings of a session in the memory of the arena, notifications by event descriptors, and
  the session manager. The clock and the result of \<open>eventfd\<close> are arguments; what happens to event
  descriptors is recorded in the order of the calls. A failed assertion is \<open>None\<close>. The calls run
  one after the other.
\<close>

section \<open>Rings in memory\<close>

text \<open>
  The layout of \<open>SpscRing\<close> and \<open>Slot\<close>: two indices on cache lines of their own, capacity and mask,
  the structure rounded up to its alignment of 64, then the slots of sixteen bytes. Padding is
  written as zero; nothing reads it.
\<close>

definition ring_struct_size :: nat where
  "ring_struct_size = 192"

definition slot_struct_size :: nat where
  "slot_struct_size = 16"

definition ring_size_for_capacity :: "u64 \<Rightarrow> u64 option" where
  "ring_size_for_capacity capacity =
     (if is_power_of_two capacity
      then Some (of_nat ring_struct_size + capacity * of_nat slot_struct_size) else None)"

definition slot_image :: "slot \<Rightarrow> bytes" where
  "slot_image s = u32_to_le (slot_len s) @ replicate 4 0 @ u64_to_le (data_or_offset s)"

definition ring_image :: "spsc_ring \<Rightarrow> bytes" where
  "ring_image r =
     u64_to_le (producer_index r) @ replicate 56 0 @ u64_to_le (consumer_index r) @ replicate 56 0 @
     u64_to_le (spsc_capacity r) @ u64_to_le (spsc_mask r) @ replicate 48 0 @
     concat (map slot_image (spsc_slots r))"

definition mem_read :: "(u64 \<Rightarrow> u8) \<Rightarrow> u64 \<Rightarrow> nat \<Rightarrow> bytes" where
  "mem_read m off n = map (\<lambda>i. m (off + of_nat i)) [0..<n]"

definition read_u64 :: "(u64 \<Rightarrow> u8) \<Rightarrow> u64 \<Rightarrow> u64" where
  "read_u64 m off = u64_from_le (mem_read m off 8)"

definition read_slot :: "(u64 \<Rightarrow> u8) \<Rightarrow> u64 \<Rightarrow> slot" where
  "read_slot m off =
     \<lparr>slot_len = u32_from_le (mem_read m off 4), data_or_offset = read_u64 m (off + 8)\<rparr>"

definition load_ring :: "(u64 \<Rightarrow> u8) \<Rightarrow> u64 \<Rightarrow> spsc_ring" where
  "load_ring m off =
     \<lparr>producer_index = read_u64 m off, consumer_index = read_u64 m (off + 64),
      spsc_capacity = read_u64 m (off + 128), spsc_mask = read_u64 m (off + 136),
      spsc_slots = map (\<lambda>i. read_slot m (off + of_nat (ring_struct_size + slot_struct_size * i)))
                     [0..<unat (read_u64 m (off + 128))]\<rparr>"

definition store_ring :: "(u64 \<Rightarrow> u8) \<Rightarrow> u64 \<Rightarrow> spsc_ring \<Rightarrow> (u64 \<Rightarrow> u8)" where
  "store_ring m off r = write_bytes m off (ring_image r)"

text \<open>\<open>SpscRing::init\<close>, \<open>try_push\<close> and \<open>try_pop\<close> on the ring at an offset.\<close>

definition ring_init_at :: "arena \<Rightarrow> u64 \<Rightarrow> u64 \<Rightarrow> arena option" where
  "ring_init_at a off capacity =
     map_option (\<lambda>r. a\<lparr>mem := store_ring (mem a) off r\<rparr>) (spsc_init capacity)"

definition ring_push_at :: "arena \<Rightarrow> u64 \<Rightarrow> slot \<Rightarrow> arena \<times> bool" where
  "ring_push_at a off s =
     (case spsc_try_push (load_ring (mem a) off) s of
        (r, done) \<Rightarrow> (a\<lparr>mem := store_ring (mem a) off r\<rparr>, done))"

definition ring_pop_at :: "arena \<Rightarrow> u64 \<Rightarrow> arena \<times> slot option" where
  "ring_pop_at a off =
     (case spsc_try_pop (load_ring (mem a) off) of
        (r, s) \<Rightarrow> (a\<lparr>mem := store_ring (mem a) off r\<rparr>, s))"

section \<open>Session descriptors\<close>

record session_desc =
  sd_id :: u64
  sd_pid :: u32
  cmd_ring_offset :: u64
  resp_ring_offset :: u64
  sd_ring_capacity :: u64
  sd_eventfd :: int
  pending_notifications :: u32
  sd_flags :: u32
  sd_last_activity :: u64

definition session_desc_new :: "u64 \<Rightarrow> u32 \<Rightarrow> session_desc" where
  "session_desc_new sid pid =
     \<lparr>sd_id = sid, sd_pid = pid, cmd_ring_offset = 0, resp_ring_offset = 0, sd_ring_capacity = 0,
      sd_eventfd = - 1, pending_notifications = 0, sd_flags = 0, sd_last_activity = 0\<rparr>"

definition touch :: "u64 \<Rightarrow> session_desc \<Rightarrow> session_desc" where
  "touch now d = d\<lparr>sd_last_activity := now\<rparr>"

definition is_stale :: "u64 \<Rightarrow> u64 \<Rightarrow> session_desc \<Rightarrow> bool" where
  "is_stale now timeout_secs d \<longleftrightarrow> saturating_sub now (sd_last_activity d) > timeout_secs"

section \<open>The registry\<close>

record session_registry =
  next_session_id :: u64
  max_sessions :: u64
  active_sessions :: u64
  descs :: "session_desc list"

definition registry_init :: "nat \<Rightarrow> session_registry" where
  "registry_init n =
     \<lparr>next_session_id = 1, max_sessions = of_nat n, active_sessions = 0,
      descs = replicate n (session_desc_new 0 0)\<rparr>"

definition registry_active :: "session_registry \<Rightarrow> u64 list" where
  "registry_active g = filter (\<lambda>i. i \<noteq> 0) (map sd_id (descs g))"

text \<open>The first descriptor with an id; a free slot has the id 0.\<close>

fun first_with :: "('a \<Rightarrow> bool) \<Rightarrow> 'a list \<Rightarrow> nat option" where
  "first_with p [] = None"
| "first_with p (x # xs) = (if p x then Some 0 else map_option Suc (first_with p xs))"

definition session_index :: "session_registry \<Rightarrow> u64 \<Rightarrow> nat option" where
  "session_index g sid = first_with (\<lambda>d. sd_id d = sid) (descs g)"

definition find_free_slot :: "session_registry \<Rightarrow> nat option" where
  "find_free_slot g = first_with (\<lambda>d. sd_id d = 0) (descs g)"

definition get_session :: "session_registry \<Rightarrow> u64 \<Rightarrow> session_desc option" where
  "get_session g sid = map_option (\<lambda>i. descs g ! i) (session_index g sid)"

text \<open>Changing the descriptor that \<open>get_session_mut\<close> returns.\<close>

definition change_session :: "session_registry \<Rightarrow> u64 \<Rightarrow> (session_desc \<Rightarrow> session_desc) \<Rightarrow> session_registry" where
  "change_session g sid f =
     (case session_index g sid of None \<Rightarrow> g
      | Some i \<Rightarrow> g\<lparr>descs := (descs g)[i := f (descs g ! i)]\<rparr>)"

text \<open>\<open>create_session\<close>; \<open>fd\<close> is the new event descriptor, or -1 when it cannot be created.\<close>

definition registry_create_session :: "u64 \<Rightarrow> int \<Rightarrow> session_registry \<Rightarrow> u32 \<Rightarrow> u64 \<Rightarrow> session_registry \<times> u64 option" where
  "registry_create_session now fd g pid ring_capacity =
     (if active_sessions g \<ge> max_sessions g then (g, None)
      else case find_free_slot g of None \<Rightarrow> (g, None)
        | Some i \<Rightarrow>
            (g\<lparr>next_session_id := next_session_id g + 1, active_sessions := active_sessions g + 1,
               descs := (descs g)[i := touch now ((descs g ! i)\<lparr>sd_id := next_session_id g, sd_pid := pid,
                          sd_ring_capacity := ring_capacity\<rparr>)\<lparr>sd_eventfd := fd\<rparr>]\<rparr>,
             Some (next_session_id g)))"

datatype eventfd_call = FdWrite int | FdClose int

definition close_fd :: "session_desc \<Rightarrow> eventfd_call list" where
  "close_fd d = (if sd_eventfd d \<noteq> - 1 then [FdClose (sd_eventfd d)] else [])"

definition vacate :: "session_desc \<Rightarrow> session_desc" where
  "vacate d = d\<lparr>sd_id := 0, sd_pid := 0\<rparr>"

definition remove_session :: "session_registry \<Rightarrow> u64 \<Rightarrow> session_registry \<times> eventfd_call list \<times> bool" where
  "remove_session g sid =
     (case session_index g sid of None \<Rightarrow> (g, [], False)
      | Some i \<Rightarrow>
          (g\<lparr>descs := (descs g)[i := vacate (descs g ! i)], active_sessions := active_sessions g - 1\<rparr>,
           close_fd (descs g ! i), True))"

definition stale_session :: "u64 \<Rightarrow> u64 \<Rightarrow> session_desc \<Rightarrow> bool" where
  "stale_session now timeout_secs d \<longleftrightarrow> sd_id d \<noteq> 0 \<and> is_stale now timeout_secs d"

definition registry_cleanup :: "u64 \<Rightarrow> session_registry \<Rightarrow> u64 \<Rightarrow> session_registry \<times> eventfd_call list \<times> nat" where
  "registry_cleanup now g timeout_secs =
     (let stale = filter (stale_session now timeout_secs) (descs g)
      in (g\<lparr>descs := map (\<lambda>d. if stale_session now timeout_secs d then vacate d else d) (descs g),
            active_sessions := active_sessions g - of_nat (length stale)\<rparr>,
          concat (map close_fd stale), length stale))"

record session_stats =
  ss_active_sessions :: u64
  ss_max_sessions :: u64
  ss_next_session_id :: u64

definition registry_stats :: "session_registry \<Rightarrow> session_stats" where
  "registry_stats g =
     \<lparr>ss_active_sessions = active_sessions g, ss_max_sessions = max_sessions g, ss_next_session_id = next_session_id g\<rparr>"

section \<open>The session manager\<close>

datatype session_error = TooManySessions | SessOutOfMemory | SessionNotFound | RingFull | InvalidSession

fun session_error_text :: "session_error \<Rightarrow> string" where
  "session_error_text TooManySessions = ''Too many sessions''"
| "session_error_text SessOutOfMemory = ''Out of memory''"
| "session_error_text SessionNotFound = ''Session not found''"
| "session_error_text RingFull = ''Ring buffer full''"
| "session_error_text InvalidSession = ''Invalid session''"

record sess_manager =
  sess_registry :: session_registry
  sess_arena :: arena
  sess_ring_capacity :: u64
  sess_fd_calls :: "eventfd_call list"

definition sess_manager_new :: "session_registry \<Rightarrow> arena \<Rightarrow> u64 \<Rightarrow> sess_manager" where
  "sess_manager_new g a capacity =
     \<lparr>sess_registry = g, sess_arena = a, sess_ring_capacity = capacity, sess_fd_calls = []\<rparr>"

definition drop_session :: "sess_manager \<Rightarrow> u64 \<Rightarrow> sess_manager \<times> bool" where
  "drop_session m sid =
     (case remove_session (sess_registry m) sid of
        (g, calls, removed) \<Rightarrow> (m\<lparr>sess_registry := g, sess_fd_calls := sess_fd_calls m @ calls\<rparr>, removed))"

definition set_rings :: "u64 \<Rightarrow> u64 \<Rightarrow> u64 \<Rightarrow> session_desc \<Rightarrow> session_desc" where
  "set_rings now cmd resp d = touch now (d\<lparr>cmd_ring_offset := cmd, resp_ring_offset := resp\<rparr>)"

definition attach_session ::
  "u64 \<Rightarrow> int \<Rightarrow> sess_manager \<Rightarrow> u32 \<Rightarrow> (sess_manager \<times> (session_error, u64) result) option"
where
  "attach_session now fd m pid =
     (let capacity = sess_ring_capacity m
      in case registry_create_session now fd (sess_registry m) pid capacity of
           (g, None) \<Rightarrow> Some (m, Inl TooManySessions)
         | (g, Some sid) \<Rightarrow>
             (case ring_size_for_capacity capacity of None \<Rightarrow> None
              | Some ring_size \<Rightarrow>
                  (let (a1, cmd) = allocate (sess_arena m) ring_size 64;
                       (a2, resp) = allocate a1 ring_size 64;
                       m2 = m\<lparr>sess_registry := g, sess_arena := a2\<rparr>
                   in if cmd = 0 \<or> resp = 0 then Some (fst (drop_session m2 sid), Inl SessOutOfMemory)
                      else case ring_init_at a2 cmd capacity of None \<Rightarrow> None
                        | Some a3 \<Rightarrow>
                            (case ring_init_at a3 resp capacity of None \<Rightarrow> None
                             | Some a4 \<Rightarrow>
                                 Some (m2\<lparr>sess_registry := change_session g sid (set_rings now cmd resp),
                                          sess_arena := a4\<rparr>, Inr sid)))))"

definition detach_session :: "sess_manager \<Rightarrow> u64 \<Rightarrow> (sess_manager \<times> (session_error, unit) result) option" where
  "detach_session m sid =
     (case get_session (sess_registry m) sid of None \<Rightarrow> Some (m, Inl SessionNotFound)
      | Some d \<Rightarrow>
          (case drop_session m sid of
             (m1, False) \<Rightarrow> Some (m1, Inl SessionNotFound)
           | (m1, True) \<Rightarrow>
               (case ring_size_for_capacity (sess_ring_capacity m) of None \<Rightarrow> None
                | Some ring_size \<Rightarrow>
                    Some (m1\<lparr>sess_arena := free (free (sess_arena m1) (cmd_ring_offset d) ring_size)
                                             (resp_ring_offset d) ring_size\<rparr>, Inr ()))))"

definition get_cmd_ring :: "sess_manager \<Rightarrow> u64 \<Rightarrow> (session_error, u64) result" where
  "get_cmd_ring m sid =
     (case get_session (sess_registry m) sid of None \<Rightarrow> Inl SessionNotFound | Some d \<Rightarrow> Inr (cmd_ring_offset d))"

definition get_resp_ring :: "sess_manager \<Rightarrow> u64 \<Rightarrow> (session_error, u64) result" where
  "get_resp_ring m sid =
     (case get_session (sess_registry m) sid of None \<Rightarrow> Inl SessionNotFound | Some d \<Rightarrow> Inr (resp_ring_offset d))"

definition notify :: "session_desc \<Rightarrow> eventfd_call list" where
  "notify d = (if pending_notifications d = 0 \<and> sd_eventfd d \<noteq> - 1 then [FdWrite (sd_eventfd d)] else [])"

definition send_response ::
  "u64 \<Rightarrow> sess_manager \<Rightarrow> u64 \<Rightarrow> slot \<Rightarrow> sess_manager \<times> (session_error, unit) result"
where
  "send_response now m sid s =
     (case get_resp_ring m sid of Inl e \<Rightarrow> (m, Inl e)
      | Inr off \<Rightarrow>
          (case ring_push_at (sess_arena m) off s of
             (a, False) \<Rightarrow> (m\<lparr>sess_arena := a\<rparr>, Inl RingFull)
           | (a, True) \<Rightarrow>
               (case get_session (sess_registry m) sid of None \<Rightarrow> (m\<lparr>sess_arena := a\<rparr>, Inl SessionNotFound)
                | Some d \<Rightarrow>
                    (m\<lparr>sess_arena := a, sess_fd_calls := sess_fd_calls m @ notify d,
                       sess_registry := change_session (sess_registry m) sid
                         (\<lambda>d. touch now (d\<lparr>pending_notifications := pending_notifications d + 1\<rparr>))\<rparr>, Inr ()))))"

definition ack_notifications :: "u64 \<Rightarrow> sess_manager \<Rightarrow> u64 \<Rightarrow> sess_manager \<times> (session_error, unit) result" where
  "ack_notifications now m sid =
     (case get_session (sess_registry m) sid of None \<Rightarrow> (m, Inl SessionNotFound)
      | Some d \<Rightarrow> (m\<lparr>sess_registry := change_session (sess_registry m) sid
                       (\<lambda>d. touch now (d\<lparr>pending_notifications := 0\<rparr>))\<rparr>, Inr ()))"

definition cleanup_stale_sessions :: "u64 \<Rightarrow> sess_manager \<Rightarrow> u64 \<Rightarrow> sess_manager \<times> nat" where
  "cleanup_stale_sessions now m timeout_secs =
     (case registry_cleanup now (sess_registry m) timeout_secs of
        (g, calls, n) \<Rightarrow> (m\<lparr>sess_registry := g, sess_fd_calls := sess_fd_calls m @ calls\<rparr>, n))"

definition get_active_sessions :: "sess_manager \<Rightarrow> u64 list" where
  "get_active_sessions m = registry_active (sess_registry m)"

text \<open>The bytes a slot stands for.\<close>

definition slot_bytes_of :: "arena \<Rightarrow> slot \<Rightarrow> bytes" where
  "slot_bytes_of a s =
     (case get_inline_data s of Some bs \<Rightarrow> bs
      | None \<Rightarrow> (case get_arena_offset s of Some off \<Rightarrow> read_bytes a off (unat (slot_len s)) | None \<Rightarrow> []))"

text \<open>\<open>None\<close> is the panic of \<open>Command::from_bytes\<close>.\<close>

definition try_get_command ::
  "sess_manager \<Rightarrow> u64 \<Rightarrow> (sess_manager \<times> (session_error, command option) result) option"
where
  "try_get_command m sid =
     (case get_cmd_ring m sid of Inl e \<Rightarrow> Some (m, Inl e)
      | Inr off \<Rightarrow>
          (case ring_pop_at (sess_arena m) off of
             (a, None) \<Rightarrow> Some (m\<lparr>sess_arena := a\<rparr>, Inr None)
           | (a, Some s) \<Rightarrow>
               (case command_from_bytes (slot_bytes_of a s) of
                  Inr c \<Rightarrow> Some (m\<lparr>sess_arena := a\<rparr>, Inr (Some c))
                | Inl SlicePanic \<Rightarrow> None
                | Inl _ \<Rightarrow> Some (m\<lparr>sess_arena := a\<rparr>, Inl InvalidSession))))"

end
