(* ===== verification/Session_Memory.thy ===== *)
theory Session_Memory
  imports Session_Ved "HOL-Library.Multiset"
begin

text \<open>
  The memory of the arena under the rings of sessions: a stored ring is read back, writes to one
  block leave the others, and blocks of one size that are allocated, freed through the free list in
  memory and reused stay apart.
\<close>

section \<open>Reading and writing memory\<close>

definition block_at :: "u64 \<Rightarrow> nat \<Rightarrow> nat set" where
  "block_at off n = {unat off..<unat off + n}"

lemma mem_read_written:
  assumes "k + n \<le> length bs" and "length bs < 2 ^ 64"
  shows "mem_read (write_bytes m off bs) (off + of_nat k) n = take n (drop k bs)"
proof (rule nth_equalityI)
  show "length (mem_read (write_bytes m off bs) (off + of_nat k) n) = length (take n (drop k bs))"
    using assms by (simp add: mem_read_def)
  fix i assume "i < length (mem_read (write_bytes m off bs) (off + of_nat k) n)"
  then have i: "i < n" by (simp add: mem_read_def)
  with assms have "unat (of_nat (k + i) :: u64) = k + i" by (simp only: unat_of_nat) simp
  then have "unat (off + of_nat k + of_nat i - off) = k + i" by (simp add: algebra_simps)
  with i assms show "mem_read (write_bytes m off bs) (off + of_nat k) n ! i = take n (drop k bs) ! i"
    by (simp add: mem_read_def write_bytes_apply)
qed

lemma write_outside:
  assumes "length bs < 2 ^ 64" and "unat off + length bs \<le> 2 ^ 64" and "unat x \<notin> block_at off (length bs)"
  shows "write_bytes m off bs x = m x"
proof -
  have "\<not> unat (x - off) < length bs"
  proof (cases "off \<le> x")
    case True
    then have "unat (x - off) = unat x - unat off" by (simp add: unat_sub)
    with assms(3) True show ?thesis by (auto simp: block_at_def word_le_nat_alt)
  next
    case False
    then have "unat (x - off) = unat x + 2 ^ 64 - unat off"
      by (simp add: unat_sub_if' word_le_nat_alt)
    with assms(2) show ?thesis by simp
  qed
  with assms(1) show ?thesis by (simp add: write_bytes_apply)
qed

lemma mem_read_outside:
  assumes "unat off + n \<le> 2 ^ 64" and "\<And>x. unat x \<in> block_at off n \<Longrightarrow> m' x = m x"
  shows "mem_read m' off n = mem_read m off n"
proof -
  have "m' (off + of_nat i) = m (off + of_nat i)" if "i < n" for i
  proof (rule assms(2))
    have "unat off + i < 2 ^ 64" using assms(1) that by simp
    then have "unat (off + of_nat i) = unat off + i" by (simp add: unat_word_ariths unat_of_nat)
    with that show "unat (off + of_nat i) \<in> block_at off n" by (simp add: block_at_def)
  qed
  then show ?thesis by (simp add: mem_read_def)
qed

section \<open>Storing and loading a ring\<close>

lemma length_slot_image [simp]: "length (slot_image s) = 16"
  by (simp add: slot_image_def)

lemma length_slots_image: "length (concat (map slot_image ss)) = 16 * length ss"
  by (induction ss) simp_all

lemma length_ring_image: "length (ring_image r) = 192 + 16 * length (spsc_slots r)"
  by (simp add: ring_image_def length_slots_image)

lemma slots_image_nth:
  "i < length ss \<Longrightarrow> take 16 (drop (16 * i) (concat (map slot_image ss))) = slot_image (ss ! i)"
proof (induction ss arbitrary: i)
  case (Cons s ss)
  show ?case
  proof (cases i)
    case (Suc j)
    with Cons show ?thesis by (simp add: drop_append)
  qed simp
qed simp

text \<open>The fields of a ring, read from its image.\<close>

lemma ring_image_fields:
  "take 8 (ring_image r) = u64_to_le (producer_index r)"
  "take 8 (drop 64 (ring_image r)) = u64_to_le (consumer_index r)"
  "take 8 (drop 128 (ring_image r)) = u64_to_le (spsc_capacity r)"
  "take 8 (drop 136 (ring_image r)) = u64_to_le (spsc_mask r)"
  by (simp_all add: ring_image_def)

lemma ring_image_slot:
  assumes "i < length (spsc_slots r)"
  shows "take 16 (drop (192 + 16 * i) (ring_image r)) = slot_image (spsc_slots r ! i)"
proof -
  have "drop (192 + 16 * i) (ring_image r) = drop (16 * i) (concat (map slot_image (spsc_slots r)))"
    by (simp add: ring_image_def)
  with slots_image_nth [OF assms] show ?thesis by simp
qed

lemma load_store_ring:
  assumes "length (spsc_slots r) = unat (spsc_capacity r)" and "192 + 16 * unat (spsc_capacity r) < 2 ^ 64"
  shows "load_ring (store_ring m off r) off = r"
proof -
  let ?m = "store_ring m off r"
  have len: "length (ring_image r) < 2 ^ 64" using assms by (simp add: length_ring_image)
  have rd: "mem_read ?m (off + of_nat k) n = take n (drop k (ring_image r))" if "k + n \<le> length (ring_image r)" for k n
    using mem_read_written [OF that len] by (simp add: store_ring_def)
  have f: "read_u64 ?m off = producer_index r" "read_u64 ?m (off + 64) = consumer_index r"
    "read_u64 ?m (off + 128) = spsc_capacity r" "read_u64 ?m (off + 136) = spsc_mask r"
    using rd [of 0 8] rd [of 64 8] rd [of 128 8] rd [of 136 8]
    by (simp_all add: read_u64_def length_ring_image ring_image_fields)
  have "read_slot ?m (off + of_nat (192 + 16 * i)) = spsc_slots r ! i" if i: "i < unat (spsc_capacity r)" for i
  proof -
    let ?k = "192 + 16 * i"
    have im: "take 16 (drop ?k (ring_image r)) = slot_image (spsc_slots r ! i)"
      using ring_image_slot [of i r] i assms(1) by simp
    have b: "?k + 16 \<le> length (ring_image r)" using i assms(1) by (simp add: length_ring_image)
    have "mem_read ?m (off + of_nat ?k) 4 = take 4 (take 16 (drop ?k (ring_image r)))"
      using rd [of ?k 4] b by (simp add: min_def)
    moreover have "mem_read ?m (off + of_nat (?k + 8)) 8 = take 8 (drop 8 (take 16 (drop ?k (ring_image r))))"
      using rd [of "?k + 8" 8] b by (simp add: drop_take add.commute)
    ultimately show ?thesis
      by (simp only: im read_slot_def read_u64_def) (simp add: slot_image_def algebra_simps)
  qed
  with f assms(1) show ?thesis
    by (simp add: load_ring_def ring_struct_size_def slot_struct_size_def list_eq_iff_nth_eq)
qed

text \<open>A ring is determined by the bytes of its block.\<close>

lemma load_ring_cong:
  assumes b: "unat off + (192 + 16 * unat (spsc_capacity (load_ring m off))) \<le> 2 ^ 64"
    and same: "\<And>x. unat x \<in> block_at off (192 + 16 * unat (spsc_capacity (load_ring m off))) \<Longrightarrow> m' x = m x"
  shows "load_ring m' off = load_ring m off"
proof -
  let ?c = "unat (spsc_capacity (load_ring m off))"
  have rd: "mem_read m' (off + of_nat k) n = mem_read m (off + of_nat k) n" if "k + n \<le> 192 + 16 * ?c" "0 < n" for k n
  proof -
    have "unat off + k < 2 ^ 64" using b that by simp
    then have u: "unat (off + of_nat k) = unat off + k" by (simp add: unat_word_ariths unat_of_nat)
    show ?thesis
    proof (rule mem_read_outside)
      show "unat (off + of_nat k) + n \<le> 2 ^ 64" using u b that by simp
      fix x :: u64 assume "unat x \<in> block_at (off + of_nat k) n"
      with u that have "unat x \<in> block_at off (192 + 16 * ?c)" by (auto simp: block_at_def)
      then show "m' x = m x" by (rule same)
    qed
  qed
  have f: "read_u64 m' off = read_u64 m off" "read_u64 m' (off + 64) = read_u64 m (off + 64)"
    "read_u64 m' (off + 128) = read_u64 m (off + 128)" "read_u64 m' (off + 136) = read_u64 m (off + 136)"
    using rd [of 0 8] rd [of 64 8] rd [of 128 8] rd [of 136 8] by (simp_all add: read_u64_def)
  have c: "?c = unat (read_u64 m (off + 128))" by (simp add: load_ring_def)
  have "read_slot m' (off + of_nat (192 + 16 * i)) = read_slot m (off + of_nat (192 + 16 * i))"
    if "i < unat (read_u64 m (off + 128))" for i
    using rd [of "192 + 16 * i" 4] rd [of "192 + 16 * i + 8" 8] that c
    by (simp add: read_slot_def read_u64_def algebra_simps)
  with f show ?thesis by (simp add: load_ring_def ring_struct_size_def slot_struct_size_def)
qed

section \<open>Blocks of one size\<close>

text \<open>No address lies in two blocks of a collection.\<close>

definition apart :: "nat \<Rightarrow> u64 multiset \<Rightarrow> bool" where
  "apart n M \<longleftrightarrow> (\<forall>p. size {#x \<in># M. p \<in> block_at x n#} \<le> 1)"

lemma apart_subset: "apart n M \<Longrightarrow> N \<subseteq># M \<Longrightarrow> apart n N"
  unfolding apart_def by (meson le_trans multiset_filter_mono size_mset_mono)

lemma apart_disjoint:
  assumes "apart n (add_mset x M)" and "y \<in># M"
  shows "block_at x n \<inter> block_at y n = {}"
proof (rule ccontr)
  assume "block_at x n \<inter> block_at y n \<noteq> {}"
  then obtain p where p: "p \<in> block_at x n" "p \<in> block_at y n" by blast
  from assms(2) obtain N where "M = add_mset y N" by (metis multi_member_split)
  with p have "2 \<le> size {#x \<in># add_mset x M. p \<in> block_at x n#}" by simp
  moreover from assms(1) have "size {#x \<in># add_mset x M. p \<in> block_at x n#} \<le> 1"
    unfolding apart_def by blast
  ultimately show False by linarith
qed

lemma apart_add:
  assumes "apart n M" and "\<And>y. y \<in># M \<Longrightarrow> block_at x n \<inter> block_at y n = {}"
  shows "apart n (add_mset x M)"
  unfolding apart_def
proof
  fix p
  show "size {#y \<in># add_mset x M. p \<in> block_at y n#} \<le> 1"
  proof (cases "p \<in> block_at x n")
    case True
    with assms(2) have "{#y \<in># M. p \<in> block_at y n#} = {#}" by auto
    then show ?thesis using True by simp
  next
    case False
    with assms(1) show ?thesis by (simp add: apart_def)
  qed
qed

text \<open>The chain of a free list through the memory.\<close>

fun chain :: "(u64 \<Rightarrow> u8) \<Rightarrow> u64 \<Rightarrow> u64 list \<Rightarrow> bool" where
  "chain m h [] = (h = 0)"
| "chain m h (x # xs) = (h = x \<and> x \<noteq> 0 \<and> chain m (read_u64 m x) xs)"

lemma chain_cong: "(\<And>x. x \<in> set xs \<Longrightarrow> read_u64 m' x = read_u64 m x) \<Longrightarrow> chain m' h xs = chain m h xs"
  by (induction xs arbitrary: h) auto

definition pool_ok :: "arena \<Rightarrow> u64 \<Rightarrow> u64 list \<Rightarrow> bool" where
  "pool_ok a sz fl \<longleftrightarrow>
     arena_wf a \<and> unat (arena_size a) \<le> 2 ^ 62 \<and> 16 \<le> unat sz \<and> unat sz \<le> 2 ^ 62 \<and>
     (case size_class_for sz of None \<Rightarrow> fl = []
      | Some i \<Rightarrow> size_for_class i div 2 \<le> sz \<and> chain (mem a) (free_lists a ! i) fl)"

text \<open>
  The blocks in use and the free blocks, all of one size: aligned, below the bump pointer, and no
  two of them overlap.
\<close>

definition blocks_ok :: "u64 \<Rightarrow> arena \<Rightarrow> u64 multiset \<Rightarrow> u64 list \<Rightarrow> bool" where
  "blocks_ok sz a M fl \<longleftrightarrow>
     pool_ok a sz fl \<and> apart (unat sz) (M + mset fl) \<and>
     (\<forall>x \<in># M + mset fl. x \<noteq> 0 \<and> 64 dvd unat x \<and> unat x + unat sz \<le> unat (current a))"

lemma free_node_next_read: "free_node_next a off = read_u64 (mem a) off"
  by (simp add: free_node_next_def read_bytes_def read_u64_def mem_read_def)

lemma power_of_two_64: "is_power_of_two (64 :: u64)"
  using is_power_of_twoI [of 6] by simp

lemma pool_sane: "pool_ok a sz fl \<Longrightarrow> sane_request a sz 64"
  by (simp add: pool_ok_def sane_request_def power_of_two_64)

lemma mod_64_word: "64 dvd unat x \<Longrightarrow> x mod (64 :: u64) = 0"
  by (simp add: unat_mod_distrib flip: unat_eq_0)

lemma pool_allocate:
  assumes p: "pool_ok a sz fl" and al: "\<forall>x \<in> set fl. 64 dvd unat x" and "allocate a sz 64 = (a', off)"
  shows "mem a' = mem a \<and>
     (fl \<noteq> [] \<and> off = hd fl \<and> current a' = current a \<and> pool_ok a' sz (tl fl) \<or>
      fl = [] \<and> off = 0 \<and> a' = a \<or>
      fl = [] \<and> off \<noteq> 0 \<and> 64 dvd unat off \<and> unat (current a) \<le> unat off \<and>
        unat (current a') = unat off + unat sz \<and> pool_ok a' sz [])"
proof (cases fl)
  case (Cons x xs)
  with p obtain i where c: "size_class_for sz = Some i" "size_for_class i div 2 \<le> sz"
    "free_lists a ! i = x" "x \<noteq> 0" "chain (mem a) (read_u64 (mem a) x) xs"
    by (auto simp: pool_ok_def split: option.splits)
  have e: "list_eligible sz i" using c by (simp add: list_eligible_def)
  note l = list_eligible_facts [OF e]
  have "x mod 64 = 0" using al Cons mod_64_word by simp
  moreover have "\<not> size_for_class i < sz" "\<not> sz < size_for_class i div 2" using l by (simp_all add: not_less)
  ultimately have "allocate a sz 64 =
      (a\<lparr>free_lists := (free_lists a)[i := read_u64 (mem a) x], allocation_count := allocation_count a + 1,
         allocated_bytes := allocated_bytes a + sz\<rparr>, x)"
    using c l(3) by (simp add: allocate_def allocate_from_free_list_def Let_def free_node_next_read)
  with assms(3) p c l Cons show ?thesis
    by (auto simp: pool_ok_def arena_wf_def)
next
  case Nil
  have nz: "sz \<noteq> 0" using p by (auto simp: pool_ok_def)
  have "allocate_from_free_list a sz 64 = None"
    using p Nil by (auto simp: pool_ok_def allocate_from_free_list_def Let_def split: option.splits)
  with nz assms(3) have b: "bump_allocate a sz 64 = (a', off)" by (simp add: allocate_def)
  have wf: "arena_wf a" using p by (simp add: pool_ok_def)
  show ?thesis
  proof (cases "off = 0")
    case True
    with bump_failure(2) [OF wf pool_sane [OF p]] b Nil show ?thesis by simp
  next
    case False
    from bump_success [OF wf pool_sane [OF p] b False] p Nil False show ?thesis
      by (auto simp: pool_ok_def split: option.splits)
  qed
qed

lemma block_below: "unat y + n \<le> unat off \<Longrightarrow> block_at off n \<inter> block_at y n = {}"
  by (auto simp: block_at_def)

lemma blocks_allocate:
  assumes "blocks_ok sz a M fl" and "allocate a sz 64 = (a', off)"
  shows "mem a' = mem a \<and>
     (off = 0 \<and> a' = a \<or> off \<noteq> 0 \<and> (\<exists>fl'. blocks_ok sz a' (add_mset off M) fl'))"
proof -
  from assms(1) have p: "pool_ok a sz fl" and ap: "apart (unat sz) (M + mset fl)"
    and b: "\<And>x. x \<in># M + mset fl \<Longrightarrow> x \<noteq> 0 \<and> 64 dvd unat x \<and> unat x + unat sz \<le> unat (current a)"
    by (auto simp: blocks_ok_def)
  have "\<forall>x \<in> set fl. 64 dvd unat x" using b by simp
  note r = pool_allocate [OF p this assms(2)]
  from r consider (reuse) "fl \<noteq> []" "off = hd fl" "current a' = current a" "pool_ok a' sz (tl fl)"
    | (full) "off = 0" "a' = a"
    | (bump) "fl = []" "off \<noteq> 0" "64 dvd unat off" "unat (current a) \<le> unat off"
        "unat (current a') = unat off + unat sz" "pool_ok a' sz []"
    by blast
  then show ?thesis
  proof cases
    case reuse
    then have "M + mset fl = add_mset off M + mset (tl fl)" by (cases fl) simp_all
    with reuse ap b r show ?thesis by (auto simp: blocks_ok_def)
  next
    case full
    then show ?thesis by simp
  next
    case bump
    have "block_at off (unat sz) \<inter> block_at y (unat sz) = {}" if "y \<in># M" for y
      using b [of y] that bump(4) by (intro block_below) simp
    then have "apart (unat sz) (add_mset off M)" using ap bump(1) by (intro apart_add) simp_all
    moreover have "unat x + unat sz \<le> unat (current a')" if "x \<in># M" for x
      using b [of x] that bump(4,5) by simp
    ultimately have "blocks_ok sz a' (add_mset off M) []"
      using bump b by (auto simp: blocks_ok_def)
    with bump r show ?thesis by blast
  qed
qed

lemma block_size_mono: "m \<le> n \<Longrightarrow> block_at x m \<subseteq> block_at x n"
  by (auto simp: block_at_def)

lemma arena_below: "blocks_ok sz a M fl \<Longrightarrow> x \<in># M + mset fl \<Longrightarrow> unat x + unat sz \<le> 2 ^ 62"
  unfolding blocks_ok_def pool_ok_def arena_wf_def by (meson le_trans)

text \<open>Writing into a block leaves the links of free blocks.\<close>

lemma chain_outside:
  assumes b: "blocks_ok sz a (add_mset off M) fl" and len: "length bs \<le> unat sz"
  shows "chain (write_bytes (mem a) off bs) h fl = chain (mem a) h fl"
proof (rule chain_cong)
  fix x assume x: "x \<in> set fl"
  have sz: "16 \<le> unat sz" using b by (simp add: blocks_ok_def pool_ok_def)
  have d: "block_at off (unat sz) \<inter> block_at x (unat sz) = {}"
    using b x apart_disjoint [of "unat sz" off "M + mset fl" x] by (simp add: blocks_ok_def)
  have lo: "unat off + unat sz \<le> 2 ^ 62" and lx: "unat x + unat sz \<le> 2 ^ 62"
    using arena_below [OF b, of off] arena_below [OF b, of x] x by simp_all
  show "read_u64 (write_bytes (mem a) off bs) x = read_u64 (mem a) x"
    unfolding read_u64_def
  proof (rule arg_cong [where f = u64_from_le], rule mem_read_outside)
    show "unat x + 8 \<le> 2 ^ 64" using lx sz by simp
    fix y :: u64 assume "unat y \<in> block_at x 8"
    with block_size_mono [of 8 "unat sz" x] sz d have "unat y \<notin> block_at off (unat sz)" by auto
    with block_size_mono [OF len, of off] have "unat y \<notin> block_at off (length bs)" by auto
    with lo len show "write_bytes (mem a) off bs y = mem a y" by (intro write_outside) simp_all
  qed
qed

lemma blocks_write:
  assumes "blocks_ok sz a (add_mset off M) fl" and "length bs \<le> unat sz"
  shows "blocks_ok sz (a\<lparr>mem := write_bytes (mem a) off bs\<rparr>) (add_mset off M) fl"
  using assms chain_outside [OF assms]
  by (auto simp: blocks_ok_def pool_ok_def arena_wf_def split: option.splits)

lemma written_outside:
  assumes b: "blocks_ok sz a (add_mset off M) fl" and len: "length bs \<le> unat sz"
    and y: "y \<in># M" and x: "unat x \<in> block_at y (unat sz)"
  shows "write_bytes (mem a) off bs x = mem a x"
proof -
  have "block_at off (unat sz) \<inter> block_at y (unat sz) = {}"
    using b y apart_disjoint [of "unat sz" off "M + mset fl" y] by (simp add: blocks_ok_def)
  with x block_size_mono [OF len, of off] have "unat x \<notin> block_at off (length bs)" by auto
  moreover have "unat off + unat sz \<le> 2 ^ 62" using arena_below [OF b, of off] by simp
  ultimately show ?thesis using len by (intro write_outside) simp_all
qed

lemma length_free_node [simp]: "length (free_node_bytes n s) = 16"
  by (simp add: free_node_bytes_def)

lemma blocks_free:
  assumes b: "blocks_ok sz a (add_mset off M) fl"
  shows "\<exists>fl'. blocks_ok sz (free a off sz) M fl'"
    and "y \<in># M \<Longrightarrow> unat x \<in> block_at y (unat sz) \<Longrightarrow> mem (free a off sz) x = mem a x"
proof -
  have p: "pool_ok a sz fl" and sz: "16 \<le> unat sz" using b by (auto simp: blocks_ok_def pool_ok_def)
  have nz: "off \<noteq> 0" "sz \<noteq> 0" using b sz by (auto simp: blocks_ok_def)
  have "(\<exists>fl'. blocks_ok sz (free a off sz) M fl') \<and>
      (y \<in># M \<longrightarrow> unat x \<in> block_at y (unat sz) \<longrightarrow> mem (free a off sz) x = mem a x)"
  proof (cases "size_class_for sz")
    case None
    then have f: "free a off sz = a\<lparr>free_count := free_count a + 1\<rparr>" using nz by (simp add: free_def)
    have "apart (unat sz) M" using b by (auto simp: blocks_ok_def intro: apart_subset)
    with b None f have "blocks_ok sz (free a off sz) M []"
      by (auto simp: blocks_ok_def pool_ok_def arena_wf_def)
    with f show ?thesis by auto
  next
    case (Some i)
    with p have e: "list_eligible sz i" by (simp add: pool_ok_def list_eligible_def)
    note l = list_eligible_facts [OF e]
    let ?bs = "free_node_bytes (free_lists a ! i) (size_for_class i)"
    have f: "free a off sz = a\<lparr>mem := write_bytes (mem a) off ?bs,
        free_lists := (free_lists a)[i := off], free_count := free_count a + 1\<rparr>"
      using nz l Some by (simp add: free_def add_to_free_list_def Let_def not_less)
    have len: "length ?bs \<le> unat sz" using sz by simp
    have "read_u64 (write_bytes (mem a) off ?bs) off = free_lists a ! i"
      using mem_read_written [of 0 8 ?bs "mem a" off] by (simp add: read_u64_def) (simp add: free_node_bytes_def)
    with chain_outside [OF b len] p Some nz l have "pool_ok (free a off sz) sz (off # fl)"
      by (simp add: pool_ok_def f arena_wf_def)
    with b have "blocks_ok sz (free a off sz) M (off # fl)"
      by (auto simp: blocks_ok_def f)
    with written_outside [OF b len] f show ?thesis by auto
  qed
  then show "\<exists>fl'. blocks_ok sz (free a off sz) M fl'"
    and "y \<in># M \<Longrightarrow> unat x \<in> block_at y (unat sz) \<Longrightarrow> mem (free a off sz) x = mem a x" by blast+
qed

end
