(* ===== verification/Session_Registry.thy ===== *)
theory Session_Registry
  imports Session_Memory
begin

text \<open>
  The registry of sessions as a map from ids to descriptors, the invariant that joins it with the
  rings in memory, and the abstract state of a session manager.
\<close>

section \<open>The registry as a map\<close>

definition desc_of :: "session_desc list \<Rightarrow> u64 \<Rightarrow> session_desc option" where
  "desc_of ds sid = find (\<lambda>d. sd_id d = sid) ds"

definition live_ids :: "session_desc list \<Rightarrow> u64 list" where
  "live_ids ds = filter (\<lambda>i. i \<noteq> 0) (map sd_id ds)"

lemma first_with_Some: "first_with p xs = Some i \<Longrightarrow> i < length xs \<and> p (xs ! i) \<and> find p xs = Some (xs ! i)"
  by (induction xs arbitrary: i) (auto split: if_splits)

lemma first_with_None: "first_with p xs = None \<longleftrightarrow> (\<forall>x \<in> set xs. \<not> p x)"
  by (induction xs) auto

lemma first_with_find: "map_option (\<lambda>i. xs ! i) (first_with p xs) = find p xs"
  by (induction xs) (auto simp: option.map_comp comp_def)

lemma find_first_update: "first_with p xs = Some i \<Longrightarrow> p y \<Longrightarrow> find p (xs[i := y]) = Some y"
  by (induction xs arbitrary: i) (auto split: if_splits)

lemma find_other_update: "i < length xs \<Longrightarrow> \<not> p (xs ! i) \<Longrightarrow> \<not> p y \<Longrightarrow> find p (xs[i := y]) = find p xs"
  by (induction xs arbitrary: i) (auto simp: nth_Cons' split: nat.splits)

lemma get_session_desc: "get_session g sid = desc_of (descs g) sid"
  by (simp add: get_session_def session_index_def desc_of_def first_with_find)

lemma desc_of_Some: "desc_of ds sid = Some d \<Longrightarrow> d \<in> set ds \<and> sd_id d = sid"
  by (auto simp: desc_of_def find_Some_iff)

lemma desc_of_None: "desc_of ds sid = None \<longleftrightarrow> (\<forall>d \<in> set ds. sd_id d \<noteq> sid)"
  by (auto simp: desc_of_def find_None_iff)

lemma live_ids_desc: "sid \<noteq> 0 \<Longrightarrow> sid \<in> set (live_ids ds) \<longleftrightarrow> desc_of ds sid \<noteq> None"
  by (auto simp: live_ids_def desc_of_None)

lemma desc_split: "i < length ds \<Longrightarrow> \<exists>xs ys. ds = xs @ ds ! i # ys \<and> length xs = i"
  by (metis id_take_nth_drop length_take min.absorb4)

lemma live_ids_append: "live_ids (xs @ ys) = live_ids xs @ live_ids ys"
  by (simp add: live_ids_def)

lemma live_ids_Cons: "live_ids (d # ds) = (if sd_id d = 0 then live_ids ds else sd_id d # live_ids ds)"
  by (simp add: live_ids_def)

definition rings_of :: "session_desc \<Rightarrow> u64 multiset" where
  "rings_of d = (if sd_id d = 0 then {#} else {#cmd_ring_offset d, resp_ring_offset d#})"

definition live_rings :: "session_desc list \<Rightarrow> u64 multiset" where
  "live_rings ds = sum_list (map rings_of ds)"

lemma live_rings_append: "live_rings (xs @ d # ys) = rings_of d + live_rings (xs @ ys)"
  by (simp add: live_rings_def)

lemma live_rings_member: "off \<in># live_rings ds \<longleftrightarrow> (\<exists>d \<in> set ds. off \<in># rings_of d)"
  by (induction ds) (auto simp: live_rings_def)

lemma rings_of_live: "sd_id d \<noteq> 0 \<Longrightarrow> rings_of d = {#cmd_ring_offset d, resp_ring_offset d#}"
  by (simp add: rings_of_def)

text \<open>Replacing one descriptor, seen from the list of ids, the rings and the map.\<close>

lemma replace_desc:
  assumes "i < length ds"
  obtains M xs ys where "live_rings ds = rings_of (ds ! i) + M" and "\<And>d'. live_rings (ds[i := d']) = rings_of d' + M"
    and "live_ids ds = xs @ live_ids [ds ! i] @ ys" and "\<And>d'. live_ids (ds[i := d']) = xs @ live_ids [d'] @ ys"
proof -
  from desc_split [OF assms] obtain us vs where d: "ds = us @ ds ! i # vs" and l: "length us = i" by blast
  have u: "ds[i := d'] = us @ d' # vs" for d' by (subst d) (simp add: l list_update_append)
  show thesis
  proof (rule that)
    show "live_rings ds = rings_of (ds ! i) + live_rings (us @ vs)"
      by (subst d) (rule live_rings_append)
    show "live_ids ds = live_ids us @ live_ids [ds ! i] @ live_ids vs"
      by (subst d) (simp add: live_ids_def)
  qed (simp_all add: u live_rings_append, simp add: live_ids_def)
qed

lemma live_ids_le: "length (live_ids ds) \<le> length ds"
  by (metis length_filter_le length_map live_ids_def)

lemma live_ids_full: "length (live_ids ds) = length ds \<longleftrightarrow> (\<forall>d \<in> set ds. sd_id d \<noteq> 0)"
proof (induction ds)
  case (Cons d ds)
  then show ?case using live_ids_le [of ds] by (auto simp: live_ids_Cons)
qed (simp add: live_ids_def)

definition registry_ok :: "nat \<Rightarrow> session_registry \<Rightarrow> bool" where
  "registry_ok n g \<longleftrightarrow>
     length (descs g) = unat (max_sessions g) \<and> active_sessions g = of_nat (length (live_ids (descs g))) \<and>
     distinct (live_ids (descs g)) \<and> (\<forall>i \<in> set (live_ids (descs g)). i < next_session_id g) \<and>
     0 < next_session_id g \<and> unat (next_session_id g) + n < 2 ^ 64"

lemma unat_active: "registry_ok n g \<Longrightarrow> unat (active_sessions g) = length (live_ids (descs g))"
proof -
  assume r: "registry_ok n g"
  have "unat (max_sessions g) < 2 ^ 64" using unsigned_less [of "max_sessions g"] by simp
  with r live_ids_le [of "descs g"] show ?thesis by (simp add: registry_ok_def unat_of_nat)
qed

lemma registry_full:
  assumes "registry_ok n g"
  shows "active_sessions g \<ge> max_sessions g \<longleftrightarrow> find_free_slot g = None"
proof -
  have "active_sessions g \<ge> max_sessions g \<longleftrightarrow> length (live_ids (descs g)) = length (descs g)"
    using unat_active [OF assms] assms live_ids_le [of "descs g"]
    by (auto simp: registry_ok_def word_le_nat_alt)
  then show ?thesis by (simp add: live_ids_full find_free_slot_def first_with_None)
qed

lemma registry_ok_less: "registry_ok (Suc n) g \<Longrightarrow> registry_ok n g"
  by (simp add: registry_ok_def)

lemma first_with_fresh: "i < length xs \<Longrightarrow> p y \<Longrightarrow> \<forall>x \<in> set xs. \<not> p x \<Longrightarrow> first_with p (xs[i := y]) = Some i"
  by (induction xs arbitrary: i) (auto split: nat.splits)

lemma fresh_id: "registry_ok n g \<Longrightarrow> d \<in> set (descs g) \<Longrightarrow> sd_id d \<noteq> next_session_id g"
  by (force simp: registry_ok_def live_ids_def)

lemma create_ok:
  assumes r: "registry_ok (Suc n) g"
  shows "length (live_ids (descs g)) = unat (max_sessions g) \<and> registry_create_session now fd g pid c = (g, None) \<or>
    length (live_ids (descs g)) < unat (max_sessions g) \<and>
    (\<exists>i d. i < length (descs g) \<and> sd_id (descs g ! i) = 0 \<and> sd_id d = next_session_id g \<and>
       (let g' = g\<lparr>next_session_id := next_session_id g + 1, active_sessions := active_sessions g + 1, descs := (descs g)[i := d]\<rparr>
        in registry_create_session now fd g pid c = (g', Some (next_session_id g)) \<and> registry_ok n g' \<and>
           session_index g' (next_session_id g) = Some i))"
proof (cases "find_free_slot g")
  case None
  with registry_full [OF r] have "registry_create_session now fd g pid c = (g, None)"
    by (simp add: registry_create_session_def)
  moreover have "length (live_ids (descs g)) = unat (max_sessions g)"
    using None r by (simp add: find_free_slot_def first_with_None registry_ok_def live_ids_full [symmetric])
  ultimately show ?thesis by blast
next
  case (Some i)
  then have i: "i < length (descs g)" "sd_id (descs g ! i) = 0"
    using first_with_Some [of _ "descs g" i] by (auto simp: find_free_slot_def)
  let ?n = "next_session_id g"
  let ?d = "touch now ((descs g ! i)\<lparr>sd_id := ?n, sd_pid := pid, sd_ring_capacity := c\<rparr>)\<lparr>sd_eventfd := fd\<rparr>"
  let ?g = "g\<lparr>next_session_id := ?n + 1, active_sessions := active_sessions g + 1, descs := (descs g)[i := ?d]\<rparr>"
  have id: "sd_id ?d = ?n" by (simp add: touch_def)
  have create: "registry_create_session now fd g pid c = (?g, Some ?n)"
    using Some registry_full [OF r] by (simp add: registry_create_session_def)
  have idx: "session_index ?g ?n = Some i"
    using i fresh_id [OF r] id by (simp add: session_index_def first_with_fresh)
  obtain M xs ys where l: "live_ids (descs g) = xs @ live_ids [descs g ! i] @ ys"
    "\<And>d'. live_ids ((descs g)[i := d']) = xs @ live_ids [d'] @ ys" by (rule replace_desc [OF i(1)]) blast
  have nz: "?n \<noteq> 0" using r by (auto simp: registry_ok_def)
  have old: "live_ids (descs g) = xs @ ys" and new: "live_ids (descs ?g) = xs @ ?n # ys"
    using l(1) l(2) [of ?d] i(2) nz id by (simp_all add: live_ids_def touch_def)
  have un: "unat (?n + 1) = unat ?n + 1" using r by (simp add: registry_ok_def unat_word_ariths)
  have "registry_ok n ?g"
    unfolding registry_ok_def new
    using r old un by (auto simp: registry_ok_def word_less_nat_alt algebra_simps intro: less_SucI)
  moreover have "length (live_ids (descs g)) < unat (max_sessions g)"
    using live_ids_le [of "descs g"] live_ids_full [of "descs g"] i r
    by (auto simp: registry_ok_def le_less)
  ultimately show ?thesis using create idx i id unfolding Let_def
    by (intro disjI2 conjI exI [of _ i] exI [of _ ?d])
qed

lemma change_session_desc:
  assumes "\<And>d. sd_id (f d) = sd_id d"
  shows "desc_of (descs (change_session g sid f)) s = (if s = sid then map_option f (desc_of (descs g) sid) else desc_of (descs g) s)"
proof (cases "session_index g sid")
  case None
  then have "desc_of (descs g) sid = None"
    by (simp add: session_index_def first_with_None desc_of_None)
  with None show ?thesis by (simp add: change_session_def)
next
  case (Some i)
  then have i: "i < length (descs g)" "sd_id (descs g ! i) = sid" "desc_of (descs g) sid = Some (descs g ! i)"
    using first_with_Some [of _ "descs g" i] by (auto simp: session_index_def desc_of_def)
  have "desc_of ((descs g)[i := f (descs g ! i)]) sid = Some (f (descs g ! i))"
    using Some i assms by (simp add: desc_of_def session_index_def find_first_update)
  moreover have "s \<noteq> sid \<Longrightarrow> desc_of ((descs g)[i := f (descs g ! i)]) s = desc_of (descs g) s"
    using i assms by (simp add: desc_of_def find_other_update)
  ultimately show ?thesis using Some i by (simp add: change_session_def)
qed

lemma change_session_ok:
  assumes "\<And>d. sd_id (f d) = sd_id d"
  shows "live_ids (descs (change_session g sid f)) = live_ids (descs g)"
    and "registry_ok n g \<Longrightarrow> registry_ok n (change_session g sid f)"
    and "(\<And>d. rings_of (f d) = rings_of d) \<Longrightarrow> live_rings (descs (change_session g sid f)) = live_rings (descs g)"
proof -
  have "live_ids ((descs g)[i := f (descs g ! i)]) = live_ids (descs g)" if "i < length (descs g)" for i
    by (rule replace_desc [OF that]) (simp add: live_ids_def assms)
  then show l: "live_ids (descs (change_session g sid f)) = live_ids (descs g)"
    by (auto simp: change_session_def session_index_def dest: first_with_Some split: option.splits)
  have "length (descs (change_session g sid f)) = length (descs g)"
    "max_sessions (change_session g sid f) = max_sessions g" "active_sessions (change_session g sid f) = active_sessions g"
    "next_session_id (change_session g sid f) = next_session_id g"
    by (simp_all add: change_session_def split: option.splits)
  with l show "registry_ok n g \<Longrightarrow> registry_ok n (change_session g sid f)" by (simp add: registry_ok_def)
  assume "\<And>d. rings_of (f d) = rings_of d"
  then have "live_rings ((descs g)[i := f (descs g ! i)]) = live_rings (descs g)" if "i < length (descs g)" for i
    by (auto intro: replace_desc [OF that])
  then show "live_rings (descs (change_session g sid f)) = live_rings (descs g)"
    by (auto simp: change_session_def session_index_def dest: first_with_Some split: option.splits)
qed

lemma remove_ok:
  assumes r: "registry_ok n g" and sid: "sid \<noteq> 0" and d: "desc_of (descs g) sid = Some d"
  shows "\<exists>g'. remove_session g sid = (g', close_fd d, True) \<and> registry_ok n g' \<and>
     (\<forall>s. s \<noteq> 0 \<longrightarrow> desc_of (descs g') s = (if s = sid then None else desc_of (descs g) s)) \<and>
     live_rings (descs g) = rings_of d + live_rings (descs g') \<and> sd_id d = sid"
proof -
  from d obtain i where idx: "session_index g sid = Some i"
    by (cases "session_index g sid") (auto simp: session_index_def first_with_None desc_of_def find_Some_iff)
  then have i: "i < length (descs g)" "sd_id (descs g ! i) = sid" "descs g ! i = d"
    using first_with_Some [of _ "descs g" i] d by (auto simp: session_index_def desc_of_def)
  let ?g = "g\<lparr>descs := (descs g)[i := vacate d], active_sessions := active_sessions g - 1\<rparr>"
  have v: "sd_id (vacate d) = 0" by (simp add: vacate_def)
  obtain M xs ys where l: "live_rings (descs g) = rings_of (descs g ! i) + M"
    "\<And>d'. live_rings ((descs g)[i := d']) = rings_of d' + M"
    "live_ids (descs g) = xs @ live_ids [descs g ! i] @ ys"
    "\<And>d'. live_ids ((descs g)[i := d']) = xs @ live_ids [d'] @ ys" by (rule replace_desc [OF i(1)]) blast
  have old: "live_ids (descs g) = xs @ sid # ys" and new: "live_ids (descs ?g) = xs @ ys"
    using l(3) l(4) [of "vacate d"] i sid v by (simp_all add: live_ids_def)
  have ok: "registry_ok n ?g"
    unfolding registry_ok_def new using r old by (auto simp: registry_ok_def)
  have "desc_of (descs ?g) s = (if s = sid then None else desc_of (descs g) s)" if s: "s \<noteq> 0" for s
  proof -
    have "sid \<notin> set (live_ids (descs ?g))" using r old new by (auto simp: registry_ok_def)
    with live_ids_desc [OF sid, of "descs ?g"] have "desc_of (descs ?g) sid = None" by simp
    moreover have "s \<noteq> sid \<Longrightarrow> desc_of (descs ?g) s = desc_of (descs g) s"
      using i v s by (simp add: desc_of_def find_other_update)
    ultimately show ?thesis by simp
  qed
  moreover have "remove_session g sid = (?g, close_fd d, True)" using idx i by (simp add: remove_session_def)
  moreover have "live_rings (descs g) = rings_of d + live_rings (descs ?g)"
    using l(1) l(2) [of "vacate d"] i v by (simp add: rings_of_def)
  ultimately show ?thesis using ok i by blast
qed

section \<open>The manager\<close>

definition ring_ok :: "nat \<Rightarrow> u64 \<Rightarrow> (u64 \<Rightarrow> u8) \<Rightarrow> u64 \<Rightarrow> bool" where
  "ring_ok n c m off \<longleftrightarrow> spsc_wf n (load_ring m off) \<and> spsc_capacity (load_ring m off) = c"

text \<open>The memory part: blocks of the size of a ring, each block in use with a ring in it.\<close>

definition rings_ok :: "nat \<Rightarrow> u64 \<Rightarrow> arena \<Rightarrow> u64 multiset \<Rightarrow> bool" where
  "rings_ok n c a M \<longleftrightarrow>
     is_power_of_two c \<and> 192 + 16 * unat c \<le> 2 ^ 62 \<and>
     (\<exists>fl. blocks_ok (192 + c * 16) a M fl) \<and> (\<forall>off \<in># M. ring_ok n c (mem a) off)"

definition sess_inv :: "nat \<Rightarrow> sess_manager \<Rightarrow> bool" where
  "sess_inv n m \<longleftrightarrow>
     registry_ok n (sess_registry m) \<and>
     rings_ok n (sess_ring_capacity m) (sess_arena m) (live_rings (descs (sess_registry m)))"

text \<open>The abstract state: for each session the commands and responses that wait, and the last activity.\<close>

type_synonym abs_sessions = "u64 \<rightharpoonup> slot list \<times> slot list \<times> u64"

definition session_view :: "(u64 \<Rightarrow> u8) \<Rightarrow> session_desc \<Rightarrow> slot list \<times> slot list \<times> u64" where
  "session_view m d =
     (spsc_elems (load_ring m (cmd_ring_offset d)), spsc_elems (load_ring m (resp_ring_offset d)), sd_last_activity d)"

definition abs_of :: "sess_manager \<Rightarrow> abs_sessions" where
  "abs_of m = (\<lambda>sid. if sid = 0 then None
     else map_option (session_view (mem (sess_arena m))) (get_session (sess_registry m) sid))"

lemma ring_ok_less: "ring_ok (Suc n) c m off \<Longrightarrow> ring_ok n c m off"
  by (simp add: ring_ok_def spsc_wf_less)

lemma rings_ok_less: "rings_ok (Suc n) c a M \<Longrightarrow> rings_ok n c a M"
  by (auto simp: rings_ok_def ring_ok_less)

lemma sess_inv_less: "sess_inv (Suc n) m \<Longrightarrow> sess_inv n m"
  by (simp add: sess_inv_def rings_ok_less registry_ok_less)

lemma ring_size:
  assumes "192 + 16 * unat c \<le> 2 ^ 62"
  shows "unat (192 + c * 16 :: u64) = 192 + 16 * unat c"
proof -
  have "unat (c * 16) = 16 * unat c" using assms by (simp add: unat_word_ariths)
  with assms show ?thesis by (simp add: unat_word_ariths)
qed

lemma rings_ok_size: "rings_ok n c a M \<Longrightarrow> unat (192 + c * 16 :: u64) = 192 + 16 * unat c"
  by (rule ring_size) (simp add: rings_ok_def)

lemma ring_size_Some: "rings_ok n c a M \<Longrightarrow> ring_size_for_capacity c = Some (192 + c * 16)"
  by (simp add: ring_size_for_capacity_def rings_ok_def ring_struct_size_def slot_struct_size_def)

text \<open>A ring whose block is untouched is the same ring.\<close>

lemma ring_frame:
  assumes b: "blocks_ok sz a M fl" and y: "y \<in># M" and ok: "ring_ok n c (mem a) y"
    and sz: "unat sz = 192 + 16 * unat c"
    and same: "\<And>x. unat x \<in> block_at y (unat sz) \<Longrightarrow> m' x = mem a x"
  shows "load_ring m' y = load_ring (mem a) y"
proof (rule load_ring_cong)
  have c: "spsc_capacity (load_ring (mem a) y) = c" using ok by (simp add: ring_ok_def)
  have "unat y + unat sz \<le> 2 ^ 62" using arena_below [OF b, of y] y by simp
  then show "unat y + (192 + 16 * unat (spsc_capacity (load_ring (mem a) y))) \<le> 2 ^ 64"
    using sz c by simp
  fix x :: u64 assume "unat x \<in> block_at y (192 + 16 * unat (spsc_capacity (load_ring (mem a) y)))"
  then show "m' x = mem a x" using same [of x] sz c by simp
qed

lemma rings_store:
  assumes r: "rings_ok n c a M" and b: "blocks_ok (192 + c * 16) a (add_mset off N) fl"
    and M: "M = add_mset off N \<or> M = N" and wf: "spsc_wf n r" "spsc_capacity r = c"
    and a': "a' = a\<lparr>mem := store_ring (mem a) off r\<rparr>"
  shows "rings_ok n c a' (add_mset off N)" and "load_ring (mem a') off = r"
    and "y \<in># N \<Longrightarrow> load_ring (mem a') y = load_ring (mem a) y"
proof -
  note sz = rings_ok_size [OF r]
  have lay: "length (spsc_slots r) = unat c" using wf by (simp add: spsc_wf_def spsc_layout_def)
  have len: "length (ring_image r) \<le> unat (192 + c * 16 :: u64)"
    by (simp add: sz length_ring_image lay)
  have c: "192 + 16 * unat c \<le> 2 ^ 62" using r by (simp add: rings_ok_def)
  show l: "load_ring (mem a') off = r"
    using lay wf(2) c by (simp add: a' load_store_ring)
  have same: "load_ring (mem a') y = load_ring (mem a) y" if "y \<in># N" for y
  proof (rule ring_frame [OF b _ _ sz])
    show "y \<in># add_mset off N" using that by simp
    show "ring_ok n c (mem a) y" using r M that by (auto simp: rings_ok_def)
    fix x :: u64 assume "unat x \<in> block_at y (unat (192 + c * 16))"
    from written_outside [OF b len that this] show "mem a' x = mem a x" by (simp add: a' store_ring_def)
  qed
  then show "y \<in># N \<Longrightarrow> load_ring (mem a') y = load_ring (mem a) y" .
  have "blocks_ok (192 + c * 16) a' (add_mset off N) fl"
    using blocks_write [OF b len] by (simp add: a' store_ring_def)
  moreover have "ring_ok n c (mem a') y" if "y \<in># add_mset off N" for y
  proof (cases "y \<in># N")
    case True
    with r M same [OF True] show ?thesis by (auto simp: rings_ok_def ring_ok_def)
  next
    case False
    with that l wf show ?thesis by (simp add: ring_ok_def)
  qed
  ultimately show "rings_ok n c a' (add_mset off N)" using r by (auto simp: rings_ok_def)
qed

lemma rings_initialise:
  assumes r: "rings_ok n c a N" and b: "blocks_ok (192 + c * 16) a (add_mset off N) fl" and n: "n < 2 ^ 64"
  obtains a' where "ring_init_at a off c = Some a'" and "rings_ok n c a' (add_mset off N)"
    and "spsc_elems (load_ring (mem a') off) = []" and "\<And>y. y \<in># N \<Longrightarrow> load_ring (mem a') y = load_ring (mem a) y"
    and "a' = a\<lparr>mem := mem a'\<rparr>" and "blocks_ok (192 + c * 16) a' (add_mset off N) fl"
proof -
  from r obtain ring where i: "spsc_init c = Some ring" by (auto simp: rings_ok_def spsc_init_def)
  from spsc_init_wf [OF i n] have w: "spsc_wf n ring" "spsc_capacity ring = c" "spsc_elems ring = []" by auto
  let ?a = "a\<lparr>mem := store_ring (mem a) off ring\<rparr>"
  note s = rings_store [OF r b disjI2 [OF refl] w(1,2) refl]
  have "length (ring_image ring) \<le> unat (192 + c * 16 :: u64)"
    using w by (simp add: rings_ok_size [OF r] length_ring_image spsc_wf_def spsc_layout_def)
  from blocks_write [OF b this] have "blocks_ok (192 + c * 16) ?a (add_mset off N) fl" by (simp add: store_ring_def)
  with s w(3) show thesis by (intro that [of ?a]) (simp_all add: ring_init_at_def i)
qed

lemma apart_distinct: "apart n (add_mset x (add_mset y M)) \<Longrightarrow> 0 < n \<Longrightarrow> x \<noteq> y"
  using apart_disjoint [of n x "add_mset y M" y] by (auto simp: block_at_def)

lemma rings_apart: "rings_ok n c a M \<Longrightarrow> apart (192 + 16 * unat c) M"
proof -
  assume r: "rings_ok n c a M"
  then obtain fl where "apart (unat (192 + c * 16 :: u64)) (M + mset fl)" by (auto simp: rings_ok_def blocks_ok_def)
  then have "apart (unat (192 + c * 16 :: u64)) M" by (rule apart_subset) simp
  then show ?thesis unfolding rings_ok_size [OF r] .
qed

text \<open>The rings of two sessions are different rings.\<close>

lemma other_session:
  assumes r: "registry_ok n g" and ap: "apart (192 + 16 * unat c) (live_rings (descs g))" and sid: "sid \<noteq> 0" "s \<noteq> 0" "s \<noteq> sid"
    and d: "desc_of (descs g) sid = Some d" and d2: "desc_of (descs g) s = Some d2"
    and x: "x \<in># rings_of d" and y: "y \<in># rings_of d2"
  shows "x \<noteq> y"
proof -
  obtain g' where "remove_session g sid = (g', close_fd d, True)" "registry_ok n g'"
    and ds: "\<forall>s. s \<noteq> 0 \<longrightarrow> desc_of (descs g') s = (if s = sid then None else desc_of (descs g) s)"
    and lr: "live_rings (descs g) = rings_of d + live_rings (descs g')" and "sd_id d = sid"
    using remove_ok [OF r sid(1) d] by blast
  have "desc_of (descs g') s = Some d2" using d2 ds sid by simp
  then have "d2 \<in> set (descs g')" by (auto dest: desc_of_Some)
  with y have "y \<in># live_rings (descs g')" by (auto simp: live_rings_member)
  with x lr obtain N where "live_rings (descs g) = add_mset x (add_mset y N)"
    by (metis mset_add union_mset_add_mset_left union_mset_add_mset_right)
  with ap apart_distinct show ?thesis by simp
qed

lemma live_ring:
  assumes "desc_of ds sid = Some d" and "sid \<noteq> 0"
  shows "cmd_ring_offset d \<in># live_rings ds" and "resp_ring_offset d \<in># live_rings ds"
    and "rings_of d = {#cmd_ring_offset d, resp_ring_offset d#}"
  using desc_of_Some [OF assms(1)] assms(2) by (auto simp: live_rings_member rings_of_def)

lemma own_rings:
  assumes "registry_ok n g" and "apart (192 + 16 * unat c) (live_rings (descs g))" and "sid \<noteq> 0" and "desc_of (descs g) sid = Some d"
  shows "cmd_ring_offset d \<noteq> resp_ring_offset d"
proof -
  obtain g' where "remove_session g sid = (g', close_fd d, True)" "registry_ok n g'"
    and ds: "\<forall>s. s \<noteq> 0 \<longrightarrow> desc_of (descs g') s = (if s = sid then None else desc_of (descs g) s)"
    and lr: "live_rings (descs g) = rings_of d + live_rings (descs g')" and "sd_id d = sid"
    using remove_ok [OF assms(1,3,4)] by blast
  with assms(2) live_ring(3) [OF assms(4,3)] lr
  have "apart (192 + 16 * unat c) (add_mset (cmd_ring_offset d) (add_mset (resp_ring_offset d) (live_rings (descs g'))))"
    by simp
  then show ?thesis by (rule apart_distinct) simp
qed

lemma rings_modify:
  assumes r: "rings_ok (Suc n) c a M" and off: "off \<in># M" and wf: "spsc_wf n r'" "spsc_capacity r' = c"
    and a': "a' = a\<lparr>mem := store_ring (mem a) off r'\<rparr>"
  shows "rings_ok n c a' M" and "load_ring (mem a') off = r'"
    and "y \<in># M \<Longrightarrow> y \<noteq> off \<Longrightarrow> load_ring (mem a') y = load_ring (mem a) y"
proof -
  from off obtain N where M: "M = add_mset off N" by (metis mset_add)
  from r obtain fl where b: "blocks_ok (192 + c * 16) a (add_mset off N) fl" by (auto simp: rings_ok_def M)
  note s = rings_store [OF rings_ok_less [OF r] b disjI1 [OF M] wf a']
  show "rings_ok n c a' M" and "load_ring (mem a') off = r'" using s M by simp_all
  show "y \<in># M \<Longrightarrow> y \<noteq> off \<Longrightarrow> load_ring (mem a') y = load_ring (mem a) y" using s(3) M by auto
qed

lemma push_at:
  assumes r: "rings_ok (Suc n) c a M" and off: "off \<in># M" and e: "spsc_elems (load_ring (mem a) off) = q"
    and p: "ring_push_at a off s = (a', ok)"
  shows "rings_ok n c a' M" and "y \<in># M \<Longrightarrow> y \<noteq> off \<Longrightarrow> load_ring (mem a') y = load_ring (mem a) y"
    and "ok \<longleftrightarrow> length q < unat c" and "spsc_elems (load_ring (mem a') off) = (if length q < unat c then q @ [s] else q)"
proof -
  let ?r = "load_ring (mem a) off"
  from r off have wf: "spsc_wf (Suc n) ?r" and c: "spsc_capacity ?r = c" by (auto simp: rings_ok_def ring_ok_def)
  obtain r' where t: "spsc_try_push ?r s = (r', ok)" and a': "a' = a\<lparr>mem := store_ring (mem a) off r'\<rparr>"
    using p by (auto simp: ring_push_at_def split: prod.splits)
  have w': "spsc_wf n r'" "(ok \<longleftrightarrow> length q < unat c)" "spsc_elems r' = (if length q < unat c then q @ [s] else q)"
    using spsc_push_room [OF wf, of s] spsc_push_full [OF wf, of s] t e c spsc_wf_less [OF wf]
    by (cases "length q < unat c"; auto)+
  have "spsc_capacity r' = c" using t c spsc_capacity_push [of ?r s] by simp
  note m = rings_modify [OF r off w'(1) this a']
  show "rings_ok n c a' M" by (rule m(1))
  show "y \<in># M \<Longrightarrow> y \<noteq> off \<Longrightarrow> load_ring (mem a') y = load_ring (mem a) y" by (rule m(3))
  show "ok \<longleftrightarrow> length q < unat c" by (rule w'(2))
  show "spsc_elems (load_ring (mem a') off) = (if length q < unat c then q @ [s] else q)" using w'(3) m(2) by simp
qed

lemma pop_at:
  assumes r: "rings_ok (Suc n) c a M" and off: "off \<in># M" and e: "spsc_elems (load_ring (mem a) off) = q"
    and p: "ring_pop_at a off = (a', s)"
  shows "rings_ok n c a' M" and "y \<in># M \<Longrightarrow> y \<noteq> off \<Longrightarrow> load_ring (mem a') y = load_ring (mem a) y"
    and "s = (case q of [] \<Rightarrow> None | x # _ \<Rightarrow> Some x)" and "spsc_elems (load_ring (mem a') off) = tl q"
proof -
  let ?r = "load_ring (mem a) off"
  from r off have wf: "spsc_wf n ?r" and c: "spsc_capacity ?r = c" by (auto simp: rings_ok_def ring_ok_def spsc_wf_less)
  obtain r' where t: "spsc_try_pop ?r = (r', s)" and a': "a' = a\<lparr>mem := store_ring (mem a) off r'\<rparr>"
    using p by (auto simp: ring_pop_at_def split: prod.splits)
  have w': "spsc_wf n r'" "s = (case q of [] \<Rightarrow> None | x # _ \<Rightarrow> Some x)" "spsc_elems r' = tl q"
    using spsc_pop_some [OF wf] spsc_pop_none [OF wf] t e wf by (cases q; auto)+
  have "spsc_capacity r' = c" using t c spsc_capacity_pop [of ?r] by simp
  note m = rings_modify [OF r off w'(1) this a']
  show "rings_ok n c a' M" by (rule m(1))
  show "y \<in># M \<Longrightarrow> y \<noteq> off \<Longrightarrow> load_ring (mem a') y = load_ring (mem a) y" by (rule m(3))
  show "s = (case q of [] \<Rightarrow> None | x # _ \<Rightarrow> Some x)" by (rule w'(2))
  show "spsc_elems (load_ring (mem a') off) = tl q" using w'(3) m(2) by simp
qed

text \<open>Changing one ring and the other fields of one descriptor changes one session.\<close>

definition keeps_rings :: "(session_desc \<Rightarrow> session_desc) \<Rightarrow> bool" where
  "keeps_rings f \<longleftrightarrow> (\<forall>d. sd_id (f d) = sd_id d \<and> cmd_ring_offset (f d) = cmd_ring_offset d \<and>
     resp_ring_offset (f d) = resp_ring_offset d)"

lemma session_change:
  assumes inv: "sess_inv (Suc n) m" and sid: "sid \<noteq> 0" and d: "desc_of (descs (sess_registry m)) sid = Some d"
    and off: "off \<in># rings_of d" and f: "keeps_rings f"
    and a': "rings_ok n (sess_ring_capacity m) a' (live_rings (descs (sess_registry m)))"
    and same: "\<And>y. y \<in># live_rings (descs (sess_registry m)) \<Longrightarrow> y \<noteq> off \<Longrightarrow>
       load_ring (mem a') y = load_ring (mem (sess_arena m)) y"
    and m': "sess_registry m' = change_session (sess_registry m) sid f" "sess_arena m' = a'"
      "sess_ring_capacity m' = sess_ring_capacity m"
  shows "sess_inv n m'" and "abs_of m' = (abs_of m)(sid \<mapsto> session_view (mem a') (f d))"
proof -
  let ?g = "sess_registry m"
  from inv have r: "registry_ok (Suc n) ?g" and ro: "rings_ok (Suc n) (sess_ring_capacity m) (sess_arena m) (live_rings (descs ?g))"
    by (simp_all add: sess_inv_def)
  have id: "\<And>d. sd_id (f d) = sd_id d" and ring: "\<And>d. rings_of (f d) = rings_of d"
    using f by (simp_all add: keeps_rings_def rings_of_def)
  note ch = change_session_ok [of f, OF id]
  show "sess_inv n m'"
    using ch(2) [OF registry_ok_less [OF r]] ch(3) [OF ring] a' m' by (simp add: sess_inv_def)
  show "abs_of m' = (abs_of m)(sid \<mapsto> session_view (mem a') (f d))"
  proof
    fix s
    consider "s = 0" | "s = sid" | "s \<noteq> 0" "s \<noteq> sid" "desc_of (descs ?g) s = None"
      | d2 where "s \<noteq> 0" "s \<noteq> sid" "desc_of (descs ?g) s = Some d2" by fastforce
    then show "abs_of m' s = ((abs_of m)(sid \<mapsto> session_view (mem a') (f d))) s"
    proof cases
      case 4
      have "load_ring (mem a') y = load_ring (mem (sess_arena m)) y" if "y \<in># rings_of d2" for y
        using that other_session [OF r rings_apart [OF ro] sid 4(1,2) d 4(3) off that] desc_of_Some [OF 4(3)]
        by (intro same) (auto simp: live_rings_member)
      with 4 live_ring(3) [OF 4(3,1)] show ?thesis
        by (simp add: abs_of_def get_session_desc m' change_session_desc [of f, OF id] session_view_def)
    qed (use sid d m' in \<open>simp_all add: abs_of_def get_session_desc change_session_desc [of f, OF id]\<close>)
  qed
qed

end
