(* ===== verification/Session_Proofs.thy ===== *)
theory Session_Proofs
  imports Session_Registry
begin

text \<open>
  The session manager implements an abstract map from session ids to two bounded queues. Two further
  theorems show where the registry does not keep its promises: the id 0, and the notifications of
  a reused descriptor.
\<close>

section \<open>Operations and their specification\<close>

text \<open>
  The calls of the server, and what a client does with its rings: it pushes commands and pops
  responses.
\<close>

datatype sess_op =
    Attach u64 int u32 | Detach u64 | Send_Response u64 u64 slot | Ack u64 u64 | Cleanup u64 u64
  | Take_Command u64 | Client_Push u64 slot | Client_Pop u64

datatype sess_out =
    Attached "(session_error, u64) result" | Finished "(session_error, unit) result" | Cleaned nat
  | Command "(session_error, command option) result" | Client_Pushed "(session_error, bool) result"
  | Client_Popped "(session_error, slot option) result"

definition client_push :: "sess_manager \<Rightarrow> u64 \<Rightarrow> slot \<Rightarrow> sess_manager \<times> (session_error, bool) result" where
  "client_push m sid s =
     (case get_cmd_ring m sid of Inl e \<Rightarrow> (m, Inl e)
      | Inr off \<Rightarrow> (case ring_push_at (sess_arena m) off s of (a, ok) \<Rightarrow> (m\<lparr>sess_arena := a\<rparr>, Inr ok)))"

definition client_pop :: "sess_manager \<Rightarrow> u64 \<Rightarrow> sess_manager \<times> (session_error, slot option) result" where
  "client_pop m sid =
     (case get_resp_ring m sid of Inl e \<Rightarrow> (m, Inl e)
      | Inr off \<Rightarrow> (case ring_pop_at (sess_arena m) off of (a, s) \<Rightarrow> (m\<lparr>sess_arena := a\<rparr>, Inr s)))"

fun sess_step :: "sess_manager \<Rightarrow> sess_op \<Rightarrow> (sess_manager \<times> sess_out) option" where
  "sess_step m (Attach now fd pid) = map_option (map_prod id Attached) (attach_session now fd m pid)"
| "sess_step m (Detach sid) = map_option (map_prod id Finished) (detach_session m sid)"
| "sess_step m (Send_Response now sid s) = Some (map_prod id Finished (send_response now m sid s))"
| "sess_step m (Ack now sid) = Some (map_prod id Finished (ack_notifications now m sid))"
| "sess_step m (Cleanup now t) = Some (map_prod id Cleaned (cleanup_stale_sessions now m t))"
| "sess_step m (Take_Command sid) = map_option (map_prod id Command) (try_get_command m sid)"
| "sess_step m (Client_Push sid s) = Some (map_prod id Client_Pushed (client_push m sid s))"
| "sess_step m (Client_Pop sid) = Some (map_prod id Client_Popped (client_pop m sid))"

fun op_session :: "sess_op \<Rightarrow> u64 option" where
  "op_session (Attach _ _ _) = None" | "op_session (Cleanup _ _) = None"
| "op_session (Detach sid) = Some sid" | "op_session (Send_Response _ sid _) = Some sid"
| "op_session (Ack _ sid) = Some sid" | "op_session (Take_Command sid) = Some sid"
| "op_session (Client_Push sid _) = Some sid" | "op_session (Client_Pop sid) = Some sid"

fun sess_run :: "sess_manager \<Rightarrow> sess_op list \<Rightarrow> (sess_manager \<times> sess_out list) option" where
  "sess_run m [] = Some (m, [])"
| "sess_run m (op # ops) =
     (case sess_step m op of None \<Rightarrow> None
      | Some (m1, out) \<Rightarrow> map_option (map_prod id ((#) out)) (sess_run m1 ops))"

text \<open>What an operation on a known session may answer and do, with rings of \<open>c\<close> slots.\<close>

definition decode_command :: "bytes \<Rightarrow> (session_error, command option) result" where
  "decode_command bs = (case command_from_bytes bs of Inl _ \<Rightarrow> Inl InvalidSession | Inr c \<Rightarrow> Inr (Some c))"

fun spec_known :: "nat \<Rightarrow> slot list \<times> slot list \<times> u64 \<Rightarrow> sess_op \<Rightarrow> sess_out \<Rightarrow> (slot list \<times> slot list \<times> u64) option \<Rightarrow> bool" where
  "spec_known c v (Detach _) out v' \<longleftrightarrow> out = Finished (Inr ()) \<and> v' = None"
| "spec_known c (cs, rs, t) (Send_Response now _ s) out v' \<longleftrightarrow>
     (if length rs < c then out = Finished (Inr ()) \<and> v' = Some (cs, rs @ [s], now)
      else out = Finished (Inl RingFull) \<and> v' = Some (cs, rs, t))"
| "spec_known c (cs, rs, t) (Ack now _) out v' \<longleftrightarrow> out = Finished (Inr ()) \<and> v' = Some (cs, rs, now)"
| "spec_known c (cs, rs, t) (Take_Command _) out v' \<longleftrightarrow>
     v' = Some (tl cs, rs, t) \<and>
     (case cs of [] \<Rightarrow> out = Command (Inr None)
      | s # _ \<Rightarrow> \<exists>bs. out = Command (decode_command bs) \<and> (\<forall>b. get_inline_data s = Some b \<longrightarrow> bs = b))"
| "spec_known c (cs, rs, t) (Client_Push _ s) out v' \<longleftrightarrow>
     out = Client_Pushed (Inr (length cs < c)) \<and> v' = Some (if length cs < c then cs @ [s] else cs, rs, t)"
| "spec_known c (cs, rs, t) (Client_Pop _) out v' \<longleftrightarrow>
     out = Client_Popped (Inr (case rs of [] \<Rightarrow> None | s # _ \<Rightarrow> Some s)) \<and> v' = Some (cs, tl rs, t)"
| "spec_known c v op out v' \<longleftrightarrow> False"

fun not_found :: "sess_op \<Rightarrow> sess_out" where
  "not_found (Take_Command _) = Command (Inl SessionNotFound)"
| "not_found (Client_Push _ _) = Client_Pushed (Inl SessionNotFound)"
| "not_found (Client_Pop _) = Client_Popped (Inl SessionNotFound)"
| "not_found _ = Finished (Inl SessionNotFound)"

definition abs_stale :: "u64 \<Rightarrow> u64 \<Rightarrow> abs_sessions \<Rightarrow> u64 set" where
  "abs_stale now t A = {sid. \<exists>cs rs l. A sid = Some (cs, rs, l) \<and> t < saturating_sub now l}"

definition spec_attach :: "nat \<Rightarrow> u64 \<Rightarrow> abs_sessions \<Rightarrow> sess_out \<Rightarrow> abs_sessions \<Rightarrow> bool" where
  "spec_attach n now A out A' \<longleftrightarrow>
     (if card (dom A) < n
      then out = Attached (Inl SessOutOfMemory) \<and> A' = A \<or>
           (\<exists>sid. out = Attached (Inr sid) \<and> sid \<noteq> 0 \<and> A sid = None \<and> A' = A(sid \<mapsto> ([], [], now)))
      else out = Attached (Inl TooManySessions) \<and> A' = A)"

definition spec_step :: "nat \<Rightarrow> nat \<Rightarrow> abs_sessions \<Rightarrow> sess_op \<Rightarrow> sess_out \<Rightarrow> abs_sessions \<Rightarrow> bool" where
  "spec_step c n A op out A' \<longleftrightarrow>
     (case op of
        Attach now _ _ \<Rightarrow> spec_attach n now A out A'
      | Cleanup now t \<Rightarrow> out = Cleaned (card (abs_stale now t A)) \<and> A' = A |` (- abs_stale now t A)
      | _ \<Rightarrow> (let sid = the (op_session op)
              in case A sid of None \<Rightarrow> out = not_found op \<and> A' = A
                 | Some v \<Rightarrow> \<exists>v'. spec_known c v op out v' \<and> A' = A(sid := v')))"

fun spec_run :: "nat \<Rightarrow> nat \<Rightarrow> abs_sessions \<Rightarrow> sess_op list \<Rightarrow> sess_out list \<Rightarrow> abs_sessions \<Rightarrow> bool" where
  "spec_run c n A [] outs A' \<longleftrightarrow> outs = [] \<and> A' = A"
| "spec_run c n A (op # ops) [] A' \<longleftrightarrow> False"
| "spec_run c n A (op # ops) (out # outs) A' \<longleftrightarrow> (\<exists>B. spec_step c n A op out B \<and> spec_run c n B ops outs A')"

section \<open>Each operation implements its specification\<close>

definition sess_simulates :: "nat \<Rightarrow> sess_manager \<Rightarrow> sess_op \<Rightarrow> sess_out \<Rightarrow> sess_manager \<Rightarrow> bool" where
  "sess_simulates n m op out m' \<longleftrightarrow>
     sess_inv n m' \<and> sess_ring_capacity m' = sess_ring_capacity m \<and>
     max_sessions (sess_registry m') = max_sessions (sess_registry m) \<and>
     spec_step (unat (sess_ring_capacity m)) (unat (max_sessions (sess_registry m))) (abs_of m) op out (abs_of m')"

lemma abs_desc:
  "sid \<noteq> 0 \<Longrightarrow> abs_of m sid = map_option (session_view (mem (sess_arena m))) (desc_of (descs (sess_registry m)) sid)"
  by (simp add: abs_of_def get_session_desc)

lemma max_sessions_change [simp]: "max_sessions (change_session g sid f) = max_sessions g"
  by (simp add: change_session_def split: option.splits)

lemma change_session_id [simp]: "change_session g sid id = g"
  by (simp add: change_session_def split: option.splits)

lemma unknown_simulates:
  assumes "sess_inv (Suc n) m" and "op_session op = Some sid" and "sid \<noteq> 0"
    and "desc_of (descs (sess_registry m)) sid = None" and "out = not_found op"
  shows "sess_simulates n m op out m"
  using assms sess_inv_less by (cases op) (auto simp: sess_simulates_def spec_step_def abs_desc)

text \<open>An operation on one ring of a session and the descriptor of the session.\<close>

lemma known_simulates:
  assumes inv: "sess_inv (Suc n) m" and op: "op_session op = Some sid" and sid: "sid \<noteq> 0"
    and d: "desc_of (descs (sess_registry m)) sid = Some d"
    and off: "off \<in># rings_of d" and f: "keeps_rings f"
    and a': "rings_ok n (sess_ring_capacity m) a' (live_rings (descs (sess_registry m)))"
    and same: "\<And>y. y \<in># live_rings (descs (sess_registry m)) \<Longrightarrow> y \<noteq> off \<Longrightarrow>
       load_ring (mem a') y = load_ring (mem (sess_arena m)) y"
    and m': "sess_registry m' = change_session (sess_registry m) sid f" "sess_arena m' = a'"
      "sess_ring_capacity m' = sess_ring_capacity m"
    and spec: "spec_known (unat (sess_ring_capacity m)) (session_view (mem (sess_arena m)) d) op out
       (Some (session_view (mem a') (f d)))"
  shows "sess_simulates n m op out m'"
proof -
  note ch = session_change [OF inv sid d off f a' same m', simplified]
  have "abs_of m sid = Some (session_view (mem (sess_arena m)) d)" using sid d by (simp add: abs_desc)
  with op spec ch(2) have "spec_step (unat (sess_ring_capacity m)) (unat (max_sessions (sess_registry m)))
      (abs_of m) op out (abs_of m')"
    by (cases op) (auto simp: spec_step_def)
  with ch(1) m' show ?thesis by (simp add: sess_simulates_def)
qed

lemma session_rings:
  assumes inv: "sess_inv n m" and sid: "sid \<noteq> 0" and d: "desc_of (descs (sess_registry m)) sid = Some d"
  shows "cmd_ring_offset d \<in># live_rings (descs (sess_registry m))" "resp_ring_offset d \<in># live_rings (descs (sess_registry m))"
    "cmd_ring_offset d \<in># rings_of d" "resp_ring_offset d \<in># rings_of d" "cmd_ring_offset d \<noteq> resp_ring_offset d"
    "rings_ok n (sess_ring_capacity m) (sess_arena m) (live_rings (descs (sess_registry m)))"
  using live_ring [OF d sid] own_rings [of n "sess_registry m" "sess_ring_capacity m" sid d] inv sid d rings_apart
  by (auto simp: sess_inv_def)

lemma keeps_rings_id [simp]: "keeps_rings id"
  by (simp add: keeps_rings_def)

lemma send_simulates:
  assumes inv: "sess_inv (Suc n) m" and sid: "sid \<noteq> 0" and s: "send_response now m sid s = (m', r)"
  shows "sess_simulates n m (Send_Response now sid s) (Finished r) m'"
proof (cases "desc_of (descs (sess_registry m)) sid")
  case None
  with s show ?thesis
    using unknown_simulates [OF inv _ sid None, of "Send_Response now sid s"]
    by (auto simp: send_response_def get_resp_ring_def get_session_desc)
next
  case (Some d)
  note R = session_rings [OF inv sid Some]
  obtain a ok where p: "ring_push_at (sess_arena m) (resp_ring_offset d) s = (a, ok)" by fastforce
  note P = push_at [OF R(6,2) refl p]
  let ?f = "\<lambda>d. touch now (d\<lparr>pending_notifications := pending_notifications d + 1\<rparr>)"
  let ?g = "if ok then ?f else id"
  have "keeps_rings ?g" by (simp add: keeps_rings_def touch_def)
  moreover have "sess_registry m' = change_session (sess_registry m) sid ?g" "sess_arena m' = a"
      "sess_ring_capacity m' = sess_ring_capacity m" "r = (if ok then Inr () else Inl RingFull)"
    using s p Some by (auto simp: send_response_def get_resp_ring_def get_session_desc split: bool.splits)
  ultimately show ?thesis
    using P R(5) P(2) [OF R(1,5)]
    by (intro known_simulates [OF inv _ sid Some R(4), of _ ?g]) (auto simp: session_view_def touch_def)
qed

lemma ack_simulates:
  assumes inv: "sess_inv (Suc n) m" and sid: "sid \<noteq> 0" and s: "ack_notifications now m sid = (m', r)"
  shows "sess_simulates n m (Ack now sid) (Finished r) m'"
proof (cases "desc_of (descs (sess_registry m)) sid")
  case None
  with s show ?thesis
    using unknown_simulates [OF inv _ sid None, of "Ack now sid"]
    by (auto simp: ack_notifications_def get_session_desc)
next
  case (Some d)
  note R = session_rings [OF inv sid Some]
  let ?f = "\<lambda>d. touch now (d\<lparr>pending_notifications := 0\<rparr>)"
  have "keeps_rings ?f" by (simp add: keeps_rings_def touch_def)
  with s Some show ?thesis
    by (intro known_simulates [OF inv _ sid Some R(4), of _ ?f "sess_arena m"])
      (auto simp: ack_notifications_def get_session_desc session_view_def touch_def rings_ok_less [OF R(6)])
qed

lemma client_push_simulates:
  assumes inv: "sess_inv (Suc n) m" and sid: "sid \<noteq> 0" and s: "client_push m sid s = (m', r)"
  shows "sess_simulates n m (Client_Push sid s) (Client_Pushed r) m'"
proof (cases "desc_of (descs (sess_registry m)) sid")
  case None
  with s show ?thesis
    using unknown_simulates [OF inv _ sid None, of "Client_Push sid s"]
    by (auto simp: client_push_def get_cmd_ring_def get_session_desc)
next
  case (Some d)
  note R = session_rings [OF inv sid Some]
  obtain a ok where p: "ring_push_at (sess_arena m) (cmd_ring_offset d) s = (a, ok)" by fastforce
  note P = push_at [OF R(6,1) refl p]
  have "m' = m\<lparr>sess_arena := a\<rparr>" "r = Inr ok"
    using s p Some by (auto simp: client_push_def get_cmd_ring_def get_session_desc)
  with P P(2) [OF R(2) R(5) [symmetric]] show ?thesis
    by (intro known_simulates [OF inv _ sid Some R(3), of _ id a]) (auto simp: session_view_def)
qed

lemma client_pop_simulates:
  assumes inv: "sess_inv (Suc n) m" and sid: "sid \<noteq> 0" and s: "client_pop m sid = (m', r)"
  shows "sess_simulates n m (Client_Pop sid) (Client_Popped r) m'"
proof (cases "desc_of (descs (sess_registry m)) sid")
  case None
  with s show ?thesis
    using unknown_simulates [OF inv _ sid None, of "Client_Pop sid"]
    by (auto simp: client_pop_def get_resp_ring_def get_session_desc)
next
  case (Some d)
  note R = session_rings [OF inv sid Some]
  obtain a x where p: "ring_pop_at (sess_arena m) (resp_ring_offset d) = (a, x)" by fastforce
  note P = pop_at [OF R(6,2) refl p]
  have "m' = m\<lparr>sess_arena := a\<rparr>" "r = Inr x"
    using s p Some by (auto simp: client_pop_def get_resp_ring_def get_session_desc)
  with P P(2) [OF R(1,5)] show ?thesis
    by (intro known_simulates [OF inv _ sid Some R(4), of _ id a]) (auto simp: session_view_def)
qed

lemma take_simulates:
  assumes inv: "sess_inv (Suc n) m" and sid: "sid \<noteq> 0" and s: "try_get_command m sid = Some (m', r)"
  shows "sess_simulates n m (Take_Command sid) (Command r) m'"
proof (cases "desc_of (descs (sess_registry m)) sid")
  case None
  with s show ?thesis
    using unknown_simulates [OF inv _ sid None, of "Take_Command sid"]
    by (auto simp: try_get_command_def get_cmd_ring_def get_session_desc)
next
  case (Some d)
  note R = session_rings [OF inv sid Some]
  obtain a x where p: "ring_pop_at (sess_arena m) (cmd_ring_offset d) = (a, x)" by fastforce
  note P = pop_at [OF R(6,1) refl p]
  have m': "m' = m\<lparr>sess_arena := a\<rparr>"
    and r: "r = (case x of None \<Rightarrow> Inr None | Some y \<Rightarrow> decode_command (slot_bytes_of a y))"
    using s p Some by (auto simp: try_get_command_def get_cmd_ring_def get_session_desc decode_command_def
        split: option.splits sum.splits frame_error.splits)
  have "\<forall>b. get_inline_data y = Some b \<longrightarrow> slot_bytes_of a y = b" for y by (simp add: slot_bytes_of_def)
  with m' r P P(2) [OF R(2) R(5) [symmetric]] show ?thesis
    by (intro known_simulates [OF inv _ sid Some R(3), of _ id a])
      (auto simp: session_view_def split: list.splits)
qed

lemma rings_free:
  assumes r: "rings_ok n c a (add_mset off M)" and a': "a' = free a off (192 + c * 16)"
  shows "rings_ok n c a' M" and "y \<in># M \<Longrightarrow> load_ring (mem a') y = load_ring (mem a) y"
proof -
  from r obtain fl where b: "blocks_ok (192 + c * 16) a (add_mset off M) fl" by (auto simp: rings_ok_def)
  note F = blocks_free [OF b]
  have same: "load_ring (mem a') y = load_ring (mem a) y" if "y \<in># M" for y
    using r that F(2) [OF that]
    by (intro ring_frame [OF b _ _ rings_ok_size [OF r]]) (auto simp: rings_ok_def a')
  then show "y \<in># M \<Longrightarrow> load_ring (mem a') y = load_ring (mem a) y" .
  from F(1) same r show "rings_ok n c a' M" by (auto simp: rings_ok_def ring_ok_def a')
qed

lemma rings_ok_subset:
  assumes "rings_ok n c a M" and s: "N \<subseteq># M"
  shows "rings_ok n c a N"
proof -
  have "apart k (M + mset fl) \<Longrightarrow> apart k (N + mset fl)" for k fl
    using s by (elim apart_subset) simp
  moreover have "x \<in># N \<Longrightarrow> x \<in># M" for x using mset_subset_eqD [OF s] by blast
  ultimately have "blocks_ok k a M fl \<Longrightarrow> blocks_ok k a N fl" for k fl by (auto simp: blocks_ok_def)
  with assms(1) \<open>\<And>x. x \<in># N \<Longrightarrow> x \<in># M\<close> show ?thesis unfolding rings_ok_def by blast
qed

lemma abs_frame:
  assumes "s \<noteq> 0" and "desc_of (descs (sess_registry m')) s = desc_of (descs (sess_registry m)) s"
    and "\<And>y. y \<in># live_rings (descs (sess_registry m')) \<Longrightarrow> load_ring (mem (sess_arena m')) y = load_ring (mem (sess_arena m)) y"
  shows "abs_of m' s = abs_of m s"
proof (cases "desc_of (descs (sess_registry m')) s")
  case (Some d)
  have "session_view (mem (sess_arena m')) d = session_view (mem (sess_arena m)) d"
    using live_ring [OF Some assms(1)] assms(3) by (simp add: session_view_def)
  with Some assms(2) [symmetric] assms(1) show ?thesis by (simp add: abs_desc)
qed (use assms in \<open>simp add: abs_desc\<close>)

lemma abs_zero: "abs_of m 0 = None"
  by (simp add: abs_of_def)

lemma detach_simulates:
  assumes inv: "sess_inv (Suc n) m" and sid: "sid \<noteq> 0" and s: "detach_session m sid = Some (m', r)"
  shows "sess_simulates n m (Detach sid) (Finished r) m'"
proof (cases "desc_of (descs (sess_registry m)) sid")
  case None
  with s show ?thesis
    using unknown_simulates [OF inv _ sid None, of "Detach sid"]
    by (auto simp: detach_session_def get_session_desc)
next
  case (Some d)
  let ?g = "sess_registry m" and ?c = "sess_ring_capacity m" and ?a = "sess_arena m"
  from inv have reg: "registry_ok n ?g" and R: "rings_ok n ?c ?a (live_rings (descs ?g))"
    by (simp_all add: sess_inv_def registry_ok_less rings_ok_less)
  from remove_ok [OF reg sid Some] obtain g' where g': "remove_session ?g sid = (g', close_fd d, True)"
    "registry_ok n g'" "\<forall>s. s \<noteq> 0 \<longrightarrow> desc_of (descs g') s = (if s = sid then None else desc_of (descs ?g) s)"
    "live_rings (descs ?g) = rings_of d + live_rings (descs g')" by blast
  have mx: "max_sessions g' = max_sessions ?g"
    using g'(1) by (auto simp: remove_session_def split: option.splits)
  let ?a1 = "free ?a (cmd_ring_offset d) (192 + ?c * 16)"
  let ?a2 = "free ?a1 (resp_ring_offset d) (192 + ?c * 16)"
  have m': "m' = m\<lparr>sess_registry := g', sess_fd_calls := sess_fd_calls m @ close_fd d, sess_arena := ?a2\<rparr>" "r = Inr ()"
    using s Some g'(1) ring_size_Some [OF R]
    by (auto simp: detach_session_def get_session_desc drop_session_def)
  have "rings_ok n ?c ?a (add_mset (cmd_ring_offset d) (add_mset (resp_ring_offset d) (live_rings (descs g'))))"
    using R g'(4) live_ring(3) [OF Some sid] by simp
  note f1 = rings_free [OF this refl]
  note f2 = rings_free [OF f1(1) refl]
  have "abs_of m' s = ((abs_of m)(sid := None)) s" for s
  proof (cases "s = 0 \<or> s = sid")
    case True
    with sid g'(3) m' show ?thesis by (auto simp: abs_zero abs_desc)
  next
    case False
    then have "abs_of m' s = abs_of m s" using g'(3) m' f1 f2 by (intro abs_frame) auto
    with False show ?thesis by simp
  qed
  then have "abs_of m' = (abs_of m)(sid := None)" by blast
  moreover have "sess_inv n m'" using g'(2) f2(1) m' by (simp add: sess_inv_def)
  ultimately show ?thesis
    using Some sid m' mx by (simp add: sess_simulates_def spec_step_def abs_desc)
qed

lemma abs_dom:
  assumes "registry_ok n (sess_registry m)"
  shows "card (dom (abs_of m)) = length (live_ids (descs (sess_registry m)))"
proof -
  let ?ids = "live_ids (descs (sess_registry m))"
  have "0 \<notin> set ?ids" by (simp add: live_ids_def)
  then have "s \<in> set ?ids \<longleftrightarrow> s \<in> dom (abs_of m)" for s
    using live_ids_desc [of s "descs (sess_registry m)"] by (cases "s = 0") (auto simp: abs_zero abs_desc)
  then have "dom (abs_of m) = set ?ids" by blast
  with assms show ?thesis by (simp add: registry_ok_def distinct_card)
qed

lemma find_vacated:
  assumes "distinct (live_ids ds)" and "s \<noteq> 0"
  shows "desc_of (map (\<lambda>d. if p d then vacate d else d) ds) s =
    (case desc_of ds s of None \<Rightarrow> None | Some d \<Rightarrow> if p d then None else Some d)"
  using assms(1)
proof (induction ds)
  case (Cons d ds)
  have IH: "desc_of (map (\<lambda>d. if p d then vacate d else d) ds) s =
      (case desc_of ds s of None \<Rightarrow> None | Some d \<Rightarrow> if p d then None else Some d)"
    using Cons by (auto simp: live_ids_Cons split: if_splits)
  have none: "sd_id d = s \<Longrightarrow> desc_of ds s = None"
    using Cons.prems assms(2) live_ids_desc [OF assms(2), of ds] by (auto simp: live_ids_Cons)
  show ?case using IH none assms(2) by (auto simp: desc_of_def vacate_def)
qed (simp add: desc_of_def)

lemma vacated_ids:
  "live_ids (map (\<lambda>d. if p d then vacate d else d) ds) = map sd_id (filter (\<lambda>d. sd_id d \<noteq> 0 \<and> \<not> p d) ds)"
  by (induction ds) (auto simp: live_ids_def vacate_def)

lemma vacated_rings: "live_rings (map (\<lambda>d. if p d then vacate d else d) ds) \<subseteq># live_rings ds"
proof (induction ds)
  case (Cons d ds)
  have "rings_of (if p d then vacate d else d) \<subseteq># rings_of d" by (simp add: rings_of_def vacate_def)
  with Cons show ?case by (simp add: live_rings_def comp_def subset_mset.add_mono)
qed simp

lemma live_ids_filter: "live_ids ds = map sd_id (filter (\<lambda>d. sd_id d \<noteq> 0) ds)"
  by (induction ds) (auto simp: live_ids_def)

lemma cleanup_registry:
  assumes r: "registry_ok n g" and c: "registry_cleanup now g t = (g', calls, k)"
  shows "registry_ok n g'" and "max_sessions g' = max_sessions g"
    and "live_rings (descs g') \<subseteq># live_rings (descs g)"
    and "s \<noteq> 0 \<Longrightarrow> desc_of (descs g') s =
      (case desc_of (descs g) s of None \<Rightarrow> None | Some d \<Rightarrow> if stale_session now t d then None else Some d)"
    and "k = length (filter (stale_session now t) (descs g))"
proof -
  let ?p = "stale_session now t"
  from c have g': "descs g' = map (\<lambda>d. if ?p d then vacate d else d) (descs g)"
    "active_sessions g' = active_sessions g - of_nat (length (filter ?p (descs g)))"
    "max_sessions g' = max_sessions g" "next_session_id g' = next_session_id g"
    and k: "k = length (filter ?p (descs g))"
    by (auto simp: registry_cleanup_def Let_def)
  have part: "length (filter (\<lambda>d. sd_id d \<noteq> 0) ds) = length (filter ?p ds) + length (filter (\<lambda>d. sd_id d \<noteq> 0 \<and> \<not> ?p d) ds)" for ds
    by (induction ds) (auto simp: stale_session_def)
  have "of_nat (length (live_ids (descs g))) - of_nat (length (filter ?p (descs g))) =
      (of_nat (length (live_ids (descs g'))) :: u64)"
    using part [of "descs g"] by (simp add: g'(1) vacated_ids live_ids_filter [of "descs g"])
  moreover have "set (live_ids (descs g')) \<subseteq> set (live_ids (descs g))"
    by (auto simp: g'(1) vacated_ids live_ids_filter [of "descs g"])
  moreover have "distinct (live_ids (descs g'))"
  proof -
    have "distinct (map sd_id (filter (\<lambda>d. \<not> ?p d) (filter (\<lambda>d. sd_id d \<noteq> 0) (descs g))))"
      by (rule distinct_map_filter) (use r in \<open>simp add: registry_ok_def live_ids_filter\<close>)
    then show ?thesis by (simp add: g'(1) vacated_ids)
  qed
  ultimately show "registry_ok n g'" using r g' by (auto simp: registry_ok_def)
  show "max_sessions g' = max_sessions g" "k = length (filter ?p (descs g))" by fact+
  show "live_rings (descs g') \<subseteq># live_rings (descs g)" by (simp add: g'(1) vacated_rings)
  have "distinct (live_ids (descs g))" using r by (simp add: registry_ok_def)
  then show "s \<noteq> 0 \<Longrightarrow> desc_of (descs g') s =
      (case desc_of (descs g) s of None \<Rightarrow> None | Some d \<Rightarrow> if ?p d then None else Some d)"
    by (simp add: g'(1) find_vacated)
qed

lemma desc_of_live:
  assumes "distinct (live_ids ds)" and "d \<in> set ds" and "sd_id d \<noteq> 0"
  shows "desc_of ds (sd_id d) = Some d"
  using assms
proof (induction ds)
  case (Cons e ds)
  then show ?case
    using live_ids_desc [OF Cons.prems(3), of ds]
    by (auto simp: desc_of_def live_ids_Cons split: if_splits)
qed simp

lemma abs_stale_ids:
  assumes r: "registry_ok n (sess_registry m)"
  shows "abs_stale now t (abs_of m) = sd_id ` set (filter (stale_session now t) (descs (sess_registry m)))"
proof -
  have dist: "distinct (live_ids (descs (sess_registry m)))" using r by (simp add: registry_ok_def)
  have "s \<in> abs_stale now t (abs_of m) \<longleftrightarrow>
      (\<exists>d. s \<noteq> 0 \<and> desc_of (descs (sess_registry m)) s = Some d \<and> stale_session now t d)" for s
    by (cases "s = 0") (auto simp: abs_stale_def abs_zero abs_desc session_view_def stale_session_def is_stale_def
        dest: desc_of_Some)
  then show ?thesis
    using desc_of_live [OF dist] by (force simp: stale_session_def dest: desc_of_Some)
qed

lemma cleanup_simulates:
  assumes inv: "sess_inv (Suc n) m" and s: "cleanup_stale_sessions now m t = (m', k)"
  shows "sess_simulates n m (Cleanup now t) (Cleaned k) m'"
proof -
  let ?g = "sess_registry m"
  from inv have reg: "registry_ok n ?g"
    and R: "rings_ok n (sess_ring_capacity m) (sess_arena m) (live_rings (descs ?g))"
    by (simp_all add: sess_inv_def registry_ok_less rings_ok_less)
  obtain g' calls where c: "registry_cleanup now ?g t = (g', calls, k)"
    and m': "m' = m\<lparr>sess_registry := g', sess_fd_calls := sess_fd_calls m @ calls\<rparr>"
    using s by (auto simp: cleanup_stale_sessions_def split: prod.splits)
  note C = cleanup_registry [OF reg c]
  let ?S = "abs_stale now t (abs_of m)"
  have "sess_inv n m'" using C(1) rings_ok_subset [OF R C(3)] m' by (simp add: sess_inv_def)
  moreover have "abs_of m' s = ((abs_of m) |` (- ?S)) s" for s
  proof (cases "s = 0")
    case False
    then show ?thesis
      using C(4) [OF False] m' desc_of_Some [of "descs ?g" s]
      by (auto simp: abs_desc abs_stale_def session_view_def stale_session_def is_stale_def restrict_map_def
          split: option.splits)
  qed (simp add: abs_zero restrict_map_def)
  moreover have "k = card ?S"
  proof -
    have "distinct (map sd_id (filter (stale_session now t) (descs ?g)))"
    proof -
      have "filter (stale_session now t) (descs ?g) = filter (stale_session now t) (filter (\<lambda>d. sd_id d \<noteq> 0) (descs ?g))"
        by (auto simp: stale_session_def intro: filter_cong)
      with reg show ?thesis unfolding registry_ok_def live_ids_filter by (metis distinct_map_filter)
    qed
    from distinct_card [OF this] C(5) show ?thesis by (simp add: abs_stale_ids [OF reg])
  qed
  ultimately show ?thesis using C(2) m' by (auto simp: sess_simulates_def spec_step_def)
qed

lemma rings_allocate:
  assumes r: "rings_ok n c a M" and al: "allocate a (192 + c * 16) 64 = (a', off)"
  shows "rings_ok n c a' M" and "mem a' = mem a"
    and "off \<noteq> 0 \<Longrightarrow> \<exists>fl. blocks_ok (192 + c * 16) a' (add_mset off M) fl"
proof -
  from r obtain fl where b: "blocks_ok (192 + c * 16) a M fl" by (auto simp: rings_ok_def)
  note A = blocks_allocate [OF b al]
  show m: "mem a' = mem a" and "off \<noteq> 0 \<Longrightarrow> \<exists>fl. blocks_ok (192 + c * 16) a' (add_mset off M) fl"
    using A by blast+
  have sub: "blocks_ok k a' (add_mset off M) fl \<Longrightarrow> blocks_ok k a' M fl" for k fl
    using apart_subset [of _ "add_mset off M + mset fl" "M + mset fl"] by (auto simp: blocks_ok_def)
  with A b have "\<exists>fl. blocks_ok (192 + c * 16) a' M fl" by blast
  with r m show "rings_ok n c a' M" by (simp add: rings_ok_def)
qed

lemma blocks_allocate_keeps:
  assumes "blocks_ok sz a (add_mset x M) fl" and "allocate a sz 64 = (a', off)" and "off \<noteq> 0"
  shows "\<exists>fl. blocks_ok sz a' (add_mset off (add_mset x M)) fl"
  using blocks_allocate [OF assms(1,2)] assms(3) by blast

text \<open>Both rings of a new session, allocated and initialised.\<close>

lemma new_rings:
  assumes r: "rings_ok n c a M" and n: "n < 2 ^ 64"
    and a1: "allocate a (192 + c * 16) 64 = (a1, x)" and a2: "allocate a1 (192 + c * 16) 64 = (a2, y)"
    and nz: "x \<noteq> 0" "y \<noteq> 0"
  shows "\<exists>a3 a4. ring_init_at a2 x c = Some a3 \<and> ring_init_at a3 y c = Some a4 \<and>
     rings_ok n c a4 (add_mset y (add_mset x M)) \<and>
     spsc_elems (load_ring (mem a4) x) = [] \<and> spsc_elems (load_ring (mem a4) y) = [] \<and>
     (\<forall>z. z \<in># M \<longrightarrow> load_ring (mem a4) z = load_ring (mem a) z)"
proof -
  note A1 = rings_allocate [OF r a1]
  note A2 = rings_allocate [OF A1(1) a2]
  from A1(3) [OF nz(1)] obtain fl1 where "blocks_ok (192 + c * 16) a1 (add_mset x M) fl1" by blast
  from blocks_allocate_keeps [OF this a2 nz(2)] obtain fl2 where
    b2: "blocks_ok (192 + c * 16) a2 (add_mset y (add_mset x M)) fl2" by blast
  have "blocks_ok (192 + c * 16) a2 (add_mset x M) fl2"
    using b2 apart_subset [of _ "add_mset y (add_mset x M) + mset fl2" "add_mset x M + mset fl2"]
    by (auto simp: blocks_ok_def)
  from rings_initialise [OF A2(1) this n] obtain a3 where a3: "ring_init_at a2 x c = Some a3"
    "rings_ok n c a3 (add_mset x M)" "spsc_elems (load_ring (mem a3) x) = []"
    "\<And>z. z \<in># M \<Longrightarrow> load_ring (mem a3) z = load_ring (mem a2) z" "a3 = a2\<lparr>mem := mem a3\<rparr>"
    "blocks_ok (192 + c * 16) a3 (add_mset x M) fl2" by metis
  have b3: "blocks_ok (192 + c * 16) a3 (add_mset y (add_mset x M)) fl2"
    using a3(6) b2 arg_cong [OF a3(5), of current] by (auto simp: blocks_ok_def)
  from rings_initialise [OF a3(2) b3 n] obtain a4 where a4: "ring_init_at a3 y c = Some a4"
    "rings_ok n c a4 (add_mset y (add_mset x M))" "spsc_elems (load_ring (mem a4) y) = []"
    "\<And>z. z \<in># add_mset x M \<Longrightarrow> load_ring (mem a4) z = load_ring (mem a3) z" by metis
  have "spsc_elems (load_ring (mem a4) x) = []" using a4(4) [of x] a3(3) by simp
  moreover have "\<forall>z. z \<in># M \<longrightarrow> load_ring (mem a4) z = load_ring (mem a) z"
    using a4(4) a3(4) A1(2) A2(2) by simp
  ultimately show ?thesis using a3(1) a4(1,2,3) by blast
qed

text \<open>A descriptor with a new id in a free slot.\<close>

lemma occupied_slot:
  assumes reg: "registry_ok n g" and i: "i < length (descs g)" "sd_id (descs g ! i) = 0" and e: "sd_id e = next_session_id g"
  shows "s \<noteq> 0 \<Longrightarrow> desc_of ((descs g)[i := e]) s = (if s = next_session_id g then Some e else desc_of (descs g) s)"
    and "live_rings ((descs g)[i := e]) = rings_of e + live_rings (descs g)"
    and "desc_of (descs g) (next_session_id g) = None" and "next_session_id g \<noteq> 0"
proof -
  have fresh: "\<forall>x \<in> set (descs g). sd_id x \<noteq> next_session_id g" using fresh_id [OF reg] by blast
  then show "desc_of (descs g) (next_session_id g) = None" by (simp add: desc_of_None)
  show "next_session_id g \<noteq> 0" using reg by (auto simp: registry_ok_def)
  have "first_with (\<lambda>d. sd_id d = next_session_id g) ((descs g)[i := e]) = Some i"
    using fresh i e by (intro first_with_fresh) auto
  then have "desc_of ((descs g)[i := e]) (next_session_id g) = Some e"
    using first_with_Some [of "\<lambda>d. sd_id d = next_session_id g" "(descs g)[i := e]" i] i by (simp add: desc_of_def)
  moreover have "s \<noteq> next_session_id g \<Longrightarrow> s \<noteq> 0 \<Longrightarrow> desc_of ((descs g)[i := e]) s = desc_of (descs g) s"
    using i e by (simp add: desc_of_def find_other_update)
  ultimately show "s \<noteq> 0 \<Longrightarrow> desc_of ((descs g)[i := e]) s = (if s = next_session_id g then Some e else desc_of (descs g) s)"
    by simp
  obtain M where "live_rings (descs g) = rings_of (descs g ! i) + M" "\<And>d'. live_rings ((descs g)[i := d']) = rings_of d' + M"
    by (rule replace_desc [OF i(1)]) blast
  with i(2) show "live_rings ((descs g)[i := e]) = rings_of e + live_rings (descs g)" by (simp add: rings_of_def)
qed

lemma attach_fails:
  assumes inv: "sess_inv (Suc n) m" and i: "i < length (descs (sess_registry m))" "sd_id (descs (sess_registry m) ! i) = 0"
    and d: "sd_id d = next_session_id (sess_registry m)"
    and g': "descs g' = (descs (sess_registry m))[i := d]" "registry_ok n g'" "max_sessions g' = max_sessions (sess_registry m)"
    and a2: "rings_ok n (sess_ring_capacity m) a2 (live_rings (descs (sess_registry m)))" "mem a2 = mem (sess_arena m)"
    and m': "m' = fst (drop_session (m\<lparr>sess_registry := g', sess_arena := a2\<rparr>) (next_session_id (sess_registry m)))"
  shows "sess_inv n m'" and "abs_of m' = abs_of m" and "sess_ring_capacity m' = sess_ring_capacity m"
    and "max_sessions (sess_registry m') = max_sessions (sess_registry m)"
proof -
  let ?g = "sess_registry m" and ?id = "next_session_id (sess_registry m)"
  have reg: "registry_ok (Suc n) ?g" using inv by (simp add: sess_inv_def)
  note O = occupied_slot [OF reg i d]
  have "desc_of (descs g') ?id = Some d" using O(1) [OF O(4)] g'(1) by simp
  from remove_ok [OF g'(2) O(4) this] obtain g2 where g2: "remove_session g' ?id = (g2, close_fd d, True)"
    "registry_ok n g2" "\<forall>s. s \<noteq> 0 \<longrightarrow> desc_of (descs g2) s = (if s = ?id then None else desc_of (descs g') s)"
    "live_rings (descs g') = rings_of d + live_rings (descs g2)" by blast
  have m: "sess_registry m' = g2" "sess_arena m' = a2" "sess_ring_capacity m' = sess_ring_capacity m"
    using g2(1) m' by (simp_all add: drop_session_def)
  have lr: "live_rings (descs g2) = live_rings (descs ?g)" using g2(4) O(2) g'(1) by simp
  show "sess_inv n m'" using g2(2) a2(1) m lr by (simp add: sess_inv_def)
  show "sess_ring_capacity m' = sess_ring_capacity m" by (rule m(3))
  show "max_sessions (sess_registry m') = max_sessions ?g"
  proof -
    have "max_sessions g2 = max_sessions g'" using g2(1) by (auto simp: remove_session_def split: option.splits)
    with g'(3) m show ?thesis by simp
  qed
  have "abs_of m' s = abs_of m s" for s
  proof (cases "s = 0")
    case False
    then show ?thesis using g2(3) O(1,3) g'(1) a2(2) m by (intro abs_frame) auto
  qed (simp add: abs_zero)
  then show "abs_of m' = abs_of m" by blast
qed

lemma attach_succeeds:
  assumes inv: "sess_inv (Suc n) m" and i: "i < length (descs (sess_registry m))" "sd_id (descs (sess_registry m) ! i) = 0"
    and d: "sd_id d = next_session_id (sess_registry m)"
    and g': "descs g' = (descs (sess_registry m))[i := d]" "registry_ok n g'" "max_sessions g' = max_sessions (sess_registry m)"
      "session_index g' (next_session_id (sess_registry m)) = Some i"
    and a4: "rings_ok n (sess_ring_capacity m) a4 (add_mset y (add_mset x (live_rings (descs (sess_registry m)))))"
      "spsc_elems (load_ring (mem a4) x) = []" "spsc_elems (load_ring (mem a4) y) = []"
      "\<forall>z. z \<in># live_rings (descs (sess_registry m)) \<longrightarrow> load_ring (mem a4) z = load_ring (mem (sess_arena m)) z"
    and m': "m' = m\<lparr>sess_registry := change_session g' (next_session_id (sess_registry m)) (set_rings now x y), sess_arena := a4\<rparr>"
  shows "sess_inv n m'" and "abs_of m' = (abs_of m)(next_session_id (sess_registry m) \<mapsto> ([], [], now))"
proof -
  let ?g = "sess_registry m" and ?id = "next_session_id (sess_registry m)"
  let ?e = "set_rings now x y d"
  have reg: "registry_ok (Suc n) ?g" using inv by (simp add: sess_inv_def)
  have e: "sd_id ?e = ?id" "cmd_ring_offset ?e = x" "resp_ring_offset ?e = y" "sd_last_activity ?e = now"
    using d by (simp_all add: set_rings_def touch_def)
  note O = occupied_slot [OF reg i e(1)]
  have ds: "descs (sess_registry m') = (descs ?g)[i := ?e]"
    using m' g' i by (simp add: change_session_def)
  have rings: "live_rings (descs (sess_registry m')) = add_mset y (add_mset x (live_rings (descs ?g)))"
    using O(2,4) e ds by (simp add: rings_of_def add_mset_commute)
  have "\<And>d. sd_id (set_rings now x y d) = sd_id d" by (simp add: set_rings_def touch_def)
  from change_session_ok(2) [OF this g'(2)] have "registry_ok n (sess_registry m')" using m' by simp
  with a4(1) rings m' show "sess_inv n m'" by (simp add: sess_inv_def)
  have "abs_of m' s = ((abs_of m)(?id \<mapsto> ([], [], now))) s" for s
  proof (cases "s = 0 \<or> s = ?id")
    case True
    with O(1,4) ds e a4(2,3) m' show ?thesis by (auto simp: abs_zero abs_desc session_view_def)
  next
    case False
    have "session_view (mem a4) d2 = session_view (mem (sess_arena m)) d2" if "desc_of (descs ?g) s = Some d2" for d2
      using live_ring(1,2) [OF that] a4(4) False by (simp add: session_view_def)
    with False O(1) ds m' show ?thesis
      by (cases "desc_of (descs ?g) s") (simp_all add: abs_desc)
  qed
  then show "abs_of m' = (abs_of m)(?id \<mapsto> ([], [], now))" by blast
qed

lemma attach_slot:
  assumes inv: "sess_inv (Suc n) m" and n: "n < 2 ^ 64" and s: "attach_session now fd m pid = Some (m', r)"
    and i: "i < length (descs (sess_registry m))" "sd_id (descs (sess_registry m) ! i) = 0"
    and d: "sd_id d = next_session_id (sess_registry m)"
    and g': "descs g' = (descs (sess_registry m))[i := d]" "max_sessions g' = max_sessions (sess_registry m)"
    and create: "registry_create_session now fd (sess_registry m) pid (sess_ring_capacity m) =
       (g', Some (next_session_id (sess_registry m)))"
    and ok: "registry_ok n g'" "session_index g' (next_session_id (sess_registry m)) = Some i"
    and free: "card (dom (abs_of m)) < unat (max_sessions (sess_registry m))"
  shows "sess_simulates n m (Attach now fd pid) (Attached r) m'"
proof -
  let ?g = "sess_registry m" and ?c = "sess_ring_capacity m" and ?id = "next_session_id (sess_registry m)"
  have R: "rings_ok n ?c (sess_arena m) (live_rings (descs ?g))" and reg: "registry_ok (Suc n) ?g"
    using inv by (simp_all add: sess_inv_def rings_ok_less)
  note O = occupied_slot [OF reg i d]
  obtain a1 x a2 y where al: "allocate (sess_arena m) (192 + ?c * 16) 64 = (a1, x)" "allocate a1 (192 + ?c * 16) 64 = (a2, y)"
    by (metis surj_pair)
  note A1 = rings_allocate [OF R al(1)]
  note A2 = rings_allocate [OF A1(1) al(2)]
  show ?thesis
  proof (cases "x = 0 \<or> y = 0")
    case True
    with s create al ring_size_Some [OF R]
    have m': "m' = fst (drop_session (m\<lparr>sess_registry := g', sess_arena := a2\<rparr>) ?id)" "r = Inl SessOutOfMemory"
      by (auto simp: attach_session_def Let_def)
    have "mem a2 = mem (sess_arena m)" using A1(2) A2(2) by simp
    note F = attach_fails [OF inv i d g'(1) ok(1) g'(2) A2(1) this m'(1)]
    from F m'(2) free show ?thesis by (simp add: sess_simulates_def spec_step_def spec_attach_def)
  next
    case False
    then have nz: "x \<noteq> 0" "y \<noteq> 0" by auto
    from new_rings [OF R n al nz] obtain a3 a4 where a: "ring_init_at a2 x ?c = Some a3" "ring_init_at a3 y ?c = Some a4"
      "rings_ok n ?c a4 (add_mset y (add_mset x (live_rings (descs ?g))))"
      "spsc_elems (load_ring (mem a4) x) = []" "spsc_elems (load_ring (mem a4) y) = []"
      "\<forall>z. z \<in># live_rings (descs ?g) \<longrightarrow> load_ring (mem a4) z = load_ring (mem (sess_arena m)) z" by blast
    with s create al ring_size_Some [OF R] nz
    have m': "m' = m\<lparr>sess_registry := change_session g' ?id (set_rings now x y), sess_arena := a4\<rparr>" "r = Inr ?id"
      by (auto simp: attach_session_def Let_def)
    note S = attach_succeeds [OF inv i d g'(1) ok(1) g'(2) ok(2) a(3-6) m'(1)]
    have "abs_of m ?id = None" using O(3,4) by (simp add: abs_desc)
    with S m' free g'(2) O(4) show ?thesis by (simp add: sess_simulates_def spec_step_def spec_attach_def)
  qed
qed

lemma attach_simulates:
  assumes inv: "sess_inv (Suc n) m" and n: "n < 2 ^ 64" and s: "attach_session now fd m pid = Some (m', r)"
  shows "sess_simulates n m (Attach now fd pid) (Attached r) m'"
proof -
  let ?g = "sess_registry m" and ?c = "sess_ring_capacity m" and ?id = "next_session_id (sess_registry m)"
  from inv have reg: "registry_ok (Suc n) ?g" by (simp add: sess_inv_def)
  note card = abs_dom [OF reg]
  from create_ok [OF reg, of now fd pid ?c] consider
    (full) "length (live_ids (descs ?g)) = unat (max_sessions ?g)" "registry_create_session now fd ?g pid ?c = (?g, None)"
  | (slot) i d where "length (live_ids (descs ?g)) < unat (max_sessions ?g)"
      "i < length (descs ?g)" "sd_id (descs ?g ! i) = 0" "sd_id d = ?id"
      "let g' = ?g\<lparr>next_session_id := ?id + 1, active_sessions := active_sessions ?g + 1, descs := (descs ?g)[i := d]\<rparr>
       in registry_create_session now fd ?g pid ?c = (g', Some ?id) \<and> registry_ok n g' \<and> session_index g' ?id = Some i"
    by blast
  then show ?thesis
  proof cases
    case full
    with s have "m' = m" "r = Inl TooManySessions" by (auto simp: attach_session_def Let_def)
    with full card sess_inv_less [OF inv] show ?thesis
      by (simp add: sess_simulates_def spec_step_def spec_attach_def)
  next
    case slot
    let ?g' = "?g\<lparr>next_session_id := ?id + 1, active_sessions := active_sessions ?g + 1, descs := (descs ?g)[i := d]\<rparr>"
    from slot(5) have c: "registry_create_session now fd ?g pid ?c = (?g', Some ?id)" "registry_ok n ?g'"
      "session_index ?g' ?id = Some i" by (simp_all only: Let_def)
    show ?thesis by (rule attach_slot [OF inv n s slot(2,3,4) _ _ c]) (use slot(1) card in simp_all)
  qed
qed

lemma step_simulates:
  assumes inv: "sess_inv (Suc n) m" and n: "n < 2 ^ 64" and ok: "op_session op \<noteq> Some 0" and s: "sess_step m op = Some (m', out)"
  shows "sess_simulates n m op out m'"
proof (cases op)
  case (Attach now fd pid)
  with s attach_simulates [OF inv n] show ?thesis by auto
next
  case (Detach sid)
  with s ok detach_simulates [OF inv] show ?thesis by auto
next
  case (Send_Response now sid x)
  with s ok send_simulates [OF inv, of sid now x] show ?thesis by (cases "send_response now m sid x") auto
next
  case (Ack now sid)
  with s ok ack_simulates [OF inv, of sid now] show ?thesis by (cases "ack_notifications now m sid") auto
next
  case (Cleanup now t)
  with s cleanup_simulates [OF inv, of now t] show ?thesis by (cases "cleanup_stale_sessions now m t") auto
next
  case (Take_Command sid)
  with s ok take_simulates [OF inv] show ?thesis by auto
next
  case (Client_Push sid x)
  with s ok client_push_simulates [OF inv, of sid x] show ?thesis by (cases "client_push m sid x") auto
next
  case (Client_Pop sid)
  with s ok client_pop_simulates [OF inv, of sid] show ?thesis by (cases "client_pop m sid") auto
qed

lemma run_simulates:
  assumes "sess_inv (length ops) m" and "length ops < 2 ^ 64" and "\<forall>op \<in> set ops. op_session op \<noteq> Some 0"
    and "sess_run m ops = Some (m', outs)"
  shows "sess_inv 0 m' \<and> max_sessions (sess_registry m') = max_sessions (sess_registry m) \<and>
    spec_run (unat (sess_ring_capacity m)) (unat (max_sessions (sess_registry m))) (abs_of m) ops outs (abs_of m')"
  using assms
proof (induction ops arbitrary: m outs)
  case (Cons op ops)
  from Cons.prems(4) obtain m1 out outs' where st: "sess_step m op = Some (m1, out)"
    and rest: "sess_run m1 ops = Some (m', outs')" "outs = out # outs'" by (auto split: option.splits)
  have "sess_simulates (length ops) m op out m1"
    using step_simulates [of "length ops" m op m1 out] Cons.prems st by simp
  moreover from this Cons.IH [of m1 outs'] Cons.prems rest have "sess_inv 0 m' \<and>
      max_sessions (sess_registry m') = max_sessions (sess_registry m) \<and>
      spec_run (unat (sess_ring_capacity m)) (unat (max_sessions (sess_registry m))) (abs_of m1) ops outs' (abs_of m')"
    by (simp add: sess_simulates_def)
  ultimately show ?case using rest(2) by (auto simp: sess_simulates_def)
qed simp

definition fresh_manager :: "(u64 \<Rightarrow> u8) \<Rightarrow> u64 \<Rightarrow> nat \<Rightarrow> u64 \<Rightarrow> sess_manager" where
  "fresh_manager memory arena_bytes max_count capacity =
     sess_manager_new (registry_init max_count) (arena_init memory arena_bytes) capacity"

lemma live_ids_empty: "live_ids (replicate k (session_desc_new 0 0)) = []"
  by (simp add: live_ids_def session_desc_new_def)

lemma live_rings_empty: "live_rings (replicate k (session_desc_new 0 0)) = {#}"
  by (induction k) (simp_all add: live_rings_def session_desc_new_def rings_of_def)

lemma class_of_ring:
  assumes "size_class_for sz = Some i" and "16 \<le> unat sz"
  shows "size_for_class i div 2 \<le> sz"
proof -
  have "16 \<le> sz" "4 \<le> sz" using assms(2) by (simp_all add: word_le_nat_alt)
  with assms(1) show ?thesis
    by (auto simp: size_class_for_def size_for_class_def SIZE_CLASSES_def nth_Cons split: if_splits)
qed

lemma fresh_manager_inv:
  assumes c: "is_power_of_two capacity" "192 + 16 * unat capacity \<le> 2 ^ 62"
    and a: "unat header_size \<le> unat arena_bytes" "unat arena_bytes \<le> 2 ^ 62"
    and k: "max_count < 2 ^ 64" and n: "Suc n < 2 ^ 64"
  shows "sess_inv n (fresh_manager memory arena_bytes max_count capacity)"
    and "abs_of (fresh_manager memory arena_bytes max_count capacity) = Map.empty"
proof -
  let ?a = "arena_init memory arena_bytes" and ?sz = "192 + capacity * 16"
  have sz: "unat ?sz = 192 + 16 * unat capacity" by (rule ring_size [OF c(2)])
  have "arena_wf ?a" using a by (simp add: arena_wf_def arena_init_def) (simp add: header_size_def SIZE_CLASSES_def)
  moreover have "case size_class_for ?sz of None \<Rightarrow> [] = []
      | Some i \<Rightarrow> size_for_class i div 2 \<le> ?sz \<and> chain (mem ?a) (free_lists ?a ! i) []"
    using class_of_ring [of ?sz] sz class_position_Some [of SIZE_CLASSES ?sz]
    by (auto simp: arena_init_def size_class_for_def split: option.splits)
  moreover have "arena_size ?a = arena_bytes" by (simp add: arena_init_def)
  ultimately have "pool_ok ?a ?sz []" using a c(2) sz by (simp add: pool_ok_def)
  then have "rings_ok n capacity ?a {#}" using c by (auto simp: rings_ok_def blocks_ok_def apart_def)
  moreover have "registry_ok n (registry_init max_count)"
    using k n by (simp add: registry_ok_def registry_init_def live_ids_empty unat_of_nat)
  ultimately show "sess_inv n (fresh_manager memory arena_bytes max_count capacity)"
    by (simp add: sess_inv_def fresh_manager_def sess_manager_new_def) (simp add: registry_init_def live_rings_empty)
  have "desc_of (replicate max_count (session_desc_new 0 0)) s = None" if "s \<noteq> 0" for s
    using that by (simp add: desc_of_None session_desc_new_def)
  then show "abs_of (fresh_manager memory arena_bytes max_count capacity) = Map.empty"
    by (auto simp: abs_of_def get_session_desc fresh_manager_def sess_manager_new_def registry_init_def fun_eq_iff)
qed

lemma ring_init_some: "is_power_of_two c \<Longrightarrow> ring_init_at a off c = Some (a\<lparr>mem := store_ring (mem a) off (the (spsc_init c))\<rparr>)"
  by (simp add: ring_init_at_def spsc_init_def)

lemma attach_total:
  assumes "is_power_of_two (sess_ring_capacity m)"
  shows "\<exists>m' r. attach_session now fd m pid = Some (m', r) \<and> sess_ring_capacity m' = sess_ring_capacity m"
  using assms
  by (auto simp: attach_session_def Let_def ring_size_for_capacity_def ring_init_some drop_session_def
      split: prod.splits option.splits)

lemma detach_total:
  assumes "is_power_of_two (sess_ring_capacity m)"
  shows "\<exists>m' r. detach_session m sid = Some (m', r) \<and> sess_ring_capacity m' = sess_ring_capacity m"
  using assms
  by (auto simp: detach_session_def ring_size_for_capacity_def drop_session_def split: prod.splits option.splits bool.splits)

text \<open>Without \<open>Take_Command\<close>, whose parser can panic, every call returns.\<close>

lemma step_total:
  assumes "is_power_of_two (sess_ring_capacity m)" and "\<forall>sid. op \<noteq> Take_Command sid"
  shows "\<exists>m' out. sess_step m op = Some (m', out) \<and> sess_ring_capacity m' = sess_ring_capacity m"
proof (cases op)
  case (Attach now fd pid)
  with attach_total [OF assms(1), of now fd pid] show ?thesis by auto
next
  case (Detach sid)
  with detach_total [OF assms(1), of sid] show ?thesis by auto
qed (use assms(2) in \<open>auto simp: send_response_def ack_notifications_def cleanup_stale_sessions_def client_push_def client_pop_def
    split: sum.splits prod.splits option.splits bool.splits\<close>)

lemma run_total:
  assumes "is_power_of_two (sess_ring_capacity m)" and "\<forall>op \<in> set ops. \<forall>sid. op \<noteq> Take_Command sid"
  shows "\<exists>m' outs. sess_run m ops = Some (m', outs)"
  using assms
proof (induction ops arbitrary: m)
  case (Cons op ops)
  from step_total [OF Cons.prems(1), of op] Cons.prems(2) obtain m1 out where
    s: "sess_step m op = Some (m1, out)" "sess_ring_capacity m1 = sess_ring_capacity m" by auto
  from Cons.IH [of m1] Cons.prems s(2) obtain m' outs where "sess_run m1 ops = Some (m', outs)" by auto
  with s show ?case by simp
qed simp

section \<open>Properties\<close>

text \<open>
  C9. The session manager implements a map from session ids to two bounded queues. For every sequence
  of attaching, detaching, sending and acknowledging responses, taking commands, cleaning up, and
  of clients pushing commands and popping responses, every answer is one that the abstract map
  allows: commands and responses of a session arrive in order and unchanged, a ring is refused
  exactly when it is full, other sessions are not touched, and the number of sessions is exact;
  although all rings share the memory of one arena with reused blocks. It is assumed that no call
  names the session 0.
\<close>

theorem session_manager_refines:
  assumes "is_power_of_two capacity" and "192 + 16 * unat capacity \<le> 2 ^ 62"
    and "unat header_size \<le> unat arena_bytes" and "unat arena_bytes \<le> 2 ^ 62" and "max_count < 2 ^ 64"
    and "Suc (length ops) < 2 ^ 64" and "\<forall>op \<in> set ops. op_session op \<noteq> Some 0"
    and "sess_run (fresh_manager memory arena_bytes max_count capacity) ops = Some (m, outs)"
  shows "spec_run (unat capacity) max_count Map.empty ops outs (abs_of m)"
proof -
  note F = fresh_manager_inv [OF assms(1-6), of memory]
  have "unat (max_sessions (sess_registry (fresh_manager memory arena_bytes max_count capacity))) = max_count"
    "sess_ring_capacity (fresh_manager memory arena_bytes max_count capacity) = capacity"
    using assms(5) by (simp_all add: fresh_manager_def sess_manager_new_def registry_init_def unat_of_nat)
  with run_simulates [OF F(1) _ assms(7,8)] F(2) assms(6) show ?thesis by simp
qed

text \<open>
  The rings of different sessions never overlap: after any such sequence of calls, the blocks of
  two live sessions have no byte in common, and neither have the two rings of one session.
\<close>

theorem session_rings_disjoint:
  assumes "is_power_of_two capacity" and "192 + 16 * unat capacity \<le> 2 ^ 62"
    and "unat header_size \<le> unat arena_bytes" and "unat arena_bytes \<le> 2 ^ 62" and "max_count < 2 ^ 64"
    and "Suc (length ops) < 2 ^ 64" and "\<forall>op \<in> set ops. op_session op \<noteq> Some 0"
    and "sess_run (fresh_manager memory arena_bytes max_count capacity) ops = Some (m, outs)"
  shows "apart (192 + 16 * unat (sess_ring_capacity m)) (live_rings (descs (sess_registry m)))"
proof -
  note F = fresh_manager_inv [OF assms(1-6), of memory]
  from run_simulates [OF F(1) _ assms(7,8)] assms(6) have "sess_inv 0 m" by simp
  then show ?thesis by (auto simp: sess_inv_def intro: rings_apart)
qed

text \<open>
  C33. The id 0 is taken for a session, because a free descriptor has it. When no session is attached,
  detaching the session 0 succeeds, the counter of active sessions wraps around to \<open>2 ^ 64 - 1\<close>, and
  from then on every client is refused, although every descriptor is free.
\<close>

theorem detach_zero_blocks_attach:
  assumes "is_power_of_two capacity" and "192 + 16 * unat capacity \<le> 2 ^ 62"
    and "unat header_size \<le> unat arena_bytes" and "unat arena_bytes \<le> 2 ^ 62" and "0 < max_count" "max_count < 2 ^ 64"
    and "Suc (length ops) < 2 ^ 64" and "\<forall>op \<in> set ops. op_session op \<noteq> Some 0"
    and "sess_run (fresh_manager memory arena_bytes max_count capacity) ops = Some (m, outs)"
    and "abs_of m = Map.empty"
  shows "\<exists>m'. detach_session m 0 = Some (m', Inr ()) \<and> active_sessions (sess_registry m') = - 1 \<and>
     get_active_sessions m' = [] \<and> attach_session now fd m' pid = Some (m', Inl TooManySessions)"
proof -
  let ?m0 = "fresh_manager memory arena_bytes max_count capacity" and ?g = "sess_registry m"
  note F = fresh_manager_inv [OF assms(1-4,6,7), of memory]
  have run: "sess_inv 0 m" using run_simulates [OF F(1) _ assms(8,9)] assms(7) by simp
  then have reg: "registry_ok 0 ?g" and R: "rings_ok 0 (sess_ring_capacity m) (sess_arena m) (live_rings (descs ?g))"
    by (simp_all add: sess_inv_def)
  have "max_sessions ?g = max_sessions (sess_registry ?m0)"
    using run_simulates [OF F(1) _ assms(8,9)] assms(7) by simp
  then have mx: "unat (max_sessions ?g) = max_count"
    using assms(6) by (simp add: fresh_manager_def sess_manager_new_def registry_init_def unat_of_nat)
  have empty: "live_ids (descs ?g) = []" using abs_dom [OF reg] assms(10) by simp
  have z: "\<forall>d \<in> set (descs ?g). sd_id d = 0" using empty by (auto simp: live_ids_def filter_empty_conv)
  have len: "length (descs ?g) = max_count" using reg mx by (simp add: registry_ok_def)
  with z assms(5) obtain d ds where ds: "descs ?g = d # ds" "sd_id d = 0" by (cases "descs ?g") auto
  then have idx: "session_index ?g 0 = Some 0" by (simp add: session_index_def)
  have act: "active_sessions ?g = 0" using reg empty by (simp add: registry_ok_def)
  let ?g' = "?g\<lparr>descs := (descs ?g)[0 := vacate d], active_sessions := - 1\<rparr>"
  obtain m' where m': "detach_session m 0 = Some (m', Inr ())" "sess_registry m' = ?g'"
    using idx ds act ring_size_Some [OF R]
    by (simp add: detach_session_def get_session_def drop_session_def remove_session_def)
  have "max_sessions ?g' \<le> active_sessions ?g'" by simp
  then have "attach_session now fd m' pid = Some (m', Inl TooManySessions)"
    using m'(2) by (simp add: attach_session_def registry_create_session_def Let_def)
  moreover have "get_active_sessions m' = []"
    using m'(2) z ds by (auto simp: get_active_sessions_def registry_active_def vacate_def filter_empty_conv)
  ultimately show ?thesis using m' by auto
qed

text \<open>What successful calls do to the registry and to the event descriptors.\<close>

lemma attach_done:
  assumes "attach_session now fd m pid = Some (m', Inr sid)"
  shows "\<exists>g x y. registry_create_session now fd (sess_registry m) pid (sess_ring_capacity m) = (g, Some sid) \<and>
     sess_registry m' = change_session g sid (set_rings now x y) \<and> sess_fd_calls m' = sess_fd_calls m"
  using assms by (auto simp: attach_session_def Let_def split: prod.splits option.splits if_splits) blast

lemma send_done:
  assumes "send_response now m sid s = (m', Inr ())"
  shows "\<exists>d. get_session (sess_registry m) sid = Some d \<and> sess_fd_calls m' = sess_fd_calls m @ notify d \<and>
     sess_registry m' = change_session (sess_registry m) sid
       (\<lambda>d. touch now (d\<lparr>pending_notifications := pending_notifications d + 1\<rparr>))"
  using assms by (auto simp: send_response_def get_resp_ring_def split: sum.splits prod.splits bool.splits option.splits)

lemma detach_done:
  assumes "detach_session m sid = Some (m', Inr ())"
  shows "\<exists>d. get_session (sess_registry m) sid = Some d \<and>
     sess_registry m' = fst (remove_session (sess_registry m) sid) \<and>
     sess_fd_calls m' = sess_fd_calls m @ close_fd d"
  using assms by (auto simp: detach_session_def drop_session_def remove_session_def get_session_def
      split: prod.splits option.splits bool.splits)

lemma finished_pair: "map_prod id Finished p = (m, Finished r) \<longleftrightarrow> p = (m, r)"
  by (cases p) auto

definition reuse_run :: "u64 \<Rightarrow> int \<Rightarrow> int \<Rightarrow> u32 \<Rightarrow> slot \<Rightarrow> sess_op list" where
  "reuse_run now fd1 fd2 pid s =
     [Attach now fd1 pid, Send_Response now 1 s, Detach 1, Attach now fd2 pid, Send_Response now 2 s]"

text \<open>
  A session in a reused descriptor is not woken. The counter of pending notifications of a
  descriptor is reset neither when a session is removed nor when one is created: when a session
  has left without acknowledging its notifications, the next session in its place gets a
  response in its ring, but its event descriptor is not written.
\<close>

theorem reused_session_not_woken:
  assumes "0 < max_count" and "max_count < 2 ^ 64" and "fd1 \<noteq> fd2"
    and "sess_run (fresh_manager memory arena_bytes max_count capacity) (reuse_run now fd1 fd2 pid s) =
       Some (m, [Attached (Inr 1), Finished (Inr ()), Finished (Inr ()), Attached (Inr 2), Finished (Inr ())])"
  shows "FdWrite fd2 \<notin> set (sess_fd_calls m)"
proof -
  let ?m0 = "fresh_manager memory arena_bytes max_count capacity"
  from assms(4) obtain m1 m2 m3 m4 where
    s: "attach_session now fd1 ?m0 pid = Some (m1, Inr 1)" "send_response now m1 1 s = (m2, Inr ())"
    "detach_session m2 1 = Some (m3, Inr ())" "attach_session now fd2 m3 pid = Some (m4, Inr 2)"
    "send_response now m4 2 s = (m, Inr ())"
    by (auto simp: reuse_run_def finished_pair split: option.splits prod.splits)
  obtain k where k: "max_count = Suc k" using assms(1) by (cases max_count) auto
  let ?rest = "replicate k (session_desc_new 0 0)"
  have g0: "descs (sess_registry ?m0) = session_desc_new 0 0 # ?rest" "next_session_id (sess_registry ?m0) = 1"
    "sess_fd_calls ?m0 = []"
    by (simp_all add: fresh_manager_def sess_manager_new_def registry_init_def k)
  from attach_done [OF s(1)] g0 obtain d1 where
    g1: "descs (sess_registry m1) = d1 # ?rest" "sd_id d1 = 1" "pending_notifications d1 = 0" "sd_eventfd d1 = fd1"
      "next_session_id (sess_registry m1) = 2" "sess_fd_calls m1 = []"
    by (auto simp: registry_create_session_def find_free_slot_def change_session_def session_index_def
        session_desc_new_def set_rings_def touch_def split: if_splits)
  from send_done [OF s(2)] g1 obtain d2 where
    g2: "descs (sess_registry m2) = d2 # ?rest" "sd_id d2 = 1" "pending_notifications d2 = 1" "sd_eventfd d2 = fd1"
      "next_session_id (sess_registry m2) = 2" "set (sess_fd_calls m2) \<subseteq> {FdWrite fd1}"
    by (auto simp: get_session_def change_session_def session_index_def notify_def touch_def split: if_splits)
  from detach_done [OF s(3)] g2 obtain d3 where
    g3: "descs (sess_registry m3) = d3 # ?rest" "sd_id d3 = 0" "pending_notifications d3 = 1"
      "next_session_id (sess_registry m3) = 2" "set (sess_fd_calls m3) \<subseteq> {FdWrite fd1, FdClose fd1}"
    by (auto simp: get_session_def remove_session_def session_index_def vacate_def close_fd_def split: if_splits)
  from attach_done [OF s(4)] g3 obtain d4 where
    g4: "descs (sess_registry m4) = d4 # ?rest" "sd_id d4 = 2" "pending_notifications d4 = 1"
      "set (sess_fd_calls m4) \<subseteq> {FdWrite fd1, FdClose fd1}"
    by (auto simp: registry_create_session_def find_free_slot_def change_session_def session_index_def
        set_rings_def touch_def split: if_splits)
  from send_done [OF s(5)] g4 have "set (sess_fd_calls m) \<subseteq> {FdWrite fd1, FdClose fd1}"
    by (auto simp: get_session_def session_index_def notify_def)
  with assms(3) show ?thesis by auto
qed

section \<open>Instances\<close>

definition example_sess_ops :: "sess_op list" where
  "example_sess_ops = [Attach 0 3 7, Client_Push 1 slot_empty, Send_Response 5 1 slot_empty, Client_Pop 1, Detach 1]"

lemma example_capacity: "is_power_of_two (2 :: u64)"
  using is_power_of_twoI [of 1] by simp

lemma example_sess_ops_ok: "\<forall>op \<in> set example_sess_ops. op_session op \<noteq> Some 0"
  by (simp add: example_sess_ops_def)

lemma example_sess_run: "\<exists>m outs. sess_run (fresh_manager (\<lambda>_. 0) 4096 4 2) example_sess_ops = Some (m, outs)"
  by (rule run_total) (auto simp: fresh_manager_def sess_manager_new_def example_capacity example_sess_ops_def)

lemma header_size_small: "unat header_size \<le> unat (4096 :: u64)"
  by (simp add: header_size_def SIZE_CLASSES_def)

theorem session_manager_refines_witness:
  "\<exists>m outs. sess_run (fresh_manager (\<lambda>_. 0) 4096 4 2) example_sess_ops = Some (m, outs) \<and>
     spec_run 2 4 Map.empty example_sess_ops outs (abs_of m)"
proof -
  from example_sess_run obtain m outs where run: "sess_run (fresh_manager (\<lambda>_. 0) 4096 4 2) example_sess_ops = Some (m, outs)"
    by blast
  from session_manager_refines [OF example_capacity _ header_size_small _ _ _ example_sess_ops_ok run] run
  show ?thesis by (auto simp: example_sess_ops_def)
qed

theorem session_rings_disjoint_witness:
  "\<exists>m outs. sess_run (fresh_manager (\<lambda>_. 0) 4096 4 2) example_sess_ops = Some (m, outs) \<and>
     apart (192 + 16 * unat (sess_ring_capacity m)) (live_rings (descs (sess_registry m)))"
proof -
  from example_sess_run obtain m outs where run: "sess_run (fresh_manager (\<lambda>_. 0) 4096 4 2) example_sess_ops = Some (m, outs)"
    by blast
  from session_rings_disjoint [OF example_capacity _ header_size_small _ _ _ example_sess_ops_ok run] run
  show ?thesis by (auto simp: example_sess_ops_def)
qed

theorem detach_zero_blocks_attach_witness:
  "\<exists>m'. detach_session (fresh_manager (\<lambda>_. 0) 4096 4 2) 0 = Some (m', Inr ()) \<and>
     attach_session 0 3 m' 7 = Some (m', Inl TooManySessions)"
proof -
  have e: "abs_of (fresh_manager (\<lambda>_. 0) 4096 4 2) = Map.empty"
    by (rule fresh_manager_inv(2) [of _ _ _ 0]) (use example_capacity header_size_small in simp_all)
  from detach_zero_blocks_attach [where memory = "\<lambda>_. 0" and max_count = 4 and ops = "[]" and outs = "[]"
      and now = 0 and fd = 3 and pid = 7, OF example_capacity _ header_size_small _ _ _ _ _ _ e]
  show ?thesis by auto
qed

end
