(* ===== verification/Core_Ved.thy ===== *)
theory Core_Ved
  imports Session_Ved Kv_Store Pub_Sub Protocol_Handler
begin

text \<open>
  The database in shared memory (\<open>veddb-core/src/core.rs\<close>): header, arena, key-value store and session
  registry laid out in one block of memory, a publish and subscribe system in the process, and the
  commands of local clients. The store and the sessions share one arena, which is kept in the state
  of the store. The clock, new subscriber ids and new event descriptors are arguments. \<open>None\<close> is a
  call without a defined result: a failed assertion, a loop that does not end, a write outside of
  the block, or \<open>block_on\<close> where a thread must not block.
\<close>

section \<open>Configuration and header\<close>

record kv_config =
  kvc_num_shards :: nat
  kvc_initial_capacity :: nat
  kvc_max_key_size :: nat
  kvc_max_value_size :: nat

definition kv_config_default :: kv_config where
  "kv_config_default =
     \<lparr>kvc_num_shards = 16, kvc_initial_capacity = 1024, kvc_max_key_size = 1024, kvc_max_value_size = 1024 * 1024\<rparr>"

record veddb_config =
  vc_memory_size :: nat
  vc_kv_config :: kv_config
  vc_pubsub_config :: pubsub_config
  vc_max_sessions :: nat
  vc_session_ring_capacity :: u64
  vc_session_timeout_secs :: u64

definition veddb_config_default :: veddb_config where
  "veddb_config_default =
     \<lparr>vc_memory_size = 64 * 1024 * 1024, vc_kv_config = kv_config_default, vc_pubsub_config = pubsub_config_default,
      vc_max_sessions = 1000, vc_session_ring_capacity = 1024, vc_session_timeout_secs = 300\<rparr>"

record veddb_header =
  vh_magic :: u64
  vh_version :: u32
  vh_header_size :: u32
  vh_memory_size :: u64
  vh_created_at :: u64
  vh_last_access :: u64
  vh_sequence :: u64
  vh_arena_offset :: u64
  vh_arena_size :: u64
  vh_kv_store_offset :: u64
  vh_kv_store_size :: u64
  vh_session_registry_offset :: u64
  vh_session_registry_size :: u64
  vh_config :: veddb_config
  vh_total_operations :: u64
  vh_uptime_start :: u64

definition VEDDB_MAGIC :: u64 where
  "VEDDB_MAGIC = 0x5645444200000001"

definition VEDDB_VERSION :: u32 where
  "VEDDB_VERSION = 1"

text \<open>Sizes of the structures on a 64-bit Linux: the configuration is twelve words.\<close>

definition veddb_header_bytes :: nat where
  "veddb_header_bytes = 208"

definition session_desc_bytes :: nat where
  "session_desc_bytes = 64"

definition veddb_header_new :: "u64 \<Rightarrow> veddb_config \<Rightarrow> veddb_header" where
  "veddb_header_new now cfg =
     \<lparr>vh_magic = VEDDB_MAGIC, vh_version = VEDDB_VERSION, vh_header_size = of_nat veddb_header_bytes,
      vh_memory_size = of_nat (vc_memory_size cfg), vh_created_at = now, vh_last_access = now, vh_sequence = 0,
      vh_arena_offset = 0, vh_arena_size = 0, vh_kv_store_offset = 0, vh_kv_store_size = 0,
      vh_session_registry_offset = 0, vh_session_registry_size = 0, vh_config = cfg,
      vh_total_operations = 0, vh_uptime_start = now\<rparr>"

definition header_is_valid :: "veddb_header \<Rightarrow> bool" where
  "header_is_valid h \<longleftrightarrow> vh_magic h = VEDDB_MAGIC \<and> vh_version h = VEDDB_VERSION"

definition header_touch :: "u64 \<Rightarrow> veddb_header \<Rightarrow> veddb_header" where
  "header_touch now h = h\<lparr>vh_last_access := now\<rparr>"

definition next_sequence :: "veddb_header \<Rightarrow> veddb_header \<times> u64" where
  "next_sequence h = (h\<lparr>vh_sequence := vh_sequence h + 1\<rparr>, vh_sequence h)"

section \<open>Layout\<close>

definition kv_size_for_config :: "kv_config \<Rightarrow> nat" where
  "kv_size_for_config c = 32 + kvc_num_shards c * shard_size (kvc_initial_capacity c)"

definition size_for_max_sessions :: "nat \<Rightarrow> nat" where
  "size_for_max_sessions n = 24 + n * session_desc_bytes"

definition align_64 :: "nat \<Rightarrow> nat" where
  "align_64 n = (n + 63) div 64 * 64"

definition core_arena_offset :: nat where
  "core_arena_offset = align_64 veddb_header_bytes"

definition core_kv_offset :: "veddb_config \<Rightarrow> nat" where
  "core_kv_offset cfg = core_arena_offset + vc_memory_size cfg div 2"

definition core_session_offset :: "veddb_config \<Rightarrow> nat" where
  "core_session_offset cfg = core_kv_offset cfg + kv_size_for_config (vc_kv_config cfg)"

definition core_layout_end :: "veddb_config \<Rightarrow> nat" where
  "core_layout_end cfg = core_session_offset cfg + size_for_max_sessions (vc_max_sessions cfg)"

section \<open>The instance\<close>

text \<open>What is in the shared memory, and an instance of the process.\<close>

record shared_db =
  sh_header :: veddb_header
  sh_kv :: kv_store
  sh_registry :: session_registry

record 'c veddb =
  db_shared :: shared_db
  db_ring_capacity :: u64
  db_fd_calls :: "eventfd_call list"
  db_pubsub :: "'c pubsub"

datatype veddb_error = VdbMemory | VdbInvalidHeader | VdbKv kv_error | VdbSession session_error | VdbPubSub pubsub_error

definition init_new :: "u64 \<Rightarrow> u64 \<Rightarrow> veddb_config \<Rightarrow> 'c veddb option" where
  "init_new now counter cfg =
     (let asize = vc_memory_size cfg div 2; kvc = vc_kv_config cfg;
          a = arena_init (\<lambda>_. 0) (of_nat asize)
      in if core_layout_end cfg > vc_memory_size cfg then None
         else case kv_init (of_nat (kvc_num_shards kvc)) (of_nat (kvc_initial_capacity kvc)) a of
           None \<Rightarrow> None
         | Some kv \<Rightarrow>
             Some \<lparr>db_shared =
               \<lparr>sh_header = (veddb_header_new now cfg)
                  \<lparr>vh_arena_offset := of_nat core_arena_offset, vh_arena_size := of_nat asize,
                   vh_kv_store_offset := of_nat (core_kv_offset cfg), vh_kv_store_size := of_nat (kv_size_for_config kvc),
                   vh_session_registry_offset := of_nat (core_session_offset cfg),
                   vh_session_registry_size := of_nat (size_for_max_sessions (vc_max_sessions cfg))\<rparr>,
                sh_kv = kv, sh_registry = registry_init (vc_max_sessions cfg)\<rparr>,
               db_ring_capacity = vc_session_ring_capacity cfg, db_fd_calls = [],
               db_pubsub = pubsub_new (vc_pubsub_config cfg) counter\<rparr>)"

definition init_existing :: "u64 \<Rightarrow> shared_db \<Rightarrow> (veddb_error, 'c veddb) result" where
  "init_existing counter sh =
     (if \<not> header_is_valid (sh_header sh) then Inl VdbInvalidHeader
      else Inr \<lparr>db_shared = sh, db_ring_capacity = vc_session_ring_capacity (vh_config (sh_header sh)), db_fd_calls = [],
                db_pubsub = pubsub_new (vc_pubsub_config (vh_config (sh_header sh))) counter\<rparr>)"

text \<open>The session manager of an instance works on the registry and the arena in shared memory.\<close>

definition db_sessions :: "'c veddb \<Rightarrow> sess_manager" where
  "db_sessions db =
     \<lparr>sess_registry = sh_registry (db_shared db), sess_arena = kv_arena (sh_kv (db_shared db)),
      sess_ring_capacity = db_ring_capacity db, sess_fd_calls = db_fd_calls db\<rparr>"

definition put_kv :: "kv_store \<Rightarrow> 'c veddb \<Rightarrow> 'c veddb" where
  "put_kv kv db = db\<lparr>db_shared := (db_shared db)\<lparr>sh_kv := kv\<rparr>\<rparr>"

definition put_arena :: "arena \<Rightarrow> 'c veddb \<Rightarrow> 'c veddb" where
  "put_arena a db = put_kv ((sh_kv (db_shared db))\<lparr>kv_arena := a\<rparr>) db"

definition put_sessions :: "sess_manager \<Rightarrow> 'c veddb \<Rightarrow> 'c veddb" where
  "put_sessions m db = (put_arena (sess_arena m)
     (db\<lparr>db_shared := (db_shared db)\<lparr>sh_registry := sess_registry m\<rparr>\<rparr>))\<lparr>db_fd_calls := sess_fd_calls m\<rparr>"

section \<open>Commands\<close>

text \<open>The clock, a new random id, whether the thread may block, the sender of messages, JSON of statistics.\<close>

record veddb_stats =
  vs_uptime_secs :: u64
  vs_total_operations :: u64
  vs_memory_size :: u64
  vs_memory_used :: u64
  vs_kv_operations :: u64
  vs_kv_keys :: u64
  vs_active_sessions :: u64
  vs_active_channels :: u64

record 'c core_env =
  ce_now :: u64
  ce_new_id :: u64
  ce_may_block :: bool
  ce_send :: "'c send"
  ce_stats_json :: "veddb_stats \<Rightarrow> (string, bytes) result"

definition core_get_stats :: "u64 \<Rightarrow> 'c veddb \<Rightarrow> veddb_stats" where
  "core_get_stats now db =
     (let h = sh_header (db_shared db); kv = sh_kv (db_shared db)
      in \<lparr>vs_uptime_secs = saturating_sub now (vh_uptime_start h), vs_total_operations = vh_total_operations h,
          vs_memory_size = vh_memory_size h, vs_memory_used = allocated_bytes (kv_arena kv),
          vs_kv_operations = kv_store.total_operations kv, vs_kv_keys = kv_store.total_keys kv,
          vs_active_sessions = of_nat (length (get_active_sessions (db_sessions db))),
          vs_active_channels = pss_channels (pubsub_get_stats (db_pubsub db))\<rparr>)"

definition core_handle_ping :: "'c veddb \<Rightarrow> u32 \<Rightarrow> 'c veddb \<times> response" where
  "core_handle_ping db seq = (db, response_ok seq (map of_char ''pong''))"

definition core_handle_set :: "'c veddb \<Rightarrow> command \<Rightarrow> u32 \<Rightarrow> ('c veddb \<times> response) option" where
  "core_handle_set db c seq =
     (case kv_set (sh_kv (db_shared db)) (cmd_key c) (cmd_value c) of None \<Rightarrow> None
      | Some (kv, Inr _) \<Rightarrow> Some (put_kv kv db, response_ok seq [])
      | Some (kv, Inl _) \<Rightarrow> Some (put_kv kv db, response_error seq))"

definition core_handle_get :: "'c veddb \<Rightarrow> command \<Rightarrow> u32 \<Rightarrow> ('c veddb \<times> response) option" where
  "core_handle_get db c seq =
     (case kv_get (sh_kv (db_shared db)) (cmd_key c) of None \<Rightarrow> None
      | Some (kv, Some v) \<Rightarrow> Some (put_kv kv db, response_ok seq v)
      | Some (kv, None) \<Rightarrow> Some (put_kv kv db, response_not_found seq))"

definition core_handle_delete :: "'c veddb \<Rightarrow> command \<Rightarrow> u32 \<Rightarrow> ('c veddb \<times> response) option" where
  "core_handle_delete db c seq =
     (case kv_delete (sh_kv (db_shared db)) (cmd_key c) of None \<Rightarrow> None
      | Some (kv, deleted) \<Rightarrow>
          Some (put_kv kv db, if deleted then response_ok seq [] else response_not_found seq))"

text \<open>The first eight bytes of the value are the expected version; the whole value is stored.\<close>

definition core_expected_version :: "command \<Rightarrow> u64" where
  "core_expected_version c = (if 8 \<le> length (cmd_value c) then u64_from_le (take 8 (cmd_value c)) else 0)"

definition core_handle_cas :: "'c veddb \<Rightarrow> command \<Rightarrow> u32 \<Rightarrow> ('c veddb \<times> response) option" where
  "core_handle_cas db c seq =
     (case kv_cas (sh_kv (db_shared db)) (cmd_key c) (core_expected_version c) (cmd_value c) of None \<Rightarrow> None
      | Some (kv, r) \<Rightarrow>
          Some (put_kv kv db,
            case r of Inr new_version \<Rightarrow> response_ok seq (u64_to_le new_version)
            | Inl kv_error.NotFound \<Rightarrow> response_not_found seq
            | Inl kv_error.VersionMismatch \<Rightarrow> response_new StVersionMismatch seq []
            | Inl _ \<Rightarrow> response_error seq))"

definition core_handle_subscribe :: "'c core_env \<Rightarrow> 'c veddb \<Rightarrow> command \<Rightarrow> u32 \<Rightarrow> ('c veddb \<times> response) option" where
  "core_handle_subscribe env db c seq =
     (if ce_may_block env
      then Some (db\<lparr>db_pubsub := subscribe (db_pubsub db) (ce_new_id env) (from_utf8_lossy (cmd_value c))\<rparr>, response_ok seq [])
      else None)"

definition core_handle_unsubscribe :: "'c core_env \<Rightarrow> 'c veddb \<Rightarrow> command \<Rightarrow> u32 \<Rightarrow> ('c veddb \<times> response) option" where
  "core_handle_unsubscribe env db c seq =
     (if ce_may_block env
      then Some (db\<lparr>db_pubsub := fst (unsubscribe (db_pubsub db) (ce_new_id env) (from_utf8_lossy (cmd_value c)))\<rparr>,
                 response_ok seq [])
      else None)"

definition core_handle_publish :: "'c core_env \<Rightarrow> 'c veddb \<Rightarrow> command \<Rightarrow> u32 \<Rightarrow> ('c veddb \<times> response) option" where
  "core_handle_publish env db c seq =
     (if ce_may_block env
      then (case publish (ce_send env) (ce_now env) (db_pubsub db) (from_utf8_lossy (cmd_key c)) (cmd_value c) of
              (ps, Inr k) \<Rightarrow> Some (db\<lparr>db_pubsub := ps\<rparr>, response_ok seq (u64_to_le (of_nat k)))
            | (ps, Inl _) \<Rightarrow> Some (db\<lparr>db_pubsub := ps\<rparr>, response_error seq))
      else None)"

definition core_handle_info :: "'c core_env \<Rightarrow> 'c veddb \<Rightarrow> u32 \<Rightarrow> 'c veddb \<times> response" where
  "core_handle_info env db seq =
     (db, response_ok seq (case ce_stats_json env (core_get_stats (ce_now env) db) of Inl _ \<Rightarrow> [] | Inr j \<Rightarrow> j))"

definition count_command :: "u64 \<Rightarrow> 'c veddb \<Rightarrow> 'c veddb" where
  "count_command now db = db\<lparr>db_shared := (db_shared db)\<lparr>sh_header :=
     (header_touch now (sh_header (db_shared db)))\<lparr>vh_total_operations := vh_total_operations (sh_header (db_shared db)) + 1\<rparr>\<rparr>\<rparr>"

definition core_process_command :: "'c core_env \<Rightarrow> 'c veddb \<Rightarrow> command \<Rightarrow> ('c veddb \<times> response) option" where
  "core_process_command env db0 c =
     (let db = count_command (ce_now env) db0; seq = ch_seq (cmd_header c)
      in case header_opcode (cmd_header c) of
           Some OcPing \<Rightarrow> Some (core_handle_ping db seq)
         | Some OcSet \<Rightarrow> core_handle_set db c seq
         | Some OcGet \<Rightarrow> core_handle_get db c seq
         | Some OcDel \<Rightarrow> core_handle_delete db c seq
         | Some OcCas \<Rightarrow> core_handle_cas db c seq
         | Some OcSubscribe \<Rightarrow> core_handle_subscribe env db c seq
         | Some OcUnsubscribe \<Rightarrow> core_handle_unsubscribe env db c seq
         | Some OcPublish \<Rightarrow> core_handle_publish env db c seq
         | Some OcInfo \<Rightarrow> Some (core_handle_info env db seq)
         | _ \<Rightarrow> Some (db, response_error seq))"

section \<open>Sessions of an instance\<close>

definition core_attach_session :: "u64 \<Rightarrow> int \<Rightarrow> 'c veddb \<Rightarrow> u32 \<Rightarrow> ('c veddb \<times> (session_error, u64) result) option" where
  "core_attach_session now fd db pid = map_option (map_prod (\<lambda>m. put_sessions m db) id) (attach_session now fd (db_sessions db) pid)"

definition core_detach_session :: "'c veddb \<Rightarrow> u64 \<Rightarrow> ('c veddb \<times> (session_error, unit) result) option" where
  "core_detach_session db sid = map_option (map_prod (\<lambda>m. put_sessions m db) id) (detach_session (db_sessions db) sid)"

text \<open>A response of more than eight bytes goes into a block of the arena, of which the slot carries the offset.\<close>

definition core_send_response :: "u64 \<Rightarrow> 'c veddb \<Rightarrow> u64 \<Rightarrow> response \<Rightarrow> 'c veddb \<times> (session_error, unit) result" where
  "core_send_response now db sid resp =
     (let bs = response_to_bytes resp; a = kv_arena (sh_kv (db_shared db))
      in case inline_data bs of
           Some s \<Rightarrow> map_prod (\<lambda>m. put_sessions m db) id (send_response now (db_sessions db) sid s)
         | None \<Rightarrow>
             (let (a1, off) = allocate a (of_nat (length bs)) 1
              in if off = 0 then (put_arena a1 db, Inl SessOutOfMemory)
                 else let db1 = put_arena (a1\<lparr>mem := write_bytes (mem a1) off bs\<rparr>) db
                      in map_prod (\<lambda>m. put_sessions m db1) id
                           (send_response now (db_sessions db1) sid (arena_offset (of_nat (length bs)) off))))"

definition core_get_active_sessions :: "'c veddb \<Rightarrow> u64 list" where
  "core_get_active_sessions db = get_active_sessions (db_sessions db)"

definition core_try_get_command :: "'c veddb \<Rightarrow> u64 \<Rightarrow> ('c veddb \<times> (veddb_error, command option) result) option" where
  "core_try_get_command db sid =
     map_option (map_prod (\<lambda>m. put_sessions m db) (map_sum VdbSession id)) (try_get_command (db_sessions db) sid)"

definition core_cleanup_stale_sessions :: "u64 \<Rightarrow> 'c veddb \<Rightarrow> 'c veddb \<times> nat" where
  "core_cleanup_stale_sessions now db =
     map_prod (\<lambda>m. put_sessions m db) id
       (cleanup_stale_sessions now (db_sessions db) (vc_session_timeout_secs (vh_config (sh_header (db_shared db)))))"

end
