(* ===== verification/Core_Proofs.thy ===== *)
theory Core_Proofs
  imports Core_Ved
begin

text \<open>
  What the commands of a local client do in the composition of the wire format, the key-value store
  over the arena and publish and subscribe, and what fits into the block of shared memory.
\<close>

lemma opcode_of_command: "header_opcode (cmd_header (command_new c seq k v)) = opcode_try_from (opcode_as_u8 c)"
  by (simp add: header_opcode_def command_new_def with_key_val_def cmd_header_new_def)

lemma command_parts:
  "cmd_key (command_new c seq k v) = k" "cmd_value (command_new c seq k v) = v"
  "ch_seq (cmd_header (command_new c seq k v)) = seq"
  by (simp_all add: command_new_def with_key_val_def cmd_header_new_def)

lemma core_opcodes:
  "opcode_try_from (opcode_as_u8 OcSet) = Some OcSet" "opcode_try_from (opcode_as_u8 OcGet) = Some OcGet"
  "opcode_try_from (opcode_as_u8 OcUnsubscribe) = Some OcUnsubscribe"
  by (simp_all add: opcode_try_from_def opcode_bytes_def)

lemma core_dispatch:
  "core_process_command env db (command_new OcSet seq k v) =
     core_handle_set (count_command (ce_now env) db) (command_new OcSet seq k v) seq"
  "core_process_command env db (command_new OcGet seq k v) =
     core_handle_get (count_command (ce_now env) db) (command_new OcGet seq k v) seq"
  "core_process_command env db (command_new OcUnsubscribe seq k v) =
     core_handle_unsubscribe env (count_command (ce_now env) db) (command_new OcUnsubscribe seq k v) seq"
  unfolding core_process_command_def opcode_of_command core_opcodes Let_def command_parts by simp_all

lemmas core_command = core_dispatch command_parts

lemma count_command_kv [simp]: "sh_kv (db_shared (count_command now db)) = sh_kv (db_shared db)"
  by (simp add: count_command_def)

lemma count_command_pubsub [simp]: "db_pubsub (count_command now db) = db_pubsub db"
  by (simp add: count_command_def)

lemma put_kv_simps [simp]: "sh_kv (db_shared (put_kv kv db)) = kv" "db_pubsub (put_kv kv db) = db_pubsub db"
  by (simp_all add: put_kv_def)

lemma get_shard_put: "get_shard (put_shard (count_total s) i sh a) key = get_shard s key"
  by (simp add: get_shard_def shard_ptr_def put_shard_def count_total_def)

text \<open>The shard that a key belongs to, with its invariant.\<close>

definition key_table :: "'c veddb \<Rightarrow> bytes \<Rightarrow> hash_table option" where
  "key_table db key = map_option (\<lambda>i. shard_table (shards (sh_kv (db_shared db)) ! i)) (get_shard (sh_kv (db_shared db)) key)"

definition db_arena :: "'c veddb \<Rightarrow> arena" where
  "db_arena db = kv_arena (sh_kv (db_shared db))"

definition shards_in_place :: "'c veddb \<Rightarrow> bool" where
  "shards_in_place db \<longleftrightarrow>
     (let kv = sh_kv (db_shared db) in \<forall>key i. get_shard kv key = Some i \<longrightarrow> i < length (shards kv))"

lemma get_from_table:
  assumes "key_table db key = Some t" and "ht_get t (db_arena db) key = Some (Some v)"
  shows "\<exists>db'. core_process_command env db (command_get seq key) = Some (db', response_ok seq v)"
  using assms
  by (auto simp: core_command command_get_def core_handle_get_def kv_get_def shard_get_def key_table_def db_arena_def)

lemma shard_set_table:
  "shard_set sh a key v = Some (sh', a', Inr ()) \<Longrightarrow>
   \<exists>b. ht_insert (shard_table sh) a key v = Some (shard_table sh', a', Inr b)"
  by (auto simp: shard_set_def Let_def split: option.splits prod.splits sum.splits)

lemma kv_set_table:
  assumes "kv_set s key v = Some (s', Inr ())" and "get_shard s key = Some i" and "i < length (shards s)"
  shows "get_shard s' key = Some i \<and>
    (\<exists>b. ht_insert (shard_table (shards s ! i)) (kv_arena s) key v = Some (shard_table (shards s' ! i), kv_arena s', Inr b))"
proof -
  from assms(1,2) obtain sh a where "shard_set (shards s ! i) (kv_arena s) key v = Some (sh, a, Inr ())"
    and s': "s' = (put_shard (count_total s) i sh a)\<lparr>total_keys := total_keys (put_shard (count_total s) i sh a) + 1\<rparr>"
    by (auto simp: kv_set_def Let_def split: option.splits prod.splits sum.splits)
  from shard_set_table [OF this(1)] s' assms(2,3) get_shard_put [of s i sh a key] show ?thesis
    by (auto simp: put_shard_def count_total_def get_shard_def shard_ptr_def)
qed

lemma response_codes: "response_ok seq p \<noteq> response_error seq'"
  by (simp add: response_ok_def response_error_def response_new_def resp_header_new_def with_payload_def)

lemma set_in_table:
  assumes "core_process_command env db (command_set seq key v) = Some (db', response_ok seq [])"
    and "key_table db key = Some t" and "shards_in_place db"
  shows "\<exists>t' b. ht_insert t (db_arena db) key v = Some (t', db_arena db', Inr b) \<and> key_table db' key = Some t'"
proof -
  from assms(1) obtain kv where kv: "kv_set (sh_kv (db_shared db)) key v = Some (kv, Inr ())" "sh_kv (db_shared db') = kv"
    by (auto simp: core_command command_set_def core_handle_set_def response_codes [symmetric] split: option.splits prod.splits sum.splits)
  from assms(2) obtain i where i: "get_shard (sh_kv (db_shared db)) key = Some i" "t = shard_table (shards (sh_kv (db_shared db)) ! i)"
    by (auto simp: key_table_def)
  have "i < length (shards (sh_kv (db_shared db)))" using assms(3) i(1) by (auto simp: shards_in_place_def Let_def)
  from kv_set_table [OF kv(1) i(1) this] i kv(2) show ?thesis by (auto simp: key_table_def db_arena_def)
qed

text \<open>
  A value that a client has set is the value it gets: when the command \<open>Set\<close> is answered with \<open>Ok\<close>,
  the next \<open>Get\<close> of the key is answered with the value, provided the arena did not hand out memory
  of other live entries, which its free lists can do.
\<close>

theorem core_set_then_get:
  assumes "core_process_command env db (command_set seq key v) = Some (db', response_ok seq [])"
    and "key_table db key = Some t" and "shards_in_place db" and "kv_inv t (db_arena db)"
    and "other_data_kept t (db_arena db) (db_arena db') key"
  shows "\<exists>db''. core_process_command env' db' (command_get seq' key) = Some (db'', response_ok seq' v)"
proof -
  from set_in_table [OF assms(1-3)] obtain t' b where
    i: "ht_insert t (db_arena db) key v = Some (t', db_arena db', Inr b)" and t': "key_table db' key = Some t'" by auto
  note ie = insert_entry [OF assms(4) i assms(5)]
  have "ht_get t' (db_arena db') key = Some (Some v)" using ie(2) get_stored [OF ie(1)] by auto
  from get_from_table [OF t' this] show ?thesis .
qed

lemma unsubscribe_unknown:
  assumes "\<And>ch. map_of (ps_channels s) n = Some ch \<Longrightarrow> map_of (ch_subscribers ch) i = None"
  shows "map_of (ps_channels (fst (unsubscribe s i n))) = map_of (ps_channels s)"
  using assms by (auto simp: unsubscribe_def channel_remove_subscriber_def map_of_al_put fun_upd_idem_iff split: option.splits)

text \<open>
  A client cannot unsubscribe: the command \<open>Unsubscribe\<close> makes up a new subscriber id, under which
  nobody is subscribed, so that it is answered with \<open>Ok\<close> and leaves every channel as it is.
\<close>

theorem core_unsubscribe_changes_nothing:
  assumes "ce_may_block env"
    and "\<And>n ch. map_of (ps_channels (db_pubsub db)) n = Some ch \<Longrightarrow> map_of (ch_subscribers ch) (ce_new_id env) = None"
  shows "\<exists>db'. core_process_command env db (command_new OcUnsubscribe seq key v) = Some (db', response_ok seq []) \<and>
     map_of (ps_channels (db_pubsub db')) = map_of (ps_channels (db_pubsub db))"
  using assms unsubscribe_unknown [of "db_pubsub db" "from_utf8_lossy v" "ce_new_id env"]
  by (auto simp: core_command core_handle_unsubscribe_def)

text \<open>
  The parts of the block do not overlap, and with the default configuration they fit; nothing
  checks this for another one, and a block of one megabyte is too small for the default number of
  shards and sessions.
\<close>

theorem default_layout_fits:
  "core_arena_offset \<ge> veddb_header_bytes \<and> core_layout_end veddb_config_default \<le> vc_memory_size veddb_config_default \<and>
   vc_memory_size (veddb_config_default\<lparr>vc_memory_size := 1024 * 1024\<rparr>) <
     core_layout_end (veddb_config_default\<lparr>vc_memory_size := 1024 * 1024\<rparr>)"
  by (simp add: core_layout_end_def core_session_offset_def core_kv_offset_def core_arena_offset_def align_64_def
      veddb_header_bytes_def veddb_config_default_def kv_config_default_def kv_size_for_config_def shard_size_def
      size_for_max_sessions_def session_desc_bytes_def)

end
