(* ===== verification/Config_Ved.thy ===== *)
theory Config_Ved
  imports VedPrelude
begin

text \<open>
  The configuration of the server (\<open>veddb-core/src/config.rs\<close>): settings, validation, and the manager that
  loads, changes, saves and reloads them. The texts of toml and serde_json are parameters. Files are a
  map from paths to texts; only a missing file is an error of the file system. Events that are
  broadcast are recorded in their order.
\<close>

section \<open>Settings\<close>

datatype wal_fsync_policy = FsyncAlways | FsyncEverySecond | FsyncDisabled

datatype cfg_eviction_policy = CfgLru | CfgLfu | CfgRandom

datatype log_level = LlError | LlWarn | LlInfo | LlDebug | LlTrace

datatype log_format = LogText | LogJson

datatype cfg_node_role = CfgMaster | CfgSlave

record server_settings =
  srv_port :: "16 word"
  srv_tls_enabled :: bool
  srv_tls_cert_path :: "string option"
  srv_tls_key_path :: "string option"
  srv_max_connections :: nat
  srv_connection_timeout_secs :: u64

record storage_settings =
  sto_data_dir :: string
  sto_wal_fsync_policy :: wal_fsync_policy
  sto_snapshot_interval_minutes :: u64
  sto_wal_file_size_mb :: u64
  sto_enable_compression :: bool

record cache_settings =
  cas_max_memory_mb :: nat
  cas_eviction_policy :: cfg_eviction_policy
  cas_ttl_check_interval_ms :: u64
  cas_cache_warming_enabled :: bool

record auth_settings =
  aut_auth_required :: bool
  aut_jwt_secret_path :: "string option"
  aut_session_timeout_hours :: u64
  aut_password_hash_cost :: u32

record logging_settings =
  log_set_level :: log_level
  log_set_format :: log_format
  log_set_file_path :: "string option"
  log_slow_query_threshold_ms :: u64

record replication_settings =
  rep_enabled :: bool
  rep_role :: cfg_node_role
  rep_master_address :: "string option"
  rep_port :: "16 word"

record server_config =
  sc_server :: server_settings
  sc_storage :: storage_settings
  sc_cache :: cache_settings
  sc_auth :: auth_settings
  sc_logging :: logging_settings
  sc_replication :: replication_settings

definition server_config_default :: server_config where
  "server_config_default =
     \<lparr>sc_server = \<lparr>srv_port = 50051, srv_tls_enabled = True, srv_tls_cert_path = None, srv_tls_key_path = None,
        srv_max_connections = 10000, srv_connection_timeout_secs = 300\<rparr>,
      sc_storage = \<lparr>sto_data_dir = ''./data'', sto_wal_fsync_policy = FsyncAlways, sto_snapshot_interval_minutes = 5,
        sto_wal_file_size_mb = 100, sto_enable_compression = True\<rparr>,
      sc_cache = \<lparr>cas_max_memory_mb = 1024, cas_eviction_policy = CfgLru, cas_ttl_check_interval_ms = 100,
        cas_cache_warming_enabled = True\<rparr>,
      sc_auth = \<lparr>aut_auth_required = True, aut_jwt_secret_path = None, aut_session_timeout_hours = 24,
        aut_password_hash_cost = 12\<rparr>,
      sc_logging = \<lparr>log_set_level = LlInfo, log_set_format = LogText, log_set_file_path = None,
        log_slow_query_threshold_ms = 100\<rparr>,
      sc_replication = \<lparr>rep_enabled = False, rep_role = CfgMaster, rep_master_address = None, rep_port = 50052\<rparr>\<rparr>"

section \<open>Validation\<close>

datatype config_error =
    CfgInvalid string | CfgUnreadable | CfgUnparsable string | CfgUnserializable string | CfgRejected string

definition validate_config :: "server_config \<Rightarrow> (config_error, unit) result" where
  "validate_config c =
     (if srv_port (sc_server c) = 0 then Inl (CfgInvalid ''Server port cannot be 0'')
      else if srv_max_connections (sc_server c) = 0 then Inl (CfgInvalid ''Max connections cannot be 0'')
      else if srv_tls_enabled (sc_server c) \<and> srv_tls_cert_path (sc_server c) = None
      then Inl (CfgInvalid ''TLS certificate path required when TLS is enabled'')
      else if srv_tls_enabled (sc_server c) \<and> srv_tls_key_path (sc_server c) = None
      then Inl (CfgInvalid ''TLS key path required when TLS is enabled'')
      else if sto_snapshot_interval_minutes (sc_storage c) = 0 then Inl (CfgInvalid ''Snapshot interval cannot be 0'')
      else if sto_wal_file_size_mb (sc_storage c) = 0 then Inl (CfgInvalid ''WAL file size cannot be 0'')
      else if cas_max_memory_mb (sc_cache c) = 0 then Inl (CfgInvalid ''Cache max memory cannot be 0'')
      else if aut_session_timeout_hours (sc_auth c) = 0 then Inl (CfgInvalid ''Session timeout cannot be 0'')
      else if aut_password_hash_cost (sc_auth c) < 4 \<or> 31 < aut_password_hash_cost (sc_auth c)
      then Inl (CfgInvalid ''Password hash cost must be between 4 and 31'')
      else if rep_enabled (sc_replication c) \<and> rep_role (sc_replication c) = CfgSlave \<and>
              rep_master_address (sc_replication c) = None
      then Inl (CfgInvalid ''Master address required for slave nodes'')
      else Inr ())"

section \<open>The manager\<close>

record config_codec =
  toml_from_str :: "string \<Rightarrow> (string, server_config) result"
  toml_to_string :: "server_config \<Rightarrow> (string, string) result"
  config_json :: "server_config \<Rightarrow> (string, string) result"

type_synonym config_files = "(string \<times> string) list"

definition load_config :: "config_codec \<Rightarrow> config_files \<Rightarrow> string \<Rightarrow> (config_error, server_config) result" where
  "load_config cc fs path =
     (case map_of fs path of None \<Rightarrow> Inl CfgUnreadable
      | Some content \<Rightarrow>
          (case toml_from_str cc content of Inl e \<Rightarrow> Inl (CfgUnparsable e)
           | Inr c \<Rightarrow> (case validate_config c of Inl e \<Rightarrow> Inl e | Inr _ \<Rightarrow> Inr c)))"

definition save_config :: "config_codec \<Rightarrow> config_files \<Rightarrow> string \<Rightarrow> server_config \<Rightarrow> config_files \<times> (config_error, unit) result" where
  "save_config cc fs path c =
     (case toml_to_string cc c of Inl e \<Rightarrow> (fs, Inl (CfgUnserializable e))
      | Inr content \<Rightarrow> (al_put path content fs, Inr ()))"

record config_change_event =
  cce_section :: string
  cce_old_config :: string
  cce_new_config :: string
  cce_restart_required :: bool

record config_manager =
  cm_config :: server_config
  cm_config_path :: string
  cm_events :: "config_change_event list"
  cm_shutdowns :: nat

definition config_manager_new ::
  "config_codec \<Rightarrow> config_files \<Rightarrow> string \<Rightarrow> config_files \<times> (config_error, config_manager) result"
where
  "config_manager_new cc fs path =
     (let mk = (\<lambda>c. \<lparr>cm_config = c, cm_config_path = path, cm_events = [], cm_shutdowns = 0\<rparr>)
      in if map_of fs path \<noteq> None
         then (fs, case load_config cc fs path of Inl e \<Rightarrow> Inl e | Inr c \<Rightarrow> Inr (mk c))
         else case save_config cc fs path server_config_default of
                (fs', Inl e) \<Rightarrow> (fs', Inl e)
              | (fs', Inr _) \<Rightarrow> (fs', Inr (mk server_config_default)))"

definition get_config :: "config_manager \<Rightarrow> server_config" where
  "get_config m = cm_config m"

text \<open>The updater changes the configuration in place, also when it returns an error.\<close>

definition update_config ::
  "config_codec \<Rightarrow> config_files \<Rightarrow> config_manager \<Rightarrow> string \<Rightarrow>
   (server_config \<Rightarrow> server_config \<times> (config_error, bool) result) \<Rightarrow>
   config_files \<times> config_manager \<times> (config_error, bool) result"
where
  "update_config cc fs m sect updater =
     (case config_json cc (cm_config m) of Inl e \<Rightarrow> (fs, m, Inl (CfgUnserializable e))
      | Inr old \<Rightarrow>
          (case updater (cm_config m) of
             (c, Inl e) \<Rightarrow> (fs, m\<lparr>cm_config := c\<rparr>, Inl e)
           | (c, Inr restart) \<Rightarrow>
               (let m1 = m\<lparr>cm_config := c\<rparr>
                in case config_json cc c of Inl e \<Rightarrow> (fs, m1, Inl (CfgUnserializable e))
                   | Inr new \<Rightarrow>
                       (case save_config cc fs (cm_config_path m) c of
                          (fs', Inl e) \<Rightarrow> (fs', m1, Inl e)
                        | (fs', Inr _) \<Rightarrow>
                            (fs', m1\<lparr>cm_events := cm_events m @ [\<lparr>cce_section = sect, cce_old_config = old,
                               cce_new_config = new, cce_restart_required = restart\<rparr>]\<rparr>, Inr restart)))))"

definition reload_config :: "config_codec \<Rightarrow> config_files \<Rightarrow> config_manager \<Rightarrow> config_manager \<times> (config_error, unit) result" where
  "reload_config cc fs m =
     (case load_config cc fs (cm_config_path m) of Inl e \<Rightarrow> (m, Inl e)
      | Inr c \<Rightarrow>
          (case config_json cc (cm_config m) of Inl e \<Rightarrow> (m, Inl (CfgUnserializable e))
           | Inr old \<Rightarrow>
               (case config_json cc c of Inl e \<Rightarrow> (m, Inl (CfgUnserializable e))
                | Inr new \<Rightarrow>
                    (m\<lparr>cm_config := c, cm_events := cm_events m @ [\<lparr>cce_section = ''all'', cce_old_config = old,
                       cce_new_config = new, cce_restart_required = False\<rparr>]\<rparr>, Inr ()))))"

definition config_shutdown :: "config_manager \<Rightarrow> config_manager" where
  "config_shutdown m = m\<lparr>cm_shutdowns := cm_shutdowns m + 1\<rparr>"

definition requires_restart :: "string \<Rightarrow> bool" where
  "requires_restart sect =
     list_ex (\<lambda>s. take (length s) sect = s)
       [''server.port'', ''server.tls_cert_path'', ''server.tls_key_path'', ''storage.data_dir'', ''replication.role'',
        ''replication.port'']"

section \<open>Properties\<close>

definition toml_round_trip :: "config_codec \<Rightarrow> server_config \<Rightarrow> bool" where
  "toml_round_trip cc c \<longleftrightarrow> (\<exists>t. toml_to_string cc c = Inr t \<and> toml_from_str cc t = Inr c)"

lemma save_then_load:
  assumes "toml_round_trip cc c"
  shows "\<exists>t. save_config cc fs path c = (al_put path t fs, Inr ()) \<and>
     load_config cc (al_put path t fs) path = (case validate_config c of Inl e \<Rightarrow> Inl e | Inr _ \<Rightarrow> Inr c)"
  using assms by (auto simp: toml_round_trip_def save_config_def load_config_def map_of_al_put)

text \<open>
  The default configuration can be used once. Where there is no configuration file, the first manager starts with the
  default configuration and saves it; the default asks for TLS without naming a certificate,
  which validation refuses, so that every later manager fails to load the saved file.
\<close>

theorem default_config_starts_once:
  assumes "map_of fs path = None" and "toml_round_trip cc server_config_default"
    and "config_manager_new cc fs path = (fs', r)"
  shows "(\<exists>m. r = Inr m \<and> get_config m = server_config_default) \<and>
     config_manager_new cc fs' path = (fs', Inl (CfgInvalid ''TLS certificate path required when TLS is enabled''))"
proof -
  from save_then_load [OF assms(2), of fs path] obtain t where
    s: "save_config cc fs path server_config_default = (al_put path t fs, Inr ())"
    and l: "load_config cc (al_put path t fs) path =
      (case validate_config server_config_default of Inl e \<Rightarrow> Inl e | Inr _ \<Rightarrow> Inr server_config_default)" by blast
  have v: "validate_config server_config_default = Inl (CfgInvalid ''TLS certificate path required when TLS is enabled'')"
    by (simp add: validate_config_def server_config_default_def)
  have "fs' = al_put path t fs" "r = Inr \<lparr>cm_config = server_config_default, cm_config_path = path, cm_events = [], cm_shutdowns = 0\<rparr>"
    using assms(1,3) s by (auto simp: config_manager_new_def Let_def)
  with l v show ?thesis by (simp add: config_manager_new_def Let_def map_of_al_put get_config_def)
qed

text \<open>
  A change that succeeds is saved, and reloading gives it back exactly when it is valid: an update is
  not validated, so that an invalid one is only refused by the next reload or manager.
\<close>

theorem update_then_reload:
  assumes "update_config cc fs m sect f = (fs', m', Inr b)" and "toml_round_trip cc (get_config m')"
    and "config_json cc (get_config m') = Inr j"
  shows "case validate_config (get_config m') of
     Inl e \<Rightarrow> reload_config cc fs' m' = (m', Inl e)
   | Inr _ \<Rightarrow> get_config (fst (reload_config cc fs' m')) = get_config m' \<and> snd (reload_config cc fs' m') = Inr ()"
proof -
  let ?c = "get_config m'"
  from assms(1) have m': "cm_config_path m' = cm_config_path m" "save_config cc fs (cm_config_path m) ?c = (fs', Inr ())"
    by (auto simp: update_config_def Let_def get_config_def split: sum.splits prod.splits)
  from save_then_load [OF assms(2), of fs "cm_config_path m"] m'
  have "load_config cc fs' (cm_config_path m') = (case validate_config ?c of Inl e \<Rightarrow> Inl e | Inr _ \<Rightarrow> Inr ?c)" by auto
  with assms(3) show ?thesis by (auto simp: reload_config_def get_config_def split: sum.splits)
qed

end
