(* ===== verification/Metrics_Ved.thy ===== *)
theory Metrics_Ved
  imports VedPrelude "HOL-Library.Multiset"
begin

text \<open>
  The metrics of the server (\<open>veddb-core/src/monitoring/metrics.rs\<close>): counters, the circular buffers of
  latencies with their percentiles, and the metrics of collections. Latencies are in microseconds.
  The index of a percentile is a product of 64-bit floats, truncated; a buffer holds at most 10000
  samples, and for every such number the product truncates to the quotient of integers that is written
  here. The rates of the snapshot, quotients of floats, are left out.
\<close>

section \<open>Latencies\<close>

record latency_buffer =
  lb_samples :: "u64 list"
  lb_index :: nat
  lb_full :: bool

definition BUFFER_SIZE :: nat where
  "BUFFER_SIZE = 10000"

definition latency_buffer_new :: latency_buffer where
  "latency_buffer_new = \<lparr>lb_samples = replicate BUFFER_SIZE 0, lb_index = 0, lb_full = False\<rparr>"

definition add_sample :: "latency_buffer \<Rightarrow> u64 \<Rightarrow> latency_buffer" where
  "add_sample b x =
     (let i = (lb_index b + 1) mod length (lb_samples b)
      in \<lparr>lb_samples = (lb_samples b)[lb_index b := x], lb_index = i, lb_full = (if i = 0 then True else lb_full b)\<rparr>)"

record latency_percentiles =
  lp_p50 :: u64
  lp_p90 :: u64
  lp_p95 :: u64
  lp_p99 :: u64
  lp_p999 :: u64
  lp_max :: u64

definition latency_percentiles_default :: latency_percentiles where
  "latency_percentiles_default = \<lparr>lp_p50 = 0, lp_p90 = 0, lp_p95 = 0, lp_p99 = 0, lp_p999 = 0, lp_max = 0\<rparr>"

definition percentile_index :: "nat \<Rightarrow> nat \<Rightarrow> nat" where
  "percentile_index len mille = len * mille div 1000"

definition active_samples :: "latency_buffer \<Rightarrow> u64 list" where
  "active_samples b = (if lb_full b then lb_samples b else take (lb_index b) (lb_samples b))"

definition calculate_percentiles :: "latency_buffer \<Rightarrow> latency_percentiles" where
  "calculate_percentiles b =
     (let samples = active_samples b
      in if samples = [] then latency_percentiles_default
         else let ss = sort samples; len = length ss
              in \<lparr>lp_p50 = ss ! min (percentile_index len 500) (len - 1), lp_p90 = ss ! min (percentile_index len 900) (len - 1),
                  lp_p95 = ss ! min (percentile_index len 950) (len - 1), lp_p99 = ss ! min (percentile_index len 990) (len - 1),
                  lp_p999 = ss ! min (percentile_index len 999) (len - 1), lp_max = ss ! (len - 1)\<rparr>)"

record latency_tracker =
  read_latencies :: latency_buffer
  write_latencies :: latency_buffer
  query_latencies :: latency_buffer
  read_percentiles :: latency_percentiles
  write_percentiles :: latency_percentiles
  query_percentiles :: latency_percentiles

definition latency_tracker_new :: latency_tracker where
  "latency_tracker_new =
     \<lparr>read_latencies = latency_buffer_new, write_latencies = latency_buffer_new, query_latencies = latency_buffer_new,
      read_percentiles = latency_percentiles_default, write_percentiles = latency_percentiles_default,
      query_percentiles = latency_percentiles_default\<rparr>"

definition record_read_latency :: "latency_tracker \<Rightarrow> nat \<Rightarrow> latency_tracker" where
  "record_read_latency t us = t\<lparr>read_latencies := add_sample (read_latencies t) (of_nat us)\<rparr>"

definition record_write_latency :: "latency_tracker \<Rightarrow> nat \<Rightarrow> latency_tracker" where
  "record_write_latency t us = t\<lparr>write_latencies := add_sample (write_latencies t) (of_nat us)\<rparr>"

definition record_query_latency :: "latency_tracker \<Rightarrow> nat \<Rightarrow> latency_tracker" where
  "record_query_latency t us = t\<lparr>query_latencies := add_sample (query_latencies t) (of_nat us)\<rparr>"

definition update_read_percentiles :: "latency_tracker \<Rightarrow> latency_tracker" where
  "update_read_percentiles t = t\<lparr>read_percentiles := calculate_percentiles (read_latencies t)\<rparr>"

definition update_write_percentiles :: "latency_tracker \<Rightarrow> latency_tracker" where
  "update_write_percentiles t = t\<lparr>write_percentiles := calculate_percentiles (write_latencies t)\<rparr>"

definition update_query_percentiles :: "latency_tracker \<Rightarrow> latency_tracker" where
  "update_query_percentiles t = t\<lparr>query_percentiles := calculate_percentiles (query_latencies t)\<rparr>"

definition update_percentiles :: "latency_tracker \<Rightarrow> latency_tracker" where
  "update_percentiles t = update_query_percentiles (update_write_percentiles (update_read_percentiles t))"

section \<open>Counters\<close>

record collection_metrics =
  cmet_document_count :: u64
  cmet_total_size_bytes :: u64
  cmet_read_count :: u64
  cmet_write_count :: u64
  cmet_index_count :: u64
  cmet_cache_hit_rate :: u64

definition collection_metrics_new :: collection_metrics where
  "collection_metrics_new = \<lparr>cmet_document_count = 0, cmet_total_size_bytes = 0, cmet_read_count = 0, cmet_write_count = 0,
     cmet_index_count = 0, cmet_cache_hit_rate = 0\<rparr>"

definition cmet_record_read :: "collection_metrics \<Rightarrow> collection_metrics" where
  "cmet_record_read c = c\<lparr>cmet_read_count := cmet_read_count c + 1\<rparr>"

definition cmet_record_write :: "collection_metrics \<Rightarrow> collection_metrics" where
  "cmet_record_write c = c\<lparr>cmet_write_count := cmet_write_count c + 1\<rparr>"

definition cmet_update_document_count :: "u64 \<Rightarrow> collection_metrics \<Rightarrow> collection_metrics" where
  "cmet_update_document_count n c = c\<lparr>cmet_document_count := n\<rparr>"

definition cmet_update_size :: "u64 \<Rightarrow> collection_metrics \<Rightarrow> collection_metrics" where
  "cmet_update_size n c = c\<lparr>cmet_total_size_bytes := n\<rparr>"

definition cmet_update_index_count :: "u64 \<Rightarrow> collection_metrics \<Rightarrow> collection_metrics" where
  "cmet_update_index_count n c = c\<lparr>cmet_index_count := n\<rparr>"

datatype operation_type = OtRead | OtWrite | OtDelete | OtQuery

record server_metrics =
  sme_total_operations :: u64
  sme_read_operations :: u64
  sme_write_operations :: u64
  sme_delete_operations :: u64
  sme_query_operations :: u64
  sme_active_connections :: u64
  sme_total_connections :: u64
  sme_connection_errors :: u64
  sme_memory_usage_bytes :: u64
  sme_cache_memory_bytes :: u64
  sme_persistent_memory_bytes :: u64
  sme_cache_hits :: u64
  sme_cache_misses :: u64
  sme_cache_evictions :: u64
  sme_replication_lag_ms :: u64
  sme_replication_bytes_sent :: u64
  sme_replication_bytes_received :: u64
  sme_authentication_failures :: u64
  sme_authorization_failures :: u64
  sme_query_errors :: u64
  sme_storage_errors :: u64
  sme_latency_tracker :: latency_tracker
  sme_collection_metrics :: "(string \<times> collection_metrics) list"
  sme_start_time :: int

definition server_metrics_new :: "int \<Rightarrow> server_metrics" where
  "server_metrics_new now =
     \<lparr>sme_total_operations = 0, sme_read_operations = 0, sme_write_operations = 0, sme_delete_operations = 0,
      sme_query_operations = 0, sme_active_connections = 0, sme_total_connections = 0, sme_connection_errors = 0,
      sme_memory_usage_bytes = 0, sme_cache_memory_bytes = 0, sme_persistent_memory_bytes = 0, sme_cache_hits = 0,
      sme_cache_misses = 0, sme_cache_evictions = 0, sme_replication_lag_ms = 0, sme_replication_bytes_sent = 0,
      sme_replication_bytes_received = 0, sme_authentication_failures = 0, sme_authorization_failures = 0,
      sme_query_errors = 0, sme_storage_errors = 0, sme_latency_tracker = latency_tracker_new,
      sme_collection_metrics = [], sme_start_time = now\<rparr>"

fun metrics_record_operation :: "operation_type \<Rightarrow> nat \<Rightarrow> server_metrics \<Rightarrow> server_metrics" where
  "metrics_record_operation OtRead us s = s\<lparr>sme_total_operations := sme_total_operations s + 1,
     sme_read_operations := sme_read_operations s + 1, sme_latency_tracker := record_read_latency (sme_latency_tracker s) us\<rparr>"
| "metrics_record_operation OtWrite us s = s\<lparr>sme_total_operations := sme_total_operations s + 1,
     sme_write_operations := sme_write_operations s + 1, sme_latency_tracker := record_write_latency (sme_latency_tracker s) us\<rparr>"
| "metrics_record_operation OtDelete us s = s\<lparr>sme_total_operations := sme_total_operations s + 1,
     sme_delete_operations := sme_delete_operations s + 1, sme_latency_tracker := record_write_latency (sme_latency_tracker s) us\<rparr>"
| "metrics_record_operation OtQuery us s = s\<lparr>sme_total_operations := sme_total_operations s + 1,
     sme_query_operations := sme_query_operations s + 1, sme_latency_tracker := record_query_latency (sme_latency_tracker s) us\<rparr>"

definition metrics_record_cache_hit :: "server_metrics \<Rightarrow> server_metrics" where
  "metrics_record_cache_hit s = s\<lparr>sme_cache_hits := sme_cache_hits s + 1\<rparr>"

definition metrics_record_cache_miss :: "server_metrics \<Rightarrow> server_metrics" where
  "metrics_record_cache_miss s = s\<lparr>sme_cache_misses := sme_cache_misses s + 1\<rparr>"

definition record_cache_eviction :: "server_metrics \<Rightarrow> server_metrics" where
  "record_cache_eviction s = s\<lparr>sme_cache_evictions := sme_cache_evictions s + 1\<rparr>"

definition record_connection_opened :: "server_metrics \<Rightarrow> server_metrics" where
  "record_connection_opened s = s\<lparr>sme_active_connections := sme_active_connections s + 1,
     sme_total_connections := sme_total_connections s + 1\<rparr>"

definition record_connection_closed :: "server_metrics \<Rightarrow> server_metrics" where
  "record_connection_closed s = s\<lparr>sme_active_connections := sme_active_connections s - 1\<rparr>"

definition record_connection_error :: "server_metrics \<Rightarrow> server_metrics" where
  "record_connection_error s = s\<lparr>sme_connection_errors := sme_connection_errors s + 1\<rparr>"

definition update_memory_usage :: "u64 \<Rightarrow> u64 \<Rightarrow> u64 \<Rightarrow> server_metrics \<Rightarrow> server_metrics" where
  "update_memory_usage all cached stored s = s\<lparr>sme_memory_usage_bytes := all, sme_cache_memory_bytes := cached,
     sme_persistent_memory_bytes := stored\<rparr>"

definition metrics_update_replication_lag :: "u64 \<Rightarrow> server_metrics \<Rightarrow> server_metrics" where
  "metrics_update_replication_lag lag s = s\<lparr>sme_replication_lag_ms := lag\<rparr>"

definition record_auth_failure :: "server_metrics \<Rightarrow> server_metrics" where
  "record_auth_failure s = s\<lparr>sme_authentication_failures := sme_authentication_failures s + 1\<rparr>"

definition record_authz_failure :: "server_metrics \<Rightarrow> server_metrics" where
  "record_authz_failure s = s\<lparr>sme_authorization_failures := sme_authorization_failures s + 1\<rparr>"

definition record_query_error :: "server_metrics \<Rightarrow> server_metrics" where
  "record_query_error s = s\<lparr>sme_query_errors := sme_query_errors s + 1\<rparr>"

definition record_storage_error :: "server_metrics \<Rightarrow> server_metrics" where
  "record_storage_error s = s\<lparr>sme_storage_errors := sme_storage_errors s + 1\<rparr>"

text \<open>The metrics of a collection are handed out as a copy.\<close>

definition get_collection_metrics :: "server_metrics \<Rightarrow> string \<Rightarrow> server_metrics \<times> collection_metrics" where
  "get_collection_metrics s coll =
     (case map_of (sme_collection_metrics s) coll of Some c \<Rightarrow> (s, c)
      | None \<Rightarrow> (s\<lparr>sme_collection_metrics := al_put coll collection_metrics_new (sme_collection_metrics s)\<rparr>, collection_metrics_new))"

section \<open>The buffer holds the last samples\<close>

definition recent :: "'a list \<Rightarrow> 'a list" where
  "recent xs = drop (length xs - BUFFER_SIZE) xs"

definition lb_holds :: "u64 list \<Rightarrow> latency_buffer \<Rightarrow> bool" where
  "lb_holds xs b \<longleftrightarrow>
     length (lb_samples b) = BUFFER_SIZE \<and> lb_index b = length xs mod BUFFER_SIZE \<and>
     (lb_full b \<longleftrightarrow> BUFFER_SIZE \<le> length xs) \<and>
     (if lb_full b then drop (lb_index b) (lb_samples b) @ take (lb_index b) (lb_samples b) = recent xs
      else take (lb_index b) (lb_samples b) = xs)"

lemma buffer_size_pos: "0 < BUFFER_SIZE"
  by (simp add: BUFFER_SIZE_def)

lemma rotate_step:
  assumes "i < length ys"
  shows "drop (Suc i) (ys[i := x]) @ take (Suc i) (ys[i := x]) = tl (drop i ys @ take i ys) @ [x]"
proof -
  have "drop i ys = ys ! i # drop (Suc i) ys" using assms by (simp add: Cons_nth_drop_Suc)
  with assms show ?thesis by (simp add: take_Suc_conv_app_nth)
qed

lemma recent_snoc: "BUFFER_SIZE \<le> length xs \<Longrightarrow> recent (xs @ [x]) = tl (recent xs) @ [x]"
  using buffer_size_pos by (simp add: recent_def Suc_diff_le drop_Suc tl_drop)

lemma recent_short: "length xs \<le> BUFFER_SIZE \<Longrightarrow> recent xs = xs"
  by (simp add: recent_def)

lemma add_sample_holds:
  assumes h: "lb_holds xs b"
  shows "lb_holds (xs @ [x]) (add_sample b x)"
proof -
  let ?i = "lb_index b" and ?s = "lb_samples b" and ?N = BUFFER_SIZE
  have len: "length ?s = ?N" and i: "?i = length xs mod ?N" and f: "lb_full b \<longleftrightarrow> ?N \<le> length xs"
    using h by (auto simp: lb_holds_def)
  have lt: "?i < ?N" using i buffer_size_pos by simp
  have si: "(?i + 1) mod ?N = length (xs @ [x]) mod ?N" using i by (simp add: mod_Suc_eq)
  show ?thesis
  proof (cases "lb_full b")
    case True
    have rot: "drop ?i ?s @ take ?i ?s = recent xs" using h True unfolding lb_holds_def by (elim conjE) (simp only: if_True)
    have new: "drop (Suc ?i) (?s[?i := x]) @ take (Suc ?i) (?s[?i := x]) = recent (xs @ [x])"
      using rotate_step [of ?i ?s x] lt len rot recent_snoc [of xs x] f True by simp
    show ?thesis
    proof (cases "Suc ?i = ?N")
      case True': True
      with new len have "?s[?i := x] = recent (xs @ [x])" by simp
      then have "?s[?i := x] = recent (xs @ [x])" "length (recent (xs @ [x])) = ?N" using len by (auto dest: arg_cong [of _ _ length])
      with True' True f len si show ?thesis by (simp add: lb_holds_def add_sample_def Let_def)
    next
      case False
      with lt have "(?i + 1) mod ?N = Suc ?i" by simp
      with new True f len si show ?thesis by (simp add: lb_holds_def add_sample_def Let_def)
    qed
  next
    case False
    have pre: "take ?i ?s = xs" using h False unfolding lb_holds_def by (elim conjE) (simp only: if_False)
    have il: "?i = length xs" using i f False by simp
    have new: "take (Suc ?i) (?s[?i := x]) = xs @ [x]"
      using lt len pre by (simp add: take_Suc_conv_app_nth)
    show ?thesis
    proof (cases "Suc ?i = ?N")
      case True
      with new len have "?s[?i := x] = xs @ [x]" by simp
      with True il len si recent_short [of "xs @ [x]"] show ?thesis by (simp add: lb_holds_def add_sample_def Let_def)
    next
      case F2: False
      with lt have "(?i + 1) mod ?N = Suc ?i" by simp
      with new F2 False il len si lt show ?thesis by (simp add: lb_holds_def add_sample_def Let_def)
    qed
  qed
qed

lemma fold_holds: "lb_holds xs b \<Longrightarrow> lb_holds (xs @ ys) (foldl add_sample b ys)"
proof (induction ys arbitrary: xs b)
  case (Cons y ys)
  from Cons.IH [OF add_sample_holds [OF Cons.prems, of y]] show ?case by simp
qed simp

lemma new_holds: "lb_holds [] latency_buffer_new"
  using buffer_size_pos by (simp add: lb_holds_def latency_buffer_new_def)

definition percentiles_of :: "u64 list \<Rightarrow> latency_percentiles" where
  "percentiles_of ys =
     (let ss = sort ys; at_mille = (\<lambda>k. ss ! min (percentile_index (length ys) k) (length ys - 1))
      in \<lparr>lp_p50 = at_mille 500, lp_p90 = at_mille 900, lp_p95 = at_mille 950, lp_p99 = at_mille 990,
          lp_p999 = at_mille 999, lp_max = Max (set ys)\<rparr>)"

lemma sorted_last_Max: "ys \<noteq> [] \<Longrightarrow> sort ys ! (length ys - 1) = Max (set (ys :: u64 list))"
proof -
  assume ne: "ys \<noteq> []"
  then have l: "length ys - 1 < length (sort ys)" by simp
  have "x \<le> sort ys ! (length ys - 1)" if "x \<in> set ys" for x
  proof -
    from that have "x \<in> set (sort ys)" by simp
    then obtain j where "j < length (sort ys)" "sort ys ! j = x" by (auto simp: in_set_conv_nth simp del: set_sort)
    then show ?thesis using sorted_nth_mono [OF sorted_sort, of j "length ys - 1" ys] l by auto
  qed
  moreover have "sort ys ! (length ys - 1) \<in> set ys" using nth_mem [OF l] by simp
  ultimately show ?thesis by (intro Max_eqI [symmetric]) auto
qed

lemma active_samples_recent:
  assumes h: "lb_holds xs b"
  shows "mset (active_samples b) = mset (recent xs)"
proof (cases "lb_full b")
  case True
  with h have "drop (lb_index b) (lb_samples b) @ take (lb_index b) (lb_samples b) = recent xs"
    unfolding lb_holds_def by (elim conjE) (simp only: if_True)
  then have "mset (take (lb_index b) (lb_samples b) @ drop (lb_index b) (lb_samples b)) = mset (recent xs)"
    by (metis mset_append union_commute)
  with True show ?thesis by (simp add: active_samples_def)
next
  case False
  with h have "take (lb_index b) (lb_samples b) = xs" "length xs \<le> BUFFER_SIZE" unfolding lb_holds_def by auto
  with False show ?thesis by (simp add: recent_short active_samples_def)
qed

lemma sort_cong_mset: "mset xs = mset ys \<Longrightarrow> sort xs = sort (ys :: u64 list)"
  by (rule properties_for_sort) simp_all

lemma recent_Nil_iff [simp]: "recent xs = [] \<longleftrightarrow> xs = []"
  using buffer_size_pos by (cases xs) (auto simp: recent_def)

lemma calculate_percentiles_cong:
  assumes "mset (active_samples b) = mset ys" and "ys \<noteq> []"
  shows "calculate_percentiles b = percentiles_of ys"
proof -
  have "active_samples b \<noteq> []" using assms by auto
  moreover have "length (active_samples b) = length ys" using assms(1) by (rule mset_eq_length)
  moreover have "sort (active_samples b) = sort ys" by (rule sort_cong_mset [OF assms(1)])
  moreover have "sort ys ! (length ys - 1) = Max (set ys)" by (rule sorted_last_Max [OF assms(2)])
  ultimately show ?thesis unfolding calculate_percentiles_def percentiles_of_def Let_def length_sort by simp
qed

text \<open>
  The percentiles of a buffer are those of the last ten thousand samples: after any samples, the
  circular buffer yields the order statistics and the maximum of the recent ones, and zeros when
  there were none.
\<close>

theorem percentiles_of_recent_samples:
  "calculate_percentiles (foldl add_sample latency_buffer_new xs) =
   (if xs = [] then latency_percentiles_default else percentiles_of (recent xs))"
proof -
  let ?b = "foldl add_sample latency_buffer_new xs"
  have ms: "mset (active_samples ?b) = mset (recent xs)"
    using active_samples_recent [OF fold_holds [OF new_holds, of xs]] by simp
  show ?thesis
  proof (cases "xs = []")
    case True
    with ms have "active_samples ?b = []" by (simp add: recent_def)
    with True show ?thesis unfolding calculate_percentiles_def Let_def by simp
  next
    case False
    with calculate_percentiles_cong [OF ms] show ?thesis by simp
  qed
qed

end
