(* ===== verification/Spec2Isabelle.thy ===== *)
theory Spec2Isabelle
  imports Spsc_Concurrent Mpmc_Ring Arena_Concurrent Wal_Replay Kv_Store Hybrid_Encrypted Query_Results Query_Parser Auth_System Pub_Sub_Proofs Aggregation_Ved Server_Examples Protocol_Handler Replication_Examples Session_Proofs Core_Proofs Config_Ved Metrics_Ved
begin

text \<open>
  A verification development of VedDB, a document database with a cache, a write-ahead log and a
  shared-memory key-value core, written in Rust (\<open>src/veddb-core\<close>, with the server binary in
  \<open>src/veddb-server\<close>). File names below are relative to \<open>src/veddb-core/src\<close>.

  \<^bold>\<open>The program.\<close> Clients reach the server through a binary protocol over connections, or through
  ring buffers in shared memory. Below that there are two stores. The key-value core keeps its data
  in an arena allocator and finds it by an open-addressing hash table, split into shards. The
  document store keeps documents in the persistent layer, with a cache with expiry and eviction in
  front of it, a write-ahead log beside it, schemas and collections, secondary indexes, a query
  language, aggregation, encryption with key rotation, and snapshots, backups and replication for
  copies of it. Authentication, roles and an audit log guard the connections, and messages are
  distributed by publish and subscribe.

  \<^bold>\<open>How it is modelled.\<close> Each theory models the files named here. The state of a component is a
  record, an operation a top-level function from state to state and answer, errors are values of a
  sum type, a panic or a call that never returns is \<open>None\<close> or a constructor of its own. Machine
  integers are words and wrap around as in a release build. Where threads or connections interleave
  there is a step relation and theorems are by rule induction; everywhere else a call holds the
  lock of its component and is one step. Hash maps are association lists in their iteration order.

  \<^bold>\<open>Memory and queues.\<close>
  \<^item> \<open>VedPrelude\<close>: machine integers, little-endian bytes, masks, association lists, strings.
  \<^item> \<open>Ring_Slot\<close>, \<open>Queue_Spec_Ved\<close>, \<open>Spsc_Ring\<close>, \<open>Spsc_Concurrent\<close> (\<open>ring/mod.rs\<close>, \<open>ring/spsc.rs\<close>): the ring
    of one producer and one consumer. The locale \<open>bounded_queue\<close> is the contract of a bounded queue,
    the ring is an interpretation of it, and \<open>Spsc_Concurrent\<close> interleaves the atomic loads and
    stores of the two threads.
  \<^item> \<open>Mpmc_Ring\<close> (\<open>ring/mpmc.rs\<close>): the ring for several threads, which works for one lap only.
  \<^item> \<open>Arena\<close>, \<open>Arena_Concurrent\<close> (\<open>arena.rs\<close>): bump allocation, free lists inside the freed memory, and
    the compare-and-swap loop of several threads.
  \<^item> \<open>Session_Ved\<close>, \<open>Session_Memory\<close>, \<open>Session_Registry\<close>, \<open>Session_Proofs\<close> (\<open>session.rs\<close>): the sessions of
    local clients, with the two rings of a session as bytes in the memory of the arena. The manager
    simulates a map from session ids to two bounded queues.
  \<^item> \<open>Kv_Table\<close>, \<open>Kv_Store\<close> (\<open>kv/hash_table.rs\<close>, \<open>kv/shard.rs\<close>, \<open>kv/mod.rs\<close>, \<open>simple_kv.rs\<close>): the hash
    table over the arena, shards and the store; when probing returns, what operations do, and that
    slots are used up.
  \<^item> \<open>Core_Ved\<close>, \<open>Core_Proofs\<close> (\<open>core.rs\<close>): the database in shared memory, which joins arena, store,
    sessions and publish and subscribe, and the commands of local clients.

  \<^bold>\<open>Documents and storage.\<close>
  \<^item> \<open>Document\<close> (\<open>document.rs\<close>), \<open>Json_Ved\<close>, \<open>Float64_Ved\<close>, \<open>Float64_Arith\<close> (what the sources use of JSON
    values and of 64-bit floats, on bit patterns), \<open>Stable_Sort\<close> (\<open>sort_by\<close>).
  \<^item> \<open>Store_Spec\<close>: the locale \<open>map_store\<close>, what reads return after writes and deletes, interpreted by
    the documents and metadata of the persistent layer, the simple store, hashes and sorted sets.
  \<^item> \<open>Persistent_Layer\<close>, \<open>Index_Metadata\<close> (\<open>storage/persistent.rs\<close>, the build without RocksDB).
  \<^item> \<open>Wal_Entry\<close>, \<open>Wal_Names\<close>, \<open>Wal_Writer\<close>, \<open>Wal_Replay\<close> (\<open>wal/\<close>): frames, file names and their order,
    the buffered writer with rotation, sync policies, restart and compaction, and replay: what was
    appended and synced is what is replayed after a crash.
  \<^item> \<open>Cache_Data\<close>, \<open>Cache_Layer\<close> (\<open>cache/\<close>): cached values, expiry, eviction and the size limit.
  \<^item> \<open>Schema_Ved\<close>, \<open>Collection_Ved\<close> (\<open>schema.rs\<close>, \<open>storage/collection.rs\<close>): validation, and that the
    documents of a collection stay valid.
  \<^item> \<open>Hybrid_Storage\<close> (\<open>storage/hybrid.rs\<close>): the four cache strategies and the queue of delayed writes;
    cached reads are fresh, and a flush reaches the abstract store.

  \<^bold>\<open>Indexes and queries.\<close>
  \<^item> \<open>Index_Btree\<close>, \<open>Index_Manager\<close> (\<open>index/\<close>): the ordered index and the manager with its rollback; every
    index stays exact.
  \<^item> \<open>Query_Engine\<close>, \<open>Query_Index\<close>, \<open>Query_Results\<close>, \<open>Query_Parser\<close> (\<open>query/\<close>): evaluation, planning and
    parsing; an index scan equals the collection scan, results are the sorted page, and filters are
    parsed back from their JSON form.
  \<^item> \<open>Aggregation_Ved\<close> (\<open>aggregation.rs\<close>): the pipeline; grouping against a reference definition.

  \<^bold>\<open>Encryption and access.\<close>
  \<^item> \<open>Encryption_Ved\<close>, \<open>Key_Rotation\<close>, \<open>Rotation_Proofs\<close>, \<open>Hybrid_Encrypted\<close> (\<open>encryption/\<close>,
    \<open>storage/hybrid_encrypted_storage_impl.rs\<close>): keys, containers, rotation in batches with checkpoints.
    The locale \<open>encrypted_storage\<close> is the contract of the storage under a rotation, interpreted by a
    reference storage and, through the locale \<open>hybrid_codec\<close>, by the hybrid engine.
  \<^item> \<open>Auth_Rbac\<close>, \<open>Audit_Log\<close>, \<open>Auth_System\<close> (\<open>auth/\<close>): roles, users, decisions on resources, audit,
    tokens and sessions.
  \<^item> \<open>Pub_Sub\<close>, \<open>Pub_Sub_Proofs\<close> (\<open>pubsub/mod.rs\<close>): subscribers shared between tables, delivery against
    an abstract registry, patterns as globs.

  \<^bold>\<open>The server.\<close>
  \<^item> \<open>Wire_Protocol\<close>, \<open>Protocol_Requests\<close>, \<open>Protocol_Compat\<close>, \<open>Protocol_Handler\<close> (\<open>protocol.rs\<close>,
    \<open>protocol/compatibility.rs\<close>): the binary format, requests, the older protocol.
  \<^item> \<open>Server_State\<close>, \<open>Server_Handlers\<close>, \<open>Server_Loop\<close>, \<open>Server_Proofs\<close>, \<open>Server_Documents\<close>,
    \<open>Server_Examples\<close> (\<open>protocol/connection.rs\<close>): connections and sessions, the handlers on the models
    of storage, queries, authentication and encryption, and the server as a transition system in
    which rounds of connections interleave: outsiders change nothing, commands are answered in order,
    what a client inserts its queries return.

  \<^item> \<open>Config_Ved\<close> (\<open>config.rs\<close>): settings, validation and the manager that loads, changes, saves and reloads
    them; the default settings are saved by the first manager and refused by the next.
  \<^item> \<open>Metrics_Ved\<close> (\<open>monitoring/metrics.rs\<close>): counters and the circular buffers of latencies, whose
    percentiles are those of the last ten thousand samples.

  \<^bold>\<open>Copies.\<close>
  \<^item> \<open>Snapshot_Ved\<close>, \<open>Snapshot_Proofs\<close> (\<open>snapshot/\<close>): the file format, writing and loading. The locale
    \<open>prefix_reader\<close> says that a reader does not look past what it consumes and fails on less; all
    readers of the format are interpretations of it, which gives that truncated files are refused.
  \<^item> \<open>Backup_Ved\<close>, \<open>Backup_Proofs\<close> (\<open>backup.rs\<close>): backups on a disk of files, restore, retention,
    verification, recovery to a point in time, export and import.
  \<^item> \<open>Replication_Ved\<close>, \<open>Replication_Manager\<close>, \<open>Replication_Proofs\<close>, \<open>Replication_Examples\<close> (\<open>replication/\<close>):
    messages, full and incremental synchronisation on both sides, the table of slaves, the task of a
    slave, promotion.

  \<^bold>\<open>Code outside the repository\<close> is a parameter: the texts of serde_json and bincode, UUIDs, CRC32,
  SHA-256, AES-GCM and key derivation, bcrypt, JWT, regular expressions and zstd are fields of the
  codec records (\<open>doc_codec\<close>, \<open>wal_codec\<close>, \<open>snapshot_codec\<close>, \<open>repl_codec\<close> and the like). What a theorem
  needs of them is a named hypothesis of documented behaviour (round trips, lengths, no collisions of
  texts), and a witness instantiates them by concrete functions. Clocks, random ids, new event
  descriptors and what arrives on a socket are arguments.

  \<^bold>\<open>Loops and bounds.\<close> Loops over data are structural or have a measure: readers of the log consume at
  least eight bytes per entry, sections of a snapshot at least four. Compare-and-swap loops are step
  relations. \<open>find_entry\<close> of the hash table and the calls of the MPMC ring may not return, which is
  \<open>None\<close>; theorems say when they do. Counters of 64 bits are kept at their width, and invariants carry
  the number of further operations for which they cannot wrap. Sizes of memory are below \<open>2 ^ 62\<close>.

  \<^bold>\<open>Not modelled:\<close> TLS (\<open>encryption/tls.rs\<close>, configuration of a
  third-party library), the mapping of shared memory by the operating system
  (\<open>memory.rs\<close>), health checks, logging and the export of metrics (the rest of \<open>monitoring/\<close>), the RocksDB builds, operating system errors
  of files and sockets, background timers (their passes are steps), the streaming task of
  replication that nothing starts, statistics as floats, and effects of weak memory beyond the order
  of the atomic steps.
\<close>

end
